(* ===== verification/Prelude.thy ===== *)
theory Prelude
  imports Main "HOL-Library.Word"
begin

text \<open>
  Shared vocabulary of the development.

  \<^item> identifiers and time: every id newtype of \<^verbatim>\<open>crates/shared/src/ids.rs\<close> wraps a UUID, of
    which the program uses equality and order only; a UUID is a natural number here. A
    \<^verbatim>\<open>Timestamp\<close> is an integer instant;
  \<^item> strings are ASCII byte strings (\<open>string\<close>), so \<^verbatim>\<open>str::len\<close> and \<^verbatim>\<open>chars().count()\<close> agree;
    \<^verbatim>\<open>trim\<close>, \<^verbatim>\<open>split\<close>, \<^verbatim>\<open>join\<close>, \<^verbatim>\<open>replace\<close> of the Rust standard library are the functions
    below;
  \<^item> \<^verbatim>\<open>serde_json::Value\<close> is the datatype \<open>json\<close>;
  \<^item> \<^verbatim>\<open>CoreError\<close> of \<^verbatim>\<open>crates/shared/src/error.rs\<close>, and \<open>result\<close> for \<^verbatim>\<open>Result<T, CoreError>\<close>
    (\<open>Inl\<close> is \<^verbatim>\<open>Err\<close>). The text of a formatted message is kept up to its first
    interpolated value;
  \<^item> tables: a SQL table keyed by an id is the list of its rows in insertion order, with
    \<open>row_get\<close>, \<open>row_upsert\<close>, \<open>row_delete\<close> and \<open>row_modify\<close>; the locale \<open>keyed_table\<close> states the
    laws the repositories rely on once, and every repository interprets it on its rows.
\<close>

named_theorems table_simps \<open>rewrite rules for table operations\<close>
named_theorems result_simps \<open>rewrite rules for results\<close>

subsection \<open>Identifiers, time, JSON\<close>

type_synonym uuid = nat
type_synonym timestamp = int

datatype json =
    JNull
  | JBool bool
  | JNum int
  | JString string
  | JArray "json list"
  | JObject "(string \<times> json) list"

subsection \<open>Errors and results\<close>

datatype core_error =
    NotFound string
  | Validation string
  | Conflict string
  | Storage string
  | Sync string
  | Ai string
  | Serde string
  | Io string
  | Unauthorized string
  | Forbidden string
  | QuotaExceeded string int int
  | CodedConflict string string json
  | Unprocessable string string json

fun error_code :: "core_error \<Rightarrow> string" where
  "error_code (NotFound _) = ''not_found''"
| "error_code (Validation _) = ''validation''"
| "error_code (Conflict _) = ''conflict''"
| "error_code (Storage _) = ''storage_error''"
| "error_code (Sync _) = ''sync_error''"
| "error_code (Ai _) = ''ai_unavailable''"
| "error_code (Serde _) = ''serialization_error''"
| "error_code (Io _) = ''io_error''"
| "error_code (Unauthorized _) = ''unauthorized''"
| "error_code (Forbidden _) = ''forbidden''"
| "error_code (QuotaExceeded _ _ _) = ''quota_exceeded''"
| "error_code (CodedConflict c _ _) = c"
| "error_code (Unprocessable c _ _) = c"

type_synonym 'a result = "core_error + 'a"

definition bind_result :: "'a result \<Rightarrow> ('a \<Rightarrow> 'b result) \<Rightarrow> 'b result" where
  "bind_result r f = (case r of Inl e \<Rightarrow> Inl e | Inr x \<Rightarrow> f x)"

definition ok_or :: "core_error \<Rightarrow> 'a option \<Rightarrow> 'a result" where
  "ok_or e x = (case x of None \<Rightarrow> Inl e | Some v \<Rightarrow> Inr v)"

lemma bind_result_simps [simp, result_simps]:
  "bind_result (Inl e) f = Inl e"
  "bind_result (Inr x) f = f x"
  by (simp_all add: bind_result_def)

lemma bind_result_Inr_iff [result_simps]:
  "bind_result r f = Inr y \<longleftrightarrow> (\<exists>x. r = Inr x \<and> f x = Inr y)"
  by (cases r) simp_all

lemma bind_result_Inl_iff [result_simps]:
  "bind_result r f = Inl e \<longleftrightarrow> r = Inl e \<or> (\<exists>x. r = Inr x \<and> f x = Inl e)"
  by (cases r) auto

lemma ok_or_simps [simp, result_simps]:
  "ok_or e None = Inl e"
  "ok_or e (Some v) = Inr v"
  by (simp_all add: ok_or_def)

lemma ok_or_Inr_iff [result_simps]: "ok_or e x = Inr v \<longleftrightarrow> x = Some v"
  by (cases x) simp_all

text \<open>\<^verbatim>\<open>Option::unwrap_or\<close>: the value, or a default.\<close>

definition unwrap_or :: "'a \<Rightarrow> 'a option \<Rightarrow> 'a" where
  "unwrap_or d x = (case x of None \<Rightarrow> d | Some v \<Rightarrow> v)"

lemma unwrap_or_simps [simp]:
  "unwrap_or d None = d"
  "unwrap_or d (Some v) = v"
  by (simp_all add: unwrap_or_def)

text \<open>\<^verbatim>\<open>Option::or\<close>: the first option that is present.\<close>

definition or_opt :: "'a option \<Rightarrow> 'a option \<Rightarrow> 'a option" where
  "or_opt x y = (case x of None \<Rightarrow> y | Some _ \<Rightarrow> x)"

lemma or_opt_simps [simp]:
  "or_opt None y = y"
  "or_opt (Some v) y = Some v"
  by (simp_all add: or_opt_def)

subsection \<open>Strings\<close>

definition is_space :: "char \<Rightarrow> bool" where
  "is_space c \<longleftrightarrow> c \<in> set [CHR '' '', CHR 0x09, CHR 0x0A, CHR 0x0B, CHR 0x0C, CHR 0x0D]"

definition trim :: "string \<Rightarrow> string" where
  "trim s = rev (dropWhile is_space (rev (dropWhile is_space s)))"

definition is_control :: "char \<Rightarrow> bool" where
  "is_control c \<longleftrightarrow> of_char c < (32 :: nat) \<or> of_char c = (127 :: nat)"

definition is_ascii_alpha :: "char \<Rightarrow> bool" where
  "is_ascii_alpha c \<longleftrightarrow>
     (65 \<le> (of_char c :: nat) \<and> of_char c \<le> (90 :: nat)) \<or>
     (97 \<le> (of_char c :: nat) \<and> of_char c \<le> (122 :: nat))"

definition is_ascii_digit :: "char \<Rightarrow> bool" where
  "is_ascii_digit c \<longleftrightarrow> 48 \<le> (of_char c :: nat) \<and> of_char c \<le> (57 :: nat)"

definition is_ascii_hexdigit :: "char \<Rightarrow> bool" where
  "is_ascii_hexdigit c \<longleftrightarrow> is_ascii_digit c \<or>
     (65 \<le> (of_char c :: nat) \<and> of_char c \<le> (70 :: nat)) \<or>
     (97 \<le> (of_char c :: nat) \<and> of_char c \<le> (102 :: nat))"

definition char_upper :: "char \<Rightarrow> char" where
  "char_upper c =
     (if 97 \<le> (of_char c :: nat) \<and> of_char c \<le> (122 :: nat)
      then char_of ((of_char c :: nat) - 32) else c)"

definition char_lower :: "char \<Rightarrow> char" where
  "char_lower c =
     (if 65 \<le> (of_char c :: nat) \<and> of_char c \<le> (90 :: nat)
      then char_of ((of_char c :: nat) + 32) else c)"

text \<open>\<^verbatim>\<open>str::split\<close> on one character: always at least one piece.\<close>

fun split_on :: "char \<Rightarrow> string \<Rightarrow> string list" where
  "split_on d [] = [[]]"
| "split_on d (c # cs) =
     (if c = d then [] # split_on d cs
      else (case split_on d cs of [] \<Rightarrow> [[c]] | w # ws \<Rightarrow> (c # w) # ws))"

text \<open>\<^verbatim>\<open>[&str]::join\<close> with a one-character separator.\<close>

fun join_with :: "char \<Rightarrow> string list \<Rightarrow> string" where
  "join_with d [] = []"
| "join_with d [w] = w"
| "join_with d (w # ws) = w @ d # join_with d ws"

definition replace_char :: "char \<Rightarrow> char \<Rightarrow> string \<Rightarrow> string" where
  "replace_char a b s = map (\<lambda>c. if c = a then b else c) s"

definition starts_with :: "string \<Rightarrow> string \<Rightarrow> bool" where
  "starts_with p s \<longleftrightarrow> take (length p) s = p"

definition strip_prefix :: "string \<Rightarrow> string \<Rightarrow> string option" where
  "strip_prefix p s = (if starts_with p s then Some (drop (length p) s) else None)"

text \<open>\<^verbatim>\<open>str::split_once\<close>, \<^verbatim>\<open>strip_suffix\<close>, \<^verbatim>\<open>trim_end_matches\<close> and \<^verbatim>\<open>trim_matches\<close> on one character,
  \<^verbatim>\<open>eq_ignore_ascii_case\<close>.\<close>

fun split_once :: "string \<Rightarrow> string \<Rightarrow> (string \<times> string) option" where
  "split_once sep [] = (if sep = [] then Some ([], []) else None)"
| "split_once sep (c # cs) =
     (if starts_with sep (c # cs) then Some ([], drop (length sep) (c # cs))
      else map_option (\<lambda>(a, b). (c # a, b)) (split_once sep cs))"

definition strip_suffix :: "string \<Rightarrow> string \<Rightarrow> string option" where
  "strip_suffix p s = map_option rev (strip_prefix (rev p) (rev s))"

definition trim_end_char :: "char \<Rightarrow> string \<Rightarrow> string" where
  "trim_end_char d s = rev (dropWhile (\<lambda>c. c = d) (rev s))"

definition trim_char :: "char \<Rightarrow> string \<Rightarrow> string" where
  "trim_char d s = trim_end_char d (dropWhile (\<lambda>c. c = d) s)"

text \<open>
  Strings are UTF-8: a character starts at every byte that is no continuation byte. \<^verbatim>\<open>s.chars().count()\<close>
  and \<^verbatim>\<open>s.chars().take(n)\<close>.
\<close>

definition is_continuation :: "char \<Rightarrow> bool" where
  "is_continuation c \<longleftrightarrow> digit7 c \<and> \<not> digit6 c"

definition char_count :: "string \<Rightarrow> nat" where
  "char_count s = length (filter (\<lambda>c. \<not> is_continuation c) s)"

fun take_chars :: "nat \<Rightarrow> string \<Rightarrow> string" where
  "take_chars n [] = []"
| "take_chars n (c # cs) =
     (if is_continuation c then c # take_chars n cs
      else case n of 0 \<Rightarrow> [] | Suc m \<Rightarrow> c # take_chars m cs)"

definition eq_ignore_ascii_case :: "string \<Rightarrow> string \<Rightarrow> bool" where
  "eq_ignore_ascii_case a b \<longleftrightarrow> map char_lower a = map char_lower b"

lemma is_continuation_Char [simp]: "is_continuation (Char b0 b1 b2 b3 b4 b5 b6 b7) \<longleftrightarrow> b7 \<and> \<not> b6"
  by (simp add: is_continuation_def)

lemma char_count_take_chars: "char_count (take_chars n s) \<le> n"
  by (induction n s rule: take_chars.induct) (auto simp: char_count_def split: nat.split)

lemma take_chars_prefix: "\<exists>rest. s = take_chars n s @ rest"
  by (induction n s rule: take_chars.induct) (auto split: nat.split)

lemma split_once_eq: "split_once sep s = Some (a, b) \<Longrightarrow> s = a @ sep @ b"
proof (induction s arbitrary: a)
  case (Cons c cs)
  show ?case
  proof (cases "starts_with sep (c # cs)")
    case True
    then show ?thesis using Cons.prems
      by (metis append_Nil append_take_drop_id option.inject prod.inject split_once.simps(2) starts_with_def)
  next
    case False
    then show ?thesis using Cons by (auto split: prod.splits)
  qed
qed (simp split: if_splits)

lemma trim_end_char_last: "trim_end_char d s \<noteq> [] \<Longrightarrow> last (trim_end_char d s) \<noteq> d"
  using hd_dropWhile [of "\<lambda>c. c = d" "rev s"] by (simp add: trim_end_char_def last_rev)

lemma set_trim_end_char: "set (trim_end_char d s) \<subseteq> set s"
  by (auto simp: trim_end_char_def dest: set_dropWhileD)

lemma split_on_nonempty [simp]: "split_on d s \<noteq> []"
  by (induction s) (auto split: list.splits)

lemma split_on_pieces: "w \<in> set (split_on d s) \<Longrightarrow> d \<notin> set w"
  by (induction s arbitrary: w) (auto split: list.splits if_splits)

lemma split_on_no_sep: "d \<notin> set w \<Longrightarrow> split_on d w = [w]"
  by (induction w) auto

lemma split_on_append:
  "d \<notin> set w \<Longrightarrow> split_on d (w @ d # s) = w # split_on d s"
  by (induction w) (auto split: list.splits)

lemma split_on_join:
  assumes "ws \<noteq> []" and "\<And>w. w \<in> set ws \<Longrightarrow> d \<notin> set w"
  shows "split_on d (join_with d ws) = ws"
  using assms
proof (induction d ws rule: join_with.induct)
  case (3 d w v ws)
  then show ?case by (simp add: split_on_append)
qed (auto simp: split_on_no_sep)

lemma join_with_Nil_iff:
  "(\<And>w. w \<in> set ws \<Longrightarrow> w \<noteq> []) \<Longrightarrow> join_with d ws = [] \<longleftrightarrow> ws = []"
  by (cases "(d, ws)" rule: join_with.cases) auto

lemma trim_idem: "trim (trim s) = trim s"
proof -
  have fixp: "dropWhile P (rev (dropWhile P (rev (dropWhile P xs)))) = rev (dropWhile P (rev (dropWhile P xs)))"
    for P :: "char \<Rightarrow> bool" and xs
  proof (cases "dropWhile P (rev (dropWhile P xs))" rule: rev_cases)
    case (snoc ys y)
    let ?zs = "dropWhile P xs"
    have "?zs \<noteq> []" using snoc by (metis Nil_is_append_conv dropWhile.simps(1) list.discI rev.simps(1))
    have "rev ?zs = takeWhile P (rev ?zs) @ ys @ [y]" using snoc by (metis takeWhile_dropWhile_id)
    then have "?zs = y # rev ys @ rev (takeWhile P (rev ?zs))"
      by (metis append.assoc rev.simps(2) rev_append rev_rev_ident)
    then have "\<not> P y" using hd_dropWhile [of P xs] \<open>?zs \<noteq> []\<close> by (metis list.sel(1))
    then show ?thesis using snoc by simp
  next
    case Nil
    then show ?thesis by (metis dropWhile.simps(1) rev.simps(1))
  qed
  have "dropWhile is_space (rev (trim s)) = rev (trim s)"
    unfolding trim_def by (simp add: dropWhile_idem)
  then show ?thesis unfolding trim_def using fixp [of is_space s] by simp
qed

subsection \<open>Tables of rows\<close>

text \<open>
  A repository reads and writes rows of one SQL table by primary key. \<open>key\<close> extracts the primary
  key. \<^verbatim>\<open>INSERT ... ON CONFLICT(id) DO UPDATE\<close> is \<open>row_upsert\<close>: the row is replaced in place, or
  appended.
\<close>

definition row_get :: "('r \<Rightarrow> uuid) \<Rightarrow> 'r list \<Rightarrow> uuid \<Rightarrow> 'r option" where
  "row_get key rows i = find (\<lambda>r. key r = i) rows"

fun row_upsert :: "('r \<Rightarrow> uuid) \<Rightarrow> 'r \<Rightarrow> 'r list \<Rightarrow> 'r list" where
  "row_upsert key r [] = [r]"
| "row_upsert key r (x # xs) = (if key x = key r then r # xs else x # row_upsert key r xs)"

definition row_delete :: "('r \<Rightarrow> uuid) \<Rightarrow> uuid \<Rightarrow> 'r list \<Rightarrow> 'r list" where
  "row_delete key i rows = filter (\<lambda>r. key r \<noteq> i) rows"

text \<open>\<^verbatim>\<open>UPDATE t SET ... WHERE id = ?\<close>\<close>

definition row_modify :: "('r \<Rightarrow> uuid) \<Rightarrow> uuid \<Rightarrow> ('r \<Rightarrow> 'r) \<Rightarrow> 'r list \<Rightarrow> 'r list" where
  "row_modify key i f rows = map (\<lambda>r. if key r = i then f r else r) rows"

definition keys_distinct :: "('r \<Rightarrow> uuid) \<Rightarrow> 'r list \<Rightarrow> bool" where
  "keys_distinct key rows \<longleftrightarrow> distinct (map key rows)"

lemma find_Some_mem: "find P xs = Some c \<Longrightarrow> c \<in> set xs \<and> P c"
  by (induction xs) (auto split: if_splits)

lemma row_get_Nil [simp]: "row_get key [] i = None"
  by (simp add: row_get_def)

lemma row_get_Cons [simp]:
  "row_get key (r # rs) i = (if key r = i then Some r else row_get key rs i)"
  by (simp add: row_get_def)

lemma row_get_Some: "row_get key rows i = Some r \<Longrightarrow> r \<in> set rows \<and> key r = i"
  by (induction rows) (auto split: if_splits)

lemma row_get_None_iff: "row_get key rows i = None \<longleftrightarrow> i \<notin> key ` set rows"
  by (induction rows) auto

lemma row_get_mem:
  "keys_distinct key rows \<Longrightarrow> r \<in> set rows \<Longrightarrow> row_get key rows (key r) = Some r"
  by (induction rows) (auto simp: keys_distinct_def)

lemma row_get_upsert [table_simps]:
  "row_get key (row_upsert key r rows) i = (if i = key r then Some r else row_get key rows i)"
  by (induction rows) auto

lemma row_get_delete [table_simps]:
  "row_get key (row_delete key j rows) i = (if i = j then None else row_get key rows i)"
  by (induction rows) (auto simp: row_delete_def)

lemma row_get_modify [table_simps]:
  assumes "\<And>r. key (f r) = key r"
  shows "row_get key (row_modify key j f rows) i =
    (if i = j then map_option f (row_get key rows i) else row_get key rows i)"
  using assms by (induction rows) (auto simp: row_modify_def)

lemma set_row_upsert: "set (row_upsert key r rows) \<subseteq> insert r (set rows)"
  by (induction rows) auto

lemma keys_row_upsert: "key ` set (row_upsert key r rows) = insert (key r) (key ` set rows)"
  by (induction rows) auto

lemma keys_distinct_upsert [table_simps]:
  "keys_distinct key rows \<Longrightarrow> keys_distinct key (row_upsert key r rows)"
proof (induction rows)
  case (Cons x xs)
  then show ?case using keys_row_upsert [of key r xs] by (auto simp: keys_distinct_def)
qed (simp add: keys_distinct_def)

lemma keys_distinct_delete [table_simps]:
  "keys_distinct key rows \<Longrightarrow> keys_distinct key (row_delete key i rows)"
  by (simp add: keys_distinct_def row_delete_def distinct_map_filter)

lemma keys_distinct_modify [table_simps]:
  "(\<And>r. key (f r) = key r) \<Longrightarrow> keys_distinct key (row_modify key i f rows) = keys_distinct key rows"
  by (simp add: keys_distinct_def row_modify_def comp_def if_distrib [of key] cong: if_cong)

subsection \<open>The table interface\<close>

text \<open>
  What a repository promises its clients: the row just written is the row read back, other rows are
  untouched, a deleted row is gone, and the primary key stays unique.
\<close>

locale keyed_table =
  fixes invar :: "'s \<Rightarrow> bool"
    and get :: "'s \<Rightarrow> uuid \<Rightarrow> 'r option"
    and put :: "'r \<Rightarrow> 's \<Rightarrow> 's"
    and del :: "uuid \<Rightarrow> 's \<Rightarrow> 's"
    and key :: "'r \<Rightarrow> uuid"
  assumes get_put: "invar s \<Longrightarrow> get (put r s) i = (if i = key r then Some r else get s i)"
    and get_del: "invar s \<Longrightarrow> get (del j s) i = (if i = j then None else get s i)"
    and invar_put: "invar s \<Longrightarrow> invar (put r s)"
    and invar_del: "invar s \<Longrightarrow> invar (del j s)"
    and get_key: "invar s \<Longrightarrow> get s i = Some r \<Longrightarrow> key r = i"
begin

lemma get_put_same: "invar s \<Longrightarrow> get (put r s) (key r) = Some r"
  by (simp add: get_put)

lemma get_put_other: "invar s \<Longrightarrow> i \<noteq> key r \<Longrightarrow> get (put r s) i = get s i"
  by (simp add: get_put)

lemma put_commute:
  "invar s \<Longrightarrow> key r \<noteq> key q \<Longrightarrow> get (put r (put q s)) i = get (put q (put r s)) i"
  by (simp add: get_put invar_put)

lemma put_overwrite: "invar s \<Longrightarrow> key r = key q \<Longrightarrow> get (put r (put q s)) i = get (put r s) i"
  by (simp add: get_put invar_put)

lemma del_put_same: "invar s \<Longrightarrow> get (del (key r) (put r s)) i = get (del (key r) s) i"
  by (simp add: get_put get_del invar_put)

lemma put_keeps_presence: "invar s \<Longrightarrow> get s i \<noteq> None \<Longrightarrow> get (put r s) i \<noteq> None"
  by (simp add: get_put)

end

text \<open>The list-of-rows representation satisfies the interface for every key.\<close>

lemma keyed_table_rows: "keyed_table (keys_distinct key) (row_get key) (row_upsert key) (row_delete key) key"
  by unfold_locales (auto simp: table_simps dest: row_get_Some)

end
