(* ===== verification/Domain_Task.thy ===== *)
theory Domain_Task
  imports Prelude
begin

text \<open>
  The task entity of \<^verbatim>\<open>crates/domain/src/task.rs\<close>, the actor of \<^verbatim>\<open>agent.rs\<close>, the role pipeline of
  \<^verbatim>\<open>pipeline.rs\<close>, the comment entity of \<^verbatim>\<open>comment.rs\<close> and the field-ownership taxonomy of
  \<^verbatim>\<open>field_ownership.rs\<close>: enums as datatypes, structs as records whose fields carry a prefix
  (\<open>t_\<close> task, \<open>nt_\<close> new task, \<open>tp_\<close> task patch, \<open>git_\<close> git context, \<open>pp_\<close> pipeline position,
  \<open>cm_\<close> comment), methods as functions. \<^verbatim>\<open>time::now()\<close> is an argument.
\<close>

subsection \<open>Status, priority, triage\<close>

datatype status = Inbox | Todo | InProgress | InReview | Done | Cancelled

definition status_default :: status where
  "status_default = Inbox"

fun is_terminal :: "status \<Rightarrow> bool" where
  "is_terminal Done = True"
| "is_terminal Cancelled = True"
| "is_terminal _ = False"

fun status_as_str :: "status \<Rightarrow> string" where
  "status_as_str Inbox = ''inbox''"
| "status_as_str Todo = ''todo''"
| "status_as_str InProgress = ''in_progress''"
| "status_as_str InReview = ''in_review''"
| "status_as_str Done = ''done''"
| "status_as_str Cancelled = ''cancelled''"

definition status_parse_str :: "string \<Rightarrow> status option" where
  "status_parse_str s =
     (if s = ''inbox'' then Some Inbox
      else if s = ''todo'' then Some Todo
      else if s = ''in_progress'' then Some InProgress
      else if s = ''in_review'' then Some InReview
      else if s = ''done'' then Some Done
      else if s = ''cancelled'' then Some Cancelled
      else None)"

datatype priority = P0 | P1 | P2 | P3

definition priority_default :: priority where
  "priority_default = P2"

datatype triage_state = Pending | Accepted | Rejected

lemma is_terminal_iff: "is_terminal s \<longleftrightarrow> s = Done \<or> s = Cancelled"
  by (cases s) simp_all

lemma status_parse_as_str: "status_parse_str (status_as_str s) = Some s"
  by (cases s) (simp_all add: status_parse_str_def)

lemma status_parse_Some: "status_parse_str x = Some s \<Longrightarrow> x = status_as_str s"
  by (auto simp: status_parse_str_def split: if_splits)

subsection \<open>agent.rs: who initiated a command\<close>

datatype actor =
    User (actor_user_id: "uuid option") (actor_user_name: "string option") (user_client: "string option")
  | Agent (actor_agent_id: uuid) (actor_agent_name: string) (agent_client: "string option")

definition actor_user :: actor where
  "actor_user = User None None None"

definition user_with_id :: "uuid \<Rightarrow> actor" where
  "user_with_id i = User (Some i) None None"

fun principal_id :: "actor \<Rightarrow> uuid option" where
  "principal_id (User i _ _) = i"
| "principal_id (Agent i _ _) = Some i"

fun actor_client :: "actor \<Rightarrow> string option" where
  "actor_client (User _ _ c) = c"
| "actor_client (Agent _ _ c) = c"

fun or_client :: "actor \<Rightarrow> string option \<Rightarrow> actor" where
  "or_client (User i n c) fallback = User i n (if c = None then fallback else c)"
| "or_client (Agent i n c) fallback = Agent i n (if c = None then fallback else c)"

fun is_agent :: "actor \<Rightarrow> bool" where
  "is_agent (Agent _ _ _) = True"
| "is_agent (User _ _ _) = False"

lemma or_client_principal: "principal_id (or_client a c) = principal_id a"
  by (cases a) simp_all

lemma or_client_client: "actor_client (or_client a c) = or_opt (actor_client a) c"
  by (cases a) (auto simp: or_opt_def split: option.splits)

subsection \<open>Git context\<close>

record git_context =
  git_repo :: "string option"
  git_branch :: "string option"
  git_head_sha :: "string option"
  git_mr_url :: "string option"

text \<open>\<^verbatim>\<open>clean\<close>, the local helper of \<^verbatim>\<open>GitContext::normalized\<close>; the error is the message text.\<close>

definition git_clean :: "string option \<Rightarrow> string \<Rightarrow> nat \<Rightarrow> string + string option" where
  "git_clean value name limit =
     (case value of
        None \<Rightarrow> Inr None
      | Some v \<Rightarrow>
          let v = trim v in
          if v = [] then Inr None
          else if char_count v > limit then Inl (''git_context.'' @ name @ '' is longer than'')
          else if list_ex is_control v
            then Inl (''git_context.'' @ name @ '' contains control characters'')
          else Inr (Some v))"

definition git_normalized :: "git_context \<Rightarrow> string + git_context" where
  "git_normalized g =
     (case git_clean (git_repo g) ''repo'' 512 of Inl e \<Rightarrow> Inl e | Inr repo \<Rightarrow>
     (case git_clean (git_branch g) ''branch'' 256 of Inl e \<Rightarrow> Inl e | Inr branch \<Rightarrow>
     (case git_clean (git_head_sha g) ''head_sha'' 64 of Inl e \<Rightarrow> Inl e | Inr sha \<Rightarrow>
     (case git_clean (git_mr_url g) ''mr_url'' 2048 of Inl e \<Rightarrow> Inl e | Inr url \<Rightarrow>
     (if (case sha of Some s \<Rightarrow> length s < 7 \<or> \<not> list_all is_ascii_hexdigit s | None \<Rightarrow> False)
      then Inl ''git_context.head_sha must be 7-64 hex characters''
      else if (case url of
                 Some u \<Rightarrow> \<not> ((starts_with ''https://'' u \<or> starts_with ''http://'' u)
                               \<and> \<not> list_ex is_space u)
               | None \<Rightarrow> False)
      then Inl ''git_context.mr_url must be an absolute http(s) URL''
      else if repo = None \<and> branch = None \<and> sha = None \<and> url = None
      then Inl ''git_context must set at least one of repo, branch, head_sha, mr_url''
      else Inr \<lparr>git_repo = repo, git_branch = branch,
                git_head_sha = map_option (map char_lower) sha, git_mr_url = url\<rparr>)))))"

subsection \<open>pipeline.rs: position in a role pipeline\<close>

record pipeline_position =
  pp_stage_index :: nat
  pp_role :: string
  pp_complete :: bool
  pp_fanout :: nat
  pp_required :: bool
  pp_closed :: "string list"

definition MAX_STAGE_FANOUT :: nat where
  "MAX_STAGE_FANOUT = 16"

definition REVIEW_ROLES :: "string list" where
  "REVIEW_ROLES = [''reviewer'', ''reconciler'']"

datatype fan_in = Repeat | FanPending nat nat | Closed

definition position_at :: "nat \<Rightarrow> string \<Rightarrow> pipeline_position" where
  "position_at stage_index role =
     \<lparr>pp_stage_index = stage_index, pp_role = role, pp_complete = False,
      pp_fanout = 1, pp_required = True, pp_closed = []\<rparr>"

definition position_completed :: "nat \<Rightarrow> string \<Rightarrow> pipeline_position" where
  "position_completed stage_index role = (position_at stage_index role)\<lparr>pp_complete := True\<rparr>"

definition position_validate :: "pipeline_position \<Rightarrow> string + unit" where
  "position_validate p =
     (let role = trim (pp_role p) in
      if role = [] then Inl ''pipeline_position.role must not be empty''
      else if length role > 64 then Inl ''pipeline_position.role must not exceed 64 bytes''
      else if pp_fanout p = 0 \<or> pp_fanout p > MAX_STAGE_FANOUT
      then Inl ''pipeline_position.fanout must be 1..=16''
      else Inr ())"

definition fan_in_closed :: "pipeline_position \<Rightarrow> bool" where
  "fan_in_closed p \<longleftrightarrow> length (pp_closed p) \<ge> pp_fanout p"

text \<open>\<^verbatim>\<open>close_instance\<close> takes \<^verbatim>\<open>&mut self\<close>: the updated position is returned with the result.\<close>

definition close_instance :: "pipeline_position \<Rightarrow> string \<Rightarrow> string + (fan_in \<times> pipeline_position)" where
  "close_instance p inst =
     (let inst = trim inst in
      if inst = [] \<or> length inst > 128 then Inl ''instance must be 1..=128 bytes''
      else if pp_complete p then Inl ''pipeline_complete: the pipeline has no open stage''
      else if inst \<in> set (pp_closed p) then Inr (Repeat, p)
      else if fan_in_closed p then Inl ''fan_in_full: stage''
      else let p' = p\<lparr>pp_closed := pp_closed p @ [inst]\<rparr>
           in Inr (if fan_in_closed p' then Closed
                   else FanPending (length (pp_closed p')) (pp_fanout p'), p'))"

definition fan_in_blocks :: "pipeline_position \<Rightarrow> string option" where
  "fan_in_blocks current =
     (if pp_complete current \<or> \<not> pp_required current \<or> pp_fanout current \<le> 1 \<or> fan_in_closed current
      then None
      else Some ''fan_in_pending: stage'')"

definition canonical_status :: "pipeline_position \<Rightarrow> status" where
  "canonical_status p =
     (if pp_complete p then Done
      else if trim (pp_role p) \<in> set REVIEW_ROLES then InReview
      else InProgress)"

definition direct_status_write_allowed :: "pipeline_position option \<Rightarrow> status \<Rightarrow> bool" where
  "direct_status_write_allowed position to \<longleftrightarrow> position = None \<or> to = Cancelled"

subsection \<open>Task, NewTask, TaskPatch\<close>

record task =
  t_id :: uuid
  t_project_id :: "uuid option"
  t_title :: string
  t_description :: string
  t_status :: status
  t_priority :: priority
  t_triage_state :: "triage_state option"
  t_due_at :: "timestamp option"
  t_created_at :: timestamp
  t_updated_at :: timestamp
  t_started_at :: "timestamp option"
  t_completed_at :: "timestamp option"
  t_created_by :: "actor option"
  t_completed_by :: "actor option"
  t_updated_by :: "actor option"
  t_updated_event_id :: "uuid option"
  t_updated_event_seq :: "nat option"
  t_source_event_id :: "uuid option"
  t_external_key :: "string option"
  t_git_context :: "git_context option"

record new_task =
  nt_id :: "uuid option"
  nt_project_id :: "uuid option"
  nt_title :: string
  nt_description :: "string option"
  nt_status :: "status option"
  nt_priority :: "priority option"
  nt_triage_state :: "triage_state option"
  nt_due_at :: "timestamp option"
  nt_external_key :: "string option"
  nt_source_event_id :: "uuid option"

text \<open>\<^verbatim>\<open>NewTask::new\<close>\<close>

definition new_task :: "string \<Rightarrow> new_task" where
  "new_task title =
     \<lparr>nt_id = None, nt_project_id = None, nt_title = title, nt_description = None,
      nt_status = None, nt_priority = None, nt_triage_state = None, nt_due_at = None,
      nt_external_key = None, nt_source_event_id = None\<rparr>"

text \<open>\<^verbatim>\<open>Task::from_new\<close>; \<open>fresh\<close> is the id \<^verbatim>\<open>TaskId::default()\<close> would draw.\<close>

definition task_from_new :: "uuid \<Rightarrow> timestamp \<Rightarrow> new_task \<Rightarrow> task" where
  "task_from_new fresh now input =
     \<lparr>t_id = unwrap_or fresh (nt_id input),
      t_project_id = nt_project_id input,
      t_title = nt_title input,
      t_description = unwrap_or [] (nt_description input),
      t_status = unwrap_or status_default (nt_status input),
      t_priority = unwrap_or priority_default (nt_priority input),
      t_triage_state = nt_triage_state input,
      t_due_at = nt_due_at input,
      t_created_at = now,
      t_updated_at = now,
      t_started_at = None,
      t_completed_at = None,
      t_created_by = None,
      t_completed_by = None,
      t_updated_by = None,
      t_updated_event_id = None,
      t_updated_event_seq = None,
      t_source_event_id = nt_source_event_id input,
      t_external_key = nt_external_key input,
      t_git_context = None\<rparr>"

record task_patch =
  tp_title :: "string option"
  tp_description :: "string option"
  tp_status :: "status option"
  tp_priority :: "priority option"
  tp_triage_state :: "triage_state option option"
  tp_due_at :: "timestamp option option"
  tp_project_id :: "uuid option option"
  tp_git_context :: "git_context option option"
  tp_pipeline_position :: "pipeline_position option"

definition empty_patch :: task_patch where
  "empty_patch =
     \<lparr>tp_title = None, tp_description = None, tp_status = None, tp_priority = None,
      tp_triage_state = None, tp_due_at = None, tp_project_id = None,
      tp_git_context = None, tp_pipeline_position = None\<rparr>"

definition patch_is_empty :: "task_patch \<Rightarrow> bool" where
  "patch_is_empty p \<longleftrightarrow>
     tp_title p = None \<and> tp_description p = None \<and> tp_status p = None \<and>
     tp_priority p = None \<and> tp_triage_state p = None \<and> tp_due_at p = None \<and>
     tp_project_id p = None \<and> tp_git_context p = None \<and> tp_pipeline_position p = None"

definition patch_apply :: "timestamp \<Rightarrow> task_patch \<Rightarrow> task \<Rightarrow> task" where
  "patch_apply now p t = t
     \<lparr>t_title := unwrap_or (t_title t) (tp_title p),
      t_description := unwrap_or (t_description t) (tp_description p),
      t_status := unwrap_or (t_status t) (tp_status p),
      t_priority := unwrap_or (t_priority t) (tp_priority p),
      t_triage_state := unwrap_or (t_triage_state t) (tp_triage_state p),
      t_due_at := unwrap_or (t_due_at t) (tp_due_at p),
      t_project_id := unwrap_or (t_project_id t) (tp_project_id p),
      t_git_context := unwrap_or (t_git_context t) (tp_git_context p),
      t_updated_at := now\<rparr>"

lemma patch_apply_id [simp]: "t_id (patch_apply now p t) = t_id t"
  by (simp add: patch_apply_def)

text \<open>\<^verbatim>\<open>ActorRef\<close> of evidence.rs.\<close>

record actor_ref =
  ar_kind :: string
  ar_id :: "uuid option"
  ar_name :: "string option"

fun actor_ref_from_actor :: "actor \<Rightarrow> actor_ref" where
  "actor_ref_from_actor (User i n _) = \<lparr>ar_kind = ''user'', ar_id = i, ar_name = n\<rparr>"
| "actor_ref_from_actor (Agent i n _) = \<lparr>ar_kind = ''agent'', ar_id = Some i, ar_name = Some n\<rparr>"

record completion_note =
  cn_actor :: "actor_ref option"
  cn_reason :: "string option"
  cn_result_summary :: "string option"
  cn_acceptance_criteria_status :: "string option"
  cn_related_artifacts :: "string list"

subsection \<open>field\_ownership.rs\<close>

datatype field_owner = PlanOwner | ExecutionOwner

datatype task_field =
    FTitle | FDescription | FProjectId | FMembership | FSourceEventId
  | FStatus | FTriageState | FPriority | FDueAt | FStartedAt | FCompletedAt
  | FUpdatedBy | FComments | FClaimsRuns

fun task_field_owner :: "task_field \<Rightarrow> field_owner" where
  "task_field_owner FTitle = PlanOwner"
| "task_field_owner FDescription = PlanOwner"
| "task_field_owner FProjectId = PlanOwner"
| "task_field_owner FMembership = PlanOwner"
| "task_field_owner FSourceEventId = PlanOwner"
| "task_field_owner FStatus = ExecutionOwner"
| "task_field_owner FTriageState = ExecutionOwner"
| "task_field_owner FPriority = ExecutionOwner"
| "task_field_owner FDueAt = ExecutionOwner"
| "task_field_owner FStartedAt = ExecutionOwner"
| "task_field_owner FCompletedAt = ExecutionOwner"
| "task_field_owner FUpdatedBy = ExecutionOwner"
| "task_field_owner FComments = ExecutionOwner"
| "task_field_owner FClaimsRuns = ExecutionOwner"

definition plan_owned_patch_fields :: "task_patch \<Rightarrow> string list" where
  "plan_owned_patch_fields p =
     (if tp_title p \<noteq> None then [''title''] else []) @
     (if tp_description p \<noteq> None then [''description''] else []) @
     (if tp_project_id p \<noteq> None then [''project_id''] else [])"

lemma plan_owned_patch_fields_Nil_iff:
  "plan_owned_patch_fields p = [] \<longleftrightarrow> tp_title p = None \<and> tp_description p = None \<and> tp_project_id p = None"
  by (auto simp: plan_owned_patch_fields_def)

subsection \<open>comment.rs\<close>

datatype comment_kind = Intent | Progress | Outcome | Blocker | Research

record comment =
  cm_id :: uuid
  cm_task_id :: uuid
  cm_author :: actor
  cm_body :: string
  cm_parent_id :: "uuid option"
  cm_kind :: "comment_kind option"
  cm_created_at :: timestamp
  cm_edited_at :: "timestamp option"
  cm_deleted_at :: "timestamp option"

record new_comment =
  nc_id :: "uuid option"
  nc_task_id :: uuid
  nc_body :: string
  nc_parent_id :: "uuid option"
  nc_kind :: "comment_kind option"

definition comment_from_new :: "uuid \<Rightarrow> new_comment \<Rightarrow> actor \<Rightarrow> timestamp \<Rightarrow> comment" where
  "comment_from_new fresh input a now =
     \<lparr>cm_id = unwrap_or fresh (nc_id input), cm_task_id = nc_task_id input, cm_author = a,
      cm_body = nc_body input, cm_parent_id = nc_parent_id input, cm_kind = nc_kind input,
      cm_created_at = now, cm_edited_at = None, cm_deleted_at = None\<rparr>"

record transition_comment =
  tc_body :: string
  tc_kind :: "comment_kind option"

definition TRANSITION_MAX_BODY_BYTES :: nat where
  "TRANSITION_MAX_BODY_BYTES = 4 * 1024"

subsection \<open>Pipeline lemmas\<close>

text \<open>Counted over a whole stage: what an accepted report does to the barrier.\<close>

lemma close_instance_Inr:
  assumes "close_instance p i = Inr (r, p')"
  shows "(r = Repeat \<and> p' = p \<and> trim i \<in> set (pp_closed p)) \<or>
    (r \<noteq> Repeat \<and> p' = p\<lparr>pp_closed := pp_closed p @ [trim i]\<rparr> \<and>
     trim i \<notin> set (pp_closed p) \<and> \<not> fan_in_closed p \<and> (r = Closed \<longleftrightarrow> fan_in_closed p'))"
  using assms by (auto simp: close_instance_def Let_def split: if_splits)

lemma close_instance_invariant:
  assumes "close_instance p i = Inr (r, p')"
    and "distinct (pp_closed p)" and "length (pp_closed p) \<le> pp_fanout p"
  shows "distinct (pp_closed p') \<and> length (pp_closed p') \<le> pp_fanout p' \<and> pp_fanout p' = pp_fanout p"
  using close_instance_Inr [OF assms(1)] assms(2,3) by (auto simp: fan_in_closed_def)

lemma fan_in_blocks_None_iff:
  "fan_in_blocks p = None \<longleftrightarrow>
    pp_complete p \<or> \<not> pp_required p \<or> pp_fanout p \<le> 1 \<or> fan_in_closed p"
  by (simp add: fan_in_blocks_def)

end
