(* ===== verification/Source_Ref.thy ===== *)
theory Source_Ref
  imports Domain_Task
begin

text \<open>
  Plan sources: the URI normalisation of \<^verbatim>\<open>crates/domain/src/plan.rs\<close> (\<^verbatim>\<open>percent_decode\<close>,
  \<^verbatim>\<open>strip_secret_params\<close>, \<^verbatim>\<open>normalize_source_ref\<close>) and the source-chain node of
  \<^verbatim>\<open>crates/domain/src/source.rs\<close>. The date parser \<^verbatim>\<open>to_node\<close> calls is third-party code
  (\<^verbatim>\<open>chrono\<close>) and a parameter, \<open>valid_date\<close>. Decoded parameter names are byte strings; they are only
  tested for emptiness and compared with ASCII names, which the lossy UTF-8 step cannot change.
\<close>

subsection \<open>Percent decoding\<close>

definition hex_val :: "char \<Rightarrow> nat option" where
  "hex_val c =
     (let n = of_char c :: nat in
      if is_ascii_digit c then Some (n - 48)
      else if 65 \<le> n \<and> n \<le> 70 then Some (n - 55)
      else if 97 \<le> n \<and> n \<le> 102 then Some (n - 87)
      else None)"

text \<open>\<^verbatim>\<open>u8::from_str_radix(h, 16)\<close> on a two-byte string, which accepts a leading plus sign.\<close>

definition from_hex_pair :: "char \<Rightarrow> char \<Rightarrow> nat option" where
  "from_hex_pair a b =
     (if a = CHR ''+'' then hex_val b
      else case (hex_val a, hex_val b) of (Some x, Some y) \<Rightarrow> Some (16 * x + y) | _ \<Rightarrow> None)"

fun percent_decode :: "string \<Rightarrow> string" where
  "percent_decode [] = []"
| "percent_decode (c # cs) =
     (case cs of
        a # b # rest \<Rightarrow>
          (case (if c = CHR ''%'' then from_hex_pair a b else None) of
             Some n \<Rightarrow> char_of n # percent_decode rest
           | None \<Rightarrow> c # percent_decode cs)
      | _ \<Rightarrow> c # percent_decode cs)"

subsection \<open>Secret parameters\<close>

definition SECRET_QUERY_PARAMS :: "string list" where
  "SECRET_QUERY_PARAMS =
     [''token'', ''private_token'', ''access_token'', ''api_key'', ''apikey'', ''sig'', ''signature'',
      ''password'', ''secret'']"

definition keeps_param :: "string \<Rightarrow> bool" where
  "keeps_param param =
     (let name = percent_decode (hd (split_on (CHR ''='') param)) in
      name \<noteq> [] \<and> \<not> list_ex (eq_ignore_ascii_case name) SECRET_QUERY_PARAMS)"

definition strip_secret_params :: "string \<Rightarrow> string option" where
  "strip_secret_params params =
     (let kept = filter keeps_param (split_on (CHR ''&'') params)
      in if kept \<noteq> [] then Some (join_with (CHR ''&'') kept) else None)"

subsection \<open>normalize\_source\_ref\<close>

definition SOURCE_REF_MAX_LEN :: nat where
  "SOURCE_REF_MAX_LEN = 2048"

definition valid_scheme :: "string \<Rightarrow> bool" where
  "valid_scheme s =
     (let scheme = hd (split_on (CHR '':'') s) in
      CHR '':'' \<in> set s \<and>
      (case scheme of c # _ \<Rightarrow> is_ascii_alpha c | [] \<Rightarrow> False) \<and>
      list_all (\<lambda>c. is_ascii_alpha c \<or> is_ascii_digit c \<or> c \<in> set ''+.-'') scheme)"

text \<open>\<^verbatim>\<open>rsplit_once(':')\<close>: split at the last occurrence.\<close>

definition rsplit_once_char :: "char \<Rightarrow> string \<Rightarrow> (string \<times> string) option" where
  "rsplit_once_char d s =
     (if d \<in> set s
      then Some (rev (tl (dropWhile (\<lambda>c. c \<noteq> d) (rev s))), rev (takeWhile (\<lambda>c. c \<noteq> d) (rev s)))
      else None)"

definition split_once_char :: "char \<Rightarrow> string \<Rightarrow> string \<times> string option" where
  "split_once_char d s =
     (if d \<in> set s then (takeWhile (\<lambda>c. c \<noteq> d) s, Some (tl (dropWhile (\<lambda>c. c \<noteq> d) s))) else (s, None))"

definition valid_host :: "string \<Rightarrow> bool" where
  "valid_host host_port =
     (let bare_ipv6 = \<not> starts_with ''['' host_port
                      \<and> length (filter (\<lambda>c. c = CHR '':'') host_port) > 1
      in \<not> bare_ipv6 \<and>
         (case rsplit_once_char (CHR '':'') host_port of
            Some (host, port) \<Rightarrow>
              if last host_port \<noteq> CHR '']''
              then host \<noteq> [] \<and> port \<noteq> [] \<and> list_all is_ascii_digit port
              else host_port \<noteq> []
          | None \<Rightarrow> host_port \<noteq> []))"

definition filter_fragment_part :: "string \<Rightarrow> string" where
  "filter_fragment_part part =
     (if CHR ''='' \<in> set part then unwrap_or [] (strip_secret_params part) else part)"

definition normalize_fragment :: "string \<Rightarrow> string" where
  "normalize_fragment f =
     (case split_once_char (CHR ''?'') f of
        (route, Some params) \<Rightarrow>
          (case strip_secret_params params of
             Some params \<Rightarrow> filter_fragment_part route @ ''?'' @ params
           | None \<Rightarrow> filter_fragment_part route)
      | (_, None) \<Rightarrow> filter_fragment_part f)"

text \<open>The authority without userinfo and default port: \<^verbatim>\<open>host_port\<close>.\<close>

definition host_of_authority :: "string \<Rightarrow> string \<Rightarrow> string" where
  "host_of_authority lower authority =
     (let host_port = rev (takeWhile (\<lambda>c. c \<noteq> CHR ''@'') (rev authority));
          default_port = (if lower = ''http'' then '':80'' else '':443'')
      in unwrap_or host_port (strip_suffix default_port host_port))"

definition normalize_http_ref :: "string \<Rightarrow> string \<Rightarrow> string \<Rightarrow> string + string" where
  "normalize_http_ref s lower rest =
     (case strip_prefix ''//'' rest of
        None \<Rightarrow> Inl (''source_ref `'' @ s @ ''` must be an absolute '' @ lower @ '':// URL'')
      | Some after \<Rightarrow>
          let authority = takeWhile (\<lambda>c. c \<notin> set ''/?#'') after;
              tail = dropWhile (\<lambda>c. c \<notin> set ''/?#'') after;
              (before_fragment, fragment) = split_once_char (CHR ''#'') tail;
              (path, query) = split_once_char (CHR ''?'') before_fragment;
              host_port = host_of_authority lower authority
          in if \<not> valid_host host_port then Inl (''source_ref `'' @ s @ ''` has no valid host'')
             else
               let out = lower @ ''://'' @ map char_lower host_port @ trim_end_char (CHR ''/'') path;
                   out = out @ (case Option.bind query strip_secret_params of
                                  Some q \<Rightarrow> ''?'' @ q | None \<Rightarrow> []);
                   frag = (case fragment of None \<Rightarrow> [] | Some f \<Rightarrow> normalize_fragment f)
               in Inr (out @ (if frag = [] then [] else ''#'' @ frag)))"

definition normalize_source_ref :: "string \<Rightarrow> string + string" where
  "normalize_source_ref raw =
     (let s = trim raw in
      if s = [] then Inl ''source_ref must not be empty''
      else if list_ex (\<lambda>c. is_space c \<or> is_control c) s
      then Inl ''source_ref must not contain whitespace or control characters''
      else if \<not> valid_scheme s
      then Inl (''source_ref `'' @ s @ ''` must be a URI with a scheme'')
      else
        let scheme = hd (split_on (CHR '':'') s);
            lower = map char_lower scheme;
            rest = drop (length scheme + 1) s
        in case (if lower = ''http'' \<or> lower = ''https'' then normalize_http_ref s lower rest
                 else Inr (lower @ '':'' @ rest)) of
             Inl e \<Rightarrow> Inl e
           | Inr out \<Rightarrow>
               if char_count out > SOURCE_REF_MAX_LEN then Inl ''source_ref is longer than 2048 characters''
               else Inr out)"

subsection \<open>source.rs\<close>

definition SOURCE_CHAIN_MAX :: nat where
  "SOURCE_CHAIN_MAX = 32"

record source_node =
  sn_source_ref :: string
  sn_label :: "string option"
  sn_occurred_at :: "string option"
  sn_note :: "string option"
  sn_upstream_ref :: "string option"
  sn_created_at :: timestamp
  sn_created_by :: "actor option"

definition fill_from :: "source_node \<Rightarrow> source_node \<Rightarrow> string + source_node" where
  "fill_from self incoming =
     (case (sn_upstream_ref self, sn_upstream_ref incoming) of
        (Some have, Some new) \<Rightarrow> if have \<noteq> new then Inl have else Inr (self
          \<lparr>sn_label := or_opt (sn_label self) (sn_label incoming),
           sn_occurred_at := or_opt (sn_occurred_at self) (sn_occurred_at incoming),
           sn_note := or_opt (sn_note self) (sn_note incoming),
           sn_upstream_ref := or_opt (sn_upstream_ref self) (sn_upstream_ref incoming)\<rparr>)
      | _ \<Rightarrow> Inr (self
          \<lparr>sn_label := or_opt (sn_label self) (sn_label incoming),
           sn_occurred_at := or_opt (sn_occurred_at self) (sn_occurred_at incoming),
           sn_note := or_opt (sn_note self) (sn_note incoming),
           sn_upstream_ref := or_opt (sn_upstream_ref self) (sn_upstream_ref incoming)\<rparr>))"

datatype source_input =
  SourceInput (si_source_ref: "string option") (si_label: "string option")
    (si_occurred_at: "string option") (si_note: "string option") (si_upstream: "source_input list")

definition trimmed :: "string option \<Rightarrow> string \<Rightarrow> nat \<Rightarrow> string + string option" where
  "trimmed val what limit =
     (case map_option trim val of
        None \<Rightarrow> Inr None
      | Some v \<Rightarrow>
          if v = [] then Inr None
          else if char_count v > limit then Inl (''source '' @ what @ '' is longer than'')
          else Inr (Some v))"

definition names_node :: "source_input \<Rightarrow> bool" where
  "names_node i \<longleftrightarrow> si_source_ref i \<noteq> None \<or> si_label i \<noteq> None"

definition to_node ::
  "(string \<Rightarrow> bool) \<Rightarrow> source_input \<Rightarrow> string \<Rightarrow> timestamp \<Rightarrow> actor \<Rightarrow> string + source_node" where
  "to_node valid_date i synthetic_ref created_at created_by =
     (case trimmed (si_label i) ''label'' 512 of Inl e \<Rightarrow> Inl e | Inr label \<Rightarrow>
     (case (case (si_source_ref i, label) of
              (Some raw, _) \<Rightarrow> normalize_source_ref raw
            | (None, Some _) \<Rightarrow> Inr synthetic_ref
            | (None, None) \<Rightarrow> Inl ''a source node needs `ref` or `label`'') of
        Inl e \<Rightarrow> Inl e | Inr ref \<Rightarrow>
     (case trimmed (si_occurred_at i) ''occurred_at'' 64 of Inl e \<Rightarrow> Inl e | Inr occurred_at \<Rightarrow>
     (if (case occurred_at of Some at \<Rightarrow> \<not> valid_date at | None \<Rightarrow> False)
      then Inl (''source occurred_at `'' @ unwrap_or [] occurred_at @ ''` must be RFC 3339 or YYYY-MM-DD'')
      else
     (case trimmed (si_note i) ''note'' 4096 of Inl e \<Rightarrow> Inl e | Inr note \<Rightarrow>
        Inr \<lparr>sn_source_ref = ref, sn_label = label, sn_occurred_at = occurred_at, sn_note = note,
             sn_upstream_ref = None, sn_created_at = created_at, sn_created_by = Some created_by\<rparr>)))))"

subsection \<open>Lemmas\<close>

lemma keeps_param_no_amp: "p \<in> set (split_on (CHR ''&'') q) \<Longrightarrow> CHR ''&'' \<notin> set p"
  by (rule split_on_pieces)

lemma strip_secret_params_Some:
  assumes "strip_secret_params q = Some r"
  shows "split_on (CHR ''&'') r = filter keeps_param (split_on (CHR ''&'') q)"
proof -
  let ?kept = "filter keeps_param (split_on (CHR ''&'') q)"
  have kept: "?kept \<noteq> []" "r = join_with (CHR ''&'') ?kept"
    using assms by (auto simp: strip_secret_params_def Let_def split: if_splits)
  have "CHR ''&'' \<notin> set w" if "w \<in> set ?kept" for w
    using that keeps_param_no_amp [of w q] by simp
  then show ?thesis using kept split_on_join [of ?kept "CHR ''&''"] by simp
qed

lemma strip_secret_params_idem: "strip_secret_params q = Some r \<Longrightarrow> strip_secret_params r = Some r"
  using strip_secret_params_Some [of q r] by (auto simp: strip_secret_params_def Let_def split: if_splits)

lemma host_of_authority_no_at: "CHR ''@'' \<notin> set (host_of_authority lower authority)"
proof -
  have "CHR ''@'' \<notin> set (rev (takeWhile (\<lambda>c. c \<noteq> CHR ''@'') (rev authority)))"
    by (auto dest: set_takeWhileD)
  then show ?thesis
    by (auto simp: host_of_authority_def Let_def strip_suffix_def strip_prefix_def unwrap_or_def
        split: option.splits dest!: in_set_dropD)
qed

end
