(* ===== verification/Domain_Plan.thy ===== *)
theory Domain_Plan
  imports Source_Ref
begin

text \<open>
  Plans, runs, relations and documents: the entities of \<^verbatim>\<open>plan.rs\<close>, \<^verbatim>\<open>run.rs\<close>, \<^verbatim>\<open>relation.rs\<close> and
  \<^verbatim>\<open>document.rs\<close> under \<^verbatim>\<open>crates/domain/src\<close>. Record fields carry a prefix (\<open>pl_\<close> plan, \<open>pt_\<close> plan
  task, \<open>pu_\<close> plan patch, \<open>np_\<close> new plan, \<open>r_\<close> run, \<open>rs_\<close> run step, \<open>rn_\<close> run note, \<open>rel_\<close> relation,
  \<open>doc_\<close> document, \<open>nd_\<close> new document). A plan position is a \<^verbatim>\<open>u32\<close> and stays a 32-bit word.
\<close>

subsection \<open>plan.rs\<close>

datatype plan_status = Draft | Active | Completed | Abandoned

definition plan_status_default :: plan_status where
  "plan_status_default = Draft"

record plan =
  pl_id :: uuid
  pl_project_id :: uuid
  pl_parent_plan_id :: "uuid option"
  pl_title :: string
  pl_description :: string
  pl_goal :: string
  pl_success_criteria :: "string list"
  pl_status :: plan_status
  pl_owner :: actor
  pl_created_at :: timestamp
  pl_updated_at :: timestamp
  pl_archived_at :: "timestamp option"
  pl_source_brief :: "string option"
  pl_source_ref :: "string option"

record plan_task =
  pt_plan_id :: uuid
  pt_task_id :: uuid
  pt_position :: "32 word"
  pt_depends_on :: "uuid list"

record plan_graph_node =
  gn_task_id :: uuid
  gn_position :: "32 word"
  gn_depends_on :: "uuid list"
  gn_title :: string
  gn_status :: status
  gn_priority :: priority

record plan_graph_edge =
  ge_from :: uuid
  ge_to :: uuid
  ge_kind :: string

record plan_graph =
  pg_nodes :: "plan_graph_node list"
  pg_edges :: "plan_graph_edge list"

record plan_fanout_wave =
  fw_wave :: "32 word"
  fw_tasks :: "uuid list"

record can_start_blocker =
  csb_task_id :: uuid
  csb_title :: string
  csb_status :: status

record can_start_rule =
  csr_rule_key :: string
  csr_message :: string

record can_start =
  cs_ready :: bool
  cs_blockers :: "can_start_blocker list"
  cs_rule_blockers :: "can_start_rule list"
  cs_rule_warnings :: "can_start_rule list"
  cs_reason :: string

record plan_patch =
  pu_title :: "string option"
  pu_description :: "string option"
  pu_goal :: "string option"
  pu_success_criteria :: "string list option"
  pu_parent_plan_id :: "uuid option option"

definition plan_patch_is_empty :: "plan_patch \<Rightarrow> bool" where
  "plan_patch_is_empty p \<longleftrightarrow>
     pu_title p = None \<and> pu_description p = None \<and> pu_goal p = None \<and>
     pu_success_criteria p = None \<and> pu_parent_plan_id p = None"

definition plan_patch_apply :: "timestamp \<Rightarrow> plan_patch \<Rightarrow> plan \<Rightarrow> plan" where
  "plan_patch_apply now p q = q
     \<lparr>pl_title := unwrap_or (pl_title q) (pu_title p),
      pl_description := unwrap_or (pl_description q) (pu_description p),
      pl_goal := unwrap_or (pl_goal q) (pu_goal p),
      pl_success_criteria := unwrap_or (pl_success_criteria q) (pu_success_criteria p),
      pl_parent_plan_id := unwrap_or (pl_parent_plan_id q) (pu_parent_plan_id p),
      pl_updated_at := now\<rparr>"

lemma plan_patch_apply_id [simp]:
  "pl_id (plan_patch_apply now p q) = pl_id q"
  "pl_project_id (plan_patch_apply now p q) = pl_project_id q"
  "pl_status (plan_patch_apply now p q) = pl_status q"
  by (simp_all add: plan_patch_apply_def)

record new_plan =
  np_project_id :: uuid
  np_title :: string
  np_owner :: actor
  np_description :: "string option"
  np_goal :: "string option"
  np_success_criteria :: "string list option"
  np_parent_plan_id :: "uuid option"
  np_source_brief :: "string option"
  np_source_ref :: "string option"
  np_git_context :: "git_context option"
  np_source :: "source_input option"
  np_separate :: bool

definition new_plan :: "string \<Rightarrow> uuid \<Rightarrow> actor \<Rightarrow> new_plan" where
  "new_plan title project owner =
     \<lparr>np_project_id = project, np_title = title, np_owner = owner, np_description = None,
      np_goal = None, np_success_criteria = None, np_parent_plan_id = None,
      np_source_brief = None, np_source_ref = None, np_git_context = None,
      np_source = None, np_separate = False\<rparr>"

definition into_plan :: "new_plan \<Rightarrow> uuid \<Rightarrow> timestamp \<Rightarrow> plan" where
  "into_plan n i now =
     \<lparr>pl_id = i, pl_project_id = np_project_id n, pl_parent_plan_id = np_parent_plan_id n,
      pl_title = np_title n, pl_description = unwrap_or [] (np_description n),
      pl_goal = unwrap_or [] (np_goal n),
      pl_success_criteria = unwrap_or [] (np_success_criteria n),
      pl_status = plan_status_default, pl_owner = np_owner n,
      pl_created_at = now, pl_updated_at = now, pl_archived_at = None,
      pl_source_brief = np_source_brief n, pl_source_ref = np_source_ref n\<rparr>"

subsection \<open>run.rs\<close>

datatype run_status = RunActive | RunIsCompleted | RunIsFailed | RunIsAborted

datatype run_outcome = OutDone | OutSuperseded | OutHumanCompleted | OutSkipped | OutFailed string

record run =
  r_id :: uuid
  r_plan_id :: uuid
  r_agent_id :: uuid
  r_parent_run_id :: "uuid option"
  r_started_at :: timestamp
  r_ended_at :: "timestamp option"
  r_status :: run_status
  r_outcome :: "string option"
  r_last_activity_at :: "timestamp option"
  r_unresponsive_at :: "timestamp option"
  r_stale_at :: "timestamp option"

record run_note =
  rn_id :: uuid
  rn_run_id :: uuid
  rn_body :: string
  rn_author :: actor
  rn_created_at :: timestamp

subsection \<open>relation.rs\<close>

datatype relation_kind = Blocks | RelatesTo | Duplicates | WasBlocking

record relation =
  rel_id :: uuid
  rel_from :: uuid
  rel_to :: uuid
  rel_kind :: relation_kind
  rel_created_at :: timestamp
  rel_created_by :: actor

subsection \<open>document.rs\<close>

datatype document_kind = Interview | HumanLog

fun document_kind_as_str :: "document_kind \<Rightarrow> string" where
  "document_kind_as_str Interview = ''interview''"
| "document_kind_as_str HumanLog = ''human_log''"

datatype document_status = DocDraft | DocActive | DocOutdated | DocArchived | DocFrozen | DocReplaced

fun document_status_as_str :: "document_status \<Rightarrow> string" where
  "document_status_as_str DocDraft = ''draft''"
| "document_status_as_str DocActive = ''active''"
| "document_status_as_str DocOutdated = ''outdated''"
| "document_status_as_str DocArchived = ''archived''"
| "document_status_as_str DocFrozen = ''frozen''"
| "document_status_as_str DocReplaced = ''replaced''"

record document =
  doc_id :: uuid
  doc_project_id :: uuid
  doc_kind :: document_kind
  doc_title :: string
  doc_content :: string
  doc_status :: document_status
  doc_task_id :: "uuid option"
  doc_trigger_kind :: "string option"
  doc_consumer :: "string option"
  doc_created_at :: timestamp
  doc_updated_at :: timestamp
  doc_archived_at :: "timestamp option"
  doc_last_read_at :: "timestamp option"
  doc_last_read_by :: "string option"
  doc_read_count :: "64 word"

record new_document =
  nd_id :: "uuid option"
  nd_project_id :: uuid
  nd_kind :: document_kind
  nd_title :: string
  nd_content :: "string option"
  nd_status :: "document_status option"
  nd_task_id :: "uuid option"
  nd_trigger_kind :: "string option"
  nd_consumer :: "string option"

definition into_document :: "new_document \<Rightarrow> uuid \<Rightarrow> timestamp \<Rightarrow> document" where
  "into_document n i now =
     \<lparr>doc_id = i, doc_project_id = nd_project_id n, doc_kind = nd_kind n, doc_title = nd_title n,
      doc_content = unwrap_or [] (nd_content n), doc_status = unwrap_or DocActive (nd_status n),
      doc_task_id = nd_task_id n, doc_trigger_kind = nd_trigger_kind n,
      doc_consumer = nd_consumer n, doc_created_at = now, doc_updated_at = now,
      doc_archived_at = None, doc_last_read_at = None, doc_last_read_by = None, doc_read_count = 0\<rparr>"

end
