(* ===== verification/Shared_Paths.thy ===== *)
theory Shared_Paths
  imports Prelude
begin

text \<open>
  Paths of \<^verbatim>\<open>crates/shared\<close>: the overlap check of file leases (\<^verbatim>\<open>path_lease.rs\<close>) and the canonical
  key of a client-supplied repository path (\<^verbatim>\<open>scope_path.rs\<close>).

  The overlap check is compared with a reference meaning: a glob reserves a set of concrete paths
  (\<open>reserves\<close>), and two globs overlap exactly when those sets meet.
\<close>

subsection \<open>path\_lease.rs\<close>

definition normalize_lease_path :: "string \<Rightarrow> string" where
  "normalize_lease_path p =
     (let unified = replace_char (CHR 0x5C) (CHR ''/'') (trim p)
      in join_with (CHR ''/'')
           (filter (\<lambda>seg. seg \<noteq> [] \<and> seg \<noteq> ''.'') (split_on (CHR ''/'') unified)))"

definition segment_match :: "string \<Rightarrow> string \<Rightarrow> bool" where
  "segment_match x y \<longleftrightarrow> x = y \<or> x = ''*'' \<or> y = ''*''"

fun overlap_segments :: "string list \<Rightarrow> string list \<Rightarrow> bool" where
  "overlap_segments [] _ = True"
| "overlap_segments _ [] = True"
| "overlap_segments (ha # ta) (hb # tb) =
     (if ha = ''**'' \<or> hb = ''**'' then True
      else if \<not> segment_match ha hb then False
      else overlap_segments ta tb)"

definition paths_overlap :: "string \<Rightarrow> string \<Rightarrow> bool" where
  "paths_overlap a b =
     (let na = normalize_lease_path a; nb = normalize_lease_path b
      in if na = [] \<or> nb = [] then True
         else overlap_segments (split_on (CHR ''/'') na) (split_on (CHR ''/'') nb))"

subsection \<open>Reference meaning of a lease glob\<close>

text \<open>
  \<open>reserves g p\<close>: the glob \<open>g\<close> (as segments) reserves the concrete path \<open>p\<close>. A glob reserves
  everything below it, \<open>*\<close> stands for one segment and \<open>**\<close> for the whole remainder.
\<close>

fun reserves :: "string list \<Rightarrow> string list \<Rightarrow> bool" where
  "reserves [] _ = True"
| "reserves (g # gs) p =
     (if g = ''**'' then True
      else (case p of [] \<Rightarrow> False | s # p' \<Rightarrow> (g = s \<or> g = ''*'') \<and> reserves gs p'))"

definition lease_segments :: "string \<Rightarrow> string list" where
  "lease_segments p =
     (let n = normalize_lease_path p in if n = [] then [] else split_on (CHR ''/'') n)"

lemma segment_match_sym: "segment_match x y = segment_match y x"
  by (auto simp: segment_match_def)

lemma overlap_segments_Nil2 [simp]: "overlap_segments a [] = True"
  by (cases a) simp_all

lemma overlap_segments_sym: "overlap_segments a b = overlap_segments b a"
  by (induction a b rule: overlap_segments.induct) (auto simp: segment_match_sym)

lemma overlap_segments_refl: "overlap_segments a a"
  by (induction a) (simp_all add: segment_match_def)

lemma reserves_exists: "\<exists>p. reserves g p"
proof (induction g)
  case (Cons g gs)
  then obtain p where "reserves gs p" by blast
  then have "reserves (g # gs) (g # p)" by simp
  then show ?case by blast
qed simp

lemma overlap_segments_complete: "reserves a p \<Longrightarrow> reserves b p \<Longrightarrow> overlap_segments a b"
  by (induction a b arbitrary: p rule: overlap_segments.induct)
    (auto simp: segment_match_def split: list.splits if_splits)

lemma overlap_segments_sound: "overlap_segments a b \<Longrightarrow> \<exists>p. reserves a p \<and> reserves b p"
proof (induction a b rule: overlap_segments.induct)
  case (1 b)
  then show ?case using reserves_exists by simp
next
  case (2 v va)
  then show ?case using reserves_exists [of "v # va"] by auto
next
  case (3 ha ta hb tb)
  consider (star2) "ha = ''**'' \<or> hb = ''**''"
    | (seg) "ha \<noteq> ''**''" "hb \<noteq> ''**''" "segment_match ha hb" "overlap_segments ta tb"
    using "3.prems" by (auto split: if_splits)
  then show ?case
  proof cases
    case star2
    obtain pa pb where "reserves (ha # ta) pa" "reserves (hb # tb) pb"
      using reserves_exists by blast
    with star2 show ?thesis by (metis reserves.simps(2))
  next
    case seg
    obtain p where p: "reserves ta p" "reserves tb p" using "3.IH" seg by auto
    let ?s = "if ha = ''*'' then hb else ha"
    have "reserves (ha # ta) (?s # p)" using p by simp
    moreover have "reserves (hb # tb) (?s # p)" using p seg(3) by (auto simp: segment_match_def)
    ultimately show ?thesis by blast
  qed
qed

lemma paths_overlap_segments:
  "paths_overlap a b = overlap_segments (lease_segments a) (lease_segments b)"
  by (auto simp: paths_overlap_def lease_segments_def Let_def)

lemma normalize_segments_char:
  "w \<in> set (filter (\<lambda>seg. seg \<noteq> [] \<and> seg \<noteq> ''.'') (split_on d s)) \<Longrightarrow> d \<notin> set w \<and> w \<noteq> []"
  using split_on_pieces by auto

lemma lease_segments_eq:
  "lease_segments p =
    filter (\<lambda>seg. seg \<noteq> [] \<and> seg \<noteq> ''.'')
      (split_on (CHR ''/'') (replace_char (CHR 0x5C) (CHR ''/'') (trim p)))"
proof -
  define ws where "ws = filter (\<lambda>seg. seg \<noteq> [] \<and> seg \<noteq> ''.'')
      (split_on (CHR ''/'') (replace_char (CHR 0x5C) (CHR ''/'') (trim p)))"
  have n: "normalize_lease_path p = join_with (CHR ''/'') ws"
    by (simp add: normalize_lease_path_def ws_def)
  have ws: "CHR ''/'' \<notin> set w" "w \<noteq> []" if "w \<in> set ws" for w
    using that normalize_segments_char unfolding ws_def by blast+
  have "join_with (CHR ''/'') ws = [] \<longleftrightarrow> ws = []" by (rule join_with_Nil_iff) (rule ws)
  moreover have "ws \<noteq> [] \<Longrightarrow> split_on (CHR ''/'') (join_with (CHR ''/'') ws) = ws"
    by (rule split_on_join) (auto dest: ws)
  ultimately have "lease_segments p = ws" by (simp add: lease_segments_def n)
  then show ?thesis by (simp only: ws_def)
qed

text \<open>Characters of a joined or a split string come from its parts.\<close>

lemma set_split_on: "w \<in> set (split_on d s) \<Longrightarrow> set w \<subseteq> set s"
proof (induction s arbitrary: w)
  case (Cons c cs)
  obtain v vs where v: "split_on d cs = v # vs" by (meson list.exhaust split_on_nonempty)
  then have "set v \<subseteq> set cs" and "\<And>u. u \<in> set vs \<Longrightarrow> set u \<subseteq> set cs"
    using Cons.IH by simp_all
  then show ?case using Cons.prems v by (cases "c = d") fastforce+
qed simp

lemma set_join_with: "set (join_with d ws) \<subseteq> insert d (\<Union>w\<in>set ws. set w)"
  by (induction d ws rule: join_with.induct) auto

lemma replace_char_absent: "a \<notin> set s \<Longrightarrow> replace_char a b s = s"
  by (induction s) (auto simp: replace_char_def)

lemma backslash_normalize: "CHR 0x5C \<notin> set (normalize_lease_path p)"
proof -
  let ?u = "replace_char (CHR 0x5C) (CHR ''/'') (trim p)"
  let ?ws = "filter (\<lambda>seg. seg \<noteq> [] \<and> seg \<noteq> ''.'') (split_on (CHR ''/'') ?u)"
  have "CHR 0x5C \<notin> set ?u" by (auto simp: replace_char_def)
  then have "CHR 0x5C \<notin> (\<Union>w\<in>set ?ws. set w)" using set_split_on by fastforce
  then show ?thesis
    using set_join_with [of "CHR ''/''" ?ws] by (auto simp: normalize_lease_path_def Let_def)
qed

lemma lease_segments_normalize:
  assumes "trim (normalize_lease_path p) = normalize_lease_path p"
  shows "lease_segments (normalize_lease_path p) = lease_segments p"
proof (cases "normalize_lease_path p = []")
  case True
  then show ?thesis by (simp add: lease_segments_def Let_def normalize_lease_path_def trim_def replace_char_def)
next
  case False
  have "lease_segments (normalize_lease_path p) =
      filter (\<lambda>seg. seg \<noteq> [] \<and> seg \<noteq> ''.'') (split_on (CHR ''/'') (normalize_lease_path p))"
    using assms backslash_normalize by (simp add: lease_segments_eq replace_char_absent)
  also have "\<dots> = filter (\<lambda>seg. seg \<noteq> [] \<and> seg \<noteq> ''.'') (lease_segments p)"
    using False by (simp add: lease_segments_def Let_def)
  also have "\<dots> = lease_segments p" by (simp add: lease_segments_eq)
  finally show ?thesis .
qed

lemma normalize_lease_path_segments: "normalize_lease_path p = join_with (CHR ''/'') (lease_segments p)"
  by (simp add: lease_segments_eq normalize_lease_path_def Let_def)

subsection \<open>scope\_path.rs\<close>

definition is_drive :: "string \<Rightarrow> bool" where
  "is_drive seg = (case seg of [d, c] \<Rightarrow> c = CHR '':'' \<and> is_ascii_alpha d | _ \<Rightarrow> False)"

definition is_absolute_scope_path :: "string \<Rightarrow> bool" where
  "is_absolute_scope_path path =
     (let p = trim path
      in starts_with ''/'' p
       \<or> starts_with [CHR 0x5C, CHR 0x5C] p
       \<or> (case p of d # c # s # _ \<Rightarrow>
             c = CHR '':'' \<and> (s = CHR ''/'' \<or> s = CHR 0x5C) \<and> is_ascii_alpha d
           | _ \<Rightarrow> False))"

definition normalize_scope_path :: "string \<Rightarrow> string" where
  "normalize_scope_path path =
     (let unified = replace_char (CHR 0x5C) (CHR ''/'') (trim path);
          (prefix, rest) = (case strip_prefix ''//'' unified of
              Some rest \<Rightarrow> (''//'', rest)
            | None \<Rightarrow> ([], unified));
          leading_slash = (prefix = [] \<and> starts_with ''/'' rest);
          out = prefix @ (if leading_slash then ''/'' else []);
          segments = filter (\<lambda>s. s \<noteq> []) (split_on (CHR ''/'') rest);
          (out, segments) = (case segments of
              first # more \<Rightarrow>
                if is_drive first
                then (out @ map char_upper first @ (if more \<noteq> [] then ''/'' else []), more)
                else (out, segments)
            | [] \<Rightarrow> (out, segments));
          out = out @ join_with (CHR ''/'') segments
      in if out = [] then ''/''
         else if last out = CHR '':'' \<and> is_drive out then out @ ''/''
         else out)"

text \<open>
  The segment-wise test answers exactly the question it is asked, whether some concrete
  path is reserved by both globs.
\<close>

theorem overlap_segments_iff: "overlap_segments a b \<longleftrightarrow> (\<exists>p. reserves a p \<and> reserves b p)"
  using overlap_segments_sound overlap_segments_complete by blast

end
