(* ===== verification/Domain_Work.thy ===== *)
theory Domain_Work
  imports Domain_Plan Shared_Paths
begin

text \<open>
  The remaining entities of \<^verbatim>\<open>crates/domain/src\<close> the command handler works with: projects
  (\<^verbatim>\<open>project.rs\<close>, \<^verbatim>\<open>project_settings.rs\<close>), lifecycle rules (\<^verbatim>\<open>rule.rs\<close>) and evidence (\<^verbatim>\<open>evidence.rs\<close>),
  resource leases (\<^verbatim>\<open>work_lease.rs\<close>), work units (\<^verbatim>\<open>work_unit.rs\<close>), handoff contracts
  (\<^verbatim>\<open>handoff.rs\<close>), artifacts (\<^verbatim>\<open>artifact.rs\<close>), agent sessions (\<^verbatim>\<open>session.rs\<close>) and run signals
  (\<^verbatim>\<open>signal.rs\<close>). Constructors and fields carry a prefix of their type.
\<close>

subsection \<open>project.rs, project\_settings.rs\<close>

fun has_double_dash :: "string \<Rightarrow> bool" where
  "has_double_dash (a # b # cs) \<longleftrightarrow> (a = CHR ''-'' \<and> b = CHR ''-'') \<or> has_double_dash (b # cs)"
| "has_double_dash _ \<longleftrightarrow> False"

text \<open>\<^verbatim>\<open>slug.replace("--", "-")\<close>: the matches do not overlap.\<close>

fun replace_double_dash :: "string \<Rightarrow> string" where
  "replace_double_dash (a # b # cs) =
     (if a = CHR ''-'' \<and> b = CHR ''-'' then CHR ''-'' # replace_double_dash cs
      else a # replace_double_dash (b # cs))"
| "replace_double_dash cs = cs"

lemma replace_double_dash_length: "length (replace_double_dash s) \<le> length s"
  by (induction s rule: replace_double_dash.induct) auto

lemma replace_double_dash_less: "has_double_dash s \<Longrightarrow> length (replace_double_dash s) < length s"
proof (induction s rule: replace_double_dash.induct)
  case (1 a b cs)
  then show ?case using replace_double_dash_length [of cs] by auto
qed auto

lemma set_replace_double_dash: "set (replace_double_dash s) \<subseteq> set s"
  by (induction s rule: replace_double_dash.induct) auto

function collapse_dashes :: "string \<Rightarrow> string" where
  "collapse_dashes s = (if has_double_dash s then collapse_dashes (replace_double_dash s) else s)"
  by auto
termination by (relation "measure length") (auto simp: replace_double_dash_less)

declare collapse_dashes.simps [simp del]

definition is_ascii_alnum :: "char \<Rightarrow> bool" where
  "is_ascii_alnum c \<longleftrightarrow> is_ascii_alpha c \<or> is_ascii_digit c"

definition slugify_title :: "string \<Rightarrow> string" where
  "slugify_title title =
     (let slug = map (\<lambda>c. if is_ascii_alnum c then char_lower c else CHR ''-'') title;
          slug = collapse_dashes slug;
          slug = trim_char (CHR ''-'') slug;
          slug = (if slug = [] then ''project'' else slug)
      in if length slug > 64 then trim_end_char (CHR ''-'') (take 64 slug) else slug)"

record project =
  pr_id :: uuid
  pr_tenant_id :: "string option"
  pr_slug :: string
  pr_title :: string
  pr_description :: "string option"
  pr_triage_enabled :: bool
  pr_created_at :: timestamp
  pr_updated_at :: timestamp

definition DEFAULT_TENANT_ID :: string where
  "DEFAULT_TENANT_ID = ''self-hosted''"

definition project_new_with_slug :: "uuid \<Rightarrow> timestamp \<Rightarrow> string \<Rightarrow> string \<Rightarrow> string option \<Rightarrow> project" where
  "project_new_with_slug fresh now title slug description =
     \<lparr>pr_id = fresh, pr_tenant_id = Some DEFAULT_TENANT_ID, pr_slug = slug, pr_title = title,
      pr_description = description, pr_triage_enabled = False, pr_created_at = now, pr_updated_at = now\<rparr>"

record auto_append_settings =
  aa_interview :: bool
  aa_human_log :: bool

definition auto_append_default :: auto_append_settings where
  "auto_append_default = \<lparr>aa_interview = True, aa_human_log = True\<rparr>"

record auto_append_patch =
  ap_interview :: "bool option"
  ap_human_log :: "bool option"

definition auto_append_apply :: "auto_append_settings \<Rightarrow> auto_append_patch \<Rightarrow> auto_append_settings" where
  "auto_append_apply s p = s
     \<lparr>aa_interview := unwrap_or (aa_interview s) (ap_interview p),
      aa_human_log := unwrap_or (aa_human_log s) (ap_human_log p)\<rparr>"

subsection \<open>rule.rs\<close>

datatype rule_mode = ModeOff | Recommendation | Required

fun strictness :: "rule_mode \<Rightarrow> nat" where
  "strictness ModeOff = 0"
| "strictness Recommendation = 1"
| "strictness Required = 2"

datatype rule_scope = ScopeTenant | ScopeProject uuid | ScopePlan uuid | ScopeTask uuid

fun rule_scope_kind :: "rule_scope \<Rightarrow> string" where
  "rule_scope_kind ScopeTenant = ''tenant''"
| "rule_scope_kind (ScopeProject _) = ''project''"
| "rule_scope_kind (ScopePlan _) = ''plan''"
| "rule_scope_kind (ScopeTask _) = ''task''"

datatype rule_trigger =
    TrProjectCreated | TrPlanCreated | TrPlanBeforeApprove | TrTaskCreated | TrTaskBeforeStart
  | TrTaskBeforeComplete | TrRunBeforeExecute | TrRunBeforeComplete | TrDocumentCreated | TrTaskHandoff

record condition =
  cond_status_from :: "status list option"
  cond_status_to :: "status list option"
  cond_title_prefix :: "string list option"

definition condition_is_empty :: "condition \<Rightarrow> bool" where
  "condition_is_empty c \<longleftrightarrow>
     cond_status_from c = None \<and> cond_status_to c = None \<and> cond_title_prefix c = None"

datatype requirement =
    ReadArtifact string string
  | CreateArtifact string
  | ImpactCheck string "string list"
  | DecisionRecord "string list"
  | CompletionNoteReq "string list"
  | OwnerRequired
  | AcceptanceCriteriaRequired
  | IndependentTestVerification uuid string
  | DocumentLinked
  | RiskCheck string "string list"
  | WipLimit "8 word"

fun requirement_type_str :: "requirement \<Rightarrow> string" where
  "requirement_type_str (ReadArtifact _ _) = ''read_artifact''"
| "requirement_type_str (CreateArtifact _) = ''create_artifact''"
| "requirement_type_str (ImpactCheck _ _) = ''impact_check''"
| "requirement_type_str (DecisionRecord _) = ''decision_record''"
| "requirement_type_str (CompletionNoteReq _) = ''completion_note''"
| "requirement_type_str OwnerRequired = ''owner_required''"
| "requirement_type_str AcceptanceCriteriaRequired = ''acceptance_criteria_required''"
| "requirement_type_str (RiskCheck _ _) = ''risk_check''"
| "requirement_type_str DocumentLinked = ''document_linked''"
| "requirement_type_str (IndependentTestVerification _ _) = ''independent_test_verification''"
| "requirement_type_str (WipLimit _) = ''wip_limit''"

definition placement_error :: "requirement \<Rightarrow> rule_scope \<Rightarrow> rule_trigger \<Rightarrow> string option" where
  "placement_error req sc tr =
     (case req of
        WipLimit max_in_progress \<Rightarrow>
          if tr \<noteq> TrTaskBeforeStart
          then Some ''wip_limit is only valid on trigger task.before_start''
          else if (case sc of ScopeTask _ \<Rightarrow> True | _ \<Rightarrow> False)
          then Some ''wip_limit needs a tenant, project or plan scope; a task scope holds one task''
          else if max_in_progress = 0
          then Some ''wip_limit max_in_progress must be at least 1''
          else None
      | _ \<Rightarrow> None)"

record rule =
  ru_id :: uuid
  ru_rule_key :: string
  ru_title :: string
  ru_scope :: rule_scope
  ru_trigger :: rule_trigger
  ru_condition :: "condition option"
  ru_requirement :: requirement
  ru_mode :: rule_mode
  ru_message :: string
  ru_override_allowed :: bool
  ru_enabled :: bool
  ru_created_at :: timestamp
  ru_updated_at :: timestamp

record new_rule =
  nr_id :: "uuid option"
  nr_rule_key :: string
  nr_title :: string
  nr_scope :: rule_scope
  nr_trigger :: rule_trigger
  nr_condition :: "condition option"
  nr_requirement :: requirement
  nr_mode :: rule_mode
  nr_message :: string
  nr_override_allowed :: bool
  nr_enabled :: bool

definition into_rule :: "uuid \<Rightarrow> new_rule \<Rightarrow> timestamp \<Rightarrow> rule" where
  "into_rule fresh n now =
     \<lparr>ru_id = unwrap_or fresh (nr_id n), ru_rule_key = nr_rule_key n, ru_title = nr_title n,
      ru_scope = nr_scope n, ru_trigger = nr_trigger n, ru_condition = nr_condition n,
      ru_requirement = nr_requirement n, ru_mode = nr_mode n, ru_message = nr_message n,
      ru_override_allowed = nr_override_allowed n, ru_enabled = nr_enabled n,
      ru_created_at = now, ru_updated_at = now\<rparr>"

record rule_patch =
  rp_title :: "string option"
  rp_condition :: "condition option option"
  rp_requirement :: "requirement option"
  rp_mode :: "rule_mode option"
  rp_message :: "string option"
  rp_override_allowed :: "bool option"
  rp_enabled :: "bool option"

definition rule_patch_is_empty :: "rule_patch \<Rightarrow> bool" where
  "rule_patch_is_empty p \<longleftrightarrow>
     rp_title p = None \<and> rp_condition p = None \<and> rp_requirement p = None \<and> rp_mode p = None \<and>
     rp_message p = None \<and> rp_override_allowed p = None \<and> rp_enabled p = None"

definition rule_patch_apply :: "rule_patch \<Rightarrow> rule \<Rightarrow> timestamp \<Rightarrow> rule" where
  "rule_patch_apply p r now = r
     \<lparr>ru_title := unwrap_or (ru_title r) (rp_title p),
      ru_condition := unwrap_or (ru_condition r) (rp_condition p),
      ru_requirement := unwrap_or (ru_requirement r) (rp_requirement p),
      ru_mode := unwrap_or (ru_mode r) (rp_mode p),
      ru_message := unwrap_or (ru_message r) (rp_message p),
      ru_override_allowed := unwrap_or (ru_override_allowed r) (rp_override_allowed p),
      ru_enabled := unwrap_or (ru_enabled r) (rp_enabled p),
      ru_updated_at := now\<rparr>"

lemma rule_patch_apply_identity [simp]:
  "ru_id (rule_patch_apply p r now) = ru_id r"
  "ru_rule_key (rule_patch_apply p r now) = ru_rule_key r"
  "ru_scope (rule_patch_apply p r now) = ru_scope r"
  "ru_trigger (rule_patch_apply p r now) = ru_trigger r"
  by (simp_all add: rule_patch_apply_def)

subsection \<open>evidence.rs\<close>

datatype evidence_kind =
    DocumentReadAck | ImpactAssessment | DecisionRecordEv | CompletionNoteEv | ArtifactCreatedEv
  | OwnerAssigned | AcceptanceCriteriaDefined | RiskCheckCompleted

datatype evidence_reach = SelfOnly | ReachPlan | ReachProject | ReachTenant

fun evidence_kind_reach :: "evidence_kind \<Rightarrow> evidence_reach" where
  "evidence_kind_reach DocumentReadAck = ReachTenant"
| "evidence_kind_reach DecisionRecordEv = ReachProject"
| "evidence_kind_reach ArtifactCreatedEv = ReachProject"
| "evidence_kind_reach ImpactAssessment = ReachPlan"
| "evidence_kind_reach RiskCheckCompleted = ReachPlan"
| "evidence_kind_reach OwnerAssigned = SelfOnly"
| "evidence_kind_reach AcceptanceCriteriaDefined = SelfOnly"
| "evidence_kind_reach CompletionNoteEv = SelfOnly"

fun evidence_kind_as_str :: "evidence_kind \<Rightarrow> string" where
  "evidence_kind_as_str DocumentReadAck = ''document_read_ack''"
| "evidence_kind_as_str ImpactAssessment = ''impact_assessment''"
| "evidence_kind_as_str DecisionRecordEv = ''decision_record''"
| "evidence_kind_as_str CompletionNoteEv = ''completion_note''"
| "evidence_kind_as_str ArtifactCreatedEv = ''artifact_created''"
| "evidence_kind_as_str OwnerAssigned = ''owner_assigned''"
| "evidence_kind_as_str AcceptanceCriteriaDefined = ''acceptance_criteria_defined''"
| "evidence_kind_as_str RiskCheckCompleted = ''risk_check_completed''"

definition evidence_kind_parse_str :: "string \<Rightarrow> evidence_kind option" where
  "evidence_kind_parse_str s =
     (if s = ''document_read_ack'' then Some DocumentReadAck
      else if s = ''impact_assessment'' then Some ImpactAssessment
      else if s = ''decision_record'' then Some DecisionRecordEv
      else if s = ''completion_note'' then Some CompletionNoteEv
      else if s = ''artifact_created'' then Some ArtifactCreatedEv
      else if s = ''owner_assigned'' then Some OwnerAssigned
      else if s = ''acceptance_criteria_defined'' then Some AcceptanceCriteriaDefined
      else if s = ''risk_check_completed'' then Some RiskCheckCompleted
      else None)"

record evidence =
  ev_id :: uuid
  ev_kind :: evidence_kind
  ev_scope :: rule_scope
  ev_target :: "string option"
  ev_doc_version :: "string option"
  ev_actor :: actor_ref
  ev_authenticated_actor_id :: "uuid option"
  ev_reason :: string
  ev_payload :: json
  ev_project_id :: "uuid option"
  ev_plan_id :: "uuid option"
  ev_task_id :: "uuid option"
  ev_run_id :: "uuid option"
  ev_artifact_id :: "uuid option"
  ev_rule_id :: "uuid option"
  ev_recorded_at :: timestamp
  ev_superseded_by :: "uuid option"

record new_evidence =
  ne_id :: "uuid option"
  ne_kind :: evidence_kind
  ne_scope :: rule_scope
  ne_target :: "string option"
  ne_doc_version :: "string option"
  ne_reason :: string
  ne_payload :: json
  ne_project_id :: "uuid option"
  ne_plan_id :: "uuid option"
  ne_task_id :: "uuid option"
  ne_run_id :: "uuid option"
  ne_artifact_id :: "uuid option"
  ne_rule_id :: "uuid option"
  ne_supersedes :: "uuid option"

definition into_evidence :: "uuid \<Rightarrow> new_evidence \<Rightarrow> actor_ref \<Rightarrow> timestamp \<Rightarrow> evidence" where
  "into_evidence fresh n a now =
     \<lparr>ev_id = unwrap_or fresh (ne_id n), ev_kind = ne_kind n, ev_scope = ne_scope n,
      ev_target = ne_target n, ev_doc_version = ne_doc_version n, ev_actor = a,
      ev_authenticated_actor_id = None, ev_reason = ne_reason n, ev_payload = ne_payload n,
      ev_project_id = ne_project_id n, ev_plan_id = ne_plan_id n, ev_task_id = ne_task_id n,
      ev_run_id = ne_run_id n, ev_artifact_id = ne_artifact_id n, ev_rule_id = ne_rule_id n,
      ev_recorded_at = now, ev_superseded_by = None\<rparr>"

subsection \<open>work\_lease.rs\<close>

datatype lease_mode = Exclusive | SharedRead | LeaseReview | LeaseIntent

fun lease_mode_as_str :: "lease_mode \<Rightarrow> string" where
  "lease_mode_as_str Exclusive = ''exclusive''"
| "lease_mode_as_str SharedRead = ''shared_read''"
| "lease_mode_as_str LeaseReview = ''review''"
| "lease_mode_as_str LeaseIntent = ''intent''"

definition lease_mode_parse :: "string \<Rightarrow> lease_mode option" where
  "lease_mode_parse s =
     (let s = map char_lower (trim s) in
      if s = ''exclusive'' then Some Exclusive
      else if s = ''shared_read'' then Some SharedRead
      else if s = ''review'' then Some LeaseReview
      else if s = ''intent'' then Some LeaseIntent
      else None)"

definition mode_conflicts_with :: "lease_mode \<Rightarrow> lease_mode \<Rightarrow> bool" where
  "mode_conflicts_with a b =
     (if a = LeaseIntent \<or> b = LeaseIntent then False else a = Exclusive \<or> b = Exclusive)"

definition canonical_target_uri :: "string \<Rightarrow> string" where
  "canonical_target_uri raw =
     (let raw = trim raw in
      case split_once ''://'' raw of
        None \<Rightarrow> ''file://'' @ normalize_lease_path raw
      | Some (scheme, rest) \<Rightarrow>
          if eq_ignore_ascii_case scheme ''file'' then ''file://'' @ normalize_lease_path rest
          else map char_lower scheme @ ''://'' @ trim_end_char (CHR ''/'') (trim rest))"

definition targets_overlap :: "string \<Rightarrow> string \<Rightarrow> bool" where
  "targets_overlap a b =
     (case (strip_prefix ''file://'' a, strip_prefix ''file://'' b) of
        (Some pa, Some pb) \<Rightarrow> paths_overlap pa pb
      | (None, None) \<Rightarrow> a = b
      | _ \<Rightarrow> False)"

record work_lease =
  wl_id :: uuid
  wl_agent_id :: uuid
  wl_task_id :: uuid
  wl_project_id :: "uuid option"
  wl_path_glob :: string
  wl_target_uri :: "string option"
  wl_mode :: lease_mode
  wl_fencing_token :: "int option"
  wl_acquired_at :: timestamp
  wl_expires_at :: timestamp

definition resource_key :: "work_lease \<Rightarrow> string" where
  "resource_key l = unwrap_or (canonical_target_uri (wl_path_glob l)) (wl_target_uri l)"

subsection \<open>work\_unit.rs\<close>

datatype work_unit_status = WuTodo | WuReady | WuInProgress | WuBlocked | WuReview | WuDone | WuCancelled

fun work_unit_is_terminal :: "work_unit_status \<Rightarrow> bool" where
  "work_unit_is_terminal WuDone = True"
| "work_unit_is_terminal WuCancelled = True"
| "work_unit_is_terminal _ = False"

fun is_dispatchable :: "work_unit_status \<Rightarrow> bool" where
  "is_dispatchable WuTodo = True"
| "is_dispatchable WuReady = True"
| "is_dispatchable _ = False"

fun work_unit_status_as_str :: "work_unit_status \<Rightarrow> string" where
  "work_unit_status_as_str WuTodo = ''todo''"
| "work_unit_status_as_str WuReady = ''ready''"
| "work_unit_status_as_str WuInProgress = ''in_progress''"
| "work_unit_status_as_str WuBlocked = ''blocked''"
| "work_unit_status_as_str WuReview = ''review''"
| "work_unit_status_as_str WuDone = ''done''"
| "work_unit_status_as_str WuCancelled = ''cancelled''"

record work_unit =
  wu_id :: uuid
  wu_task_id :: uuid
  wu_stage_plan_id :: "uuid option"
  wu_title :: string
  wu_description :: string
  wu_status :: work_unit_status
  wu_priority :: priority
  wu_capability_tags :: "string list"
  wu_owner_agent_id :: "uuid option"
  wu_claim_expires_at :: "timestamp option"
  wu_artifact_refs :: "string list"
  wu_acceptance :: "string list"
  wu_created_at :: timestamp
  wu_updated_at :: timestamp

record new_work_unit =
  nw_id :: "uuid option"
  nw_task_id :: uuid
  nw_stage_plan_id :: "uuid option"
  nw_title :: string
  nw_description :: "string option"
  nw_status :: "work_unit_status option"
  nw_priority :: "priority option"
  nw_capability_tags :: "string list"
  nw_artifact_refs :: "string list"
  nw_acceptance :: "string list"

definition into_work_unit :: "uuid \<Rightarrow> new_work_unit \<Rightarrow> timestamp \<Rightarrow> work_unit" where
  "into_work_unit fresh n now =
     \<lparr>wu_id = unwrap_or fresh (nw_id n), wu_task_id = nw_task_id n,
      wu_stage_plan_id = nw_stage_plan_id n, wu_title = nw_title n,
      wu_description = unwrap_or [] (nw_description n), wu_status = unwrap_or WuTodo (nw_status n),
      wu_priority = unwrap_or priority_default (nw_priority n),
      wu_capability_tags = nw_capability_tags n, wu_owner_agent_id = None,
      wu_claim_expires_at = None, wu_artifact_refs = nw_artifact_refs n,
      wu_acceptance = nw_acceptance n, wu_created_at = now, wu_updated_at = now\<rparr>"

subsection \<open>handoff.rs\<close>

datatype handoff_status = HoOpen | HoReady | HoAccepted | HoRejected | HoExpired

definition blocks_dispatch :: "handoff_status \<Rightarrow> bool" where
  "blocks_dispatch s \<longleftrightarrow> s \<noteq> HoAccepted"

record handoff_contract =
  ho_id :: uuid
  ho_from_work_unit_id :: uuid
  ho_to_work_unit_id :: uuid
  ho_required_artifact_ids :: "string list"
  ho_required_state :: "string option"
  ho_checklist :: "string list"
  ho_owner_agent_id :: "uuid option"
  ho_accepted_by_agent_id :: "uuid option"
  ho_status :: handoff_status
  ho_notes :: "string option"
  ho_required_changes :: "string list"
  ho_created_at :: timestamp
  ho_updated_at :: timestamp

record new_handoff_contract =
  nh_from_work_unit_id :: uuid
  nh_to_work_unit_id :: uuid
  nh_required_artifact_ids :: "string list"
  nh_required_state :: "string option"
  nh_checklist :: "string list"
  nh_owner_agent_id :: "uuid option"

definition into_contract :: "new_handoff_contract \<Rightarrow> uuid \<Rightarrow> timestamp \<Rightarrow> handoff_contract" where
  "into_contract n i now =
     \<lparr>ho_id = i, ho_from_work_unit_id = nh_from_work_unit_id n,
      ho_to_work_unit_id = nh_to_work_unit_id n,
      ho_required_artifact_ids = nh_required_artifact_ids n,
      ho_required_state = nh_required_state n, ho_checklist = nh_checklist n,
      ho_owner_agent_id = nh_owner_agent_id n, ho_accepted_by_agent_id = None, ho_status = HoOpen,
      ho_notes = None, ho_required_changes = [], ho_created_at = now, ho_updated_at = now\<rparr>"

subsection \<open>artifact.rs\<close>

datatype artifact_status = ArtPending | ArtActive | ArtCommitted | ArtDeprecated

datatype role_artifact_status = RaProposed | RaSuperseded | RaApplied | RaRejected

definition can_transition_to :: "role_artifact_status \<Rightarrow> role_artifact_status \<Rightarrow> bool" where
  "can_transition_to a b \<longleftrightarrow> a = RaProposed \<and> b \<noteq> RaProposed"

record role_artifact =
  ra_role :: string
  ra_kind :: string
  ra_generation :: int
  ra_status :: role_artifact_status
  ra_payload :: json

record artifact =
  art_id :: uuid
  art_uri :: string
  art_title :: string
  art_description :: string
  art_status :: artifact_status
  art_owner_agent_id :: "uuid option"
  art_task_id :: "uuid option"
  art_project_id :: "uuid option"
  art_version :: "string option"
  art_last_write_token :: "int option"
  art_role_artifact :: "role_artifact option"
  art_created_at :: timestamp
  art_updated_at :: timestamp

datatype artifact_relation_kind =
    ArDependsOn | ArImplements | ArTests | ArDocuments | ArSupersedes | ArConflictsWith

record artifact_relation =
  arel_id :: uuid
  arel_from_id :: uuid
  arel_to_id :: uuid
  arel_kind :: artifact_relation_kind
  arel_created_at :: timestamp

record new_artifact =
  na_id :: "uuid option"
  na_uri :: string
  na_title :: string
  na_description :: "string option"
  na_task_id :: "uuid option"
  na_project_id :: "uuid option"

definition into_artifact :: "uuid \<Rightarrow> new_artifact \<Rightarrow> timestamp \<Rightarrow> artifact" where
  "into_artifact fresh n now =
     \<lparr>art_id = unwrap_or fresh (na_id n), art_uri = na_uri n, art_title = na_title n,
      art_description = unwrap_or [] (na_description n), art_status = ArtPending,
      art_owner_agent_id = None, art_task_id = na_task_id n, art_project_id = na_project_id n,
      art_version = None, art_last_write_token = None, art_role_artifact = None,
      art_created_at = now, art_updated_at = now\<rparr>"

subsection \<open>session.rs, signal.rs\<close>

datatype session_step_status = StepPending | StepInProgress | StepCompleted | StepCanceled

record agent_session_plan_step =
  sps_content :: string
  sps_status :: session_step_status

record agent_session =
  se_id :: uuid
  se_agent_id :: uuid
  se_parent_agent_id :: "uuid option"
  se_started_at :: timestamp
  se_ended_at :: "timestamp option"
  se_plan_steps :: "agent_session_plan_step list"
  se_metadata :: json

datatype session_artifact_kind = SaFile | SaUrl | SaDiff

record session_artifact =
  sa_id :: uuid
  sa_session_id :: uuid
  sa_kind :: session_artifact_kind
  sa_reference :: string
  sa_metadata :: json
  sa_created_at :: timestamp

datatype signal_kind =
    SigStop "string option"
  | SigElicit string "string list"
  | SigAuthRequired string
  | SigInterventionAccepted string

subsection \<open>Lemmas\<close>

lemma evidence_kind_parse_as_str: "evidence_kind_parse_str (evidence_kind_as_str k) = Some k"
  by (cases k) (simp_all add: evidence_kind_parse_str_def)

lemma mode_conflicts_with_sym: "mode_conflicts_with a b = mode_conflicts_with b a"
  by (cases a; cases b) (simp_all add: mode_conflicts_with_def)

lemma has_double_dash_collapse: "\<not> has_double_dash (collapse_dashes s)"
  by (induction s rule: collapse_dashes.induct) (subst collapse_dashes.simps, simp)

lemma set_collapse_dashes: "set (collapse_dashes s) \<subseteq> set s"
proof (induction s rule: collapse_dashes.induct)
  case (1 s)
  then show ?case using set_replace_double_dash [of s] by (subst collapse_dashes.simps) auto
qed

lemma has_double_dash_iff: "has_double_dash s \<longleftrightarrow> (\<exists>u v. s = u @ ''--'' @ v)"
proof (induction s rule: has_double_dash.induct)
  case (1 a b cs)
  have "(\<exists>u v. a # b # cs = u @ ''--'' @ v) \<longleftrightarrow>
      (a = CHR ''-'' \<and> b = CHR ''-'') \<or> (\<exists>u v. b # cs = u @ ''--'' @ v)"
  proof (intro iffI; elim disjE exE)
    fix u v
    assume eq: "a # b # cs = u @ ''--'' @ v"
    show "(a = CHR ''-'' \<and> b = CHR ''-'') \<or> (\<exists>u v. b # cs = u @ ''--'' @ v)"
    proof (cases u)
      case Nil
      then show ?thesis using eq by simp
    next
      case (Cons x xs)
      then have "b # cs = xs @ ''--'' @ v" using eq by simp
      then show ?thesis by blast
    qed
  next
    assume "a = CHR ''-'' \<and> b = CHR ''-''"
    then have "a # b # cs = [] @ ''--'' @ cs" by simp
    then show "\<exists>u v. a # b # cs = u @ ''--'' @ v" by blast
  next
    fix u v
    assume "b # cs = u @ ''--'' @ v"
    then have "a # b # cs = (a # u) @ ''--'' @ v" by simp
    then show "\<exists>u v. a # b # cs = u @ ''--'' @ v" by blast
  qed
  then show ?case using 1 by simp
qed (auto simp: Cons_eq_append_conv)

end
