(* ===== verification/Events.thy ===== *)
theory Events
  imports Domain_Work
begin

text \<open>
  The event vocabulary of \<^verbatim>\<open>crates/events/src\<close>: the \<^verbatim>\<open>Event\<close> enum, its classifiers \<^verbatim>\<open>class\<close>, \<^verbatim>\<open>kind\<close>,
  \<^verbatim>\<open>target_task\<close>, \<^verbatim>\<open>target_project\<close>, \<^verbatim>\<open>channel\<close>, and the \<^verbatim>\<open>EventEnvelope\<close>.

  The enum has over a hundred variants; the datatype follows the sections its comments draw, one
  datatype per section, under one sum type \<open>event\<close>. Variant names and field order are the source's.
  \<^verbatim>\<open>at\<close> and \<^verbatim>\<open>occurred_at\<close> stamps are kept where the source has them.
\<close>

subsection \<open>Payload types\<close>

datatype obsolescence_kind = ObsArchived | ObsTaskRemoved | ObsGoalChanged

datatype operational_event_type = OpStep | OpTransition | OpError

datatype operational_outcome = OpOk | OpRetry | OpBlocked | OpFailed

record operational_metric =
  om_ts :: timestamp
  om_event_type :: operational_event_type
  om_run_id :: string
  om_node_id :: "string option"
  om_layer :: string
  om_name :: string
  om_outcome :: operational_outcome
  om_latency_ms :: "64 word"
  om_tokens :: "json option"
  om_retry_count :: "32 word"
  om_error_class :: "string option"
  om_stuck_reason :: "string option"
  om_attrs :: json

record graph_edge_spec =
  ges_from_id :: string
  ges_to_id :: string
  ges_kind :: string

record graph_node_upsert =
  gnu_node_id :: string
  gnu_kind :: string
  gnu_source_id :: string
  gnu_project_id :: "string option"
  gnu_title :: string
  gnu_text :: string
  gnu_metadata_json :: json
  gnu_edges :: "graph_edge_spec list"
  gnu_at :: timestamp

datatype agent_action_kind =
    SuggestTask string string
  | SuggestSplit uuid "string list"
  | SuggestPriority uuid priority string
  | SummarizeProject uuid string
  | SuggestNextAction string

record agent_action =
  aact_agent_name :: string
  aact_kind :: agent_action_kind
  aact_created_at :: timestamp

record comment_patch =
  cp_body :: "string option"

datatype intake_source_mode = SourceOff | SourceWarn | SourceEnforce

record source_derive_rule =
  sdr_from :: string
  sdr_pattern :: string
  sdr_ref_template :: string

record source_channel =
  sch_scheme :: string
  sch_pattern :: "string option"
  sch_label :: "string option"
  sch_note_required :: bool

record intake_source_policy =
  isp_mode :: intake_source_mode
  isp_default_ref :: "string option"
  isp_derive :: "source_derive_rule list"
  isp_channels :: "source_channel list"

datatype rule_decision = Warning | Blocked | Overridden

fun rule_decision_as_str :: "rule_decision \<Rightarrow> string" where
  "rule_decision_as_str Warning = ''warning''"
| "rule_decision_as_str Blocked = ''blocked''"
| "rule_decision_as_str Overridden = ''overridden''"

record rule_fired =
  rf_rule_id :: uuid
  rf_rule_key :: string
  rf_decision :: rule_decision
  rf_trigger :: string
  rf_actor :: actor
  rf_project_id :: "uuid option"
  rf_plan_id :: "uuid option"
  rf_task_id :: "uuid option"
  rf_message :: string
  rf_override_reason :: "string option"
  rf_at :: timestamp

subsection \<open>The event enum, section by section\<close>

datatype telemetry_event =
    OperationalMetricRecorded operational_metric
  | GraphNodeUpserted graph_node_upsert

datatype task_event =
    TaskCreated new_task
  | TaskUpdated uuid task_patch
  | TaskStatusChanged uuid status status
  | TaskPriorityChanged uuid priority priority
  | TaskCompleted uuid timestamp "completion_note option"
  | TaskDeleted uuid
  | TaskSplitGenerated uuid "new_task list"
  | ConflictResolved uuid uuid string json
  | ProjectCreated project
  | ProjectUpdated uuid "string option" "string option option"
  | ProjectDeleted uuid
  | AgentActionRecorded agent_action
  | CommentAdded comment
  | CommentEdited uuid uuid comment_patch timestamp
  | CommentDeleted uuid uuid timestamp
  | TaskReopened uuid actor timestamp
  | TaskClosed uuid actor timestamp
  | TaskCommented uuid uuid actor string

datatype plan_event =
    PlanCreated plan
  | PlanUpdated uuid plan_patch
  | PlanStatusChanged uuid plan_status plan_status
  | PlanGoalChanged uuid string string
  | PlanTaskAdded uuid uuid "32 word" "uuid list"
  | PlanTaskRemoved uuid uuid
  | PlanTaskAmended uuid uuid task_patch
  | PlanReordered uuid "uuid list"
  | PlanArchived uuid timestamp
  | PlanDeleted uuid timestamp
  | SourceUpserted source_node
  | PlanSourceSet uuid string timestamp

datatype run_event =
    RunStarted run
  | RunStepStarted uuid uuid timestamp
  | RunStepFinished uuid uuid run_outcome timestamp
  | RunCompleted uuid timestamp
  | RunFailed uuid string timestamp
  | RunAborted uuid string timestamp
  | RunUnresponsive uuid timestamp
  | RunStale uuid timestamp
  | RunNoteAppended uuid uuid string actor timestamp

datatype session_event =
    AgentSessionStarted agent_session
  | AgentSessionEnded uuid timestamp
  | AgentSessionPlanUpdated uuid "agent_session_plan_step list"
  | SessionArtifactAttached session_artifact
  | AgentClaimed uuid uuid "uuid option" timestamp
  | AgentReleased uuid uuid "uuid option"
  | FilesReserved "work_lease list"
  | FilesReleased uuid uuid "uuid list option"

datatype signal_event =
    PlanModifiedByHuman uuid "uuid option"
  | TaskContested uuid "actor list" "string option"
  | RunObsolescedByPlanEdit uuid uuid obsolescence_kind
  | RunStopRequested uuid "string option" actor
  | RunElicitationRequested uuid string "string list"
  | RunAuthRequired uuid string
  | RunInterventionAccepted uuid string actor

datatype relation_event =
    TaskLinked uuid uuid uuid relation_kind actor timestamp
  | TaskUnlinked uuid uuid uuid relation_kind timestamp
  | TaskUnblocked uuid uuid timestamp
  | TaskDueElapsed uuid timestamp timestamp
  | TaskRelationKindChanged uuid uuid uuid relation_kind relation_kind timestamp

datatype settings_event =
    ProjectSettingsChanged uuid auto_append_settings timestamp
      "intake_source_policy option option" "json option option"
  | AiOperationStarted uuid string string timestamp
  | AiOperationPhaseChanged uuid string "string option" timestamp
  | AiOperationCompleted uuid string timestamp

datatype work_event =
    WorkUnitCreated work_unit
  | WorkUnitClaimed uuid uuid timestamp
  | WorkUnitStarted uuid timestamp
  | WorkUnitBlocked uuid string timestamp
  | WorkUnitCompleted uuid string "string list" "uuid list" "uuid option" "int option" timestamp
  | WorkUnitReleased uuid timestamp
  | HandoffRequested handoff_contract
  | HandoffAccepted uuid "uuid option" "string option" "int option" timestamp
  | HandoffRejected uuid string "string list" "int option" timestamp

datatype document_event =
    DocumentCreated document
  | DocumentContentReplaced uuid string timestamp
  | DocumentContentAppended uuid string timestamp
  | DocumentRenamed uuid string timestamp
  | DocumentArchived uuid timestamp
  | DocumentStatusChanged uuid document_status document_status timestamp
  | DocumentTaskLinkChanged uuid "uuid option" timestamp

datatype artifact_event =
    ArtifactRegistered artifact
  | ArtifactOwnerAssigned uuid uuid timestamp
  | ArtifactStatusChanged uuid artifact_status artifact_status timestamp
  | ArtifactChanged uuid "string option" "string option" timestamp
  | ArtifactWriteCommitted uuid uuid int "string option" timestamp
  | ArtifactDeprecated uuid "string option" timestamp
  | ArtifactRelationAdded artifact_relation
  | ArtifactRelationRemoved uuid uuid uuid artifact_relation_kind timestamp
  | RoleArtifactStatusChanged uuid role_artifact_status role_artifact_status timestamp

datatype rule_event =
    RuleCreated rule
  | RuleUpdated rule
  | RuleDisabled uuid timestamp
  | RuleDeleted uuid
  | EvidenceRecorded evidence
  | EvidenceSuperseded uuid uuid timestamp
  | RuleFired rule_fired
  | DeviceConnected uuid timestamp
  | DeviceDisconnected uuid timestamp

datatype event =
    TelemetryEv telemetry_event
  | TaskEv task_event
  | PlanEv plan_event
  | RunEv run_event
  | SessionEv session_event
  | SignalEv signal_event
  | RelationEv relation_event
  | SettingsEv settings_event
  | WorkEv work_event
  | DocumentEv document_event
  | ArtifactEv artifact_event
  | RuleEv rule_event

subsection \<open>kind\<close>

fun telemetry_event_kind :: "telemetry_event \<Rightarrow> string" where
  "telemetry_event_kind (OperationalMetricRecorded _) = ''operational_metric_recorded''"
| "telemetry_event_kind (GraphNodeUpserted _) = ''graph_node_upserted''"

fun task_event_kind :: "task_event \<Rightarrow> string" where
  "task_event_kind (TaskCreated _) = ''task_created''"
| "task_event_kind (TaskUpdated _ _) = ''task_updated''"
| "task_event_kind (TaskStatusChanged _ _ _) = ''task_status_changed''"
| "task_event_kind (TaskPriorityChanged _ _ _) = ''task_priority_changed''"
| "task_event_kind (TaskCompleted _ _ _) = ''task_completed''"
| "task_event_kind (TaskDeleted _) = ''task_deleted''"
| "task_event_kind (TaskSplitGenerated _ _) = ''task_split_generated''"
| "task_event_kind (ConflictResolved _ _ _ _) = ''conflict_resolved''"
| "task_event_kind (ProjectCreated _) = ''project_created''"
| "task_event_kind (ProjectUpdated _ _ _) = ''project_updated''"
| "task_event_kind (ProjectDeleted _) = ''project_deleted''"
| "task_event_kind (AgentActionRecorded _) = ''agent_action_recorded''"
| "task_event_kind (CommentAdded _) = ''comment_added''"
| "task_event_kind (CommentEdited _ _ _ _) = ''comment_edited''"
| "task_event_kind (CommentDeleted _ _ _) = ''comment_deleted''"
| "task_event_kind (TaskReopened _ _ _) = ''task_reopened''"
| "task_event_kind (TaskClosed _ _ _) = ''task_closed''"
| "task_event_kind (TaskCommented _ _ _ _) = ''task_commented''"

fun plan_event_kind :: "plan_event \<Rightarrow> string" where
  "plan_event_kind (PlanCreated _) = ''plan_created''"
| "plan_event_kind (PlanUpdated _ _) = ''plan_updated''"
| "plan_event_kind (PlanStatusChanged _ _ _) = ''plan_status_changed''"
| "plan_event_kind (PlanGoalChanged _ _ _) = ''plan_goal_changed''"
| "plan_event_kind (PlanTaskAdded _ _ _ _) = ''plan_task_added''"
| "plan_event_kind (PlanTaskRemoved _ _) = ''plan_task_removed''"
| "plan_event_kind (PlanTaskAmended _ _ _) = ''plan_task_amended''"
| "plan_event_kind (PlanReordered _ _) = ''plan_reordered''"
| "plan_event_kind (PlanArchived _ _) = ''plan_archived''"
| "plan_event_kind (PlanDeleted _ _) = ''plan_deleted''"
| "plan_event_kind (SourceUpserted _) = ''source_upserted''"
| "plan_event_kind (PlanSourceSet _ _ _) = ''plan_source_set''"

fun run_event_kind :: "run_event \<Rightarrow> string" where
  "run_event_kind (RunStarted _) = ''run_started''"
| "run_event_kind (RunStepStarted _ _ _) = ''run_step_started''"
| "run_event_kind (RunStepFinished _ _ _ _) = ''run_step_finished''"
| "run_event_kind (RunCompleted _ _) = ''run_completed''"
| "run_event_kind (RunFailed _ _ _) = ''run_failed''"
| "run_event_kind (RunAborted _ _ _) = ''run_aborted''"
| "run_event_kind (RunUnresponsive _ _) = ''run_unresponsive''"
| "run_event_kind (RunStale _ _) = ''run_stale''"
| "run_event_kind (RunNoteAppended _ _ _ _ _) = ''run_note_appended''"

fun session_event_kind :: "session_event \<Rightarrow> string" where
  "session_event_kind (AgentSessionStarted _) = ''agent_session_started''"
| "session_event_kind (AgentSessionEnded _ _) = ''agent_session_ended''"
| "session_event_kind (AgentSessionPlanUpdated _ _) = ''agent_session_plan_updated''"
| "session_event_kind (SessionArtifactAttached _) = ''session_artifact_attached''"
| "session_event_kind (AgentClaimed _ _ _ _) = ''agent_claimed''"
| "session_event_kind (AgentReleased _ _ _) = ''agent_released''"
| "session_event_kind (FilesReserved _) = ''files_reserved''"
| "session_event_kind (FilesReleased _ _ _) = ''files_released''"

fun signal_event_kind :: "signal_event \<Rightarrow> string" where
  "signal_event_kind (PlanModifiedByHuman _ _) = ''plan_modified_by_human''"
| "signal_event_kind (TaskContested _ _ _) = ''task_contested''"
| "signal_event_kind (RunObsolescedByPlanEdit _ _ _) = ''run_obsolesced_by_plan_edit''"
| "signal_event_kind (RunStopRequested _ _ _) = ''run_stop_requested''"
| "signal_event_kind (RunElicitationRequested _ _ _) = ''run_elicitation_requested''"
| "signal_event_kind (RunAuthRequired _ _) = ''run_auth_required''"
| "signal_event_kind (RunInterventionAccepted _ _ _) = ''run_intervention_accepted''"

fun relation_event_kind :: "relation_event \<Rightarrow> string" where
  "relation_event_kind (TaskLinked _ _ _ _ _ _) = ''task.linked''"
| "relation_event_kind (TaskUnlinked _ _ _ _ _) = ''task.unlinked''"
| "relation_event_kind (TaskUnblocked _ _ _) = ''task.unblocked''"
| "relation_event_kind (TaskDueElapsed _ _ _) = ''task.due''"
| "relation_event_kind (TaskRelationKindChanged _ _ _ _ _ _) = ''task.relation_kind_changed''"

fun settings_event_kind :: "settings_event \<Rightarrow> string" where
  "settings_event_kind (ProjectSettingsChanged _ _ _ _ _) = ''project_settings_changed''"
| "settings_event_kind (AiOperationStarted _ _ _ _) = ''ai_operation_started''"
| "settings_event_kind (AiOperationPhaseChanged _ _ _ _) = ''ai_operation_phase_changed''"
| "settings_event_kind (AiOperationCompleted _ _ _) = ''ai_operation_completed''"

fun work_event_kind :: "work_event \<Rightarrow> string" where
  "work_event_kind (WorkUnitCreated _) = ''work_unit_created''"
| "work_event_kind (WorkUnitClaimed _ _ _) = ''work_unit_claimed''"
| "work_event_kind (WorkUnitStarted _ _) = ''work_unit_started''"
| "work_event_kind (WorkUnitBlocked _ _ _) = ''work_unit_blocked''"
| "work_event_kind (WorkUnitCompleted _ _ _ _ _ _ _) = ''work_unit_completed''"
| "work_event_kind (WorkUnitReleased _ _) = ''work_unit_released''"
| "work_event_kind (HandoffRequested _) = ''handoff_requested''"
| "work_event_kind (HandoffAccepted _ _ _ _ _) = ''handoff_accepted''"
| "work_event_kind (HandoffRejected _ _ _ _ _) = ''handoff_rejected''"

fun document_event_kind :: "document_event \<Rightarrow> string" where
  "document_event_kind (DocumentCreated _) = ''document_created''"
| "document_event_kind (DocumentContentReplaced _ _ _) = ''document_content_replaced''"
| "document_event_kind (DocumentContentAppended _ _ _) = ''document_content_appended''"
| "document_event_kind (DocumentRenamed _ _ _) = ''document_renamed''"
| "document_event_kind (DocumentArchived _ _) = ''document_archived''"
| "document_event_kind (DocumentStatusChanged _ _ _ _) = ''document_status_changed''"
| "document_event_kind (DocumentTaskLinkChanged _ _ _) = ''document_task_link_changed''"

fun artifact_event_kind :: "artifact_event \<Rightarrow> string" where
  "artifact_event_kind (ArtifactRegistered _) = ''artifact_registered''"
| "artifact_event_kind (ArtifactOwnerAssigned _ _ _) = ''artifact_owner_assigned''"
| "artifact_event_kind (ArtifactStatusChanged _ _ _ _) = ''artifact_status_changed''"
| "artifact_event_kind (ArtifactChanged _ _ _ _) = ''artifact_changed''"
| "artifact_event_kind (ArtifactWriteCommitted _ _ _ _ _) = ''artifact_write_committed''"
| "artifact_event_kind (ArtifactDeprecated _ _ _) = ''artifact_deprecated''"
| "artifact_event_kind (ArtifactRelationAdded _) = ''artifact_relation_added''"
| "artifact_event_kind (ArtifactRelationRemoved _ _ _ _ _) = ''artifact_relation_removed''"
| "artifact_event_kind (RoleArtifactStatusChanged _ _ _ _) = ''role_artifact_status_changed''"

fun rule_event_kind :: "rule_event \<Rightarrow> string" where
  "rule_event_kind (RuleCreated _) = ''rule_created''"
| "rule_event_kind (RuleUpdated _) = ''rule_updated''"
| "rule_event_kind (RuleDisabled _ _) = ''rule_disabled''"
| "rule_event_kind (RuleDeleted _) = ''rule_deleted''"
| "rule_event_kind (EvidenceRecorded _) = ''evidence_recorded''"
| "rule_event_kind (EvidenceSuperseded _ _ _) = ''evidence_superseded''"
| "rule_event_kind (RuleFired _) = ''rule_fired''"
| "rule_event_kind (DeviceConnected _ _) = ''device_connected''"
| "rule_event_kind (DeviceDisconnected _ _) = ''device_disconnected''"

fun event_kind :: "event \<Rightarrow> string" where
  "event_kind (TelemetryEv e) = telemetry_event_kind e"
| "event_kind (TaskEv e) = task_event_kind e"
| "event_kind (PlanEv e) = plan_event_kind e"
| "event_kind (RunEv e) = run_event_kind e"
| "event_kind (SessionEv e) = session_event_kind e"
| "event_kind (SignalEv e) = signal_event_kind e"
| "event_kind (RelationEv e) = relation_event_kind e"
| "event_kind (SettingsEv e) = settings_event_kind e"
| "event_kind (WorkEv e) = work_event_kind e"
| "event_kind (DocumentEv e) = document_event_kind e"
| "event_kind (ArtifactEv e) = artifact_event_kind e"
| "event_kind (RuleEv e) = rule_event_kind e"

subsection \<open>class, target\_task, target\_project, channel\<close>

datatype event_class = ClassDomain | ClassTelemetry

fun event_class_as_str :: "event_class \<Rightarrow> string" where
  "event_class_as_str ClassDomain = ''domain''"
| "event_class_as_str ClassTelemetry = ''telemetry''"

definition event_class :: "event \<Rightarrow> event_class" where
  "event_class e = (case e of TelemetryEv (OperationalMetricRecorded _) \<Rightarrow> ClassTelemetry | _ \<Rightarrow> ClassDomain)"

fun task_event_target_task :: "task_event \<Rightarrow> uuid option" where
  "task_event_target_task (TaskCreated t) = nt_id t"
| "task_event_target_task (TaskUpdated t _) = Some t"
| "task_event_target_task (TaskStatusChanged t _ _) = Some t"
| "task_event_target_task (TaskPriorityChanged t _ _) = Some t"
| "task_event_target_task (TaskCompleted t _ _) = Some t"
| "task_event_target_task (TaskDeleted t) = Some t"
| "task_event_target_task (TaskSplitGenerated parent _) = Some parent"
| "task_event_target_task (CommentAdded c) = Some (cm_task_id c)"
| "task_event_target_task (CommentEdited _ t _ _) = Some t"
| "task_event_target_task (CommentDeleted _ t _) = Some t"
| "task_event_target_task (TaskReopened t _ _) = Some t"
| "task_event_target_task (TaskClosed t _ _) = Some t"
| "task_event_target_task (TaskCommented t _ _ _) = Some t"
| "task_event_target_task _ = None"

definition event_target_task :: "event \<Rightarrow> uuid option" where
  "event_target_task e =
     (case e of
        TaskEv te \<Rightarrow> task_event_target_task te
      | PlanEv (PlanTaskAdded _ t _ _) \<Rightarrow> Some t
      | PlanEv (PlanTaskRemoved _ t) \<Rightarrow> Some t
      | PlanEv (PlanTaskAmended _ t _) \<Rightarrow> Some t
      | RunEv (RunStepStarted _ t _) \<Rightarrow> Some t
      | RunEv (RunStepFinished _ t _ _) \<Rightarrow> Some t
      | SessionEv (AgentClaimed _ t _ _) \<Rightarrow> Some t
      | SessionEv (AgentReleased _ t _) \<Rightarrow> Some t
      | SessionEv (FilesReleased _ t _) \<Rightarrow> Some t
      | SessionEv (FilesReserved leases) \<Rightarrow> (case leases of l # _ \<Rightarrow> Some (wl_task_id l) | [] \<Rightarrow> None)
      | SignalEv (TaskContested t _ _) \<Rightarrow> Some t
      | RelationEv (TaskLinked _ a _ _ _ _) \<Rightarrow> Some a
      | RelationEv (TaskUnlinked _ a _ _ _) \<Rightarrow> Some a
      | RelationEv (TaskRelationKindChanged _ a _ _ _ _) \<Rightarrow> Some a
      | RelationEv (TaskUnblocked t _ _) \<Rightarrow> Some t
      | RelationEv (TaskDueElapsed t _ _) \<Rightarrow> Some t
      | RuleEv (RuleFired f) \<Rightarrow> rf_task_id f
      | _ \<Rightarrow> None)"

definition event_target_project :: "event \<Rightarrow> uuid option" where
  "event_target_project e =
     (case e of
        TaskEv (TaskCreated t) \<Rightarrow> nt_project_id t
      | TaskEv (ProjectCreated p) \<Rightarrow> Some (pr_id p)
      | TaskEv (ProjectUpdated p _ _) \<Rightarrow> Some p
      | SettingsEv (ProjectSettingsChanged p _ _ _ _) \<Rightarrow> Some p
      | TaskEv (ProjectDeleted p) \<Rightarrow> Some p
      | PlanEv (PlanCreated p) \<Rightarrow> Some (pl_project_id p)
      | DocumentEv (DocumentCreated d) \<Rightarrow> Some (doc_project_id d)
      | _ \<Rightarrow> None)"

datatype channel =
    ChTasks | ChComments | ChAgentStatus | ChPresence | ChWebhooks | ChPlans | ChRuns
  | ChDocuments | ChAiOps | ChWorkUnits | ChArtifacts | ChRules

fun task_event_channel :: "task_event \<Rightarrow> channel" where
  "task_event_channel (CommentAdded _) = ChComments"
| "task_event_channel (CommentEdited _ _ _ _) = ChComments"
| "task_event_channel (CommentDeleted _ _ _) = ChComments"
| "task_event_channel (TaskCommented _ _ _ _) = ChComments"
| "task_event_channel (AgentActionRecorded _) = ChAgentStatus"
| "task_event_channel _ = ChTasks"

definition event_channel :: "event \<Rightarrow> channel" where
  "event_channel e =
     (case e of
        TelemetryEv _ \<Rightarrow> ChRuns
      | TaskEv te \<Rightarrow> task_event_channel te
      | PlanEv _ \<Rightarrow> ChPlans
      | RunEv _ \<Rightarrow> ChRuns
      | SessionEv _ \<Rightarrow> ChRuns
      | SignalEv _ \<Rightarrow> ChRuns
      | RelationEv _ \<Rightarrow> ChTasks
      | SettingsEv (ProjectSettingsChanged _ _ _ _ _) \<Rightarrow> ChTasks
      | SettingsEv _ \<Rightarrow> ChAiOps
      | WorkEv _ \<Rightarrow> ChWorkUnits
      | DocumentEv _ \<Rightarrow> ChDocuments
      | ArtifactEv _ \<Rightarrow> ChArtifacts
      | RuleEv (DeviceConnected _ _) \<Rightarrow> ChPresence
      | RuleEv (DeviceDisconnected _ _) \<Rightarrow> ChPresence
      | RuleEv _ \<Rightarrow> ChRules)"

subsection \<open>envelope.rs\<close>

record event_envelope =
  en_id :: uuid
  en_seq :: nat
  en_occurred_at :: timestamp
  en_actor :: actor
  en_origin_device_id :: "uuid option"
  en_origin_seq :: nat
  en_payload :: event

definition envelope_new :: "uuid \<Rightarrow> timestamp \<Rightarrow> actor \<Rightarrow> event \<Rightarrow> event_envelope" where
  "envelope_new fresh now a e =
     \<lparr>en_id = fresh, en_seq = 0, en_occurred_at = now, en_actor = a,
      en_origin_device_id = None, en_origin_seq = 0, en_payload = e\<rparr>"

definition envelope_kind :: "event_envelope \<Rightarrow> string" where
  "envelope_kind env = event_kind (en_payload env)"

end
