(* ===== verification/Relations.thy ===== *)
theory Relations
  imports Events
begin

text \<open>
  Task relations: the repository \<^verbatim>\<open>crates/storage/src/relation_repo.rs\<close> over the table
  \<^verbatim>\<open>task_relations\<close> (primary key \<^verbatim>\<open>id\<close>, \<^verbatim>\<open>UNIQUE (from_task, to_task, kind)\<close>) and the enforcement
  helpers \<^verbatim>\<open>crates/core/src/relation_enforcement.rs\<close>.

  A table is the list of its rows in insertion order; \<^verbatim>\<open>ORDER BY created_at\<close> is a stable sort, so
  rows with equal stamps come in insertion order. A failing constraint is the error branch the
  repository maps it to. The row decoder's error branches cannot occur on rows the repository wrote.

  Main results: \<open>detect_cycle\<close> accepts an edge only when the target does not reach the source, so the
  active \<^verbatim>\<open>Blocks\<close> graph stays acyclic; it reports a cycle only when there is one; it always
  terminates within its step bound.
\<close>

type_synonym relation_table = "relation list"
type_synonym task_table = "task list"

definition task_get :: "task_table \<Rightarrow> uuid \<Rightarrow> task option" where
  "task_get tasks i = row_get t_id tasks i"

subsection \<open>Repository\<close>

fun kind_to_str :: "relation_kind \<Rightarrow> string" where
  "kind_to_str Blocks = ''blocks''"
| "kind_to_str RelatesTo = ''relates_to''"
| "kind_to_str Duplicates = ''duplicates''"
| "kind_to_str WasBlocking = ''was_blocking''"

definition str_to_kind :: "string \<Rightarrow> relation_kind result" where
  "str_to_kind s =
     (if s = ''blocks'' then Inr Blocks
      else if s = ''relates_to'' then Inr RelatesTo
      else if s = ''duplicates'' then Inr Duplicates
      else if s = ''was_blocking'' then Inr WasBlocking
      else Inl (Serde ''unknown relation kind: ''))"

definition same_triple :: "relation \<Rightarrow> relation \<Rightarrow> bool" where
  "same_triple a b \<longleftrightarrow> rel_from a = rel_from b \<and> rel_to a = rel_to b \<and> rel_kind a = rel_kind b"

definition relation_insert :: "relation \<Rightarrow> relation_table \<Rightarrow> relation_table result" where
  "relation_insert r rels =
     (if list_ex (\<lambda>x. rel_id x = rel_id r \<or> same_triple x r) rels
      then Inl (Conflict ''relation_exists: '')
      else Inr (rels @ [r]))"

text \<open>\<^verbatim>\<open>UPDATE ... SET kind = ? WHERE id = ?\<close>, refused by the unique index when another row already has
  the triple the update would produce.\<close>

definition relation_update_kind ::
  "uuid \<Rightarrow> relation_kind \<Rightarrow> relation_table \<Rightarrow> (bool \<times> relation_table) result" where
  "relation_update_kind i k rels =
     (case row_get rel_id rels i of
        None \<Rightarrow> Inr (False, rels)
      | Some r \<Rightarrow>
          if list_ex (\<lambda>x. rel_id x \<noteq> i \<and> same_triple x (r\<lparr>rel_kind := k\<rparr>)) rels
          then Inl (Storage ''UNIQUE constraint failed'')
          else Inr (True, row_modify rel_id i (\<lambda>x. x\<lparr>rel_kind := k\<rparr>) rels))"

definition relation_delete :: "uuid \<Rightarrow> relation_table \<Rightarrow> bool \<times> relation_table" where
  "relation_delete i rels = (list_ex (\<lambda>r. rel_id r = i) rels, row_delete rel_id i rels)"

definition relation_get :: "relation_table \<Rightarrow> uuid \<Rightarrow> relation option" where
  "relation_get rels i = row_get rel_id rels i"

definition list_by_task :: "relation_table \<Rightarrow> uuid \<Rightarrow> relation list" where
  "list_by_task rels t = sort_key rel_created_at (filter (\<lambda>r. rel_from r = t \<or> rel_to r = t) rels)"

definition list_by_task_ids :: "relation_table \<Rightarrow> uuid list \<Rightarrow> relation list" where
  "list_by_task_ids rels ts =
     (if ts = [] then []
      else sort_key rel_created_at (filter (\<lambda>r. rel_from r \<in> set ts \<or> rel_to r \<in> set ts) rels))"

definition list_blockers :: "relation_table \<Rightarrow> uuid \<Rightarrow> relation list" where
  "list_blockers rels t = sort_key rel_created_at (filter (\<lambda>r. rel_to r = t \<and> rel_kind r = Blocks) rels)"

definition list_blocks_targets :: "relation_table \<Rightarrow> uuid \<Rightarrow> relation list" where
  "list_blocks_targets rels t =
     sort_key rel_created_at (filter (\<lambda>r. rel_from r = t \<and> rel_kind r = Blocks) rels)"

subsection \<open>Enforcement\<close>

definition MAX_DEPTH :: nat where
  "MAX_DEPTH = 1000"

text \<open>
  The loop of \<^verbatim>\<open>detect_cycle\<close>. The stack's top is the head of the list, so \<^verbatim>\<open>extend\<close> puts the targets
  in reverse in front. \<open>steps\<close> counts the pops done.
\<close>

function detect_loop ::
  "relation_table \<Rightarrow> uuid \<Rightarrow> uuid list \<Rightarrow> uuid list \<Rightarrow> nat \<Rightarrow> unit result" where
  "detect_loop rels src visited stack steps =
     (case stack of
        [] \<Rightarrow> Inr ()
      | cur # stack \<Rightarrow>
          let steps = steps + 1 in
          if steps > MAX_DEPTH then Inl (Validation ''relation_graph_too_deep'')
          else if cur = src then Inl (Validation ''cycle_detected'')
          else if cur \<in> set visited then detect_loop rels src visited stack steps
          else detect_loop rels src (cur # visited)
                 (rev (map rel_to (list_blocks_targets rels cur)) @ stack) steps)"
  by pat_completeness auto
termination by (relation "measure (\<lambda>(_, _, _, _, steps). MAX_DEPTH - steps)") auto

declare detect_loop.simps [simp del]

lemma detect_loop_Nil [simp]: "detect_loop rels src visited [] steps = Inr ()"
  by (simp add: detect_loop.simps)

lemma detect_loop_Cons:
  "detect_loop rels src visited (cur # stack) steps =
     (if steps + 1 > MAX_DEPTH then Inl (Validation ''relation_graph_too_deep'')
      else if cur = src then Inl (Validation ''cycle_detected'')
      else if cur \<in> set visited then detect_loop rels src visited stack (steps + 1)
      else detect_loop rels src (cur # visited)
             (rev (map rel_to (list_blocks_targets rels cur)) @ stack) (steps + 1))"
  by (subst detect_loop.simps) (simp add: Let_def)

definition detect_cycle :: "relation_table \<Rightarrow> uuid \<Rightarrow> uuid \<Rightarrow> relation_kind \<Rightarrow> unit result" where
  "detect_cycle rels src to kind =
     (if kind \<noteq> Blocks then Inr ()
      else if src = to then Inl (Validation ''cycle_detected'')
      else detect_loop rels src [] [to] 0)"

definition list_active_blockers :: "relation_table \<Rightarrow> task_table \<Rightarrow> uuid \<Rightarrow> uuid list" where
  "list_active_blockers rels tasks t =
     map rel_from (filter (\<lambda>r. case task_get tasks (rel_from r) of
                                 Some b \<Rightarrow> t_status b \<noteq> Done | None \<Rightarrow> False)
                          (list_blockers rels t))"

definition others_done :: "relation_table \<Rightarrow> task_table \<Rightarrow> uuid \<Rightarrow> uuid \<Rightarrow> bool" where
  "others_done rels tasks blocker target =
     list_all (\<lambda>b. rel_from b = blocker \<or>
                   (case task_get tasks (rel_from b) of Some t \<Rightarrow> t_status t = Done | None \<Rightarrow> False))
              (list_blockers rels target)"

definition list_downstream_to_unblock :: "relation_table \<Rightarrow> task_table \<Rightarrow> uuid \<Rightarrow> uuid list" where
  "list_downstream_to_unblock rels tasks blocker =
     (case task_get tasks blocker of
        Some t \<Rightarrow>
          if t_status t \<noteq> Done
          then filter (others_done rels tasks blocker) (map rel_to (list_blocks_targets rels blocker))
          else []
      | None \<Rightarrow> [])"

subsection \<open>The Blocks graph\<close>

definition blocks_edges :: "relation_table \<Rightarrow> (uuid \<times> uuid) set" where
  "blocks_edges rels = {(rel_from r, rel_to r) | r. r \<in> set rels \<and> rel_kind r = Blocks}"

definition blocks_acyclic :: "relation_table \<Rightarrow> bool" where
  "blocks_acyclic rels \<longleftrightarrow> acyclic (blocks_edges rels)"

lemma blocks_edges_set:
  "blocks_edges rels = set (map (\<lambda>r. (rel_from r, rel_to r)) (filter (\<lambda>r. rel_kind r = Blocks) rels))"
  by (auto simp: blocks_edges_def)

lemma set_list_blocks_targets [simp]:
  "set (list_blocks_targets rels t) = {r \<in> set rels. rel_from r = t \<and> rel_kind r = Blocks}"
  by (auto simp: list_blocks_targets_def)

lemma set_list_blockers [simp]:
  "set (list_blockers rels t) = {r \<in> set rels. rel_to r = t \<and> rel_kind r = Blocks}"
  by (auto simp: list_blockers_def)

lemma targets_edges: "v \<in> set (map rel_to (list_blocks_targets rels u)) \<longleftrightarrow> (u, v) \<in> blocks_edges rels"
  by (auto simp: blocks_edges_def)

text \<open>
  The depth-first search keeps the visited set closed up to the stack: every successor of a visited
  node is visited or still on the stack. When the stack runs empty the visited set is closed, so it
  contains everything reachable src the start.
\<close>

definition search_inv :: "relation_table \<Rightarrow> uuid \<Rightarrow> uuid list \<Rightarrow> uuid list \<Rightarrow> bool" where
  "search_inv rels src visited stack \<longleftrightarrow>
     src \<notin> set visited \<and>
     (\<forall>u v. u \<in> set visited \<and> (u, v) \<in> blocks_edges rels \<longrightarrow> v \<in> set visited \<union> set stack)"

lemma search_inv_step:
  assumes "search_inv rels src visited (cur # stack)" and "cur \<noteq> src"
  shows "cur \<in> set visited \<Longrightarrow> search_inv rels src visited stack"
    and "search_inv rels src (cur # visited) (rev (map rel_to (list_blocks_targets rels cur)) @ stack)"
  using assms targets_edges [of _ rels cur] by (auto simp: search_inv_def)

lemma detect_loop_Inr:
  assumes "detect_loop rels src visited stack steps = Inr ()" and "search_inv rels src visited stack"
  shows "\<exists>closed. src \<notin> closed \<and> set visited \<union> set stack \<subseteq> closed \<and>
    (\<forall>u v. u \<in> closed \<and> (u, v) \<in> blocks_edges rels \<longrightarrow> v \<in> closed)"
  using assms
proof (induction rels src visited stack steps rule: detect_loop.induct)
  case (1 rels src visited stack steps)
  show ?case
  proof (cases stack)
    case Nil
    then show ?thesis using "1.prems" by (intro exI [of _ "set visited"]) (auto simp: search_inv_def)
  next
    case (Cons cur rest)
    note run = "1.prems"(1) [unfolded Cons detect_loop_Cons]
    have depth: "\<not> steps + 1 > MAX_DEPTH" and ne: "cur \<noteq> src"
      using run by (auto split: if_splits)
    note inv = search_inv_step [OF "1.prems"(2) [unfolded Cons] ne]
    show ?thesis
    proof (cases "cur \<in> set visited")
      case True
      then have "detect_loop rels src visited rest (steps + 1) = Inr ()"
        using run depth ne by simp
      then show ?thesis
        using "1.IH"(1) [OF Cons refl depth ne True _ inv(1)] True Cons by (auto simp: insert_absorb)
    next
      case False
      then have "detect_loop rels src (cur # visited)
          (rev (map rel_to (list_blocks_targets rels cur)) @ rest) (steps + 1) = Inr ()"
        using run depth ne by simp
      then obtain closed where "src \<notin> closed" "set (cur # visited) \<union> set rest \<subseteq> closed"
        "\<forall>u v. u \<in> closed \<and> (u, v) \<in> blocks_edges rels \<longrightarrow> v \<in> closed"
        using "1.IH"(2) [OF Cons refl depth ne False _ inv(2)] by auto
      then show ?thesis using Cons by (intro exI [of _ closed]) auto
    qed
  qed
qed

lemma closed_reachable:
  assumes "(u, v) \<in> (blocks_edges rels)\<^sup>*" and "u \<in> closed"
    and "\<forall>u v. u \<in> closed \<and> (u, v) \<in> blocks_edges rels \<longrightarrow> v \<in> closed"
  shows "v \<in> closed"
  using assms by (induction rule: rtrancl_induct) blast+

lemma detect_cycle_Inr:
  assumes "detect_cycle rels src to Blocks = Inr ()"
  shows "(to, src) \<notin> (blocks_edges rels)\<^sup>*"
proof
  assume reach: "(to, src) \<in> (blocks_edges rels)\<^sup>*"
  have loop: "detect_loop rels src [] [to] 0 = Inr ()"
    using assms by (auto simp: detect_cycle_def split: if_splits)
  have "search_inv rels src [] [to]" by (simp add: search_inv_def)
  from detect_loop_Inr [OF loop this] obtain closed where "src \<notin> closed" "set [] \<union> set [to] \<subseteq> closed"
    "\<forall>u v. u \<in> closed \<and> (u, v) \<in> blocks_edges rels \<longrightarrow> v \<in> closed"
    by (elim exE conjE)
  then show False using closed_reachable [OF reach] by auto
qed

lemma detect_loop_cycle:
  assumes "detect_loop rels src visited stack steps = Inl (Validation ''cycle_detected'')"
  shows "\<exists>u \<in> set stack. (u, src) \<in> (blocks_edges rels)\<^sup>*"
  using assms
proof (induction rels src visited stack steps rule: detect_loop.induct)
  case (1 rels src visited stack steps)
  show ?case
  proof (cases stack)
    case (Cons cur rest)
    note run = "1.prems" [unfolded Cons detect_loop_Cons]
    have depth: "\<not> steps + 1 > MAX_DEPTH" using run by (auto split: if_splits)
    consider "cur = src" | "cur \<noteq> src" "cur \<in> set visited" | "cur \<noteq> src" "cur \<notin> set visited" by blast
    then show ?thesis
    proof cases
      case 2
      then show ?thesis using "1.IH"(1) [OF Cons refl depth] run depth Cons by auto
    next
      case 3
      then have "\<exists>u \<in> set (rev (map rel_to (list_blocks_targets rels cur)) @ rest).
          (u, src) \<in> (blocks_edges rels)\<^sup>*"
        using "1.IH"(2) [OF Cons refl depth 3] run depth by simp
      then obtain u where u: "u \<in> set rest \<or> u \<in> set (map rel_to (list_blocks_targets rels cur))"
        and reach: "(u, src) \<in> (blocks_edges rels)\<^sup>*"
        by auto
      from u show ?thesis
      proof
        assume "u \<in> set (map rel_to (list_blocks_targets rels cur))"
        then have "(cur, src) \<in> (blocks_edges rels)\<^sup>*"
          using reach converse_rtrancl_into_rtrancl by (metis targets_edges)
        then show ?thesis using Cons by simp
      qed (use reach Cons in auto)
    qed (use Cons in auto)
  qed (use "1.prems" in simp)
qed

lemma detect_cycle_cycle:
  assumes "detect_cycle rels src to Blocks = Inl (Validation ''cycle_detected'')"
  shows "(to, src) \<in> (blocks_edges rels)\<^sup>*"
  using assms detect_loop_cycle [of rels src "[]" "[to]" 0]
  by (auto simp: detect_cycle_def split: if_splits)

text \<open>
  The step bound counts pops, and every pop is paid for by the start node or by one \<^verbatim>\<open>Blocks\<close> edge out
  of a node visited once: the search cannot hit the bound on a table with fewer edges than it.
\<close>

definition pending_edges :: "relation_table \<Rightarrow> uuid list \<Rightarrow> nat" where
  "pending_edges rels visited =
     length (filter (\<lambda>r. rel_kind r = Blocks \<and> rel_from r \<notin> set visited) rels)"

lemma pending_edges_visit:
  "cur \<notin> set visited \<Longrightarrow>
   pending_edges rels (cur # visited) + length (list_blocks_targets rels cur) = pending_edges rels visited"
  by (induction rels) (auto simp: pending_edges_def list_blocks_targets_def)

lemma detect_loop_not_deep:
  assumes "steps + length stack + pending_edges rels visited \<le> MAX_DEPTH"
  shows "detect_loop rels src visited stack steps \<noteq> Inl (Validation ''relation_graph_too_deep'')"
  using assms
proof (induction rels src visited stack steps rule: detect_loop.induct)
  case (1 rels src visited stack steps)
  show ?case
  proof (cases stack)
    case (Cons cur rest)
    have depth: "\<not> steps + 1 > MAX_DEPTH" using "1.prems" Cons by simp
    show ?thesis
    proof (cases "cur = src")
      case False
      show ?thesis
      proof (cases "cur \<in> set visited")
        case True
        then show ?thesis using "1.IH"(1) [OF Cons refl depth False] "1.prems" Cons depth False
          by (simp add: detect_loop_Cons)
      next
        case new: False
        then show ?thesis
          using "1.IH"(2) [OF Cons refl depth False new] "1.prems" Cons depth False
            pending_edges_visit [OF new, of rels]
          by (simp add: detect_loop_Cons)
      qed
    qed (use Cons depth in \<open>simp add: detect_loop_Cons\<close>)
  qed simp
qed

lemma detect_loop_results:
  "detect_loop rels src visited stack steps \<in>
     {Inr (), Inl (Validation ''cycle_detected''), Inl (Validation ''relation_graph_too_deep'')}"
proof (induction rels src visited stack steps rule: detect_loop.induct)
  case (1 rels src visited stack steps)
  then show ?case by (cases stack) (auto simp: detect_loop_Cons)
qed

subsection \<open>Constraints of the table\<close>

definition relation_table_ok :: "relation_table \<Rightarrow> bool" where
  "relation_table_ok rels \<longleftrightarrow>
     distinct (map rel_id rels) \<and> distinct (map (\<lambda>r. (rel_from r, rel_to r, rel_kind r)) rels)"

lemma relation_insert_ok:
  "relation_table_ok rels \<Longrightarrow> relation_insert r rels = Inr rels' \<Longrightarrow> relation_table_ok rels'"
  by (fastforce simp: relation_table_ok_def relation_insert_def list_ex_iff same_triple_def split: if_splits)

lemma relation_delete_ok: "relation_table_ok rels \<Longrightarrow> relation_table_ok (snd (relation_delete i rels))"
  by (simp add: relation_table_ok_def relation_delete_def row_delete_def distinct_map_filter)

lemma blocks_edges_delete: "blocks_edges (snd (relation_delete i rels)) \<subseteq> blocks_edges rels"
  by (auto simp: blocks_edges_def relation_delete_def row_delete_def)

lemma blocks_edges_update_kind:
  assumes "relation_update_kind i k rels = Inr (b, rels')" and "k \<noteq> Blocks"
  shows "blocks_edges rels' \<subseteq> blocks_edges rels"
  using assms
  by (auto simp: relation_update_kind_def blocks_edges_def row_modify_def split: option.splits if_splits)

lemma blocks_edges_insert:
  "relation_insert r rels = Inr rels' \<Longrightarrow>
   blocks_edges rels' = (if rel_kind r = Blocks then insert (rel_from r, rel_to r) (blocks_edges rels)
                         else blocks_edges rels)"
  by (auto simp: relation_insert_def blocks_edges_def split: if_splits)

lemma blocks_acyclic_mono: "blocks_edges rels' \<subseteq> blocks_edges rels \<Longrightarrow> blocks_acyclic rels \<Longrightarrow> blocks_acyclic rels'"
  unfolding blocks_acyclic_def by (rule acyclic_subset)

lemma blocks_acyclic_link:
  assumes "blocks_acyclic rels" and "detect_cycle rels (rel_from r) (rel_to r) (rel_kind r) = Inr ()"
    and "relation_insert r rels = Inr rels'"
  shows "blocks_acyclic rels'"
  using assms detect_cycle_Inr [of rels "rel_from r" "rel_to r"] blocks_edges_insert [OF assms(3)]
  by (auto simp: blocks_acyclic_def acyclic_insert)

subsection \<open>Properties\<close>

text \<open>
  C23: the cycle check decides. On a table with fewer than \<open>MAX_DEPTH\<close> active \<^verbatim>\<open>Blocks\<close> edges,
  \<^verbatim>\<open>detect_cycle\<close> refuses the edge \<open>src\<close> to \<open>dst\<close> exactly when \<open>dst\<close> already reaches \<open>src\<close> (a self-loop
  included), and accepts it otherwise; the depth error cannot occur.
\<close>

theorem detect_cycle_decides:
  assumes "length (filter (\<lambda>r. rel_kind r = Blocks) rels) < MAX_DEPTH"
  shows "detect_cycle rels src dst Blocks =
    (if (dst, src) \<in> (blocks_edges rels)\<^sup>* then Inl (Validation ''cycle_detected'') else Inr ())"
proof (cases "src = dst")
  case False
  have "detect_loop rels src [] [dst] 0 \<noteq> Inl (Validation ''relation_graph_too_deep'')"
    using assms by (intro detect_loop_not_deep) (simp add: pending_edges_def)
  then show ?thesis
    using detect_loop_results [of rels src "[]" "[dst]" 0] detect_cycle_Inr [of rels src dst]
      detect_cycle_cycle [of rels src dst] False
    by (auto simp: detect_cycle_def)
qed (simp add: detect_cycle_def)

definition demo_task :: "uuid \<Rightarrow> status \<Rightarrow> task" where
  "demo_task i s = (task_from_new i 0 (new_task ''demo''))\<lparr>t_status := s\<rparr>"

definition demo_edge :: "uuid \<Rightarrow> uuid \<Rightarrow> uuid \<Rightarrow> relation_kind \<Rightarrow> relation" where
  "demo_edge i a b k =
     \<lparr>rel_id = i, rel_from = a, rel_to = b, rel_kind = k, rel_created_at = 0, rel_created_by = actor_user\<rparr>"

lemmas demo_simps = demo_task_def demo_edge_def task_from_new_def new_task_def actor_user_def

theorem detect_cycle_decides_witness:
  "length (filter (\<lambda>r. rel_kind r = Blocks) [demo_edge 1 10 11 Blocks]) < MAX_DEPTH \<and>
   detect_cycle [demo_edge 1 10 11 Blocks] 11 10 Blocks = Inl (Validation ''cycle_detected'')"
proof -
  have e: "(10, 11) \<in> (blocks_edges [demo_edge 1 10 11 Blocks])\<^sup>*"
    by (rule r_into_rtrancl) (simp add: blocks_edges_def demo_edge_def)
  show ?thesis
    using detect_cycle_decides [of "[demo_edge 1 10 11 Blocks]" 11 10] e by (simp add: MAX_DEPTH_def)
qed

text \<open>
  The operations that reach the table: a link passes the cycle check and the unique index, an edge is
  resolved to \<^verbatim>\<open>WasBlocking\<close> when its blocker is done, a relation is deleted.
\<close>

inductive relation_reach :: "relation_table \<Rightarrow> bool" where
  empty: "relation_reach []"
| link: "relation_reach rels \<Longrightarrow> detect_cycle rels (rel_from r) (rel_to r) (rel_kind r) = Inr () \<Longrightarrow>
    relation_insert r rels = Inr rels' \<Longrightarrow> relation_reach rels'"
| resolve: "relation_reach rels \<Longrightarrow> relation_update_kind i WasBlocking rels = Inr (b, rels') \<Longrightarrow>
    relation_reach rels'"
| unlink: "relation_reach rels \<Longrightarrow> relation_reach (snd (relation_delete i rels))"

lemma relation_update_kind_ok:
  assumes ok: "relation_table_ok rels" and upd: "relation_update_kind i k rels = Inr (b, rels')"
  shows "relation_table_ok rels'"
proof (cases "row_get rel_id rels i")
  case (Some r)
  let ?f = "\<lambda>x. if rel_id x = i then x\<lparr>rel_kind := k\<rparr> else x"
  let ?t = "\<lambda>r. (rel_from r, rel_to r, rel_kind r)"
  have ids: "distinct (map rel_id rels)" using ok by (simp add: relation_table_ok_def)
  have rels': "rels' = map ?f rels"
    and free: "\<And>x. x \<in> set rels \<Longrightarrow> rel_id x \<noteq> i \<Longrightarrow> \<not> same_triple x (r\<lparr>rel_kind := k\<rparr>)"
    using upd Some by (auto simp: relation_update_kind_def row_modify_def list_ex_iff split: if_splits)
  have only: "x = r" if "x \<in> set rels" "rel_id x = i" for x
    using that row_get_mem [of rel_id rels x] ids Some by (simp add: keys_distinct_def)
  have "inj_on (?t \<circ> ?f) (set rels)"
  proof (rule inj_onI)
    fix x y
    assume x: "x \<in> set rels" and y: "y \<in> set rels" and eq: "(?t \<circ> ?f) x = (?t \<circ> ?f) y"
    have inj: "inj_on ?t (set rels)" using ok by (simp add: relation_table_ok_def distinct_map)
    consider "rel_id x = i" "rel_id y = i" | "rel_id x = i" "rel_id y \<noteq> i"
      | "rel_id x \<noteq> i" "rel_id y = i" | "rel_id x \<noteq> i" "rel_id y \<noteq> i" by blast
    then show "x = y"
    proof cases
      case 1 then show ?thesis using only x y by metis
    next
      case 2 then show ?thesis using free [OF y] only [OF x] eq by (auto simp: same_triple_def)
    next
      case 3 then show ?thesis using free [OF x] only [OF y] eq by (auto simp: same_triple_def)
    next
      case 4 then show ?thesis using inj_onD [OF inj _ x y] eq by simp
    qed
  qed
  moreover have "distinct rels" using ids by (simp add: distinct_map)
  ultimately have "distinct (map ?t rels')" using rels' by (simp add: distinct_map comp_def)
  moreover have "map rel_id rels' = map rel_id rels" using rels' by simp
  ultimately show ?thesis using ids by (simp only: relation_table_ok_def)
qed (use assms in \<open>simp add: relation_update_kind_def\<close>)

lemma relation_reach_ok:
  assumes "relation_reach rels"
  shows "blocks_acyclic rels \<and> relation_table_ok rels"
  using assms
proof induction
  case empty
  show ?case by (simp add: blocks_acyclic_def blocks_edges_def relation_table_ok_def acyclic_def)
next
  case (link rels r rels')
  then show ?case using blocks_acyclic_link relation_insert_ok by blast
next
  case (resolve rels i b rels')
  then show ?case
    using blocks_acyclic_mono [OF blocks_edges_update_kind] relation_update_kind_ok by blast
next
  case (unlink rels i)
  then show ?case using blocks_acyclic_mono [OF blocks_edges_delete] relation_delete_ok by blast
qed

text \<open>
  Over every sequence of links, resolutions and deletions the active \<^verbatim>\<open>Blocks\<close> graph is acyclic,
  relation ids are unique and no two rows carry the same endpoints and kind.
\<close>

theorem relation_graph_invariant:
  assumes "relation_reach rels"
  shows "blocks_acyclic rels \<and> relation_table_ok rels"
  by (rule relation_reach_ok [OF assms])

theorem relation_graph_invariant_witness:
  "relation_reach [demo_edge 1 10 11 Blocks] \<and> blocks_acyclic [demo_edge 1 10 11 Blocks]"
proof -
  have "relation_reach [demo_edge 1 10 11 Blocks]"
    by (rule relation_reach.link [OF relation_reach.empty, where r = "demo_edge 1 10 11 Blocks"])
      (simp_all add: relation_insert_def demo_edge_def detect_cycle_def detect_loop_Cons
        list_blocks_targets_def MAX_DEPTH_def)
  then show ?thesis using relation_graph_invariant by blast
qed

text \<open>
  C28: \<^verbatim>\<open>list_downstream_to_unblock\<close> is exact. When every blocker row names an existing task and the
  blocker is not done yet, the tasks it returns are exactly the ones it blocks that have no active
  blocker left once the blocker's status is \<^verbatim>\<open>Done\<close>.
\<close>

theorem downstream_to_unblock_exact:
  assumes "\<And>r. r \<in> set rels \<Longrightarrow> rel_kind r = Blocks \<Longrightarrow> task_get tasks (rel_from r) \<noteq> None"
    and "task_get tasks b = Some t" and "t_status t \<noteq> Done"
  shows "x \<in> set (list_downstream_to_unblock rels tasks b) \<longleftrightarrow>
    (b, x) \<in> blocks_edges rels \<and>
    list_active_blockers rels (row_modify t_id b (\<lambda>t. t\<lparr>t_status := Done\<rparr>) tasks) x = []"
proof -
  let ?tasks' = "row_modify t_id b (\<lambda>t. t\<lparr>t_status := Done\<rparr>) tasks"
  have get': "task_get ?tasks' i =
      (if i = b then Some (t\<lparr>t_status := Done\<rparr>) else task_get tasks i)" for i
    using assms(2) by (simp add: task_get_def row_get_modify)
  have "(rel_from r = b \<or> (case task_get tasks (rel_from r) of Some t \<Rightarrow> t_status t = Done | None \<Rightarrow> False))
      \<longleftrightarrow> \<not> (case task_get ?tasks' (rel_from r) of Some t \<Rightarrow> t_status t \<noteq> Done | None \<Rightarrow> False)"
    if "r \<in> set rels" "rel_kind r = Blocks" for r
    using assms(1) [OF that] by (auto simp: get')
  then have "others_done rels tasks b x \<longleftrightarrow> list_active_blockers rels ?tasks' x = []"
    by (auto simp: others_done_def list_active_blockers_def list_all_iff filter_empty_conv)
  moreover have "x \<in> rel_to ` set (list_blocks_targets rels b) \<longleftrightarrow> (b, x) \<in> blocks_edges rels"
    using targets_edges [of x rels b] by simp
  ultimately show ?thesis using assms(2,3) by (auto simp: list_downstream_to_unblock_def)
qed

theorem downstream_to_unblock_exact_witness:
  "12 \<in> set (list_downstream_to_unblock [demo_edge 1 10 12 Blocks, demo_edge 2 11 12 Blocks]
              [demo_task 10 Todo, demo_task 11 Done, demo_task 12 Todo] 10)"
  by (subst downstream_to_unblock_exact [where t = "demo_task 10 Todo"])
    (auto simp: demo_simps task_get_def blocks_edges_set list_active_blockers_def list_blockers_def
      row_modify_def)

end
