(* ===== verification/Task_Store.thy ===== *)
theory Task_Store
  imports Relations
begin

text \<open>
  The task projection \<^verbatim>\<open>crates/storage/src/task_repo.rs\<close>: the rows of the table \<^verbatim>\<open>tasks\<close> (the domain
  columns, and the two columns kept off the domain struct: \<^verbatim>\<open>status_changed_at\<close> and the pipeline
  position in \<^verbatim>\<open>metadata_json\<close>), the table \<^verbatim>\<open>task_due_notifications\<close>, and the effect of every event on
  them. The unique index on \<^verbatim>\<open>external_key\<close> is the error branch of the upsert. The \<^verbatim>\<open>entity_versions\<close>
  audit rows written beside each change are not modelled.

  \<open>fresh k\<close> is the id \<^verbatim>\<open>TaskId::default()\<close> would draw for the \<open>k\<close>-th task of an event that carries none.
\<close>

subsection \<open>Rows\<close>

record task_row =
  tr_task :: task
  tr_status_changed_at :: "timestamp option"
  tr_pipeline :: "pipeline_position option"

record task_store =
  ts_rows :: "task_row list"
  ts_due_notifications :: "(uuid \<times> timestamp \<times> timestamp) list"

abbreviation row_id :: "task_row \<Rightarrow> uuid" where
  "row_id r \<equiv> t_id (tr_task r)"

definition tasks_of :: "task_store \<Rightarrow> task_table" where
  "tasks_of s = map tr_task (ts_rows s)"

definition task_repo_get :: "task_store \<Rightarrow> uuid \<Rightarrow> task option" where
  "task_repo_get s i = map_option tr_task (row_get row_id (ts_rows s) i)"

definition repo_pipeline_position :: "task_store \<Rightarrow> uuid \<Rightarrow> pipeline_position option" where
  "repo_pipeline_position s i = Option.bind (row_get row_id (ts_rows s) i) tr_pipeline"

definition find_by_external_key :: "task_store \<Rightarrow> string \<Rightarrow> task option" where
  "find_by_external_key s k = find (\<lambda>t. t_external_key t = Some k) (tasks_of s)"

definition get_many :: "task_store \<Rightarrow> uuid list \<Rightarrow> task list" where
  "get_many s ids = (if ids = [] then [] else filter (\<lambda>t. t_id t \<in> set ids) (tasks_of s))"

definition list_triage_queue :: "task_store \<Rightarrow> uuid \<Rightarrow> task list" where
  "list_triage_queue s p =
     sort_key t_created_at
       (filter (\<lambda>t. t_project_id t = Some p \<and> t_triage_state t = Some Pending) (tasks_of s))"

definition list_stuck_in_status ::
  "task_store \<Rightarrow> uuid option \<Rightarrow> status \<Rightarrow> timestamp \<Rightarrow> (task \<times> timestamp) list" where
  "list_stuck_in_status s project st cutoff =
     sort_key snd
       (List.map_filter
         (\<lambda>r. case tr_status_changed_at r of
                None \<Rightarrow> None
              | Some at \<Rightarrow>
                  if t_status (tr_task r) = st \<and> at < cutoff
                   \<and> (case project of None \<Rightarrow> True | Some p \<Rightarrow> t_project_id (tr_task r) = Some p)
                  then Some (tr_task r, at) else None)
         (ts_rows s))"

definition list_due_unnotified :: "task_store \<Rightarrow> timestamp \<Rightarrow> nat \<Rightarrow> (uuid \<times> timestamp) list" where
  "list_due_unnotified s now limit =
     take limit (sort_key snd
       (List.map_filter
         (\<lambda>t. case t_due_at t of
                None \<Rightarrow> None
              | Some due \<Rightarrow>
                  if due < now \<and> t_status t \<in> {Inbox, Todo, InProgress, InReview}
                   \<and> \<not> list_ex (\<lambda>(i, d, _). i = t_id t \<and> d = due) (ts_due_notifications s)
                  then Some (t_id t, due) else None)
         (tasks_of s)))"

subsection \<open>Writes\<close>

definition external_key_taken :: "task \<Rightarrow> task_row list \<Rightarrow> bool" where
  "external_key_taken t rows =
     (t_external_key t \<noteq> None \<and>
      list_ex (\<lambda>r. row_id r \<noteq> t_id t \<and> t_external_key (tr_task r) = t_external_key t) rows)"

text \<open>\<^verbatim>\<open>upsert_task_tx\<close>: the domain columns are replaced, the other two columns stay.\<close>

definition upsert_task :: "task \<Rightarrow> task_row list \<Rightarrow> task_row list result" where
  "upsert_task t rows =
     (if external_key_taken t rows then Inl (Storage ''UNIQUE constraint failed'')
      else if list_ex (\<lambda>r. row_id r = t_id t) rows
      then Inr (row_modify row_id (t_id t) (\<lambda>r. r\<lparr>tr_task := t\<rparr>) rows)
      else Inr (rows @ [\<lparr>tr_task = t, tr_status_changed_at = None, tr_pipeline = None\<rparr>]))"

definition stamp_status_changed_at :: "uuid \<Rightarrow> timestamp \<Rightarrow> task_row list \<Rightarrow> task_row list" where
  "stamp_status_changed_at i at rows = row_modify row_id i (\<lambda>r. r\<lparr>tr_status_changed_at := Some at\<rparr>) rows"

definition stamp_pipeline_position :: "uuid \<Rightarrow> pipeline_position \<Rightarrow> task_row list \<Rightarrow> task_row list" where
  "stamp_pipeline_position i p rows = row_modify row_id i (\<lambda>r. r\<lparr>tr_pipeline := Some p\<rparr>) rows"

definition stamp_last_change :: "event_envelope \<Rightarrow> task \<Rightarrow> task" where
  "stamp_last_change env t = t
     \<lparr>t_updated_by := Some (en_actor env), t_updated_event_id := Some (en_id env),
      t_updated_event_seq := Some (en_seq env)\<rparr>"

text \<open>The row the projection builds for a created task.\<close>

definition projected_task :: "event_envelope \<Rightarrow> uuid \<Rightarrow> uuid option \<Rightarrow> new_task \<Rightarrow> task" where
  "projected_task env fresh source_event_id n =
     \<lparr>t_id = unwrap_or fresh (nt_id n), t_project_id = nt_project_id n, t_title = nt_title n,
      t_description = unwrap_or [] (nt_description n),
      t_status = unwrap_or status_default (nt_status n),
      t_priority = unwrap_or priority_default (nt_priority n),
      t_triage_state = nt_triage_state n, t_due_at = nt_due_at n,
      t_created_at = en_occurred_at env, t_updated_at = en_occurred_at env,
      t_started_at = None, t_completed_at = None, t_created_by = Some (en_actor env),
      t_completed_by = None, t_updated_by = Some (en_actor env),
      t_updated_event_id = Some (en_id env), t_updated_event_seq = Some (en_seq env),
      t_source_event_id = source_event_id, t_external_key = nt_external_key n, t_git_context = None\<rparr>"

text \<open>Read a task, change it, write it back; a missing task is no change.\<close>

definition task_write ::
  "uuid \<Rightarrow> (task \<Rightarrow> task) \<Rightarrow> (task \<Rightarrow> task_row list \<Rightarrow> task_row list) \<Rightarrow> task_row list \<Rightarrow> task_row list result" where
  "task_write i f post rows =
     (case row_get row_id rows i of
        None \<Rightarrow> Inr rows
      | Some r \<Rightarrow> bind_result (upsert_task (f (tr_task r)) rows) (\<lambda>rows'. Inr (post (tr_task r) rows')))"

definition apply_task_updated :: "event_envelope \<Rightarrow> task_patch \<Rightarrow> task \<Rightarrow> task" where
  "apply_task_updated env p t =
     stamp_last_change env ((patch_apply (en_occurred_at env) p t)\<lparr>t_updated_at := en_occurred_at env\<rparr>)"

definition apply_status_changed :: "event_envelope \<Rightarrow> status \<Rightarrow> task \<Rightarrow> task" where
  "apply_status_changed env to t =
     (let t = t\<lparr>t_status := to, t_updated_at := en_occurred_at env\<rparr>;
          t = (if to = InProgress \<or> to = Done
               then t\<lparr>t_started_at := or_opt (t_started_at t) (Some (en_occurred_at env))\<rparr> else t);
          t = (if to = Done then t\<lparr>t_completed_by := Some (en_actor env)\<rparr> else t)
      in stamp_last_change env t)"

definition apply_task_completed :: "event_envelope \<Rightarrow> timestamp \<Rightarrow> task \<Rightarrow> task" where
  "apply_task_completed env at t = stamp_last_change env (t
     \<lparr>t_status := Done, t_updated_at := en_occurred_at env, t_completed_at := Some at,
      t_started_at := or_opt (t_started_at t) (Some at), t_completed_by := Some (en_actor env)\<rparr>)"

definition apply_task_reopened :: "event_envelope \<Rightarrow> timestamp \<Rightarrow> task \<Rightarrow> task" where
  "apply_task_reopened env at t =
     stamp_last_change env (t\<lparr>t_completed_at := None, t_updated_at := at\<rparr>)"

definition apply_task_closed :: "event_envelope \<Rightarrow> timestamp \<Rightarrow> task \<Rightarrow> task" where
  "apply_task_closed env at t = stamp_last_change env (t
     \<lparr>t_completed_at := Some at, t_updated_at := at,
      t_started_at := or_opt (t_started_at t) (Some at)\<rparr>)"

fun project_subtasks ::
  "event_envelope \<Rightarrow> (nat \<Rightarrow> uuid) \<Rightarrow> nat \<Rightarrow> new_task list \<Rightarrow> task_row list \<Rightarrow> task_row list result" where
  "project_subtasks env fresh k [] rows = Inr rows"
| "project_subtasks env fresh k (n # ns) rows =
     bind_result (upsert_task (projected_task env (fresh k) (Some (en_id env)) n) rows)
       (project_subtasks env fresh (Suc k) ns)"

definition task_rows_apply ::
  "(nat \<Rightarrow> uuid) \<Rightarrow> event_envelope \<Rightarrow> task_row list \<Rightarrow> task_row list result" where
  "task_rows_apply fresh env rows =
     (let at = en_occurred_at env; keep = (\<lambda>_ rows'. rows') in
      case en_payload env of
        TaskEv (TaskCreated n) \<Rightarrow>
          let t = projected_task env (fresh 0) (nt_source_event_id n) n
          in bind_result (upsert_task t rows) (\<lambda>rows'. Inr (stamp_status_changed_at (t_id t) at rows'))
      | TaskEv (TaskUpdated i p) \<Rightarrow>
          task_write i (apply_task_updated env p)
            (\<lambda>_ rows'. case tp_pipeline_position p of
                         Some pos \<Rightarrow> stamp_pipeline_position i pos rows' | None \<Rightarrow> rows') rows
      | TaskEv (TaskStatusChanged i _ to) \<Rightarrow>
          task_write i (apply_status_changed env to) (\<lambda>_. stamp_status_changed_at i at) rows
      | TaskEv (TaskPriorityChanged i _ to) \<Rightarrow>
          task_write i (\<lambda>t. stamp_last_change env (t\<lparr>t_priority := to, t_updated_at := at\<rparr>)) keep rows
      | TaskEv (TaskCompleted i done _) \<Rightarrow>
          task_write i (apply_task_completed env done)
            (\<lambda>t rows'. if t_status t \<noteq> Done then stamp_status_changed_at i at rows' else rows') rows
      | TaskEv (TaskDeleted i) \<Rightarrow> Inr (row_delete row_id i rows)
      | TaskEv (TaskSplitGenerated _ subtasks) \<Rightarrow> project_subtasks env fresh 0 subtasks rows
      | TaskEv (TaskReopened i _ when) \<Rightarrow> task_write i (apply_task_reopened env when) keep rows
      | TaskEv (TaskClosed i _ when) \<Rightarrow> task_write i (apply_task_closed env when) keep rows
      | _ \<Rightarrow> Inr rows)"

definition due_notifications_apply ::
  "event \<Rightarrow> (uuid \<times> timestamp \<times> timestamp) list \<Rightarrow> (uuid \<times> timestamp \<times> timestamp) list" where
  "due_notifications_apply e ns =
     (case e of
        RelationEv (TaskDueElapsed i due at) \<Rightarrow>
          filter (\<lambda>(j, _, _). j \<noteq> i) ns @ [(i, due, at)]
      | TaskEv (TaskDeleted i) \<Rightarrow> filter (\<lambda>(j, _, _). j \<noteq> i) ns
      | _ \<Rightarrow> ns)"

definition task_apply_event ::
  "(nat \<Rightarrow> uuid) \<Rightarrow> event_envelope \<Rightarrow> task_store \<Rightarrow> task_store result" where
  "task_apply_event fresh env s =
     bind_result (task_rows_apply fresh env (ts_rows s)) (\<lambda>rows.
       Inr (s\<lparr>ts_rows := rows,
              ts_due_notifications := due_notifications_apply (en_payload env) (ts_due_notifications s)\<rparr>))"

subsection \<open>Reading back what was written\<close>

lemma in_map_filter: "y \<in> set (List.map_filter f xs) \<longleftrightarrow> (\<exists>x \<in> set xs. f x = Some y)"
  by (induction xs) (auto simp: List.map_filter_simps split: option.splits)

lemma row_get_modify_task [simp]:
  "(\<And>r. row_id (f r) = row_id r) \<Longrightarrow>
   row_get row_id (row_modify row_id j f rows) i =
     (if i = j then map_option f (row_get row_id rows i) else row_get row_id rows i)"
  by (rule row_get_modify)

lemma row_get_stamps [simp]:
  "row_get row_id (stamp_status_changed_at j at rows) i =
     (if i = j then map_option (\<lambda>r. r\<lparr>tr_status_changed_at := Some at\<rparr>) (row_get row_id rows i)
      else row_get row_id rows i)"
  "row_get row_id (stamp_pipeline_position j p rows) i =
     (if i = j then map_option (\<lambda>r. r\<lparr>tr_pipeline := Some p\<rparr>) (row_get row_id rows i)
      else row_get row_id rows i)"
  by (simp_all add: stamp_status_changed_at_def stamp_pipeline_position_def)

lemma row_get_append: "row_get key (rows @ [r]) i =
    (case row_get key rows i of Some q \<Rightarrow> Some q | None \<Rightarrow> if key r = i then Some r else None)"
  by (induction rows) auto

lemma row_get_exists: "list_ex (\<lambda>r. key r = i) rows \<longleftrightarrow> row_get key rows i \<noteq> None"
  by (induction rows) auto

definition written_row :: "task \<Rightarrow> task_row option \<Rightarrow> task_row" where
  "written_row t r =
     (case r of None \<Rightarrow> \<lparr>tr_task = t, tr_status_changed_at = None, tr_pipeline = None\<rparr>
              | Some r \<Rightarrow> r\<lparr>tr_task := t\<rparr>)"

lemma row_get_modify_const:
  "row_get row_id (row_modify row_id (t_id t) (\<lambda>r. r\<lparr>tr_task := t\<rparr>) rows) i =
     (if i = t_id t then map_option (\<lambda>r. r\<lparr>tr_task := t\<rparr>) (row_get row_id rows i)
      else row_get row_id rows i)"
  by (induction rows) (auto simp: row_modify_def)

lemma upsert_task_get:
  assumes "upsert_task t rows = Inr rows'"
  shows "row_get row_id rows' i =
    (if i = t_id t then Some (written_row t (row_get row_id rows i)) else row_get row_id rows i)"
  using assms
  by (auto simp: upsert_task_def row_get_exists row_get_modify_const row_get_append written_row_def
      split: if_splits option.splits)

subsection \<open>Well-formed tables\<close>

definition tasks_ok :: "task list \<Rightarrow> bool" where
  "tasks_ok ts \<longleftrightarrow>
     distinct (map t_id ts) \<and>
     (\<forall>t \<in> set ts. \<forall>u \<in> set ts.
        t_external_key t \<noteq> None \<and> t_external_key t = t_external_key u \<longrightarrow> t_id t = t_id u)"

definition task_rows_ok :: "task_row list \<Rightarrow> bool" where
  "task_rows_ok rows \<longleftrightarrow> tasks_ok (map tr_task rows)"

lemma task_rows_ok_rows:
  "task_rows_ok rows \<longleftrightarrow>
     distinct (map row_id rows) \<and>
     (\<forall>r \<in> set rows. \<forall>q \<in> set rows. t_external_key (tr_task r) \<noteq> None \<and>
        t_external_key (tr_task r) = t_external_key (tr_task q) \<longrightarrow> row_id r = row_id q)"
  by (simp add: task_rows_ok_def tasks_ok_def comp_def)

lemma task_rows_ok_delete: "task_rows_ok rows \<Longrightarrow> task_rows_ok (row_delete row_id i rows)"
  by (auto simp: task_rows_ok_rows row_delete_def distinct_map_filter)

lemma task_rows_ok_columns:
  assumes "task_rows_ok rows" and "\<And>r. tr_task (f r) = tr_task r"
  shows "task_rows_ok (row_modify row_id i f rows)"
proof -
  have "map tr_task (row_modify row_id i f rows) = map tr_task rows"
    by (simp add: row_modify_def assms(2))
  then show ?thesis using assms(1) by (simp only: task_rows_ok_def)
qed

lemma upsert_task_set:
  assumes "upsert_task t rows = Inr rows'" and "r \<in> set rows'"
  shows "tr_task r = t \<or> (r \<in> set rows \<and> row_id r \<noteq> t_id t)"
  using assms by (auto simp: upsert_task_def row_modify_def list_ex_iff split: if_splits)

lemma upsert_task_ids:
  assumes "upsert_task t rows = Inr rows'"
  shows "map row_id rows' = map row_id rows \<or> (t_id t \<notin> row_id ` set rows \<and> map row_id rows' = map row_id rows @ [t_id t])"
  using assms by (auto simp: upsert_task_def row_modify_def list_ex_iff split: if_splits)

lemma task_rows_ok_upsert:
  assumes ok: "task_rows_ok rows" and up: "upsert_task t rows = Inr rows'"
  shows "task_rows_ok rows'"
proof -
  have "distinct (map row_id rows')"
    using upsert_task_ids [OF up] ok by (auto simp: task_rows_ok_rows)
  moreover have free: "\<not> external_key_taken t rows" using up by (auto simp: upsert_task_def split: if_splits)
  moreover have "row_id r = row_id q"
    if r: "r \<in> set rows'" and q: "q \<in> set rows'"
      and key: "t_external_key (tr_task r) \<noteq> None" "t_external_key (tr_task r) = t_external_key (tr_task q)"
    for r q
  proof -
    have clash: "\<not> (x \<in> set rows \<and> row_id x \<noteq> t_id t \<and> t_external_key (tr_task x) = t_external_key t)"
      if "t_external_key t \<noteq> None" for x
      using free that by (auto simp: external_key_taken_def list_ex_iff)
    from upsert_task_set [OF up r] upsert_task_set [OF up q] show ?thesis
    proof (elim disjE)
      assume "tr_task r = t" "q \<in> set rows \<and> row_id q \<noteq> t_id t"
      then show ?thesis using clash [of q] key by simp
    next
      assume "r \<in> set rows \<and> row_id r \<noteq> t_id t" "tr_task q = t"
      then show ?thesis using clash [of r] key by simp
    next
      assume "r \<in> set rows \<and> row_id r \<noteq> t_id t" "q \<in> set rows \<and> row_id q \<noteq> t_id t"
      then show ?thesis using ok key unfolding task_rows_ok_rows by blast
    qed simp
  qed
  ultimately show ?thesis unfolding task_rows_ok_rows by blast
qed

lemma task_rows_ok_stamps [simp]:
  "task_rows_ok rows \<Longrightarrow> task_rows_ok (stamp_status_changed_at i at rows)"
  "task_rows_ok rows \<Longrightarrow> task_rows_ok (stamp_pipeline_position i p rows)"
  by (simp_all add: stamp_status_changed_at_def stamp_pipeline_position_def task_rows_ok_columns)

lemma task_rows_ok_write:
  assumes "task_rows_ok rows" and "task_write i f post rows = Inr rows'"
    and "\<And>t rs. task_rows_ok rs \<Longrightarrow> task_rows_ok (post t rs)"
  shows "task_rows_ok rows'"
  using assms task_rows_ok_upsert
  by (auto simp: task_write_def bind_result_Inr_iff split: option.splits)

lemma task_rows_ok_subtasks:
  "task_rows_ok rows \<Longrightarrow> project_subtasks env fresh k ns rows = Inr rows' \<Longrightarrow> task_rows_ok rows'"
  by (induction env fresh k ns rows rule: project_subtasks.induct)
    (auto simp: bind_result_Inr_iff dest: task_rows_ok_upsert)

lemma task_rows_ok_apply:
  assumes ok: "task_rows_ok rows" and run: "task_rows_apply fresh env rows = Inr rows'"
  shows "task_rows_ok rows'"
proof (cases "en_payload env")
  case (TaskEv te)
  note run = run [unfolded task_rows_apply_def TaskEv Let_def, simplified]
  note step = task_rows_ok_write [OF ok]
  show ?thesis
  proof (cases te)
    case (TaskCreated n)
    then show ?thesis using run by (auto simp: bind_result_Inr_iff dest: task_rows_ok_upsert [OF ok])
  next
    case (TaskUpdated i p)
    show ?thesis by (rule step [OF run [unfolded TaskUpdated, simplified]]) (simp split: option.splits)
  next
    case (TaskStatusChanged i a b)
    show ?thesis by (rule step [OF run [unfolded TaskStatusChanged, simplified]]) simp
  next
    case (TaskPriorityChanged i a b)
    show ?thesis by (rule step [OF run [unfolded TaskPriorityChanged, simplified]]) simp
  next
    case (TaskCompleted i at n)
    show ?thesis by (rule step [OF run [unfolded TaskCompleted, simplified]]) simp
  next
    case (TaskDeleted i)
    then show ?thesis using run task_rows_ok_delete [OF ok] by auto
  next
    case (TaskSplitGenerated i ns)
    then show ?thesis using run task_rows_ok_subtasks [OF ok] by auto
  next
    case (TaskReopened i a at)
    show ?thesis by (rule step [OF run [unfolded TaskReopened, simplified]]) simp
  next
    case (TaskClosed i a at)
    show ?thesis by (rule step [OF run [unfolded TaskClosed, simplified]]) simp
  qed (use run ok in simp_all)
qed (use run ok in \<open>simp_all add: task_rows_apply_def Let_def\<close>)

subsection \<open>Redelivery\<close>

text \<open>
  A write of a task followed by a stamp of the other columns: \<open>g\<close> is the stamp. Writing twice is
  writing once when the change is idempotent.
\<close>

lemma external_key_taken_cong:
  "map tr_task rows = map tr_task rows' \<Longrightarrow> external_key_taken t rows = external_key_taken t rows'"
proof -
  have *: "external_key_taken t rows =
      (t_external_key t \<noteq> None \<and> list_ex (\<lambda>u. t_id u \<noteq> t_id t \<and> t_external_key u = t_external_key t) (map tr_task rows))"
    for rows by (auto simp: external_key_taken_def list_ex_iff)
  show "map tr_task rows = map tr_task rows' \<Longrightarrow> external_key_taken t rows = external_key_taken t rows'"
    by (simp only: *)
qed

lemma upsert_task_again:
  assumes up: "upsert_task t rows = Inr rows1" and same: "map tr_task rows' = map tr_task rows1"
  shows "\<exists>rows2. upsert_task t rows' = Inr rows2"
proof -
  have "\<not> external_key_taken t rows" using up by (auto simp: upsert_task_def split: if_splits)
  then have "\<not> external_key_taken t rows1"
    using upsert_task_set [OF up] by (fastforce simp: external_key_taken_def list_ex_iff)
  then have "\<not> external_key_taken t rows'" using external_key_taken_cong [OF same] by simp
  then show ?thesis by (auto simp: upsert_task_def)
qed

definition stamps_with :: "uuid \<Rightarrow> (task \<Rightarrow> task_row list \<Rightarrow> task_row list) \<Rightarrow> (task \<Rightarrow> task_row \<Rightarrow> task_row) \<Rightarrow> bool" where
  "stamps_with i post g \<longleftrightarrow>
     (\<forall>t rs. map tr_task (post t rs) = map tr_task rs) \<and>
     (\<forall>t rs j. row_get row_id (post t rs) j =
        (if j = i then map_option (g t) (row_get row_id rs j) else row_get row_id rs j)) \<and>
     (\<forall>t r. tr_task (g t r) = tr_task r)"

lemma task_write_again:
  assumes w: "task_write i f post rows = Inr rows'" and st: "stamps_with i post g"
    and f_id: "\<And>t. t_id (f t) = t_id t" and f_idem: "\<And>t. f (f t) = f t"
    and g_idem: "\<And>t r. g (f t) (g t r) = g t r"
  shows "\<exists>rows''. task_write i f post rows' = Inr rows'' \<and>
    (\<forall>j. row_get row_id rows'' j = row_get row_id rows' j)"
proof (cases "row_get row_id rows i")
  case None
  then show ?thesis using w by (auto simp: task_write_def)
next
  case (Some r)
  let ?t = "tr_task r"
  have ri: "t_id ?t = i" using row_get_Some [OF Some] by simp
  obtain rows1 where up: "upsert_task (f ?t) rows = Inr rows1" and rows': "rows' = post ?t rows1"
    using w Some by (auto simp: task_write_def bind_result_Inr_iff)
  have get': "row_get row_id rows' i = Some (g ?t (r\<lparr>tr_task := f ?t\<rparr>))"
    using st upsert_task_get [OF up, of i] Some ri f_id by (simp add: rows' stamps_with_def written_row_def)
  have task': "tr_task (g ?t (r\<lparr>tr_task := f ?t\<rparr>)) = f ?t" using st by (simp add: stamps_with_def)
  obtain rows2 where up2: "upsert_task (f ?t) rows' = Inr rows2"
    using upsert_task_again [OF up, of rows'] st by (auto simp: rows' stamps_with_def)
  have "task_write i f post rows' = Inr (post (f ?t) rows2)"
    using get' task' up2 f_idem by (simp add: task_write_def)
  moreover have "row_get row_id (post (f ?t) rows2) j = row_get row_id rows' j" for j
  proof -
    have "(g ?t (r\<lparr>tr_task := f ?t\<rparr>))\<lparr>tr_task := f ?t\<rparr> = g ?t (r\<lparr>tr_task := f ?t\<rparr>)"
      using task' by (metis task_row.surjective task_row.update_convs(1))
    then have "row_get row_id rows2 i = row_get row_id rows' i"
      using upsert_task_get [OF up2, of i] get' ri f_id by (simp add: written_row_def)
    then show ?thesis
      using st upsert_task_get [OF up2, of j] get' ri f_id g_idem [of ?t]
      by (cases "j = i") (simp_all add: stamps_with_def)
  qed
  ultimately show ?thesis by blast
qed

lemma stamps_keep: "stamps_with i (\<lambda>_ rs. rs) (\<lambda>_ r. r)"
  by (simp add: stamps_with_def option.map_ident)

lemma map_task_stamps [simp]:
  "map tr_task (stamp_status_changed_at i at rs) = map tr_task rs"
  "map tr_task (stamp_pipeline_position i p rs) = map tr_task rs"
  by (simp_all add: stamp_status_changed_at_def stamp_pipeline_position_def row_modify_def)

lemma stamps_status:
  "stamps_with i (\<lambda>_. stamp_status_changed_at i at) (\<lambda>_ r. r\<lparr>tr_status_changed_at := Some at\<rparr>)"
  by (simp add: stamps_with_def)

lemma stamps_entered_done:
  "stamps_with i (\<lambda>t rs. if t_status t \<noteq> Done then stamp_status_changed_at i at rs else rs)
     (\<lambda>t r. if t_status t \<noteq> Done then r\<lparr>tr_status_changed_at := Some at\<rparr> else r)"
  by (simp add: stamps_with_def option.map_ident)

lemma stamps_position:
  "stamps_with i (\<lambda>_ rs. case p of Some pos \<Rightarrow> stamp_pipeline_position i pos rs | None \<Rightarrow> rs)
     (\<lambda>_ r. case p of Some pos \<Rightarrow> r\<lparr>tr_pipeline := Some pos\<rparr> | None \<Rightarrow> r)"
  by (simp add: stamps_with_def option.map_ident split: option.splits)

lemmas projection_defs = apply_task_updated_def apply_status_changed_def apply_task_completed_def
  apply_task_reopened_def apply_task_closed_def stamp_last_change_def patch_apply_def Let_def

lemma unwrap_or_twice [simp]: "unwrap_or (unwrap_or d x) x = unwrap_or d x"
  by (cases x) simp_all

lemma or_opt_twice [simp]: "or_opt (or_opt x y) y = or_opt x y"
  by (cases x; cases y) simp_all

lemma projection_changes_idem:
  "apply_task_updated env p (apply_task_updated env p t) = apply_task_updated env p t"
  "apply_status_changed env to (apply_status_changed env to t) = apply_status_changed env to t"
  "apply_task_completed env at (apply_task_completed env at t) = apply_task_completed env at t"
  "apply_task_reopened env at (apply_task_reopened env at t) = apply_task_reopened env at t"
  "apply_task_closed env at (apply_task_closed env at t) = apply_task_closed env at t"
  by (simp_all add: projection_defs)

lemma projection_changes_id [simp]:
  "t_id (apply_task_updated env p t) = t_id t"
  "t_id (apply_status_changed env to t) = t_id t"
  "t_id (apply_task_completed env at t) = t_id t"
  "t_id (apply_task_reopened env at t) = t_id t"
  "t_id (apply_task_closed env at t) = t_id t"
  by (simp_all add: projection_defs)

definition carries_id :: "event \<Rightarrow> bool" where
  "carries_id e = (case e of
      TaskEv (TaskCreated n) \<Rightarrow> nt_id n \<noteq> None
    | TaskEv (TaskSplitGenerated _ _) \<Rightarrow> False
    | _ \<Rightarrow> True)"

lemma created_again:
  assumes "bind_result (upsert_task t rows) (\<lambda>rs. Inr (stamp_status_changed_at (t_id t) at rs)) = Inr rows'"
  shows "\<exists>rows''. bind_result (upsert_task t rows') (\<lambda>rs. Inr (stamp_status_changed_at (t_id t) at rs)) = Inr rows'' \<and>
    (\<forall>j. row_get row_id rows'' j = row_get row_id rows' j)"
proof -
  obtain rows1 where up: "upsert_task t rows = Inr rows1" and rows': "rows' = stamp_status_changed_at (t_id t) at rows1"
    using assms by (auto simp: bind_result_Inr_iff)
  obtain rows2 where up2: "upsert_task t rows' = Inr rows2"
    using upsert_task_again [OF up, of rows'] by (auto simp: rows')
  have "row_get row_id rows' (t_id t) =
      Some ((written_row t (row_get row_id rows (t_id t)))\<lparr>tr_status_changed_at := Some at\<rparr>)"
    using upsert_task_get [OF up] by (simp add: rows')
  then have "row_get row_id (stamp_status_changed_at (t_id t) at rows2) j = row_get row_id rows' j" for j
    using upsert_task_get [OF up2] by (simp add: written_row_def split: option.splits)
  then show ?thesis using up2 by simp
qed

lemma task_rows_apply_again:
  assumes run: "task_rows_apply fresh env rows = Inr rows'" and ids: "carries_id (en_payload env)"
  shows "\<exists>rows''. task_rows_apply fresh' env rows' = Inr rows'' \<and>
    (\<forall>j. row_get row_id rows'' j = row_get row_id rows' j)"
proof (cases "en_payload env")
  case (TaskEv te)
  note run = run [unfolded task_rows_apply_def TaskEv Let_def, simplified]
  note ids = ids [unfolded carries_id_def TaskEv, simplified]
  note goal = task_rows_apply_def TaskEv Let_def
  show ?thesis
  proof (cases te)
    case (TaskCreated n)
    then obtain i where i: "nt_id n = Some i" using ids by auto
    have "projected_task env (fresh' 0) (nt_source_event_id n) n = projected_task env (fresh 0) (nt_source_event_id n) n"
      by (simp add: projected_task_def i)
    then show ?thesis
      using created_again run TaskCreated by (simp add: goal)
  next
    case (TaskUpdated i p)
    show ?thesis
      using task_write_again [OF run [unfolded TaskUpdated, simplified] stamps_position] TaskUpdated
      by (simp add: goal projection_changes_idem split: option.splits)
  next
    case (TaskStatusChanged i a b)
    show ?thesis
      using task_write_again [OF run [unfolded TaskStatusChanged, simplified] stamps_status] TaskStatusChanged
      by (simp add: goal projection_changes_idem)
  next
    case (TaskPriorityChanged i a b)
    show ?thesis
      using task_write_again [OF run [unfolded TaskPriorityChanged, simplified] stamps_keep] TaskPriorityChanged
      by (simp add: goal stamp_last_change_def)
  next
    case (TaskCompleted i at n)
    show ?thesis
      using task_write_again [OF run [unfolded TaskCompleted, simplified] stamps_entered_done [simplified]] TaskCompleted
      by (simp add: goal projection_changes_idem apply_task_completed_def stamp_last_change_def)
  next
    case (TaskDeleted i)
    then show ?thesis using run by (auto simp: goal row_get_delete)
  next
    case (TaskReopened i a at)
    show ?thesis
      using task_write_again [OF run [unfolded TaskReopened, simplified] stamps_keep] TaskReopened
      by (simp add: goal projection_changes_idem)
  next
    case (TaskClosed i a at)
    show ?thesis
      using task_write_again [OF run [unfolded TaskClosed, simplified] stamps_keep] TaskClosed
      by (simp add: goal projection_changes_idem)
  qed (use ids in \<open>simp_all add: goal\<close>)
qed (simp_all add: task_rows_apply_def Let_def)

subsection \<open>Properties\<close>

fun task_replay :: "(nat \<Rightarrow> uuid) \<Rightarrow> event_envelope list \<Rightarrow> task_store \<Rightarrow> task_store result" where
  "task_replay fresh [] s = Inr s"
| "task_replay fresh (env # envs) s = bind_result (task_apply_event fresh env s) (task_replay fresh envs)"

definition empty_task_store :: task_store where
  "empty_task_store = \<lparr>ts_rows = [], ts_due_notifications = []\<rparr>"

lemma task_apply_event_rows:
  "task_apply_event fresh env s = Inr s' \<Longrightarrow> task_rows_apply fresh env (ts_rows s) = Inr (ts_rows s')"
  by (auto simp: task_apply_event_def bind_result_Inr_iff)

definition demo_envelope :: "uuid \<Rightarrow> nat \<Rightarrow> event \<Rightarrow> event_envelope" where
  "demo_envelope i k e = (envelope_new i 500 actor_user e)\<lparr>en_seq := k\<rparr>"

definition demo_new_task :: "uuid \<Rightarrow> string option \<Rightarrow> new_task" where
  "demo_new_task i key = (new_task ''demo'')\<lparr>nt_id := Some i, nt_external_key := key\<rparr>"

lemmas demo_store_simps = demo_envelope_def demo_new_task_def envelope_new_def new_task_def
  actor_user_def empty_task_store_def projected_task_def task_apply_event_def task_rows_apply_def
  upsert_task_def external_key_taken_def stamp_status_changed_at_def row_modify_def
  due_notifications_apply_def

subsection \<open>The life of a task\<close>

text \<open>
  The reference for the columns that say where a task stands: its status, when it was started and completed, and when it
  entered its status. It follows the events of one task and knows nothing of the table. A status written by a patch does
  not touch any of the times; reopening clears the completion and keeps the status, which an event of its own changes.
\<close>

record task_life =
  lf_status :: status
  lf_started :: "timestamp option"
  lf_completed :: "timestamp option"
  lf_entered :: "timestamp option"

definition life_of :: "task_row \<Rightarrow> task_life" where
  "life_of r = \<lparr>lf_status = t_status (tr_task r), lf_started = t_started_at (tr_task r),
     lf_completed = t_completed_at (tr_task r), lf_entered = tr_status_changed_at r\<rparr>"

definition born :: "new_task \<Rightarrow> timestamp option \<Rightarrow> task_life" where
  "born n entered = \<lparr>lf_status = (case nt_status n of Some st \<Rightarrow> st | None \<Rightarrow> Inbox),
     lf_started = None, lf_completed = None, lf_entered = entered\<rparr>"

definition first_time :: "timestamp option \<Rightarrow> timestamp \<Rightarrow> timestamp option" where
  "first_time old at = (case old of Some t \<Rightarrow> Some t | None \<Rightarrow> Some at)"

definition life_step :: "uuid \<Rightarrow> event_envelope \<Rightarrow> task_life option \<Rightarrow> task_life option" where
  "life_step i env l =
     (let at = en_occurred_at env in
      case en_payload env of
        TaskEv (TaskCreated n) \<Rightarrow> if nt_id n = Some i then Some (born n (Some at)) else l
      | TaskEv (TaskSplitGenerated _ ns) \<Rightarrow>
          fold (\<lambda>n l. if nt_id n = Some i then Some (born n (Option.bind l lf_entered)) else l) ns l
      | TaskEv (TaskUpdated j p) \<Rightarrow>
          if j = i then map_option (\<lambda>l. case tp_status p of Some st \<Rightarrow> l\<lparr>lf_status := st\<rparr> | None \<Rightarrow> l) l else l
      | TaskEv (TaskStatusChanged j _ to) \<Rightarrow>
          if j = i
          then map_option (\<lambda>l. l\<lparr>lf_status := to, lf_entered := Some at,
                 lf_started := (if to \<in> {InProgress, Done} then first_time (lf_started l) at else lf_started l)\<rparr>) l
          else l
      | TaskEv (TaskCompleted j done _) \<Rightarrow>
          if j = i
          then map_option (\<lambda>l. l\<lparr>lf_status := Done, lf_started := first_time (lf_started l) done, lf_completed := Some done,
                 lf_entered := (if lf_status l = Done then lf_entered l else Some at)\<rparr>) l
          else l
      | TaskEv (TaskReopened j _ _) \<Rightarrow> if j = i then map_option (\<lambda>l. l\<lparr>lf_completed := None\<rparr>) l else l
      | TaskEv (TaskClosed j _ when) \<Rightarrow>
          if j = i then map_option (\<lambda>l. l\<lparr>lf_started := first_time (lf_started l) when, lf_completed := Some when\<rparr>) l else l
      | TaskEv (TaskDeleted j) \<Rightarrow> if j = i then None else l
      | _ \<Rightarrow> l)"

text \<open>An event whose new tasks all carry their id, as the command handler makes them.\<close>

definition names_tasks :: "event \<Rightarrow> bool" where
  "names_tasks e = (case e of
      TaskEv (TaskCreated n) \<Rightarrow> nt_id n \<noteq> None
    | TaskEv (TaskSplitGenerated _ ns) \<Rightarrow> list_all (\<lambda>n. nt_id n \<noteq> None) ns
    | _ \<Rightarrow> True)"

lemma task_write_get:
  assumes "task_write j f post rows = Inr rows'" "stamps_with j post g" "\<And>t. t_id (f t) = t_id t"
  shows "row_get row_id rows' i =
    (if i = j then map_option (\<lambda>r. g (tr_task r) (r\<lparr>tr_task := f (tr_task r)\<rparr>)) (row_get row_id rows i) else row_get row_id rows i)"
proof (cases "row_get row_id rows j")
  case None
  then show ?thesis using assms(1) by (simp add: task_write_def)
next
  case (Some r)
  have id: "t_id (tr_task r) = j" using row_get_Some [OF Some] by simp
  obtain rows1 where up: "upsert_task (f (tr_task r)) rows = Inr rows1" and rows': "rows' = post (tr_task r) rows1"
    using assms(1) Some by (auto simp: task_write_def bind_result_Inr_iff)
  show ?thesis
    using assms(2) upsert_task_get [OF up, of i] Some id assms(3)
    by (cases "i = j") (simp_all add: rows' stamps_with_def written_row_def)
qed

lemma upsert_life:
  assumes "upsert_task (projected_task env new src n) rows = Inr rows'" "nt_id n \<noteq> None"
  shows "map_option life_of (row_get row_id rows' i) =
    (if nt_id n = Some i then Some (born n (Option.bind (map_option life_of (row_get row_id rows i)) lf_entered))
     else map_option life_of (row_get row_id rows i))"
  using upsert_task_get [OF assms(1), of i] assms(2)
  by (auto simp: projected_task_def written_row_def life_of_def born_def unwrap_or_def status_default_def split: option.splits)

lemma subtasks_life:
  "project_subtasks env fresh k ns rows = Inr rows' \<Longrightarrow> list_all (\<lambda>n. nt_id n \<noteq> None) ns \<Longrightarrow>
   map_option life_of (row_get row_id rows' i) =
     fold (\<lambda>n l. if nt_id n = Some i then Some (born n (Option.bind l lf_entered)) else l) ns (map_option life_of (row_get row_id rows i))"
proof (induction ns arbitrary: k rows)
  case (Cons n ns)
  then obtain rows1 where one: "upsert_task (projected_task env (fresh k) (Some (en_id env)) n) rows = Inr rows1"
    and rest: "project_subtasks env fresh (Suc k) ns rows1 = Inr rows'" by (auto simp: bind_result_Inr_iff)
  show ?case using Cons.IH [OF rest] Cons.prems(2) upsert_life [OF one, of i] by simp
qed simp

lemma first_time_or: "or_opt x (Some at) = first_time x at"
  by (cases x) (simp_all add: first_time_def)

lemmas life_defs = life_of_def projection_defs first_time_or unwrap_or_def

lemma task_rows_life:
  assumes run: "task_rows_apply fresh env rows = Inr rows'" and ids: "names_tasks (en_payload env)"
  shows "map_option life_of (row_get row_id rows' i) = life_step i env (map_option life_of (row_get row_id rows i))"
proof (cases "en_payload env")
  case (TaskEv te)
  note run = run [unfolded task_rows_apply_def TaskEv Let_def, simplified]
  note ids = ids [unfolded names_tasks_def TaskEv, simplified]
  note goal = life_step_def TaskEv Let_def
  show ?thesis
  proof (cases te)
    case (TaskCreated n)
    then obtain j where j: "nt_id n = Some j" using ids by auto
    obtain rows1 where up: "upsert_task (projected_task env (fresh 0) (nt_source_event_id n) n) rows = Inr rows1"
      and rows': "rows' = stamp_status_changed_at j (en_occurred_at env) rows1"
      using run TaskCreated by (auto simp: bind_result_Inr_iff projected_task_def j)
    show ?thesis
      using upsert_task_get [OF up, of i]
      by (auto simp: goal TaskCreated rows' j life_of_def born_def projected_task_def written_row_def unwrap_or_def status_default_def
          split: option.splits)
  next
    case (TaskUpdated j p)
    show ?thesis
      using task_write_get [OF run [unfolded TaskUpdated, simplified] stamps_position, of i]
      by (auto simp: goal TaskUpdated life_defs option.map_comp comp_def intro!: option.map_cong split: option.splits)
  next
    case (TaskStatusChanged j a b)
    show ?thesis
      using task_write_get [OF run [unfolded TaskStatusChanged, simplified] stamps_status, of i]
      by (auto simp: goal TaskStatusChanged life_defs option.map_comp comp_def intro!: option.map_cong)
  next
    case (TaskPriorityChanged j a b)
    show ?thesis
      using task_write_get [OF run [unfolded TaskPriorityChanged, simplified] stamps_keep, of i]
      by (cases "row_get row_id rows i") (auto simp: goal TaskPriorityChanged life_defs)
  next
    case (TaskCompleted j at n)
    show ?thesis
      using task_write_get [OF run [unfolded TaskCompleted, simplified] stamps_entered_done [simplified], of i]
      by (auto simp: goal TaskCompleted life_defs option.map_comp comp_def intro!: option.map_cong)
  next
    case (TaskDeleted j)
    then show ?thesis using run by (auto simp: goal row_get_delete)
  next
    case (TaskSplitGenerated j ns)
    then show ?thesis using run ids subtasks_life by (simp add: goal)
  next
    case (TaskReopened j a at)
    show ?thesis
      using task_write_get [OF run [unfolded TaskReopened, simplified] stamps_keep, of i]
      by (auto simp: goal TaskReopened life_defs option.map_comp comp_def)
  next
    case (TaskClosed j a at)
    show ?thesis
      using task_write_get [OF run [unfolded TaskClosed, simplified] stamps_keep, of i]
      by (auto simp: goal TaskClosed life_defs option.map_comp comp_def)
  qed (use run in \<open>simp_all add: goal\<close>)
qed (use run in \<open>simp_all add: task_rows_apply_def life_step_def Let_def\<close>)

lemma task_replay_lives:
  "task_replay fresh envs s = Inr s' \<Longrightarrow> list_all (names_tasks \<circ> en_payload) envs \<Longrightarrow>
   map_option life_of (row_get row_id (ts_rows s') i) = fold (life_step i) envs (map_option life_of (row_get row_id (ts_rows s) i))"
proof (induction envs arbitrary: s)
  case (Cons env envs)
  then obtain s1 where s1: "task_apply_event fresh env s = Inr s1" "task_replay fresh envs s1 = Inr s'"
    by (auto simp: bind_result_Inr_iff)
  show ?case using Cons.IH [OF s1(2)] Cons.prems(2) task_rows_life [OF task_apply_event_rows [OF s1(1)]] by simp
qed simp

text \<open>
  C28: the projection of a log gives every task the life its own events describe. After a replay of any log whose events name
  their tasks, a task is in the table exactly when it was created and not deleted since; its status, the times it was
  started and completed and the time it entered its status are those the reference computes from the events of this task.
\<close>

theorem task_replay_follows_lives:
  assumes "task_replay fresh envs empty_task_store = Inr s" and "list_all (names_tasks \<circ> en_payload) envs"
  shows "map_option (\<lambda>t. (t_status t, t_started_at t, t_completed_at t)) (task_repo_get s i) =
      map_option (\<lambda>l. (lf_status l, lf_started l, lf_completed l)) (fold (life_step i) envs None) \<and>
    Option.bind (row_get row_id (ts_rows s) i) tr_status_changed_at = Option.bind (fold (life_step i) envs None) lf_entered"
proof -
  have "fold (life_step i) envs None = map_option life_of (row_get row_id (ts_rows s) i)"
    using task_replay_lives [OF assms, of i] by (simp add: empty_task_store_def)
  then show ?thesis by (cases "row_get row_id (ts_rows s) i") (simp_all add: task_repo_get_def life_of_def)
qed

definition demo_life :: "event_envelope list" where
  "demo_life =
     [demo_envelope 90 1 (TaskEv (TaskCreated (demo_new_task 1 (Some ''gh-1'')))),
      demo_envelope 91 2 (TaskEv (TaskStatusChanged 1 Inbox InProgress)),
      demo_envelope 92 3 (TaskEv (TaskCompleted 1 520 None)),
      demo_envelope 93 4 (TaskEv (TaskReopened 1 actor_user 530))]"

theorem task_replay_follows_lives_witness:
  "\<exists>s. task_replay (\<lambda>k. k) demo_life empty_task_store = Inr s \<and>
     map_option (\<lambda>t. (t_status t, t_started_at t, t_completed_at t)) (task_repo_get s 1) = Some (Done, Some 500, None)"
proof -
  obtain s where s: "task_replay (\<lambda>k. k) demo_life empty_task_store = Inr s"
  proof (cases "task_replay (\<lambda>k. k) demo_life empty_task_store")
    case (Inl e)
    moreover have "\<not> isl (task_replay (\<lambda>k. k) demo_life empty_task_store)" by code_simp
    ultimately show thesis by simp
  qed
  have names: "list_all (names_tasks \<circ> en_payload) demo_life"
    by (simp add: demo_life_def names_tasks_def demo_envelope_def envelope_new_def demo_new_task_def)
  have "fold (life_step 1) demo_life None = Some \<lparr>lf_status = Done, lf_started = Some 500, lf_completed = None, lf_entered = Some 500\<rparr>"
    by code_simp
  then show ?thesis using task_replay_follows_lives [OF s names, of 1] s by (intro exI [of _ s]) simp
qed

text \<open>
  C29: the projection tolerates redelivery of an event that carries its task id. Applying it a second time succeeds and
  changes no row and no notification. Left out are a split (whose subtasks may take over each other's
  external keys) and a creation without an id, which would create a second task.
\<close>

theorem task_projection_redelivery:
  assumes run: "task_apply_event fresh env s = Inr s'" and ids: "carries_id (en_payload env)"
  shows "\<exists>s''. task_apply_event fresh' env s' = Inr s'' \<and>
    (\<forall>i. row_get row_id (ts_rows s'') i = row_get row_id (ts_rows s') i) \<and>
    ts_due_notifications s'' = ts_due_notifications s'"
proof -
  obtain rows'' where rows: "task_rows_apply fresh' env (ts_rows s') = Inr rows''"
    "\<forall>j. row_get row_id rows'' j = row_get row_id (ts_rows s') j"
    using task_rows_apply_again [OF task_apply_event_rows [OF run] ids] by blast
  have "due_notifications_apply (en_payload env) (ts_due_notifications s') = ts_due_notifications s'"
    using run
    by (auto simp: task_apply_event_def bind_result_Inr_iff due_notifications_apply_def
        split: event.splits task_event.splits relation_event.splits)
  then show ?thesis using rows by (simp add: task_apply_event_def)
qed

theorem task_projection_redelivery_witness:
  "carries_id (TaskEv (TaskCreated (demo_new_task 1 None))) \<and>
   (\<exists>s' s''. task_apply_event (\<lambda>k. k) (demo_envelope 90 1 (TaskEv (TaskCreated (demo_new_task 1 None)))) empty_task_store = Inr s' \<and>
      task_apply_event (\<lambda>k. k) (demo_envelope 90 1 (TaskEv (TaskCreated (demo_new_task 1 None)))) s' = Inr s'' \<and>
      row_get row_id (ts_rows s'') 1 = row_get row_id (ts_rows s') 1)"
proof -
  let ?env = "demo_envelope 90 1 (TaskEv (TaskCreated (demo_new_task 1 None)))"
  obtain s' where s': "task_apply_event (\<lambda>k. k) ?env empty_task_store = Inr s'"
    by (simp add: demo_store_simps Let_def)
  have ids: "carries_id (en_payload ?env)"
    by (simp add: carries_id_def demo_envelope_def envelope_new_def demo_new_task_def)
  then show ?thesis
    using task_projection_redelivery [OF s' ids, of "\<lambda>k. k"] s'
    by (auto simp: demo_envelope_def envelope_new_def)
qed

lemma list_stuck_row:
  "(t, at) \<in> set (list_stuck_in_status s project st cutoff) \<longleftrightarrow>
   (\<exists>r \<in> set (ts_rows s). tr_task r = t \<and> tr_status_changed_at r = Some at \<and> t_status t = st \<and> at < cutoff \<and>
      (case project of None \<Rightarrow> True | Some p \<Rightarrow> t_project_id t = Some p))"
  by (auto simp: list_stuck_in_status_def in_map_filter split: option.splits if_splits)

lemma created_row:
  assumes "task_rows_apply fresh env rows = Inr rows'" and "en_payload env = TaskEv (TaskCreated n)"
    and "nt_id n = Some i"
  shows "\<exists>r \<in> set rows'. tr_task r = projected_task env i (nt_source_event_id n) n \<and>
    tr_status_changed_at r = Some (en_occurred_at env)"
proof -
  let ?t = "projected_task env (fresh 0) (nt_source_event_id n) n"
  have id: "t_id ?t = i" and same: "?t = projected_task env i (nt_source_event_id n) n"
    using assms(3) by (simp_all add: projected_task_def)
  obtain mid where up: "upsert_task ?t rows = Inr mid" and rows': "rows' = stamp_status_changed_at i (en_occurred_at env) mid"
    using assms(1,2) id by (auto simp: task_rows_apply_def Let_def bind_result_Inr_iff)
  let ?r = "(written_row ?t (row_get row_id rows i))\<lparr>tr_status_changed_at := Some (en_occurred_at env)\<rparr>"
  have "row_get row_id rows' i = Some ?r" using upsert_task_get [OF up, of i] id by (simp add: rows')
  then have "?r \<in> set rows'" by (blast dest: row_get_Some)
  moreover have "tr_task ?r = ?t" by (simp add: written_row_def split: option.split)
  ultimately show ?thesis using same by (intro bexI [of _ ?r]) simp_all
qed

text \<open>
  A created task is visible to the stuck-in-status audit from the start. Once the projection of
  \<^verbatim>\<open>TaskCreated\<close> has run, a task that never moves is reported for its initial status as soon as the
  cutoff passes its creation, with the creation time as the time it entered the status.
\<close>

theorem created_task_visible_to_audit:
  assumes "task_rows_apply fresh env (ts_rows s) = Inr rows'" and "en_payload env = TaskEv (TaskCreated n)"
    and "nt_id n = Some i" and "en_occurred_at env < cutoff"
  shows "(projected_task env i (nt_source_event_id n) n, en_occurred_at env) \<in>
    set (list_stuck_in_status (s\<lparr>ts_rows := rows'\<rparr>) (nt_project_id n) (unwrap_or status_default (nt_status n)) cutoff)"
  using created_row [OF assms(1-3)] assms(4)
  by (auto simp: list_stuck_row projected_task_def split: option.split)

theorem created_task_visible_to_audit_witness:
  "\<exists>rows'. task_rows_apply (\<lambda>k. k) (demo_envelope 91 2 (TaskEv (TaskCreated (demo_new_task 2 None)))) [] = Inr rows' \<and>
     (\<exists>t. t_id t = 2 \<and> (t, en_occurred_at (demo_envelope 91 2 (TaskEv (TaskCreated (demo_new_task 2 None))))) \<in>
        set (list_stuck_in_status (empty_task_store\<lparr>ts_rows := rows'\<rparr>) None status_default 1000000))"
proof -
  let ?n = "demo_new_task 2 None"
  let ?env = "demo_envelope 91 2 (TaskEv (TaskCreated ?n))"
  have fields: "nt_id ?n = Some 2" "nt_project_id ?n = None" "nt_status ?n = None"
    "en_payload ?env = TaskEv (TaskCreated ?n)" "en_occurred_at ?env < 1000000"
    by (simp_all add: demo_store_simps)
  obtain rows' where run: "task_rows_apply (\<lambda>k. k) ?env (ts_rows empty_task_store) = Inr rows'"
    by (simp add: demo_store_simps Let_def empty_task_store_def)
  from created_task_visible_to_audit [OF run fields(4,1,5)]
  have "(projected_task ?env 2 (nt_source_event_id ?n) ?n, en_occurred_at ?env) \<in>
      set (list_stuck_in_status (empty_task_store\<lparr>ts_rows := rows'\<rparr>) None status_default 1000000)"
    by (simp add: fields(2,3))
  moreover have "t_id (projected_task ?env 2 (nt_source_event_id ?n) ?n) = 2" by (simp add: projected_task_def fields(1))
  moreover have "task_rows_apply (\<lambda>k. k) ?env [] = Inr rows'" using run by (simp add: empty_task_store_def)
  ultimately show ?thesis by blast
qed

end
