(* ===== verification/Plan_Store.thy ===== *)
theory Plan_Store
  imports Task_Store "HOL-Library.Multiset"
begin

text \<open>
  The plan projection \<^verbatim>\<open>crates/storage/src/plan_repo.rs\<close> (tables \<^verbatim>\<open>plans\<close>, \<^verbatim>\<open>plan_tasks\<close> with primary key
  \<^verbatim>\<open>(plan_id, task_id)\<close>, \<^verbatim>\<open>sources\<close>) and the run projection \<^verbatim>\<open>crates/storage/src/run_repo.rs\<close> (tables
  \<^verbatim>\<open>runs\<close> and \<^verbatim>\<open>run_steps\<close>). \<^verbatim>\<open>INSERT OR REPLACE\<close> replaces a row in place; rows that tie in an
  \<^verbatim>\<open>ORDER BY\<close> come in table order. Attaching a task to a plan may fill in the task's project, so the
  plan projection also writes the task rows. The clock that \<^verbatim>\<open>PlanPatch::apply\<close> reads is \<open>now\<close>.
\<close>

subsection \<open>Tables\<close>

record run_step =
  rs_run_id :: uuid
  rs_task_id :: uuid
  rs_started_at :: timestamp
  rs_finished_at :: "timestamp option"
  rs_outcome :: "run_outcome option"

record plan_store =
  ps_plans :: "plan list"
  ps_plan_tasks :: "plan_task list"
  ps_sources :: "source_node list"

record run_store =
  rs_runs :: "run list"
  rs_steps :: "run_step list"

subsection \<open>Plan queries\<close>

definition plan_get :: "plan_store \<Rightarrow> uuid \<Rightarrow> plan option" where
  "plan_get s i = row_get pl_id (ps_plans s) i"

definition list_children :: "plan_store \<Rightarrow> uuid \<Rightarrow> plan list" where
  "list_children s parent =
     sort_key pl_created_at (filter (\<lambda>p. pl_parent_plan_id p = Some parent) (ps_plans s))"

definition list_tasks_ordered :: "plan_store \<Rightarrow> uuid \<Rightarrow> plan_task list" where
  "list_tasks_ordered s p =
     sort_key (\<lambda>pt. unat (pt_position pt)) (filter (\<lambda>pt. pt_plan_id pt = p) (ps_plan_tasks s))"

text \<open>The join of \<^verbatim>\<open>list_plans_for_task\<close>, ordered by membership position, then plan creation.\<close>

definition list_plans_for_task :: "plan_store \<Rightarrow> uuid \<Rightarrow> plan list" where
  "list_plans_for_task s t =
     map snd (sort_key (\<lambda>(pt, p). unat (pt_position pt))
       (sort_key (\<lambda>(pt, p). pl_created_at p)
         (concat (map (\<lambda>pt. map (Pair pt) (filter (\<lambda>p. pl_id p = pt_plan_id pt) (ps_plans s)))
            (filter (\<lambda>pt. pt_task_id pt = t) (ps_plan_tasks s))))))"

definition get_source :: "plan_store \<Rightarrow> string \<Rightarrow> source_node option" where
  "get_source s ref = find (\<lambda>n. sn_source_ref n = ref) (ps_sources s)"

definition planless_task_ids :: "plan_store \<Rightarrow> task_store \<Rightarrow> uuid list" where
  "planless_task_ids ps ts =
     map t_id (sort_key t_created_at
       (filter (\<lambda>t. \<not> list_ex (\<lambda>pt. pt_task_id pt = t_id t) (ps_plan_tasks ps)) (tasks_of ts)))"

subsection \<open>Plan writes\<close>

definition upsert_plan :: "plan \<Rightarrow> plan list \<Rightarrow> plan list" where
  "upsert_plan p ps = row_upsert pl_id p ps"

definition plan_update_status :: "timestamp \<Rightarrow> uuid \<Rightarrow> plan_status \<Rightarrow> plan list \<Rightarrow> plan list" where
  "plan_update_status at i st ps = row_modify pl_id i (\<lambda>p. p\<lparr>pl_status := st, pl_updated_at := at\<rparr>) ps"

definition plan_archive :: "uuid \<Rightarrow> timestamp \<Rightarrow> plan list \<Rightarrow> plan list" where
  "plan_archive i at ps = row_modify pl_id i
     (\<lambda>p. p\<lparr>pl_status := Abandoned, pl_archived_at := Some at, pl_updated_at := at\<rparr>) ps"

definition bump_updated_at :: "uuid \<Rightarrow> timestamp \<Rightarrow> plan list \<Rightarrow> plan list" where
  "bump_updated_at i at ps = row_modify pl_id i
     (\<lambda>p. p\<lparr>pl_updated_at := (if pl_updated_at p < at then at else pl_updated_at p)\<rparr>) ps"

definition insert_plan_task :: "plan_task \<Rightarrow> plan_task list \<Rightarrow> plan_task list" where
  "insert_plan_task pt pts =
     (if list_ex (\<lambda>x. pt_plan_id x = pt_plan_id pt \<and> pt_task_id x = pt_task_id pt) pts
      then map (\<lambda>x. if pt_plan_id x = pt_plan_id pt \<and> pt_task_id x = pt_task_id pt then pt else x) pts
      else pts @ [pt])"

text \<open>The projects of the plans a task belongs to: \<^verbatim>\<open>COUNT(DISTINCT p.project_id)\<close> is its length.\<close>

definition projects_of_task :: "plan list \<Rightarrow> plan_task list \<Rightarrow> uuid \<Rightarrow> uuid list" where
  "projects_of_task ps pts t =
     remdups (concat (map (\<lambda>pt. map pl_project_id (filter (\<lambda>p. pl_id p = pt_plan_id pt) ps))
       (filter (\<lambda>pt. pt_task_id pt = t) pts)))"

definition fill_task_project :: "plan list \<Rightarrow> plan_task list \<Rightarrow> uuid \<Rightarrow> uuid \<Rightarrow> task_row list \<Rightarrow> task_row list" where
  "fill_task_project ps pts p t rows =
     (if length (projects_of_task ps pts t) = 1
      then row_modify row_id t
             (\<lambda>r. if t_project_id (tr_task r) = None
                  then r\<lparr>tr_task := (tr_task r)\<lparr>t_project_id := map_option pl_project_id (row_get pl_id ps p)\<rparr>\<rparr>
                  else r) rows
      else rows)"

definition plan_add_task ::
  "uuid \<Rightarrow> uuid \<Rightarrow> 32 word \<Rightarrow> uuid list \<Rightarrow> plan_store \<times> task_store \<Rightarrow> plan_store \<times> task_store" where
  "plan_add_task p t pos deps st =
     (let (ps, ts) = st;
          pts = insert_plan_task \<lparr>pt_plan_id = p, pt_task_id = t, pt_position = pos, pt_depends_on = deps\<rparr>
                  (ps_plan_tasks ps)
      in (ps\<lparr>ps_plan_tasks := pts\<rparr>,
          ts\<lparr>ts_rows := fill_task_project (ps_plans ps) pts p t (ts_rows ts)\<rparr>))"

definition plan_remove_task :: "uuid \<Rightarrow> uuid \<Rightarrow> plan_task list \<Rightarrow> plan_task list" where
  "plan_remove_task p t pts = filter (\<lambda>x. \<not> (pt_plan_id x = p \<and> pt_task_id x = t)) pts"

definition set_position :: "uuid \<Rightarrow> nat \<times> uuid \<Rightarrow> plan_task list \<Rightarrow> plan_task list" where
  "set_position p = (\<lambda>(pos, t). map (\<lambda>x. if pt_plan_id x = p \<and> pt_task_id x = t
                                       then x\<lparr>pt_position := of_nat pos\<rparr> else x))"

definition plan_reorder :: "uuid \<Rightarrow> uuid list \<Rightarrow> plan_task list \<Rightarrow> plan_task list" where
  "plan_reorder p order pts = fold (set_position p) (enumerate 0 order) pts"

definition upsert_source :: "source_node \<Rightarrow> source_node list \<Rightarrow> source_node list" where
  "upsert_source n ns =
     (if list_ex (\<lambda>x. sn_source_ref x = sn_source_ref n) ns
      then map (\<lambda>x. if sn_source_ref x = sn_source_ref n
                    then x\<lparr>sn_label := or_opt (sn_label x) (sn_label n),
                           sn_occurred_at := or_opt (sn_occurred_at x) (sn_occurred_at n),
                           sn_note := or_opt (sn_note x) (sn_note n),
                           sn_upstream_ref := or_opt (sn_upstream_ref x) (sn_upstream_ref n)\<rparr>
                    else x) ns
      else ns @ [n])"

definition apply_plan_updated ::
  "timestamp \<Rightarrow> timestamp \<Rightarrow> uuid \<Rightarrow> plan_patch \<Rightarrow> plan list \<Rightarrow> plan list" where
  "apply_plan_updated now occurred_at i patch ps =
     (case row_get pl_id ps i of
        None \<Rightarrow> ps
      | Some p \<Rightarrow>
          let former = pl_parent_plan_id p;
              p' = plan_patch_apply now patch p;
              ps' = (if former \<noteq> pl_parent_plan_id p'
                     then (case former of Some q \<Rightarrow> bump_updated_at q occurred_at ps | None \<Rightarrow> ps) else ps)
          in upsert_plan p' ps')"

definition apply_plan_deleted :: "uuid \<Rightarrow> timestamp \<Rightarrow> plan_store \<Rightarrow> plan_store" where
  "apply_plan_deleted i at s =
     (let ps = (case Option.bind (row_get pl_id (ps_plans s) i) pl_parent_plan_id of
                  Some q \<Rightarrow> bump_updated_at q at (ps_plans s) | None \<Rightarrow> ps_plans s)
      in s\<lparr>ps_plans := row_delete pl_id i ps,
           ps_plan_tasks := filter (\<lambda>x. pt_plan_id x \<noteq> i) (ps_plan_tasks s)\<rparr>)"

definition plan_apply_event ::
  "timestamp \<Rightarrow> event_envelope \<Rightarrow> plan_store \<times> task_store \<Rightarrow> plan_store \<times> task_store" where
  "plan_apply_event now env st =
     (let (s, ts) = st; at0 = en_occurred_at env in
      case en_payload env of
        PlanEv (PlanCreated p) \<Rightarrow> (s\<lparr>ps_plans := upsert_plan p (ps_plans s)\<rparr>, ts)
      | PlanEv (PlanUpdated i patch) \<Rightarrow>
          (s\<lparr>ps_plans := apply_plan_updated now at0 i patch (ps_plans s)\<rparr>, ts)
      | PlanEv (PlanStatusChanged i _ to) \<Rightarrow>
          (s\<lparr>ps_plans := plan_update_status at0 i to (ps_plans s)\<rparr>, ts)
      | PlanEv (PlanGoalChanged i _ to) \<Rightarrow>
          (s\<lparr>ps_plans := row_modify pl_id i (\<lambda>p. p\<lparr>pl_goal := to, pl_updated_at := at0\<rparr>) (ps_plans s)\<rparr>, ts)
      | PlanEv (PlanTaskAdded p t pos deps) \<Rightarrow> plan_add_task p t pos deps (s, ts)
      | PlanEv (PlanTaskRemoved p t) \<Rightarrow>
          (s\<lparr>ps_plan_tasks := plan_remove_task p t (ps_plan_tasks s)\<rparr>, ts)
      | PlanEv (PlanReordered p order) \<Rightarrow>
          (s\<lparr>ps_plan_tasks := plan_reorder p order (ps_plan_tasks s)\<rparr>, ts)
      | PlanEv (PlanArchived i at) \<Rightarrow> (s\<lparr>ps_plans := plan_archive i at (ps_plans s)\<rparr>, ts)
      | PlanEv (PlanDeleted i at) \<Rightarrow> (apply_plan_deleted i at s, ts)
      | PlanEv (SourceUpserted n) \<Rightarrow> (s\<lparr>ps_sources := upsert_source n (ps_sources s)\<rparr>, ts)
      | PlanEv (PlanSourceSet i ref at) \<Rightarrow>
          (s\<lparr>ps_plans := row_modify pl_id i
                (\<lambda>p. if pl_source_ref p = None
                     then p\<lparr>pl_source_ref := Some ref, pl_updated_at := at\<rparr> else p) (ps_plans s)\<rparr>, ts)
      | _ \<Rightarrow> st)"

subsection \<open>Runs\<close>

definition run_get :: "run_store \<Rightarrow> uuid \<Rightarrow> run option" where
  "run_get s i = row_get r_id (rs_runs s) i"

definition list_active_for_plan :: "run_store \<Rightarrow> uuid \<Rightarrow> run list" where
  "list_active_for_plan s p =
     sort_key r_started_at (filter (\<lambda>r. r_plan_id r = p \<and> r_status r = RunActive) (rs_runs s))"

definition list_steps :: "run_store \<Rightarrow> uuid \<Rightarrow> run_step list" where
  "list_steps s i = sort_key rs_started_at (filter (\<lambda>x. rs_run_id x = i) (rs_steps s))"

definition list_unresponsive_candidates :: "run_store \<Rightarrow> int \<Rightarrow> timestamp \<Rightarrow> uuid list" where
  "list_unresponsive_candidates s threshold now =
     map r_id (filter (\<lambda>r. r_status r = RunActive \<and> r_unresponsive_at r = None \<and>
                           r_last_activity_at r = Some (r_started_at r) \<and>
                           r_started_at r \<le> now - threshold) (rs_runs s))"

definition list_stale_candidates :: "run_store \<Rightarrow> int \<Rightarrow> timestamp \<Rightarrow> uuid list" where
  "list_stale_candidates s threshold now =
     map r_id (filter (\<lambda>r. r_status r = RunActive \<and> r_stale_at r = None \<and>
                           (case r_last_activity_at r of Some a \<Rightarrow> a \<le> now - threshold | None \<Rightarrow> False))
                      (rs_runs s))"

text \<open>The open step with the greatest start, the latest inserted of equals: its index in the table.\<close>

definition latest_open :: "(run_step \<Rightarrow> bool) \<Rightarrow> run_step list \<Rightarrow> (nat \<times> run_step) option" where
  "latest_open P steps =
     (case rev (sort_key (\<lambda>(_, x). rs_started_at x)
              (filter (\<lambda>(_, x). P x \<and> rs_finished_at x = None) (enumerate 0 steps))) of
        [] \<Rightarrow> None | x # _ \<Rightarrow> Some x)"

definition current_step_task :: "run_store \<Rightarrow> uuid \<Rightarrow> uuid option" where
  "current_step_task s i =
     map_option (\<lambda>(_, x). rs_task_id x) (latest_open (\<lambda>x. rs_run_id x = i) (rs_steps s))"

definition finish_step_row :: "uuid \<Rightarrow> uuid \<Rightarrow> run_outcome \<Rightarrow> timestamp \<Rightarrow> run_step list \<Rightarrow> run_step list" where
  "finish_step_row i t outcome at steps =
     (case latest_open (\<lambda>x. rs_run_id x = i \<and> rs_task_id x = t) steps of
        Some (k, x) \<Rightarrow> steps[k := x\<lparr>rs_finished_at := Some at, rs_outcome := Some outcome\<rparr>]
      | None \<Rightarrow> steps @ [\<lparr>rs_run_id = i, rs_task_id = t, rs_started_at = at,
                          rs_finished_at = Some at, rs_outcome = Some outcome\<rparr>])"

definition upsert_run :: "run \<Rightarrow> run list \<Rightarrow> run list" where
  "upsert_run r rs =
     row_upsert r_id (r\<lparr>r_last_activity_at := Some (unwrap_or (r_started_at r) (r_last_activity_at r))\<rparr>) rs"

definition touch_activity :: "uuid \<Rightarrow> timestamp \<Rightarrow> run list \<Rightarrow> run list" where
  "touch_activity i at rs = row_modify r_id i (\<lambda>r. r\<lparr>r_last_activity_at := Some at\<rparr>) rs"

definition end_run :: "uuid \<Rightarrow> run_status \<Rightarrow> string \<Rightarrow> timestamp \<Rightarrow> run list \<Rightarrow> run list" where
  "end_run i st outcome at rs = row_modify r_id i
     (\<lambda>r. r\<lparr>r_status := st, r_ended_at := Some at, r_outcome := Some outcome\<rparr>) rs"

definition run_apply_event :: "event_envelope \<Rightarrow> run_store \<Rightarrow> run_store" where
  "run_apply_event env s =
     (case en_payload env of
        RunEv (RunStarted r) \<Rightarrow> s\<lparr>rs_runs := upsert_run r (rs_runs s)\<rparr>
      | RunEv (RunStepStarted i t at) \<Rightarrow>
          s\<lparr>rs_runs := touch_activity i at (rs_runs s),
            rs_steps := rs_steps s @ [\<lparr>rs_run_id = i, rs_task_id = t, rs_started_at = at,
                                      rs_finished_at = None, rs_outcome = None\<rparr>]\<rparr>
      | RunEv (RunStepFinished i t outcome at) \<Rightarrow>
          s\<lparr>rs_runs := touch_activity i at (rs_runs s),
            rs_steps := finish_step_row i t outcome at (rs_steps s)\<rparr>
      | RunEv (RunCompleted i at) \<Rightarrow> s\<lparr>rs_runs := end_run i RunIsCompleted ''done'' at (rs_runs s)\<rparr>
      | RunEv (RunFailed i reason at) \<Rightarrow> s\<lparr>rs_runs := end_run i RunIsFailed reason at (rs_runs s)\<rparr>
      | RunEv (RunAborted i reason at) \<Rightarrow> s\<lparr>rs_runs := end_run i RunIsAborted reason at (rs_runs s)\<rparr>
      | RunEv (RunUnresponsive i at) \<Rightarrow>
          s\<lparr>rs_runs := row_modify r_id i
              (\<lambda>r. if r_unresponsive_at r = None then r\<lparr>r_unresponsive_at := Some at\<rparr> else r) (rs_runs s)\<rparr>
      | RunEv (RunStale i at) \<Rightarrow>
          s\<lparr>rs_runs := row_modify r_id i
              (\<lambda>r. if r_stale_at r = None then r\<lparr>r_stale_at := Some at\<rparr> else r) (rs_runs s)\<rparr>
      | _ \<Rightarrow> s)"

subsection \<open>Tables as keyed tables\<close>

interpretation plan_rows: keyed_table "keys_distinct pl_id" "row_get pl_id" upsert_plan "row_delete pl_id" pl_id
  unfolding upsert_plan_def by (rule keyed_table_rows)

text \<open>
  A run row is stored with its heartbeat filled in, so the rows that satisfy the interface are the
  runs with a heartbeat.
\<close>

definition store_run :: "run \<Rightarrow> run" where
  "store_run r = r\<lparr>r_last_activity_at := Some (unwrap_or (r_started_at r) (r_last_activity_at r))\<rparr>"

interpretation run_rows: keyed_table "keys_distinct r_id" "row_get r_id" "row_upsert r_id" "row_delete r_id" r_id
  by (rule keyed_table_rows)

lemma upsert_run_eq: "upsert_run r rs = row_upsert r_id (store_run r) rs"
  by (simp add: upsert_run_def store_run_def)

lemma upsert_run_get:
  "keys_distinct r_id rs \<Longrightarrow> row_get r_id (upsert_run r rs) i = (if i = r_id r then Some (store_run r) else row_get r_id rs i)"
  using run_rows.get_put [of rs "store_run r" i] by (simp add: upsert_run_eq store_run_def)

subsection \<open>Well-formed plan tables\<close>

definition membership :: "plan_task \<Rightarrow> uuid \<times> uuid" where
  "membership pt = (pt_plan_id pt, pt_task_id pt)"

definition plan_store_ok :: "plan_store \<Rightarrow> bool" where
  "plan_store_ok s \<longleftrightarrow> keys_distinct pl_id (ps_plans s) \<and> distinct (map membership (ps_plan_tasks s))"

lemma keys_distinct_plan_writes [simp]:
  "keys_distinct pl_id (plan_update_status at i st ps) = keys_distinct pl_id ps"
  "keys_distinct pl_id (plan_archive i at ps) = keys_distinct pl_id ps"
  "keys_distinct pl_id (bump_updated_at i at ps) = keys_distinct pl_id ps"
  by (simp_all add: plan_update_status_def plan_archive_def bump_updated_at_def keys_distinct_modify)

lemma keys_distinct_plan_updated:
  "keys_distinct pl_id ps \<Longrightarrow> keys_distinct pl_id (apply_plan_updated now at i patch ps)"
  by (auto simp: apply_plan_updated_def Let_def plan_rows.invar_put split: option.splits)

lemma membership_map:
  "(\<And>x. membership (f x) = membership x) \<Longrightarrow> map membership (map f pts) = map membership pts"
  by simp

lemma distinct_insert_plan_task:
  assumes "distinct (map membership pts)"
  shows "distinct (map membership (insert_plan_task pt pts))"
proof (cases "list_ex (\<lambda>x. membership x = membership pt) pts")
  case True
  have "map membership (map (\<lambda>x. if membership x = membership pt then pt else x) pts) = map membership pts"
    by (rule membership_map) simp
  then show ?thesis using True assms by (simp add: insert_plan_task_def membership_def cong: if_cong map_cong)
next
  case False
  then have "membership pt \<notin> membership ` set pts" by (auto simp: list_ex_iff)
  then show ?thesis using False assms by (simp add: insert_plan_task_def membership_def)
qed

lemma membership_reorder [simp]: "map membership (plan_reorder p order pts) = map membership pts"
proof -
  have "map membership (fold (set_position p) xs pts) = map membership pts" for xs
  proof (induction xs arbitrary: pts)
    case (Cons x xs)
    have "map membership (set_position p x pts) = map membership pts"
      unfolding set_position_def by (cases x) (simp add: membership_def)
    then show ?case using Cons by simp
  qed simp
  then show ?thesis by (simp add: plan_reorder_def)
qed

lemma plan_apply_event_ok:
  assumes "plan_store_ok s"
  shows "plan_store_ok (fst (plan_apply_event now env (s, ts)))"
proof (cases "en_payload env")
  case (PlanEv pe)
  then show ?thesis
    using assms
    by (cases pe)
      (auto simp: plan_apply_event_def plan_store_ok_def plan_rows.invar_put keys_distinct_plan_updated
        keys_distinct_modify plan_add_task_def Let_def distinct_insert_plan_task plan_remove_task_def
        distinct_map_filter apply_plan_deleted_def keys_distinct_delete split: option.splits)
qed (use assms in \<open>simp_all add: plan_apply_event_def\<close>)

subsection \<open>Reordering\<close>

fun index_of :: "uuid list \<Rightarrow> uuid \<Rightarrow> nat" where
  "index_of [] t = 0"
| "index_of (x # xs) t = (if x = t then 0 else Suc (index_of xs t))"

lemma index_of_less: "t \<in> set xs \<Longrightarrow> index_of xs t < length xs"
  by (induction xs) auto

lemma index_of_inj: "inj_on (index_of xs) (set xs)"
proof (induction xs)
  case (Cons x xs)
  then show ?case by (auto simp: inj_on_def split: if_splits)
qed simp

lemma index_of_upt: "distinct xs \<Longrightarrow> map (index_of xs) xs = [0..<length xs]"
proof (induction xs)
  case (Cons x xs)
  have "map (index_of (x # xs)) xs = map Suc (map (index_of xs) xs)"
    using Cons.prems by auto
  also have "map (index_of xs) xs = [0..<length xs]" using Cons by simp
  finally have rest: "map (index_of (x # xs)) xs = map Suc [0..<length xs]" .
  have "map (index_of (x # xs)) (x # xs) = 0 # map Suc [0..<length xs]"
    unfolding list.map(2) rest by simp
  also have "\<dots> = [0..<length (x # xs)]" by (simp add: map_Suc_upt upt_conv_Cons del: upt_Suc)
  finally show ?case .
qed simp

lemma fold_set_position:
  assumes "distinct order"
  shows "fold (set_position p) (enumerate n order) pts =
    map (\<lambda>x. if pt_plan_id x = p \<and> pt_task_id x \<in> set order
             then x\<lparr>pt_position := of_nat (n + index_of order (pt_task_id x))\<rparr> else x) pts"
  using assms
proof (induction order arbitrary: n pts)
  case (Cons t order)
  show ?case using Cons by (auto simp: set_position_def comp_def)
qed simp

lemma members_reorder:
  assumes "distinct order" and "length order \<le> 2 ^ 32"
    and "set order = pt_task_id ` set (filter (\<lambda>x. pt_plan_id x = p) pts)"
  defines "ms \<equiv> filter (\<lambda>x. pt_plan_id x = p) (plan_reorder p order pts)"
  shows "map (\<lambda>x. unat (pt_position x)) ms = map (\<lambda>x. index_of order (pt_task_id x)) ms"
    and "map pt_task_id ms = map pt_task_id (filter (\<lambda>x. pt_plan_id x = p) pts)"
proof -
  let ?g = "\<lambda>x. if pt_plan_id x = p \<and> pt_task_id x \<in> set order
             then x\<lparr>pt_position := of_nat (index_of order (pt_task_id x))\<rparr> else x"
  have g: "pt_plan_id (?g x) = pt_plan_id x" for x by simp
  have "plan_reorder p order pts = map ?g pts"
    unfolding plan_reorder_def fold_set_position [OF assms(1)] by simp
  then have ms: "ms = map ?g (filter (\<lambda>x. pt_plan_id x = p) pts)"
    unfolding ms_def by (simp only: filter_map comp_def g)
  have "unat (of_nat (index_of order t) :: 32 word) = index_of order t" if "t \<in> set order" for t
    using index_of_less [OF that] assms(2) by (simp add: unsigned_of_nat take_bit_nat_eq_self)
  then show "map (\<lambda>x. unat (pt_position x)) ms = map (\<lambda>x. index_of order (pt_task_id x)) ms"
    using assms(3) by (auto simp: ms)
  show "map pt_task_id ms = map pt_task_id (filter (\<lambda>x. pt_plan_id x = p) pts)"
    by (simp add: ms)
qed

lemma map_sort_key_eq:
  assumes "map f xs = map g xs"
  shows "map f (sort_key f xs) = map g (sort_key f xs)"
  using assms by (metis (no_types, lifting) map_eq_conv set_sort)

lemma members_of_store:
  assumes "plan_store_ok s"
  shows "distinct (map pt_task_id (filter (\<lambda>x. pt_plan_id x = p) (ps_plan_tasks s)))"
proof -
  let ?ms = "filter (\<lambda>x. pt_plan_id x = p) (ps_plan_tasks s)"
  have "distinct (map membership ?ms)" using assms by (simp add: plan_store_ok_def distinct_map_filter)
  moreover have "map membership ?ms = map (\<lambda>t. (p, t)) (map pt_task_id ?ms)"
    by (auto simp: membership_def)
  ultimately show ?thesis by (metis distinct_map)
qed

text \<open>
  Reordering a plan does what it says. When the order names every member of the plan once, the
  members read back after \<^verbatim>\<open>PlanReordered\<close> are exactly in that order.
\<close>

theorem plan_reorder_reads_back:
  assumes ok: "plan_store_ok s" and dist: "distinct order" and len: "length order \<le> 2 ^ 32"
    and members: "set order = pt_task_id ` set (filter (\<lambda>x. pt_plan_id x = p) (ps_plan_tasks s))"
  shows "map pt_task_id (list_tasks_ordered (s\<lparr>ps_plan_tasks := plan_reorder p order (ps_plan_tasks s)\<rparr>) p) = order"
proof -
  let ?ms = "filter (\<lambda>x. pt_plan_id x = p) (plan_reorder p order (ps_plan_tasks s))"
  let ?zs = "sort_key (\<lambda>x. unat (pt_position x)) ?ms"
  let ?ix = "index_of order"
  note reordered = members_reorder [OF dist len members]
  have ids: "map pt_task_id ?ms = map pt_task_id (filter (\<lambda>x. pt_plan_id x = p) (ps_plan_tasks s))"
    by (rule reordered(2))
  have "distinct (map pt_task_id ?ms)" unfolding ids by (rule members_of_store [OF ok])
  moreover have "set (map pt_task_id ?ms) = set order" unfolding ids using members by auto
  ultimately have "mset (map pt_task_id ?ms) = mset order"
    using dist set_eq_iff_mset_eq_distinct by blast
  then have perm: "mset order = mset (map pt_task_id ?zs)" by simp
  have "sorted (map (\<lambda>x. unat (pt_position x)) ?zs)" by simp
  then have "sorted (map ?ix (map pt_task_id ?zs))"
    using map_sort_key_eq [OF reordered(1)] by (simp add: comp_def)
  then have "sort_key ?ix order = map pt_task_id ?zs"
    by (rule sort_key_inj_key_eq [OF perm index_of_inj])
  moreover have "sort_key ?ix order = order"
    using index_of_upt [OF dist] by (intro sort_key_id_if_sorted) simp
  ultimately show ?thesis by (simp add: list_tasks_ordered_def)
qed

definition demo_member :: "uuid \<Rightarrow> uuid \<Rightarrow> 32 word \<Rightarrow> plan_task" where
  "demo_member p t pos = \<lparr>pt_plan_id = p, pt_task_id = t, pt_position = pos, pt_depends_on = []\<rparr>"

theorem plan_reorder_reads_back_witness:
  "map pt_task_id (list_tasks_ordered \<lparr>ps_plans = [],
      ps_plan_tasks = plan_reorder 5 [2, 1] [demo_member 5 1 0, demo_member 5 2 1], ps_sources = []\<rparr> 5) = [2, 1]"
proof -
  let ?s = "\<lparr>ps_plans = [], ps_plan_tasks = [demo_member 5 1 0, demo_member 5 2 1], ps_sources = []\<rparr>"
  have "plan_store_ok ?s"
    by (simp add: plan_store_ok_def keys_distinct_def membership_def demo_member_def)
  moreover have "set [2, 1] = pt_task_id ` set (filter (\<lambda>x. pt_plan_id x = 5) (ps_plan_tasks ?s))"
    by (auto simp: demo_member_def)
  ultimately show ?thesis using plan_reorder_reads_back [of ?s "[2, 1]" 5] by simp
qed

subsection \<open>Replaying at another time\<close>

definition demo_plan :: "uuid \<Rightarrow> plan_status \<Rightarrow> plan" where
  "demo_plan i st = (into_plan (new_plan ''demo'' 70 actor_user) i 0)\<lparr>pl_status := st\<rparr>"

text \<open>
  Replaying the plan log is independent of the wall clock, except for \<^verbatim>\<open>PlanUpdated\<close>: every other
  event projects to the same store whenever it is applied.
\<close>

theorem plan_projection_clock_free:
  assumes "\<And>i p. en_payload env \<noteq> PlanEv (PlanUpdated i p)"
  shows "plan_apply_event now env st = plan_apply_event now' env st"
proof (cases "en_payload env")
  case (PlanEv pe)
  then show ?thesis using assms by (cases pe) (simp_all add: plan_apply_event_def)
qed (simp_all add: plan_apply_event_def)

definition demo_plan_store :: plan_store where
  "demo_plan_store = \<lparr>ps_plans = [demo_plan 5 Active], ps_plan_tasks = [], ps_sources = []\<rparr>"

theorem plan_projection_clock_free_witness:
  "plan_apply_event 10 (demo_envelope 90 1 (PlanEv (PlanArchived 5 40))) (demo_plan_store, empty_task_store) =
   plan_apply_event 99 (demo_envelope 90 1 (PlanEv (PlanArchived 5 40))) (demo_plan_store, empty_task_store)"
  by (rule plan_projection_clock_free) (simp add: demo_envelope_def envelope_new_def)

text \<open>
  A replayed \<^verbatim>\<open>PlanUpdated\<close> is stamped with the time of the replay. Two replays of one log at
  different times yield plans with different \<^verbatim>\<open>updated_at\<close>, though the envelope fixes when the
  update happened.
\<close>

theorem plan_updated_replay_clock:
  assumes "now \<noteq> now'" and "row_get pl_id (ps_plans s) i = Some p" and "keys_distinct pl_id (ps_plans s)"
    and "en_payload env = PlanEv (PlanUpdated i patch)" and "pu_parent_plan_id patch = None"
  shows "plan_get (fst (plan_apply_event now env (s, ts))) i \<noteq>
         plan_get (fst (plan_apply_event now' env (s, ts))) i"
proof -
  have pid: "pl_id p = i" using row_get_Some [OF assms(2)] by simp
  have "plan_get (fst (plan_apply_event c env (s, ts))) i = Some (plan_patch_apply c patch p)" for c
    using assms(2-5) pid plan_rows.get_put [OF assms(3), of "plan_patch_apply c patch p" i]
    by (simp add: plan_apply_event_def plan_get_def apply_plan_updated_def Let_def plan_patch_apply_def)
  moreover have "pl_updated_at (plan_patch_apply c patch p) = c" for c
    by (simp add: plan_patch_apply_def)
  ultimately show ?thesis using assms(1) by (metis option.inject)
qed

definition demo_plan_patch :: plan_patch where
  "demo_plan_patch = \<lparr>pu_title = Some ''new'', pu_description = None, pu_goal = None,
     pu_success_criteria = None, pu_parent_plan_id = None\<rparr>"

theorem plan_updated_replay_clock_witness:
  "plan_get (fst (plan_apply_event 10 (demo_envelope 90 1 (PlanEv (PlanUpdated 5 demo_plan_patch)))
      (demo_plan_store, empty_task_store))) 5 \<noteq>
   plan_get (fst (plan_apply_event 99 (demo_envelope 90 1 (PlanEv (PlanUpdated 5 demo_plan_patch)))
      (demo_plan_store, empty_task_store))) 5"
  by (rule plan_updated_replay_clock [where p = "demo_plan 5 Active" and patch = demo_plan_patch])
    (simp_all add: demo_plan_store_def demo_plan_def into_plan_def keys_distinct_def
      demo_envelope_def envelope_new_def demo_plan_patch_def)

end
