(* ===== verification/Claims.thy ===== *)
theory Claims
  imports Relations
begin

text \<open>
  Task claims: \<^verbatim>\<open>crates/storage/src/claim_repo.rs\<close>, the table \<^verbatim>\<open>agent_claims\<close> with primary key
  \<^verbatim>\<open>(agent_id, task_id)\<close>. The clock is the argument \<open>now\<close>; stored stamps are RFC 3339 UTC strings whose
  order is the order of the instants, so they are instants here. A statement or a transaction is one
  step: SQLite runs writers one at a time. \<^verbatim>\<open>ORDER BY expires_at DESC LIMIT 1\<close> takes the earliest
  inserted of the rows with the greatest expiry.

  Main result: over every interleaving of acquisitions, replayed claim events, releases and sweeps at
  a clock that does not run backwards, at most one agent holds a live claim on a task.
\<close>

record claim =
  ac_agent_id :: uuid
  ac_task_id :: uuid
  ac_acquired_at :: timestamp
  ac_expires_at :: timestamp
  ac_run_id :: "uuid option"
  ac_claim_id :: uuid

type_synonym claim_table = "claim list"

datatype claim_outcome = Acquired timestamp uuid | Busy uuid timestamp

subsection \<open>Queries\<close>

definition live_claims :: "timestamp \<Rightarrow> uuid \<Rightarrow> claim_table \<Rightarrow> claim list" where
  "live_claims now t cs =
     sort_key (\<lambda>c. - ac_expires_at c) (filter (\<lambda>c. ac_task_id c = t \<and> ac_expires_at c \<ge> now) cs)"

definition is_claimed :: "timestamp \<Rightarrow> uuid \<Rightarrow> claim_table \<Rightarrow> (uuid \<times> timestamp) option" where
  "is_claimed now t cs =
     (case live_claims now t cs of [] \<Rightarrow> None | c # _ \<Rightarrow> Some (ac_agent_id c, ac_expires_at c))"

definition get_active_for_task :: "timestamp \<Rightarrow> uuid \<Rightarrow> claim_table \<Rightarrow> claim option" where
  "get_active_for_task now t cs = (case live_claims now t cs of [] \<Rightarrow> None | c # _ \<Rightarrow> Some c)"

definition is_claimed_by_other :: "timestamp \<Rightarrow> uuid \<Rightarrow> uuid \<Rightarrow> claim_table \<Rightarrow> uuid option" where
  "is_claimed_by_other now t a cs =
     (case filter (\<lambda>c. ac_agent_id c \<noteq> a) (live_claims now t cs) of
        [] \<Rightarrow> None | c # _ \<Rightarrow> Some (ac_agent_id c))"

definition get_agents_claiming_task :: "timestamp \<Rightarrow> uuid \<Rightarrow> claim_table \<Rightarrow> uuid list" where
  "get_agents_claiming_task now t cs =
     map ac_agent_id (filter (\<lambda>c. ac_task_id c = t \<and> ac_expires_at c \<ge> now) cs)"

definition list_active :: "timestamp \<Rightarrow> uuid option \<Rightarrow> task_table \<Rightarrow> claim_table \<Rightarrow> claim list" where
  "list_active now project tasks cs =
     sort_key ac_acquired_at
       (filter (\<lambda>c. ac_expires_at c \<ge> now \<and>
                    (case project of
                       None \<Rightarrow> True
                     | Some p \<Rightarrow> list_ex (\<lambda>t. t_id t = ac_task_id c \<and> t_project_id t = Some p) tasks)) cs)"

subsection \<open>Acquisition\<close>

definition other_live :: "timestamp \<Rightarrow> uuid \<Rightarrow> uuid \<Rightarrow> claim_table \<Rightarrow> bool" where
  "other_live now t a cs =
     list_ex (\<lambda>c. ac_task_id c = t \<and> ac_expires_at c \<ge> now \<and> ac_agent_id c \<noteq> a) cs"

definition claim_exists :: "uuid \<Rightarrow> uuid \<Rightarrow> claim_table \<Rightarrow> bool" where
  "claim_exists a t cs = list_ex (\<lambda>c. ac_agent_id c = a \<and> ac_task_id c = t) cs"

text \<open>The \<^verbatim>\<open>DO UPDATE\<close> arm: a runless refresh keeps the run of a row that is still live.\<close>

definition refresh_claim :: "timestamp \<Rightarrow> timestamp \<Rightarrow> uuid option \<Rightarrow> uuid \<Rightarrow> claim \<Rightarrow> claim" where
  "refresh_claim now expires_at run_id claim_id c = c
     \<lparr>ac_acquired_at := now, ac_expires_at := expires_at,
      ac_run_id := (if ac_expires_at c \<ge> now \<and> run_id = None then ac_run_id c else run_id),
      ac_claim_id := claim_id\<rparr>"

lemma refresh_claim_fields [simp]:
  "ac_agent_id (refresh_claim now e r g c) = ac_agent_id c"
  "ac_task_id (refresh_claim now e r g c) = ac_task_id c"
  "ac_expires_at (refresh_claim now e r g c) = e"
  by (simp_all add: refresh_claim_def)

text \<open>
  The compare-and-set statement of \<^verbatim>\<open>try_acquire\<close> and \<^verbatim>\<open>try_acquire_bound_recorded\<close> (the former is the
  latter with a null run): insert unless another agent holds a live claim, refresh the agent's own row,
  keep the run of a live row on a runless refresh. The flag is \<^verbatim>\<open>rows_affected\<close>.
\<close>

definition claim_cas ::
  "timestamp \<Rightarrow> uuid \<Rightarrow> uuid \<Rightarrow> timestamp \<Rightarrow> uuid option \<Rightarrow> uuid \<Rightarrow> claim_table \<Rightarrow> bool \<times> claim_table" where
  "claim_cas now a t expires_at run_id claim_id cs =
     (if other_live now t a cs then (False, cs)
      else if claim_exists a t cs
      then (True, map (\<lambda>c. if ac_agent_id c = a \<and> ac_task_id c = t
                           then refresh_claim now expires_at run_id claim_id c else c) cs)
      else (True, cs @ [\<lparr>ac_agent_id = a, ac_task_id = t, ac_acquired_at = now,
                         ac_expires_at = expires_at, ac_run_id = run_id, ac_claim_id = claim_id\<rparr>]))"

definition busy_outcome :: "timestamp \<Rightarrow> uuid \<Rightarrow> uuid \<Rightarrow> timestamp \<Rightarrow> claim_table \<Rightarrow> claim_outcome" where
  "busy_outcome now a t expires_at cs =
     (case is_claimed now t cs of
        Some (holder, e) \<Rightarrow> Busy holder e
      | None \<Rightarrow> Busy a expires_at)"

definition try_acquire ::
  "timestamp \<Rightarrow> uuid \<Rightarrow> uuid \<Rightarrow> uuid \<Rightarrow> int \<Rightarrow> claim_table \<Rightarrow> claim_outcome \<times> claim_table" where
  "try_acquire now fresh a t ttl cs =
     (let expires_at = now + ttl in
      case claim_cas now a t expires_at None fresh cs of
        (True, cs') \<Rightarrow> (Acquired expires_at fresh, cs')
      | (False, cs') \<Rightarrow> (busy_outcome now a t expires_at cs', cs'))"

text \<open>The row \<^verbatim>\<open>validated_run_plan_id\<close> reads: the run joined with its plan and its recorded owner.\<close>

record run_assignment_row =
  rar_plan_id :: uuid
  rar_status :: run_status
  rar_plan_status :: plan_status
  rar_owner_agent_id :: "uuid option"

definition validated_run_plan_id :: "run_assignment_row option \<Rightarrow> uuid \<Rightarrow> uuid result" where
  "validated_run_plan_id row owner =
     (case row of
        None \<Rightarrow> Inl (NotFound ''run '')
      | Some r \<Rightarrow>
          if rar_status r \<noteq> RunActive then Inl (Conflict ''run is not active'')
          else if rar_plan_status r \<noteq> Active then Inl (Conflict ''run plan is not active'')
          else if rar_owner_agent_id r \<noteq> Some owner
          then Inl (Forbidden ''run has no matching authenticated owner'')
          else Inr (rar_plan_id r))"

definition validate_run_assignment :: "run_assignment_row option \<Rightarrow> uuid \<Rightarrow> uuid \<Rightarrow> unit result" where
  "validate_run_assignment row owner plan_id =
     bind_result (validated_run_plan_id row owner) (\<lambda>actual.
       if actual \<noteq> plan_id then Inl (Conflict ''run belongs to a different plan'') else Inr ())"

text \<open>
  \<^verbatim>\<open>try_acquire_bound_recorded\<close>: \<open>run\<close> is the run and plan the caller names with the row the
  transaction reads for it. The event is the one appended in the same transaction.
\<close>

definition try_acquire_bound_recorded ::
  "timestamp \<Rightarrow> task_table \<Rightarrow> uuid \<Rightarrow> uuid \<Rightarrow> uuid \<Rightarrow> timestamp \<Rightarrow>
   (uuid \<times> uuid \<times> run_assignment_row option) option \<Rightarrow> claim_table \<Rightarrow>
   (claim_outcome \<times> event option \<times> claim_table) result" where
  "try_acquire_bound_recorded now tasks a t claim_id expires_at run cs =
     bind_result (case task_get tasks t of
                    None \<Rightarrow> Inl (NotFound ''task '')
                  | Some task \<Rightarrow> if is_terminal (t_status task)
                                 then Inl (Conflict ''terminal task cannot be claimed'')
                                 else Inr ()) (\<lambda>_.
     bind_result (case run of
                    None \<Rightarrow> Inr ()
                  | Some (_, plan_id, row) \<Rightarrow> validate_run_assignment row a plan_id) (\<lambda>_.
     case claim_cas now a t expires_at (map_option fst run) claim_id cs of
       (True, cs') \<Rightarrow>
         Inr (Acquired expires_at claim_id,
              Some (SessionEv (AgentClaimed a t (Some claim_id) expires_at)), cs')
     | (False, cs') \<Rightarrow> Inr (busy_outcome now a t expires_at cs', None, cs')))"

subsection \<open>Replay, release, sweep\<close>

definition acquire_until ::
  "timestamp \<Rightarrow> uuid \<Rightarrow> uuid \<Rightarrow> uuid \<Rightarrow> timestamp \<Rightarrow> claim_table \<Rightarrow> claim_table" where
  "acquire_until now a t claim_id expires_at cs =
     (if \<not> expires_at > now \<or> other_live now t a cs then cs
      else if claim_exists a t cs
      then map (\<lambda>c. if ac_agent_id c = a \<and> ac_task_id c = t \<and> ac_claim_id c = claim_id
                    then c\<lparr>ac_acquired_at := now, ac_expires_at := expires_at\<rparr> else c) cs
      else cs @ [\<lparr>ac_agent_id = a, ac_task_id = t, ac_acquired_at = now,
                  ac_expires_at = expires_at, ac_run_id = None, ac_claim_id = claim_id\<rparr>])"

definition claim_release :: "uuid \<Rightarrow> uuid \<Rightarrow> claim_table \<Rightarrow> claim_table" where
  "claim_release a t cs = filter (\<lambda>c. \<not> (ac_agent_id c = a \<and> ac_task_id c = t)) cs"

definition release_generation :: "uuid \<Rightarrow> uuid \<Rightarrow> uuid \<Rightarrow> claim_table \<Rightarrow> claim_table" where
  "release_generation a t g cs =
     filter (\<lambda>c. \<not> (ac_agent_id c = a \<and> ac_task_id c = t \<and> ac_claim_id c = g)) cs"

definition release_recorded ::
  "uuid \<Rightarrow> uuid \<Rightarrow> uuid \<Rightarrow> claim_table \<Rightarrow> event option \<times> claim_table" where
  "release_recorded a t g cs =
     (if list_ex (\<lambda>c. ac_agent_id c = a \<and> ac_task_id c = t \<and> ac_claim_id c = g) cs
      then (Some (SessionEv (AgentReleased a t (Some g))), release_generation a t g cs)
      else (None, cs))"

definition claim_apply_event :: "timestamp \<Rightarrow> event \<Rightarrow> claim_table \<Rightarrow> claim_table" where
  "claim_apply_event now e cs =
     (case e of
        SessionEv (AgentClaimed a t (Some g) expires_at) \<Rightarrow> acquire_until now a t g expires_at cs
      | SessionEv (AgentReleased a t (Some g)) \<Rightarrow> release_generation a t g cs
      | SessionEv (AgentReleased a t None) \<Rightarrow> claim_release a t cs
      | _ \<Rightarrow> cs)"

definition sweep_expired :: "timestamp \<Rightarrow> claim_table \<Rightarrow> (uuid \<times> uuid) list \<times> claim_table" where
  "sweep_expired now cs =
     (map (\<lambda>c. (ac_agent_id c, ac_task_id c)) (filter (\<lambda>c. ac_expires_at c < now) cs),
      filter (\<lambda>c. \<not> ac_expires_at c < now) cs)"

text \<open>
  \<^verbatim>\<open>record_task_lifecycle\<close>: the claims of every closed or deleted task are released in the transaction
  that appends the batch; the release events follow the batch.
\<close>

definition cleanup_task_of :: "event \<Rightarrow> uuid option" where
  "cleanup_task_of e =
     (case e of TaskEv (TaskClosed t _ _) \<Rightarrow> Some t | TaskEv (TaskDeleted t) \<Rightarrow> Some t | _ \<Rightarrow> None)"

definition record_task_lifecycle :: "event list \<Rightarrow> claim_table \<Rightarrow> event list \<times> claim_table" where
  "record_task_lifecycle events cs =
     (let cleanup = rev (remdups (rev (List.map_filter cleanup_task_of events)));
          released = concat (map (\<lambda>t. filter (\<lambda>c. ac_task_id c = t) cs) cleanup)
      in (events @ map (\<lambda>c. SessionEv (AgentReleased (ac_agent_id c) (ac_task_id c)
                                          (Some (ac_claim_id c)))) released,
          filter (\<lambda>c. ac_task_id c \<notin> set cleanup) cs))"

subsection \<open>Exclusion\<close>

definition claim_key :: "claim \<Rightarrow> uuid \<times> uuid" where
  "claim_key c = (ac_agent_id c, ac_task_id c)"

definition exclusive_at :: "timestamp \<Rightarrow> claim_table \<Rightarrow> bool" where
  "exclusive_at now cs \<longleftrightarrow>
     (\<forall>c \<in> set cs. \<forall>d \<in> set cs. ac_task_id c = ac_task_id d \<and> ac_expires_at c \<ge> now \<and> ac_expires_at d \<ge> now
        \<longrightarrow> ac_agent_id c = ac_agent_id d)"

definition claims_ok :: "timestamp \<Rightarrow> claim_table \<Rightarrow> bool" where
  "claims_ok now cs \<longleftrightarrow> distinct (map claim_key cs) \<and> exclusive_at now cs"

lemma claims_ok_agent:
  "claims_ok now cs \<Longrightarrow> c \<in> set cs \<Longrightarrow> d \<in> set cs \<Longrightarrow> ac_task_id c = ac_task_id d \<Longrightarrow>
   ac_expires_at c \<ge> now \<Longrightarrow> ac_expires_at d \<ge> now \<Longrightarrow> ac_agent_id c = ac_agent_id d"
  unfolding claims_ok_def exclusive_at_def by blast

lemma claims_ok_later: "claims_ok now cs \<Longrightarrow> now \<le> now' \<Longrightarrow> claims_ok now' cs"
  unfolding claims_ok_def exclusive_at_def using order_trans by blast

lemma claims_ok_filter: "claims_ok now cs \<Longrightarrow> claims_ok now (filter P cs)"
  by (auto simp: claims_ok_def exclusive_at_def distinct_map_filter)

text \<open>A rewrite of the agent's own rows keeps the invariant when no other agent is live on the task.\<close>

lemma claims_ok_map_own:
  assumes ok: "claims_ok now cs" and free: "\<not> other_live now t a cs"
    and own: "\<And>c. c \<in> set cs \<Longrightarrow> claim_key (f c) = claim_key c"
    and same: "\<And>c. c \<in> set cs \<Longrightarrow> claim_key c \<noteq> (a, t) \<Longrightarrow> f c = c"
  shows "claims_ok now (map f cs)"
proof -
  have keys: "map claim_key (map f cs) = map claim_key cs" using own by simp
  have "exclusive_at now (map f cs)"
    unfolding exclusive_at_def
  proof (intro ballI impI)
    fix c' d'
    assume "c' \<in> set (map f cs)" "d' \<in> set (map f cs)"
    then obtain c d where c: "c \<in> set cs" "c' = f c" and d: "d \<in> set cs" "d' = f d" by auto
    assume live: "ac_task_id c' = ac_task_id d' \<and> ac_expires_at c' \<ge> now \<and> ac_expires_at d' \<ge> now"
    have kc: "claim_key c' = claim_key c" and kd: "claim_key d' = claim_key d" using own c d by auto
    have other: "claim_key x = (a, t)"
      if "x \<in> set cs" "ac_task_id x = t" "ac_expires_at (f x) \<ge> now" for x
    proof (rule ccontr)
      assume key: "claim_key x \<noteq> (a, t)"
      then have "f x = x" using same that(1) by simp
      then show False using that free key by (auto simp: other_live_def list_ex_iff claim_key_def)
    qed
    show "ac_agent_id c' = ac_agent_id d'"
    proof (cases "ac_task_id c = t")
      case True
      then show ?thesis using other c d live kc kd by (auto simp: claim_key_def)
    next
      case False
      then have "f c = c" "f d = d" using same c d live kc kd by (auto simp: claim_key_def)
      then show ?thesis using claims_ok_agent [OF ok c(1) d(1)] live c d by simp
    qed
  qed
  then show ?thesis using ok keys by (simp only: claims_ok_def)
qed

lemma claims_ok_append_own:
  assumes ok: "claims_ok now cs" and free: "\<not> other_live now t a cs" and new: "\<not> claim_exists a t cs"
    and c: "claim_key c = (a, t)"
  shows "claims_ok now (cs @ [c])"
proof -
  have fresh: "claim_key x \<noteq> (a, t)" if "x \<in> set cs" for x
    using that new by (auto simp: claim_exists_def list_ex_iff claim_key_def)
  have dead: "\<not> (ac_task_id x = t \<and> ac_expires_at x \<ge> now)" if "x \<in> set cs" for x
    using that free fresh [OF that] by (auto simp: other_live_def list_ex_iff claim_key_def)
  have ct: "ac_task_id c = t" using c by (simp add: claim_key_def)
  have "claim_key c \<notin> claim_key ` set cs" using fresh c by (metis imageE)
  then have "distinct (map claim_key (cs @ [c]))" using ok by (simp add: claims_ok_def)
  moreover have "exclusive_at now (cs @ [c])"
    unfolding exclusive_at_def
  proof (intro ballI impI)
    fix x y
    assume x: "x \<in> set (cs @ [c])" and y: "y \<in> set (cs @ [c])"
      and live: "ac_task_id x = ac_task_id y \<and> ac_expires_at x \<ge> now \<and> ac_expires_at y \<ge> now"
    show "ac_agent_id x = ac_agent_id y"
    proof (cases "x = c \<or> y = c")
      case True
      then have "x = c" "y = c" using x y live dead ct by auto
      then show ?thesis by simp
    next
      case False
      then show ?thesis using claims_ok_agent [OF ok, of x y] x y live by simp
    qed
  qed
  ultimately show ?thesis by (simp add: claims_ok_def)
qed

lemma claim_cas_ok:
  "claims_ok now cs \<Longrightarrow> claim_cas now a t e r g cs = (b, cs') \<Longrightarrow> claims_ok now cs'"
  by (auto simp: claim_cas_def claim_key_def split: if_splits
      intro!: claims_ok_map_own claims_ok_append_own)

lemma acquire_until_ok: "claims_ok now cs \<Longrightarrow> claims_ok now (acquire_until now a t g e cs)"
  by (auto simp: acquire_until_def claim_key_def intro!: claims_ok_map_own claims_ok_append_own)

lemma claim_apply_event_ok: "claims_ok now cs \<Longrightarrow> claims_ok now (claim_apply_event now e cs)"
  by (auto simp: claim_apply_event_def acquire_until_ok release_generation_def claim_release_def
      claims_ok_filter split: event.splits session_event.splits option.splits)

lemma try_acquire_ok: "claims_ok now cs \<Longrightarrow> try_acquire now fresh a t ttl cs = (out, cs') \<Longrightarrow> claims_ok now cs'"
  using claim_cas_ok by (fastforce simp: try_acquire_def Let_def split: prod.splits bool.splits)

lemma try_acquire_bound_ok:
  "claims_ok now cs \<Longrightarrow> try_acquire_bound_recorded now tasks a t g e run cs = Inr (out, ev, cs') \<Longrightarrow>
   claims_ok now cs'"
  using claim_cas_ok
  by (fastforce simp: try_acquire_bound_recorded_def bind_result_Inr_iff split: prod.splits bool.splits)

subsection \<open>Reachable claim tables\<close>

inductive claim_reach :: "timestamp \<Rightarrow> claim_table \<Rightarrow> bool" where
  start: "claim_reach now []"
| tick: "claim_reach now cs \<Longrightarrow> now \<le> now' \<Longrightarrow> claim_reach now' cs"
| acquire: "claim_reach now cs \<Longrightarrow> try_acquire now fresh a t ttl cs = (out, cs') \<Longrightarrow> claim_reach now cs'"
| acquire_bound: "claim_reach now cs \<Longrightarrow>
    try_acquire_bound_recorded now tasks a t g e run cs = Inr (out, ev, cs') \<Longrightarrow> claim_reach now cs'"
| replay: "claim_reach now cs \<Longrightarrow> claim_reach now (claim_apply_event now ev cs)"
| release_own: "claim_reach now cs \<Longrightarrow> claim_reach now (snd (release_recorded a t g cs))"
| sweep: "claim_reach now cs \<Longrightarrow> claim_reach now (snd (sweep_expired now cs))"
| lifecycle: "claim_reach now cs \<Longrightarrow> claim_reach now (snd (record_task_lifecycle evs cs))"

lemma claim_reach_ok: "claim_reach now cs \<Longrightarrow> claims_ok now cs"
proof (induction rule: claim_reach.induct)
  case (start now)
  show ?case by (simp add: claims_ok_def exclusive_at_def)
next
  case tick
  then show ?case using claims_ok_later by blast
next
  case acquire
  then show ?case using try_acquire_ok by blast
next
  case acquire_bound
  then show ?case using try_acquire_bound_ok by blast
next
  case replay
  then show ?case by (simp add: claim_apply_event_ok)
qed (simp_all add: claims_ok_filter release_recorded_def release_generation_def
      sweep_expired_def record_task_lifecycle_def Let_def)

subsection \<open>Properties\<close>

text \<open>
  C22: a task is never held by two agents. Whatever interleaving of acquisitions, replayed claim
  events, releases, sweeps and task closures led to the table, two live claims on one task are the
  same row.
\<close>

theorem claim_mutual_exclusion:
  assumes "claim_reach now cs" and "c \<in> set cs" and "d \<in> set cs"
    and "ac_task_id c = ac_task_id d" and "ac_expires_at c \<ge> now" and "ac_expires_at d \<ge> now"
  shows "c = d"
proof -
  have ok: "claims_ok now cs" using assms(1) by (rule claim_reach_ok)
  then have "claim_key c = claim_key d"
    using claims_ok_agent [OF ok assms(2-6)] assms(4) by (simp add: claim_key_def)
  moreover have "inj_on claim_key (set cs)" using ok by (simp add: claims_ok_def distinct_map)
  ultimately show ?thesis using assms(2,3) by (auto dest: inj_onD)
qed

definition demo_claim :: claim where
  "demo_claim = \<lparr>ac_agent_id = 7, ac_task_id = 1, ac_acquired_at = 100, ac_expires_at = 160,
                  ac_run_id = None, ac_claim_id = 50\<rparr>"

lemma demo_claim_acquired: "try_acquire 100 50 7 1 60 [] = (Acquired 160 50, [demo_claim])"
  by (simp add: try_acquire_def claim_cas_def other_live_def claim_exists_def demo_claim_def)

theorem claim_mutual_exclusion_witness:
  "claim_reach 100 [demo_claim] \<and> (THE c. c \<in> set [demo_claim] \<and> ac_task_id c = 1 \<and> ac_expires_at c \<ge> 100) = demo_claim"
proof -
  have reach: "claim_reach 100 [demo_claim]"
    by (rule claim_reach.acquire [OF claim_reach.start demo_claim_acquired])
  have "(THE c. c \<in> set [demo_claim] \<and> ac_task_id c = 1 \<and> ac_expires_at c \<ge> 100) = demo_claim"
  proof (rule the_equality)
    show "demo_claim \<in> set [demo_claim] \<and> ac_task_id demo_claim = 1 \<and> 100 \<le> ac_expires_at demo_claim"
      by (simp add: demo_claim_def)
    then show "c = demo_claim" if "c \<in> set [demo_claim] \<and> ac_task_id c = 1 \<and> ac_expires_at c \<ge> 100" for c
      using claim_mutual_exclusion [OF reach, of c demo_claim] that by simp
  qed
  then show ?thesis using reach by simp
qed

text \<open>
  An acquisition is exclusive and reports the truth. With a well-formed table and a non-negative
  time to live, \<^verbatim>\<open>try_acquire\<close> succeeds exactly when no other agent is live on the task; on success
  the agent is the only one claiming the task; on refusal the table is unchanged and the reported
  holder is another agent's live claim.
\<close>

theorem try_acquire_correct:
  assumes ok: "claims_ok now cs" and ttl: "0 \<le> ttl"
    and run: "try_acquire now fresh a t ttl cs = (out, cs')"
  shows "(\<not> other_live now t a cs \<and> out = Acquired (now + ttl) fresh \<and>
            get_agents_claiming_task now t cs' = [a]) \<or>
         (other_live now t a cs \<and> cs' = cs \<and>
            (\<exists>h e. out = Busy h e \<and> h \<noteq> a \<and> now \<le> e \<and> is_claimed_by_other now t a cs = Some h))"
proof (cases "other_live now t a cs")
  case False
  have out: "out = Acquired (now + ttl) fresh"
    and cas: "claim_cas now a t (now + ttl) None fresh cs = (True, cs')"
    using run False by (auto simp: try_acquire_def claim_cas_def Let_def split: if_splits)
  have ok': "claims_ok now cs'" using claim_cas_ok [OF ok cas] .
  let ?live = "filter (\<lambda>c. ac_task_id c = t \<and> ac_expires_at c \<ge> now) cs'"
  have own: "\<exists>c \<in> set ?live. ac_agent_id c = a"
  proof (cases "claim_exists a t cs")
    case True
    then obtain c where "c \<in> set cs" "ac_agent_id c = a" "ac_task_id c = t"
      by (auto simp: claim_exists_def list_ex_iff)
    then have "refresh_claim now (now + ttl) None fresh c \<in> set ?live"
      using cas False True ttl by (auto simp: claim_cas_def)
    moreover have "ac_agent_id (refresh_claim now (now + ttl) None fresh c) = a"
      using \<open>ac_agent_id c = a\<close> by simp
    ultimately show ?thesis by blast
  next
    case none: False
    then have "cs' = cs @ [\<lparr>ac_agent_id = a, ac_task_id = t, ac_acquired_at = now,
        ac_expires_at = now + ttl, ac_run_id = None, ac_claim_id = fresh\<rparr>]"
      using cas False by (simp add: claim_cas_def)
    then show ?thesis using ttl by simp
  qed
  obtain w where w: "w \<in> set ?live" "ac_agent_id w = a" using own by blast
  have keys: "claim_key c = (a, t)" if "c \<in> set ?live" for c
    using w that claims_ok_agent [OF ok', of c w] by (simp add: claim_key_def)
  have "distinct (map claim_key ?live)" using ok' by (simp add: claims_ok_def distinct_map_filter)
  then have "length ?live \<le> 1"
    using keys by (cases ?live rule: remdups_adj.cases) auto
  then obtain c where c: "?live = [c]" using own by (cases ?live) auto
  then have "claim_key c = (a, t)" using keys [of c] by (metis list.set_intros(1))
  then have "map ac_agent_id ?live = [a]" using c by (simp add: claim_key_def)
  then show ?thesis using False out by (simp add: get_agents_claiming_task_def)
next
  case True
  let ?live = "live_claims now t cs"
  have unchanged: "cs' = cs" and out: "out = busy_outcome now a t (now + ttl) cs"
    using run True by (auto simp: try_acquire_def claim_cas_def Let_def)
  obtain w where w: "w \<in> set ?live" "ac_agent_id w \<noteq> a"
    using True by (auto simp: other_live_def list_ex_iff live_claims_def)
  have agents: "ac_agent_id c = ac_agent_id w" if "c \<in> set ?live" for c
    using that w claims_ok_agent [OF ok, of c w] by (simp add: live_claims_def)
  obtain c rest where c: "?live = c # rest" using w by (cases ?live) auto
  have "c \<in> set ?live" using c by simp
  then have "ac_expires_at c \<ge> now" by (simp add: live_claims_def)
  moreover have "ac_agent_id x \<noteq> a" if "x \<in> set ?live" for x
    using agents [OF that] w(2) by simp
  then have "filter (\<lambda>c. ac_agent_id c \<noteq> a) ?live = ?live" by (simp only: filter_id_conv) blast
  moreover have "ac_agent_id c \<noteq> a" using agents [of c] c w(2) by simp
  ultimately show ?thesis
    using True unchanged out c by (simp add: busy_outcome_def is_claimed_def is_claimed_by_other_def)
qed

theorem try_acquire_correct_witness:
  "claims_ok 100 [demo_claim] \<and> (0::int) \<le> 60 \<and>
   (\<exists>out cs'. try_acquire 100 51 8 1 60 [demo_claim] = (out, cs') \<and> cs' = [demo_claim])"
proof -
  have ok: "claims_ok 100 [demo_claim]" by (simp add: claims_ok_def exclusive_at_def)
  obtain out cs' where run: "try_acquire 100 51 8 1 60 [demo_claim] = (out, cs')" by fastforce
  have "other_live 100 1 8 [demo_claim]" by (simp add: other_live_def demo_claim_def)
  then show ?thesis using try_acquire_correct [OF ok _ run] ok run by auto
qed

end
