(* ===== verification/Plan_Concurrency.thy ===== *)
theory Plan_Concurrency
  imports Plan_Store Claims
begin

text \<open>
  \<^verbatim>\<open>crates/core/src/plan_concurrency.rs\<close>: the next-task resolver of a plan and the guard on the
  \<^verbatim>\<open>parent_plan_id\<close> chain. Repositories are the tables of the store theories; \<open>relations\<close> is optional as
  in the resolver's struct. A claim time-to-live is a number of seconds within chrono's range.
\<close>

subsection \<open>NextTaskResolver\<close>

definition MAX_PARENT_DEPTH :: nat where
  "MAX_PARENT_DEPTH = 3"

record next_task =
  nx_task_id :: uuid
  nx_position :: "32 word"
  nx_claim_expires_at :: "timestamp option"

definition deps_ok :: "task_table \<Rightarrow> uuid list \<Rightarrow> bool" where
  "deps_ok tasks deps = list_all (\<lambda>d. case task_get tasks d of Some t \<Rightarrow> t_status t = Done | None \<Rightarrow> False) deps"

definition resolver_eligible ::
  "task_table \<Rightarrow> relation_table option \<Rightarrow> claim_table \<Rightarrow> timestamp \<Rightarrow> uuid \<Rightarrow> plan_task \<Rightarrow> bool" where
  "resolver_eligible tasks relations claims now agent pt =
     (case task_get tasks (pt_task_id pt) of
        None \<Rightarrow> False
      | Some t \<Rightarrow>
          if is_terminal (t_status t) \<or> t_status t = Inbox then False
          else if \<not> deps_ok tasks (pt_depends_on pt) then False
          else if (case relations of
                     Some rels \<Rightarrow> list_active_blockers rels tasks (pt_task_id pt) \<noteq> []
                   | None \<Rightarrow> False) then False
          else is_claimed_by_other now (pt_task_id pt) agent claims = None)"

definition next_in_plan ::
  "plan_store \<Rightarrow> task_table \<Rightarrow> relation_table option \<Rightarrow> claim_table \<Rightarrow> timestamp \<Rightarrow>
   uuid \<Rightarrow> uuid \<Rightarrow> int option \<Rightarrow> next_task option result" where
  "next_in_plan s tasks relations claims now plan_id agent claim_ttl =
     (case plan_get s plan_id of
        None \<Rightarrow> Inl (NotFound ''plan '')
      | Some p \<Rightarrow>
          if pl_status p \<noteq> Active then Inr None
          else Inr (map_option (\<lambda>pt. \<lparr>nx_task_id = pt_task_id pt, nx_position = pt_position pt,
                                     nx_claim_expires_at = map_option (\<lambda>ttl. now + ttl) claim_ttl\<rparr>)
                 (find (resolver_eligible tasks relations claims now agent) (list_tasks_ordered s plan_id))))"

subsection \<open>detect\_parent\_cycle\<close>

function parent_walk :: "plan_store \<Rightarrow> uuid \<Rightarrow> uuid \<Rightarrow> nat \<Rightarrow> unit result" where
  "parent_walk s plan_id current hops =
     (let hops = hops + 1 in
      if hops > MAX_PARENT_DEPTH then Inl (Validation ''cycle_detected'')
      else case plan_get s current of
             None \<Rightarrow> Inr ()
           | Some p \<Rightarrow>
               (case pl_parent_plan_id p of
                  None \<Rightarrow> Inr ()
                | Some parent \<Rightarrow>
                    if parent = plan_id then Inl (Validation ''cycle_detected'')
                    else parent_walk s plan_id parent hops))"
  by pat_completeness auto
termination by (relation "measure (\<lambda>(_, _, _, hops). MAX_PARENT_DEPTH - hops)") auto

declare parent_walk.simps [simp del]

definition detect_parent_cycle :: "plan_store \<Rightarrow> uuid \<Rightarrow> uuid \<Rightarrow> unit result" where
  "detect_parent_cycle s plan_id candidate =
     (if candidate = plan_id then Inl (Validation ''cycle_detected'')
      else parent_walk s plan_id candidate 0)"

subsection \<open>The parent chain\<close>

definition parent_of :: "plan_store \<Rightarrow> uuid \<Rightarrow> uuid option" where
  "parent_of s i = Option.bind (plan_get s i) pl_parent_plan_id"

definition parent_edges :: "plan_store \<Rightarrow> (uuid \<times> uuid) set" where
  "parent_edges s = {(i, q). parent_of s i = Some q}"

definition reparent :: "uuid \<Rightarrow> uuid option \<Rightarrow> plan_store \<Rightarrow> plan_store" where
  "reparent i q s = s\<lparr>ps_plans := row_modify pl_id i (\<lambda>p. p\<lparr>pl_parent_plan_id := q\<rparr>) (ps_plans s)\<rparr>"

text \<open>The chain of ancestors from a plan upwards, cut after \<open>n\<close> plans.\<close>

fun ancestors :: "plan_store \<Rightarrow> nat \<Rightarrow> uuid \<Rightarrow> uuid list" where
  "ancestors s 0 i = []"
| "ancestors s (Suc n) i = i # (case parent_of s i of None \<Rightarrow> [] | Some q \<Rightarrow> ancestors s n q)"

lemma parent_walk_step:
  "parent_walk s i c hops =
     (if hops + 1 > MAX_PARENT_DEPTH then Inl (Validation ''cycle_detected'')
      else case parent_of s c of
             None \<Rightarrow> Inr ()
           | Some q \<Rightarrow> if q = i then Inl (Validation ''cycle_detected'') else parent_walk s i q (hops + 1))"
  by (subst parent_walk.simps) (auto simp: parent_of_def Let_def split: option.splits)

lemma parent_walk_Inr:
  assumes "parent_walk s i c hops = Inr ()" and "c \<noteq> i"
  shows "(c, i) \<notin> (parent_edges s)\<^sup>* \<and> length (ancestors s n c) + hops \<le> MAX_PARENT_DEPTH"
  using assms
proof (induction s i c hops arbitrary: n rule: parent_walk.induct)
  case (1 s i c hops)
  have depth: "\<not> hops + 1 > MAX_PARENT_DEPTH"
    using "1.prems"(1) by (auto simp: parent_walk_step [of s i c hops])
  show ?case
  proof (cases "parent_of s c")
    case None
    have "(c, i) \<notin> (parent_edges s)\<^sup>*"
      using None "1.prems"(2) by (auto simp: parent_edges_def elim: converse_rtranclE)
    then show ?thesis using None depth by (cases n) simp_all
  next
    case (Some q)
    then obtain p where p: "plan_get s c = Some p" "pl_parent_plan_id p = Some q"
      by (auto simp: parent_of_def bind_eq_Some_conv)
    have ne: "q \<noteq> i" and walk: "parent_walk s i q (hops + 1) = Inr ()"
      using "1.prems"(1) depth Some by (auto simp: parent_walk_step [of s i c hops] split: if_splits)
    note ih = "1.IH" [OF refl depth p(1) p(2) ne walk ne]
    have "(c, i) \<notin> (parent_edges s)\<^sup>*"
    proof
      assume "(c, i) \<in> (parent_edges s)\<^sup>*"
      then obtain b where "(c, b) \<in> parent_edges s" "(b, i) \<in> (parent_edges s)\<^sup>*"
        using "1.prems"(2) by (auto elim: converse_rtranclE)
      then show False using ih Some by (auto simp: parent_edges_def)
    qed
    moreover have "length (ancestors s n c) + hops \<le> MAX_PARENT_DEPTH"
      using ih [of "n - 1"] Some depth by (cases n) auto
    ultimately show ?thesis ..
  qed
qed

lemma parent_edges_reparent:
  "parent_edges (reparent i (Some q) s) \<subseteq> insert (i, q) (parent_edges s)"
  by (auto simp: parent_edges_def parent_of_def plan_get_def reparent_def row_get_modify
      split: option.splits if_splits simp: bind_eq_Some_conv)

subsection \<open>Properties\<close>

text \<open>
  A parent accepted by \<^verbatim>\<open>detect_parent_cycle\<close> never closes a cycle: if the parent chain was
  acyclic before, it is acyclic after the plan is re-parented; and the accepted parent has at most
  \<^verbatim>\<open>MAX_PARENT_DEPTH\<close> plans on its own chain.
\<close>

theorem detect_parent_cycle_sound:
  assumes ok: "detect_parent_cycle s i q = Inr ()" and acyc: "acyclic (parent_edges s)"
  shows "acyclic (parent_edges (reparent i (Some q) s)) \<and> length (ancestors s n q) \<le> MAX_PARENT_DEPTH"
proof -
  have ne: "q \<noteq> i" and walk: "parent_walk s i q 0 = Inr ()"
    using ok by (auto simp: detect_parent_cycle_def split: if_splits)
  note chain = parent_walk_Inr [OF walk ne]
  have "acyclic (insert (i, q) (parent_edges s))" using acyc chain by (simp add: acyclic_insert)
  then have "acyclic (parent_edges (reparent i (Some q) s))"
    using parent_edges_reparent by (rule acyclic_subset)
  then show ?thesis using chain [of n] by simp
qed

definition demo_plan_child :: "uuid \<Rightarrow> uuid option \<Rightarrow> plan" where
  "demo_plan_child i q = (demo_plan i Active)\<lparr>pl_parent_plan_id := q\<rparr>"

lemmas demo_plan_simps = demo_plan_child_def demo_plan_def into_plan_def new_plan_def

lemma parent_edges_plans:
  "keys_distinct pl_id (ps_plans s) \<Longrightarrow>
   parent_edges s = {(pl_id p, q) | p q. p \<in> set (ps_plans s) \<and> pl_parent_plan_id p = Some q}"
  by (auto simp: parent_edges_def parent_of_def plan_get_def bind_eq_Some_conv
      dest: row_get_Some row_get_mem)

theorem detect_parent_cycle_sound_witness:
  "detect_parent_cycle \<lparr>ps_plans = [demo_plan_child 1 None, demo_plan_child 2 None], ps_plan_tasks = [], ps_sources = []\<rparr> 2 1 = Inr () \<and>
   acyclic (parent_edges (reparent 2 (Some 1)
     \<lparr>ps_plans = [demo_plan_child 1 None, demo_plan_child 2 None], ps_plan_tasks = [], ps_sources = []\<rparr>))"
proof -
  let ?s = "\<lparr>ps_plans = [demo_plan_child 1 None, demo_plan_child 2 None], ps_plan_tasks = [], ps_sources = []\<rparr>"
  have ok: "detect_parent_cycle ?s 2 1 = Inr ()"
    by (simp add: detect_parent_cycle_def parent_walk.simps plan_get_def demo_plan_simps MAX_PARENT_DEPTH_def)
  have "keys_distinct pl_id (ps_plans ?s)" by (simp add: keys_distinct_def demo_plan_simps)
  then have "parent_edges ?s = {}" by (auto simp: parent_edges_plans demo_plan_simps)
  then have "acyclic (parent_edges ?s)" by (simp add: acyclic_def)
  then show ?thesis using detect_parent_cycle_sound [OF ok] ok by blast
qed

text \<open>
  The depth limit looks upwards only. A plan that already has sub-plans may be re-parented under a
  root: the check accepts, and the chain above the deepest sub-plan is then longer than
  \<^verbatim>\<open>MAX_PARENT_DEPTH\<close> allows for a new plan.
\<close>

theorem parent_depth_exceeded:
  "\<exists>s i q z. detect_parent_cycle s i q = Inr () \<and> acyclic (parent_edges s) \<and>
     length (ancestors s 10 z) \<le> MAX_PARENT_DEPTH + 1 \<and>
     length (ancestors (reparent i (Some q) s) 10 z) > MAX_PARENT_DEPTH + 1"
proof -
  let ?s = "\<lparr>ps_plans = [demo_plan_child 1 None, demo_plan_child 2 None, demo_plan_child 3 (Some 2),
     demo_plan_child 4 (Some 3), demo_plan_child 5 (Some 4)], ps_plan_tasks = [], ps_sources = []\<rparr>"
  have ok: "detect_parent_cycle ?s 2 1 = Inr ()"
    by (simp add: detect_parent_cycle_def parent_walk.simps plan_get_def demo_plan_simps MAX_PARENT_DEPTH_def)
  have "keys_distinct pl_id (ps_plans ?s)" by (simp add: keys_distinct_def demo_plan_simps)
  then have "parent_edges ?s \<subseteq> {(i, q). q < i}" by (auto simp: parent_edges_plans demo_plan_simps)
  moreover have "acyclic {(i, q). q < (i :: nat)}"
    by (rule acyclicI_order [where f = "\<lambda>x. x"]) auto
  ultimately have "acyclic (parent_edges ?s)" using acyclic_subset by blast
  moreover have "length (ancestors ?s 10 5) = 4"
    by (simp add: parent_of_def plan_get_def demo_plan_simps eval_nat_numeral)
  moreover have "length (ancestors (reparent 2 (Some 1) ?s) 10 5) = 5"
    by (simp add: parent_of_def plan_get_def demo_plan_simps reparent_def row_modify_def eval_nat_numeral)
  ultimately have "detect_parent_cycle ?s 2 1 = Inr () \<and> acyclic (parent_edges ?s) \<and>
      length (ancestors ?s 10 5) \<le> MAX_PARENT_DEPTH + 1 \<and>
      length (ancestors (reparent 2 (Some 1) ?s) 10 5) > MAX_PARENT_DEPTH + 1"
    using ok by (simp add: MAX_PARENT_DEPTH_def)
  then show ?thesis by blast
qed

subsection \<open>What the resolver promises\<close>

text \<open>Readiness of a member, stated over the rows of the tables.\<close>

definition member_ready ::
  "task_table \<Rightarrow> relation_table \<Rightarrow> claim_table \<Rightarrow> timestamp \<Rightarrow> uuid \<Rightarrow> plan_task \<Rightarrow> bool" where
  "member_ready tasks rels claims now agent pt \<longleftrightarrow>
     (\<exists>t. task_get tasks (pt_task_id pt) = Some t \<and> t_status t \<in> {Todo, InProgress, InReview}) \<and>
     (\<forall>d \<in> set (pt_depends_on pt). \<exists>t. task_get tasks d = Some t \<and> t_status t = Done) \<and>
     (\<forall>r \<in> set rels. rel_kind r = Blocks \<and> rel_to r = pt_task_id pt \<longrightarrow>
        (\<forall>b. task_get tasks (rel_from r) = Some b \<longrightarrow> t_status b = Done)) \<and>
     (\<forall>c \<in> set claims. ac_task_id c = pt_task_id pt \<and> ac_agent_id c \<noteq> agent \<longrightarrow> ac_expires_at c < now)"

lemma list_active_blockers_Nil_iff:
  "list_active_blockers rels tasks t = [] \<longleftrightarrow>
     (\<forall>r \<in> set rels. rel_kind r = Blocks \<and> rel_to r = t \<longrightarrow>
        (\<forall>b. task_get tasks (rel_from r) = Some b \<longrightarrow> t_status b = Done))"
  by (auto simp: list_active_blockers_def filter_empty_conv split: option.splits)

lemma is_claimed_by_other_None_iff:
  "is_claimed_by_other now t a cs = None \<longleftrightarrow>
     (\<forall>c \<in> set cs. ac_task_id c = t \<and> ac_agent_id c \<noteq> a \<longrightarrow> ac_expires_at c < now)"
proof -
  have "is_claimed_by_other now t a cs = None \<longleftrightarrow> filter (\<lambda>c. ac_agent_id c \<noteq> a) (live_claims now t cs) = []"
    by (simp add: is_claimed_by_other_def split: list.splits)
  then show ?thesis by (auto simp: filter_empty_conv live_claims_def)
qed

lemma resolver_eligible_iff:
  "resolver_eligible tasks (Some rels) claims now agent pt \<longleftrightarrow> member_ready tasks rels claims now agent pt"
proof (cases "task_get tasks (pt_task_id pt)")
  case (Some t)
  have st: "\<not> (is_terminal (t_status t) \<or> t_status t = Inbox) \<longleftrightarrow> t_status t \<in> {Todo, InProgress, InReview}"
    by (cases "t_status t") simp_all
  have deps: "deps_ok tasks ds \<longleftrightarrow> (\<forall>d \<in> set ds. \<exists>t. task_get tasks d = Some t \<and> t_status t = Done)" for ds
    by (auto simp: deps_ok_def list_all_iff split: option.splits)
  show ?thesis
    unfolding resolver_eligible_def member_ready_def deps list_active_blockers_Nil_iff
      is_claimed_by_other_None_iff
    using Some st by (simp add: deps list_active_blockers_Nil_iff is_claimed_by_other_None_iff) (cases "t_status t"; simp; blast)
qed (simp add: resolver_eligible_def member_ready_def)

text \<open>
  The resolver hands out the right task. For an active plan the answer is the first member by
  position that is ready: its task exists and is open, every dependency is done, no blocker is
  unfinished, no other agent holds a live claim; it answers nothing only when no member is ready.
\<close>

theorem next_task_first_ready:
  assumes plan: "plan_get s plan_id = Some p" and act: "pl_status p = Active"
  shows "(\<exists>before pt after. list_tasks_ordered s plan_id = before @ pt # after \<and>
            next_in_plan s tasks (Some rels) claims now plan_id agent ttl =
              Inr (Some \<lparr>nx_task_id = pt_task_id pt, nx_position = pt_position pt,
                         nx_claim_expires_at = map_option (\<lambda>t. now + t) ttl\<rparr>) \<and>
            member_ready tasks rels claims now agent pt \<and>
            (\<forall>x \<in> set before. \<not> member_ready tasks rels claims now agent x)) \<or>
         (next_in_plan s tasks (Some rels) claims now plan_id agent ttl = Inr None \<and>
            (\<forall>x \<in> set (list_tasks_ordered s plan_id). \<not> member_ready tasks rels claims now agent x))"
proof (cases "find (resolver_eligible tasks (Some rels) claims now agent) (list_tasks_ordered s plan_id)")
  case None
  then have "next_in_plan s tasks (Some rels) claims now plan_id agent ttl = Inr None"
    using plan act by (simp add: next_in_plan_def)
  moreover have "\<forall>x \<in> set (list_tasks_ordered s plan_id). \<not> member_ready tasks rels claims now agent x"
    using None by (simp add: find_None_iff resolver_eligible_iff)
  ultimately show ?thesis by blast
next
  case (Some pt)
  let ?l = "list_tasks_ordered s plan_id"
  obtain k where k: "k < length ?l" "?l ! k = pt" "resolver_eligible tasks (Some rels) claims now agent pt"
    "\<And>j. j < k \<Longrightarrow> \<not> resolver_eligible tasks (Some rels) claims now agent (?l ! j)"
    using Some by (auto simp: find_Some_iff)
  have split: "?l = take k ?l @ pt # drop (Suc k) ?l" using k(1,2) by (metis id_take_nth_drop)
  have before: "\<forall>x \<in> set (take k ?l). \<not> member_ready tasks rels claims now agent x"
    using k by (auto simp: in_set_conv_nth resolver_eligible_iff)
  have ready: "member_ready tasks rels claims now agent pt" using k(3) by (simp add: resolver_eligible_iff)
  have ans: "next_in_plan s tasks (Some rels) claims now plan_id agent ttl =
      Inr (Some \<lparr>nx_task_id = pt_task_id pt, nx_position = pt_position pt,
                 nx_claim_expires_at = map_option (\<lambda>t. now + t) ttl\<rparr>)"
    using plan act Some by (simp add: next_in_plan_def)
  show ?thesis using split before ready ans by blast
qed

theorem next_task_first_ready_witness:
  "plan_get (demo_plan_store\<lparr>ps_plan_tasks := [demo_member 5 1 0]\<rparr>) 5 = Some (demo_plan 5 Active) \<and>
   next_in_plan (demo_plan_store\<lparr>ps_plan_tasks := [demo_member 5 1 0]\<rparr>) [demo_task 1 Inbox] (Some []) [] 0 5 9 None = Inr None"
proof -
  let ?s = "demo_plan_store\<lparr>ps_plan_tasks := [demo_member 5 1 0]\<rparr>"
  have plan: "plan_get ?s 5 = Some (demo_plan 5 Active)"
    by (simp add: plan_get_def demo_plan_store_def demo_plan_simps)
  have "\<not> member_ready [demo_task 1 Inbox] [] [] 0 9 (demo_member 5 1 0)"
    by (simp add: member_ready_def demo_member_def demo_simps task_get_def)
  moreover have "list_tasks_ordered ?s 5 = [demo_member 5 1 0]"
    by (simp add: list_tasks_ordered_def demo_member_def)
  ultimately show ?thesis
    using next_task_first_ready [OF plan, of "[demo_task 1 Inbox]" "[]" "[]" 0 9 None] plan
    by (auto simp: demo_plan_simps Cons_eq_append_conv)
qed

end
