(* ===== verification/Lifecycle_Gate.thy ===== *)
theory Lifecycle_Gate
  imports Events
begin

text \<open>
  \<^verbatim>\<open>crates/core/src/lifecycle_gate.rs\<close>: the trigger points of the lifecycle rules and their derivation
  from the events a command is about to persist. A gate (the trait \<^verbatim>\<open>LifecycleGate\<close>) is a function of
  the actor, the check and the override; its result is a decision or an error.

  The derivation is the single source of trigger coverage, so the results here say which checks a
  batch of events gives: every gated event gives its check, no other event gives one, and each check
  carries what the batch itself stages (memberships, plans, final statuses).
\<close>

subsection \<open>Triggers and checks\<close>

datatype trigger_event =
    TrigProjectCreated
  | TrigPlanCreated
  | TrigPlanBeforeApprove
  | TrigTaskCreated
  | TrigTaskBeforeStart
  | TrigTaskBeforeComplete
  | TrigRunBeforeExecute
  | TrigRunBeforeComplete
  | TrigDocumentCreated
  | TrigTaskHandoff

fun trigger_event_as_str :: "trigger_event \<Rightarrow> string" where
  "trigger_event_as_str TrigProjectCreated = ''project.created''"
| "trigger_event_as_str TrigPlanCreated = ''plan.created''"
| "trigger_event_as_str TrigPlanBeforeApprove = ''plan.before_approve''"
| "trigger_event_as_str TrigTaskCreated = ''task.created''"
| "trigger_event_as_str TrigTaskBeforeStart = ''task.before_start''"
| "trigger_event_as_str TrigTaskBeforeComplete = ''task.before_complete''"
| "trigger_event_as_str TrigRunBeforeExecute = ''run.before_execute''"
| "trigger_event_as_str TrigRunBeforeComplete = ''run.before_complete''"
| "trigger_event_as_str TrigDocumentCreated = ''document.created''"
| "trigger_event_as_str TrigTaskHandoff = ''task.handoff''"

record gate_check =
  gc_trigger :: trigger_event
  gc_project_id :: "uuid option"
  gc_task_id :: "uuid option"
  gc_plan_id :: "uuid option"
  gc_run_id :: "uuid option"
  gc_document_id :: "uuid option"
  gc_handoff_id :: "uuid option"
  gc_status_from :: "status option"
  gc_status_to :: "status option"
  gc_plan_status_from :: "plan_status option"
  gc_plan_status_to :: "plan_status option"
  gc_task_title :: "string option"
  gc_pending_plan_ids :: "uuid list"
  gc_pending_plans :: "(uuid \<times> uuid option) list"
  gc_pending_statuses :: "(uuid \<times> status) list"

definition gate_check_new :: "trigger_event \<Rightarrow> gate_check" where
  "gate_check_new trigger =
     \<lparr>gc_trigger = trigger, gc_project_id = None, gc_task_id = None, gc_plan_id = None, gc_run_id = None,
      gc_document_id = None, gc_handoff_id = None, gc_status_from = None, gc_status_to = None,
      gc_plan_status_from = None, gc_plan_status_to = None, gc_task_title = None,
      gc_pending_plan_ids = [], gc_pending_plans = [], gc_pending_statuses = []\<rparr>"

record gate_override =
  go_force :: bool
  go_override_reason :: "string option"

definition gate_override_default :: gate_override where
  "gate_override_default = \<lparr>go_force = False, go_override_reason = None\<rparr>"

record mutation_warning =
  mw_code :: string
  mw_message :: string
  mw_details :: json

datatype gate_decision =
    GateAllowed
  | GateWarning "mutation_warning list"
  | GateOverridden "mutation_warning list" "mutation_warning list" string
  | GateBlocked string json

record rule_observation =
  ro_rule_id :: uuid
  ro_rule_key :: string
  ro_rule_revision :: timestamp
  ro_triggered :: bool

type_synonym gate = "actor \<Rightarrow> gate_check \<Rightarrow> gate_override \<Rightarrow> gate_decision result"

subsection \<open>derive\_checks\<close>

definition derive_check :: "event \<Rightarrow> gate_check list" where
  "derive_check event =
     (case event of
        TaskEv (ProjectCreated project) \<Rightarrow>
          [(gate_check_new TrigProjectCreated)\<lparr>gc_project_id := Some (pr_id project)\<rparr>]
      | PlanEv (PlanCreated plan) \<Rightarrow>
          [(gate_check_new TrigPlanCreated)\<lparr>gc_plan_id := Some (pl_id plan), gc_project_id := Some (pl_project_id plan)\<rparr>]
      | PlanEv (PlanStatusChanged plan_id st_from st_to) \<Rightarrow>
          if st_from = Draft \<and> st_to = Active
          then [(gate_check_new TrigPlanBeforeApprove)\<lparr>gc_plan_id := Some plan_id,
                  gc_plan_status_from := Some st_from, gc_plan_status_to := Some st_to\<rparr>]
          else []
      | TaskEv (TaskCreated task) \<Rightarrow>
          [(gate_check_new TrigTaskCreated)\<lparr>gc_task_id := nt_id task, gc_project_id := nt_project_id task,
              gc_task_title := Some (nt_title task)\<rparr>]
      | TaskEv (TaskStatusChanged task_id st_from st_to) \<Rightarrow>
          if st_to = InProgress \<or> st_to = Done
          then [(gate_check_new (if st_to = InProgress then TrigTaskBeforeStart else TrigTaskBeforeComplete))
                  \<lparr>gc_task_id := Some task_id, gc_status_from := Some st_from, gc_status_to := Some st_to\<rparr>]
          else []
      | RunEv (RunStarted run) \<Rightarrow>
          [(gate_check_new TrigRunBeforeExecute)\<lparr>gc_run_id := Some (r_id run), gc_plan_id := Some (r_plan_id run)\<rparr>]
      | RunEv (RunCompleted run_id at) \<Rightarrow>
          [(gate_check_new TrigRunBeforeComplete)\<lparr>gc_run_id := Some run_id\<rparr>]
      | DocumentEv (DocumentCreated document) \<Rightarrow>
          [(gate_check_new TrigDocumentCreated)\<lparr>gc_document_id := Some (doc_id document),
              gc_project_id := Some (doc_project_id document)\<rparr>]
      | WorkEv (HandoffAccepted handoff_id _ _ _ _) \<Rightarrow>
          [(gate_check_new TrigTaskHandoff)\<lparr>gc_handoff_id := Some handoff_id\<rparr>]
      | _ \<Rightarrow> [])"

definition derive_checks :: "event list \<Rightarrow> gate_check list" where
  "derive_checks events = concat (map derive_check events)"

subsection \<open>What the batch stages\<close>

record staged =
  sg_plans :: "(uuid \<times> uuid option) list"
  sg_memberships :: "(uuid \<times> uuid) list"
  sg_statuses :: "(uuid \<times> status) list"

text \<open>One step of the first loop of \<^verbatim>\<open>derive_gate_checks\<close>; the last transition of a task wins.\<close>

definition stage_event :: "event \<Rightarrow> staged \<Rightarrow> staged" where
  "stage_event event sg =
     (case event of
        PlanEv (PlanCreated plan) \<Rightarrow> sg\<lparr>sg_plans := sg_plans sg @ [(pl_id plan, pl_parent_plan_id plan)]\<rparr>
      | PlanEv (PlanTaskAdded plan_id task_id _ _) \<Rightarrow>
          sg\<lparr>sg_memberships := sg_memberships sg @ [(task_id, plan_id)]\<rparr>
      | TaskEv (TaskStatusChanged task_id _ st_to) \<Rightarrow>
          sg\<lparr>sg_statuses := filter (\<lambda>(task, _). task \<noteq> task_id) (sg_statuses sg) @ [(task_id, st_to)]\<rparr>
      | _ \<Rightarrow> sg)"

definition stage_events :: "event list \<Rightarrow> staged" where
  "stage_events events = fold stage_event events \<lparr>sg_plans = [], sg_memberships = [], sg_statuses = []\<rparr>"

definition attach_staged :: "staged \<Rightarrow> gate_check \<Rightarrow> gate_check" where
  "attach_staged sg c =
     (case gc_task_id c of
        Some task_id \<Rightarrow>
          c\<lparr>gc_pending_plan_ids := map snd (filter (\<lambda>(task, _). task = task_id) (sg_memberships sg))\<rparr>
      | None \<Rightarrow> c)\<lparr>gc_pending_plans := sg_plans sg, gc_pending_statuses := sg_statuses sg\<rparr>"

definition derive_gate_checks :: "event list \<Rightarrow> gate_check list" where
  "derive_gate_checks events = map (attach_staged (stage_events events)) (derive_checks events)"

subsection \<open>Reference reading of a batch\<close>

text \<open>The trigger an event stands for, and the status a batch leaves a task in.\<close>

definition trigger_of :: "event \<Rightarrow> trigger_event option" where
  "trigger_of event =
     (case event of
        TaskEv (ProjectCreated _) \<Rightarrow> Some TrigProjectCreated
      | TaskEv (TaskCreated _) \<Rightarrow> Some TrigTaskCreated
      | TaskEv (TaskStatusChanged _ _ InProgress) \<Rightarrow> Some TrigTaskBeforeStart
      | TaskEv (TaskStatusChanged _ _ Done) \<Rightarrow> Some TrigTaskBeforeComplete
      | PlanEv (PlanCreated _) \<Rightarrow> Some TrigPlanCreated
      | PlanEv (PlanStatusChanged _ Draft Active) \<Rightarrow> Some TrigPlanBeforeApprove
      | RunEv (RunStarted _) \<Rightarrow> Some TrigRunBeforeExecute
      | RunEv (RunCompleted _ _) \<Rightarrow> Some TrigRunBeforeComplete
      | DocumentEv (DocumentCreated _) \<Rightarrow> Some TrigDocumentCreated
      | WorkEv (HandoffAccepted _ _ _ _ _) \<Rightarrow> Some TrigTaskHandoff
      | _ \<Rightarrow> None)"

fun final_status :: "event list \<Rightarrow> uuid \<Rightarrow> status option" where
  "final_status [] t = None"
| "final_status (e # es) t =
     (case final_status es t of
        Some s \<Rightarrow> Some s
      | None \<Rightarrow> (case e of TaskEv (TaskStatusChanged i _ s) \<Rightarrow> if i = t then Some s else None | _ \<Rightarrow> None))"

lemma gate_check_new_trigger [simp]: "gc_trigger (gate_check_new tr) = tr"
  by (simp add: gate_check_new_def)

lemma derive_check_trigger:
  "map gc_trigger (derive_check e) = (case trigger_of e of None \<Rightarrow> [] | Some t \<Rightarrow> [t])"
  unfolding derive_check_def trigger_of_def
  by (simp split: event.split task_event.split plan_event.split run_event.split document_event.split
      work_event.split status.split plan_status.split)

lemma attach_staged_trigger [simp]: "gc_trigger (attach_staged sg c) = gc_trigger c"
  by (simp add: attach_staged_def split: option.split)

lemma attach_staged_statuses [simp]: "gc_pending_statuses (attach_staged sg c) = sg_statuses sg"
  by (simp add: attach_staged_def split: option.split)

lemma derive_gate_checks_triggers:
  "map gc_trigger (derive_gate_checks es) = List.map_filter trigger_of es"
proof -
  have "map gc_trigger (derive_checks es) = List.map_filter trigger_of es"
    by (induction es) (auto simp: derive_checks_def derive_check_trigger map_filter_simps split: option.split)
  then show ?thesis by (simp add: derive_gate_checks_def comp_def)
qed

definition statuses_agree :: "(uuid \<times> status) list \<Rightarrow> (uuid \<Rightarrow> status option) \<Rightarrow> bool" where
  "statuses_agree sts f \<longleftrightarrow> distinct (map fst sts) \<and> map_of sts = f"

lemma statuses_agree_put:
  assumes "statuses_agree sts f"
  shows "statuses_agree (filter (\<lambda>(t, _). t \<noteq> i) sts @ [(i, s)]) (f(i \<mapsto> s))"
proof -
  have d: "distinct (map fst sts)" and m: "map_of sts = f" using assms by (auto simp: statuses_agree_def)
  have mem: "i \<notin> fst ` set (filter (\<lambda>(t, _). t \<noteq> i) sts)" by auto
  have get: "map_of (filter (\<lambda>(t, _). t \<noteq> i) sts) x = (if x = i then None else map_of sts x)" for x
    by (induction sts) auto
  have "map_of (filter (\<lambda>(t, _). t \<noteq> i) sts @ [(i, s)]) x = (f(i \<mapsto> s)) x" for x
    using get [of x] m by (simp add: map_add_def split: option.split)
  moreover have "distinct (map fst (filter (\<lambda>(t, _). t \<noteq> i) sts))"
    using d by (induction sts) auto
  ultimately show ?thesis using mem by (auto simp: statuses_agree_def)
qed

lemma stage_event_statuses:
  "sg_statuses (stage_event e sg) =
     (case e of TaskEv (TaskStatusChanged i _ s) \<Rightarrow> filter (\<lambda>(t, _). t \<noteq> i) (sg_statuses sg) @ [(i, s)]
      | _ \<Rightarrow> sg_statuses sg)"
  unfolding stage_event_def by (simp split: event.split task_event.split plan_event.split)

lemma fold_stage_statuses:
  "statuses_agree (sg_statuses sg) f \<Longrightarrow>
   statuses_agree (sg_statuses (fold stage_event es sg)) (f ++ final_status es)"
proof (induction es arbitrary: sg f)
  case Nil
  have "f ++ final_status [] = f" by (rule ext) (simp add: map_add_def)
  then show ?case using Nil by simp
next
  case (Cons e es)
  define g where "g = (case e of TaskEv (TaskStatusChanged i _ s) \<Rightarrow> f(i \<mapsto> s) | _ \<Rightarrow> f)"
  have "statuses_agree (sg_statuses (stage_event e sg)) g"
    using statuses_agree_put [OF Cons.prems] Cons.prems
    by (simp add: stage_event_statuses g_def split: event.split task_event.split)
  from Cons.IH [OF this] have "statuses_agree (sg_statuses (fold stage_event (e # es) sg)) (g ++ final_status es)"
    by simp
  moreover have "g ++ final_status es = f ++ final_status (e # es)"
    by (rule ext) (auto simp: map_add_def g_def split: option.split event.split task_event.split)
  ultimately show ?case by (simp only:)
qed

lemma stage_events_statuses: "statuses_agree (sg_statuses (stage_events es)) (final_status es)"
proof -
  have "statuses_agree [] Map.empty" by (simp add: statuses_agree_def)
  then show ?thesis
    using fold_stage_statuses [of "\<lparr>sg_plans = [], sg_memberships = [], sg_statuses = []\<rparr>" Map.empty es]
    by (simp add: stage_events_def)
qed

definition membership_of :: "event \<Rightarrow> (uuid \<times> uuid) option" where
  "membership_of e = (case e of PlanEv (PlanTaskAdded p t _ _) \<Rightarrow> Some (t, p) | _ \<Rightarrow> None)"

lemma membership_of_Some:
  "membership_of e = Some (t, p) \<longleftrightarrow> (\<exists>pos deps. e = PlanEv (PlanTaskAdded p t pos deps))"
  unfolding membership_of_def by (simp split: event.split plan_event.split) blast

lemma fold_stage_memberships:
  "sg_memberships (fold stage_event es sg) = sg_memberships sg @ List.map_filter membership_of es"
proof (induction es arbitrary: sg)
  case (Cons e es)
  have "sg_memberships (stage_event e sg) = sg_memberships sg @ (case membership_of e of Some m \<Rightarrow> [m] | None \<Rightarrow> [])"
    unfolding stage_event_def membership_of_def by (simp split: event.split task_event.split plan_event.split)
  then show ?case using Cons by (simp add: map_filter_simps split: option.split)
qed (simp add: map_filter_simps)

lemma set_staged_memberships:
  "(t, p) \<in> set (sg_memberships (stage_events es)) \<longleftrightarrow> (\<exists>pos deps. PlanEv (PlanTaskAdded p t pos deps) \<in> set es)"
proof -
  have "(t, p) \<in> set (List.map_filter membership_of es) \<longleftrightarrow> (\<exists>e \<in> set es. membership_of e = Some (t, p))"
    by (induction es) (auto simp: map_filter_simps split: option.splits)
  then show ?thesis by (auto simp: stage_events_def fold_stage_memberships membership_of_Some)
qed

subsection \<open>Property\<close>

text \<open>
  The checks derived from a batch are exactly one per gated event, in batch order, with that
  event's trigger; and every check knows the final status the batch gives to each task it moves (one
  entry per task, the last transition), so a rule that counts tasks in progress sees the whole batch.
\<close>

theorem derive_gate_checks_exact:
  "map gc_trigger (derive_gate_checks es) = List.map_filter trigger_of es \<and>
   list_all (\<lambda>c. distinct (map fst (gc_pending_statuses c)) \<and> map_of (gc_pending_statuses c) = final_status es)
     (derive_gate_checks es)"
proof
  show "map gc_trigger (derive_gate_checks es) = List.map_filter trigger_of es"
    by (rule derive_gate_checks_triggers)
  show "list_all (\<lambda>c. distinct (map fst (gc_pending_statuses c)) \<and> map_of (gc_pending_statuses c) = final_status es)
     (derive_gate_checks es)"
    using stage_events_statuses [of es]
    by (simp add: derive_gate_checks_def list_all_iff statuses_agree_def)
qed

text \<open>
  A task created or moved by a batch is checked against the plans the same batch attaches it to:
  the pending plans of the check are the plans of the batch's \<^verbatim>\<open>PlanTaskAdded\<close> events for that task.
\<close>

theorem derive_gate_checks_memberships:
  assumes "c \<in> set (derive_gate_checks es)" and "gc_task_id c = Some t"
  shows "set (gc_pending_plan_ids c) = {p. \<exists>pos deps. PlanEv (PlanTaskAdded p t pos deps) \<in> set es}"
proof -
  obtain c0 where c: "c = attach_staged (stage_events es) c0" using assms(1) by (auto simp: derive_gate_checks_def)
  then have "gc_task_id c0 = Some t" using assms(2) by (auto simp: attach_staged_def split: option.splits)
  then have ids: "gc_pending_plan_ids c = map snd (filter (\<lambda>(task, _). task = t) (sg_memberships (stage_events es)))"
    using c by (simp add: attach_staged_def)
  show ?thesis unfolding ids using set_staged_memberships [of t _ es] by force
qed

theorem derive_gate_checks_memberships_witness:
  "gc_pending_plan_ids (hd (derive_gate_checks
      [TaskEv (TaskStatusChanged 1 Todo InProgress), PlanEv (PlanTaskAdded 7 1 0 [])])) = [7] \<and>
   set (gc_pending_plan_ids (hd (derive_gate_checks
      [TaskEv (TaskStatusChanged 1 Todo InProgress), PlanEv (PlanTaskAdded 7 1 0 [])]))) =
     {p. \<exists>pos deps. PlanEv (PlanTaskAdded p 1 pos deps) \<in>
        set [TaskEv (TaskStatusChanged 1 Todo InProgress), PlanEv (PlanTaskAdded 7 1 0 [])]}"
proof -
  let ?es = "[TaskEv (TaskStatusChanged 1 Todo InProgress), PlanEv (PlanTaskAdded 7 1 0 [])]"
  note defs = derive_gate_checks_def derive_checks_def derive_check_def stage_events_def stage_event_def
    attach_staged_def gate_check_new_def
  have "hd (derive_gate_checks ?es) \<in> set (derive_gate_checks ?es)" by (simp add: defs)
  moreover have "gc_task_id (hd (derive_gate_checks ?es)) = Some 1" by (simp add: defs)
  ultimately show ?thesis using derive_gate_checks_memberships [of _ ?es 1] by (simp add: defs)
qed

end
