(* ===== verification/Json_Text.thy ===== *)
theory Json_Text
  imports Prelude
begin

text \<open>
  Text and JSON helpers of the standard library and \<^verbatim>\<open>serde_json\<close> the components share: accessors of a
  \<^verbatim>\<open>serde_json::Value\<close>, the decimal form of an unsigned number and \<^verbatim>\<open>str::parse::<u64>\<close>.
\<close>

subsection \<open>JSON accessors\<close>

definition json_get :: "string \<Rightarrow> json \<Rightarrow> json option" where
  "json_get k v = (case v of JObject kvs \<Rightarrow> map_of kvs k | _ \<Rightarrow> None)"

definition json_as_str :: "json \<Rightarrow> string option" where
  "json_as_str v = (case v of JString s \<Rightarrow> Some s | _ \<Rightarrow> None)"

definition json_as_array :: "json \<Rightarrow> json list option" where
  "json_as_array v = (case v of JArray vs \<Rightarrow> Some vs | _ \<Rightarrow> None)"

definition json_str_field :: "string \<Rightarrow> json \<Rightarrow> string option" where
  "json_str_field k v = Option.bind (json_get k v) json_as_str"

definition json_array_field :: "string \<Rightarrow> json \<Rightarrow> json list option" where
  "json_array_field k v = Option.bind (json_get k v) json_as_array"

text \<open>An optional value in \<^verbatim>\<open>json!\<close> is \<^verbatim>\<open>null\<close> when it is missing.\<close>

definition json_opt :: "string option \<Rightarrow> json" where
  "json_opt s = (case s of Some t \<Rightarrow> JString t | None \<Rightarrow> JNull)"

definition json_strings :: "string list \<Rightarrow> json" where
  "json_strings ss = JArray (map JString ss)"

lemma json_get_object [simp]: "json_get k (JObject kvs) = map_of kvs k"
  by (simp add: json_get_def)

lemma json_as_str_simps [simp]: "json_as_str (JString s) = Some s" "json_as_str JNull = None"
  by (simp_all add: json_as_str_def)

lemma json_as_array_simp [simp]: "json_as_array (JArray vs) = Some vs"
  by (simp add: json_as_array_def)

subsection \<open>Decimal numbers\<close>

definition digit_char :: "nat \<Rightarrow> char" where
  "digit_char d = char_of (48 + d)"

fun show_nat :: "nat \<Rightarrow> string" where
  "show_nat n = (if n < 10 then [digit_char n] else show_nat (n div 10) @ [digit_char (n mod 10)])"

declare show_nat.simps [simp del]

definition digit_value :: "char \<Rightarrow> nat" where
  "digit_value c = of_char c - 48"

definition digits_value :: "string \<Rightarrow> nat" where
  "digits_value s = foldl (\<lambda>acc c. 10 * acc + digit_value c) 0 s"

text \<open>\<^verbatim>\<open>u64::from_str\<close>: an optional plus sign, then one digit or more; a value beyond the width is an error.\<close>

definition parse_u64 :: "string \<Rightarrow> nat option" where
  "parse_u64 s =
     (let ds = (case s of c # cs \<Rightarrow> if c = CHR ''+'' then cs else s | [] \<Rightarrow> []) in
      if ds = [] \<or> \<not> list_all is_ascii_digit ds \<or> digits_value ds \<ge> 2 ^ 64 then None
      else Some (digits_value ds))"

lemma of_digit_char: "d < 10 \<Longrightarrow> (of_char (digit_char d) :: nat) = 48 + d"
  by (simp add: digit_char_def)

lemma digit_char_props:
  "d < 10 \<Longrightarrow> is_ascii_digit (digit_char d)"
  "d < 10 \<Longrightarrow> digit_value (digit_char d) = d"
  by (simp_all add: is_ascii_digit_def digit_value_def of_digit_char)

lemma digits_value_snoc: "digits_value (s @ [c]) = 10 * digits_value s + digit_value c"
  by (simp add: digits_value_def)

lemma show_nat_digits: "list_all is_ascii_digit (show_nat n) \<and> digits_value (show_nat n) = n \<and> show_nat n \<noteq> []"
proof (induction n rule: show_nat.induct)
  case (1 n)
  show ?case
  proof (cases "n < 10")
    case True
    then show ?thesis
      by (simp add: show_nat.simps [of n] digit_char_props digits_value_def)
  next
    case False
    then show ?thesis
      using 1 by (subst (1 2 3) show_nat.simps) (simp add: digits_value_snoc digit_char_props)
  qed
qed

lemma parse_show_u64: "n < 2 ^ 64 \<Longrightarrow> parse_u64 (show_nat n) = Some n"
proof -
  assume n: "n < 2 ^ 64"
  obtain c cs where s: "show_nat n = c # cs" using show_nat_digits [of n] by (cases "show_nat n") auto
  then have "is_ascii_digit c" using show_nat_digits [of n] by simp
  then have "c \<noteq> CHR ''+''" by (auto simp: is_ascii_digit_def)
  then show ?thesis using n show_nat_digits [of n] s by (simp add: parse_u64_def)
qed

end
