(* ===== verification/Plan_Readiness.thy ===== *)
theory Plan_Readiness
  imports Plan_Concurrency Lifecycle_Gate Json_Text
begin

text \<open>
  \<^verbatim>\<open>crates/core/src/plan_readiness.rs\<close>: when a plan may close, the plan graph, the parallel waves of a
  plan (\<^verbatim>\<open>plan_fanout\<close>) and the readiness answer for one task (\<^verbatim>\<open>can_start\<close>), with
  \<^verbatim>\<open>blocked_outcomes\<close> of \<^verbatim>\<open>crates/core/src/handler.rs\<close>.

  The \<^verbatim>\<open>HashMap<TaskId, HashSet<TaskId>>\<close> of incoming edges is the list of its (task, blocker) pairs; a
  \<^verbatim>\<open>HashSet\<close> of remaining tasks is a list of its members. Only membership of either is observed.
\<close>

subsection \<open>Closing a plan\<close>

fun members_terminal :: "bool \<Rightarrow> status option list \<Rightarrow> bool option" where
  "members_terminal any [] = Some any"
| "members_terminal any (s # ss) =
     (if \<not> (case s of Some st \<Rightarrow> is_terminal st | None \<Rightarrow> False) then None else members_terminal True ss)"

definition plan_ready_to_close :: "status option list \<Rightarrow> plan_status list \<Rightarrow> bool" where
  "plan_ready_to_close member_statuses child_statuses =
     (case members_terminal False member_statuses of
        None \<Rightarrow> False
      | Some any \<Rightarrow> any \<and> list_all (\<lambda>c. c = Completed \<or> c = Abandoned) child_statuses)"

subsection \<open>Loading\<close>

definition ensure_plan_exists :: "plan_store \<Rightarrow> uuid \<Rightarrow> unit result" where
  "ensure_plan_exists s i = bind_result (ok_or (NotFound ''plan '') (plan_get s i)) (\<lambda>_. Inr ())"

definition load_tasks :: "task_store \<Rightarrow> uuid list \<Rightarrow> uuid \<Rightarrow> task option" where
  "load_tasks ts ids =
     (if ids = [] then Map.empty
      else fold (\<lambda>t m. m(t_id t \<mapsto> t)) (get_many ts ids) Map.empty)"

subsection \<open>The plan graph\<close>

definition graph_nodes :: "(uuid \<Rightarrow> task option) \<Rightarrow> plan_task list \<Rightarrow> plan_graph_node list" where
  "graph_nodes task_map plan_tasks =
     List.map_filter (\<lambda>pt. map_option (\<lambda>task.
         \<lparr>gn_task_id = pt_task_id pt, gn_position = pt_position pt, gn_depends_on = pt_depends_on pt,
          gn_title = t_title task, gn_status = t_status task, gn_priority = t_priority task\<rparr>)
       (task_map (pt_task_id pt))) plan_tasks"

definition dependency_edges :: "plan_task list \<Rightarrow> plan_graph_edge list" where
  "dependency_edges plan_tasks =
     concat (map (\<lambda>pt. map (\<lambda>dep. \<lparr>ge_from = dep, ge_to = pt_task_id pt, ge_kind = ''depends_on''\<rparr>)
         (filter (\<lambda>dep. dep \<in> set (map pt_task_id plan_tasks)) (pt_depends_on pt))) plan_tasks)"

definition blocks_edges_of :: "uuid list \<Rightarrow> relation list \<Rightarrow> plan_graph_edge list" where
  "blocks_edges_of ids rels =
     map (\<lambda>r. \<lparr>ge_from = rel_from r, ge_to = rel_to r, ge_kind = ''blocks''\<rparr>)
       (filter (\<lambda>r. rel_kind r = Blocks \<and> rel_from r \<in> set ids \<and> rel_to r \<in> set ids) rels)"

definition plan_graph_of :: "plan_store \<Rightarrow> task_store \<Rightarrow> relation_table \<Rightarrow> uuid \<Rightarrow> plan_graph result" where
  "plan_graph_of ps ts rels plan_id =
     bind_result (ensure_plan_exists ps plan_id) (\<lambda>_.
       let plan_tasks = list_tasks_ordered ps plan_id;
           task_ids = map pt_task_id plan_tasks
       in Inr \<lparr>pg_nodes = graph_nodes (load_tasks ts task_ids) plan_tasks,
               pg_edges = dependency_edges plan_tasks @ blocks_edges_of task_ids (list_by_task_ids rels task_ids)\<rparr>)"

subsection \<open>Waves\<close>

definition fanout_remaining :: "(uuid \<Rightarrow> task option) \<Rightarrow> plan_task list \<Rightarrow> uuid list" where
  "fanout_remaining task_map plan_tasks =
     map pt_task_id (filter (\<lambda>pt. case task_map (pt_task_id pt) of
         Some task \<Rightarrow> \<not> is_terminal (t_status task) | None \<Rightarrow> False) plan_tasks)"

definition done_in :: "(uuid \<Rightarrow> task option) \<Rightarrow> uuid \<Rightarrow> bool" where
  "done_in task_map i = (case task_map i of Some t \<Rightarrow> t_status t = Done | None \<Rightarrow> False)"

definition incoming_deps :: "(uuid \<Rightarrow> task option) \<Rightarrow> plan_task list \<Rightarrow> uuid list \<Rightarrow> (uuid \<times> uuid) list" where
  "incoming_deps task_map plan_tasks remaining =
     concat (map (\<lambda>pt. map (Pair (pt_task_id pt)) (filter (\<lambda>dep. \<not> done_in task_map dep) (pt_depends_on pt)))
       (filter (\<lambda>pt. pt_task_id pt \<in> set remaining) plan_tasks))"

definition incoming_blocks :: "task_store \<Rightarrow> relation list \<Rightarrow> uuid list \<Rightarrow> (uuid \<times> uuid) list" where
  "incoming_blocks ts rels remaining =
     (let blocking = filter (\<lambda>r. rel_kind r = Blocks \<and> rel_to r \<in> set remaining) rels;
          blockers_map = load_tasks ts (map rel_from blocking)
      in map (\<lambda>r. (rel_to r, rel_from r)) (filter (\<lambda>r. \<not> done_in blockers_map (rel_from r)) blocking))"

definition fanout_ready :: "plan_task list \<Rightarrow> uuid list \<Rightarrow> (uuid \<times> uuid) list \<Rightarrow> uuid list" where
  "fanout_ready plan_tasks remaining incoming =
     filter (\<lambda>t. t \<in> set remaining \<and> \<not> list_ex (\<lambda>(a, _). a = t) incoming) (map pt_task_id plan_tasks)"

function fanout_loop :: "plan_task list \<Rightarrow> uuid list \<Rightarrow> (uuid \<times> uuid) list \<Rightarrow> nat \<Rightarrow> plan_fanout_wave list" where
  "fanout_loop plan_tasks remaining incoming n =
     (if remaining = [] then []
      else let ready = fanout_ready plan_tasks remaining incoming in
        if ready = [] then []
        else \<lparr>fw_wave = of_nat n, fw_tasks = ready\<rparr> #
          fanout_loop plan_tasks (filter (\<lambda>t. t \<notin> set ready) remaining)
            (filter (\<lambda>(_, b). b \<notin> set ready) incoming) (n + 1))"
  by pat_completeness auto
termination
proof (relation "measure (\<lambda>(_, remaining, _, _). length remaining)", goal_cases)
  case (2 plan_tasks remaining incoming n ready)
  then obtain t where "t \<in> set ready" by (meson last_in_set)
  then have "t \<in> set remaining" "t \<in> set ready" using 2 by (auto simp: fanout_ready_def)
  then show ?case by (auto intro!: length_filter_less)
qed simp

declare fanout_loop.simps [simp del]

definition plan_fanout :: "plan_store \<Rightarrow> task_store \<Rightarrow> relation_table \<Rightarrow> uuid \<Rightarrow> plan_fanout_wave list result" where
  "plan_fanout ps ts rels plan_id =
     bind_result (ensure_plan_exists ps plan_id) (\<lambda>_.
       let plan_tasks = list_tasks_ordered ps plan_id;
           task_ids = map pt_task_id plan_tasks;
           task_map = load_tasks ts task_ids;
           remaining = fanout_remaining task_map plan_tasks
       in Inr (fanout_loop plan_tasks remaining
            (incoming_deps task_map plan_tasks remaining @
             incoming_blocks ts (list_by_task_ids rels task_ids) remaining) 0))"

subsection \<open>can\_start\<close>

definition blocked_outcomes :: "json \<Rightarrow> string \<Rightarrow> (json \<times> string) list" where
  "blocked_outcomes details message =
     (case json_array_field ''outcomes'' details of
        Some outcomes \<Rightarrow>
          let blocked = map (\<lambda>v. (v, unwrap_or message (json_str_field ''message'' v)))
                (filter (\<lambda>v. json_str_field ''decision'' v = Some ''blocked'') outcomes)
          in if blocked \<noteq> [] then blocked else [(details, message)]
      | None \<Rightarrow> [(details, message)])"

definition UNNAMED_RULE :: string where
  "UNNAMED_RULE = ''unnamed_rule''"

definition rule_key_of :: "json \<Rightarrow> string option" where
  "rule_key_of details = json_str_field ''rule_key'' details"

definition warning_rule_key :: "mutation_warning \<Rightarrow> string" where
  "warning_rule_key warning =
     (case rule_key_of (mw_details warning) of
        Some key \<Rightarrow> key
      | None \<Rightarrow> unwrap_or (mw_code warning) (strip_prefix ''rule_warning:'' (mw_code warning)))"

definition warning_rule :: "mutation_warning \<Rightarrow> can_start_rule" where
  "warning_rule w = \<lparr>csr_rule_key = warning_rule_key w, csr_message = mw_message w\<rparr>"

definition warning_outcomes :: "json \<Rightarrow> can_start_rule list" where
  "warning_outcomes details =
     (case json_array_field ''outcomes'' details of
        None \<Rightarrow> []
      | Some outcomes \<Rightarrow>
          map (\<lambda>v. \<lparr>csr_rule_key = unwrap_or UNNAMED_RULE (rule_key_of v),
                    csr_message = unwrap_or [] (json_str_field ''message'' v)\<rparr>)
            (filter (\<lambda>v. json_str_field ''decision'' v = Some ''warning'') outcomes))"

text \<open>What one decision adds to the blocking and to the advisory rules.\<close>

definition decision_rules :: "gate_decision \<Rightarrow> can_start_rule list \<times> can_start_rule list" where
  "decision_rules d =
     (case d of
        GateAllowed \<Rightarrow> ([], [])
      | GateWarning batch \<Rightarrow> ([], map warning_rule batch)
      | GateOverridden overridden warnings _ \<Rightarrow> (map warning_rule overridden, map warning_rule warnings)
      | GateBlocked message details \<Rightarrow>
          (map (\<lambda>(outcome, m). \<lparr>csr_rule_key = unwrap_or UNNAMED_RULE (rule_key_of outcome), csr_message = m\<rparr>)
             (blocked_outcomes details message),
           warning_outcomes details))"

fun ask_gate :: "gate \<Rightarrow> actor \<Rightarrow> gate_check list \<Rightarrow> (can_start_rule list \<times> can_start_rule list) result" where
  "ask_gate gate actor [] = Inr ([], [])"
| "ask_gate gate actor (c # cs) =
     bind_result (gate actor c gate_override_default) (\<lambda>d.
     bind_result (ask_gate gate actor cs) (\<lambda>(bs, ws).
       Inr (fst (decision_rules d) @ bs, snd (decision_rules d) @ ws)))"

definition rule_readiness ::
  "(gate \<times> actor) option \<Rightarrow> task \<Rightarrow> (can_start_rule list \<times> can_start_rule list) result" where
  "rule_readiness gate task =
     (case gate of
        None \<Rightarrow> Inr ([], [])
      | Some (g, actor) \<Rightarrow>
          if t_status task = InProgress then Inr ([], [])
          else ask_gate g actor
                 (derive_gate_checks [TaskEv (TaskStatusChanged (t_id task) (t_status task) InProgress)]))"

function nat_str :: "nat \<Rightarrow> string" where
  "nat_str n = (if n < 10 then [char_of (48 + n)] else nat_str (n div 10) @ [char_of (48 + n mod 10)])"
  by pat_completeness auto
termination by (relation "measure id") auto

declare nat_str.simps [simp del]

definition start_reason :: "bool \<Rightarrow> nat \<Rightarrow> nat \<Rightarrow> string" where
  "start_reason terminal t r =
     (if terminal then ''terminal_task''
      else if t = 0 \<and> r = 0 then ''ready''
      else if t = 0 then ''blocked_by_'' @ nat_str r @ ''_rule(s)''
      else if r = 0 then ''blocked_by_'' @ nat_str t @ ''_task(s)''
      else ''blocked_by_'' @ nat_str t @ ''_task(s)_and_'' @ nat_str r @ ''_rule(s)'')"

definition start_blockers :: "task_store \<Rightarrow> relation list \<Rightarrow> can_start_blocker list" where
  "start_blockers ts relations =
     (if relations = [] then []
      else map (\<lambda>t. \<lparr>csb_task_id = t_id t, csb_title = t_title t, csb_status = t_status t\<rparr>)
             (filter (\<lambda>t. t_status t \<noteq> Done) (get_many ts (map rel_from relations))))"

definition can_start_of ::
  "task_store \<Rightarrow> relation_table \<Rightarrow> (gate \<times> actor) option \<Rightarrow> uuid \<Rightarrow> can_start result" where
  "can_start_of ts rels gate task_id =
     bind_result (ok_or (NotFound ''task '') (task_repo_get ts task_id)) (\<lambda>task.
       let blockers = start_blockers ts (list_blockers rels task_id) in
       bind_result (rule_readiness gate task) (\<lambda>(rule_blockers, rule_warnings).
         Inr \<lparr>cs_ready = \<not> is_terminal (t_status task) \<and> blockers = [] \<and> rule_blockers = [],
              cs_blockers = blockers, cs_rule_blockers = rule_blockers, cs_rule_warnings = rule_warnings,
              cs_reason = start_reason (is_terminal (t_status task)) (length blockers) (length rule_blockers)\<rparr>))"

subsection \<open>The wave loop\<close>

definition scheduled :: "plan_fanout_wave list \<Rightarrow> uuid list" where
  "scheduled ws = concat (map fw_tasks ws)"

lemma scheduled_simps [simp]:
  "scheduled [] = []"
  "scheduled (w # ws) = fw_tasks w @ scheduled ws"
  by (simp_all add: scheduled_def)

lemma scheduled_nth: "t \<in> set (scheduled ws) \<longleftrightarrow> (\<exists>k < length ws. t \<in> set (fw_tasks (ws ! k)))"
  unfolding scheduled_def by (simp add: all_set_conv_all_nth) (metis in_set_conv_nth)

definition rest_tasks :: "plan_task list \<Rightarrow> uuid list \<Rightarrow> (uuid \<times> uuid) list \<Rightarrow> uuid list" where
  "rest_tasks pts rem inc = filter (\<lambda>t. t \<notin> set (fanout_ready pts rem inc)) rem"

definition rest_edges :: "plan_task list \<Rightarrow> uuid list \<Rightarrow> (uuid \<times> uuid) list \<Rightarrow> (uuid \<times> uuid) list" where
  "rest_edges pts rem inc = filter (\<lambda>(_, b). b \<notin> set (fanout_ready pts rem inc)) inc"

lemma fanout_loop_step:
  "fanout_loop pts rem inc n =
     (if fanout_ready pts rem inc = [] then []
      else \<lparr>fw_wave = of_nat n, fw_tasks = fanout_ready pts rem inc\<rparr> #
        fanout_loop pts (rest_tasks pts rem inc) (rest_edges pts rem inc) (n + 1))"
  by (subst fanout_loop.simps) (simp add: Let_def rest_tasks_def rest_edges_def fanout_ready_def)

lemma fanout_loop_induct [case_names stop wave]:
  assumes stop: "\<And>rem inc n. fanout_ready pts rem inc = [] \<Longrightarrow> P rem inc n"
    and wave: "\<And>rem inc n. fanout_ready pts rem inc \<noteq> [] \<Longrightarrow>
      P (rest_tasks pts rem inc) (rest_edges pts rem inc) (n + 1) \<Longrightarrow> P rem inc n"
  shows "P rem inc n"
proof (induction "length rem" arbitrary: rem inc n rule: less_induct)
  case less
  show ?case
  proof (cases "fanout_ready pts rem inc = []")
    case False
    then obtain t where "t \<in> set (fanout_ready pts rem inc)" by (meson last_in_set)
    then have "length (rest_tasks pts rem inc) < length rem"
      unfolding rest_tasks_def by (auto simp: fanout_ready_def intro!: length_filter_less)
    from wave [OF False less [OF this]] show ?thesis .
  qed (rule stop)
qed

lemma set_fanout_ready:
  "t \<in> set (fanout_ready pts rem inc) \<longleftrightarrow> t \<in> pt_task_id ` set pts \<and> t \<in> set rem \<and> (\<forall>b. (t, b) \<notin> set inc)"
  by (auto simp: fanout_ready_def list_ex_iff)

lemma set_rest_tasks: "set (rest_tasks pts rem inc) = set rem - set (fanout_ready pts rem inc)"
  by (auto simp: rest_tasks_def)

lemma set_rest_edges: "(t, b) \<in> set (rest_edges pts rem inc) \<longleftrightarrow> (t, b) \<in> set inc \<and> b \<notin> set (fanout_ready pts rem inc)"
  by (auto simp: rest_edges_def)

lemma fanout_loop_scheduled:
  assumes "distinct (map pt_task_id pts)"
  shows "distinct (scheduled (fanout_loop pts rem inc n)) \<and> set (scheduled (fanout_loop pts rem inc n)) \<subseteq> set rem"
proof (induction rem inc n rule: fanout_loop_induct [where pts = pts])
  case (stop rem inc n)
  then show ?case by (simp add: fanout_loop_step [of pts rem])
next
  case (wave rem inc n)
  have "distinct (fanout_ready pts rem inc)" using assms by (simp add: fanout_ready_def)
  moreover have "set (fanout_ready pts rem inc) \<subseteq> set rem" by (auto simp: set_fanout_ready)
  ultimately show ?case using wave by (auto simp: fanout_loop_step [of pts rem inc n] set_rest_tasks)
qed

text \<open>Every awaited task of a scheduled one is in an earlier wave.\<close>

lemma fanout_loop_order:
  assumes "k < length (fanout_loop pts rem inc n)" and "t \<in> set (fw_tasks (fanout_loop pts rem inc n ! k))"
    and "(t, b) \<in> set inc"
  shows "\<exists>j < k. b \<in> set (fw_tasks (fanout_loop pts rem inc n ! j))"
  using assms
proof (induction rem inc n arbitrary: k rule: fanout_loop_induct [where pts = pts])
  case (stop rem inc n)
  then show ?case by (simp add: fanout_loop_step [of pts rem])
next
  case (wave rem inc n)
  note step = fanout_loop_step [of pts rem inc n]
  show ?case
  proof (cases k)
    case 0
    then show ?thesis using wave by (simp add: step set_fanout_ready)
  next
    case (Suc i)
    show ?thesis
    proof (cases "b \<in> set (fanout_ready pts rem inc)")
      case True
      then show ?thesis using wave(1) Suc by (intro exI [of _ 0]) (simp add: step)
    next
      case False
      then have "(t, b) \<in> set (rest_edges pts rem inc)" using wave.prems(3) by (simp add: set_rest_edges)
      then obtain j where "j < i"
        "b \<in> set (fw_tasks (fanout_loop pts (rest_tasks pts rem inc) (rest_edges pts rem inc) (n + 1) ! j))"
        using wave Suc by (auto simp: step)
      then show ?thesis using wave(1) Suc by (intro exI [of _ "Suc j"]) (simp add: step)
    qed
  qed
qed

text \<open>A task left out waits on a task that is left out too.\<close>

lemma fanout_loop_stuck:
  assumes "set rem \<subseteq> pt_task_id ` set pts" and "t \<in> set rem" and "t \<notin> set (scheduled (fanout_loop pts rem inc n))"
  shows "\<exists>b. (t, b) \<in> set inc \<and> b \<notin> set (scheduled (fanout_loop pts rem inc n))"
  using assms
proof (induction rem inc n rule: fanout_loop_induct [where pts = pts])
  case (stop rem inc n)
  then have "t \<notin> set (fanout_ready pts rem inc)" by simp
  then have "\<exists>b. (t, b) \<in> set inc" using stop.prems(1,2) unfolding set_fanout_ready by blast
  then show ?case using stop(1) by (simp add: fanout_loop_step [of pts rem])
next
  case (wave rem inc n)
  then show ?case by (auto simp: fanout_loop_step [of pts rem inc n] set_rest_tasks set_rest_edges)
qed

text \<open>No task could run in an earlier wave than its own.\<close>

lemma fanout_loop_earliest:
  assumes "set rem \<subseteq> pt_task_id ` set pts" and "Suc k < length (fanout_loop pts rem inc n)"
    and "t \<in> set (fw_tasks (fanout_loop pts rem inc n ! Suc k))"
  shows "\<exists>b \<in> set (fw_tasks (fanout_loop pts rem inc n ! k)). (t, b) \<in> set inc"
  using assms
proof (induction rem inc n arbitrary: k rule: fanout_loop_induct [where pts = pts])
  case (stop rem inc n)
  then show ?case by (simp add: fanout_loop_step [of pts rem])
next
  case (wave rem inc n)
  let ?rem = "rest_tasks pts rem inc" and ?inc = "rest_edges pts rem inc"
  note step = fanout_loop_step [of pts rem inc n]
  have sub: "set ?rem \<subseteq> pt_task_id ` set pts" using wave.prems(1) by (auto simp: set_rest_tasks)
  show ?case
  proof (cases k)
    case 0
    have "t \<in> set (fanout_ready pts ?rem ?inc)"
      using wave.prems 0 wave(1) by (auto simp: step fanout_loop_step [of pts ?rem] split: if_splits)
    then show ?thesis using 0 wave(1) wave.prems(1)
      by (auto simp: step set_fanout_ready set_rest_edges set_rest_tasks)
  next
    case (Suc i)
    then show ?thesis using wave.IH [OF sub, of i] wave.prems wave(1) by (auto simp: step set_rest_edges)
  qed
qed

subsection \<open>What the waves mean\<close>

definition open_member :: "plan_store \<Rightarrow> task_store \<Rightarrow> uuid \<Rightarrow> uuid \<Rightarrow> bool" where
  "open_member ps ts p t \<longleftrightarrow> t \<in> pt_task_id ` set (list_tasks_ordered ps p) \<and>
     (\<exists>x. task_repo_get ts t = Some x \<and> \<not> is_terminal (t_status x))"

definition task_done :: "task_store \<Rightarrow> uuid \<Rightarrow> bool" where
  "task_done ts t \<longleftrightarrow> (\<exists>x. task_repo_get ts t = Some x \<and> t_status x = Done)"

text \<open>What an open member waits on: a dependency that is not a finished member of the plan, or an
  unfinished (or missing) blocker.\<close>

definition waits_on :: "plan_store \<Rightarrow> task_store \<Rightarrow> relation_table \<Rightarrow> uuid \<Rightarrow> uuid \<Rightarrow> uuid \<Rightarrow> bool" where
  "waits_on ps ts rels p t b \<longleftrightarrow> open_member ps ts p t \<and>
     ((\<exists>pt \<in> set (list_tasks_ordered ps p). pt_task_id pt = t \<and> b \<in> set (pt_depends_on pt) \<and>
         \<not> (b \<in> pt_task_id ` set (list_tasks_ordered ps p) \<and> task_done ts b)) \<or>
      (\<exists>r \<in> set rels. rel_kind r = Blocks \<and> rel_to r = t \<and> rel_from r = b \<and> \<not> task_done ts b))"

lemma fold_put_tasks:
  "keys_distinct t_id xs \<Longrightarrow>
   fold (\<lambda>t m. m(t_id t \<mapsto> t)) xs m i = (case row_get t_id xs i of Some t \<Rightarrow> Some t | None \<Rightarrow> m i)"
proof (induction xs arbitrary: m)
  case (Cons x xs)
  then have "t_id x \<notin> t_id ` set xs" "keys_distinct t_id xs" by (auto simp: keys_distinct_def)
  then show ?case using Cons.IH [of "m(t_id x \<mapsto> x)"] row_get_None_iff [of t_id xs "t_id x"]
    by (auto split: option.split)
qed simp

lemma get_many_get:
  "row_get t_id (get_many ts ids) i = (if i \<in> set ids then task_repo_get ts i else None)"
proof -
  have "row_get t_id (filter (\<lambda>t. t_id t \<in> set ids) (map tr_task rs)) i =
      (if i \<in> set ids then map_option tr_task (row_get row_id rs i) else None)" for rs
    by (induction rs) auto
  then show ?thesis by (auto simp: get_many_def tasks_of_def task_repo_get_def)
qed

lemma load_tasks_get:
  assumes "keys_distinct row_id (ts_rows ts)"
  shows "load_tasks ts ids i = (if i \<in> set ids then task_repo_get ts i else None)"
proof -
  have "keys_distinct t_id (get_many ts ids)"
    using assms by (simp add: get_many_def keys_distinct_def tasks_of_def distinct_map_filter comp_def)
  from fold_put_tasks [OF this] show ?thesis
    by (auto simp: load_tasks_def get_many_get split: option.split)
qed

lemma set_fanout_remaining:
  assumes "keys_distinct row_id (ts_rows ts)"
  shows "set (fanout_remaining (load_tasks ts (map pt_task_id (list_tasks_ordered ps p))) (list_tasks_ordered ps p)) =
    Collect (open_member ps ts p)"
  by (auto simp: fanout_remaining_def open_member_def load_tasks_get [OF assms] split: option.splits)

definition fanout_incoming :: "plan_store \<Rightarrow> task_store \<Rightarrow> relation_table \<Rightarrow> uuid \<Rightarrow> (uuid \<times> uuid) list" where
  "fanout_incoming ps ts rels p =
     (let pts = list_tasks_ordered ps p; ids = map pt_task_id pts; m = load_tasks ts ids;
          rem = fanout_remaining m pts
      in incoming_deps m pts rem @ incoming_blocks ts (list_by_task_ids rels ids) rem)"

lemma done_in_load:
  "keys_distinct row_id (ts_rows ts) \<Longrightarrow> done_in (load_tasks ts xs) i \<longleftrightarrow> i \<in> set xs \<and> task_done ts i"
  by (auto simp: done_in_def task_done_def load_tasks_get split: option.splits)

lemma set_incoming_blocks:
  assumes "keys_distinct row_id (ts_rows ts)"
  shows "(t, b) \<in> set (incoming_blocks ts rs rem) \<longleftrightarrow>
    (\<exists>r \<in> set rs. rel_kind r = Blocks \<and> rel_to r = t \<and> rel_from r = b \<and> t \<in> set rem \<and> \<not> task_done ts b)"
  by (force simp: incoming_blocks_def Let_def done_in_load [OF assms])

lemma set_incoming_deps:
  assumes "keys_distinct row_id (ts_rows ts)"
  shows "(t, b) \<in> set (incoming_deps (load_tasks ts ids) pts rem) \<longleftrightarrow>
    (\<exists>pt \<in> set pts. pt_task_id pt = t \<and> b \<in> set (pt_depends_on pt) \<and> t \<in> set rem \<and> \<not> (b \<in> set ids \<and> task_done ts b))"
  by (auto simp: incoming_deps_def done_in_load [OF assms])

lemma set_fanout_incoming:
  assumes ok: "keys_distinct row_id (ts_rows ts)"
  shows "(t, b) \<in> set (fanout_incoming ps ts rels p) \<longleftrightarrow> waits_on ps ts rels p t b"
proof -
  let ?ids = "map pt_task_id (list_tasks_ordered ps p)"
  have "open_member ps ts p t \<Longrightarrow> r \<in> set rels \<Longrightarrow> rel_to r = t \<Longrightarrow> r \<in> set (list_by_task_ids rels ?ids)" for r
    by (auto simp: open_member_def list_by_task_ids_def)
  moreover have "set (list_by_task_ids rels ?ids) \<subseteq> set rels" by (auto simp: list_by_task_ids_def)
  ultimately show ?thesis
    by (auto simp: fanout_incoming_def Let_def set_incoming_blocks [OF ok] set_incoming_deps [OF ok]
        set_fanout_remaining [OF ok] waits_on_def)
qed

lemma plan_fanout_Inr:
  "plan_fanout ps ts rels p = Inr ws \<longleftrightarrow> plan_get ps p \<noteq> None \<and>
     ws = fanout_loop (list_tasks_ordered ps p)
            (fanout_remaining (load_tasks ts (map pt_task_id (list_tasks_ordered ps p))) (list_tasks_ordered ps p))
            (fanout_incoming ps ts rels p) 0"
  by (cases "plan_get ps p") (auto simp: plan_fanout_def ensure_plan_exists_def fanout_incoming_def Let_def)

lemma members_distinct: "plan_store_ok ps \<Longrightarrow> distinct (map pt_task_id (list_tasks_ordered ps p))"
  using members_of_store [of ps p] unfolding list_tasks_ordered_def
  by (metis distinct_sort distinct_map set_sort)

text \<open>The loop lemmas, read at the level of the plan.\<close>

lemma plan_fanout_once:
  assumes "plan_store_ok ps" "keys_distinct row_id (ts_rows ts)" "plan_fanout ps ts rels p = Inr ws"
  shows "distinct (scheduled ws)" "set (scheduled ws) \<subseteq> Collect (open_member ps ts p)"
proof -
  let ?rem = "fanout_remaining (load_tasks ts (map pt_task_id (list_tasks_ordered ps p))) (list_tasks_ordered ps p)"
  have ws: "ws = fanout_loop (list_tasks_ordered ps p) ?rem (fanout_incoming ps ts rels p) 0"
    using assms(3) by (simp add: plan_fanout_Inr)
  note once = fanout_loop_scheduled [OF members_distinct [OF assms(1)], of p ?rem "fanout_incoming ps ts rels p" 0]
  show "distinct (scheduled ws)" using once ws by simp
  show "set (scheduled ws) \<subseteq> Collect (open_member ps ts p)"
    using once ws set_fanout_remaining [OF assms(2), of ps p] by auto
qed

lemma plan_fanout_order:
  assumes "keys_distinct row_id (ts_rows ts)" "plan_fanout ps ts rels p = Inr ws"
    and "k < length ws" "t \<in> set (fw_tasks (ws ! k))" "waits_on ps ts rels p t b"
  shows "\<exists>j < k. b \<in> set (fw_tasks (ws ! j))"
  using fanout_loop_order assms unfolding plan_fanout_Inr set_fanout_incoming [OF assms(1), symmetric] by blast

lemma plan_fanout_members:
  "keys_distinct row_id (ts_rows ts) \<Longrightarrow>
   set (fanout_remaining (load_tasks ts (map pt_task_id (list_tasks_ordered ps p))) (list_tasks_ordered ps p))
     \<subseteq> pt_task_id ` set (list_tasks_ordered ps p)"
  by (auto simp: set_fanout_remaining open_member_def)

lemma plan_fanout_earliest:
  assumes "keys_distinct row_id (ts_rows ts)" "plan_fanout ps ts rels p = Inr ws"
    and "k < length ws" "t \<in> set (fw_tasks (ws ! k))" "k > 0"
  shows "\<exists>b \<in> set (fw_tasks (ws ! (k - 1))). waits_on ps ts rels p t b"
proof -
  have "Suc (k - 1) = k" using assms(5) by simp
  then show ?thesis
    using fanout_loop_earliest [OF plan_fanout_members [OF assms(1)], of "k - 1"] assms
    unfolding plan_fanout_Inr set_fanout_incoming [OF assms(1), symmetric] by metis
qed

lemma plan_fanout_stuck:
  assumes "keys_distinct row_id (ts_rows ts)" "plan_fanout ps ts rels p = Inr ws"
    and "open_member ps ts p t" "t \<notin> set (scheduled ws)"
  shows "\<exists>b. waits_on ps ts rels p t b \<and> b \<notin> set (scheduled ws)"
  using fanout_loop_stuck [OF plan_fanout_members [OF assms(1)]] assms
  unfolding plan_fanout_Inr set_fanout_incoming [OF assms(1), symmetric]
  by (metis mem_Collect_eq set_fanout_remaining)

lemmas plan_fanout_facts = plan_fanout_once plan_fanout_order plan_fanout_earliest plan_fanout_stuck

subsection \<open>Properties\<close>

text \<open>
  C30: the waves of a plan are a correct and greedy parallel schedule. Every scheduled task is an open
  member and appears once; whatever it waits on is in an earlier wave; it cannot run one wave earlier,
  since it waits on a task of the wave before; and an open member is left out only when it waits on a
  task that is never scheduled.
\<close>

theorem plan_fanout_schedule:
  assumes ok: "plan_store_ok ps" "keys_distinct row_id (ts_rows ts)" and res: "plan_fanout ps ts rels p = Inr ws"
  shows "distinct (scheduled ws) \<and> set (scheduled ws) \<subseteq> Collect (open_member ps ts p) \<and>
    (\<forall>k < length ws. \<forall>t \<in> set (fw_tasks (ws ! k)).
       (\<forall>b. waits_on ps ts rels p t b \<longrightarrow> (\<exists>j < k. b \<in> set (fw_tasks (ws ! j)))) \<and>
       (k > 0 \<longrightarrow> (\<exists>b \<in> set (fw_tasks (ws ! (k - 1))). waits_on ps ts rels p t b))) \<and>
    (\<forall>t. open_member ps ts p t \<and> t \<notin> set (scheduled ws) \<longrightarrow>
       (\<exists>b. waits_on ps ts rels p t b \<and> b \<notin> set (scheduled ws)))"
  using plan_fanout_once [OF ok res] plan_fanout_order [OF ok(2) res] plan_fanout_earliest [OF ok(2) res]
    plan_fanout_stuck [OF ok(2) res] by blast

definition demo_row :: "uuid \<Rightarrow> status \<Rightarrow> task_row" where
  "demo_row i st = \<lparr>tr_task = demo_task i st, tr_status_changed_at = None, tr_pipeline = None\<rparr>"

definition demo_chain_store :: "uuid list \<Rightarrow> plan_store" where
  "demo_chain_store deps = \<lparr>ps_plans = [demo_plan 5 Active],
     ps_plan_tasks = [demo_member 5 1 0, (demo_member 5 2 1)\<lparr>pt_depends_on := deps\<rparr>], ps_sources = []\<rparr>"

definition demo_rows :: "(uuid \<times> status) list \<Rightarrow> task_store" where
  "demo_rows xs = \<lparr>ts_rows = map (\<lambda>(i, st). demo_row i st) xs, ts_due_notifications = []\<rparr>"

lemmas demo_readiness_simps = demo_row_def demo_chain_store_def demo_rows_def demo_member_def demo_plan_simps demo_simps

lemma demo_chain_ok: "plan_store_ok (demo_chain_store deps)"
  by (simp add: plan_store_ok_def keys_distinct_def membership_def demo_readiness_simps)

lemma demo_members:
  "list_tasks_ordered (demo_chain_store deps) 5 = [demo_member 5 1 0, (demo_member 5 2 1)\<lparr>pt_depends_on := deps\<rparr>]"
  by (simp add: list_tasks_ordered_def demo_readiness_simps)

lemma demo_task_map:
  "load_tasks (demo_rows [(1, st1), (2, st2)]) [1, 2] = [1 \<mapsto> demo_task 1 st1, 2 \<mapsto> demo_task 2 st2]"
  by (simp add: load_tasks_def get_many_def tasks_of_def demo_rows_def demo_row_def demo_simps)

lemma demo_fanout:
  "plan_fanout (demo_chain_store [1]) (demo_rows [(1, Todo), (2, Todo)]) [] 5 =
     Inr [\<lparr>fw_wave = 0, fw_tasks = [1]\<rparr>, \<lparr>fw_wave = 1, fw_tasks = [2]\<rparr>]"
proof -
  let ?m = "[1 \<mapsto> demo_task 1 Todo, 2 \<mapsto> demo_task 2 Todo]"
  let ?pts = "[demo_member 5 1 0, (demo_member 5 2 1)\<lparr>pt_depends_on := [1]\<rparr>]"
  have ids: "map pt_task_id ?pts = [1, 2]" by (simp add: demo_member_def)
  have rem: "fanout_remaining ?m ?pts = [1, 2]" by (simp add: fanout_remaining_def demo_member_def demo_simps)
  have inc: "incoming_deps ?m ?pts [1, 2] = [(2, 1)]"
    by (simp add: incoming_deps_def done_in_def demo_member_def demo_simps)
  have loop: "fanout_loop ?pts [1, 2] [(2, 1)] 0 = [\<lparr>fw_wave = 0, fw_tasks = [1]\<rparr>, \<lparr>fw_wave = 1, fw_tasks = [2]\<rparr>]"
    by (simp add: fanout_loop_step fanout_ready_def rest_tasks_def rest_edges_def demo_member_def)
  have "plan_get (demo_chain_store [1]) 5 = Some (demo_plan 5 Active)"
    by (simp add: plan_get_def demo_readiness_simps)
  then show ?thesis
    using loop unfolding plan_fanout_def demo_members ids Let_def demo_task_map rem inc
    by (simp add: ensure_plan_exists_def incoming_blocks_def list_by_task_ids_def)
qed

theorem plan_fanout_schedule_witness:
  "plan_fanout (demo_chain_store [1]) (demo_rows [(1, Todo), (2, Todo)]) [] 5 =
     Inr [\<lparr>fw_wave = 0, fw_tasks = [1]\<rparr>, \<lparr>fw_wave = 1, fw_tasks = [2]\<rparr>] \<and>
   waits_on (demo_chain_store [1]) (demo_rows [(1, Todo), (2, Todo)]) [] 5 2 1"
proof -
  have "keys_distinct row_id (ts_rows (demo_rows [(1, Todo), (2, Todo)]))"
    by (simp add: keys_distinct_def demo_readiness_simps)
  from plan_fanout_schedule [OF demo_chain_ok this demo_fanout] demo_fanout show ?thesis
    by (force dest: spec [of _ 1])
qed

text \<open>
  C31: nothing schedulable is lost. When the waiting relation has no cycle and every awaited task is an
  open member of the plan, the waves cover all open members.
\<close>

theorem plan_fanout_complete:
  assumes ok: "plan_store_ok ps" "keys_distinct row_id (ts_rows ts)" and res: "plan_fanout ps ts rels p = Inr ws"
    and inside: "\<And>t b. waits_on ps ts rels p t b \<Longrightarrow> open_member ps ts p b"
    and acyc: "acyclic {(b, t). waits_on ps ts rels p t b}"
  shows "set (scheduled ws) = Collect (open_member ps ts p)"
proof (rule ccontr)
  let ?U = "Collect (open_member ps ts p) - set (scheduled ws)"
  let ?R = "{(b, t). waits_on ps ts rels p t b}"
  assume "set (scheduled ws) \<noteq> Collect (open_member ps ts p)"
  then obtain t where t: "t \<in> ?U" using plan_fanout_once(2) [OF ok res] by auto
  have "finite (Collect (open_member ps ts p))" using set_fanout_remaining [OF ok(2), of ps p] by (metis finite_set)
  moreover have "?R \<subseteq> Collect (open_member ps ts p) \<times> Collect (open_member ps ts p)"
    using inside by (auto simp: waits_on_def)
  ultimately have "finite ?R" by (meson finite_SigmaI finite_subset)
  then have "wf ?R" using acyc by (rule finite_acyclic_wf)
  then obtain m where m: "m \<in> ?U" "\<And>b. (b, m) \<in> ?R \<Longrightarrow> b \<notin> ?U" using t by (rule wfE_min) blast
  obtain b where "waits_on ps ts rels p m b" "b \<notin> set (scheduled ws)"
    using plan_fanout_stuck [OF ok(2) res] m(1) by auto
  then show False using m(2) inside by auto
qed

lemma waits_on_demo:
  "waits_on (demo_chain_store [1]) (demo_rows [(1, Todo), (2, Todo)]) [] 5 t b \<longleftrightarrow> t = 2 \<and> b = 1"
  unfolding waits_on_def open_member_def demo_members
  by (auto simp: task_done_def task_repo_get_def demo_readiness_simps)

theorem plan_fanout_complete_witness:
  "set (scheduled [\<lparr>fw_wave = 0, fw_tasks = [1]\<rparr>, \<lparr>fw_wave = 1, fw_tasks = [2]\<rparr>]) =
     Collect (open_member (demo_chain_store [1]) (demo_rows [(1, Todo), (2, Todo)]) 5)"
proof -
  let ?ps = "demo_chain_store [1]" and ?ts = "demo_rows [(1, Todo), (2, Todo)]"
  have "keys_distinct row_id (ts_rows ?ts)" by (simp add: keys_distinct_def demo_readiness_simps)
  moreover have "open_member ?ps ?ts 5 b" if "waits_on ?ps ?ts [] 5 t b" for t b
    using that unfolding waits_on_demo open_member_def demo_members
    by (auto simp: task_repo_get_def demo_readiness_simps)
  moreover have "acyclic {(b, t). waits_on ?ps ?ts [] 5 t b}"
  proof -
    have "{(b, t). waits_on ?ps ?ts [] 5 t b} = {(1, 2)}" unfolding waits_on_demo by auto
    then show ?thesis by (simp add: acyclic_insert) (simp add: acyclic_def)
  qed
  ultimately show ?thesis using plan_fanout_complete [OF demo_chain_ok _ demo_fanout] by blast
qed

text \<open>
  A dependency outside the plan is never satisfied for the waves. A member that depends on a task
  which is not a member stays out of every wave, even when that task is done; the next-task resolver,
  which looks the dependency up among all tasks, hands the same member out.
\<close>

theorem plan_fanout_external_dependency:
  assumes ok: "plan_store_ok ps" "keys_distinct row_id (ts_rows ts)" and res: "plan_fanout ps ts rels p = Inr ws"
    and pt: "pt \<in> set (list_tasks_ordered ps p)" "d \<in> set (pt_depends_on pt)"
    and ext: "d \<notin> pt_task_id ` set (list_tasks_ordered ps p)"
  shows "pt_task_id pt \<notin> set (scheduled ws)"
proof
  assume sch: "pt_task_id pt \<in> set (scheduled ws)"
  then obtain k where k: "k < length ws" "pt_task_id pt \<in> set (fw_tasks (ws ! k))" by (auto simp: scheduled_nth)
  have "waits_on ps ts rels p (pt_task_id pt) d"
    using sch plan_fanout_once(2) [OF ok res] pt ext by (auto simp: waits_on_def)
  then obtain j where "j < k" "d \<in> set (fw_tasks (ws ! j))" using plan_fanout_order [OF ok(2) res k] by blast
  then have "d \<in> set (scheduled ws)" using k(1) scheduled_nth by (metis less_trans)
  then show False using plan_fanout_once(2) [OF ok res] ext by (auto simp: open_member_def)
qed

lemma demo_fanout_external:
  "plan_fanout (demo_chain_store [9]) (demo_rows [(1, Done), (2, Todo), (9, Done)]) [] 5 = Inr []"
proof -
  let ?m = "[1 \<mapsto> demo_task 1 Done, 2 \<mapsto> demo_task 2 Todo]"
  let ?pts = "[demo_member 5 1 0, (demo_member 5 2 1)\<lparr>pt_depends_on := [9]\<rparr>]"
  have ids: "map pt_task_id ?pts = [1, 2]" by (simp add: demo_member_def)
  have map: "load_tasks (demo_rows [(1, Done), (2, Todo), (9, Done)]) [1, 2] = ?m"
    by (simp add: load_tasks_def get_many_def tasks_of_def demo_rows_def demo_row_def demo_simps)
  have rem: "fanout_remaining ?m ?pts = [2]" by (simp add: fanout_remaining_def demo_member_def demo_simps)
  have inc: "incoming_deps ?m ?pts [2] = [(2, 9)]"
    by (simp add: incoming_deps_def done_in_def demo_member_def demo_simps)
  have loop: "fanout_loop ?pts [2] [(2, 9)] 0 = []"
    by (simp add: fanout_loop_step fanout_ready_def demo_member_def)
  have "plan_get (demo_chain_store [9]) 5 = Some (demo_plan 5 Active)"
    by (simp add: plan_get_def demo_readiness_simps)
  then show ?thesis
    using loop unfolding plan_fanout_def demo_members ids Let_def map rem inc
    by (simp add: ensure_plan_exists_def incoming_blocks_def list_by_task_ids_def)
qed

theorem plan_fanout_external_dependency_witness:
  "plan_fanout (demo_chain_store [9]) (demo_rows [(1, Done), (2, Todo), (9, Done)]) [] 5 = Inr [] \<and>
   2 \<notin> set (scheduled []) \<and>
   next_in_plan (demo_chain_store [9]) (tasks_of (demo_rows [(1, Done), (2, Todo), (9, Done)])) (Some []) [] 0 5 7 None =
     Inr (Some \<lparr>nx_task_id = 2, nx_position = 1, nx_claim_expires_at = None\<rparr>)"
proof -
  let ?ts = "demo_rows [(1, Done), (2, Todo), (9, Done)]" and ?pt = "(demo_member 5 2 1)\<lparr>pt_depends_on := [9]\<rparr>"
  have keys: "keys_distinct row_id (ts_rows ?ts)" by (simp add: keys_distinct_def demo_readiness_simps)
  have pt: "?pt \<in> set (list_tasks_ordered (demo_chain_store [9]) 5)" "9 \<in> set (pt_depends_on ?pt)"
    by (simp_all add: demo_members)
  have ext: "9 \<notin> pt_task_id ` set (list_tasks_ordered (demo_chain_store [9]) 5)"
    by (simp add: demo_members demo_member_def)
  have "pt_task_id ?pt = 2" by (simp add: demo_member_def)
  then have "2 \<notin> set (scheduled [])"
    using plan_fanout_external_dependency [OF demo_chain_ok keys demo_fanout_external pt ext] by metis
  moreover have "next_in_plan (demo_chain_store [9]) (tasks_of ?ts) (Some []) [] 0 5 7 None =
      Inr (Some \<lparr>nx_task_id = 2, nx_position = 1, nx_claim_expires_at = None\<rparr>)"
  proof -
    have "plan_get (demo_chain_store [9]) 5 = Some (demo_plan 5 Active)"
      by (simp add: plan_get_def demo_readiness_simps)
    then show ?thesis
      by (simp add: next_in_plan_def demo_members resolver_eligible_def deps_ok_def task_get_def
          tasks_of_def list_active_blockers_def list_blockers_def is_claimed_by_other_def live_claims_def
          demo_rows_def demo_row_def demo_member_def demo_plan_def demo_simps)
  qed
  ultimately show ?thesis using demo_fanout_external by blast
qed

text \<open>
  A plan is ready to close exactly when it has at least one member, every member's task exists and
  is in a terminal status, and every child plan is completed or abandoned.
\<close>

theorem plan_ready_to_close_iff:
  "plan_ready_to_close ms cs \<longleftrightarrow>
     ms \<noteq> [] \<and> set ms \<subseteq> Some ` Collect is_terminal \<and> set cs \<subseteq> {Completed, Abandoned}"
proof -
  have "members_terminal any ms =
      (if set ms \<subseteq> Some ` Collect is_terminal then Some (any \<or> ms \<noteq> []) else None)" for any
    by (induction ms arbitrary: any) (auto split: option.splits)
  then show ?thesis by (auto simp: plan_ready_to_close_def list_all_iff)
qed

subsection \<open>Readiness of one task\<close>

definition decision_stops :: "gate_decision \<Rightarrow> bool" where
  "decision_stops d = (case d of GateBlocked _ _ \<Rightarrow> True | GateOverridden ws _ _ \<Rightarrow> ws \<noteq> [] | _ \<Rightarrow> False)"

lemma blocked_outcomes_nonempty [simp]: "blocked_outcomes details message \<noteq> []"
  by (auto simp: blocked_outcomes_def Let_def split: option.splits)

lemma decision_rules_Nil: "fst (decision_rules d) = [] \<longleftrightarrow> \<not> decision_stops d"
  by (auto simp: decision_rules_def decision_stops_def split: gate_decision.splits)

definition start_check :: "task \<Rightarrow> gate_check" where
  "start_check task = (gate_check_new TrigTaskBeforeStart)\<lparr>gc_task_id := Some (t_id task),
     gc_status_from := Some (t_status task), gc_status_to := Some InProgress,
     gc_pending_statuses := [(t_id task, InProgress)]\<rparr>"

lemma derive_start_check:
  "derive_gate_checks [TaskEv (TaskStatusChanged (t_id task) (t_status task) InProgress)] = [start_check task]"
  by (simp add: derive_gate_checks_def derive_checks_def derive_check_def stage_events_def stage_event_def
      attach_staged_def start_check_def gate_check_new_def)

lemma rule_readiness_Nil:
  assumes "rule_readiness (Some (g, a)) task = Inr (bs, ws)"
  shows "bs = [] \<longleftrightarrow> t_status task = InProgress \<or>
    (\<exists>d. g a (start_check task) gate_override_default = Inr d \<and> \<not> decision_stops d)"
  using assms
  by (cases "g a (start_check task) gate_override_default")
    (auto simp: rule_readiness_def derive_start_check decision_rules_Nil [symmetric] split: if_splits)

lemma start_blockers_Nil:
  "start_blockers ts (list_blockers rels t) = [] \<longleftrightarrow>
     (\<forall>r \<in> set rels. rel_kind r = Blocks \<and> rel_to r = t \<longrightarrow>
        (\<forall>b \<in> set (tasks_of ts). t_id b = rel_from r \<longrightarrow> t_status b = Done))"
proof -
  have "set (list_blockers rels t) = {r \<in> set rels. rel_kind r = Blocks \<and> rel_to r = t}" by auto
  moreover have "start_blockers ts rs = [] \<longleftrightarrow>
      (\<forall>r \<in> set rs. \<forall>b \<in> set (tasks_of ts). t_id b = rel_from r \<longrightarrow> t_status b = Done)" for rs
    by (auto simp: start_blockers_def get_many_def filter_empty_conv)
  ultimately show ?thesis by auto
qed

text \<open>
  C19: \<^verbatim>\<open>can_start\<close> tells the truth. With a gate wired, its answer is ready exactly when the task is not
  terminal, no existing blocker is unfinished, and the gate would let the real transition pass without
  an override (a task already in progress needs no transition, so no rule stops it).
\<close>

theorem can_start_exact:
  assumes res: "can_start_of ts rels (Some (g, a)) t = Inr r" and task: "task_repo_get ts t = Some task"
  shows "cs_ready r \<longleftrightarrow> \<not> is_terminal (t_status task) \<and>
     (\<forall>x \<in> set rels. rel_kind x = Blocks \<and> rel_to x = t \<longrightarrow>
        (\<forall>b \<in> set (tasks_of ts). t_id b = rel_from x \<longrightarrow> t_status b = Done)) \<and>
     (t_status task = InProgress \<or>
        (\<exists>d. g a (start_check task) gate_override_default = Inr d \<and> \<not> decision_stops d))"
proof -
  obtain bs ws where rr: "rule_readiness (Some (g, a)) task = Inr (bs, ws)"
    and r: "cs_ready r \<longleftrightarrow> \<not> is_terminal (t_status task) \<and> start_blockers ts (list_blockers rels t) = [] \<and> bs = []"
    using res task by (auto simp: can_start_of_def Let_def bind_result_Inr_iff)
  show ?thesis unfolding r start_blockers_Nil rule_readiness_Nil [OF rr] ..
qed

theorem can_start_exact_witness:
  "can_start_of (demo_rows [(1, Todo)]) [] (Some (\<lambda>_ _ _. Inr (GateBlocked ''stop'' JNull), actor_user)) 1 =
     Inr \<lparr>cs_ready = False, cs_blockers = [],
          cs_rule_blockers = [\<lparr>csr_rule_key = UNNAMED_RULE, csr_message = ''stop''\<rparr>],
          cs_rule_warnings = [], cs_reason = ''blocked_by_1_rule(s)''\<rparr> \<and>
   decision_stops (GateBlocked ''stop'' JNull)"
proof -
  let ?r = "\<lparr>cs_ready = False, cs_blockers = [],
          cs_rule_blockers = [\<lparr>csr_rule_key = UNNAMED_RULE, csr_message = ''stop''\<rparr>],
          cs_rule_warnings = [], cs_reason = ''blocked_by_1_rule(s)''\<rparr>"
  let ?g = "\<lambda>_ _ _. Inr (GateBlocked ''stop'' JNull)"
  have get: "task_repo_get (demo_rows [(1, Todo)]) 1 = Some (demo_task 1 Todo)"
    by (simp add: task_repo_get_def demo_readiness_simps)
  have rules: "rule_readiness (Some (?g, actor_user)) (demo_task 1 Todo) =
      Inr ([\<lparr>csr_rule_key = UNNAMED_RULE, csr_message = ''stop''\<rparr>], [])"
    unfolding rule_readiness_def derive_start_check
    by (simp add: decision_rules_def blocked_outcomes_def warning_outcomes_def rule_key_of_def
        json_array_field_def json_str_field_def json_get_def demo_simps)
  have res: "can_start_of (demo_rows [(1, Todo)]) [] (Some (?g, actor_user)) 1 = Inr ?r"
  proof -
    have "t_status (demo_task i st) = st" for i st by (simp add: demo_simps)
    then show ?thesis using rules unfolding can_start_of_def get
      by (simp add: list_blockers_def start_blockers_def start_reason_def nat_str.simps) (simp add: char_of_def bit_numeral_rec bit_Suc_0_iff)
  qed
  from can_start_exact [OF res get] show ?thesis using res by (simp add: demo_simps)
qed

end
