(* ===== verification/Document_Store.thy ===== *)
theory Document_Store
  imports Task_Store
begin

text \<open>
  The document projection \<^verbatim>\<open>crates/storage/src/document_repo.rs\<close>: the table \<^verbatim>\<open>documents\<close> and the effect of
  every document event on it. A document in \<^verbatim>\<open>draft\<close> or \<^verbatim>\<open>active\<close> is live; a live document is anchored
  to a task, and the sweep lists the live documents whose anchor is missing, gone or terminal. The
  \<^verbatim>\<open>entity_versions\<close> rows written beside each change are not modelled.
\<close>

type_synonym document_table = "document list"

definition APPEND_SEPARATOR :: string where
  "APPEND_SEPARATOR = [CHR 0x0A, CHR 0x0A]"

subsection \<open>Queries\<close>

definition document_get :: "document_table \<Rightarrow> uuid \<Rightarrow> document option" where
  "document_get docs i = row_get doc_id docs i"

definition by_creation :: "document list \<Rightarrow> document list" where
  "by_creation docs = sort_key doc_created_at (sort_key doc_id docs)"

definition list_by_project :: "document_table \<Rightarrow> uuid \<Rightarrow> document_kind option \<Rightarrow> bool \<Rightarrow> document list" where
  "list_by_project docs project kind include_archived =
     by_creation (filter (\<lambda>d. doc_project_id d = project \<and>
         (case kind of Some k \<Rightarrow> doc_kind d = k | None \<Rightarrow> True) \<and>
         (include_archived \<or> doc_archived_at d = None)) docs)"

definition is_live :: "document \<Rightarrow> bool" where
  "is_live d \<longleftrightarrow> doc_status d = DocDraft \<or> doc_status d = DocActive"

definition list_live_by_task :: "document_table \<Rightarrow> uuid \<Rightarrow> document list" where
  "list_live_by_task docs t = by_creation (filter (\<lambda>d. doc_task_id d = Some t \<and> is_live d) docs)"

definition list_sweep_candidates :: "document_table \<Rightarrow> task_table \<Rightarrow> document list" where
  "list_sweep_candidates docs tasks =
     by_creation (filter (\<lambda>d. is_live d \<and>
         (case doc_task_id d of
            None \<Rightarrow> True
          | Some t \<Rightarrow> (case task_get tasks t of None \<Rightarrow> True | Some x \<Rightarrow> t_status x = Done \<or> t_status x = Cancelled))) docs)"

definition list_unread_since :: "document_table \<Rightarrow> uuid \<Rightarrow> timestamp \<Rightarrow> document list" where
  "list_unread_since docs project cutoff =
     (let unread = by_creation (filter (\<lambda>d. doc_project_id d = project \<and> doc_archived_at d = None \<and>
            (case doc_last_read_at d of None \<Rightarrow> True | Some r \<Rightarrow> r < cutoff)) docs)
      in filter (\<lambda>d. doc_last_read_at d = None) unread @
         sort_key (\<lambda>d. unwrap_or 0 (doc_last_read_at d)) (filter (\<lambda>d. doc_last_read_at d \<noteq> None) unread))"

subsection \<open>Writes\<close>

definition mark_read :: "uuid \<Rightarrow> string \<Rightarrow> timestamp \<Rightarrow> int \<Rightarrow> document_table \<Rightarrow> bool \<times> document_table" where
  "mark_read i actor now throttle docs =
     (let counts = (\<lambda>d. doc_id d = i \<and> \<not> (doc_last_read_by d = Some actor \<and>
            (case doc_last_read_at d of Some r \<Rightarrow> now - throttle \<le> r | None \<Rightarrow> False)))
      in (list_ex counts docs,
          map (\<lambda>d. if counts d then d\<lparr>doc_last_read_at := Some now, doc_last_read_by := Some actor,
                                     doc_read_count := doc_read_count d + 1\<rparr> else d) docs))"

definition document_change :: "uuid \<Rightarrow> (document \<Rightarrow> document) \<Rightarrow> document_table \<Rightarrow> document_table" where
  "document_change i f docs =
     (case document_get docs i of Some d \<Rightarrow> row_upsert doc_id (f d) docs | None \<Rightarrow> docs)"

definition set_document_status :: "document_status \<Rightarrow> timestamp \<Rightarrow> document \<Rightarrow> document" where
  "set_document_status to at d = d
     \<lparr>doc_status := to,
      doc_archived_at :=
        (if to = DocArchived then (case doc_archived_at d of None \<Rightarrow> Some at | Some x \<Rightarrow> Some x) else None),
      doc_updated_at := at\<rparr>"

definition document_apply_event :: "event \<Rightarrow> document_table \<Rightarrow> document_table" where
  "document_apply_event e docs =
     (case e of
        DocumentEv (DocumentCreated d) \<Rightarrow> row_upsert doc_id d docs
      | DocumentEv (DocumentContentReplaced i content at) \<Rightarrow>
          document_change i (\<lambda>d. d\<lparr>doc_content := content, doc_updated_at := at\<rparr>) docs
      | DocumentEv (DocumentContentAppended i app at) \<Rightarrow>
          document_change i (\<lambda>d. d\<lparr>doc_content := (if doc_content d = [] then app
                                                 else doc_content d @ APPEND_SEPARATOR @ app),
                                   doc_updated_at := at\<rparr>) docs
      | DocumentEv (DocumentRenamed i title at) \<Rightarrow>
          document_change i (\<lambda>d. d\<lparr>doc_title := title, doc_updated_at := at\<rparr>) docs
      | DocumentEv (DocumentArchived i at) \<Rightarrow>
          document_change i (\<lambda>d. d\<lparr>doc_archived_at := Some at, doc_status := DocArchived, doc_updated_at := at\<rparr>) docs
      | DocumentEv (DocumentStatusChanged i _ to at) \<Rightarrow> document_change i (set_document_status to at) docs
      | DocumentEv (DocumentTaskLinkChanged i task at) \<Rightarrow>
          document_change i (\<lambda>d. d\<lparr>doc_task_id := task, doc_updated_at := at\<rparr>) docs
      | _ \<Rightarrow> docs)"

interpretation document_rows: keyed_table "keys_distinct doc_id" "row_get doc_id" "row_upsert doc_id" "row_delete doc_id" doc_id
  by (rule keyed_table_rows)

subsection \<open>Lemmas\<close>

lemma set_by_creation [simp]: "set (by_creation docs) = set docs"
  by (simp add: by_creation_def)

lemma set_list_live: "set (list_live_by_task docs t) = {d \<in> set docs. doc_task_id d = Some t \<and> is_live d}"
  by (auto simp: list_live_by_task_def)

lemma document_change_get:
  assumes "\<And>d. doc_id (f d) = doc_id d"
  shows "document_get (document_change i f docs) j =
    (if j = i then map_option f (document_get docs j) else document_get docs j)"
  using assms
  by (auto simp: document_change_def document_get_def row_get_upsert split: option.splits dest: row_get_Some)

lemma keys_distinct_change [simp]:
  "keys_distinct doc_id docs \<Longrightarrow> keys_distinct doc_id (document_change i f docs)"
  by (simp add: document_change_def keys_distinct_upsert split: option.split)

lemma document_apply_distinct:
  "keys_distinct doc_id docs \<Longrightarrow> keys_distinct doc_id (document_apply_event e docs)"
  by (cases e) (auto simp: document_apply_event_def keys_distinct_upsert split: document_event.split)

definition archive_coherent :: "document \<Rightarrow> bool" where
  "archive_coherent d \<longleftrightarrow> (doc_archived_at d \<noteq> None \<longleftrightarrow> doc_status d = DocArchived)"

lemma document_change_all:
  assumes "\<forall>d \<in> set docs. P d" and "\<And>d. P d \<Longrightarrow> P (f d)"
  shows "\<forall>d \<in> set (document_change i f docs). P d"
  using assms set_row_upsert [of doc_id _ docs]
  by (fastforce simp: document_change_def document_get_def split: option.splits dest: row_get_Some)

subsection \<open>Properties\<close>

text \<open>
  The lifecycle status and the archive stamp of a document never disagree. If every created document
  is coherent (archived exactly when it carries \<^verbatim>\<open>archived_at\<close>), then so is every document after any
  sequence of document events, and document ids stay unique.
\<close>

theorem documents_archive_coherent:
  assumes "keys_distinct doc_id docs" and "\<forall>d \<in> set docs. archive_coherent d"
    and "\<forall>d. DocumentEv (DocumentCreated d) \<in> set es \<longrightarrow> archive_coherent d"
  shows "keys_distinct doc_id (fold document_apply_event es docs) \<and>
    (\<forall>d \<in> set (fold document_apply_event es docs). archive_coherent d)"
  using assms
proof (induction es arbitrary: docs)
  case (Cons e es)
  have "\<forall>d \<in> set (document_apply_event e docs). archive_coherent d"
  proof (cases e)
    case (DocumentEv de)
    show ?thesis
    proof (cases de)
      case (DocumentCreated d)
      then show ?thesis using Cons.prems DocumentEv set_row_upsert [of doc_id d docs]
        by (auto simp: document_apply_event_def)
    qed (simp_all add: DocumentEv document_apply_event_def, (rule document_change_all [OF Cons.prems(2)],
        simp add: archive_coherent_def set_document_status_def split: option.split)+)
  qed (use Cons.prems in \<open>simp_all add: document_apply_event_def\<close>)
  then show ?case using Cons.IH [of "document_apply_event e docs"] Cons.prems document_apply_distinct by simp
qed simp

definition demo_document :: "uuid \<Rightarrow> uuid option \<Rightarrow> document" where
  "demo_document i task = into_document \<lparr>nd_id = Some i, nd_project_id = 70, nd_kind = Interview, nd_title = ''notes'',
     nd_content = None, nd_status = None, nd_task_id = task, nd_trigger_kind = None, nd_consumer = None\<rparr> i 0"

theorem documents_archive_coherent_witness:
  "list_all archive_coherent (fold document_apply_event
      [DocumentEv (DocumentCreated (demo_document 4 (Some 1))), DocumentEv (DocumentStatusChanged 4 DocActive DocArchived 9)] [])"
proof -
  have "archive_coherent d"
    if "DocumentEv (DocumentCreated d) \<in> set [DocumentEv (DocumentCreated (demo_document 4 (Some 1))),
      DocumentEv (DocumentStatusChanged 4 DocActive DocArchived 9)]" for d
    using that by (simp add: archive_coherent_def demo_document_def into_document_def)
  then show ?thesis unfolding list_all_iff
    by (intro conjunct2 [OF documents_archive_coherent]) (simp_all add: keys_distinct_def)
qed

end
