(* ===== verification/Project_Store.thy ===== *)
theory Project_Store
  imports Events Json_Text "HOL-Library.AList"
begin

text \<open>
  Projects: the projection \<^verbatim>\<open>crates/storage/src/project_repo.rs\<close> (tables \<^verbatim>\<open>projects\<close>, with a unique slug, and
  \<^verbatim>\<open>project_identifier_aliases\<close>) and the settings \<^verbatim>\<open>crates/storage/src/project_settings_repo.rs\<close>. A stored
  setting is the value its JSON text denotes. The foreign key of a project on its tenant is not modelled: every project
  names the default tenant, which the migration inserts.
\<close>

subsection \<open>project\_repo.rs\<close>

record project_alias =
  al_alias :: string
  al_project_id :: uuid
  al_created_at :: timestamp

record project_root =
  rt_project_id :: uuid
  rt_root_path :: string

record project_store =
  pj_rows :: "project list"
  pj_aliases :: "project_alias list"
  pj_roots :: "project_root list"

definition list_projects :: "project_store \<Rightarrow> project list" where
  "list_projects s = sort_key pr_created_at (pj_rows s)"

definition list_by_tenant :: "string \<Rightarrow> project_store \<Rightarrow> project list" where
  "list_by_tenant t s = sort_key pr_created_at (filter (\<lambda>p. pr_tenant_id p = Some t) (pj_rows s))"

definition project_get :: "project_store \<Rightarrow> uuid \<Rightarrow> project option" where
  "project_get s i = row_get pr_id (pj_rows s) i"

text \<open>A slug of a project wins over an alias.\<close>

definition find_by_slug :: "project_store \<Rightarrow> string \<Rightarrow> project option" where
  "find_by_slug s slug =
     (case find (\<lambda>p. pr_slug p = slug) (pj_rows s) of
        Some p \<Rightarrow> Some p
      | None \<Rightarrow>
          (case List.map_filter (\<lambda>a. if al_alias a = slug then project_get s (al_project_id a) else None) (pj_aliases s) of
             p # _ \<Rightarrow> Some p
           | [] \<Rightarrow> None))"

definition stored_project :: "project \<Rightarrow> project" where
  "stored_project p = p\<lparr>pr_tenant_id := Some (unwrap_or DEFAULT_TENANT_ID (pr_tenant_id p))\<rparr>"

text \<open>
  The folders bound to a project (\<^verbatim>\<open>project_roots\<close>) go with its row: the foreign key says \<^verbatim>\<open>ON DELETE CASCADE\<close>, and the
  connection enforces foreign keys.
\<close>

definition drop_roots :: "(uuid \<Rightarrow> bool) \<Rightarrow> project_store \<Rightarrow> project_store" where
  "drop_roots gone s = s\<lparr>pj_roots := filter (\<lambda>r. \<not> gone (rt_project_id r)) (pj_roots s)\<rparr>"

text \<open>
  \<^verbatim>\<open>INSERT OR REPLACE\<close>: the rows with the same id or the same slug are deleted first, and with them the folders
  bound to these projects.
\<close>

definition upsert_project :: "project \<Rightarrow> project_store \<Rightarrow> project_store" where
  "upsert_project p s = drop_roots (\<lambda>i. list_ex (\<lambda>q. pr_id q = i \<and> (i = pr_id p \<or> pr_slug q = pr_slug p)) (pj_rows s))
     (s\<lparr>pj_rows := row_upsert pr_id (stored_project p)
        (filter (\<lambda>q. pr_id q = pr_id p \<or> pr_slug q \<noteq> pr_slug p) (pj_rows s))\<rparr>)"

text \<open>\<^verbatim>\<open>INSERT OR IGNORE\<close> on the primary key \<^verbatim>\<open>alias\<close>.\<close>

definition insert_alias :: "string \<Rightarrow> uuid \<Rightarrow> timestamp \<Rightarrow> project_store \<Rightarrow> project_store" where
  "insert_alias alias i at s =
     (if list_ex (\<lambda>a. al_alias a = alias) (pj_aliases s) then s
      else s\<lparr>pj_aliases := pj_aliases s @ [\<lparr>al_alias = alias, al_project_id = i, al_created_at = at\<rparr>]\<rparr>)"

definition project_delete :: "uuid \<Rightarrow> project_store \<Rightarrow> project_store" where
  "project_delete i s = drop_roots (\<lambda>j. j = i) (s\<lparr>pj_rows := row_delete pr_id i (pj_rows s)\<rparr>)"

definition set_triage_enabled :: "timestamp \<Rightarrow> uuid \<Rightarrow> bool \<Rightarrow> project_store \<Rightarrow> project option \<times> project_store" where
  "set_triage_enabled now i enabled s =
     (let s' = s\<lparr>pj_rows := row_modify pr_id i (\<lambda>p. p\<lparr>pr_triage_enabled := enabled, pr_updated_at := now\<rparr>) (pj_rows s)\<rparr>
      in (project_get s' i, s'))"

definition rename_aliases :: "project \<Rightarrow> string \<Rightarrow> timestamp \<Rightarrow> project_store \<Rightarrow> project_store" where
  "rename_aliases p title at s =
     insert_alias (slugify_title title) (pr_id p) at
       (insert_alias (slugify_title (pr_title p)) (pr_id p) at (insert_alias (pr_slug p) (pr_id p) at s))"

definition apply_project_updated ::
  "uuid \<Rightarrow> string option \<Rightarrow> string option option \<Rightarrow> timestamp \<Rightarrow> project_store \<Rightarrow> project_store" where
  "apply_project_updated i title description at s =
     (case project_get s i of
        None \<Rightarrow> s
      | Some p \<Rightarrow>
          upsert_project
            (p\<lparr>pr_title := unwrap_or (pr_title p) title, pr_description := unwrap_or (pr_description p) description,
               pr_updated_at := at\<rparr>)
            (case title of Some t \<Rightarrow> rename_aliases p t at s | None \<Rightarrow> s))"

definition project_apply_event :: "event_envelope \<Rightarrow> project_store \<Rightarrow> project_store" where
  "project_apply_event env s =
     (case en_payload env of
        TaskEv (ProjectCreated p) \<Rightarrow> upsert_project p s
      | TaskEv (ProjectUpdated i title description) \<Rightarrow> apply_project_updated i title description (en_occurred_at env) s
      | TaskEv (ProjectDeleted i) \<Rightarrow> project_delete i s
      | _ \<Rightarrow> s)"

subsection \<open>Folders bound to projects\<close>

text \<open>
  The folders are read and written by the server (\<^verbatim>\<open>resolve_workspace_context\<close> and \<^verbatim>\<open>upsert_project_root\<close>,
  \<^verbatim>\<open>apps/server/src/routes/mod.rs\<close>): the longest bound folder above the requested one names the project.
\<close>

definition upsert_project_root :: "uuid \<Rightarrow> string \<Rightarrow> project_store \<Rightarrow> project_store" where
  "upsert_project_root i path s =
     (if list_ex (\<lambda>r. rt_root_path r = path) (pj_roots s)
      then s\<lparr>pj_roots := map (\<lambda>r. if rt_root_path r = path then r\<lparr>rt_project_id := i\<rparr> else r) (pj_roots s)\<rparr>
      else s\<lparr>pj_roots := pj_roots s @ [\<lparr>rt_project_id = i, rt_root_path = path\<rparr>]\<rparr>)"

definition inside_root :: "string \<Rightarrow> string \<Rightarrow> bool" where
  "inside_root path base \<longleftrightarrow> path = base \<or>
     (case strip_prefix base path of Some rest \<Rightarrow> starts_with ''/'' rest | None \<Rightarrow> False)"

fun best_root :: "string \<Rightarrow> project_root list \<Rightarrow> (nat \<times> uuid) option \<Rightarrow> (nat \<times> uuid) option" where
  "best_root root [] best = best"
| "best_root root (r # rs) best =
     (let base = trim_end_char (CHR ''/'') (rt_root_path r) in
      best_root root rs
        (if inside_root root base \<and> (case best of None \<Rightarrow> True | Some (len, _) \<Rightarrow> length base > len)
         then Some (length base, rt_project_id r) else best))"

definition resolve_project_root :: "string \<Rightarrow> project_store \<Rightarrow> uuid option result" where
  "resolve_project_root root_path s =
     (let root = trim_end_char (CHR ''/'') (trim root_path) in
      if root = [] then Inl (Validation ''root_path must not be empty'')
      else Inr (map_option snd (best_root root (pj_roots s) None)))"

subsection \<open>project\_settings\_repo.rs\<close>

datatype setting_value =
    AutoAppendValue auto_append_settings
  | IntakeSourceValue intake_source_policy
  | AuditValue json

type_synonym settings_table = "((uuid \<times> string) \<times> setting_value) list"

definition auto_append :: "uuid \<Rightarrow> settings_table \<Rightarrow> auto_append_settings result" where
  "auto_append p st =
     (case map_of st (p, ''auto_append'') of
        None \<Rightarrow> Inr auto_append_default
      | Some (AutoAppendValue v) \<Rightarrow> Inr v
      | Some _ \<Rightarrow> Inl (Serde ''''))"

definition intake_source :: "uuid \<Rightarrow> settings_table \<Rightarrow> intake_source_policy option result" where
  "intake_source p st =
     (case map_of st (p, ''intake_source'') of
        None \<Rightarrow> Inr None
      | Some (IntakeSourceValue v) \<Rightarrow> Inr (Some v)
      | Some _ \<Rightarrow> Inl (Serde ''''))"

definition audit_settings :: "uuid \<Rightarrow> settings_table \<Rightarrow> json option result" where
  "audit_settings p st =
     (case map_of st (p, ''audit'') of
        None \<Rightarrow> Inr None
      | Some (AuditValue v) \<Rightarrow> Inr (Some v)
      | Some _ \<Rightarrow> Inl (Serde ''''))"

definition apply_optional_key ::
  "uuid \<Rightarrow> string \<Rightarrow> setting_value option option \<Rightarrow> settings_table \<Rightarrow> settings_table" where
  "apply_optional_key p k patch st =
     (case patch of
        None \<Rightarrow> st
      | Some None \<Rightarrow> AList.delete (p, k) st
      | Some (Some v) \<Rightarrow> AList.update (p, k) v st)"

definition settings_apply_event :: "event \<Rightarrow> settings_table \<Rightarrow> settings_table" where
  "settings_apply_event e st =
     (case e of
        SettingsEv (ProjectSettingsChanged p auto at intake audit) \<Rightarrow>
          AList.update (p, ''auto_append'') (AutoAppendValue auto)
            (apply_optional_key p ''audit'' (map_option (map_option AuditValue) audit)
              (apply_optional_key p ''intake_source'' (map_option (map_option IntakeSourceValue) intake) st))
      | _ \<Rightarrow> st)"


subsection \<open>A rename unbinds the folders\<close>

lemma best_root_bound: "best_root root rs best = Some (len, i) \<Longrightarrow> best = Some (len, i) \<or> (\<exists>r \<in> set rs. rt_project_id r = i)"
  by (induction rs arbitrary: best) (auto simp: Let_def split: if_splits)

lemma alias_keeps_rows [simp]: "pj_rows (insert_alias a i at s) = pj_rows s"
  by (simp add: insert_alias_def)

lemma rename_keeps_rows [simp]: "pj_rows (rename_aliases p t at s) = pj_rows s"
  by (simp add: rename_aliases_def)

lemma upsert_drops_roots:
  assumes "project_get s (pr_id p) \<noteq> None" "r \<in> set (pj_roots (upsert_project p s))"
  shows "rt_project_id r \<noteq> pr_id p"
  using assms by (auto simp: upsert_project_def drop_roots_def list_ex_iff project_get_def row_get_None_iff)

text \<open>
  Updating a project unbinds its folders. After any update of a stored project, a new title or only a new
  description, no folder resolves to it any more, although the update names neither the folders nor the identity of
  the project.
\<close>

theorem project_update_unbinds_folders:
  assumes "project_get s i = Some p" "en_payload env = TaskEv (ProjectUpdated i title description)"
    and "resolve_project_root path (project_apply_event env s) = Inr (Some j)"
  shows "j \<noteq> i"
proof -
  have i: "pr_id p = i" using assms(1) by (auto simp: project_get_def dest: row_get_Some)
  obtain s' p' where s': "project_apply_event env s = upsert_project p' s'" "pr_id p' = i" "pj_rows s' = pj_rows s"
    using assms(1,2) i by (auto simp: project_apply_event_def apply_project_updated_def split: option.splits)
  then have known: "project_get s' (pr_id p') \<noteq> None" using assms(1) by (simp add: project_get_def)
  obtain r where "r \<in> set (pj_roots (upsert_project p' s'))" "rt_project_id r = j"
    using assms(3) by (auto simp: resolve_project_root_def Let_def s'(1) dest!: best_root_bound split: if_splits)
  then show ?thesis using upsert_drops_roots [OF known] s'(2) by auto
qed

definition demo_project :: "uuid \<Rightarrow> string \<Rightarrow> project" where
  "demo_project i title = project_new_with_slug i 0 title title None"

definition demo_projects :: project_store where
  "demo_projects = \<lparr>pj_rows = [demo_project 70 ''app'', demo_project 71 ''lib''], pj_aliases = [],
     pj_roots = [\<lparr>rt_project_id = 70, rt_root_path = ''/w/app''\<rparr>, \<lparr>rt_project_id = 71, rt_root_path = ''/w''\<rparr>]\<rparr>"


lemma project_update_unbinds_folders_witness:
  "resolve_project_root ''/w/app/src'' demo_projects = Inr (Some 70) \<and>
   resolve_project_root ''/w/app/src'' (project_apply_event
     (envelope_new 1 9 actor_user (TaskEv (ProjectUpdated 70 (Some ''App'') None))) demo_projects) = Inr (Some 71) \<and> (71::uuid) \<noteq> 70"
proof -
  let ?env = "envelope_new 1 9 actor_user (TaskEv (ProjectUpdated 70 (Some ''App'') None))"
  have p: "project_get demo_projects 70 = Some (demo_project 70 ''app'')"
    by (simp add: project_get_def demo_projects_def demo_project_def project_new_with_slug_def)
  have "resolve_project_root ''/w/app/src'' demo_projects = Inr (Some 70) \<and>
    resolve_project_root ''/w/app/src'' (project_apply_event ?env demo_projects) = Inr (Some 71)"
    by code_simp
  then show ?thesis using project_update_unbinds_folders [OF p, of ?env "Some ''App''" None "''/w/app/src''" 71]
    by (simp add: envelope_new_def)
qed

end
