(* ===== verification/Comment_Store.thy ===== *)
theory Comment_Store
  imports Task_Store
begin

text \<open>
  Comments: the projection \<^verbatim>\<open>crates/storage/src/comment_repo.rs\<close> (table \<^verbatim>\<open>comments\<close>, soft deletes). The pattern
  of a search is SQLite's \<^verbatim>\<open>LIKE\<close>, which is an argument.
\<close>

type_synonym comment_table = "comment list"

definition list_for_task :: "uuid \<Rightarrow> comment_table \<Rightarrow> comment list" where
  "list_for_task t cs = sort_key cm_created_at (filter (\<lambda>c. cm_task_id c = t \<and> cm_deleted_at c = None) cs)"

definition list_all_comments :: "comment_table \<Rightarrow> comment list" where
  "list_all_comments cs = sort_key cm_created_at cs"

definition newest_comments :: "comment list \<Rightarrow> comment list" where
  "newest_comments cs = sort_key (\<lambda>c. - cm_created_at c) cs"

definition search_body ::
  "(string \<Rightarrow> string \<Rightarrow> bool) \<Rightarrow> task_store \<Rightarrow> string \<Rightarrow> uuid option \<Rightarrow> nat \<Rightarrow> comment_table \<Rightarrow> comment list" where
  "search_body like ts pattern project limit cs =
     take limit (newest_comments (filter (\<lambda>c. cm_deleted_at c = None \<and> like pattern (cm_body c) \<and>
       (case project of
          None \<Rightarrow> True
        | Some p \<Rightarrow> (case task_repo_get ts (cm_task_id c) of Some t \<Rightarrow> t_project_id t = Some p | None \<Rightarrow> False))) cs))"

definition comment_get :: "comment_table \<Rightarrow> uuid \<Rightarrow> comment option" where
  "comment_get cs i = row_get cm_id cs i"

definition upsert_comment :: "comment \<Rightarrow> comment_table \<Rightarrow> comment_table" where
  "upsert_comment c cs = row_upsert cm_id c cs"

definition apply_comment_patch :: "comment_patch \<Rightarrow> timestamp \<Rightarrow> comment \<Rightarrow> comment" where
  "apply_comment_patch p at c = c\<lparr>cm_body := unwrap_or (cm_body c) (cp_body p), cm_edited_at := Some at\<rparr>"

definition comment_apply_event :: "event \<Rightarrow> comment_table \<Rightarrow> comment_table" where
  "comment_apply_event e cs =
     (case e of
        TaskEv (CommentAdded c) \<Rightarrow> upsert_comment c cs
      | TaskEv (CommentEdited i _ p at) \<Rightarrow>
          (case comment_get cs i of Some c \<Rightarrow> upsert_comment (apply_comment_patch p at c) cs | None \<Rightarrow> cs)
      | TaskEv (CommentDeleted i _ at) \<Rightarrow> row_modify cm_id i (\<lambda>c. c\<lparr>cm_deleted_at := Some at\<rparr>) cs
      | _ \<Rightarrow> cs)"

interpretation comments: keyed_table "keys_distinct cm_id" comment_get upsert_comment "row_delete cm_id" cm_id
  unfolding comment_get_def [abs_def] upsert_comment_def [abs_def] by (rule keyed_table_rows)

lemma comment_apply_distinct: "keys_distinct cm_id cs \<Longrightarrow> keys_distinct cm_id (comment_apply_event e cs)"
  by (auto simp: comment_apply_event_def upsert_comment_def table_simps split: event.splits task_event.splits option.splits)

text \<open>What an event does to one comment.\<close>

definition changed_comment :: "event \<Rightarrow> comment \<Rightarrow> comment" where
  "changed_comment e c =
     (case e of
        TaskEv (CommentAdded n) \<Rightarrow> if cm_id n = cm_id c then n else c
      | TaskEv (CommentEdited i _ p at) \<Rightarrow> if i = cm_id c then apply_comment_patch p at c else c
      | TaskEv (CommentDeleted i _ at) \<Rightarrow> if i = cm_id c then c\<lparr>cm_deleted_at := Some at\<rparr> else c
      | _ \<Rightarrow> c)"

lemma comment_get_id: "comment_get cs i = Some c \<Longrightarrow> cm_id c = i"
  by (auto simp: comment_get_def dest: row_get_Some)

lemma comment_apply_get:
  "comment_get cs i = Some c \<Longrightarrow> comment_get (comment_apply_event e cs) i = Some (changed_comment e c)"
  using comment_get_id [of cs i c]
  by (auto simp: comment_apply_event_def changed_comment_def comment_get_def upsert_comment_def table_simps
      apply_comment_patch_def split: event.splits task_event.splits option.splits dest: row_get_Some)

end
