(* ===== verification/Session_Store.thy ===== *)
theory Session_Store
  imports Events
begin

text \<open>
  Agent sessions (\<^verbatim>\<open>crates/storage/src/session_repo.rs\<close>, tables \<^verbatim>\<open>agent_sessions\<close> and \<^verbatim>\<open>session_artifacts\<close>) and run
  notes (\<^verbatim>\<open>crates/storage/src/run_note_repo.rs\<close>, table \<^verbatim>\<open>run_notes\<close>) with the paging of their list.
\<close>

subsection \<open>session\_repo.rs\<close>

record session_store =
  ss_sessions :: "agent_session list"
  ss_artifacts :: "session_artifact list"

definition session_get :: "session_store \<Rightarrow> uuid \<Rightarrow> agent_session option" where
  "session_get s i = row_get se_id (ss_sessions s) i"

definition list_for_agent :: "uuid \<Rightarrow> session_store \<Rightarrow> agent_session list" where
  "list_for_agent a s = sort_key se_started_at (filter (\<lambda>x. se_agent_id x = a) (ss_sessions s))"

definition list_active_sessions :: "session_store \<Rightarrow> agent_session list" where
  "list_active_sessions s = sort_key se_started_at (filter (\<lambda>x. se_ended_at x = None) (ss_sessions s))"

definition list_session_artifacts :: "uuid \<Rightarrow> session_store \<Rightarrow> session_artifact list" where
  "list_session_artifacts i s =
     sort_key sa_created_at (sort_key sa_id (filter (\<lambda>x. sa_session_id x = i) (ss_artifacts s)))"

definition upsert_session :: "agent_session \<Rightarrow> session_store \<Rightarrow> session_store" where
  "upsert_session x s = s\<lparr>ss_sessions := row_upsert se_id x (ss_sessions s)\<rparr>"

definition session_end :: "uuid \<Rightarrow> timestamp \<Rightarrow> session_store \<Rightarrow> session_store" where
  "session_end i at s = s\<lparr>ss_sessions := row_modify se_id i (\<lambda>x. x\<lparr>se_ended_at := Some at\<rparr>) (ss_sessions s)\<rparr>"

definition update_plan_steps :: "uuid \<Rightarrow> agent_session_plan_step list \<Rightarrow> session_store \<Rightarrow> session_store" where
  "update_plan_steps i steps s = s\<lparr>ss_sessions := row_modify se_id i (\<lambda>x. x\<lparr>se_plan_steps := steps\<rparr>) (ss_sessions s)\<rparr>"

definition upsert_session_artifact :: "session_artifact \<Rightarrow> session_store \<Rightarrow> session_store" where
  "upsert_session_artifact a s = s\<lparr>ss_artifacts := row_upsert sa_id a (ss_artifacts s)\<rparr>"

definition session_apply_event :: "event \<Rightarrow> session_store \<Rightarrow> session_store" where
  "session_apply_event e s =
     (case e of
        SessionEv (AgentSessionStarted x) \<Rightarrow> upsert_session x s
      | SessionEv (AgentSessionEnded i at) \<Rightarrow> session_end i at s
      | SessionEv (AgentSessionPlanUpdated i steps) \<Rightarrow> update_plan_steps i steps s
      | SessionEv (SessionArtifactAttached a) \<Rightarrow> upsert_session_artifact a s
      | _ \<Rightarrow> s)"

fun artifact_kind_str :: "session_artifact_kind \<Rightarrow> string" where
  "artifact_kind_str SaFile = ''file''"
| "artifact_kind_str SaUrl = ''url''"
| "artifact_kind_str SaDiff = ''diff''"

definition parse_artifact_kind :: "string \<Rightarrow> session_artifact_kind result" where
  "parse_artifact_kind raw =
     (if raw = ''file'' then Inr SaFile
      else if raw = ''url'' then Inr SaUrl
      else if raw = ''diff'' then Inr SaDiff
      else Inl (Serde ''unknown session artifact kind: ''))"

lemma parse_artifact_kind_str: "parse_artifact_kind (artifact_kind_str k) = Inr k"
  by (cases k) (simp_all add: parse_artifact_kind_def)

lemma session_apply_distinct:
  "keys_distinct se_id (ss_sessions s) \<Longrightarrow> keys_distinct sa_id (ss_artifacts s) \<Longrightarrow>
   keys_distinct se_id (ss_sessions (session_apply_event e s)) \<and> keys_distinct sa_id (ss_artifacts (session_apply_event e s))"
  by (auto simp: session_apply_event_def upsert_session_def session_end_def update_plan_steps_def upsert_session_artifact_def
      table_simps split: event.splits session_event.splits)

subsection \<open>run\_note\_repo.rs\<close>

type_synonym run_note_table = "run_note list"

definition clamp_limit :: "nat \<Rightarrow> nat" where
  "clamp_limit n = max 1 (min n 500)"

definition note_order :: "run_note list \<Rightarrow> run_note list" where
  "note_order ns = sort_key rn_created_at (sort_key rn_id ns)"

text \<open>The strict comparison \<^verbatim>\<open>(created_at, id)\<close> of the cursor.\<close>

definition after_cursor :: "timestamp \<Rightarrow> uuid \<Rightarrow> run_note \<Rightarrow> bool" where
  "after_cursor at i n \<longleftrightarrow> rn_created_at n > at \<or> (rn_created_at n = at \<and> rn_id n > i)"

definition list_for_run :: "uuid \<Rightarrow> nat \<Rightarrow> uuid option \<Rightarrow> run_note_table \<Rightarrow> run_note list" where
  "list_for_run r limit after ns =
     (let of_run = filter (\<lambda>n. rn_run_id n = r) ns in
      case after of
        None \<Rightarrow> take (clamp_limit limit) (note_order of_run)
      | Some i \<Rightarrow>
          (case find (\<lambda>n. rn_id n = i) of_run of
             None \<Rightarrow> []
           | Some c \<Rightarrow> take (clamp_limit limit) (note_order (filter (after_cursor (rn_created_at c) i) of_run))))"

definition run_note_get :: "run_note_table \<Rightarrow> uuid \<Rightarrow> run_note option" where
  "run_note_get ns i = row_get rn_id ns i"

definition run_note_upsert :: "run_note \<Rightarrow> run_note_table \<Rightarrow> run_note_table" where
  "run_note_upsert n ns = row_upsert rn_id n ns"

text \<open>
  The foreign key to \<^verbatim>\<open>runs\<close>: a note of an unknown run is refused, and replacing a run row (\<^verbatim>\<open>INSERT OR REPLACE\<close> on
  \<^verbatim>\<open>RunStarted\<close>) deletes its notes (\<^verbatim>\<open>ON DELETE CASCADE\<close>).
\<close>

definition run_note_apply_event :: "(uuid \<Rightarrow> bool) \<Rightarrow> event \<Rightarrow> run_note_table \<Rightarrow> run_note_table result" where
  "run_note_apply_event knows e ns =
     (case e of
        RunEv (RunNoteAppended r i body author at) \<Rightarrow>
          if knows r
          then Inr (run_note_upsert \<lparr>rn_id = i, rn_run_id = r, rn_body = body, rn_author = author, rn_created_at = at\<rparr> ns)
          else Inl (Storage ''FOREIGN KEY constraint failed'')
      | _ \<Rightarrow> Inr ns)"

definition run_notes_cascade :: "event \<Rightarrow> run_note_table \<Rightarrow> run_note_table" where
  "run_notes_cascade e ns =
     (case e of RunEv (RunStarted r) \<Rightarrow> filter (\<lambda>n. rn_run_id n \<noteq> r_id r) ns | _ \<Rightarrow> ns)"

subsection \<open>Paging\<close>

lemma insort_key_lex:
  assumes "sorted_wrt (\<lambda>a b. f a < f b \<or> (f a = f b \<and> Q a b)) zs" "sorted (map f zs)" "\<forall>z \<in> set zs. Q y z"
  shows "sorted_wrt (\<lambda>a b. f a < f b \<or> (f a = f b \<and> Q a b)) (insort_key f y zs)"
  using assms by (induction zs) (auto simp: set_insort_key)

text \<open>Sorting by a second key keeps the order of the first among equals.\<close>

lemma sort_key_lex: "sorted_wrt Q ys \<Longrightarrow> sorted_wrt (\<lambda>a b. f a < f b \<or> (f a = f b \<and> Q a b)) (sort_key f ys)"
  by (induction ys) (auto intro!: insort_key_lex)

lemma note_order_sorted:
  assumes "keys_distinct rn_id ns"
  shows "sorted_wrt (\<lambda>a b. after_cursor (rn_created_at a) (rn_id a) b) (note_order ns)"
proof -
  have "sorted (map rn_id (sort_key rn_id ns))" "distinct (map rn_id (sort_key rn_id ns))"
    using assms by (simp_all add: keys_distinct_def distinct_map)
  then have "sorted_wrt (<) (map rn_id (sort_key rn_id ns))" by (simp add: strict_sorted_iff)
  then have "sorted_wrt (\<lambda>a b. rn_id a < rn_id b) (sort_key rn_id ns)" by (simp add: sorted_wrt_map)
  from sort_key_lex [OF this, of rn_created_at] show ?thesis
    by (simp add: note_order_def after_cursor_def [abs_def] eq_commute)
qed

lemma filter_after_nth:
  assumes "sorted_wrt R xs" "\<And>a b. R a b \<Longrightarrow> \<not> R b a" "k < length xs"
  shows "filter (R (xs ! k)) xs = drop (Suc k) xs"
  using assms
proof (induction xs arbitrary: k)
  case (Cons x xs)
  show ?case
  proof (cases k)
    case 0
    then show ?thesis using Cons.prems by (auto simp: filter_id_conv)
  next
    case (Suc m)
    then have "xs ! m \<in> set xs" using Cons.prems by simp
    then show ?thesis using Cons Suc by auto
  qed
qed simp

lemma note_order_filter: "note_order (filter P ns) = filter P (note_order ns)"
  by (simp add: note_order_def filter_sort)

text \<open>
  Paging through the notes of a run neither skips nor repeats a note: the page after the note at
  position \<open>k\<close> starts at position \<open>k + 1\<close>, whatever notes share a timestamp.
\<close>

theorem run_note_paging_exact:
  assumes "keys_distinct rn_id ns" and "k < length (note_order (filter (\<lambda>n. rn_run_id n = r) ns))"
  shows "list_for_run r limit (Some (rn_id (note_order (filter (\<lambda>n. rn_run_id n = r) ns) ! k))) ns =
    take (clamp_limit limit) (drop (Suc k) (note_order (filter (\<lambda>n. rn_run_id n = r) ns)))"
proof -
  let ?of_run = "filter (\<lambda>n. rn_run_id n = r) ns"
  let ?c = "note_order ?of_run ! k"
  have dist: "keys_distinct rn_id ?of_run"
    using assms(1) by (simp add: keys_distinct_def distinct_map_filter)
  have "?c \<in> set (note_order ?of_run)" using assms(2) by simp
  then have "?c \<in> set ?of_run" by (simp add: note_order_def)
  then have "row_get rn_id ?of_run (rn_id ?c) = Some ?c" using row_get_mem [OF dist] by simp
  then have found: "find (\<lambda>n. rn_id n = rn_id ?c) ?of_run = Some ?c" by (simp add: row_get_def)
  have "filter (after_cursor (rn_created_at ?c) (rn_id ?c)) (note_order ?of_run) = drop (Suc k) (note_order ?of_run)"
    by (rule filter_after_nth [OF note_order_sorted [OF dist] _ assms(2)]) (auto simp: after_cursor_def)
  then have "note_order (filter (after_cursor (rn_created_at ?c) (rn_id ?c)) ?of_run) = drop (Suc k) (note_order ?of_run)"
    by (simp only: note_order_filter [of "after_cursor (rn_created_at ?c) (rn_id ?c)"])
  with found show ?thesis unfolding list_for_run_def Let_def by (simp only: option.case)
qed

definition demo_notes :: run_note_table where
  "demo_notes = map (\<lambda>i. \<lparr>rn_id = i, rn_run_id = 1, rn_body = [], rn_author = actor_user, rn_created_at = 5\<rparr>) [3, 1, 2]"

lemma run_note_paging_exact_witness:
  "map rn_id (list_for_run 1 1 (Some 1) demo_notes) = [2]"
proof -
  have "note_order (filter (\<lambda>n. rn_run_id n = 1) demo_notes) ! 0 =
      \<lparr>rn_id = 1, rn_run_id = 1, rn_body = [], rn_author = actor_user, rn_created_at = 5\<rparr>"
    by (simp add: demo_notes_def note_order_def)
  with run_note_paging_exact [of demo_notes 0 1 1] show ?thesis
    by (simp add: demo_notes_def note_order_def keys_distinct_def clamp_limit_def)
qed

end
