(* ===== verification/Work_Leases.thy ===== *)
theory Work_Leases
  imports Events "HOL-Library.AList" "HOL-Library.Char_ord" "HOL-Library.List_Lexorder"
begin

text \<open>
  Resource leases \<^verbatim>\<open>crates/storage/src/work_lease_repo.rs\<close>: the table \<^verbatim>\<open>work_leases\<close> and the fencing counters
  \<^verbatim>\<open>lease_fencing_seq\<close>. A reservation runs in one \<^verbatim>\<open>BEGIN IMMEDIATE\<close> transaction: it scans the live leases of
  other agents in the project and either reports the first conflict or grants every target, each with the next
  token of its resource. \<open>fresh k\<close> is the id drawn for the \<open>k\<close>-th granted lease.
\<close>

record lease_store =
  ls_leases :: "work_lease list"
  ls_seq :: "(string \<times> int) list"

datatype reserve_outcome = Reserved "work_lease list" | ReserveConflict string uuid uuid

subsection \<open>Reservation\<close>

definition requested_targets :: "string list \<Rightarrow> string list" where
  "requested_targets targets = remdups_adj (sort (map canonical_target_uri targets))"

definition other_live_leases :: "timestamp \<Rightarrow> uuid \<Rightarrow> uuid option \<Rightarrow> work_lease list \<Rightarrow> work_lease list" where
  "other_live_leases now agent project ls =
     filter (\<lambda>l. wl_expires_at l \<ge> now \<and> wl_agent_id l \<noteq> agent \<and> wl_project_id l = project) ls"

fun find_conflict :: "lease_mode \<Rightarrow> string list \<Rightarrow> work_lease list \<Rightarrow> reserve_outcome option" where
  "find_conflict mode requested [] = None"
| "find_conflict mode requested (l # ls) =
     (if \<not> mode_conflicts_with mode (wl_mode l) then find_conflict mode requested ls
      else case find (\<lambda>req. targets_overlap req (resource_key l)) requested of
             Some req \<Rightarrow> Some (ReserveConflict req (wl_agent_id l) (wl_task_id l))
           | None \<Rightarrow> find_conflict mode requested ls)"

definition lease_glob :: "string \<Rightarrow> string" where
  "lease_glob req = unwrap_or req (strip_prefix ''file://'' req)"

definition replaced_lease :: "uuid \<Rightarrow> uuid \<Rightarrow> string \<Rightarrow> work_lease \<Rightarrow> bool" where
  "replaced_lease agent task req l \<longleftrightarrow>
     wl_agent_id l = agent \<and> wl_task_id l = task \<and>
     (wl_target_uri l = Some req \<or> (wl_target_uri l = None \<and> wl_path_glob l = lease_glob req))"

definition next_token :: "(string \<times> int) list \<Rightarrow> string \<Rightarrow> int" where
  "next_token seqs req = unwrap_or 0 (map_of seqs req) + 1"

definition grant_target ::
  "timestamp \<Rightarrow> int \<Rightarrow> uuid \<Rightarrow> uuid \<Rightarrow> uuid option \<Rightarrow> lease_mode \<Rightarrow> uuid \<Rightarrow> string \<Rightarrow> lease_store \<Rightarrow> work_lease \<times> lease_store" where
  "grant_target now ttl agent task project mode lease_id req st =
     (let token = next_token (ls_seq st) req;
          l = \<lparr>wl_id = lease_id, wl_agent_id = agent, wl_task_id = task, wl_project_id = project,
               wl_path_glob = lease_glob req, wl_target_uri = Some req, wl_mode = mode,
               wl_fencing_token = Some token, wl_acquired_at = now, wl_expires_at = now + ttl\<rparr>
      in (l, \<lparr>ls_leases = filter (\<lambda>x. \<not> replaced_lease agent task req x) (ls_leases st) @ [l],
              ls_seq = AList.update req token (ls_seq st)\<rparr>))"

fun grant_targets ::
  "timestamp \<Rightarrow> int \<Rightarrow> uuid \<Rightarrow> uuid \<Rightarrow> uuid option \<Rightarrow> lease_mode \<Rightarrow> (nat \<Rightarrow> uuid) \<Rightarrow> nat \<Rightarrow> string list \<Rightarrow> lease_store \<Rightarrow>
   work_lease list \<times> lease_store" where
  "grant_targets now ttl agent task project mode fresh k [] st = ([], st)"
| "grant_targets now ttl agent task project mode fresh k (req # reqs) st =
     (let (l, st1) = grant_target now ttl agent task project mode (fresh k) req st;
          (ls, st2) = grant_targets now ttl agent task project mode fresh (Suc k) reqs st1
      in (l # ls, st2))"

definition try_reserve_targets ::
  "timestamp \<Rightarrow> (nat \<Rightarrow> uuid) \<Rightarrow> uuid \<Rightarrow> uuid \<Rightarrow> uuid option \<Rightarrow> string list \<Rightarrow> lease_mode \<Rightarrow> int \<Rightarrow> lease_store \<Rightarrow>
   reserve_outcome \<times> lease_store" where
  "try_reserve_targets now fresh agent task project targets mode ttl st =
     (let requested = requested_targets targets in
      case find_conflict mode requested (other_live_leases now agent project (ls_leases st)) of
        Some conflict \<Rightarrow> (conflict, st)
      | None \<Rightarrow>
          (case grant_targets now ttl agent task project mode fresh 0 requested st of
             (ls, st') \<Rightarrow> (Reserved ls, st')))"

definition try_reserve ::
  "timestamp \<Rightarrow> (nat \<Rightarrow> uuid) \<Rightarrow> uuid \<Rightarrow> uuid \<Rightarrow> uuid option \<Rightarrow> string list \<Rightarrow> int \<Rightarrow> lease_store \<Rightarrow> reserve_outcome \<times> lease_store" where
  "try_reserve now fresh agent task project paths ttl st =
     try_reserve_targets now fresh agent task project paths Exclusive ttl st"

subsection \<open>Fencing, release and projection\<close>

definition check_fencing_token :: "timestamp \<Rightarrow> uuid \<Rightarrow> string \<Rightarrow> int \<Rightarrow> lease_store \<Rightarrow> bool" where
  "check_fencing_token now agent target token st =
     (let key = canonical_target_uri target in
      if map_of (ls_seq st) key \<noteq> Some token then False
      else list_ex (\<lambda>l. wl_agent_id l = agent \<and> wl_target_uri l = Some key \<and> wl_fencing_token l = Some token \<and>
                        wl_expires_at l \<ge> now) (ls_leases st))"

definition filter_leases :: "(work_lease \<Rightarrow> bool) \<Rightarrow> lease_store \<Rightarrow> lease_store" where
  "filter_leases p st = st\<lparr>ls_leases := filter p (ls_leases st)\<rparr>"

definition release_all_for_task :: "uuid \<Rightarrow> lease_store \<Rightarrow> lease_store" where
  "release_all_for_task task st = filter_leases (\<lambda>l. wl_task_id l \<noteq> task) st"

definition release_for_task :: "uuid \<Rightarrow> uuid \<Rightarrow> lease_store \<Rightarrow> lease_store" where
  "release_for_task agent task st = filter_leases (\<lambda>l. \<not> (wl_agent_id l = agent \<and> wl_task_id l = task)) st"

definition release_leases :: "uuid \<Rightarrow> uuid \<Rightarrow> uuid list \<Rightarrow> lease_store \<Rightarrow> lease_store" where
  "release_leases agent task ids st =
     fold (\<lambda>i. filter_leases (\<lambda>l. \<not> (wl_id l = i \<and> wl_agent_id l = agent \<and> wl_task_id l = task))) ids st"

definition apply_reserved :: "work_lease \<Rightarrow> lease_store \<Rightarrow> lease_store" where
  "apply_reserved l st = st\<lparr>ls_leases := row_upsert wl_id l (ls_leases st)\<rparr>"

definition lease_apply_event :: "event \<Rightarrow> lease_store \<Rightarrow> lease_store" where
  "lease_apply_event e st =
     (case e of
        SessionEv (FilesReserved ls) \<Rightarrow> fold apply_reserved ls st
      | SessionEv (FilesReleased agent task None) \<Rightarrow> release_for_task agent task st
      | SessionEv (FilesReleased agent task (Some ids)) \<Rightarrow> release_leases agent task ids st
      | TaskEv (TaskClosed task _ _) \<Rightarrow> release_all_for_task task st
      | _ \<Rightarrow> st)"

record swept_leases =
  sw_agent_id :: uuid
  sw_task_id :: uuid
  sw_lease_ids :: "uuid list"

fun group_swept :: "swept_leases list \<Rightarrow> work_lease list \<Rightarrow> swept_leases list" where
  "group_swept groups [] = groups"
| "group_swept groups (l # ls) =
     (if groups \<noteq> [] \<and> sw_agent_id (last groups) = wl_agent_id l \<and> sw_task_id (last groups) = wl_task_id l
      then group_swept (butlast groups @ [(last groups)\<lparr>sw_lease_ids := sw_lease_ids (last groups) @ [wl_id l]\<rparr>]) ls
      else group_swept (groups @ [\<lparr>sw_agent_id = wl_agent_id l, sw_task_id = wl_task_id l, sw_lease_ids = [wl_id l]\<rparr>]) ls)"

definition sweep_expired_leases :: "timestamp \<Rightarrow> lease_store \<Rightarrow> swept_leases list \<times> lease_store" where
  "sweep_expired_leases now st =
     (let expired = sort_key wl_agent_id (sort_key wl_task_id (sort_key wl_id
            (filter (\<lambda>l. wl_expires_at l < now) (ls_leases st))));
          swept = group_swept [] expired
      in (swept, if swept \<noteq> [] then filter_leases (\<lambda>l. \<not> wl_expires_at l < now) st else st))"

definition list_active_leases :: "timestamp \<Rightarrow> uuid option \<Rightarrow> lease_store \<Rightarrow> work_lease list" where
  "list_active_leases now project st =
     sort_key wl_acquired_at (filter (\<lambda>l. wl_expires_at l \<ge> now \<and>
       (case project of Some p \<Rightarrow> wl_project_id l = Some p | None \<Rightarrow> True)) (ls_leases st))"

subsection \<open>The lease machine\<close>

text \<open>
  Everything that changes the tables while the server runs; every step carries the clock it reads. A reservation grants
  leases, and its \<^verbatim>\<open>FilesReserved\<close> event is projected by a command of its own, at any time later; the same command
  can come from a client with leases the server never granted. So any event may be projected at any time. The machine
  notes the leases \<open>granted\<close> so far and those a projection \<open>revived\<close>: put into the table while they were not in it.
\<close>

inductive lease_run :: "lease_store \<Rightarrow> work_lease set \<Rightarrow> work_lease set \<Rightarrow> bool" where
  lease_init: "lease_run \<lparr>ls_leases = [], ls_seq = []\<rparr> {} {}"
| lease_granted: "lease_run st granted revived \<Longrightarrow>
    try_reserve_targets now fresh agent task project targets mode ttl st = (Reserved ls, st') \<Longrightarrow>
    lease_run st' (granted \<union> set ls) revived"
| lease_refused: "lease_run st granted revived \<Longrightarrow>
    try_reserve_targets now fresh agent task project targets mode ttl st = (ReserveConflict req holder holder_task, st') \<Longrightarrow>
    lease_run st' granted revived"
| lease_projected: "lease_run st granted revived \<Longrightarrow> lease_apply_event e st = st' \<Longrightarrow>
    lease_run st' granted (revived \<union> (set (ls_leases st') - set (ls_leases st)))"
| lease_swept: "lease_run st granted revived \<Longrightarrow> sweep_expired_leases now st = (swept, st') \<Longrightarrow> lease_run st' granted revived"

definition conflicting :: "work_lease \<Rightarrow> work_lease \<Rightarrow> bool" where
  "conflicting a b \<longleftrightarrow>
     wl_agent_id a \<noteq> wl_agent_id b \<and> wl_project_id a = wl_project_id b \<and>
     mode_conflicts_with (wl_mode a) (wl_mode b) \<and> targets_overlap (resource_key a) (resource_key b)"

definition leases_exclusive :: "work_lease set \<Rightarrow> bool" where
  "leases_exclusive L \<longleftrightarrow>
     (\<forall>a \<in> L. \<forall>b \<in> L. conflicting a b \<longrightarrow> wl_expires_at a < wl_acquired_at b \<or> wl_expires_at b < wl_acquired_at a)"

lemma leases_exclusive_subset: "leases_exclusive L \<Longrightarrow> K \<subseteq> L \<Longrightarrow> leases_exclusive K"
  by (auto simp: leases_exclusive_def)

lemma targets_overlap_sym: "targets_overlap a b = targets_overlap b a"
  by (auto simp: targets_overlap_def paths_overlap_segments overlap_segments_sym split: option.splits)

lemma conflicting_sym: "conflicting a b = conflicting b a"
  using mode_conflicts_with_sym targets_overlap_sym by (auto simp: conflicting_def)

lemma find_conflict_None:
  "find_conflict mode requested ls = None \<longleftrightarrow>
     (\<forall>l \<in> set ls. mode_conflicts_with mode (wl_mode l) \<longrightarrow>
        (\<forall>req \<in> set requested. \<not> targets_overlap req (resource_key l)))"
  by (induction ls) (auto simp: find_None_iff split: option.splits dest: find_Some_mem)

lemma find_conflict_Some:
  "find_conflict mode requested ls = Some c \<Longrightarrow>
     \<exists>l req. l \<in> set ls \<and> req \<in> set requested \<and> mode_conflicts_with mode (wl_mode l) \<and>
       targets_overlap req (resource_key l) \<and> c = ReserveConflict req (wl_agent_id l) (wl_task_id l)"
proof (induction ls)
  case (Cons l ls)
  show ?case
  proof (cases "mode_conflicts_with mode (wl_mode l)")
    case True
    show ?thesis
    proof (cases "find (\<lambda>req. targets_overlap req (resource_key l)) requested")
      case None
      then show ?thesis using Cons True by auto
    next
      case (Some req)
      then show ?thesis using find_Some_mem [OF Some] True Cons.prems by auto
    qed
  next
    case False
    then show ?thesis using Cons by auto
  qed
qed simp

lemma grant_leases:
  assumes "grant_targets now ttl agent task project mode fresh k reqs st = (ls, st')"
  shows "set (ls_leases st') \<subseteq> set (ls_leases st) \<union> set ls"
    and "l \<in> set ls \<Longrightarrow> \<exists>req \<in> set reqs. wl_agent_id l = agent \<and> wl_project_id l = project \<and> wl_mode l = mode \<and>
       wl_target_uri l = Some req \<and> wl_acquired_at l = now \<and> wl_expires_at l = now + ttl"
proof -
  have "set (ls_leases st') \<subseteq> set (ls_leases st) \<union> set ls \<and>
    (\<forall>l \<in> set ls. \<exists>req \<in> set reqs. wl_agent_id l = agent \<and> wl_project_id l = project \<and> wl_mode l = mode \<and>
       wl_target_uri l = Some req \<and> wl_acquired_at l = now \<and> wl_expires_at l = now + ttl)"
    using assms
  proof (induction reqs arbitrary: k st ls)
    case (Cons req reqs)
    obtain l st1 where one: "grant_target now ttl agent task project mode (fresh k) req st = (l, st1)" by fastforce
    obtain ms st2 where rest: "grant_targets now ttl agent task project mode fresh (Suc k) reqs st1 = (ms, st2)" by fastforce
    have eq: "ls = l # ms" "st' = st2" using Cons.prems one rest by (simp_all add: Let_def)
    have l: "wl_agent_id l = agent" "wl_project_id l = project" "wl_mode l = mode" "wl_target_uri l = Some req"
      "wl_acquired_at l = now" "wl_expires_at l = now + ttl" "set (ls_leases st1) \<subseteq> insert l (set (ls_leases st))"
      using one by (auto simp: grant_target_def Let_def)
    show ?case using Cons.IH [OF rest [folded eq(2)]] l unfolding eq by auto
  qed simp
  then show "set (ls_leases st') \<subseteq> set (ls_leases st) \<union> set ls"
    "l \<in> set ls \<Longrightarrow> \<exists>req \<in> set reqs. wl_agent_id l = agent \<and> wl_project_id l = project \<and> wl_mode l = mode \<and>
       wl_target_uri l = Some req \<and> wl_acquired_at l = now \<and> wl_expires_at l = now + ttl" by blast+
qed

lemma try_reserve_granted:
  assumes "try_reserve_targets now fresh agent task project targets mode ttl st = (Reserved ls, st')"
  shows "find_conflict mode (requested_targets targets) (other_live_leases now agent project (ls_leases st)) = None"
    and "grant_targets now ttl agent task project mode fresh 0 (requested_targets targets) st = (ls, st')"
proof -
  have "find_conflict mode (requested_targets targets) (other_live_leases now agent project (ls_leases st)) \<noteq> Some (Reserved ks)" for ks
    using find_conflict_Some by fastforce
  then show none: "find_conflict mode (requested_targets targets) (other_live_leases now agent project (ls_leases st)) = None"
    using assms by (auto simp: try_reserve_targets_def Let_def split: option.splits)
  show "grant_targets now ttl agent task project mode fresh 0 (requested_targets targets) st = (ls, st')"
    using assms none by (auto simp: try_reserve_targets_def Let_def split: prod.splits)
qed

lemma try_reserve_refused:
  "try_reserve_targets now fresh agent task project targets mode ttl st = (ReserveConflict req holder holder_task, st') \<Longrightarrow> st' = st"
  by (auto simp: try_reserve_targets_def Let_def split: option.splits prod.splits)

text \<open>A granted lease conflicts with no lease of the table that is still live: neither one granted nor one revived.\<close>

lemma reserve_exclusive:
  assumes "try_reserve_targets now fresh agent task project targets mode ttl st = (Reserved ls, st')"
    and "leases_exclusive (set (ls_leases st) - revived)"
  shows "leases_exclusive (set (ls_leases st') - revived)"
proof -
  note none = try_reserve_granted(1) [OF assms(1)] and grant = grant_leases [OF try_reserve_granted(2) [OF assms(1)]]
  have new: "wl_expires_at b < wl_acquired_at a"
    if a: "a \<in> set ls" and b: "b \<in> set (ls_leases st')" and c: "conflicting a b" for a b
  proof -
    obtain req where req: "req \<in> set (requested_targets targets)" "wl_agent_id a = agent" "wl_project_id a = project"
      "wl_mode a = mode" "wl_target_uri a = Some req" "wl_acquired_at a = now"
      using grant(2) [OF a] by blast
    have "b \<notin> set ls" using grant(2) [of b] c req(2) by (auto simp: conflicting_def)
    then have "b \<in> set (ls_leases st)" using grant(1) b by blast
    moreover have "resource_key a = req" using req(5) by (simp add: resource_key_def unwrap_or_def)
    ultimately show ?thesis
      using none c req by (force simp: find_conflict_None other_live_leases_def conflicting_def)
  qed
  show ?thesis unfolding leases_exclusive_def
  proof (intro ballI impI)
    fix a b
    assume in_table: "a \<in> set (ls_leases st') - revived" "b \<in> set (ls_leases st') - revived" and c: "conflicting a b"
    show "wl_expires_at a < wl_acquired_at b \<or> wl_expires_at b < wl_acquired_at a"
    proof (cases "a \<in> set ls \<or> b \<in> set ls")
      case True
      then show ?thesis using new [of a b] new [of b a] in_table c conflicting_sym [of a b] by blast
    next
      case False
      then show ?thesis using grant(1) in_table c assms(2) unfolding leases_exclusive_def by blast
    qed
  qed
qed

text \<open>Sweeping only removes rows, and no projection touches the counters.\<close>

lemma swept_leases:
  "sweep_expired_leases now st = (swept, st') \<Longrightarrow> set (ls_leases st') \<subseteq> set (ls_leases st) \<and> ls_seq st' = ls_seq st"
  by (auto simp: sweep_expired_leases_def filter_leases_def Let_def split: if_splits)

lemma release_leases_seq: "ls_seq (release_leases agent task ids st) = ls_seq st"
  unfolding release_leases_def by (induction ids arbitrary: st) (simp_all add: filter_leases_def)

lemma projected_seq: "ls_seq (lease_apply_event e st) = ls_seq st"
proof -
  have "ls_seq (fold apply_reserved ls st) = ls_seq st" for ls
    by (induction ls arbitrary: st) (simp_all add: apply_reserved_def)
  then show ?thesis
    by (simp add: lease_apply_event_def release_leases_seq release_for_task_def release_all_for_task_def filter_leases_def
        split: event.splits session_event.splits task_event.splits option.splits)
qed

lemma lease_run_exclusive: "lease_run st granted revived \<Longrightarrow> leases_exclusive (set (ls_leases st) - revived)"
proof (induction rule: lease_run.induct)
  case lease_init
  then show ?case by (simp add: leases_exclusive_def)
next
  case lease_granted
  then show ?case by (metis reserve_exclusive)
next
  case (lease_refused st granted revived now fresh agent task project targets mode ttl req holder holder_task st')
  have "st' = st" using lease_refused.hyps(2) by (rule try_reserve_refused)
  then show ?case using lease_refused.IH by simp
next
  case lease_projected
  then show ?case by (elim leases_exclusive_subset) blast
next
  case lease_swept
  then show ?case using swept_leases by (elim leases_exclusive_subset) blast
qed

text \<open>
  C34: at no instant do two agents hold live leases in the same project that conflict in mode and overlap in
  target, unless a projection put one of them into the table while it was not there. This holds over every sequence of
  reservations, projections of any events (late, repeated or sent by a client), and sweeps.
\<close>

theorem lease_mutual_exclusion:
  assumes "lease_run st granted revived" "a \<in> set (ls_leases st)" "b \<in> set (ls_leases st)" "a \<notin> revived" "b \<notin> revived"
    and "wl_acquired_at a \<le> t" "t \<le> wl_expires_at a" "wl_acquired_at b \<le> t" "t \<le> wl_expires_at b"
    and "wl_project_id a = wl_project_id b" "mode_conflicts_with (wl_mode a) (wl_mode b)"
    and "targets_overlap (resource_key a) (resource_key b)"
  shows "wl_agent_id a = wl_agent_id b"
  using lease_run_exclusive [OF assms(1)] assms(2-) by (force simp: leases_exclusive_def conflicting_def)

subsection \<open>Fencing tokens\<close>

definition token_issued :: "(string \<times> int) list \<Rightarrow> work_lease \<Rightarrow> bool" where
  "token_issued seqs l =
     (case (wl_target_uri l, wl_fencing_token l) of
        (Some key, Some token) \<Rightarrow> (case map_of seqs key of Some newest \<Rightarrow> token \<le> newest | None \<Rightarrow> False)
      | _ \<Rightarrow> False)"

text \<open>No two leases ever granted carry the same token of the same resource, and none is above the counter.\<close>

definition tokens_ok :: "(string \<times> int) list \<Rightarrow> work_lease set \<Rightarrow> bool" where
  "tokens_ok seqs L \<longleftrightarrow>
     (\<forall>l \<in> L. token_issued seqs l) \<and>
     (\<forall>a \<in> L. \<forall>b \<in> L. wl_target_uri a = wl_target_uri b \<and> wl_fencing_token a = wl_fencing_token b \<longrightarrow> a = b)"

lemma grant_target_tokens:
  assumes "tokens_ok (ls_seq st) L" "grant_target now ttl agent task project mode i req st = (new, st')"
  shows "tokens_ok (ls_seq st') (insert new L)"
proof -
  let ?token = "next_token (ls_seq st) req"
  have new: "wl_target_uri new = Some req" "wl_fencing_token new = Some ?token"
    and seqs: "map_of (ls_seq st') = (map_of (ls_seq st))(req \<mapsto> ?token)"
    using assms(2) by (auto simp: grant_target_def Let_def update_conv')
  have old: "token_issued (ls_seq st) l" if "l \<in> L" for l
    using that assms(1) by (simp add: tokens_ok_def)
  then have below: "\<not> (wl_target_uri l = Some req \<and> wl_fencing_token l = Some ?token)" if "l \<in> L" for l
    using that by (force simp: token_issued_def next_token_def unwrap_or_def split: option.splits)
  have "token_issued (ls_seq st') l" if "l \<in> insert new L" for l
    using that new old
    by (fastforce simp: token_issued_def seqs next_token_def unwrap_or_def split: option.splits)
  moreover have "a = b" if "a \<in> insert new L" "b \<in> insert new L"
    "wl_target_uri a = wl_target_uri b" "wl_fencing_token a = wl_fencing_token b" for a b
    using that new below assms(1) [unfolded tokens_ok_def] by (metis insert_iff)
  ultimately show ?thesis unfolding tokens_ok_def by blast
qed

lemma grant_targets_tokens:
  "tokens_ok (ls_seq st) L \<Longrightarrow> grant_targets now ttl agent task project mode fresh k reqs st = (ls, st') \<Longrightarrow>
   tokens_ok (ls_seq st') (L \<union> set ls)"
proof (induction reqs arbitrary: k st L ls)
  case (Cons req reqs)
  obtain l st1 where one: "grant_target now ttl agent task project mode (fresh k) req st = (l, st1)" by fastforce
  obtain ms where rest: "grant_targets now ttl agent task project mode fresh (Suc k) reqs st1 = (ms, st')" and ls: "ls = l # ms"
    using Cons.prems(2) one by (auto simp: Let_def split: prod.splits)
  show ?case using Cons.IH [OF grant_target_tokens [OF Cons.prems(1) one] rest] by (simp add: ls)
qed simp

lemma lease_run_tokens: "lease_run st granted revived \<Longrightarrow> tokens_ok (ls_seq st) granted \<and> set (ls_leases st) \<subseteq> granted \<union> revived"
proof (induction rule: lease_run.induct)
  case lease_init
  then show ?case by (simp add: tokens_ok_def)
next
  case (lease_granted st granted revived now fresh agent task project targets mode ttl ls st')
  note grant = try_reserve_granted(2) [OF lease_granted.hyps(2)]
  show ?case using grant_targets_tokens [OF _ grant, of granted] grant_leases(1) [OF grant] lease_granted.IH by blast
next
  case (lease_refused st granted revived now fresh agent task project targets mode ttl req holder holder_task st')
  have "st' = st" using lease_refused.hyps(2) by (rule try_reserve_refused)
  then show ?case using lease_refused.IH by simp
next
  case (lease_projected st granted revived e st')
  then show ?case using projected_seq [of e st] by auto
next
  case (lease_swept st granted revived now swept st')
  then show ?case using swept_leases [OF lease_swept.hyps(2)] by auto
qed

text \<open>
  C35: a fencing token admits at most one holder. As long as every projected lease is one the server had granted, late
  and repeated projections included, two agents that pass the token check on the same resource, at whatever times, are
  the same agent with the same token.
\<close>

theorem fencing_token_unique_holder:
  assumes "lease_run st granted revived" "revived \<subseteq> granted"
    and "check_fencing_token now1 a target token1 st" "check_fencing_token now2 b target token2 st"
  shows "a = b \<and> token1 = token2"
proof -
  have "tokens_ok (ls_seq st) (set (ls_leases st))"
    using lease_run_tokens [OF assms(1)] assms(2) unfolding tokens_ok_def by blast
  then show ?thesis using assms(3,4)
    by (auto simp: check_fencing_token_def Let_def list_ex_iff tokens_ok_def split: if_splits)
qed

subsection \<open>Late projections\<close>

lemma targets_overlap_refl: "targets_overlap a a"
  by (simp add: targets_overlap_def paths_overlap_segments overlap_segments_refl split: option.splits)

lemma row_upsert_has: "r \<in> set (row_upsert key r rows)" "x \<in> set rows \<Longrightarrow> key x \<noteq> key r \<Longrightarrow> x \<in> set (row_upsert key r rows)"
  by (induction rows) auto

text \<open>A reservation of one target grants one lease, which is in the table and whose token is the current one.\<close>

lemma reserved_one:
  assumes "try_reserve_targets now fresh agent task project [target] mode ttl st = (Reserved ls, st')"
  shows "\<exists>l. ls = [l] \<and> l \<in> set (ls_leases st') \<and> wl_agent_id l = agent \<and> wl_project_id l = project \<and> wl_mode l = mode \<and>
    wl_target_uri l = Some (canonical_target_uri target) \<and> wl_acquired_at l = now \<and> wl_expires_at l = now + ttl \<and>
    wl_fencing_token l = map_of (ls_seq st') (canonical_target_uri target) \<and>
    map_of (ls_seq st') (canonical_target_uri target) = Some (next_token (ls_seq st) (canonical_target_uri target))"
  using try_reserve_granted(2) [OF assms] by (auto simp: requested_targets_def grant_target_def Let_def update_conv')

text \<open>
  A late reservation event brings a lease back. The agent \<open>a\<close> reserves a target exclusively and releases it, \<open>b\<close>
  reserves it; when the event of the first reservation is projected only then, both leases are in the table, live at the
  same time and in conflict. The fencing token still tells them apart: \<open>b\<close> passes the check and \<open>a\<close> does not.
\<close>

theorem late_reservation_doubles_lease:
  assumes first: "try_reserve_targets now1 fresh1 a task1 project [target] Exclusive ttl1 st = (Reserved la, st1)"
    and second: "try_reserve_targets now2 fresh2 b task2 project [target] Exclusive ttl2 (release_for_task a task1 st1) = (Reserved lb, st2)"
    and others: "a \<noteq> b" "wl_id ` set la \<inter> wl_id ` set lb = {}"
    and times: "now1 \<le> now2" "now2 \<le> now1 + ttl1" "0 \<le> ttl2"
    and late: "st3 = lease_apply_event (SessionEv (FilesReserved la)) st2"
  shows "\<exists>x y. la = [x] \<and> lb = [y] \<and> {x, y} \<subseteq> set (ls_leases st3) \<and> conflicting x y \<and>
    wl_acquired_at x \<le> now2 \<and> now2 \<le> wl_expires_at x \<and> wl_acquired_at y \<le> now2 \<and> now2 \<le> wl_expires_at y \<and>
    check_fencing_token now2 b target (the (wl_fencing_token y)) st3 \<and>
    \<not> check_fencing_token now2 a target (the (wl_fencing_token x)) st3"
proof -
  let ?key = "canonical_target_uri target"
  obtain x where x: "la = [x]" "wl_agent_id x = a" "wl_project_id x = project" "wl_mode x = Exclusive"
    "wl_target_uri x = Some ?key" "wl_acquired_at x = now1" "wl_expires_at x = now1 + ttl1" "wl_fencing_token x = map_of (ls_seq st1) ?key"
    using reserved_one [OF first] by blast
  obtain y where y: "lb = [y]" "y \<in> set (ls_leases st2)" "wl_agent_id y = b" "wl_project_id y = project" "wl_mode y = Exclusive"
    "wl_target_uri y = Some ?key" "wl_acquired_at y = now2" "wl_expires_at y = now2 + ttl2" "wl_fencing_token y = map_of (ls_seq st2) ?key"
    "map_of (ls_seq st2) ?key = Some (next_token (ls_seq (release_for_task a task1 st1)) ?key)"
    using reserved_one [OF second] by blast
  have st3: "ls_leases st3 = row_upsert wl_id x (ls_leases st2)" "ls_seq st3 = ls_seq st2"
    by (simp_all add: late lease_apply_event_def x(1) apply_reserved_def)
  have rows: "x \<in> set (ls_leases st3)" "y \<in> set (ls_leases st3)"
    using row_upsert_has [where key = wl_id and r = x] y(1,2) x(1) others(2) by (auto simp: st3)
  have "conflicting x y" using x y others(1)
    by (simp add: conflicting_def mode_conflicts_with_def resource_key_def unwrap_or_def targets_overlap_refl)
  moreover have "map_of (ls_seq st2) ?key \<noteq> map_of (ls_seq st1) ?key"
    using y(10) by (auto simp: release_for_task_def filter_leases_def next_token_def unwrap_or_def split: option.splits)
  then have "\<not> check_fencing_token now2 a target (the (wl_fencing_token x)) st3"
    using reserved_one [OF first] x by (auto simp: check_fencing_token_def Let_def st3)
  moreover have "check_fencing_token now2 b target (the (wl_fencing_token y)) st3"
    using y rows(2) times(3) by (auto simp: check_fencing_token_def Let_def st3 list_ex_iff)
  ultimately show ?thesis using x y rows times by auto
qed

text \<open>
  An advisory \<^verbatim>\<open>intent\<close> lease is always granted, next to any other lease, and it invalidates the token of
  the current holder of the resource: an agent with a live exclusive lease can no longer pass the token check.
\<close>

theorem intent_lease_voids_token:
  assumes "check_fencing_token now a target token st" "a \<noteq> b"
  shows "\<exists>ls. fst (try_reserve_targets now fresh b task project [target] LeaseIntent ttl st) = Reserved ls \<and>
    \<not> check_fencing_token now a target token (snd (try_reserve_targets now fresh b task project [target] LeaseIntent ttl st)) \<and>
    set (filter (\<lambda>l. wl_agent_id l = a) (ls_leases st)) \<subseteq>
      set (ls_leases (snd (try_reserve_targets now fresh b task project [target] LeaseIntent ttl st)))"
proof -
  have free: "find_conflict LeaseIntent reqs ls = None" for reqs ls
    by (simp add: find_conflict_None mode_conflicts_with_def)
  have "map_of (ls_seq st) (canonical_target_uri target) = Some token"
    using assms(1) by (auto simp: check_fencing_token_def Let_def split: if_splits)
  then show ?thesis
    using assms(2)
    by (auto simp: try_reserve_targets_def requested_targets_def free grant_target_def check_fencing_token_def
        replaced_lease_def next_token_def unwrap_or_def update_conv' Let_def)
qed

subsection \<open>An instance\<close>

text \<open>One agent holds a file exclusively; another is refused, and a third takes an intent lease.\<close>

definition demo_lease_store :: lease_store where
  "demo_lease_store =
     snd (try_reserve_targets 10 (\<lambda>k. 100 + k) 1 50 (Some 7) [''src/a''] Exclusive 60 \<lparr>ls_leases = [], ls_seq = []\<rparr>)"

lemma demo_reserved:
  "fst (try_reserve_targets 10 (\<lambda>k. 100 + k) 1 50 (Some 7) [''src/a''] Exclusive 60 \<lparr>ls_leases = [], ls_seq = []\<rparr>) =
     Reserved (ls_leases demo_lease_store)"
  by code_simp

lemma demo_lease_run: "lease_run demo_lease_store (set (ls_leases demo_lease_store)) {}"
  using lease_run.lease_granted [OF lease_run.lease_init] demo_reserved
  unfolding demo_lease_store_def by (metis Un_empty_left prod.collapse)

lemma demo_leases:
  "ls_leases demo_lease_store =
     [\<lparr>wl_id = 100, wl_agent_id = 1, wl_task_id = 50, wl_project_id = Some 7, wl_path_glob = ''src/a'',
       wl_target_uri = Some ''file://src/a'', wl_mode = Exclusive, wl_fencing_token = Some 1,
       wl_acquired_at = 10, wl_expires_at = 70\<rparr>]"
  by code_simp

lemma demo_refused:
  "fst (try_reserve_targets 20 (\<lambda>k. 200 + k) 2 51 (Some 7) [''src''] SharedRead 60 demo_lease_store) =
     ReserveConflict ''file://src'' 1 50"
  by code_simp

theorem lease_mutual_exclusion_witness:
  "wl_agent_id (hd (ls_leases demo_lease_store)) = wl_agent_id (last (ls_leases demo_lease_store))"
proof -
  let ?l = "hd (ls_leases demo_lease_store)"
  have "?l \<in> set (ls_leases demo_lease_store)" "last (ls_leases demo_lease_store) = ?l" by (simp_all add: demo_leases)
  moreover have "targets_overlap (resource_key ?l) (resource_key ?l)" by code_simp
  moreover have "mode_conflicts_with (wl_mode ?l) (wl_mode ?l)" "wl_acquired_at ?l \<le> 30" "30 \<le> wl_expires_at ?l"
    by (simp_all add: demo_leases mode_conflicts_with_def)
  ultimately show ?thesis using lease_mutual_exclusion [OF demo_lease_run, of ?l ?l 30] by simp
qed

theorem fencing_token_unique_holder_witness:
  "check_fencing_token 20 1 ''src/a'' 1 demo_lease_store \<and> \<not> check_fencing_token 20 2 ''src/a'' 1 demo_lease_store"
proof -
  have "check_fencing_token 20 1 ''src/a'' 1 demo_lease_store" by code_simp
  then show ?thesis using fencing_token_unique_holder [OF demo_lease_run _, of 20 1 "''src/a''" 1 20 2 1] by auto
qed

text \<open>The first agent gives its lease up, the second takes the file, and then the event of the first one is projected.\<close>

definition demo_taken_over :: "reserve_outcome \<times> lease_store" where
  "demo_taken_over = try_reserve_targets 30 (\<lambda>k. 200 + k) 2 51 (Some 7) [''src/a''] Exclusive 60 (release_for_task 1 50 demo_lease_store)"

lemma demo_taken: "fst demo_taken_over = Reserved (ls_leases (snd demo_taken_over))" "map wl_id (ls_leases (snd demo_taken_over)) = [200]"
  by code_simp+

theorem late_reservation_doubles_lease_witness:
  "\<exists>x y. {x, y} \<subseteq> set (ls_leases (lease_apply_event (SessionEv (FilesReserved (ls_leases demo_lease_store))) (snd demo_taken_over))) \<and>
     conflicting x y"
proof -
  have "wl_id ` set (ls_leases (snd demo_taken_over)) = {200}" using demo_taken(2) by (metis list.set_map list.simps(15) empty_set)
  then have ids: "wl_id ` set (ls_leases demo_lease_store) \<inter> wl_id ` set (ls_leases (snd demo_taken_over)) = {}"
    by (simp add: demo_leases)
  have first: "try_reserve_targets 10 (\<lambda>k. 100 + k) 1 50 (Some 7) [''src/a''] Exclusive 60 \<lparr>ls_leases = [], ls_seq = []\<rparr> =
      (Reserved (ls_leases demo_lease_store), demo_lease_store)"
    using demo_reserved unfolding demo_lease_store_def by (metis prod.collapse)
  have second: "try_reserve_targets 30 (\<lambda>k. 200 + k) 2 51 (Some 7) [''src/a''] Exclusive 60 (release_for_task 1 50 demo_lease_store) =
      (Reserved (ls_leases (snd demo_taken_over)), snd demo_taken_over)"
    using demo_taken(1) unfolding demo_taken_over_def by (metis prod.collapse)
  show ?thesis using late_reservation_doubles_lease [OF first second _ ids _ _ _ refl] by auto
qed

theorem intent_lease_voids_token_witness:
  "check_fencing_token 20 1 ''src/a'' 1 demo_lease_store \<and>
   \<not> check_fencing_token 20 1 ''src/a'' 1
       (snd (try_reserve_targets 20 (\<lambda>k. 200 + k) 2 51 (Some 7) [''src/a''] LeaseIntent 60 demo_lease_store))"
proof -
  have "check_fencing_token 20 1 ''src/a'' 1 demo_lease_store" by code_simp
  then show ?thesis
    using intent_lease_voids_token [of 20 1 "''src/a''" 1 demo_lease_store 2 "\<lambda>k. 200 + k" 51 "Some 7" 60] by auto
qed

end
