(* ===== verification/Artifact_Store.thy ===== *)
theory Artifact_Store
  imports Work_Leases
begin

text \<open>
  The artifact registry: the projection \<^verbatim>\<open>crates/storage/src/artifact_repo.rs\<close> (tables \<^verbatim>\<open>artifacts\<close> with a unique
  URI, and \<^verbatim>\<open>artifact_relations\<close>, unique per pair and kind, whose rows go with either endpoint).
\<close>

record artifact_store =
  as_artifacts :: "artifact list"
  as_relations :: "artifact_relation list"

subsection \<open>Queries\<close>

definition artifact_get :: "artifact_store \<Rightarrow> uuid \<Rightarrow> artifact option" where
  "artifact_get s i = row_get art_id (as_artifacts s) i"

definition get_by_uri :: "artifact_store \<Rightarrow> string \<Rightarrow> artifact option" where
  "get_by_uri s uri = find (\<lambda>a. art_uri a = uri) (as_artifacts s)"

definition option_filter :: "'a option \<Rightarrow> ('a \<Rightarrow> bool) \<Rightarrow> bool" where
  "option_filter f p = (case f of Some v \<Rightarrow> p v | None \<Rightarrow> True)"

definition list_artifacts ::
  "uuid option \<Rightarrow> uuid option \<Rightarrow> artifact_status option \<Rightarrow> bool \<Rightarrow> artifact_store \<Rightarrow> artifact list" where
  "list_artifacts project task status include_superseded s =
     sort_key art_created_at (filter (\<lambda>a.
       option_filter project (\<lambda>p. art_project_id a = Some p) \<and> option_filter task (\<lambda>t. art_task_id a = Some t) \<and>
       (case status of
          Some st \<Rightarrow> art_status a = st
        | None \<Rightarrow> include_superseded \<or> art_status a \<noteq> ArtDeprecated)) (as_artifacts s))"

definition role_slot :: "uuid \<Rightarrow> string \<Rightarrow> string \<Rightarrow> artifact \<Rightarrow> bool" where
  "role_slot task role kind a =
     (case art_role_artifact a of
        Some r \<Rightarrow> art_task_id a = Some task \<and> ra_role r = role \<and> ra_kind r = kind
      | None \<Rightarrow> False)"

definition list_role_artifacts ::
  "uuid \<Rightarrow> string option \<Rightarrow> string option \<Rightarrow> role_artifact_status option \<Rightarrow> artifact_store \<Rightarrow> artifact list" where
  "list_role_artifacts task role kind status s =
     (let rows = filter (\<lambda>a. case art_role_artifact a of
            Some r \<Rightarrow> art_task_id a = Some task \<and> option_filter role (\<lambda>x. ra_role r = x) \<and>
              option_filter kind (\<lambda>x. ra_kind r = x) \<and> option_filter status (\<lambda>x. ra_status r = x)
          | None \<Rightarrow> False) (as_artifacts s)
      in sort_key (\<lambda>a. unwrap_or [] (map_option ra_role (art_role_artifact a)))
           (sort_key (\<lambda>a. unwrap_or [] (map_option ra_kind (art_role_artifact a)))
             (sort_key (\<lambda>a. unwrap_or 0 (map_option ra_generation (art_role_artifact a))) rows)))"

definition role_generations :: "uuid \<Rightarrow> string \<Rightarrow> string \<Rightarrow> artifact_store \<Rightarrow> int list" where
  "role_generations task role kind s =
     List.map_filter (\<lambda>a. if role_slot task role kind a then map_option ra_generation (art_role_artifact a) else None)
       (as_artifacts s)"

definition next_role_generation :: "uuid \<Rightarrow> string \<Rightarrow> string \<Rightarrow> artifact_store \<Rightarrow> int" where
  "next_role_generation task role kind s =
     (case role_generations task role kind s of [] \<Rightarrow> 1 | g # gs \<Rightarrow> fold max gs g + 1)"

definition relations_for :: "uuid \<Rightarrow> artifact_store \<Rightarrow> artifact_relation list" where
  "relations_for i s = sort_key arel_created_at (filter (\<lambda>r. arel_from_id r = i \<or> arel_to_id r = i) (as_relations s))"

definition write_fencing_token_is_live ::
  "timestamp \<Rightarrow> lease_store \<Rightarrow> uuid \<Rightarrow> uuid \<Rightarrow> int \<Rightarrow> artifact_store \<Rightarrow> bool" where
  "write_fencing_token_is_live now leases i agent token s =
     (case artifact_get s i of
        None \<Rightarrow> False
      | Some a \<Rightarrow> check_fencing_token now agent (art_uri a) token leases)"

subsection \<open>The projection\<close>

text \<open>
  \<^verbatim>\<open>INSERT OR REPLACE\<close>: the rows with the same id or the same URI are deleted first, and with them the
  relations they take part in.
\<close>

definition artifact_upsert :: "artifact \<Rightarrow> artifact_store \<Rightarrow> artifact_store" where
  "artifact_upsert a s =
     (let replaced = (\<lambda>b. art_id b = art_id a \<or> art_uri b = art_uri a);
          gone = map art_id (filter replaced (as_artifacts s))
      in \<lparr>as_artifacts = filter (\<lambda>b. \<not> replaced b) (as_artifacts s) @ [a],
          as_relations = filter (\<lambda>r. arel_from_id r \<notin> set gone \<and> arel_to_id r \<notin> set gone) (as_relations s)\<rparr>)"

definition modify_artifact :: "uuid \<Rightarrow> (artifact \<Rightarrow> artifact) \<Rightarrow> artifact_store \<Rightarrow> artifact_store" where
  "modify_artifact i f s = s\<lparr>as_artifacts := row_modify art_id i f (as_artifacts s)\<rparr>"

definition relation_known :: "artifact_relation \<Rightarrow> artifact_store \<Rightarrow> bool" where
  "relation_known r s = list_ex (\<lambda>q. arel_id q = arel_id r \<or>
     (arel_from_id q = arel_from_id r \<and> arel_to_id q = arel_to_id r \<and> arel_kind q = arel_kind r)) (as_relations s)"

text \<open>\<^verbatim>\<open>INSERT OR IGNORE\<close> skips a duplicate; a missing endpoint violates the foreign key.\<close>

definition add_artifact_relation :: "artifact_relation \<Rightarrow> artifact_store \<Rightarrow> artifact_store result" where
  "add_artifact_relation r s =
     (if relation_known r s then Inr s
      else if artifact_get s (arel_from_id r) = None \<or> artifact_get s (arel_to_id r) = None
      then Inl (Storage ''FOREIGN KEY constraint failed'')
      else Inr (s\<lparr>as_relations := as_relations s @ [r]\<rparr>))"

definition apply_artifact_changed :: "string option \<Rightarrow> string option \<Rightarrow> timestamp \<Rightarrow> artifact \<Rightarrow> artifact" where
  "apply_artifact_changed title description at a =
     (let b = (case title of Some t \<Rightarrow> a\<lparr>art_title := t, art_updated_at := at\<rparr> | None \<Rightarrow> a)
      in case description of Some d \<Rightarrow> b\<lparr>art_description := d, art_updated_at := at\<rparr> | None \<Rightarrow> b)"

definition set_role_status :: "role_artifact_status \<Rightarrow> timestamp \<Rightarrow> artifact \<Rightarrow> artifact" where
  "set_role_status to at a =
     (case art_role_artifact a of
        Some r \<Rightarrow> a\<lparr>art_role_artifact := Some (r\<lparr>ra_status := to\<rparr>), art_updated_at := at\<rparr>
      | None \<Rightarrow> a)"

definition artifact_apply_event ::
  "timestamp \<Rightarrow> lease_store \<Rightarrow> event_envelope \<Rightarrow> artifact_store \<Rightarrow> artifact_store result" where
  "artifact_apply_event now leases env s =
     (let at = en_occurred_at env in
      case en_payload env of
        ArtifactEv (ArtifactRegistered a) \<Rightarrow> Inr (artifact_upsert a s)
      | ArtifactEv (ArtifactOwnerAssigned i agent _) \<Rightarrow>
          Inr (modify_artifact i (\<lambda>a. a\<lparr>art_owner_agent_id := Some agent, art_updated_at := at\<rparr>) s)
      | ArtifactEv (ArtifactStatusChanged i _ to _) \<Rightarrow>
          Inr (modify_artifact i (\<lambda>a. a\<lparr>art_status := to, art_updated_at := at\<rparr>) s)
      | ArtifactEv (RoleArtifactStatusChanged i _ to _) \<Rightarrow> Inr (modify_artifact i (set_role_status to at) s)
      | ArtifactEv (ArtifactChanged i title description _) \<Rightarrow>
          Inr (modify_artifact i (apply_artifact_changed title description at) s)
      | ArtifactEv (ArtifactWriteCommitted i agent token version _) \<Rightarrow>
          Inr (if write_fencing_token_is_live now leases i agent token s
               then modify_artifact i (\<lambda>a. a\<lparr>art_last_write_token := Some token, art_version := version,
                      art_status := ArtCommitted, art_updated_at := at\<rparr>) s
               else s)
      | ArtifactEv (ArtifactDeprecated i _ _) \<Rightarrow>
          Inr (modify_artifact i (\<lambda>a. a\<lparr>art_status := ArtDeprecated, art_updated_at := at\<rparr>) s)
      | ArtifactEv (ArtifactRelationAdded r) \<Rightarrow> add_artifact_relation r s
      | ArtifactEv (ArtifactRelationRemoved _ a b k _) \<Rightarrow>
          Inr (s\<lparr>as_relations := filter (\<lambda>r. \<not> (arel_from_id r = a \<and> arel_to_id r = b \<and> arel_kind r = k)) (as_relations s)\<rparr>)
      | _ \<Rightarrow> Inr s)"

subsection \<open>Invariant\<close>

text \<open>Ids and URIs are unique, relations are unique per pair and kind and have both endpoints.\<close>

definition artifact_store_ok :: "artifact_store \<Rightarrow> bool" where
  "artifact_store_ok s \<longleftrightarrow>
     keys_distinct art_id (as_artifacts s) \<and> distinct (map art_uri (as_artifacts s)) \<and>
     distinct (map (\<lambda>r. (arel_from_id r, arel_to_id r, arel_kind r)) (as_relations s)) \<and>
     list_all (\<lambda>r. artifact_get s (arel_from_id r) \<noteq> None \<and> artifact_get s (arel_to_id r) \<noteq> None) (as_relations s)"

lemma artifact_get_upsert:
  "artifact_get (artifact_upsert a s) i =
     (if i = art_id a then Some a
      else case artifact_get s i of Some b \<Rightarrow> if art_uri b = art_uri a then None else Some b | None \<Rightarrow> None)"
  if "keys_distinct art_id (as_artifacts s)"
proof -
  have *: "row_get art_id (filter (\<lambda>b. \<not> (art_id b = art_id a \<or> art_uri b = art_uri a)) rows @ [a]) i =
     (if i = art_id a then Some a
      else case row_get art_id rows i of Some b \<Rightarrow> if art_uri b = art_uri a then None else Some b | None \<Rightarrow> None)"
    if "keys_distinct art_id rows" for rows
    using that
  proof (induction rows)
    case (Cons b rows)
    then have "row_get art_id rows (art_id b) = None" by (auto simp: keys_distinct_def row_get_None_iff)
    with Cons show ?case by (auto simp: keys_distinct_def)
  qed simp
  show ?thesis using * [OF that] by (simp add: artifact_get_def artifact_upsert_def Let_def)
qed

lemma upsert_keeps_ok:
  assumes "artifact_store_ok s"
  shows "artifact_store_ok (artifact_upsert a s)"
proof -
  have dist: "keys_distinct art_id (as_artifacts s)" using assms by (simp add: artifact_store_ok_def)
  have kept: "artifact_get (artifact_upsert a s) i \<noteq> None"
    if here: "artifact_get s i \<noteq> None" and i: "i \<notin> set (map art_id (filter (\<lambda>b. art_id b = art_id a \<or> art_uri b = art_uri a) (as_artifacts s)))" for i
  proof -
    obtain b where b: "artifact_get s i = Some b" using here by blast
    then have "b \<in> set (as_artifacts s)" "art_id b = i" by (auto simp: artifact_get_def dest: row_get_Some)
    then have "art_uri b \<noteq> art_uri a" using i by auto
    then show ?thesis using b by (simp add: artifact_get_upsert [OF dist])
  qed
  have "keys_distinct art_id (as_artifacts (artifact_upsert a s))" "distinct (map art_uri (as_artifacts (artifact_upsert a s)))"
    using assms by (auto simp: artifact_store_ok_def artifact_upsert_def Let_def keys_distinct_def distinct_map_filter)
  moreover have "distinct (map (\<lambda>r. (arel_from_id r, arel_to_id r, arel_kind r)) (as_relations (artifact_upsert a s)))"
    using assms by (simp add: artifact_store_ok_def artifact_upsert_def Let_def distinct_map_filter)
  moreover have "list_all (\<lambda>r. artifact_get (artifact_upsert a s) (arel_from_id r) \<noteq> None \<and>
      artifact_get (artifact_upsert a s) (arel_to_id r) \<noteq> None) (as_relations (artifact_upsert a s))"
    unfolding list_all_iff
  proof
    fix r assume r: "r \<in> set (as_relations (artifact_upsert a s))"
    then have "r \<in> set (as_relations s)" and
      "arel_from_id r \<notin> set (map art_id (filter (\<lambda>b. art_id b = art_id a \<or> art_uri b = art_uri a) (as_artifacts s)))"
      "arel_to_id r \<notin> set (map art_id (filter (\<lambda>b. art_id b = art_id a \<or> art_uri b = art_uri a) (as_artifacts s)))"
      by (simp_all add: artifact_upsert_def Let_def)
    moreover from this(1) assms have "artifact_get s (arel_from_id r) \<noteq> None" "artifact_get s (arel_to_id r) \<noteq> None"
      by (auto simp: artifact_store_ok_def list_all_iff)
    ultimately show "artifact_get (artifact_upsert a s) (arel_from_id r) \<noteq> None \<and> artifact_get (artifact_upsert a s) (arel_to_id r) \<noteq> None"
      using kept by blast
  qed
  ultimately show ?thesis by (simp add: artifact_store_ok_def)
qed

lemma artifact_get_modify:
  "(\<And>a. art_id (f a) = art_id a) \<Longrightarrow>
   artifact_get (modify_artifact j f s) i = (if i = j then map_option f (artifact_get s i) else artifact_get s i)"
  by (simp add: artifact_get_def modify_artifact_def table_simps)

lemma modify_keeps_ok:
  assumes "artifact_store_ok s" "\<And>a. art_id (f a) = art_id a" "\<And>a. art_uri (f a) = art_uri a"
  shows "artifact_store_ok (modify_artifact i f s)"
proof -
  have "map art_uri (as_artifacts (modify_artifact i f s)) = map art_uri (as_artifacts s)"
    using assms(3) by (simp add: modify_artifact_def row_modify_def comp_def if_distrib [of art_uri] cong: if_cong)
  moreover have "artifact_get (modify_artifact i f s) j \<noteq> None \<longleftrightarrow> artifact_get s j \<noteq> None" for j
    by (simp add: artifact_get_modify assms(2))
  moreover have "keys_distinct art_id (as_artifacts (modify_artifact i f s))"
    using assms by (simp add: modify_artifact_def table_simps artifact_store_ok_def)
  ultimately show ?thesis using assms(1) by (simp add: artifact_store_ok_def modify_artifact_def)
qed

lemma relation_keeps_ok: "artifact_store_ok s \<Longrightarrow> add_artifact_relation r s = Inr s' \<Longrightarrow> artifact_store_ok s'"
  by (fastforce simp: add_artifact_relation_def artifact_store_ok_def relation_known_def artifact_get_def list_all_iff list_ex_iff
      split: if_splits)

lemma unrelate_keeps_ok: "artifact_store_ok s \<Longrightarrow> artifact_store_ok (s\<lparr>as_relations := filter P (as_relations s)\<rparr>)"
  by (simp add: artifact_store_ok_def artifact_get_def list_all_iff distinct_map_filter)

lemma set_role_status_keeps [simp]:
  "art_id (set_role_status to at a) = art_id a" "art_uri (set_role_status to at a) = art_uri a"
  by (simp_all add: set_role_status_def split: option.split)

lemma apply_artifact_changed_keeps [simp]:
  "art_id (apply_artifact_changed t d at a) = art_id a" "art_uri (apply_artifact_changed t d at a) = art_uri a"
  "art_role_artifact (apply_artifact_changed t d at a) = art_role_artifact a"
  by (simp_all add: apply_artifact_changed_def Let_def split: option.split)

text \<open>Every projected event keeps the registry well-formed.\<close>

lemma artifact_apply_ok:
  assumes "artifact_store_ok s" and "artifact_apply_event now leases env s = Inr s'"
  shows "artifact_store_ok s'"
  using assms
  by (auto simp: artifact_apply_event_def Let_def intro!: upsert_keeps_ok modify_keeps_ok unrelate_keeps_ok
      intro: relation_keeps_ok split: event.splits artifact_event.splits if_splits)

end
