(* ===== verification/Rule_Store.thy ===== *)
theory Rule_Store
  imports Plan_Store "HOL-Library.AList" "HOL-Library.Char_ord" "HOL-Library.List_Lexorder"
begin

text \<open>
  The rule projection \<^verbatim>\<open>crates/storage/src/rule_repo.rs\<close>: the table \<^verbatim>\<open>lifecycle_rules\<close> with its unique index on
  \<^verbatim>\<open>(scope, rule_key)\<close>, the reads the gate needs of the task, plan and run tables, and the effective rules of
  a scope chain. A rule of an inner scope replaces the rule of the same key inherited so far, unless it is
  weaker and the inherited rule forbids that; rules that end up \<^verbatim>\<open>off\<close> are dropped.

  A scope is stored as its kind and id, and two scopes have the same columns only if they are equal, so a
  scope column pair is the scope itself.
\<close>

type_synonym rule_table = "rule list"

subsection \<open>Queries\<close>

definition rule_get :: "rule_table \<Rightarrow> uuid \<Rightarrow> rule option" where
  "rule_get rs i = row_get ru_id rs i"

definition list_rules_for_scope :: "rule_table \<Rightarrow> rule_scope \<Rightarrow> rule list" where
  "list_rules_for_scope rs sc = sort_key ru_rule_key (filter (\<lambda>r. ru_scope r = sc) rs)"

definition task_context :: "task_store \<Rightarrow> uuid \<Rightarrow> (uuid option \<times> string) option" where
  "task_context ts i = map_option (\<lambda>t. (t_project_id t, t_title t)) (task_repo_get ts i)"

definition task_plan_ids :: "plan_store \<Rightarrow> uuid \<Rightarrow> uuid list" where
  "task_plan_ids ps i = map pl_id (list_plans_for_task ps i)"

definition plan_parent_id :: "plan_store \<Rightarrow> uuid \<Rightarrow> uuid option option" where
  "plan_parent_id ps i = map_option pl_parent_plan_id (plan_get ps i)"

definition run_plan_id :: "run_store \<Rightarrow> uuid \<Rightarrow> uuid option" where
  "run_plan_id rs i = map_option r_plan_id (row_get r_id (rs_runs rs) i)"

text \<open>\<^verbatim>\<open>ORDER BY started_at ASC, id ASC\<close>: SQL sorts a missing start first.\<close>

definition by_start :: "task list \<Rightarrow> task list" where
  "by_start ts =
     (let ts = sort_key t_id ts in
      filter (\<lambda>t. t_started_at t = None) ts @
      sort_key (\<lambda>t. unwrap_or 0 (t_started_at t)) (filter (\<lambda>t. t_started_at t \<noteq> None) ts))"

definition in_progress_task_ids :: "task_store \<Rightarrow> plan_store \<Rightarrow> rule_scope \<Rightarrow> uuid list" where
  "in_progress_task_ids ts ps sc =
     (case sc of
        ScopeTenant \<Rightarrow> map t_id (by_start (filter (\<lambda>t. t_status t = InProgress) (tasks_of ts)))
      | ScopeProject i \<Rightarrow>
          map t_id (by_start (filter (\<lambda>t. t_status t = InProgress \<and> t_project_id t = Some i) (tasks_of ts)))
      | ScopePlan i \<Rightarrow>
          map t_id (by_start (concat (map (\<lambda>t. map (\<lambda>_. t) (filter (\<lambda>pt. pt_task_id pt = t_id t \<and> pt_plan_id pt = i) (ps_plan_tasks ps)))
            (filter (\<lambda>t. t_status t = InProgress) (tasks_of ts)))))
      | ScopeTask _ \<Rightarrow> [])"

subsection \<open>Effective rules\<close>

definition rules_at :: "rule_table \<Rightarrow> rule_scope \<Rightarrow> rule_trigger \<Rightarrow> rule list" where
  "rules_at rs sc tr = filter (\<lambda>r. ru_scope r = sc \<and> ru_trigger r = tr \<and> ru_enabled r) rs"

definition denied_weakening :: "rule \<Rightarrow> rule \<Rightarrow> bool" where
  "denied_weakening incumbent r \<longleftrightarrow>
     strictness (ru_mode r) < strictness (ru_mode incumbent) \<and> \<not> ru_override_allowed incumbent"

type_synonym chosen_rules = "(string \<times> nat \<times> rule) list"

definition choose_rule :: "nat \<Rightarrow> rule \<Rightarrow> chosen_rules \<Rightarrow> chosen_rules" where
  "choose_rule depth r chosen =
     (case map_of chosen (ru_rule_key r) of
        Some (d, incumbent) \<Rightarrow>
          if d \<ge> depth then chosen
          else if denied_weakening incumbent r then chosen
          else AList.update (ru_rule_key r) (depth, r) chosen
      | None \<Rightarrow> AList.update (ru_rule_key r) (depth, r) chosen)"

fun choose_along :: "rule_table \<Rightarrow> rule_trigger \<Rightarrow> nat \<Rightarrow> rule_scope list \<Rightarrow> chosen_rules \<Rightarrow> chosen_rules" where
  "choose_along rs tr depth [] chosen = chosen"
| "choose_along rs tr depth (sc # chain) chosen =
     choose_along rs tr (Suc depth) chain (fold (choose_rule depth) (rules_at rs sc tr) chosen)"

definition effective_rules :: "rule_table \<Rightarrow> rule_scope list \<Rightarrow> rule_trigger \<Rightarrow> rule list" where
  "effective_rules rs chain tr =
     (if chain = [] then []
      else sort_key ru_rule_key
        (filter (\<lambda>r. ru_mode r \<noteq> ModeOff) (map (\<lambda>(k, d, r). r) (choose_along rs tr 0 chain []))))"

subsection \<open>Writes\<close>

text \<open>
  \<^verbatim>\<open>ON CONFLICT(id)\<close> keeps the scope and the trigger of the stored row. Another row at the same scope with the
  same key trips the unique index.
\<close>

definition rule_key_taken :: "uuid \<Rightarrow> rule_scope \<Rightarrow> string \<Rightarrow> rule_table \<Rightarrow> bool" where
  "rule_key_taken i sc k rs = list_ex (\<lambda>x. ru_id x \<noteq> i \<and> ru_scope x = sc \<and> ru_rule_key x = k) rs"

definition stored_rule :: "rule \<Rightarrow> rule_table \<Rightarrow> rule" where
  "stored_rule r rs =
     (case rule_get rs (ru_id r) of
        Some old \<Rightarrow> r\<lparr>ru_scope := ru_scope old, ru_trigger := ru_trigger old, ru_created_at := ru_created_at old\<rparr>
      | None \<Rightarrow> r)"

definition rule_upsert :: "rule \<Rightarrow> rule_table \<Rightarrow> rule_table result" where
  "rule_upsert r rs =
     (let stored = stored_rule r rs in
      if rule_key_taken (ru_id r) (ru_scope stored) (ru_rule_key stored) rs
      then Inl (Storage ''UNIQUE constraint failed'')
      else Inr (row_upsert ru_id stored rs))"

definition rule_apply_event :: "event \<Rightarrow> rule_table \<Rightarrow> rule_table result" where
  "rule_apply_event e rs =
     (case e of
        RuleEv (RuleCreated r) \<Rightarrow> rule_upsert r rs
      | RuleEv (RuleUpdated r) \<Rightarrow> rule_upsert r rs
      | RuleEv (RuleDisabled i at) \<Rightarrow> Inr (row_modify ru_id i (\<lambda>r. r\<lparr>ru_enabled := False, ru_updated_at := at\<rparr>) rs)
      | RuleEv (RuleDeleted i) \<Rightarrow> Inr (row_delete ru_id i rs)
      | _ \<Rightarrow> Inr rs)"

subsection \<open>The table invariant\<close>

definition rule_table_ok :: "rule_table \<Rightarrow> bool" where
  "rule_table_ok rs \<longleftrightarrow> keys_distinct ru_id rs \<and> distinct (map (\<lambda>r. (ru_scope r, ru_rule_key r)) rs)"

lemma rule_table_ok_scope:
  assumes "rule_table_ok rs"
  shows "distinct (map ru_rule_key (rules_at rs sc tr))"
proof -
  have "inj_on (\<lambda>r. (ru_scope r, ru_rule_key r)) (set rs)" "distinct rs"
    using assms by (auto simp: rule_table_ok_def distinct_map)
  then show ?thesis
    by (auto simp: rules_at_def distinct_map inj_on_def)
qed

lemma row_delete_ok: "rule_table_ok rs \<Longrightarrow> rule_table_ok (row_delete ru_id i rs)"
  by (auto simp: rule_table_ok_def row_delete_def keys_distinct_def distinct_map_filter)

lemma row_modify_ok:
  assumes "rule_table_ok rs"
    and "\<And>r. ru_id (f r) = ru_id r \<and> ru_scope (f r) = ru_scope r \<and> ru_rule_key (f r) = ru_rule_key r"
  shows "rule_table_ok (row_modify ru_id i f rs)"
proof -
  have "map ru_id (row_modify ru_id i f rs) = map ru_id rs"
    "map (\<lambda>r. (ru_scope r, ru_rule_key r)) (row_modify ru_id i f rs) = map (\<lambda>r. (ru_scope r, ru_rule_key r)) rs"
    using assms(2) by (auto simp: row_modify_def)
  then show ?thesis using assms(1) by (simp add: rule_table_ok_def keys_distinct_def)
qed

lemma distinct_upsert:
  assumes "distinct (map g rs)" "\<And>x. x \<in> set rs \<Longrightarrow> ru_id x \<noteq> ru_id r \<Longrightarrow> g x \<noteq> g r"
  shows "distinct (map g (row_upsert ru_id r rs)) \<or> \<not> keys_distinct ru_id rs"
  using assms
proof (induction rs)
  case (Cons x xs)
  show ?case
  proof (cases "ru_id x = ru_id r")
    case True
    then show ?thesis using Cons.prems by (auto simp: keys_distinct_def image_iff) metis
  next
    case False
    have "distinct (map g (row_upsert ru_id r xs)) \<or> \<not> keys_distinct ru_id xs"
      using Cons.prems by (intro Cons.IH) auto
    then show ?thesis
      using False Cons.prems set_row_upsert [of ru_id r xs] by (auto simp: keys_distinct_def)
  qed
qed simp

lemma stored_rule_id [simp]: "ru_id (stored_rule r rs) = ru_id r"
  by (simp add: stored_rule_def split: option.splits)

lemma rule_upsert_ok: "rule_table_ok rs \<Longrightarrow> rule_upsert r rs = Inr rs' \<Longrightarrow> rule_table_ok rs'"
  using distinct_upsert [of "\<lambda>r. (ru_scope r, ru_rule_key r)" rs "stored_rule r rs"]
  by (auto simp: rule_upsert_def Let_def rule_table_ok_def rule_key_taken_def list_ex_iff keys_distinct_upsert
      split: if_splits)

lemma rule_apply_event_ok:
  "rule_table_ok rs \<Longrightarrow> rule_apply_event e rs = Inr rs' \<Longrightarrow> rule_table_ok rs'"
  by (auto simp: rule_apply_event_def split: event.splits rule_event.splits
      intro: rule_upsert_ok row_delete_ok row_modify_ok)

subsection \<open>Inheritance, as a reference definition\<close>

text \<open>The rules of one key along a chain, outermost first, and the rule they leave in force.\<close>

definition key_rules :: "rule_table \<Rightarrow> rule_trigger \<Rightarrow> string \<Rightarrow> rule_scope list \<Rightarrow> rule list" where
  "key_rules rs tr k chain = concat (map (\<lambda>sc. filter (\<lambda>r. ru_rule_key r = k) (rules_at rs sc tr)) chain)"

fun inherit :: "rule option \<Rightarrow> rule list \<Rightarrow> rule option" where
  "inherit cur [] = cur"
| "inherit None (r # rs) = inherit (Some r) rs"
| "inherit (Some p) (r # rs) = inherit (Some (if denied_weakening p r then p else r)) rs"

lemma inherit_append: "inherit cur (xs @ ys) = inherit (inherit cur xs) ys"
  by (induction cur xs rule: inherit.induct) auto

lemma inherit_mem: "inherit cur rs = Some r \<Longrightarrow> cur = Some r \<or> r \<in> set rs"
  by (induction cur rs rule: inherit.induct) (auto split: if_splits)

lemma map_of_choose_rule:
  assumes "\<And>d p. map_of chosen (ru_rule_key r) = Some (d, p) \<Longrightarrow> d < depth"
  shows "map_of (choose_rule depth r chosen) k =
    (if k = ru_rule_key r
     then (case map_of chosen k of
             None \<Rightarrow> Some (depth, r)
           | Some (d, p) \<Rightarrow> if denied_weakening p r then Some (d, p) else Some (depth, r))
     else map_of chosen k)"
  using assms by (auto simp: choose_rule_def update_conv split: option.splits)

lemma fold_choose_rule:
  assumes "distinct (map ru_rule_key xs)"
    and "\<And>r d p. r \<in> set xs \<Longrightarrow> map_of chosen (ru_rule_key r) = Some (d, p) \<Longrightarrow> d < depth"
  shows "map_of (fold (choose_rule depth) xs chosen) k =
    (case filter (\<lambda>r. ru_rule_key r = k) xs of
       [] \<Rightarrow> map_of chosen k
     | r # _ \<Rightarrow>
         (case map_of chosen k of
            None \<Rightarrow> Some (depth, r)
          | Some (d, p) \<Rightarrow> if denied_weakening p r then Some (d, p) else Some (depth, r)))"
  using assms
proof (induction xs arbitrary: chosen)
  case (Cons x xs)
  have fresh: "\<forall>r \<in> set xs. ru_rule_key r \<noteq> ru_rule_key x" using Cons.prems(1) by (metis distinct.simps(2) image_eqI list.set_map list.simps(9))
  have step: "map_of (choose_rule depth x chosen) k =
    (if k = ru_rule_key x
     then (case map_of chosen k of
             None \<Rightarrow> Some (depth, x)
           | Some (d, p) \<Rightarrow> if denied_weakening p x then Some (d, p) else Some (depth, x))
     else map_of chosen k)" for k
    using Cons.prems(2) by (intro map_of_choose_rule) auto
  have "map_of (fold (choose_rule depth) xs (choose_rule depth x chosen)) k =
    (case filter (\<lambda>r. ru_rule_key r = k) xs of
       [] \<Rightarrow> map_of (choose_rule depth x chosen) k
     | r # _ \<Rightarrow>
         (case map_of (choose_rule depth x chosen) k of
            None \<Rightarrow> Some (depth, r)
          | Some (d, p) \<Rightarrow> if denied_weakening p r then Some (d, p) else Some (depth, r)))"
    using Cons.prems fresh by (intro Cons.IH) (auto simp: step)
  moreover have "filter (\<lambda>r. ru_rule_key r = ru_rule_key x) xs = []"
    using fresh by (simp add: filter_empty_conv)
  ultimately show ?case by (cases "k = ru_rule_key x") (auto simp: step split: list.splits)
qed simp

lemma filter_key_distinct: "distinct (map f xs) \<Longrightarrow> length (filter (\<lambda>x. f x = k) xs) \<le> 1"
  by (induction xs) (auto simp: filter_empty_conv image_iff)

lemma choose_along_inherit:
  assumes "rule_table_ok rs" "\<And>k d p. map_of chosen k = Some (d, p) \<Longrightarrow> d < depth"
  shows "map_option snd (map_of (choose_along rs tr depth chain chosen) k) =
    inherit (map_option snd (map_of chosen k)) (key_rules rs tr k chain)"
  using assms(2)
proof (induction chain arbitrary: depth chosen)
  case (Cons sc chain)
  let ?xs = "rules_at rs sc tr"
  let ?here = "filter (\<lambda>r. ru_rule_key r = k) ?xs"
  let ?next = "fold (choose_rule depth) ?xs chosen"
  have nxt: "map_of ?next k = (case filter (\<lambda>r. ru_rule_key r = k) ?xs of
       [] \<Rightarrow> map_of chosen k
     | r # _ \<Rightarrow>
         (case map_of chosen k of
            None \<Rightarrow> Some (depth, r)
          | Some (d, p) \<Rightarrow> if denied_weakening p r then Some (d, p) else Some (depth, r)))" for k
    using Cons.prems by (intro fold_choose_rule rule_table_ok_scope assms(1))
  have one: "length ?here \<le> 1"
    by (rule filter_key_distinct [OF rule_table_ok_scope [OF assms(1)]])
  have deeper: "d < Suc depth" if "map_of ?next k' = Some (d, p)" for k' d p
    using that Cons.prems by (auto simp: nxt less_Suc_eq split: list.splits option.splits if_splits)
  have "map_option snd (map_of (choose_along rs tr (Suc depth) chain ?next) k) =
      inherit (map_option snd (map_of ?next k)) (key_rules rs tr k chain)"
    using deeper by (rule Cons.IH)
  moreover have "map_option snd (map_of ?next k) = inherit (map_option snd (map_of chosen k)) ?here"
    using one by (cases ?here) (auto simp: nxt split: option.splits)
  ultimately show ?case by (simp add: key_rules_def inherit_append)
qed (simp add: key_rules_def)

lemma choose_rule_distinct: "distinct (map fst chosen) \<Longrightarrow> distinct (map fst (choose_rule d r chosen))"
  by (simp add: choose_rule_def distinct_update split: option.splits prod.splits)

lemma choose_along_distinct: "distinct (map fst chosen) \<Longrightarrow> distinct (map fst (choose_along rs tr d chain chosen))"
proof (induction chain arbitrary: d chosen)
  case (Cons sc chain)
  have "distinct (map fst (fold (choose_rule d) xs chosen))" for xs
    using Cons.prems by (induction xs arbitrary: chosen) (simp_all add: choose_rule_distinct)
  then show ?case using Cons.IH by simp
qed simp

lemma set_key_rules:
  "r \<in> set (key_rules rs tr k chain) \<longleftrightarrow>
     r \<in> set rs \<and> ru_rule_key r = k \<and> ru_scope r \<in> set chain \<and> ru_trigger r = tr \<and> ru_enabled r"
  by (auto simp: key_rules_def rules_at_def)

lemma chosen_entry:
  assumes "rule_table_ok rs"
  shows "(k, d, r) \<in> set (choose_along rs tr 0 chain []) \<Longrightarrow>
    ru_rule_key r = k \<and> inherit None (key_rules rs tr k chain) = Some r"
proof -
  assume "(k, d, r) \<in> set (choose_along rs tr 0 chain [])"
  then have "map_of (choose_along rs tr 0 chain []) k = Some (d, r)"
    using choose_along_distinct [of "[]"] by simp
  then have "inherit None (key_rules rs tr k chain) = Some r"
    using choose_along_inherit [OF assms, of "[]" 0 tr chain k] by simp
  then show ?thesis using inherit_mem [of None] set_key_rules by fastforce
qed

lemma effective_rules_mem:
  assumes "rule_table_ok rs"
  shows "r \<in> set (effective_rules rs chain tr) \<longleftrightarrow>
    inherit None (key_rules rs tr (ru_rule_key r) chain) = Some r \<and> ru_mode r \<noteq> ModeOff"
proof
  assume "r \<in> set (effective_rules rs chain tr)"
  then obtain k d where "(k, d, r) \<in> set (choose_along rs tr 0 chain [])" "ru_mode r \<noteq> ModeOff"
    by (auto simp: effective_rules_def split: if_splits)
  then show "inherit None (key_rules rs tr (ru_rule_key r) chain) = Some r \<and> ru_mode r \<noteq> ModeOff"
    using chosen_entry [OF assms] by blast
next
  assume r: "inherit None (key_rules rs tr (ru_rule_key r) chain) = Some r \<and> ru_mode r \<noteq> ModeOff"
  then have "map_option snd (map_of (choose_along rs tr 0 chain []) (ru_rule_key r)) = Some r"
    using choose_along_inherit [OF assms, of "[]" 0 tr chain] by simp
  then obtain d where "(ru_rule_key r, d, r) \<in> set (choose_along rs tr 0 chain [])"
    by (auto dest: map_of_SomeD)
  moreover have "chain \<noteq> []" using r by (auto simp: key_rules_def)
  ultimately show "r \<in> set (effective_rules rs chain tr)"
    using r by (force simp: effective_rules_def)
qed

lemma effective_rules_keys:
  assumes "rule_table_ok rs"
  shows "distinct (map ru_rule_key (effective_rules rs chain tr))"
proof -
  let ?cs = "choose_along rs tr 0 chain []"
  have "map ru_rule_key (map (\<lambda>(k, d, r). r) ?cs) = map fst ?cs"
    using chosen_entry [OF assms] by (auto simp: case_prod_beta)
  moreover have "distinct (map fst ?cs)" by (simp add: choose_along_distinct)
  ultimately have "distinct (map ru_rule_key (map (\<lambda>(k, d, r). r) ?cs))" by (simp only:)
  then have "distinct (map ru_rule_key (filter (\<lambda>r. ru_mode r \<noteq> ModeOff) (map (\<lambda>(k, d, r). r) ?cs)))"
    by (rule distinct_map_filter)
  then show ?thesis by (simp add: effective_rules_def distinct_map)
qed

text \<open>
  The effective rules of a scope chain are exactly the enabled rules that inheritance leaves in force for
  their key and that are not off, one per key, in the order of the keys.
\<close>

theorem effective_rules_exact:
  assumes "rule_table_ok rs"
  shows "(r \<in> set (effective_rules rs chain tr) \<longleftrightarrow>
      inherit None (key_rules rs tr (ru_rule_key r) chain) = Some r \<and> ru_mode r \<noteq> ModeOff) \<and>
    sorted (map ru_rule_key (effective_rules rs chain tr)) \<and>
    distinct (map ru_rule_key (effective_rules rs chain tr))"
  using effective_rules_mem [OF assms] effective_rules_keys [OF assms]
  by (simp add: effective_rules_def)

subsection \<open>Weakening\<close>

lemma inherit_strict:
  assumes "strictness (ru_mode p) \<le> strictness (ru_mode q)" "\<not> ru_override_allowed q"
    and "\<And>x. x \<in> set xs \<Longrightarrow> strictness (ru_mode p) \<le> strictness (ru_mode x) \<Longrightarrow> \<not> ru_override_allowed x"
  shows "\<exists>r. inherit (Some q) xs = Some r \<and> strictness (ru_mode p) \<le> strictness (ru_mode r)"
  using assms
proof (induction xs arbitrary: q)
  case (Cons x xs)
  show ?case
  proof (cases "denied_weakening q x")
    case True
    then show ?thesis using Cons by auto
  next
    case False
    then have "strictness (ru_mode p) \<le> strictness (ru_mode x)"
      using Cons.prems by (auto simp: denied_weakening_def)
    then show ?thesis using Cons False by auto
  qed
qed auto

lemma inherit_reaches:
  assumes "p \<in> set xs" "\<not> ru_override_allowed p"
    and "\<And>x. x \<in> set xs \<Longrightarrow> strictness (ru_mode p) \<le> strictness (ru_mode x) \<Longrightarrow> \<not> ru_override_allowed x"
  shows "\<exists>r. inherit cur xs = Some r \<and> strictness (ru_mode p) \<le> strictness (ru_mode r)"
proof -
  obtain ys zs where xs: "xs = ys @ p # zs" using assms(1) by (auto simp: in_set_conv_decomp)
  let ?q = "case inherit cur ys of None \<Rightarrow> p | Some q \<Rightarrow> if denied_weakening q p then q else p"
  have "inherit cur xs = inherit (Some ?q) zs"
    by (simp add: xs inherit_append split: option.splits)
  moreover have "strictness (ru_mode p) \<le> strictness (ru_mode ?q)" "\<not> ru_override_allowed ?q"
    using assms(2) by (auto simp: denied_weakening_def split: option.splits)
  ultimately show ?thesis using inherit_strict [of p ?q zs] assms(3) by (auto simp: xs)
qed

text \<open>
  A rule that forbids overriding cannot be weakened from below. If every rule of its key that is at least as
  strict also forbids it, a rule at least as strict is in force on every chain through its scope.
\<close>

theorem non_overridable_rule_is_kept:
  assumes "rule_table_ok rs" "p \<in> set rs" "ru_enabled p" "ru_mode p \<noteq> ModeOff"
    and "\<And>x. x \<in> set rs \<Longrightarrow> ru_rule_key x = ru_rule_key p \<Longrightarrow>
           strictness (ru_mode p) \<le> strictness (ru_mode x) \<Longrightarrow> \<not> ru_override_allowed x"
    and "ru_scope p \<in> set chain"
  shows "\<exists>r \<in> set (effective_rules rs chain (ru_trigger p)).
    ru_rule_key r = ru_rule_key p \<and> strictness (ru_mode p) \<le> strictness (ru_mode r)"
proof -
  let ?xs = "key_rules rs (ru_trigger p) (ru_rule_key p) chain"
  obtain r where r: "inherit None ?xs = Some r" "strictness (ru_mode p) \<le> strictness (ru_mode r)"
    using inherit_reaches [of p ?xs None] assms by (auto simp: set_key_rules)
  moreover have "ru_rule_key r = ru_rule_key p" using inherit_mem [OF r(1)] by (auto simp: set_key_rules)
  moreover have "ru_mode r \<noteq> ModeOff" using r(2) assms(4) by (cases "ru_mode p") auto
  ultimately show ?thesis using effective_rules_mem [OF assms(1), of r] by auto
qed

subsection \<open>An instance\<close>

definition demo_rule :: "uuid \<Rightarrow> rule_scope \<Rightarrow> rule_mode \<Rightarrow> bool \<Rightarrow> rule" where
  "demo_rule i sc m ov =
     \<lparr>ru_id = i, ru_rule_key = ''note'', ru_title = [], ru_scope = sc, ru_trigger = TrTaskBeforeComplete,
      ru_condition = None, ru_requirement = CompletionNoteReq [], ru_mode = m, ru_message = [],
      ru_override_allowed = ov, ru_enabled = True, ru_created_at = 0, ru_updated_at = 0\<rparr>"

definition demo_rules :: rule_table where
  "demo_rules = [demo_rule 1 ScopeTenant Required False, demo_rule 2 (ScopeProject 7) Recommendation True,
     demo_rule 3 (ScopeTask 9) ModeOff True]"

definition demo_rule_chain :: "rule_scope list" where
  "demo_rule_chain = [ScopeTenant, ScopeProject 7, ScopeTask 9]"

lemma demo_rules_ok: "rule_table_ok demo_rules"
  by (simp add: rule_table_ok_def demo_rules_def demo_rule_def keys_distinct_def)

theorem effective_rules_exact_witness:
  "rule_table_ok demo_rules \<and>
   demo_rule 1 ScopeTenant Required False \<in> set (effective_rules demo_rules demo_rule_chain TrTaskBeforeComplete) \<and>
   inherit None (key_rules demo_rules TrTaskBeforeComplete ''note'' demo_rule_chain) = Some (demo_rule 1 ScopeTenant Required False)"
proof -
  have "inherit None (key_rules demo_rules TrTaskBeforeComplete ''note'' demo_rule_chain) = Some (demo_rule 1 ScopeTenant Required False)"
    by code_simp
  then show ?thesis
    using effective_rules_exact [OF demo_rules_ok, of "demo_rule 1 ScopeTenant Required False"] demo_rules_ok
    by (simp add: demo_rule_def)
qed

theorem non_overridable_rule_is_kept_witness:
  "\<exists>r \<in> set (effective_rules demo_rules demo_rule_chain TrTaskBeforeComplete).
     ru_rule_key r = ''note'' \<and> 2 \<le> strictness (ru_mode r)"
proof -
  let ?p = "demo_rule 1 ScopeTenant Required False"
  have "\<exists>r \<in> set (effective_rules demo_rules demo_rule_chain (ru_trigger ?p)).
    ru_rule_key r = ru_rule_key ?p \<and> strictness (ru_mode ?p) \<le> strictness (ru_mode r)"
    by (rule non_overridable_rule_is_kept [OF demo_rules_ok])
      (auto simp: demo_rules_def demo_rule_def demo_rule_chain_def)
  then show ?thesis by (simp add: demo_rule_def)
qed

end
