(* ===== verification/Evidence_Store.thy ===== *)
theory Evidence_Store
  imports Document_Store Json_Text
begin

text \<open>
  The evidence registry \<^verbatim>\<open>crates/storage/src/evidence_repo.rs\<close>: the table \<^verbatim>\<open>evidence\<close>, whose rows are inserted and
  marked superseded but never otherwise changed, and the reads by which the lifecycle gate decides whether a
  requirement is met: the part of a scope chain a kind of evidence may be read from, the newest twenty live
  candidates of a scope, the fields and the document version each must carry.

  A row of \<^verbatim>\<open>entity_versions\<close> is the triple of its entity type, entity id and version number.
\<close>

type_synonym evidence_table = "evidence list"
type_synonym version_table = "(string \<times> string \<times> int) list"

record evidence_check =
  ec_satisfied :: bool
  ec_reason :: "string option"

definition evidence_check_default :: evidence_check where
  "evidence_check_default = \<lparr>ec_satisfied = False, ec_reason = None\<rparr>"

subsection \<open>Listing\<close>

definition evidence_get :: "evidence_table \<Rightarrow> uuid \<Rightarrow> evidence option" where
  "evidence_get es i = row_get ev_id es i"

definition newest_first :: "evidence list \<Rightarrow> evidence list" where
  "newest_first es = sort_key (\<lambda>e. - ev_recorded_at e) (sort_key (\<lambda>e. - int (ev_id e)) es)"

definition list_evidence_for_scope :: "evidence_table \<Rightarrow> rule_scope \<Rightarrow> bool \<Rightarrow> evidence list" where
  "list_evidence_for_scope es sc include_superseded =
     newest_first (filter (\<lambda>e. ev_scope e = sc \<and> (include_superseded \<or> ev_superseded_by e = None)) es)"

subsection \<open>Requirements met by state\<close>

definition has_independent_test_verification :: "evidence_table \<Rightarrow> uuid \<Rightarrow> uuid \<Rightarrow> string \<Rightarrow> bool" where
  "has_independent_test_verification es task executor revision =
     list_ex (\<lambda>e. ev_scope e = ScopeTask task \<and> ev_kind e = ArtifactCreatedEv \<and>
        ev_target e = Some (''test-verification:'' @ revision) \<and> ev_superseded_by e = None \<and>
        ev_authenticated_actor_id e \<noteq> None \<and> ev_authenticated_actor_id e = ar_id (ev_actor e) \<and>
        ar_id (ev_actor e) \<noteq> Some executor \<and> json_get ''passed'' (ev_payload e) = Some (JBool True)) es"

definition task_has_live_document :: "document_table \<Rightarrow> uuid \<Rightarrow> bool" where
  "task_has_live_document docs task =
     list_ex (\<lambda>d. doc_task_id d = Some task \<and> doc_status d \<noteq> DocArchived \<and> doc_archived_at d = None) docs"

subsection \<open>Reach\<close>

fun scope_rank :: "rule_scope \<Rightarrow> nat" where
  "scope_rank ScopeTenant = 0"
| "scope_rank (ScopeProject _) = 1"
| "scope_rank (ScopePlan _) = 2"
| "scope_rank (ScopeTask _) = 3"

fun reach_ceiling :: "evidence_reach \<Rightarrow> nat" where
  "reach_ceiling ReachTenant = 0"
| "reach_ceiling ReachProject = 1"
| "reach_ceiling ReachPlan = 2"
| "reach_ceiling SelfOnly = 3"

text \<open>\<^verbatim>\<open>Iterator::position\<close>\<close>

fun position_of :: "('a \<Rightarrow> bool) \<Rightarrow> 'a list \<Rightarrow> nat option" where
  "position_of p [] = None"
| "position_of p (x # xs) = (if p x then Some 0 else map_option Suc (position_of p xs))"

definition reachable :: "rule_scope list \<Rightarrow> evidence_reach \<Rightarrow> rule_scope list" where
  "reachable chain reach =
     (if reach = SelfOnly then drop (length chain - 1) chain
      else drop (unwrap_or (length chain - 1) (position_of (\<lambda>s. reach_ceiling reach \<le> scope_rank s) chain)) chain)"

subsection \<open>Candidates\<close>

datatype version_rule = VersionAny | AtLeast nat | Latest nat

definition parse_version :: "string \<Rightarrow> nat option" where
  "parse_version version = parse_u64
     (case strip_prefix ''v'' version of
        Some s \<Rightarrow> s
      | None \<Rightarrow> (case strip_prefix ''V'' version of Some s \<Rightarrow> s | None \<Rightarrow> version))"

definition current_document_version :: "version_table \<Rightarrow> string \<Rightarrow> nat option" where
  "current_document_version vs doc_ref =
     (let entity_id = (if starts_with ''doc_'' doc_ref then doc_ref else ''doc_'' @ doc_ref);
          numbers = map (\<lambda>(ty, i, n). n) (filter (\<lambda>(ty, i, n). ty = ''document'' \<and> i = entity_id) vs)
      in case numbers of
           [] \<Rightarrow> None
         | n # ns \<Rightarrow> let current = fold max ns n in if current \<ge> 0 then Some (nat current) else None)"

definition nonempty :: "string option \<Rightarrow> bool" where
  "nonempty s = (case s of Some t \<Rightarrow> t \<noteq> [] | None \<Rightarrow> False)"

definition field_missing :: "evidence \<Rightarrow> string \<Rightarrow> bool" where
  "field_missing e field =
     (case json_get field (ev_payload e) of
        Some v \<Rightarrow> v = JNull \<or> v = JString []
      | None \<Rightarrow>
          if field = ''reason'' then ev_reason e = []
          else if field = ''actor'' then ar_id (ev_actor e) = None \<and> \<not> nonempty (ar_name (ev_actor e))
          else if field = ''doc_version'' then \<not> nonempty (ev_doc_version e)
          else if field = ''target'' then ev_target e = None
          else True)"

text \<open>Why a candidate is rejected; \<open>None\<close> accepts it.\<close>

definition version_reject :: "version_rule \<Rightarrow> evidence \<Rightarrow> string option" where
  "version_reject vr e =
     (case vr of
        VersionAny \<Rightarrow> None
      | AtLeast minimum \<Rightarrow>
          (case Option.bind (ev_doc_version e) parse_version of
             None \<Rightarrow> Some (''evidence doc_version is missing or invalid; expected an integer >= '' @ show_nat minimum @
                      '' with optional v/V prefix'')
           | Some actual \<Rightarrow>
               if actual < minimum
               then Some (''evidence doc_version '' @ show_nat actual @ '' is older than required '' @ show_nat minimum)
               else None)
      | Latest current \<Rightarrow>
          if Option.bind (ev_doc_version e) parse_version \<noteq> Some current
          then Some (''evidence doc_version '' @ unwrap_or ''<missing>'' (ev_doc_version e) @
                 '' is not the current document version '' @ show_nat current @
                 '' required by min_version=latest; re-read the document and record a new document_read_ack with doc_version '' @
                 show_nat current)
          else None)"

definition candidate_reject :: "string list option \<Rightarrow> version_rule \<Rightarrow> evidence \<Rightarrow> string option" where
  "candidate_reject required_fields vr e =
     (case find (field_missing e) (unwrap_or [] required_fields) of
        Some field \<Rightarrow> Some (''evidence payload field `'' @ field @ ''` is missing or empty'')
      | None \<Rightarrow> version_reject vr e)"

definition target_matches :: "string option \<Rightarrow> version_rule \<Rightarrow> evidence \<Rightarrow> bool" where
  "target_matches target vr e =
     (case target of
        None \<Rightarrow> True
      | Some t \<Rightarrow> ev_target e = Some t \<or> ((case vr of Latest _ \<Rightarrow> False | _ \<Rightarrow> True) \<and> ev_target e = None))"

definition evidence_candidates ::
  "evidence_table \<Rightarrow> rule_scope \<Rightarrow> evidence_kind \<Rightarrow> string option \<Rightarrow> version_rule \<Rightarrow> evidence list" where
  "evidence_candidates es sc kind target vr =
     newest_first (filter (\<lambda>e. ev_scope e = sc \<and> ev_kind e = kind \<and> ev_superseded_by e = None \<and>
        target_matches target vr e) es)"

fun scan_candidates :: "string list option \<Rightarrow> version_rule \<Rightarrow> string option \<Rightarrow> evidence list \<Rightarrow> evidence_check" where
  "scan_candidates fs vr reason [] = \<lparr>ec_satisfied = False, ec_reason = reason\<rparr>"
| "scan_candidates fs vr reason (e # es) =
     (case candidate_reject fs vr e of
        None \<Rightarrow> \<lparr>ec_satisfied = True, ec_reason = None\<rparr>
      | Some r \<Rightarrow> scan_candidates fs vr (or_opt reason (Some r)) es)"

definition scope_has ::
  "evidence_table \<Rightarrow> rule_scope \<Rightarrow> evidence_kind \<Rightarrow> string option \<Rightarrow> string list option \<Rightarrow> version_rule \<Rightarrow> evidence_check" where
  "scope_has es sc kind target fs vr = scan_candidates fs vr None (take 20 (evidence_candidates es sc kind target vr))"

fun scan_scopes ::
  "evidence_table \<Rightarrow> evidence_kind \<Rightarrow> string option \<Rightarrow> string list option \<Rightarrow> version_rule \<Rightarrow>
   string option \<Rightarrow> rule_scope list \<Rightarrow> evidence_check" where
  "scan_scopes es kind target fs vr reason [] =
     \<lparr>ec_satisfied = False,
      ec_reason = (case (reason, vr, target) of
        (None, Latest current, Some doc_ref) \<Rightarrow>
          Some (''requires a document_read_ack targeting `'' @ doc_ref @ ''` with doc_version '' @ show_nat current @
            '' (current document version, min_version=latest)'')
      | _ \<Rightarrow> reason)\<rparr>"
| "scan_scopes es kind target fs vr reason (sc # scs) =
     (let check = scope_has es sc kind target fs vr in
      if ec_satisfied check then check
      else scan_scopes es kind target fs vr (or_opt reason (ec_reason check)) scs)"

definition version_rule_of :: "version_table \<Rightarrow> string option \<Rightarrow> string option \<Rightarrow> version_rule option" where
  "version_rule_of vs target min_version =
     (case min_version of
        None \<Rightarrow> Some VersionAny
      | Some version \<Rightarrow>
          if version = ''latest''
          then Some (case Option.bind target (current_document_version vs) of Some current \<Rightarrow> Latest current | None \<Rightarrow> VersionAny)
          else map_option AtLeast (parse_version version))"

definition has_live_evidence ::
  "evidence_table \<Rightarrow> version_table \<Rightarrow> rule_scope list \<Rightarrow> evidence_kind \<Rightarrow> string option \<Rightarrow> string list option \<Rightarrow>
   string option \<Rightarrow> evidence_check" where
  "has_live_evidence es vs chain kind target fs min_version =
     (case version_rule_of vs target min_version of
        None \<Rightarrow> \<lparr>ec_satisfied = False,
           ec_reason = Some (''rule min_version `'' @ unwrap_or [] min_version @
             ''` is invalid; expected an integer with optional v/V prefix'')\<rparr>
      | Some vr \<Rightarrow> scan_scopes es kind target fs vr None (reachable chain (evidence_kind_reach kind)))"

subsection \<open>Writes\<close>

definition evidence_insert :: "evidence \<Rightarrow> evidence_table \<Rightarrow> evidence_table" where
  "evidence_insert e es = (if list_ex (\<lambda>x. ev_id x = ev_id e) es then es else es @ [e])"

definition evidence_apply_event :: "event \<Rightarrow> evidence_table \<Rightarrow> evidence_table" where
  "evidence_apply_event ev es =
     (case ev of
        RuleEv (EvidenceRecorded e) \<Rightarrow> evidence_insert e es
      | RuleEv (EvidenceSuperseded i by _) \<Rightarrow> row_modify ev_id i (\<lambda>e. e\<lparr>ev_superseded_by := Some by\<rparr>) es
      | _ \<Rightarrow> es)"

subsection \<open>What satisfies a requirement\<close>

text \<open>The reference definition of an acceptable record.\<close>

definition acceptable :: "string list option \<Rightarrow> version_rule \<Rightarrow> evidence \<Rightarrow> bool" where
  "acceptable fs vr e \<longleftrightarrow>
     list_all (\<lambda>f. \<not> field_missing e f) (unwrap_or [] fs) \<and>
     (case vr of
        VersionAny \<Rightarrow> True
      | AtLeast minimum \<Rightarrow> (case Option.bind (ev_doc_version e) parse_version of Some n \<Rightarrow> minimum \<le> n | None \<Rightarrow> False)
      | Latest current \<Rightarrow> Option.bind (ev_doc_version e) parse_version = Some current)"

lemma candidate_reject_None: "candidate_reject fs vr e = None \<longleftrightarrow> acceptable fs vr e"
proof (cases "find (field_missing e) (unwrap_or [] fs)")
  case None
  then show ?thesis
    by (auto simp: candidate_reject_def acceptable_def version_reject_def find_None_iff list_all_iff not_less
        split: option.splits version_rule.splits)
next
  case (Some f)
  then have "f \<in> set (unwrap_or [] fs) \<and> field_missing e f" by (auto simp: find_Some_iff)
  then show ?thesis using Some by (auto simp: candidate_reject_def acceptable_def list_all_iff)
qed

lemma scan_candidates_satisfied:
  "ec_satisfied (scan_candidates fs vr reason es) \<longleftrightarrow> list_ex (acceptable fs vr) es"
  by (induction es arbitrary: reason) (auto simp: candidate_reject_None [symmetric] split: option.splits)

lemma scan_scopes_satisfied:
  "ec_satisfied (scan_scopes es kind target fs vr reason scs) \<longleftrightarrow>
     (\<exists>sc \<in> set scs. ec_satisfied (scope_has es sc kind target fs vr))"
  by (induction scs arbitrary: reason) (auto simp: Let_def)

lemma set_newest_first [simp]: "set (newest_first es) = set es"
  by (simp add: newest_first_def)

lemma set_evidence_candidates:
  "e \<in> set (evidence_candidates es sc kind target vr) \<longleftrightarrow>
     e \<in> set es \<and> ev_scope e = sc \<and> ev_kind e = kind \<and> ev_superseded_by e = None \<and> target_matches target vr e"
  by (auto simp: evidence_candidates_def)

lemma has_live_evidence_sound:
  assumes "ec_satisfied (has_live_evidence es vs chain kind target fs mv)"
  shows "\<exists>vr e. version_rule_of vs target mv = Some vr \<and> e \<in> set es \<and> ev_superseded_by e = None \<and> ev_kind e = kind \<and>
    ev_scope e \<in> set (reachable chain (evidence_kind_reach kind)) \<and> target_matches target vr e \<and> acceptable fs vr e"
proof -
  obtain vr sc where vr: "version_rule_of vs target mv = Some vr" "sc \<in> set (reachable chain (evidence_kind_reach kind))"
    "ec_satisfied (scope_has es sc kind target fs vr)"
    using assms by (auto simp: has_live_evidence_def scan_scopes_satisfied split: option.splits)
  then obtain e where "e \<in> set (take 20 (evidence_candidates es sc kind target vr))" "acceptable fs vr e"
    by (auto simp: scope_has_def scan_candidates_satisfied list_ex_iff)
  then show ?thesis using vr set_evidence_candidates [of e es sc kind target vr] by (auto dest: in_set_takeD)
qed

text \<open>
  A requirement is met exactly when some record of the kind is live, lies in a scope of the chain within the
  kind's reach, matches the target, carries every required field and has an admissible document version.
  (The query reads the newest twenty candidates of a scope.)
\<close>

theorem evidence_satisfaction_exact:
  assumes "version_rule_of vs target mv = Some vr"
    and "\<And>sc. sc \<in> set chain \<Longrightarrow> length (evidence_candidates es sc kind target vr) \<le> 20"
  shows "ec_satisfied (has_live_evidence es vs chain kind target fs mv) \<longleftrightarrow>
    (\<exists>e. e \<in> set es \<and> ev_superseded_by e = None \<and> ev_kind e = kind \<and>
       ev_scope e \<in> set (reachable chain (evidence_kind_reach kind)) \<and> target_matches target vr e \<and> acceptable fs vr e)"
    (is "?sat \<longleftrightarrow> ?found")
proof
  assume ?sat
  then show ?found using has_live_evidence_sound [of es vs chain kind target fs mv] assms(1) by auto
next
  assume ?found
  then obtain e where e: "e \<in> set (evidence_candidates es (ev_scope e) kind target vr)" "acceptable fs vr e"
    "ev_scope e \<in> set (reachable chain (evidence_kind_reach kind))"
    by (auto simp: set_evidence_candidates)
  then have "ev_scope e \<in> set chain" by (auto simp: reachable_def dest: in_set_dropD split: if_splits)
  then have "ec_satisfied (scope_has es (ev_scope e) kind target fs vr)"
    using e assms(2) by (auto simp: scope_has_def scan_candidates_satisfied list_ex_iff)
  then show ?sat using e(3) assms(1) by (auto simp: has_live_evidence_def scan_scopes_satisfied)
qed

subsection \<open>Reach\<close>

text \<open>A chain runs from the tenant inwards: the ranks do not decrease.\<close>

definition chain_ordered :: "rule_scope list \<Rightarrow> bool" where
  "chain_ordered chain \<longleftrightarrow> sorted (map scope_rank chain)"

lemma position_of_split:
  "position_of p xs = Some k \<Longrightarrow> k < length xs \<and> p (xs ! k) \<and> list_all (\<lambda>x. \<not> p x) (take k xs)"
  by (induction xs arbitrary: k) (auto split: if_splits)

lemma position_of_None: "position_of p xs = None \<longleftrightarrow> list_all (\<lambda>x. \<not> p x) xs"
  by (induction xs) auto

lemma reachable_ranks:
  assumes "chain_ordered chain" "reach \<noteq> SelfOnly" "\<exists>s \<in> set chain. reach_ceiling reach \<le> scope_rank s"
  shows "reachable chain reach = filter (\<lambda>s. reach_ceiling reach \<le> scope_rank s) chain"
proof -
  let ?p = "\<lambda>s. reach_ceiling reach \<le> scope_rank s"
  obtain k where k: "position_of ?p chain = Some k"
    using assms(3) position_of_None [of ?p chain] by (cases "position_of ?p chain") (auto simp: list_all_iff)
  note at = position_of_split [OF k]
  have "\<forall>s \<in> set (drop k chain). ?p s"
  proof
    fix s assume "s \<in> set (drop k chain)"
    then obtain j where j: "j < length chain - k" "s = chain ! (k + j)" by (auto simp: in_set_conv_nth)
    then have "scope_rank (chain ! k) \<le> scope_rank s"
      using assms(1) at by (auto simp: chain_ordered_def sorted_iff_nth_mono)
    then show "?p s" using at by simp
  qed
  then have "filter ?p (take k chain @ drop k chain) = drop k chain"
    using at by (auto simp: list_all_iff filter_empty_conv simp del: append_take_drop_id)
  then show ?thesis using assms(2) k by (simp add: reachable_def unwrap_or_def)
qed

lemma reachable_self: "chain \<noteq> [] \<Longrightarrow> reachable chain SelfOnly = [last chain]"
  by (cases chain rule: rev_cases) (auto simp: reachable_def)

subsection \<open>Immutability\<close>

lemma evidence_supersede_get:
  "evidence_get es i = Some e \<Longrightarrow>
   evidence_get (row_modify ev_id j (\<lambda>e. e\<lparr>ev_superseded_by := Some k\<rparr>) es) i =
     Some (if i = j then e\<lparr>ev_superseded_by := Some k\<rparr> else e)"
  by (induction es) (auto simp: evidence_get_def row_modify_def split: if_splits)

lemma evidence_insert_get: "evidence_get es i = Some e \<Longrightarrow> evidence_get (evidence_insert x es) i = Some e"
proof -
  have "row_get ev_id es i = Some e \<Longrightarrow> row_get ev_id (es @ [x]) i = Some e" by (induction es) auto
  then show "evidence_get es i = Some e \<Longrightarrow> evidence_get (evidence_insert x es) i = Some e"
    by (simp add: evidence_get_def evidence_insert_def)
qed

lemma evidence_apply_get:
  assumes "evidence_get es i = Some e"
  shows "evidence_get (evidence_apply_event ev es) i = Some e \<or>
    (\<exists>k. evidence_get (evidence_apply_event ev es) i = Some (e\<lparr>ev_superseded_by := Some k\<rparr>))"
proof (cases "\<exists>j k at. ev = RuleEv (EvidenceSuperseded j k at)")
  case True
  then obtain j k at where "ev = RuleEv (EvidenceSuperseded j k at)" by blast
  then show ?thesis
    using evidence_supersede_get [OF assms, of j k]
    by (cases "i = j") (auto simp: evidence_apply_event_def intro!: exI [of _ k])
next
  case False
  then show ?thesis
    using assms evidence_insert_get [OF assms]
    by (simp add: evidence_apply_event_def split: event.splits rule_event.splits)
qed

text \<open>
  Whatever events follow, a recorded row keeps every column but the supersede mark, and a superseded record
  is never live again: no later delivery of its own event, and no correction, brings it back.
\<close>

theorem evidence_immutable:
  assumes "evidence_get es i = Some e"
  shows "\<exists>b. evidence_get (fold evidence_apply_event evs es) i = Some (e\<lparr>ev_superseded_by := b\<rparr>) \<and>
    (ev_superseded_by e \<noteq> None \<longrightarrow> b \<noteq> None)"
  using assms
proof (induction evs arbitrary: es e)
  case Nil
  then show ?case by (intro exI [of _ "ev_superseded_by e"]) simp
next
  case (Cons ev evs)
  consider "evidence_get (evidence_apply_event ev es) i = Some e"
    | k where "evidence_get (evidence_apply_event ev es) i = Some (e\<lparr>ev_superseded_by := Some k\<rparr>)"
    using evidence_apply_get [OF Cons.prems] by blast
  then show ?case
  proof cases
    case 1
    then show ?thesis using Cons.IH by simp
  next
    case (2 k)
    then show ?thesis using Cons.IH [OF 2] by auto
  qed
qed

subsection \<open>An instance\<close>

definition demo_note :: "uuid \<Rightarrow> rule_scope \<Rightarrow> uuid option \<Rightarrow> evidence" where
  "demo_note i sc by =
     \<lparr>ev_id = i, ev_kind = CompletionNoteEv, ev_scope = sc, ev_target = None, ev_doc_version = None,
      ev_actor = \<lparr>ar_kind = ''user'', ar_id = None, ar_name = None\<rparr>, ev_authenticated_actor_id = None,
      ev_reason = ''shipped'', ev_payload = JNull, ev_project_id = None, ev_plan_id = None, ev_task_id = None,
      ev_run_id = None, ev_artifact_id = None, ev_rule_id = None, ev_recorded_at = 5, ev_superseded_by = by\<rparr>"

theorem evidence_satisfaction_exact_witness:
  "ec_satisfied (has_live_evidence [demo_note 1 ScopeTenant None, demo_note 2 (ScopeTask 9) None] []
     [ScopeTenant, ScopeTask 9] CompletionNoteEv None (Some [''reason'']) None) \<and>
   \<not> ec_satisfied (has_live_evidence [demo_note 1 ScopeTenant None, demo_note 2 (ScopeTask 9) (Some 3)] []
     [ScopeTenant, ScopeTask 9] CompletionNoteEv None (Some [''reason'']) None)"
proof -
  have few: "length (evidence_candidates [demo_note 1 a x, demo_note 2 b y] sc k t vr) \<le> 20" for a b x y sc k t vr
    by (simp add: evidence_candidates_def newest_first_def)
  have any: "version_rule_of [] None None = Some VersionAny" by (simp add: version_rule_of_def)
  note exact = evidence_satisfaction_exact [OF any few]
  show ?thesis
    unfolding exact
    by (simp add: reachable_self acceptable_def target_matches_def field_missing_def demo_note_def
        json_get_def unwrap_or_def conj_disj_distribL conj_disj_distribR ex_disj_distrib)
qed

theorem evidence_immutable_witness:
  "\<exists>b. evidence_get (fold evidence_apply_event [RuleEv (EvidenceSuperseded 1 2 7), RuleEv (EvidenceRecorded (demo_note 1 ScopeTenant None))]
       [demo_note 1 ScopeTenant (Some 4)]) 1 = Some (demo_note 1 ScopeTenant b) \<and> b \<noteq> None"
  using evidence_immutable [of "[demo_note 1 ScopeTenant (Some 4)]" 1 "demo_note 1 ScopeTenant (Some 4)"
      "[RuleEv (EvidenceSuperseded 1 2 7), RuleEv (EvidenceRecorded (demo_note 1 ScopeTenant None))]"]
  by (simp add: evidence_get_def demo_note_def)

end
