(* ===== verification/Work_Units.thy ===== *)
theory Work_Units
  imports Task_Store
begin

text \<open>
  Work units and the handoffs between them: the projections \<^verbatim>\<open>crates/storage/src/work_unit_repo.rs\<close> and
  \<^verbatim>\<open>handoff_repo.rs\<close>, the atomic claim \<^verbatim>\<open>try_claim_next\<close>, and the arms of \<^verbatim>\<open>CommandHandler::build_events\<close>
  (\<^verbatim>\<open>crates/core/src/handler.rs\<close>) that work on them. The arms read the tables and return events.

  The order of claims prefers the units whose tags fit the agent's capability profiles. Profile scores are
  compared and never computed with here, so a score is an integer; a half-life is a duration.
\<close>

subsection \<open>Tables\<close>

record unit_row =
  ur_unit :: work_unit
  ur_completed_by :: "uuid option"
  ur_elapsed_ms :: "int option"

record handoff_row =
  hr_contract :: handoff_contract
  hr_latency_ms :: "int option"

record capability_profile =
  cp_agent_id :: uuid
  cp_capability :: string
  cp_score :: int
  cp_last_observed_at :: timestamp
  cp_half_life :: int
  cp_user_set :: bool

abbreviation unit_id :: "unit_row \<Rightarrow> uuid" where
  "unit_id r \<equiv> wu_id (ur_unit r)"

abbreviation handoff_id :: "handoff_row \<Rightarrow> uuid" where
  "handoff_id r \<equiv> ho_id (hr_contract r)"

subsection \<open>work\_unit\_repo.rs\<close>

definition unit_get :: "unit_row list \<Rightarrow> uuid \<Rightarrow> work_unit option" where
  "unit_get us i = map_option ur_unit (row_get unit_id us i)"

definition list_units_by_task :: "unit_row list \<Rightarrow> uuid \<Rightarrow> work_unit list" where
  "list_units_by_task us task = sort_key wu_created_at (filter (\<lambda>u. wu_task_id u = task) (map ur_unit us))"

definition list_units_by_project :: "unit_row list \<Rightarrow> task_table \<Rightarrow> uuid \<Rightarrow> work_unit_status option \<Rightarrow> work_unit list" where
  "list_units_by_project us tasks project st =
     sort_key wu_created_at (filter (\<lambda>u.
       list_ex (\<lambda>t. t_id t = wu_task_id u \<and> t_project_id t = Some project) tasks \<and>
       (case st of Some x \<Rightarrow> wu_status u = x | None \<Rightarrow> True)) (map ur_unit us))"

definition live_profile :: "timestamp \<Rightarrow> capability_profile \<Rightarrow> bool" where
  "live_profile now p \<longleftrightarrow> cp_user_set p \<or> now - cp_last_observed_at p \<le> 2 * cp_half_life p"

definition unit_fit :: "timestamp \<Rightarrow> capability_profile list \<Rightarrow> uuid \<Rightarrow> work_unit \<Rightarrow> int" where
  "unit_fit now ps agent u =
     (case [cp_score p. tag \<leftarrow> wu_capability_tags u, p \<leftarrow> ps,
              cp_agent_id p = agent \<and> cp_capability p = tag \<and> live_profile now p] of
        [] \<Rightarrow> 0 | s # ss \<Rightarrow> fold max ss s)"

definition unclaimed :: "timestamp \<Rightarrow> uuid \<Rightarrow> work_unit \<Rightarrow> bool" where
  "unclaimed now agent u \<longleftrightarrow>
     (wu_status u = WuTodo \<or> wu_status u = WuReady) \<and>
     (wu_owner_agent_id u = None \<or> wu_owner_agent_id u = Some agent \<or>
      (case wu_claim_expires_at u of None \<Rightarrow> True | Some e \<Rightarrow> e < now))"

definition handoff_pending :: "handoff_row list \<Rightarrow> uuid \<Rightarrow> bool" where
  "handoff_pending hs i =
     list_ex (\<lambda>h. ho_to_work_unit_id (hr_contract h) = i \<and> ho_status (hr_contract h) \<noteq> HoAccepted) hs"

definition dispatchable :: "timestamp \<Rightarrow> handoff_row list \<Rightarrow> uuid \<Rightarrow> uuid \<Rightarrow> work_unit \<Rightarrow> bool" where
  "dispatchable now hs task agent u \<longleftrightarrow>
     wu_task_id u = task \<and> unclaimed now agent u \<and> \<not> handoff_pending hs (wu_id u)"

definition dispatch_order ::
  "timestamp \<Rightarrow> handoff_row list \<Rightarrow> capability_profile list \<Rightarrow> uuid \<Rightarrow> uuid \<Rightarrow> unit_row list \<Rightarrow> work_unit list" where
  "dispatch_order now hs ps task agent us =
     sort_key (\<lambda>u. - unit_fit now ps agent u) (sort_key wu_created_at
       (filter (dispatchable now hs task agent) (map ur_unit us)))"

definition claim_unit :: "timestamp \<Rightarrow> uuid \<Rightarrow> timestamp \<Rightarrow> work_unit \<Rightarrow> work_unit" where
  "claim_unit now agent expires u = u
     \<lparr>wu_owner_agent_id := Some agent, wu_claim_expires_at := Some expires, wu_status := WuInProgress, wu_updated_at := now\<rparr>"

definition modify_unit :: "uuid \<Rightarrow> (work_unit \<Rightarrow> work_unit) \<Rightarrow> unit_row list \<Rightarrow> unit_row list" where
  "modify_unit i f us = row_modify unit_id i (\<lambda>r. r\<lparr>ur_unit := f (ur_unit r)\<rparr>) us"

definition try_claim_next ::
  "timestamp \<Rightarrow> int \<Rightarrow> handoff_row list \<Rightarrow> capability_profile list \<Rightarrow> uuid \<Rightarrow> uuid \<Rightarrow> unit_row list \<Rightarrow>
   work_unit option \<times> unit_row list" where
  "try_claim_next now ttl hs ps task agent us =
     (case dispatch_order now hs ps task agent us of
        [] \<Rightarrow> (None, us)
      | u # _ \<Rightarrow>
          let us' = modify_unit (wu_id u) (\<lambda>x. if unclaimed now agent x then claim_unit now agent (now + ttl) x else x) us
          in (unit_get us' (wu_id u), us'))"

definition revert_claim :: "timestamp \<Rightarrow> uuid \<Rightarrow> uuid \<Rightarrow> unit_row list \<Rightarrow> unit_row list" where
  "revert_claim now i agent us =
     modify_unit i (\<lambda>u. if wu_owner_agent_id u = Some agent
       then u\<lparr>wu_owner_agent_id := None, wu_claim_expires_at := None, wu_status := WuReady, wu_updated_at := now\<rparr>
       else u) us"

definition unit_upsert :: "work_unit \<Rightarrow> unit_row list \<Rightarrow> unit_row list" where
  "unit_upsert u us = row_upsert unit_id \<lparr>ur_unit = u, ur_completed_by = None, ur_elapsed_ms = None\<rparr> us"

definition unit_apply_event :: "event_envelope \<Rightarrow> unit_row list \<Rightarrow> unit_row list" where
  "unit_apply_event env us =
     (let at = en_occurred_at env in
      case en_payload env of
        WorkEv (WorkUnitCreated u) \<Rightarrow> unit_upsert u us
      | WorkEv (WorkUnitClaimed i agent expires) \<Rightarrow> modify_unit i (claim_unit at agent expires) us
      | WorkEv (WorkUnitStarted i _) \<Rightarrow> modify_unit i (\<lambda>u. u\<lparr>wu_status := WuInProgress, wu_updated_at := at\<rparr>) us
      | WorkEv (WorkUnitBlocked i _ _) \<Rightarrow> modify_unit i (\<lambda>u. u\<lparr>wu_status := WuBlocked, wu_updated_at := at\<rparr>) us
      | WorkEv (WorkUnitCompleted i _ _ _ completed_by elapsed _) \<Rightarrow>
          row_modify unit_id i (\<lambda>r. r
            \<lparr>ur_unit := (ur_unit r)\<lparr>wu_status := WuDone, wu_owner_agent_id := None, wu_claim_expires_at := None, wu_updated_at := at\<rparr>,
             ur_completed_by := completed_by, ur_elapsed_ms := elapsed\<rparr>) us
      | WorkEv (WorkUnitReleased i _) \<Rightarrow>
          modify_unit i (\<lambda>u. u\<lparr>wu_owner_agent_id := None, wu_claim_expires_at := None,
            wu_status := (if wu_status u = WuInProgress then WuReady else wu_status u), wu_updated_at := at\<rparr>) us
      | _ \<Rightarrow> us)"

subsection \<open>handoff\_repo.rs\<close>

definition handoff_get :: "handoff_row list \<Rightarrow> uuid \<Rightarrow> handoff_contract option" where
  "handoff_get hs i = map_option hr_contract (row_get handoff_id hs i)"

definition handoff_pair :: "handoff_contract \<Rightarrow> uuid \<times> uuid" where
  "handoff_pair h = (ho_from_work_unit_id h, ho_to_work_unit_id h)"

definition get_by_pair :: "handoff_row list \<Rightarrow> uuid \<Rightarrow> uuid \<Rightarrow> handoff_contract option" where
  "get_by_pair hs a b = find (\<lambda>h. handoff_pair h = (a, b)) (map hr_contract hs)"

definition list_handoffs_for_unit :: "handoff_row list \<Rightarrow> uuid \<Rightarrow> handoff_contract list" where
  "list_handoffs_for_unit hs i =
     sort_key (\<lambda>h. - ho_updated_at h) (sort_key ho_id
       (filter (\<lambda>h. ho_from_work_unit_id h = i \<or> ho_to_work_unit_id h = i) (map hr_contract hs)))"

text \<open>\<^verbatim>\<open>ON CONFLICT(id)\<close> keeps the endpoints and the creation time; a second row for a pair trips the unique index.\<close>

definition handoff_upsert :: "handoff_contract \<Rightarrow> handoff_row list \<Rightarrow> handoff_row list result" where
  "handoff_upsert h hs =
     (if list_ex (\<lambda>r. handoff_id r = ho_id h) hs
      then Inr (row_modify handoff_id (ho_id h) (\<lambda>r.
             \<lparr>hr_contract = h\<lparr>ho_from_work_unit_id := ho_from_work_unit_id (hr_contract r),
                ho_to_work_unit_id := ho_to_work_unit_id (hr_contract r), ho_created_at := ho_created_at (hr_contract r)\<rparr>,
              hr_latency_ms = None\<rparr>) hs)
      else if list_ex (\<lambda>r. handoff_pair (hr_contract r) = handoff_pair h) hs
      then Inl (Storage ''UNIQUE constraint failed'')
      else Inr (hs @ [\<lparr>hr_contract = h, hr_latency_ms = None\<rparr>]))"

definition handoff_apply_event :: "event \<Rightarrow> handoff_row list \<Rightarrow> handoff_row list result" where
  "handoff_apply_event e hs =
     (case e of
        WorkEv (HandoffRequested h) \<Rightarrow> handoff_upsert h hs
      | WorkEv (HandoffAccepted i by notes latency at) \<Rightarrow>
          Inr (row_modify handoff_id i (\<lambda>r. \<lparr>hr_contract = (hr_contract r)
             \<lparr>ho_status := HoAccepted, ho_accepted_by_agent_id := by, ho_notes := notes, ho_required_changes := [],
              ho_updated_at := at\<rparr>, hr_latency_ms = latency\<rparr>) hs)
      | WorkEv (HandoffRejected i reason changes latency at) \<Rightarrow>
          Inr (row_modify handoff_id i (\<lambda>r. \<lparr>hr_contract = (hr_contract r)
             \<lparr>ho_status := HoRejected, ho_notes := Some reason, ho_required_changes := changes, ho_updated_at := at\<rparr>,
              hr_latency_ms = latency\<rparr>) hs)
      | _ \<Rightarrow> Inr hs)"

subsection \<open>Commands\<close>

definition require_unit :: "unit_row list \<Rightarrow> uuid \<Rightarrow> work_unit result" where
  "require_unit us i = ok_or (NotFound ''work unit '') (unit_get us i)"

definition build_create_work_unit :: "uuid \<Rightarrow> timestamp \<Rightarrow> task_store \<Rightarrow> new_work_unit \<Rightarrow> event list result" where
  "build_create_work_unit fresh now ts n =
     bind_result (ok_or (NotFound ''task '') (task_repo_get ts (nw_task_id n))) (\<lambda>_.
       let u = into_work_unit fresh n now in
       if trim (wu_title u) = [] then Inl (Validation ''work unit title must not be empty'')
       else Inr [WorkEv (WorkUnitCreated u)])"

definition unit_completed :: "timestamp \<Rightarrow> work_unit \<Rightarrow> string \<Rightarrow> string list \<Rightarrow> uuid list \<Rightarrow> event" where
  "unit_completed now u outcome produced suggested = WorkEv (WorkUnitCompleted (wu_id u) outcome produced suggested
     (wu_owner_agent_id u) (Some (now - wu_created_at u)) now)"

definition build_complete_work_unit ::
  "timestamp \<Rightarrow> unit_row list \<Rightarrow> uuid \<Rightarrow> string option \<Rightarrow> string list \<Rightarrow> uuid list \<Rightarrow> event list result" where
  "build_complete_work_unit now us i outcome produced suggested =
     bind_result (require_unit us i) (\<lambda>u.
       if work_unit_is_terminal (wu_status u) then Inl (Conflict ''work unit '')
       else Inr [unit_completed now u (unwrap_or ''ok'' outcome) produced suggested])"

definition build_release_work_unit :: "timestamp \<Rightarrow> unit_row list \<Rightarrow> uuid \<Rightarrow> event list result" where
  "build_release_work_unit now us i =
     bind_result (require_unit us i) (\<lambda>_. Inr [WorkEv (WorkUnitReleased i now)])"

definition build_set_work_unit_status ::
  "timestamp \<Rightarrow> unit_row list \<Rightarrow> uuid \<Rightarrow> work_unit_status \<Rightarrow> string option \<Rightarrow> event list result" where
  "build_set_work_unit_status now us i st reason =
     bind_result (require_unit us i) (\<lambda>u.
       if work_unit_is_terminal (wu_status u) then Inl (Conflict ''work unit '')
       else case st of
         WuInProgress \<Rightarrow> Inr [WorkEv (WorkUnitStarted i now)]
       | WuBlocked \<Rightarrow> Inr [WorkEv (WorkUnitBlocked i (unwrap_or ''blocked'' reason) now)]
       | WuDone \<Rightarrow> Inr [unit_completed now u ''ok'' [] []]
       | WuReady \<Rightarrow> Inr [WorkEv (WorkUnitReleased i now)]
       | WuTodo \<Rightarrow> Inr [WorkEv (WorkUnitReleased i now)]
       | _ \<Rightarrow> Inl (Validation ''unsupported work unit transition to ''))"

definition build_request_handoff ::
  "uuid \<Rightarrow> timestamp \<Rightarrow> unit_row list \<Rightarrow> handoff_row list \<Rightarrow> new_handoff_contract \<Rightarrow> event list result" where
  "build_request_handoff fresh now us hs n =
     (if nh_from_work_unit_id n = nh_to_work_unit_id n
      then Inl (Validation ''handoff must connect two distinct work units'')
      else bind_result (require_unit us (nh_from_work_unit_id n)) (\<lambda>_.
           bind_result (require_unit us (nh_to_work_unit_id n)) (\<lambda>_.
             case get_by_pair hs (nh_from_work_unit_id n) (nh_to_work_unit_id n) of
               Some existing \<Rightarrow>
                 if ho_status existing = HoAccepted then Inl (Conflict ''handoff '')
                 else Inr [WorkEv (HandoffRequested (into_contract n (ho_id existing) now))]
             | None \<Rightarrow> Inr [WorkEv (HandoffRequested (into_contract n fresh now))])))"

definition build_accept_handoff ::
  "timestamp \<Rightarrow> actor \<Rightarrow> handoff_row list \<Rightarrow> uuid \<Rightarrow> string option \<Rightarrow> event list result" where
  "build_accept_handoff now actor hs i notes =
     bind_result (ok_or (NotFound ''handoff '') (handoff_get hs i)) (\<lambda>h.
       case ho_status h of
         HoAccepted \<Rightarrow> Inr []
       | HoOpen \<Rightarrow> Inr [WorkEv (HandoffAccepted i (case actor of Agent a _ _ \<Rightarrow> Some a | User _ _ _ \<Rightarrow> None) notes
                      (Some (now - ho_updated_at h)) now)]
       | _ \<Rightarrow> Inl (Conflict ''handoff ''))"

definition build_reject_handoff ::
  "timestamp \<Rightarrow> handoff_row list \<Rightarrow> uuid \<Rightarrow> string \<Rightarrow> string list \<Rightarrow> event list result" where
  "build_reject_handoff now hs i reason changes =
     (if trim reason = [] then Inl (Validation ''rejection reason must not be empty'')
      else bind_result (ok_or (NotFound ''handoff '') (handoff_get hs i)) (\<lambda>h.
        case ho_status h of
          HoRejected \<Rightarrow> Inr []
        | HoOpen \<Rightarrow> Inr [WorkEv (HandoffRejected i reason changes (Some (now - ho_updated_at h)) now)]
        | _ \<Rightarrow> Inl (Conflict ''handoff '')))"

subsection \<open>Claiming\<close>

lemma unit_get_modify:
  assumes "\<And>u. wu_id (f u) = wu_id u"
  shows "unit_get (modify_unit i f us) j = (if i = j then map_option f (unit_get us j) else unit_get us j)"
  using assms by (induction us) (auto simp: unit_get_def modify_unit_def row_modify_def)

lemma unit_get_mem: "unit_get us i = Some u \<Longrightarrow> u \<in> set (map ur_unit us) \<and> wu_id u = i"
  by (auto simp: unit_get_def dest: row_get_Some)

lemma unit_get_distinct: "keys_distinct unit_id us \<Longrightarrow> u \<in> set (map ur_unit us) \<Longrightarrow> unit_get us (wu_id u) = Some u"
  by (auto simp: unit_get_def dest!: row_get_mem)

lemma sort_key_head:
  assumes "sort_key f xs = x # ys" "y \<in> set xs"
  shows "f x \<le> f y"
proof -
  have "sorted (map f (x # ys))" using sorted_sort_key [of f xs] assms(1) by simp
  moreover have "y \<in> set (x # ys)" using assms(2) set_sort [of f xs] assms(1) by simp
  ultimately show ?thesis by auto
qed

lemma dispatch_order_head:
  assumes "dispatch_order now hs ps task agent us = u # rest"
  shows "u \<in> set (map ur_unit us) \<and> dispatchable now hs task agent u \<and>
    (\<forall>v \<in> set (map ur_unit us). dispatchable now hs task agent v \<longrightarrow> unit_fit now ps agent v \<le> unit_fit now ps agent u)"
proof -
  have "set (u # rest) = set (filter (dispatchable now hs task agent) (map ur_unit us))"
    using assms [symmetric] by (simp add: dispatch_order_def)
  then have "u \<in> set (filter (dispatchable now hs task agent) (map ur_unit us))" by auto
  moreover have "unit_fit now ps agent v \<le> unit_fit now ps agent u"
    if "v \<in> set (map ur_unit us)" "dispatchable now hs task agent v" for v
    using sort_key_head [OF assms [unfolded dispatch_order_def], of v] that by simp
  ultimately show ?thesis by auto
qed

lemma dispatch_order_Nil:
  "dispatch_order now hs ps task agent us = [] \<longleftrightarrow> \<not> list_ex (dispatchable now hs task agent) (map ur_unit us)"
proof -
  have "dispatch_order now hs ps task agent us = [] \<longleftrightarrow> set (dispatch_order now hs ps task agent us) = {}" by simp
  also have "\<dots> \<longleftrightarrow> \<not> list_ex (dispatchable now hs task agent) (map ur_unit us)"
    by (auto simp: dispatch_order_def list_ex_iff)
  finally show ?thesis .
qed

lemma claim_None: "try_claim_next now ttl hs ps task agent us = (None, us') \<Longrightarrow> keys_distinct unit_id us \<Longrightarrow>
    us' = us \<and> \<not> list_ex (dispatchable now hs task agent) (map ur_unit us)"
proof (cases "dispatch_order now hs ps task agent us")
  case (Cons u0 rest)
  moreover assume "try_claim_next now ttl hs ps task agent us = (None, us')" "keys_distinct unit_id us"
  ultimately show ?thesis
    using dispatch_order_head [OF Cons] unit_get_distinct [of us u0]
    by (auto simp: try_claim_next_def Let_def unit_get_modify claim_unit_def)
qed (use dispatch_order_Nil [of now hs ps task agent us] in \<open>simp add: try_claim_next_def\<close>)

lemma claim_Some:
  assumes "try_claim_next now ttl hs ps task agent us = (Some u, us')" "keys_distinct unit_id us"
  shows "\<exists>u0. u0 \<in> set (map ur_unit us) \<and> dispatchable now hs task agent u0 \<and>
          (\<forall>v \<in> set (map ur_unit us). dispatchable now hs task agent v \<longrightarrow> unit_fit now ps agent v \<le> unit_fit now ps agent u0) \<and>
          u = claim_unit now agent (now + ttl) u0 \<and>
          (\<forall>i. unit_get us' i = (if i = wu_id u0 then Some u else unit_get us i))"
proof (cases "dispatch_order now hs ps task agent us")
  case Nil
  then show ?thesis using assms(1) by (simp add: try_claim_next_def)
next
  case (Cons u0 rest)
  note head = dispatch_order_head [OF Cons]
  let ?f = "\<lambda>x. if unclaimed now agent x then claim_unit now agent (now + ttl) x else x"
  have "unit_get (modify_unit (wu_id u0) ?f us) i =
      (if i = wu_id u0 then Some (claim_unit now agent (now + ttl) u0) else unit_get us i)" for i
    using head unit_get_distinct [OF assms(2), of u0]
    by (auto simp: unit_get_modify claim_unit_def dispatchable_def)
  then show ?thesis using Cons head assms(1) by (auto simp: try_claim_next_def Let_def)
qed

text \<open>
  A claim finds nothing only when no unit of the task can be dispatched, and then changes nothing. Otherwise it
  hands out a dispatchable unit of best fit (open, not held by another agent, with every inbound handoff
  accepted), marks it in progress for the agent until the lease ends, and leaves every other unit as it was.
\<close>

theorem try_claim_next_exact:
  assumes "keys_distinct unit_id us"
  shows "case try_claim_next now ttl hs ps task agent us of
      (None, us') \<Rightarrow> us' = us \<and> \<not> list_ex (dispatchable now hs task agent) (map ur_unit us)
    | (Some u, us') \<Rightarrow>
        \<exists>u0. u0 \<in> set (map ur_unit us) \<and> dispatchable now hs task agent u0 \<and>
          (\<forall>v \<in> set (map ur_unit us). dispatchable now hs task agent v \<longrightarrow> unit_fit now ps agent v \<le> unit_fit now ps agent u0) \<and>
          u = claim_unit now agent (now + ttl) u0 \<and>
          (\<forall>i. unit_get us' i = (if i = wu_id u0 then Some u else unit_get us i))"
proof (cases "try_claim_next now ttl hs ps task agent us")
  case (Pair r us')
  show ?thesis
  proof (cases r)
    case None
    then show ?thesis using claim_None [of now ttl hs ps task agent us us'] Pair assms by simp
  next
    case (Some u)
    then show ?thesis using claim_Some [of now ttl hs ps task agent us u us'] Pair assms by simp
  qed
qed

text \<open>A run of claims, by any agents at any times, with the handoffs and profiles each of them reads.\<close>

record claim_request =
  cq_now :: timestamp
  cq_ttl :: int
  cq_handoffs :: "handoff_row list"
  cq_profiles :: "capability_profile list"
  cq_task :: uuid
  cq_agent :: uuid

fun claim_all :: "claim_request list \<Rightarrow> unit_row list \<Rightarrow> uuid list" where
  "claim_all [] us = []"
| "claim_all (q # qs) us =
     (case try_claim_next (cq_now q) (cq_ttl q) (cq_handoffs q) (cq_profiles q) (cq_task q) (cq_agent q) us of
        (None, us') \<Rightarrow> claim_all qs us'
      | (Some u, us') \<Rightarrow> wu_id u # claim_all qs us')"

lemma modify_unit_ids:
  assumes "\<And>u. wu_id (f u) = wu_id u"
  shows "map unit_id (modify_unit i f us) = map unit_id us"
  using assms by (simp add: modify_unit_def row_modify_def)

lemma claim_keys:
  "keys_distinct unit_id us \<Longrightarrow> keys_distinct unit_id (snd (try_claim_next now ttl hs ps task agent us))"
  by (auto simp: try_claim_next_def keys_distinct_def Let_def modify_unit_ids claim_unit_def split: list.splits)

lemma claim_all_started:
  assumes "keys_distinct unit_id us" "unit_get us i = Some u" "wu_status u = WuInProgress"
  shows "i \<notin> set (claim_all qs us)"
  using assms
proof (induction qs arbitrary: us)
  case (Cons q qs)
  obtain r us' where c: "try_claim_next (cq_now q) (cq_ttl q) (cq_handoffs q) (cq_profiles q) (cq_task q) (cq_agent q) us = (r, us')"
    by (rule prod.exhaust)
  have keys: "keys_distinct unit_id us'"
    using claim_keys [OF Cons.prems(1), of "cq_now q" "cq_ttl q" "cq_handoffs q" "cq_profiles q" "cq_task q" "cq_agent q"] c by simp
  show ?case
  proof (cases r)
    case None
    then have "us' = us" using claim_None c Cons.prems(1) by blast
    then show ?thesis using None c Cons.IH [OF Cons.prems] by simp
  next
    case (Some v)
    then obtain u0 where u0: "u0 \<in> set (map ur_unit us)" "dispatchable (cq_now q) (cq_handoffs q) (cq_task q) (cq_agent q) u0"
      "v = claim_unit (cq_now q) (cq_agent q) (cq_now q + cq_ttl q) u0"
      "\<forall>i. unit_get us' i = (if i = wu_id u0 then Some v else unit_get us i)"
      using claim_Some [OF _ Cons.prems(1)] c by blast
    have other: "wu_id u0 \<noteq> i"
      using u0(1,2) unit_get_distinct [OF Cons.prems(1) u0(1)] Cons.prems(2,3)
      by (auto simp: dispatchable_def unclaimed_def)
    then have "i \<notin> set (claim_all qs us')" using Cons.IH [OF keys] u0(4) Cons.prems(2,3) by simp
    then show ?thesis using Some c other u0(3) by (simp add: claim_unit_def)
  qed
qed simp

text \<open>However claims of several agents interleave, no unit is handed out twice.\<close>

lemma claims_never_collide:
  assumes "keys_distinct unit_id us"
  shows "distinct (claim_all qs us)"
  using assms
proof (induction qs arbitrary: us)
  case (Cons q qs)
  obtain r us' where c: "try_claim_next (cq_now q) (cq_ttl q) (cq_handoffs q) (cq_profiles q) (cq_task q) (cq_agent q) us = (r, us')"
    by (rule prod.exhaust)
  have keys: "keys_distinct unit_id us'"
    using claim_keys [OF Cons.prems, of "cq_now q" "cq_ttl q" "cq_handoffs q" "cq_profiles q" "cq_task q" "cq_agent q"] c by simp
  have "wu_id v \<notin> set (claim_all qs us')" if got: "r = Some v" for v
  proof -
    obtain u0 where "v = claim_unit (cq_now q) (cq_agent q) (cq_now q + cq_ttl q) u0"
      "\<forall>i. unit_get us' i = (if i = wu_id u0 then Some v else unit_get us i)"
      using claim_Some [OF _ Cons.prems] c got by blast
    then show ?thesis using claim_all_started [OF keys, of "wu_id v" v] by (simp add: claim_unit_def)
  qed
  then show ?case using Cons.IH [OF keys] c by (simp split: option.splits)
qed simp

text \<open>The open units of a task are what the queue still holds: every claim that finds a unit takes one of them away.\<close>

definition open_units :: "uuid \<Rightarrow> unit_row list \<Rightarrow> unit_row list" where
  "open_units task us = filter (\<lambda>r. wu_task_id (ur_unit r) = task \<and> wu_status (ur_unit r) \<in> {WuTodo, WuReady}) us"

lemma filter_shrinks:
  assumes "\<And>x. x \<in> set xs \<Longrightarrow> P (h x) \<Longrightarrow> P x" "y \<in> set xs" "P y" "\<not> P (h y)"
  shows "length (filter (P \<circ> h) xs) < length (filter P xs)"
proof -
  have le: "length (filter (P \<circ> h) ys) \<le> length (filter P ys)" if "set ys \<subseteq> set xs" for ys
    using that assms(1) by (induction ys) auto
  obtain as bs where xs: "xs = as @ y # bs" using split_list [OF assms(2)] by blast
  then show ?thesis using le [of as] le [of bs] assms(3,4) by fastforce
qed

lemma claim_takes_open:
  assumes "try_claim_next now ttl hs ps task agent us = (Some u, us')" "keys_distinct unit_id us"
  shows "length (open_units task us') < length (open_units task us)"
proof (cases "dispatch_order now hs ps task agent us")
  case (Cons u0 rest)
  let ?f = "\<lambda>x. if unclaimed now agent x then claim_unit now agent (now + ttl) x else x"
  note head = dispatch_order_head [OF Cons]
  then obtain r where r: "r \<in> set us" "ur_unit r = u0" by auto
  have "us' = modify_unit (wu_id u0) ?f us" using Cons assms(1) by (simp add: try_claim_next_def Let_def)
  moreover have "unclaimed now agent u0" "wu_task_id u0 = task" using head by (auto simp: dispatchable_def)
  ultimately show ?thesis unfolding open_units_def modify_unit_def row_modify_def
    using r by (auto simp: claim_unit_def unclaimed_def intro!: filter_shrinks [of us _ _ r] split: if_splits)
qed (use assms in \<open>simp add: try_claim_next_def\<close>)

lemma distinct_count_list_one: "distinct xs \<Longrightarrow> x \<in> set xs \<Longrightarrow> count_list xs x = 1"
  by (induction xs) auto

text \<open>
  C36: The queue of a task is live. A unit that every request could be given is handed out exactly once, after at most as
  many requests as the task has open units, whoever sends them and whichever units they prefer.
\<close>

theorem claims_drain_queue:
  assumes "keys_distinct unit_id us" "unit_get us i = Some u"
    "\<forall>q \<in> set qs. cq_task q = task \<and> dispatchable (cq_now q) (cq_handoffs q) task (cq_agent q) u"
    "length (open_units task us) \<le> length qs" "wu_task_id u = task" "wu_status u \<in> {WuTodo, WuReady}"
  shows "count_list (claim_all qs us) i = 1"
proof -
  have "i \<in> set (claim_all qs us)"
    using assms
  proof (induction qs arbitrary: us)
    case Nil
    have "\<exists>r \<in> set us. ur_unit r = u" using unit_get_mem [OF Nil.prems(2)] by auto
    then have "open_units task us \<noteq> []" using Nil.prems(5,6) by (auto simp: open_units_def filter_empty_conv)
    then show ?case using Nil.prems(4) by simp
  next
    case (Cons q qs)
    obtain r us' where c: "try_claim_next (cq_now q) (cq_ttl q) (cq_handoffs q) (cq_profiles q) (cq_task q) (cq_agent q) us = (r, us')"
      by (rule prod.exhaust)
    have "list_ex (dispatchable (cq_now q) (cq_handoffs q) (cq_task q) (cq_agent q)) (map ur_unit us)"
      using Cons.prems(3) unit_get_mem [OF Cons.prems(2)] by (auto simp: list_ex_iff)
    then obtain v where v: "r = Some v" using claim_None c Cons.prems(1) by (cases r) auto
    obtain u0 where u0: "v = claim_unit (cq_now q) (cq_agent q) (cq_now q + cq_ttl q) u0"
      "\<forall>j. unit_get us' j = (if j = wu_id u0 then Some v else unit_get us j)"
      using claim_Some [OF _ Cons.prems(1)] c v by blast
    have keys: "keys_distinct unit_id us'"
      using claim_keys [OF Cons.prems(1), of "cq_now q" "cq_ttl q" "cq_handoffs q" "cq_profiles q" "cq_task q" "cq_agent q"] c by simp
    have "length (open_units task us') \<le> length qs"
      using claim_takes_open [OF _ Cons.prems(1)] c v Cons.prems(3,4) by fastforce
    then have "i \<in> set (claim_all qs us')" if "i \<noteq> wu_id u0"
      using Cons.IH [OF keys] u0(2) Cons.prems(2,3,5,6) that by simp
    then show ?case using c v u0(1) by (auto simp: claim_unit_def)
  qed
  then show ?thesis using claims_never_collide [OF assms(1), of qs] by (simp add: distinct_count_list_one)
qed

subsection \<open>Status changes\<close>

text \<open>
  A blocked unit cannot be made ready again. The command is accepted and emits a release, but the projection of
  a release only moves a unit that is in progress, so the unit stays blocked.
\<close>

theorem blocked_unit_stays_blocked:
  assumes "unit_get us i = Some u" "wu_status u = WuBlocked" "st = WuReady \<or> st = WuTodo"
  shows "\<exists>e. build_set_work_unit_status now us i st reason = Inr [e] \<and>
    map_option wu_status (unit_get (unit_apply_event (envelope_new eid now actor e) us) i) = Some WuBlocked"
  using assms
  by (auto simp: build_set_work_unit_status_def require_unit_def ok_or_def unit_apply_event_def envelope_new_def
      unit_get_modify bind_result_def)

subsection \<open>Handoffs\<close>

text \<open>A handoff command is built on the tables it reads and its event applied; a new contract has an unused id.\<close>

inductive handoff_step :: "handoff_row list \<Rightarrow> handoff_row list \<Rightarrow> bool" where
  handoff_request: "build_request_handoff fresh now us hs n = Inr [e] \<Longrightarrow> fresh \<notin> set (map handoff_id hs) \<Longrightarrow>
    handoff_apply_event e hs = Inr hs' \<Longrightarrow> handoff_step hs hs'"
| handoff_accept: "build_accept_handoff now actor hs i notes = Inr [e] \<Longrightarrow> handoff_apply_event e hs = Inr hs' \<Longrightarrow>
    handoff_step hs hs'"
| handoff_reject: "build_reject_handoff now hs i reason changes = Inr [e] \<Longrightarrow> handoff_apply_event e hs = Inr hs' \<Longrightarrow>
    handoff_step hs hs'"

definition handoffs_ok :: "handoff_row list \<Rightarrow> bool" where
  "handoffs_ok hs \<longleftrightarrow> keys_distinct handoff_id hs \<and> distinct (map (handoff_pair \<circ> hr_contract) hs)"

lemma handoff_get_modify:
  assumes "\<And>r. handoff_id (f r) = handoff_id r"
  shows "handoff_get (row_modify handoff_id j f hs) i =
    (if i = j then map_option (hr_contract \<circ> f) (row_get handoff_id hs i) else handoff_get hs i)"
  using assms by (induction hs) (auto simp: handoff_get_def row_modify_def)

lemma handoff_rows_kept:
  assumes "\<And>r. handoff_id (f r) = handoff_id r" "\<And>r. handoff_pair (hr_contract (f r)) = handoff_pair (hr_contract r)"
  shows "handoffs_ok (row_modify handoff_id j f hs) \<longleftrightarrow> handoffs_ok hs"
proof -
  have "map handoff_id (row_modify handoff_id j f hs) = map handoff_id hs"
    "map (handoff_pair \<circ> hr_contract) (row_modify handoff_id j f hs) = map (handoff_pair \<circ> hr_contract) hs"
    using assms by (auto simp: row_modify_def)
  then show ?thesis by (simp add: handoffs_ok_def keys_distinct_def)
qed

lemma handoff_upsert_ok:
  assumes "handoffs_ok hs" "handoff_upsert h hs = Inr hs'"
  shows "handoffs_ok hs'"
proof (cases "list_ex (\<lambda>r. handoff_id r = ho_id h) hs")
  case True
  let ?f = "\<lambda>r. \<lparr>hr_contract = h\<lparr>ho_from_work_unit_id := ho_from_work_unit_id (hr_contract r),
                ho_to_work_unit_id := ho_to_work_unit_id (hr_contract r), ho_created_at := ho_created_at (hr_contract r)\<rparr>,
              hr_latency_ms = None\<rparr>"
  have hs': "hs' = row_modify handoff_id (ho_id h) ?f hs" using assms(2) True by (simp add: handoff_upsert_def)
  have "map handoff_id hs' = map handoff_id hs"
    "map (handoff_pair \<circ> hr_contract) hs' = map (handoff_pair \<circ> hr_contract) hs"
    by (auto simp: hs' row_modify_def handoff_pair_def)
  then show ?thesis using assms(1) by (simp add: handoffs_ok_def keys_distinct_def)
next
  case False
  then show ?thesis
    using assms by (fastforce simp: handoff_upsert_def handoffs_ok_def keys_distinct_def list_ex_iff split: if_splits)
qed

lemma handoff_apply_ok: "handoffs_ok hs \<Longrightarrow> handoff_apply_event e hs = Inr hs' \<Longrightarrow> handoffs_ok hs'"
  by (auto simp: handoff_apply_event_def handoff_rows_kept handoff_pair_def handoff_upsert_ok
      split: event.splits work_event.splits)

lemma get_by_pair_mem: "get_by_pair hs a b = Some h \<Longrightarrow> h \<in> set (map hr_contract hs) \<and> handoff_pair h = (a, b)"
  unfolding get_by_pair_def by (rule find_Some_mem)

lemma handoff_get_distinct: "handoffs_ok hs \<Longrightarrow> h \<in> set (map hr_contract hs) \<Longrightarrow> handoff_get hs (ho_id h) = Some h"
  by (auto simp: handoff_get_def handoffs_ok_def dest!: row_get_mem)

lemma handoff_row_get_modify:
  "j \<noteq> i \<Longrightarrow> (\<And>r. handoff_id (f r) = j) \<Longrightarrow> row_get handoff_id (row_modify handoff_id j f hs) i = row_get handoff_id hs i"
  by (induction hs) (auto simp: row_modify_def)

lemma handoff_upsert_other:
  assumes "handoff_upsert h hs = Inr hs'" "ho_id h \<noteq> i"
  shows "handoff_get hs' i = handoff_get hs i"
proof (cases "list_ex (\<lambda>r. handoff_id r = ho_id h) hs")
  case True
  then have "row_get handoff_id hs' i = row_get handoff_id hs i"
    using assms handoff_row_get_modify by (auto simp: handoff_upsert_def)
  then show ?thesis by (simp add: handoff_get_def)
next
  case False
  have "row_get handoff_id (hs @ [r]) i = row_get handoff_id hs i" if "handoff_id r \<noteq> i" for r
    using that by (induction hs) auto
  then show ?thesis using assms False by (auto simp: handoff_upsert_def handoff_get_def split: if_splits)
qed

lemma accept_built:
  "build_accept_handoff now actor hs j msg = Inr [e] \<Longrightarrow>
    \<exists>h by latency. handoff_get hs j = Some h \<and> ho_status h = HoOpen \<and> e = WorkEv (HandoffAccepted j by msg latency now)"
proof -
  assume built: "build_accept_handoff now actor hs j msg = Inr [e]"
  then obtain h where h: "handoff_get hs j = Some h"
    by (auto simp: build_accept_handoff_def bind_result_Inr_iff ok_or_Inr_iff)
  then show ?thesis using built by (cases "ho_status h") (auto simp: build_accept_handoff_def ok_or_def bind_result_def)
qed

lemma reject_built:
  "build_reject_handoff now hs j reason changes = Inr [e] \<Longrightarrow>
    \<exists>h latency. handoff_get hs j = Some h \<and> ho_status h = HoOpen \<and> e = WorkEv (HandoffRejected j reason changes latency now)"
proof -
  assume built: "build_reject_handoff now hs j reason changes = Inr [e]"
  then obtain h where h: "handoff_get hs j = Some h"
    by (auto simp: build_reject_handoff_def bind_result_Inr_iff ok_or_Inr_iff split: if_splits)
  then show ?thesis
    using built by (cases "ho_status h") (auto simp: build_reject_handoff_def ok_or_def bind_result_def split: if_splits)
qed

lemma handoff_step_accepted:
  assumes "handoff_step hs hs'" "handoffs_ok hs" "handoff_get hs i = Some h" "ho_status h = HoAccepted"
  shows "handoff_get hs' i = Some h"
  using assms
proof (cases rule: handoff_step.cases)
  case (handoff_request fresh now us n e)
  obtain j where j: "e = WorkEv (HandoffRequested (into_contract n j now))" "j \<noteq> i"
  proof (cases "get_by_pair hs (nh_from_work_unit_id n) (nh_to_work_unit_id n)")
    case None
    moreover have "fresh \<noteq> i" using handoff_request(2) assms(3) by (auto simp: handoff_get_def dest!: row_get_Some)
    ultimately show ?thesis
      using that handoff_request(1) by (auto simp: build_request_handoff_def bind_result_Inr_iff split: if_splits)
  next
    case (Some x)
    then have "handoff_get hs (ho_id x) = Some x" using get_by_pair_mem handoff_get_distinct assms(2) by blast
    then have "ho_id x \<noteq> i" if "ho_status x \<noteq> HoAccepted" using that assms(3,4) by auto
    then show ?thesis
      using that Some handoff_request(1) by (auto simp: build_request_handoff_def bind_result_Inr_iff split: if_splits)
  qed
  then show ?thesis
    using handoff_request(3) assms(3) handoff_upsert_other [of "into_contract n j now" hs hs' i]
    by (simp add: handoff_apply_event_def into_contract_def)
next
  case (handoff_accept now actor j msg e)
  then show ?thesis using accept_built [OF handoff_accept(1)] assms(3,4)
    by (auto simp: handoff_apply_event_def handoff_get_modify)
next
  case (handoff_reject now j reason changes e)
  then show ?thesis using reject_built [OF handoff_reject(1)] assms(3,4)
    by (auto simp: handoff_apply_event_def handoff_get_modify)
qed

lemma handoff_steps_ok: "handoff_step\<^sup>*\<^sup>* hs hs' \<Longrightarrow> handoffs_ok hs \<Longrightarrow> handoffs_ok hs'"
  by (induction rule: rtranclp_induct) (auto elim!: handoff_step.cases intro: handoff_apply_ok)

text \<open>
  An accepted handoff is settled. Whatever handoff commands follow, its contract stays exactly as it was
  accepted, and there is never a second contract for the same pair of units.
\<close>

theorem accepted_handoff_is_final:
  assumes "handoff_step\<^sup>*\<^sup>* hs hs'" "handoffs_ok hs" "handoff_get hs i = Some h" "ho_status h = HoAccepted"
  shows "handoff_get hs' i = Some h \<and> distinct (map (handoff_pair \<circ> hr_contract) hs')"
proof
  show "handoff_get hs' i = Some h"
    using assms
  proof (induction rule: rtranclp_induct)
    case (step y z)
    then show ?case using handoff_step_accepted handoff_steps_ok by blast
  qed
  show "distinct (map (handoff_pair \<circ> hr_contract) hs')"
    using handoff_steps_ok [OF assms(1,2)] by (simp add: handoffs_ok_def)
qed

subsection \<open>An instance\<close>

definition demo_unit :: "uuid \<Rightarrow> work_unit_status \<Rightarrow> unit_row" where
  "demo_unit i st =
     \<lparr>ur_unit = \<lparr>wu_id = i, wu_task_id = 50, wu_stage_plan_id = None, wu_title = ''u'', wu_description = [], wu_status = st,
        wu_priority = priority_default, wu_capability_tags = (if i = 2 then [''rust''] else []), wu_owner_agent_id = None,
        wu_claim_expires_at = None, wu_artifact_refs = [], wu_acceptance = [], wu_created_at = int i, wu_updated_at = int i\<rparr>,
      ur_completed_by = None, ur_elapsed_ms = None\<rparr>"

definition demo_units :: "unit_row list" where
  "demo_units = [demo_unit 1 WuTodo, demo_unit 2 WuReady, demo_unit 3 WuBlocked]"

definition demo_profile :: capability_profile where
  "demo_profile = \<lparr>cp_agent_id = 9, cp_capability = ''rust'', cp_score = 5, cp_last_observed_at = 0, cp_half_life = 10, cp_user_set = True\<rparr>"

definition demo_handoff :: "uuid \<Rightarrow> uuid \<Rightarrow> uuid \<Rightarrow> handoff_status \<Rightarrow> handoff_row" where
  "demo_handoff i a b st =
     \<lparr>hr_contract = \<lparr>ho_id = i, ho_from_work_unit_id = a, ho_to_work_unit_id = b, ho_required_artifact_ids = [],
        ho_required_state = None, ho_checklist = [], ho_owner_agent_id = None, ho_accepted_by_agent_id = None,
        ho_status = st, ho_notes = None, ho_required_changes = [], ho_created_at = 0, ho_updated_at = 0\<rparr>, hr_latency_ms = None\<rparr>"

lemma demo_units_ok: "keys_distinct unit_id demo_units"
  by (simp add: demo_units_def demo_unit_def keys_distinct_def)

theorem try_claim_next_exact_witness:
  "\<exists>u us'. try_claim_next 100 60 [] [demo_profile] 50 9 demo_units = (Some u, us') \<and> wu_id u = 2 \<and>
     unit_get us' 1 = unit_get demo_units 1"
proof -
  have "map_option wu_id (fst (try_claim_next 100 60 [] [demo_profile] 50 9 demo_units)) = Some 2" by code_simp
  then obtain u us' where c: "try_claim_next 100 60 [] [demo_profile] 50 9 demo_units = (Some u, us')" "wu_id u = 2"
    by (cases "try_claim_next 100 60 [] [demo_profile] 50 9 demo_units") auto
  moreover have "unit_get us' 1 = unit_get demo_units 1"
    using try_claim_next_exact [OF demo_units_ok, where now = 100 and ttl = 60 and hs = "[]" and ps = "[demo_profile]" and task = 50 and agent = 9] c
    by (auto simp: claim_unit_def)
  ultimately show ?thesis by blast
qed

definition demo_requests :: "claim_request list" where
  "demo_requests = map (\<lambda>a. \<lparr>cq_now = 100, cq_ttl = 60, cq_handoffs = [], cq_profiles = [demo_profile], cq_task = 50, cq_agent = a\<rparr>) [9, 8, 9]"

theorem claims_drain_queue_witness:
  "claim_all demo_requests demo_units = [2, 1] \<and> count_list (claim_all demo_requests demo_units) 1 = 1"
proof
  show "claim_all demo_requests demo_units = [2, 1]" by code_simp
  show "count_list (claim_all demo_requests demo_units) 1 = 1"
    by (rule claims_drain_queue [OF demo_units_ok, of _ "ur_unit (demo_unit 1 WuTodo)" _ 50])
      (simp_all add: demo_units_def demo_unit_def unit_get_def demo_requests_def dispatchable_def unclaimed_def
        handoff_pending_def open_units_def)
qed

theorem blocked_unit_stays_blocked_witness:
  "\<exists>e. build_set_work_unit_status 100 demo_units 3 WuReady None = Inr [e] \<and>
     map_option wu_status (unit_get (unit_apply_event (envelope_new 1 100 actor_user e) demo_units) 3) = Some WuBlocked"
  by (rule blocked_unit_stays_blocked [of _ _ "ur_unit (demo_unit 3 WuBlocked)"])
    (simp_all add: demo_units_def demo_unit_def unit_get_def)

theorem accepted_handoff_is_final_witness:
  "handoff_get [demo_handoff 1 5 6 HoAccepted, (demo_handoff 2 6 7 HoOpen)\<lparr>hr_contract := (hr_contract (demo_handoff 2 6 7 HoOpen))
       \<lparr>ho_status := HoAccepted, ho_updated_at := 9\<rparr>, hr_latency_ms := Some 9\<rparr>] 1 = Some (hr_contract (demo_handoff 1 5 6 HoAccepted))"
proof -
  let ?hs = "[demo_handoff 1 5 6 HoAccepted, demo_handoff 2 6 7 HoOpen]"
  let ?hs' = "[demo_handoff 1 5 6 HoAccepted, (demo_handoff 2 6 7 HoOpen)\<lparr>hr_contract := (hr_contract (demo_handoff 2 6 7 HoOpen))
       \<lparr>ho_status := HoAccepted, ho_updated_at := 9\<rparr>, hr_latency_ms := Some 9\<rparr>]"
  have "handoff_step ?hs ?hs'"
    by (rule handoff_accept [of 9 actor_user ?hs 2 None "WorkEv (HandoffAccepted 2 None None (Some 9) 9)"])
      (simp_all add: build_accept_handoff_def handoff_get_def demo_handoff_def actor_user_def handoff_apply_event_def row_modify_def
        ok_or_def bind_result_def)
  moreover have "handoffs_ok ?hs" by (simp add: handoffs_ok_def keys_distinct_def demo_handoff_def handoff_pair_def)
  ultimately show ?thesis
    using accepted_handoff_is_final [of ?hs ?hs' 1 "hr_contract (demo_handoff 1 5 6 HoAccepted)"]
    by (simp add: handoff_get_def demo_handoff_def r_into_rtranclp)
qed

end
