(* ===== verification/Registry.thy ===== *)
theory Registry
  imports Project_Store Comment_Store Session_Store Artifact_Store Rule_Store Evidence_Store Work_Units
begin

text \<open>
  The tables beside tasks, plans, runs, relations and documents, and what the dispatch applies to them:
  the part of the projection loop of \<^verbatim>\<open>CommandHandler::handle_with_run_owner\<close>
  (\<^verbatim>\<open>crates/core/src/handler.rs\<close>) that feeds projects, comments, run notes, sessions, leases, settings, work
  units, handoffs, rules, evidence and artifacts. Run notes, handoffs, rules and artifacts can reject a row; what was
  applied before stays. External references and the activity feed are in the \<open>world\<close> of the handlers; capability profiles
  are inputs of the claim of a work unit.
\<close>

record registry =
  rg_projects :: project_store
  rg_comments :: comment_table
  rg_run_notes :: run_note_table
  rg_sessions :: session_store
  rg_leases :: lease_store
  rg_settings :: settings_table
  rg_units :: "unit_row list"
  rg_handoffs :: "handoff_row list"
  rg_rules :: rule_table
  rg_evidence :: evidence_table
  rg_artifacts :: artifact_store

definition empty_registry :: registry where
  "empty_registry =
     \<lparr>rg_projects = \<lparr>pj_rows = [], pj_aliases = [], pj_roots = []\<rparr>, rg_comments = [], rg_run_notes = [],
      rg_sessions = \<lparr>ss_sessions = [], ss_artifacts = []\<rparr>, rg_leases = \<lparr>ls_leases = [], ls_seq = []\<rparr>,
      rg_settings = [], rg_units = [], rg_handoffs = [], rg_rules = [], rg_evidence = [],
      rg_artifacts = \<lparr>as_artifacts = [], as_relations = []\<rparr>\<rparr>"

definition registry_notes :: "(uuid \<Rightarrow> bool) \<Rightarrow> event_envelope \<Rightarrow> registry \<Rightarrow> unit result \<times> registry" where
  "registry_notes knows env rg =
     (let e = en_payload env;
          rg1 = rg\<lparr>rg_projects := project_apply_event env (rg_projects rg), rg_comments := comment_apply_event e (rg_comments rg),
                   rg_run_notes := run_notes_cascade e (rg_run_notes rg)\<rparr>
      in case run_note_apply_event knows e (rg_run_notes rg1) of
           Inl err \<Rightarrow> (Inl err, rg1)
         | Inr ns \<Rightarrow> (Inr (), rg1\<lparr>rg_run_notes := ns\<rparr>))"

text \<open>The projections that cannot fail.\<close>

definition registry_rows :: "event_envelope \<Rightarrow> registry \<Rightarrow> registry" where
  "registry_rows env rg =
     (let e = en_payload env in rg
      \<lparr>rg_sessions := session_apply_event e (rg_sessions rg),
       rg_leases := lease_apply_event e (rg_leases rg),
       rg_settings := settings_apply_event e (rg_settings rg),
       rg_units := unit_apply_event env (rg_units rg)\<rparr>)"

definition registry_handoffs :: "event \<Rightarrow> registry \<Rightarrow> unit result \<times> registry" where
  "registry_handoffs e rg =
     (case handoff_apply_event e (rg_handoffs rg) of
        Inl err \<Rightarrow> (Inl err, rg)
      | Inr hs \<Rightarrow> (Inr (), rg\<lparr>rg_handoffs := hs\<rparr>))"

definition registry_rules :: "event \<Rightarrow> registry \<Rightarrow> unit result \<times> registry" where
  "registry_rules e rg =
     (case rule_apply_event e (rg_rules rg) of
        Inl err \<Rightarrow> (Inl err, rg)
      | Inr rs \<Rightarrow> (Inr (), rg\<lparr>rg_rules := rs, rg_evidence := evidence_apply_event e (rg_evidence rg)\<rparr>))"

definition registry_artifacts :: "timestamp \<Rightarrow> event_envelope \<Rightarrow> registry \<Rightarrow> unit result \<times> registry" where
  "registry_artifacts now env rg =
     (case artifact_apply_event now (rg_leases rg) env (rg_artifacts rg) of
        Inl err \<Rightarrow> (Inl err, rg)
      | Inr arts \<Rightarrow> (Inr (), rg\<lparr>rg_artifacts := arts\<rparr>))"

definition then_project :: "unit result \<times> registry \<Rightarrow> (registry \<Rightarrow> unit result \<times> registry) \<Rightarrow> unit result \<times> registry" where
  "then_project m f = (case m of (Inl err, rg) \<Rightarrow> (Inl err, rg) | (Inr _, rg) \<Rightarrow> f rg)"

text \<open>
  The projections of these tables in the order of \<^verbatim>\<open>handle\<close>; the first failure stops them. The first part ends with the
  run notes, after which the dispatch releases claims and changes documents; \<open>knows\<close> tells whether the runs table holds a
  run after its own projection.
\<close>

definition registry_rest :: "timestamp \<Rightarrow> event_envelope \<Rightarrow> registry \<Rightarrow> unit result \<times> registry" where
  "registry_rest now env rg =
     then_project (then_project (registry_handoffs (en_payload env) (registry_rows env rg)) (registry_rules (en_payload env)))
       (registry_artifacts now env)"

subsection \<open>Events that concern none of these tables\<close>

definition touches_registry :: "event \<Rightarrow> bool" where
  "touches_registry e =
     (case e of
        TaskEv te \<Rightarrow>
          (case te of
             ProjectCreated _ \<Rightarrow> True | ProjectUpdated _ _ _ \<Rightarrow> True | ProjectDeleted _ \<Rightarrow> True
           | CommentAdded _ \<Rightarrow> True | CommentEdited _ _ _ _ \<Rightarrow> True | CommentDeleted _ _ _ \<Rightarrow> True
           | TaskClosed _ _ _ \<Rightarrow> True | _ \<Rightarrow> False)
      | RunEv re \<Rightarrow> (case re of RunNoteAppended _ _ _ _ _ \<Rightarrow> True | RunStarted _ \<Rightarrow> True | _ \<Rightarrow> False)
      | SessionEv se \<Rightarrow> (case se of AgentClaimed _ _ _ _ \<Rightarrow> False | AgentReleased _ _ _ \<Rightarrow> False | _ \<Rightarrow> True)
      | SettingsEv _ \<Rightarrow> True | WorkEv _ \<Rightarrow> True | RuleEv _ \<Rightarrow> True | ArtifactEv _ \<Rightarrow> True
      | _ \<Rightarrow> False)"

lemmas registry_projection_defs = project_apply_event_def comment_apply_event_def run_note_apply_event_def run_notes_cascade_def
  session_apply_event_def lease_apply_event_def settings_apply_event_def unit_apply_event_def handoff_apply_event_def
  rule_apply_event_def evidence_apply_event_def artifact_apply_event_def

lemma registry_quiet:
  assumes "\<not> touches_registry (en_payload env)"
  shows "registry_notes knows env rg = (Inr (), rg)" "registry_rest now env rg = (Inr (), rg)"
  using assms
  by (auto simp: touches_registry_def registry_rest_def registry_notes_def registry_rows_def registry_handoffs_def
      registry_rules_def registry_artifacts_def then_project_def registry_projection_defs Let_def
      split: event.splits task_event.splits run_event.splits session_event.splits)

lemma registry_notes_code [code]:
  "registry_notes knows env rg =
     (if touches_registry (en_payload env)
      then let e = en_payload env;
               rg1 = rg\<lparr>rg_projects := project_apply_event env (rg_projects rg), rg_comments := comment_apply_event e (rg_comments rg),
                        rg_run_notes := run_notes_cascade e (rg_run_notes rg)\<rparr>
           in case run_note_apply_event knows e (rg_run_notes rg1) of
                Inl err \<Rightarrow> (Inl err, rg1)
              | Inr ns \<Rightarrow> (Inr (), rg1\<lparr>rg_run_notes := ns\<rparr>)
      else (Inr (), rg))"
  using registry_quiet(1) by (simp add: registry_notes_def)

lemma registry_rest_code [code]:
  "registry_rest now env rg =
     (if touches_registry (en_payload env)
      then then_project (then_project (registry_handoffs (en_payload env) (registry_rows env rg)) (registry_rules (en_payload env)))
             (registry_artifacts now env)
      else (Inr (), rg))"
  using registry_quiet(2) by (simp add: registry_rest_def)

end
