(* ===== verification/Event_Store.thy ===== *)
theory Event_Store
  imports Events
begin

text \<open>
  The event log: \<^verbatim>\<open>crates/storage/src/event_store.rs\<close> with the constraints of its table (migrations 0001 and 0029).
  \<open>el_high\<close> is SQLite's \<^verbatim>\<open>AUTOINCREMENT\<close> mark in \<^verbatim>\<open>sqlite_sequence\<close>: it never goes back, also when rows are purged.
\<close>

record event_log =
  el_rows :: "event_envelope list"
  el_high :: nat

definition empty_log :: event_log where
  "empty_log = \<lparr>el_rows = [], el_high = 0\<rparr>"

text \<open>A row is refused when its event id, or its origin device together with the origin sequence, is taken.\<close>

definition event_clash :: "event_envelope \<Rightarrow> event_envelope \<Rightarrow> bool" where
  "event_clash a b \<longleftrightarrow> en_id a = en_id b \<or>
     (en_origin_device_id a \<noteq> None \<and> en_origin_device_id a = en_origin_device_id b \<and> en_origin_seq a = en_origin_seq b)"

definition log_accepts :: "event_log \<Rightarrow> event_envelope \<Rightarrow> bool" where
  "log_accepts l env \<longleftrightarrow> \<not> list_ex (event_clash env) (el_rows l)"

definition log_insert :: "event_envelope \<Rightarrow> event_log \<Rightarrow> event_log" where
  "log_insert env l = \<lparr>el_rows = el_rows l @ [env\<lparr>en_seq := Suc (el_high l)\<rparr>], el_high = Suc (el_high l)\<rparr>"

definition append_on :: "event_envelope \<Rightarrow> event_log \<Rightarrow> (event_envelope \<times> event_log) result" where
  "append_on env l =
     (if log_accepts l env then Inr (env\<lparr>en_seq := Suc (el_high l)\<rparr>, log_insert env l) else Inl (Storage ''UNIQUE constraint failed''))"

text \<open>One \<^verbatim>\<open>INSERT\<close> of many rows: every row is checked, and one refused row refuses the statement.\<close>

fun insert_rows :: "event_envelope list \<Rightarrow> event_log \<Rightarrow> event_log result" where
  "insert_rows [] l = Inr l"
| "insert_rows (env # envs) l = (if log_accepts l env then insert_rows envs (log_insert env l) else Inl (Storage ''UNIQUE constraint failed''))"

definition CHUNK :: nat where
  "CHUNK = 3000"

text \<open>
  The loop of \<^verbatim>\<open>append_batch\<close> over the chunks, inside one transaction. The sequence numbers of a chunk are recovered
  from \<^verbatim>\<open>last_insert_rowid\<close>: the first is the last rowid minus the length plus one.
\<close>

definition numbered_from :: "nat \<Rightarrow> event_envelope list \<Rightarrow> event_envelope list" where
  "numbered_from k envs = map (\<lambda>(i, env). env\<lparr>en_seq := k + i\<rparr>) (enumerate 0 envs)"

function append_chunks :: "event_envelope list \<Rightarrow> event_log \<Rightarrow> (event_envelope list \<times> event_log) result" where
  "append_chunks envs l =
     (if envs = [] then Inr ([], l)
      else case insert_rows (take CHUNK envs) l of
             Inl e \<Rightarrow> Inl e
           | Inr l' \<Rightarrow>
               let first_rowid = el_high l' - length (take CHUNK envs) + 1 in
               bind_result (append_chunks (drop CHUNK envs) l') (\<lambda>(out, l'').
                 Inr (numbered_from first_rowid (take CHUNK envs) @ out, l'')))"
  by pat_completeness auto

termination
  by (relation "measure (length \<circ> fst)") (auto simp: CHUNK_def)

declare append_chunks.simps [simp del]

text \<open>The transactions of the claim repository append row by row.\<close>

fun append_each :: "event_envelope list \<Rightarrow> event_log \<Rightarrow> (event_envelope list \<times> event_log) result" where
  "append_each [] l = Inr ([], l)"
| "append_each (env # envs) l =
     bind_result (append_on env l) (\<lambda>(stored, l').
     bind_result (append_each envs l') (\<lambda>(out, l''). Inr (stored # out, l'')))"

text \<open>A failed chunk rolls back what the earlier ones inserted: the log is returned only on success.\<close>

definition store_append_batch :: "event_envelope list \<Rightarrow> event_log \<Rightarrow> (event_envelope list \<times> event_log) result" where
  "store_append_batch envs l = (if envs = [] then Inr ([], l) else append_chunks envs l)"

definition load_since :: "event_log \<Rightarrow> nat \<Rightarrow> nat \<Rightarrow> event_envelope list" where
  "load_since l since limit = take limit (sort_key en_seq (filter (\<lambda>env. since < en_seq env) (el_rows l)))"

definition load_by_id :: "event_log \<Rightarrow> uuid \<Rightarrow> event_envelope option" where
  "load_by_id l i = find (\<lambda>env. en_id env = i) (el_rows l)"

definition latest_seq :: "event_log \<Rightarrow> nat" where
  "latest_seq l = el_high l"

definition purge_telemetry_before :: "timestamp \<Rightarrow> event_log \<Rightarrow> nat \<times> event_log" where
  "purge_telemetry_before cutoff l =
     (let old = (\<lambda>env. event_class (en_payload env) = ClassTelemetry \<and> en_occurred_at env < cutoff)
      in (length (filter old (el_rows l)), l\<lparr>el_rows := filter (\<lambda>env. \<not> old env) (el_rows l)\<rparr>))"

subsection \<open>Sequence numbers\<close>

definition log_ok :: "event_log \<Rightarrow> bool" where
  "log_ok l \<longleftrightarrow> sorted_wrt (<) (map en_seq (el_rows l)) \<and> (\<forall>env \<in> set (el_rows l). 0 < en_seq env \<and> en_seq env \<le> el_high l) \<and>
     distinct (map en_id (el_rows l))"

lemma log_accepts_fresh: "log_accepts l env \<Longrightarrow> en_id env \<notin> en_id ` set (el_rows l)"
  by (auto simp: log_accepts_def event_clash_def list_ex_iff)

lemma log_insert_ok: "log_ok l \<Longrightarrow> log_accepts l env \<Longrightarrow> log_ok (log_insert env l)"
  using log_accepts_fresh by (force simp: log_ok_def log_insert_def sorted_wrt_append)

lemma numbered_from_simps [simp]:
  "numbered_from k [] = []" "numbered_from k (env # envs) = env\<lparr>en_seq := k\<rparr> # numbered_from (Suc k) envs"
  by (simp_all add: numbered_from_def enumerate_Suc_eq comp_def split_beta)

lemma numbered_from_append: "numbered_from k (xs @ ys) = numbered_from k xs @ numbered_from (k + length xs) ys"
  by (induction xs arbitrary: k) simp_all

lemma numbered_from_length [simp]: "length (numbered_from k envs) = length envs"
  by (simp add: numbered_from_def)

lemma numbered_from_payload [simp]: "map en_payload (numbered_from k envs) = map en_payload envs"
  by (induction envs arbitrary: k) simp_all

lemma numbered_from_seqs: "map en_seq (numbered_from k envs) = [k ..< k + length envs]"
  by (induction envs arbitrary: k) (simp_all add: upt_conv_Cons del: upt_Suc)

lemma insert_rows_spec:
  "insert_rows envs l = Inr l' \<Longrightarrow>
   el_rows l' = el_rows l @ numbered_from (Suc (el_high l)) envs \<and> el_high l' = el_high l + length envs \<and> (log_ok l \<longrightarrow> log_ok l')"
proof (induction envs arbitrary: l)
  case (Cons env envs)
  have acc: "log_accepts l env" and rest: "insert_rows envs (log_insert env l) = Inr l'"
    using Cons.prems by (auto split: if_splits)
  show ?case using Cons.IH [OF rest] log_insert_ok [OF _ acc] by (simp add: log_insert_def)
qed simp

lemma append_chunks_spec:
  "append_chunks envs l = Inr (out, l') \<Longrightarrow>
   out = numbered_from (Suc (el_high l)) envs \<and> el_rows l' = el_rows l @ out \<and> el_high l' = el_high l + length envs \<and>
   (log_ok l \<longrightarrow> log_ok l')"
proof (induction envs l arbitrary: out l' rule: append_chunks.induct)
  case (1 envs l)
  show ?case
  proof (cases "envs = []")
    case False
    obtain l1 out1 where ins: "insert_rows (take CHUNK envs) l = Inr l1"
      and rest: "append_chunks (drop CHUNK envs) l1 = Inr (out1, l')"
      and out: "out = numbered_from (el_high l1 - length (take CHUNK envs) + 1) (take CHUNK envs) @ out1"
      using 1(2) False by (subst (asm) append_chunks.simps) (auto simp: bind_result_Inr_iff Let_def split: sum.splits)
    note ins = insert_rows_spec [OF ins]
    note rest = 1(1) [OF False _ refl rest]
    have "numbered_from (Suc (el_high l)) envs =
        numbered_from (Suc (el_high l)) (take CHUNK envs) @ numbered_from (Suc (el_high l) + length (take CHUNK envs)) (drop CHUNK envs)"
      using numbered_from_append [of "Suc (el_high l)" "take CHUNK envs" "drop CHUNK envs"] by simp
    moreover have "length (take CHUNK envs) + length (drop CHUNK envs) = length envs" by simp
    ultimately show ?thesis using ins rest out \<open>insert_rows (take CHUNK envs) l = Inr l1\<close>
      by (simp del: length_take length_drop)
  qed (use 1(2) in \<open>simp add: append_chunks.simps\<close>)
qed

lemma append_each_spec:
  "append_each envs l = Inr (out, l') \<Longrightarrow>
   out = numbered_from (Suc (el_high l)) envs \<and> el_rows l' = el_rows l @ out \<and> el_high l' = el_high l + length envs \<and>
   (log_ok l \<longrightarrow> log_ok l')"
proof (induction envs arbitrary: l out l')
  case (Cons env envs)
  obtain out1 where acc: "log_accepts l env" and rest: "append_each envs (log_insert env l) = Inr (out1, l')"
    and out: "out = env\<lparr>en_seq := Suc (el_high l)\<rparr> # out1"
    using Cons.prems by (auto simp: append_on_def bind_result_Inr_iff split: if_splits)
  show ?case using Cons.IH [OF rest] log_insert_ok [OF _ acc] out by (simp add: log_insert_def)
qed simp

lemma store_append_batch_spec:
  "store_append_batch envs l = Inr (out, l') \<Longrightarrow>
   out = numbered_from (Suc (el_high l)) envs \<and> el_rows l' = el_rows l @ out \<and> (log_ok l \<longrightarrow> log_ok l')"
  using append_chunks_spec [of envs l out l'] by (auto simp: store_append_batch_def split: if_splits)

text \<open>
  A batch is appended whole and in order. The envelopes come back with consecutive numbers from one above the mark,
  although the code recovers the numbers of each chunk of 3000 rows from the last rowid; exactly those rows are
  appended, and a log with strictly growing numbers and distinct event ids stays one.
\<close>

theorem batch_numbers_consecutive:
  assumes "store_append_batch envs l = Inr (out, l')"
  shows "map en_seq out = [Suc (latest_seq l) ..< Suc (latest_seq l + length envs)] \<and> map en_payload out = map en_payload envs \<and>
    el_rows l' = el_rows l @ out \<and> latest_seq l' = latest_seq l + length envs \<and> (log_ok l \<longrightarrow> log_ok l')"
  using assms append_chunks_spec [of envs l out l'] numbered_from_seqs
  by (auto simp: store_append_batch_def latest_seq_def simp del: upt_Suc split: if_splits)

text \<open>
  A purge of old telemetry keeps every domain event and never frees a number: whatever is appended next gets a
  number above all those ever assigned.
\<close>

theorem purge_keeps_domain_and_numbers:
  assumes "log_ok l" and "purge_telemetry_before cutoff l = (n, l')" and "store_append_batch envs l' = Inr (out, l'')"
  shows "log_ok l' \<and> filter (\<lambda>env. event_class (en_payload env) = ClassDomain) (el_rows l') =
      filter (\<lambda>env. event_class (en_payload env) = ClassDomain) (el_rows l) \<and>
    n + length (el_rows l') = length (el_rows l) \<and> (\<forall>a \<in> set out. \<forall>b \<in> set (el_rows l). en_seq b < en_seq a)"
proof -
  define old where "old env \<longleftrightarrow> event_class (en_payload env) = ClassTelemetry \<and> en_occurred_at env < cutoff" for env :: event_envelope
  have l': "el_rows l' = filter (\<lambda>env. \<not> old env) (el_rows l)" "el_high l' = el_high l" "n = length (filter old (el_rows l))"
    using assms(2) by (auto simp: purge_telemetry_before_def old_def [abs_def] Let_def)
  have ok: "log_ok l'"
    using assms(1) by (auto simp: log_ok_def l' distinct_map_filter sorted_wrt_map intro: sorted_wrt_filter)
  have "map en_seq out = [Suc (el_high l) ..< Suc (el_high l + length envs)]"
    using store_append_batch_spec [OF assms(3)] numbered_from_seqs by (simp add: l' del: upt_Suc)
  then have "\<forall>a \<in> set out. el_high l < en_seq a" by (metis Suc_le_eq atLeastLessThan_iff imageI list.set_map set_upt)
  moreover have "\<forall>b \<in> set (el_rows l). en_seq b \<le> el_high l" using assms(1) by (simp add: log_ok_def)
  moreover have "filter (\<lambda>env. event_class (en_payload env) = ClassDomain) (el_rows l') =
      filter (\<lambda>env. event_class (en_payload env) = ClassDomain) (el_rows l)"
    by (auto simp: l' old_def intro!: filter_cong)
  moreover have "n + length (el_rows l') = length (el_rows l)" by (simp add: l' sum_length_filter_compl)
  ultimately show ?thesis using ok by fastforce
qed

subsection \<open>Worked examples\<close>

definition demo_metric :: operational_metric where
  "demo_metric = \<lparr>om_ts = 1, om_event_type = OpStep, om_run_id = ''r'', om_node_id = None, om_layer = ''daruma'', om_name = ''n'',
     om_outcome = OpOk, om_latency_ms = 0, om_tokens = None, om_retry_count = 0, om_error_class = None,
     om_stuck_reason = None, om_attrs = JNull\<rparr>"

definition demo_log :: event_log where
  "demo_log = \<lparr>el_rows = [(envelope_new 1 5 actor_user (TaskEv (TaskDeleted 3)))\<lparr>en_seq := 1\<rparr>,
       (envelope_new 2 5 actor_user (TelemetryEv (OperationalMetricRecorded demo_metric)))\<lparr>en_seq := 2\<rparr>], el_high = 2\<rparr>"

definition demo_incoming :: "event_envelope list" where
  "demo_incoming = [envelope_new 7 9 actor_user (TaskEv (TaskDeleted 4)), envelope_new 8 9 actor_user (TaskEv (TaskDeleted 5))]"

lemma demo_append: "store_append_batch demo_incoming demo_log =
  Inr (numbered_from 3 demo_incoming, \<lparr>el_rows = el_rows demo_log @ numbered_from 3 demo_incoming, el_high = 4\<rparr>)"
  by (simp add: store_append_batch_def append_chunks.simps demo_incoming_def demo_log_def CHUNK_def log_accepts_def
      event_clash_def log_insert_def envelope_new_def)

lemma batch_numbers_consecutive_witness:
  "map en_seq (numbered_from 3 demo_incoming) = [3 ..< 5] \<and> log_ok demo_log"
proof -
  have "log_ok demo_log" by (simp add: log_ok_def demo_log_def envelope_new_def)
  then show ?thesis using batch_numbers_consecutive [OF demo_append] by (simp add: latest_seq_def demo_log_def demo_incoming_def)
qed

lemma purge_keeps_domain_and_numbers_witness:
  "map en_seq (el_rows (snd (purge_telemetry_before 6 demo_log))) = [1] \<and>
   (\<exists>out l''. store_append_batch demo_incoming (snd (purge_telemetry_before 6 demo_log)) = Inr (out, l'') \<and>
     list_all (\<lambda>a. 2 < en_seq a) out)"
proof -
  let ?l' = "snd (purge_telemetry_before 6 demo_log)"
  have l': "purge_telemetry_before 6 demo_log = (1, ?l')" "map en_seq (el_rows ?l') = [1]"
    by (simp_all add: purge_telemetry_before_def demo_log_def envelope_new_def event_class_def)
  obtain out l'' where app: "store_append_batch demo_incoming ?l' = Inr (out, l'')"
    by (simp add: store_append_batch_def append_chunks.simps demo_incoming_def demo_log_def CHUNK_def log_accepts_def
        event_clash_def log_insert_def envelope_new_def purge_telemetry_before_def event_class_def)
  have "log_ok demo_log" by (simp add: log_ok_def demo_log_def envelope_new_def)
  then have "\<forall>a \<in> set out. \<forall>b \<in> set (el_rows demo_log). en_seq b < en_seq a"
    using purge_keeps_domain_and_numbers [OF _ l'(1) app] by blast
  then have "list_all (\<lambda>a. 2 < en_seq a) out" by (auto simp: list_all_iff demo_log_def)
  then show ?thesis using l'(2) app by blast
qed

end
