(* ===== verification/Shared_Ids.thy ===== *)
theory Shared_Ids
  imports Prelude
begin

text \<open>
  Identifiers (\<^verbatim>\<open>crates/shared/src/ids.rs\<close>): the text form of the newtype ids. Rendering and parsing a
  bare UUID is the \<^verbatim>\<open>uuid\<close> crate, rendering a timestamp is \<^verbatim>\<open>chrono\<close>; both are fields of a \<open>codec\<close>, and
  what the code relies on is \<open>codec_ok\<close>.
\<close>

record codec =
  cd_uuid_show :: "uuid \<Rightarrow> string"
  cd_uuid_parse :: "string \<Rightarrow> uuid option"
  cd_time_show :: "timestamp \<Rightarrow> string"

definition id_display :: "codec \<Rightarrow> string \<Rightarrow> uuid \<Rightarrow> string" where
  "id_display cd prefix i = prefix @ ''_'' @ cd_uuid_show cd i"

definition id_from_str :: "codec \<Rightarrow> string \<Rightarrow> string \<Rightarrow> uuid option" where
  "id_from_str cd prefix s = cd_uuid_parse cd (unwrap_or s (strip_prefix (prefix @ ''_'') s))"

text \<open>Parsing inverts rendering, and a rendered UUID has no underscore (hexadecimal digits and dashes).\<close>

definition codec_ok :: "codec \<Rightarrow> bool" where
  "codec_ok cd \<longleftrightarrow> (\<forall>i. cd_uuid_parse cd (cd_uuid_show cd i) = Some i \<and> CHR ''_'' \<notin> set (cd_uuid_show cd i))"

lemma strip_prefix_append [simp]: "strip_prefix p (p @ s) = Some s"
  by (induction p) (auto simp: strip_prefix_def starts_with_def)

text \<open>
  An id survives the round trip through its text form, and the bare UUID is accepted as well.
\<close>

theorem id_text_roundtrip:
  assumes "codec_ok cd"
  shows "id_from_str cd prefix (id_display cd prefix i) = Some i \<and> id_from_str cd prefix (cd_uuid_show cd i) = Some i"
proof
  show "id_from_str cd prefix (id_display cd prefix i) = Some i"
    using assms strip_prefix_append [of "prefix @ ''_''" "cd_uuid_show cd i"]
    by (simp add: id_from_str_def id_display_def codec_ok_def)
next
  have free: "CHR ''_'' \<notin> set (cd_uuid_show cd i)" using assms by (simp add: codec_ok_def)
  have "take (Suc (length prefix)) (cd_uuid_show cd i) \<noteq> prefix @ ''_''"
  proof
    assume "take (Suc (length prefix)) (cd_uuid_show cd i) = prefix @ ''_''"
    then have "CHR ''_'' \<in> set (take (Suc (length prefix)) (cd_uuid_show cd i))" by simp
    then show False using free by (meson in_set_takeD)
  qed
  then have "strip_prefix (prefix @ ''_'') (cd_uuid_show cd i) = None"
    by (simp add: strip_prefix_def starts_with_def)
  then show "id_from_str cd prefix (cd_uuid_show cd i) = Some i"
    using assms by (simp add: id_from_str_def codec_ok_def)
qed

text \<open>A codec that renders ids and times in unary: the assumption on the crates can be met.\<close>

definition demo_codec :: codec where
  "demo_codec = \<lparr>cd_uuid_show = (\<lambda>i. replicate i CHR ''1''), cd_uuid_parse = (\<lambda>s. Some (length s)),
     cd_time_show = (\<lambda>t. replicate (nat t) CHR ''1'')\<rparr>"

lemma demo_codec_ok: "codec_ok demo_codec"
  by (simp add: codec_ok_def demo_codec_def)

theorem id_text_roundtrip_witness:
  "codec_ok demo_codec \<and> id_display demo_codec ''tsk'' 3 = ''tsk_111'' \<and>
   id_from_str demo_codec ''tsk'' ''tsk_111'' = Some 3 \<and> id_from_str demo_codec ''tsk'' ''111'' = Some 3"
proof -
  have "id_display demo_codec ''tsk'' 3 = ''tsk_111''" "cd_uuid_show demo_codec 3 = ''111''"
    by (simp_all add: id_display_def demo_codec_def numeral_eq_Suc)
  then show ?thesis using id_text_roundtrip [OF demo_codec_ok, of "''tsk''" 3] demo_codec_ok by simp
qed

end
