(* ===== verification/Activity_Store.thy ===== *)
theory Activity_Store
  imports Event_Store Shared_Ids Json_Text
begin

text \<open>
  The activity feed: \<^verbatim>\<open>crates/domain/src/activity.rs\<close> and the projection \<^verbatim>\<open>crates/storage/src/activity_repo.rs\<close>. A row is
  written per user-visible event; the semantic events that follow a mechanical one (\<^verbatim>\<open>TaskClosed\<close> after
  \<^verbatim>\<open>TaskStatusChanged\<close>) are merged into its row. \<^verbatim>\<open>CompleteRun\<close> reads this feed to find the handoff of a finished step.

  \<open>serde_json\<close>'s printer and parser, and the two RFC 3339 renderings of a time, are arguments (\<open>text_env\<close>).
\<close>

subsection \<open>Rows\<close>

datatype verb =
    VbCreated | VbUpdated | VbStatusChanged | VbPriorityChanged | VbClosed | VbReopened | VbCompleted | VbDeleted
  | VbSplitGenerated | VbDueElapsed
  | VbProjectCreated | VbProjectUpdated | VbProjectDeleted
  | VbCommented | VbCommentEdited | VbCommentDeleted
  | VbAgentAction
  | VbPlanCreated | VbPlanModified | VbPlanArchived | VbPlanReparented
  | VbRunStarted | VbRunCompleted | VbRunFailed | VbRunAborted
  | VbTaskAttached | VbTaskDetached
  | VbTaskClaimed | VbTaskReleased
  | VbLinked | VbUnlinked | VbUnblocked | VbRelationKindChanged
  | VbRuleFired

fun verb_display :: "verb \<Rightarrow> string" where
  "verb_display VbCreated = ''created''"
| "verb_display VbUpdated = ''updated''"
| "verb_display VbStatusChanged = ''status_changed''"
| "verb_display VbPriorityChanged = ''priority_changed''"
| "verb_display VbClosed = ''closed''"
| "verb_display VbReopened = ''reopened''"
| "verb_display VbCompleted = ''completed''"
| "verb_display VbDeleted = ''deleted''"
| "verb_display VbSplitGenerated = ''split_generated''"
| "verb_display VbDueElapsed = ''due_elapsed''"
| "verb_display VbProjectCreated = ''project_created''"
| "verb_display VbProjectUpdated = ''project_updated''"
| "verb_display VbProjectDeleted = ''project_deleted''"
| "verb_display VbCommented = ''commented''"
| "verb_display VbCommentEdited = ''comment_edited''"
| "verb_display VbCommentDeleted = ''comment_deleted''"
| "verb_display VbAgentAction = ''agent_action''"
| "verb_display VbPlanCreated = ''plan_created''"
| "verb_display VbPlanModified = ''plan_modified''"
| "verb_display VbPlanArchived = ''plan_archived''"
| "verb_display VbPlanReparented = ''plan_reparented''"
| "verb_display VbRunStarted = ''run_started''"
| "verb_display VbRunCompleted = ''run_completed''"
| "verb_display VbRunFailed = ''run_failed''"
| "verb_display VbRunAborted = ''run_aborted''"
| "verb_display VbTaskAttached = ''task_attached''"
| "verb_display VbTaskDetached = ''task_detached''"
| "verb_display VbTaskClaimed = ''task_claimed''"
| "verb_display VbTaskReleased = ''task_released''"
| "verb_display VbLinked = ''linked''"
| "verb_display VbUnlinked = ''unlinked''"
| "verb_display VbUnblocked = ''unblocked''"
| "verb_display VbRelationKindChanged = ''relation_kind_changed''"
| "verb_display VbRuleFired = ''rule_fired''"

record activity =
  av_id :: uuid
  av_task_id :: "uuid option"
  av_project_id :: "uuid option"
  av_actor :: actor
  av_verb :: verb
  av_field :: "string option"
  av_old_value :: "string option"
  av_new_value :: "string option"
  av_occurred_at :: timestamp
  av_event_id :: uuid
  av_seq :: nat

type_synonym activity_table = "activity list"

subsection \<open>Values as text\<close>

record text_env =
  tx_codec :: codec
  tx_time :: "timestamp \<Rightarrow> string"
  tx_print :: "json \<Rightarrow> string"
  tx_parse :: "string \<Rightarrow> json option"

fun priority_as_str :: "priority \<Rightarrow> string" where
  "priority_as_str P0 = ''p0''"
| "priority_as_str P1 = ''p1''"
| "priority_as_str P2 = ''p2''"
| "priority_as_str P3 = ''p3''"

fun triage_state_as_str :: "triage_state \<Rightarrow> string" where
  "triage_state_as_str Pending = ''pending''"
| "triage_state_as_str Accepted = ''accepted''"
| "triage_state_as_str Rejected = ''rejected''"

fun relation_kind_as_str :: "relation_kind \<Rightarrow> string" where
  "relation_kind_as_str Blocks = ''blocks''"
| "relation_kind_as_str RelatesTo = ''relates_to''"
| "relation_kind_as_str Duplicates = ''duplicates''"
| "relation_kind_as_str WasBlocking = ''was_blocking''"

fun plan_status_json :: "plan_status \<Rightarrow> string" where
  "plan_status_json Draft = ''draft''"
| "plan_status_json Active = ''active''"
| "plan_status_json Completed = ''completed''"
| "plan_status_json Abandoned = ''abandoned''"

text \<open>\<^verbatim>\<open>skip_serializing_if = "Option::is_none"\<close>: a missing field has no entry.\<close>

definition json_field :: "string \<Rightarrow> ('a \<Rightarrow> json) \<Rightarrow> 'a option \<Rightarrow> (string \<times> json) list" where
  "json_field k f v = (case v of Some a \<Rightarrow> [(k, f a)] | None \<Rightarrow> [])"

definition nullable :: "('a \<Rightarrow> json) \<Rightarrow> 'a option \<Rightarrow> json" where
  "nullable f v = (case v of Some a \<Rightarrow> f a | None \<Rightarrow> JNull)"

definition git_context_json :: "git_context \<Rightarrow> json" where
  "git_context_json g = JObject (json_field ''repo'' JString (git_repo g) @ json_field ''branch'' JString (git_branch g) @
     json_field ''head_sha'' JString (git_head_sha g) @ json_field ''mr_url'' JString (git_mr_url g))"

definition pipeline_position_json :: "pipeline_position \<Rightarrow> json" where
  "pipeline_position_json p = JObject
     ([(''stage_index'', JNum (int (pp_stage_index p))), (''role'', JString (pp_role p)), (''complete'', JBool (pp_complete p))] @
      (if pp_fanout p = 1 then [] else [(''fanout'', JNum (int (pp_fanout p)))]) @
      (if pp_required p then [] else [(''required'', JBool (pp_required p))]) @
      (if pp_closed p = [] then [] else [(''closed'', json_strings (pp_closed p))]))"

definition task_patch_json :: "text_env \<Rightarrow> task_patch \<Rightarrow> json" where
  "task_patch_json tx p = JObject
     (json_field ''title'' JString (tp_title p) @ json_field ''description'' JString (tp_description p) @
      json_field ''status'' (JString \<circ> status_as_str) (tp_status p) @
      json_field ''priority'' (JString \<circ> priority_as_str) (tp_priority p) @
      json_field ''triage_state'' (nullable (JString \<circ> triage_state_as_str)) (tp_triage_state p) @
      json_field ''due_at'' (nullable (JString \<circ> tx_time tx)) (tp_due_at p) @
      json_field ''project_id'' (nullable (JString \<circ> cd_uuid_show (tx_codec tx))) (tp_project_id p) @
      json_field ''git_context'' (nullable git_context_json) (tp_git_context p) @
      json_field ''pipeline_position'' pipeline_position_json (tp_pipeline_position p))"

definition actor_ref_json :: "codec \<Rightarrow> actor_ref \<Rightarrow> json" where
  "actor_ref_json cd a = JObject ((''kind'', JString (ar_kind a)) #
     json_field ''id'' (JString \<circ> cd_uuid_show cd) (ar_id a) @ json_field ''name'' JString (ar_name a))"

definition completion_note_json :: "codec \<Rightarrow> completion_note \<Rightarrow> json" where
  "completion_note_json cd n = JObject
     (json_field ''actor'' (actor_ref_json cd) (cn_actor n) @ json_field ''reason'' JString (cn_reason n) @
      json_field ''result_summary'' JString (cn_result_summary n) @
      json_field ''acceptance_criteria_status'' JString (cn_acceptance_criteria_status n) @
      (if cn_related_artifacts n = [] then [] else [(''related_artifacts'', json_strings (cn_related_artifacts n))]))"

definition note_is_substantive :: "completion_note \<Rightarrow> bool" where
  "note_is_substantive n \<longleftrightarrow> cn_reason n \<noteq> None \<or> cn_result_summary n \<noteq> None \<or>
     cn_acceptance_criteria_status n \<noteq> None \<or> cn_related_artifacts n \<noteq> []"

definition auto_append_json :: "auto_append_settings \<Rightarrow> json" where
  "auto_append_json a = JObject [(''interview'', JBool (aa_interview a)), (''human_log'', JBool (aa_human_log a))]"

subsection \<open>The row of an event\<close>

text \<open>
  What an event says to the feed: the task and the project it concerns, the verb and the change. The project of a
  task event is the one of the task's last row, that of a plan or a run event is read from the plans table.
\<close>

record feed_entry =
  fe_task :: "uuid option"
  fe_project :: "uuid option"
  fe_verb :: verb
  fe_field :: "string option"
  fe_old :: "string option"
  fe_new :: "string option"

definition feed :: "uuid option \<Rightarrow> uuid option \<Rightarrow> verb \<Rightarrow> feed_entry" where
  "feed task project v = \<lparr>fe_task = task, fe_project = project, fe_verb = v, fe_field = None, fe_old = None, fe_new = None\<rparr>"

text \<open>\<^verbatim>\<open>inherit_project_id\<close>: \<^verbatim>\<open>ORDER BY seq DESC LIMIT 1\<close>.\<close>

definition inherit_project_id :: "activity_table \<Rightarrow> uuid \<Rightarrow> uuid option" where
  "inherit_project_id rows t =
     (case rev (sort_key av_seq (filter (\<lambda>a. av_task_id a = Some t) rows)) of [] \<Rightarrow> None | a # _ \<Rightarrow> av_project_id a)"

definition task_feed :: "activity_table \<Rightarrow> uuid \<Rightarrow> verb \<Rightarrow> feed_entry" where
  "task_feed rows t v = feed (Some t) (inherit_project_id rows t) v"

text \<open>Projects, comments and agent actions.\<close>

definition record_feed :: "activity_table \<Rightarrow> task_event \<Rightarrow> feed_entry option" where
  "record_feed rows e =
     (case e of
        ProjectCreated p \<Rightarrow> Some ((feed None (Some (pr_id p)) VbProjectCreated)\<lparr>fe_new := Some (pr_title p)\<rparr>)
      | ProjectUpdated p _ _ \<Rightarrow> Some (feed None (Some p) VbProjectUpdated)
      | ProjectDeleted p \<Rightarrow> Some (feed None (Some p) VbProjectDeleted)
      | CommentAdded c \<Rightarrow> Some ((task_feed rows (cm_task_id c) VbCommented)\<lparr>fe_new := Some (take_chars 80 (cm_body c))\<rparr>)
      | CommentEdited _ t _ _ \<Rightarrow> Some (task_feed rows t VbCommentEdited)
      | CommentDeleted _ t _ \<Rightarrow> Some (task_feed rows t VbCommentDeleted)
      | AgentActionRecorded _ \<Rightarrow> Some (feed None None VbAgentAction)
      | _ \<Rightarrow> None)"

definition task_event_feed :: "text_env \<Rightarrow> activity_table \<Rightarrow> task_event \<Rightarrow> feed_entry option" where
  "task_event_feed tx rows e =
     (case e of
        TaskCreated n \<Rightarrow> Some ((feed (nt_id n) (nt_project_id n) VbCreated)\<lparr>fe_new := Some (nt_title n)\<rparr>)
      | TaskUpdated t p \<Rightarrow> Some ((task_feed rows t VbUpdated)\<lparr>fe_new := Some (tx_print tx (task_patch_json tx p))\<rparr>)
      | TaskStatusChanged t st_from to \<Rightarrow>
          Some ((task_feed rows t VbStatusChanged)
            \<lparr>fe_field := Some ''status'', fe_old := Some (status_as_str st_from), fe_new := Some (status_as_str to)\<rparr>)
      | TaskPriorityChanged t p_from to \<Rightarrow>
          Some ((task_feed rows t VbPriorityChanged)
            \<lparr>fe_field := Some ''priority'', fe_old := Some (priority_as_str p_from), fe_new := Some (priority_as_str to)\<rparr>)
      | TaskCompleted t _ completion \<Rightarrow>
          Some ((task_feed rows t VbCompleted)
            \<lparr>fe_new := (case completion of
               Some n \<Rightarrow> if note_is_substantive n then Some (tx_print tx (completion_note_json (tx_codec tx) n)) else None
             | None \<Rightarrow> None)\<rparr>)
      | TaskDeleted t \<Rightarrow> Some (task_feed rows t VbDeleted)
      | TaskSplitGenerated parent _ \<Rightarrow> Some (task_feed rows parent VbSplitGenerated)
      | _ \<Rightarrow> record_feed rows e)"

definition plan_updated_feed :: "codec \<Rightarrow> uuid option \<Rightarrow> plan_patch \<Rightarrow> feed_entry" where
  "plan_updated_feed cd project p =
     (case pu_parent_plan_id p of
        None \<Rightarrow> feed None project VbPlanModified
      | Some parent \<Rightarrow> (feed None project VbPlanReparented)
          \<lparr>fe_field := Some ''parent_plan_id'',
           fe_new := Some (case parent of Some i \<Rightarrow> id_display cd ''pln'' i | None \<Rightarrow> ''null'')\<rparr>)"

definition plan_event_feed :: "codec \<Rightarrow> (uuid \<Rightarrow> uuid option) \<Rightarrow> plan_event \<Rightarrow> feed_entry option" where
  "plan_event_feed cd plan_project e =
     (case e of
        PlanCreated p \<Rightarrow> Some ((feed None (Some (pl_project_id p)) VbPlanCreated)\<lparr>fe_new := Some (pl_title p)\<rparr>)
      | PlanUpdated p patch \<Rightarrow> Some (plan_updated_feed cd (plan_project p) patch)
      | PlanReordered p _ \<Rightarrow> Some (feed None (plan_project p) VbPlanModified)
      | PlanStatusChanged p st_from to \<Rightarrow>
          Some ((feed None (plan_project p) VbPlanModified)
            \<lparr>fe_field := Some ''status'', fe_old := Some (plan_status_json st_from), fe_new := Some (plan_status_json to)\<rparr>)
      | PlanGoalChanged p g_from to \<Rightarrow>
          Some ((feed None (plan_project p) VbPlanModified)
            \<lparr>fe_field := Some ''goal'', fe_old := Some g_from, fe_new := Some to\<rparr>)
      | PlanTaskAdded p t _ _ \<Rightarrow> Some ((feed (Some t) (plan_project p) VbTaskAttached)\<lparr>fe_new := Some (id_display cd ''pln'' p)\<rparr>)
      | PlanTaskRemoved p t \<Rightarrow> Some ((feed (Some t) (plan_project p) VbTaskDetached)\<lparr>fe_new := Some (id_display cd ''pln'' p)\<rparr>)
      | PlanArchived p _ \<Rightarrow> Some (feed None (plan_project p) VbPlanArchived)
      | _ \<Rightarrow> None)"

definition run_event_feed ::
  "codec \<Rightarrow> (uuid \<Rightarrow> uuid option) \<Rightarrow> (uuid \<Rightarrow> uuid option) \<Rightarrow> run_event \<Rightarrow> feed_entry option" where
  "run_event_feed cd plan_project run_project e =
     (case e of
        RunStarted r \<Rightarrow> Some ((feed None (plan_project (r_plan_id r)) VbRunStarted)\<lparr>fe_new := Some (id_display cd ''run'' (r_id r))\<rparr>)
      | RunCompleted r _ \<Rightarrow> Some (feed None (run_project r) VbRunCompleted)
      | RunFailed r reason _ \<Rightarrow> Some ((feed None (run_project r) VbRunFailed)\<lparr>fe_new := Some reason\<rparr>)
      | RunAborted r reason _ \<Rightarrow> Some ((feed None (run_project r) VbRunAborted)\<lparr>fe_new := Some reason\<rparr>)
      | _ \<Rightarrow> None)"

definition link_json :: "codec \<Rightarrow> uuid \<Rightarrow> relation_kind \<Rightarrow> uuid \<Rightarrow> json" where
  "link_json cd r k to = JObject
     [(''relation_id'', JString (id_display cd ''rel'' r)), (''kind'', JString (relation_kind_as_str k)),
      (''to'', JString (id_display cd ''tsk'' to))]"

definition relation_event_feed :: "text_env \<Rightarrow> activity_table \<Rightarrow> relation_event \<Rightarrow> feed_entry option" where
  "relation_event_feed tx rows e =
     (let cd = tx_codec tx in
      case e of
        TaskLinked r a b k _ _ \<Rightarrow> Some ((task_feed rows a VbLinked)\<lparr>fe_new := Some (tx_print tx (link_json cd r k b))\<rparr>)
      | TaskUnlinked r a b k _ \<Rightarrow> Some ((task_feed rows a VbUnlinked)\<lparr>fe_new := Some (tx_print tx (link_json cd r k b))\<rparr>)
      | TaskUnblocked t by_task _ \<Rightarrow>
          Some ((task_feed rows t VbUnblocked)
            \<lparr>fe_new := Some (tx_print tx (JObject [(''unblocked_by'', JString (id_display cd ''tsk'' by_task))]))\<rparr>)
      | TaskDueElapsed t due _ \<Rightarrow>
          Some ((task_feed rows t VbDueElapsed)\<lparr>fe_field := Some ''due_at'', fe_new := Some (cd_time_show cd due)\<rparr>)
      | TaskRelationKindChanged r a b k_from k_to _ \<Rightarrow>
          Some ((task_feed rows a VbRelationKindChanged)
            \<lparr>fe_field := Some ''kind'', fe_old := Some (tx_print tx (JString (relation_kind_as_str k_from))),
             fe_new := Some (tx_print tx (JObject
               [(''relation_id'', JString (id_display cd ''rel'' r)), (''from_kind'', JString (relation_kind_as_str k_from)),
                (''to_kind'', JString (relation_kind_as_str k_to)), (''to'', JString (id_display cd ''tsk'' b))]))\<rparr>))"

definition event_feed ::
  "text_env \<Rightarrow> (uuid \<Rightarrow> uuid option) \<Rightarrow> (uuid \<Rightarrow> uuid option) \<Rightarrow> activity_table \<Rightarrow> event \<Rightarrow> feed_entry option" where
  "event_feed tx plan_project run_project rows e =
     (case e of
        TaskEv te \<Rightarrow> task_event_feed tx rows te
      | PlanEv pe \<Rightarrow> plan_event_feed (tx_codec tx) plan_project pe
      | RunEv re \<Rightarrow> run_event_feed (tx_codec tx) plan_project run_project re
      | RelationEv le \<Rightarrow> relation_event_feed tx rows le
      | SessionEv (AgentClaimed _ t _ _) \<Rightarrow> Some (task_feed rows t VbTaskClaimed)
      | SessionEv (AgentReleased _ t _) \<Rightarrow> Some (task_feed rows t VbTaskReleased)
      | SettingsEv (ProjectSettingsChanged p settings _ _ _) \<Rightarrow>
          Some ((feed None (Some p) VbProjectUpdated)
            \<lparr>fe_field := Some ''settings.auto_append'', fe_new := Some (tx_print tx (auto_append_json settings))\<rparr>)
      | RuleEv (RuleFired f) \<Rightarrow>
          Some ((feed (rf_task_id f)
              (case (rf_project_id f, rf_task_id f) of
                 (Some p, _) \<Rightarrow> Some p | (None, Some t) \<Rightarrow> inherit_project_id rows t | (None, None) \<Rightarrow> None) VbRuleFired)
            \<lparr>fe_field := Some (rf_rule_key f), fe_old := Some (rule_decision_as_str (rf_decision f)),
             fe_new := Some (rf_message f)\<rparr>)
      | _ \<Rightarrow> None)"

subsection \<open>The projection\<close>

text \<open>\<^verbatim>\<open>INSERT OR IGNORE\<close>: the id and the event id are unique.\<close>

definition insert_row :: "activity \<Rightarrow> activity_table \<Rightarrow> activity_table" where
  "insert_row a rows =
     (if list_ex (\<lambda>b. av_event_id b = av_event_id a \<or> av_id b = av_id a) rows then rows else rows @ [a])"

definition feed_row :: "uuid \<Rightarrow> event_envelope \<Rightarrow> feed_entry \<Rightarrow> activity" where
  "feed_row fresh env f =
     \<lparr>av_id = fresh, av_task_id = fe_task f, av_project_id = fe_project f, av_actor = en_actor env, av_verb = fe_verb f,
      av_field = fe_field f, av_old_value = fe_old f, av_new_value = fe_new f, av_occurred_at = en_occurred_at env,
      av_event_id = en_id env, av_seq = en_seq env\<rparr>"

text \<open>
  Pair merging: the update hits the rows of the task at the previous sequence number; if there is none, the semantic
  event writes a row of its own.
\<close>

definition at_seq :: "uuid \<Rightarrow> nat \<Rightarrow> activity \<Rightarrow> bool" where
  "at_seq t n a \<longleftrightarrow> av_task_id a = Some t \<and> av_seq a = n"

definition merge_into :: "uuid \<Rightarrow> nat \<Rightarrow> (activity \<Rightarrow> activity) \<Rightarrow> activity \<Rightarrow> activity_table \<Rightarrow> activity_table" where
  "merge_into t n upd fallback rows =
     (if list_ex (at_seq t n) rows then map (\<lambda>a. if at_seq t n a then upd a else a) rows else insert_row fallback rows)"

definition semantic_merge :: "event \<Rightarrow> (uuid \<times> verb \<times> string option) option" where
  "semantic_merge e =
     (case e of
        TaskEv (TaskClosed t _ _) \<Rightarrow> Some (t, VbClosed, None)
      | TaskEv (TaskReopened t _ _) \<Rightarrow> Some (t, VbReopened, None)
      | TaskEv (TaskCommented t _ _ preview) \<Rightarrow> Some (t, VbCommented, Some preview)
      | _ \<Rightarrow> None)"

definition merged :: "verb \<Rightarrow> string option \<Rightarrow> activity \<Rightarrow> activity" where
  "merged v preview a = (case preview of None \<Rightarrow> a\<lparr>av_verb := v\<rparr> | Some p \<Rightarrow> a\<lparr>av_verb := v, av_new_value := Some p\<rparr>)"

definition activity_apply_event ::
  "text_env \<Rightarrow> (uuid \<Rightarrow> uuid option) \<Rightarrow> (uuid \<Rightarrow> uuid option) \<Rightarrow> uuid \<Rightarrow> event_envelope \<Rightarrow> activity_table \<Rightarrow> activity_table" where
  "activity_apply_event tx plan_project run_project fresh env rows =
     (case semantic_merge (en_payload env) of
        Some (t, v, preview) \<Rightarrow>
          merge_into t (en_seq env - 1) (merged v preview)
            (feed_row fresh env ((task_feed rows t v)\<lparr>fe_new := preview\<rparr>)) rows
      | None \<Rightarrow>
          (case event_feed tx plan_project run_project rows (en_payload env) of
             Some f \<Rightarrow> insert_row (feed_row fresh env f) rows
           | None \<Rightarrow> rows))"

subsection \<open>Queries\<close>

definition list_activity_for_task ::
  "activity_table \<Rightarrow> uuid \<Rightarrow> nat option \<Rightarrow> nat \<Rightarrow> verb list option \<Rightarrow> activity list \<times> nat option \<times> bool" where
  "list_activity_for_task rows t cursor limit verbs =
     (if verbs = Some [] then ([], None, False)
      else let capped = min limit 500;
               hits = filter (\<lambda>a. av_task_id a = Some t \<and> av_seq a > unwrap_or 0 cursor \<and>
                                  (case verbs of Some vs \<Rightarrow> av_verb a \<in> set vs | None \<Rightarrow> True)) rows;
               fetched = take (capped + 1) (sort_key av_seq hits);
               has_more = length fetched > capped;
               items = (if has_more then butlast fetched else fetched)
           in (items, if has_more then (case rev items of [] \<Rightarrow> None | a # _ \<Rightarrow> Some (av_seq a)) else None, has_more))"

definition activity_get :: "activity_table \<Rightarrow> uuid \<Rightarrow> activity option" where
  "activity_get rows i = find (\<lambda>a. av_id a = i) rows"

definition last_backfilled_seq :: "activity_table \<Rightarrow> nat" where
  "last_backfilled_seq rows = Max (insert 0 (av_seq ` set rows))"

subsection \<open>Handoffs in the feed\<close>

text \<open>
  The rows \<^verbatim>\<open>CommandHandler::handoff_recorded_since\<close> (\<^verbatim>\<open>crates/core/src/handler.rs\<close>) accepts: a status change into
  review or done, a review reject, or any other row whose value parses as an object with a pipeline position.
\<close>

definition is_handoff_row :: "text_env \<Rightarrow> activity \<Rightarrow> bool" where
  "is_handoff_row tx a =
     (if av_field a = Some ''status''
      then av_new_value a = Some (status_as_str InReview) \<or> av_new_value a = Some (status_as_str Done) \<or>
           av_old_value a = Some (status_as_str InReview) \<and> av_new_value a = Some (status_as_str Todo)
      else (case Option.bind (Option.bind (av_new_value a) (tx_parse tx)) (json_get ''pipeline_position'') of
              Some v \<Rightarrow> v \<noteq> JNull | None \<Rightarrow> False))"

abbreviation feed_of :: "activity_table \<Rightarrow> uuid \<Rightarrow> nat \<Rightarrow> activity list" where
  "feed_of rows t n \<equiv> sort_key av_seq (filter (\<lambda>a. av_task_id a = Some t \<and> av_seq a > n) rows)"

definition FEED_PAGE :: nat where
  "FEED_PAGE = 500"

lemma last_of_page:
  assumes "0 < k" "k < length xs"
  shows "(case rev (take k xs) of [] \<Rightarrow> None | a # _ \<Rightarrow> Some (f a)) = Some (f (xs ! (k - 1)))"
  using assms by (cases k) (simp_all add: take_Suc_conv_app_nth)

lemma list_for_task_page:
  assumes "0 < k" "k \<le> 500"
  shows "list_activity_for_task rows t cursor k None =
    (let xs = feed_of rows t (unwrap_or 0 cursor) in
     if k < length xs then (take k xs, Some (av_seq (xs ! (k - 1))), True) else (xs, None, False))"
proof -
  define xs where "xs = feed_of rows t (unwrap_or 0 cursor)"
  have hits: "sort_key av_seq (filter (\<lambda>a. av_task_id a = Some t \<and> unwrap_or 0 cursor < av_seq a \<and>
      (case None :: verb list option of Some vs \<Rightarrow> av_verb a \<in> set vs | None \<Rightarrow> True)) rows) = xs"
    by (simp add: xs_def)
  have capped: "min k 500 = k" using assms(2) by simp
  have "list_activity_for_task rows t cursor k None =
    (if k < length xs then (take k xs, case rev (take k xs) of [] \<Rightarrow> None | a # _ \<Rightarrow> Some (av_seq a), True) else (xs, None, False))"
    unfolding list_activity_for_task_def Let_def hits capped by (simp add: butlast_take)
  then show ?thesis using last_of_page [OF assms(1), of xs av_seq] by (simp add: xs_def Let_def)
qed

lemma page_advances:
  assumes "list_activity_for_task rows t cursor FEED_PAGE None = (items, page_end, True)"
  shows "\<exists>a \<in> set rows. av_task_id a = Some t \<and> unwrap_or 0 cursor < av_seq a \<and> page_end = Some (av_seq a)"
proof -
  define xs where "xs = feed_of rows t (unwrap_or 0 cursor)"
  have len: "FEED_PAGE < length xs" and page_end: "page_end = Some (av_seq (xs ! (FEED_PAGE - 1)))"
    using assms by (auto simp: list_for_task_page FEED_PAGE_def Let_def xs_def split: if_splits)
  have "xs ! (FEED_PAGE - 1) \<in> set xs" using len by (intro nth_mem) simp
  then show ?thesis using page_end by (auto simp: xs_def)
qed

lemma page_shrinks:
  assumes "list_activity_for_task rows t cursor FEED_PAGE None = (items, page_end, True)"
  shows "length (filter (\<lambda>a. av_task_id a = Some t \<and> unwrap_or 0 page_end < av_seq a) rows) <
    length (filter (\<lambda>a. av_task_id a = Some t \<and> unwrap_or 0 cursor < av_seq a) rows)"
proof -
  let ?P = "\<lambda>c a. av_task_id a = Some t \<and> unwrap_or 0 c < av_seq a"
  obtain a where a: "a \<in> set rows" "?P cursor a" "page_end = Some (av_seq a)"
    using page_advances [OF assms] by auto
  have "filter (?P page_end) rows = filter (?P page_end) (filter (?P cursor) rows)"
    using a(2,3) by (auto intro!: filter_cong)
  moreover have "length (filter (?P page_end) (filter (?P cursor) rows)) < length (filter (?P cursor) rows)"
    by (rule length_filter_less [of a]) (use a in auto)
  ultimately show ?thesis by simp
qed

text \<open>The loop over the pages. A full page moves the cursor past at least one row, so it ends.\<close>

function handoff_pages :: "text_env \<Rightarrow> activity_table \<Rightarrow> uuid \<Rightarrow> timestamp \<Rightarrow> nat option \<Rightarrow> bool" where
  "handoff_pages tx rows t since cursor =
     (case list_activity_for_task rows t cursor FEED_PAGE None of
        (items, page_end, has_more) \<Rightarrow>
          if list_ex (\<lambda>a. since \<le> av_occurred_at a \<and> is_handoff_row tx a) items then True
          else if has_more then handoff_pages tx rows t since page_end else False)"
  by pat_completeness auto

termination
  by (relation "measure (\<lambda>(tx, rows, t, since, cursor).
        length (filter (\<lambda>a. av_task_id a = Some t \<and> unwrap_or 0 cursor < av_seq a) rows))")
    (auto intro: page_shrinks dest: sym)

declare handoff_pages.simps [simp del]

definition handoff_recorded_since :: "text_env \<Rightarrow> activity_table \<Rightarrow> uuid \<Rightarrow> timestamp \<Rightarrow> bool" where
  "handoff_recorded_since tx rows t since = handoff_pages tx rows t since None"

subsection \<open>The pages lose nothing\<close>

text \<open>The rows of the table carry growing positive numbers, and one row stands for one event.\<close>

definition feed_ok :: "activity_table \<Rightarrow> bool" where
  "feed_ok rows \<longleftrightarrow> sorted_wrt (<) (map av_seq rows) \<and> (\<forall>a \<in> set rows. 0 < av_seq a) \<and> distinct (map av_event_id rows)"

lemma feed_of_ok:
  assumes "feed_ok rows"
  shows "feed_of rows t n = filter (\<lambda>a. av_task_id a = Some t \<and> n < av_seq a) rows"
proof (rule sort_key_id_if_sorted)
  have "sorted_wrt (\<lambda>a b. av_seq a < av_seq b) (filter (\<lambda>a. av_task_id a = Some t \<and> n < av_seq a) rows)"
    using assms by (auto simp: feed_ok_def sorted_wrt_map intro: sorted_wrt_filter)
  then show "sorted (map av_seq (filter (\<lambda>a. av_task_id a = Some t \<and> n < av_seq a) rows))"
    by (auto simp: sorted_wrt_map elim: sorted_wrt_mono_rel [rotated])
qed

lemma later_than_page:
  assumes "sorted_wrt (<) (map f xs)" "0 < k" "k \<le> length xs"
  shows "filter (\<lambda>a. (f (xs ! (k - 1)) :: nat) < f a) xs = drop k xs"
proof -
  have "filter (\<lambda>a. f (xs ! (k - 1)) < f a) (take k xs) = []"
    unfolding filter_empty_conv
  proof (rule ballI)
    fix a assume "a \<in> set (take k xs)"
    then obtain i where i: "i < k" "i < length xs" "a = xs ! i" by (auto simp: in_set_conv_nth)
    then have "i = k - 1 \<or> f (xs ! i) < f (xs ! (k - 1))"
      using assms sorted_wrt_nth_less [of "(<)" "map f xs" i "k - 1"] by (cases "i = k - 1") auto
    then show "\<not> f (xs ! (k - 1)) < f a" using i(3) by auto
  qed
  moreover have "filter (\<lambda>a. f (xs ! (k - 1)) < f a) (drop k xs) = drop k xs"
  proof (rule filter_True, rule ballI)
    fix a assume "a \<in> set (drop k xs)"
    then obtain i where "i < length (drop k xs)" "a = drop k xs ! i" by (metis in_set_conv_nth)
    then have i: "k + i < length xs" "a = xs ! (k + i)" by simp_all
    then show "f (xs ! (k - 1)) < f a"
      using assms sorted_wrt_nth_less [of "(<)" "map f xs" "k - 1" "k + i"] by auto
  qed
  ultimately show ?thesis by (metis append_take_drop_id filter_append append_Nil)
qed

lemma next_page:
  assumes ok: "feed_ok rows" and page: "list_activity_for_task rows t cursor FEED_PAGE None = (items, page_end, True)"
  shows "feed_of rows t (unwrap_or 0 cursor) = items @ feed_of rows t (unwrap_or 0 page_end)"
proof -
  define xs where "xs = feed_of rows t (unwrap_or 0 cursor)"
  have len: "FEED_PAGE < length xs" and items: "items = take FEED_PAGE xs"
    and page_end: "page_end = Some (av_seq (xs ! (FEED_PAGE - 1)))"
    using page by (auto simp: list_for_task_page FEED_PAGE_def Let_def xs_def split: if_splits)
  let ?m = "av_seq (xs ! (FEED_PAGE - 1))"
  have "xs ! (FEED_PAGE - 1) \<in> set xs" using len by (intro nth_mem) simp
  then have above: "unwrap_or 0 cursor < ?m" by (simp add: xs_def)
  have sorted: "sorted_wrt (<) (map av_seq xs)"
    using ok by (auto simp: xs_def feed_of_ok [OF ok] feed_ok_def sorted_wrt_map intro: sorted_wrt_filter)
  have "feed_of rows t ?m = filter (\<lambda>a. ?m < av_seq a) xs"
    using above by (auto simp: feed_of_ok [OF ok] xs_def intro!: filter_cong)
  also have "\<dots> = drop FEED_PAGE xs"
    by (rule later_than_page [OF sorted]) (use len in \<open>simp_all add: FEED_PAGE_def\<close>)
  finally show ?thesis using items page_end by (simp add: xs_def)
qed

lemma handoff_pages_exact:
  assumes "feed_ok rows"
  shows "handoff_pages tx rows t since cursor \<longleftrightarrow>
    (\<exists>a \<in> set (feed_of rows t (unwrap_or 0 cursor)). since \<le> av_occurred_at a \<and> is_handoff_row tx a)"
  using assms
proof (induction tx rows t since cursor rule: handoff_pages.induct)
  case (1 tx rows t since cursor)
  obtain items page_end has_more where page: "list_activity_for_task rows t cursor FEED_PAGE None = (items, page_end, has_more)"
    by (metis surj_pair)
  show ?case
  proof (cases has_more)
    case True
    have "handoff_pages tx rows t since cursor \<longleftrightarrow>
        list_ex (\<lambda>a. since \<le> av_occurred_at a \<and> is_handoff_row tx a) items \<or> handoff_pages tx rows t since page_end"
      using page True by (subst handoff_pages.simps) simp
    moreover have "handoff_pages tx rows t since page_end \<longleftrightarrow>
        (\<exists>a \<in> set (feed_of rows t (unwrap_or 0 page_end)). since \<le> av_occurred_at a \<and> is_handoff_row tx a)"
      if "\<not> list_ex (\<lambda>a. since \<le> av_occurred_at a \<and> is_handoff_row tx a) items"
      using 1(1) [OF page [symmetric] refl that True 1(2)] .
    ultimately show ?thesis
      using next_page [OF 1(2), of t cursor items page_end] page True by (auto simp: list_ex_iff simp del: set_sort set_filter)
  next
    case False
    then have "items = feed_of rows t (unwrap_or 0 cursor)"
      using page by (auto simp: list_for_task_page FEED_PAGE_def Let_def split: if_splits)
    then show ?thesis using page False by (subst handoff_pages.simps) (simp add: list_ex_iff)
  qed
qed

text \<open>
  The handoff check misses no row. On a feed with growing positive numbers, the loop over pages of 500 finds a
  handoff exactly when some row of the task, at or after the given time, is one.
\<close>

theorem handoff_search_exact:
  assumes "feed_ok rows"
  shows "handoff_recorded_since tx rows t since \<longleftrightarrow>
    (\<exists>a \<in> set rows. av_task_id a = Some t \<and> since \<le> av_occurred_at a \<and> is_handoff_row tx a)"
  using assms handoff_pages_exact [OF assms, of tx t since None]
  by (auto simp: handoff_recorded_since_def feed_ok_def)

subsection \<open>Projecting a log\<close>

text \<open>What a projection reads beside the log: the text functions, the projects of plans and runs, and the row ids.\<close>

record feed_env =
  fv_text :: text_env
  fv_plan_project :: "uuid \<Rightarrow> uuid option"
  fv_run_project :: "uuid \<Rightarrow> uuid option"
  fv_row_id :: "nat \<Rightarrow> uuid"

definition feed_step :: "feed_env \<Rightarrow> event_envelope \<Rightarrow> activity_table \<Rightarrow> activity_table" where
  "feed_step fv env = activity_apply_event (fv_text fv) (fv_plan_project fv) (fv_run_project fv) (fv_row_id fv (en_seq env)) env"

definition feed_log :: "feed_env \<Rightarrow> event_envelope list \<Rightarrow> activity_table \<Rightarrow> activity_table" where
  "feed_log fv envs = fold (feed_step fv) envs"

text \<open>\<^verbatim>\<open>backfill_from_events\<close>: batches of 1000 from the last projected number on, with the count of applied events.\<close>

definition BACKFILL_BATCH :: nat where
  "BACKFILL_BATCH = 1000"

lemma load_since_later: "env \<in> set (load_since l after k) \<Longrightarrow> env \<in> set (el_rows l) \<and> after < en_seq env"
  by (auto simp: load_since_def dest: in_set_takeD)

function backfill_loop :: "feed_env \<Rightarrow> event_log \<Rightarrow> nat \<Rightarrow> nat \<Rightarrow> activity_table \<Rightarrow> nat \<times> activity_table" where
  "backfill_loop fv l after count rows =
     (let batch = load_since l after BACKFILL_BATCH in
      if batch = [] then (count, rows)
      else backfill_loop fv l (en_seq (last batch)) (count + length batch) (feed_log fv batch rows))"
  by pat_completeness auto

termination
proof (relation "measure (\<lambda>(fv, l, after, count, rows). length (filter (\<lambda>env. after < en_seq env) (el_rows l)))")
  fix fv :: feed_env and l after count and rows :: activity_table and batch
  assume batch: "batch = load_since l after BACKFILL_BATCH" "batch \<noteq> []"
  have "last batch \<in> set (load_since l after BACKFILL_BATCH)" using batch last_in_set by blast
  then have env: "last batch \<in> set (el_rows l)" "after < en_seq (last batch)" using load_since_later by blast+
  have "filter (\<lambda>env. en_seq (last batch) < en_seq env) (el_rows l) =
      filter (\<lambda>env. en_seq (last batch) < en_seq env) (filter (\<lambda>env. after < en_seq env) (el_rows l))"
    using env(2) by (auto intro!: filter_cong)
  moreover have "length \<dots> < length (filter (\<lambda>env. after < en_seq env) (el_rows l))"
    by (rule length_filter_less [of "last batch"]) (use env in auto)
  ultimately show "((fv, l, en_seq (last batch), count + length batch, feed_log fv batch rows), fv, l, after, count, rows) \<in>
      measure (\<lambda>(fv, l, after, count, rows). length (filter (\<lambda>env. after < en_seq env) (el_rows l)))"
    by simp
qed simp

declare backfill_loop.simps [simp del]

definition backfill_from_events :: "feed_env \<Rightarrow> event_log \<Rightarrow> activity_table \<Rightarrow> nat \<times> activity_table" where
  "backfill_from_events fv l rows = backfill_loop fv l (last_backfilled_seq rows) 0 rows"

subsection \<open>The table a log gives\<close>

lemma merged_keys [simp]:
  "av_seq (merged v p a) = av_seq a" "av_event_id (merged v p a) = av_event_id a" "av_id (merged v p a) = av_id a"
  "av_task_id (merged v p a) = av_task_id a" "av_field (merged v p a) = av_field a"
  "av_old_value (merged v p a) = av_old_value a" "av_occurred_at (merged v p a) = av_occurred_at a"
  by (simp_all add: merged_def split: option.split)

lemma feed_row_keys [simp]:
  "av_seq (feed_row fresh env f) = en_seq env" "av_event_id (feed_row fresh env f) = en_id env"
  "av_id (feed_row fresh env f) = fresh" "av_task_id (feed_row fresh env f) = fe_task f"
  "av_occurred_at (feed_row fresh env f) = en_occurred_at env" "av_field (feed_row fresh env f) = fe_field f"
  "av_old_value (feed_row fresh env f) = fe_old f" "av_new_value (feed_row fresh env f) = fe_new f"
  by (simp_all add: feed_row_def)

text \<open>A step leaves the table alone, merges into a row of the previous number, or inserts a row of its own.\<close>

lemma feed_step_cases:
  obtains (quiet) "\<And>rows'. feed_step fv env rows' = rows'"
  | (merge) t v p where "semantic_merge (en_payload env) = Some (t, v, p)" "list_ex (at_seq t (en_seq env - 1)) rows"
      "feed_step fv env rows = map (\<lambda>a. if at_seq t (en_seq env - 1) a then merged v p a else a) rows"
  | (insert) f where "feed_step fv env rows = insert_row (feed_row (fv_row_id fv (en_seq env)) env f) rows"
proof (cases "semantic_merge (en_payload env)")
  case None
  then show thesis
  proof (cases "event_feed (fv_text fv) (fv_plan_project fv) (fv_run_project fv) rows (en_payload env)")
    case feedless: None
    have "event_feed (fv_text fv) (fv_plan_project fv) (fv_run_project fv) rows' (en_payload env) = None" for rows'
      using feedless by (auto simp: event_feed_def task_event_feed_def record_feed_def plan_event_feed_def run_event_feed_def
          relation_event_feed_def Let_def split: event.splits task_event.splits plan_event.splits run_event.splits
          relation_event.splits session_event.splits settings_event.splits rule_event.splits)
    then show thesis using quiet None by (simp add: feed_step_def activity_apply_event_def)
  qed (use insert None in \<open>simp add: feed_step_def activity_apply_event_def\<close>)
next
  case (Some m)
  obtain t v p where m: "m = (t, v, p)" by (metis surj_pair)
  then show thesis
    using merge insert Some
    by (cases "list_ex (at_seq t (en_seq env - 1)) rows") (simp_all add: feed_step_def activity_apply_event_def merge_into_def)
qed

lemma feed_step_ok:
  assumes "feed_ok rows" and "0 < en_seq env" and "\<forall>a \<in> set rows. av_seq a < en_seq env"
  shows "feed_ok (feed_step fv env rows)"
proof (cases rule: feed_step_cases [where fv = fv and env = env and rows = rows])
  case (merge t v p)
  have "map av_seq (feed_step fv env rows) = map av_seq rows" "map av_event_id (feed_step fv env rows) = map av_event_id rows"
    by (simp_all add: merge(3))
  moreover have "av_seq ` set (feed_step fv env rows) = av_seq ` set rows" by (metis calculation(1) list.set_map)
  ultimately show ?thesis using assms(1) unfolding feed_ok_def by (metis image_iff)
next
  case (insert f)
  then show ?thesis using assms
    by (auto simp: feed_ok_def insert_row_def list_ex_iff sorted_wrt_append)
qed (use assms in simp)

lemma feed_step_rows:
  assumes "a \<in> set (feed_step fv env rows)"
  shows "(\<exists>b \<in> set rows. av_seq b = av_seq a \<and> av_event_id b = av_event_id a \<and> av_id b = av_id a) \<or>
    av_seq a = en_seq env \<and> av_event_id a = en_id env \<and> av_id a = fv_row_id fv (en_seq env)"
proof (cases rule: feed_step_cases [where fv = fv and env = env and rows = rows])
  case (merge t v p)
  then show ?thesis using assms by auto
next
  case (insert f)
  then show ?thesis using assms by (auto simp: insert_row_def split: if_splits)
qed (use assms in auto)

text \<open>Every row of the projected log stems from an envelope of the log.\<close>

lemma feed_log_rows:
  assumes "a \<in> set (feed_log fv envs rows)"
  shows "(\<exists>b \<in> set rows. av_seq b = av_seq a \<and> av_event_id b = av_event_id a \<and> av_id b = av_id a) \<or>
    (\<exists>env \<in> set envs. av_seq a = en_seq env \<and> av_event_id a = en_id env \<and> av_id a = fv_row_id fv (en_seq env))"
  using assms
proof (induction envs arbitrary: rows)
  case (Cons env envs)
  from Cons.IH [of "feed_step fv env rows"] Cons.prems show ?case
    using feed_step_rows [of _ fv env rows] by (simp add: feed_log_def) metis
qed (auto simp: feed_log_def)

lemma feed_log_append: "feed_log fv (xs @ ys) rows = feed_log fv ys (feed_log fv xs rows)"
  by (simp add: feed_log_def)

lemma feed_log_ok:
  assumes "feed_ok rows" and "sorted_wrt (<) (map en_seq envs)" and "\<forall>env \<in> set envs. 0 < en_seq env"
    and "\<forall>a \<in> set rows. \<forall>env \<in> set envs. av_seq a < en_seq env"
  shows "feed_ok (feed_log fv envs rows)"
  using assms
proof (induction envs arbitrary: rows)
  case (Cons env envs)
  have "feed_ok (feed_step fv env rows)" using Cons.prems by (intro feed_step_ok) auto
  moreover have "\<forall>a \<in> set (feed_step fv env rows). \<forall>env' \<in> set envs. av_seq a < en_seq env'"
    using Cons.prems(2,4) feed_step_rows [of _ fv env rows] by auto metis+
  ultimately show ?case using Cons.IH [of "feed_step fv env rows"] Cons.prems(2,3) by (simp add: feed_log_def)
qed (simp add: feed_log_def)

subsection \<open>Backfill\<close>

lemma log_ok_sorted:
  assumes "log_ok l"
  shows "sort_key en_seq (filter P (el_rows l)) = filter P (el_rows l)"
    and "sorted_wrt (<) (map en_seq (filter P (el_rows l)))"
proof -
  have "sorted_wrt (\<lambda>a b. en_seq a < en_seq b) (filter P (el_rows l))"
    using assms by (auto simp: log_ok_def sorted_wrt_map intro: sorted_wrt_filter)
  then show "sorted_wrt (<) (map en_seq (filter P (el_rows l)))" by (simp add: sorted_wrt_map)
  then show "sort_key en_seq (filter P (el_rows l)) = filter P (el_rows l)"
    by (intro sort_key_id_if_sorted) (auto simp: sorted_wrt_map elim: sorted_wrt_mono_rel [rotated])
qed

lemma backfill_loop_spec:
  assumes "log_ok l"
  shows "backfill_loop fv l after count rows =
    (let xs = filter (\<lambda>env. after < en_seq env) (el_rows l) in (count + length xs, feed_log fv xs rows))"
  using assms
proof (induction fv l after count rows rule: backfill_loop.induct)
  case (1 fv l after count rows)
  define xs where "xs = filter (\<lambda>env. after < en_seq env) (el_rows l)"
  define m where "m = min BACKFILL_BATCH (length xs)"
  have batch: "load_since l after BACKFILL_BATCH = take m xs"
    using log_ok_sorted(1) [OF 1(2), of "\<lambda>env. after < en_seq env"] by (simp add: load_since_def xs_def m_def min_def)
  show ?case
  proof (cases "xs = []")
    case True
    then show ?thesis using batch by (subst backfill_loop.simps) (simp add: xs_def [symmetric] feed_log_def)
  next
    case False
    then have m: "0 < m" "m \<le> length xs" and batch_ne: "take m xs \<noteq> []" by (simp_all add: m_def BACKFILL_BATCH_def)
    have last_batch: "last (take m xs) = xs ! (m - 1)" using m batch_ne by (simp add: last_conv_nth min_absorb2)
    then have above: "after < en_seq (last (take m xs))"
      using m nth_mem [of "m - 1" xs] by (auto simp: xs_def)
    have "filter (\<lambda>env. en_seq (last (take m xs)) < en_seq env) (el_rows l) = filter (\<lambda>env. en_seq (last (take m xs)) < en_seq env) xs"
      using above by (auto simp: xs_def intro!: filter_cong)
    also have "\<dots> = drop m xs"
      unfolding last_batch using log_ok_sorted(2) [OF 1(2)] m by (intro later_than_page) (auto simp: xs_def)
    finally have rest: "filter (\<lambda>env. en_seq (last (take m xs)) < en_seq env) (el_rows l) = drop m xs" .
    have step: "backfill_loop fv l after count rows =
        backfill_loop fv l (en_seq (last (take m xs))) (count + m) (feed_log fv (take m xs) rows)"
      using batch batch_ne m by (subst backfill_loop.simps) (simp add: min_absorb2 Let_def)
    have "backfill_loop fv l (en_seq (last (take m xs))) (count + m) (feed_log fv (take m xs) rows) =
        (count + m + length (drop m xs), feed_log fv (drop m xs) (feed_log fv (take m xs) rows))"
      using 1(1) [OF refl] 1(2) batch batch_ne m rest by (simp add: min_absorb2)
    moreover have "feed_log fv (drop m xs) (feed_log fv (take m xs) rows) = feed_log fv xs rows"
      using feed_log_append [of fv "take m xs" "drop m xs" rows] by simp
    ultimately show ?thesis using step m by (simp add: xs_def [symmetric])
  qed
qed

text \<open>A step on an envelope whose number no row carries afterwards changes nothing when it is repeated.\<close>

lemma rowless_step:
  assumes fresh: "fv_row_id fv (en_seq env) \<notin> av_id ` set rows" "en_id env \<notin> av_event_id ` set rows"
    and rowless: "\<forall>a \<in> set (feed_step fv env rows). av_seq a \<noteq> en_seq env"
  shows "(\<forall>rows'. feed_step fv env rows' = rows') \<or>
    (\<exists>a \<in> set rows. av_seq a = en_seq env - 1) \<and> feed_step fv env (feed_step fv env rows) = feed_step fv env rows"
proof (cases rule: feed_step_cases [where fv = fv and env = env and rows = rows])
  case (merge t v p)
  let ?n = "en_seq env - 1"
  have idem: "merged v p (merged v p a) = merged v p a" for a by (simp add: merged_def split: option.split)
  have "at_seq t ?n (if at_seq t ?n a then merged v p a else a) = at_seq t ?n a" for a by (simp add: at_seq_def)
  then have "list_ex (at_seq t ?n) (feed_step fv env rows)" using merge(2)
    by (simp only: merge(3) list_ex_iff set_map bex_simps)
  then have "feed_step fv env (feed_step fv env rows) =
      map (\<lambda>a. if at_seq t ?n a then merged v p a else a) (feed_step fv env rows)"
    by (simp add: feed_step_def activity_apply_event_def merge(1) merge_into_def)
  also have "\<dots> = feed_step fv env rows" by (auto simp: merge(3) idem at_seq_def)
  finally show ?thesis using merge(2) by (auto simp: list_ex_iff at_seq_def)
next
  case (insert f)
  then have "feed_row (fv_row_id fv (en_seq env)) env f \<in> set (feed_step fv env rows)"
    using fresh by (auto simp: insert_row_def list_ex_iff image_iff)
  then show ?thesis using rowless by fastforce
qed simp

lemma quiet_log: "\<forall>env \<in> set envs. \<forall>rows'. feed_step fv env rows' = rows' \<Longrightarrow> feed_log fv envs rows = rows"
  by (induction envs) (simp_all add: feed_log_def)

lemma feed_step_keeps: "av_seq ` set rows \<subseteq> av_seq ` set (feed_step fv env rows)"
proof (cases rule: feed_step_cases [where fv = fv and env = env and rows = rows])
  case (merge t v p)
  have "map av_seq (feed_step fv env rows) = map av_seq rows" by (simp add: merge(3))
  then show ?thesis by (metis list.set_map order_refl)
qed (auto simp: insert_row_def)

lemma feed_log_keeps: "av_seq ` set rows \<subseteq> av_seq ` set (feed_log fv envs rows)"
proof (induction envs arbitrary: rows)
  case (Cons env envs)
  from Cons.IH [of "feed_step fv env rows"] feed_step_keeps [of rows fv env] show ?case by (simp add: feed_log_def)
qed (simp add: feed_log_def)

definition keys_free :: "feed_env \<Rightarrow> event_envelope list \<Rightarrow> activity_table \<Rightarrow> bool" where
  "keys_free fv envs rows \<longleftrightarrow> (\<forall>env \<in> set envs. fv_row_id fv (en_seq env) \<notin> av_id ` set rows \<and> en_id env \<notin> av_event_id ` set rows)"

lemma rows_below:
  assumes "\<forall>a \<in> set (feed_log fv envs rows). av_seq a \<le> m"
  shows "\<forall>a \<in> set rows. av_seq a \<le> m"
  using assms feed_log_keeps [of rows fv envs] by (fastforce simp: image_subset_iff image_iff)

text \<open>Row-less events whose predecessor is row-less too are quiet.\<close>

lemma rowless_tail_quiet:
  assumes "\<forall>a \<in> set (feed_log fv envs rows). av_seq a \<le> m" and "\<forall>env \<in> set envs. Suc m < en_seq env" and "keys_free fv envs rows"
  shows "\<forall>env \<in> set envs. \<forall>rows'. feed_step fv env rows' = rows'"
  using assms
proof (induction envs arbitrary: rows)
  case (Cons env envs)
  have later: "\<forall>a \<in> set (feed_log fv envs (feed_step fv env rows)). av_seq a \<le> m" using Cons.prems(1) by (simp add: feed_log_def)
  have "\<forall>a \<in> set (feed_step fv env rows). av_seq a \<noteq> en_seq env" using rows_below [OF later] Cons.prems(2) by fastforce
  moreover have "\<not> (\<exists>a \<in> set rows. av_seq a = en_seq env - 1)" using rows_below [OF Cons.prems(1)] Cons.prems(2) by fastforce
  ultimately have quiet: "\<forall>rows'. feed_step fv env rows' = rows'"
    using rowless_step [of fv env rows] Cons.prems(3) by (auto simp: keys_free_def)
  then have "feed_step fv env rows = rows" by blast
  then show ?case using Cons.IH [of rows] later Cons.prems(2,3) quiet by (simp add: keys_free_def)
qed simp

lemma rowless_replay:
  assumes below: "\<forall>a \<in> set (feed_log fv envs rows). av_seq a \<le> m"
    and above: "\<forall>env \<in> set envs. m < en_seq env" and sorted: "sorted_wrt (<) (map en_seq envs)"
    and free: "keys_free fv envs rows"
  shows "feed_log fv envs (feed_log fv envs rows) = feed_log fv envs rows"
proof (cases envs)
  case (Cons env rest)
  let ?T = "feed_step fv env rows"
  have log: "feed_log fv envs rows' = feed_log fv rest (feed_step fv env rows')" for rows'
    by (simp add: Cons feed_log_def)
  have below': "\<forall>a \<in> set ?T. av_seq a \<le> m" using rows_below below log by metis
  then have "\<forall>a \<in> set ?T. av_seq a \<noteq> en_seq env" using above Cons by fastforce
  then have again: "feed_step fv env ?T = ?T" using rowless_step [of fv env rows] free Cons by (auto simp: keys_free_def)
  have "keys_free fv rest ?T"
    unfolding keys_free_def
  proof (intro ballI)
    fix e assume e: "e \<in> set rest"
    have "av_seq a \<noteq> en_seq env" if "a \<in> set ?T" for a using below' that above Cons by fastforce
    then show "fv_row_id fv (en_seq e) \<notin> av_id ` set ?T \<and> en_id e \<notin> av_event_id ` set ?T"
      using feed_step_rows [of _ fv env rows] free e Cons by (auto simp: keys_free_def image_iff) metis+
  qed
  moreover have "\<forall>e \<in> set rest. Suc m < en_seq e" using sorted above Cons by fastforce
  ultimately have "feed_log fv rest rows' = rows'" for rows'
    using rowless_tail_quiet [of fv rest ?T m] below log quiet_log by metis
  then show ?thesis using log again by simp
qed (simp add: feed_log_def)

lemma split_at: "sorted_wrt (<) (map f xs) \<Longrightarrow> xs = filter (\<lambda>x. f x \<le> m) xs @ filter (\<lambda>x. (m :: nat) < f x) xs"
proof (induction xs)
  case (Cons x xs)
  have "filter (\<lambda>x. f x \<le> m) xs = []" if "m < f x" using Cons.prems that by (fastforce simp: filter_empty_conv)
  then show ?case using Cons by (cases "f x \<le> m") auto
qed simp

text \<open>
  A restart loses nothing from the feed. If the feed was projected up to some point of the log, the backfill, which
  starts after the highest number that has a row and so repeats the row-less events before that point, ends with
  exactly the feed of the whole log.
\<close>

theorem backfill_completes_feed:
  assumes ok: "log_ok l" and ids: "inj (fv_row_id fv)"
  shows "snd (backfill_from_events fv l (feed_log fv (take k (el_rows l)) [])) = feed_log fv (el_rows l) []"
proof -
  define pre where "pre = take k (el_rows l)"
  define post where "post = drop k (el_rows l)"
  define R where "R = feed_log fv pre []"
  define m where "m = last_backfilled_seq R"
  define P1 where "P1 = filter (\<lambda>env. en_seq env \<le> m) pre"
  define P2 where "P2 = filter (\<lambda>env. m < en_seq env) pre"
  have rows: "el_rows l = pre @ post" by (simp add: pre_def post_def)
  have sorted: "sorted_wrt (<) (map en_seq pre)" and dist: "distinct (map en_id pre)"
    and cross: "\<forall>a \<in> set pre. \<forall>b \<in> set post. en_seq a < en_seq b" and pos: "\<forall>b \<in> set post. 0 < en_seq b"
    using ok by (auto simp: log_ok_def rows sorted_wrt_append)
  have m: "\<forall>a \<in> set R. av_seq a \<le> m" "m = 0 \<or> m \<in> av_seq ` set R"
    using Max_in [of "insert 0 (av_seq ` set R)"] by (auto simp: m_def last_backfilled_seq_def)
  have "m = 0 \<or> (\<exists>env \<in> set pre. m = en_seq env)" using m(2) feed_log_rows [of _ fv pre "[]"] by (fastforce simp: R_def)
  then have "\<forall>b \<in> set post. m < en_seq b" using cross pos by auto
  then have later: "filter (\<lambda>env. m < en_seq env) (el_rows l) = P2 @ post" by (simp add: rows P2_def)
  have split: "pre = P1 @ P2" unfolding P1_def P2_def by (rule split_at [OF sorted])
  then have R: "R = feed_log fv P2 (feed_log fv P1 [])" by (simp add: R_def feed_log_append)
  have "keys_free fv P2 (feed_log fv P1 [])"
    unfolding keys_free_def
  proof (intro ballI)
    fix env assume env: "env \<in> set P2"
    have "fv_row_id fv (en_seq e) \<noteq> fv_row_id fv (en_seq env) \<and> en_id e \<noteq> en_id env" if "e \<in> set P1" for e
    proof -
      have "en_seq e \<noteq> en_seq env" using that env by (auto simp: P1_def P2_def)
      moreover have "en_id e \<noteq> en_id env" using that env dist unfolding split by auto
      ultimately show ?thesis using ids by (simp add: inj_eq)
    qed
    note apart = this
    have "av_id a \<noteq> fv_row_id fv (en_seq env) \<and> av_event_id a \<noteq> en_id env" if a: "a \<in> set (feed_log fv P1 [])" for a
    proof -
      obtain e where "e \<in> set P1" "av_event_id a = en_id e" "av_id a = fv_row_id fv (en_seq e)"
        using feed_log_rows [OF a] by auto
      then show ?thesis using apart by metis
    qed
    then show "fv_row_id fv (en_seq env) \<notin> av_id ` set (feed_log fv P1 []) \<and> en_id env \<notin> av_event_id ` set (feed_log fv P1 [])"
      by fastforce
  qed
  then have free: "keys_free fv P2 (feed_log fv P1 [])" .
  have "feed_log fv P2 R = R"
    unfolding R
  proof (rule rowless_replay [where m = m, OF _ _ _ free])
    show "\<forall>a \<in> set (feed_log fv P2 (feed_log fv P1 [])). av_seq a \<le> m" using m(1) by (simp only: R)
    show "sorted_wrt (<) (map en_seq P2)" using sorted unfolding split by (simp add: sorted_wrt_append)
  qed (simp_all add: P2_def)
  then have "feed_log fv (P2 @ post) R = feed_log fv (el_rows l) []"
    by (simp add: feed_log_append rows R_def)
  then have "snd (backfill_loop fv l m 0 R) = feed_log fv (el_rows l) []"
    using backfill_loop_spec [OF ok, of fv m 0 R] later by (simp add: Let_def)
  then show ?thesis unfolding backfill_from_events_def m_def R_def pre_def .
qed

subsection \<open>What the feed says of a handoff\<close>

definition handoff_change :: "status \<Rightarrow> status \<Rightarrow> bool" where
  "handoff_change st_from to \<longleftrightarrow> to = InReview \<or> to = Done \<or> st_from = InReview \<and> to = Todo"

definition comments_on :: "uuid \<Rightarrow> event \<Rightarrow> bool" where
  "comments_on t e = (case e of TaskEv (TaskCommented t' _ _ _) \<Rightarrow> t' = t | _ \<Rightarrow> False)"

text \<open>A row of the status field, and what later steps leave of it.\<close>

definition change_row :: "event_envelope \<Rightarrow> uuid \<Rightarrow> status \<Rightarrow> status \<Rightarrow> activity \<Rightarrow> bool" where
  "change_row env t st_from to a \<longleftrightarrow> av_task_id a = Some t \<and> av_seq a = en_seq env \<and> av_occurred_at a = en_occurred_at env \<and>
     av_field a = Some ''status'' \<and> av_old_value a = Some (status_as_str st_from) \<and> av_new_value a = Some (status_as_str to)"

lemma change_row_handoff: "change_row env t st_from to a \<Longrightarrow> handoff_change st_from to \<Longrightarrow> is_handoff_row tx a"
  by (auto simp: change_row_def handoff_change_def is_handoff_row_def)

lemma change_row_kept:
  assumes "a \<in> set rows" "change_row env t st_from to a" and "\<not> (en_seq env' = Suc (en_seq env) \<and> comments_on t (en_payload env'))"
    and "0 < en_seq env'" "0 < en_seq env"
  shows "\<exists>b \<in> set (feed_step fv env' rows). change_row env t st_from to b"
proof (cases rule: feed_step_cases [where fv = fv and env = env' and rows = rows])
  case (merge t' v p)
  have "p = None" if "at_seq t' (en_seq env' - 1) a"
    using that assms(2-5) merge(1)
    by (cases p) (auto simp: at_seq_def change_row_def semantic_merge_def comments_on_def split: event.splits task_event.splits)
  then have "change_row env t st_from to (if at_seq t' (en_seq env' - 1) a then merged v p a else a)"
    using assms(2) by (auto simp: change_row_def merged_def)
  then show ?thesis using assms(1) unfolding merge(3) by (metis (no_types, lifting) imageI list.set_map)
qed (use assms(1,2) in \<open>auto simp: insert_row_def\<close>)

lemma change_row_kept_log:
  assumes "a \<in> set rows" "change_row env t st_from to a"
    and "\<forall>env' \<in> set envs. 0 < en_seq env' \<and> \<not> (en_seq env' = Suc (en_seq env) \<and> comments_on t (en_payload env'))"
    and "0 < en_seq env"
  shows "\<exists>b \<in> set (feed_log fv envs rows). change_row env t st_from to b"
  using assms(1-3)
proof (induction envs arbitrary: rows a)
  case (Cons env' envs)
  obtain b where "b \<in> set (feed_step fv env' rows)" "change_row env t st_from to b"
    using change_row_kept [OF Cons.prems(1,2), of env' fv] Cons.prems(3) assms(4) by auto
  then show ?case using Cons.IH [of b "feed_step fv env' rows"] Cons.prems(3) by (simp add: feed_log_def)
qed (auto simp: feed_log_def)

lemma fresh_row_inserted:
  assumes ok: "log_ok l" and ids: "inj (fv_row_id fv)" and rows: "el_rows l = pre @ env # post"
  shows "insert_row (feed_row (fv_row_id fv (en_seq env)) env f) (feed_log fv pre []) =
    feed_log fv pre [] @ [feed_row (fv_row_id fv (en_seq env)) env f]"
proof -
  have "av_event_id b \<noteq> en_id env \<and> av_id b \<noteq> fv_row_id fv (en_seq env)" if b: "b \<in> set (feed_log fv pre [])" for b
  proof -
    obtain e where e: "e \<in> set pre" "av_event_id b = en_id e" "av_id b = fv_row_id fv (en_seq e)"
      using feed_log_rows [of b fv pre "[]"] b by auto
    then have "en_seq e < en_seq env" using ok by (auto simp: log_ok_def rows sorted_wrt_append)
    moreover have "en_id env \<notin> en_id ` set pre" using ok by (auto simp: log_ok_def rows)
    ultimately show ?thesis using e ids by (metis imageI inj_eq less_irrefl)
  qed
  then show ?thesis by (auto simp: insert_row_def list_ex_iff)
qed

lemma log_feed_ok: "log_ok l \<Longrightarrow> feed_ok (feed_log fv (el_rows l) [])"
  by (intro feed_log_ok) (auto simp: log_ok_def feed_ok_def)

text \<open>
  A recorded handoff is never forgotten. Once the log holds a status change of the task into review or done, or a
  review reject, the feed of the log shows a handoff from that moment on, through every later close, reopening or
  reject, as long as the next event is not a lone comment event on the task (the handler always writes it after the
  comment's own event).
\<close>

theorem handoff_never_forgotten:
  assumes ok: "log_ok l" and ids: "inj (fv_row_id fv)"
    and rows: "el_rows l = pre @ env # post" and change: "en_payload env = TaskEv (TaskStatusChanged t st_from to)"
    and handoff: "handoff_change st_from to" and since: "since \<le> en_occurred_at env"
    and paired: "\<forall>env' \<in> set post. \<not> (en_seq env' = Suc (en_seq env) \<and> comments_on t (en_payload env'))"
  shows "handoff_recorded_since tx (feed_log fv (el_rows l) []) t since"
proof -
  have pos: "0 < en_seq env" "\<forall>e \<in> set post. 0 < en_seq e" using ok by (auto simp: log_ok_def rows)
  define R where "R = feed_log fv pre []"
  define a where "a = feed_row (fv_row_id fv (en_seq env)) env ((task_feed R t VbStatusChanged)
    \<lparr>fe_field := Some ''status'', fe_old := Some (status_as_str st_from), fe_new := Some (status_as_str to)\<rparr>)"
  have "feed_step fv env R = insert_row a R"
    by (simp add: feed_step_def activity_apply_event_def semantic_merge_def change event_feed_def task_event_feed_def record_feed_def a_def)
  then have a: "a \<in> set (feed_step fv env R)" using fresh_row_inserted [OF ok ids rows] by (simp add: R_def a_def)
  have "change_row env t st_from to a" by (simp add: a_def change_row_def task_feed_def feed_def)
  then obtain b where b: "b \<in> set (feed_log fv post (feed_step fv env R))" "change_row env t st_from to b"
    using change_row_kept_log [OF a, of env t st_from to post fv] paired pos by auto
  have "feed_log fv (el_rows l) [] = feed_log fv post (feed_step fv env R)"
    by (simp add: rows R_def feed_log_def)
  then have "b \<in> set (feed_log fv (el_rows l) [])" using b(1) by simp
  moreover have "is_handoff_row tx b" using change_row_handoff [OF b(2) handoff] .
  ultimately show ?thesis
    using handoff_pages_exact [OF log_feed_ok [OF ok]] b(2) since pos(1)
    by (force simp: handoff_recorded_since_def change_row_def)
qed

text \<open>
  A comment can pass for a handoff. Any row that is not a status change is accepted when its value parses as an
  object with a pipeline position, and the value of a comment's row is the text of the comment.
\<close>

theorem comment_passes_for_handoff:
  assumes ok: "log_ok l" and ids: "inj (fv_row_id fv)"
    and rows: "el_rows l = pre @ [env, env']" and comment: "en_payload env = TaskEv (CommentAdded c)"
    and paired: "en_payload env' = TaskEv (TaskCommented (cm_task_id c) (cm_id c) actor (take_chars 80 (cm_body c)))"
      "en_seq env' = Suc (en_seq env)"
    and parses: "Option.bind (tx_parse tx (take_chars 80 (cm_body c))) (json_get ''pipeline_position'') = Some v" "v \<noteq> JNull"
    and since: "since \<le> en_occurred_at env"
  shows "handoff_recorded_since tx (feed_log fv (el_rows l) []) (cm_task_id c) since"
proof -
  define R where "R = feed_log fv pre []"
  define a where "a = feed_row (fv_row_id fv (en_seq env)) env
    ((task_feed R (cm_task_id c) VbCommented)\<lparr>fe_new := Some (take_chars 80 (cm_body c))\<rparr>)"
  have here: "at_seq (cm_task_id c) (en_seq env) a" by (simp add: a_def at_seq_def task_feed_def feed_def)
  have step: "feed_step fv env R = R @ [a]"
    using fresh_row_inserted [OF ok ids rows]
    by (simp add: feed_step_def activity_apply_event_def semantic_merge_def comment event_feed_def task_event_feed_def record_feed_def a_def R_def)
  have "feed_log fv (el_rows l) [] = feed_step fv env' (R @ [a])"
    by (simp add: rows R_def feed_log_def flip: step [unfolded R_def feed_log_def])
  moreover have "merged VbCommented (Some (take_chars 80 (cm_body c))) a \<in> set (feed_step fv env' (R @ [a]))"
    using here by (simp add: feed_step_def activity_apply_event_def semantic_merge_def paired merge_into_def list_ex_iff)
  ultimately have b: "merged VbCommented (Some (take_chars 80 (cm_body c))) a \<in> set (feed_log fv (el_rows l) [])" by simp
  have "is_handoff_row tx (merged VbCommented (Some (take_chars 80 (cm_body c))) a)"
    using parses by (simp add: is_handoff_row_def merged_def a_def task_feed_def feed_def)
  moreover have "0 < en_seq env" using ok by (auto simp: log_ok_def rows)
  ultimately show ?thesis
    using handoff_pages_exact [OF log_feed_ok [OF ok]] b since
    by (force simp: handoff_recorded_since_def a_def task_feed_def feed_def)
qed

subsection \<open>Worked examples\<close>

definition demo_text :: text_env where
  "demo_text = \<lparr>tx_codec = demo_codec, tx_time = (\<lambda>_. ''t''), tx_print = (\<lambda>_. ''{}''),
     tx_parse = (\<lambda>s. if s = ''forged'' then Some (JObject [(''pipeline_position'', JBool True)]) else None)\<rparr>"

definition demo_feed_env :: feed_env where
  "demo_feed_env = \<lparr>fv_text = demo_text, fv_plan_project = (\<lambda>_. None), fv_run_project = (\<lambda>_. None), fv_row_id = (\<lambda>n. n)\<rparr>"

definition demo_stored :: "nat \<Rightarrow> event \<Rightarrow> event_envelope" where
  "demo_stored n e = (envelope_new n (int n) actor_user e)\<lparr>en_seq := n\<rparr>"

definition demo_feed_log :: event_log where
  "demo_feed_log = \<lparr>el_rows = [demo_stored 1 (TaskEv (TaskStatusChanged 7 InReview Done)), demo_stored 2 (TaskEv (TaskClosed 7 actor_user 2)),
     demo_stored 3 (DocumentEv (DocumentArchived 5 3))], el_high = 3\<rparr>"

lemma demo_feed_log_ok: "log_ok demo_feed_log" "inj (fv_row_id demo_feed_env)"
  by (simp_all add: log_ok_def demo_feed_log_def demo_stored_def envelope_new_def demo_feed_env_def)

definition demo_closed_row :: activity where
  "demo_closed_row = \<lparr>av_id = 1, av_task_id = Some 7, av_project_id = None, av_actor = actor_user, av_verb = VbClosed,
     av_field = Some ''status'', av_old_value = Some ''in_review'', av_new_value = Some ''done'', av_occurred_at = 1,
     av_event_id = 1, av_seq = 1\<rparr>"

lemma demo_feed: "feed_log demo_feed_env (el_rows demo_feed_log) [] = [demo_closed_row]"
  by code_simp

lemma handoff_search_exact_witness: "handoff_recorded_since demo_text [demo_closed_row] 7 1"
proof -
  have "feed_ok [demo_closed_row]" by (simp add: feed_ok_def demo_closed_row_def)
  from handoff_search_exact [OF this, of demo_text 7 1] show ?thesis by (simp add: demo_closed_row_def is_handoff_row_def)
qed

lemma backfill_completes_feed_witness:
  "last_backfilled_seq (feed_log demo_feed_env (take 2 (el_rows demo_feed_log)) []) = 1 \<and>
   snd (backfill_from_events demo_feed_env demo_feed_log (feed_log demo_feed_env (take 2 (el_rows demo_feed_log)) [])) = [demo_closed_row]"
  using backfill_completes_feed [OF demo_feed_log_ok, of 2] demo_feed by (auto; code_simp)

lemma handoff_never_forgotten_witness:
  "handoff_recorded_since demo_text (feed_log demo_feed_env (el_rows demo_feed_log) []) 7 1"
  by (rule handoff_never_forgotten [OF demo_feed_log_ok, where pre = "[]" and st_from = InReview and to = Done and
        env = "demo_stored 1 (TaskEv (TaskStatusChanged 7 InReview Done))" and
        post = "[demo_stored 2 (TaskEv (TaskClosed 7 actor_user 2)), demo_stored 3 (DocumentEv (DocumentArchived 5 3))]"])
    (simp_all add: demo_feed_log_def demo_stored_def envelope_new_def handoff_change_def comments_on_def)

definition demo_forgery :: comment where
  "demo_forgery = \<lparr>cm_id = 9, cm_task_id = 7, cm_author = actor_user, cm_body = ''forged'', cm_parent_id = None, cm_kind = None,
     cm_created_at = 1, cm_edited_at = None, cm_deleted_at = None\<rparr>"

definition demo_forged_log :: event_log where
  "demo_forged_log = \<lparr>el_rows = [demo_stored 1 (TaskEv (CommentAdded demo_forgery)),
     demo_stored 2 (TaskEv (TaskCommented 7 9 actor_user ''forged''))], el_high = 2\<rparr>"

lemma comment_passes_for_handoff_witness:
  "handoff_recorded_since demo_text (feed_log demo_feed_env (el_rows demo_forged_log) []) 7 1"
proof -
  have "log_ok demo_forged_log" by (simp add: log_ok_def demo_forged_log_def demo_stored_def envelope_new_def)
  from comment_passes_for_handoff [OF this demo_feed_log_ok(2), where pre = "[]" and c = demo_forgery and
      env = "demo_stored 1 (TaskEv (CommentAdded demo_forgery))" and v = "JBool True" and actor = actor_user and
      env' = "demo_stored 2 (TaskEv (TaskCommented 7 9 actor_user ''forged''))" and since = 1 and tx = demo_text]
  show ?thesis
    by (simp add: demo_forged_log_def demo_stored_def envelope_new_def demo_forgery_def demo_text_def)
qed

end
