(* ===== verification/Tenant_Store.thy ===== *)
theory Tenant_Store
  imports Plan_Store Project_Store
begin

text \<open>
  Tenant limits and external references: \<^verbatim>\<open>crates/storage/src/tenant_quota_repo.rs\<close> (table \<^verbatim>\<open>tenants\<close>) and
  \<^verbatim>\<open>external_ref_repo.rs\<close> (table \<^verbatim>\<open>external_refs\<close>, keyed by tenant, kind and external id).
\<close>

subsection \<open>tenant\_quota\_repo.rs\<close>

record tenant =
  tn_id :: string
  tn_max_tasks :: "int option"
  tn_max_plans :: "int option"
  tn_max_storage_mb :: "int option"

definition set_limits :: "string \<Rightarrow> int option \<Rightarrow> int option \<Rightarrow> int option \<Rightarrow> tenant list \<Rightarrow> tenant list" where
  "set_limits i max_tasks max_plans max_storage ts =
     map (\<lambda>t. if tn_id t = i
              then t\<lparr>tn_max_tasks := max_tasks, tn_max_plans := max_plans, tn_max_storage_mb := max_storage\<rparr> else t) ts"

definition tenant_for_project :: "project_store \<Rightarrow> uuid option \<Rightarrow> string option" where
  "tenant_for_project ps project =
     (case project of None \<Rightarrow> Some DEFAULT_TENANT_ID | Some i \<Rightarrow> Option.bind (project_get ps i) pr_tenant_id)"

definition limit_for :: "tenant list \<Rightarrow> string \<Rightarrow> (tenant \<Rightarrow> int option) \<Rightarrow> int option" where
  "limit_for ts i column = Option.bind (find (\<lambda>t. tn_id t = i) ts) column"

text \<open>A left join: a task without a project counts for the default tenant, one with an unknown project for nobody.\<close>

definition in_tenant :: "project_store \<Rightarrow> string \<Rightarrow> uuid \<Rightarrow> bool" where
  "in_tenant ps i project \<longleftrightarrow> Option.bind (project_get ps project) pr_tenant_id = Some i"

definition count_self_hosted_tasks :: "project_store \<Rightarrow> task_store \<Rightarrow> int" where
  "count_self_hosted_tasks ps ts = int (length (filter (\<lambda>t.
     case t_project_id t of None \<Rightarrow> True | Some p \<Rightarrow> in_tenant ps DEFAULT_TENANT_ID p) (tasks_of ts)))"

definition count_tenant_tasks :: "project_store \<Rightarrow> task_store \<Rightarrow> string \<Rightarrow> int" where
  "count_tenant_tasks ps ts i = int (length (filter (\<lambda>t.
     case t_project_id t of None \<Rightarrow> False | Some p \<Rightarrow> in_tenant ps i p) (tasks_of ts)))"

definition count_tenant_plans :: "project_store \<Rightarrow> plan_store \<Rightarrow> string \<Rightarrow> int" where
  "count_tenant_plans ps plans i = int (length (filter (\<lambda>p. in_tenant ps i (pl_project_id p)) (ps_plans plans)))"

definition reject_if_full :: "string \<Rightarrow> int \<Rightarrow> int \<Rightarrow> unit result" where
  "reject_if_full resource limit current_count =
     (if current_count \<ge> limit then Inl (QuotaExceeded resource limit current_count) else Inr ())"

definition tasks_of_tenant :: "project_store \<Rightarrow> task_store \<Rightarrow> string \<Rightarrow> int" where
  "tasks_of_tenant ps ts i =
     (if i = DEFAULT_TENANT_ID then count_self_hosted_tasks ps ts else count_tenant_tasks ps ts i)"

definition check_task_quota :: "tenant list \<Rightarrow> project_store \<Rightarrow> task_store \<Rightarrow> uuid option \<Rightarrow> unit result" where
  "check_task_quota tenants ps ts project =
     (let i = unwrap_or DEFAULT_TENANT_ID (tenant_for_project ps project) in
      case limit_for tenants i tn_max_tasks of
        None \<Rightarrow> Inr ()
      | Some limit \<Rightarrow> reject_if_full ''tasks'' limit (tasks_of_tenant ps ts i))"

definition check_plan_quota :: "tenant list \<Rightarrow> project_store \<Rightarrow> plan_store \<Rightarrow> uuid \<Rightarrow> unit result" where
  "check_plan_quota tenants ps plans project =
     (let i = unwrap_or DEFAULT_TENANT_ID (tenant_for_project ps (Some project)) in
      case limit_for tenants i tn_max_plans of
        None \<Rightarrow> Inr ()
      | Some limit \<Rightarrow> reject_if_full ''plans'' limit (count_tenant_plans ps plans i))"

subsection \<open>external\_ref\_repo.rs\<close>

record external_ref =
  xr_tenant :: string
  xr_kind :: string
  xr_external_id :: string
  xr_internal_id :: string
  xr_created_at :: timestamp

definition external_lookup :: "external_ref list \<Rightarrow> string \<times> string \<times> string \<Rightarrow> string option" where
  "external_lookup rs key =
     map_option xr_internal_id (find (\<lambda>r. (xr_tenant r, xr_kind r, xr_external_id r) = key) rs)"

definition external_insert :: "external_ref \<Rightarrow> external_ref list \<Rightarrow> external_ref list result" where
  "external_insert r rs =
     (if external_lookup rs (xr_tenant r, xr_kind r, xr_external_id r) \<noteq> None
      then Inl (Storage ''UNIQUE constraint failed'') else Inr (rs @ [r]))"

text \<open>No event updates the table.\<close>

definition external_apply_event :: "event_envelope \<Rightarrow> external_ref list \<Rightarrow> external_ref list" where
  "external_apply_event env rs = rs"

lemma find_snoc: "find P (xs @ [x]) = (case find P xs of Some y \<Rightarrow> Some y | None \<Rightarrow> if P x then Some x else None)"
  by (induction xs) simp_all

lemma external_insert_lookup:
  "external_insert r rs = Inr rs' \<Longrightarrow> external_lookup rs' (xr_tenant r, xr_kind r, xr_external_id r) = Some (xr_internal_id r)"
  by (auto simp: external_insert_def external_lookup_def find_snoc split: if_splits option.splits)

end
