(* ===== verification/Handler_Status.thy ===== *)
theory Handler_Status
  imports Plan_Readiness Document_Store Registry Activity_Store Tenant_Store
begin

text \<open>
  The parts of \<^verbatim>\<open>crates/core/src/handler.rs\<close> every status transition goes through: the guard of
  pipeline-managed tasks, the transition events with their cascade over relations and documents, the
  pipeline advance, and the reconciliation that closes plans in the same batch.

  A handler reads the projections of a \<open>world\<close>. Building the events of a transition also writes the
  relation table (the edges of a finished task become \<^verbatim>\<open>WasBlocking\<close>), and the write stays when a later
  step of the command fails; so these functions return the result together with the relation table,
  also on an error. All repositories are configured, as in the server. The text of an error is kept up
  to its first interpolated value.
\<close>

record world =
  w_tasks :: task_store
  w_plans :: plan_store
  w_runs :: run_store
  w_relations :: relation_table
  w_documents :: document_table
  w_registry :: registry
  w_activity :: activity_table
  w_tenants :: "tenant list"
  w_external_refs :: "external_ref list"

type_synonym 'a built = "'a result \<times> relation_table"

definition bind_built :: "'a built \<Rightarrow> ('a \<Rightarrow> relation_table \<Rightarrow> 'b built) \<Rightarrow> 'b built" where
  "bind_built m f = (case m of (Inl e, rels) \<Rightarrow> (Inl e, rels) | (Inr x, rels) \<Rightarrow> f x rels)"

lemma bind_built_simps [simp]:
  "bind_built (Inl e, rels) f = (Inl e, rels)"
  "bind_built (Inr x, rels) f = f x rels"
  by (simp_all add: bind_built_def)

subsection \<open>Status transitions\<close>

definition ensure_direct_status_write :: "world \<Rightarrow> uuid \<Rightarrow> status \<Rightarrow> unit result" where
  "ensure_direct_status_write w i to =
     (if direct_status_write_allowed (repo_pipeline_position (w_tasks w) i) to then Inr ()
      else Inl (Conflict ''pipeline_managed: task ''))"

definition close_task_documents :: "document_table \<Rightarrow> uuid \<Rightarrow> status \<Rightarrow> timestamp \<Rightarrow> event list" where
  "close_task_documents docs t to now =
     (case to of
        Done \<Rightarrow> map (\<lambda>d. DocumentEv (DocumentStatusChanged (doc_id d) (doc_status d) DocFrozen now))
                   (list_live_by_task docs t)
      | Cancelled \<Rightarrow> map (\<lambda>d. DocumentEv (DocumentStatusChanged (doc_id d) (doc_status d) DocArchived now))
                   (list_live_by_task docs t)
      | _ \<Rightarrow> [])"

text \<open>The loop that turns the outgoing \<^verbatim>\<open>Blocks\<close> edges into \<^verbatim>\<open>WasBlocking\<close>, one row at a time.\<close>

fun resolve_outgoing :: "timestamp \<Rightarrow> relation list \<Rightarrow> relation_table \<Rightarrow> event list built" where
  "resolve_outgoing now [] rels = (Inr [], rels)"
| "resolve_outgoing now (r # rs) rels =
     (case relation_update_kind (rel_id r) WasBlocking rels of
        Inl e \<Rightarrow> (Inl e, rels)
      | Inr (_, rels') \<Rightarrow>
          bind_built (resolve_outgoing now rs rels') (\<lambda>evs rels''.
            (Inr (RelationEv (TaskRelationKindChanged (rel_id r) (rel_from r) (rel_to r) Blocks WasBlocking now) # evs),
             rels'')))"

definition unblocked_events :: "relation_table \<Rightarrow> task_table \<Rightarrow> uuid \<Rightarrow> timestamp \<Rightarrow> event list" where
  "unblocked_events rels tasks i now =
     map (\<lambda>t. RelationEv (TaskUnblocked t i now)) (list_downstream_to_unblock rels tasks i)"

definition closure_events :: "uuid \<Rightarrow> status \<Rightarrow> status \<Rightarrow> actor \<Rightarrow> timestamp \<Rightarrow> event list" where
  "closure_events i st_from to actor now =
     (if is_terminal st_from \<and> \<not> is_terminal to then [TaskEv (TaskReopened i actor now)]
      else if \<not> is_terminal st_from \<and> is_terminal to then [TaskEv (TaskClosed i actor now)]
      else [])"

definition status_transition_events ::
  "world \<Rightarrow> task \<Rightarrow> status \<Rightarrow> actor \<Rightarrow> timestamp \<Rightarrow> relation_table \<Rightarrow> event list built" where
  "status_transition_events w task to actor now rels =
     (let i = t_id task; st_from = t_status task; tasks = tasks_of (w_tasks w) in
      if st_from = to then (Inr [], rels)
      else if to = Done \<and> list_active_blockers rels tasks i \<noteq> [] then (Inl (Conflict ''task_blocked: task ''), rels)
      else let head = TaskEv (TaskStatusChanged i st_from to) # closure_events i st_from to actor now in
        if to = Done
        then bind_built (resolve_outgoing now (list_blocks_targets rels i) rels) (\<lambda>evs rels'.
               (Inr (head @ unblocked_events rels tasks i now @ evs @ close_task_documents (w_documents w) i to now), rels'))
        else (Inr (head @ close_task_documents (w_documents w) i to now), rels))"

definition emit_status_transition_events ::
  "world \<Rightarrow> task \<Rightarrow> status \<Rightarrow> actor \<Rightarrow> timestamp \<Rightarrow> relation_table \<Rightarrow> event list built" where
  "emit_status_transition_events w task to actor now rels =
     (case ensure_direct_status_write w (t_id task) to of
        Inl e \<Rightarrow> (Inl e, rels)
      | Inr _ \<Rightarrow> status_transition_events w task to actor now rels)"

subsection \<open>Pipelines\<close>

definition validate_pipeline_target :: "pipeline_position \<Rightarrow> unit result" where
  "validate_pipeline_target p =
     (case position_validate p of
        Inl m \<Rightarrow> Inl (Validation m)
      | Inr _ \<Rightarrow> if pp_closed p \<noteq> []
                 then Inl (Validation ''pipeline_position.closed is filled only by close_pipeline_stage'')
                 else Inr ())"

definition pipeline_task :: "world \<Rightarrow> uuid \<Rightarrow> task result" where
  "pipeline_task w i =
     bind_result (ok_or (NotFound ''task '') (task_repo_get (w_tasks w) i)) (\<lambda>task.
       if t_status task = Cancelled then Inl (Conflict ''pipeline_cancelled: task '') else Inr task)"

definition position_patch :: "pipeline_position \<Rightarrow> task_patch" where
  "position_patch p = empty_patch\<lparr>tp_pipeline_position := Some p\<rparr>"

definition advance_pipeline_events ::
  "world \<Rightarrow> task \<Rightarrow> pipeline_position \<Rightarrow> actor \<Rightarrow> timestamp \<Rightarrow> relation_table \<Rightarrow> event list built" where
  "advance_pipeline_events w task position actor now rels =
     (case validate_pipeline_target position of
        Inl e \<Rightarrow> (Inl e, rels)
      | Inr _ \<Rightarrow>
          bind_built (status_transition_events w task (canonical_status position) actor now rels) (\<lambda>evs rels'.
            (Inr (TaskEv (TaskUpdated (t_id task) (position_patch position)) # evs), rels')))"

subsection \<open>Plan reconciliation\<close>

text \<open>What one event of the batch contributes: pending statuses, ended runs, plans to look at.\<close>

record overlay =
  ov_tasks :: "uuid \<Rightarrow> status option"
  ov_plans :: "uuid \<Rightarrow> plan_status option"
  ov_ended_runs :: "uuid list"

definition opt_list :: "'a option \<Rightarrow> 'a list" where
  "opt_list x = (case x of None \<Rightarrow> [] | Some v \<Rightarrow> [v])"

definition parent_list :: "world \<Rightarrow> uuid \<Rightarrow> uuid list" where
  "parent_list w p = opt_list (Option.bind (plan_get (w_plans w) p) pl_parent_plan_id)"

definition overlay_event :: "event \<Rightarrow> overlay \<Rightarrow> overlay" where
  "overlay_event e ov =
     (case e of
        TaskEv (TaskStatusChanged t _ to) \<Rightarrow> ov\<lparr>ov_tasks := (ov_tasks ov)(t \<mapsto> to)\<rparr>
      | PlanEv (PlanStatusChanged p _ to) \<Rightarrow> ov\<lparr>ov_plans := (ov_plans ov)(p \<mapsto> to)\<rparr>
      | PlanEv (PlanArchived p _) \<Rightarrow> ov\<lparr>ov_plans := (ov_plans ov)(p \<mapsto> Abandoned)\<rparr>
      | RunEv (RunCompleted r _) \<Rightarrow> ov\<lparr>ov_ended_runs := r # ov_ended_runs ov\<rparr>
      | RunEv (RunFailed r _ _) \<Rightarrow> ov\<lparr>ov_ended_runs := r # ov_ended_runs ov\<rparr>
      | RunEv (RunAborted r _ _) \<Rightarrow> ov\<lparr>ov_ended_runs := r # ov_ended_runs ov\<rparr>
      | _ \<Rightarrow> ov)"

definition run_plan :: "world \<Rightarrow> uuid \<Rightarrow> uuid list" where
  "run_plan w r = opt_list (map_option r_plan_id (run_get (w_runs w) r))"

definition candidate_plans :: "world \<Rightarrow> event \<Rightarrow> uuid list" where
  "candidate_plans w e =
     (case e of
        TaskEv (TaskStatusChanged t _ to) \<Rightarrow>
          if is_terminal to then map pl_id (list_plans_for_task (w_plans w) t) else []
      | PlanEv (PlanStatusChanged p _ to) \<Rightarrow> if to = Completed \<or> to = Abandoned then parent_list w p else []
      | PlanEv (PlanArchived p _) \<Rightarrow> parent_list w p
      | RunEv (RunCompleted r _) \<Rightarrow> run_plan w r
      | RunEv (RunFailed r _ _) \<Rightarrow> run_plan w r
      | RunEv (RunAborted r _ _) \<Rightarrow> run_plan w r
      | _ \<Rightarrow> [])"

definition effective_status :: "(uuid \<Rightarrow> plan_status option) \<Rightarrow> plan \<Rightarrow> plan_status" where
  "effective_status pst p = unwrap_or (pl_status p) (pst (pl_id p))"

definition member_statuses :: "world \<Rightarrow> overlay \<Rightarrow> uuid \<Rightarrow> status option list" where
  "member_statuses w ov p =
     map (\<lambda>m. map_option (\<lambda>t. unwrap_or (t_status t) (ov_tasks ov (t_id t))) (task_repo_get (w_tasks w) (pt_task_id m)))
       (list_tasks_ordered (w_plans w) p)"

definition child_statuses :: "world \<Rightarrow> (uuid \<Rightarrow> plan_status option) \<Rightarrow> uuid \<Rightarrow> plan_status list" where
  "child_statuses w pst p = map (effective_status pst) (list_children (w_plans w) p)"

definition plan_closable :: "world \<Rightarrow> overlay \<Rightarrow> (uuid \<Rightarrow> plan_status option) \<Rightarrow> plan \<Rightarrow> bool" where
  "plan_closable w ov pst p =
     (effective_status pst p = Active \<and> pl_archived_at p = None \<and>
      plan_ready_to_close (member_statuses w ov (pl_id p)) (child_statuses w pst (pl_id p)) \<and>
      \<not> list_ex (\<lambda>r. r_id r \<notin> set (ov_ended_runs ov)) (list_active_for_plan (w_runs w) (pl_id p)))"

definition active_plans :: "world \<Rightarrow> (uuid \<Rightarrow> plan_status option) \<Rightarrow> plan list" where
  "active_plans w pst = filter (\<lambda>p. effective_status pst p = Active) (ps_plans (w_plans w))"

lemma active_plans_close:
  assumes "plan_get (w_plans w) i = Some p" and "effective_status pst p = Active"
  shows "length (active_plans w (pst(i \<mapsto> Completed))) < length (active_plans w pst)"
proof -
  have p: "p \<in> set (ps_plans (w_plans w))" "pl_id p = i"
    using assms(1) by (auto simp: plan_get_def dest: row_get_Some)
  have eq: "active_plans w (pst(i \<mapsto> Completed)) = filter (\<lambda>q. pl_id q \<noteq> i) (active_plans w pst)"
    by (auto simp: active_plans_def effective_status_def intro: filter_cong)
  show ?thesis unfolding eq
    by (rule length_filter_less [of p]) (use p assms(2) in \<open>simp_all add: active_plans_def\<close>)
qed

text \<open>The work list. It ends: a plan that closes is no longer active, and only a closing plan adds to
  the list.\<close>

function reconcile_loop :: "world \<Rightarrow> overlay \<Rightarrow> (uuid \<Rightarrow> plan_status option) \<Rightarrow> uuid list \<Rightarrow> event list" where
  "reconcile_loop w ov pst candidates =
     (case candidates of
        [] \<Rightarrow> []
      | i # rest \<Rightarrow>
          (case plan_get (w_plans w) i of
             None \<Rightarrow> reconcile_loop w ov pst rest
           | Some p \<Rightarrow>
               if plan_closable w ov pst p
               then PlanEv (PlanStatusChanged i (pl_status p) Completed) #
                    reconcile_loop w ov (pst(i \<mapsto> Completed)) (rest @ opt_list (pl_parent_plan_id p))
               else reconcile_loop w ov pst rest))"
  by pat_completeness auto
termination
proof (relation "inv_image (less_than <*lex*> less_than)
    (\<lambda>(w, ov, pst, cs). (length (active_plans w pst), length cs))", goal_cases)
  case (3 w ov pst candidates i rest p)
  then have "effective_status pst p = Active" by (simp add: plan_closable_def)
  then show ?case using active_plans_close [OF 3(2)] by simp
qed auto

declare reconcile_loop.simps [simp del]

definition batch_overlay :: "event list \<Rightarrow> overlay" where
  "batch_overlay events =
     fold overlay_event events \<lparr>ov_tasks = Map.empty, ov_plans = Map.empty, ov_ended_runs = []\<rparr>"

definition batch_candidates :: "world \<Rightarrow> event list \<Rightarrow> uuid list" where
  "batch_candidates w events = concat (map (candidate_plans w) events)"

definition append_plan_reconciliations :: "world \<Rightarrow> event list \<Rightarrow> event list" where
  "append_plan_reconciliations w events =
     events @ reconcile_loop w (batch_overlay events) (ov_plans (batch_overlay events)) (batch_candidates w events)"

subsection \<open>What the work list computes\<close>

definition closed_plans :: "event list \<Rightarrow> uuid list" where
  "closed_plans evs = List.map_filter (\<lambda>e. case e of PlanEv (PlanStatusChanged i _ Completed) \<Rightarrow> Some i | _ \<Rightarrow> None) evs"

lemma closed_plans_simps [simp]:
  "closed_plans [] = []"
  "closed_plans (PlanEv (PlanStatusChanged i s Completed) # evs) = i # closed_plans evs"
  by (simp_all add: closed_plans_def List.map_filter_simps)

definition close_all :: "uuid list \<Rightarrow> (uuid \<Rightarrow> plan_status option) \<Rightarrow> uuid \<Rightarrow> plan_status option" where
  "close_all is pst i = (if i \<in> set is then Some Completed else pst i)"

lemma close_all_Cons: "close_all (i # is) pst = close_all is (pst(i \<mapsto> Completed))"
  by (auto simp: close_all_def)

lemma effective_close_all:
  "effective_status (close_all is pst) p = (if pl_id p \<in> set is then Completed else effective_status pst p)"
  by (simp add: effective_status_def close_all_def)

lemma reconcile_Nil: "reconcile_loop w ov pst [] = []"
  by (simp add: reconcile_loop.simps)

lemma reconcile_skip:
  assumes "\<And>p. plan_get (w_plans w) i = Some p \<Longrightarrow> \<not> plan_closable w ov pst p"
  shows "reconcile_loop w ov pst (i # rest) = reconcile_loop w ov pst rest"
  using assms by (subst reconcile_loop.simps) (simp split: option.split)

lemma reconcile_close:
  assumes "plan_get (w_plans w) i = Some p" and "plan_closable w ov pst p"
  shows "reconcile_loop w ov pst (i # rest) = PlanEv (PlanStatusChanged i (pl_status p) Completed) #
    reconcile_loop w ov (pst(i \<mapsto> Completed)) (rest @ opt_list (pl_parent_plan_id p))"
  using assms by (subst reconcile_loop.simps) simp

lemma reconcile_induct [case_names Nil skip close]:
  assumes nil: "\<And>pst. P pst []"
    and skip: "\<And>pst i rest. (\<And>p. plan_get (w_plans w) i = Some p \<Longrightarrow> \<not> plan_closable w ov pst p) \<Longrightarrow>
      P pst rest \<Longrightarrow> P pst (i # rest)"
    and close: "\<And>pst i rest p. plan_get (w_plans w) i = Some p \<Longrightarrow> plan_closable w ov pst p \<Longrightarrow>
      P (pst(i \<mapsto> Completed)) (rest @ opt_list (pl_parent_plan_id p)) \<Longrightarrow> P pst (i # rest)"
  shows "P pst cs"
proof -
  have "wf (inv_image (less_than <*lex*> less_than)
      (\<lambda>(pst, cs). (length (active_plans w pst), length (cs :: uuid list))))"
    by (intro wf_inv_image wf_lex_prod wf_less_than)
  then show ?thesis
  proof (induction "(pst, cs)" arbitrary: pst cs rule: wf_induct_rule)
    case less
    show ?case
    proof (cases cs)
      case Nil
      then show ?thesis using nil by simp
    next
      case (Cons i rest)
      show ?thesis
      proof (cases "\<exists>p. plan_get (w_plans w) i = Some p \<and> plan_closable w ov pst p")
        case True
        then obtain p where p: "plan_get (w_plans w) i = Some p" "plan_closable w ov pst p" by blast
        then have "length (active_plans w (pst(i \<mapsto> Completed))) < length (active_plans w pst)"
          by (intro active_plans_close [of w i p]) (auto simp: plan_closable_def)
        then show ?thesis unfolding Cons by (intro close [OF p] less) simp
      next
        case False
        then show ?thesis unfolding Cons by (intro skip less) (auto simp: Cons)
      qed
    qed
  qed
qed

lemma child_statuses_same:
  assumes ok: "plan_store_ok (w_plans w)" and no: "\<And>j. j \<in> set is \<Longrightarrow> i \<notin> set (parent_list w j)"
  shows "child_statuses w (close_all is pst) i = child_statuses w pst i"
proof -
  have "effective_status (close_all is pst) c = effective_status pst c" if "c \<in> set (list_children (w_plans w) i)" for c
  proof -
    have "c \<in> set (ps_plans (w_plans w))" "pl_parent_plan_id c = Some i" using that by (auto simp: list_children_def)
    then have "i \<in> set (parent_list w (pl_id c))"
      using row_get_mem [of pl_id "ps_plans (w_plans w)" c] ok
      by (simp add: parent_list_def plan_get_def plan_store_ok_def opt_list_def)
    then have "pl_id c \<notin> set is" using no by blast
    then show ?thesis by (simp add: effective_status_def close_all_def)
  qed
  then show ?thesis by (simp add: child_statuses_def)
qed

lemma reconcile_complete:
  assumes ok: "plan_store_ok (w_plans w)"
  shows "i \<in> set cs \<or> (\<exists>j \<in> set (closed_plans (reconcile_loop w ov pst cs)). i \<in> set (parent_list w j)) \<Longrightarrow>
    plan_get (w_plans w) i = Some p \<Longrightarrow>
    \<not> plan_closable w ov (close_all (closed_plans (reconcile_loop w ov pst cs)) pst) p"
proof (induction pst cs arbitrary: i p rule: reconcile_induct [where w = w and ov = ov])
  case (Nil pst)
  then show ?case by (simp add: reconcile_Nil)
next
  case (skip pst k rest)
  let ?is = "closed_plans (reconcile_loop w ov pst rest)"
  have eq: "reconcile_loop w ov pst (k # rest) = reconcile_loop w ov pst rest" by (rule reconcile_skip [OF skip(1)])
  show ?case
  proof (cases "i \<in> set rest \<or> (\<exists>j \<in> set ?is. i \<in> set (parent_list w j))")
    case True
    then show ?thesis using skip(2) [OF True skip(4)] by (simp add: eq)
  next
    case False
    then have "i = k" using skip(3) by (auto simp: eq)
    have pid: "pl_id p = i" using skip(4) by (auto simp: plan_get_def dest: row_get_Some)
    have "child_statuses w (close_all ?is pst) i = child_statuses w pst i"
      using False by (intro child_statuses_same [OF ok]) blast
    then show ?thesis using skip(1) [of p] skip(4) \<open>i = k\<close> pid
      by (auto simp: eq plan_closable_def effective_close_all)
  qed
next
  case (close pst k rest q)
  let ?is = "closed_plans (reconcile_loop w ov (pst(k \<mapsto> Completed)) (rest @ opt_list (pl_parent_plan_id q)))"
  have eq: "closed_plans (reconcile_loop w ov pst (k # rest)) = k # ?is"
    by (simp add: reconcile_close [OF close(1,2)])
  have par: "parent_list w k = opt_list (pl_parent_plan_id q)" using close(1) by (simp add: parent_list_def)
  show ?case
  proof (cases "i \<in> set (rest @ opt_list (pl_parent_plan_id q)) \<or> (\<exists>j \<in> set ?is. i \<in> set (parent_list w j))")
    case True
    from close(3) [OF True close(5)] show ?thesis unfolding eq close_all_Cons .
  next
    case False
    then have "i = k" using close(4) par by (auto simp: eq)
    then show ?thesis using close(5)
      by (auto simp: eq plan_closable_def effective_status_def close_all_def plan_get_def dest!: row_get_Some)
  qed
qed

text \<open>What a plan closed by the reconciliation satisfies, with the closures of the same batch applied.\<close>

definition properly_closed :: "world \<Rightarrow> overlay \<Rightarrow> (uuid \<Rightarrow> plan_status option) \<Rightarrow> uuid list \<Rightarrow> plan \<Rightarrow> bool" where
  "properly_closed w ov pst is p \<longleftrightarrow>
     effective_status pst p = Active \<and> pl_archived_at p = None \<and>
     plan_ready_to_close (member_statuses w ov (pl_id p)) (child_statuses w (close_all is pst) (pl_id p)) \<and>
     (\<forall>r \<in> set (list_active_for_plan (w_runs w) (pl_id p)). r_id r \<in> set (ov_ended_runs ov))"

lemma ready_mono:
  assumes "plan_ready_to_close ms (child_statuses w pst i)"
  shows "plan_ready_to_close ms (child_statuses w (close_all is pst) i)"
  using assms
  by (auto simp: plan_ready_to_close_def child_statuses_def list_all_iff effective_status_def close_all_def
      split: option.splits)

lemma reconcile_sound:
  "e \<in> set (reconcile_loop w ov pst cs) \<Longrightarrow>
   \<exists>p. plan_get (w_plans w) (pl_id p) = Some p \<and> e = PlanEv (PlanStatusChanged (pl_id p) (pl_status p) Completed) \<and>
     properly_closed w ov pst (closed_plans (reconcile_loop w ov pst cs)) p"
proof (induction pst cs rule: reconcile_induct [where w = w and ov = ov])
  case (Nil pst)
  then show ?case by (simp add: reconcile_Nil)
next
  case (skip pst k rest)
  then show ?case by (simp only: reconcile_skip [OF skip(1)])
next
  case (close pst k rest q)
  let ?rec = "reconcile_loop w ov (pst(k \<mapsto> Completed)) (rest @ opt_list (pl_parent_plan_id q))"
  have step: "reconcile_loop w ov pst (k # rest) = PlanEv (PlanStatusChanged k (pl_status q) Completed) # ?rec"
    by (rule reconcile_close [OF close(1,2)])
  have k: "pl_id q = k" using close(1) by (auto simp: plan_get_def dest: row_get_Some)
  from close(4) consider "e = PlanEv (PlanStatusChanged k (pl_status q) Completed)" | "e \<in> set ?rec"
    by (auto simp: step)
  then show ?case
  proof cases
    case 1
    have "properly_closed w ov pst (k # closed_plans ?rec) q"
      using close(2) ready_mono [of _ w pst k "k # closed_plans ?rec"]
      by (auto simp: plan_closable_def properly_closed_def k list_ex_iff)
    then show ?thesis using 1 close(1) k by (intro exI [of _ q]) (simp add: step)
  next
    case 2
    then obtain p where p: "plan_get (w_plans w) (pl_id p) = Some p"
      "e = PlanEv (PlanStatusChanged (pl_id p) (pl_status p) Completed)"
      "properly_closed w ov (pst(k \<mapsto> Completed)) (closed_plans ?rec) p"
      using close(3) by blast
    have "properly_closed w ov pst (k # closed_plans ?rec) p"
      using p(3) by (auto simp: properly_closed_def close_all_Cons effective_status_def split: if_splits)
    then show ?thesis using p by (intro exI [of _ p]) (simp add: step)
  qed
qed

subsection \<open>Properties of the reconciliation\<close>

text \<open>
  C24: a plan is closed automatically only when it is really finished. Every plan the reconciliation of a
  batch completes was active and not archived, has at least one member, all its members are terminal
  once the batch is applied, all its child plans are closed once the batch and its own closures are
  applied, and no run of it stays open.
\<close>

theorem reconciliation_sound:
  assumes "append_plan_reconciliations w events = events @ evs"
  shows "\<forall>e \<in> set evs. \<exists>p. plan_get (w_plans w) (pl_id p) = Some p \<and>
    e = PlanEv (PlanStatusChanged (pl_id p) (pl_status p) Completed) \<and>
    properly_closed w (batch_overlay events) (ov_plans (batch_overlay events)) (closed_plans evs) p"
  using assms reconcile_sound by (auto simp: append_plan_reconciliations_def)

text \<open>
  C25: no finished plan is left open. After the reconciliation no plan that the batch touches (a plan of
  a task that became terminal, the parent of a plan that closed or was archived, the plan of a run that
  ended), and no parent of a plan it closed, still meets the conditions for closing: closures climb the
  plan tree to a fixed point within the one batch.
\<close>

theorem reconciliation_complete:
  assumes ok: "plan_store_ok (w_plans w)" and res: "append_plan_reconciliations w events = events @ evs"
    and touched: "i \<in> set (batch_candidates w events) \<or> (\<exists>j \<in> set (closed_plans evs). i \<in> set (parent_list w j))"
    and plan: "plan_get (w_plans w) i = Some p"
  shows "\<not> plan_closable w (batch_overlay events) (close_all (closed_plans evs) (ov_plans (batch_overlay events))) p"
  using reconcile_complete [OF ok _ plan] res touched by (auto simp: append_plan_reconciliations_def)

definition demo_world :: world where
  "demo_world = \<lparr>w_tasks = demo_rows [(1, InProgress), (3, Done)],
     w_plans = \<lparr>ps_plans = [demo_plan_child 5 (Some 6), demo_plan_child 6 None],
                ps_plan_tasks = [demo_member 5 1 0, demo_member 6 3 0], ps_sources = []\<rparr>,
     w_runs = \<lparr>rs_runs = [], rs_steps = []\<rparr>, w_relations = [], w_documents = [],
     w_registry = empty_registry, w_activity = [], w_tenants = [], w_external_refs = []\<rparr>"

lemma demo_world_ok: "plan_store_ok (w_plans demo_world)"
  by (simp add: plan_store_ok_def keys_distinct_def membership_def demo_world_def demo_readiness_simps)

lemmas reconcile_eval = append_plan_reconciliations_def batch_overlay_def batch_candidates_def overlay_event_def
  candidate_plans_def list_plans_for_task_def plan_get_def reconcile_loop.simps plan_closable_def effective_status_def
  opt_list_def plan_ready_to_close_def member_statuses_def child_statuses_def list_children_def list_tasks_ordered_def
  task_repo_get_def list_active_for_plan_def

lemma demo_reconciles:
  "append_plan_reconciliations demo_world [TaskEv (TaskStatusChanged 1 InProgress Done)] =
     [TaskEv (TaskStatusChanged 1 InProgress Done)] @
     [PlanEv (PlanStatusChanged 5 Active Completed), PlanEv (PlanStatusChanged 6 Active Completed)]"
  by (simp add: reconcile_eval demo_world_def demo_readiness_simps)

theorem reconciliation_sound_witness:
  "\<exists>p. plan_get (w_plans demo_world) (pl_id p) = Some p \<and>
       PlanEv (PlanStatusChanged 6 Active Completed) = PlanEv (PlanStatusChanged (pl_id p) (pl_status p) Completed) \<and>
       properly_closed demo_world (batch_overlay [TaskEv (TaskStatusChanged 1 InProgress Done)])
         (ov_plans (batch_overlay [TaskEv (TaskStatusChanged 1 InProgress Done)])) [5, 6] p"
  using bspec [OF reconciliation_sound [OF demo_reconciles], of "PlanEv (PlanStatusChanged 6 Active Completed)"] by simp

theorem reconciliation_complete_witness:
  "\<not> plan_closable demo_world (batch_overlay [TaskEv (TaskStatusChanged 1 InProgress Done)])
       (close_all [5, 6] (ov_plans (batch_overlay [TaskEv (TaskStatusChanged 1 InProgress Done)]))) (demo_plan_child 6 None)"
proof -
  let ?evs = "[PlanEv (PlanStatusChanged 5 Active Completed), PlanEv (PlanStatusChanged 6 Active Completed)]"
  have "plan_get (w_plans demo_world) 6 = Some (demo_plan_child 6 None)"
    by (simp add: plan_get_def demo_world_def demo_readiness_simps)
  moreover have "6 \<in> set (parent_list demo_world 5)"
    by (simp add: parent_list_def plan_get_def opt_list_def demo_world_def demo_readiness_simps)
  then have "\<exists>j \<in> set (closed_plans ?evs). 6 \<in> set (parent_list demo_world j)" by simp
  ultimately show ?thesis using reconciliation_complete [OF demo_world_ok demo_reconciles] by auto
qed

subsection \<open>The cascade of a finished task\<close>

lemma relation_update_kind_Inr:
  assumes "relation_update_kind i k rels = Inr (b, rels')"
  shows "rels' = map (\<lambda>x. if rel_id x = i then x\<lparr>rel_kind := k\<rparr> else x) rels"
proof (cases "row_get rel_id rels i")
  case None
  then have "map (\<lambda>x. if rel_id x = i then x\<lparr>rel_kind := k\<rparr> else x) rels = rels"
    by (intro map_idI) (auto simp: row_get_None_iff)
  then show ?thesis using assms None by (simp add: relation_update_kind_def)
next
  case (Some r)
  then show ?thesis using assms by (auto simp: relation_update_kind_def row_modify_def split: if_splits)
qed

lemma resolve_outgoing_table:
  "resolve_outgoing now rs rels = (Inr evs, rels') \<Longrightarrow>
   rels' = map (\<lambda>x. if rel_id x \<in> rel_id ` set rs then x\<lparr>rel_kind := WasBlocking\<rparr> else x) rels"
proof (induction rs arbitrary: rels evs)
  case (Cons r rs)
  obtain b mid where up: "relation_update_kind (rel_id r) WasBlocking rels = Inr (b, mid)"
    using Cons.prems by (auto split: sum.splits)
  then obtain evs' where "resolve_outgoing now rs mid = (Inr evs', rels')"
    using Cons.prems by (auto simp: bind_built_def split: prod.splits sum.splits)
  from Cons.IH [OF this] show ?case
    by (auto simp: relation_update_kind_Inr [OF up])
qed simp

lemma resolved_table:
  assumes ok: "relation_table_ok rels" and res: "resolve_outgoing now (list_blocks_targets rels i) rels = (Inr evs, rels')"
  shows "rels' = map (\<lambda>x. if rel_from x = i \<and> rel_kind x = Blocks then x\<lparr>rel_kind := WasBlocking\<rparr> else x) rels"
proof -
  have d: "x = y" if "x \<in> set rels" "y \<in> set rels" "rel_id x = rel_id y" for x y
    using ok that by (auto simp: relation_table_ok_def keys_distinct_def distinct_map inj_on_def)
  have "rel_id x \<in> rel_id ` set (list_blocks_targets rels i) \<longleftrightarrow> rel_from x = i \<and> rel_kind x = Blocks"
    if "x \<in> set rels" for x
    using d that by (auto simp: list_blocks_targets_def)
  then show ?thesis unfolding resolve_outgoing_table [OF res] by (auto intro!: map_cong)
qed

lemma resolve_outgoing_edges:
  assumes "relation_table_ok rels" "resolve_outgoing now (list_blocks_targets rels i) rels = (Inr evs, rels')"
  shows "blocks_edges rels' = {(a, b). (a, b) \<in> blocks_edges rels \<and> a \<noteq> i}"
  unfolding resolved_table [OF assms] by (force simp: blocks_edges_def)

lemma status_transition_cases:
  assumes "status_transition_events w task to actor now rels = (Inr evs, rels')" and "t_status task \<noteq> to"
  obtains (finish) revs where "to = Done" "list_active_blockers rels (tasks_of (w_tasks w)) (t_id task) = []"
      "resolve_outgoing now (list_blocks_targets rels (t_id task)) rels = (Inr revs, rels')"
      "evs = TaskEv (TaskStatusChanged (t_id task) (t_status task) to) #
         closure_events (t_id task) (t_status task) to actor now @
         unblocked_events rels (tasks_of (w_tasks w)) (t_id task) now @ revs @
         close_task_documents (w_documents w) (t_id task) to now"
  | (other) "to \<noteq> Done" "rels' = rels"
      "evs = TaskEv (TaskStatusChanged (t_id task) (t_status task) to) #
         closure_events (t_id task) (t_status task) to actor now @
         close_task_documents (w_documents w) (t_id task) to now"
proof (cases "to = Done")
  case True
  have nb: "list_active_blockers rels (tasks_of (w_tasks w)) (t_id task) = []"
    using assms True by (auto simp: status_transition_events_def Let_def split: if_splits)
  obtain r rels0 where res: "resolve_outgoing now (list_blocks_targets rels (t_id task)) rels = (r, rels0)"
    by (metis surj_pair)
  show ?thesis
  proof (cases r)
    case (Inl e)
    then show ?thesis using assms True nb res by (simp add: status_transition_events_def Let_def)
  next
    case (Inr revs)
    then show ?thesis using assms True nb res finish [of revs]
      by (simp add: status_transition_events_def Let_def)
  qed
next
  case False
  then show ?thesis using assms other by (simp add: status_transition_events_def Let_def)
qed

lemma resolve_events_kind:
  "resolve_outgoing now rs rels = (Inr evs, rels') \<Longrightarrow>
   e \<in> set evs \<Longrightarrow> \<exists>i f t. e = RelationEv (TaskRelationKindChanged i f t Blocks WasBlocking now)"
proof (induction rs arbitrary: rels evs)
  case (Cons r rs)
  then show ?case by (auto simp: bind_built_def split: sum.splits prod.splits)
qed simp

subsection \<open>Documents of a closed task\<close>

lemma document_apply_other:
  "(\<And>de. e \<noteq> DocumentEv de) \<Longrightarrow> document_apply_event e docs = docs"
  by (cases e) (auto simp: document_apply_event_def)

lemma fold_document_other:
  "(\<And>e de. e \<in> set evs \<Longrightarrow> e \<noteq> DocumentEv de) \<Longrightarrow> fold document_apply_event evs docs = docs"
  by (induction evs) (simp_all add: document_apply_other)

definition target_events :: "document list \<Rightarrow> document_status \<Rightarrow> timestamp \<Rightarrow> event list" where
  "target_events ds target now = map (\<lambda>d. DocumentEv (DocumentStatusChanged (doc_id d) (doc_status d) target now)) ds"

lemma set_document_status_id [simp]: "doc_id (set_document_status to at d) = doc_id d"
  by (simp add: set_document_status_def)

lemma document_get_status:
  "document_get (document_apply_event (DocumentEv (DocumentStatusChanged i st target now)) docs) j =
     (if j = i then map_option (set_document_status target now) (document_get docs j) else document_get docs j)"
  by (simp add: document_apply_event_def document_change_get)

lemma set_document_status_idem:
  "set_document_status target now (set_document_status target now x) = set_document_status target now x"
  by (simp add: set_document_status_def split: option.split)

lemma fold_target_get:
  "document_get (fold document_apply_event (target_events ds target now) docs) j =
     (if j \<in> doc_id ` set ds then map_option (set_document_status target now) (document_get docs j)
      else document_get docs j)"
proof (induction ds arbitrary: docs)
  case (Cons d ds)
  show ?case using Cons [of "document_apply_event (DocumentEv (DocumentStatusChanged (doc_id d) (doc_status d) target now)) docs"]
    by (simp add: target_events_def document_get_status option.map_comp comp_def set_document_status_idem)
qed (simp add: target_events_def)

lemma fold_document_distinct:
  "keys_distinct doc_id docs \<Longrightarrow> keys_distinct doc_id (fold document_apply_event evs docs)"
  by (induction evs arbitrary: docs) (simp_all add: document_apply_distinct)

lemma close_documents_empty:
  assumes ok: "keys_distinct doc_id docs" and fin: "is_terminal to"
  shows "list_live_by_task (fold document_apply_event (close_task_documents docs t to now) docs) t = []"
proof -
  define target where "target = (if to = Done then DocFrozen else DocArchived)"
  let ?ds = "list_live_by_task docs t"
  have evs: "close_task_documents docs t to now = target_events ?ds target now"
    using fin by (cases to) (simp_all add: close_task_documents_def target_events_def target_def)
  let ?docs = "fold document_apply_event (target_events ?ds target now) docs"
  have False if "d \<in> set ?docs" "doc_task_id d = Some t" "is_live d" for d
  proof -
    have got: "document_get ?docs (doc_id d) = Some d"
      using row_get_mem [OF fold_document_distinct [OF ok] that(1)] by (simp add: document_get_def)
    show False
    proof (cases "doc_id d \<in> doc_id ` set ?ds")
      case True
      then obtain x where "d = set_document_status target now x" using got unfolding fold_target_get by auto
      then have "doc_status d = target" by (simp add: set_document_status_def)
      then show False using that(3) by (simp add: is_live_def target_def split: if_splits)
    next
      case False
      then have "document_get docs (doc_id d) = Some d" using got unfolding fold_target_get by simp
      then have "d \<in> set docs" by (auto simp: document_get_def dest: row_get_Some)
      then show False using False that by (auto simp: set_list_live)
    qed
  qed
  then have "set (list_live_by_task ?docs t) = {}" by (auto simp: set_list_live)
  then show ?thesis by (simp add: evs)
qed

lemma close_events_documents:
  "e \<in> set (closure_events i a b actor now) \<Longrightarrow> e \<noteq> DocumentEv de"
  "e \<in> set (unblocked_events rels tasks i now) \<Longrightarrow> e \<noteq> DocumentEv de"
  by (auto simp: closure_events_def unblocked_events_def split: if_splits)

subsection \<open>Properties of transitions\<close>

text \<open>
  Finishing a task releases exactly what it was holding. When the transition to done is built, no
  blocker of the task was unfinished; the task's own \<^verbatim>\<open>Blocks\<close> edges are gone from the graph and every
  other edge is untouched; and the tasks announced as unblocked are exactly those whose other blockers
  are all done.
\<close>

theorem done_transition_releases:
  assumes ok: "relation_table_ok rels" and open_task: "t_status task \<noteq> Done"
    and res: "status_transition_events w task Done actor now rels = (Inr evs, rels')"
  shows "list_active_blockers rels (tasks_of (w_tasks w)) (t_id task) = [] \<and>
    blocks_edges rels' = {(a, b). (a, b) \<in> blocks_edges rels \<and> a \<noteq> t_id task} \<and>
    {t. \<exists>u n. RelationEv (TaskUnblocked t u n) \<in> set evs} =
      set (list_downstream_to_unblock rels (tasks_of (w_tasks w)) (t_id task))"
  using res open_task
proof (cases rule: status_transition_cases)
  case (finish revs)
  have "RelationEv (TaskUnblocked t u n) \<in> set evs \<longleftrightarrow>
      RelationEv (TaskUnblocked t u n) \<in> set (unblocked_events rels (tasks_of (w_tasks w)) (t_id task) now)" for t u n
    using resolve_events_kind [OF finish(3)]
    by (auto simp: finish(4) closure_events_def close_task_documents_def)
  then show ?thesis using finish resolve_outgoing_edges [OF ok finish(3)] by (auto simp: unblocked_events_def)
qed simp

text \<open>
  A closed task anchors no live document. Whenever a transition into a terminal status is built, the
  document events of its batch leave the task without any draft or active document.
\<close>

theorem terminal_transition_closes_documents:
  assumes ok: "keys_distinct doc_id (w_documents w)" and fin: "is_terminal to" and change: "t_status task \<noteq> to"
    and res: "status_transition_events w task to actor now rels = (Inr evs, rels')"
  shows "list_live_by_task (fold document_apply_event evs (w_documents w)) (t_id task) = []"
proof -
  let ?close = "close_task_documents (w_documents w) (t_id task) to now"
  obtain pre where evs: "evs = pre @ ?close" and pre: "\<And>e de. e \<in> set pre \<Longrightarrow> e \<noteq> DocumentEv de"
    using res change
  proof (cases rule: status_transition_cases)
    case (finish revs)
    then show ?thesis using that [of "TaskEv (TaskStatusChanged (t_id task) (t_status task) to) #
         closure_events (t_id task) (t_status task) to actor now @
         unblocked_events rels (tasks_of (w_tasks w)) (t_id task) now @ revs"]
        close_events_documents resolve_events_kind [OF finish(3)] by fastforce
  next
    case other
    then show ?thesis using that [of "TaskEv (TaskStatusChanged (t_id task) (t_status task) to) #
         closure_events (t_id task) (t_status task) to actor now"] close_events_documents by fastforce
  qed
  have "fold document_apply_event evs (w_documents w) = fold document_apply_event ?close (w_documents w)"
    using pre by (simp add: evs fold_document_other)
  then show ?thesis using close_documents_empty [OF ok fin] by simp
qed

definition demo_block_world :: world where
  "demo_block_world = demo_world\<lparr>w_tasks := demo_rows [(1, InProgress), (2, Todo)],
     w_relations := [demo_edge 100 1 2 Blocks], w_documents := [demo_document 4 (Some 1)]\<rparr>"

lemma demo_block_transition:
  "status_transition_events demo_block_world (demo_task 1 InProgress) Done actor_user 9 [demo_edge 100 1 2 Blocks] =
     (Inr [TaskEv (TaskStatusChanged 1 InProgress Done), TaskEv (TaskClosed 1 actor_user 9),
           RelationEv (TaskUnblocked 2 1 9), RelationEv (TaskRelationKindChanged 100 1 2 Blocks WasBlocking 9),
           DocumentEv (DocumentStatusChanged 4 DocActive DocFrozen 9)],
      [demo_edge 100 1 2 WasBlocking])"
  by (simp add: status_transition_events_def Let_def closure_events_def unblocked_events_def list_active_blockers_def
      list_blockers_def list_blocks_targets_def list_downstream_to_unblock_def others_done_def task_get_def tasks_of_def
      close_task_documents_def list_live_by_task_def by_creation_def is_live_def relation_update_kind_def row_modify_def
      same_triple_def demo_block_world_def demo_document_def into_document_def demo_readiness_simps)

theorem done_transition_releases_witness:
  "blocks_edges [demo_edge 100 1 2 WasBlocking] =
     {(a, b). (a, b) \<in> blocks_edges [demo_edge 100 1 2 Blocks] \<and> a \<noteq> t_id (demo_task 1 InProgress)}"
  using done_transition_releases [OF _ _ demo_block_transition]
  by (simp add: relation_table_ok_def demo_simps)

theorem terminal_transition_closes_documents_witness:
  "list_live_by_task (w_documents demo_block_world) 1 = [demo_document 4 (Some 1)] \<and>
   list_live_by_task (fold document_apply_event
     [TaskEv (TaskStatusChanged 1 InProgress Done), TaskEv (TaskClosed 1 actor_user 9),
      RelationEv (TaskUnblocked 2 1 9), RelationEv (TaskRelationKindChanged 100 1 2 Blocks WasBlocking 9),
      DocumentEv (DocumentStatusChanged 4 DocActive DocFrozen 9)] (w_documents demo_block_world)) 1 = []"
proof -
  have "keys_distinct doc_id (w_documents demo_block_world)" by (simp add: demo_block_world_def keys_distinct_def)
  moreover have "t_status (demo_task 1 InProgress) \<noteq> Done" "t_id (demo_task 1 InProgress) = 1" by (simp_all add: demo_simps)
  moreover have "list_live_by_task (w_documents demo_block_world) 1 = [demo_document 4 (Some 1)]"
    by (simp add: list_live_by_task_def by_creation_def is_live_def demo_block_world_def demo_document_def into_document_def)
  ultimately show ?thesis using terminal_transition_closes_documents [OF _ _ _ demo_block_transition] by simp
qed

lemma resolve_outgoing_twin:
  assumes "q \<in> set rels" and "rel_kind q = WasBlocking" and "rel_id q \<notin> rel_id ` set rs" and "r \<in> set rs"
    and "row_get rel_id rels (rel_id r) = Some x" and "rel_from x = rel_from q" and "rel_to x = rel_to q"
  shows "\<exists>rels'. resolve_outgoing now rs rels = (Inl (Storage ''UNIQUE constraint failed''), rels')"
  using assms
proof (induction rs arbitrary: rels x)
  case (Cons r0 rs)
  show ?case
  proof (cases "relation_update_kind (rel_id r0) WasBlocking rels")
    case (Inl e)
    then have "e = Storage ''UNIQUE constraint failed''"
      by (auto simp: relation_update_kind_def split: option.splits if_splits)
    then show ?thesis using Inl by simp
  next
    case (Inr p)
    obtain b mid where p: "p = (b, mid)" by (cases p)
    have up: "relation_update_kind (rel_id r0) WasBlocking rels = Inr (b, mid)" using Inr p by simp
    note mid = relation_update_kind_Inr [OF up]
    have ne: "rel_id r \<noteq> rel_id r0"
    proof
      assume "rel_id r = rel_id r0"
      then have "list_ex (\<lambda>y. rel_id y \<noteq> rel_id r0 \<and> same_triple y (x\<lparr>rel_kind := WasBlocking\<rparr>)) rels"
        using Cons.prems by (auto simp: list_ex_iff same_triple_def)
      then show False using up Cons.prems(5) \<open>rel_id r = rel_id r0\<close> by (simp add: relation_update_kind_def)
    qed
    have "q \<in> set mid" using Cons.prems(1,3) by (auto simp: mid)
    moreover have "row_get rel_id mid (rel_id r) = Some x"
    proof -
      have "mid = row_modify rel_id (rel_id r0) (\<lambda>y. y\<lparr>rel_kind := WasBlocking\<rparr>) rels" by (simp add: mid row_modify_def)
      then show ?thesis using ne Cons.prems(5) by (simp add: row_get_modify)
    qed
    moreover have "r \<in> set rs" "rel_id q \<notin> rel_id ` set rs" using Cons.prems(3,4) ne by auto
    ultimately obtain rels' where "resolve_outgoing now rs mid = (Inl (Storage ''UNIQUE constraint failed''), rels')"
      using Cons.IH [of mid x] Cons.prems(2,6,7) by blast
    then show ?thesis by (simp add: up)
  qed
qed simp

text \<open>
  A task that was linked again after a reopening cannot be finished. If the table holds a resolved
  edge (\<^verbatim>\<open>WasBlocking\<close>) and a new active edge between the same two tasks, the transition of the blocker to
  done fails with a storage error: turning the active edge into \<^verbatim>\<open>WasBlocking\<close> breaks the unique index on
  the triple.
\<close>

theorem relinked_blocker_cannot_finish:
  assumes ok: "relation_table_ok rels" and r: "r \<in> set rels" "rel_kind r = Blocks" "rel_from r = t_id task"
    and q: "q \<in> set rels" "rel_kind q = WasBlocking" "rel_from q = rel_from r" "rel_to q = rel_to r"
    and free: "t_status task \<noteq> Done" "list_active_blockers rels (tasks_of (w_tasks w)) (t_id task) = []"
  shows "\<exists>rels'. status_transition_events w task Done actor now rels = (Inl (Storage ''UNIQUE constraint failed''), rels')"
proof -
  have dist: "keys_distinct rel_id rels" using ok by (simp add: relation_table_ok_def keys_distinct_def)
  let ?out = "list_blocks_targets rels (t_id task)"
  have "rel_id q \<noteq> rel_id y" if "y \<in> set ?out" for y
    using row_get_mem [OF dist, of y] row_get_mem [OF dist q(1)] that q(2) by (auto simp: list_blocks_targets_def)
  then have "rel_id q \<notin> rel_id ` set ?out" by blast
  moreover have "r \<in> set ?out" using r by (simp add: list_blocks_targets_def)
  ultimately obtain rels' where "resolve_outgoing now ?out rels = (Inl (Storage ''UNIQUE constraint failed''), rels')"
    using resolve_outgoing_twin [OF q(1,2), of ?out r r] row_get_mem [OF dist r(1)] q(3,4) by metis
  then show ?thesis using free by (simp add: status_transition_events_def Let_def)
qed

theorem relinked_blocker_cannot_finish_witness:
  "\<exists>rels'. status_transition_events demo_block_world (demo_task 1 InProgress) Done actor_user 9
     [demo_edge 100 1 2 WasBlocking, demo_edge 101 1 2 Blocks] = (Inl (Storage ''UNIQUE constraint failed''), rels')"
  by (rule relinked_blocker_cannot_finish [where r = "demo_edge 101 1 2 Blocks" and q = "demo_edge 100 1 2 WasBlocking"])
    (simp_all add: relation_table_ok_def list_active_blockers_def list_blockers_def demo_simps)

end
