(* ===== verification/Handler_Tasks.thy ===== *)
theory Handler_Tasks
  imports Handler_Status
begin

text \<open>
  The task and relation commands of \<^verbatim>\<open>CommandHandler::build_events\<close> (\<^verbatim>\<open>crates/core/src/handler.rs\<close>), one
  definition per arm of the match. Each arm validates, reads the projections and returns the events of
  the command together with the relation table, which some arms write directly.

  A \<open>handler_ctx\<close> holds what the arm reads besides the world: the clock, the acting principal, the ids
  that \<^verbatim>\<open>TaskId::new()\<close> and its kin draw (\<open>hx_fresh k\<close> is the \<open>k\<close>-th), and the plan-only-intake switch.
  One clock reading serves the whole arm.
\<close>

record handler_ctx =
  hx_now :: timestamp
  hx_actor :: actor
  hx_fresh :: "nat \<Rightarrow> uuid"
  hx_plan_only_intake :: bool

subsection \<open>Helpers\<close>

definition normalize_external_key :: "new_task \<Rightarrow> new_task" where
  "normalize_external_key task = task
     \<lparr>nt_external_key := (case map_option trim (nt_external_key task) of
        Some key \<Rightarrow> if key \<noteq> [] then Some key else None | None \<Rightarrow> None)\<rparr>"

definition redelivered_create_comment_body :: "string \<Rightarrow> new_task \<Rightarrow> string" where
  "redelivered_create_comment_body external_key task =
     ''Re-delivered create for external_key `'' @ external_key @
     ''` (existing task kept; context recorded here instead of duplicating).'' @ [CHR 0x0A] @ ''Title: '' @ nt_title task @
     (case map_option trim (nt_description task) of
        Some desc \<Rightarrow> if desc \<noteq> [] then [CHR 0x0A] @ ''Description: '' @ desc else []
      | None \<Rightarrow> [])"

definition task_comment_events :: "handler_ctx \<Rightarrow> nat \<Rightarrow> uuid \<Rightarrow> string \<Rightarrow> comment_kind option \<Rightarrow> event list" where
  "task_comment_events x k task_id body kind =
     (let comment = comment_from_new (hx_fresh x k)
            \<lparr>nc_id = None, nc_task_id = task_id, nc_body = body, nc_parent_id = None, nc_kind = kind\<rparr>
            (hx_actor x) (hx_now x)
      in [TaskEv (CommentAdded comment), TaskEv (TaskCommented task_id (cm_id comment) (hx_actor x) (take_chars 80 body))])"

definition redelivered_create_events :: "handler_ctx \<Rightarrow> nat \<Rightarrow> uuid \<Rightarrow> string \<Rightarrow> new_task \<Rightarrow> event list" where
  "redelivered_create_events x k task_id external_key task =
     task_comment_events x k task_id (redelivered_create_comment_body external_key task) (Some Research)"

definition BULK_OP_CAP :: nat where
  "BULK_OP_CAP = 50"

definition validate_bulk_cap :: "nat \<Rightarrow> unit result" where
  "validate_bulk_cap n =
     (if n = 0 then Inl (Validation ''bulk op requires at least 1 id'')
      else if n > BULK_OP_CAP then Inl (Validation ''bulk size '')
      else Inr ())"

fun dedupe_loop :: "uuid list \<Rightarrow> uuid list \<Rightarrow> uuid list" where
  "dedupe_loop seen [] = []"
| "dedupe_loop seen (i # is) =
     (if i \<in> set seen then dedupe_loop seen is else i # dedupe_loop (i # seen) is)"

definition dedupe_ids :: "uuid list \<Rightarrow> uuid list" where
  "dedupe_ids is = dedupe_loop [] is"

definition get_task :: "world \<Rightarrow> uuid \<Rightarrow> task result" where
  "get_task w i = ok_or (NotFound ''task '') (task_repo_get (w_tasks w) i)"

definition get_plan :: "world \<Rightarrow> uuid \<Rightarrow> plan result" where
  "get_plan w i = ok_or (NotFound ''plan '') (plan_get (w_plans w) i)"

definition next_position :: "world \<Rightarrow> uuid \<Rightarrow> 32 word" where
  "next_position w plan_id =
     (case list_tasks_ordered (w_plans w) plan_id of [] \<Rightarrow> 0 | ms \<Rightarrow> pt_position (last ms) + 1)"

definition active_run_for_plan :: "world \<Rightarrow> uuid \<Rightarrow> uuid option" where
  "active_run_for_plan w plan_id =
     (case list_active_for_plan (w_runs w) plan_id of [] \<Rightarrow> None | r # _ \<Rightarrow> Some (r_id r))"

subsection \<open>CreateTask, UpdateTask\<close>

definition build_create_task :: "handler_ctx \<Rightarrow> world \<Rightarrow> new_task \<Rightarrow> event list result" where
  "build_create_task x w task =
     (if hx_plan_only_intake x
      then Inl (Validation ''plan_only_intake: direct task creation is disabled (ADR-0007); materialise a plan instead (MaterializePlan / daruma_plan materialisation)'')
      else let title = trim (nt_title task) in
        if title = [] then Inl (Validation ''task title must not be empty'')
        else if length title > 500 then Inl (Validation ''task title must not exceed 500 characters'')
        else let task = normalize_external_key (task\<lparr>nt_title := title\<rparr>) in
          case Option.bind (nt_external_key task) (\<lambda>key. map_option (Pair key) (find_by_external_key (w_tasks w) key)) of
            Some (key, existing) \<Rightarrow> Inr (redelivered_create_events x 0 (t_id existing) key task)
          | None \<Rightarrow>
              let task = task\<lparr>nt_id := Some (unwrap_or (hx_fresh x 0) (nt_id task))\<rparr> in
              bind_result (check_task_quota (w_tenants w) (rg_projects (w_registry w)) (w_tasks w) (nt_project_id task)) (\<lambda>_. Inr [TaskEv (TaskCreated task)]))"

definition build_update_task :: "handler_ctx \<Rightarrow> world \<Rightarrow> uuid \<Rightarrow> task_patch \<Rightarrow> event list result" where
  "build_update_task x w i patch =
     (if patch_is_empty patch then Inl (Validation ''update patch must not be empty'')
      else if hx_plan_only_intake x \<and> plan_owned_patch_fields patch \<noteq> []
      then Inl (Validation ''plan_owned_immutable: field(s) '')
      else bind_result
        (case tp_git_context patch of
           Some (Some g) \<Rightarrow>
             (case git_normalized g of
                Inl m \<Rightarrow> Inl (Validation m)
              | Inr g' \<Rightarrow> Inr (patch\<lparr>tp_git_context := Some (Some g')\<rparr>))
         | _ \<Rightarrow> Inr patch)
        (\<lambda>patch.
          if tp_pipeline_position patch \<noteq> None
          then Inl (Validation ''pipeline_position is set only by advance_pipeline (ADR-0011)'')
          else bind_result (get_task w i) (\<lambda>task.
            bind_result
              (case tp_status patch of
                 Some st \<Rightarrow> if st \<noteq> t_status task then ensure_direct_status_write w i st else Inr ()
               | None \<Rightarrow> Inr ())
              (\<lambda>_. Inr [TaskEv (TaskUpdated i patch)]))))"

subsection \<open>CompleteTask, DeleteTask\<close>

definition build_complete_task ::
  "handler_ctx \<Rightarrow> world \<Rightarrow> uuid \<Rightarrow> completion_note option \<Rightarrow> relation_table \<Rightarrow> event list built" where
  "build_complete_task x w i note_in rels =
     (case bind_result (get_task w i) (\<lambda>task.
             if t_status task = Done then Inl (Conflict ''task already done'')
             else bind_result (ensure_direct_status_write w i Done) (\<lambda>_.
               if list_active_blockers rels (tasks_of (w_tasks w)) i \<noteq> []
               then Inl (Conflict ''task_blocked: blocked by '') else Inr task)) of
        Inl e \<Rightarrow> (Inl e, rels)
      | Inr task \<Rightarrow>
          let now = hx_now x;
              completion = map_option (\<lambda>n. n\<lparr>cn_actor := Some (actor_ref_from_actor (hx_actor x))\<rparr>) note_in;
              head = [TaskEv (TaskStatusChanged i (t_status task) Done), TaskEv (TaskCompleted i now completion),
                      TaskEv (TaskClosed i (hx_actor x) now)]
          in bind_built (resolve_outgoing now (list_blocks_targets rels i) rels) (\<lambda>evs rels'.
               (Inr (head @ unblocked_events rels (tasks_of (w_tasks w)) i now @ evs @
                     close_task_documents (w_documents w) i Done now), rels')))"

fun delete_relations :: "timestamp \<Rightarrow> relation list \<Rightarrow> relation_table \<Rightarrow> event list \<times> relation_table" where
  "delete_relations now [] rels = ([], rels)"
| "delete_relations now (r # rs) rels =
     (let (evs, rels') = delete_relations now rs (snd (relation_delete (rel_id r) rels))
      in (RelationEv (TaskUnlinked (rel_id r) (rel_from r) (rel_to r) (rel_kind r) now) # evs, rels'))"

definition build_delete_task :: "handler_ctx \<Rightarrow> world \<Rightarrow> uuid \<Rightarrow> relation_table \<Rightarrow> event list built" where
  "build_delete_task x w i rels =
     (case get_task w i of
        Inl e \<Rightarrow> (Inl e, rels)
      | Inr _ \<Rightarrow>
          if list_live_by_task (w_documents w) i \<noteq> []
          then (Inl (Validation ''cannot delete a task anchoring live documents; archive or reanchor them first''), rels)
          else let now = hx_now x;
                   (unlinked, rels') = delete_relations now (list_by_task rels i) rels
               in (Inr (unlinked @ unblocked_events rels (tasks_of (w_tasks w)) i now @
                        map (\<lambda>p. PlanEv (PlanTaskRemoved (pl_id p) i)) (list_plans_for_task (w_plans w) i) @
                        [TaskEv (TaskDeleted i)]), rels'))"

subsection \<open>SetStatus and the bulk commands\<close>

definition validate_note :: "transition_comment \<Rightarrow> (string \<times> comment_kind option) result" where
  "validate_note c =
     (let body = trim (tc_body c) in
      if body = [] then Inl (Validation ''transition comment body must not be empty'')
      else if length body > TRANSITION_MAX_BODY_BYTES then Inl (Validation ''transition comment body must not exceed '')
      else Inr (body, tc_kind c))"

definition build_set_status ::
  "handler_ctx \<Rightarrow> world \<Rightarrow> uuid \<Rightarrow> status \<Rightarrow> transition_comment option \<Rightarrow> relation_table \<Rightarrow> event list built" where
  "build_set_status x w i st comment rels =
     (case bind_result (get_task w i) (\<lambda>task.
             case comment of
               None \<Rightarrow> Inr (task, None)
             | Some c \<Rightarrow> bind_result (validate_note c) (\<lambda>n. Inr (task, Some n))) of
        Inl e \<Rightarrow> (Inl e, rels)
      | Inr (task, note_out) \<Rightarrow>
          bind_built (emit_status_transition_events w task st (hx_actor x) (hx_now x) rels) (\<lambda>evs rels'.
            (Inr (case note_out of
                Some (body, kind) \<Rightarrow> if evs = [] then evs else evs @ task_comment_events x 0 i body kind
              | None \<Rightarrow> evs), rels')))"

fun bulk_transition :: "handler_ctx \<Rightarrow> world \<Rightarrow> status \<Rightarrow> task list \<Rightarrow> relation_table \<Rightarrow> event list built" where
  "bulk_transition x w st [] rels = (Inr [], rels)"
| "bulk_transition x w st (t # ts) rels =
     bind_built (emit_status_transition_events w t st (hx_actor x) (hx_now x) rels) (\<lambda>evs rels'.
       bind_built (bulk_transition x w st ts rels') (\<lambda>evs' rels''. (Inr (evs @ evs'), rels'')))"

definition build_bulk_set_status :: "handler_ctx \<Rightarrow> world \<Rightarrow> uuid list \<Rightarrow> status \<Rightarrow> relation_table \<Rightarrow> event list built" where
  "build_bulk_set_status x w ids st rels =
     (let unique = dedupe_ids ids in
      case validate_bulk_cap (length unique) of
        Inl e \<Rightarrow> (Inl e, rels)
      | Inr _ \<Rightarrow>
          if list_ex (\<lambda>i. task_repo_get (w_tasks w) i = None) unique
          then (Inl (NotFound ''bulk_set_status: ''), rels)
          else bulk_transition x w st (List.map_filter (task_repo_get (w_tasks w)) unique) rels)"

fun attach_events :: "uuid \<Rightarrow> 32 word \<Rightarrow> uuid list \<Rightarrow> event list" where
  "attach_events plan_id pos [] = []"
| "attach_events plan_id pos (i # is) = PlanEv (PlanTaskAdded plan_id i pos []) # attach_events plan_id (pos + 1) is"

definition build_bulk_attach :: "handler_ctx \<Rightarrow> world \<Rightarrow> uuid \<Rightarrow> uuid list \<Rightarrow> event list result" where
  "build_bulk_attach x w plan_id task_ids =
     (let unique = dedupe_ids task_ids in
      bind_result (validate_bulk_cap (length unique)) (\<lambda>_.
      bind_result (get_plan w plan_id) (\<lambda>_.
        if list_ex (\<lambda>i. task_repo_get (w_tasks w) i = None) unique
        then Inl (NotFound ''bulk_attach_to_plan: '')
        else let already = map pt_task_id (list_tasks_ordered (w_plans w) plan_id);
                 added = attach_events plan_id (next_position w plan_id) (filter (\<lambda>i. i \<notin> set already) unique)
             in Inr (added @ (if added \<noteq> [] then [SignalEv (PlanModifiedByHuman plan_id (active_run_for_plan w plan_id))]
                             else [])))))"

subsection \<open>Pipelines, priority, split\<close>

definition build_advance_pipeline ::
  "handler_ctx \<Rightarrow> world \<Rightarrow> uuid \<Rightarrow> pipeline_position \<Rightarrow> relation_table \<Rightarrow> event list built" where
  "build_advance_pipeline x w i position rels =
     (case bind_result (validate_pipeline_target position) (\<lambda>_. pipeline_task w i) of
        Inl e \<Rightarrow> (Inl e, rels)
      | Inr task \<Rightarrow>
          let current = repo_pipeline_position (w_tasks w) i in
          if current = Some position then (Inr [], rels)
          else case Option.bind current fan_in_blocks of
                 Some m \<Rightarrow> (Inl (Conflict m), rels)
               | None \<Rightarrow> advance_pipeline_events w task position (hx_actor x) (hx_now x) rels)"

definition close_stage_position ::
  "world \<Rightarrow> uuid \<Rightarrow> nat \<Rightarrow> string \<Rightarrow> pipeline_position option \<Rightarrow> (task \<times> fan_in \<times> pipeline_position) result" where
  "close_stage_position w i stage_index inst and_then =
     bind_result (pipeline_task w i) (\<lambda>task.
     bind_result (ok_or (Conflict ''pipeline_unmanaged: task '') (repo_pipeline_position (w_tasks w) i)) (\<lambda>position.
       if pp_stage_index position \<noteq> stage_index \<and> \<not> pp_complete position
       then Inl (Conflict ''stale_stage: task '')
       else bind_result (case and_then of Some q \<Rightarrow> validate_pipeline_target q | None \<Rightarrow> Inr ()) (\<lambda>_.
         case close_instance position inst of
           Inl m \<Rightarrow> Inl (Conflict m)
         | Inr (fan, position') \<Rightarrow> Inr (task, fan, position'))))"

definition build_close_stage ::
  "handler_ctx \<Rightarrow> world \<Rightarrow> uuid \<Rightarrow> nat \<Rightarrow> string \<Rightarrow> pipeline_position option \<Rightarrow> relation_table \<Rightarrow> event list built" where
  "build_close_stage x w i stage_index inst and_then rels =
     (case close_stage_position w i stage_index inst and_then of
        Inl e \<Rightarrow> (Inl e, rels)
      | Inr (task, fan, position) \<Rightarrow>
          if fan = Repeat then (Inr [], rels)
          else let head = TaskEv (TaskUpdated i (position_patch position)) in
            case (fan, and_then) of
              (Closed, Some q) \<Rightarrow>
                bind_built (advance_pipeline_events w task q (hx_actor x) (hx_now x) rels) (\<lambda>evs rels'.
                  (Inr (head # evs), rels'))
            | _ \<Rightarrow> (Inr [head], rels))"

definition build_set_priority :: "world \<Rightarrow> uuid \<Rightarrow> priority \<Rightarrow> event list result" where
  "build_set_priority w i p =
     bind_result (get_task w i) (\<lambda>task.
       Inr (if t_priority task = p then [] else [TaskEv (TaskPriorityChanged i (t_priority task) p)]))"

fun prepare_subtasks :: "handler_ctx \<Rightarrow> uuid option \<Rightarrow> nat \<Rightarrow> new_task list \<Rightarrow> new_task list" where
  "prepare_subtasks x project k [] = []"
| "prepare_subtasks x project k (st # sts) =
     st\<lparr>nt_id := Some (unwrap_or (hx_fresh x k) (nt_id st)), nt_project_id := or_opt (nt_project_id st) project\<rparr> #
     prepare_subtasks x project (Suc k) sts"

definition split_amend :: "world \<Rightarrow> new_task list \<Rightarrow> uuid \<Rightarrow> event list" where
  "split_amend w prepared plan_id =
     map (\<lambda>(offset, st). PlanEv (PlanTaskAdded plan_id (unwrap_or 0 (nt_id st)) (next_position w plan_id + of_nat offset) []))
       (enumerate 0 prepared) @
     [SignalEv (PlanModifiedByHuman plan_id (active_run_for_plan w plan_id))]"

definition build_split_task :: "handler_ctx \<Rightarrow> world \<Rightarrow> uuid \<Rightarrow> new_task list \<Rightarrow> event list result" where
  "build_split_task x w parent subtasks =
     (if length subtasks < 2 then Inl (Validation ''split requires at least 2 subtasks'')
      else bind_result (get_task w parent) (\<lambda>parent_task.
        let prepared = prepare_subtasks x (t_project_id parent_task) 0 subtasks;
            evs = TaskEv (TaskSplitGenerated parent prepared) # map (\<lambda>st. TaskEv (TaskCreated st)) prepared
        in if \<not> hx_plan_only_intake x then Inr evs
           else let parent_plans = map pl_id (list_plans_for_task (w_plans w) parent) in
             if parent_plans = [] then Inl (Validation ''split_requires_plan: parent task '')
             else Inr (evs @ concat (map (split_amend w prepared) parent_plans))))"

subsection \<open>LinkTasks, UnlinkTasks\<close>

definition build_link_tasks ::
  "handler_ctx \<Rightarrow> uuid \<Rightarrow> uuid \<Rightarrow> relation_kind \<Rightarrow> relation_table \<Rightarrow> event list built" where
  "build_link_tasks x src to kind rels =
     (case detect_cycle rels src to kind of
        Inl e \<Rightarrow> (Inl e, rels)
      | Inr _ \<Rightarrow>
          let r = \<lparr>rel_id = hx_fresh x 0, rel_from = src, rel_to = to, rel_kind = kind,
                   rel_created_at = hx_now x, rel_created_by = hx_actor x\<rparr>
          in case relation_insert r rels of
               Inl e \<Rightarrow> (Inl e, rels)
             | Inr rels' \<Rightarrow> (Inr [RelationEv (TaskLinked (rel_id r) src to kind (hx_actor x) (hx_now x))], rels'))"

definition build_unlink_tasks :: "handler_ctx \<Rightarrow> world \<Rightarrow> uuid \<Rightarrow> relation_table \<Rightarrow> event list built" where
  "build_unlink_tasks x w i rels =
     (case relation_get rels i of
        None \<Rightarrow> (Inl (NotFound ''relation ''), rels)
      | Some r \<Rightarrow>
          let unblocked = rel_kind r = Blocks \<and>
                rel_to r \<in> set (list_downstream_to_unblock rels (tasks_of (w_tasks w)) (rel_from r))
          in (Inr (RelationEv (TaskUnlinked i (rel_from r) (rel_to r) (rel_kind r) (hx_now x)) #
                   (if unblocked then [RelationEv (TaskUnblocked (rel_to r) (rel_from r) (hx_now x))] else [])),
              snd (relation_delete i rels)))"

subsection \<open>Helper lemmas\<close>

lemma dedupe_loop_spec:
  "distinct (dedupe_loop seen is) \<and> set (dedupe_loop seen is) = set is - set seen"
  by (induction "is" arbitrary: seen) auto

lemma dedupe_ids_spec: "distinct (dedupe_ids is) \<and> set (dedupe_ids is) = set is"
  using dedupe_loop_spec [of "[]" "is"] by (simp add: dedupe_ids_def)

lemma attach_events_tasks:
  "e \<in> set (attach_events p pos is) \<Longrightarrow> \<exists>i \<in> set is. \<exists>q. e = PlanEv (PlanTaskAdded p i q [])"
  by (induction "is" arbitrary: pos) auto

subsection \<open>The fan-in barrier over a sequence of reports\<close>

fun run_reports :: "pipeline_position \<Rightarrow> string list \<Rightarrow> (string + fan_in) list \<times> pipeline_position" where
  "run_reports p [] = ([], p)"
| "run_reports p (i # is) =
     (case close_instance p i of
        Inl m \<Rightarrow> (let (rs, p') = run_reports p is in (Inl m # rs, p'))
      | Inr (f, q) \<Rightarrow> (let (rs, p') = run_reports q is in (Inr f # rs, p')))"

definition valid_instances :: "string list \<Rightarrow> string set" where
  "valid_instances is = {trim i | i. i \<in> set is \<and> trim i \<noteq> [] \<and> length (trim i) \<le> 128}"

lemma valid_instances_Cons:
  "valid_instances (i # is) = (if trim i \<noteq> [] \<and> length (trim i) \<le> 128 then {trim i} else {}) \<union> valid_instances is"
  by (auto simp: valid_instances_def)

lemma valid_instances_finite [simp]: "finite (valid_instances is)"
  by (rule finite_subset [of _ "trim ` set is"]) (auto simp: valid_instances_def)

definition closings :: "(string + fan_in) list \<Rightarrow> nat" where
  "closings rs = length (filter (\<lambda>r. r = Inr Closed) rs)"

lemma closings_simps [simp]:
  "closings [] = 0"
  "closings (r # rs) = (if r = Inr Closed then 1 else 0) + closings rs"
  by (simp_all add: closings_def)

lemma closed_stage_never_closes:
  "fan_in_closed p \<Longrightarrow> closings (fst (run_reports p is)) = 0 \<and> snd (run_reports p is) = p"
proof (induction "is" arbitrary: p)
  case (Cons i "is")
  show ?case
  proof (cases "close_instance p i")
    case (Inl m)
    then show ?thesis using Cons by (simp add: split_beta)
  next
    case (Inr fq)
    obtain f q where fq: "fq = (f, q)" by (cases fq)
    have "f = Repeat \<and> q = p" using close_instance_Inr [of p i f q] Inr fq Cons.prems by auto
    then show ?thesis using Cons Inr fq by (simp add: split_beta)
  qed
qed simp

lemma fan_in_count:
  assumes "\<not> pp_complete p" and "distinct (pp_closed p)" and "length (pp_closed p) < pp_fanout p"
  shows "closings (fst (run_reports p is)) =
    (if card (set (pp_closed p) \<union> valid_instances is) \<ge> pp_fanout p then 1 else 0)"
  using assms
proof (induction "is" arbitrary: p)
  case Nil
  then show ?case by (simp add: valid_instances_def distinct_card)
next
  case (Cons i "is")
  let ?valid = "trim i \<noteq> [] \<and> length (trim i) \<le> 128"
  consider (bad) "\<not> ?valid" | (again) "?valid" "trim i \<in> set (pp_closed p)" | (fresh) "?valid" "trim i \<notin> set (pp_closed p)"
    by blast
  then show ?case
  proof cases
    case bad
    then have "close_instance p i = Inl ''instance must be 1..=128 bytes''" by (auto simp: close_instance_def Let_def)
    then show ?thesis using Cons bad by (auto simp: split_beta valid_instances_Cons)
  next
    case again
    then have "close_instance p i = Inr (Repeat, p)" using Cons.prems by (auto simp: close_instance_def Let_def)
    moreover have "set (pp_closed p) \<union> valid_instances (i # is) = set (pp_closed p) \<union> valid_instances is"
      using again by (auto simp: valid_instances_Cons)
    ultimately show ?thesis using Cons by (simp add: split_beta)
  next
    case fresh
    let ?q = "p\<lparr>pp_closed := pp_closed p @ [trim i]\<rparr>"
    have sets: "set (pp_closed p) \<union> valid_instances (i # is) = set (pp_closed ?q) \<union> valid_instances is"
      using fresh by (auto simp: valid_instances_Cons)
    show ?thesis
    proof (cases "fan_in_closed ?q")
      case True
      then have step: "close_instance p i = Inr (Closed, ?q)"
        using fresh Cons.prems by (simp add: close_instance_def Let_def fan_in_closed_def)
      have "pp_fanout p \<le> card (set (pp_closed ?q))"
        using True fresh Cons.prems(2) distinct_card [of "pp_closed p"] by (simp add: fan_in_closed_def)
      also have "\<dots> \<le> card (set (pp_closed ?q) \<union> valid_instances is)" by (intro card_mono) auto
      finally have "pp_fanout p \<le> card (set (pp_closed p) \<union> valid_instances (i # is))" unfolding sets .
      then show ?thesis using closed_stage_never_closes [OF True, of "is"] by (simp add: step split_beta)
    next
      case False
      then have step: "close_instance p i = Inr (FanPending (length (pp_closed ?q)) (pp_fanout ?q), ?q)"
        using fresh Cons.prems by (simp add: close_instance_def Let_def fan_in_closed_def)
      have "closings (fst (run_reports ?q is)) =
          (if card (set (pp_closed ?q) \<union> valid_instances is) \<ge> pp_fanout ?q then 1 else 0)"
        by (rule Cons.IH) (use False fresh Cons.prems in \<open>simp_all add: fan_in_closed_def\<close>)
      then show ?thesis unfolding sets by (simp add: step split_beta)
    qed
  qed
qed

subsection \<open>Properties\<close>

text \<open>
  C26: a parallel stage closes exactly once. However many reports arrive, in whatever order, repeated or
  malformed, the barrier of an open stage is closed by at most one of them; and one of them closes it
  exactly when the distinct valid instances that reported reach the stage's fan-out.
\<close>

theorem fan_in_closes_once:
  assumes "\<not> pp_complete p" and "pp_closed p = []" and "0 < pp_fanout p"
  shows "closings (fst (run_reports p reports)) =
    (if card (valid_instances reports) \<ge> pp_fanout p then 1 else 0)"
  using fan_in_count [of p reports] assms by simp

definition demo_position :: "nat \<Rightarrow> pipeline_position" where
  "demo_position n = (position_at 1 ''coder'')\<lparr>pp_fanout := n\<rparr>"

theorem fan_in_closes_once_witness:
  "closings (fst (run_reports (demo_position 2) [''a'', ''a '', ''b'', ''c''])) = 1"
proof -
  have "valid_instances [''a'', ''a '', ''b'', ''c''] = {''a'', ''b'', ''c''}"
    by (auto simp: valid_instances_Cons trim_def is_space_def) (simp_all add: valid_instances_def)
  then have "card (valid_instances [''a'', ''a '', ''b'', ''c'']) \<ge> 2" by simp
  then show ?thesis
    using fan_in_closes_once [of "demo_position 2" "[''a'', ''a '', ''b'', ''c'']"]
    by (simp add: demo_position_def position_at_def)
qed

text \<open>
  A task patch can finish a blocked task. \<^verbatim>\<open>UpdateTask\<close> with a status in the patch is accepted without
  the blocker check of \<^verbatim>\<open>SetStatus\<close>, and since its batch holds no status event, the lifecycle gate has
  nothing to check and the plans of the task are not reconciled.
\<close>

theorem update_task_skips_transition_checks:
  assumes task: "task_repo_get (w_tasks w) i = Some task" and unmanaged: "repo_pipeline_position (w_tasks w) i = None"
    and patch: "patch = empty_patch\<lparr>tp_status := Some Done\<rparr>"
    and blocked: "t_status task \<noteq> Done" "t_id task = i" "list_active_blockers rels (tasks_of (w_tasks w)) i \<noteq> []"
  shows "build_update_task x w i patch = Inr [TaskEv (TaskUpdated i patch)] \<and>
    derive_gate_checks [TaskEv (TaskUpdated i patch)] = [] \<and>
    append_plan_reconciliations w [TaskEv (TaskUpdated i patch)] = [TaskEv (TaskUpdated i patch)] \<and>
    build_set_status x w i Done None rels = (Inl (Conflict ''task_blocked: task ''), rels)"
proof (intro conjI)
  show "build_update_task x w i patch = Inr [TaskEv (TaskUpdated i patch)]"
    using task unmanaged
    by (simp add: patch build_update_task_def patch_is_empty_def empty_patch_def plan_owned_patch_fields_def get_task_def
        ensure_direct_status_write_def direct_status_write_allowed_def)
  show "derive_gate_checks [TaskEv (TaskUpdated i patch)] = []"
    by (simp add: derive_gate_checks_def derive_checks_def derive_check_def)
  show "append_plan_reconciliations w [TaskEv (TaskUpdated i patch)] = [TaskEv (TaskUpdated i patch)]"
    by (simp add: append_plan_reconciliations_def batch_candidates_def candidate_plans_def reconcile_Nil)
  show "build_set_status x w i Done None rels = (Inl (Conflict ''task_blocked: task ''), rels)"
    using task unmanaged blocked
    by (simp add: build_set_status_def get_task_def emit_status_transition_events_def ensure_direct_status_write_def
        direct_status_write_allowed_def status_transition_events_def Let_def)
qed

definition demo_ctx :: handler_ctx where
  "demo_ctx = \<lparr>hx_now = 9, hx_actor = actor_user, hx_fresh = (\<lambda>k. 1000 + k), hx_plan_only_intake = False\<rparr>"

theorem update_task_skips_transition_checks_witness:
  "build_update_task demo_ctx demo_block_world 2 (empty_patch\<lparr>tp_status := Some Done\<rparr>) =
     Inr [TaskEv (TaskUpdated 2 (empty_patch\<lparr>tp_status := Some Done\<rparr>))] \<and>
   build_set_status demo_ctx demo_block_world 2 Done None [demo_edge 100 1 2 Blocks] =
     (Inl (Conflict ''task_blocked: task ''), [demo_edge 100 1 2 Blocks])"
  using update_task_skips_transition_checks [of demo_block_world 2 "demo_task 2 Todo"
      "empty_patch\<lparr>tp_status := Some Done\<rparr>" "[demo_edge 100 1 2 Blocks]" demo_ctx]
  by (simp add: task_repo_get_def repo_pipeline_position_def list_active_blockers_def list_blockers_def task_get_def
      tasks_of_def demo_block_world_def demo_readiness_simps)

text \<open>
  The bulk status command is not atomic. A batch that fails on its second task is rejected as a
  whole, but the edges of the first task have already been resolved in the relation table: a task that
  waits on it is no longer blocked although the first task never finished.
\<close>

theorem bulk_set_status_not_atomic:
  "\<exists>x w ids rels e rels'. build_bulk_set_status x w ids Done rels = (Inl e, rels') \<and>
     (\<exists>t. list_active_blockers rels (tasks_of (w_tasks w)) t \<noteq> [] \<and>
          list_active_blockers rels' (tasks_of (w_tasks w)) t = [])"
proof -
  let ?w = "demo_block_world\<lparr>w_tasks := demo_rows [(1, InProgress), (2, Todo), (3, Todo), (4, Todo)], w_documents := []\<rparr>"
  let ?rels = "[demo_edge 100 1 2 Blocks, demo_edge 101 4 3 Blocks]"
  let ?rels' = "[demo_edge 100 1 2 WasBlocking, demo_edge 101 4 3 Blocks]"
  note eval = list_active_blockers_def list_blockers_def task_get_def tasks_of_def demo_block_world_def demo_readiness_simps
  have "build_bulk_set_status demo_ctx ?w [1, 3] Done ?rels = (Inl (Conflict ''task_blocked: task ''), ?rels')"
    by (simp add: build_bulk_set_status_def dedupe_ids_def Let_def validate_bulk_cap_def BULK_OP_CAP_def task_repo_get_def
        List.map_filter_simps emit_status_transition_events_def ensure_direct_status_write_def
        direct_status_write_allowed_def repo_pipeline_position_def status_transition_events_def list_blocks_targets_def
        relation_update_kind_def row_modify_def same_triple_def close_task_documents_def list_live_by_task_def
        by_creation_def eval)
  moreover have "list_active_blockers ?rels (tasks_of (w_tasks ?w)) 2 \<noteq> []" by (simp add: eval)
  moreover have "list_active_blockers ?rels' (tasks_of (w_tasks ?w)) 2 = []" by (simp add: eval)
  ultimately show ?thesis by blast
qed

text \<open>
  Creating a task is idempotent under its external key. A create that carries the key of an existing
  task (after trimming) records a comment on that task and creates nothing.
\<close>

theorem create_task_idempotent_by_key:
  assumes key: "nt_external_key task = Some raw" "trim raw \<noteq> []" and known: "find_by_external_key (w_tasks w) (trim raw) = Some t"
    and ok: "build_create_task x w task = Inr evs"
  shows "\<exists>c. evs = [TaskEv (CommentAdded c), TaskEv (TaskCommented (t_id t) (cm_id c) (hx_actor x) (take_chars 80 (cm_body c)))] \<and>
    cm_task_id c = t_id t"
  using ok key known
  by (auto simp: build_create_task_def Let_def normalize_external_key_def redelivered_create_events_def
      task_comment_events_def comment_from_new_def split: if_splits)

theorem create_task_idempotent_by_key_witness:
  "\<exists>evs. build_create_task demo_ctx (demo_world\<lparr>w_tasks := demo_rows [(1, Todo)]
       \<lparr>ts_rows := [(demo_row 1 Todo)\<lparr>tr_task := (demo_task 1 Todo)\<lparr>t_external_key := Some ''gh-7''\<rparr>\<rparr>]\<rparr>\<rparr>)
     (demo_new_task 2 (Some '' gh-7 '')) = Inr evs \<and>
     (\<exists>c. evs = [TaskEv (CommentAdded c), TaskEv (TaskCommented 1 (cm_id c) actor_user (take_chars 80 (cm_body c)))])"
proof -
  let ?t = "(demo_task 1 Todo)\<lparr>t_external_key := Some ''gh-7''\<rparr>"
  let ?w = "demo_world\<lparr>w_tasks := demo_rows [(1, Todo)]\<lparr>ts_rows := [(demo_row 1 Todo)\<lparr>tr_task := ?t\<rparr>]\<rparr>\<rparr>"
  let ?n = "demo_new_task 2 (Some '' gh-7 '')"
  have key: "nt_external_key ?n = Some '' gh-7 ''" "trim '' gh-7 '' = ''gh-7''"
    by (simp_all add: demo_new_task_def new_task_def trim_def is_space_def)
  have known: "find_by_external_key (w_tasks ?w) ''gh-7'' = Some ?t"
    by (simp add: find_by_external_key_def tasks_of_def)
  obtain evs where evs: "build_create_task demo_ctx ?w ?n = Inr evs"
    using key known by (auto simp: build_create_task_def Let_def demo_ctx_def normalize_external_key_def
        demo_new_task_def new_task_def trim_def is_space_def)
  have "t_id ?t = 1" "hx_actor demo_ctx = actor_user" by (simp_all add: demo_simps demo_ctx_def)
  then show ?thesis using create_task_idempotent_by_key [OF key(1) _ _ evs] key(2) known evs by auto
qed

end
