(* ===== verification/Handler_Plans.thy ===== *)
theory Handler_Plans
  imports Handler_Tasks Claims
begin

text \<open>
  The plan and run commands of \<^verbatim>\<open>CommandHandler::build_events\<close> (\<^verbatim>\<open>crates/core/src/handler.rs\<close>), one
  definition per arm, and \<^verbatim>\<open>AgentClaimRepo::record_plan_terminal\<close>, the transaction that ends the runs
  of a plan together with the plan. These arms only read the projections.
\<close>

subsection \<open>Plans\<close>

definition get_run :: "world \<Rightarrow> uuid \<Rightarrow> run result" where
  "get_run w i = ok_or (NotFound ''run '') (run_get (w_runs w) i)"

definition build_update_plan :: "world \<Rightarrow> uuid \<Rightarrow> plan_patch \<Rightarrow> event list result" where
  "build_update_plan w i patch =
     (if plan_patch_is_empty patch then Inl (Validation ''update patch must not be empty'')
      else bind_result (get_plan w i) (\<lambda>plan.
        bind_result
          (case pu_parent_plan_id patch of
             Some (Some new_parent) \<Rightarrow> detect_parent_cycle (w_plans w) i new_parent
           | _ \<Rightarrow> Inr ())
          (\<lambda>_. Inr
            ((case pu_goal patch of
                Some new_goal \<Rightarrow> if new_goal \<noteq> pl_goal plan then [PlanEv (PlanGoalChanged i (pl_goal plan) new_goal)] else []
              | None \<Rightarrow> []) @
             [PlanEv (PlanUpdated i patch)]))))"

definition build_amend_plan_task :: "world \<Rightarrow> uuid \<Rightarrow> uuid \<Rightarrow> task_patch \<Rightarrow> event list result" where
  "build_amend_plan_task w plan_id task_id patch =
     (if patch_is_empty patch then Inl (Validation ''amend patch must not be empty'')
      else if tp_status patch \<noteq> None \<or> tp_priority patch \<noteq> None \<or> tp_triage_state patch \<noteq> None \<or> tp_due_at patch \<noteq> None
      then Inl (Validation ''amend_patch_has_execution_fields: amend_plan_task patches only plan-owned fields (title/description/project_id). Execution-owned fields go through set_status / set_priority / update_task'')
      else if plan_owned_patch_fields patch = []
      then Inl (Validation ''amend patch must set at least one plan-owned field (title/description/project_id)'')
      else bind_result (get_plan w plan_id) (\<lambda>_.
           bind_result (get_task w task_id) (\<lambda>_.
             if task_id \<notin> set (map pt_task_id (list_tasks_ordered (w_plans w) plan_id))
             then Inl (Validation ''task_not_in_plan: task '')
             else Inr [PlanEv (PlanTaskAmended plan_id task_id patch), TaskEv (TaskUpdated task_id patch),
                       SignalEv (PlanModifiedByHuman plan_id (active_run_for_plan w plan_id))])))"

text \<open>Both archiving and deleting a plan abort its active runs in the same batch.\<close>

definition obsoleted_runs :: "world \<Rightarrow> uuid \<Rightarrow> string \<Rightarrow> timestamp \<Rightarrow> event list" where
  "obsoleted_runs w plan_id reason now =
     concat (map (\<lambda>r. [RunEv (RunAborted (r_id r) reason now), SignalEv (RunObsolescedByPlanEdit (r_id r) plan_id ObsArchived)])
       (list_active_for_plan (w_runs w) plan_id))"

definition build_archive_plan :: "handler_ctx \<Rightarrow> world \<Rightarrow> uuid \<Rightarrow> event list result" where
  "build_archive_plan x w i =
     bind_result (get_plan w i) (\<lambda>plan.
       if pl_archived_at plan \<noteq> None then Inr []
       else Inr (PlanEv (PlanArchived i (hx_now x)) # obsoleted_runs w i ''plan_archived'' (hx_now x)))"

definition build_delete_plan :: "handler_ctx \<Rightarrow> world \<Rightarrow> uuid \<Rightarrow> event list result" where
  "build_delete_plan x w i =
     bind_result (get_plan w i) (\<lambda>_.
       if list_tasks_ordered (w_plans w) i \<noteq> [] then Inl (Conflict ''plan_not_empty: '')
       else Inr (PlanEv (PlanDeleted i (hx_now x)) # obsoleted_runs w i ''plan_deleted'' (hx_now x)))"

definition build_add_plan_task ::
  "world \<Rightarrow> uuid \<Rightarrow> uuid \<Rightarrow> 32 word option \<Rightarrow> uuid list option \<Rightarrow> event list result" where
  "build_add_plan_task w plan_id task_id position depends_on =
     bind_result (get_plan w plan_id) (\<lambda>_.
     bind_result (get_task w task_id) (\<lambda>_.
       Inr [PlanEv (PlanTaskAdded plan_id task_id (unwrap_or (next_position w plan_id) position) (unwrap_or [] depends_on)),
            SignalEv (PlanModifiedByHuman plan_id (active_run_for_plan w plan_id))]))"

definition contested_run :: "world \<Rightarrow> uuid \<Rightarrow> uuid \<Rightarrow> run option" where
  "contested_run w plan_id task_id =
     find (\<lambda>r. current_step_task (w_runs w) (r_id r) = Some task_id) (list_active_for_plan (w_runs w) plan_id)"

text \<open>\<^verbatim>\<open>Actor::agent(name)\<close> draws a new agent id; the name is the rendered id of the run's agent.\<close>

definition build_remove_plan_task ::
  "(uuid \<Rightarrow> string) \<Rightarrow> handler_ctx \<Rightarrow> world \<Rightarrow> uuid \<Rightarrow> uuid \<Rightarrow> event list result" where
  "build_remove_plan_task show_agent x w plan_id task_id =
     bind_result (get_plan w plan_id) (\<lambda>_.
       Inr (PlanEv (PlanTaskRemoved plan_id task_id) #
            (case contested_run w plan_id task_id of
               Some r \<Rightarrow>
                 [SignalEv (TaskContested task_id [hx_actor x, Agent (hx_fresh x 0) (show_agent (r_agent_id r)) None] None),
                  RunEv (RunStepFinished (r_id r) task_id OutSuperseded (hx_now x))]
             | None \<Rightarrow> [])))"

definition build_reorder_plan :: "world \<Rightarrow> uuid \<Rightarrow> uuid list \<Rightarrow> event list result" where
  "build_reorder_plan w plan_id order =
     bind_result (get_plan w plan_id) (\<lambda>_.
       Inr [PlanEv (PlanReordered plan_id order), SignalEv (PlanModifiedByHuman plan_id (active_run_for_plan w plan_id))])"

definition goal_patch :: "string \<Rightarrow> plan_patch" where
  "goal_patch goal = \<lparr>pu_title = None, pu_description = None, pu_goal = Some goal,
     pu_success_criteria = None, pu_parent_plan_id = None\<rparr>"

definition build_set_plan_goal :: "world \<Rightarrow> uuid \<Rightarrow> string \<Rightarrow> event list result" where
  "build_set_plan_goal w plan_id goal =
     bind_result (get_plan w plan_id) (\<lambda>plan.
       Inr (if pl_goal plan = goal then []
            else [PlanEv (PlanGoalChanged plan_id (pl_goal plan) goal), PlanEv (PlanUpdated plan_id (goal_patch goal))]))"

definition unfinished_member :: "world \<Rightarrow> plan_task \<Rightarrow> bool" where
  "unfinished_member w pt =
     (case task_repo_get (w_tasks w) (pt_task_id pt) of Some t \<Rightarrow> \<not> is_terminal (t_status t) | None \<Rightarrow> False)"

definition build_set_plan_status :: "world \<Rightarrow> uuid \<Rightarrow> plan_status \<Rightarrow> event list result" where
  "build_set_plan_status w plan_id st =
     bind_result (get_plan w plan_id) (\<lambda>plan.
       if pl_status plan = st then Inr []
       else if st = Completed \<and> list_ex (unfinished_member w) (list_tasks_ordered (w_plans w) plan_id)
       then Inl (Validation ''cannot complete plan: it has unfinished tasks (move them to done/cancelled first)'')
       else Inr [PlanEv (PlanStatusChanged plan_id (pl_status plan) st)])"

subsection \<open>Runs\<close>

definition build_start_run :: "handler_ctx \<Rightarrow> world \<Rightarrow> uuid \<Rightarrow> uuid \<Rightarrow> uuid option \<Rightarrow> event list result" where
  "build_start_run x w plan_id agent_id parent_run_id =
     bind_result (get_plan w plan_id) (\<lambda>plan.
       if pl_status plan \<noteq> Active \<or> pl_archived_at plan \<noteq> None
       then Inl (Validation ''plan must be Active to start a run'')
       else Inr [RunEv (RunStarted
              \<lparr>r_id = hx_fresh x 0, r_plan_id = plan_id, r_agent_id = agent_id, r_parent_run_id = parent_run_id,
               r_started_at = hx_now x, r_ended_at = None, r_status = RunActive, r_outcome = None,
               r_last_activity_at = Some (hx_now x), r_unresponsive_at = None, r_stale_at = None\<rparr>)])"

definition build_run_start_step :: "handler_ctx \<Rightarrow> world \<Rightarrow> uuid \<Rightarrow> uuid \<Rightarrow> event list result" where
  "build_run_start_step x w run_id task_id =
     bind_result (get_run w run_id) (\<lambda>r.
       if r_status r \<noteq> RunActive then Inl (Validation ''run is not active'')
       else Inr [RunEv (RunStepStarted run_id task_id (hx_now x))])"

definition build_run_finish_step :: "handler_ctx \<Rightarrow> world \<Rightarrow> uuid \<Rightarrow> uuid \<Rightarrow> run_outcome \<Rightarrow> event list result" where
  "build_run_finish_step x w run_id task_id outcome =
     bind_result (get_run w run_id) (\<lambda>_.
       case find (\<lambda>s. rs_task_id s = task_id) (rev (list_steps (w_runs w) run_id)) of
         Some s \<Rightarrow> if rs_finished_at s \<noteq> None \<and> rs_outcome s = Some outcome then Inr []
                   else Inr [RunEv (RunStepFinished run_id task_id outcome (hx_now x))]
       | None \<Rightarrow> Inr [RunEv (RunStepFinished run_id task_id outcome (hx_now x))])"

text \<open>
  \<^verbatim>\<open>ensure_run_postconditions\<close>: every step is finished, and a step finished done is backed by a handoff of its task at
  or after the start of the step.
\<close>

fun step_postconditions :: "text_env \<Rightarrow> activity_table \<Rightarrow> run_step list \<Rightarrow> unit result" where
  "step_postconditions tx rows [] = Inr ()"
| "step_postconditions tx rows (s # ss) =
     (if rs_finished_at s = None then Inl (Conflict ''run_postcondition_unmet: run '')
      else if rs_outcome s = Some OutDone \<and> \<not> handoff_recorded_since tx rows (rs_task_id s) (rs_started_at s)
      then Inl (Conflict ''run_postcondition_unmet: run '')
      else step_postconditions tx rows ss)"

definition ensure_run_postconditions :: "text_env \<Rightarrow> world \<Rightarrow> uuid \<Rightarrow> unit result" where
  "ensure_run_postconditions tx w run_id = step_postconditions tx (w_activity w) (list_steps (w_runs w) run_id)"

definition build_complete_run :: "text_env \<Rightarrow> handler_ctx \<Rightarrow> world \<Rightarrow> uuid \<Rightarrow> event list result" where
  "build_complete_run tx x w run_id =
     bind_result (get_run w run_id) (\<lambda>r.
       if r_status r \<noteq> RunActive then Inl (Conflict ''run is not active'')
       else bind_result (ensure_run_postconditions tx w run_id) (\<lambda>_. Inr [RunEv (RunCompleted run_id (hx_now x))]))"

definition build_fail_run :: "handler_ctx \<Rightarrow> world \<Rightarrow> uuid \<Rightarrow> string \<Rightarrow> event list result" where
  "build_fail_run x w run_id reason =
     bind_result (get_run w run_id) (\<lambda>_. Inr [RunEv (RunFailed run_id reason (hx_now x))])"

definition build_abort_run :: "handler_ctx \<Rightarrow> world \<Rightarrow> uuid \<Rightarrow> string \<Rightarrow> event list result" where
  "build_abort_run x w run_id reason =
     bind_result (get_run w run_id) (\<lambda>_. Inr [RunEv (RunAborted run_id reason (hx_now x))])"

definition RUN_NOTE_MAX_BYTES :: nat where
  "RUN_NOTE_MAX_BYTES = 4096"

definition build_append_run_note :: "handler_ctx \<Rightarrow> world \<Rightarrow> uuid \<Rightarrow> string \<Rightarrow> event list result" where
  "build_append_run_note x w run_id body =
     (if trim body = [] then Inl (Validation ''run note body must not be empty'')
      else if length body > RUN_NOTE_MAX_BYTES then Inl (Validation ''run note body must not exceed '')
      else bind_result (get_run w run_id) (\<lambda>r.
        if r_status r \<noteq> RunActive then Inl (Validation ''cannot append a note to a terminal run'')
        else Inr [RunEv (RunNoteAppended run_id (hx_fresh x 0) body (hx_actor x) (hx_now x))]))"

definition build_send_run_signal :: "handler_ctx \<Rightarrow> world \<Rightarrow> uuid \<Rightarrow> signal_kind \<Rightarrow> event list result" where
  "build_send_run_signal x w run_id kind =
     bind_result (get_run w run_id) (\<lambda>_.
       case kind of
         SigStop reason \<Rightarrow> Inr [SignalEv (RunStopRequested run_id reason (hx_actor x))]
       | SigElicit prompt choices \<Rightarrow> Inr [SignalEv (RunElicitationRequested run_id prompt choices)]
       | SigAuthRequired scope \<Rightarrow> Inr [SignalEv (RunAuthRequired run_id scope)]
       | SigInterventionAccepted _ \<Rightarrow> Inl (Validation ''use RespondRunSignal to respond to an elicitation''))"

definition build_respond_run_signal :: "handler_ctx \<Rightarrow> world \<Rightarrow> uuid \<Rightarrow> string \<Rightarrow> event list result" where
  "build_respond_run_signal x w run_id choice =
     bind_result (get_run w run_id) (\<lambda>_. Inr [SignalEv (RunInterventionAccepted run_id choice (hx_actor x))])"

end
