(* ===== verification/Persistence.thy ===== *)
theory Persistence
  imports Handler_Plans
begin

text \<open>
  The state a dispatch works on, and the transactions that persist its events: \<^verbatim>\<open>EventStore::append_batch\<close>, and those of
  \<^verbatim>\<open>crates/storage/src/claim_repo.rs\<close> that end claims and run ownership together with the events
  (\<^verbatim>\<open>record_run_started\<close>, \<^verbatim>\<open>record_run_terminal\<close>, \<^verbatim>\<open>record_plan_terminal\<close>, \<^verbatim>\<open>record_task_lifecycle\<close>). A transaction
  that fails leaves no trace: it returns no state.
\<close>

record system =
  sy_world :: world
  sy_claims :: claim_table
  sy_run_owners :: "(uuid \<times> uuid) list"
  sy_log :: event_log

text \<open>What wraps an event: the clock, the actor and the ids of the envelopes.\<close>

record envelope_env =
  ee_now :: timestamp
  ee_actor :: actor
  ee_event_id :: "nat \<Rightarrow> uuid"

definition envelopes_from :: "envelope_env \<Rightarrow> nat \<Rightarrow> event list \<Rightarrow> event_envelope list" where
  "envelopes_from ee n events =
     map (\<lambda>(k, e). envelope_new (ee_event_id ee k) (ee_now ee) (ee_actor ee) e) (enumerate n events)"

definition with_log :: "(event_envelope list \<times> event_log) result \<Rightarrow> system \<Rightarrow> (event_envelope list \<times> system) result" where
  "with_log r s = bind_result r (\<lambda>(out, l). Inr (out, s\<lparr>sy_log := l\<rparr>))"

definition append_batch :: "event_envelope list \<Rightarrow> system \<Rightarrow> (event_envelope list \<times> system) result" where
  "append_batch envs s = with_log (store_append_batch envs (sy_log s)) s"

text \<open>The batch followed by the releases, which get envelopes of their own.\<close>

definition append_with_releases ::
  "envelope_env \<Rightarrow> event_envelope list \<Rightarrow> event list \<Rightarrow> system \<Rightarrow> (event_envelope list \<times> system) result" where
  "append_with_releases ee envs releases s =
     with_log (append_each (envs @ envelopes_from ee (length envs) releases) (sy_log s)) s"

definition released_event :: "claim \<Rightarrow> event" where
  "released_event c = SessionEv (AgentReleased (ac_agent_id c) (ac_task_id c) (Some (ac_claim_id c)))"

definition set_runs :: "run list \<Rightarrow> system \<Rightarrow> system" where
  "set_runs rs s = s\<lparr>sy_world := (sy_world s)\<lparr>w_runs := (w_runs (sy_world s))\<lparr>rs_runs := rs\<rparr>\<rparr>\<rparr>"

definition end_active_run :: "run_status \<Rightarrow> string \<Rightarrow> timestamp \<Rightarrow> uuid \<Rightarrow> run list \<Rightarrow> run list" where
  "end_active_run st reason at i rs =
     map (\<lambda>r. if r_id r = i \<and> r_status r = RunActive
              then r\<lparr>r_status := st, r_ended_at := Some at, r_outcome := Some reason\<rparr> else r) rs"

subsection \<open>Runs\<close>

definition run_owner :: "system \<Rightarrow> uuid \<Rightarrow> uuid option" where
  "run_owner s i = map_of (sy_run_owners s) i"

definition first_of :: "(event \<Rightarrow> 'a option) \<Rightarrow> event_envelope list \<Rightarrow> 'a option" where
  "first_of f envs = (case List.map_filter (f \<circ> en_payload) envs of [] \<Rightarrow> None | a # _ \<Rightarrow> Some a)"

definition started_run :: "event \<Rightarrow> uuid option" where
  "started_run e = (case e of RunEv (RunStarted r) \<Rightarrow> Some (r_id r) | _ \<Rightarrow> None)"

definition record_run_started ::
  "uuid \<Rightarrow> event_envelope list \<Rightarrow> system \<Rightarrow> (event_envelope list \<times> system) result" where
  "record_run_started owner envs s =
     (case first_of started_run envs of
        None \<Rightarrow> Inl (Validation ''expected RunStarted event'')
      | Some i \<Rightarrow>
          if run_owner s i \<noteq> None then Inl (Storage ''UNIQUE constraint failed'')
          else with_log (append_each envs (sy_log s)) (s\<lparr>sy_run_owners := sy_run_owners s @ [(i, owner)]\<rparr>))"

definition terminal_run_of :: "event \<Rightarrow> (uuid \<times> run_status \<times> timestamp \<times> string) option" where
  "terminal_run_of e =
     (case e of
        RunEv (RunFailed i reason at) \<Rightarrow> Some (i, RunIsFailed, at, reason)
      | RunEv (RunAborted i reason at) \<Rightarrow> Some (i, RunIsAborted, at, reason)
      | _ \<Rightarrow> None)"

text \<open>
  The claims a terminal run releases: those bound to it and, when the run has no recorded owner (an admin recovers it),
  the unbound claims its agent took after the start on tasks of open steps.
\<close>

definition claims_of_run :: "run_step list \<Rightarrow> run \<Rightarrow> bool \<Rightarrow> claim \<Rightarrow> bool" where
  "claims_of_run steps r owned c \<longleftrightarrow> ac_run_id c = Some (r_id r) \<or>
     \<not> owned \<and> ac_run_id c = None \<and> ac_agent_id c = r_agent_id r \<and> r_started_at r \<le> ac_acquired_at c \<and>
     list_ex (\<lambda>x. rs_run_id x = r_id r \<and> rs_task_id x = ac_task_id c \<and> rs_finished_at x = None) steps"

definition record_run_terminal ::
  "envelope_env \<Rightarrow> uuid \<Rightarrow> bool \<Rightarrow> event_envelope list \<Rightarrow> system \<Rightarrow> (event_envelope list \<times> system) result" where
  "record_run_terminal ee agent is_admin envs s =
     (case first_of terminal_run_of envs of
        None \<Rightarrow> Inl (Validation ''expected failed or aborted run event'')
      | Some (i, st, at, reason) \<Rightarrow>
          bind_result (ok_or (NotFound ''run '') (run_get (w_runs (sy_world s)) i)) (\<lambda>r.
            if r_status r \<noteq> RunActive then Inl (Conflict ''run is not active'')
            else bind_result (case run_owner s i of
                                Some owner \<Rightarrow> if is_admin \<or> owner = agent then Inr ()
                                              else Inl (Forbidden ''run is owned by another agent'')
                              | None \<Rightarrow> if is_admin then Inr () else Inl (Forbidden ''run has no authenticated owner'')) (\<lambda>_.
              let mine = claims_of_run (rs_steps (w_runs (sy_world s))) r (run_owner s i \<noteq> None);
                  runs = end_active_run st reason at i (rs_runs (w_runs (sy_world s)))
              in append_with_releases ee envs (map released_event (filter mine (sy_claims s)))
                   ((set_runs runs s)\<lparr>sy_claims := filter (\<lambda>c. \<not> mine c) (sy_claims s),
                                      sy_run_owners := filter (\<lambda>(j, _). j \<noteq> i) (sy_run_owners s)\<rparr>))))"

subsection \<open>Plans\<close>

definition terminal_plan_of :: "timestamp \<Rightarrow> event \<Rightarrow> (uuid \<times> run_status \<times> string \<times> timestamp) option" where
  "terminal_plan_of now e =
     (case e of
        PlanEv (PlanArchived p at) \<Rightarrow> Some (p, RunIsAborted, ''plan_archived'', at)
      | PlanEv (PlanDeleted p at) \<Rightarrow> Some (p, RunIsAborted, ''plan_deleted'', at)
      | PlanEv (PlanStatusChanged p _ to) \<Rightarrow>
          (case to of
             Completed \<Rightarrow> Some (p, RunIsCompleted, ''plan_completed'', now)
           | Abandoned \<Rightarrow> Some (p, RunIsAborted, ''plan_abandoned'', now)
           | _ \<Rightarrow> None)
      | _ \<Rightarrow> None)"

fun end_plan_runs ::
  "run_status \<Rightarrow> string \<Rightarrow> timestamp \<Rightarrow> uuid list \<Rightarrow> run list \<Rightarrow> claim_table \<Rightarrow> (uuid \<times> uuid) list \<Rightarrow>
   claim list \<times> run list \<times> claim_table \<times> (uuid \<times> uuid) list" where
  "end_plan_runs st reason at [] rs cs owners = ([], rs, cs, owners)"
| "end_plan_runs st reason at (i # is) rs cs owners =
     (let bound = filter (\<lambda>c. ac_run_id c = Some i) cs;
          (released, rs', cs', owners') =
            end_plan_runs st reason at is (end_active_run st reason at i rs)
              (filter (\<lambda>c. ac_run_id c \<noteq> Some i) cs) (filter (\<lambda>(r, _). r \<noteq> i) owners)
      in (bound @ released, rs', cs', owners'))"

text \<open>\<open>requester\<close> is the authenticated agent unless it is an admin.\<close>

definition record_plan_terminal ::
  "envelope_env \<Rightarrow> uuid option \<Rightarrow> event_envelope list \<Rightarrow> system \<Rightarrow> (event_envelope list \<times> system) result" where
  "record_plan_terminal ee requester envs s =
     (case first_of (terminal_plan_of (ee_now ee)) envs of
        None \<Rightarrow> Inl (Validation ''expected terminal plan event'')
      | Some (p, st, reason, at) \<Rightarrow>
          let rs = rs_runs (w_runs (sy_world s));
              ids = map r_id (filter (\<lambda>r. r_plan_id r = p \<and> r_status r = RunActive) rs) in
          if (case requester of Some a \<Rightarrow> list_ex (\<lambda>i. run_owner s i \<noteq> Some a) ids | None \<Rightarrow> False)
          then Inl (Forbidden ''plan termination requires ownership of every active run'')
          else let (released, rs', cs', owners') = end_plan_runs st reason at ids rs (sy_claims s) (sy_run_owners s)
               in append_with_releases ee envs (map released_event released)
                    ((set_runs rs' s)\<lparr>sy_claims := cs', sy_run_owners := owners'\<rparr>))"

subsection \<open>Tasks\<close>

definition record_task_batch ::
  "envelope_env \<Rightarrow> event_envelope list \<Rightarrow> system \<Rightarrow> (event_envelope list \<times> system) result" where
  "record_task_batch ee envs s =
     (let (recorded, cs) = record_task_lifecycle (map en_payload envs) (sy_claims s)
      in append_with_releases ee envs (drop (length envs) recorded) (s\<lparr>sy_claims := cs\<rparr>))"

end
