(* ===== verification/Source_Chain.thy ===== *)
theory Source_Chain
  imports Plan_Store Lifecycle_Gate
begin

text \<open>
  The source chains of \<^verbatim>\<open>crates/core/src/plan_source.rs\<close>: \<^verbatim>\<open>link_sources\<close> ties the nodes of a request into the
  stored graph of sources, each node below the next. A stored link is never rewritten, and a link that would
  close a cycle or make the chain too long is refused. Descendants are found by the recursive query of
  \<^verbatim>\<open>crates/storage/src/plan_repo.rs\<close>.
\<close>

subsection \<open>plan\_repo.rs: source\_descendants\<close>

definition source_children :: "plan_store \<Rightarrow> string \<Rightarrow> string list" where
  "source_children ps ref = map sn_source_ref (filter (\<lambda>n. sn_upstream_ref n = Some ref) (ps_sources ps))"

text \<open>The rows of the recursive query: the references of one depth, then those of the next.\<close>

fun source_levels :: "plan_store \<Rightarrow> nat \<Rightarrow> nat \<Rightarrow> string list \<Rightarrow> (string \<times> nat) list" where
  "source_levels ps 0 depth refs = []"
| "source_levels ps (Suc levels) depth refs =
     (if refs = [] then []
      else map (\<lambda>r. (r, depth)) refs @ source_levels ps levels (Suc depth) (concat (map (source_children ps) refs)))"

definition source_descendants :: "plan_store \<Rightarrow> string \<Rightarrow> string list \<times> nat" where
  "source_descendants ps ref =
     (let rows = source_levels ps SOURCE_CHAIN_MAX 0 [ref]
      in (remdups (map fst rows), fold max (map snd rows) 0))"

subsection \<open>link\_sources\<close>

fun set_upstreams :: "source_node list \<Rightarrow> source_node list" where
  "set_upstreams (a # b # ns) = a\<lparr>sn_upstream_ref := Some (sn_source_ref b)\<rparr> # set_upstreams (b # ns)"
| "set_upstreams ns = ns"

type_synonym merged_sources = "(string \<times> source_node) list"

definition source_view :: "plan_store \<Rightarrow> merged_sources \<Rightarrow> string \<Rightarrow> source_node option" where
  "source_view ps merged ref = (case map_of merged ref of Some n \<Rightarrow> Some n | None \<Rightarrow> get_source ps ref)"

text \<open>The node to store and the link kept instead of the requested one, if any.\<close>

definition merge_source :: "bool \<Rightarrow> source_node option \<Rightarrow> source_node \<Rightarrow> (source_node \<times> string option) result" where
  "merge_source keep_existing stored node =
     (case stored of
        None \<Rightarrow> Inr (node, None)
      | Some st \<Rightarrow>
          (case fill_from st node of
             Inr next_node \<Rightarrow> Inr (next_node, None)
           | Inl have_ref \<Rightarrow>
               if keep_existing
               then (case fill_from st (node\<lparr>sn_upstream_ref := Some have_ref\<rparr>) of
                       Inr next_node \<Rightarrow> Inr (next_node, Some have_ref)
                     | Inl _ \<Rightarrow> Inr (st, Some have_ref))
               else Inl (CodedConflict ''source_upstream_conflict'' ''source `'' JNull)))"

definition kept_warning :: "source_node \<Rightarrow> string \<Rightarrow> mutation_warning" where
  "kept_warning node kept =
     \<lparr>mw_code = ''source_upstream_kept'',
      mw_message = ''source `'' @ sn_source_ref node @ ''` already has upstream `'' @ kept @
        ''`; kept it and dropped the sources given above it'',
      mw_details = JObject [(''ref'', JString (sn_source_ref node)), (''kept_upstream'', JString kept),
        (''dropped_upstream'', case sn_upstream_ref node of Some u \<Rightarrow> JString u | None \<Rightarrow> JNull)]\<rparr>"

fun merge_sources ::
  "plan_store \<Rightarrow> bool \<Rightarrow> merged_sources \<Rightarrow> source_node list \<Rightarrow> (merged_sources \<times> source_node list \<times> mutation_warning list) result" where
  "merge_sources ps keep_existing merged [] = Inr (merged, [], [])"
| "merge_sources ps keep_existing merged (node # nodes) =
     (let stored = source_view ps merged (sn_source_ref node) in
      bind_result (merge_source keep_existing stored node) (\<lambda>(next_node, kept).
        let changed = stored \<noteq> Some next_node;
            merged' = (if changed then (sn_source_ref next_node, next_node) # merged else merged);
            upserts = (if changed then [next_node] else [])
        in case kept of
             Some k \<Rightarrow> Inr (merged', upserts, [kept_warning node k])
           | None \<Rightarrow> bind_result (merge_sources ps keep_existing merged' nodes)
               (\<lambda>(final, more_upserts, warnings). Inr (final, upserts @ more_upserts, warnings))))"

definition chain_invalid :: "string \<Rightarrow> core_error" where
  "chain_invalid m = Unprocessable ''source_chain_invalid'' m JNull"

text \<open>
  The walk from the first node to the top of its chain. It ends because \<open>seen\<close> grows up to the constant of the
  source.
\<close>

function chain_walk :: "(string \<Rightarrow> source_node option) \<Rightarrow> nat \<Rightarrow> string list \<Rightarrow> string option \<Rightarrow> unit result" where
  "chain_walk view below seen None = Inr ()"
| "chain_walk view below seen (Some ref) =
     (if ref \<in> set seen then Inl (chain_invalid ''linking would close a cycle at source `'')
      else if below + Suc (length seen) > SOURCE_CHAIN_MAX
      then Inl (chain_invalid ''a source chain holds at most '')
      else chain_walk view below (ref # seen) (Option.bind (view ref) sn_upstream_ref))"
  by pat_completeness auto
termination
  by (relation "measure (\<lambda>(view, below, seen, cursor). Suc SOURCE_CHAIN_MAX - length seen)") auto

definition link_sources ::
  "plan_store \<Rightarrow> source_node list \<Rightarrow> bool \<Rightarrow> (source_node list \<times> mutation_warning list) result" where
  "link_sources ps nodes0 keep_existing =
     (let nodes = set_upstreams nodes0 in
      bind_result (merge_sources ps keep_existing [] nodes) (\<lambda>(merged, upserts, warnings).
        case nodes of
          [] \<Rightarrow> Inr (upserts, warnings)
        | first # _ \<Rightarrow>
            bind_result (chain_walk (source_view ps merged) (snd (source_descendants ps (sn_source_ref first))) []
                (Some (sn_source_ref first)))
              (\<lambda>_. Inr (upserts, warnings))))"

definition link_events :: "source_node list \<Rightarrow> event list" where
  "link_events upserts = map (\<lambda>n. PlanEv (SourceUpserted n)) upserts"

subsection \<open>Fill-only merging\<close>

definition filled :: "source_node \<Rightarrow> source_node \<Rightarrow> source_node" where
  "filled st n = st
     \<lparr>sn_label := or_opt (sn_label st) (sn_label n), sn_occurred_at := or_opt (sn_occurred_at st) (sn_occurred_at n),
      sn_note := or_opt (sn_note st) (sn_note n), sn_upstream_ref := or_opt (sn_upstream_ref st) (sn_upstream_ref n)\<rparr>"

text \<open>What a merge may do to a stored node: fill its empty fields, nothing else.\<close>

definition only_filled :: "source_node \<Rightarrow> source_node \<Rightarrow> bool" where
  "only_filled st n \<longleftrightarrow> (\<exists>other. n = filled st other)"

lemma or_opt_assoc: "or_opt (or_opt a b) c = or_opt a (or_opt b c)"
  by (cases a) (simp_all add: or_opt_def)

lemma or_opt_again: "or_opt a (or_opt a b) = or_opt a b"
  by (cases a) (simp_all add: or_opt_def)

lemma filled_filled: "filled (filled st a) b = filled st (filled a b)"
  by (simp add: filled_def or_opt_assoc)

lemma filled_again: "filled st (filled st a) = filled st a"
  by (simp add: filled_def or_opt_again)

lemma only_filled_refl: "only_filled st st"
proof -
  have "st = filled st st" by (cases st) (auto simp: filled_def or_opt_def split: option.split)
  then show ?thesis by (auto simp: only_filled_def)
qed

lemma only_filled_trans: "only_filled a b \<Longrightarrow> only_filled b c \<Longrightarrow> only_filled a c"
  by (auto simp: only_filled_def filled_filled)

lemma only_filled_upstream: "only_filled st n \<Longrightarrow> sn_upstream_ref st = Some u \<Longrightarrow> sn_upstream_ref n = Some u"
  by (auto simp: only_filled_def filled_def or_opt_def)

lemma only_filled_ref: "only_filled st n \<Longrightarrow> sn_source_ref n = sn_source_ref st"
  by (auto simp: only_filled_def filled_def)

lemma fill_from_Inr: "fill_from st n = Inr m \<Longrightarrow>
    m = filled st n \<and> (sn_upstream_ref n \<noteq> None \<longrightarrow> sn_upstream_ref m = sn_upstream_ref n)"
  by (auto simp: fill_from_def filled_def or_opt_def split: option.splits if_splits)

lemma fill_from_Inl: "fill_from st n = Inl u \<Longrightarrow> sn_upstream_ref st = Some u"
  by (auto simp: fill_from_def split: option.splits if_splits)

text \<open>The branch the source marks unreachable: the kept link never conflicts with itself.\<close>

lemma fill_from_kept: "fill_from st n = Inl u \<Longrightarrow> fill_from st (n\<lparr>sn_upstream_ref := Some u\<rparr>) = Inr (filled st (n\<lparr>sn_upstream_ref := Some u\<rparr>))"
  by (auto simp: fill_from_def filled_def split: option.splits if_splits)

lemma merge_source_stored:
  "merge_source keep (Some st) node = Inr (m, kept) \<Longrightarrow> only_filled st m"
  by (auto simp: merge_source_def only_filled_def fill_from_kept split: sum.splits if_splits dest: fill_from_Inr)

lemma merge_source_linked:
  "merge_source keep stored node = Inr (m, None) \<Longrightarrow> sn_upstream_ref node = Some u \<Longrightarrow> sn_upstream_ref m = Some u"
  by (auto simp: merge_source_def split: option.splits sum.splits if_splits dest: fill_from_Inr)

lemma merge_source_ref:
  "merge_source keep stored node = Inr (m, kept) \<Longrightarrow> (\<And>st. stored = Some st \<Longrightarrow> sn_source_ref st = sn_source_ref node) \<Longrightarrow>
   sn_source_ref m = sn_source_ref node"
  using merge_source_stored only_filled_ref by (cases stored) (fastforce simp: merge_source_def)+

subsection \<open>Chains stay acyclic\<close>

definition up_links :: "(string \<Rightarrow> source_node option) \<Rightarrow> (string \<times> string) set" where
  "up_links view = {(a, b). \<exists>n. view a = Some n \<and> sn_upstream_ref n = Some b}"

definition keyed_view :: "(string \<Rightarrow> source_node option) \<Rightarrow> bool" where
  "keyed_view view \<longleftrightarrow> (\<forall>r n. view r = Some n \<longrightarrow> sn_source_ref n = r)"

text \<open>A later view only fills an earlier one.\<close>

definition view_filled :: "(string \<Rightarrow> source_node option) \<Rightarrow> (string \<Rightarrow> source_node option) \<Rightarrow> bool" where
  "view_filled v v' \<longleftrightarrow> (\<forall>r n. v r = Some n \<longrightarrow> (\<exists>n'. v' r = Some n' \<and> only_filled n n'))"

lemma view_filled_refl: "view_filled v v"
  by (simp add: view_filled_def only_filled_refl)

lemma view_filled_trans: "view_filled a b \<Longrightarrow> view_filled b c \<Longrightarrow> view_filled a c"
  unfolding view_filled_def by (meson only_filled_trans)

lemma view_filled_links: "view_filled v v' \<Longrightarrow> up_links v \<subseteq> up_links v'"
  by (fastforce simp: view_filled_def up_links_def dest: only_filled_upstream)

lemma up_links_functional: "(a, b) \<in> up_links v \<Longrightarrow> (a, c) \<in> up_links v \<Longrightarrow> b = c"
  by (auto simp: up_links_def)

text \<open>One step of the merge, seen on the views.\<close>

lemma merge_step:
  assumes key: "keyed_view (source_view ps merged)"
    and m: "merge_source keep (source_view ps merged (sn_source_ref node)) node = Inr (m, kept)"
    and merged': "merged' = (if source_view ps merged (sn_source_ref node) \<noteq> Some m then (sn_source_ref m, m) # merged else merged)"
  shows "source_view ps merged' = (source_view ps merged)(sn_source_ref node \<mapsto> m)"
    and "keyed_view (source_view ps merged')" and "view_filled (source_view ps merged) (source_view ps merged')"
    and "up_links (source_view ps merged') - up_links (source_view ps merged) \<subseteq> {sn_source_ref node} \<times> UNIV"
proof -
  have ref: "sn_source_ref m = sn_source_ref node"
    using merge_source_ref [OF m] key by (auto simp: keyed_view_def)
  show upd: "source_view ps merged' = (source_view ps merged)(sn_source_ref node \<mapsto> m)"
    by (rule ext) (auto simp: merged' source_view_def ref split: if_splits)
  show "keyed_view (source_view ps merged')" using key ref by (auto simp: upd keyed_view_def)
  show "view_filled (source_view ps merged) (source_view ps merged')"
    using m by (auto simp: upd view_filled_def only_filled_refl dest: merge_source_stored)
  show "up_links (source_view ps merged') - up_links (source_view ps merged) \<subseteq> {sn_source_ref node} \<times> UNIV"
    by (auto simp: upd up_links_def split: if_splits)
qed

fun linked_nodes :: "source_node list \<Rightarrow> bool" where
  "linked_nodes (a # b # ns) \<longleftrightarrow> sn_upstream_ref a = Some (sn_source_ref b) \<and> linked_nodes (b # ns)"
| "linked_nodes ns \<longleftrightarrow> True"

lemma linked_set_upstreams: "linked_nodes (set_upstreams ns)"
proof (induction ns rule: set_upstreams.induct)
  case (1 a b ns)
  then show ?case by (cases ns) auto
qed auto

text \<open>Every link the merge adds starts at a node the walk from the first node passes.\<close>

lemma merge_sources_links:
  assumes "merge_sources ps keep merged nodes = Inr (final, upserts, warnings)"
    and "keyed_view (source_view ps merged)" "linked_nodes nodes"
  shows "keyed_view (source_view ps final) \<and> view_filled (source_view ps merged) (source_view ps final) \<and>
    (\<forall>(a, b) \<in> up_links (source_view ps final) - up_links (source_view ps merged).
       nodes \<noteq> [] \<and> (sn_source_ref (hd nodes), a) \<in> (up_links (source_view ps final))\<^sup>*)"
  using assms
proof (induction nodes arbitrary: merged upserts warnings)
  case Nil
  then show ?case by (auto simp: view_filled_refl)
next
  case (Cons node nodes)
  obtain m kept where m: "merge_source keep (source_view ps merged (sn_source_ref node)) node = Inr (m, kept)"
    using Cons.prems(1) by (auto simp: Let_def bind_result_Inr_iff)
  define merged' where "merged' = (if source_view ps merged (sn_source_ref node) \<noteq> Some m then (sn_source_ref m, m) # merged else merged)"
  note step = merge_step [OF Cons.prems(2) m merged'_def]
  show ?case
  proof (cases kept)
    case (Some k)
    then have final: "final = merged'" using Cons.prems(1) m by (auto simp: Let_def merged'_def)
    show ?thesis unfolding final using step(2-4) by auto
  next
    case None
    then obtain ups ws where rest: "merge_sources ps keep merged' nodes = Inr (final, ups, ws)"
      using Cons.prems(1) m by (auto simp: Let_def bind_result_Inr_iff merged'_def)
    have "linked_nodes nodes" using Cons.prems(3) by (cases nodes) auto
    note IH = Cons.IH [OF rest step(2) this]
    then have filled: "view_filled (source_view ps merged') (source_view ps final)" by blast
    have "(sn_source_ref node, a) \<in> (up_links (source_view ps final))\<^sup>*"
      if ab: "(a, b) \<in> up_links (source_view ps final)" "(a, b) \<notin> up_links (source_view ps merged)" for a b
    proof (cases "(a, b) \<in> up_links (source_view ps merged')")
      case True
      then show ?thesis using step(4) ab by auto
    next
      case False
      then have ne: "nodes \<noteq> []" and reach: "(sn_source_ref (hd nodes), a) \<in> (up_links (source_view ps final))\<^sup>*"
        using IH ab by auto
      have "sn_upstream_ref node = Some (sn_source_ref (hd nodes))" using Cons.prems(3) ne by (cases nodes) auto
      then have "sn_upstream_ref m = Some (sn_source_ref (hd nodes))" using merge_source_linked m None by blast
      then have "(sn_source_ref node, sn_source_ref (hd nodes)) \<in> up_links (source_view ps merged')"
        by (simp add: step(1) up_links_def)
      then have "(sn_source_ref node, sn_source_ref (hd nodes)) \<in> up_links (source_view ps final)"
        using view_filled_links [OF filled] by blast
      then show ?thesis using reach by (rule converse_rtrancl_into_rtrancl)
    qed
    then show ?thesis using IH view_filled_trans [OF step(3) filled] by auto
  qed
qed

lemma chain_walk_acyclic:
  "chain_walk view below seen (Some ref) = Inr () \<Longrightarrow> (ref, x) \<in> (up_links view)\<^sup>* \<Longrightarrow> (x, x) \<notin> (up_links view)\<^sup>+"
proof (induction view below seen "Some ref" arbitrary: ref x rule: chain_walk.induct)
  case (2 view below seen ref)
  have walk: "chain_walk view below (ref # seen) (Option.bind (view ref) sn_upstream_ref) = Inr ()"
    using 2(2) by (auto split: if_splits)
  have ok: "ref \<notin> set seen" "\<not> SOURCE_CHAIN_MAX < below + Suc (length seen)" using 2(2) by (auto split: if_splits)
  have IH: "(x, x) \<notin> (up_links view)\<^sup>+" if "Option.bind (view ref) sn_upstream_ref = Some u" "(u, x) \<in> (up_links view)\<^sup>*" for u x
    using 2(1) [OF ok] walk that by simp
  have nxt: "Option.bind (view ref) sn_upstream_ref = Some u" if "(ref, u) \<in> up_links view" for u
    using that by (auto simp: up_links_def)
  have here: "(ref, ref) \<notin> (up_links view)\<^sup>+"
  proof
    assume loop: "(ref, ref) \<in> (up_links view)\<^sup>+"
    then obtain u where "(ref, u) \<in> up_links view" "(u, ref) \<in> (up_links view)\<^sup>*" by (meson tranclD)
    then show False using IH nxt loop by blast
  qed
  show ?case
  proof (cases "x = ref")
    case False
    then obtain u where "(ref, u) \<in> up_links view" "(u, x) \<in> (up_links view)\<^sup>*"
      using 2(3) by (metis converse_rtranclE)
    then show ?thesis using IH nxt by blast
  qed (use here in simp)
qed

lemma trancl_new_edge:
  "(x, y) \<in> (R \<union> N)\<^sup>+ \<Longrightarrow> (x, y) \<in> R\<^sup>+ \<or> (\<exists>(a, b) \<in> N. (x, a) \<in> (R \<union> N)\<^sup>* \<and> (b, y) \<in> (R \<union> N)\<^sup>*)"
proof (induction rule: trancl_induct)
  case (base y)
  then show ?case by auto
next
  case (step y z)
  then show ?case
  proof (cases "(y, z) \<in> N")
    case True
    then show ?thesis using step.hyps(1) by (auto intro!: bexI [of _ "(y, z)"] trancl_into_rtrancl)
  next
    case False
    then have "(y, z) \<in> R" using step.hyps by auto
    then show ?thesis using step.IH by (auto intro: trancl_into_trancl rtrancl_into_rtrancl)
  qed
qed

lemma merged_acyclic:
  assumes merge: "merge_sources ps keep [] (n # nodes) = Inr (final, upserts, warnings)" "linked_nodes (n # nodes)"
    and walk: "chain_walk (source_view ps final) below [] (Some (sn_source_ref n)) = Inr ()"
    and acyc: "acyclic (up_links (get_source ps))"
  shows "acyclic (up_links (source_view ps final))"
proof -
  have start: "source_view ps [] = get_source ps" by (rule ext) (simp add: source_view_def)
  have "keyed_view (source_view ps [])"
    by (auto simp: start keyed_view_def get_source_def dest: find_Some_mem)
  note links = merge_sources_links [OF merge(1) this merge(2), unfolded start]
  let ?R = "up_links (get_source ps)" and ?F = "up_links (source_view ps final)"
  have F: "?F = ?R \<union> (?F - ?R)" using links view_filled_links by blast
  show ?thesis unfolding acyclic_def
  proof (intro allI notI)
    fix x assume loop: "(x, x) \<in> ?F\<^sup>+"
    then have "(x, x) \<in> (?R \<union> (?F - ?R))\<^sup>+" using F by simp
    from trancl_new_edge [OF this] have "\<exists>(a, b) \<in> ?F - ?R. (x, a) \<in> ?F\<^sup>* \<and> (b, x) \<in> ?F\<^sup>*"
      using acyc F by (auto simp: acyclic_def)
    then obtain a b where ab: "(a, b) \<in> ?F - ?R" "(x, a) \<in> ?F\<^sup>*" "(b, x) \<in> ?F\<^sup>*" by blast
    then have "(a, a) \<in> ?F\<^sup>+" by (meson DiffD1 rtrancl_into_trancl2 rtrancl_trans)
    moreover have "(sn_source_ref n, a) \<in> ?F\<^sup>*" using links ab(1) by auto
    ultimately show False using chain_walk_acyclic [OF walk] by blast
  qed
qed


subsection \<open>The stored graph after the events\<close>

lemma get_source_upsert:
  "get_source (ps\<lparr>ps_sources := upsert_source n (ps_sources ps)\<rparr>) ref =
   (if ref = sn_source_ref n
    then Some (case get_source ps ref of None \<Rightarrow> n | Some st \<Rightarrow> filled st n) else get_source ps ref)"
proof -
  have map_find: "find (\<lambda>x. sn_source_ref x = ref) (map (\<lambda>x. if sn_source_ref x = sn_source_ref n then filled x n else x) ns) =
    (if ref = sn_source_ref n then map_option (\<lambda>x. filled x n) (find (\<lambda>x. sn_source_ref x = ref) ns)
     else find (\<lambda>x. sn_source_ref x = ref) ns)" for ns
    by (induction ns) (auto simp: filled_def)
  have app_find: "find (\<lambda>x. sn_source_ref x = ref) (ns @ [n]) =
    (case find (\<lambda>x. sn_source_ref x = ref) ns of Some x \<Rightarrow> Some x | None \<Rightarrow> if ref = sn_source_ref n then Some n else None)" for ns
    by (induction ns) auto
  have none_find: "list_ex (\<lambda>x. sn_source_ref x = sn_source_ref n) ns \<longleftrightarrow> find (\<lambda>x. sn_source_ref x = sn_source_ref n) ns \<noteq> None" for ns
    by (induction ns) auto
  have "find (\<lambda>x. sn_source_ref x = ref) (upsert_source n ns) =
    (if ref = sn_source_ref n
     then Some (case find (\<lambda>x. sn_source_ref x = ref) ns of None \<Rightarrow> n | Some st \<Rightarrow> filled st n)
     else find (\<lambda>x. sn_source_ref x = ref) ns)" for ns
    unfolding upsert_source_def filled_def [symmetric] none_find
    by (cases "ref = sn_source_ref n") (use map_find app_find in \<open>auto split: option.splits\<close>)
  then show ?thesis by (simp add: get_source_def)
qed

lemma source_upsert_known:
  "get_source ps (sn_source_ref m) = stored \<Longrightarrow> (\<And>st. stored = Some st \<Longrightarrow> only_filled st m) \<Longrightarrow>
   get_source (ps\<lparr>ps_sources := upsert_source m (ps_sources ps)\<rparr>) = (get_source ps)(sn_source_ref m \<mapsto> m)"
  by (rule ext) (auto simp: get_source_upsert only_filled_def filled_again split: option.splits)

text \<open>The stored graph after the events of a link.\<close>

definition linked_store :: "source_node list \<Rightarrow> plan_store \<Rightarrow> plan_store" where
  "linked_store upserts ps = ps\<lparr>ps_sources := fold upsert_source upserts (ps_sources ps)\<rparr>"

lemma linked_store_simps [simp]:
  "linked_store [] ps = ps"
  "linked_store (n # ns) ps = linked_store ns (ps\<lparr>ps_sources := upsert_source n (ps_sources ps)\<rparr>)"
  by (simp_all add: linked_store_def)

lemma linked_store_events:
  "fst (fold (\<lambda>ev st. plan_apply_event now (envelope ev) st) (link_events upserts) (ps, ts)) = linked_store upserts ps"
  if "\<And>ev. en_payload (envelope ev) = ev"
  using that by (induction upserts arbitrary: ps) (simp_all add: link_events_def plan_apply_event_def)

lemma merge_sources_stored:
  assumes "merge_sources ps keep merged nodes = Inr (final, upserts, warnings)"
    and "keyed_view (source_view ps merged)" "get_source qs = source_view ps merged"
  shows "get_source (linked_store upserts qs) = source_view ps final"
  using assms
proof (induction nodes arbitrary: merged upserts warnings qs)
  case Nil
  then show ?case by simp
next
  case (Cons node nodes)
  obtain m kept where m: "merge_source keep (source_view ps merged (sn_source_ref node)) node = Inr (m, kept)"
    using Cons.prems(1) by (auto simp: Let_def bind_result_Inr_iff)
  define changed where "changed \<longleftrightarrow> source_view ps merged (sn_source_ref node) \<noteq> Some m"
  define merged' where "merged' = (if source_view ps merged (sn_source_ref node) \<noteq> Some m then (sn_source_ref m, m) # merged else merged)"
  define qs' where "qs' = (if changed then qs\<lparr>ps_sources := upsert_source m (ps_sources qs)\<rparr> else qs)"
  note step = merge_step [OF Cons.prems(2) m merged'_def]
  have ref: "sn_source_ref m = sn_source_ref node"
    using merge_source_ref [OF m] Cons.prems(2) by (auto simp: keyed_view_def)
  have known: "only_filled st m" if "source_view ps merged (sn_source_ref node) = Some st" for st
    using m merge_source_stored unfolding that by blast
  have here: "get_source qs' = source_view ps merged'"
  proof (cases changed)
    case True
    then have "get_source qs' = (get_source qs)(sn_source_ref m \<mapsto> m)"
      unfolding qs'_def using source_upsert_known [of qs m] known ref Cons.prems(3) by simp
    then show ?thesis by (simp only: step(1) Cons.prems(3) ref)
  next
    case False
    then show ?thesis by (simp add: qs'_def merged'_def changed_def Cons.prems(3))
  qed
  show ?case
  proof (cases kept)
    case (Some k)
    then have "final = merged'" "linked_store upserts qs = qs'"
      using Cons.prems(1) m by (auto simp: Let_def merged'_def qs'_def changed_def)
    then show ?thesis using here by simp
  next
    case None
    then obtain ups ws where rest: "merge_sources ps keep merged' nodes = Inr (final, ups, ws)"
      and ups: "upserts = (if changed then [m] else []) @ ups"
      using Cons.prems(1) m by (auto simp: Let_def bind_result_Inr_iff merged'_def changed_def)
    have "linked_store upserts qs = linked_store ups qs'" by (simp add: ups qs'_def)
    then show ?thesis using Cons.IH [OF rest step(2) here] by simp
  qed
qed

lemma keyed_start: "keyed_view (source_view ps [])" "source_view ps [] = get_source ps"
  by (auto simp: keyed_view_def source_view_def get_source_def fun_eq_iff dest: find_Some_mem)

lemma link_sources_cases:
  assumes "link_sources ps nodes keep = Inr (upserts, warnings)"
  obtains final where "get_source (linked_store upserts ps) = source_view ps final"
    "view_filled (get_source ps) (source_view ps final)"
    "acyclic (up_links (get_source ps)) \<Longrightarrow> acyclic (up_links (source_view ps final))"
proof -
  obtain final ws where merge: "merge_sources ps keep [] (set_upstreams nodes) = Inr (final, upserts, ws)"
    using assms by (cases "set_upstreams nodes") (auto simp: link_sources_def Let_def bind_result_Inr_iff simp del: merge_sources.simps)
  note stored = merge_sources_stored [OF merge keyed_start(1) keyed_start(2) [symmetric]]
  have filled: "view_filled (get_source ps) (source_view ps final)"
    using merge_sources_links [OF merge keyed_start(1) linked_set_upstreams] by (simp add: keyed_start(2))
  have "acyclic (up_links (source_view ps final))" if acyc: "acyclic (up_links (get_source ps))"
  proof (cases "set_upstreams nodes")
    case Nil
    then show ?thesis using merge acyc by (simp add: keyed_start(2))
  next
    case (Cons n ns)
    then obtain u where "chain_walk (source_view ps final) (snd (source_descendants ps (sn_source_ref n))) []
        (Some (sn_source_ref n)) = Inr u"
      using assms merge by (auto simp: link_sources_def Let_def bind_result_Inr_iff)
    then show ?thesis using merged_acyclic merge acyc linked_set_upstreams [of nodes] unfolding Cons by simp
  qed
  then show thesis using that stored filled by blast
qed

definition source_links :: "plan_store \<Rightarrow> (string \<times> string) set" where
  "source_links ps = up_links (get_source ps)"

text \<open>
  C38: Linking never closes a cycle. When \<open>link_sources\<close> accepts a chain and the stored graph of sources had no
  cycle, the graph stored after its events has none, whatever the chain repeats or shares with the stored nodes.
\<close>

theorem source_graph_stays_acyclic:
  "link_sources ps nodes keep = Inr (upserts, warnings) \<Longrightarrow> acyclic (source_links ps) \<Longrightarrow>
   acyclic (source_links (linked_store upserts ps))"
  unfolding source_links_def by (erule link_sources_cases) simp

text \<open>
  A set link is never rewritten. Every node stored before a link is stored after it under the same
  reference with at most its empty fields filled; so each of its links, and each text it had, is unchanged.
\<close>

theorem source_link_only_fills:
  "link_sources ps nodes keep = Inr (upserts, warnings) \<Longrightarrow> get_source ps ref = Some n \<Longrightarrow>
   \<exists>n'. get_source (linked_store upserts ps) ref = Some n' \<and> only_filled n n' \<and>
     (sn_upstream_ref n \<noteq> None \<longrightarrow> sn_upstream_ref n' = sn_upstream_ref n) \<and>
     (sn_label n \<noteq> None \<longrightarrow> sn_label n' = sn_label n) \<and> (sn_note n \<noteq> None \<longrightarrow> sn_note n' = sn_note n)"
proof (erule link_sources_cases)
  fix final
  assume *: "get_source ps ref = Some n" "get_source (linked_store upserts ps) = source_view ps final"
    "view_filled (get_source ps) (source_view ps final)"
  then obtain n' where "source_view ps final ref = Some n'" "only_filled n n'" by (auto simp: view_filled_def)
  then show ?thesis using * by (auto simp: only_filled_def filled_def or_opt_def)
qed

definition demo_source :: "string \<Rightarrow> string option \<Rightarrow> source_node" where
  "demo_source ref up = \<lparr>sn_source_ref = ref, sn_label = None, sn_occurred_at = None, sn_note = None,
     sn_upstream_ref = up, sn_created_at = 0, sn_created_by = None\<rparr>"

definition demo_sources :: plan_store where
  "demo_sources = \<lparr>ps_plans = [], ps_plan_tasks = [],
     ps_sources = [demo_source ''a:1'' (Some ''a:2''), demo_source ''a:2'' None]\<rparr>"

lemma demo_sources_link:
  "link_sources demo_sources [demo_source ''a:2'' None, demo_source ''a:3'' None] False =
     Inr ([demo_source ''a:2'' (Some ''a:3''), demo_source ''a:3'' None], [])"
  by code_simp

lemma demo_sources_acyclic: "acyclic (source_links demo_sources)"
proof -
  have "source_links demo_sources = {(''a:1'', ''a:2'')}"
    by (auto simp: source_links_def up_links_def get_source_def demo_sources_def demo_source_def split: if_splits)
  then show ?thesis by (auto simp: acyclic_def elim: tranclE)
qed

lemma source_graph_stays_acyclic_witness:
  "acyclic (source_links (linked_store [demo_source ''a:2'' (Some ''a:3''), demo_source ''a:3'' None] demo_sources)) \<and>
   link_sources demo_sources [demo_source ''a:2'' None, demo_source ''a:1'' None] False =
     Inl (chain_invalid ''linking would close a cycle at source `'')"
proof
  show "acyclic (source_links (linked_store [demo_source ''a:2'' (Some ''a:3''), demo_source ''a:3'' None] demo_sources))"
    by (rule source_graph_stays_acyclic [OF demo_sources_link demo_sources_acyclic])
qed code_simp

lemma source_link_only_fills_witness:
  "\<exists>n'. get_source (linked_store [demo_source ''a:2'' (Some ''a:3''), demo_source ''a:3'' None] demo_sources) ''a:1'' = Some n' \<and>
     only_filled (demo_source ''a:1'' (Some ''a:2'')) n'"
  using source_link_only_fills [OF demo_sources_link, of "''a:1''" "demo_source ''a:1'' (Some ''a:2'')"]
  by (auto simp: get_source_def demo_sources_def demo_source_def)

end
