(* ===== verification/Plan_Intake.thy ===== *)
theory Plan_Intake
  imports Source_Chain Handler_Tasks Shared_Ids
begin

text \<open>
  The intake of plan sources (\<^verbatim>\<open>crates/core/src/plan_source.rs\<close>, ADR-0009): the project's policy over sources,
  the reference a new plan gets, the automatic parent of a repeated source, the refusal to open a second plan
  on the same subject, and \<^verbatim>\<open>ExtendSource\<close>. The regular expression engine, the date parser and the Unicode case
  tables are arguments (\<open>intake_env\<close>), as are the uuids drawn. An unreadable stored policy counts as none.
\<close>

record intake_env =
  ie_compiles :: "string \<Rightarrow> bool"
  ie_captures :: "string \<Rightarrow> string \<Rightarrow> (nat \<Rightarrow> string option) option"
  ie_valid_date :: "string \<Rightarrow> bool"
  ie_lowercase :: "string \<Rightarrow> string"
  ie_codec :: codec
  ie_note_id :: "nat \<Rightarrow> uuid"
  ie_probe_id :: uuid

definition MAX_PATTERN_LEN :: nat where
  "MAX_PATTERN_LEN = 512"

definition MAX_DERIVE_RULES :: nat where
  "MAX_DERIVE_RULES = 32"

definition MAX_CHANNELS :: nat where
  "MAX_CHANNELS = 32"

definition APPENDED_BRIEF_MAX :: nat where
  "APPENDED_BRIEF_MAX = 2000"

definition PLAN_CHOICE_MAX :: nat where
  "PLAN_CHOICE_MAX = 10"

definition PLAN_CHOICE_COMPLETED_DAYS :: int where
  "PLAN_CHOICE_COMPLETED_DAYS = 7"

definition TRUNK_BRANCHES :: "string list" where
  "TRUNK_BRANCHES = [''main'', ''master'', ''develop'', ''dev'', ''trunk'']"

definition INTAKE_MARKER :: string where
  "INTAKE_MARKER = ''daruma:legacy-intake''"

subsection \<open>The policy and its shape\<close>

definition invalid_intake :: "string \<Rightarrow> core_error" where
  "invalid_intake m = Unprocessable ''invalid_intake_source'' m JNull"

text \<open>A compiled pattern is the pattern itself.\<close>

definition compile_pattern :: "intake_env \<Rightarrow> string \<Rightarrow> string \<Rightarrow> string result" where
  "compile_pattern ie pattern what =
     (if char_count pattern > MAX_PATTERN_LEN then Inl (invalid_intake (what @ '' is longer than ''))
      else if \<not> ie_compiles ie pattern then Inl (invalid_intake (what @ '' `''))
      else Inr pattern)"

definition intake_policy_default :: intake_source_policy where
  "intake_policy_default = \<lparr>isp_mode = SourceWarn, isp_default_ref = None, isp_derive = [], isp_channels = []\<rparr>"

definition invalid_ref :: "string \<Rightarrow> string \<Rightarrow> unit result" where
  "invalid_ref what raw = (case normalize_source_ref raw of Inl e \<Rightarrow> Inl (invalid_intake (what @ '': '')) | Inr _ \<Rightarrow> Inr ())"

definition validate_derive_rule :: "intake_env \<Rightarrow> source_derive_rule \<Rightarrow> unit result" where
  "validate_derive_rule ie rule =
     (if sdr_from rule \<noteq> ''branch'' then Inl (invalid_intake ''derive.from `'')
      else bind_result (compile_pattern ie (sdr_pattern rule) ''derive.pattern'') (\<lambda>_.
        invalid_ref ''derive.ref'' (sdr_ref_template rule)))"

definition validate_channel :: "intake_env \<Rightarrow> source_channel \<Rightarrow> unit result" where
  "validate_channel ie channel =
     (if trim (sch_scheme channel) = [] then Inl (invalid_intake ''channels[].scheme must not be empty'')
      else case sch_pattern channel of
             Some pattern \<Rightarrow> bind_result (compile_pattern ie pattern ''channels[].pattern'') (\<lambda>_. Inr ())
           | None \<Rightarrow> Inr ())"

fun check_each :: "('a \<Rightarrow> unit result) \<Rightarrow> 'a list \<Rightarrow> unit result" where
  "check_each f [] = Inr ()"
| "check_each f (x # xs) = bind_result (f x) (\<lambda>_. check_each f xs)"

definition validate_policy :: "intake_env \<Rightarrow> intake_source_policy \<Rightarrow> unit result" where
  "validate_policy ie policy =
     (if length (isp_derive policy) > MAX_DERIVE_RULES then Inl (invalid_intake ''at most 32 derive rules are allowed'')
      else if length (isp_channels policy) > MAX_CHANNELS then Inl (invalid_intake ''at most 32 channels are allowed'')
      else bind_result (case isp_default_ref policy of Some r \<Rightarrow> invalid_ref ''default_ref'' r | None \<Rightarrow> Inr ()) (\<lambda>_.
        bind_result (check_each (validate_derive_rule ie) (isp_derive policy)) (\<lambda>_.
          check_each (validate_channel ie) (isp_channels policy))))"

text \<open>\<open>$1\<close> to \<open>$9\<close> stand for the groups; a group that did not take part gives no reference at all.\<close>

fun expand_template :: "string \<Rightarrow> (nat \<Rightarrow> string option) \<Rightarrow> string option" where
  "expand_template [] caps = Some []"
| "expand_template [c] caps = Some [c]"
| "expand_template (c # d # cs) caps =
     (if c = CHR ''$'' \<and> is_ascii_digit d \<and> d \<noteq> CHR ''0''
      then (case caps (of_char d - 48) of
              None \<Rightarrow> None
            | Some group_text \<Rightarrow> map_option (\<lambda>out. group_text @ out) (expand_template cs caps))
      else map_option (\<lambda>out. c # out) (expand_template (d # cs) caps))"

definition channel_matches :: "intake_env \<Rightarrow> source_channel \<Rightarrow> string \<Rightarrow> bool result" where
  "channel_matches ie channel source_ref =
     (if \<not> eq_ignore_ascii_case (hd (split_on (CHR '':'') source_ref)) (trim (sch_scheme channel)) then Inr False
      else case sch_pattern channel of
             None \<Rightarrow> Inr True
           | Some pattern \<Rightarrow> bind_result (compile_pattern ie pattern ''channels[].pattern'') (\<lambda>re.
               Inr (ie_captures ie re source_ref \<noteq> None)))"

definition normalized_ref :: "string \<Rightarrow> string result" where
  "normalized_ref raw = (case normalize_source_ref raw of Inl m \<Rightarrow> Inl (Validation m) | Inr r \<Rightarrow> Inr r)"

subsection \<open>The nodes of a request\<close>

definition request_inputs :: "source_input option \<Rightarrow> source_input list \<Rightarrow> source_input list" where
  "request_inputs head_input tail_inputs = (case head_input of Some h \<Rightarrow> h # si_upstream h | None \<Rightarrow> []) @ tail_inputs"

fun input_nodes :: "intake_env \<Rightarrow> bool \<Rightarrow> timestamp \<Rightarrow> actor \<Rightarrow> nat \<Rightarrow> source_input list \<Rightarrow> source_node list result" where
  "input_nodes ie headed now actor i [] = Inr []"
| "input_nodes ie headed now actor i (inp # inps) =
     (if (i > 0 \<or> \<not> headed) \<and> si_upstream inp \<noteq> []
      then Inl (Validation ''only the nearest source node may carry `upstream`'')
      else case to_node (ie_valid_date ie) inp (''note:'' @ cd_uuid_show (ie_codec ie) (ie_note_id ie i)) now actor of
             Inl m \<Rightarrow> Inl (Validation m)
           | Inr node \<Rightarrow> bind_result (input_nodes ie headed now actor (Suc i) inps) (\<lambda>nodes. Inr (node # nodes)))"

definition source_nodes ::
  "intake_env \<Rightarrow> handler_ctx \<Rightarrow> source_input option \<Rightarrow> source_input list \<Rightarrow> source_node list result" where
  "source_nodes ie x head_input tail_inputs =
     (let inputs = request_inputs head_input tail_inputs in
      if length inputs > SOURCE_CHAIN_MAX then Inl (chain_invalid ''a source chain holds at most '')
      else input_nodes ie (head_input \<noteq> None) (hx_now x) (hx_actor x) 0 inputs)"

definition prepare_plan_source ::
  "intake_env \<Rightarrow> handler_ctx \<Rightarrow> new_plan \<Rightarrow> (new_plan \<times> source_node list) result" where
  "prepare_plan_source ie x plan =
     (if np_source_brief plan = Some INTAKE_MARKER then Inl (Validation ''source_brief `'')
      else bind_result (case np_source_ref plan of
                          Some explicit \<Rightarrow> bind_result (normalized_ref explicit) (\<lambda>r. Inr (Some r)) | None \<Rightarrow> Inr None) (\<lambda>ref.
        bind_result (case np_source plan of Some src \<Rightarrow> source_nodes ie x (Some src) [] | None \<Rightarrow> Inr []) (\<lambda>nodes.
        bind_result (case nodes of
                       [] \<Rightarrow> Inr ref
                     | nearest # _ \<Rightarrow>
                         (case ref of
                            Some explicit \<Rightarrow>
                              if explicit \<noteq> sn_source_ref nearest then Inl (Validation ''`source.ref` `'') else Inr (Some explicit)
                          | None \<Rightarrow> Inr (Some (sn_source_ref nearest)))) (\<lambda>ref'.
        bind_result (case np_git_context plan of
                       None \<Rightarrow> Inr None
                     | Some g \<Rightarrow> (case git_normalized g of Inl m \<Rightarrow> Inl (Validation m) | Inr g' \<Rightarrow> Inr (Some g'))) (\<lambda>git.
          Inr (plan\<lparr>np_source_ref := ref', np_source := None, np_git_context := git\<rparr>, nodes))))))"

subsection \<open>The verdict of the policy\<close>

definition intake_policy :: "settings_table \<Rightarrow> uuid \<Rightarrow> intake_source_policy result" where
  "intake_policy st project =
     (case intake_source project st of
        Inr policy \<Rightarrow> Inr (unwrap_or intake_policy_default policy)
      | Inl (Serde _) \<Rightarrow> Inr intake_policy_default
      | Inl e \<Rightarrow> Inl e)"

fun first_channel :: "intake_env \<Rightarrow> string \<Rightarrow> source_channel list \<Rightarrow> source_channel option result" where
  "first_channel ie ref [] = Inr None"
| "first_channel ie ref (c # cs) =
     bind_result (channel_matches ie c ref) (\<lambda>hit. if hit then Inr (Some c) else first_channel ie ref cs)"

definition source_problem ::
  "intake_env \<Rightarrow> intake_source_policy \<Rightarrow> string option \<Rightarrow> bool \<Rightarrow> (string \<times> string) option result" where
  "source_problem ie policy source_ref explained =
     (case source_ref of
        None \<Rightarrow> Inr (Some (''plan_source_missing'',
          ''plan has no source: pass `source.ref` (MCP tools) / `plan.source_ref` (HTTP), a URI such as an issue URL''))
      | Some ref \<Rightarrow>
          bind_result (first_channel ie ref (isp_channels policy)) (\<lambda>matched.
            if isp_channels policy \<noteq> [] \<and> matched = None
            then Inr (Some (''plan_source_channel_mismatch'',
                   ''source `'' @ ref @ ''` matches none of the project's channels''))
            else if (case matched of Some c \<Rightarrow> sch_note_required c | None \<Rightarrow> False) \<and> \<not> explained
            then Inr (Some (''plan_source_note_required'', ''source `'' @ ref @
                   ''`: channel requires an explanation: pass source.note (or source_brief)''))
            else Inr None))"

definition channels_json :: "source_channel list \<Rightarrow> json" where
  "channels_json cs = JArray (map (\<lambda>c. JObject [(''scheme'', JString (sch_scheme c)),
     (''pattern'', json_opt (sch_pattern c)), (''label'', json_opt (sch_label c))]) cs)"

definition source_policy_findings ::
  "intake_env \<Rightarrow> intake_source_policy \<Rightarrow> string option \<Rightarrow> bool \<Rightarrow> mutation_warning list result" where
  "source_policy_findings ie policy source_ref explained =
     (if isp_mode policy = SourceOff then Inr []
      else bind_result (source_problem ie policy source_ref explained) (\<lambda>problem.
        case problem of
          None \<Rightarrow> Inr []
        | Some (code, message) \<Rightarrow>
            if isp_mode policy = SourceEnforce
            then Inl (Unprocessable ''plan_source_required'' message
                   (JObject [(''reason'', JString code), (''channels'', channels_json (isp_channels policy))]))
            else Inr [\<lparr>mw_code = code, mw_message = message,
                       mw_details = JObject [(''channels'', channels_json (isp_channels policy))]\<rparr>]))"

definition given_text :: "string option \<Rightarrow> bool" where
  "given_text v \<longleftrightarrow> (case v of Some s \<Rightarrow> trim s \<noteq> [] | None \<Rightarrow> False)"

definition node_explains :: "source_node \<Rightarrow> bool" where
  "node_explains n \<longleftrightarrow> given_text (sn_note n) \<or> starts_with ''note:'' (sn_source_ref n) \<and> given_text (sn_label n)"

definition source_explained :: "plan_store \<Rightarrow> string option \<Rightarrow> source_node option \<Rightarrow> string option \<Rightarrow> bool" where
  "source_explained ps source_brief incoming source_ref =
     (given_text source_brief \<or> (case incoming of Some n \<Rightarrow> node_explains n | None \<Rightarrow> False) \<or>
      (case Option.bind source_ref (get_source ps) of Some n \<Rightarrow> node_explains n | None \<Rightarrow> False))"


subsection \<open>The reference a new plan gets\<close>

fun derive_ref :: "intake_env \<Rightarrow> string option \<Rightarrow> source_derive_rule list \<Rightarrow> string option result" where
  "derive_ref ie branch [] = Inr None"
| "derive_ref ie branch (rule # rules) =
     (if sdr_from rule \<noteq> ''branch'' then derive_ref ie branch rules
      else case branch of
             None \<Rightarrow> Inr None
           | Some b \<Rightarrow>
               bind_result (compile_pattern ie (sdr_pattern rule) ''derive.pattern'') (\<lambda>re.
                 case Option.bind (ie_captures ie re b) (expand_template (sdr_ref_template rule)) of
                   Some derived \<Rightarrow> bind_result (normalized_ref derived) (\<lambda>r. Inr (Some r))
                 | None \<Rightarrow> derive_ref ie branch rules))"

text \<open>
  In order: the explicit reference, the parent's, a derived one, the project's default. The flag says whether the
  reference may attach the plan to an earlier one: only an explicit or derived reference does.
\<close>

definition policy_ref ::
  "intake_env \<Rightarrow> plan_store \<Rightarrow> intake_source_policy \<Rightarrow> new_plan \<Rightarrow> (string option \<times> bool) result" where
  "policy_ref ie ps policy plan =
     (case np_source_ref plan of
        Some r \<Rightarrow> Inr (Some r, \<not> starts_with ''note:'' r)
      | None \<Rightarrow>
          (case Option.bind (Option.bind (np_parent_plan_id plan) (plan_get ps)) pl_source_ref of
             Some r \<Rightarrow> Inr (Some r, False)
           | None \<Rightarrow>
               bind_result (derive_ref ie (Option.bind (np_git_context plan) git_branch) (isp_derive policy)) (\<lambda>derived.
                 case derived of
                   Some r \<Rightarrow> Inr (Some r, True)
                 | None \<Rightarrow>
                     (case isp_default_ref policy of
                        Some d \<Rightarrow> bind_result (normalized_ref d) (\<lambda>r. Inr (Some r, False))
                      | None \<Rightarrow> Inr (None, False)))))"

definition earliest_by_source_ref :: "plan_store \<Rightarrow> uuid \<Rightarrow> string \<Rightarrow> uuid option" where
  "earliest_by_source_ref ps project ref =
     (case sort_key pl_created_at (sort_key pl_id
        (filter (\<lambda>p. pl_project_id p = project \<and> pl_source_ref p = Some ref \<and> pl_archived_at p = None) (ps_plans ps))) of
        [] \<Rightarrow> None
      | p # _ \<Rightarrow> Some (pl_id p))"

definition auto_parented :: "intake_env \<Rightarrow> uuid \<Rightarrow> string \<Rightarrow> mutation_warning" where
  "auto_parented ie root ref =
     \<lparr>mw_code = ''plan_auto_parented'',
      mw_message = ''a plan with source `'' @ ref @ ''` already exists; this plan was attached to it as a child'',
      mw_details = JObject [(''parent_plan_id'', JString (cd_uuid_show (ie_codec ie) root)), (''source_ref'', JString ref)]\<rparr>"

definition auto_parent ::
  "intake_env \<Rightarrow> plan_store \<Rightarrow> bool \<Rightarrow> new_plan \<Rightarrow> (new_plan \<times> mutation_warning list) result" where
  "auto_parent ie ps may_auto_parent plan =
     (case (np_source_ref plan, np_parent_plan_id plan, may_auto_parent) of
        (Some ref, None, True) \<Rightarrow>
          (case earliest_by_source_ref ps (np_project_id plan) ref of
             None \<Rightarrow> Inr (plan, [])
           | Some root \<Rightarrow>
               (case detect_parent_cycle ps (ie_probe_id ie) root of
                  Inl e \<Rightarrow> Inl (Validation ''auto-parent to plan '')
                | Inr _ \<Rightarrow> Inr (plan\<lparr>np_parent_plan_id := Some root\<rparr>, [auto_parented ie root ref])))
      | _ \<Rightarrow> Inr (plan, []))"

definition apply_source_policy ::
  "intake_env \<Rightarrow> plan_store \<Rightarrow> settings_table \<Rightarrow> new_plan \<Rightarrow> source_node option \<Rightarrow>
   (new_plan \<times> mutation_warning list) result" where
  "apply_source_policy ie ps st plan nearest =
     bind_result (intake_policy st (np_project_id plan)) (\<lambda>policy.
     bind_result (policy_ref ie ps policy plan) (\<lambda>(ref, may).
     bind_result (auto_parent ie ps may (plan\<lparr>np_source_ref := ref\<rparr>)) (\<lambda>(plan', parented).
     bind_result (source_policy_findings ie policy ref (source_explained ps (np_source_brief plan) nearest ref)) (\<lambda>found.
       Inr (plan', parented @ found)))))"

definition bare_node :: "intake_env \<Rightarrow> handler_ctx \<Rightarrow> string \<Rightarrow> source_node result" where
  "bare_node ie x ref =
     (case to_node (ie_valid_date ie) (SourceInput (Some ref) None None None []) [] (hx_now x) (hx_actor x) of
        Inl m \<Rightarrow> Inl (Validation m) | Inr n \<Rightarrow> Inr n)"

definition plan_source_events ::
  "intake_env \<Rightarrow> handler_ctx \<Rightarrow> plan_store \<Rightarrow> new_plan \<Rightarrow> source_node list \<Rightarrow> (event list \<times> mutation_warning list) result" where
  "plan_source_events ie x ps plan nodes =
     (if nodes = [] \<and> np_source_ref plan = None then Inr ([], [])
      else bind_result (case (nodes, np_source_ref plan) of
                          ([], Some ref) \<Rightarrow> bind_result (bare_node ie x ref) (\<lambda>n. Inr [n]) | _ \<Rightarrow> Inr nodes) (\<lambda>nodes'.
        bind_result (link_sources ps nodes' True) (\<lambda>(upserts, warnings). Inr (link_events upserts, warnings))))"

definition resolve_plan_source ::
  "intake_env \<Rightarrow> handler_ctx \<Rightarrow> plan_store \<Rightarrow> settings_table \<Rightarrow> new_plan \<Rightarrow>
   (new_plan \<times> mutation_warning list \<times> event list) result" where
  "resolve_plan_source ie x ps st plan =
     bind_result (prepare_plan_source ie x plan) (\<lambda>(plan1, nodes).
     bind_result (apply_source_policy ie ps st plan1 (case nodes of n # _ \<Rightarrow> Some n | [] \<Rightarrow> None)) (\<lambda>(plan2, warnings).
     bind_result (plan_source_events ie x ps plan2 nodes) (\<lambda>(evs, kept).
       Inr (plan2, warnings @ kept, evs))))"

subsection \<open>Choosing a plan to continue\<close>

fun climb_chain :: "(string \<Rightarrow> string option) \<Rightarrow> nat \<Rightarrow> string list \<Rightarrow> string option \<Rightarrow> string list" where
  "climb_chain up 0 chain_refs cursor = chain_refs"
| "climb_chain up (Suc steps) chain_refs None = chain_refs"
| "climb_chain up (Suc steps) chain_refs (Some ref) =
     (if ref \<in> set chain_refs then chain_refs else climb_chain up steps (chain_refs @ [ref]) (up ref))"

definition pending_links :: "event list \<Rightarrow> (string \<times> string option) list" where
  "pending_links evs = rev (List.map_filter (\<lambda>e. case e of
     PlanEv (SourceUpserted n) \<Rightarrow> Some (sn_source_ref n, sn_upstream_ref n) | _ \<Rightarrow> None) evs)"

definition incoming_chain :: "plan_store \<Rightarrow> event list \<Rightarrow> string option \<Rightarrow> string list" where
  "incoming_chain ps evs ref =
     climb_chain (\<lambda>r. case map_of (pending_links evs) r of
                        Some up \<Rightarrow> up | None \<Rightarrow> Option.bind (get_source ps r) sn_upstream_ref) SOURCE_CHAIN_MAX [] ref"

definition subject_chain :: "string list \<Rightarrow> string option \<Rightarrow> string list" where
  "subject_chain refs default_ref =
     filter (\<lambda>r. Some r \<noteq> default_ref)
       (case refs of [] \<Rightarrow> [] | nearest # _ \<Rightarrow> if Some nearest = default_ref then [] else refs)"

definition carries_branch :: "task_store \<Rightarrow> string option \<Rightarrow> string \<Rightarrow> uuid \<Rightarrow> bool" where
  "carries_branch ts repo branch t \<longleftrightarrow>
     (case Option.bind (task_repo_get ts t) t_git_context of
        None \<Rightarrow> False
      | Some g \<Rightarrow> git_branch g = Some branch \<and> (repo = None \<or> git_repo g = repo))"

definition continuation_candidates ::
  "plan_store \<Rightarrow> task_store \<Rightarrow> uuid \<Rightarrow> string list \<Rightarrow> string option \<Rightarrow> string option \<Rightarrow> plan list" where
  "continuation_candidates ps ts project refs repo branch =
     (let below = (case refs of [] \<Rightarrow> [] | r # _ \<Rightarrow> map fst (source_levels ps SOURCE_CHAIN_MAX 0 [r])) in
      rev (sort_key pl_updated_at (sort_key pl_id (filter (\<lambda>p.
        pl_project_id p = project \<and> pl_archived_at p = None \<and> pl_status p \<in> {Draft, Active, Completed} \<and>
        ((case pl_source_ref p of Some r \<Rightarrow> r \<in> set refs \<or> r \<in> set below | None \<Rightarrow> False) \<or>
         (case branch of
            None \<Rightarrow> False
          | Some b \<Rightarrow> list_ex (\<lambda>pt. pt_plan_id pt = pl_id p \<and> carries_branch ts repo b (pt_task_id pt)) (ps_plan_tasks ps))))
        (ps_plans ps)))))"

fun label_chain :: "plan_store \<Rightarrow> nat \<Rightarrow> string option \<Rightarrow> string list" where
  "label_chain ps 0 cursor = []"
| "label_chain ps (Suc steps) None = []"
| "label_chain ps (Suc steps) (Some ref) =
     unwrap_or ref (Option.bind (get_source ps ref) sn_label) #
     label_chain ps steps (Option.bind (get_source ps ref) sn_upstream_ref)"

definition listed_plan :: "intake_env \<Rightarrow> world \<Rightarrow> plan \<Rightarrow> json" where
  "listed_plan ie w p =
     JObject [(''plan_id'', JString (cd_uuid_show (ie_codec ie) (pl_id p))), (''title'', JString (pl_title p)),
       (''goal'', JString (pl_goal p)), (''status'', JString (plan_status_json (pl_status p))),
       (''updated_at'', JString (cd_time_show (ie_codec ie) (pl_updated_at p))),
       (''source_label_chain'', JArray (map JString (label_chain (w_plans w) SOURCE_CHAIN_MAX (pl_source_ref p)))),
       (''recent_tasks'', JArray (map (\<lambda>t. JString (t_title t)) (List.map_filter (\<lambda>pt. task_repo_get (w_tasks w) (pt_task_id pt))
          (take 3 (rev (list_tasks_ordered (w_plans w) (pl_id p)))))))]"

text \<open>An arrow, in UTF-8.\<close>

definition arrow :: string where
  "arrow = [CHR 0xE2, CHR 0x86, CHR 0x92]"

definition plan_choice_hint :: string where
  "plan_choice_hint =
     ''same subject of work '' @ arrow @ '' plan.id (completed reopens); another subject '' @ arrow @
     '' plan.separate=true''"

definition working_branch :: "git_context option \<Rightarrow> string option" where
  "working_branch git =
     (case Option.bind git git_branch of
        None \<Rightarrow> None
      | Some b \<Rightarrow> if map char_lower b \<in> set TRUNK_BRANCHES then None else Some b)"

text \<open>The plans a new plan may continue, freshest first. Times are seconds.\<close>

definition plan_choices ::
  "intake_env \<Rightarrow> handler_ctx \<Rightarrow> world \<Rightarrow> new_plan \<Rightarrow> event list \<Rightarrow> plan list result" where
  "plan_choices ie x w plan evs =
     bind_result (intake_policy (rg_settings (w_registry w)) (np_project_id plan)) (\<lambda>policy.
     bind_result (case isp_default_ref policy of
                    None \<Rightarrow> Inr None | Some d \<Rightarrow> bind_result (normalized_ref d) (\<lambda>r. Inr (Some r))) (\<lambda>default_ref.
       let refs = subject_chain (incoming_chain (w_plans w) evs (np_source_ref plan)) default_ref;
           branch = working_branch (np_git_context plan);
           repo = (if branch = None then None else Option.bind (np_git_context plan) git_repo);
           since = hx_now x - PLAN_CHOICE_COMPLETED_DAYS * 86400
       in Inr (if refs = [] \<and> branch = None then []
               else filter (\<lambda>p. pl_status p \<noteq> Completed \<or> pl_updated_at p \<ge> since)
                      (continuation_candidates (w_plans w) (w_tasks w) (np_project_id plan) refs repo branch))))"

definition require_plan_choice ::
  "intake_env \<Rightarrow> handler_ctx \<Rightarrow> world \<Rightarrow> new_plan \<Rightarrow> event list \<Rightarrow> unit result" where
  "require_plan_choice ie x w plan evs =
     bind_result (plan_choices ie x w plan evs) (\<lambda>choices.
       if choices = [] then Inr ()
       else Inl (CodedConflict ''plan_choice_required'' []
              (JObject [(''candidates'', JArray (map (listed_plan ie w) (take PLAN_CHOICE_MAX choices))),
                (''total'', JNum (int (length choices))), (''hint'', JString plan_choice_hint)])))"


subsection \<open>Appending to a plan, extending a chain\<close>

definition trimmed_given :: "string option \<Rightarrow> string option" where
  "trimmed_given v = (case map_option trim v of Some s \<Rightarrow> if s \<noteq> [] then Some s else None | None \<Rightarrow> None)"

definition note_line :: "string \<Rightarrow> string option \<Rightarrow> string list" where
  "note_line what v = (case v of Some s \<Rightarrow> [what @ s] | None \<Rightarrow> [])"

definition keep_if :: "('a \<Rightarrow> bool) \<Rightarrow> 'a option \<Rightarrow> 'a option" where
  "keep_if P v = (case v of Some a \<Rightarrow> if P a then Some a else None | None \<Rightarrow> None)"

definition appended_source_note :: "intake_env \<Rightarrow> plan_store \<Rightarrow> plan \<Rightarrow> new_plan \<Rightarrow> string option result" where
  "appended_source_note ie ps plan incoming =
     bind_result (case or_opt (trimmed_given (Option.bind (np_source incoming) si_source_ref)) (trimmed_given (np_source_ref incoming)) of
                    None \<Rightarrow> Inr None | Some r \<Rightarrow> bind_result (normalized_ref r) (\<lambda>n. Inr (Some n))) (\<lambda>incoming_ref.
       let stored_label = Option.bind (Option.bind (pl_source_ref plan) (get_source ps)) sn_label;
           ref = keep_if (\<lambda>r. pl_source_ref plan \<noteq> Some r) incoming_ref;
           label = keep_if (\<lambda>l. trimmed_given stored_label \<noteq> Some l) (trimmed_given (Option.bind (np_source incoming) si_label));
           brief = keep_if (\<lambda>b. trimmed_given (pl_source_brief plan) \<noteq> Some b) (trimmed_given (np_source_brief incoming));
           lines = note_line ''Source: '' ref @ note_line ''Source label: '' label @
                   note_line ''Brief: '' (map_option (take_chars APPENDED_BRIEF_MAX) brief)
       in Inr (if lines = [] then None
               else Some (''Added to plan '' @ id_display (ie_codec ie) ''pln'' (pl_id plan) @
                      '' from a source other than the plan's own (`'' @ unwrap_or ''none'' (pl_source_ref plan) @ ''`, kept).'' @
                      [CHR 0x0A] @ join_with (CHR 0x0A) lines)))"

fun chain_top :: "plan_store \<Rightarrow> nat \<Rightarrow> string \<Rightarrow> string" where
  "chain_top ps 0 ref = ref"
| "chain_top ps (Suc steps) ref =
     (case Option.bind (get_source ps ref) sn_upstream_ref of
        Some up \<Rightarrow> chain_top ps steps up | None \<Rightarrow> ref)"

definition first_source ::
  "intake_env \<Rightarrow> handler_ctx \<Rightarrow> plan_store \<Rightarrow> settings_table \<Rightarrow> plan \<Rightarrow> source_input \<Rightarrow> source_input list \<Rightarrow>
   (mutation_warning list \<times> event list) result" where
  "first_source ie x ps st plan src upstream =
     bind_result (source_nodes ie x (Some src) upstream) (\<lambda>nodes.
       let nearest = sn_source_ref (hd nodes) in
       bind_result (intake_policy st (pl_project_id plan)) (\<lambda>policy.
       bind_result (source_policy_findings ie policy (Some nearest)
           (source_explained ps (pl_source_brief plan) (Some (hd nodes)) (Some nearest))) (\<lambda>warnings.
       bind_result (link_sources ps nodes False) (\<lambda>(upserts, _).
         Inr (warnings, link_events upserts @ [PlanEv (PlanSourceSet (pl_id plan) nearest (hx_now x))])))))"

definition extend_from ::
  "intake_env \<Rightarrow> handler_ctx \<Rightarrow> plan_store \<Rightarrow> bool \<Rightarrow> string \<Rightarrow> source_input list \<Rightarrow>
   (mutation_warning list \<times> event list) result" where
  "extend_from ie x ps by_ref start upstream =
     (if upstream = [] then Inl (Validation ''`upstream` (nearest first) is required to extend a chain'')
      else let top_ref = chain_top ps SOURCE_CHAIN_MAX start in
        if by_ref \<and> top_ref \<noteq> start
        then Inl (CodedConflict ''source_upstream_conflict'' ''source `'' (JObject [(''ref'', JString start), (''top'', JString top_ref)]))
        else bind_result (bare_node ie x top_ref) (\<lambda>node.
             bind_result (source_nodes ie x None upstream) (\<lambda>nodes.
             bind_result (link_sources ps (node # nodes) False) (\<lambda>(upserts, _). Inr ([], link_events upserts)))))"

definition extend_source ::
  "intake_env \<Rightarrow> handler_ctx \<Rightarrow> plan_store \<Rightarrow> settings_table \<Rightarrow> uuid option \<Rightarrow> string option \<Rightarrow> source_input option \<Rightarrow>
   source_input list \<Rightarrow> (mutation_warning list \<times> event list) result" where
  "extend_source ie x ps st plan_id source_ref src upstream =
     (case (plan_id, source_ref) of
        (Some i, None) \<Rightarrow>
          (case plan_get ps i of
             None \<Rightarrow> Inl (NotFound ''plan '')
           | Some plan \<Rightarrow>
               (case (pl_source_ref plan, src) of
                  (None, Some s) \<Rightarrow> first_source ie x ps st plan s upstream
                | (None, None) \<Rightarrow> Inl (Validation ''plan '')
                | (Some set_ref, Some _) \<Rightarrow> Inl (CodedConflict ''plan_source_already_set'' ''plan '' JNull)
                | (Some set_ref, None) \<Rightarrow> extend_from ie x ps False set_ref upstream))
      | (None, Some raw) \<Rightarrow>
          if src \<noteq> None
          then Inl (Validation ''`source` sets a plan's first source: pass `plan_id`, or `upstream` to extend `ref`'')
          else bind_result (normalized_ref raw) (\<lambda>start.
                 if get_source ps start = None then Inl (NotFound ''source `'')
                 else extend_from ie x ps True start upstream)
      | _ \<Rightarrow> Inl (Validation ''pass exactly one of `plan_id` / `ref`''))"

subsection \<open>A plan that reads like raw material\<close>

text \<open>The first four words are Cyrillic, in UTF-8.\<close>

definition RAW_WORDS :: "string list" where
  "RAW_WORDS =
     map (map char_of)
       [[208, 184, 209, 129, 209, 129, 208, 187, 208, 181, 208, 180, 208, 190, 208, 178, 208, 176, 209, 130, 209, 140 :: nat],
        [208, 191, 208, 190, 208, 180, 209, 131, 208, 188, 208, 176, 209, 130, 209, 140],
        [209, 128, 208, 176, 208, 183, 208, 190, 208, 177, 209, 128, 208, 176, 209, 130, 209, 140, 209, 129, 209, 143],
        [208, 184, 208, 180, 208, 181, 209, 143]] @
     [''explore'', ''investigate'', ''research'', ''idea'']"

fun contains_text :: "string \<Rightarrow> string \<Rightarrow> bool" where
  "contains_text w [] \<longleftrightarrow> w = []"
| "contains_text w (c # cs) \<longleftrightarrow> starts_with w (c # cs) \<or> contains_text w cs"

definition blank_text :: "string option \<Rightarrow> bool" where
  "blank_text v \<longleftrightarrow> (case v of None \<Rightarrow> True | Some s \<Rightarrow> trim s = [])"

definition plan_looks_raw :: "intake_env \<Rightarrow> new_plan \<Rightarrow> new_task list \<Rightarrow> mutation_warning option" where
  "plan_looks_raw ie plan tasks =
     (if \<not> blank_text (np_goal plan) \<or> (case np_success_criteria plan of Some c \<Rightarrow> c \<noteq> [] | None \<Rightarrow> False) \<or> length tasks > 1
      then None
      else if list_ex (\<lambda>t. list_ex (\<lambda>w. contains_text w (ie_lowercase ie t)) RAW_WORDS) (np_title plan # map nt_title tasks)
      then Some \<lparr>mw_code = ''plan_looks_raw'',
             mw_message = ''plan has no goal or success_criteria, at most one task and an exploratory title: it looks like raw material '' @
               [CHR 0xE2, CHR 0x80, CHR 0x94] @ '' consider mcpbox_pipeline_run'',
             mw_details = JObject []\<rparr>
      else None)"


subsection \<open>What the policy guarantees\<close>

lemma first_channel_Inr:
  "first_channel ie ref cs = Inr hit \<Longrightarrow>
   (case hit of Some c \<Rightarrow> c \<in> set cs \<and> channel_matches ie c ref = Inr True
    | None \<Rightarrow> \<forall>c \<in> set cs. channel_matches ie c ref = Inr False)"
  by (induction cs) (auto simp: bind_result_Inr_iff split: if_splits option.splits)

lemma enforced_findings:
  assumes "source_policy_findings ie policy source_ref explained = Inr ws" "isp_mode policy = SourceEnforce"
  obtains ref where "source_ref = Some ref"
    "isp_channels policy = [] \<or>
     (\<exists>c \<in> set (isp_channels policy). channel_matches ie c ref = Inr True \<and> (sch_note_required c \<longrightarrow> explained))"
proof -
  have none: "source_problem ie policy source_ref explained = Inr None"
    using assms by (auto simp: source_policy_findings_def bind_result_Inr_iff split: option.splits prod.splits) (metis option.exhaust surj_pair)
  then obtain ref where ref: "source_ref = Some ref" by (auto simp: source_problem_def split: option.splits)
  then obtain matched where matched: "first_channel ie ref (isp_channels policy) = Inr matched"
    and "isp_channels policy = [] \<or> matched \<noteq> None"
    and "(case matched of Some c \<Rightarrow> sch_note_required c | None \<Rightarrow> False) \<longrightarrow> explained"
    using none by (auto simp: source_problem_def bind_result_Inr_iff split: if_splits)
  then show thesis using that [OF ref] first_channel_Inr [OF matched] by (cases matched) auto
qed

lemma auto_parent_keeps:
  "auto_parent ie ps may plan = Inr (plan', ws) \<Longrightarrow>
   np_source_ref plan' = np_source_ref plan \<and> np_project_id plan' = np_project_id plan \<and>
   np_source_brief plan' = np_source_brief plan \<and>
   (np_parent_plan_id plan \<noteq> None \<longrightarrow> np_parent_plan_id plan' = np_parent_plan_id plan)"
  by (auto simp: auto_parent_def split: option.splits bool.splits sum.splits)

lemma prepare_keeps:
  "prepare_plan_source ie x plan = Inr (plan', nodes) \<Longrightarrow>
   np_project_id plan' = np_project_id plan \<and> np_source_brief plan' = np_source_brief plan \<and>
   np_parent_plan_id plan' = np_parent_plan_id plan"
  by (auto simp: prepare_plan_source_def bind_result_Inr_iff split: if_splits)

lemma resolve_plan_source_Inr:
  assumes "resolve_plan_source ie x ps st plan = Inr (plan', ws, evs)"
  obtains policy explained found where "intake_policy st (np_project_id plan) = Inr policy"
    "source_policy_findings ie policy (np_source_ref plan') explained = Inr found"
    "np_project_id plan' = np_project_id plan"
proof -
  obtain plan1 nodes where p1: "prepare_plan_source ie x plan = Inr (plan1, nodes)"
    and p2: "\<exists>ws. apply_source_policy ie ps st plan1 (case nodes of n # _ \<Rightarrow> Some n | [] \<Rightarrow> None) = Inr (plan', ws)"
    using assms by (auto simp: resolve_plan_source_def bind_result_Inr_iff)
  then obtain policy ref may ws2 found where
    policy: "intake_policy st (np_project_id plan1) = Inr policy" and
    auto: "auto_parent ie ps may (plan1\<lparr>np_source_ref := ref\<rparr>) = Inr (plan', ws2)" and
    found: "source_policy_findings ie policy ref
      (source_explained ps (np_source_brief plan1) (case nodes of n # _ \<Rightarrow> Some n | [] \<Rightarrow> None) ref) = Inr found"
    by (auto simp: apply_source_policy_def bind_result_Inr_iff)
  then show thesis using that auto_parent_keeps [OF auto] prepare_keeps [OF p1] by simp
qed

text \<open>
  C39: Enforcement is complete. Under an enforcing policy every plan that passes intake has a source reference,
  and when the project names channels, the reference lies in one of them.
\<close>

theorem enforced_plan_has_source:
  assumes "resolve_plan_source ie x ps st plan = Inr (plan', ws, evs)"
    and "intake_policy st (np_project_id plan) = Inr policy" "isp_mode policy = SourceEnforce"
  shows "\<exists>ref. np_source_ref plan' = Some ref \<and>
    (isp_channels policy = [] \<or> (\<exists>c \<in> set (isp_channels policy). channel_matches ie c ref = Inr True))"
proof -
  obtain explained found where "source_policy_findings ie policy (np_source_ref plan') explained = Inr found"
    using resolve_plan_source_Inr [OF assms(1)] assms(2) by (metis sum.inject(2))
  from enforced_findings [OF this assms(3)] show ?thesis by (metis (no_types, lifting))
qed

lemma check_each_Inr: "check_each f xs = Inr () \<longleftrightarrow> (\<forall>x \<in> set xs. f x = Inr ())"
  by (induction xs) (auto simp: bind_result_Inr_iff)

lemma valid_channel_matches: "validate_channel ie c = Inr () \<Longrightarrow> \<exists>b. channel_matches ie c ref = Inr b"
  by (auto simp: validate_channel_def channel_matches_def bind_result_Inr_iff split: if_splits option.splits)

lemma valid_first_channel: "\<forall>c \<in> set cs. validate_channel ie c = Inr () \<Longrightarrow> \<exists>hit. first_channel ie ref cs = Inr hit"
proof (induction cs)
  case (Cons c cs)
  then obtain b hit where "channel_matches ie c ref = Inr b" "first_channel ie ref cs = Inr hit"
    using valid_channel_matches [of ie c ref] by auto
  then show ?case by (cases b) auto
qed simp

text \<open>
  A policy that was accepted can be applied. When \<open>validate_policy\<close> accepted it, checking any source against
  it succeeds, except that an enforcing policy may refuse with \<^verbatim>\<open>plan_source_required\<close>; a warning policy never
  refuses, whatever the source.
\<close>

theorem valid_policy_applies:
  assumes "validate_policy ie policy = Inr ()"
  shows "case source_policy_findings ie policy source_ref explained of
           Inr ws \<Rightarrow> True
         | Inl e \<Rightarrow> isp_mode policy = SourceEnforce \<and> error_code e = ''plan_source_required''"
proof -
  have "\<forall>c \<in> set (isp_channels policy). validate_channel ie c = Inr ()"
    using assms by (auto simp: validate_policy_def bind_result_Inr_iff check_each_Inr split: if_splits)
  then have applies: "\<exists>hit. first_channel ie ref (isp_channels policy) = Inr hit" for ref by (rule valid_first_channel)
  have "\<exists>problem. source_problem ie policy source_ref explained = Inr problem"
  proof (cases source_ref)
    case (Some ref)
    then show ?thesis using applies [of ref] by (auto simp: source_problem_def)
  qed (simp add: source_problem_def)
  then show ?thesis by (auto simp: source_policy_findings_def split: option.splits)
qed

subsection \<open>What the plan choice guarantees\<close>

lemma set_continuation_candidates:
  "p \<in> set (continuation_candidates ps ts project refs repo branch) \<longleftrightarrow>
   p \<in> set (ps_plans ps) \<and> pl_project_id p = project \<and> pl_archived_at p = None \<and> pl_status p \<in> {Draft, Active, Completed} \<and>
   ((\<exists>r. pl_source_ref p = Some r \<and> (r \<in> set refs \<or> refs \<noteq> [] \<and> r \<in> fst ` set (source_levels ps SOURCE_CHAIN_MAX 0 [hd refs]))) \<or>
    (\<exists>b. branch = Some b \<and> (\<exists>pt \<in> set (ps_plan_tasks ps). pt_plan_id pt = pl_id p \<and> carries_branch ts repo b (pt_task_id pt))))"
  by (cases refs) (auto simp: continuation_candidates_def Let_def list_ex_iff split: option.splits)

text \<open>
  A second plan on a subject is never opened unasked. When the choice lets a new plan pass, the project has no
  open plan (draft or active, not archived) whose source lies in the new plan's chain, project default aside, and
  none with a task on the new plan's working branch and repository.
\<close>

theorem plan_choice_complete:
  assumes "require_plan_choice ie x w plan evs = Inr ()" "intake_policy (rg_settings (w_registry w)) (np_project_id plan) = Inr policy"
    and "isp_default_ref policy = None" and "p \<in> set (ps_plans (w_plans w))" "pl_project_id p = np_project_id plan"
    and "pl_archived_at p = None" "pl_status p \<in> {Draft, Active}"
  shows "(\<forall>r \<in> set (incoming_chain (w_plans w) evs (np_source_ref plan)). pl_source_ref p \<noteq> Some r) \<and>
    (case working_branch (np_git_context plan) of
       None \<Rightarrow> True
     | Some b \<Rightarrow> \<not> (\<exists>pt \<in> set (ps_plan_tasks (w_plans w)). pt_plan_id pt = pl_id p \<and>
         carries_branch (w_tasks w) (Option.bind (np_git_context plan) git_repo) b (pt_task_id pt)))"
proof -
  let ?refs = "incoming_chain (w_plans w) evs (np_source_ref plan)" and ?b = "working_branch (np_git_context plan)"
  let ?repo = "if ?b = None then None else Option.bind (np_git_context plan) git_repo"
  have refs: "subject_chain ?refs None = ?refs" by (cases ?refs) (auto simp: subject_chain_def)
  have "?refs = [] \<and> ?b = None \<or>
    p \<notin> set (continuation_candidates (w_plans w) (w_tasks w) (np_project_id plan) ?refs ?repo ?b)"
    using assms(1-3,7) by (auto simp: require_plan_choice_def plan_choices_def bind_result_Inr_iff Let_def refs filter_empty_conv
        split: if_splits)
  then show ?thesis using assms(4-7) by (auto simp: set_continuation_candidates split: option.splits)
qed


subsection \<open>Worked examples\<close>

definition demo_intake :: intake_env where
  "demo_intake = \<lparr>ie_compiles = (\<lambda>_. True), ie_captures = (\<lambda>p s. if starts_with p s then Some (\<lambda>_. None) else None),
     ie_valid_date = (\<lambda>_. True), ie_lowercase = map char_lower, ie_codec = demo_codec, ie_note_id = (\<lambda>i. i), ie_probe_id = 0\<rparr>"

definition demo_policy :: "intake_source_mode \<Rightarrow> intake_source_policy" where
  "demo_policy mode = \<lparr>isp_mode = mode, isp_default_ref = None, isp_derive = [],
     isp_channels = [\<lparr>sch_scheme = ''https'', sch_pattern = None, sch_label = None, sch_note_required = False\<rparr>]\<rparr>"

definition demo_settings :: settings_table where
  "demo_settings = [((70, ''intake_source''), IntakeSourceValue (demo_policy SourceEnforce))]"

definition demo_new_plan :: new_plan where
  "demo_new_plan = (new_plan ''demo'' 70 actor_user)\<lparr>np_source_ref := Some ''https://x.io/1''\<rparr>"

lemma demo_source_resolved:
  "resolve_plan_source demo_intake demo_ctx demo_sources demo_settings demo_new_plan =
     Inr (demo_new_plan, [], [PlanEv (SourceUpserted \<lparr>sn_source_ref = ''https://x.io/1'', sn_label = None, sn_occurred_at = None,
       sn_note = None, sn_upstream_ref = None, sn_created_at = 9, sn_created_by = Some actor_user\<rparr>)])"
  by code_simp

lemma enforced_plan_has_source_witness:
  "\<exists>ref. np_source_ref demo_new_plan = Some ref \<and>
    (\<exists>c \<in> set (isp_channels (demo_policy SourceEnforce)). channel_matches demo_intake c ref = Inr True)"
proof -
  have "intake_policy demo_settings (np_project_id demo_new_plan) = Inr (demo_policy SourceEnforce)"
    by (simp add: intake_policy_def intake_source_def demo_settings_def demo_new_plan_def new_plan_def)
  from enforced_plan_has_source [OF demo_source_resolved this] show ?thesis by (simp add: demo_policy_def)
qed

lemma valid_policy_applies_witness:
  "case source_policy_findings demo_intake (demo_policy SourceEnforce) None False of
     Inr ws \<Rightarrow> False | Inl e \<Rightarrow> error_code e = ''plan_source_required''"
proof -
  have "validate_policy demo_intake (demo_policy SourceEnforce) = Inr ()"
    by (simp add: validate_policy_def demo_policy_def validate_channel_def MAX_DERIVE_RULES_def MAX_CHANNELS_def trim_def is_space_def)
  from valid_policy_applies [OF this, of None False] show ?thesis
    by (simp add: source_policy_findings_def source_problem_def demo_policy_def)
qed

definition demo_sourced_plan :: plan where
  "demo_sourced_plan = (demo_plan 5 Active)\<lparr>pl_source_ref := Some ''https://x.io/2''\<rparr>"

definition demo_choice_world :: world where
  "demo_choice_world = demo_world\<lparr>w_plans := \<lparr>ps_plans = [demo_sourced_plan], ps_plan_tasks = [], ps_sources = []\<rparr>\<rparr>"

lemma demo_choices:
  "require_plan_choice demo_intake demo_ctx demo_choice_world demo_new_plan [] = Inr () \<and>
   plan_choices demo_intake demo_ctx demo_choice_world (demo_new_plan\<lparr>np_source_ref := Some ''https://x.io/2''\<rparr>) [] =
     Inr [demo_sourced_plan]"
  by code_simp

lemma plan_choice_complete_witness:
  "incoming_chain (w_plans demo_choice_world) [] (np_source_ref demo_new_plan) = [''https://x.io/1''] \<and>
   pl_source_ref demo_sourced_plan \<noteq> Some ''https://x.io/1''"
proof -
  have chain_refs: "incoming_chain (w_plans demo_choice_world) [] (np_source_ref demo_new_plan) = [''https://x.io/1'']"
    by code_simp
  have "intake_policy (rg_settings (w_registry demo_choice_world)) (np_project_id demo_new_plan) = Inr intake_policy_default"
    by (simp add: intake_policy_def intake_source_def demo_choice_world_def demo_world_def empty_registry_def)
  from plan_choice_complete [OF conjunct1 [OF demo_choices] this, of demo_sourced_plan] chain_refs show ?thesis
    by (simp add: intake_policy_default_def demo_choice_world_def demo_sourced_plan_def demo_plan_def into_plan_def
        new_plan_def demo_new_plan_def)
qed

end
