(* ===== verification/Handler_Intake.thy ===== *)
theory Handler_Intake
  imports Plan_Intake
begin

text \<open>
  Plan creation in \<^verbatim>\<open>crates/core/src/handler.rs\<close>: the arms \<^verbatim>\<open>CreatePlan\<close> and \<^verbatim>\<open>MaterializePlan\<close> (a new plan with its
  tasks, or tasks appended to an existing plan) and the provenance links of the batch. The first draw of the supply is the plan id; the task with index
  \<open>k\<close> draws \<open>2k + 1\<close> for itself and \<open>2k + 2\<close> for a comment.
\<close>

definition checked_plan_title :: "new_plan \<Rightarrow> new_plan result" where
  "checked_plan_title plan =
     (let title = trim (np_title plan) in
      if title = [] then Inl (Validation ''plan title must not be empty'')
      else if length title > 500 then Inl (Validation ''plan title must not exceed 500 characters'')
      else Inr (plan\<lparr>np_title := title\<rparr>))"

text \<open>The checks the arms for a new plan share: title, quota, parent.\<close>

definition checked_new_plan :: "handler_ctx \<Rightarrow> world \<Rightarrow> new_plan \<Rightarrow> new_plan result" where
  "checked_new_plan x w plan =
     bind_result (checked_plan_title plan) (\<lambda>plan'.
     bind_result (check_plan_quota (w_tenants w) (rg_projects (w_registry w)) (w_plans w) (np_project_id plan')) (\<lambda>_.
     bind_result (case np_parent_plan_id plan' of
                    Some parent \<Rightarrow> detect_parent_cycle (w_plans w) (hx_fresh x 0) parent | None \<Rightarrow> Inr ()) (\<lambda>_.
       Inr plan')))"

definition build_create_plan ::
  "handler_ctx \<Rightarrow> world \<Rightarrow> new_plan \<Rightarrow> (string \<times> string \<times> string) option \<Rightarrow> event list result" where
  "build_create_plan x w plan external =
     (if (case external of Some r \<Rightarrow> external_lookup (w_external_refs w) r \<noteq> None | None \<Rightarrow> False) then Inr []
      else bind_result (checked_new_plan x w plan) (\<lambda>plan'.
        Inr [PlanEv (PlanCreated (into_plan plan' (hx_fresh x 0) (hx_now x)))]))"

record materialize_target =
  mt_plan_id :: uuid
  mt_project_id :: uuid
  mt_git_context :: "git_context option"
  mt_members :: "uuid list"
  mt_source_note :: "string option"

definition checked_task :: "materialize_target \<Rightarrow> string list \<Rightarrow> new_task \<Rightarrow> new_task result" where
  "checked_task target keys task =
     (let title = trim (nt_title task) in
      if title = [] then Inl (Validation ''task title must not be empty'')
      else if length title > 500 then Inl (Validation ''task title must not exceed 500 characters'')
      else let task = normalize_external_key (task\<lparr>nt_title := title\<rparr>) in
        if (case nt_external_key task of Some key \<Rightarrow> key \<in> set keys | None \<Rightarrow> False)
        then Inl (Validation ''duplicate_external_key_in_materialize_plan: `'')
        else Inr (task\<lparr>nt_status := Some (unwrap_or Todo (nt_status task)), nt_project_id := Some (mt_project_id target)\<rparr>))"

text \<open>The task a materialised task stands for, and the events that create or re-deliver it.\<close>

definition landed_task ::
  "handler_ctx \<Rightarrow> world \<Rightarrow> materialize_target \<Rightarrow> nat \<Rightarrow> new_task \<Rightarrow> (uuid \<times> event list) result" where
  "landed_task x w target k task =
     (case Option.bind (nt_external_key task) (\<lambda>key. map_option (Pair key) (find_by_external_key (w_tasks w) key)) of
        Some (key, existing) \<Rightarrow>
          if t_project_id existing \<noteq> Some (mt_project_id target)
          then Inl (Validation ''external_key_project_mismatch: external_key `'')
          else Inr (t_id existing, redelivered_create_events x (2 * k + 2) (t_id existing) key task)
      | None \<Rightarrow>
          let i = unwrap_or (hx_fresh x (2 * k + 1)) (nt_id task) in
          Inr (i, TaskEv (TaskCreated (task\<lparr>nt_id := Some i\<rparr>)) #
                  (case mt_git_context target of
                     Some g \<Rightarrow> [TaskEv (TaskUpdated i (empty_patch\<lparr>tp_git_context := Some (Some g)\<rparr>))] | None \<Rightarrow> []) @
                  (case mt_source_note target of
                     Some note_body \<Rightarrow> task_comment_events x (2 * k + 2) i note_body None | None \<Rightarrow> [])))"

fun materialized_task_events ::
  "handler_ctx \<Rightarrow> world \<Rightarrow> materialize_target \<Rightarrow> nat \<Rightarrow> 32 word \<Rightarrow> string list \<Rightarrow> new_task list \<Rightarrow> event list result" where
  "materialized_task_events x w target k pos keys [] = Inr []"
| "materialized_task_events x w target k pos keys (raw # raws) =
     bind_result (checked_task target keys raw) (\<lambda>task.
     bind_result (landed_task x w target k task) (\<lambda>(i, evs).
       let keys' = (case nt_external_key task of Some key \<Rightarrow> key # keys | None \<Rightarrow> keys);
           member = i \<in> set (mt_members target)
       in bind_result (materialized_task_events x w target (Suc k) (if member then pos else pos + 1) keys' raws) (\<lambda>rest.
            Inr (evs @ (if member then [] else [PlanEv (PlanTaskAdded (mt_plan_id target) i pos [])]) @ rest))))"

definition build_materialize_new ::
  "handler_ctx \<Rightarrow> world \<Rightarrow> new_plan \<Rightarrow> new_task list \<Rightarrow> event list result" where
  "build_materialize_new x w plan tasks =
     (if tasks = [] then Inl (Validation ''materialize_plan requires at least one task'')
      else bind_result (checked_new_plan x w plan) (\<lambda>plan'.
        let i = hx_fresh x 0;
            created = (into_plan (plan'\<lparr>np_git_context := None\<rparr>) i (hx_now x))\<lparr>pl_status := Active\<rparr>;
            target = \<lparr>mt_plan_id = i, mt_project_id = np_project_id plan', mt_git_context = np_git_context plan',
                      mt_members = [], mt_source_note = None\<rparr>
        in bind_result (materialized_task_events x w target 0 0 [] tasks) (\<lambda>evs.
             Inr (PlanEv (PlanCreated created) # evs))))"

definition latest_git_context :: "world \<Rightarrow> plan_task list \<Rightarrow> git_context option" where
  "latest_git_context w members =
     (case List.map_filter (\<lambda>pt. Option.bind (task_repo_get (w_tasks w) (pt_task_id pt)) t_git_context) (rev members) of
        [] \<Rightarrow> None | g # _ \<Rightarrow> Some g)"

definition reopening_events :: "plan \<Rightarrow> event list result" where
  "reopening_events plan =
     (if pl_archived_at plan \<noteq> None then Inl (Validation ''plan '')
      else case pl_status plan of
             Abandoned \<Rightarrow> Inl (Validation ''plan '')
           | Completed \<Rightarrow> Inr [PlanEv (PlanStatusChanged (pl_id plan) Completed Active)]
           | _ \<Rightarrow> Inr [])"

definition append_materialized_tasks ::
  "intake_env \<Rightarrow> handler_ctx \<Rightarrow> world \<Rightarrow> uuid \<Rightarrow> new_plan \<Rightarrow> new_task list \<Rightarrow> event list result" where
  "append_materialized_tasks ie x w plan_id plan tasks =
     bind_result (get_plan w plan_id) (\<lambda>existing.
     bind_result (reopening_events existing) (\<lambda>reopened.
     bind_result (appended_source_note ie (w_plans w) existing plan) (\<lambda>source_note.
       let members = list_tasks_ordered (w_plans w) plan_id in
       bind_result (case np_git_context plan of
                      None \<Rightarrow> Inr (latest_git_context w members)
                    | Some g \<Rightarrow> (case git_normalized g of Inl m \<Rightarrow> Inl (Validation m) | Inr g' \<Rightarrow> Inr (Some g'))) (\<lambda>git.
         let target = \<lparr>mt_plan_id = plan_id, mt_project_id = pl_project_id existing, mt_git_context = git,
                       mt_members = map pt_task_id members, mt_source_note = source_note\<rparr>
         in bind_result (materialized_task_events x w target 0 (next_position w plan_id) [] tasks) (\<lambda>evs.
              Inr (reopened @ evs))))))"

definition build_materialize_into ::
  "intake_env \<Rightarrow> handler_ctx \<Rightarrow> world \<Rightarrow> uuid \<Rightarrow> new_plan \<Rightarrow> new_task list \<Rightarrow> event list result" where
  "build_materialize_into ie x w plan_id plan tasks =
     (if tasks = [] then Inl (Validation ''materialize_plan requires at least one task'')
      else append_materialized_tasks ie x w plan_id plan tasks)"

subsection \<open>Provenance\<close>

definition first_envelope :: "(event \<Rightarrow> bool) \<Rightarrow> event_envelope list \<Rightarrow> uuid option" where
  "first_envelope P envs = map_option en_id (find (\<lambda>env. P (en_payload env)) envs)"

definition materialize_anchor :: "event_envelope list \<Rightarrow> uuid option" where
  "materialize_anchor envs =
     or_opt (first_envelope (\<lambda>e. case e of PlanEv (PlanCreated _) \<Rightarrow> True | _ \<Rightarrow> False) envs)
       (or_opt (first_envelope (\<lambda>e. case e of PlanEv (PlanStatusChanged _ _ _) \<Rightarrow> True | _ \<Rightarrow> False) envs)
               (first_envelope (\<lambda>e. case e of PlanEv (PlanTaskAdded _ _ _ _) \<Rightarrow> True | _ \<Rightarrow> False) envs))"

definition relink_materialised_provenance :: "event_envelope list \<Rightarrow> event_envelope list" where
  "relink_materialised_provenance envs =
     (case materialize_anchor envs of
        None \<Rightarrow> envs
      | Some anchor \<Rightarrow>
          map (\<lambda>env. case en_payload env of
                 TaskEv (TaskCreated n) \<Rightarrow> env\<lparr>en_payload := TaskEv (TaskCreated (n\<lparr>nt_source_event_id := Some anchor\<rparr>))\<rparr>
               | _ \<Rightarrow> env) envs)"


subsection \<open>What a materialised batch holds\<close>

definition added_members :: "event list \<Rightarrow> (uuid \<times> uuid \<times> 32 word) list" where
  "added_members evs = List.map_filter (\<lambda>e. case e of PlanEv (PlanTaskAdded p t pos _) \<Rightarrow> Some (p, t, pos) | _ \<Rightarrow> None) evs"

definition created_tasks :: "event list \<Rightarrow> uuid list" where
  "created_tasks evs = List.map_filter (\<lambda>e. case e of TaskEv (TaskCreated n) \<Rightarrow> nt_id n | _ \<Rightarrow> None) evs"

lemma added_members_simps [simp]:
  "added_members [] = []" "added_members (evs @ evs') = added_members evs @ added_members evs'"
  "added_members (PlanEv (PlanTaskAdded p t pos deps) # evs) = (p, t, pos) # added_members evs"
  "added_members (PlanEv (PlanCreated pl) # evs) = added_members evs"
  "added_members (PlanEv (PlanStatusChanged p st st') # evs) = added_members evs"
  "added_members (TaskEv e # evs) = added_members evs"
  by (simp_all add: added_members_def List.map_filter_def)

lemma created_tasks_simps [simp]:
  "created_tasks [] = []" "created_tasks (evs @ evs') = created_tasks evs @ created_tasks evs'"
  "created_tasks (PlanEv e' # evs) = created_tasks evs"
  by (simp_all add: created_tasks_def List.map_filter_def)

lemma comment_events_no_members [simp]:
  "added_members (task_comment_events x k i body kind) = []"
  "created_tasks (task_comment_events x k i body kind) = []"
  by (simp_all add: task_comment_events_def Let_def created_tasks_def List.map_filter_simps)

lemma landed_task_Inr:
  assumes "landed_task x w target k task = Inr (i, evs)"
  shows "added_members evs = []"
    and "i \<in> set (created_tasks evs) \<or>
      (\<exists>t. t_id t = i \<and> t_project_id t = Some (mt_project_id target) \<and>
        (\<exists>key. nt_external_key task = Some key \<and> find_by_external_key (w_tasks w) key = Some t))"
proof -
  show "added_members evs = []"
    using assms by (auto simp: landed_task_def redelivered_create_events_def Let_def split: option.splits if_splits)
  show "i \<in> set (created_tasks evs) \<or>
      (\<exists>t. t_id t = i \<and> t_project_id t = Some (mt_project_id target) \<and>
        (\<exists>key. nt_external_key task = Some key \<and> find_by_external_key (w_tasks w) key = Some t))"
    using assms by (auto simp: landed_task_def Let_def created_tasks_def List.map_filter_simps bind_eq_Some_conv split: option.splits if_splits)
qed

text \<open>A task of the batch is created by it or already stands in the target's project.\<close>

definition landed :: "world \<Rightarrow> materialize_target \<Rightarrow> event list \<Rightarrow> uuid \<Rightarrow> bool" where
  "landed w target evs i \<longleftrightarrow> i \<in> set (created_tasks evs) \<or>
     (\<exists>t key. t_id t = i \<and> t_project_id t = Some (mt_project_id target) \<and> find_by_external_key (w_tasks w) key = Some t)"

lemma materialized_members:
  assumes "materialized_task_events x w target k pos keys raws = Inr evs"
  shows "\<exists>ids. length ids = length raws \<and> (\<forall>i \<in> set ids. landed w target evs i) \<and>
    added_members evs =
      map (\<lambda>(j, i). (mt_plan_id target, i, pos + of_nat j)) (enumerate 0 (filter (\<lambda>i. i \<notin> set (mt_members target)) ids))"
  using assms
proof (induction raws arbitrary: k pos keys evs)
  case Nil
  then show ?case by simp
next
  case (Cons raw raws)
  obtain task i evs1 rest where land: "landed_task x w target k task = Inr (i, evs1)"
    and rest: "materialized_task_events x w target (Suc k) (if i \<in> set (mt_members target) then pos else pos + 1)
      (case nt_external_key task of Some key \<Rightarrow> key # keys | None \<Rightarrow> keys) raws = Inr rest"
    and evs: "evs = evs1 @ (if i \<in> set (mt_members target) then [] else [PlanEv (PlanTaskAdded (mt_plan_id target) i pos [])]) @ rest"
    using Cons.prems by (auto simp: bind_result_Inr_iff Let_def)
  obtain ids where ids: "length ids = length raws" "\<forall>i \<in> set ids. landed w target rest i"
    "added_members rest = map (\<lambda>(j, i'). (mt_plan_id target, i', (if i \<in> set (mt_members target) then pos else pos + 1) + of_nat j))
      (enumerate 0 (filter (\<lambda>i. i \<notin> set (mt_members target)) ids))"
    using Cons.IH [OF rest] by auto
  have "landed w target evs i" using landed_task_Inr(2) [OF land] by (auto simp: landed_def evs)
  moreover have "\<forall>i \<in> set ids. landed w target evs i" using ids(2) by (auto simp: landed_def evs)
  moreover have "added_members evs = map (\<lambda>(j, i). (mt_plan_id target, i, pos + of_nat j))
      (enumerate 0 (filter (\<lambda>i. i \<notin> set (mt_members target)) (i # ids)))"
    by (auto simp: evs landed_task_Inr(1) [OF land] ids(3) enumerate_Suc_eq add_ac)
  ultimately show ?case using ids(1) by (intro exI [of _ "i # ids"]) auto
qed

text \<open>
  Materialising a new plan lands every task. The batch opens with the active plan, adds one member per task of
  the request, in its order and at positions 0, 1, 2 and so on, and every member is a task the batch creates or one
  known by its external key in the plan's own project.
\<close>

theorem materialized_plan_holds_tasks:
  assumes "build_materialize_new x w plan tasks = Inr evs"
  shows "\<exists>p rest ids. evs = PlanEv (PlanCreated p) # rest \<and> pl_id p = hx_fresh x 0 \<and> pl_status p = Active \<and>
    length ids = length tasks \<and> added_members evs = map (\<lambda>(j, i). (pl_id p, i, of_nat j)) (enumerate 0 ids) \<and>
    (\<forall>i \<in> set ids. i \<in> set (created_tasks evs) \<or>
      (\<exists>t key. t_id t = i \<and> t_project_id t = Some (pl_project_id p) \<and> find_by_external_key (w_tasks w) key = Some t))"
proof -
  obtain plan' rest where
    rest: "materialized_task_events x w \<lparr>mt_plan_id = hx_fresh x 0, mt_project_id = np_project_id plan',
      mt_git_context = np_git_context plan', mt_members = [], mt_source_note = None\<rparr> 0 0 [] tasks = Inr rest"
    and evs: "evs = PlanEv (PlanCreated ((into_plan (plan'\<lparr>np_git_context := None\<rparr>) (hx_fresh x 0) (hx_now x))\<lparr>pl_status := Active\<rparr>)) # rest"
    using assms by (auto simp: build_materialize_new_def bind_result_Inr_iff Let_def split: if_splits)
  from materialized_members [OF rest] show ?thesis by (auto simp: evs landed_def into_plan_def)
qed

text \<open>
  Appending never revives a dead plan and never adds a member twice. Tasks are appended only to a plan that is
  neither archived nor abandoned; a completed plan is reopened first; a task that is already a member is not added
  again; new members follow the last position.
\<close>

theorem append_materialized_sound:
  assumes "build_materialize_into ie x w plan_id plan tasks = Inr evs"
  shows "\<exists>p. plan_get (w_plans w) plan_id = Some p \<and> pl_archived_at p = None \<and> pl_status p \<noteq> Abandoned \<and>
    (pl_status p = Completed \<longrightarrow> hd evs = PlanEv (PlanStatusChanged (pl_id p) Completed Active)) \<and>
    (\<exists>ids. added_members evs = map (\<lambda>(j, i). (plan_id, i, next_position w plan_id + of_nat j)) (enumerate 0 ids) \<and>
      set ids \<inter> pt_task_id ` set (list_tasks_ordered (w_plans w) plan_id) = {})"
proof -
  obtain p reopened target rest where p: "plan_get (w_plans w) plan_id = Some p"
    and reopened: "reopening_events p = Inr reopened" and evs: "evs = reopened @ rest"
    and rest: "materialized_task_events x w target 0 (next_position w plan_id) [] tasks = Inr rest"
    and target: "mt_plan_id target = plan_id" "mt_members target = map pt_task_id (list_tasks_ordered (w_plans w) plan_id)"
    using assms by (auto simp: build_materialize_into_def append_materialized_tasks_def get_plan_def bind_result_Inr_iff
        ok_or_Inr_iff Let_def split: if_splits)
  have status: "pl_archived_at p = None" "pl_status p \<noteq> Abandoned"
    "reopened = (if pl_status p = Completed then [PlanEv (PlanStatusChanged (pl_id p) Completed Active)] else [])"
    using reopened by (auto simp: reopening_events_def split: if_splits plan_status.splits)
  obtain ids where "added_members rest = map (\<lambda>(j, i). (plan_id, i, next_position w plan_id + of_nat j))
      (enumerate 0 (filter (\<lambda>i. i \<notin> pt_task_id ` set (list_tasks_ordered (w_plans w) plan_id)) ids))"
    using materialized_members [OF rest] by (auto simp: target)
  then show ?thesis using p status by (auto simp: evs intro!: exI [of _ "filter (\<lambda>i. i \<notin> pt_task_id ` set (list_tasks_ordered (w_plans w) plan_id)) ids"])
qed


subsection \<open>Worked examples\<close>

definition demo_batch :: "event list" where
  "demo_batch =
     [PlanEv (PlanCreated ((into_plan (new_plan ''demo'' 70 actor_user) 1000 9)\<lparr>pl_status := Active\<rparr>)),
      TaskEv (TaskCreated ((demo_new_task 21 None)\<lparr>nt_status := Some Todo, nt_project_id := Some 70\<rparr>)),
      PlanEv (PlanTaskAdded 1000 21 0 []),
      TaskEv (TaskCreated ((demo_new_task 22 None)\<lparr>nt_status := Some Todo, nt_project_id := Some 70\<rparr>)),
      PlanEv (PlanTaskAdded 1000 22 1 [])]"

lemma demo_materializes:
  "build_materialize_new demo_ctx demo_world (new_plan ''demo'' 70 actor_user)
     [demo_new_task 21 None, demo_new_task 22 None] = Inr demo_batch"
  by code_simp

lemma materialized_plan_holds_tasks_witness:
  "\<exists>p rest ids. demo_batch = PlanEv (PlanCreated p) # rest \<and> pl_status p = Active \<and> length ids = 2 \<and>
    added_members demo_batch = map (\<lambda>(j, i). (pl_id p, i, of_nat j)) (enumerate 0 ids)"
proof -
  from materialized_plan_holds_tasks [OF demo_materializes] obtain p rest ids
    where *: "demo_batch = PlanEv (PlanCreated p) # rest" "pl_status p = Active"
      "length ids = length [demo_new_task 21 None, demo_new_task 22 None]"
      "added_members demo_batch = map (\<lambda>(j, i). (pl_id p, i, of_nat j)) (enumerate 0 ids)"
    by blast
  have "length ids = 2" using *(3) by simp
  then show ?thesis using *(1,2,4) by blast
qed

definition demo_done_plan_world :: world where
  "demo_done_plan_world = demo_world\<lparr>w_plans := \<lparr>ps_plans = [demo_plan 5 Completed], ps_plan_tasks = [demo_member 5 1 0], ps_sources = []\<rparr>\<rparr>"

lemma demo_appends:
  "build_materialize_into demo_intake demo_ctx demo_done_plan_world 5 (new_plan ''more'' 70 actor_user) [demo_new_task 21 None] =
     Inr [PlanEv (PlanStatusChanged 5 Completed Active),
       TaskEv (TaskCreated ((demo_new_task 21 None)\<lparr>nt_status := Some Todo, nt_project_id := Some 70\<rparr>)),
       PlanEv (PlanTaskAdded 5 21 1 [])]"
  by code_simp

lemma append_materialized_sound_witness:
  "\<exists>p. plan_get (w_plans demo_done_plan_world) 5 = Some p \<and> pl_archived_at p = None \<and> pl_status p \<noteq> Abandoned"
  using append_materialized_sound [OF demo_appends] by blast

end
