(* ===== verification/Handler_Records.thy ===== *)
theory Handler_Records
  imports Handler_Intake
begin

text \<open>
  The arms of \<^verbatim>\<open>CommandHandler::build_events\<close> (\<^verbatim>\<open>crates/core/src/handler.rs\<close>) for the records around the tasks:
  projects and their settings, comments, agent sessions, documents, lifecycle rules, evidence and artifacts. An arm
  reads the tables of the \<open>world\<close> and returns events; none writes a table itself. \<^verbatim>\<open>hx_fresh x 0\<close> is the id an arm
  draws, \<^verbatim>\<open>hx_fresh x 1\<close> the second one where it draws two.
\<close>

subsection \<open>Projects\<close>

definition slug_candidate :: "string \<Rightarrow> nat \<Rightarrow> string" where
  "slug_candidate base n = (if n = 0 then base else base @ ''-'' @ show_nat n)"

lemma show_nat_inj: "show_nat m = show_nat n \<Longrightarrow> m = n"
  by (metis show_nat_digits)

lemma slug_candidate_inj: "slug_candidate base m = slug_candidate base n \<Longrightarrow> m = n"
  by (auto simp: slug_candidate_def dest: show_nat_inj split: if_splits)

lemma finite_candidates: "finite {k. slug_candidate base k \<in> set used}"
proof -
  have "inj (slug_candidate base)" by (rule injI) (rule slug_candidate_inj)
  then show ?thesis using finite_vimageI [of "set used" "slug_candidate base"] by (simp add: vimage_def)
qed

text \<open>
  The loop of \<^verbatim>\<open>CreateProject\<close>: the first candidate that no project uses. It ends because different suffixes give
  different slugs and the projects are finitely many; the \<^verbatim>\<open>u32\<close> suffix stays below their number.
\<close>

function free_slug :: "string \<Rightarrow> string list \<Rightarrow> nat \<Rightarrow> string" where
  "free_slug base used n =
     (if slug_candidate base n \<in> set used then free_slug base used (Suc n) else slug_candidate base n)"
  by pat_completeness auto

termination
proof (relation "measure (\<lambda>(base, used, n). card {k. n \<le> k \<and> slug_candidate base k \<in> set used})")
  fix base used n
  assume taken: "slug_candidate base n \<in> set used"
  have "n \<in> {k. n \<le> k \<and> slug_candidate base k \<in> set used} - {k. Suc n \<le> k \<and> slug_candidate base k \<in> set used}"
    using taken by simp
  then have "{k. Suc n \<le> k \<and> slug_candidate base k \<in> set used} \<subset> {k. n \<le> k \<and> slug_candidate base k \<in> set used}"
    by (intro psubsetI) (force, blast)
  moreover have "finite {k. n \<le> k \<and> slug_candidate base k \<in> set used}"
    by (rule finite_subset [OF _ finite_candidates [of base used]]) auto
  ultimately show "((base, used, Suc n), base, used, n) \<in> measure (\<lambda>(base, used, n). card {k. n \<le> k \<and> slug_candidate base k \<in> set used})"
    by (simp add: psubset_card_mono)
qed simp

declare free_slug.simps [simp del]

definition build_create_project :: "handler_ctx \<Rightarrow> world \<Rightarrow> string \<Rightarrow> string option \<Rightarrow> event list result" where
  "build_create_project x w title description =
     (let trimmed_title = trim title in
      if trimmed_title = [] then Inl (Validation ''project title must not be empty'')
      else let used = map pr_slug (list_projects (rg_projects (w_registry w)));
               slug = free_slug (slugify_title trimmed_title) used 0
           in Inr [TaskEv (ProjectCreated (project_new_with_slug (hx_fresh x 0) (hx_now x) trimmed_title slug description))])"

definition require_project :: "world \<Rightarrow> uuid \<Rightarrow> project result" where
  "require_project w i = ok_or (NotFound ''project '') (project_get (rg_projects (w_registry w)) i)"

definition build_update_project ::
  "world \<Rightarrow> uuid \<Rightarrow> string option \<Rightarrow> string option option \<Rightarrow> event list result" where
  "build_update_project w i title description =
     (if title = None \<and> description = None then Inl (Validation ''update must set at least one field'')
      else bind_result (require_project w i) (\<lambda>_. Inr [TaskEv (ProjectUpdated i title description)]))"

definition json_is_object :: "json \<Rightarrow> bool" where
  "json_is_object v \<longleftrightarrow> (case v of JObject _ \<Rightarrow> True | _ \<Rightarrow> False)"

text \<open>\<open>audit_ok\<close> is the validator an edition of the server may install.\<close>

definition build_update_project_settings ::
  "intake_env \<Rightarrow> (json \<Rightarrow> bool) \<Rightarrow> handler_ctx \<Rightarrow> world \<Rightarrow> uuid \<Rightarrow> auto_append_patch \<Rightarrow> intake_source_policy option option \<Rightarrow>
   json option option \<Rightarrow> event list result" where
  "build_update_project_settings ie audit_ok x w i patch intake audit =
     bind_result (case intake of Some (Some policy) \<Rightarrow> validate_policy ie policy | _ \<Rightarrow> Inr ()) (\<lambda>_.
     bind_result (case audit of
                    Some (Some v) \<Rightarrow>
                      if \<not> json_is_object v then Inl (Validation ''audit settings must be a JSON object or null'')
                      else if \<not> audit_ok v then Inl (Validation ''audit settings: '') else Inr ()
                  | _ \<Rightarrow> Inr ()) (\<lambda>_.
     bind_result (require_project w i) (\<lambda>_.
     bind_result (auto_append i (rg_settings (w_registry w))) (\<lambda>curr_settings.
       Inr [SettingsEv (ProjectSettingsChanged i (auto_append_apply curr_settings patch) (hx_now x) intake audit)]))))"

definition build_delete_project :: "world \<Rightarrow> uuid \<Rightarrow> event list result" where
  "build_delete_project w i =
     bind_result (require_project w i) (\<lambda>_.
       if list_ex (\<lambda>t. t_project_id t = Some i) (tasks_of (w_tasks w)) then Inl (Conflict ''project_not_empty: '')
       else Inr [TaskEv (ProjectDeleted i)])"

definition build_record_agent_action :: "agent_action \<Rightarrow> event list result" where
  "build_record_agent_action action = Inr [TaskEv (AgentActionRecorded action)]"

subsection \<open>Comments\<close>

definition build_add_comment :: "handler_ctx \<Rightarrow> new_comment \<Rightarrow> event list result" where
  "build_add_comment x n =
     (let body = trim (nc_body n) in
      if body = [] then Inl (Validation ''comment body must not be empty'')
      else if length body > 10000 then Inl (Validation ''comment body must not exceed 10000 characters'')
      else let c = comment_from_new (hx_fresh x 0) (n\<lparr>nc_body := body\<rparr>) (hx_actor x) (hx_now x)
           in Inr [TaskEv (CommentAdded c), TaskEv (TaskCommented (cm_task_id c) (cm_id c) (hx_actor x) (take_chars 80 body))])"

definition require_comment :: "world \<Rightarrow> uuid \<Rightarrow> comment result" where
  "require_comment w i =
     (case comment_get (rg_comments (w_registry w)) i of
        None \<Rightarrow> Inl (NotFound ''comment '')
      | Some c \<Rightarrow> if cm_deleted_at c \<noteq> None then Inl (NotFound ''comment '') else Inr c)"

definition build_edit_comment :: "handler_ctx \<Rightarrow> world \<Rightarrow> uuid \<Rightarrow> comment_patch \<Rightarrow> event list result" where
  "build_edit_comment x w i patch =
     bind_result (require_comment w i) (\<lambda>c. Inr [TaskEv (CommentEdited i (cm_task_id c) patch (hx_now x))])"

definition build_delete_comment :: "handler_ctx \<Rightarrow> world \<Rightarrow> uuid \<Rightarrow> event list result" where
  "build_delete_comment x w i =
     bind_result (require_comment w i) (\<lambda>c. Inr [TaskEv (CommentDeleted i (cm_task_id c) (hx_now x))])"

subsection \<open>Agent sessions\<close>

definition build_start_session :: "handler_ctx \<Rightarrow> uuid \<Rightarrow> uuid option \<Rightarrow> json option \<Rightarrow> event list result" where
  "build_start_session x agent parent metadata =
     Inr [SessionEv (AgentSessionStarted \<lparr>se_id = hx_fresh x 0, se_agent_id = agent, se_parent_agent_id = parent,
            se_started_at = hx_now x, se_ended_at = None, se_plan_steps = [], se_metadata = unwrap_or JNull metadata\<rparr>)]"

definition require_session :: "world \<Rightarrow> uuid \<Rightarrow> agent_session result" where
  "require_session w i = ok_or (NotFound ''session '') (session_get (rg_sessions (w_registry w)) i)"

definition build_end_session :: "handler_ctx \<Rightarrow> world \<Rightarrow> uuid \<Rightarrow> event list result" where
  "build_end_session x w i = bind_result (require_session w i) (\<lambda>_. Inr [SessionEv (AgentSessionEnded i (hx_now x))])"

definition build_update_session_plan :: "world \<Rightarrow> uuid \<Rightarrow> agent_session_plan_step list \<Rightarrow> event list result" where
  "build_update_session_plan w i steps =
     (if length steps > 100 then Inl (Validation ''plan_steps must not exceed 100 entries'')
      else bind_result (require_session w i) (\<lambda>_. Inr [SessionEv (AgentSessionPlanUpdated i steps)]))"

definition build_attach_session_artifact ::
  "handler_ctx \<Rightarrow> world \<Rightarrow> uuid \<Rightarrow> session_artifact_kind \<Rightarrow> string \<Rightarrow> json option \<Rightarrow> event list result" where
  "build_attach_session_artifact x w session kind reference metadata =
     (let reference = trim reference in
      if reference = [] then Inl (Validation ''artifact ref must not be empty'')
      else bind_result (require_session w session) (\<lambda>_.
        Inr [SessionEv (SessionArtifactAttached \<lparr>sa_id = hx_fresh x 0, sa_session_id = session, sa_kind = kind,
               sa_reference = reference, sa_metadata = unwrap_or JNull metadata, sa_created_at = hx_now x\<rparr>)]))"

subsection \<open>Documents\<close>

definition require_live_document_anchor :: "world \<Rightarrow> document_status \<Rightarrow> uuid option \<Rightarrow> unit result" where
  "require_live_document_anchor w st task_id =
     (if st = DocDraft \<or> st = DocActive
      then bind_result (ok_or (Validation ''live document requires a task_id'') task_id) (\<lambda>i.
           bind_result (get_task w i) (\<lambda>t.
             if is_terminal (t_status t) then Inl (Validation ''live document requires a non-terminal task'') else Inr ()))
      else Inr ())"

definition checked_document_title :: "string \<Rightarrow> string result" where
  "checked_document_title title =
     (let trimmed_title = trim title in
      if trimmed_title = [] then Inl (Validation ''document title must not be empty'')
      else if length trimmed_title > 500 then Inl (Validation ''document title must not exceed 500 characters'')
      else Inr trimmed_title)"

definition build_create_document :: "handler_ctx \<Rightarrow> world \<Rightarrow> new_document \<Rightarrow> event list result" where
  "build_create_document x w n =
     bind_result (checked_document_title (nd_title n)) (\<lambda>title.
     bind_result (ok_or (Validation ''document must be anchored to a task_id on creation (canon daruma invariant 5: '') (nd_task_id n)) (\<lambda>task.
     bind_result (get_task w task) (\<lambda>_.
     bind_result (require_live_document_anchor w (unwrap_or DocActive (nd_status n)) (Some task)) (\<lambda>_.
       let i = unwrap_or (hx_fresh x 0) (nd_id n)
       in Inr [DocumentEv (DocumentCreated (into_document (n\<lparr>nd_id := Some i, nd_title := title\<rparr>) i (hx_now x)))]))))"

definition require_document :: "world \<Rightarrow> uuid \<Rightarrow> document result" where
  "require_document w i = ok_or (NotFound ''document '') (document_get (w_documents w) i)"

definition build_replace_document :: "handler_ctx \<Rightarrow> world \<Rightarrow> uuid \<Rightarrow> string \<Rightarrow> event list result" where
  "build_replace_document x w i content =
     bind_result (require_document w i) (\<lambda>_. Inr [DocumentEv (DocumentContentReplaced i content (hx_now x))])"

definition build_append_document :: "handler_ctx \<Rightarrow> world \<Rightarrow> uuid \<Rightarrow> string \<Rightarrow> event list result" where
  "build_append_document x w i text_to_append =
     bind_result (require_document w i) (\<lambda>_. Inr [DocumentEv (DocumentContentAppended i text_to_append (hx_now x))])"

definition build_rename_document :: "handler_ctx \<Rightarrow> world \<Rightarrow> uuid \<Rightarrow> string \<Rightarrow> event list result" where
  "build_rename_document x w i title =
     bind_result (checked_document_title title) (\<lambda>t.
     bind_result (require_document w i) (\<lambda>_. Inr [DocumentEv (DocumentRenamed i t (hx_now x))]))"

definition build_archive_document :: "handler_ctx \<Rightarrow> world \<Rightarrow> uuid \<Rightarrow> event list result" where
  "build_archive_document x w i =
     bind_result (require_document w i) (\<lambda>d.
       Inr (if doc_archived_at d \<noteq> None then [] else [DocumentEv (DocumentArchived i (hx_now x))]))"

definition build_set_document_status :: "handler_ctx \<Rightarrow> world \<Rightarrow> uuid \<Rightarrow> document_status \<Rightarrow> event list result" where
  "build_set_document_status x w i st =
     bind_result (require_document w i) (\<lambda>d.
     bind_result (require_live_document_anchor w st (doc_task_id d)) (\<lambda>_.
       Inr (if doc_status d = st then [] else [DocumentEv (DocumentStatusChanged i (doc_status d) st (hx_now x))])))"

definition build_link_document :: "handler_ctx \<Rightarrow> world \<Rightarrow> uuid \<Rightarrow> uuid option \<Rightarrow> event list result" where
  "build_link_document x w i task_id =
     bind_result (require_document w i) (\<lambda>d.
     bind_result (case task_id of Some t \<Rightarrow> bind_result (get_task w t) (\<lambda>_. Inr ()) | None \<Rightarrow> Inr ()) (\<lambda>_.
     bind_result (require_live_document_anchor w (doc_status d) task_id) (\<lambda>_.
       Inr (if doc_task_id d = task_id then [] else [DocumentEv (DocumentTaskLinkChanged i task_id (hx_now x))]))))"


subsection \<open>Lifecycle rules and evidence\<close>

definition scope_exists :: "world \<Rightarrow> rule_scope \<Rightarrow> bool" where
  "scope_exists w sc =
     (case sc of
        ScopeTenant \<Rightarrow> True
      | ScopeProject i \<Rightarrow> project_get (rg_projects (w_registry w)) i \<noteq> None
      | ScopePlan i \<Rightarrow> plan_get (w_plans w) i \<noteq> None
      | ScopeTask i \<Rightarrow> task_repo_get (w_tasks w) i \<noteq> None)"

definition check_placement :: "requirement \<Rightarrow> rule_scope \<Rightarrow> rule_trigger \<Rightarrow> unit result" where
  "check_placement req sc tr = (case placement_error req sc tr of Some m \<Rightarrow> Inl (Validation m) | None \<Rightarrow> Inr ())"

definition build_create_rule :: "handler_ctx \<Rightarrow> world \<Rightarrow> new_rule \<Rightarrow> event list result" where
  "build_create_rule x w n =
     (if trim (nr_rule_key n) = [] then Inl (Validation ''rule_key must not be empty'')
      else bind_result (check_placement (nr_requirement n) (nr_scope n) (nr_trigger n)) (\<lambda>_.
        if \<not> scope_exists w (nr_scope n) then Inl (Validation ''rule '')
        else if list_ex (\<lambda>r. ru_rule_key r = nr_rule_key n) (list_rules_for_scope (rg_rules (w_registry w)) (nr_scope n))
        then Inl (Conflict ''rule_key `'')
        else Inr [RuleEv (RuleCreated (into_rule (hx_fresh x 0) n (hx_now x)))]))"

definition require_rule :: "world \<Rightarrow> uuid \<Rightarrow> rule result" where
  "require_rule w i = ok_or (NotFound ''rule '') (rule_get (rg_rules (w_registry w)) i)"

definition build_update_rule :: "handler_ctx \<Rightarrow> world \<Rightarrow> uuid \<Rightarrow> rule_patch \<Rightarrow> event list result" where
  "build_update_rule x w i patch =
     (if rule_patch_is_empty patch then Inl (Validation ''update must set at least one field'')
      else bind_result (require_rule w i) (\<lambda>r.
        let r' = rule_patch_apply patch r (hx_now x)
        in bind_result (check_placement (ru_requirement r') (ru_scope r') (ru_trigger r')) (\<lambda>_.
             Inr [RuleEv (RuleUpdated r')])))"

definition build_disable_rule :: "handler_ctx \<Rightarrow> world \<Rightarrow> uuid \<Rightarrow> event list result" where
  "build_disable_rule x w i =
     bind_result (require_rule w i) (\<lambda>r. Inr (if ru_enabled r then [RuleEv (RuleDisabled i (hx_now x))] else []))"

definition build_delete_rule :: "world \<Rightarrow> uuid \<Rightarrow> event list result" where
  "build_delete_rule w i = bind_result (require_rule w i) (\<lambda>_. Inr [RuleEv (RuleDeleted i)])"

definition build_record_evidence :: "handler_ctx \<Rightarrow> world \<Rightarrow> new_evidence \<Rightarrow> event list result" where
  "build_record_evidence x w n =
     (if \<not> scope_exists w (ne_scope n) then Inl (Validation ''evidence '')
      else let e = into_evidence (hx_fresh x 0) n (actor_ref_from_actor (hx_actor x)) (hx_now x)
           in Inr (RuleEv (EvidenceRecorded e) #
                (case ne_supersedes n of
                   Some old \<Rightarrow> [RuleEv (EvidenceSuperseded old (ev_id e) (hx_now x))] | None \<Rightarrow> [])))"

subsection \<open>Artifacts\<close>

definition artifacts_of :: "world \<Rightarrow> artifact_store" where
  "artifacts_of w = rg_artifacts (w_registry w)"

definition require_artifact :: "world \<Rightarrow> uuid \<Rightarrow> artifact result" where
  "require_artifact w i = ok_or (NotFound ''artifact '') (artifact_get (artifacts_of w) i)"

definition build_register_artifact :: "handler_ctx \<Rightarrow> world \<Rightarrow> new_artifact \<Rightarrow> event list result" where
  "build_register_artifact x w n =
     (if trim (na_uri n) = [] then Inl (Validation ''artifact uri must not be empty'')
      else if trim (na_title n) = [] then Inl (Validation ''artifact title must not be empty'')
      else if get_by_uri (artifacts_of w) (na_uri n) \<noteq> None then Inl (Conflict ''artifact with uri '')
      else Inr [ArtifactEv (ArtifactRegistered (into_artifact (hx_fresh x 0) n (hx_now x)))])"

definition build_update_artifact ::
  "handler_ctx \<Rightarrow> world \<Rightarrow> uuid \<Rightarrow> string option \<Rightarrow> string option \<Rightarrow> event list result" where
  "build_update_artifact x w i title description =
     (if title = None \<and> description = None then Inl (Validation ''update must set at least one field'')
      else if (case title of Some t \<Rightarrow> trim t = [] | None \<Rightarrow> False) then Inl (Validation ''artifact title must not be empty'')
      else bind_result (require_artifact w i) (\<lambda>_. Inr [ArtifactEv (ArtifactChanged i title description (hx_now x))]))"

definition build_commit_artifact_write ::
  "handler_ctx \<Rightarrow> world \<Rightarrow> uuid \<Rightarrow> uuid \<Rightarrow> int \<Rightarrow> string option \<Rightarrow> event list result" where
  "build_commit_artifact_write x w i agent token version =
     bind_result (require_artifact w i) (\<lambda>_.
       if \<not> write_fencing_token_is_live (hx_now x) (rg_leases (w_registry w)) i agent token (artifacts_of w)
       then Inl (Conflict ''stale or foreign fencing token for artifact '')
       else Inr [ArtifactEv (ArtifactWriteCommitted i agent token version (hx_now x))])"

definition require_artifact_replacement :: "world \<Rightarrow> uuid \<Rightarrow> unit result" where
  "require_artifact_replacement w i =
     (if list_ex (\<lambda>r. arel_to_id r = i \<and> arel_kind r = ArSupersedes) (relations_for i (artifacts_of w)) then Inr ()
      else Inl (Validation ''deprecating artifact ''))"

definition build_deprecate_artifact :: "handler_ctx \<Rightarrow> world \<Rightarrow> uuid \<Rightarrow> string option \<Rightarrow> event list result" where
  "build_deprecate_artifact x w i reason =
     bind_result (require_artifact w i) (\<lambda>a.
       if art_status a = ArtDeprecated then Inr []
       else let reason' = trimmed_given reason
            in bind_result (if reason' = None then require_artifact_replacement w i else Inr ()) (\<lambda>_.
                 Inr [ArtifactEv (ArtifactDeprecated i reason' (hx_now x))]))"

definition build_add_artifact_relation ::
  "handler_ctx \<Rightarrow> world \<Rightarrow> uuid \<Rightarrow> uuid \<Rightarrow> artifact_relation_kind \<Rightarrow> event list result" where
  "build_add_artifact_relation x w src to kind =
     (if src = to then Inl (Validation ''artifact relation endpoints must differ'')
      else bind_result (require_artifact w src) (\<lambda>a.
           bind_result (require_artifact w to) (\<lambda>b.
             if list_ex (\<lambda>r. arel_to_id r = to \<and> arel_kind r = kind) (relations_for src (artifacts_of w))
             then Inl (Conflict ''artifact relation '')
             else if kind = ArSupersedes \<and> art_status a = ArtDeprecated then Inl (Validation ''deprecated artifact '')
             else Inr (ArtifactEv (ArtifactRelationAdded \<lparr>arel_id = hx_fresh x 0, arel_from_id = src, arel_to_id = to,
                         arel_kind = kind, arel_created_at = hx_now x\<rparr>) #
                    (if kind = ArSupersedes \<and> art_status b \<noteq> ArtDeprecated
                     then [ArtifactEv (ArtifactDeprecated to (Some (''superseded by '' @ art_uri a)) (hx_now x))] else [])))))"

definition build_remove_artifact_relation ::
  "handler_ctx \<Rightarrow> world \<Rightarrow> uuid \<Rightarrow> uuid \<Rightarrow> artifact_relation_kind \<Rightarrow> event list result" where
  "build_remove_artifact_relation x w src to kind =
     (case find (\<lambda>r. arel_to_id r = to \<and> arel_kind r = kind) (relations_for src (artifacts_of w)) of
        None \<Rightarrow> Inl (NotFound ''artifact relation '')
      | Some r \<Rightarrow> Inr [ArtifactEv (ArtifactRelationRemoved (arel_id r) src to kind (hx_now x))])"

definition build_assign_artifact_owner :: "handler_ctx \<Rightarrow> world \<Rightarrow> uuid \<Rightarrow> uuid \<Rightarrow> event list result" where
  "build_assign_artifact_owner x w i agent =
     bind_result (require_artifact w i) (\<lambda>_. Inr [ArtifactEv (ArtifactOwnerAssigned i agent (hx_now x))])"

definition build_change_artifact_status :: "handler_ctx \<Rightarrow> world \<Rightarrow> uuid \<Rightarrow> artifact_status \<Rightarrow> event list result" where
  "build_change_artifact_status x w i to =
     bind_result (require_artifact w i) (\<lambda>a.
       if art_status a = to then Inr []
       else bind_result (if to = ArtDeprecated then require_artifact_replacement w i else Inr ()) (\<lambda>_.
         Inr [ArtifactEv (ArtifactStatusChanged i (art_status a) to (hx_now x))]))"

subsection \<open>Role artifacts\<close>

definition path_safe :: "string \<Rightarrow> bool" where
  "path_safe s \<longleftrightarrow> list_all (\<lambda>c. is_ascii_alnum c \<or> c \<in> set ''_-.'') s"

definition check_role_field :: "string \<Rightarrow> unit result" where
  "check_role_field v =
     (if v = [] then Inl (Validation ''role artifact '')
      else if \<not> path_safe v then Inl (Validation ''role artifact '') else Inr ())"

definition show_int :: "int \<Rightarrow> string" where
  "show_int n = (if n < 0 then ''-'' @ show_nat (nat (- n)) else show_nat (nat n))"

definition role_artifact_uri :: "codec \<Rightarrow> uuid \<Rightarrow> string \<Rightarrow> string \<Rightarrow> int \<Rightarrow> string" where
  "role_artifact_uri cd task role kind generation =
     ''artifact://task/'' @ id_display cd ''tsk'' task @ ''/role/'' @ role @ ''/'' @ kind @ ''/'' @ show_int generation"

text \<open>The artifact a proposal supersedes, if it names one: the same slot, and still proposed.\<close>

definition superseded_artifact :: "world \<Rightarrow> uuid \<Rightarrow> string \<Rightarrow> string \<Rightarrow> uuid option \<Rightarrow> uuid option result" where
  "superseded_artifact w task role kind supersedes =
     (case supersedes of
        None \<Rightarrow> Inr None
      | Some prev_id \<Rightarrow>
          bind_result (require_artifact w prev_id) (\<lambda>prev.
            if \<not> role_slot task role kind prev then Inl (Validation ''artifact '')
            else if \<not> can_transition_to (case art_role_artifact prev of Some r \<Rightarrow> ra_status r | None \<Rightarrow> RaProposed) RaSuperseded
            then Inl (Conflict ''role artifact '')
            else Inr (Some prev_id)))"

definition build_propose_role_artifact ::
  "codec \<Rightarrow> handler_ctx \<Rightarrow> world \<Rightarrow> uuid \<Rightarrow> string \<Rightarrow> string \<Rightarrow> json \<Rightarrow> string option \<Rightarrow> uuid option \<Rightarrow> uuid option \<Rightarrow>
   event list result" where
  "build_propose_role_artifact cd x w task_id role0 kind0 payload title supersedes artifact_id =
     (let role = trim role0; kind = trim kind0 in
      bind_result (check_role_field role) (\<lambda>_.
      bind_result (check_role_field kind) (\<lambda>_.
      bind_result (get_task w task_id) (\<lambda>task.
      bind_result (superseded_artifact w task_id role kind supersedes) (\<lambda>superseded.
        let generation = next_role_generation task_id role kind (artifacts_of w);
            uri = role_artifact_uri cd task_id role kind generation
        in if get_by_uri (artifacts_of w) uri \<noteq> None then Inl (Conflict ''artifact with uri '')
           else let i = unwrap_or (hx_fresh x 0) artifact_id;
                    record_row = \<lparr>art_id = i, art_uri = uri,
                      art_title = unwrap_or (role @ '' '' @ kind @ '' #'' @ show_int generation) (trimmed_given title),
                      art_description = [], art_status = ArtCommitted, art_owner_agent_id = None, art_task_id = Some task_id,
                      art_project_id = t_project_id task, art_version = None, art_last_write_token = None,
                      art_role_artifact = Some \<lparr>ra_role = role, ra_kind = kind, ra_generation = generation,
                        ra_status = RaProposed, ra_payload = payload\<rparr>,
                      art_created_at = hx_now x, art_updated_at = hx_now x\<rparr>
                in Inr (ArtifactEv (ArtifactRegistered record_row) #
                     (case superseded of
                        Some prev_id \<Rightarrow>
                          [ArtifactEv (RoleArtifactStatusChanged prev_id RaProposed RaSuperseded (hx_now x)),
                           ArtifactEv (ArtifactRelationAdded \<lparr>arel_id = hx_fresh x 1, arel_from_id = i, arel_to_id = prev_id,
                             arel_kind = ArSupersedes, arel_created_at = hx_now x\<rparr>)]
                      | None \<Rightarrow> [])))))))"

definition build_set_role_artifact_status :: "handler_ctx \<Rightarrow> world \<Rightarrow> uuid \<Rightarrow> role_artifact_status \<Rightarrow> event list result" where
  "build_set_role_artifact_status x w i to =
     bind_result (require_artifact w i) (\<lambda>a.
       case art_role_artifact a of
         None \<Rightarrow> Inl (Validation ''artifact '')
       | Some r \<Rightarrow>
           if ra_status r = to then Inr []
           else if \<not> can_transition_to (ra_status r) to then Inl (Conflict ''role artifact transition '')
           else Inr [ArtifactEv (RoleArtifactStatusChanged i (ra_status r) to (hx_now x))])"

subsection \<open>Work units, handoffs and file leases\<close>

definition units_of :: "world \<Rightarrow> unit_row list" where
  "units_of w = rg_units (w_registry w)"

definition handoffs_of :: "world \<Rightarrow> handoff_row list" where
  "handoffs_of w = rg_handoffs (w_registry w)"

subsection \<open>The commands\<close>

text \<open>
  The variants of \<^verbatim>\<open>Command\<close> (\<^verbatim>\<open>crates/api-dto/src/command.rs\<close>) whose arms are above or in \<open>Work_Units\<close>: they read the
  world, write no table and end no claim.
\<close>

datatype record_command =
    CreateProject string "string option"
  | UpdateProject uuid "string option" "string option option"
  | UpdateProjectSettings uuid auto_append_patch "intake_source_policy option option" "json option option"
  | DeleteProject uuid
  | RecordAgentAction agent_action
  | AddComment new_comment
  | EditComment uuid comment_patch
  | DeleteComment uuid
  | StartAgentSession uuid "uuid option" "json option"
  | EndAgentSession uuid
  | UpdateAgentSessionPlan uuid "agent_session_plan_step list"
  | AttachSessionArtifact uuid session_artifact_kind string "json option"
  | CreateWorkUnit new_work_unit
  | CompleteWorkUnit uuid "string option" "string list" "uuid list"
  | ReleaseWorkUnit uuid
  | SetWorkUnitStatus uuid work_unit_status "string option"
  | ReserveFiles "work_lease list"
  | ReleaseFiles uuid uuid "uuid list option"
  | RequestHandoff new_handoff_contract
  | AcceptHandoff uuid "string option"
  | RejectHandoff uuid string "string list"
  | CreateDocument new_document
  | ReplaceDocumentContent uuid string
  | AppendDocumentContent uuid string
  | RenameDocument uuid string
  | ArchiveDocument uuid
  | SetDocumentStatus uuid document_status
  | LinkDocumentToTask uuid "uuid option"
  | CreateRule new_rule
  | UpdateRule uuid rule_patch
  | DisableRule uuid
  | DeleteRule uuid
  | RecordEvidence new_evidence
  | RegisterArtifact new_artifact
  | UpdateArtifact uuid "string option" "string option"
  | CommitArtifactWrite uuid uuid int "string option"
  | DeprecateArtifact uuid "string option"
  | AddArtifactRelation uuid uuid artifact_relation_kind
  | RemoveArtifactRelation uuid uuid artifact_relation_kind
  | AssignArtifactOwner uuid uuid
  | ChangeArtifactStatus uuid artifact_status
  | ProposeRoleArtifact uuid string string json "string option" "uuid option" "uuid option"
  | SetRoleArtifactStatus uuid role_artifact_status

text \<open>What these arms read besides the world: the intake environment, which holds the codec, and the audit validator.\<close>

record record_env =
  re_intake :: intake_env
  re_audit_ok :: "json \<Rightarrow> bool"

primrec build_record_events :: "record_env \<Rightarrow> handler_ctx \<Rightarrow> world \<Rightarrow> record_command \<Rightarrow> event list result" where
  "build_record_events re x w (CreateProject title description) = build_create_project x w title description"
| "build_record_events re x w (UpdateProject i title description) = build_update_project w i title description"
| "build_record_events re x w (UpdateProjectSettings i patch intake audit) =
     build_update_project_settings (re_intake re) (re_audit_ok re) x w i patch intake audit"
| "build_record_events re x w (DeleteProject i) = build_delete_project w i"
| "build_record_events re x w (RecordAgentAction action) = build_record_agent_action action"
| "build_record_events re x w (AddComment n) = build_add_comment x n"
| "build_record_events re x w (EditComment i patch) = build_edit_comment x w i patch"
| "build_record_events re x w (DeleteComment i) = build_delete_comment x w i"
| "build_record_events re x w (StartAgentSession agent parent metadata) = build_start_session x agent parent metadata"
| "build_record_events re x w (EndAgentSession i) = build_end_session x w i"
| "build_record_events re x w (UpdateAgentSessionPlan i steps) = build_update_session_plan w i steps"
| "build_record_events re x w (AttachSessionArtifact i kind reference metadata) =
     build_attach_session_artifact x w i kind reference metadata"
| "build_record_events re x w (CreateWorkUnit n) = build_create_work_unit (hx_fresh x 0) (hx_now x) (w_tasks w) n"
| "build_record_events re x w (CompleteWorkUnit i outcome produced suggested) =
     build_complete_work_unit (hx_now x) (units_of w) i outcome produced suggested"
| "build_record_events re x w (ReleaseWorkUnit i) = build_release_work_unit (hx_now x) (units_of w) i"
| "build_record_events re x w (SetWorkUnitStatus i st reason) = build_set_work_unit_status (hx_now x) (units_of w) i st reason"
| "build_record_events re x w (ReserveFiles leases) = Inr [SessionEv (FilesReserved leases)]"
| "build_record_events re x w (ReleaseFiles agent task leases) = Inr [SessionEv (FilesReleased agent task leases)]"
| "build_record_events re x w (RequestHandoff n) = build_request_handoff (hx_fresh x 0) (hx_now x) (units_of w) (handoffs_of w) n"
| "build_record_events re x w (AcceptHandoff i notes) = build_accept_handoff (hx_now x) (hx_actor x) (handoffs_of w) i notes"
| "build_record_events re x w (RejectHandoff i reason changes) = build_reject_handoff (hx_now x) (handoffs_of w) i reason changes"
| "build_record_events re x w (CreateDocument n) = build_create_document x w n"
| "build_record_events re x w (ReplaceDocumentContent i content) = build_replace_document x w i content"
| "build_record_events re x w (AppendDocumentContent i txt) = build_append_document x w i txt"
| "build_record_events re x w (RenameDocument i title) = build_rename_document x w i title"
| "build_record_events re x w (ArchiveDocument i) = build_archive_document x w i"
| "build_record_events re x w (SetDocumentStatus i st) = build_set_document_status x w i st"
| "build_record_events re x w (LinkDocumentToTask i task) = build_link_document x w i task"
| "build_record_events re x w (CreateRule n) = build_create_rule x w n"
| "build_record_events re x w (UpdateRule i patch) = build_update_rule x w i patch"
| "build_record_events re x w (DisableRule i) = build_disable_rule x w i"
| "build_record_events re x w (DeleteRule i) = build_delete_rule w i"
| "build_record_events re x w (RecordEvidence n) = build_record_evidence x w n"
| "build_record_events re x w (RegisterArtifact n) = build_register_artifact x w n"
| "build_record_events re x w (UpdateArtifact i title description) = build_update_artifact x w i title description"
| "build_record_events re x w (CommitArtifactWrite i agent token version) = build_commit_artifact_write x w i agent token version"
| "build_record_events re x w (DeprecateArtifact i reason) = build_deprecate_artifact x w i reason"
| "build_record_events re x w (AddArtifactRelation src to kind) = build_add_artifact_relation x w src to kind"
| "build_record_events re x w (RemoveArtifactRelation src to kind) = build_remove_artifact_relation x w src to kind"
| "build_record_events re x w (AssignArtifactOwner i agent) = build_assign_artifact_owner x w i agent"
| "build_record_events re x w (ChangeArtifactStatus i to) = build_change_artifact_status x w i to"
| "build_record_events re x w (ProposeRoleArtifact task role kind payload title supersedes artifact_id) =
     build_propose_role_artifact (ie_codec (re_intake re)) x w task role kind payload title supersedes artifact_id"
| "build_record_events re x w (SetRoleArtifactStatus i to) = build_set_role_artifact_status x w i to"

end
