(* ===== verification/Handler.thy ===== *)
theory Handler
  imports Persistence Handler_Records
begin

text \<open>
  Command dispatch (\<^verbatim>\<open>CommandHandler::handle_with_run_owner\<close>, \<^verbatim>\<open>crates/core/src/handler.rs\<close>), with or without an
  authenticated agent: check a run completion, resolve the plan source, build the events, reconcile plans, ask the
  lifecycle gate, wrap the events in envelopes, persist them together with the claims and run ownership they end, and
  apply them to the projections in order.

  A \<open>system\<close> is the state the dispatch owns: the projections, the claims with the run owners, and the event log. The
  search index, the bus, the capability profiles and the best-effort log documents (\<^verbatim>\<open>auto_append_logs\<close>) are outside
  this state. A command that fails half-way keeps what it had written: every function returns the state next to the
  result.
\<close>

subsection \<open>Commands\<close>

datatype command =
    CreateTask new_task
  | UpdateTask uuid task_patch
  | CompleteTask uuid "completion_note option"
  | DeleteTask uuid
  | SetStatus uuid status bool "string option" "transition_comment option"
  | SetPriority uuid priority
  | AdvancePipeline uuid pipeline_position
  | ClosePipelineStage uuid nat string "pipeline_position option"
  | BulkSetStatus "uuid list" status
  | BulkAttachToPlan uuid "uuid list"
  | SplitTask uuid "new_task list"
  | UpdatePlan uuid plan_patch
  | AmendPlanTask uuid uuid task_patch
  | ArchivePlan uuid
  | DeletePlan uuid
  | AddPlanTask uuid uuid "32 word option" "uuid list option"
  | RemovePlanTask uuid uuid
  | ReorderPlan uuid "uuid list"
  | SetPlanGoal uuid string
  | SetPlanStatus uuid plan_status bool "string option"
  | StartRun uuid uuid "uuid option"
  | RunStartStep uuid uuid
  | RunFinishStep uuid uuid run_outcome
  | FailRun uuid string
  | AbortRun uuid string
  | AppendRunNote uuid string
  | SendRunSignal uuid signal_kind
  | RespondRunSignal uuid string
  | LinkTasks uuid uuid relation_kind
  | UnlinkTasks uuid
  | AcquireClaim uuid uuid uuid timestamp
  | ReleaseClaim uuid uuid
  | CreatePlan new_plan "(string \<times> string \<times> string) option"
  | MaterializePlan new_plan "new_task list" "uuid option"
  | ExtendSource "uuid option" "string option" "source_input option" "source_input list"
  | CompleteRun uuid
  | RecordCommand record_command

text \<open>
  What a dispatch reads besides the state: the handler context, the text and intake functions, the ids of envelopes and
  feed rows, the gate, and the authenticated agent with its admin capability.
\<close>

type_synonym observed_gate =
  "actor \<Rightarrow> gate_check \<Rightarrow> gate_override \<Rightarrow> (gate_decision \<times> rule_observation list) result"

record dispatch_ctx =
  dx_handler :: handler_ctx
  dx_records :: record_env
  dx_text :: text_env
  dx_event_id :: "nat \<Rightarrow> uuid"
  dx_row_id :: "nat \<Rightarrow> uuid"
  dx_gate :: "observed_gate option"
  dx_agent :: "uuid option"
  dx_admin :: bool

abbreviation dx_codec :: "dispatch_ctx \<Rightarrow> codec" where
  "dx_codec d \<equiv> tx_codec (dx_text d)"

abbreviation dx_intake :: "dispatch_ctx \<Rightarrow> intake_env" where
  "dx_intake d \<equiv> re_intake (dx_records d)"

fun build_events :: "dispatch_ctx \<Rightarrow> world \<Rightarrow> command \<Rightarrow> relation_table \<Rightarrow> event list built" where
  "build_events d w (CreateTask n) rels = (build_create_task (dx_handler d) w n, rels)"
| "build_events d w (UpdateTask i p) rels = (build_update_task (dx_handler d) w i p, rels)"
| "build_events d w (CompleteTask i n) rels = build_complete_task (dx_handler d) w i n rels"
| "build_events d w (DeleteTask i) rels = build_delete_task (dx_handler d) w i rels"
| "build_events d w (SetStatus i st _ _ c) rels = build_set_status (dx_handler d) w i st c rels"
| "build_events d w (SetPriority i p) rels = (build_set_priority w i p, rels)"
| "build_events d w (AdvancePipeline i p) rels = build_advance_pipeline (dx_handler d) w i p rels"
| "build_events d w (ClosePipelineStage i k inst q) rels = build_close_stage (dx_handler d) w i k inst q rels"
| "build_events d w (BulkSetStatus is st) rels = build_bulk_set_status (dx_handler d) w is st rels"
| "build_events d w (BulkAttachToPlan p is) rels = (build_bulk_attach (dx_handler d) w p is, rels)"
| "build_events d w (SplitTask i ns) rels = (build_split_task (dx_handler d) w i ns, rels)"
| "build_events d w (UpdatePlan i p) rels = (build_update_plan w i p, rels)"
| "build_events d w (AmendPlanTask p t q) rels = (build_amend_plan_task w p t q, rels)"
| "build_events d w (ArchivePlan i) rels = (build_archive_plan (dx_handler d) w i, rels)"
| "build_events d w (DeletePlan i) rels = (build_delete_plan (dx_handler d) w i, rels)"
| "build_events d w (AddPlanTask p t pos deps) rels = (build_add_plan_task w p t pos deps, rels)"
| "build_events d w (RemovePlanTask p t) rels =
     (build_remove_plan_task (id_display (dx_codec d) ''agt'') (dx_handler d) w p t, rels)"
| "build_events d w (ReorderPlan p order) rels = (build_reorder_plan w p order, rels)"
| "build_events d w (SetPlanGoal p g) rels = (build_set_plan_goal w p g, rels)"
| "build_events d w (SetPlanStatus p st _ _) rels = (build_set_plan_status w p st, rels)"
| "build_events d w (StartRun p a q) rels = (build_start_run (dx_handler d) w p a q, rels)"
| "build_events d w (RunStartStep r t) rels = (build_run_start_step (dx_handler d) w r t, rels)"
| "build_events d w (RunFinishStep r t out) rels = (build_run_finish_step (dx_handler d) w r t out, rels)"
| "build_events d w (FailRun r reason) rels = (build_fail_run (dx_handler d) w r reason, rels)"
| "build_events d w (AbortRun r reason) rels = (build_abort_run (dx_handler d) w r reason, rels)"
| "build_events d w (AppendRunNote r body) rels = (build_append_run_note (dx_handler d) w r body, rels)"
| "build_events d w (SendRunSignal r k) rels = (build_send_run_signal (dx_handler d) w r k, rels)"
| "build_events d w (RespondRunSignal r c) rels = (build_respond_run_signal (dx_handler d) w r c, rels)"
| "build_events d w (LinkTasks a b k) rels = build_link_tasks (dx_handler d) a b k rels"
| "build_events d w (UnlinkTasks i) rels = build_unlink_tasks (dx_handler d) w i rels"
| "build_events d w (AcquireClaim a t c e) rels = (Inr [SessionEv (AgentClaimed a t (Some c) e)], rels)"
| "build_events d w (ReleaseClaim a t) rels = (Inr [SessionEv (AgentReleased a t None)], rels)"
| "build_events d w (CreatePlan plan ext) rels = (build_create_plan (dx_handler d) w plan ext, rels)"
| "build_events d w (MaterializePlan plan ts target) rels =
     (case target of
        None \<Rightarrow> build_materialize_new (dx_handler d) w plan ts
      | Some i \<Rightarrow> build_materialize_into (dx_intake d) (dx_handler d) w i plan ts, rels)"
| "build_events d w (ExtendSource _ _ _ _) rels = (Inr [], rels)"
| "build_events d w (CompleteRun r) rels = (build_complete_run (dx_text d) (dx_handler d) w r, rels)"
| "build_events d w (RecordCommand c) rels = (build_record_events (dx_records d) (dx_handler d) w c, rels)"

subsection \<open>The lifecycle gate\<close>

fun gate_override_of :: "command \<Rightarrow> gate_override" where
  "gate_override_of (SetStatus _ _ f reason _) = \<lparr>go_force = f, go_override_reason = reason\<rparr>"
| "gate_override_of (SetPlanStatus _ _ f reason) = \<lparr>go_force = f, go_override_reason = reason\<rparr>"
| "gate_override_of _ = gate_override_default"

definition rule_fired_events ::
  "dispatch_ctx \<Rightarrow> gate_check \<Rightarrow> rule_decision \<Rightarrow> string option \<Rightarrow> (json \<times> string) list \<Rightarrow> event list" where
  "rule_fired_events d check decision reason outcomes = List.map_filter (\<lambda>(details, message).
     map_option (\<lambda>rule_id. RuleEv (RuleFired
         \<lparr>rf_rule_id = rule_id, rf_rule_key = unwrap_or [] (json_str_field ''rule_key'' details), rf_decision = decision,
          rf_trigger = trigger_event_as_str (gc_trigger check), rf_actor = hx_actor (dx_handler d),
          rf_project_id = gc_project_id check, rf_plan_id = gc_plan_id check, rf_task_id = gc_task_id check,
          rf_message = message, rf_override_reason = reason, rf_at = hx_now (dx_handler d)\<rparr>))
       (Option.bind (json_str_field ''rule_id'' details) (id_from_str (dx_codec d) ''rule''))) outcomes"

definition warning_pairs :: "mutation_warning list \<Rightarrow> (json \<times> string) list" where
  "warning_pairs ws = map (\<lambda>w. (mw_details w, mw_message w)) ws"

definition json_id :: "codec \<Rightarrow> uuid option \<Rightarrow> json" where
  "json_id cd i = (case i of Some u \<Rightarrow> JString (cd_uuid_show cd u) | None \<Rightarrow> JNull)"

definition observation_metric :: "dispatch_ctx \<Rightarrow> gate_check \<Rightarrow> rule_observation \<Rightarrow> event" where
  "observation_metric d check obs = TelemetryEv (OperationalMetricRecorded
     \<lparr>om_ts = hx_now (dx_handler d), om_event_type = OpStep,
      om_run_id = (case gc_run_id check of Some r \<Rightarrow> id_display (dx_codec d) ''run'' r | None \<Rightarrow> []),
      om_node_id = Some (id_display (dx_codec d) ''rule'' (ro_rule_id obs)), om_layer = ''daruma'',
      om_name = ''rule.advisory_evaluated'', om_outcome = OpOk, om_latency_ms = 0, om_tokens = None,
      om_retry_count = 0, om_error_class = None, om_stuck_reason = None,
      om_attrs = JObject
        [(''rule_id'', json_id (dx_codec d) (Some (ro_rule_id obs))), (''rule_key'', JString (ro_rule_key obs)),
         (''rule_revision'', JString (cd_time_show (dx_codec d) (ro_rule_revision obs))),
         (''triggered'', JBool (ro_triggered obs)), (''trigger'', JString (trigger_event_as_str (gc_trigger check))),
         (''project_id'', json_id (dx_codec d) (gc_project_id check)), (''plan_id'', json_id (dx_codec d) (gc_plan_id check)),
         (''task_id'', json_id (dx_codec d) (gc_task_id check))]\<rparr>)"

text \<open>
  The loop over the checks. It passes with the audit events, the metrics and the warnings, or stops at
  the first blocked decision with the events to persist and the error.
\<close>

datatype gate_outcome =
    GatePassed "event list" "event list" "mutation_warning list"
  | GateStopped "event list" core_error

fun gate_loop ::
  "dispatch_ctx \<Rightarrow> observed_gate \<Rightarrow> gate_override \<Rightarrow> gate_check list \<Rightarrow>
   event list \<Rightarrow> event list \<Rightarrow> mutation_warning list \<Rightarrow> gate_outcome result" where
  "gate_loop d g ov [] audit metrics warns = Inr (GatePassed audit metrics warns)"
| "gate_loop d g ov (c # cs) audit metrics warns =
     (case g (hx_actor (dx_handler d)) c ov of
        Inl e \<Rightarrow> Inl e
      | Inr (decision, obs) \<Rightarrow>
          let metrics = metrics @ map (observation_metric d c) obs in
          case decision of
            GateAllowed \<Rightarrow> gate_loop d g ov cs audit metrics warns
          | GateWarning batch \<Rightarrow>
              gate_loop d g ov cs (audit @ rule_fired_events d c Warning None (warning_pairs batch)) metrics (warns @ batch)
          | GateOverridden overridden batch reason \<Rightarrow>
              gate_loop d g ov cs
                (audit @ rule_fired_events d c Warning None (warning_pairs batch) @
                 rule_fired_events d c Overridden (Some reason) (warning_pairs overridden))
                metrics (warns @ batch @ overridden)
          | GateBlocked message details \<Rightarrow>
              Inr (GateStopped (metrics @ rule_fired_events d c Blocked None (blocked_outcomes details message))
                (Conflict ''rule_blocked: '')))"

definition ask_lifecycle_gate :: "dispatch_ctx \<Rightarrow> command \<Rightarrow> event list \<Rightarrow> gate_outcome result" where
  "ask_lifecycle_gate d cmd events =
     (case dx_gate d of
        None \<Rightarrow> Inr (GatePassed [] [] [])
      | Some g \<Rightarrow> gate_loop d g (gate_override_of cmd) (derive_gate_checks events) [] [] [])"

subsection \<open>Before the arm\<close>

text \<open>Evidence is attributed to the authenticated agent: the id of the actor is pinned, its kind stays.\<close>

fun records_evidence :: "command \<Rightarrow> bool" where
  "records_evidence (RecordCommand c) = (case c of RecordEvidence _ \<Rightarrow> True | _ \<Rightarrow> False)"
| "records_evidence _ = False"

definition pin_actor :: "uuid option \<Rightarrow> command \<Rightarrow> actor \<Rightarrow> actor" where
  "pin_actor agent cmd actor =
     (case agent of
        Some i \<Rightarrow>
          if records_evidence cmd
          then (case actor of Agent _ name client \<Rightarrow> Agent i name client | User _ name client \<Rightarrow> User (Some i) name client)
          else actor
      | None \<Rightarrow> actor)"

definition pinned :: "dispatch_ctx \<Rightarrow> command \<Rightarrow> dispatch_ctx" where
  "pinned d cmd = d\<lparr>dx_handler := (dx_handler d)\<lparr>hx_actor := pin_actor (dx_agent d) cmd (hx_actor (dx_handler d))\<rparr>\<rparr>"

definition run_has_status :: "system \<Rightarrow> run_status \<Rightarrow> uuid \<Rightarrow> bool" where
  "run_has_status s st i \<longleftrightarrow> (case run_get (w_runs (sy_world s)) i of Some r \<Rightarrow> r_status r = st | None \<Rightarrow> False)"

fun completes_run :: "command \<Rightarrow> uuid option" where
  "completes_run (CompleteRun i) = Some i"
| "completes_run _ = None"

definition is_completed_run_retry :: "uuid option \<Rightarrow> command \<Rightarrow> system \<Rightarrow> bool" where
  "is_completed_run_retry agent cmd s \<longleftrightarrow>
     (case (completes_run cmd, agent) of
        (Some i, Some caller) \<Rightarrow> run_has_status s RunIsCompleted i \<and> run_owner s i = Some caller
      | _ \<Rightarrow> False)"

definition ensure_run_completion_owner :: "uuid option \<Rightarrow> bool \<Rightarrow> command \<Rightarrow> system \<Rightarrow> unit result" where
  "ensure_run_completion_owner agent is_admin cmd s =
     (case (completes_run cmd, agent) of
        (Some i, Some caller) \<Rightarrow>
          if \<not> run_has_status s RunActive i then Inr ()
          else if is_admin then Inr ()
          else (case run_owner s i of
                  Some owner \<Rightarrow> if owner = caller then Inr () else Inl (Forbidden ''run is owned by another agent'')
                | None \<Rightarrow> Inl (Forbidden ''run has no authenticated owner''))
      | _ \<Rightarrow> Inr ())"

text \<open>
  The source of a plan is resolved before the arm runs: the command with the resolved plan, the warnings, and the
  source events that ride ahead of the batch. A creation with an external reference is checked for shape only.
\<close>

definition settings_of :: "world \<Rightarrow> settings_table" where
  "settings_of w = rg_settings (w_registry w)"

type_synonym staged = "(command \<times> mutation_warning list \<times> event list) result"

definition stage_materialize :: "dispatch_ctx \<Rightarrow> world \<Rightarrow> new_plan \<Rightarrow> new_task list \<Rightarrow> staged" where
  "stage_materialize d w plan ts =
     bind_result (resolve_plan_source (dx_intake d) (dx_handler d) (w_plans w) (settings_of w) plan) (\<lambda>(plan', warns, evs).
     bind_result (if np_separate plan' then Inr () else require_plan_choice (dx_intake d) (dx_handler d) w plan' evs) (\<lambda>_.
       Inr (MaterializePlan plan' ts None, warns @ opt_list (plan_looks_raw (dx_intake d) plan' ts), evs)))"

definition stage_create_plan ::
  "dispatch_ctx \<Rightarrow> world \<Rightarrow> new_plan \<Rightarrow> (string \<times> string \<times> string) option \<Rightarrow> staged" where
  "stage_create_plan d w plan ext =
     (case ext of
        None \<Rightarrow>
          bind_result (resolve_plan_source (dx_intake d) (dx_handler d) (w_plans w) (settings_of w) plan) (\<lambda>(plan', warns, evs).
            Inr (CreatePlan plan' None, warns, evs))
      | Some ref \<Rightarrow>
          bind_result (prepare_plan_source (dx_intake d) (dx_handler d) plan) (\<lambda>(plan', nodes).
          bind_result (plan_source_events (dx_intake d) (dx_handler d) (w_plans w) plan' nodes) (\<lambda>(evs, warns).
            Inr (CreatePlan plan' (Some ref), warns, evs))))"

fun intake_stage :: "dispatch_ctx \<Rightarrow> world \<Rightarrow> command \<Rightarrow> staged" where
  "intake_stage d w (MaterializePlan plan ts target) =
     (case target of None \<Rightarrow> stage_materialize d w plan ts | Some i \<Rightarrow> Inr (MaterializePlan plan ts (Some i), [], []))"
| "intake_stage d w (CreatePlan plan ext) = stage_create_plan d w plan ext"
| "intake_stage d w (ExtendSource i ref src upstream) =
     bind_result (extend_source (dx_intake d) (dx_handler d) (w_plans w) (settings_of w) i ref src upstream) (\<lambda>(warns, evs).
       Inr (ExtendSource i ref src upstream, warns, evs))"
| "intake_stage d w cmd = Inr (cmd, [], [])"

definition creates_plan :: "event \<Rightarrow> bool" where
  "creates_plan e = (case e of PlanEv (PlanCreated _) \<Rightarrow> True | _ \<Rightarrow> False)"

fun is_extending :: "command \<Rightarrow> bool" where
  "is_extending (ExtendSource _ _ _ _) = True"
| "is_extending _ = False"

definition splice_sources :: "command \<Rightarrow> event list \<Rightarrow> event list \<Rightarrow> event list" where
  "splice_sources cmd sources built = (if is_extending cmd \<or> list_ex creates_plan built then sources @ built else built)"

definition attribute_evidence :: "uuid option \<Rightarrow> event \<Rightarrow> event" where
  "attribute_evidence agent e =
     (case e of RuleEv (EvidenceRecorded v) \<Rightarrow> RuleEv (EvidenceRecorded (v\<lparr>ev_authenticated_actor_id := agent\<rparr>)) | _ \<Rightarrow> e)"

subsection \<open>Persisting\<close>

definition envelope_env_of :: "dispatch_ctx \<Rightarrow> envelope_env" where
  "envelope_env_of d = \<lparr>ee_now = hx_now (dx_handler d), ee_actor = hx_actor (dx_handler d), ee_event_id = dx_event_id d\<rparr>"

definition relink_split_provenance :: "event_envelope list \<Rightarrow> event_envelope list" where
  "relink_split_provenance envs =
     (case find (\<lambda>env. case en_payload env of TaskEv (TaskSplitGenerated _ _) \<Rightarrow> True | _ \<Rightarrow> False) envs of
        None \<Rightarrow> envs
      | Some split \<Rightarrow>
          map (\<lambda>env. case en_payload env of
                 TaskEv (TaskCreated n) \<Rightarrow> env\<lparr>en_payload := TaskEv (TaskCreated (n\<lparr>nt_source_event_id := Some (en_id split)\<rparr>))\<rparr>
               | _ \<Rightarrow> env) envs)"

fun relinked :: "command \<Rightarrow> event_envelope list \<Rightarrow> event_envelope list" where
  "relinked (MaterializePlan _ _ _) envs = relink_materialised_provenance envs"
| "relinked (SplitTask _ _) envs = relink_split_provenance envs"
| "relinked _ envs = envs"

fun plan_terminal :: "command \<Rightarrow> bool" where
  "plan_terminal (ArchivePlan _) = True"
| "plan_terminal (DeletePlan _) = True"
| "plan_terminal (SetPlanStatus _ st _ _) = (st = Completed \<or> st = Abandoned)"
| "plan_terminal _ = False"

fun starts_run :: "command \<Rightarrow> bool" where
  "starts_run (StartRun _ _ _) = True"
| "starts_run _ = False"

fun ends_run :: "command \<Rightarrow> bool" where
  "ends_run (FailRun _ _) = True"
| "ends_run (AbortRun _ _) = True"
| "ends_run _ = False"

definition task_lifecycle_event :: "event \<Rightarrow> bool" where
  "task_lifecycle_event e =
     (case e of
        TaskEv (TaskClosed _ _ _) \<Rightarrow> True | TaskEv (TaskReopened _ _ _) \<Rightarrow> True | TaskEv (TaskDeleted _) \<Rightarrow> True
      | _ \<Rightarrow> False)"

definition persist :: "dispatch_ctx \<Rightarrow> command \<Rightarrow> event_envelope list \<Rightarrow> system \<Rightarrow> (event_envelope list \<times> system) result" where
  "persist d cmd envs s =
     (case dx_agent d of
        Some agent \<Rightarrow>
          if starts_run cmd then record_run_started agent envs s
          else if ends_run cmd then record_run_terminal (envelope_env_of d) agent (dx_admin d) envs s
          else if list_ex (task_lifecycle_event \<circ> en_payload) envs then record_task_batch (envelope_env_of d) envs s
          else if plan_terminal cmd
          then record_plan_terminal (envelope_env_of d) (if dx_admin d then None else Some agent) envs s
          else append_batch envs s
      | None \<Rightarrow>
          if list_ex (task_lifecycle_event \<circ> en_payload) envs then record_task_batch (envelope_env_of d) envs s
          else if plan_terminal cmd then record_plan_terminal (envelope_env_of d) None envs s
          else append_batch envs s)"

subsection \<open>Projecting, and the whole dispatch\<close>

definition feed_env_of :: "dispatch_ctx \<Rightarrow> world \<Rightarrow> feed_env" where
  "feed_env_of d w =
     (let plan_project = (\<lambda>p. map_option pl_project_id (plan_get (w_plans w) p)) in
      \<lparr>fv_text = dx_text d, fv_plan_project = plan_project,
       fv_run_project = (\<lambda>r. Option.bind (run_get (w_runs w) r) (\<lambda>r'. plan_project (r_plan_id r'))),
       fv_row_id = dx_row_id d\<rparr>)"

definition feed_world :: "dispatch_ctx \<Rightarrow> event_envelope \<Rightarrow> world \<Rightarrow> world" where
  "feed_world d env w = w\<lparr>w_activity := feed_step (feed_env_of d w) env (w_activity w)\<rparr>"

text \<open>
  The projections of one event, up to the first that fails. Tasks come first, then projects, comments, the feed, plans, runs
  and run notes, then claims and documents, then the rest; those that cannot fail and do not read each other are written
  together.
\<close>

definition project_env :: "dispatch_ctx \<Rightarrow> event_envelope \<Rightarrow> system \<Rightarrow> unit result \<times> system" where
  "project_env d env s =
     (let w = sy_world s; now = hx_now (dx_handler d) in
      case task_apply_event (hx_fresh (dx_handler d)) env (w_tasks w) of
        Inl e \<Rightarrow> (Inl e, s)
      | Inr ts \<Rightarrow>
          let (ps, ts') = plan_apply_event now env (w_plans w, ts);
              rs = run_apply_event env (w_runs w);
              (noted, rg) = registry_notes (\<lambda>r. run_get rs r \<noteq> None) env (w_registry w);
              w1 = (feed_world d env w)\<lparr>w_tasks := ts', w_plans := ps, w_runs := rs, w_registry := rg\<rparr>
          in (case noted of
                Inl e \<Rightarrow> (Inl e, s\<lparr>sy_world := w1\<rparr>)
              | Inr _ \<Rightarrow>
                  let (outcome, rg') = registry_rest now env rg
                  in (outcome, s\<lparr>sy_world := w1\<lparr>w_registry := rg', w_documents := document_apply_event (en_payload env) (w_documents w),
                                             w_external_refs := external_apply_event env (w_external_refs w)\<rparr>,
                             sy_claims := claim_apply_event now (en_payload env) (sy_claims s)\<rparr>)))"

fun project_all :: "dispatch_ctx \<Rightarrow> event_envelope list \<Rightarrow> system \<Rightarrow> unit result \<times> system" where
  "project_all d [] s = (Inr (), s)"
| "project_all d (env # envs) s =
     (case project_env d env s of (Inl e, s') \<Rightarrow> (Inl e, s') | (Inr _, s') \<Rightarrow> project_all d envs s')"

definition set_relations :: "relation_table \<Rightarrow> system \<Rightarrow> system" where
  "set_relations rels s = s\<lparr>sy_world := (sy_world s)\<lparr>w_relations := rels\<rparr>\<rparr>"

definition commit ::
  "dispatch_ctx \<Rightarrow> command \<Rightarrow> event list \<Rightarrow> mutation_warning list \<Rightarrow> system \<Rightarrow>
   (event_envelope list \<times> mutation_warning list) result \<times> system" where
  "commit d cmd events warns s =
     (case persist d cmd (relinked cmd (envelopes_from (envelope_env_of d) 0 events)) s of
        Inl e \<Rightarrow> (Inl e, s)
      | Inr (persisted, s1) \<Rightarrow>
          (case project_all d persisted s1 of
             (Inl e, s2) \<Rightarrow> (Inl e, s2)
           | (Inr _, s2) \<Rightarrow> (Inr (persisted, warns), s2)))"

text \<open>A block leaves its audit events in the log and in the feed.\<close>

definition record_block :: "dispatch_ctx \<Rightarrow> event list \<Rightarrow> core_error \<Rightarrow> system \<Rightarrow> core_error \<times> system" where
  "record_block d audit e s =
     (if audit = [] then (e, s)
      else case append_batch (envelopes_from (envelope_env_of d) 0 audit) s of
             Inl e' \<Rightarrow> (e', s)
           | Inr (persisted, s') \<Rightarrow> (e, s'\<lparr>sy_world := fold (feed_world d) persisted (sy_world s')\<rparr>))"

definition dispatch_events ::
  "dispatch_ctx \<Rightarrow> command \<Rightarrow> event list \<Rightarrow> mutation_warning list \<Rightarrow> system \<Rightarrow>
   (event_envelope list \<times> mutation_warning list) result \<times> system" where
  "dispatch_events d cmd events warns0 s =
     (if events = [] then (Inr ([], []), s)
      else case ask_lifecycle_gate d cmd events of
             Inl e \<Rightarrow> (Inl e, s)
           | Inr (GateStopped audit e) \<Rightarrow> (case record_block d audit e s of (e', s') \<Rightarrow> (Inl e', s'))
           | Inr (GatePassed audit metrics warns) \<Rightarrow> commit d cmd (audit @ events @ metrics) (warns0 @ warns) s)"

text \<open>The events of the batch: the arm's, the source events in front, the evidence attributed, the plans reconciled.\<close>

definition batch_events :: "dispatch_ctx \<Rightarrow> world \<Rightarrow> command \<Rightarrow> event list \<Rightarrow> event list \<Rightarrow> event list" where
  "batch_events d w cmd sources built =
     append_plan_reconciliations w (map (attribute_evidence (dx_agent d)) (splice_sources cmd sources built))"

definition handle ::
  "dispatch_ctx \<Rightarrow> command \<Rightarrow> system \<Rightarrow> (event_envelope list \<times> mutation_warning list) result \<times> system" where
  "handle d0 cmd0 s =
     (let d = pinned d0 cmd0; w = sy_world s in
      if is_completed_run_retry (dx_agent d) cmd0 s then (Inr ([], []), s)
      else case ensure_run_completion_owner (dx_agent d) (dx_admin d) cmd0 s of
             Inl e \<Rightarrow> (Inl e, s)
           | Inr _ \<Rightarrow>
               (case intake_stage d w cmd0 of
                  Inl e \<Rightarrow> (Inl e, s)
                | Inr (cmd, warns, sources) \<Rightarrow>
                    (case build_events d w cmd (w_relations w) of
                       (Inl e, rels) \<Rightarrow> (Inl e, set_relations rels s)
                     | (Inr built, rels) \<Rightarrow>
                         dispatch_events d cmd (batch_events d w cmd sources built) warns (set_relations rels s))))"

end
