(* ===== verification/Dispatch.thy ===== *)
theory Dispatch
  imports Handler
begin

text \<open>
  What the dispatch of a command keeps whatever the command is: the relation table stays one the relation machine can
  reach, and the batch that is persisted is the arm's events with what the gate, the plan reconciliation and the
  persisting transaction add to it.
\<close>

subsection \<open>Relation writes\<close>

text \<open>
  The contract of every function that returns a result together with the relation table: from a table
  the relation machine reaches, it leaves one the machine reaches, on success and on failure.
\<close>

locale relation_client =
  fixes writes :: "relation_table \<Rightarrow> 'a built"
  assumes keeps_reach: "relation_reach rels \<Longrightarrow> relation_reach (snd (writes rels))"
begin

lemma keeps_ok: "relation_reach rels \<Longrightarrow> relation_table_ok (snd (writes rels))"
  using keeps_reach relation_reach_ok by blast

lemma keeps_acyclic: "relation_reach rels \<Longrightarrow> blocks_acyclic (snd (writes rels))"
  using keeps_reach relation_reach_ok by blast

end

lemma bind_built_reach:
  assumes "relation_reach (snd m)" and "\<And>v rels. m = (Inr v, rels) \<Longrightarrow> relation_reach (snd (f v rels))"
  shows "relation_reach (snd (bind_built m f))"
  using assms by (cases m; cases "fst m") (auto simp: bind_built_def)

lemma resolve_outgoing_reach: "relation_reach rels \<Longrightarrow> relation_reach (snd (resolve_outgoing now rs rels))"
proof (induction rs arbitrary: rels)
  case (Cons r rs)
  show ?case
  proof (cases "relation_update_kind (rel_id r) WasBlocking rels")
    case (Inr p)
    then obtain b rels' where p: "relation_update_kind (rel_id r) WasBlocking rels = Inr (b, rels')" by (cases p) auto
    have "relation_reach rels'" using relation_reach.resolve [OF Cons.prems p] .
    then have "relation_reach (snd (resolve_outgoing now rs rels'))" by (rule Cons.IH)
    then show ?thesis using p by (auto intro!: bind_built_reach)
  qed (use Cons in simp)
qed simp

lemma status_transition_reach:
  "relation_reach rels \<Longrightarrow> relation_reach (snd (status_transition_events w t to actor now rels))"
  by (auto simp: status_transition_events_def Let_def intro!: bind_built_reach resolve_outgoing_reach
      dest: arg_cong [where f = snd])

lemma reach_snd: "relation_reach (snd m) \<Longrightarrow> m = (v, rels) \<Longrightarrow> relation_reach rels"
  by simp

lemma emit_status_reach:
  "relation_reach rels \<Longrightarrow> relation_reach (snd (emit_status_transition_events w t to actor now rels))"
  by (auto simp: emit_status_transition_events_def intro: status_transition_reach split: sum.splits)

lemma advance_pipeline_reach:
  "relation_reach rels \<Longrightarrow> relation_reach (snd (advance_pipeline_events w t pos actor now rels))"
  by (auto simp: advance_pipeline_events_def intro!: bind_built_reach status_transition_reach
      dest: reach_snd [OF status_transition_reach] split: sum.splits)

lemma bulk_transition_reach: "relation_reach rels \<Longrightarrow> relation_reach (snd (bulk_transition x w st ts rels))"
proof (induction ts arbitrary: rels)
  case (Cons t ts)
  have "relation_reach (snd (bulk_transition x w st ts rels'))"
    if "emit_status_transition_events w t st (hx_actor x) (hx_now x) rels = (Inr v, rels')" for v rels'
    using Cons.IH reach_snd [OF emit_status_reach [OF Cons.prems] that] by blast
  then show ?case
    by (auto intro!: bind_built_reach emit_status_reach Cons.prems dest: reach_snd)
qed simp

lemma delete_relations_reach: "relation_reach rels \<Longrightarrow> relation_reach (snd (delete_relations now rs rels))"
proof (induction rs arbitrary: rels)
  case (Cons r rs)
  have "relation_reach (snd (delete_relations now rs (snd (relation_delete (rel_id r) rels))))"
    by (rule Cons.IH) (rule relation_reach.unlink [OF Cons.prems])
  then show ?case by (simp add: split_beta Let_def)
qed simp

lemma link_tasks_reach: "relation_reach rels \<Longrightarrow> relation_reach (snd (build_link_tasks x a b k rels))"
  by (auto simp: build_link_tasks_def Let_def split: sum.splits
      intro: relation_reach.link [where r = "\<lparr>rel_id = hx_fresh x 0, rel_from = a, rel_to = b, rel_kind = k,
        rel_created_at = hx_now x, rel_created_by = hx_actor x\<rparr>"])

lemma complete_task_reach: "relation_reach rels \<Longrightarrow> relation_reach (snd (build_complete_task x w i n rels))"
  by (auto simp: build_complete_task_def Let_def intro!: bind_built_reach resolve_outgoing_reach
      dest: reach_snd [OF resolve_outgoing_reach] split: sum.splits)

lemma delete_task_reach: "relation_reach rels \<Longrightarrow> relation_reach (snd (build_delete_task x w i rels))"
  using delete_relations_reach by (auto simp: build_delete_task_def Let_def split_beta split: sum.splits)

lemma set_status_reach: "relation_reach rels \<Longrightarrow> relation_reach (snd (build_set_status x w i st c rels))"
  by (auto simp: build_set_status_def intro!: bind_built_reach emit_status_reach
      dest: reach_snd [OF emit_status_reach] split: sum.splits)

lemma bulk_set_status_reach: "relation_reach rels \<Longrightarrow> relation_reach (snd (build_bulk_set_status x w is st rels))"
  by (auto simp: build_bulk_set_status_def Let_def intro: bulk_transition_reach split: sum.splits)

lemma advance_command_reach: "relation_reach rels \<Longrightarrow> relation_reach (snd (build_advance_pipeline x w i p rels))"
  by (auto simp: build_advance_pipeline_def Let_def intro: advance_pipeline_reach split: sum.splits option.splits)

lemma close_stage_reach: "relation_reach rels \<Longrightarrow> relation_reach (snd (build_close_stage x w i k inst q rels))"
  by (auto simp: build_close_stage_def Let_def intro!: bind_built_reach advance_pipeline_reach
      dest: reach_snd [OF advance_pipeline_reach] split: sum.splits option.splits fan_in.splits)

lemma unlink_tasks_reach: "relation_reach rels \<Longrightarrow> relation_reach (snd (build_unlink_tasks x w i rels))"
  by (auto simp: build_unlink_tasks_def Let_def intro: relation_reach.unlink split: option.splits)

lemmas arm_reach = complete_task_reach delete_task_reach set_status_reach bulk_set_status_reach
  advance_command_reach close_stage_reach link_tasks_reach unlink_tasks_reach

lemma build_events_reach: "relation_reach rels \<Longrightarrow> relation_reach (snd (build_events d w cmd rels))"
  by (cases cmd) (simp_all add: arm_reach)

interpretation built: relation_client "build_events d w cmd" for d w cmd
  by unfold_locales (rule build_events_reach)

interpretation transition: relation_client "status_transition_events w t to actor now" for w t to actor now
  by unfold_locales (rule status_transition_reach)

subsection \<open>Relations under dispatch\<close>

abbreviation relations_of :: "system \<Rightarrow> relation_table" where
  "relations_of s \<equiv> w_relations (sy_world s)"

text \<open>Persisting a batch changes the log, the claims and the runs; its payload comes back followed by releases.\<close>

definition persisted_from :: "event_envelope list \<Rightarrow> system \<Rightarrow> event_envelope list \<Rightarrow> system \<Rightarrow> bool" where
  "persisted_from envs s p s' \<longleftrightarrow> (\<exists>cl. map en_payload p = map en_payload envs @ map released_event cl) \<and>
     (\<exists>rs. sy_world s' = (sy_world s)\<lparr>w_runs := rs\<rparr>)"

lemma envelopes_from_payload [simp]: "map en_payload (envelopes_from ee n events) = events"
  by (simp add: envelopes_from_def envelope_new_def comp_def split_beta)

lemma same_runs: "sy_world s = (sy_world s)\<lparr>w_runs := w_runs (sy_world s)\<rparr>"
  by simp

lemma append_batch_spec:
  assumes "append_batch envs s = Inr (p, s')"
  shows "map en_payload p = map en_payload envs" "sy_world s' = sy_world s" "sy_claims s' = sy_claims s"
  using assms store_append_batch_spec [of envs "sy_log s"] by (auto simp: append_batch_def with_log_def bind_result_Inr_iff simp del: map_map)

lemma append_with_releases_spec:
  assumes "append_with_releases ee envs releases s = Inr (p, s')"
  shows "map en_payload p = map en_payload envs @ releases" "sy_world s' = sy_world s" "sy_claims s' = sy_claims s"
  using assms append_each_spec [of "envs @ envelopes_from ee (length envs) releases" "sy_log s"]
  by (auto simp: append_with_releases_def with_log_def bind_result_Inr_iff simp del: map_map map_append) (simp_all del: map_map)

lemma record_task_lifecycle_spec:
  assumes "record_task_lifecycle events cs = (recorded, cs')"
  shows "\<exists>cl. recorded = events @ map released_event cl \<and>
    (\<forall>c \<in> set cs'. c \<in> set cs \<and> (\<forall>e \<in> set events. cleanup_task_of e \<noteq> Some (ac_task_id c)))"
  using assms by (auto simp: record_task_lifecycle_def Let_def released_event_def [abs_def] in_map_filter)

lemma record_task_batch_spec:
  assumes "record_task_batch ee envs s = Inr (p, s')"
  shows "persisted_from envs s p s' \<and>
    (\<forall>c \<in> set (sy_claims s'). \<forall>e \<in> set (map en_payload envs). cleanup_task_of e \<noteq> Some (ac_task_id c))"
proof -
  obtain recorded cs where rec: "record_task_lifecycle (map en_payload envs) (sy_claims s) = (recorded, cs)"
    by (metis surj_pair)
  obtain cl where cl: "recorded = map en_payload envs @ map released_event cl"
    "\<forall>c \<in> set cs. \<forall>e \<in> set (map en_payload envs). cleanup_task_of e \<noteq> Some (ac_task_id c)"
    using record_task_lifecycle_spec [OF rec] by blast
  have "append_with_releases ee envs (map released_event cl) (s\<lparr>sy_claims := cs\<rparr>) = Inr (p, s')"
    using assms rec cl(1) by (simp add: record_task_batch_def)
  note app = append_with_releases_spec [OF this]
  have "sy_world s' = (sy_world s)\<lparr>w_runs := w_runs (sy_world s)\<rparr>" using app(2) by simp
  then have "persisted_from envs s p s'" unfolding persisted_from_def using app(1) by blast
  then show ?thesis using app(3) cl(2) by simp
qed

lemma with_log_world: "with_log r s = Inr (p, s') \<Longrightarrow> sy_world s' = sy_world s"
  by (auto simp: with_log_def bind_result_Inr_iff)

lemma persist_spec:
  assumes "persist d cmd envs s = Inr (p, s')"
  shows "persisted_from envs s p s'"
proof -
  have batch: "persisted_from envs s p s'" if "append_batch envs s = Inr (p, s')"
    using append_batch_spec [OF that] same_runs [of s] unfolding persisted_from_def
    by (metis append_Nil2 list.simps(8))
  have releasing: "persisted_from envs s p s'"
    if "append_with_releases ee envs (map released_event cl) (set_runs rs s \<lparr>sy_claims := cs, sy_run_owners := os\<rparr>) = Inr (p, s')" for ee cl rs cs os
    using append_with_releases_spec [OF that] unfolding persisted_from_def set_runs_def
    by (intro conjI exI [of _ cl] exI [of _ "(w_runs (sy_world s))\<lparr>rs_runs := rs\<rparr>"]) simp_all
  have started: "persisted_from envs s p s'" if r: "record_run_started agent envs s = Inr (p, s')" for agent
  proof -
    obtain os where "with_log (append_each envs (sy_log s)) (s\<lparr>sy_run_owners := os\<rparr>) = Inr (p, s')"
      using r by (auto simp: record_run_started_def split: option.splits if_splits)
    then have "map en_payload p = map en_payload envs" "sy_world s' = sy_world s"
      using append_each_spec [of envs "sy_log s"] by (auto simp: with_log_def bind_result_Inr_iff simp del: map_map)
    then show ?thesis using same_runs [of s] unfolding persisted_from_def by (metis append_Nil2 list.simps(8))
  qed
  have ended: "persisted_from envs s p s'" if "record_run_terminal ee agent adm envs s = Inr (p, s')" for ee agent adm
    using that releasing by (auto simp: record_run_terminal_def bind_result_Inr_iff Let_def split: option.splits prod.splits if_splits)
  have plan: "persisted_from envs s p s'" if "record_plan_terminal ee req envs s = Inr (p, s')" for ee req
    using that releasing by (auto simp: record_plan_terminal_def Let_def split: option.splits prod.splits if_splits)
  show ?thesis
    using assms batch started ended plan record_task_batch_spec unfolding persist_def
    by (auto split: option.splits if_splits)
qed

lemma persist_relations: "persist d cmd envs s = Inr (p, s') \<Longrightarrow> relations_of s' = relations_of s"
  using persist_spec [of d cmd envs s p s'] by (auto simp: persisted_from_def)

lemma project_env_relations: "relations_of (snd (project_env d env s)) = relations_of s"
  by (auto simp: project_env_def feed_world_def Let_def split: sum.splits prod.splits)

lemma project_all_relations: "relations_of (snd (project_all d envs s)) = relations_of s"
  by (induction d envs s rule: project_all.induct)
    (use project_env_relations in \<open>auto split: prod.splits sum.splits\<close>, (metis snd_conv)+)

lemma commit_relations: "relations_of (snd (commit d cmd events warns s)) = relations_of s"
  using project_all_relations persist_relations
  by (auto simp: commit_def Let_def split: sum.splits prod.splits) (metis snd_conv)+

lemma fold_feed_world: "\<exists>rows. fold (feed_world d) envs w = w\<lparr>w_activity := rows\<rparr>"
proof (induction envs arbitrary: w)
  case Nil
  have "w = w\<lparr>w_activity := w_activity w\<rparr>" by simp
  then show ?case by (metis fold_simps(1))
next
  case (Cons env envs)
  from Cons.IH [of "feed_world d env w"] show ?case by (auto simp: feed_world_def)
qed

lemma record_block_world:
  assumes "record_block d audit e s = (e', s')"
  shows "\<exists>rows. sy_world s' = (sy_world s)\<lparr>w_activity := rows\<rparr>"
proof (cases "audit = []")
  case True
  then have "sy_world s' = (sy_world s)\<lparr>w_activity := w_activity (sy_world s)\<rparr>" using assms by (simp add: record_block_def)
  then show ?thesis ..
next
  case False
  show ?thesis
  proof (cases "append_batch (envelopes_from (envelope_env_of d) 0 audit) s")
    case (Inl e2)
    then have "sy_world s' = (sy_world s)\<lparr>w_activity := w_activity (sy_world s)\<rparr>" using assms False by (simp add: record_block_def)
    then show ?thesis ..
  next
    case (Inr r)
    obtain p s2 where r: "r = (p, s2)" by (metis surj_pair)
    then have "sy_world s' = fold (feed_world d) p (sy_world s2)" using assms False Inr by (auto simp: record_block_def)
    moreover have "sy_world s2 = sy_world s" using append_batch_spec(2) Inr r by blast
    ultimately show ?thesis using fold_feed_world [of d p "sy_world s"] by simp
  qed
qed

lemma dispatch_events_relations: "relations_of (snd (dispatch_events d cmd events warns s)) = relations_of s"
  using record_block_world by (fastforce simp: dispatch_events_def commit_relations split: prod.splits sum.splits gate_outcome.splits)

lemma handle_relations:
  obtains (same) "relations_of (snd (handle d0 cmd0 s)) = relations_of s"
  | (built) d cmd where "relations_of (snd (handle d0 cmd0 s)) = snd (build_events d (sy_world s) cmd (relations_of s))"
proof -
  define r where "r = handle d0 cmd0 s"
  have "relations_of (snd r) = relations_of s \<or>
      (\<exists>d cmd. relations_of (snd r) = snd (build_events d (sy_world s) cmd (relations_of s)))"
    unfolding r_def handle_def Let_def
    by (auto simp: dispatch_events_relations set_relations_def split: prod.splits sum.splits; metis snd_conv)
  then show thesis using same built by (auto simp: r_def)
qed

fun handle_all :: "(dispatch_ctx \<times> command) list \<Rightarrow> system \<Rightarrow> system" where
  "handle_all [] s = s"
| "handle_all ((d, cmd) # rest) s = handle_all rest (snd (handle d cmd s))"

lemma handle_all_reach: "relation_reach (relations_of s) \<Longrightarrow> relation_reach (relations_of (handle_all cs s))"
proof (induction cs s rule: handle_all.induct)
  case (2 d cmd rest s)
  have "relation_reach (relations_of (snd (handle d cmd s)))"
    by (rule handle_relations [of d cmd s]) (use 2(2) built.keeps_reach in simp_all)
  then show ?case using 2(1) by simp
qed simp

text \<open>
  C1: whatever commands are dispatched, in whatever order, with whatever gate, and whether they succeed
  or fail, the \<^verbatim>\<open>Blocks\<close> graph stays acyclic and the relation rows stay unique: every dispatch moves the
  table along the steps of the relation machine.
\<close>

theorem dispatch_refines_relation_machine:
  assumes "relation_reach (w_relations (sy_world s))"
  shows "relation_reach (w_relations (sy_world (handle_all cs s))) \<and>
    blocks_acyclic (w_relations (sy_world (handle_all cs s))) \<and>
    relation_table_ok (w_relations (sy_world (handle_all cs s)))"
  using handle_all_reach [OF assms] relation_reach_ok by blast

subsection \<open>What a successful dispatch persists and projects\<close>

definition audit_event :: "event \<Rightarrow> bool" where
  "audit_event e = (case e of RuleEv (RuleFired _) \<Rightarrow> True | TelemetryEv (OperationalMetricRecorded _) \<Rightarrow> True | _ \<Rightarrow> False)"

definition completes_plan :: "event \<Rightarrow> bool" where
  "completes_plan e = (case e of PlanEv (PlanStatusChanged _ _ to) \<Rightarrow> to = Completed | _ \<Rightarrow> False)"

lemma rule_fired_audit: "list_all audit_event (rule_fired_events d c dec r outs)"
  by (auto simp: rule_fired_events_def list_all_iff in_map_filter audit_event_def split: prod.splits)

lemma observation_audit: "list_all audit_event (map (observation_metric d c) obs)"
  by (simp add: list_all_iff observation_metric_def audit_event_def)

lemma gate_loop_audit:
  assumes "gate_loop d g ov cs audit metrics warns = Inr (GatePassed audit' metrics' warns')"
    and "list_all audit_event audit" "list_all audit_event metrics"
  shows "list_all audit_event audit' \<and> list_all audit_event metrics'"
  using assms
proof (induction cs arbitrary: audit metrics warns)
  case (Cons c cs)
  obtain decision obs where g: "g (hx_actor (dx_handler d)) c ov = Inr (decision, obs)"
    using Cons.prems(1) by (auto split: sum.splits)
  show ?case
    using Cons.prems g rule_fired_audit [of d c] observation_audit [of d c] Cons.IH
    by (cases decision) (simp_all add: Let_def)
qed simp

lemma ask_lifecycle_gate_audit:
  "ask_lifecycle_gate d cmd events = Inr (GatePassed audit metrics warns) \<Longrightarrow>
   list_all audit_event audit \<and> list_all audit_event metrics"
  by (auto simp: ask_lifecycle_gate_def split: option.splits dest: gate_loop_audit)

lemma reconcile_completes: "list_all completes_plan (reconcile_loop w ov pst ps)"
proof (induction pst ps rule: reconcile_induct [where w = w and ov = ov])
  case (close pst i rest p)
  have "completes_plan (PlanEv (PlanStatusChanged i (pl_status p) Completed))" by (simp add: completes_plan_def)
  then show ?case using close.IH by (simp only: reconcile_close [OF close.hyps] list.pred_inject(2) simp_thms)
qed (simp_all add: reconcile_Nil reconcile_skip)

text \<open>Linking provenance rewrites the source of created tasks and nothing else.\<close>

definition creates_task :: "event \<Rightarrow> bool" where
  "creates_task e = (case e of TaskEv (TaskCreated _) \<Rightarrow> True | _ \<Rightarrow> False)"

definition same_but_source :: "event \<Rightarrow> event \<Rightarrow> bool" where
  "same_but_source e e' \<longleftrightarrow> e = e' \<or> creates_task e \<and> creates_task e'"

lemma relink_map: "list_all2 same_but_source (map en_payload envs) (map en_payload (map (\<lambda>env. case en_payload env of
      TaskEv (TaskCreated n) \<Rightarrow> env\<lparr>en_payload := TaskEv (TaskCreated (n\<lparr>nt_source_event_id := Some i\<rparr>))\<rparr> | _ \<Rightarrow> env) envs))"
  by (simp add: list_all2_map1 list_all2_map2 list.rel_refl same_but_source_def creates_task_def split: event.split task_event.split)

lemma relinked_same: "list_all2 same_but_source (map en_payload envs) (map en_payload (relinked cmd envs))"
proof -
  have "list_all2 same_but_source es es" for es by (simp add: list.rel_refl same_but_source_def)
  then show ?thesis
    by (cases cmd) (simp_all only: relinked.simps relink_materialised_provenance_def relink_split_provenance_def
        relink_map split: option.split, simp_all)
qed

lemma same_but_source_mem:
  assumes "list_all2 same_but_source es es'" "\<not> creates_task e"
  shows "e \<in> set es' \<longleftrightarrow> e \<in> set es"
  using assms(1) by (induction rule: list_all2_induct) (use assms(2) in \<open>auto simp: same_but_source_def\<close>)

lemma same_but_source_all:
  assumes "list_all2 same_but_source es es'" and "\<And>e. creates_task e \<Longrightarrow> P e" and "list_all P es"
  shows "list_all P es'"
  using assms(1,3) by (induction rule: list_all2_induct) (use assms(2) in \<open>auto simp: same_but_source_def\<close>)

text \<open>The commands whose arm may create a plan or whose source events ride ahead.\<close>

fun is_intake :: "command \<Rightarrow> bool" where
  "is_intake (MaterializePlan _ _ _) = True"
| "is_intake (CreatePlan _ _) = True"
| "is_intake (ExtendSource _ _ _ _) = True"
| "is_intake _ = False"

lemma intake_stage_other: "\<not> is_intake cmd \<Longrightarrow> intake_stage d w cmd = Inr (cmd, [], [])"
  by (cases cmd) simp_all

lemma intake_stage_intake:
  assumes "intake_stage d w cmd = Inr (cmd', warns, sources)"
  shows "is_intake cmd' = is_intake cmd"
  using assms
  by (cases cmd) (auto simp: stage_materialize_def stage_create_plan_def bind_result_Inr_iff split: option.splits prod.splits)

lemma batch_events_eq:
  obtains recs where "batch_events d w cmd sources built =
    map (attribute_evidence (dx_agent d)) (splice_sources cmd sources built) @ recs" "list_all completes_plan recs"
    "splice_sources cmd sources built = [] \<longrightarrow> recs = []"
proof -
  define es where "es = map (attribute_evidence (dx_agent d)) (splice_sources cmd sources built)"
  define recs where "recs = reconcile_loop w (batch_overlay es) (ov_plans (batch_overlay es)) (batch_candidates w es)"
  have "batch_events d w cmd sources built = es @ recs"
    by (simp add: batch_events_def append_plan_reconciliations_def recs_def es_def)
  moreover have "list_all completes_plan recs" unfolding recs_def by (rule reconcile_completes)
  moreover have "es = [] \<Longrightarrow> recs = []" by (simp add: recs_def batch_candidates_def reconcile_Nil)
  ultimately show thesis using that [of recs] by (auto simp: es_def)
qed

lemma handle_success:
  assumes h: "handle d0 cmd0 s = (Inr (envs, ws), s')"
  obtains (retry) i where "completes_run cmd0 = Some i" "s' = s" "envs = []"
  | (noop) cmd warns sources rels where "intake_stage (pinned d0 cmd0) (sy_world s) cmd0 = Inr (cmd, warns, sources)"
      "build_events (pinned d0 cmd0) (sy_world s) cmd (relations_of s) = (Inr [], rels)" "s' = set_relations rels s" "envs = []"
  | (committed) cmd warns sources built rels audit recs metrics s1 envs0 where
      "intake_stage (pinned d0 cmd0) (sy_world s) cmd0 = Inr (cmd, warns, sources)"
      "build_events (pinned d0 cmd0) (sy_world s) cmd (relations_of s) = (Inr built, rels)"
      "list_all audit_event audit" "list_all completes_plan recs" "list_all audit_event metrics"
      "map en_payload envs0 = audit @ map (attribute_evidence (dx_agent d0)) (splice_sources cmd sources built) @ recs @ metrics"
      "persist (pinned d0 cmd0) cmd (relinked cmd envs0) (set_relations rels s) = Inr (envs, s1)"
      "project_all (pinned d0 cmd0) envs s1 = (Inr (), s')" "splice_sources cmd sources built \<noteq> []"
proof (cases "is_completed_run_retry (dx_agent (pinned d0 cmd0)) cmd0 s")
  case True
  then obtain i where "completes_run cmd0 = Some i" by (auto simp: is_completed_run_retry_def split: option.splits)
  then show thesis using True h retry by (simp add: handle_def)
next
  case False
  define d where "d = pinned d0 cmd0"
  have agent: "dx_agent d = dx_agent d0" by (simp add: d_def pinned_def)
  obtain cmd warns sources built rels where
    stage: "intake_stage d (sy_world s) cmd0 = Inr (cmd, warns, sources)" and
    built: "build_events d (sy_world s) cmd (relations_of s) = (Inr built, rels)" and
    disp: "dispatch_events d cmd (batch_events d (sy_world s) cmd sources built) warns (set_relations rels s) = (Inr (envs, ws), s')"
    using h False by (auto simp: handle_def Let_def d_def split: sum.splits prod.splits)
  obtain recs where ev: "batch_events d (sy_world s) cmd sources built =
      map (attribute_evidence (dx_agent d)) (splice_sources cmd sources built) @ recs" "list_all completes_plan recs"
      "splice_sources cmd sources built = [] \<longrightarrow> recs = []"
    by (rule batch_events_eq)
  show thesis
  proof (cases "splice_sources cmd sources built = []")
    case True
    then have "built = []" by (auto simp: splice_sources_def split: if_splits)
    then show thesis using True ev(1,3) disp noop stage built by (simp add: d_def dispatch_events_def)
  next
    case False
    then have "batch_events d (sy_world s) cmd sources built \<noteq> []" by (simp add: ev(1))
    then obtain audit metrics warns2 where
      g: "ask_lifecycle_gate d cmd (batch_events d (sy_world s) cmd sources built) = Inr (GatePassed audit metrics warns2)"
      and c: "commit d cmd (audit @ batch_events d (sy_world s) cmd sources built @ metrics) (warns @ warns2) (set_relations rels s) = (Inr (envs, ws), s')"
      using disp by (auto simp: dispatch_events_def split: sum.splits gate_outcome.splits prod.splits)
    obtain s1 where p: "persist d cmd (relinked cmd (envelopes_from (envelope_env_of d) 0
        (audit @ batch_events d (sy_world s) cmd sources built @ metrics))) (set_relations rels s) = Inr (envs, s1)"
      "project_all d envs s1 = (Inr (), s')"
      using c by (auto simp: commit_def split: sum.splits prod.splits)
    have pay: "map en_payload (envelopes_from (envelope_env_of d) 0 (audit @ batch_events d (sy_world s) cmd sources built @ metrics)) =
        audit @ map (attribute_evidence (dx_agent d0)) (splice_sources cmd sources built) @ recs @ metrics"
      by (simp add: ev(1) agent)
    have quiet: "list_all audit_event audit" "list_all audit_event metrics" using ask_lifecycle_gate_audit [OF g] by simp_all
    show thesis
      by (rule committed [OF stage [unfolded d_def] built [unfolded d_def] quiet(1) ev(2) quiet(2) pay [unfolded d_def]
            p(1) [unfolded d_def] p(2) [unfolded d_def] False])
  qed
qed

text \<open>The payload that comes back from persisting a relinked batch.\<close>

lemma persisted_payload:
  assumes "persist d cmd (relinked cmd envs0) s = Inr (envs, s1)" and "map en_payload envs0 = es"
  obtains es' cl rs where "map en_payload envs = es' @ map released_event cl" "list_all2 same_but_source es es'"
    "sy_world s1 = (sy_world s)\<lparr>w_runs := rs\<rparr>"
  using persist_spec [OF assms(1)] relinked_same [of envs0 cmd] assms(2) unfolding persisted_from_def by metis

end
