(* ===== verification/Dispatch_Effects.thy ===== *)
theory Dispatch_Effects
  imports Dispatch
begin

text \<open>
  What particular commands achieve when they are dispatched: an ended task holds no claims, a status command takes
  effect in the projections, an ended plan has no active run; and what a rejected command leaves behind.
\<close>

subsection \<open>Claims of closed tasks\<close>

definition claims_task :: "event \<Rightarrow> bool" where
  "claims_task e = (case e of SessionEv (AgentClaimed _ _ _ _) \<Rightarrow> True | _ \<Rightarrow> False)"

lemma claim_apply_shrinks: "\<not> claims_task e \<Longrightarrow> set (claim_apply_event now e cs) \<subseteq> set cs"
  by (auto simp: claim_apply_event_def claims_task_def release_generation_def claim_release_def
      split: event.splits session_event.splits option.splits)

lemma project_env_claims:
  "\<not> claims_task (en_payload env) \<Longrightarrow> set (sy_claims (snd (project_env d env s))) \<subseteq> set (sy_claims s)"
  using claim_apply_shrinks by (auto simp: project_env_def Let_def split: sum.splits prod.splits)

lemma project_all_claims:
  "list_all (\<lambda>env. \<not> claims_task (en_payload env)) envs \<Longrightarrow>
   set (sy_claims (snd (project_all d envs s))) \<subseteq> set (sy_claims s)"
proof (induction d envs s rule: project_all.induct)
  case (2 d env envs s)
  obtain r s1 where r: "project_env d env s = (r, s1)" by (metis surj_pair)
  have "set (sy_claims s1) \<subseteq> set (sy_claims s)" using 2 project_env_claims [of env d s] r by simp
  then show ?case using 2 r by (cases r) auto
qed simp

lemma persist_releases:
  assumes "persist d cmd envs s = Inr (p, s')" and "e \<in> set (map en_payload envs)" "cleanup_task_of e = Some t"
    and "dx_agent d = None \<or> \<not> starts_run cmd \<and> \<not> ends_run cmd"
  shows "\<forall>c \<in> set (sy_claims s'). ac_task_id c \<noteq> t"
proof -
  have "task_lifecycle_event e"
    using assms(3) by (auto simp: cleanup_task_of_def task_lifecycle_event_def split: event.splits task_event.splits)
  then have "list_ex (task_lifecycle_event \<circ> en_payload) envs" using assms(2) by (auto simp: list_ex_iff)
  then have "record_task_batch (envelope_env_of d) envs s = Inr (p, s')"
    using assms(1,4) by (auto simp: persist_def split: option.splits if_splits)
  from record_task_batch_spec [OF this] assms(2,3) show ?thesis by fastforce
qed

text \<open>The families of the events an arm builds, for arms that share the status cascade.\<close>

definition run_ended_by :: "event \<Rightarrow> uuid option" where
  "run_ended_by e =
     (case e of
        RunEv (RunCompleted i _) \<Rightarrow> Some i | RunEv (RunFailed i _ _) \<Rightarrow> Some i | RunEv (RunAborted i _ _) \<Rightarrow> Some i
      | RunEv (RunStarted r) \<Rightarrow> if r_status r = RunActive then None else Some (r_id r)
      | _ \<Rightarrow> None)"

definition plain :: "event \<Rightarrow> bool" where
  "plain e \<longleftrightarrow> \<not> claims_task e \<and> \<not> audit_event e \<and> run_ended_by e = None"

lemma plain_simps [simp]:
  "plain (TaskEv a)" "plain (PlanEv b)" "plain (SignalEv g)" "plain (RelationEv h)" "plain (DocumentEv k)"
  "plain (SettingsEv m)" "plain (WorkEv n)" "plain (ArtifactEv v)"
  "plain (RunEv (RunStarted r)) \<longleftrightarrow> r_status r = RunActive" "plain (RunEv (RunStepStarted i t at))"
  "plain (RunEv (RunStepFinished i t out at))" "plain (RunEv (RunNoteAppended i j body actor at))"
  "plain (SessionEv (AgentSessionStarted z))" "plain (SessionEv (AgentSessionEnded i at))"
  "plain (SessionEv (AgentSessionPlanUpdated i ps))" "plain (SessionEv (SessionArtifactAttached y))"
  "plain (SessionEv (FilesReserved ls))" "plain (SessionEv (FilesReleased i j lo))"
  "plain (released_event cl)"
  by (simp_all add: plain_def claims_task_def audit_event_def run_ended_by_def released_event_def)

lemma cascade_plain:
  "list_all plain (close_task_documents docs i st now)"
  "list_all plain (unblocked_events rels ts i now)"
  "list_all plain (closure_events i a b actor now)"
  "list_all plain (task_comment_events x k i body kind)"
  by (simp_all add: close_task_documents_def unblocked_events_def closure_events_def task_comment_events_def Let_def
      list_all_iff split: status.split)

lemma resolve_plain: "resolve_outgoing now rs rels = (Inr evs, rels') \<Longrightarrow> list_all plain evs"
  using resolve_events_kind by (fastforce simp: list_all_iff)

lemma bind_built_Inr:
  "bind_built m f = (Inr v, rels) \<longleftrightarrow> (\<exists>u r. m = (Inr u, r) \<and> f u r = (Inr v, rels))"
  by (cases m; cases "fst m") (auto simp: bind_built_def)

lemma status_transition_plain:
  "status_transition_events w t to actor now rels = (Inr evs, rels') \<Longrightarrow> list_all plain evs"
  by (auto simp: status_transition_events_def Let_def bind_built_Inr cascade_plain resolve_plain split: if_splits)

lemma emit_plain:
  "emit_status_transition_events w t to actor now rels = (Inr evs, rels') \<Longrightarrow> list_all plain evs"
  by (auto simp: emit_status_transition_events_def split: sum.splits dest: status_transition_plain)

lemma advance_plain:
  "advance_pipeline_events w t pos actor now rels = (Inr evs, rels') \<Longrightarrow> list_all plain evs"
  by (auto simp: advance_pipeline_events_def bind_built_Inr split: sum.splits dest: status_transition_plain)

lemma bulk_plain: "bulk_transition x w st ts rels = (Inr evs, rels') \<Longrightarrow> list_all plain evs"
  by (induction ts arbitrary: rels evs rels') (auto simp: bind_built_Inr dest: emit_plain)

lemma delete_relations_plain: "list_all plain (fst (delete_relations now rs rels))"
  by (induction rs arbitrary: rels) (auto simp: Let_def split_beta)

lemma attach_plain: "list_all plain (attach_events p pos is)"
  by (induction "is" arbitrary: pos) auto

lemmas arm_defs = build_create_task_def build_update_task_def build_complete_task_def build_delete_task_def
  build_set_priority_def build_advance_pipeline_def build_close_stage_def build_bulk_set_status_def build_bulk_attach_def
  build_split_task_def build_update_plan_def build_amend_plan_task_def build_archive_plan_def build_delete_plan_def
  build_add_plan_task_def build_remove_plan_task_def build_reorder_plan_def build_set_plan_goal_def build_set_plan_status_def
  build_start_run_def build_run_start_step_def build_run_finish_step_def build_fail_run_def build_abort_run_def
  build_append_run_note_def build_send_run_signal_def build_respond_run_signal_def build_link_tasks_def build_unlink_tasks_def
  build_create_plan_def build_complete_run_def

lemmas record_arm_defs = build_create_project_def build_update_project_def build_update_project_settings_def
  build_delete_project_def build_record_agent_action_def build_add_comment_def build_edit_comment_def build_delete_comment_def
  build_start_session_def build_end_session_def build_update_session_plan_def build_attach_session_artifact_def
  build_create_document_def build_replace_document_def build_append_document_def build_rename_document_def
  build_archive_document_def build_set_document_status_def build_link_document_def build_create_rule_def build_update_rule_def
  build_disable_rule_def build_delete_rule_def build_record_evidence_def build_register_artifact_def build_update_artifact_def
  build_commit_artifact_write_def build_deprecate_artifact_def build_add_artifact_relation_def
  build_remove_artifact_relation_def build_assign_artifact_owner_def build_change_artifact_status_def
  build_propose_role_artifact_def build_set_role_artifact_status_def build_create_work_unit_def build_complete_work_unit_def
  build_release_work_unit_def build_set_work_unit_status_def build_request_handoff_def
  unit_completed_def

lemmas arm_splits = sum.splits option.splits if_splits prod.splits fan_in.splits signal_kind.splits

fun is_claim_command :: "command \<Rightarrow> bool" where
  "is_claim_command (AcquireClaim _ _ _ _) = True"
| "is_claim_command (ReleaseClaim _ _) = True"
| "is_claim_command _ = False"

text \<open>The commands that end a plan.\<close>

fun ended_plan :: "command \<Rightarrow> uuid option" where
  "ended_plan (ArchivePlan p) = Some p"
| "ended_plan (DeletePlan p) = Some p"
| "ended_plan (SetPlanStatus p st _ _) = (if st = Completed \<or> st = Abandoned then Some p else None)"
| "ended_plan _ = None"

text \<open>The commands that end a run.\<close>

fun run_target :: "command \<Rightarrow> uuid option" where
  "run_target (CompleteRun i) = Some i"
| "run_target (FailRun i _) = Some i"
| "run_target (AbortRun i _) = Some i"
| "run_target _ = None"

lemma split_amend_plain: "list_all plain (split_amend w ps p)"
  by (auto simp: split_amend_def list_all_iff split: prod.splits)

lemma build_set_status_Inr:
  assumes "build_set_status x w i st c rels = (Inr evs, rels')"
  obtains task u tail where "get_task w i = Inr task"
    "emit_status_transition_events w task st (hx_actor x) (hx_now x) rels = (Inr u, rels')"
    "evs = u @ tail" "u = [] \<longrightarrow> tail = []" "tail = [] \<or> (\<exists>body kind. tail = task_comment_events x 0 i body kind)"
proof -
  obtain task note_out where head: "get_task w i = Inr task"
      "bind_built (emit_status_transition_events w task st (hx_actor x) (hx_now x) rels) (\<lambda>evs rels'.
        (Inr (case note_out of Some (body, kind) \<Rightarrow> if evs = [] then evs else evs @ task_comment_events x 0 i body kind
          | None \<Rightarrow> evs), rels')) = (Inr evs, rels')"
    using assms by (auto simp: build_set_status_def bind_result_def split: sum.splits option.splits)
  then obtain u where u: "emit_status_transition_events w task st (hx_actor x) (hx_now x) rels = (Inr u, rels')"
    "evs = (case note_out of Some (body, kind) \<Rightarrow> if u = [] then u else u @ task_comment_events x 0 i body kind | None \<Rightarrow> u)"
    by (auto simp: bind_built_Inr)
  show thesis
  proof (cases "note_out = None \<or> u = []")
    case True
    then show thesis using that [OF head(1) u(1), of "[]"] u(2) by (auto split: option.splits prod.splits)
  next
    case False
    then obtain body kind where "note_out = Some (body, kind)" by auto
    then show thesis using False that [OF head(1) u(1), of "task_comment_events x 0 i body kind"] u(2) by auto
  qed
qed

lemma set_status_plain: "build_set_status x w i st c rels = (Inr evs, rels') \<Longrightarrow> list_all plain evs"
  by (elim build_set_status_Inr) (auto simp: cascade_plain dest: emit_plain)

lemma concat_plain: "(\<And>v. v \<in> set vs \<Longrightarrow> list_all plain (f v)) \<Longrightarrow> list_all plain (concat (map f vs))"
  by (auto simp: list_all_iff)

lemmas plain_facts = cascade_plain attach_plain split_amend_plain
  delete_relations_plain redelivered_create_events_def list.pred_map comp_def list.pred_True

text \<open>The events of the record arms: they belong to the record tables, or report a comment.\<close>

definition record_event :: "event \<Rightarrow> bool" where
  "record_event e =
     (case e of
        TaskEv te \<Rightarrow>
          (case te of
             ProjectCreated _ \<Rightarrow> True | ProjectUpdated _ _ _ \<Rightarrow> True | ProjectDeleted _ \<Rightarrow> True | AgentActionRecorded _ \<Rightarrow> True
           | CommentAdded _ \<Rightarrow> True | CommentEdited _ _ _ _ \<Rightarrow> True | CommentDeleted _ _ _ \<Rightarrow> True
           | TaskCommented _ _ _ _ \<Rightarrow> True | _ \<Rightarrow> False)
      | SessionEv se \<Rightarrow> (case se of AgentClaimed _ _ _ _ \<Rightarrow> False | AgentReleased _ _ _ \<Rightarrow> False | _ \<Rightarrow> True)
      | SettingsEv _ \<Rightarrow> True | WorkEv _ \<Rightarrow> True | DocumentEv _ \<Rightarrow> True | ArtifactEv _ \<Rightarrow> True
      | RuleEv re \<Rightarrow> (case re of RuleFired _ \<Rightarrow> False | _ \<Rightarrow> True)
      | _ \<Rightarrow> False)"

lemma accept_handoff_kind: "build_accept_handoff now actor hs i msg = Inr evs \<Longrightarrow> list_all record_event evs"
  by (cases "handoff_get hs i"; cases "ho_status (the (handoff_get hs i))")
    (auto simp: build_accept_handoff_def record_event_def bind_result_Inr_iff ok_or_Inr_iff)

lemma reject_handoff_kind: "build_reject_handoff now hs i reason changes = Inr evs \<Longrightarrow> list_all record_event evs"
  by (cases "handoff_get hs i"; cases "ho_status (the (handoff_get hs i))"; cases "trim reason = []")
    (auto simp: build_reject_handoff_def record_event_def bind_result_Inr_iff ok_or_Inr_iff)

lemma build_record_events_kind: "build_record_events re x w c = Inr evs \<Longrightarrow> list_all record_event evs"
  by (cases c) (auto simp: record_arm_defs record_event_def Let_def bind_result_Inr_iff ok_or_Inr_iff
      accept_handoff_kind reject_handoff_kind
      split: if_splits option.splits sum.splits work_unit_status.splits)

lemma record_event_plain: "record_event e \<Longrightarrow> plain e"
  by (auto simp: record_event_def plain_def claims_task_def audit_event_def run_ended_by_def
      split: event.splits session_event.splits rule_event.splits)

lemma landed_task_plain: "landed_task x w target k task = Inr (i, evs) \<Longrightarrow> list_all plain evs"
  by (auto simp: landed_task_def redelivered_create_events_def cascade_plain Let_def split: option.splits if_splits)

lemma materialized_plain: "materialized_task_events x w target k pos keys raws = Inr evs \<Longrightarrow> list_all plain evs"
proof (induction raws arbitrary: k pos keys evs)
  case (Cons raw raws)
  then show ?case using landed_task_plain by (fastforce simp: bind_result_Inr_iff Let_def split: if_splits)
qed simp

lemma build_materialize_plain:
  "build_materialize_new x w plan ts = Inr evs \<Longrightarrow> list_all plain evs"
  "build_materialize_into ie x w i plan ts = Inr evs \<Longrightarrow> list_all plain evs"
  by (auto simp: build_materialize_new_def build_materialize_into_def append_materialized_tasks_def reopening_events_def
      bind_result_Inr_iff Let_def materialized_plain split: if_splits plan_status.splits)

lemma build_events_plain:
  assumes "build_events d w cmd rels = (Inr evs, rels')" and "\<not> is_claim_command cmd" "run_target cmd = None" "ended_plan cmd = None"
  shows "list_all plain evs"
  using assms
  by (cases cmd)
    (auto simp: arm_defs Let_def bind_built_Inr bind_result_Inr_iff plain_facts
      intro!: concat_plain split: arm_splits
      dest: resolve_plain set_status_plain advance_plain bulk_plain build_materialize_plain
        build_record_events_kind [THEN list.pred_mono_strong, of _ _ _ _ _ plain, OF _ record_event_plain]
        arg_cong [where f = "\<lambda>p. list_all plain (fst p)"])

text \<open>What every arm keeps, the claim commands and those that end runs included.\<close>

definition arm_event :: "world \<Rightarrow> command \<Rightarrow> event \<Rightarrow> bool" where
  "arm_event w cmd e \<longleftrightarrow> \<not> audit_event e \<and> (claims_task e \<longrightarrow> is_claim_command cmd) \<and>
     (\<forall>i. run_ended_by e = Some i \<longrightarrow> run_target cmd = Some i \<or>
       (\<exists>p r. ended_plan cmd = Some p \<and> r \<in> set (list_active_for_plan (w_runs w) p) \<and> r_id r = i))"

lemma plain_arm_event: "plain e \<Longrightarrow> arm_event w cmd e"
  by (simp add: plain_def arm_event_def)

lemma build_events_arm:
  assumes "build_events d w cmd rels = (Inr evs, rels')"
  shows "list_all (arm_event w cmd) evs"
proof (cases "is_claim_command cmd \<or> run_target cmd \<noteq> None \<or> ended_plan cmd \<noteq> None")
  case True
  then show ?thesis using assms
    by (cases cmd) (auto simp: arm_event_def audit_event_def claims_task_def run_ended_by_def build_complete_run_def
        build_fail_run_def build_abort_run_def build_archive_plan_def build_delete_plan_def build_set_plan_status_def
        obsoleted_runs_def list_all_iff bind_result_Inr_iff split: if_splits, blast+)
next
  case False
  then have "list_all plain evs" using build_events_plain [OF assms] by simp
  then show ?thesis by (rule list.pred_mono_strong) (rule plain_arm_event)
qed

definition claimless :: "event \<Rightarrow> bool" where
  "claimless e \<longleftrightarrow> \<not> claims_task e"

lemma build_events_claimless:
  "build_events d w cmd rels = (Inr evs, rels') \<Longrightarrow> \<not> is_claim_command cmd \<Longrightarrow> list_all claimless evs"
  using build_events_arm by (fastforce simp: list_all_iff arm_event_def claimless_def)

text \<open>The source events that ride ahead of a batch.\<close>

definition source_event :: "event \<Rightarrow> bool" where
  "source_event e = (case e of PlanEv (SourceUpserted _) \<Rightarrow> True | PlanEv (PlanSourceSet _ _ _) \<Rightarrow> True | _ \<Rightarrow> False)"

lemma link_events_source [simp]: "list_all source_event (link_events upserts)"
  by (simp add: link_events_def list_all_iff source_event_def)

lemma source_event_set [simp]: "source_event (PlanEv (PlanSourceSet i r at))"
  by (simp add: source_event_def)

lemma plan_source_events_kind: "plan_source_events ie x ps plan nodes = Inr (evs, ws) \<Longrightarrow> list_all source_event evs"
  by (auto simp: plan_source_events_def bind_result_Inr_iff split: option.splits if_splits list.splits)

lemma resolve_plan_source_kind: "resolve_plan_source ie x ps st plan = Inr (plan', ws, evs) \<Longrightarrow> list_all source_event evs"
  by (auto simp: resolve_plan_source_def bind_result_Inr_iff dest: plan_source_events_kind)

lemma extend_source_kind: "extend_source ie x ps st i ref src ups = Inr (ws, evs) \<Longrightarrow> list_all source_event evs"
  by (auto simp: extend_source_def extend_from_def first_source_def bind_result_Inr_iff Let_def split: option.splits if_splits)

lemma intake_stage_sources: "intake_stage d w cmd = Inr (cmd', ws, sources) \<Longrightarrow> list_all source_event sources"
  by (cases cmd) (auto simp: stage_materialize_def stage_create_plan_def bind_result_Inr_iff split: option.splits
      dest: resolve_plan_source_kind plan_source_events_kind extend_source_kind)

text \<open>
  What holds of every event of a committed batch: it comes from the arm, or it is a source event, a completion, an audit
  event or a release, or it is a created or attributed variant of one.
\<close>

lemma committed_all:
  assumes "persist d cmd (relinked cmd envs0) s = Inr (envs, s1)"
    and "map en_payload envs0 = audit @ map (attribute_evidence agent) (splice_sources cmd sources built) @ recs @ metrics"
    and "list_all audit_event audit" "list_all completes_plan recs" "list_all audit_event metrics"
    and "list_all source_event sources" "list_all P built"
    and "\<And>e. audit_event e \<or> completes_plan e \<or> source_event e \<or> creates_task e \<Longrightarrow> P e"
    and "\<And>e. P e \<Longrightarrow> P (attribute_evidence agent e)" "\<And>cl. P (released_event cl)"
  shows "list_all P (map en_payload envs)" "list_all P (map en_payload envs0)"
proof -
  have "list_all P (splice_sources cmd sources built)" using assms(6-8) by (auto simp: splice_sources_def list_all_iff)
  then show batch: "list_all P (map en_payload envs0)" using assms(3-5,8,9) unfolding assms(2) by (auto simp: list_all_iff)
  obtain es' cl rs where pay: "map en_payload envs = es' @ map released_event cl" "list_all2 same_but_source (map en_payload envs0) es'"
    by (rule persisted_payload [OF assms(1) refl])
  from same_but_source_all [OF pay(2) _ batch] assms(8,10) show "list_all P (map en_payload envs)"
    unfolding pay(1) by (auto simp: list_all_iff)
qed

lemma attribute_evidence_other [simp]:
  "attribute_evidence agent (TaskEv te) = TaskEv te" "attribute_evidence agent (PlanEv pe) = PlanEv pe"
  "attribute_evidence agent (RunEv re) = RunEv re"
  by (simp_all add: attribute_evidence_def)

lemma claimless_released [simp]: "claimless (released_event cl)"
  by (simp add: claimless_def claims_task_def released_event_def)

lemma claimless_attribute [simp]: "claimless (attribute_evidence agent e) = claimless e"
  by (auto simp: attribute_evidence_def claimless_def claims_task_def split: event.splits rule_event.splits)

lemma claimless_other: "audit_event e \<or> completes_plan e \<or> source_event e \<or> creates_task e \<Longrightarrow> claimless e"
  by (auto simp: claimless_def claims_task_def audit_event_def completes_plan_def source_event_def creates_task_def
      split: event.splits)

text \<open>A batch that ends a task ends no run and is not a claim command's.\<close>

definition ends_task :: "event \<Rightarrow> bool" where
  "ends_task e \<longleftrightarrow> cleanup_task_of e \<noteq> None"

lemma not_ends_task:
  "audit_event e \<or> completes_plan e \<or> source_event e \<or> creates_task e \<Longrightarrow> \<not> ends_task e"
  "\<not> ends_task (attribute_evidence agent e) \<longleftrightarrow> \<not> ends_task e" "\<not> ends_task (released_event cl)"
  by (auto simp: ends_task_def cleanup_task_of_def audit_event_def completes_plan_def source_event_def creates_task_def
      released_event_def attribute_evidence_def split: event.splits task_event.splits plan_event.splits rule_event.splits)

lemma run_commands_end_no_task:
  assumes "build_events d w cmd rels = (Inr evs, rels')" and "is_claim_command cmd \<or> starts_run cmd \<or> ends_run cmd"
  shows "list_all (\<lambda>e. \<not> ends_task e) evs"
  using assms by (cases cmd) (auto simp: arm_defs bind_result_Inr_iff list_all_iff ends_task_def cleanup_task_of_def Let_def
      split: if_splits option.splits)

text \<open>
  C3: a task that is closed or deleted holds no claim afterwards. Whenever a dispatched command persists
  a \<^verbatim>\<open>TaskClosed\<close> or \<^verbatim>\<open>TaskDeleted\<close> event for a task, every claim on that task is gone from the table, and
  the releases are part of the same persisted batch.
\<close>

theorem closed_task_holds_no_claim:
  assumes h: "handle d cmd s = (Inr (envs, ws), s')"
    and e: "e \<in> set (map en_payload envs)" "cleanup_task_of e = Some t"
  shows "t \<notin> ac_task_id ` set (sy_claims s')"
  using h
proof (cases rule: handle_success)
  case (committed cmd' warns sources built rels audit recs metrics s1 envs0)
  note batch = committed_all [OF committed(7) committed(6) committed(3-5) intake_stage_sources [OF committed(1)]]
  have ends: "ends_task e" using e(2) by (simp add: ends_task_def)
  have arm: "\<not> (is_claim_command cmd' \<or> starts_run cmd' \<or> ends_run cmd')"
  proof
    assume "is_claim_command cmd' \<or> starts_run cmd' \<or> ends_run cmd'"
    from batch(1) [OF run_commands_end_no_task [OF committed(2) this]] not_ends_task
    have "list_all (\<lambda>e. \<not> ends_task e) (map en_payload envs)" by blast
    then show False using ends e(1) by (auto simp: list_all_iff)
  qed
  obtain es' cl rs where pay: "map en_payload envs = es' @ map released_event cl"
      "list_all2 same_but_source (map en_payload envs0) es'"
    by (rule persisted_payload [OF committed(7) refl])
  have "e \<in> set es'" using e by (auto simp: pay released_event_def cleanup_task_of_def)
  moreover have "\<not> creates_task e" using ends not_ends_task(1) by blast
  ultimately have "e \<in> set (map en_payload (relinked cmd' envs0))" 
    using same_but_source_mem [OF pay(2)] same_but_source_mem [OF relinked_same] by blast
  from persist_releases [OF committed(7) this e(2)] arm have s1: "\<forall>c \<in> set (sy_claims s1). ac_task_id c \<noteq> t" by simp
  have "list_all claimless built" using build_events_claimless [OF committed(2)] arm by simp
  from batch(1) [OF this claimless_other] have "list_all claimless (map en_payload envs)" by simp
  then have "list_all (\<lambda>env. \<not> claims_task (en_payload env)) envs" by (simp add: list_all_iff claimless_def)
  from project_all_claims [OF this, of "pinned d cmd" s1] committed(8) s1 show ?thesis by auto
qed (use e in simp_all)

subsection \<open>A status command takes effect\<close>

definition status_in :: "system \<Rightarrow> uuid \<Rightarrow> status option" where
  "status_in s i = map_option t_status (task_repo_get (w_tasks (sy_world s)) i)"

text \<open>The events that may write the status of a task.\<close>

definition writes_status :: "uuid \<Rightarrow> event \<Rightarrow> bool" where
  "writes_status i e =
     (case e of
        TaskEv (TaskCreated _) \<Rightarrow> True | TaskEv (TaskSplitGenerated _ _) \<Rightarrow> True
      | TaskEv (TaskUpdated j p) \<Rightarrow> j = i \<and> tp_status p \<noteq> None
      | TaskEv (TaskStatusChanged j _ _) \<Rightarrow> j = i | TaskEv (TaskCompleted j _ _) \<Rightarrow> j = i
      | TaskEv (TaskDeleted j) \<Rightarrow> j = i | _ \<Rightarrow> False)"

lemma task_write_task:
  assumes w: "task_write i f post rows = Inr rows'" and st: "stamps_with i post g" and f: "\<And>t. t_id (f t) = t_id t"
  shows "map_option tr_task (row_get row_id rows' j) =
    (if j = i then map_option (\<lambda>r. f (tr_task r)) (row_get row_id rows j) else map_option tr_task (row_get row_id rows j))"
proof (cases "row_get row_id rows i")
  case None
  then show ?thesis using w by (simp add: task_write_def)
next
  case (Some r)
  have ri: "t_id (tr_task r) = i" using row_get_Some [OF Some] by simp
  obtain rows1 where up: "upsert_task (f (tr_task r)) rows = Inr rows1" and rows': "rows' = post (tr_task r) rows1"
    using w Some by (auto simp: task_write_def bind_result_Inr_iff)
  then show ?thesis
    using st upsert_task_get [OF up, of j] Some ri f
    by (cases "j = i") (simp_all add: stamps_with_def written_row_def)
qed

lemmas stamp_laws = stamps_keep stamps_status stamps_entered_done stamps_position

lemma rows_status_kept:
  assumes "task_rows_apply fresh env rows = Inr rows'" and "\<not> writes_status i (en_payload env)"
  shows "map_option (t_status \<circ> tr_task) (row_get row_id rows' i) = map_option (t_status \<circ> tr_task) (row_get row_id rows i)"
proof (cases "en_payload env")
  case (TaskEv te)
  note run = assms(1) [unfolded task_rows_apply_def TaskEv Let_def, simplified]
  have kept: "map_option (t_status \<circ> tr_task) (row_get row_id rows' i) = map_option (t_status \<circ> tr_task) (row_get row_id rows i)"
    if "task_write j f post rows = Inr rows'" "stamps_with j post g" "\<And>t. t_id (f t) = t_id t"
      "j = i \<Longrightarrow> (\<And>t. t_status (f t) = t_status t)" for j f post g
    using task_write_task [OF that(1-3), of i] that(4) by (cases "row_get row_id rows i"; cases "row_get row_id rows' i") (auto split: if_splits)
  show ?thesis
  proof (cases te)
    case (TaskUpdated j p)
    show ?thesis using assms(2) TaskEv TaskUpdated
      by (intro kept [OF run [unfolded TaskUpdated, simplified] stamps_position])
        (auto simp: writes_status_def projection_defs)
  next
    case (TaskStatusChanged j a b)
    show ?thesis using assms(2) TaskEv TaskStatusChanged
      by (intro kept [OF run [unfolded TaskStatusChanged, simplified] stamps_status]) (auto simp: writes_status_def projection_defs)
  next
    case (TaskPriorityChanged j a b)
    show ?thesis by (intro kept [OF run [unfolded TaskPriorityChanged, simplified] stamps_keep]) (auto simp: projection_defs)
  next
    case (TaskCompleted j at n)
    show ?thesis using assms(2) TaskEv TaskCompleted
      by (intro kept [OF run [unfolded TaskCompleted, simplified] stamps_entered_done]) (auto simp: writes_status_def projection_defs)
  next
    case (TaskReopened j a at)
    show ?thesis by (intro kept [OF run [unfolded TaskReopened, simplified] stamps_keep]) (auto simp: projection_defs)
  next
    case (TaskClosed j a at)
    show ?thesis by (intro kept [OF run [unfolded TaskClosed, simplified] stamps_keep]) (auto simp: projection_defs)
  next
    case (TaskDeleted j)
    then show ?thesis using run assms(2) TaskEv by (auto simp: writes_status_def table_simps)
  qed (use run assms(2) TaskEv in \<open>simp_all add: writes_status_def\<close>)
qed (use assms in \<open>simp_all add: task_rows_apply_def Let_def\<close>)

lemma fill_project_status:
  "map_option (t_status \<circ> tr_task) (row_get row_id (fill_task_project ps pts p t rows) i) =
   map_option (t_status \<circ> tr_task) (row_get row_id rows i)"
  by (auto simp: fill_task_project_def option.map_comp comp_def intro!: option.map_cong)

lemma plan_apply_status:
  "map_option (t_status \<circ> tr_task) (row_get row_id (ts_rows (snd (plan_apply_event now env (ps, ts)))) i) =
   map_option (t_status \<circ> tr_task) (row_get row_id (ts_rows ts) i)"
  by (auto simp: plan_apply_event_def plan_add_task_def Let_def fill_project_status split: event.splits plan_event.splits)

lemma status_in_rows: "status_in s i = map_option (t_status \<circ> tr_task) (row_get row_id (ts_rows (w_tasks (sy_world s))) i)"
  by (simp add: status_in_def task_repo_get_def option.map_comp comp_def)

lemma project_env_status:
  assumes "project_env d env s = (Inr u, s')"
  obtains rows where "task_rows_apply (hx_fresh (dx_handler d)) env (ts_rows (w_tasks (sy_world s))) = Inr rows"
    "\<And>i. status_in s' i = map_option (t_status \<circ> tr_task) (row_get row_id rows i)"
proof -
  obtain ts where ts: "task_apply_event (hx_fresh (dx_handler d)) env (w_tasks (sy_world s)) = Inr ts"
    and w: "w_tasks (sy_world s') = snd (plan_apply_event (hx_now (dx_handler d)) env (w_plans (sy_world s), ts))"
    using assms by (auto simp: project_env_def Let_def split: sum.splits prod.splits)
  show thesis using that [OF task_apply_event_rows [OF ts]] by (simp add: status_in_rows w plan_apply_status)
qed

lemma project_env_status_kept:
  "project_env d env s = (Inr u, s') \<Longrightarrow> \<not> writes_status i (en_payload env) \<Longrightarrow> status_in s' i = status_in s i"
  by (elim project_env_status) (simp add: rows_status_kept status_in_rows)

lemma project_env_status_changed:
  assumes "project_env d env s = (Inr u, s')" and "en_payload env = TaskEv (TaskStatusChanged i a st)" and "status_in s i \<noteq> None"
  shows "status_in s' i = Some st"
  using assms(1)
proof (rule project_env_status)
  fix rows
  assume run: "task_rows_apply (hx_fresh (dx_handler d)) env (ts_rows (w_tasks (sy_world s))) = Inr rows"
    and s': "\<And>i. status_in s' i = map_option (t_status \<circ> tr_task) (row_get row_id rows i)"
  have "task_write i (apply_status_changed env st) (\<lambda>_. stamp_status_changed_at i (en_occurred_at env))
      (ts_rows (w_tasks (sy_world s))) = Inr rows"
    using run assms(2) by (simp add: task_rows_apply_def)
  from task_write_task [OF this stamps_status, of i] have "map_option tr_task (row_get row_id rows i) =
      map_option (\<lambda>r. apply_status_changed env st (tr_task r)) (row_get row_id (ts_rows (w_tasks (sy_world s))) i)"
    by (simp add: projection_defs)
  moreover have "t_status (apply_status_changed env st t) = st" for t by (simp add: projection_defs)
  moreover have "row_get row_id (ts_rows (w_tasks (sy_world s))) i \<noteq> None" using assms(3) by (simp add: status_in_rows)
  ultimately show ?thesis unfolding s' by (auto simp: comp_def)
qed

lemma project_all_status_kept:
  "project_all d envs s = (Inr u, s') \<Longrightarrow> list_all (\<lambda>env. \<not> writes_status i (en_payload env)) envs \<Longrightarrow>
   status_in s' i = status_in s i"
proof (induction d envs s rule: project_all.induct)
  case (2 d env envs s)
  then obtain v s1 where "project_env d env s = (Inr v, s1)" "project_all d envs s1 = (Inr u, s')"
    by (auto split: prod.splits sum.splits)
  then show ?case using 2 project_env_status_kept by auto
qed simp

lemma project_all_Cons:
  "project_all d (env # envs) s = (Inr u, s') \<longleftrightarrow> (\<exists>s1. project_env d env s = (Inr (), s1) \<and> project_all d envs s1 = (Inr u, s'))"
  by (auto split: prod.splits sum.splits)

lemma project_all_append:
  "project_all d (xs @ ys) s = (Inr u, s') \<longleftrightarrow> (\<exists>s1. project_all d xs s = (Inr (), s1) \<and> project_all d ys s1 = (Inr u, s'))"
  by (induction d xs s rule: project_all.induct) (auto split: prod.splits sum.splits)

lemma status_tail_quiet:
  "list_all (\<lambda>e. \<not> writes_status i e) (closure_events j a b actor now)"
  "list_all (\<lambda>e. \<not> writes_status i e) (unblocked_events rels ts j now)"
  "list_all (\<lambda>e. \<not> writes_status i e) (close_task_documents docs j st now)"
  "list_all (\<lambda>e. \<not> writes_status i e) (task_comment_events x k j body kind)"
  by (simp_all add: closure_events_def unblocked_events_def close_task_documents_def task_comment_events_def Let_def
      list_all_iff writes_status_def split: status.split)

lemma resolve_quiet: "resolve_outgoing now rs rels = (Inr evs, rels') \<Longrightarrow> list_all (\<lambda>e. \<not> writes_status i e) evs"
  using resolve_events_kind by (fastforce simp: list_all_iff writes_status_def)

lemma emit_status_head:
  assumes "emit_status_transition_events w task st actor now rels = (Inr u, rels')"
  shows "if t_status task = st then u = []
    else \<exists>tail. u = TaskEv (TaskStatusChanged (t_id task) (t_status task) st) # tail \<and> list_all (\<lambda>e. \<not> writes_status (t_id task) e) tail"
proof -
  have tr: "status_transition_events w task st actor now rels = (Inr u, rels')"
    using assms by (auto simp: emit_status_transition_events_def split: sum.splits)
  show ?thesis
  proof (cases "t_status task = st")
    case True
    then show ?thesis using tr by (simp add: status_transition_events_def Let_def)
  next
    case False
    with tr show ?thesis
      by (cases rule: status_transition_cases) (use False in \<open>auto simp: status_tail_quiet intro: resolve_quiet\<close>)
  qed
qed

lemma audit_quiet: "list_all audit_event es \<Longrightarrow> list_all (\<lambda>e. \<not> writes_status i e) es"
  by (auto simp: list_all_iff audit_event_def writes_status_def split: event.splits)

lemma completes_quiet: "list_all completes_plan es \<Longrightarrow> list_all (\<lambda>e. \<not> writes_status i e) es"
  by (auto simp: list_all_iff completes_plan_def writes_status_def split: event.splits)

lemma released_quiet: "list_all (\<lambda>e. \<not> writes_status i e) (map released_event cl)"
  by (simp add: list_all_iff released_event_def writes_status_def)

lemma writes_status_attribute: "writes_status i (attribute_evidence agent e) = writes_status i e"
  by (auto simp: attribute_evidence_def writes_status_def split: event.splits rule_event.splits)

lemma project_status_change:
  assumes run: "project_all d envs s1 = (Inr u, s')" and here: "status_in s1 i \<noteq> None"
    and pay: "map en_payload envs = pre @ TaskEv (TaskStatusChanged i a st) # post"
    and quiet: "list_all (\<lambda>e. \<not> writes_status i e) pre" "list_all (\<lambda>e. \<not> writes_status i e) post"
  shows "status_in s' i = Some st"
proof -
  obtain xs env ys where envs: "envs = xs @ env # ys" "map en_payload xs = pre" "en_payload env = TaskEv (TaskStatusChanged i a st)"
    "map en_payload ys = post"
    using pay by (auto simp: map_eq_append_conv map_eq_Cons_conv)
  obtain s2 s3 where s2: "project_all d xs s1 = (Inr (), s2)" and s3: "project_env d env s2 = (Inr (), s3)"
    and s': "project_all d ys s3 = (Inr u, s')"
    using run unfolding envs(1) project_all_append project_all_Cons by blast
  have "status_in s2 i = status_in s1 i"
    using project_all_status_kept [OF s2] quiet(1) envs(2) by (auto simp: list.pred_map comp_def)
  then have "status_in s3 i = Some st" using project_env_status_changed [OF s3 envs(3)] here by simp
  then show ?thesis using project_all_status_kept [OF s'] quiet(2) envs(4) by (auto simp: list.pred_map comp_def)
qed

text \<open>
  C2: a status command that is accepted takes effect. After a successful \<^verbatim>\<open>SetStatus\<close> the task projection
  holds exactly the requested status, whatever the gate, the reconciliation and the released claims
  added to the batch.
\<close>

theorem set_status_takes_effect:
  assumes h: "handle d (SetStatus i st force reason note_in) s = (Inr (envs, ws), s')"
  shows "map_option t_status (task_repo_get (w_tasks (sy_world s')) i) = Some st"
  using h
proof (cases rule: handle_success)
  case (retry j)
  then show ?thesis by simp
next
  case (noop cmd' warns sources rels)
  then have "cmd' = SetStatus i st force reason note_in" by simp
  with noop(2) have "build_set_status (dx_handler (pinned d cmd')) (sy_world s) i st note_in (relations_of s) = (Inr [], rels)"
    by simp
  then show ?thesis
    by (rule build_set_status_Inr)
      (use noop(3) in \<open>auto simp: get_task_def ok_or_def set_relations_def dest!: emit_status_head split: option.splits if_splits\<close>)
next
  case (committed cmd' warns sources built rels audit recs metrics s1 envs0)
  let ?cmd = "SetStatus i st force reason note_in"
  let ?x = "dx_handler (pinned d ?cmd)"
  have stage: "cmd' = ?cmd" "sources = []" using committed(1) by simp_all
  have "build_set_status ?x (sy_world s) i st note_in (relations_of s) = (Inr built, rels)"
    using committed(2) by (simp add: stage(1))
  then obtain task u tail where task: "get_task (sy_world s) i = Inr task"
    and u: "emit_status_transition_events (sy_world s) task st (hx_actor ?x) (hx_now ?x) (relations_of s) = (Inr u, rels)"
    and built: "built = u @ tail" "u = [] \<longrightarrow> tail = []" "tail = [] \<or> (\<exists>body kind. tail = task_comment_events ?x 0 i body kind)"
    by (rule build_set_status_Inr)
  have ti: "t_id task = i" "status_in s i = Some (t_status task)"
    using task by (auto simp: get_task_def ok_or_def status_in_def task_repo_get_def split: option.splits dest: row_get_Some)
  have spliced: "splice_sources cmd' sources built = built" by (simp add: stage splice_sources_def)
  obtain cl where pay: "map en_payload envs = audit @ map (attribute_evidence (dx_agent d)) built @ recs @ metrics @ map released_event cl"
    and w: "w_tasks (sy_world s1) = w_tasks (sy_world s)"
    using persist_spec [OF committed(7)] committed(6) unfolding persisted_from_def
    by (auto simp: set_relations_def stage(1) spliced [unfolded stage(1)])
  have tail: "list_all (\<lambda>e. \<not> writes_status i e) tail" using built(3) status_tail_quiet(4) by auto
  note rest = audit_quiet [OF committed(3)] completes_quiet [OF committed(4)] audit_quiet [OF committed(5)] released_quiet
  have s1: "status_in s1 i = Some (t_status task)" using ti(2) by (simp add: status_in_def w)
  have "status_in s' i = Some st"
  proof (cases "t_status task = st")
    case True
    then have "built = []" using emit_status_head [OF u] built by simp
    then show ?thesis using committed(9) unfolding spliced by simp
  next
    case False
    then obtain utail where u': "u = TaskEv (TaskStatusChanged i (t_status task) st) # utail" "list_all (\<lambda>e. \<not> writes_status i e) utail"
      using emit_status_head [OF u] ti(1) by auto
    let ?post = "map (attribute_evidence (dx_agent d)) (utail @ tail) @ recs @ metrics @ map released_event cl"
    have "map en_payload envs = audit @ TaskEv (TaskStatusChanged i (t_status task) st) # ?post"
      by (simp add: pay built(1) u'(1))
    moreover have "list_all (\<lambda>e. \<not> writes_status i e) ?post"
      using u'(2) tail rest by (simp add: list.pred_map comp_def writes_status_attribute)
    ultimately show ?thesis using project_status_change [OF committed(8)] rest(1) s1 by blast
  qed
  then show ?thesis by (simp add: status_in_def)
qed

subsection \<open>Runs of an ended plan\<close>

definition no_active_run :: "uuid \<Rightarrow> run list \<Rightarrow> bool" where
  "no_active_run p rs \<longleftrightarrow> list_all (\<lambda>r. r_plan_id r = p \<longrightarrow> r_status r \<noteq> RunActive) rs"

definition run_start :: "event \<Rightarrow> bool" where
  "run_start e = (case e of RunEv (RunStarted _) \<Rightarrow> True | _ \<Rightarrow> False)"

lemma list_active_empty: "list_active_for_plan s p = [] \<longleftrightarrow> no_active_run p (rs_runs s)"
  by (auto simp: list_active_for_plan_def no_active_run_def list_all_iff filter_empty_conv dest: arg_cong [where f = set])

lemma no_active_run_map:
  "no_active_run p rs \<Longrightarrow> (\<And>r. r_plan_id (f r) = r_plan_id r \<and> (r_status (f r) = RunActive \<longrightarrow> r_status r = RunActive)) \<Longrightarrow>
   no_active_run p (map f rs)"
  by (auto simp: no_active_run_def list_all_iff)

lemma run_apply_no_active:
  "no_active_run p (rs_runs s) \<Longrightarrow> \<not> run_start (en_payload env) \<Longrightarrow> no_active_run p (rs_runs (run_apply_event env s))"
  by (auto simp: run_apply_event_def run_start_def touch_activity_def end_run_def row_modify_def
      intro!: no_active_run_map split: event.splits run_event.splits if_splits)

lemma project_all_no_active:
  "no_active_run p (rs_runs (w_runs (sy_world s))) \<Longrightarrow> list_all (\<lambda>env. \<not> run_start (en_payload env)) envs \<Longrightarrow>
   no_active_run p (rs_runs (w_runs (sy_world (snd (project_all d envs s)))))"
proof (induction d envs s rule: project_all.induct)
  case (2 d env envs s)
  obtain r s1 where r: "project_env d env s = (r, s1)" by (metis surj_pair)
  have "no_active_run p (rs_runs (w_runs (sy_world s1)))"
    using 2(2,3) r run_apply_no_active by (auto simp: project_env_def Let_def split: sum.splits prod.splits)
  then show ?case using 2 r by (cases r) auto
qed simp

lemma end_active_run_status:
  "st \<noteq> RunActive \<Longrightarrow> r \<in> set (end_active_run st reason at i rs) \<Longrightarrow> r_status r = RunActive \<Longrightarrow> r \<in> set rs \<and> r_id r \<noteq> i"
  by (auto simp: end_active_run_def split: if_splits)

lemma end_plan_runs_status:
  assumes "end_plan_runs st reason at is rs cs owners = (rel, rs', cs', owners')" and "st \<noteq> RunActive"
    and "r \<in> set rs'" "r_status r = RunActive"
  shows "r \<in> set rs \<and> r_id r \<notin> set is"
  using assms
proof (induction "is" arbitrary: rs cs owners rel)
  case (Cons i "is")
  then obtain rel' where "end_plan_runs st reason at is (end_active_run st reason at i rs)
      (filter (\<lambda>c. ac_run_id c \<noteq> Some i) cs) (filter (\<lambda>(r, _). r \<noteq> i) owners) = (rel', rs', cs', owners')"
    by (auto simp: Let_def split: prod.splits)
  from Cons.IH [OF this Cons.prems(2-4)] show ?case
    using end_active_run_status Cons.prems(2,4) by (auto dest: end_active_run_status)
qed simp

lemma record_plan_terminal_ends:
  assumes rec: "record_plan_terminal ee req envs s = Inr (p, s')"
    and first: "first_of (terminal_plan_of (ee_now ee)) envs = Some (i, st, reason, at)"
  shows "no_active_run i (rs_runs (w_runs (sy_world s')))"
proof -
  let ?rs = "rs_runs (w_runs (sy_world s))"
  let ?ids = "map r_id (filter (\<lambda>r. r_plan_id r = i \<and> r_status r = RunActive) ?rs)"
  obtain rel rs' cs' owners' where ended: "end_plan_runs st reason at ?ids ?rs (sy_claims s) (sy_run_owners s) = (rel, rs', cs', owners')"
    by (rule prod_cases4)
  have app: "append_with_releases ee envs (map released_event rel) ((set_runs rs' s)\<lparr>sy_claims := cs', sy_run_owners := owners'\<rparr>) = Inr (p, s')"
    using rec first ended by (simp add: record_plan_terminal_def Let_def split: if_splits)
  have s': "rs_runs (w_runs (sy_world s')) = rs'"
    using append_with_releases_spec(2) [OF app] by (simp add: set_runs_def)
  have "terminal_plan_of (ee_now ee) e = Some (i, st, reason, at) \<Longrightarrow> st \<noteq> RunActive" for e
    by (auto simp: terminal_plan_of_def split: event.splits plan_event.splits plan_status.splits)
  moreover have "(i, st, reason, at) \<in> set (List.map_filter (terminal_plan_of (ee_now ee) \<circ> en_payload) envs)"
    using first by (auto simp: first_of_def split: list.splits)
  ultimately have "st \<noteq> RunActive" unfolding in_map_filter by auto
  from end_plan_runs_status [OF ended this] show ?thesis
    by (fastforce simp: s' no_active_run_def list_all_iff)
qed

lemma ended_plan_terminal: "ended_plan cmd = Some p \<Longrightarrow> plan_terminal cmd"
  by (cases cmd) (auto split: if_splits)

lemma ended_plan_plain:
  "ended_plan cmd = Some p \<Longrightarrow> \<not> is_intake cmd"
  "ended_plan cmd = Some p \<Longrightarrow> \<not> starts_run cmd \<and> \<not> ends_run cmd"
  by (cases cmd; simp)+

text \<open>Events that neither start a run nor end a task.\<close>

definition inert :: "event \<Rightarrow> bool" where
  "inert e \<longleftrightarrow> \<not> run_start e \<and> \<not> task_lifecycle_event e"

lemma inert_other: "audit_event e \<or> completes_plan e \<or> source_event e \<or> creates_task e \<Longrightarrow> inert e"
  by (auto simp: inert_def run_start_def task_lifecycle_event_def audit_event_def completes_plan_def source_event_def
      creates_task_def split: event.splits task_event.splits)

lemma inert_attribute: "inert e \<Longrightarrow> inert (attribute_evidence agent e)"
  by (auto simp: inert_def run_start_def task_lifecycle_event_def attribute_evidence_def split: event.splits rule_event.splits)

lemma inert_released: "inert (released_event cl)"
  by (simp add: inert_def run_start_def task_lifecycle_event_def released_event_def)

lemma ended_plan_built:
  assumes "build_events d w cmd rels = (Inr built, rels')" and "ended_plan cmd = Some p" and "built \<noteq> []"
  shows "\<exists>e tail st reason at. built = e # tail \<and> terminal_plan_of now e = Some (p, st, reason, at) \<and> list_all inert built"
proof -
  have quiet: "list_all inert (obsoleted_runs w q r t)" for q r t
    by (auto simp: obsoleted_runs_def list_all_iff inert_def run_start_def task_lifecycle_event_def)
  show ?thesis using assms quiet
    by (cases cmd) (auto simp: arm_defs bind_result_Inr_iff terminal_plan_of_def inert_def run_start_def task_lifecycle_event_def
        split: if_splits plan_status.splits)
qed

lemma map_filter_append: "List.map_filter f (xs @ ys) = List.map_filter f xs @ List.map_filter f ys"
  by (simp add: List.map_filter_def)

lemma audit_inert: "list_all audit_event es \<Longrightarrow> List.map_filter (terminal_plan_of now) es = []"
  by (induction es) (auto simp: List.map_filter_simps audit_event_def terminal_plan_of_def split: event.splits)

text \<open>What such a command persists: its plan event comes first, and nothing in the batch starts a run or ends a task.\<close>

lemma ended_plan_persisted:
  assumes plan: "ended_plan cmd = Some p"
    and stage: "intake_stage d (sy_world s) cmd = Inr (cmd', ws, sources)"
    and arm: "build_events d (sy_world s) cmd' rels0 = (Inr built, rels)"
    and quiet: "list_all audit_event audit" "list_all completes_plan recs" "list_all audit_event metrics"
    and envs0: "map en_payload envs0 = audit @ map (attribute_evidence agent) (splice_sources cmd' sources built) @ recs @ metrics"
    and per: "persist d cmd' (relinked cmd' envs0) s0 = Inr (envs, s1)" and did: "splice_sources cmd' sources built \<noteq> []"
  obtains st reason at where "cmd' = cmd" "first_of (terminal_plan_of (ee_now (envelope_env_of d))) envs0 = Some (p, st, reason, at)"
    "record_plan_terminal (envelope_env_of d) (if dx_admin d then None else dx_agent d) envs0 s0 = Inr (envs, s1)"
    "list_all inert (map en_payload envs)"
proof -
  let ?now = "ee_now (envelope_env_of d)"
  have cmd: "cmd' = cmd" "sources = []" using stage intake_stage_other [OF ended_plan_plain(1) [OF plan]] by simp_all
  have spliced: "splice_sources cmd' sources built = built" by (simp add: cmd splice_sources_def)
  have same: "relinked cmd envs0 = envs0" using plan by (cases cmd) simp_all
  obtain e tail st reason at where e: "built = e # tail" "terminal_plan_of ?now e = Some (p, st, reason, at)"
    and quiet_arm: "list_all inert built"
    using ended_plan_built [OF arm [unfolded cmd] plan] did unfolding spliced by blast
  note batch = committed_all [OF per envs0 quiet intake_stage_sources [OF stage] quiet_arm inert_other inert_attribute inert_released]
  have nolife: "\<not> list_ex (task_lifecycle_event \<circ> en_payload) envs0"
    using batch(2) by (auto simp: list_all_iff list_ex_iff inert_def)
  have "terminal_plan_of ?now (attribute_evidence agent e) = Some (p, st, reason, at)"
    using e(2) by (auto simp: terminal_plan_of_def attribute_evidence_def split: event.splits)
  then have "List.map_filter (terminal_plan_of ?now) (map en_payload envs0) = (p, st, reason, at) #
      List.map_filter (terminal_plan_of ?now) (map (attribute_evidence agent) tail @ recs @ metrics)"
    using audit_inert [OF quiet(1)] unfolding envs0 spliced by (simp add: e(1) map_filter_append List.map_filter_simps)
  then have first: "first_of (terminal_plan_of ?now) envs0 = Some (p, st, reason, at)"
    by (simp add: first_of_def List.map_filter_def comp_def filter_map)
  have "record_plan_terminal (envelope_env_of d) (if dx_admin d then None else dx_agent d) envs0 s0 = Inr (envs, s1)"
    using per nolife ended_plan_terminal [OF plan] ended_plan_plain [OF plan]
    by (auto simp: persist_def same cmd(1) split: option.splits if_splits)
  with that cmd(1) first batch(1) show thesis by blast
qed

text \<open>
  C4: an ended plan has no active run. Once a command that archives, deletes, completes or abandons a
  plan has been dispatched and recorded, no run of that plan is active, whatever runs were active
  before.
\<close>

theorem ended_plan_has_no_active_run:
  assumes h: "handle d cmd s = (Inr (envs, ws), s')" and plan: "ended_plan cmd = Some p" and did: "envs \<noteq> []"
  shows "list_active_for_plan (w_runs (sy_world s')) p = []"
  using h
proof (cases rule: handle_success)
  case (committed cmd' warns sources built rels audit recs metrics s1 envs0)
  obtain st reason at where
    first: "first_of (terminal_plan_of (ee_now (envelope_env_of (pinned d cmd)))) envs0 = Some (p, st, reason, at)" and
    rec: "record_plan_terminal (envelope_env_of (pinned d cmd)) (if dx_admin (pinned d cmd) then None else dx_agent (pinned d cmd))
      envs0 (set_relations rels s) = Inr (envs, s1)" and quiet: "list_all inert (map en_payload envs)"
    by (rule ended_plan_persisted [OF plan committed(1-7,9)])
  have "list_all (\<lambda>env. \<not> run_start (en_payload env)) envs" using quiet by (auto simp: list_all_iff inert_def)
  from record_plan_terminal_ends [OF rec first] project_all_no_active [OF _ this, of p s1 "pinned d cmd"] committed(8)
  show ?thesis by (simp add: list_active_empty)
qed (use did in simp_all)

subsection \<open>Examples\<close>

definition demo_dispatch :: "observed_gate option \<Rightarrow> dispatch_ctx" where
  "demo_dispatch g = \<lparr>dx_handler = demo_ctx, dx_records = \<lparr>re_intake = demo_intake, re_audit_ok = (\<lambda>_. True)\<rparr>,
     dx_text = demo_text, dx_event_id = (\<lambda>k. 2000 + k), dx_row_id = (\<lambda>k. 3000 + k), dx_gate = g, dx_agent = None,
     dx_admin = False\<rparr>"

text \<open>One task in progress under a claim, a second one waiting on it, and a plan with an active run.\<close>

definition demo_system :: system where
  "demo_system = \<lparr>sy_world = demo_world\<lparr>w_tasks := demo_rows [(1, InProgress), (2, Todo)],
       w_plans := \<lparr>ps_plans = [demo_plan 5 Active], ps_plan_tasks = [], ps_sources = []\<rparr>,
       w_runs := \<lparr>rs_runs = [\<lparr>r_id = 70, r_plan_id = 5, r_agent_id = 7, r_parent_run_id = None, r_started_at = 1,
         r_ended_at = None, r_status = RunActive, r_outcome = None, r_last_activity_at = Some 1,
         r_unresponsive_at = None, r_stale_at = None\<rparr>], rs_steps = []\<rparr>,
       w_relations := [demo_edge 100 1 2 Blocks]\<rparr>,
     sy_claims = [demo_claim], sy_run_owners = [], sy_log = empty_log\<rparr>"

text \<open>The same without the waiting task.\<close>

definition demo_single :: system where
  "demo_single = demo_system\<lparr>sy_world := (sy_world demo_system)\<lparr>w_relations := []\<rparr>\<rparr>"

definition blocking_gate :: observed_gate where
  "blocking_gate actor check ov = Inr (GateBlocked ''needs a review'' JNull, [])"

definition outcome_events :: "(event_envelope list \<times> mutation_warning list) result \<times> system \<Rightarrow> event list option" where
  "outcome_events r = (case fst r of Inl _ \<Rightarrow> None | Inr (envs, _) \<Rightarrow> Some (map en_payload envs))"

lemma outcome_events_Some:
  "outcome_events r = Some evs \<Longrightarrow> \<exists>envs ws. r = (Inr (envs, ws), snd r) \<and> map en_payload envs = evs"
  by (cases r) (auto simp: outcome_events_def split: sum.splits prod.splits)

lemma demo_finish:
  "outcome_events (handle (demo_dispatch None) (SetStatus 1 Done False None None) demo_single) =
     Some [TaskEv (TaskStatusChanged 1 InProgress Done), TaskEv (TaskClosed 1 actor_user 9), SessionEv (AgentReleased 7 1 (Some 50))]"
  by code_simp

theorem set_status_takes_effect_witness:
  "\<exists>envs ws s'. handle (demo_dispatch None) (SetStatus 1 Done False None None) demo_single = (Inr (envs, ws), s') \<and>
     map_option t_status (task_repo_get (w_tasks (sy_world s')) 1) = Some Done"
  using outcome_events_Some [OF demo_finish] set_status_takes_effect by blast

theorem closed_task_holds_no_claim_witness:
  "1 \<in> ac_task_id ` set (sy_claims demo_single) \<and>
   1 \<notin> ac_task_id ` set (sy_claims (snd (handle (demo_dispatch None) (SetStatus 1 Done False None None) demo_single)))"
proof
  show "1 \<in> ac_task_id ` set (sy_claims demo_single)" by (simp add: demo_single_def demo_system_def demo_claim_def)
  let ?r = "handle (demo_dispatch None) (SetStatus 1 Done False None None) demo_single"
  obtain envs ws where r: "?r = (Inr (envs, ws), snd ?r)" and evs: "TaskEv (TaskClosed 1 actor_user 9) \<in> set (map en_payload envs)"
    using outcome_events_Some [OF demo_finish] by (metis list.set_intros)
  show "1 \<notin> ac_task_id ` set (sy_claims (snd ?r))"
    by (rule closed_task_holds_no_claim [OF r evs]) (simp_all add: cleanup_task_of_def)
qed

theorem dispatch_refines_relation_machine_witness:
  "w_relations (sy_world (handle_all [(demo_dispatch None, LinkTasks 1 2 Blocks), (demo_dispatch None, LinkTasks 2 1 Blocks)]
     (demo_system\<lparr>sy_world := demo_world\<rparr>))) = [demo_edge 1000 1 2 Blocks\<lparr>rel_created_at := 9\<rparr>] \<and>
   blocks_acyclic (w_relations (sy_world (handle_all [(demo_dispatch None, LinkTasks 1 2 Blocks), (demo_dispatch None, LinkTasks 2 1 Blocks)]
     (demo_system\<lparr>sy_world := demo_world\<rparr>))))"
proof
  show "w_relations (sy_world (handle_all [(demo_dispatch None, LinkTasks 1 2 Blocks), (demo_dispatch None, LinkTasks 2 1 Blocks)]
     (demo_system\<lparr>sy_world := demo_world\<rparr>))) = [demo_edge 1000 1 2 Blocks\<lparr>rel_created_at := 9\<rparr>]" by code_simp
  have "relation_reach (w_relations (sy_world (demo_system\<lparr>sy_world := demo_world\<rparr>)))"
    by (simp add: demo_world_def relation_reach.empty)
  then show "blocks_acyclic (w_relations (sy_world (handle_all [(demo_dispatch None, LinkTasks 1 2 Blocks),
      (demo_dispatch None, LinkTasks 2 1 Blocks)] (demo_system\<lparr>sy_world := demo_world\<rparr>))))"
    using dispatch_refines_relation_machine by blast
qed

lemma demo_complete_plan:
  "outcome_events (handle (demo_dispatch None) (SetPlanStatus 5 Completed False None) demo_system) =
     Some [PlanEv (PlanStatusChanged 5 Active Completed)]"
  by code_simp

theorem ended_plan_has_no_active_run_witness:
  "list_active_for_plan (w_runs (sy_world demo_system)) 5 \<noteq> [] \<and>
   list_active_for_plan (w_runs (sy_world (snd (handle (demo_dispatch None) (SetPlanStatus 5 Completed False None) demo_system)))) 5 = []"
proof
  show "list_active_for_plan (w_runs (sy_world demo_system)) 5 \<noteq> []" by code_simp
  let ?r = "handle (demo_dispatch None) (SetPlanStatus 5 Completed False None) demo_system"
  obtain envs ws where r: "?r = (Inr (envs, ws), snd ?r)" and evs: "map en_payload envs \<noteq> []"
    using outcome_events_Some [OF demo_complete_plan] by auto
  show "list_active_for_plan (w_runs (sy_world (snd ?r))) 5 = []"
    by (rule ended_plan_has_no_active_run [OF r]) (use evs in auto)
qed

subsection \<open>Divergences\<close>

lemma gate_loop_blocked:
  assumes "\<And>c. \<exists>dec obs. g (hx_actor (dx_handler d)) c ov = Inr (dec, obs)"
    and "c \<in> set cs" "\<exists>m details obs. g (hx_actor (dx_handler d)) c ov = Inr (GateBlocked m details, obs)"
  shows "\<exists>stopped. gate_loop d g ov cs audit metrics warns = Inr (GateStopped stopped (Conflict ''rule_blocked: ''))"
  using assms(2)
proof (induction cs arbitrary: audit metrics warns)
  case (Cons x xs)
  obtain dec obs where x: "g (hx_actor (dx_handler d)) x ov = Inr (dec, obs)" using assms(1) by blast
  show ?case
  proof (cases "c = x")
    case True
    then show ?thesis using assms(3) by (auto simp: Let_def)
  next
    case False
    then have "c \<in> set xs" using Cons.prems by simp
    then show ?thesis using Cons.IH x by (cases dec) (simp_all add: Let_def)
  qed
qed simp

lemma completion_checked:
  assumes "TaskEv (TaskStatusChanged i st Done) \<in> set es"
  shows "\<exists>c \<in> set (derive_gate_checks es). gc_trigger c = TrigTaskBeforeComplete \<and> gc_task_id c = Some i"
proof -
  obtain c where "c \<in> set (derive_checks es)" "gc_trigger c = TrigTaskBeforeComplete" "gc_task_id c = Some i"
    using assms by (force simp: derive_checks_def derive_check_def)
  then show ?thesis by (auto simp: derive_gate_checks_def attach_staged_def intro!: bexI [of _ c])
qed

lemma pinned_same: "\<not> records_evidence cmd \<Longrightarrow> pinned d cmd = d"
  by (simp add: pinned_def pin_actor_def split: option.split)

text \<open>The error of a blocked dispatch: the gate's refusal, or the log's when it rejects the audit events of the block.\<close>

definition block_refusal :: "dispatch_ctx \<Rightarrow> event_log \<Rightarrow> core_error \<Rightarrow> bool" where
  "block_refusal d l e \<longleftrightarrow> e = Conflict ''rule_blocked: '' \<or>
     (\<exists>audit. audit \<noteq> [] \<and> store_append_batch (envelopes_from (envelope_env_of d) 0 audit) l = Inl e)"

lemma record_block_error:
  assumes "record_block d audit (Conflict ''rule_blocked: '') s = (e, s')"
  shows "block_refusal d (sy_log s) e"
  using assms
  by (auto simp: record_block_def block_refusal_def append_batch_def with_log_def bind_result_def split: if_splits sum.splits prod.splits)

lemma dispatch_blocked:
  assumes "events \<noteq> []" "c \<in> set (derive_gate_checks events)" "dx_gate d = Some g"
    and answers: "\<And>c ov. \<exists>dec obs. g (hx_actor (dx_handler d)) c ov = Inr (dec, obs)"
    and blocks: "\<And>ov. \<exists>m details obs. g (hx_actor (dx_handler d)) c ov = Inr (GateBlocked m details, obs)"
  shows "\<exists>e s' rows. dispatch_events d cmd events warns s = (Inl e, s') \<and> sy_world s' = (sy_world s)\<lparr>w_activity := rows\<rparr> \<and>
    block_refusal d (sy_log s) e"
proof -
  from gate_loop_blocked [where g = g and d = d and ov = "gate_override_of cmd", OF answers assms(2) blocks]
  obtain audit where "ask_lifecycle_gate d cmd events = Inr (GateStopped audit (Conflict ''rule_blocked: ''))"
    unfolding ask_lifecycle_gate_def assms(3) option.case by blast
  moreover obtain e s' where block: "record_block d audit (Conflict ''rule_blocked: '') s = (e, s')" by fastforce
  ultimately have "dispatch_events d cmd events warns s = (Inl e, s')" using assms(1) by (simp add: dispatch_events_def)
  then show ?thesis using record_block_world [OF block] record_block_error [OF block] by blast
qed

lemma edges_retired:
  assumes "rels = map (\<lambda>r. if rel_from r = i \<and> rel_kind r = Blocks then r\<lparr>rel_kind := WasBlocking\<rparr> else r) rels0"
  shows "i \<notin> set (list_active_blockers rels ts j)"
proof -
  have "\<not> (rel_from r = i \<and> rel_kind r = Blocks)" if r: "r \<in> set rels" for r
  proof -
    obtain q where q: "r = (if rel_from q = i \<and> rel_kind q = Blocks then q\<lparr>rel_kind := WasBlocking\<rparr> else q)"
      using r unfolding assms set_map by blast
    show ?thesis by (cases "rel_from q = i \<and> rel_kind q = Blocks") (simp_all only: q if_True if_False, simp_all)
  qed
  then show ?thesis by (fastforce simp: list_active_blockers_def list_blockers_def)
qed

text \<open>
  C40: a completion the lifecycle gate rejects still unblocks the waiting tasks. The relation rows are written while
  the events are built, before the gate is asked. Whenever a \<^verbatim>\<open>CompleteTask\<close> passes its own checks and the gate,
  which answers every check, blocks the completion of the task, the command fails with the refusal \<^verbatim>\<open>rule_blocked\<close> (or with
  the log's own error when it rejects the audit events of the block) and leaves the tasks as they were, but every \<^verbatim>\<open>Blocks\<close> edge of the task has become
  \<^verbatim>\<open>WasBlocking\<close>: the unfinished task blocks no other task anymore.
\<close>

theorem gate_rejection_keeps_relation_writes:
  assumes ok: "relation_table_ok (w_relations (sy_world s))"
    and built: "build_complete_task (dx_handler d) (sy_world s) i n (w_relations (sy_world s)) = (Inr built, rels)"
    and gate: "dx_gate d = Some g"
    and answers: "\<And>c ov. \<exists>dec obs. g (hx_actor (dx_handler d)) c ov = Inr (dec, obs)"
    and blocks: "\<And>c ov. gc_trigger c = TrigTaskBeforeComplete \<Longrightarrow> gc_task_id c = Some i \<Longrightarrow>
      \<exists>m details obs. g (hx_actor (dx_handler d)) c ov = Inr (GateBlocked m details, obs)"
  shows "\<exists>e s'. handle d (CompleteTask i n) s = (Inl e, s') \<and> block_refusal d (sy_log s) e \<and> w_tasks (sy_world s') = w_tasks (sy_world s) \<and>
    w_relations (sy_world s') =
      map (\<lambda>r. if rel_from r = i \<and> rel_kind r = Blocks then r\<lparr>rel_kind := WasBlocking\<rparr> else r) (w_relations (sy_world s)) \<and>
    (\<forall>j. i \<notin> set (list_active_blockers (w_relations (sy_world s')) (tasks_of (w_tasks (sy_world s'))) j))"
proof -
  let ?rels = "w_relations (sy_world s)" and ?cmd = "CompleteTask i n"
  obtain st evs rest where evs: "resolve_outgoing (hx_now (dx_handler d)) (list_blocks_targets ?rels i) ?rels = (Inr evs, rels)"
    and first: "built = TaskEv (TaskStatusChanged i st Done) # rest"
    using built by (auto simp: build_complete_task_def bind_built_def Let_def split: sum.splits prod.splits)
  let ?batch = "batch_events d (sy_world s) ?cmd [] built"
  obtain recs where "?batch = map (attribute_evidence (dx_agent d)) (splice_sources ?cmd [] built) @ recs" by (rule batch_events_eq)
  moreover have "splice_sources ?cmd [] built = built" by (simp add: splice_sources_def)
  ultimately have batch: "TaskEv (TaskStatusChanged i st Done) \<in> set ?batch" by (simp add: first attribute_evidence_def)
  then obtain c where c: "c \<in> set (derive_gate_checks ?batch)" "gc_trigger c = TrigTaskBeforeComplete" "gc_task_id c = Some i"
    using completion_checked by blast
  have "?batch \<noteq> []" using batch by auto
  from dispatch_blocked [OF this c(1) gate answers blocks [OF c(2,3)], of ?cmd "[]" "set_relations rels s"]
  obtain e s' rows where out: "dispatch_events d ?cmd ?batch [] (set_relations rels s) = (Inl e, s')"
    and world: "sy_world s' = (sy_world (set_relations rels s))\<lparr>w_activity := rows\<rparr>"
    and refusal: "block_refusal d (sy_log s) e" by (auto simp: set_relations_def)
  have handled: "handle d ?cmd s = (Inl e, s')"
    using built out by (simp add: handle_def pinned_same is_completed_run_retry_def ensure_run_completion_owner_def Let_def)
  have kept: "w_tasks (sy_world s') = w_tasks (sy_world s)" and written: "w_relations (sy_world s') = rels"
    by (simp_all add: world set_relations_def)
  have table: "rels = map (\<lambda>r. if rel_from r = i \<and> rel_kind r = Blocks then r\<lparr>rel_kind := WasBlocking\<rparr> else r) ?rels"
    by (rule resolved_table [OF ok evs])
  have "w_relations (sy_world s') = map (\<lambda>r. if rel_from r = i \<and> rel_kind r = Blocks then r\<lparr>rel_kind := WasBlocking\<rparr> else r) ?rels"
    by (rule trans [OF written table])
  with handled refusal kept show ?thesis using edges_retired [OF table, folded written] by blast
qed

theorem gate_rejection_keeps_relation_writes_witness:
  "list_active_blockers (w_relations (sy_world demo_system)) (tasks_of (w_tasks (sy_world demo_system))) 2 = [1] \<and>
   (\<exists>e s'. handle (demo_dispatch (Some blocking_gate)) (CompleteTask 1 None) demo_system = (Inl e, s') \<and>
      block_refusal (demo_dispatch (Some blocking_gate)) (sy_log demo_system) e \<and> w_tasks (sy_world s') = w_tasks (sy_world demo_system) \<and>
      1 \<notin> set (list_active_blockers (w_relations (sy_world s')) (tasks_of (w_tasks (sy_world s'))) 2))"
proof
  let ?d = "demo_dispatch (Some blocking_gate)"
  show "list_active_blockers (w_relations (sy_world demo_system)) (tasks_of (w_tasks (sy_world demo_system))) 2 = [1]" by code_simp
  let ?r = "build_complete_task (dx_handler ?d) (sy_world demo_system) 1 None (w_relations (sy_world demo_system))"
  have "\<not> isl (fst ?r)" by code_simp
  then obtain built where built: "?r = (Inr built, snd ?r)" by (cases ?r; cases "fst ?r") auto
  have ok: "relation_table_ok (w_relations (sy_world demo_system))" by code_simp
  have gate: "dx_gate ?d = Some blocking_gate" by (simp add: demo_dispatch_def)
  show "\<exists>e s'. handle ?d (CompleteTask 1 None) demo_system = (Inl e, s') \<and>
      block_refusal ?d (sy_log demo_system) e \<and> w_tasks (sy_world s') = w_tasks (sy_world demo_system) \<and>
      1 \<notin> set (list_active_blockers (w_relations (sy_world s')) (tasks_of (w_tasks (sy_world s'))) 2)"
    using gate_rejection_keeps_relation_writes [OF ok built gate] by (fastforce simp: blocking_gate_def)
qed

text \<open>
  A plan amendment can move a task in its pipeline. \<^verbatim>\<open>AmendPlanTask\<close> refuses the execution-owned
  fields it lists but not \<^verbatim>\<open>pipeline_position\<close>: a patch with a title and a position is accepted, and after
  it is projected the task is at that position, which no other command than \<^verbatim>\<open>AdvancePipeline\<close> may set.
\<close>

theorem amend_sets_pipeline_position:
  assumes plan: "plan_get (w_plans w) p = Some pl" and task: "task_repo_get (w_tasks w) i = Some t"
    and member: "i \<in> set (map pt_task_id (list_tasks_ordered (w_plans w) p))"
    and patch: "patch = empty_patch\<lparr>tp_title := Some title, tp_pipeline_position := Some pos\<rparr>"
  shows "build_amend_plan_task w p i patch = Inr [PlanEv (PlanTaskAmended p i patch), TaskEv (TaskUpdated i patch),
      SignalEv (PlanModifiedByHuman p (active_run_for_plan w p))] \<and>
    build_update_task x w i patch \<noteq> Inr [TaskEv (TaskUpdated i patch)] \<and>
    (\<forall>fresh env ts'. en_payload env = TaskEv (TaskUpdated i patch) \<and> task_apply_event fresh env (w_tasks w) = Inr ts' \<longrightarrow>
       repo_pipeline_position ts' i = Some pos)"
proof (intro conjI allI impI)
  show "build_amend_plan_task w p i patch = Inr [PlanEv (PlanTaskAmended p i patch), TaskEv (TaskUpdated i patch),
      SignalEv (PlanModifiedByHuman p (active_run_for_plan w p))]"
    using plan task member
    by (simp add: patch build_amend_plan_task_def patch_is_empty_def empty_patch_def plan_owned_patch_fields_def get_plan_def get_task_def)
  show "build_update_task x w i patch \<noteq> Inr [TaskEv (TaskUpdated i patch)]"
    by (simp add: patch build_update_task_def empty_patch_def)
next
  fix fresh env ts'
  assume run: "en_payload env = TaskEv (TaskUpdated i patch) \<and> task_apply_event fresh env (w_tasks w) = Inr ts'"
  obtain r where r: "row_get row_id (ts_rows (w_tasks w)) i = Some r" using task by (auto simp: task_repo_get_def)
  have "task_write i (apply_task_updated env patch) (\<lambda>_ rows. stamp_pipeline_position i pos rows) (ts_rows (w_tasks w)) = Inr (ts_rows ts')"
    using run task_apply_event_rows [of fresh env "w_tasks w" ts'] by (simp add: task_rows_apply_def patch)
  then obtain rows where "upsert_task (apply_task_updated env patch (tr_task r)) (ts_rows (w_tasks w)) = Inr rows"
    and "ts_rows ts' = stamp_pipeline_position i pos rows"
    using r by (auto simp: task_write_def bind_result_Inr_iff)
  moreover have "t_id (apply_task_updated env patch (tr_task r)) = i" using row_get_Some [OF r] by (simp add: projection_defs)
  ultimately show "repo_pipeline_position ts' i = Some pos"
    by (simp add: repo_pipeline_position_def upsert_task_get)
qed

definition demo_amend :: task_patch where
  "demo_amend = empty_patch\<lparr>tp_title := Some ''renamed'', tp_pipeline_position := Some (demo_position 1)\<rparr>"

theorem amend_sets_pipeline_position_witness:
  "build_amend_plan_task demo_world 5 1 demo_amend =
     Inr [PlanEv (PlanTaskAmended 5 1 demo_amend), TaskEv (TaskUpdated 1 demo_amend), SignalEv (PlanModifiedByHuman 5 None)]"
proof -
  have "plan_get (w_plans demo_world) 5 = Some (demo_plan_child 5 (Some 6))" "task_repo_get (w_tasks demo_world) 1 = Some (demo_task 1 InProgress)"
    "1 \<in> set (map pt_task_id (list_tasks_ordered (w_plans demo_world) 5))" "active_run_for_plan demo_world 5 = None" by code_simp+
  then show ?thesis using amend_sets_pipeline_position [OF _ _ _ demo_amend_def] by simp
qed

end
