(* ===== verification/Dispatch_Safety.thy ===== *)
theory Dispatch_Safety
  imports Dispatch_Effects
begin

text \<open>
  What no dispatch does, whatever the command, the gate and the agent: the event log only grows and stays well formed, a
  command that fails leaves the projections alone, and an agent ends no run of another agent.
\<close>

subsection \<open>The log\<close>

abbreviation log_rows :: "system \<Rightarrow> event_envelope list" where
  "log_rows s \<equiv> el_rows (sy_log s)"

text \<open>The log grew by a batch with the next numbers, and stays well formed if it was.\<close>

definition log_grows :: "system \<Rightarrow> event_envelope list \<Rightarrow> system \<Rightarrow> bool" where
  "log_grows s out s' \<longleftrightarrow> log_rows s' = log_rows s @ out \<and>
     map en_seq out = [Suc (latest_seq (sy_log s)) ..< Suc (latest_seq (sy_log s) + length out)] \<and>
     latest_seq (sy_log s') = latest_seq (sy_log s) + length out \<and> (log_ok (sy_log s) \<longrightarrow> log_ok (sy_log s'))"


lemma log_grows_same: "log_grows s out s1 \<Longrightarrow> sy_log s2 = sy_log s1 \<Longrightarrow> sy_log s0 = sy_log s \<Longrightarrow> log_grows s0 out s2"
  by (simp add: log_grows_def)

lemma append_batch_log: "append_batch envs s = Inr (p, s') \<Longrightarrow> log_grows s p s'"
  using append_chunks_spec [of envs "sy_log s"] numbered_from_seqs [of "Suc (el_high (sy_log s))" envs]
  by (auto simp: append_batch_def with_log_def log_grows_def bind_result_Inr_iff store_append_batch_def latest_seq_def
      simp del: upt_Suc split: if_splits)

lemma append_each_log: "with_log (append_each envs (sy_log s)) s0 = Inr (p, s') \<Longrightarrow> log_grows s p s'"
  using append_each_spec [of envs "sy_log s"] numbered_from_seqs [of "Suc (el_high (sy_log s))" envs]
  by (auto simp: with_log_def log_grows_def bind_result_Inr_iff latest_seq_def simp del: upt_Suc)

lemma append_with_releases_log:
  "append_with_releases ee envs releases s0 = Inr (p, s') \<Longrightarrow> sy_log s0 = sy_log s \<Longrightarrow> log_grows s p s'"
  unfolding append_with_releases_def using append_each_log [of "envs @ envelopes_from ee (length envs) releases" s s0 p s'] by simp

lemma set_runs_log [simp]: "sy_log (set_runs rs s) = sy_log s"
  by (simp add: set_runs_def)

lemma persist_log:
  assumes "persist d cmd envs s = Inr (p, s')"
  shows "log_grows s p s'"
proof -
  have started: "log_grows s p s'" if "record_run_started agent envs s = Inr (p, s')" for agent
    using that append_each_log by (auto simp: record_run_started_def split: option.splits if_splits)
  have ended: "log_grows s p s'" if "record_run_terminal ee agent adm envs s = Inr (p, s')" for ee agent adm
    using that
    by (auto simp: record_run_terminal_def bind_result_Inr_iff Let_def elim!: append_with_releases_log
        split: option.splits prod.splits if_splits)
  have plan: "log_grows s p s'" if "record_plan_terminal ee req envs s = Inr (p, s')" for ee req
    using that
    by (auto simp: record_plan_terminal_def Let_def elim!: append_with_releases_log split: option.splits prod.splits if_splits)
  have tasks: "log_grows s p s'" if "record_task_batch ee envs s = Inr (p, s')" for ee
    using that by (auto simp: record_task_batch_def Let_def elim!: append_with_releases_log split: prod.splits)
  show ?thesis using assms started ended plan tasks append_batch_log unfolding persist_def
    by (auto split: option.splits if_splits)
qed

lemma project_env_log: "sy_log (snd (project_env d env s)) = sy_log s"
  by (auto simp: project_env_def Let_def split: sum.splits prod.splits)

lemma project_all_log: "sy_log (snd (project_all d envs s)) = sy_log s"
proof (induction d envs s rule: project_all.induct)
  case (2 d env envs s)
  obtain r s1 where r: "project_env d env s = (r, s1)" by (metis surj_pair)
  then show ?case using 2 project_env_log [of d env s] by (cases r) auto
qed simp

lemma gate_stopped_audit:
  assumes "ask_lifecycle_gate d cmd events = Inr (GateStopped audit e)"
  shows "list_all audit_event audit"
proof -
  have "gate_loop d g ov cs au ms ws = Inr (GateStopped audit e) \<Longrightarrow> list_all audit_event ms \<Longrightarrow> list_all audit_event audit"
    for g ov cs au ms ws
  proof (induction cs arbitrary: au ms ws)
    case (Cons c cs)
    then obtain decision obs where "g (hx_actor (dx_handler d)) c ov = Inr (decision, obs)" by (auto split: sum.splits)
    then show ?case
      using Cons.prems observation_audit [of d c obs] rule_fired_audit [of d c] Cons.IH
      by (cases decision) (auto simp: Let_def)
  qed simp
  then show ?thesis using assms by (auto simp: ask_lifecycle_gate_def split: option.splits)
qed

lemma record_block_log:
  assumes "record_block d audit e s = (e', s')" and "list_all audit_event audit"
  obtains out where "log_grows s out s'" "list_all (audit_event \<circ> en_payload) out"
proof (cases "audit = []")
  case True
  then have "log_grows s [] s'" using assms by (simp add: record_block_def log_grows_def)
  then show thesis using that [of "[]"] by simp
next
  case False
  show thesis
  proof (cases "append_batch (envelopes_from (envelope_env_of d) 0 audit) s")
    case (Inl e2)
    then have "log_grows s [] s'" using assms False by (simp add: record_block_def log_grows_def)
    then show thesis using that [of "[]"] by simp
  next
    case (Inr r)
    obtain p s2 where r: "r = (p, s2)" by (metis surj_pair)
    have "map en_payload p = audit" using append_batch_spec(1) [of _ s p s2] Inr r by simp
    then have "list_all (audit_event \<circ> en_payload) p" using assms(2) by (metis list.pred_map)
    moreover have "log_grows s p s'"
      using append_batch_log [OF Inr [unfolded r]] assms False Inr r by (auto simp: record_block_def log_grows_def)
    ultimately show thesis by (rule that [rotated])
  qed
qed

text \<open>A dispatch, by what it does to the log: it fails before it persists, or it persists one batch.\<close>

definition quiet_change :: "system \<Rightarrow> system \<Rightarrow> bool" where
  "quiet_change s s' \<longleftrightarrow> (\<exists>rels rows l. s' = s\<lparr>sy_world := (sy_world s)\<lparr>w_relations := rels, w_activity := rows\<rparr>, sy_log := l\<rparr>)"

lemma quiet_change_log: "quiet_change s (s\<lparr>sy_log := l\<rparr>)"
  unfolding quiet_change_def by (intro exI [of _ "w_relations (sy_world s)"] exI [of _ "w_activity (sy_world s)"] exI [of _ l]) simp

lemma quiet_change_refl: "quiet_change s s"
  using quiet_change_log [of s "sy_log s"] by simp

lemma quiet_change_relations: "quiet_change s (set_relations rels s)"
  unfolding quiet_change_def set_relations_def
  by (intro exI [of _ rels] exI [of _ "w_activity (sy_world s)"] exI [of _ "sy_log s"]) simp

lemma record_block_quiet:
  assumes "record_block d audit e (set_relations rels s) = (e', s')"
  shows "quiet_change s s'"
proof (cases "audit = []")
  case True
  then show ?thesis using assms quiet_change_relations by (auto simp: record_block_def)
next
  case False
  show ?thesis
  proof (cases "append_batch (envelopes_from (envelope_env_of d) 0 audit) (set_relations rels s)")
    case (Inl e2)
    then show ?thesis using assms False quiet_change_relations by (auto simp: record_block_def)
  next
    case (Inr r)
    obtain p s2 where r: "r = (p, s2)" by (metis surj_pair)
    have s2: "s2 = (set_relations rels s)\<lparr>sy_log := sy_log s2\<rparr>"
      using Inr r by (auto simp: append_batch_def with_log_def bind_result_Inr_iff)
    obtain rows where "fold (feed_world d) p (sy_world s2) = (sy_world s2)\<lparr>w_activity := rows\<rparr>" using fold_feed_world by blast
    then have "s' = s2\<lparr>sy_world := (sy_world s2)\<lparr>w_activity := rows\<rparr>\<rparr>" using assms False Inr r by (simp add: record_block_def)
    also have "\<dots> = s\<lparr>sy_world := (sy_world s)\<lparr>w_relations := rels, w_activity := rows\<rparr>, sy_log := sy_log s2\<rparr>"
      by (subst (1 2) s2) (simp add: set_relations_def)
    finally show ?thesis unfolding quiet_change_def by blast
  qed
qed

lemma set_relations_log [simp]: "sy_log (set_relations rels s) = sy_log s"
  by (simp add: set_relations_def)

lemma handle_steps:
  assumes "handle d0 cmd0 s = (r, s')"
  obtains (early) "\<exists>e. r = Inl e \<or> r = Inr ([], [])" "sy_log s' = sy_log s" "quiet_change s s'"
  | (built) cmd ws sources built rels where
      "ensure_run_completion_owner (dx_agent d0) (dx_admin d0) cmd0 s = Inr ()"
      "intake_stage (pinned d0 cmd0) (sy_world s) cmd0 = Inr (cmd, ws, sources)"
      "build_events (pinned d0 cmd0) (sy_world s) cmd (relations_of s) = (Inr built, rels)"
      "dispatch_events (pinned d0 cmd0) cmd (batch_events (pinned d0 cmd0) (sy_world s) cmd sources built) ws (set_relations rels s) = (r, s')"
proof (cases "is_completed_run_retry (dx_agent d0) cmd0 s")
  case True
  then show thesis using assms early quiet_change_refl by (simp add: handle_def pinned_def)
next
  case False
  define d where "d = pinned d0 cmd0"
  have agent: "dx_agent d = dx_agent d0" "dx_admin d = dx_admin d0" by (simp_all add: d_def pinned_def)
  note h = assms [unfolded handle_def Let_def, folded d_def, unfolded agent]
  show thesis
  proof (cases "ensure_run_completion_owner (dx_agent d0) (dx_admin d0) cmd0 s")
    case (Inl e)
    then show thesis using h False early quiet_change_refl by auto
  next
    case owner: (Inr u)
    show thesis
    proof (cases "intake_stage d (sy_world s) cmd0")
      case (Inl e)
      then show thesis using h False owner early quiet_change_refl by auto
    next
      case (Inr t)
      obtain cmd ws sources where t: "t = (cmd, ws, sources)" by (rule prod_cases3)
      obtain b rels where b: "build_events d (sy_world s) cmd (relations_of s) = (b, rels)" by (rule prod.exhaust)
      show thesis
      proof (cases b)
        case (Inl e)
        then have "r = Inl e" "s' = set_relations rels s" using h False owner Inr t b by simp_all
        then show thesis using early quiet_change_relations by simp
      next
        case arm: (Inr evs)
        have disp: "dispatch_events d cmd (batch_events d (sy_world s) cmd sources evs) ws (set_relations rels s) = (r, s')"
          using h False owner Inr t b arm by simp
        show thesis using built owner Inr [unfolded t] b [unfolded arm] disp unfolding d_def by simp
      qed
    qed
  qed
qed

lemma dispatch_steps:
  assumes "dispatch_events d cmd events ws0 (set_relations rels s) = (r, s')"
  obtains (early) "\<exists>e. r = Inl e \<or> r = Inr ([], [])" "sy_log s' = sy_log s" "quiet_change s s'"
  | (blocked) e out where "r = Inl e" "log_grows s out s'" "list_all (audit_event \<circ> en_payload) out" "quiet_change s s'"
  | (persisted) audit metrics envs s1 where "events \<noteq> []" "list_all audit_event audit" "list_all audit_event metrics"
      "persist d cmd (relinked cmd (envelopes_from (envelope_env_of d) 0 (audit @ events @ metrics))) (set_relations rels s) = Inr (envs, s1)"
      "s' = snd (project_all d envs s1)" "(\<exists>e. r = Inl e) \<or> (\<exists>ws. r = Inr (envs, ws))" "log_grows s envs s'"
proof -
  let ?s = "set_relations rels s"
  consider (nothing) "events = []" | (refused) e where "events \<noteq> []" "ask_lifecycle_gate d cmd events = Inl e"
    | (stop) audit e where "events \<noteq> []" "ask_lifecycle_gate d cmd events = Inr (GateStopped audit e)"
    | (pass) audit metrics ws where "events \<noteq> []" "ask_lifecycle_gate d cmd events = Inr (GatePassed audit metrics ws)"
    by (cases "events = []"; cases "ask_lifecycle_gate d cmd events") (auto, metis gate_outcome.exhaust)
  then show thesis
  proof cases
    case nothing
    then show thesis using assms early quiet_change_relations by (auto simp: dispatch_events_def)
  next
    case refused
    then show thesis using assms early quiet_change_relations by (auto simp: dispatch_events_def)
  next
    case stop
    obtain e' where b: "record_block d audit e ?s = (e', s')" "r = Inl e'"
      using assms stop by (auto simp: dispatch_events_def split: prod.splits)
    obtain out where "log_grows ?s out s'" "list_all (audit_event \<circ> en_payload) out"
      by (rule record_block_log [OF b(1) gate_stopped_audit [OF stop(2)]])
    then show thesis using blocked [OF b(2), of out] record_block_quiet [OF b(1)] by (simp add: log_grows_def)
  next
    case pass
    let ?envs = "relinked cmd (envelopes_from (envelope_env_of d) 0 (audit @ events @ metrics))"
    have c: "commit d cmd (audit @ events @ metrics) (ws0 @ ws) ?s = (r, s')"
      using assms pass by (simp add: dispatch_events_def)
    note quiet = ask_lifecycle_gate_audit [OF pass(2)]
    show thesis
    proof (cases "persist d cmd ?envs ?s")
      case (Inl e)
      then show thesis using c early quiet_change_relations by (auto simp: commit_def)
    next
      case (Inr t)
      obtain envs s1 where t: "t = (envs, s1)" by (metis surj_pair)
      obtain u s2 where u: "project_all d envs s1 = (u, s2)" by (metis surj_pair)
      have "s' = snd (project_all d envs s1)" "(\<exists>e. r = Inl e) \<or> (\<exists>ws. r = Inr (envs, ws))"
        using c Inr t u by (auto simp: commit_def split: sum.splits)
      moreover from this(1) have "log_grows s envs s'"
        using persist_log [OF Inr [unfolded t]] project_all_log [of d envs s1] by (simp add: log_grows_def)
      ultimately show thesis using persisted [OF pass(1)] quiet Inr t by blast
    qed
  qed
qed

lemma handle_cases:
  assumes "handle d0 cmd0 s = (r, s')"
  obtains (early) "\<exists>e. r = Inl e \<or> r = Inr ([], [])" "sy_log s' = sy_log s" "quiet_change s s'"
  | (blocked) e out where "r = Inl e" "log_grows s out s'" "list_all (audit_event \<circ> en_payload) out" "quiet_change s s'"
  | (persisted) cmd ws sources built rels audit recs metrics s1 envs0 envs where
      "intake_stage (pinned d0 cmd0) (sy_world s) cmd0 = Inr (cmd, ws, sources)"
      "build_events (pinned d0 cmd0) (sy_world s) cmd (relations_of s) = (Inr built, rels)"
      "list_all audit_event audit" "list_all completes_plan recs" "list_all audit_event metrics"
      "map en_payload envs0 = audit @ map (attribute_evidence (dx_agent d0)) (splice_sources cmd sources built) @ recs @ metrics"
      "persist (pinned d0 cmd0) cmd (relinked cmd envs0) (set_relations rels s) = Inr (envs, s1)"
      "splice_sources cmd sources built \<noteq> []" "s' = snd (project_all (pinned d0 cmd0) envs s1)"
      "(\<exists>e. r = Inl e) \<or> (\<exists>ws. r = Inr (envs, ws))" "log_grows s envs s'"
      "ensure_run_completion_owner (dx_agent d0) (dx_admin d0) cmd0 s = Inr ()"
  using assms
proof (cases rule: handle_steps)
  case built: (built cmd ws sources b rels)
  let ?d = "pinned d0 cmd0"
  have agent: "dx_agent ?d = dx_agent d0" by (simp add: pinned_def)
  obtain recs where ev: "batch_events ?d (sy_world s) cmd sources b =
      map (attribute_evidence (dx_agent ?d)) (splice_sources cmd sources b) @ recs" "list_all completes_plan recs"
      "splice_sources cmd sources b = [] \<longrightarrow> recs = []"
    by (rule batch_events_eq)
  from built(4) show thesis
  proof (cases rule: dispatch_steps)
    case (persisted audit metrics envs s1)
    let ?envs0 = "envelopes_from (envelope_env_of ?d) 0 (audit @ batch_events ?d (sy_world s) cmd sources b @ metrics)"
    have "splice_sources cmd sources b \<noteq> []" using persisted(1) ev(1,3) by auto
    moreover have "map en_payload ?envs0 = audit @ map (attribute_evidence (dx_agent d0)) (splice_sources cmd sources b) @ recs @ metrics"
      by (simp add: ev(1) agent)
    ultimately show thesis using that(3) built(1-3) ev(2) persisted(2-7) by blast
  qed (use that in blast)+
qed (use that in blast)+


lemma source_not_audit: "source_event e \<Longrightarrow> \<not> audit_event e"
  by (auto simp: source_event_def audit_event_def split: event.splits)

text \<open>
  A command that fails leaves the projections alone. When a dispatch fails and logged nothing but the audit of its
  rule checks, every table is as before, except the relation rows the arm had written and the feed rows of the audit.
\<close>

theorem failed_dispatch_keeps_projections:
  assumes "handle d cmd s = (Inl e, s')" and "el_rows (sy_log s') = el_rows (sy_log s) @ out"
    and "list_all (audit_event \<circ> en_payload) out"
  shows "\<exists>rels rows. sy_world s' = (sy_world s)\<lparr>w_relations := rels, w_activity := rows\<rparr> \<and>
    sy_claims s' = sy_claims s \<and> sy_run_owners s' = sy_run_owners s"
  using assms(1)
proof (cases rule: handle_cases)
  case early
  then show ?thesis by (auto simp: quiet_change_def) blast
next
  case blocked
  then show ?thesis by (auto simp: quiet_change_def) blast
next
  case (persisted cmd' ws sources built rels audit recs metrics s1 envs0 envs)
  have "out = envs" using persisted(11) assms(2) by (simp add: log_grows_def)
  obtain es' cl rs where pay: "map en_payload envs = es' @ map released_event cl" "list_all2 same_but_source (map en_payload envs0) es'"
    by (rule persisted_payload [OF persisted(7) refl])
  obtain v where v: "v \<in> set (splice_sources cmd' sources built)" using persisted(8) by (meson ex_in_conv set_empty)
  have "\<not> audit_event v"
    using build_events_arm [OF persisted(2)] intake_stage_sources [OF persisted(1)] v source_not_audit [of v]
    by (cases "v \<in> set built") (auto simp: splice_sources_def list_all_iff arm_event_def split: if_splits)
  then have "\<not> audit_event (attribute_evidence (dx_agent d) v)"
    by (auto simp: attribute_evidence_def audit_event_def split: event.splits rule_event.splits)
  then have "\<not> list_all audit_event (map en_payload envs0)" using v by (auto simp: persisted(6) list_all_iff)
  moreover have "list_all audit_event es' \<Longrightarrow> list_all audit_event (map en_payload envs0)"
    using pay(2) by (induction rule: list_all2_induct) (auto simp: same_but_source_def audit_event_def creates_task_def split: event.splits)
  ultimately have "\<not> list_all audit_event (map en_payload envs)" using pay(1) by auto
  then show ?thesis using assms(3) \<open>out = envs\<close> by (simp add: list.pred_map comp_def)
qed

subsection \<open>Who may end a run\<close>

definition run_is_active :: "uuid \<Rightarrow> run list \<Rightarrow> bool" where
  "run_is_active i rs \<longleftrightarrow> (\<exists>r \<in> set rs. r_id r = i \<and> r_status r = RunActive)"

lemma run_is_active_map:
  "run_is_active i rs \<Longrightarrow> (\<And>r. r_id r = i \<Longrightarrow> r_status r = RunActive \<Longrightarrow> r_id (f r) = i \<and> r_status (f r) = RunActive) \<Longrightarrow>
   run_is_active i (map f rs)"
  by (force simp: run_is_active_def)

lemma row_upsert_keeps_active:
  "run_is_active i rs \<Longrightarrow> (r_id r = i \<Longrightarrow> r_status r = RunActive) \<Longrightarrow> run_is_active i (row_upsert r_id r rs)"
  by (induction rs) (auto simp: run_is_active_def)

lemma run_apply_keeps_active:
  "run_is_active i (rs_runs s) \<Longrightarrow> run_ended_by (en_payload env) \<noteq> Some i \<Longrightarrow> run_is_active i (rs_runs (run_apply_event env s))"
  by (auto simp: run_apply_event_def run_ended_by_def touch_activity_def end_run_def row_modify_def upsert_run_def
      intro!: run_is_active_map row_upsert_keeps_active split: event.splits run_event.splits if_splits)

abbreviation runs_of :: "system \<Rightarrow> run list" where
  "runs_of s \<equiv> rs_runs (w_runs (sy_world s))"

lemma project_all_keeps_active:
  "run_is_active i (runs_of s) \<Longrightarrow> list_all (\<lambda>env. run_ended_by (en_payload env) \<noteq> Some i) envs \<Longrightarrow>
   run_is_active i (runs_of (snd (project_all d envs s)))"
proof (induction d envs s rule: project_all.induct)
  case (2 d env envs s)
  obtain r s1 where r: "project_env d env s = (r, s1)" by (metis surj_pair)
  have "run_is_active i (runs_of s1)"
    using 2(2,3) r run_apply_keeps_active by (auto simp: project_env_def Let_def split: sum.splits prod.splits)
  then show ?case using 2 r by (cases r) auto
qed simp

lemma end_active_run_keeps: "run_is_active i rs \<Longrightarrow> j \<noteq> i \<Longrightarrow> run_is_active i (end_active_run st reason at j rs)"
  unfolding end_active_run_def by (rule run_is_active_map) auto

lemma end_plan_runs_keeps:
  "end_plan_runs st reason at is rs cs owners = (rel, rs', cs', owners') \<Longrightarrow> run_is_active i rs \<Longrightarrow> i \<notin> set is \<Longrightarrow>
   run_is_active i rs'"
proof (induction "is" arbitrary: rs cs owners rel)
  case (Cons j "is")
  then obtain rel' where "end_plan_runs st reason at is (end_active_run st reason at j rs)
      (filter (\<lambda>c. ac_run_id c \<noteq> Some j) cs) (filter (\<lambda>(r, _). r \<noteq> j) owners) = (rel', rs', cs', owners')"
    by (auto simp: Let_def split: prod.splits)
  then show ?case using Cons.IH Cons.prems(2,3) end_active_run_keeps [of i rs j st reason at] by auto
qed simp

text \<open>A persisting transaction ends an active run only with the right to: it is the run of the command or of its plan.\<close>

lemma persist_keeps_active:
  assumes per: "persist d cmd envs s = Inr (p, s')" and agent: "dx_agent d = Some a" "\<not> dx_admin d"
    and act: "run_is_active i (runs_of s)" and mine: "run_owner s i \<noteq> Some a"
  shows "run_is_active i (runs_of s')"
proof -
  have app: "run_is_active i (runs_of s')"
    if "append_with_releases ee envs rel s0 = Inr (p, s')" "run_is_active i (runs_of s0)" for ee rel s0
    using append_with_releases_spec(2) [OF that(1)] that(2) by simp
  have started: "run_is_active i (runs_of s')" if "record_run_started a envs s = Inr (p, s')"
    using that act by (auto simp: record_run_started_def with_log_def bind_result_Inr_iff split: option.splits if_splits)
  have ended: "run_is_active i (runs_of s')" if e: "record_run_terminal ee a False envs s = Inr (p, s')" for ee
  proof -
    obtain j st reason at rel cs os where own: "run_owner s j = Some a" and
      ap: "append_with_releases ee envs rel ((set_runs (end_active_run st reason at j (runs_of s)) s)\<lparr>sy_claims := cs, sy_run_owners := os\<rparr>) = Inr (p, s')"
      using e by (auto simp: record_run_terminal_def bind_result_Inr_iff Let_def split: option.splits prod.splits if_splits)
    have "j \<noteq> i" using own mine by auto
    then show ?thesis using app [OF ap] end_active_run_keeps [OF act] by (simp add: set_runs_def)
  qed
  have plan: "run_is_active i (runs_of s')" if q: "record_plan_terminal ee (Some a) envs s = Inr (p, s')" for ee
  proof -
    obtain q st reason at where first: "first_of (terminal_plan_of (ee_now ee)) envs = Some (q, st, reason, at)"
      using q by (auto simp: record_plan_terminal_def split: option.splits)
    define ids where "ids = map r_id (filter (\<lambda>r. r_plan_id r = q \<and> r_status r = RunActive) (runs_of s))"
    obtain rel rs cs os where e: "end_plan_runs st reason at ids (runs_of s) (sy_claims s) (sy_run_owners s) = (rel, rs, cs, os)"
      by (rule prod_cases4)
    have own: "\<not> list_ex (\<lambda>i. run_owner s i \<noteq> Some a) ids" and
      ap: "append_with_releases ee envs (map released_event rel) ((set_runs rs s)\<lparr>sy_claims := cs, sy_run_owners := os\<rparr>) = Inr (p, s')"
      using q first e unfolding record_plan_terminal_def by (simp_all add: Let_def ids_def split: if_splits)
    have "i \<notin> set ids" using own mine by (auto simp: list_ex_iff)
    then show ?thesis using app [OF ap] end_plan_runs_keeps [OF e act] by (simp add: set_runs_def)
  qed
  have tasks: "run_is_active i (runs_of s')" if t: "record_task_batch ee envs s = Inr (p, s')" for ee
  proof -
    obtain rel cs where "append_with_releases ee envs rel (s\<lparr>sy_claims := cs\<rparr>) = Inr (p, s')"
      using t by (auto simp: record_task_batch_def split: prod.splits)
    from app [OF this] act show ?thesis by simp
  qed
  show ?thesis using per agent started ended plan tasks act append_batch_spec(2) [of envs s p s'] unfolding persist_def
    by (auto split: if_splits)
qed

text \<open>The right a command needs: the owner row of the run it names, or of every active run of the plan it ends.\<close>

lemma active_run_get: "keys_distinct r_id (runs_of s) \<Longrightarrow> run_is_active i (runs_of s) \<Longrightarrow> run_has_status s RunActive i"
  by (auto simp: run_is_active_def run_has_status_def run_get_def dest: row_get_mem split: option.splits)

lemma pinned_simps [simp]: "dx_agent (pinned d cmd) = dx_agent d" "dx_admin (pinned d cmd) = dx_admin d"
  by (simp_all add: pinned_def)

lemma plain_stage: "run_target cmd' = Some i \<Longrightarrow> intake_stage d w cmd = Inr (cmd', ws, sources) \<Longrightarrow> cmd' = cmd"
  by (cases cmd) (auto simp: stage_materialize_def stage_create_plan_def bind_result_Inr_iff split: option.splits)

lemma ends_run_first:
  assumes "ends_run cmd" "run_target cmd = Some i" "build_events d w cmd rels = (Inr built, rels')"
  obtains e st at reason where "built = [e]" "terminal_run_of e = Some (i, st, at, reason)"
  using assms by (cases cmd) (auto simp: build_fail_run_def build_abort_run_def bind_result_Inr_iff terminal_run_of_def)

lemma no_terminal_run:
  "list_all audit_event es \<Longrightarrow> List.map_filter terminal_run_of es = []"
  by (induction es) (auto simp: List.map_filter_simps audit_event_def terminal_run_of_def split: event.splits)

lemma run_end_owner:
  assumes ends: "ends_run cmd" "run_target cmd = Some i" and agent: "dx_agent d = Some a" "\<not> dx_admin d"
    and arm: "build_events d w cmd rels0 = (Inr built, rels)" and quiet: "list_all audit_event audit"
    and envs0: "map en_payload envs0 = audit @ map (attribute_evidence b) (splice_sources cmd sources built) @ recs @ metrics"
    and per: "persist d cmd (relinked cmd envs0) s = Inr (envs, s1)"
  shows "run_owner s i = Some a"
proof -
  obtain e st at reason where e: "built = [e]" "terminal_run_of e = Some (i, st, at, reason)"
    by (rule ends_run_first [OF ends arm])
  have same: "relinked cmd envs0 = envs0" "splice_sources cmd sources built = built"
    using ends(1) e by (cases cmd; auto simp: splice_sources_def creates_plan_def terminal_run_of_def split: event.splits)+
  have "List.map_filter terminal_run_of (map en_payload envs0) = (i, st, at, reason) # List.map_filter terminal_run_of (recs @ metrics)"
    using no_terminal_run [OF quiet] e unfolding envs0 same
    by (auto simp: map_filter_append List.map_filter_simps terminal_run_of_def attribute_evidence_def split: event.splits)
  then have first: "first_of terminal_run_of envs0 = Some (i, st, at, reason)"
    by (simp add: first_of_def List.map_filter_def comp_def filter_map)
  have "\<not> starts_run cmd" using ends(1) by (cases cmd) auto
  then have "record_run_terminal (envelope_env_of d) a False envs0 s = Inr (envs, s1)"
    using per ends(1) agent by (simp add: persist_def same(1))
  then show ?thesis using first by (auto simp: record_run_terminal_def bind_result_Inr_iff split: option.splits if_splits)
qed

lemma plan_end_owner:
  assumes "record_plan_terminal ee (Some a) envs s = Inr (p, s')" and "first_of (terminal_plan_of (ee_now ee)) envs = Some (q, st, reason, at)"
    and "r \<in> set (list_active_for_plan (w_runs (sy_world s)) q)"
  shows "run_owner s (r_id r) = Some a"
  using assms by (auto simp: record_plan_terminal_def Let_def list_active_for_plan_def list_ex_iff split: if_splits)

lemma run_ended_simps:
  "audit_event e \<or> completes_plan e \<or> source_event e \<or> creates_task e \<Longrightarrow> run_ended_by e = None"
  "run_ended_by (attribute_evidence agent e) = run_ended_by e" "run_ended_by (released_event cl) = None"
  by (auto simp: run_ended_by_def audit_event_def completes_plan_def source_event_def creates_task_def attribute_evidence_def
      released_event_def split: event.splits rule_event.splits)

text \<open>
  C6: An agent ends no run of another agent. Whatever an authenticated agent without the admin capability dispatches, and
  whether it succeeds or fails, a run that was active before and is not active afterwards is one the agent owns.
\<close>

theorem agent_ends_only_own_runs:
  assumes h: "handle d cmd s = (r, s')" and agent: "dx_agent d = Some a" "\<not> dx_admin d"
    and keys: "keys_distinct r_id (rs_runs (w_runs (sy_world s)))"
    and before: "run_is_active i (rs_runs (w_runs (sy_world s)))" and after: "\<not> run_is_active i (rs_runs (w_runs (sy_world s')))"
  shows "run_owner s i = Some a"
  using h
proof (cases rule: handle_cases)
  case early
  then show ?thesis using before after by (auto simp: quiet_change_def)
next
  case blocked
  then show ?thesis using before after by (auto simp: quiet_change_def)
next
  case (persisted cmd' ws sources built rels audit recs metrics s1 envs0 envs)
  have owner: "run_owner (set_relations rels s) j = run_owner s j" for j by (simp add: run_owner_def set_relations_def)
  have runs: "w_runs (sy_world (set_relations rels s)) = w_runs (sy_world s)" by (simp add: set_relations_def)
  show ?thesis
  proof (rule ccontr)
    assume mine: "run_owner s i \<noteq> Some a"
    have "run_ended_by e \<noteq> Some i" if e: "e \<in> set built" for e
    proof
      assume "run_ended_by e = Some i"
      then consider (target) "run_target cmd' = Some i"
        | (plan) p x where "ended_plan cmd' = Some p" "x \<in> set (list_active_for_plan (w_runs (sy_world s)) p)" "r_id x = i"
        using build_events_arm [OF persisted(2)] e unfolding list_all_iff arm_event_def by blast
      then show False
      proof cases
        case target
        show False
        proof (cases "ends_run cmd'")
          case True
          from run_end_owner [OF True target _ _ persisted(2,3,6,7), of a] agent mine owner show False by simp
        next
          case False
          then have "completes_run cmd = Some i" using target plain_stage [OF target persisted(1)] by (cases cmd) auto
          then show False using persisted(12) agent active_run_get [OF keys before] mine
            by (auto simp: ensure_run_completion_owner_def split: option.splits if_splits)
        qed
      next
        case plan
        have "cmd' = cmd" using plan(1) persisted(1) by (cases cmd) (auto simp: stage_materialize_def stage_create_plan_def
              bind_result_Inr_iff split: option.splits)
        with plan(1) have "ended_plan cmd = Some p" by simp
        obtain ee st reason at where first: "first_of (terminal_plan_of (ee_now ee)) envs0 = Some (p, st, reason, at)"
          and rec: "record_plan_terminal ee (if dx_admin (pinned d cmd) then None else dx_agent (pinned d cmd)) envs0
            (set_relations rels s) = Inr (envs, s1)"
          by (rule ended_plan_persisted [OF \<open>ended_plan cmd = Some p\<close> persisted(1-8)])
        have "run_owner (set_relations rels s) (r_id x) = Some a"
          by (rule plan_end_owner [OF _ first, of a _ envs s1]) (use rec agent plan(2) runs in simp_all)
        then show False using owner plan(3) mine by simp
      qed
    qed
    then have arm: "list_all (\<lambda>e. run_ended_by e \<noteq> Some i) built" by (simp add: list_all_iff)
    have "list_all (\<lambda>e. run_ended_by e \<noteq> Some i) (map en_payload envs)"
      by (rule committed_all(1) [OF persisted(7,6,3-5) intake_stage_sources [OF persisted(1)] arm]) (simp_all add: run_ended_simps)
    then have quiet: "list_all (\<lambda>env. run_ended_by (en_payload env) \<noteq> Some i) envs" by (simp add: list.pred_map comp_def)
    have "run_is_active i (runs_of s1)"
      by (rule persist_keeps_active [OF persisted(7)]) (use agent before mine owner runs in simp_all)
    from project_all_keeps_active [OF this quiet] after persisted(9) show False by simp
  qed
qed

subsection \<open>Completing a run\<close>

lemma step_postconditions_iff:
  assumes "feed_ok rows"
  shows "step_postconditions tx rows steps = Inr () \<longleftrightarrow>
    (\<forall>x \<in> set steps. rs_finished_at x \<noteq> None \<and> (rs_outcome x = Some OutDone \<longrightarrow>
      (\<exists>a \<in> set rows. av_task_id a = Some (rs_task_id x) \<and> rs_started_at x \<le> av_occurred_at a \<and> is_handoff_row tx a)))"
proof (induction steps)
  case (Cons x xs)
  have "handoff_recorded_since tx rows t since \<longleftrightarrow>
      (\<exists>a \<in> set rows. av_task_id a = Some t \<and> since \<le> av_occurred_at a \<and> is_handoff_row tx a)" for t since
    using assms handoff_pages_exact [OF assms, of tx t since None] by (auto simp: handoff_recorded_since_def feed_ok_def)
  then show ?case using Cons by auto
qed simp

text \<open>
  C7: A run is completed exactly when its work is handed over. \<^verbatim>\<open>CompleteRun\<close> is accepted if and only if the run is active,
  every step of it is finished, and for every step finished \<open>done\<close> the feed of its task holds a handoff since the step
  started; it then emits the one completion event.
\<close>

theorem run_completion_exact:
  assumes "feed_ok (w_activity w)"
  shows "build_complete_run tx x w i = Inr evs \<longleftrightarrow> evs = [RunEv (RunCompleted i (hx_now x))] \<and>
    (\<exists>r. run_get (w_runs w) i = Some r \<and> r_status r = RunActive) \<and>
    (\<forall>s \<in> set (list_steps (w_runs w) i). rs_finished_at s \<noteq> None \<and> (rs_outcome s = Some OutDone \<longrightarrow>
      (\<exists>a \<in> set (w_activity w). av_task_id a = Some (rs_task_id s) \<and> rs_started_at s \<le> av_occurred_at a \<and> is_handoff_row tx a)))"
  using step_postconditions_iff [OF assms, of tx "list_steps (w_runs w) i"]
  by (auto simp: build_complete_run_def ensure_run_postconditions_def get_run_def bind_result_Inr_iff ok_or_Inr_iff)

subsection \<open>Examples\<close>

definition demo_run :: run where
  "demo_run = \<lparr>r_id = 70, r_plan_id = 5, r_agent_id = 7, r_parent_run_id = None, r_started_at = 1, r_ended_at = None,
     r_status = RunActive, r_outcome = None, r_last_activity_at = Some 1, r_unresponsive_at = None, r_stale_at = None\<rparr>"

definition demo_step_world :: "activity_table \<Rightarrow> world" where
  "demo_step_world rows = demo_world\<lparr>w_activity := rows, w_runs := \<lparr>rs_runs = [demo_run],
     rs_steps = [\<lparr>rs_run_id = 70, rs_task_id = 7, rs_started_at = 1, rs_finished_at = Some 2, rs_outcome = Some OutDone\<rparr>]\<rparr>\<rparr>"

lemma demo_step_lists:
  "run_get (w_runs (demo_step_world rows)) 70 = Some demo_run"
  "list_steps (w_runs (demo_step_world rows)) 70 =
     [\<lparr>rs_run_id = 70, rs_task_id = 7, rs_started_at = 1, rs_finished_at = Some 2, rs_outcome = Some OutDone\<rparr>]"
  "w_activity (demo_step_world rows) = rows"
  by (simp_all add: demo_step_world_def demo_run_def run_get_def list_steps_def)

theorem run_completion_exact_witness:
  "build_complete_run demo_text demo_ctx (demo_step_world [demo_closed_row]) 70 = Inr [RunEv (RunCompleted 70 (hx_now demo_ctx))] \<and>
   build_complete_run demo_text demo_ctx (demo_step_world []) 70 \<noteq> Inr [RunEv (RunCompleted 70 (hx_now demo_ctx))]"
proof
  have ok: "feed_ok (w_activity (demo_step_world [demo_closed_row]))" "feed_ok (w_activity (demo_step_world []))"
    by (simp_all add: demo_step_lists feed_ok_def demo_closed_row_def)
  show "build_complete_run demo_text demo_ctx (demo_step_world [demo_closed_row]) 70 = Inr [RunEv (RunCompleted 70 (hx_now demo_ctx))]"
    unfolding run_completion_exact [OF ok(1)] by (simp add: demo_step_lists demo_run_def demo_closed_row_def is_handoff_row_def)
  show "build_complete_run demo_text demo_ctx (demo_step_world []) 70 \<noteq> Inr [RunEv (RunCompleted 70 (hx_now demo_ctx))]"
    unfolding run_completion_exact [OF ok(2)] by (simp add: demo_step_lists)
qed




lemma demo_refused_raise:
  "fst (handle (demo_dispatch None) (SetPriority 99 P0) demo_single) = Inl (NotFound ''task '')"
  "el_rows (sy_log (snd (handle (demo_dispatch None) (SetPriority 99 P0) demo_single))) = []"
  by code_simp+

theorem failed_dispatch_keeps_projections_witness:
  "sy_claims (snd (handle (demo_dispatch None) (SetPriority 99 P0) demo_single)) = sy_claims demo_single \<and>
   w_tasks (sy_world (snd (handle (demo_dispatch None) (SetPriority 99 P0) demo_single))) = w_tasks (sy_world demo_single)"
proof -
  let ?r = "handle (demo_dispatch None) (SetPriority 99 P0) demo_single"
  have r: "?r = (Inl (NotFound ''task ''), snd ?r)" using demo_refused_raise(1) by (metis prod.collapse)
  have "el_rows (sy_log (snd ?r)) = el_rows (sy_log demo_single) @ []"
    using demo_refused_raise(2) by (simp add: demo_single_def demo_system_def empty_log_def)
  from failed_dispatch_keeps_projections [OF r this] show ?thesis by auto
qed

definition demo_agent :: dispatch_ctx where
  "demo_agent = (demo_dispatch None)\<lparr>dx_agent := Some 7\<rparr>"

definition demo_owned :: system where
  "demo_owned = demo_single\<lparr>sy_run_owners := [(70, 7)]\<rparr>"

lemma demo_fail_run:
  "map r_status (rs_runs (w_runs (sy_world (snd (handle demo_agent (FailRun 70 ''stuck'') demo_owned))))) = [RunIsFailed]"
  by code_simp

theorem agent_ends_only_own_runs_witness:
  "run_is_active 70 (rs_runs (w_runs (sy_world demo_owned))) \<and>
   \<not> run_is_active 70 (rs_runs (w_runs (sy_world (snd (handle demo_agent (FailRun 70 ''stuck'') demo_owned))))) \<and>
   run_owner demo_owned 70 = Some 7"
proof -
  have owned: "rs_runs (w_runs (sy_world demo_owned)) = [demo_run]"
    by (simp add: demo_owned_def demo_single_def demo_system_def demo_run_def)
  have before: "run_is_active 70 (rs_runs (w_runs (sy_world demo_owned)))"
    by (simp add: owned run_is_active_def demo_run_def)
  have after: "\<not> run_is_active 70 (rs_runs (w_runs (sy_world (snd (handle demo_agent (FailRun 70 ''stuck'') demo_owned)))))"
    using demo_fail_run by (auto simp: run_is_active_def map_eq_Cons_conv)
  have "run_owner demo_owned 70 = Some 7"
    by (rule agent_ends_only_own_runs [OF prod.collapse [symmetric] _ _ _ before after])
      (simp_all add: demo_agent_def demo_dispatch_def owned keys_distinct_def)
  then show ?thesis using before after by blast
qed

end
