(* ===== verification/Dispatch_Limits.thy ===== *)
theory Dispatch_Limits
  imports Dispatch_Safety
begin

text \<open>
  Limits a command should respect: the slug of a new project, the task quota of a tenant, and the external reference
  that should make a plan creation idempotent.
\<close>

subsection \<open>Project slugs\<close>

lemma free_slug_least:
  assumes "\<And>j. j < n \<Longrightarrow> slug_candidate base j \<in> set used"
  shows "\<exists>k. free_slug base used n = slug_candidate base k \<and> slug_candidate base k \<notin> set used \<and>
    (\<forall>j < k. slug_candidate base j \<in> set used)"
  using assms
proof (induction base used n rule: free_slug.induct)
  case (1 base used n)
  show ?case
  proof (cases "slug_candidate base n \<in> set used")
    case True
    have "\<And>j. j < Suc n \<Longrightarrow> slug_candidate base j \<in> set used" using 1(2) True by (auto simp: less_Suc_eq)
    from 1(1) [OF True this] show ?thesis using True by (subst free_slug.simps) simp
  next
    case False
    then show ?thesis using 1(2) by (subst free_slug.simps) auto
  qed
qed

lemma taken_candidates_bound:
  assumes "\<forall>j < k. slug_candidate base j \<in> set used"
  shows "k \<le> length used"
proof -
  have "inj_on (slug_candidate base) {..<k}" by (rule inj_onI) (rule slug_candidate_inj)
  moreover have "slug_candidate base ` {..<k} \<subseteq> set used" using assms by auto
  ultimately have "card {..<k} \<le> card (set used)" by (metis card_image card_mono List.finite_set)
  then show ?thesis using card_length [of used] by simp
qed

text \<open>
  C37: A new project gets the first free slug. The slug is the one derived from the title, with the smallest numeric suffix
  no project uses; the search ends after at most one step per project, so the 32-bit suffix never overflows on a server
  with fewer than \<open>2 ^ 32\<close> projects.
\<close>

theorem project_slug_is_first_free:
  assumes "build_create_project x w title description = Inr evs"
  shows "\<exists>p k. evs = [TaskEv (ProjectCreated p)] \<and> pr_slug p = slug_candidate (slugify_title (trim title)) k \<and>
    k \<le> length (list_projects (rg_projects (w_registry w))) \<and>
    pr_slug p \<notin> pr_slug ` set (list_projects (rg_projects (w_registry w))) \<and>
    (\<forall>j < k. slug_candidate (slugify_title (trim title)) j \<in> pr_slug ` set (list_projects (rg_projects (w_registry w))))"
proof -
  let ?used = "map pr_slug (list_projects (rg_projects (w_registry w)))"
  let ?slug = "free_slug (slugify_title (trim title)) ?used 0"
  have evs: "evs = [TaskEv (ProjectCreated (project_new_with_slug (hx_fresh x 0) (hx_now x) (trim title) ?slug description))]"
    using assms by (auto simp: build_create_project_def Let_def split: if_splits)
  have slug: "pr_slug (project_new_with_slug i now t s dsc) = s" for i now t s dsc by (simp add: project_new_with_slug_def)
  obtain k where "?slug = slug_candidate (slugify_title (trim title)) k" "slug_candidate (slugify_title (trim title)) k \<notin> set ?used"
    "\<forall>j < k. slug_candidate (slugify_title (trim title)) j \<in> set ?used"
    using free_slug_least [of 0 "slugify_title (trim title)" ?used] by blast
  then show ?thesis using taken_candidates_bound [of k _ ?used] evs slug by auto
qed

theorem project_slug_is_first_free_witness:
  "\<exists>p k. build_create_project demo_ctx demo_world ''Alpha'' None = Inr [TaskEv (ProjectCreated p)] \<and>
    pr_slug p = slug_candidate (slugify_title ''Alpha'') k \<and>
    pr_slug p \<notin> pr_slug ` set (list_projects (rg_projects (w_registry demo_world)))"
proof -
  have t: "trim ''Alpha'' = ''Alpha''" by (simp add: trim_def is_space_def)
  then obtain evs where evs: "build_create_project demo_ctx demo_world ''Alpha'' None = Inr evs"
    by (simp add: build_create_project_def Let_def)
  then show ?thesis using project_slug_is_first_free [OF evs] t by auto
qed

subsection \<open>The task quota\<close>

text \<open>The tenants without their limit on tasks.\<close>

definition without_task_limit :: "tenant list \<Rightarrow> tenant list" where
  "without_task_limit ts = map (\<lambda>t. t\<lparr>tn_max_tasks := None\<rparr>) ts"

lemma without_task_limit_plans: "limit_for (without_task_limit ts) i tn_max_plans = limit_for ts i tn_max_plans"
  by (induction ts) (auto simp: limit_for_def without_task_limit_def)

lemma without_task_limit_tasks: "limit_for (without_task_limit ts) i tn_max_tasks = None"
  by (induction ts) (auto simp: limit_for_def without_task_limit_def)

abbreviation unlimited :: "world \<Rightarrow> world" where
  "unlimited w \<equiv> w\<lparr>w_tenants := without_task_limit (w_tenants w)\<rparr>"

lemma materialized_unlimited:
  "materialized_task_events x (unlimited w) target k pos keys raws = materialized_task_events x w target k pos keys raws"
proof (induction raws arbitrary: k pos keys)
  case (Cons raw raws)
  have "landed_task x (unlimited w) target k task = landed_task x w target k task" for task
    by (simp add: landed_task_def)
  then show ?case by (simp add: Cons.IH)
qed simp

text \<open>
  The task quota binds \<^verbatim>\<open>CreateTask\<close> only. When the tenant of a project is full, \<^verbatim>\<open>CreateTask\<close> is refused, but
  materialising a plan with any number of tasks, appending tasks to a plan and splitting a task give exactly what they
  give without the limit.
\<close>

theorem task_quota_bypassed:
  assumes full: "limit_for (w_tenants w) (unwrap_or DEFAULT_TENANT_ID (tenant_for_project (rg_projects (w_registry w)) (nt_project_id task)))
      tn_max_tasks = Some limit"
    "limit \<le> tasks_of_tenant (rg_projects (w_registry w)) (w_tasks w)
       (unwrap_or DEFAULT_TENANT_ID (tenant_for_project (rg_projects (w_registry w)) (nt_project_id task)))"
    and new: "nt_external_key task = None"
  shows "(\<exists>e. build_create_task x w task = Inl e) \<and>
    build_materialize_new x w plan tasks = build_materialize_new x (unlimited w) plan tasks \<and>
    build_materialize_into ie x w i plan tasks = build_materialize_into ie x (unlimited w) i plan tasks \<and>
    build_split_task x w parent subtasks = build_split_task x (unlimited w) parent subtasks"
proof (intro conjI)
  have "check_task_quota (w_tenants w) (rg_projects (w_registry w)) (w_tasks w) (nt_project_id task) =
      Inl (QuotaExceeded ''tasks'' limit (tasks_of_tenant (rg_projects (w_registry w)) (w_tasks w)
        (unwrap_or DEFAULT_TENANT_ID (tenant_for_project (rg_projects (w_registry w)) (nt_project_id task)))))"
    using full by (simp add: check_task_quota_def Let_def reject_if_full_def)
  then show "\<exists>e. build_create_task x w task = Inl e"
    using new by (simp add: build_create_task_def Let_def normalize_external_key_def)
  have plans: "w_plans (unlimited w) = w_plans w" by simp
  have checked: "checked_new_plan x (unlimited w) p = checked_new_plan x w p" for p
    unfolding checked_new_plan_def plans by (simp add: check_plan_quota_def without_task_limit_plans)
  show "build_materialize_new x w plan tasks = build_materialize_new x (unlimited w) plan tasks"
    unfolding build_materialize_new_def checked materialized_unlimited ..
  have "get_plan (unlimited w) i = get_plan w i" "next_position (unlimited w) i = next_position w i"
      "latest_git_context (unlimited w) ms = latest_git_context w ms" for ms
    by (simp_all add: get_plan_def next_position_def latest_git_context_def)
  then show "build_materialize_into ie x w i plan tasks = build_materialize_into ie x (unlimited w) i plan tasks"
    by (simp add: build_materialize_into_def append_materialized_tasks_def materialized_unlimited cong: option.case_cong)
  have split: "get_task (unlimited w) parent = get_task w parent" "split_amend (unlimited w) = split_amend w"
    by (auto simp: get_task_def split_amend_def next_position_def active_run_for_plan_def intro!: ext)
  show "build_split_task x w parent subtasks = build_split_task x (unlimited w) parent subtasks"
    unfolding build_split_task_def plans split ..
qed

definition full_world :: world where
  "full_world = demo_world\<lparr>w_tenants :=
     [\<lparr>tn_id = DEFAULT_TENANT_ID, tn_max_tasks = Some 0, tn_max_plans = None, tn_max_storage_mb = None\<rparr>]\<rparr>"

theorem task_quota_bypassed_witness:
  "(\<exists>e. build_create_task demo_ctx full_world (demo_new_task 21 None) = Inl e) \<and>
   build_split_task demo_ctx full_world 1 [demo_new_task 21 None, demo_new_task 22 None] = build_split_task demo_ctx (unlimited full_world) 1 [demo_new_task 21 None, demo_new_task 22 None] \<and>
   (\<exists>evs. build_split_task demo_ctx full_world 1 [demo_new_task 21 None, demo_new_task 22 None] = Inr evs)"
proof -
  let ?owner = "unwrap_or DEFAULT_TENANT_ID
      (tenant_for_project (rg_projects (w_registry full_world)) (nt_project_id (demo_new_task 21 None)))"
  have full: "limit_for (w_tenants full_world) ?owner tn_max_tasks = Some 0"
    "0 \<le> tasks_of_tenant (rg_projects (w_registry full_world)) (w_tasks full_world) ?owner"
    "nt_external_key (demo_new_task 21 None) = None" by code_simp+
  have "\<exists>evs. build_split_task demo_ctx full_world 1 [demo_new_task 21 None, demo_new_task 22 None] = Inr evs"
    by (simp add: build_split_task_def get_task_def ok_or_def task_repo_get_def full_world_def demo_world_def demo_readiness_simps
      demo_ctx_def Let_def bind_result_def)
  then show ?thesis using task_quota_bypassed [OF full] by blast
qed

subsection \<open>External references\<close>

lemma project_all_external: "w_external_refs (sy_world (snd (project_all d envs s))) = w_external_refs (sy_world s)"
proof (induction d envs s rule: project_all.induct)
  case (2 d env envs s)
  obtain r s1 where r: "project_env d env s = (r, s1)" by (metis surj_pair)
  then have "w_external_refs (sy_world s1) = w_external_refs (sy_world s)"
    by (auto simp: project_env_def Let_def external_apply_event_def feed_world_def split: sum.splits prod.splits)
  then show ?case using 2 r by (cases r) auto
qed simp

lemma handle_external: "w_external_refs (sy_world (snd (handle d cmd s))) = w_external_refs (sy_world s)"
proof (cases rule: handle_cases [OF prod.collapse [symmetric], of d cmd s])
  case 1
  then show ?thesis by (auto simp: quiet_change_def)
next
  case 2
  then show ?thesis by (auto simp: quiet_change_def)
next
  case (3 cmd' ws sources built rels audit recs metrics s1 envs0 envs)
  then show ?thesis using persist_spec [OF 3(7)]
    by (auto simp: project_all_external persisted_from_def set_relations_def)
qed

lemma handle_all_external: "w_external_refs (sy_world (handle_all cs s)) = w_external_refs (sy_world s)"
  by (induction cs s rule: handle_all.induct) (simp_all add: handle_external)

text \<open>
  An external reference is never recorded. No command writes the table of external references, so a plan creation
  that names one is carried out as if it named none, however often it was dispatched before: the documented idempotence
  does not hold.
\<close>

theorem external_ref_never_recorded:
  assumes "w_external_refs (sy_world s) = []"
  shows "build_create_plan x (sy_world (handle_all cs s)) plan (Some ref) = build_create_plan x (sy_world (handle_all cs s)) plan None"
  using assms by (simp add: build_create_plan_def external_lookup_def handle_all_external)

theorem external_ref_never_recorded_witness:
  "build_create_plan demo_ctx (sy_world (handle_all [(demo_dispatch None, CreatePlan (new_plan ''p'' 70 actor_user) (Some (''t'', ''plan'', ''e1'')))]
     demo_single)) (new_plan ''p'' 70 actor_user) (Some (''t'', ''plan'', ''e1'')) =
   build_create_plan demo_ctx (sy_world (handle_all [(demo_dispatch None, CreatePlan (new_plan ''p'' 70 actor_user) (Some (''t'', ''plan'', ''e1'')))]
     demo_single)) (new_plan ''p'' 70 actor_user) None"
  by (rule external_ref_never_recorded) (simp add: demo_single_def demo_system_def demo_world_def)

end
