(* ===== verification/Snapshot_Store.thy ===== *)
theory Snapshot_Store
  imports Task_Store Project_Store Comment_Store Event_Store
begin

text \<open>
  Bootstrap snapshots: \<^verbatim>\<open>crates/storage/src/snapshot_repo.rs\<close>. A snapshot is the state of the replicated projections
  (tasks, projects, comments) folded from the event log up to its sequence number, in a throwaway database that starts
  from the previous snapshot.
\<close>

subsection \<open>The fold\<close>

definition SNAPSHOT_CUT_VERSION :: nat where
  "SNAPSHOT_CUT_VERSION = 1"

definition FOLD_PAGE_SIZE :: nat where
  "FOLD_PAGE_SIZE = 1000"

record projection_snapshot =
  sp_tasks :: "task list"
  sp_projects :: "project list"
  sp_comments :: "comment list"

record snapshot =
  sh_id :: uuid
  sh_seq :: nat
  sh_created_at :: timestamp
  sh_payload :: projection_snapshot
  sh_cut_version :: nat

definition is_consistent :: "snapshot \<Rightarrow> bool" where
  "is_consistent s \<longleftrightarrow> sh_cut_version s = SNAPSHOT_CUT_VERSION"

record projection_fold =
  pf_tasks :: task_store
  pf_projects :: project_store
  pf_comments :: comment_table

definition empty_fold :: projection_fold where
  "empty_fold = \<lparr>pf_tasks = \<lparr>ts_rows = [], ts_due_notifications = []\<rparr>,
     pf_projects = \<lparr>pj_rows = [], pj_aliases = [], pj_roots = []\<rparr>, pf_comments = []\<rparr>"

text \<open>The rows of a snapshot go through the upserts of the projections, parents before children.\<close>

fun upsert_all_tasks :: "task list \<Rightarrow> task_row list \<Rightarrow> task_row list result" where
  "upsert_all_tasks [] rows = Inr rows"
| "upsert_all_tasks (t # ts) rows = bind_result (upsert_task t rows) (upsert_all_tasks ts)"

definition restore_rows :: "projection_snapshot \<Rightarrow> projection_fold \<Rightarrow> projection_fold result" where
  "restore_rows payload p =
     (let projects = fold upsert_project (sp_projects payload) (pf_projects p) in
      bind_result (upsert_all_tasks (sp_tasks payload) (ts_rows (pf_tasks p))) (\<lambda>rows.
        Inr \<lparr>pf_tasks = (pf_tasks p)\<lparr>ts_rows := rows\<rparr>, pf_projects = projects,
             pf_comments = fold upsert_comment (sp_comments payload) (pf_comments p)\<rparr>))"

definition fold_new :: "projection_snapshot option \<Rightarrow> projection_fold result" where
  "fold_new base = (case base of None \<Rightarrow> Inr empty_fold | Some payload \<Rightarrow> restore_rows payload empty_fold)"

definition fold_apply :: "(nat \<Rightarrow> uuid) \<Rightarrow> event_envelope \<Rightarrow> projection_fold \<Rightarrow> projection_fold result" where
  "fold_apply fresh env p =
     bind_result (task_apply_event fresh env (pf_tasks p)) (\<lambda>tasks.
       Inr \<lparr>pf_tasks = tasks, pf_projects = project_apply_event env (pf_projects p),
            pf_comments = comment_apply_event (en_payload env) (pf_comments p)\<rparr>)"

definition fold_state :: "projection_fold \<Rightarrow> projection_snapshot" where
  "fold_state p = \<lparr>sp_tasks = sort_key t_created_at (tasks_of (pf_tasks p)), sp_projects = list_projects (pf_projects p),
     sp_comments = list_all_comments (pf_comments p)\<rparr>"

subsection \<open>The table\<close>

definition latest_snapshot :: "snapshot list \<Rightarrow> snapshot option" where
  "latest_snapshot ss =
     (case sort_key (\<lambda>s. - int (sh_seq s)) (filter is_consistent ss) of [] \<Rightarrow> None | s # _ \<Rightarrow> Some s)"

definition insert_snapshot :: "uuid \<Rightarrow> timestamp \<Rightarrow> nat \<Rightarrow> projection_snapshot \<Rightarrow> snapshot list \<Rightarrow> snapshot list" where
  "insert_snapshot i now seq payload ss =
     ss @ [\<lparr>sh_id = i, sh_seq = seq, sh_created_at = now, sh_payload = payload, sh_cut_version = SNAPSHOT_CUT_VERSION\<rparr>]"

definition prune_keep_latest :: "nat \<Rightarrow> snapshot list \<Rightarrow> nat \<times> snapshot list" where
  "prune_keep_latest keep ss =
     (let kept = set (map sh_id (take keep (sort_key (\<lambda>s. - int (sh_seq s)) (filter is_consistent ss))))
      in (length (filter (\<lambda>s. sh_id s \<notin> kept) ss), filter (\<lambda>s. sh_id s \<in> kept) ss))"

text \<open>One page of the log: whether the target was passed, the cursor, and the rows.\<close>

fun fold_page ::
  "(nat \<Rightarrow> uuid) \<Rightarrow> nat \<Rightarrow> event_envelope list \<Rightarrow> nat \<Rightarrow> projection_fold \<Rightarrow> (bool \<times> nat \<times> projection_fold) result" where
  "fold_page fresh target [] cursor p = Inr (False, cursor, p)"
| "fold_page fresh target (env # envs) cursor p =
     (if target < en_seq env then Inr (True, cursor, p)
      else bind_result (fold_apply fresh env p) (fold_page fresh target envs (en_seq env)))"

lemma fold_page_cursor:
  "fold_page fresh target envs cursor p = Inr (stopped, cursor', p') \<Longrightarrow> \<not> stopped \<Longrightarrow>
   cursor' = (if envs = [] then cursor else en_seq (last envs))"
  by (induction envs arbitrary: cursor p) (auto simp: bind_result_Inr_iff split: if_splits)

lemma set_load_since: "env \<in> set (load_since l since limit) \<Longrightarrow> env \<in> set (el_rows l) \<and> since < en_seq env"
  by (auto simp: load_since_def dest: in_set_takeD)

function fold_log :: "(nat \<Rightarrow> uuid) \<Rightarrow> event_log \<Rightarrow> nat \<Rightarrow> nat \<Rightarrow> projection_fold \<Rightarrow> projection_fold result" where
  "fold_log fresh l target cursor p =
     (if cursor < target
      then let page = load_since l cursor FOLD_PAGE_SIZE in
           if page = [] then Inr p
           else case fold_page fresh target page cursor p of
                  Inl e \<Rightarrow> Inl e
                | Inr (stopped, cursor', p') \<Rightarrow> if stopped then Inr p' else fold_log fresh l target cursor' p'
      else Inr p)"
  by pat_completeness auto

termination
proof (relation "measure (\<lambda>(fresh, l, target, cursor, p). target - cursor)", goal_cases)
  case (2 fresh l target cursor p page r stopped rest cursor' p')
  then have "cursor' = en_seq (last page)" using fold_page_cursor by (metis prod.collapse)
  then have "cursor < cursor'" using 2 set_load_since [of "last page"] by (auto dest: last_in_set)
  then show ?case using 2 by (auto dest: sym [of "(cursor', p')"])
qed simp

declare fold_log.simps [simp del]

definition write_if_due ::
  "(nat \<Rightarrow> uuid) \<Rightarrow> uuid \<Rightarrow> timestamp \<Rightarrow> event_log \<Rightarrow> nat \<Rightarrow> snapshot list \<Rightarrow> (nat option \<times> snapshot list) result" where
  "write_if_due fresh i now l min_events ss =
     (let target = latest_seq l;
          base = latest_snapshot ss;
          cursor = (case base of Some s \<Rightarrow> sh_seq s | None \<Rightarrow> 0)
      in if target - cursor < min_events then Inr (None, ss)
         else bind_result (fold_new (map_option sh_payload base)) (\<lambda>p.
              bind_result (fold_log fresh l target cursor p) (\<lambda>p'.
                Inr (Some target, insert_snapshot i now target (fold_state p') ss))))"

end
