(* ===== verification/Rows.thy ===== *)
theory Rows
  imports Prelude
begin

text \<open>Reading rows by id in filtered, mapped, extended and reordered tables.\<close>

lemma row_get_filter:
  "keys_distinct key rows \<Longrightarrow> row_get key (filter P rows) i =
     (case row_get key rows i of Some r \<Rightarrow> if P r then Some r else None | None \<Rightarrow> None)"
proof (induction rows)
  case (Cons r rows)
  have "row_get key rows (key r) = None" using Cons.prems by (auto simp: keys_distinct_def row_get_None_iff)
  then show ?case using Cons by (auto simp: keys_distinct_def split: option.splits)
qed simp

lemma keys_distinct_filter: "keys_distinct key rows \<Longrightarrow> keys_distinct key (filter P rows)"
  by (simp add: keys_distinct_def distinct_map_filter)

lemma found_row_append: "row_get key (xs @ ys) i = (case row_get key xs i of None \<Rightarrow> row_get key ys i | Some r \<Rightarrow> Some r)"
  by (induction xs) auto

lemma row_get_map:
  assumes "\<And>r. key (f r) = key r"
  shows "row_get key (map f rows) i = map_option f (row_get key rows i)"
  using assms by (induction rows) auto

lemma row_get_set:
  assumes "keys_distinct key xs" "keys_distinct key ys" "set xs = set ys"
  shows "row_get key xs i = row_get key ys i"
proof (cases "row_get key xs i")
  case None
  then show ?thesis using assms(3) by (metis row_get_None_iff)
next
  case (Some r)
  then show ?thesis using row_get_Some [OF Some] row_get_mem [OF assms(2), of r] assms(3) by simp
qed

lemma set_from_rows:
  assumes "keys_distinct key xs" "keys_distinct key ys" "row_get key xs = row_get key ys"
  shows "set xs = set ys"
proof -
  have "r \<in> set xs \<longleftrightarrow> row_get key xs (key r) = Some r" if "keys_distinct key xs" for r xs
    using row_get_mem [OF that] row_get_Some by fastforce
  then show ?thesis using assms by (metis subsetI subset_antisym)
qed

end
