(* ===== verification/Fold_View.thy ===== *)
theory Fold_View
  imports Snapshot_Store Rows
begin

text \<open>
  What the replicated projections show: two folds that show the same rows still show the same rows after the same
  event. The rows may sit in another order, and with \<open>exact\<close> false the tasks may carry another local number of their last
  event, as those of a device do.
\<close>

subsection \<open>Tasks\<close>

definition seen_as :: "bool \<Rightarrow> task \<Rightarrow> task" where
  "seen_as exact t = (if exact then t else t\<lparr>t_updated_event_seq := None\<rparr>)"

definition same_event :: "bool \<Rightarrow> event_envelope \<Rightarrow> event_envelope \<Rightarrow> bool" where
  "same_event exact e e' \<longleftrightarrow> e = e' \<or> (\<not> exact \<and> e\<lparr>en_seq := 0\<rparr> = e'\<lparr>en_seq := 0\<rparr>)"

definition task_view :: "bool \<Rightarrow> task_row list \<Rightarrow> uuid \<Rightarrow> task option" where
  "task_view exact rows i = map_option (\<lambda>r. seen_as exact (tr_task r)) (row_get row_id rows i)"

definition same_tasks :: "bool \<Rightarrow> task_row list \<Rightarrow> task_row list \<Rightarrow> bool" where
  "same_tasks exact a b \<longleftrightarrow> task_rows_ok a \<and> task_rows_ok b \<and> task_view exact a = task_view exact b"

lemma seen_as_fields [simp]:
  "t_id (seen_as x t) = t_id t" "t_external_key (seen_as x t) = t_external_key t"
  by (simp_all add: seen_as_def)

lemma seen_as_eqD:
  "seen_as x t = seen_as x u \<Longrightarrow> t_id t = t_id u \<and> t_external_key t = t_external_key u"
  by (metis seen_as_fields)

lemma same_task_member:
  assumes "same_tasks x a b" "r \<in> set a"
  shows "\<exists>q \<in> set b. seen_as x (tr_task q) = seen_as x (tr_task r)"
proof -
  have "keys_distinct row_id a" using assms(1) by (simp add: same_tasks_def task_rows_ok_rows keys_distinct_def)
  then have "task_view x a (row_id r) = Some (seen_as x (tr_task r))"
    using assms(2) row_get_mem [of row_id a r] by (simp add: task_view_def)
  then have "task_view x b (row_id r) = Some (seen_as x (tr_task r))" using assms(1) by (simp add: same_tasks_def)
  then show ?thesis by (auto simp: task_view_def dest: row_get_Some)
qed

lemma same_tasks_sym: "same_tasks x a b \<Longrightarrow> same_tasks x b a"
  by (simp add: same_tasks_def)

lemma taken_same:
  assumes "same_tasks x a b" "seen_as x t = seen_as x u"
  shows "external_key_taken t a = external_key_taken u b"
proof -
  have "external_key_taken t a \<Longrightarrow> external_key_taken u b" if "same_tasks x a b" "seen_as x t = seen_as x u" for t u a b
    using same_task_member [OF that(1)] seen_as_eqD [OF that(2)] seen_as_eqD
    unfolding external_key_taken_def list_ex_iff by metis
  from this [OF assms] this [OF same_tasks_sym [OF assms(1)] assms(2) [symmetric]] show ?thesis by blast
qed

lemma rel_result_bind:
  "rel_sum (=) R r s \<Longrightarrow> (\<And>a b. R a b \<Longrightarrow> rel_sum (=) S (f a) (g b)) \<Longrightarrow> rel_sum (=) S (bind_result r f) (bind_result s g)"
  by (auto simp: bind_result_def rel_sum_simps elim!: rel_sum.cases)

lemma upsert_view:
  "upsert_task t rows = Inr rows' \<Longrightarrow> task_view x rows' = (task_view x rows)(t_id t \<mapsto> seen_as x t)"
  using upsert_task_get by (auto simp: task_view_def written_row_def fun_eq_iff split: option.splits)

lemma upsert_same:
  assumes "same_tasks x a b" "seen_as x t = seen_as x u"
  shows "rel_sum (=) (same_tasks x) (upsert_task t a) (upsert_task u b)"
proof (cases "external_key_taken t a")
  case True
  then show ?thesis using taken_same [OF assms] by (simp add: upsert_task_def)
next
  case False
  then have "external_key_taken u b = False" using taken_same [OF assms] by simp
  then have "\<exists>b'. upsert_task u b = Inr b'" by (simp add: upsert_task_def)
  moreover have "\<exists>a'. upsert_task t a = Inr a'" using False by (simp add: upsert_task_def)
  ultimately obtain a' b' where "upsert_task t a = Inr a'" "upsert_task u b = Inr b'" by blast
  then show ?thesis using assms task_rows_ok_upsert upsert_view seen_as_eqD [OF assms(2)]
    by (fastforce simp: same_tasks_def)
qed

subsection \<open>Events on tasks\<close>

lemma same_event_fields:
  assumes "same_event x e e'"
  shows "en_id e = en_id e'" "en_occurred_at e = en_occurred_at e'" "en_actor e = en_actor e'" "en_payload e = en_payload e'"
    "x \<Longrightarrow> en_seq e = en_seq e'"
  using assms by (cases e; cases e'; auto simp: same_event_def)+

lemma seen_as_split:
  "seen_as x t = seen_as x u \<longleftrightarrow> (if x then t = u else \<exists>k. t = u\<lparr>t_updated_event_seq := k\<rparr>)"
proof (cases x)
  case False
  have "t = u\<lparr>t_updated_event_seq := t_updated_event_seq t\<rparr>" if "t\<lparr>t_updated_event_seq := None\<rparr> = u\<lparr>t_updated_event_seq := None\<rparr>"
    using that by (cases t; cases u) simp
  then show ?thesis using False by (auto simp: seen_as_def)
qed (simp add: seen_as_def)

lemma seen_as_stamp:
  assumes "same_event x e e'" "seen_as x t = seen_as x u"
  shows "seen_as x (stamp_last_change e t) = seen_as x (stamp_last_change e' u)"
proof (cases x)
  case True
  then show ?thesis using assms(2) same_event_fields [OF assms(1)] by (simp add: seen_as_def stamp_last_change_def)
next
  case False
  then obtain k where "t = u\<lparr>t_updated_event_seq := k\<rparr>" using assms(2) by (auto simp: seen_as_split)
  then show ?thesis using False same_event_fields [OF assms(1)] by (simp add: seen_as_def stamp_last_change_def)
qed

lemma projected_unnumbered:
  assumes "en_id e = en_id e'" "en_occurred_at e = en_occurred_at e'" "en_actor e = en_actor e'"
    and "unwrap_or k (nt_id n) = i" "unwrap_or k' (nt_id n) = i"
  shows "(projected_task e k src n)\<lparr>t_updated_event_seq := q\<rparr> = (projected_task e' k' src n)\<lparr>t_updated_event_seq := q\<rparr>"
  using assms by (simp add: projected_task_def)

lemma projected_task_same:
  assumes "same_event x e e'" "nt_id n \<noteq> None"
  shows "seen_as x (projected_task e k src n) = seen_as x (projected_task e' k' src n)"
proof -
  obtain i where i: "unwrap_or k (nt_id n) = i" "unwrap_or k' (nt_id n) = i" using assms(2) by auto
  note same = projected_unnumbered [OF same_event_fields(1-3) [OF assms(1)] i]
  show ?thesis
  proof (cases x)
    case True
    then have "e = e'" using assms(1) by (simp add: same_event_def)
    then show ?thesis using i by (simp add: projected_task_def)
  qed (simp add: seen_as_def same)
qed

text \<open>A change of a task that does not look at the number of its last event.\<close>

definition blind_change :: "bool \<Rightarrow> (task \<Rightarrow> task) \<Rightarrow> (task \<Rightarrow> task) \<Rightarrow> bool" where
  "blind_change x f g \<longleftrightarrow> (\<forall>t u. seen_as x t = seen_as x u \<longrightarrow> seen_as x (f t) = seen_as x (g u)) \<and>
     (\<forall>t. t_id (f t) = t_id t) \<and> (\<forall>t. t_id (g t) = t_id t)"

lemma blind_stamped:
  assumes "same_event x e e'" "\<And>t k. f (t\<lparr>t_updated_event_seq := k\<rparr>) = (f t)\<lparr>t_updated_event_seq := k\<rparr>" "\<And>t. t_id (f t) = t_id t"
  shows "blind_change x (\<lambda>t. stamp_last_change e (f t)) (\<lambda>t. stamp_last_change e' (f t))"
proof -
  have f: "seen_as x (f t) = seen_as x (f u)" if "seen_as x t = seen_as x u" for t u
    using that assms(2) by (auto simp: seen_as_split split: if_splits)
  have "t_id (stamp_last_change env t) = t_id t" for env t by (simp add: stamp_last_change_def)
  then show ?thesis unfolding blind_change_def
    by (intro conjI allI impI seen_as_stamp [OF assms(1)] f) (simp_all add: assms(3))
qed

lemma task_view_tasks: "task_view x rows i = map_option (seen_as x) (find (\<lambda>t. t_id t = i) (map tr_task rows))"
  by (induction rows) (simp_all add: task_view_def)

lemma same_tasks_columns:
  assumes "same_tasks x a b" "map tr_task a' = map tr_task a" "map tr_task b' = map tr_task b"
  shows "same_tasks x a' b'"
  using assms by (simp add: same_tasks_def task_rows_ok_def fun_eq_iff task_view_tasks)

lemma write_same:
  assumes "same_tasks x a b" "blind_change x f g"
    "\<And>t rs. map tr_task (post t rs) = map tr_task rs" "\<And>t rs. map tr_task (post' t rs) = map tr_task rs"
  shows "rel_sum (=) (same_tasks x) (task_write i f post a) (task_write i g post' b)"
proof (cases "row_get row_id a i")
  case None
  then have "row_get row_id b i = None"
    using assms(1) by (auto simp: same_tasks_def task_view_def dest!: fun_cong [of _ _ i])
  then show ?thesis using None assms(1) by (simp add: task_write_def)
next
  case (Some r)
  moreover have "task_view x a i = task_view x b i" using assms(1) by (simp add: same_tasks_def)
  ultimately obtain q where q: "row_get row_id b i = Some q" "seen_as x (tr_task r) = seen_as x (tr_task q)"
    by (cases "row_get row_id b i") (simp_all add: task_view_def)
  have "rel_sum (=) (same_tasks x) (upsert_task (f (tr_task r)) a) (upsert_task (g (tr_task q)) b)"
    using assms(2) q(2) by (intro upsert_same [OF assms(1)]) (simp add: blind_change_def)
  then show ?thesis unfolding task_write_def Some q(1) option.case
    by (rule rel_result_bind) (simp add: same_tasks_columns assms(3,4))
qed

lemma subtasks_same:
  assumes "same_event x e e'" "list_all (\<lambda>n. nt_id n \<noteq> None) ns" "same_tasks x a b"
  shows "rel_sum (=) (same_tasks x) (project_subtasks e fresh k ns a) (project_subtasks e' fresh' k' ns b)"
  using assms(2,3)
proof (induction ns arbitrary: a b k k')
  case (Cons n ns)
  have "en_id e = en_id e'" by (rule same_event_fields [OF assms(1)])
  then have "seen_as x (projected_task e (fresh k) (Some (en_id e)) n) = seen_as x (projected_task e' (fresh' k') (Some (en_id e')) n)"
    using projected_task_same [OF assms(1)] Cons.prems(1) by simp
  from upsert_same [OF Cons.prems(2) this] show ?case
    unfolding project_subtasks.simps by (rule rel_result_bind) (use Cons in simp)
qed simp

lemma blind_changes:
  assumes "same_event x e e'"
  shows "blind_change x (apply_task_updated e p) (apply_task_updated e' p)"
    "blind_change x (apply_status_changed e to) (apply_status_changed e' to)"
    "blind_change x (\<lambda>t. stamp_last_change e (t\<lparr>t_priority := pr, t_updated_at := en_occurred_at e\<rparr>))
       (\<lambda>t. stamp_last_change e' (t\<lparr>t_priority := pr, t_updated_at := en_occurred_at e'\<rparr>))"
    "blind_change x (apply_task_completed e at) (apply_task_completed e' at)"
    "blind_change x (apply_task_reopened e at) (apply_task_reopened e' at)"
    "blind_change x (apply_task_closed e at) (apply_task_closed e' at)"
  unfolding apply_task_updated_def [abs_def] apply_status_changed_def [abs_def] apply_task_completed_def [abs_def]
    apply_task_reopened_def [abs_def] apply_task_closed_def [abs_def] Let_def same_event_fields(2,3) [OF assms]
  by (rule blind_stamped [OF assms]; simp add: patch_apply_def)+

lemma tasks_same:
  assumes "same_event x e e'" "names_tasks (en_payload e)" "same_tasks x a b"
  shows "rel_sum (=) (same_tasks x) (task_rows_apply fresh e a) (task_rows_apply fresh' e' b)"
proof -
  note same = same_event_fields(1-4) [OF assms(1)]
  have stamp: "map tr_task (stamp_status_changed_at i w rs) = map tr_task rs"
    "map tr_task (stamp_pipeline_position i pos rs) = map tr_task rs" for i w pos rs
    by (simp_all add: stamp_status_changed_at_def stamp_pipeline_position_def row_modify_def)
  note writes = write_same [OF assms(3) blind_changes(1) [OF assms(1)]] write_same [OF assms(3) blind_changes(2) [OF assms(1)]]
    write_same [OF assms(3) blind_changes(3) [OF assms(1)]] write_same [OF assms(3) blind_changes(4) [OF assms(1)]]
    write_same [OF assms(3) blind_changes(5) [OF assms(1)]] write_same [OF assms(3) blind_changes(6) [OF assms(1)]]
  show ?thesis
  proof (cases "en_payload e")
    case (TaskEv te)
    then have pay: "en_payload e' = TaskEv te" using same by simp
    show ?thesis
    proof (cases te)
      case (TaskCreated n)
      have "seen_as x (projected_task e (fresh 0) src n) = seen_as x (projected_task e' (fresh' 0) src n)" for src
        using projected_task_same [OF assms(1)] assms(2) TaskEv TaskCreated by (simp add: names_tasks_def)
      from upsert_same [OF assms(3) this] show ?thesis
        unfolding task_rows_apply_def TaskEv pay TaskCreated Let_def event.case task_event.case
        by (rule rel_result_bind) (simp add: same_tasks_columns stamp)
    next
      case (TaskDeleted i)
      then show ?thesis using assms(3) TaskEv pay
        by (auto simp: task_rows_apply_def same_tasks_def task_rows_ok_delete task_view_def fun_eq_iff row_get_delete)
    next
      case (TaskSplitGenerated i ns)
      then show ?thesis using subtasks_same [OF assms(1) _ assms(3)] assms(2) TaskEv pay
        by (simp add: task_rows_apply_def names_tasks_def Let_def)
    qed (use assms(3) TaskEv pay in
      \<open>auto simp: task_rows_apply_def Let_def stamp intro!: writes split: option.splits\<close>)
  qed (use assms(3) same in \<open>simp_all add: task_rows_apply_def Let_def\<close>)
qed

subsection \<open>Projects and comments\<close>

definition same_projects :: "project_store \<Rightarrow> project_store \<Rightarrow> bool" where
  "same_projects a b \<longleftrightarrow> keys_distinct pr_id (pj_rows a) \<and> keys_distinct pr_id (pj_rows b) \<and> project_get a = project_get b"

definition same_comments :: "comment_table \<Rightarrow> comment_table \<Rightarrow> bool" where
  "same_comments a b \<longleftrightarrow> keys_distinct cm_id a \<and> keys_distinct cm_id b \<and> comment_get a = comment_get b"

lemma stored_project_id [simp]: "pr_id (stored_project p) = pr_id p" "pr_slug (stored_project p) = pr_slug p"
  by (simp_all add: stored_project_def)

lemma upsert_project_view:
  assumes "keys_distinct pr_id (pj_rows s)"
  shows "project_get (upsert_project p s) i =
      (if i = pr_id p then Some (stored_project p)
       else case project_get s i of Some q \<Rightarrow> if pr_slug q = pr_slug p then None else Some q | None \<Rightarrow> None)"
    "keys_distinct pr_id (pj_rows (upsert_project p s))"
  using assms keys_distinct_upsert [of pr_id, OF keys_distinct_filter [OF assms]]
  by (auto simp: project_get_def upsert_project_def drop_roots_def row_get_upsert row_get_filter
      split: option.splits dest: row_get_Some)

lemma upsert_project_same: "same_projects a b \<Longrightarrow> same_projects (upsert_project p a) (upsert_project p b)"
  by (simp add: same_projects_def upsert_project_view fun_eq_iff)

lemma rename_aliases_rows [simp]: "pj_rows (rename_aliases p t at s) = pj_rows s"
  by (simp add: rename_aliases_def insert_alias_def)

lemma rename_aliases_same: "same_projects a b \<Longrightarrow> same_projects (rename_aliases p t at a) (rename_aliases p t at b)"
  by (simp add: same_projects_def project_get_def [abs_def])

lemma projects_same:
  assumes "same_event x e e'" "same_projects a b"
  shows "same_projects (project_apply_event e a) (project_apply_event e' b)"
proof -
  have upd: "same_projects (apply_project_updated i title desc w a) (apply_project_updated i title desc w b)" for i title desc w
    using assms(2) upsert_project_same [OF assms(2)] upsert_project_same [OF rename_aliases_same [OF assms(2)]]
    by (cases "project_get b i") (auto simp: apply_project_updated_def same_projects_def split: option.splits)
  have del: "same_projects (project_delete i a) (project_delete i b)" for i
    using assms(2) by (auto simp: same_projects_def project_delete_def drop_roots_def project_get_def fun_eq_iff row_get_delete
        keys_distinct_delete)
  show ?thesis
    using same_event_fields [OF assms(1)] upd del upsert_project_same [OF assms(2)] assms(2)
    by (auto simp: project_apply_event_def split: event.splits task_event.splits)
qed

lemma comments_same:
  assumes "same_comments a b"
  shows "same_comments (comment_apply_event e a) (comment_apply_event e b)"
proof -
  have "comment_get (comment_apply_event e cs) i =
      (case e of
         TaskEv (CommentAdded c) \<Rightarrow> if i = cm_id c then Some c else comment_get cs i
       | TaskEv (CommentEdited j _ p w) \<Rightarrow>
           if i = j then map_option (apply_comment_patch p w) (comment_get cs i) else comment_get cs i
       | TaskEv (CommentDeleted j _ w) \<Rightarrow>
           if i = j then map_option (\<lambda>c. c\<lparr>cm_deleted_at := Some w\<rparr>) (comment_get cs i) else comment_get cs i
       | _ \<Rightarrow> comment_get cs i)" for cs i
    by (auto simp: comment_apply_event_def comment_get_def upsert_comment_def table_simps apply_comment_patch_def
        split: event.splits task_event.splits option.splits dest: row_get_Some)
  then show ?thesis using assms comment_apply_distinct
    by (auto simp: same_comments_def fun_eq_iff split: event.splits task_event.splits)
qed

subsection \<open>Folds\<close>

definition same_fold :: "bool \<Rightarrow> projection_fold \<Rightarrow> projection_fold \<Rightarrow> bool" where
  "same_fold x p q \<longleftrightarrow> same_tasks x (ts_rows (pf_tasks p)) (ts_rows (pf_tasks q)) \<and>
     same_projects (pf_projects p) (pf_projects q) \<and> same_comments (pf_comments p) (pf_comments q)"

lemma fold_apply_same:
  assumes "same_event x e e'" "names_tasks (en_payload e)" "same_fold x p q"
  shows "rel_sum (=) (same_fold x) (fold_apply fresh e p) (fold_apply fresh' e' q)"
proof -
  have parts: "same_tasks x (ts_rows (pf_tasks p)) (ts_rows (pf_tasks q))" "same_projects (pf_projects p) (pf_projects q)"
    "same_comments (pf_comments p) (pf_comments q)" using assms(3) by (simp_all add: same_fold_def)
  have "en_payload e = en_payload e'" by (rule same_event_fields [OF assms(1)])
  then have "rel_sum (=) (\<lambda>s t. same_tasks x (ts_rows s) (ts_rows t))
      (task_apply_event fresh e (pf_tasks p)) (task_apply_event fresh' e' (pf_tasks q))"
    unfolding task_apply_event_def by (intro rel_result_bind [OF tasks_same [OF assms(1,2) parts(1)]]) simp
  then show ?thesis unfolding fold_apply_def \<open>en_payload e = en_payload e'\<close>
    by (rule rel_result_bind) (simp add: same_fold_def projects_same [OF assms(1) parts(2)] comments_same [OF parts(3)])
qed

end
