(* ===== verification/Snapshot_Cut.thy ===== *)
theory Snapshot_Cut
  imports Fold_View
begin

text \<open>
  A snapshot is a consistent cut: its rows are what folding the whole log up to its sequence number gives, although
  it was folded page by page from an earlier snapshot and old telemetry had been purged from the log.
\<close>

subsection \<open>Folding a list of events\<close>

fun fold_events :: "(nat \<Rightarrow> uuid) \<Rightarrow> event_envelope list \<Rightarrow> projection_fold \<Rightarrow> projection_fold result" where
  "fold_events fresh [] p = Inr p"
| "fold_events fresh (env # envs) p = bind_result (fold_apply fresh env p) (fold_events fresh envs)"

lemma fold_events_append: "fold_events fresh (xs @ ys) p = bind_result (fold_events fresh xs p) (fold_events fresh ys)"
  by (induction xs arbitrary: p) (auto simp: bind_result_def split: sum.splits)

lemma fold_events_same:
  assumes "list_all2 (same_event x) es es'" "list_all (names_tasks \<circ> en_payload) es" "same_fold x p q"
  shows "rel_sum (=) (same_fold x) (fold_events fresh es p) (fold_events fresh' es' q)"
  using assms
proof (induction es es' arbitrary: p q rule: list_all2_induct)
  case (Cons e es e' es')
  then show ?case unfolding fold_events.simps by (intro rel_result_bind [OF fold_apply_same]) auto
qed simp

lemma telemetry_folds: "event_class (en_payload e) = ClassTelemetry \<Longrightarrow> fold_apply fresh e p = Inr p"
  by (cases "en_payload e")
    (auto simp: event_class_def fold_apply_def task_apply_event_def task_rows_apply_def due_notifications_apply_def
      project_apply_event_def comment_apply_event_def split: telemetry_event.splits)

abbreviation domain_event :: "event_envelope \<Rightarrow> bool" where
  "domain_event e \<equiv> event_class (en_payload e) = ClassDomain"

lemma fold_domain: "fold_events fresh (filter domain_event es) p = fold_events fresh es p"
proof (induction es arbitrary: p)
  case (Cons e es)
  show ?case
  proof (cases "domain_event e")
    case True
    have "fold_events fresh (filter domain_event es) = fold_events fresh es" using Cons.IH by (rule ext)
    then show ?thesis using True by simp
  next
    case False
    then have "event_class (en_payload e) = ClassTelemetry" by (cases "event_class (en_payload e)") simp_all
    then show ?thesis using False Cons.IH by (simp add: telemetry_folds)
  qed
qed simp

subsection \<open>The fold over the pages\<close>

lemma fold_page_events:
  "sorted_wrt (<) (map en_seq envs) \<Longrightarrow>
   map_sum id (snd \<circ> snd) (fold_page fresh target envs cursor p) = fold_events fresh (filter (\<lambda>e. en_seq e \<le> target) envs) p"
proof (induction envs arbitrary: cursor p)
  case (Cons e envs)
  show ?case
  proof (cases "target < en_seq e")
    case True
    then have "filter (\<lambda>e. en_seq e \<le> target) envs = []" using Cons.prems by (fastforce simp: filter_empty_conv)
    then show ?thesis using True by simp
  next
    case False
    then show ?thesis using Cons by (cases "fold_apply fresh e p") simp_all
  qed
qed simp

lemma fold_page_stopped:
  "fold_page fresh target envs cursor p = Inr (stopped, cursor', p') \<Longrightarrow> stopped \<longleftrightarrow> list_ex (\<lambda>e. target < en_seq e) envs"
  by (induction envs arbitrary: cursor p) (auto simp: bind_result_Inr_iff split: if_splits)

lemma load_since_sorted:
  assumes "log_ok l"
  shows "load_since l since limit = take limit (filter (\<lambda>e. since < en_seq e) (el_rows l))"
proof -
  have "sorted_wrt (<) (map en_seq (el_rows l))" using assms by (simp add: log_ok_def)
  then have "sorted_wrt (<) (map en_seq (filter (\<lambda>e. since < en_seq e) (el_rows l)))"
    by (simp add: sorted_wrt_map sorted_wrt_filter)
  then have "sorted (map en_seq (filter (\<lambda>e. since < en_seq e) (el_rows l)))" by (rule strict_sorted_imp_sorted)
  then show ?thesis by (simp add: load_since_def sorted_sort_id sort_key_id_if_sorted)
qed

lemma sorted_rest:
  assumes "sorted_wrt (<) (map en_seq (xs @ ys))" "xs \<noteq> []"
  shows "filter (\<lambda>e. en_seq (last xs) < en_seq e \<and> P e) (xs @ ys) = filter P ys"
proof -
  have "sorted_wrt (<) (map en_seq xs)" using assms(1) by (simp add: sorted_wrt_append)
  then have "\<not> en_seq (last xs) < en_seq e" if "e \<in> set xs" for e
    using that by (induction xs) (auto simp: not_less less_imp_le)
  moreover have "en_seq (last xs) < en_seq e" if "e \<in> set ys" for e
    using assms that last_in_set [OF assms(2)] by (auto simp: sorted_wrt_append)
  ultimately have "filter (\<lambda>e. en_seq (last xs) < en_seq e \<and> P e) xs = []"
    "filter (\<lambda>e. en_seq (last xs) < en_seq e \<and> P e) ys = filter P ys"
    by (auto simp: filter_empty_conv intro!: filter_cong)
  then show ?thesis by simp
qed

lemma fold_log_events:
  assumes "log_ok l"
  shows "fold_log fresh l target cursor p =
    fold_events fresh (filter (\<lambda>e. cursor < en_seq e \<and> en_seq e \<le> target) (el_rows l)) p"
  using assms
proof (induction fresh l target cursor p rule: fold_log.induct)
  case (1 fresh l target cursor p)
  define ahead where "ahead = filter (\<lambda>e. cursor < en_seq e) (el_rows l)"
  define page where "page = load_since l cursor FOLD_PAGE_SIZE"
  have page: "page = take FOLD_PAGE_SIZE ahead" using load_since_sorted [OF 1(2)] by (simp add: page_def ahead_def)
  have sorted: "sorted_wrt (<) (map en_seq ahead)"
    using 1(2) by (simp add: ahead_def log_ok_def sorted_wrt_map sorted_wrt_filter)
  have split: "ahead = page @ drop FOLD_PAGE_SIZE ahead" by (simp add: page)
  have rows: "filter (\<lambda>e. cursor < en_seq e \<and> en_seq e \<le> target) (el_rows l) = filter (\<lambda>e. en_seq e \<le> target) ahead"
    by (simp add: ahead_def conj_commute)
  have below: "sorted_wrt (<) (map en_seq page)" using sorted split by (metis map_append sorted_wrt_append)
  show ?case
  proof (cases "cursor < target \<and> page \<noteq> []")
    case False
    then have "filter (\<lambda>e. en_seq e \<le> target) ahead = []"
      using page by (auto simp: ahead_def filter_empty_conv FOLD_PAGE_SIZE_def)
    then show ?thesis using False rows by (subst fold_log.simps) (auto simp: page_def Let_def)
  next
    case True
    show ?thesis
    proof (cases "fold_page fresh target page cursor p")
      case (Inl err)
      then have "fold_events fresh (filter (\<lambda>e. en_seq e \<le> target) page) p = Inl err"
        using fold_page_events [OF below, of fresh target cursor p] by simp
      then have "fold_events fresh (filter (\<lambda>e. en_seq e \<le> target) ahead) p = Inl err"
        by (subst split) (simp add: fold_events_append)
      then show ?thesis using True Inl rows by (subst fold_log.simps) (simp add: page_def Let_def)
    next
      case (Inr r)
      obtain stopped cursor' p' where r: "r = (stopped, cursor', p')" by (metis prod.collapse)
      have here: "fold_events fresh (filter (\<lambda>e. en_seq e \<le> target) page) p = Inr p'"
        using fold_page_events [OF below, of fresh target cursor p] Inr r by simp
      then have all: "fold_events fresh (filter (\<lambda>e. en_seq e \<le> target) ahead) p =
          fold_events fresh (filter (\<lambda>e. en_seq e \<le> target) (drop FOLD_PAGE_SIZE ahead)) p'"
        by (subst split) (simp add: fold_events_append)
      show ?thesis
      proof (cases stopped)
        case True': True
        then obtain b where "b \<in> set page" "target < en_seq b"
          using fold_page_stopped [OF Inr [unfolded r]] by (auto simp: list_ex_iff)
        then have "filter (\<lambda>e. en_seq e \<le> target) (drop FOLD_PAGE_SIZE ahead) = []"
          using sorted by (subst (asm) split) (fastforce simp: sorted_wrt_append filter_empty_conv)
        then show ?thesis using True True' Inr r rows all by (subst fold_log.simps) (simp add: page_def Let_def)
      next
        case False
        then have "cursor' = en_seq (last page)" using fold_page_cursor [OF Inr [unfolded r] False] True by simp
        moreover have "cursor < en_seq (last page)" using set_load_since [of "last page" l cursor] last_in_set [of page] True page_def by metis
        ultimately have "filter (\<lambda>e. cursor' < en_seq e \<and> en_seq e \<le> target) (el_rows l) =
            filter (\<lambda>e. en_seq (last page) < en_seq e \<and> en_seq e \<le> target) ahead"
          by (auto simp: ahead_def intro!: filter_cong)
        also have "\<dots> = filter (\<lambda>e. en_seq e \<le> target) (drop FOLD_PAGE_SIZE ahead)"
          using sorted_rest [of page "drop FOLD_PAGE_SIZE ahead"] sorted True split by metis
        finally show ?thesis
          using 1(1) [OF _ page_def _ Inr [unfolded r] refl refl False] 1(2) True False Inr r rows all
          by (subst fold_log.simps) (simp add: page_def Let_def)
      qed
    qed
  qed
qed

subsection \<open>Starting from a snapshot\<close>

definition projects_ok :: "project list \<Rightarrow> bool" where
  "projects_ok ps \<longleftrightarrow> keys_distinct pr_id ps \<and> (\<forall>p \<in> set ps. stored_project p = p) \<and>
     (\<forall>p \<in> set ps. \<forall>q \<in> set ps. pr_slug p = pr_slug q \<longrightarrow> pr_id p = pr_id q)"

definition fold_ok :: "projection_fold \<Rightarrow> bool" where
  "fold_ok p \<longleftrightarrow> task_rows_ok (ts_rows (pf_tasks p)) \<and> projects_ok (pj_rows (pf_projects p)) \<and> keys_distinct cm_id (pf_comments p)"

lemma row_upsert_fresh: "key r \<notin> key ` set rows \<Longrightarrow> row_upsert key r rows = rows @ [r]"
  by (induction rows) auto

lemma row_upsert_member:
  "keys_distinct key rows \<Longrightarrow> q \<in> set (row_upsert key r rows) \<Longrightarrow> q = r \<or> (q \<in> set rows \<and> key q \<noteq> key r)"
proof (induction rows)
  case (Cons a rows)
  then show ?case by (cases "key a = key r") (auto simp: keys_distinct_def image_iff)
qed simp

lemma projects_ok_subset: "projects_ok ps \<Longrightarrow> projects_ok (filter P ps)"
  unfolding projects_ok_def using keys_distinct_filter by auto

lemma empty_fold_ok: "fold_ok empty_fold"
  by (simp add: fold_ok_def empty_fold_def task_rows_ok_rows projects_ok_def keys_distinct_def)

lemma upsert_project_ok:
  assumes "projects_ok (pj_rows s)"
  shows "projects_ok (pj_rows (upsert_project p s))"
proof -
  let ?kept = "filter (\<lambda>q. pr_id q = pr_id p \<or> pr_slug q \<noteq> pr_slug p) (pj_rows s)"
  have rows: "pj_rows (upsert_project p s) = row_upsert pr_id (stored_project p) ?kept"
    by (simp add: upsert_project_def drop_roots_def)
  have keys: "keys_distinct pr_id (pj_rows s)" using assms unfolding projects_ok_def by (rule conjunct1)
  have kept: "keys_distinct pr_id ?kept" by (rule keys_distinct_filter [OF keys])
  have "keys_distinct pr_id (pj_rows (upsert_project p s))" by (rule upsert_project_view(2) [OF keys])
  moreover have "q = stored_project p \<or> (q \<in> set (pj_rows s) \<and> pr_id q \<noteq> pr_id p \<and> pr_slug q \<noteq> pr_slug p)"
    if "q \<in> set (pj_rows (upsert_project p s))" for q
    using that rows row_upsert_member [OF kept, of q "stored_project p"] by auto
  moreover have "stored_project (stored_project p) = stored_project p" by (simp add: stored_project_def)
  ultimately show ?thesis using assms unfolding projects_ok_def by (metis stored_project_id)
qed

lemma fold_apply_ok:
  assumes "fold_ok p" "fold_apply fresh e p = Inr p'"
  shows "fold_ok p'"
proof -
  obtain tasks where t: "task_apply_event fresh e (pf_tasks p) = Inr tasks"
    and p': "p' = \<lparr>pf_tasks = tasks, pf_projects = project_apply_event e (pf_projects p),
      pf_comments = comment_apply_event (en_payload e) (pf_comments p)\<rparr>"
    using assms(2) by (auto simp: fold_apply_def bind_result_Inr_iff)
  have "task_rows_ok (ts_rows tasks)"
    using t assms(1) task_rows_ok_apply by (auto simp: task_apply_event_def bind_result_Inr_iff fold_ok_def)
  moreover have "projects_ok (pj_rows (project_delete i (pf_projects p)))" for i
    using assms(1) projects_ok_subset by (simp add: fold_ok_def project_delete_def drop_roots_def row_delete_def)
  then have "projects_ok (pj_rows (project_apply_event e (pf_projects p)))"
    using assms(1) upsert_project_ok
    by (auto simp: fold_ok_def project_apply_event_def apply_project_updated_def split: event.splits task_event.splits option.splits)
  moreover have "keys_distinct cm_id (comment_apply_event (en_payload e) (pf_comments p))"
    using assms(1) comment_apply_distinct by (simp add: fold_ok_def)
  ultimately show ?thesis using p' by (simp add: fold_ok_def)
qed

lemma fold_events_ok: "fold_ok p \<Longrightarrow> fold_events fresh es p = Inr p' \<Longrightarrow> fold_ok p'"
  by (induction es arbitrary: p) (auto simp: bind_result_Inr_iff dest: fold_apply_ok)

lemma restore_tasks:
  "tasks_ok (map tr_task rows @ ts) \<Longrightarrow>
   upsert_all_tasks ts rows = Inr (rows @ map (\<lambda>t. \<lparr>tr_task = t, tr_status_changed_at = None, tr_pipeline = None\<rparr>) ts)"
proof (induction ts arbitrary: rows)
  case (Cons t ts)
  have "distinct (map t_id (map tr_task rows @ t # ts))" using Cons.prems unfolding tasks_ok_def by (rule conjunct1)
  then have "t_id t \<notin> row_id ` set rows" by simp
  then have "\<not> list_ex (\<lambda>r. row_id r = t_id t) rows" by (metis (mono_tags, lifting) imageI list_ex_iff)
  moreover have "\<not> (t_external_key t \<noteq> None \<and> row_id r \<noteq> t_id t \<and> t_external_key (tr_task r) = t_external_key t)"
    if "r \<in> set rows" for r
  proof -
    have "tr_task r \<in> set (map tr_task rows @ t # ts)" "t \<in> set (map tr_task rows @ t # ts)" using that by simp_all
    then show ?thesis using Cons.prems unfolding tasks_ok_def by metis
  qed
  then have "\<not> external_key_taken t rows" unfolding external_key_taken_def list_ex_iff by blast
  ultimately have "upsert_task t rows = Inr (rows @ [\<lparr>tr_task = t, tr_status_changed_at = None, tr_pipeline = None\<rparr>])"
    by (simp add: upsert_task_def)
  then show ?case using Cons.IH Cons.prems by simp
qed simp

lemma restore_projects:
  "projects_ok (pj_rows s @ ps) \<Longrightarrow> pj_rows (fold upsert_project ps s) = pj_rows s @ ps"
proof (induction ps arbitrary: s)
  case (Cons p ps)
  have "keys_distinct pr_id (pj_rows s @ p # ps)" using Cons.prems unfolding projects_ok_def by (rule conjunct1)
  then have "pr_id p \<notin> pr_id ` set (pj_rows s)" by (simp add: keys_distinct_def)
  moreover have "pr_id q = pr_id p \<or> pr_slug q \<noteq> pr_slug p" if "q \<in> set (pj_rows s)" for q
  proof -
    have "q \<in> set (pj_rows s @ p # ps)" "p \<in> set (pj_rows s @ p # ps)" using that by simp_all
    then show ?thesis using Cons.prems unfolding projects_ok_def by metis
  qed
  moreover have "p \<in> set (pj_rows s @ p # ps)" by simp
  then have "stored_project p = p" using Cons.prems unfolding projects_ok_def by blast
  ultimately have "pj_rows (upsert_project p s) = pj_rows s @ [p]"
    by (simp add: upsert_project_def drop_roots_def row_upsert_fresh filter_id_conv)
  then show ?case using Cons.IH [of "upsert_project p s"] Cons.prems by simp
qed simp

lemma restore_comments:
  "keys_distinct cm_id (cs @ new) \<Longrightarrow> fold upsert_comment new cs = cs @ new"
proof (induction new arbitrary: cs)
  case (Cons c new)
  have "cm_id c \<notin> cm_id ` set cs" using Cons.prems by (simp add: keys_distinct_def)
  then have "upsert_comment c cs = cs @ [c]" by (simp add: upsert_comment_def row_upsert_fresh)
  then show ?case using Cons by simp
qed simp

text \<open>A snapshot of a fold, restored in an empty database, shows what the fold shows.\<close>

lemma sort_distinct: "distinct (map key (sort_key f xs)) \<longleftrightarrow> distinct (map key xs)"
  by (simp add: distinct_map)

lemma tasks_ok_sort: "tasks_ok ts \<Longrightarrow> tasks_ok (sort_key f ts)"
  unfolding tasks_ok_def sort_distinct set_sort by assumption

lemma projects_ok_sort: "projects_ok ps \<Longrightarrow> projects_ok (sort_key f ps)"
  unfolding projects_ok_def keys_distinct_def sort_distinct set_sort by assumption

lemma restore_same:
  assumes "fold_ok p" and blank: "ts_rows (pf_tasks p0) = []" "pj_rows (pf_projects p0) = []" "pf_comments p0 = []"
  shows "\<exists>q. restore_rows (fold_state p) p0 = Inr q \<and> fold_ok q \<and> same_fold True p q"
proof -
  let ?ts = "sort_key t_created_at (map tr_task (ts_rows (pf_tasks p)))" and ?ps = "sort_key pr_created_at (pj_rows (pf_projects p))"
    and ?cs = "sort_key cm_created_at (pf_comments p)"
  have "tasks_ok ?ts" using assms
    by (intro tasks_ok_sort) (simp add: fold_ok_def task_rows_ok_def)
  moreover have ps: "projects_ok ?ps" "keys_distinct cm_id ?cs"
    using assms by (simp_all add: fold_ok_def keys_distinct_def sort_distinct projects_ok_sort)
  moreover have ts: "upsert_all_tasks ?ts [] =
      Inr (map (\<lambda>t. \<lparr>tr_task = t, tr_status_changed_at = None, tr_pipeline = None\<rparr>) ?ts)"
    using restore_tasks [of "[]" ?ts] calculation(1) by simp
  moreover have "pj_rows (fold upsert_project ?ps (pf_projects p0)) = ?ps"
    using restore_projects [of "pf_projects p0" ?ps] ps(1) blank(2) by simp
  moreover have "fold upsert_comment ?cs [] = ?cs" using restore_comments [of "[]" ?cs] ps(2) by simp
  ultimately obtain q where q: "restore_rows (fold_state p) p0 = Inr q" "map tr_task (ts_rows (pf_tasks q)) = ?ts"
      "pj_rows (pf_projects q) = ?ps" "pf_comments q = ?cs"
    by (simp add: restore_rows_def fold_state_def tasks_of_def list_projects_def list_all_comments_def blank comp_def Let_def)
  have ok: "fold_ok q" using q \<open>tasks_ok ?ts\<close> ps by (simp add: fold_ok_def task_rows_ok_def)
  have "find (\<lambda>t. t_id t = i) (map tr_task (ts_rows (pf_tasks q))) = find (\<lambda>t. t_id t = i) (map tr_task (ts_rows (pf_tasks p)))" for i
    using row_get_set [of t_id "map tr_task (ts_rows (pf_tasks q))" "map tr_task (ts_rows (pf_tasks p))" i] ok assms q(2)
    by (simp add: row_get_def fold_ok_def task_rows_ok_def tasks_ok_def keys_distinct_def)
  then have "same_tasks True (ts_rows (pf_tasks p)) (ts_rows (pf_tasks q))"
    using ok assms by (simp add: same_tasks_def fold_ok_def task_view_tasks fun_eq_iff)
  moreover have keys: "keys_distinct pr_id (pj_rows (pf_projects p))" "keys_distinct pr_id (pj_rows (pf_projects q))"
    using ok assms unfolding fold_ok_def projects_ok_def by blast+
  then have "same_projects (pf_projects p) (pf_projects q)"
    using row_get_set [OF keys] q(3) by (simp add: same_projects_def project_get_def fun_eq_iff)
  moreover have "same_comments (pf_comments p) (pf_comments q)"
    using ok assms q(4) row_get_set [of cm_id "pf_comments p" "pf_comments q"]
    by (simp add: same_comments_def fold_ok_def comment_get_def fun_eq_iff)
  ultimately show ?thesis using q(1) ok by (auto simp: same_fold_def)
qed

subsection \<open>A server\<close>

text \<open>
  The log of a server and its snapshots. \<open>sh_all\<close> is every event ever stored, also those a purge removed since. Events
  arrive in batches whose new tasks carry their ids, under ids never used before; a snapshot that fails to fold changes
  nothing.
\<close>

record history =
  sh_log :: event_log
  sh_all :: "event_envelope list"
  sh_snapshots :: "snapshot list"

inductive server_history :: "history \<Rightarrow> bool" where
  start: "server_history \<lparr>sh_log = empty_log, sh_all = [], sh_snapshots = []\<rparr>"
| append: "server_history h \<Longrightarrow> store_append_batch envs (sh_log h) = Inr (out, l) \<Longrightarrow> list_all (names_tasks \<circ> en_payload) envs \<Longrightarrow>
    en_id ` set envs \<inter> en_id ` set (sh_all h) = {} \<Longrightarrow> server_history (h\<lparr>sh_log := l, sh_all := sh_all h @ out\<rparr>)"
| purge: "server_history h \<Longrightarrow> server_history (h\<lparr>sh_log := snd (purge_telemetry_before cutoff (sh_log h))\<rparr>)"
| snapshot: "server_history h \<Longrightarrow> write_if_due fresh i now (sh_log h) min_events (sh_snapshots h) = Inr (seq, ss) \<Longrightarrow>
    server_history (h\<lparr>sh_snapshots := ss\<rparr>)"
| prune: "server_history h \<Longrightarrow> server_history (h\<lparr>sh_snapshots := snd (prune_keep_latest keep (sh_snapshots h))\<rparr>)"

definition up_to :: "nat \<Rightarrow> event_envelope list \<Rightarrow> event_envelope list" where
  "up_to seq es = filter (\<lambda>e. en_seq e \<le> seq) es"

text \<open>A payload that covers the log up to a number: the state of some fold that shows what the fold of that part shows.\<close>

definition covers :: "event_envelope list \<Rightarrow> nat \<Rightarrow> projection_snapshot \<Rightarrow> bool" where
  "covers es seq payload \<longleftrightarrow> (\<forall>fresh. \<exists>p q. fold_state p = payload \<and> fold_ok p \<and>
     fold_events fresh (up_to seq es) empty_fold = Inr q \<and> same_fold True q p)"

definition ends_at :: "nat \<Rightarrow> event_envelope list \<Rightarrow> bool" where
  "ends_at n es \<longleftrightarrow> n = (if es = [] then 0 else en_seq (last es))"

definition history_ok :: "history \<Rightarrow> bool" where
  "history_ok h \<longleftrightarrow> log_ok (sh_log h) \<and> sorted_wrt (<) (map en_seq (sh_all h)) \<and>
     (\<forall>e \<in> set (sh_all h). 0 < en_seq e \<and> en_seq e \<le> latest_seq (sh_log h)) \<and>
     filter domain_event (el_rows (sh_log h)) = filter domain_event (sh_all h) \<and>
     list_all (names_tasks \<circ> en_payload) (sh_all h) \<and> distinct (map en_id (sh_all h)) \<and>
     ends_at (latest_seq (sh_log h)) (sh_all h) \<and> set (el_rows (sh_log h)) \<subseteq> set (sh_all h) \<and>
     (\<forall>s \<in> set (sh_snapshots h). is_consistent s \<longrightarrow> sh_seq s \<le> latest_seq (sh_log h) \<and> covers (sh_all h) (sh_seq s) (sh_payload s))"

lemma same_fold_trans: "same_fold x p q \<Longrightarrow> same_fold x q r \<Longrightarrow> same_fold x p r"
  by (simp add: same_fold_def same_tasks_def same_projects_def same_comments_def)

lemma same_fold_refl: "fold_ok p \<Longrightarrow> same_fold x p p"
  by (simp add: same_fold_def same_tasks_def same_projects_def same_comments_def fold_ok_def projects_ok_def)

lemma up_to_new:
  assumes "\<forall>e \<in> set new. n < en_seq e" "seq \<le> n"
  shows "up_to seq (es @ new) = up_to seq es"
  using assms by (auto simp: up_to_def filter_empty_conv)

lemma latest_snapshot_mem: "latest_snapshot ss = Some s \<Longrightarrow> s \<in> set ss \<and> is_consistent s"
proof -
  assume a: "latest_snapshot ss = Some s"
  then obtain rest where "sort_key (\<lambda>s. - int (sh_seq s)) (filter is_consistent ss) = s # rest"
    by (auto simp: latest_snapshot_def split: list.splits)
  then have "s \<in> set (sort_key (\<lambda>s. - int (sh_seq s)) (filter is_consistent ss))" by simp
  then show ?thesis by simp
qed

lemma up_to_split:
  "sorted_wrt (<) (map en_seq es) \<Longrightarrow> base \<le> target \<Longrightarrow>
   up_to target es = up_to base es @ filter (\<lambda>e. base < en_seq e \<and> en_seq e \<le> target) es"
proof (induction es)
  case (Cons e es)
  show ?case
  proof (cases "en_seq e \<le> base")
    case False
    then have "up_to base es = []" using Cons.prems by (fastforce simp: up_to_def filter_empty_conv)
    then show ?thesis using Cons False by (auto simp: up_to_def)
  qed (use Cons in \<open>auto simp: up_to_def\<close>)
qed (simp add: up_to_def)

text \<open>The fold of a new snapshot, from the base the latest one gives.\<close>

lemma fold_from_base:
  assumes ok: "history_ok h" and new: "fold_new (map_option sh_payload (latest_snapshot (sh_snapshots h))) = Inr p"
    and log: "fold_log fresh (sh_log h) (latest_seq (sh_log h))
      (case latest_snapshot (sh_snapshots h) of Some s \<Rightarrow> sh_seq s | None \<Rightarrow> 0) p = Inr p'"
  shows "covers (sh_all h) (latest_seq (sh_log h)) (fold_state p')"
proof -
  define target where "target = latest_seq (sh_log h)"
  define base where "base = (case latest_snapshot (sh_snapshots h) of Some s \<Rightarrow> sh_seq s | None \<Rightarrow> 0)"
  define part :: "event_envelope list \<Rightarrow> event_envelope list"
    where "part es = filter (\<lambda>e. base < en_seq e \<and> en_seq e \<le> target) es" for es
  have same: "fold_events f (part (el_rows (sh_log h))) = fold_events f (part (sh_all h))" for f
  proof (rule ext)
    fix p
    have swap: "filter domain_event (part es) = part (filter domain_event es)" for es
      by (induction es) (auto simp: part_def)
    have "filter domain_event (el_rows (sh_log h)) = filter domain_event (sh_all h)" using ok by (simp add: history_ok_def)
    then have "filter domain_event (part (el_rows (sh_log h))) = filter domain_event (part (sh_all h))" unfolding swap by simp
    then show "fold_events f (part (el_rows (sh_log h))) p = fold_events f (part (sh_all h)) p"
      using fold_domain by metis
  qed
  have p': "fold_events fresh (part (sh_all h)) p = Inr p'"
    using log fold_log_events [of "sh_log h" fresh target base p] ok same by (simp add: history_ok_def base_def target_def part_def)
  have start: "base \<le> target \<and> fold_ok p \<and>
      (\<forall>f. \<exists>q. fold_events f (up_to base (sh_all h)) empty_fold = Inr q \<and> same_fold True q p)"
  proof (cases "latest_snapshot (sh_snapshots h)")
    case None
    then have "p = empty_fold" "up_to base (sh_all h) = []"
      using new ok by (auto simp: fold_new_def history_ok_def up_to_def filter_empty_conv base_def)
    then show ?thesis using None same_fold_refl [OF empty_fold_ok] by (simp add: empty_fold_ok base_def)
  next
    case (Some s)
    then have s: "s \<in> set (sh_snapshots h)" "is_consistent s" using latest_snapshot_mem by blast+
    then have cov: "covers (sh_all h) (sh_seq s) (sh_payload s)" "sh_seq s \<le> target" using ok by (auto simp: history_ok_def target_def)
    have "\<exists>q. fold_events f (up_to (sh_seq s) (sh_all h)) empty_fold = Inr q \<and> same_fold True q p \<and> fold_ok p" for f
    proof -
      obtain p0 q where q: "fold_state p0 = sh_payload s" "fold_ok p0" "same_fold True q p0"
        "fold_events f (up_to (sh_seq s) (sh_all h)) empty_fold = Inr q" using cov(1) unfolding covers_def by blast
      have "fold_ok p \<and> same_fold True p0 p" using restore_same [OF q(2), of empty_fold] new Some q(1)
        by (simp add: fold_new_def empty_fold_def)
      then show ?thesis using q same_fold_trans by blast
    qed
    then show ?thesis using Some cov(2) by (auto simp: base_def)
  qed
  have "\<exists>q'. fold_events f (up_to target (sh_all h)) empty_fold = Inr q' \<and> same_fold True q' p'" for f
  proof -
    obtain q where q: "fold_events f (up_to base (sh_all h)) empty_fold = Inr q" "same_fold True q p" using start by blast
    have "list_all (names_tasks \<circ> en_payload) (part (sh_all h))" using ok by (auto simp: history_ok_def list_all_iff part_def)
    moreover have "list_all2 (same_event True) es es" for es by (simp add: list_all2_same same_event_def)
    ultimately have "rel_sum (=) (same_fold True) (fold_events f (part (sh_all h)) q) (fold_events fresh (part (sh_all h)) p)"
      using fold_events_same q(2) by blast
    then obtain q' where "fold_events f (part (sh_all h)) q = Inr q'" "same_fold True q' p'"
      using p' by (cases "fold_events f (part (sh_all h)) q") auto
    moreover have "up_to target (sh_all h) = up_to base (sh_all h) @ part (sh_all h)"
      using up_to_split [of "sh_all h" base target] ok start by (simp add: history_ok_def part_def)
    ultimately show ?thesis using q(1) by (simp add: fold_events_append)
  qed
  moreover have "fold_ok p'" using fold_events_ok start p' by blast
  ultimately show ?thesis unfolding covers_def target_def by blast
qed

lemma covers_more:
  assumes "covers es seq payload" "\<forall>e \<in> set new. n < en_seq e" "seq \<le> n"
  shows "covers (es @ new) seq payload"
  using assms(1) unfolding covers_def up_to_new [OF assms(2,3)] .

lemma numbered_from_ids: "map en_id (numbered_from k envs) = map en_id envs"
  by (induction envs arbitrary: k) simp_all

lemma history_append:
  assumes ok: "history_ok h" and app: "store_append_batch envs (sh_log h) = Inr (out, l)" and named: "list_all (names_tasks \<circ> en_payload) envs"
    and ids: "en_id ` set envs \<inter> en_id ` set (sh_all h) = {}"
  shows "history_ok (h\<lparr>sh_log := l, sh_all := sh_all h @ out\<rparr>)"
proof -
  note facts = batch_numbers_consecutive [OF app]
  have seqs: "map en_seq out = [Suc (latest_seq (sh_log h)) ..< Suc (latest_seq l)]" using facts by simp
  then have range: "latest_seq (sh_log h) < en_seq e" "en_seq e \<le> latest_seq l" if "e \<in> set out" for e
    using that by (metis Suc_le_eq atLeastLessThan_iff imageI less_Suc_eq_le list.set_map set_upt)+
  have le: "latest_seq (sh_log h) \<le> latest_seq l" using facts by simp
  have "sorted_wrt (<) (map en_seq (sh_all h) @ map en_seq out)"
    unfolding seqs using ok by (auto simp: sorted_wrt_append history_ok_def simp del: upt_Suc)
  moreover have "list_all (names_tasks \<circ> en_payload) out"
    using named facts by (metis list.pred_map)
  moreover have "covers (sh_all h @ out) (sh_seq s) (sh_payload s)" if "s \<in> set (sh_snapshots h)" "is_consistent s" for s
    using ok that range by (intro covers_more) (auto simp: history_ok_def)
  moreover have "filter domain_event (el_rows l) = filter domain_event (sh_all h @ out)" "log_ok l"
    using facts ok by (simp_all add: history_ok_def)
  moreover have out: "map en_id out = map en_id envs" "out = numbered_from (Suc (latest_seq (sh_log h))) envs"
    using append_chunks_spec [of envs "sh_log h" out l] app numbered_from_ids
    by (auto simp: store_append_batch_def latest_seq_def split: if_splits)
  then have "en_id ` set out \<inter> en_id ` set (sh_all h) = {}" using ids by (metis list.set_map)
  moreover have "distinct (map en_id out)" using \<open>log_ok l\<close> facts by (simp add: log_ok_def)
  moreover have "ends_at (latest_seq l) (sh_all h @ out)"
  proof (cases "out = []")
    case False
    then have "en_seq (last out) = last (map en_seq out)" by (simp add: last_map)
    also have "\<dots> = latest_seq l" unfolding seqs using False seqs by (metis diff_Suc_1 last_upt map_is_Nil_conv upt_eq_Nil_conv not_le)
    finally show ?thesis using False by (simp add: ends_at_def)
  next
    case True
    then show ?thesis using ok facts out by (simp add: history_ok_def)
  qed
  moreover have "0 < en_seq e \<and> en_seq e \<le> latest_seq l" if "e \<in> set (sh_all h @ out)" for e
    using that ok range le by (force simp: history_ok_def)
  moreover have "sh_seq s \<le> latest_seq l" if "s \<in> set (sh_snapshots h)" "is_consistent s" for s
    using ok le that by (fastforce simp: history_ok_def)
  moreover have "list_all (names_tasks \<circ> en_payload) (sh_all h)" "distinct (map en_id (sh_all h))"
    "set (el_rows l) \<subseteq> set (sh_all h @ out)" using ok facts by (auto simp: history_ok_def)
  ultimately show ?thesis unfolding history_ok_def by (auto simp: Int_commute)
qed

lemma history_purge:
  assumes "history_ok h"
  shows "history_ok (h\<lparr>sh_log := snd (purge_telemetry_before cutoff (sh_log h))\<rparr>)"
proof -
  let ?l = "snd (purge_telemetry_before cutoff (sh_log h))"
  obtain P where rows: "el_rows ?l = filter P (el_rows (sh_log h))" "el_high ?l = el_high (sh_log h)"
      "\<And>e. domain_event e \<Longrightarrow> P e"
    by (auto simp: purge_telemetry_before_def Let_def)
  have "log_ok ?l" using assms by (auto simp: history_ok_def log_ok_def rows distinct_map_filter sorted_wrt_map intro: sorted_wrt_filter)
  moreover have "filter domain_event (el_rows ?l) = filter domain_event (el_rows (sh_log h))"
    unfolding rows filter_filter by (rule filter_cong) (auto simp: rows(3))
  moreover have "set (el_rows ?l) \<subseteq> set (el_rows (sh_log h))" unfolding rows by auto
  ultimately show ?thesis using assms rows(2) by (auto simp: history_ok_def latest_seq_def)
qed

lemma history_snapshot:
  assumes ok: "history_ok h" and w: "write_if_due fresh i now (sh_log h) min_events (sh_snapshots h) = Inr (seq, ss)"
  shows "history_ok (h\<lparr>sh_snapshots := ss\<rparr>)"
proof (cases "ss = sh_snapshots h")
  case False
  then obtain p p' where "fold_new (map_option sh_payload (latest_snapshot (sh_snapshots h))) = Inr p"
    "fold_log fresh (sh_log h) (latest_seq (sh_log h))
      (case latest_snapshot (sh_snapshots h) of Some s \<Rightarrow> sh_seq s | None \<Rightarrow> 0) p = Inr p'"
    "ss = insert_snapshot i now (latest_seq (sh_log h)) (fold_state p') (sh_snapshots h)"
    using w by (auto simp: write_if_due_def Let_def bind_result_Inr_iff split: if_splits)
  then show ?thesis using fold_from_base [OF ok] ok by (auto simp: history_ok_def insert_snapshot_def)
qed (use ok in simp)

lemma server_history_ok: "server_history h \<Longrightarrow> history_ok h"
proof (induction rule: server_history.induct)
  case start
  then show ?case by (simp add: history_ok_def log_ok_def empty_log_def ends_at_def latest_seq_def)
next
  case (append h envs out l)
  then show ?case by (intro history_append)
next
  case (purge h cutoff)
  then show ?case by (intro history_purge)
next
  case (snapshot h fresh i now min_events seq ss)
  then show ?case by (intro history_snapshot)
next
  case (prune h keep)
  then show ?case by (simp add: history_ok_def prune_keep_latest_def Let_def)
qed

text \<open>
  C9: every stored snapshot is a consistent cut. The fold of all events up to its number succeeds, whatever purges,
  prunings and earlier snapshots lie behind it, and its payload holds exactly the tasks, projects and comments of that fold.
\<close>

theorem snapshot_is_consistent_cut:
  assumes "server_history h" "s \<in> set (sh_snapshots h)" "is_consistent s"
  shows "\<exists>q. fold_events fresh (filter (\<lambda>e. en_seq e \<le> sh_seq s) (sh_all h)) empty_fold = Inr q \<and>
    set (sp_tasks (sh_payload s)) = set (tasks_of (pf_tasks q)) \<and> set (sp_projects (sh_payload s)) = set (pj_rows (pf_projects q)) \<and>
    set (sp_comments (sh_payload s)) = set (pf_comments q) \<and> sh_seq s \<le> latest_seq (sh_log h)"
proof -
  have ok: "history_ok h" by (rule server_history_ok [OF assms(1)])
  then have "covers (sh_all h) (sh_seq s) (sh_payload s)" "sh_seq s \<le> latest_seq (sh_log h)"
    using assms(2,3) by (auto simp: history_ok_def)
  then obtain p q where q: "fold_state p = sh_payload s" "fold_events fresh (up_to (sh_seq s) (sh_all h)) empty_fold = Inr q"
    "same_fold True q p" unfolding covers_def by blast
  have tasks: "keys_distinct t_id (tasks_of (pf_tasks r))" if "task_rows_ok (ts_rows (pf_tasks r))" for r :: projection_fold
    using that by (simp add: task_rows_ok_def tasks_ok_def keys_distinct_def tasks_of_def)
  have "row_get t_id (tasks_of (pf_tasks r)) i = task_view True (ts_rows (pf_tasks r)) i" for r :: projection_fold and i
    by (cases "find (\<lambda>t. t_id t = i) (map tr_task (ts_rows (pf_tasks r)))")
      (simp_all add: task_view_tasks row_get_def tasks_of_def seen_as_def)
  then have "set (tasks_of (pf_tasks p)) = set (tasks_of (pf_tasks q))"
    using q(3) tasks by (intro set_from_rows [of t_id]) (simp_all add: same_fold_def same_tasks_def fun_eq_iff)
  moreover have "set (pj_rows (pf_projects p)) = set (pj_rows (pf_projects q))"
    using q(3) by (intro set_from_rows [of pr_id]) (simp_all add: same_fold_def same_projects_def project_get_def fun_eq_iff)
  moreover have "set (pf_comments p) = set (pf_comments q)"
    using q(3) by (intro set_from_rows [of cm_id]) (simp_all add: same_fold_def same_comments_def comment_get_def fun_eq_iff)
  ultimately show ?thesis using q(1,2) \<open>sh_seq s \<le> latest_seq (sh_log h)\<close>
    by (auto simp: fold_state_def list_projects_def list_all_comments_def up_to_def simp flip: q(1))
qed

subsection \<open>An example\<close>

definition demo_created :: event_envelope where
  "demo_created = envelope_new 90 5 actor_user (TaskEv (TaskCreated ((new_task ''t'')\<lparr>nt_id := Some 3\<rparr>)))"

definition demo_log_1 :: event_log where
  "demo_log_1 = log_insert demo_created empty_log"

definition demo_snapshots :: "snapshot list" where
  "demo_snapshots = (case write_if_due id 1 10 demo_log_1 1 [] of Inr (_, ss) \<Rightarrow> ss | Inl _ \<Rightarrow> [])"

lemma demo_write: "write_if_due id 1 10 demo_log_1 1 [] = Inr (Some 1, demo_snapshots)"
  by code_simp

lemma demo_history:
  "server_history \<lparr>sh_log = demo_log_1, sh_all = el_rows demo_log_1, sh_snapshots = demo_snapshots\<rparr>"
proof -
  have "store_append_batch [demo_created] empty_log = Inr (el_rows demo_log_1, demo_log_1)"
    by (simp add: store_append_batch_def append_chunks.simps demo_log_1_def demo_created_def CHUNK_def log_accepts_def
        log_insert_def empty_log_def envelope_new_def)
  moreover have "names_tasks (en_payload demo_created)" by (simp add: names_tasks_def demo_created_def envelope_new_def)
  ultimately have "server_history \<lparr>sh_log = demo_log_1, sh_all = el_rows demo_log_1, sh_snapshots = []\<rparr>"
    using server_history.append [OF server_history.start, of "[demo_created]" "el_rows demo_log_1" demo_log_1] by simp
  then show ?thesis using server_history.snapshot [of _ id 1 10 1 "Some 1" demo_snapshots] demo_write by fastforce
qed

theorem snapshot_is_consistent_cut_witness:
  "\<exists>s \<in> set demo_snapshots. map t_id (sp_tasks (sh_payload s)) = [3] \<and>
     (\<exists>q. fold_events id (el_rows demo_log_1) empty_fold = Inr q \<and> t_id ` set (tasks_of (pf_tasks q)) = {3})"
proof -
  have demo: "map sh_seq demo_snapshots = [1]" "list_all is_consistent demo_snapshots"
    "map (map t_id \<circ> sp_tasks \<circ> sh_payload) demo_snapshots = [[3]]"
    "filter (\<lambda>e. en_seq e \<le> 1) (el_rows demo_log_1) = el_rows demo_log_1" by code_simp+
  then obtain s where one: "demo_snapshots = [s]" by (auto simp: map_eq_Cons_conv)
  then have s: "demo_snapshots = [s]" "is_consistent s" "sh_seq s = 1" "map t_id (sp_tasks (sh_payload s)) = [3]"
    using demo(1-3) unfolding one by simp_all
  have mem: "s \<in> set demo_snapshots" unfolding one by simp
  then obtain q where "fold_events id (el_rows demo_log_1) empty_fold = Inr q"
      "set (sp_tasks (sh_payload s)) = set (tasks_of (pf_tasks q))"
    using snapshot_is_consistent_cut [OF demo_history, of s id] s(2,3) demo(4) by auto
  moreover have "t_id ` set (sp_tasks (sh_payload s)) = {3}" using s(4) by (metis list.set(1) list.set_map list.simps(15))
  ultimately show ?thesis using mem s(4) by metis
qed

end
