(* ===== verification/Replica.thy ===== *)
theory Replica
  imports Snapshot_Cut Activity_Store
begin

text \<open>
  The desktop replica: \<^verbatim>\<open>apps/desktop/src/replica.rs\<close>. A device keeps a local log, the replicated projections, its
  activity feed and the cursor into the log of the server (\<^verbatim>\<open>desktop_replica_state\<close>). The server is an argument: what
  its two endpoints answer. A transaction that fails leaves the state as it was. The audit rows of tasks
  (\<^verbatim>\<open>entity_versions\<close>), which a rebuild swaps too, are not part of the state.
\<close>

record replica_source =
  sc_events :: "nat \<Rightarrow> nat \<Rightarrow> event_envelope list result"
  sc_snapshot :: "snapshot option result"

record replica =
  rp_log :: event_log
  rp_rows :: projection_fold
  rp_activity :: activity_table
  rp_server_seq :: nat
  rp_baseline_verified :: bool
  rp_projections_verified :: bool
  rp_order_verified :: bool
  rp_ordered_local_seq :: nat
  rp_unprojected :: "uuid list"
  rp_unechoed :: "uuid list"

record device_env =
  de_fresh :: "nat \<Rightarrow> uuid"
  de_feed :: feed_env

record catch_up_stats =
  cu_fetched :: nat
  cu_applied :: nat
  cu_server_seq :: nat

definition LOCAL_LOG_PAGE_SIZE :: nat where
  "LOCAL_LOG_PAGE_SIZE = 1000"

definition baseline_verified :: "replica \<Rightarrow> bool" where
  "baseline_verified rp \<longleftrightarrow> rp_baseline_verified rp \<and> rp_projections_verified rp \<and> rp_order_verified rp"

definition advance_server_seq :: "nat \<Rightarrow> replica \<Rightarrow> replica" where
  "advance_server_seq seq rp = rp\<lparr>rp_server_seq := max (rp_server_seq rp) seq\<rparr>"

definition mark_verified_baseline :: "nat \<Rightarrow> replica \<Rightarrow> replica" where
  "mark_verified_baseline seq rp = rp\<lparr>rp_server_seq := seq, rp_baseline_verified := True, rp_projections_verified := True,
     rp_order_verified := True, rp_ordered_local_seq := 0\<rparr>"

text \<open>
  \<^verbatim>\<open>ensure_schema\<close>: a column that an older version of the program did not have is added with the default 0, which reads
  as unverified.
\<close>

definition ensure_schema :: "string list \<Rightarrow> replica \<Rightarrow> replica" where
  "ensure_schema present rp = rp
     \<lparr>rp_baseline_verified := (''baseline_verified'' \<in> set present \<and> rp_baseline_verified rp),
      rp_projections_verified := (''projections_verified'' \<in> set present \<and> rp_projections_verified rp),
      rp_order_verified := (''order_verified'' \<in> set present \<and> rp_order_verified rp),
      rp_ordered_local_seq := (if ''ordered_local_seq'' \<in> set present then rp_ordered_local_seq rp else 0)\<rparr>"

subsection \<open>One event of the server\<close>

definition same_subject :: "event \<Rightarrow> event \<Rightarrow> bool" where
  "same_subject a b \<longleftrightarrow>
     (event_target_task a \<noteq> None \<and> event_target_task a = event_target_task b) \<or>
     (event_target_project a \<noteq> None \<and> event_target_project a = event_target_project b)"

text \<open>The search of \<^verbatim>\<open>overtaken\<close>, page by page from the echo on.\<close>

function overtaken_from :: "event_log \<Rightarrow> uuid list \<Rightarrow> event \<Rightarrow> nat \<Rightarrow> nat \<Rightarrow> bool" where
  "overtaken_from l unechoed subject ordered local_seq =
     (if local_seq < ordered
      then let page = load_since l local_seq LOCAL_LOG_PAGE_SIZE in
           if page = [] then False
           else list_ex (\<lambda>e. en_seq e \<le> ordered \<and> same_subject subject (en_payload e) \<and> en_id e \<notin> set unechoed) page \<or>
                overtaken_from l unechoed subject ordered (en_seq (last page))
      else False)"
  by pat_completeness auto

termination
proof (relation "measure (\<lambda>(l, u, s, ordered, local_seq). ordered - local_seq)", goal_cases)
  case (2 l u s ordered local_seq page)
  then have "last page \<in> set (load_since l local_seq LOCAL_LOG_PAGE_SIZE)" using last_in_set by auto
  then have "local_seq < en_seq (last page)" using set_load_since by blast
  then show ?case using 2 by simp
qed simp

declare overtaken_from.simps [simp del]

definition overtaken :: "replica \<Rightarrow> event_envelope \<Rightarrow> bool" where
  "overtaken rp echo = overtaken_from (rp_log rp) (rp_unechoed rp) (en_payload echo) (rp_ordered_local_seq rp) (en_seq echo)"

text \<open>
  \<^verbatim>\<open>apply_remote_event\<close>: whether the event was new, and the state after its transaction. An event the log has is an
  echo or a retry: it only settles the order. Any other one is logged and projected.
\<close>

definition settle_echo :: "nat \<Rightarrow> event_envelope \<Rightarrow> replica \<Rightarrow> replica" where
  "settle_echo server_seq echo rp =
     (let ahead = rp_server_seq rp < server_seq;
          order = (if ahead \<and> rp_order_verified rp \<and> overtaken rp echo then False else rp_order_verified rp)
      in (advance_server_seq server_seq rp)
           \<lparr>rp_order_verified := order, rp_unechoed := filter (\<lambda>i. i \<noteq> en_id echo) (rp_unechoed rp),
            rp_ordered_local_seq := max (rp_ordered_local_seq rp) (if ahead then en_seq echo else 0)\<rparr>)"

definition log_and_project :: "device_env \<Rightarrow> event_envelope \<Rightarrow> replica \<Rightarrow> replica result" where
  "log_and_project de env rp =
     bind_result (append_on (env\<lparr>en_seq := 0\<rparr>) (rp_log rp)) (\<lambda>(persisted, l).
     bind_result (fold_apply (de_fresh de) persisted (rp_rows rp)) (\<lambda>rows.
       Inr ((advance_server_seq (en_seq env) rp)
         \<lparr>rp_log := l, rp_rows := rows, rp_activity := feed_step (de_feed de) persisted (rp_activity rp),
          rp_ordered_local_seq := max (rp_ordered_local_seq rp) (en_seq persisted)\<rparr>)))"

definition apply_remote_event :: "device_env \<Rightarrow> event_envelope \<Rightarrow> replica \<Rightarrow> (bool \<times> replica) result" where
  "apply_remote_event de env rp =
     (case load_by_id (rp_log rp) (en_id env) of
        Some echo \<Rightarrow> Inr (False, settle_echo (en_seq env) echo rp)
      | None \<Rightarrow> bind_result (log_and_project de env rp) (\<lambda>rp'. Inr (True, rp')))"

text \<open>The first failure ends the batch; what went before it stays.\<close>

fun apply_remote_loop :: "device_env \<Rightarrow> event_envelope list \<Rightarrow> catch_up_stats \<Rightarrow> replica \<Rightarrow> catch_up_stats result \<times> replica" where
  "apply_remote_loop de [] stats rp = (Inr stats, rp)"
| "apply_remote_loop de (env # envs) stats rp =
     (case apply_remote_event de env rp of
        Inl e \<Rightarrow> (Inl e, rp)
      | Inr (fresh, rp') \<Rightarrow>
          apply_remote_loop de envs (stats\<lparr>cu_applied := cu_applied stats + (if fresh then 1 else 0),
            cu_server_seq := max (cu_server_seq stats) (en_seq env)\<rparr>) rp')"

definition apply_remote_events :: "device_env \<Rightarrow> event_envelope list \<Rightarrow> replica \<Rightarrow> catch_up_stats result \<times> replica" where
  "apply_remote_events de envs rp =
     apply_remote_loop de envs \<lparr>cu_fetched = length envs, cu_applied = 0, cu_server_seq = rp_server_seq rp\<rparr> rp"

subsection \<open>Snapshots\<close>

definition bootstrap_from_snapshot :: "snapshot \<Rightarrow> replica \<Rightarrow> replica result" where
  "bootstrap_from_snapshot s rp =
     bind_result (restore_rows (sh_payload s) (rp_rows rp)) (\<lambda>rows.
       Inr (mark_verified_baseline (sh_seq s) (rp\<lparr>rp_rows := rows\<rparr>)))"

subsection \<open>The rebuild\<close>

text \<open>
  The log of the server up to the cursor, folded on the side, with the ids it holds. The server may answer anything, so
  the loop gets fuel; \<open>None\<close> is a loop that did not end within it.
\<close>

fun fold_server_log ::
  "nat \<Rightarrow> device_env \<Rightarrow> replica_source \<Rightarrow> nat \<Rightarrow> nat \<Rightarrow> nat \<Rightarrow> uuid list \<Rightarrow> projection_fold \<Rightarrow>
   (uuid list \<times> projection_fold) result option" where
  "fold_server_log 0 de src limit cursor since ids p = (if since < cursor then None else Some (Inr (ids, p)))"
| "fold_server_log (Suc fuel) de src limit cursor since ids p =
     (if \<not> since < cursor then Some (Inr (ids, p))
      else case sc_events src since limit of
             Inl e \<Rightarrow> Some (Inl e)
           | Inr page \<Rightarrow>
               if page = [] then Some (Inr (ids, p))
               else let mine = filter (\<lambda>e. en_seq e \<le> cursor) page in
                    case fold_events (de_fresh de) mine p of
                      Inl e \<Rightarrow> Some (Inl e)
                    | Inr p' \<Rightarrow> fold_server_log fuel de src limit cursor (en_seq (last page)) (map en_id mine @ ids) p')"

text \<open>The local log from a position on, read page by page until a page is empty.\<close>

function read_log :: "nat \<Rightarrow> event_log \<Rightarrow> nat \<Rightarrow> event_envelope list" where
  "read_log n l since =
     (let page = load_since l since n in if page = [] then [] else page @ read_log n l (en_seq (last page)))"
  by pat_completeness auto

termination
proof (relation "measure (\<lambda>(n, l, since). length (filter (\<lambda>e. since < en_seq e) (el_rows l)))", goal_cases)
  case (2 n l since page)
  then have last: "last page \<in> set (el_rows l)" "since < en_seq (last page)"
    using set_load_since [of "last page" l since n] last_in_set [of page] by auto
  have "filter (\<lambda>e. en_seq (last page) < en_seq e) (el_rows l) =
      filter (\<lambda>e. en_seq (last page) < en_seq e) (filter (\<lambda>e. since < en_seq e) (el_rows l))"
    using last(2) by (auto intro!: filter_cong)
  also have "length \<dots> < length (filter (\<lambda>e. since < en_seq e) (el_rows l))"
    using last by (intro length_filter_less [of "last page"]) auto
  finally show ?case by simp
qed simp

declare read_log.simps [simp del]

definition fold_local_only ::
  "device_env \<Rightarrow> uuid list \<Rightarrow> event_log \<Rightarrow> nat \<Rightarrow> projection_fold \<Rightarrow> (nat \<times> projection_fold) result" where
  "fold_local_only de server_ids l local_seq p =
     (let envs = read_log LOCAL_LOG_PAGE_SIZE l local_seq in
      bind_result (fold_events (de_fresh de) (filter (\<lambda>e. en_id e \<notin> set server_ids) envs) p) (\<lambda>p'.
        Inr (if envs = [] then local_seq else en_seq (last envs), p')))"

text \<open>The rows become those of the fold: what it lacks is deleted, the rest is written over, so that a task keeps its other columns.\<close>

definition replace_projections :: "projection_snapshot \<Rightarrow> projection_fold \<Rightarrow> projection_fold result" where
  "replace_projections payload p =
     (let tasks = filter (\<lambda>r. row_id r \<in> t_id ` set (sp_tasks payload)) (ts_rows (pf_tasks p));
          dropped = (\<lambda>i. i \<in> row_id ` set (ts_rows (pf_tasks p)) \<and> i \<notin> t_id ` set (sp_tasks payload));
          kept = (\<lambda>i. i \<in> pr_id ` set (sp_projects payload));
          projects = drop_roots (\<lambda>i. i \<in> pr_id ` set (pj_rows (pf_projects p)) \<and> \<not> kept i)
            ((pf_projects p)\<lparr>pj_rows := filter (\<lambda>q. kept (pr_id q)) (pj_rows (pf_projects p))\<rparr>)
      in restore_rows payload
           \<lparr>pf_tasks = \<lparr>ts_rows = tasks, ts_due_notifications = filter (\<lambda>(i, _, _). \<not> dropped i) (ts_due_notifications (pf_tasks p))\<rparr>,
            pf_projects = projects, pf_comments = []\<rparr>)"

definition replace_activity :: "device_env \<Rightarrow> event_log \<Rightarrow> activity_table" where
  "replace_activity de l = feed_log (de_feed de) (read_log LOCAL_LOG_PAGE_SIZE l 0) []"

text \<open>The write transaction of the rebuild, on the state it finds.\<close>

definition rebuild_commit ::
  "device_env \<Rightarrow> nat \<Rightarrow> uuid list \<Rightarrow> nat \<Rightarrow> projection_fold \<Rightarrow> replica \<Rightarrow> replica result" where
  "rebuild_commit de cursor server_ids local_seq p rp =
     (if baseline_verified rp then Inr rp
      else bind_result (fold_local_only de server_ids (rp_log rp) local_seq p) (\<lambda>(_, p').
           bind_result (replace_projections (fold_state p') (rp_rows rp)) (\<lambda>rows.
             let done = mark_verified_baseline (max (rp_server_seq rp) cursor)
                   (rp\<lparr>rp_rows := rows, rp_activity := replace_activity de (rp_log rp), rp_unprojected := []\<rparr>)
             in Inr (if cursor < rp_server_seq rp then done\<lparr>rp_order_verified := False\<rparr> else done))))"

text \<open>
  \<open>others\<close> is what other processes of the device do between the reads and the transaction. A sync below runs alone:
  it takes \<open>id\<close>.
\<close>

definition rebuild_from_log ::
  "nat \<Rightarrow> device_env \<Rightarrow> replica_source \<Rightarrow> nat \<Rightarrow> (replica \<Rightarrow> replica) \<Rightarrow> replica \<Rightarrow> (nat result \<times> replica) option" where
  "rebuild_from_log fuel de src limit others rp =
     (case fold_server_log fuel de src limit (rp_server_seq rp) 0 [] empty_fold of
        None \<Rightarrow> None
      | Some (Inl e) \<Rightarrow> Some (Inl e, rp)
      | Some (Inr (ids, p)) \<Rightarrow>
          if 0 < rp_server_seq rp \<and> ids = [] then Some (Inl (Sync ''server log is empty but the replica cursor is at ''), rp)
          else case fold_local_only de ids (rp_log rp) 0 p of
                 Inl e \<Rightarrow> Some (Inl e, rp)
               | Inr (local_seq, p') \<Rightarrow>
                   (case rebuild_commit de (rp_server_seq rp) ids local_seq p' (others rp) of
                      Inl e \<Rightarrow> Some (Inl e, others rp)
                    | Inr rp' \<Rightarrow> Some (Inr (card (set ids)), rp')))"

subsection \<open>Catching up\<close>

definition note_unprojected :: "replica \<Rightarrow> replica" where
  "note_unprojected rp = (if rp_unprojected rp \<noteq> [] then rp\<lparr>rp_projections_verified := False\<rparr> else rp)"

definition bootstrap :: "replica_source \<Rightarrow> replica \<Rightarrow> replica result" where
  "bootstrap src rp =
     (if rp_server_seq rp \<noteq> 0 then Inr rp
      else bind_result (sc_snapshot src) (\<lambda>s.
             case s of
               Some s \<Rightarrow> if is_consistent s then bootstrap_from_snapshot s rp else Inr (mark_verified_baseline 0 rp)
             | None \<Rightarrow> Inr (mark_verified_baseline 0 rp)))"

definition holds_events :: "replica \<Rightarrow> bool" where
  "holds_events rp \<longleftrightarrow> 0 < rp_server_seq rp \<or> 0 < latest_seq (rp_log rp)"

definition repair ::
  "nat \<Rightarrow> device_env \<Rightarrow> replica_source \<Rightarrow> nat \<Rightarrow> replica \<Rightarrow> (nat result \<times> replica) option" where
  "repair fuel de src limit rp =
     (if \<not> baseline_verified rp \<and> holds_events rp
      then rebuild_from_log fuel de src limit id rp else Some (Inr 0, rp))"

definition catch_up ::
  "nat \<Rightarrow> device_env \<Rightarrow> replica_source \<Rightarrow> nat \<Rightarrow> replica \<Rightarrow> (catch_up_stats result \<times> replica) option" where
  "catch_up fuel de src limit rp0 =
     (case repair fuel de src limit (note_unprojected rp0) of
        None \<Rightarrow> None
      | Some (Inl e, rp) \<Rightarrow> Some (Inl e, rp)
      | Some (Inr repaired, rp1) \<Rightarrow>
          (case bootstrap src rp1 of
             Inl e \<Rightarrow> Some (Inl e, rp1)
           | Inr rp2 \<Rightarrow>
               (case sc_events src (rp_server_seq rp2) limit of
                  Inl e \<Rightarrow> Some (Inl e, rp2)
                | Inr events \<Rightarrow>
                    (case apply_remote_events de events rp2 of
                       (Inl e, rp3) \<Rightarrow> Some (Inl e, rp3)
                     | (Inr stats, rp3) \<Rightarrow>
                         if baseline_verified rp3 then Some (Inr (stats\<lparr>cu_fetched := cu_fetched stats + repaired\<rparr>), rp3)
                         else case rebuild_from_log fuel de src limit id rp3 of
                                None \<Rightarrow> None
                              | Some (Inl e, rp4) \<Rightarrow> Some (Inl e, rp4)
                              | Some (Inr reordered, rp4) \<Rightarrow>
                                  Some (Inr (stats\<lparr>cu_fetched := cu_fetched stats + (repaired + reordered)\<rparr>), rp4)))))"

end
