(* ===== verification/Outbox.thy ===== *)
theory Outbox
  imports Replica
begin

text \<open>
  The outbox of a device: \<^verbatim>\<open>apps/desktop/src/outbox.rs\<close>, the flush loop \<^verbatim>\<open>apps/desktop/src/flush.rs\<close> and the local
  executor. A local command writes its events to the log and to the queue in one transaction; the flush carries the
  queue to the server. Ids of devices compare as their texts do; here they compare as numbers, which only matters
  between two events with one log position.
\<close>

subsection \<open>State\<close>

record outbox_row =
  ob_id :: nat
  ob_device :: uuid
  ob_seq :: nat
  ob_envelope :: event_envelope
  ob_flushed_at :: "timestamp option"

record rejected_row =
  oj_outbox_id :: nat
  oj_status :: nat
  oj_code :: string

record outbox =
  ox_rows :: "outbox_row list"
  ox_high :: nat
  ox_rejected :: "rejected_row list"
  ox_device_id :: uuid
  ox_log_checked :: bool
  ox_unconfirmed :: "uuid list"
  ox_no_owner :: bool

record device_state =
  dv_replica :: replica
  dv_outbox :: outbox

definition rejected_ids :: "outbox \<Rightarrow> nat list" where
  "rejected_ids ox = map oj_outbox_id (ox_rejected ox)"

subsection \<open>Whose data it is\<close>

definition note_if_empty :: "device_state \<Rightarrow> device_state" where
  "note_if_empty d =
     (let rp = dv_replica d; ox = dv_outbox d in
      if rp_server_seq rp = 0 \<and> el_rows (rp_log rp) = [] \<and> ts_rows (pf_tasks (rp_rows rp)) = [] \<and>
         pj_rows (pf_projects (rp_rows rp)) = [] \<and> ox_rows ox = [] \<and> ox_rejected ox = []
      then d\<lparr>dv_outbox := ox\<lparr>ox_no_owner := True\<rparr>\<rparr> else d)"

definition note_owner :: "device_state \<Rightarrow> device_state" where
  "note_owner d = d\<lparr>dv_outbox := (dv_outbox d)\<lparr>ox_no_owner := False\<rparr>\<rparr>"

definition has_unknown_past :: "device_state \<Rightarrow> bool" where
  "has_unknown_past d \<longleftrightarrow> \<not> ox_no_owner (dv_outbox d) \<or> 0 < rp_server_seq (dv_replica d) \<or>
     list_ex (\<lambda>r. ob_flushed_at r \<noteq> None) (ox_rows (dv_outbox d)) \<or> ox_rejected (dv_outbox d) \<noteq> []"

subsection \<open>Queueing\<close>

definition enqueue_on :: "uuid \<Rightarrow> nat \<Rightarrow> event_envelope \<Rightarrow> outbox \<Rightarrow> bool \<times> outbox" where
  "enqueue_on device seq env ox =
     (if list_ex (\<lambda>r. ob_device r = device \<and> ob_seq r = seq) (ox_rows ox) then (False, ox)
      else (True, ox\<lparr>ox_high := Suc (ox_high ox), ox_rows := ox_rows ox @
        [\<lparr>ob_id = Suc (ox_high ox), ob_device = device, ob_seq = seq,
          ob_envelope = env\<lparr>en_origin_device_id := Some device, en_origin_seq := seq\<rparr>, ob_flushed_at = None\<rparr>]\<rparr>))"

definition next_origin_seq :: "uuid \<Rightarrow> outbox \<Rightarrow> nat" where
  "next_origin_seq device ox =
     (case map ob_seq (filter (\<lambda>r. ob_device r = device) (ox_rows ox)) of [] \<Rightarrow> 0 | n # ns \<Rightarrow> fold max ns n) + 1"

definition enqueue_next :: "uuid \<Rightarrow> event_envelope \<Rightarrow> outbox \<Rightarrow> outbox result" where
  "enqueue_next device env ox =
     (case enqueue_on device (next_origin_seq device ox) env ox of
        (True, ox') \<Rightarrow> Inr ox'
      | (False, _) \<Rightarrow> Inl (Storage ''outbox already holds ''))"

text \<open>\<^verbatim>\<open>OutboundStore::append_batch\<close>: one transaction.\<close>

fun outbound_append :: "event_envelope list \<Rightarrow> device_state \<Rightarrow> (event_envelope list \<times> device_state) result" where
  "outbound_append [] d = Inr ([], d)"
| "outbound_append (env # envs) d =
     bind_result (append_on env (rp_log (dv_replica d))) (\<lambda>(event, l).
     bind_result (enqueue_next (ox_device_id (dv_outbox d)) event (dv_outbox d)) (\<lambda>ox.
     if en_id event \<in> set (rp_unprojected (dv_replica d)) \<or> en_id event \<in> set (rp_unechoed (dv_replica d))
     then Inl (Storage ''UNIQUE constraint failed'')
     else bind_result (outbound_append envs
            \<lparr>dv_replica = (dv_replica d)\<lparr>rp_log := l, rp_unprojected := rp_unprojected (dv_replica d) @ [en_id event],
                            rp_unechoed := rp_unechoed (dv_replica d) @ [en_id event]\<rparr>,
             dv_outbox = ox\<rparr>) (\<lambda>(events, d'). Inr (event # events, d'))))"

definition mark_projected :: "event_envelope list \<Rightarrow> device_state \<Rightarrow> device_state" where
  "mark_projected events d =
     d\<lparr>dv_replica := (dv_replica d)\<lparr>rp_unprojected := filter (\<lambda>i. i \<notin> en_id ` set events) (rp_unprojected (dv_replica d))\<rparr>\<rparr>"

subsection \<open>Reading the queue\<close>

definition pending_rows :: "outbox \<Rightarrow> outbox_row list" where
  "pending_rows ox =
     sort_key (\<lambda>r. en_seq (ob_envelope r)) (sort_key ob_device (sort_key ob_seq
       (filter (\<lambda>r. ob_flushed_at r = None \<and> ob_id r \<notin> set (rejected_ids ox)) (ox_rows ox))))"

definition pending :: "nat \<Rightarrow> outbox \<Rightarrow> outbox_row list" where
  "pending limit ox = take (max limit 1) (pending_rows ox)"

text \<open>
  The events on record in log order; a record without an event is not in the join. \<^verbatim>\<open>held_tasks\<close> reads each of them
  again; nothing deletes from the log of a device, so that read finds it.
\<close>

definition unconfirmed_events :: "device_state \<Rightarrow> event_envelope list" where
  "unconfirmed_events d =
     sort_key en_seq (List.map_filter (load_by_id (rp_log (dv_replica d))) (ox_unconfirmed (dv_outbox d)))"

text \<open>The task of each held event, with the position of its first one.\<close>

definition held_tasks :: "device_state \<Rightarrow> (uuid \<times> nat) list" where
  "held_tasks d = List.map_filter (\<lambda>e. map_option (\<lambda>t. (t, en_seq e)) (event_target_task (en_payload e))) (unconfirmed_events d)"

definition waits_for_held :: "(uuid \<times> nat) list \<Rightarrow> outbox_row \<Rightarrow> bool" where
  "waits_for_held held r =
     (case Option.bind (event_target_task (en_payload (ob_envelope r))) (map_of held) of
        Some first \<Rightarrow> first < en_seq (ob_envelope r)
      | None \<Rightarrow> False)"

definition sendable :: "nat \<Rightarrow> device_state \<Rightarrow> outbox_row list" where
  "sendable limit d =
     (let held = held_tasks d in
      if held = [] then pending limit (dv_outbox d)
      else take (max limit 1) (filter (\<lambda>r. \<not> waits_for_held held r) (pending_rows (dv_outbox d))))"

definition held_back :: "device_state \<Rightarrow> nat" where
  "held_back d = length (filter (waits_for_held (held_tasks d)) (pending_rows (dv_outbox d)))"

subsection \<open>Settling an entry\<close>

definition mark_flushed :: "timestamp \<Rightarrow> nat \<Rightarrow> outbox \<Rightarrow> bool \<times> outbox" where
  "mark_flushed now i ox =
     (list_ex (\<lambda>r. ob_id r = i \<and> ob_flushed_at r = None) (ox_rows ox),
      ox\<lparr>ox_rows := map (\<lambda>r. if ob_id r = i \<and> ob_flushed_at r = None then r\<lparr>ob_flushed_at := Some now\<rparr> else r) (ox_rows ox)\<rparr>)"

definition mark_rejected :: "nat \<Rightarrow> nat \<Rightarrow> string \<Rightarrow> outbox \<Rightarrow> outbox" where
  "mark_rejected i status code ox =
     (if i \<in> set (rejected_ids ox) then ox
      else ox\<lparr>ox_rejected := ox_rejected ox @ [\<lparr>oj_outbox_id = i, oj_status = status, oj_code = code\<rparr>]\<rparr>)"

definition requeue_rejected :: "outbox \<Rightarrow> nat \<times> outbox" where
  "requeue_rejected ox = (length (ox_rejected ox), ox\<lparr>ox_rejected := []\<rparr>)"

definition rejected_count :: "outbox \<Rightarrow> nat" where
  "rejected_count ox = length (ox_rejected ox)"

subsection \<open>The flush\<close>

datatype push_outcome =
    Accepted
  | Rejected nat string

record flush_stats =
  fs_attempted :: nat
  fs_flushed :: nat
  fs_rejected :: nat

fun flush_rows ::
  "timestamp \<Rightarrow> (event_envelope \<Rightarrow> push_outcome result) \<Rightarrow> outbox_row list \<Rightarrow> flush_stats \<Rightarrow> outbox \<Rightarrow> flush_stats result \<times> outbox" where
  "flush_rows now push [] stats ox = (Inr stats, ox)"
| "flush_rows now push (r # rs) stats ox =
     (case push (ob_envelope r) of
        Inl e \<Rightarrow> (Inl e, ox)
      | Inr Accepted \<Rightarrow>
          (case mark_flushed now (ob_id r) ox of
             (new, ox') \<Rightarrow> flush_rows now push rs (stats\<lparr>fs_flushed := fs_flushed stats + (if new then 1 else 0)\<rparr>) ox')
      | Inr (Rejected status code) \<Rightarrow>
          flush_rows now push rs (stats\<lparr>fs_rejected := fs_rejected stats + 1\<rparr>) (mark_rejected (ob_id r) status code ox))"

definition flush_pending ::
  "timestamp \<Rightarrow> (event_envelope \<Rightarrow> push_outcome result) \<Rightarrow> nat \<Rightarrow> device_state \<Rightarrow> flush_stats result \<times> device_state" where
  "flush_pending now push limit d =
     (let rows = sendable limit d in
      case flush_rows now push rows \<lparr>fs_attempted = length rows, fs_flushed = 0, fs_rejected = 0\<rparr> (dv_outbox d) of
        (r, ox) \<Rightarrow> (r, d\<lparr>dv_outbox := ox\<rparr>))"

text \<open>What the transport makes of an answer of the server (\<^verbatim>\<open>HttpReplicaSink::push\<close>): its status and its error code.\<close>

definition EVENT_REJECTION_CODES :: "string list" where
  "EVENT_REJECTION_CODES = [''intake_source_admin_only'']"

definition push_answer :: "nat \<Rightarrow> string \<Rightarrow> push_outcome result" where
  "push_answer status code =
     (if 200 \<le> status \<and> status < 300 then Inr Accepted
      else if 400 \<le> status \<and> status < 500 \<and> code \<in> set EVENT_REJECTION_CODES then Inr (Rejected status code)
      else Inl (Sync ''replica flush failed with ''))"

subsection \<open>Events of an older binary\<close>

definition OLD_BINARY_KINDS :: "string list" where
  "OLD_BINARY_KINDS = [''task_created'', ''task_status_changed'', ''task_completed'', ''task_closed'', ''task_deleted'']"

definition lost_candidates :: "nat \<Rightarrow> device_state \<Rightarrow> uuid list" where
  "lost_candidates local_tip d =
     map en_id (sort_key en_seq (filter (\<lambda>e. en_seq e \<le> local_tip \<and> en_origin_device_id e = None \<and> en_actor e = actor_user \<and>
       envelope_kind e \<in> set OLD_BINARY_KINDS \<and> en_id e \<notin> (en_id \<circ> ob_envelope) ` set (ox_rows (dv_outbox d)))
       (el_rows (rp_log (dv_replica d)))))"

text \<open>All ids of the server log; \<open>None\<close> when its answers do not end within the fuel.\<close>

fun server_ids_from :: "nat \<Rightarrow> replica_source \<Rightarrow> nat \<Rightarrow> nat \<Rightarrow> uuid list \<Rightarrow> uuid list result option" where
  "server_ids_from 0 src limit since ids = None"
| "server_ids_from (Suc fuel) src limit since ids =
     (case sc_events src since limit of
        Inl e \<Rightarrow> Some (Inl e)
      | Inr page \<Rightarrow> if page = [] then Some (Inr ids)
                    else server_ids_from fuel src limit (en_seq (last page)) (map en_id page @ ids))"

definition server_event_ids :: "nat \<Rightarrow> replica_source \<Rightarrow> nat \<Rightarrow> nat \<Rightarrow> uuid list result option" where
  "server_event_ids fuel src limit cursor =
     map_option (\<lambda>r. bind_result r (\<lambda>ids.
       if 0 < cursor \<and> ids = [] then Inl (Sync ''server log is empty but the replica cursor is at '') else Inr ids))
       (server_ids_from fuel src limit 0 [])"

definition log_tip :: "event_log \<Rightarrow> nat" where
  "log_tip l = fold max (map en_seq (el_rows l)) 0"

text \<open>\<open>others\<close> is what other processes of the device do between the reads and the transaction.\<close>

definition find_lost ::
  "nat \<Rightarrow> replica_source \<Rightarrow> nat \<Rightarrow> (device_state \<Rightarrow> device_state) \<Rightarrow> device_state \<Rightarrow> (unit result \<times> device_state) option" where
  "find_lost fuel src limit others d =
     (if ox_log_checked (dv_outbox d) then Some (Inr (), d)
      else let tip = log_tip (rp_log (dv_replica d)) in
           case (if lost_candidates tip d = [] then Some (Inr [])
                 else server_event_ids fuel src limit (rp_server_seq (dv_replica d))) of
             None \<Rightarrow> None
           | Some (Inl e) \<Rightarrow> Some (Inl e, d)
           | Some (Inr ids) \<Rightarrow>
               let d' = others d;
                   lost = filter (\<lambda>i. i \<notin> set ids \<and> i \<notin> set (ox_unconfirmed (dv_outbox d'))) (lost_candidates tip d')
               in Some (Inr (), d'\<lparr>dv_outbox := (dv_outbox d')
                    \<lparr>ox_unconfirmed := ox_unconfirmed (dv_outbox d') @ lost, ox_log_checked := True\<rparr>\<rparr>))"

fun enqueue_all :: "uuid \<Rightarrow> event_envelope list \<Rightarrow> outbox \<Rightarrow> outbox result" where
  "enqueue_all device [] ox = Inr ox"
| "enqueue_all device (e # es) ox = bind_result (enqueue_next device e ox) (enqueue_all device es)"

definition restore_lost ::
  "nat \<Rightarrow> replica_source \<Rightarrow> nat \<Rightarrow> (device_state \<Rightarrow> device_state) \<Rightarrow> device_state \<Rightarrow> (nat result \<times> device_state) option" where
  "restore_lost fuel src limit others d =
     (if unconfirmed_events d = [] then Some (Inr 0, d)
      else case server_event_ids fuel src limit (rp_server_seq (dv_replica d)) of
             None \<Rightarrow> None
           | Some (Inl e) \<Rightarrow> Some (Inl e, d)
           | Some (Inr ids) \<Rightarrow>
               let d' = others d; lost = filter (\<lambda>e. en_id e \<notin> set ids) (unconfirmed_events d')
               in case enqueue_all (ox_device_id (dv_outbox d')) lost (dv_outbox d') of
                    Inl e \<Rightarrow> Some (Inl e, d')
                  | Inr ox \<Rightarrow> Some (Inr (length lost), d'\<lparr>dv_outbox := ox\<lparr>ox_unconfirmed := []\<rparr>\<rparr>))"

end
