(* ===== verification/Replica_Repair.thy ===== *)
theory Replica_Repair
  imports Replica
begin

text \<open>
  The repair of a device: what a rebuild leaves. The rows a snapshot replaces may be anything; when the swap succeeds they
  show exactly the fold.
\<close>

subsection \<open>The swap of the rows\<close>

definition rows_ok :: "projection_fold \<Rightarrow> bool" where
  "rows_ok p \<longleftrightarrow> task_rows_ok (ts_rows (pf_tasks p)) \<and> keys_distinct pr_id (pj_rows (pf_projects p)) \<and>
     keys_distinct cm_id (pf_comments p)"

lemma same_fold_rows_ok: "same_fold x p q \<Longrightarrow> rows_ok q"
  by (simp add: same_fold_def same_tasks_def same_projects_def same_comments_def rows_ok_def)

lemma fold_rows_ok: "fold_ok p \<Longrightarrow> rows_ok p"
  by (simp add: fold_ok_def rows_ok_def projects_ok_def)

lemma upsert_all_view:
  assumes "upsert_all_tasks ts rows = Inr rows'" "task_rows_ok rows" "distinct (map t_id ts)"
  shows "task_rows_ok rows' \<and> (\<forall>i. task_view True rows' i =
    (case find (\<lambda>t. t_id t = i) ts of Some t \<Rightarrow> Some t | None \<Rightarrow> task_view True rows i))"
  using assms
proof (induction ts arbitrary: rows)
  case (Cons t ts)
  obtain rows1 where one: "upsert_task t rows = Inr rows1" "upsert_all_tasks ts rows1 = Inr rows'"
    using Cons.prems(1) by (auto simp: bind_result_Inr_iff)
  have "task_view True rows1 = (task_view True rows)(t_id t \<mapsto> t)"
    using upsert_view [OF one(1), of True] by (simp add: seen_as_def)
  moreover have "find (\<lambda>u. t_id u = t_id t) ts = None" using Cons.prems(3) unfolding find_None_iff by simp (metis imageI)
  ultimately show ?case
    using Cons.IH [OF one(2) task_rows_ok_upsert [OF Cons.prems(2) one(1)]] Cons.prems(3) by (auto split: option.split)
qed simp

lemma upsert_projects_keys:
  "keys_distinct pr_id (pj_rows s) \<Longrightarrow> keys_distinct pr_id (pj_rows (fold upsert_project ps s))"
  by (induction ps arbitrary: s) (simp_all add: upsert_project_view(2))

lemma upsert_projects_other:
  "keys_distinct pr_id (pj_rows s) \<Longrightarrow> i \<notin> pr_id ` set ps \<Longrightarrow> project_get s i = None \<Longrightarrow>
   project_get (fold upsert_project ps s) i = None"
  by (induction ps arbitrary: s) (simp_all add: upsert_project_view)

lemma upsert_projects_kept:
  "keys_distinct pr_id (pj_rows s) \<Longrightarrow> project_get s i = Some p \<Longrightarrow> \<forall>q \<in> set ps. pr_id q \<noteq> i \<and> pr_slug q \<noteq> pr_slug p \<Longrightarrow>
   project_get (fold upsert_project ps s) i = Some p"
  by (induction ps arbitrary: s) (auto simp: upsert_project_view)

lemma projects_ok_Cons:
  assumes "projects_ok (q # ps)"
  shows "projects_ok ps" "stored_project q = q" "\<forall>r \<in> set ps. pr_id r \<noteq> pr_id q \<and> pr_slug r \<noteq> pr_slug q"
proof -
  note ok = assms [unfolded projects_ok_def]
  have "keys_distinct pr_id ps" using conjunct1 [OF ok] by (simp add: keys_distinct_def)
  then show "projects_ok ps" unfolding projects_ok_def using ok by (meson list.set_intros(2))
  show "stored_project q = q" using ok by (meson list.set_intros(1))
  have "pr_id r \<noteq> pr_id q" if "r \<in> set ps" for r
    using conjunct1 [OF ok] that by (simp add: keys_distinct_def) (metis imageI)
  then show "\<forall>r \<in> set ps. pr_id r \<noteq> pr_id q \<and> pr_slug r \<noteq> pr_slug q" using ok by (meson list.set_intros)
qed

lemma upsert_projects_written:
  "keys_distinct pr_id (pj_rows s) \<Longrightarrow> projects_ok ps \<Longrightarrow> p \<in> set ps \<Longrightarrow>
   project_get (fold upsert_project ps s) (pr_id p) = Some p"
proof (induction ps arbitrary: s)
  case (Cons q ps)
  note parts = projects_ok_Cons [OF Cons.prems(2)]
  note keys = upsert_project_view(2) [OF Cons.prems(1)]
  show ?case
  proof (cases "p = q")
    case True
    have "project_get (upsert_project q s) (pr_id q) = Some q"
      using upsert_project_view(1) [OF Cons.prems(1)] parts by simp
    then show ?thesis using True upsert_projects_kept [OF keys] parts by simp
  next
    case False
    then show ?thesis using Cons.IH [OF keys parts(1)] Cons.prems(3) by simp
  qed
qed simp

lemma replace_same:
  assumes p: "fold_ok p" and p0: "rows_ok p0" and run: "replace_projections (fold_state p) p0 = Inr q"
  shows "same_fold True p q"
proof -
  let ?ts = "sort_key t_created_at (map tr_task (ts_rows (pf_tasks p)))" and ?ps = "sort_key pr_created_at (pj_rows (pf_projects p))"
    and ?cs = "sort_key cm_created_at (pf_comments p)"
  let ?old = "filter (\<lambda>r. row_id r \<in> t_id ` set ?ts) (ts_rows (pf_tasks p0))"
  obtain rows s where rows: "upsert_all_tasks ?ts ?old = Inr rows" "ts_rows (pf_tasks q) = rows"
    and s: "pf_projects q = fold upsert_project ?ps s" "pj_rows s = filter (\<lambda>r. pr_id r \<in> pr_id ` set ?ps) (pj_rows (pf_projects p0))"
    and cs: "pf_comments q = fold upsert_comment ?cs []"
    using run by (auto simp: replace_projections_def restore_rows_def fold_state_def tasks_of_def list_projects_def
        list_all_comments_def bind_result_Inr_iff Let_def comp_def drop_roots_def)
  have "task_rows_ok ?old" using p0 by (auto simp: rows_ok_def task_rows_ok_rows distinct_map_filter)
  moreover have ids: "distinct (map t_id ?ts)" "distinct (map t_id (map tr_task (ts_rows (pf_tasks p))))"
    using p by (simp_all add: fold_ok_def task_rows_ok_def tasks_ok_def sort_distinct)
  ultimately have view: "task_rows_ok rows" "task_view True rows i =
      (case find (\<lambda>t. t_id t = i) ?ts of Some t \<Rightarrow> Some t | None \<Rightarrow> task_view True ?old i)" for i
    using upsert_all_view [OF rows(1)] by blast+
  have "task_view True rows i = find (\<lambda>t. t_id t = i) ?ts" for i
  proof (cases "find (\<lambda>t. t_id t = i) ?ts")
    case None
    then have "i \<notin> t_id ` set ?ts" by (auto simp: find_None_iff)
    then have "row_get row_id ?old i = None" by (auto simp: row_get_None_iff)
    then show ?thesis using None view(2) by (simp add: task_view_def)
  qed (simp add: view(2))
  moreover have "find (\<lambda>t. t_id t = i) ?ts = find (\<lambda>t. t_id t = i) (map tr_task (ts_rows (pf_tasks p)))" for i
    using row_get_set [of t_id ?ts "map tr_task (ts_rows (pf_tasks p))" i] ids by (simp add: row_get_def keys_distinct_def)
  moreover have whole: "map_option (seen_as True) x = x" for x by (cases x) (simp_all add: seen_as_def)
  ultimately have "task_view True (ts_rows (pf_tasks p)) = task_view True rows"
    by (simp add: fun_eq_iff task_view_tasks whole)
  then have tasks: "same_tasks True (ts_rows (pf_tasks p)) (ts_rows (pf_tasks q))"
    using p view(1) rows(2) by (simp add: same_tasks_def fold_ok_def)
  have ps: "projects_ok ?ps" using p by (simp add: fold_ok_def projects_ok_sort)
  have keys: "keys_distinct pr_id (pj_rows s)" "keys_distinct pr_id (pj_rows (pf_projects p))"
    using p p0 keys_distinct_filter unfolding s(2) rows_ok_def fold_ok_def projects_ok_def by blast+
  have "project_get (pf_projects q) i = project_get (pf_projects p) i" for i
  proof (cases "project_get (pf_projects p) i")
    case None
    then have i: "i \<notin> pr_id ` set ?ps" by (simp add: project_get_def row_get_None_iff)
    then have "project_get s i = None" using s(2) by (auto simp: project_get_def row_get_None_iff)
    then show ?thesis using None i upsert_projects_other [OF keys(1)] s(1) by simp
  next
    case (Some r)
    then have "r \<in> set ?ps" "pr_id r = i" using row_get_Some [of pr_id] by (auto simp: project_get_def)
    then show ?thesis using Some upsert_projects_written [OF keys(1) ps] s(1) by auto
  qed
  then have projects: "same_projects (pf_projects p) (pf_projects q)"
    using keys upsert_projects_keys s(1) by (simp add: same_projects_def fun_eq_iff)
  have "keys_distinct cm_id ?cs" using p by (simp add: fold_ok_def keys_distinct_def sort_distinct)
  then have "pf_comments q = ?cs" "keys_distinct cm_id ?cs" using restore_comments [of "[]" ?cs] cs by simp_all
  then have "same_comments (pf_comments p) (pf_comments q)"
    using p row_get_set [of cm_id "pf_comments p" "pf_comments q"] by (simp add: same_comments_def fold_ok_def comment_get_def fun_eq_iff)
  then show ?thesis using tasks projects by (simp add: same_fold_def)
qed

subsection \<open>The fold of the server log\<close>

text \<open>The server answers from its log and its snapshots, or fails; an older server has no snapshots to offer.\<close>

definition answers :: "history \<Rightarrow> replica_source \<Rightarrow> bool" where
  "answers h src \<longleftrightarrow>
     (\<forall>since limit. sc_events src since limit = Inr (load_since (sh_log h) since limit) \<or> isl (sc_events src since limit)) \<and>
     (sc_snapshot src = Inr (latest_snapshot (sh_snapshots h)) \<or> sc_snapshot src = Inr None \<or> isl (sc_snapshot src))"

lemma answered_page: "answers h src \<Longrightarrow> sc_events src since limit = Inr page \<Longrightarrow> page = load_since (sh_log h) since limit"
  unfolding answers_def by (metis Inr_inject isl_def sum.distinct(1))

text \<open>The cursor moves with every page, so the distance to the end is fuel enough.\<close>

lemma server_log_ends:
  "answers h src \<Longrightarrow> cursor - since \<le> fuel \<Longrightarrow> fold_server_log fuel de src limit cursor since ids p \<noteq> None"
proof (induction fuel arbitrary: since ids p)
  case (Suc fuel)
  show ?case
  proof (cases "sc_events src since limit")
    case (Inr page)
    have "since < en_seq (last page)" if "page \<noteq> []"
      using answered_page [OF Suc.prems(1) Inr] set_load_since last_in_set [OF that] by metis
    then show ?thesis using Inr Suc.IH [OF Suc.prems(1), of "en_seq (last page)"] Suc.prems(2)
      by (auto simp: Let_def split: sum.split)
  qed auto
qed simp

lemma server_log_folded:
  assumes ok: "log_ok (sh_log h)" and ans: "answers h src" and "0 < limit"
    and run: "fold_server_log fuel de src limit cursor since ids p = Some (Inr (ids', p'))"
  shows "fold_events (de_fresh de) (filter (\<lambda>e. since < en_seq e \<and> en_seq e \<le> cursor) (el_rows (sh_log h))) p = Inr p' \<and>
    set ids' = set ids \<union> en_id ` {e \<in> set (el_rows (sh_log h)). since < en_seq e \<and> en_seq e \<le> cursor}"
  using run
proof (induction fuel arbitrary: since ids p)
  case 0
  then have "filter (\<lambda>e. since < en_seq e \<and> en_seq e \<le> cursor) (el_rows (sh_log h)) = []" "ids' = ids" "p' = p"
    by (auto simp: filter_empty_conv split: if_splits)
  then show ?case by (auto simp: filter_empty_conv)
next
  case (Suc fuel)
  define ahead where "ahead = filter (\<lambda>e. since < en_seq e) (el_rows (sh_log h))"
  have rows: "filter (\<lambda>e. since < en_seq e \<and> en_seq e \<le> cursor) (el_rows (sh_log h)) = filter (\<lambda>e. en_seq e \<le> cursor) ahead"
    by (simp add: ahead_def conj_commute)
  have sorted: "sorted_wrt (<) (map en_seq ahead)"
    using ok by (simp add: ahead_def log_ok_def sorted_wrt_map sorted_wrt_filter)
  show ?case
  proof (cases "since < cursor")
    case False
    then have "filter (\<lambda>e. since < en_seq e \<and> en_seq e \<le> cursor) (el_rows (sh_log h)) = []" "ids' = ids" "p' = p"
      using Suc.prems by (auto simp: filter_empty_conv)
    then show ?thesis by (auto simp: filter_empty_conv)
  next
    case True
    then obtain page where page: "sc_events src since limit = Inr page" using Suc.prems by (auto split: sum.splits)
    then have taken: "page = take limit ahead" using answered_page [OF ans] load_since_sorted [OF ok] by (simp add: ahead_def)
    then have split: "ahead = page @ drop limit ahead" by simp
    show ?thesis
    proof (cases "page = []")
      case True
      then have "filter (\<lambda>e. since < en_seq e \<and> en_seq e \<le> cursor) (el_rows (sh_log h)) = []"
        using taken assms(3) rows by simp
      moreover have "ids' = ids" "p' = p" using Suc.prems \<open>since < cursor\<close> page True by simp_all
      ultimately show ?thesis by (auto simp: filter_empty_conv)
    next
      case False
      define mine where "mine = filter (\<lambda>e. en_seq e \<le> cursor) page"
      obtain p1 where p1: "fold_events (de_fresh de) mine p = Inr p1"
        and rest: "fold_server_log fuel de src limit cursor (en_seq (last page)) (map en_id mine @ ids) p1 = Some (Inr (ids', p'))"
        using Suc.prems True page False by (auto simp: Let_def mine_def split: sum.splits)
      have "since < en_seq (last page)" using taken False last_in_set [OF False] in_set_takeD [of "last page" limit ahead]
        by (simp add: ahead_def)
      then have "filter (\<lambda>e. en_seq (last page) < en_seq e \<and> en_seq e \<le> cursor) (el_rows (sh_log h)) =
          filter (\<lambda>e. en_seq (last page) < en_seq e \<and> en_seq e \<le> cursor) ahead"
        by (auto simp: ahead_def intro!: filter_cong)
      also have "\<dots> = filter (\<lambda>e. en_seq e \<le> cursor) (drop limit ahead)"
        using sorted_rest [of page "drop limit ahead"] sorted False split by metis
      finally have later: "filter (\<lambda>e. en_seq (last page) < en_seq e \<and> en_seq e \<le> cursor) (el_rows (sh_log h)) =
          filter (\<lambda>e. en_seq e \<le> cursor) (drop limit ahead)" .
      have parts: "filter (\<lambda>e. since < en_seq e \<and> en_seq e \<le> cursor) (el_rows (sh_log h)) =
          mine @ filter (\<lambda>e. en_seq (last page) < en_seq e \<and> en_seq e \<le> cursor) (el_rows (sh_log h))"
        unfolding rows later mine_def by (subst split) simp
      have "{e \<in> set (el_rows (sh_log h)). since < en_seq e \<and> en_seq e \<le> cursor} =
          set mine \<union> {e \<in> set (el_rows (sh_log h)). en_seq (last page) < en_seq e \<and> en_seq e \<le> cursor}"
        using arg_cong [where f = set, OF parts] by auto
      then show ?thesis using Suc.IH [OF rest] p1 parts by (simp add: fold_events_append image_Un Un_ac)
    qed
  qed
qed

text \<open>A server that purged telemetry folds to the same rows.\<close>

lemma fold_purged:
  assumes "history_ok h"
  shows "fold_events fresh (up_to n (sh_all h)) p = fold_events fresh (up_to n (el_rows (sh_log h))) p"
proof -
  have swap: "filter domain_event (up_to n es) = up_to n (filter domain_event es)" for es by (induction es) (auto simp: up_to_def)
  have "filter domain_event (up_to n (sh_all h)) = filter domain_event (up_to n (el_rows (sh_log h)))"
    unfolding swap using assms by (simp add: history_ok_def)
  then show ?thesis using fold_domain by metis
qed

lemma empty_page_ends:
  "answers h src \<Longrightarrow> fold_server_log fuel de src 0 cursor since ids p = Some (Inr (ids', p')) \<Longrightarrow> ids' = ids \<and> p' = p"
  by (cases fuel) (auto simp: load_since_def dest!: answered_page split: if_splits sum.splits)

lemma set_read_log: "e \<in> set (read_log n l since) \<Longrightarrow> e \<in> set (el_rows l)"
proof (induction n l since rule: read_log.induct)
  case (1 n l since)
  then show ?case using set_load_since by (subst (asm) (2) read_log.simps) (auto simp: Let_def split: if_splits)
qed

end
