(* ===== verification/Replica_Mirror.thy ===== *)
theory Replica_Mirror
  imports Replica_Repair
begin

text \<open>
  A device without commands of its own is a mirror: however often a sync runs, fails half-way or restarts, and whatever an
  older version left in its rows, its rows are the fold of the server log up to its cursor as soon as its baseline is
  verified. Two tasks count as the same when they differ at most in the local number of their last event.
\<close>

definition new_replica :: replica where
  "new_replica = \<lparr>rp_log = empty_log, rp_rows = empty_fold, rp_activity = [], rp_server_seq = 0, rp_baseline_verified = False,
     rp_projections_verified = False, rp_order_verified = False, rp_ordered_local_seq = 0, rp_unprojected = [], rp_unechoed = []\<rparr>"

text \<open>
  A device: it starts empty, its server goes on, it syncs, and it is upgraded from a version that lacked one of the marks
  and may have left any rows the tables admit.
\<close>

definition older_version :: "string list \<Rightarrow> bool" where
  "older_version present \<longleftrightarrow>
     \<not> {''baseline_verified'', ''projections_verified'', ''order_verified''} \<subseteq> set present"

inductive device_sync :: "history \<Rightarrow> replica \<Rightarrow> bool" where
  start: "server_history h \<Longrightarrow> device_sync h new_replica"
| server: "device_sync h rp \<Longrightarrow> server_history h' \<Longrightarrow> sh_all h' = sh_all h @ new \<Longrightarrow> device_sync h' rp"
| sync: "device_sync h rp \<Longrightarrow> answers h src \<Longrightarrow> catch_up fuel de src limit rp = Some (r, rp') \<Longrightarrow> device_sync h rp'"
| upgrade: "device_sync h rp \<Longrightarrow> holds_events rp \<Longrightarrow> older_version present \<Longrightarrow> rows_ok rows \<Longrightarrow>
    device_sync h (ensure_schema present (rp\<lparr>rp_rows := rows\<rparr>))"

definition rows_at :: "history \<Rightarrow> nat \<Rightarrow> projection_fold \<Rightarrow> bool" where
  "rows_at h seq p \<longleftrightarrow> (\<forall>fresh. \<exists>q. fold_events fresh (up_to seq (sh_all h)) empty_fold = Inr q \<and> same_fold False q p)"

text \<open>What the rows of a device are worth: all of it once verified, and as long as it holds nothing.\<close>

definition trusted :: "replica \<Rightarrow> bool" where
  "trusted rp \<longleftrightarrow> baseline_verified rp \<or> \<not> holds_events rp"

definition mirrors :: "history \<Rightarrow> replica \<Rightarrow> bool" where
  "mirrors h rp \<longleftrightarrow> rp_unprojected rp = [] \<and> rows_ok (rp_rows rp) \<and> rp_server_seq rp \<le> latest_seq (sh_log h) \<and>
     (trusted rp \<longrightarrow> rows_at h (rp_server_seq rp) (rp_rows rp)) \<and>
     (\<forall>e \<in> set (el_rows (rp_log rp)). \<exists>a \<in> set (sh_all h). same_event False a e \<and> en_seq a \<le> rp_server_seq rp)"

lemma verified_rows: "mirrors h rp \<Longrightarrow> baseline_verified rp \<Longrightarrow> rows_at h (rp_server_seq rp) (rp_rows rp)"
  by (simp add: mirrors_def trusted_def)

lemma rows_at_ok: "rows_at h seq p \<Longrightarrow> rows_ok p"
  by (auto simp: rows_at_def dest: same_fold_rows_ok)

lemma rows_at_weaken: "same_fold True q p \<Longrightarrow> same_fold False q p"
proof -
  have *: "map_option (seen_as False) (task_view True rows i) = task_view False rows i" for rows i
    by (simp add: task_view_def option.map_comp comp_def seen_as_def)
  show "same_fold True q p \<Longrightarrow> same_fold False q p"
    by (simp add: same_fold_def same_tasks_def fun_eq_iff) (metis *)
qed

lemma log_event_all:
  assumes "history_ok h" "e \<in> set (el_rows (sh_log h))"
  shows "domain_event e \<Longrightarrow> e \<in> set (sh_all h)" "names_tasks (en_payload e)"
proof -
  have d: "filter domain_event (el_rows (sh_log h)) = filter domain_event (sh_all h)" using assms(1) by (simp add: history_ok_def)
  show all: "e \<in> set (sh_all h)" if "domain_event e"
  proof -
    have "e \<in> set (filter domain_event (sh_all h))" unfolding d [symmetric] using assms(2) that by simp
    then show ?thesis by simp
  qed
  show "names_tasks (en_payload e)"
  proof (cases "domain_event e")
    case True
    then show ?thesis using all assms(1) by (auto simp: history_ok_def list_all_iff)
  next
    case False
    then show ?thesis by (auto simp: event_class_def names_tasks_def split: event.splits telemetry_event.splits)
  qed
qed

text \<open>Folding one more event of the server log: \<open>e\<close> is the first one past \<open>seq\<close>.\<close>

lemma fold_next:
  assumes ok: "history_ok h" and rows: "filter (\<lambda>e. seq < en_seq e) (el_rows (sh_log h)) = e # rest"
  shows "fold_events fresh (up_to (en_seq e) (sh_all h)) p = bind_result (fold_events fresh (up_to seq (sh_all h)) p) (fold_events fresh [e])"
proof -
  have sorted: "sorted_wrt (<) (map en_seq (el_rows (sh_log h)))" using ok by (simp add: history_ok_def log_ok_def)
  have "sorted_wrt (<) (map en_seq (e # rest))"
    using sorted unfolding rows [symmetric] by (simp add: sorted_wrt_map sorted_wrt_filter)
  then have "filter (\<lambda>a. en_seq a \<le> en_seq e) (e # rest) = [e]" by (auto simp: filter_empty_conv not_le)
  then have one: "filter (\<lambda>a. seq < en_seq a \<and> en_seq a \<le> en_seq e) (el_rows (sh_log h)) = [e]"
    by (subst (asm) rows [symmetric]) (simp add: conj_commute)
  have "e \<in> set (filter (\<lambda>e. seq < en_seq e) (el_rows (sh_log h)))" unfolding rows by simp
  then have seq: "seq \<le> en_seq e" by simp
  have upto: "up_to (en_seq e) (el_rows (sh_log h)) = up_to seq (el_rows (sh_log h)) @ [e]"
    using up_to_split [OF sorted seq] one by simp
  show ?thesis unfolding fold_purged [OF ok] upto by (rule fold_events_append)
qed

lemma mirror_step:
  assumes ok: "history_ok h" and m: "mirrors h rp" and v: "baseline_verified rp"
    and rows: "filter (\<lambda>e. rp_server_seq rp < en_seq e) (el_rows (sh_log h)) = e # rest"
    and step: "apply_remote_event de e rp = Inr (new, rp')"
  shows "mirrors h rp' \<and> baseline_verified rp' \<and> rp_server_seq rp' = en_seq e"
proof -
  have "e \<in> set (filter (\<lambda>e. rp_server_seq rp < en_seq e) (el_rows (sh_log h)))" unfolding rows by simp
  then have e: "e \<in> set (el_rows (sh_log h))" "rp_server_seq rp < en_seq e" by simp_all
  have all: "e \<in> set (sh_all h)" "distinct (map en_id (sh_all h))" using ok e(1) by (auto simp: history_ok_def)
  have id: "load_by_id (rp_log rp) (en_id e) = None"
  proof (rule ccontr)
    assume "load_by_id (rp_log rp) (en_id e) \<noteq> None"
    then obtain x where "x \<in> set (el_rows (rp_log rp))" "en_id x = en_id e"
      by (auto simp: load_by_id_def dest: find_Some_mem)
    then obtain a where "a \<in> set (sh_all h)" "en_id a = en_id e" "en_seq a \<le> rp_server_seq rp"
      using m same_event_fields(1) unfolding mirrors_def by metis
    then show False using all e(2) by (metis distinct_map inj_on_def not_le)
  qed
  then obtain persisted l p' where s: "append_on (e\<lparr>en_seq := 0\<rparr>) (rp_log rp) = Inr (persisted, l)"
      "fold_apply (de_fresh de) persisted (rp_rows rp) = Inr p'"
      "rp' = (advance_server_seq (en_seq e) rp)\<lparr>rp_log := l, rp_rows := p', rp_activity := feed_step (de_feed de) persisted (rp_activity rp),
          rp_ordered_local_seq := max (rp_ordered_local_seq rp) (en_seq persisted)\<rparr>"
    using step by (auto simp: apply_remote_event_def log_and_project_def bind_result_Inr_iff)
  have per: "same_event False e persisted" "en_id persisted = en_id e" "el_rows l = el_rows (rp_log rp) @ [persisted]"
    using s(1) by (auto simp: append_on_def same_event_def log_insert_def split: if_splits)
  have "rows_at h (en_seq e) p'"
    unfolding rows_at_def
  proof
    fix fresh
    obtain q where q: "fold_events fresh (up_to (rp_server_seq rp) (sh_all h)) empty_fold = Inr q" "same_fold False q (rp_rows rp)"
      using verified_rows [OF m v] unfolding rows_at_def by blast
    have "rel_sum (=) (same_fold False) (fold_apply fresh e q) (fold_apply (de_fresh de) persisted (rp_rows rp))"
      by (rule fold_apply_same [OF per(1) log_event_all(2) [OF ok e(1)] q(2)])
    then obtain q' where "fold_apply fresh e q = Inr q'" "same_fold False q' p'" using s(2) by (cases "fold_apply fresh e q") auto
    then show "\<exists>q. fold_events fresh (up_to (en_seq e) (sh_all h)) empty_fold = Inr q \<and> same_fold False q p'"
      using fold_next [OF ok rows, of fresh empty_fold] q(1) by simp
  qed
  moreover have "\<exists>a \<in> set (sh_all h). same_event False a x \<and> en_seq a \<le> en_seq e" if x: "x \<in> set (el_rows l)" for x
  proof (cases "x = persisted")
    case True
    then show ?thesis using all(1) per(1) by auto
  next
    case False
    then have "x \<in> set (el_rows (rp_log rp))" using x per(3) by simp
    then obtain a where "a \<in> set (sh_all h)" "same_event False a x" "en_seq a \<le> rp_server_seq rp"
      using m unfolding mirrors_def by blast
    then show ?thesis using e(2) by (metis le_trans less_imp_le)
  qed
  moreover have "en_seq e \<le> latest_seq (sh_log h)" using ok e(1) by (simp add: history_ok_def log_ok_def latest_seq_def)
  ultimately show ?thesis using m v e(2) s(3) rows_at_ok
    by (auto simp: mirrors_def advance_server_seq_def baseline_verified_def max_def)
qed

lemma mirror_loop:
  assumes ok: "history_ok h" and m: "mirrors h rp" and v: "baseline_verified rp"
    and rows: "filter (\<lambda>e. rp_server_seq rp < en_seq e) (el_rows (sh_log h)) = envs @ rest"
    and run: "apply_remote_loop de envs stats rp = (r, rp')"
  shows "mirrors h rp' \<and> baseline_verified rp'"
  using m v rows run
proof (induction envs arbitrary: rp stats)
  case (Cons e envs)
  show ?case
  proof (cases "apply_remote_event de e rp")
    case (Inl err)
    then show ?thesis using Cons.prems by auto
  next
    case (Inr res)
    obtain new rp1 where res: "res = (new, rp1)" by (rule prod.exhaust)
    have rows: "filter (\<lambda>e. rp_server_seq rp < en_seq e) (el_rows (sh_log h)) = e # (envs @ rest)" using Cons.prems(3) by simp
    have one: "mirrors h rp1" "baseline_verified rp1" "rp_server_seq rp1 = en_seq e"
      using mirror_step [OF ok Cons.prems(1,2) rows Inr [unfolded res]] by blast+
    have sorted: "sorted_wrt (<) (map en_seq (e # (envs @ rest)))"
      using ok unfolding rows [symmetric] by (simp add: history_ok_def log_ok_def sorted_wrt_map sorted_wrt_filter)
    have "rp_server_seq rp < en_seq e" using rows by (metis (mono_tags, lifting) list.set_intros(1) mem_Collect_eq set_filter)
    then have "filter (\<lambda>a. en_seq e < en_seq a) (el_rows (sh_log h)) =
        filter (\<lambda>a. en_seq e < en_seq a) (filter (\<lambda>a. rp_server_seq rp < en_seq a) (el_rows (sh_log h)))"
      by (auto intro!: filter_cong)
    also have "\<dots> = envs @ rest" using sorted unfolding rows by (auto simp: filter_id_conv)
    finally show ?thesis using Cons.IH [OF one(1,2)] one(3) Cons.prems(4) Inr res by simp
  qed
qed simp

lemma mirror_flags:
  assumes "mirrors h rp" "rp_server_seq rp \<le> seq" "rows_at h seq p" "seq \<le> latest_seq (sh_log h)"
  shows "mirrors h (mark_verified_baseline seq (rp\<lparr>rp_rows := p\<rparr>))"
proof -
  have "\<forall>e \<in> set (el_rows (rp_log rp)). \<exists>a \<in> set (sh_all h). same_event False a e \<and> en_seq a \<le> seq"
    using assms(1,2) unfolding mirrors_def by (meson le_trans)
  then show ?thesis using assms rows_at_ok [OF assms(3)] unfolding mirrors_def mark_verified_baseline_def by simp
qed

lemma no_rows: "\<forall>i. row_get key xs i = None \<Longrightarrow> xs = []"
  by (cases xs) (auto split: if_splits)

lemma empty_rows:
  assumes "same_fold False empty_fold p"
  shows "ts_rows (pf_tasks p) = [] \<and> pj_rows (pf_projects p) = [] \<and> pf_comments p = []"
proof -
  have "task_view False (ts_rows (pf_tasks p)) = (\<lambda>_. None)" "project_get (pf_projects p) = (\<lambda>_. None)"
    "comment_get (pf_comments p) = (\<lambda>_. None)"
    using assms by (simp_all add: same_fold_def same_tasks_def same_projects_def same_comments_def empty_fold_def task_view_def
        project_get_def comment_get_def fun_eq_iff)
  then show ?thesis using no_rows [of row_id "ts_rows (pf_tasks p)"] no_rows [of pr_id "pj_rows (pf_projects p)"]
      no_rows [of cm_id "pf_comments p"] by (simp add: task_view_def project_get_def comment_get_def fun_eq_iff)
qed

lemma mirror_bootstrap:
  assumes hist: "server_history h" and ans: "answers h src" and m: "mirrors h rp" and t: "trusted rp"
    and run: "bootstrap src rp = Inr rp'"
  shows "mirrors h rp' \<and> baseline_verified rp'"
proof (cases "rp_server_seq rp = 0")
  case False
  then show ?thesis using run m t by (auto simp: bootstrap_def trusted_def holds_events_def)
next
  case True
  have ok: "history_ok h" by (rule server_history_ok [OF hist])
  have verified: "baseline_verified (mark_verified_baseline seq x)" for seq x
    by (simp add: mark_verified_baseline_def baseline_verified_def)
  obtain so where so: "sc_snapshot src = Inr so"
    and res: "(case so of
        Some s \<Rightarrow> if is_consistent s then bootstrap_from_snapshot s rp else Inr (mark_verified_baseline 0 rp)
      | None \<Rightarrow> Inr (mark_verified_baseline 0 rp)) = Inr rp'"
    using run True by (auto simp: bootstrap_def bind_result_Inr_iff)
  show ?thesis
  proof (cases "\<exists>s. so = Some s \<and> is_consistent s")
    case False
    then have "rp' = mark_verified_baseline 0 (rp\<lparr>rp_rows := rp_rows rp\<rparr>)" using res by (auto split: option.splits)
    moreover have "rows_at h 0 (rp_rows rp)" using m t True by (simp add: mirrors_def)
    ultimately show ?thesis using mirror_flags [OF m, of 0 "rp_rows rp"] True verified by simp
  next
    case True': True
    then obtain s where s: "so = Some s" "is_consistent s" by blast
    then have mem: "s \<in> set (sh_snapshots h)" using ans so latest_snapshot_mem by (auto simp: answers_def)
    have cov: "covers (sh_all h) (sh_seq s) (sh_payload s)" "sh_seq s \<le> latest_seq (sh_log h)"
      using ok mem s(2) by (auto simp: history_ok_def)
    have "up_to 0 (sh_all h) = []" using ok by (force simp: up_to_def filter_empty_conv history_ok_def)
    then have "same_fold False empty_fold (rp_rows rp)" using m t True by (auto simp: mirrors_def rows_at_def)
    note blank = empty_rows [OF this]
    obtain rows where rows: "restore_rows (sh_payload s) (rp_rows rp) = Inr rows"
        "rp' = mark_verified_baseline (sh_seq s) (rp\<lparr>rp_rows := rows\<rparr>)"
      using res s by (auto simp: bootstrap_from_snapshot_def bind_result_Inr_iff)
    have "rows_at h (sh_seq s) rows" unfolding rows_at_def
    proof
      fix fresh
      obtain p q where "fold_state p = sh_payload s" "fold_ok p" "fold_events fresh (up_to (sh_seq s) (sh_all h)) empty_fold = Inr q"
        "same_fold True q p" using cov(1) unfolding covers_def by blast
      then show "\<exists>q. fold_events fresh (up_to (sh_seq s) (sh_all h)) empty_fold = Inr q \<and> same_fold False q rows"
        using restore_same [of p "rp_rows rp"] blank rows(1) same_fold_trans rows_at_weaken by fastforce
    qed
    then show ?thesis using mirror_flags [OF m _ _ cov(2)] True rows(2) verified by simp
  qed
qed

lemma local_events_folded:
  assumes ok: "history_ok h" and m: "mirrors h rp"
    and ids: "set ids = en_id ` {e \<in> set (el_rows (sh_log h)). 0 < en_seq e \<and> en_seq e \<le> rp_server_seq rp}"
  shows "\<exists>k. fold_local_only de ids (rp_log rp) since p = Inr (k, p)"
proof -
  have "\<not> domain_event e" if e: "e \<in> set (el_rows (rp_log rp))" "en_id e \<notin> set ids" for e
  proof
    assume d: "domain_event e"
    obtain a where a: "a \<in> set (sh_all h)" "same_event False a e" "en_seq a \<le> rp_server_seq rp"
      using m e(1) unfolding mirrors_def by blast
    then have "domain_event a" using d same_event_fields(4) by metis
    have "filter domain_event (el_rows (sh_log h)) = filter domain_event (sh_all h)" using ok by (simp add: history_ok_def)
    then have "a \<in> set (filter domain_event (el_rows (sh_log h)))" using a(1) \<open>domain_event a\<close> by simp
    then have "a \<in> set (el_rows (sh_log h))" by simp
    moreover have "0 < en_seq a" using ok a(1) by (simp add: history_ok_def)
    ultimately have "en_id a \<in> set ids" using a(3) ids by blast
    then show False using e(2) same_event_fields(1) [OF a(2)] by simp
  qed
  then have "filter domain_event (filter (\<lambda>e. en_id e \<notin> set ids) (read_log LOCAL_LOG_PAGE_SIZE (rp_log rp) since)) = []"
    using set_read_log by (auto simp: filter_empty_conv)
  then have "fold_events (de_fresh de) (filter (\<lambda>e. en_id e \<notin> set ids) (read_log LOCAL_LOG_PAGE_SIZE (rp_log rp) since)) p = Inr p"
    by (metis fold_domain fold_events.simps(1))
  then show ?thesis by (simp add: fold_local_only_def Let_def)
qed

text \<open>A rebuild gives the mirror back, whatever the rows were; one that fails changes nothing.\<close>

lemma mirror_rebuild:
  assumes ok: "history_ok h" and ans: "answers h src" and m: "mirrors h rp" and unverified: "\<not> baseline_verified rp"
    and run: "rebuild_from_log fuel de src limit id rp = Some (r, rp')"
  shows "mirrors h rp' \<and> (case r of Inl _ \<Rightarrow> rp' = rp | Inr _ \<Rightarrow> baseline_verified rp')"
proof (cases "\<exists>n. r = Inr n")
  case False
  then show ?thesis using run m by (auto simp: rebuild_from_log_def split: option.splits sum.splits prod.splits if_splits)
next
  case True
  let ?cursor = "rp_server_seq rp"
  obtain ids p where log: "fold_server_log fuel de src limit ?cursor 0 [] empty_fold = Some (Inr (ids, p))"
    and some: "\<not> (0 < ?cursor \<and> ids = [])"
    using run True by (auto simp: rebuild_from_log_def split: option.splits sum.splits prod.splits if_splits)
  have upto: "filter (\<lambda>e. 0 < en_seq e \<and> en_seq e \<le> ?cursor) (el_rows (sh_log h)) = up_to ?cursor (el_rows (sh_log h))"
    using ok by (auto simp: history_ok_def log_ok_def up_to_def intro!: filter_cong)
  have folded: "fold_events (de_fresh de) (up_to ?cursor (el_rows (sh_log h))) empty_fold = Inr p \<and>
      set ids = en_id ` {e \<in> set (el_rows (sh_log h)). 0 < en_seq e \<and> en_seq e \<le> ?cursor}"
  proof (cases "limit = 0")
    case True
    then have "ids = []" "p = empty_fold" using empty_page_ends [OF ans] log by blast+
    moreover from this have "?cursor = 0" using some by simp
    moreover from this have "filter (\<lambda>e. 0 < en_seq e \<and> en_seq e \<le> ?cursor) (el_rows (sh_log h)) = []"
      "{e \<in> set (el_rows (sh_log h)). 0 < en_seq e \<and> en_seq e \<le> ?cursor} = {}"
      by (auto simp: filter_empty_conv)
    ultimately show ?thesis unfolding upto [symmetric] by (simp only:) simp
  next
    case False
    then show ?thesis using server_log_folded [OF _ ans _ log] ok unfolding upto by (simp add: history_ok_def)
  qed
  note own = local_events_folded [OF ok m conjunct2 [OF folded]]
  obtain k k' where k: "fold_local_only de ids (rp_log rp) 0 p = Inr (k, p)" "fold_local_only de ids (rp_log rp) k p = Inr (k', p)"
    using own by metis
  have p: "fold_ok p" by (rule fold_events_ok [OF empty_fold_ok conjunct1 [OF folded]])
  obtain rows where rows: "replace_projections (fold_state p) (rp_rows rp) = Inr rows"
    and rp': "rp' = mark_verified_baseline ?cursor
      (rp\<lparr>rp_rows := rows, rp_activity := replace_activity de (rp_log rp), rp_unprojected := []\<rparr>)"
    using run True log k some unverified
    by (auto simp: rebuild_from_log_def rebuild_commit_def bind_result_Inr_iff Let_def split: sum.splits if_splits)
  have same: "same_fold True p rows" by (rule replace_same [OF p _ rows]) (use m in \<open>simp add: mirrors_def\<close>)
  have at: "rows_at h ?cursor rows" unfolding rows_at_def
  proof
    fix fresh
    have "list_all (names_tasks \<circ> en_payload) (up_to ?cursor (sh_all h))"
      using ok by (auto simp: history_ok_def list_all_iff up_to_def)
    moreover have "list_all2 (same_event True) es es" for es by (simp add: list_all2_same same_event_def)
    ultimately have "rel_sum (=) (same_fold True) (fold_events fresh (up_to ?cursor (sh_all h)) empty_fold)
        (fold_events (de_fresh de) (up_to ?cursor (sh_all h)) empty_fold)"
      using fold_events_same same_fold_refl [OF empty_fold_ok] by blast
    then obtain q where "fold_events fresh (up_to ?cursor (sh_all h)) empty_fold = Inr q" "same_fold True q p"
      unfolding fold_purged [OF ok, of "de_fresh de"] using folded
      by (cases "fold_events fresh (up_to ?cursor (sh_all h)) empty_fold") auto
    then show "\<exists>q. fold_events fresh (up_to ?cursor (sh_all h)) empty_fold = Inr q \<and> same_fold False q rows"
      using same_fold_trans [OF _ same] rows_at_weaken by blast
  qed
  have "baseline_verified rp'" by (simp add: rp' mark_verified_baseline_def baseline_verified_def)
  moreover have "mirrors h rp'"
    using m at rows_at_ok [OF at] unfolding rp' mirrors_def mark_verified_baseline_def by simp
  ultimately show ?thesis using True by auto
qed

lemma mirror_repair:
  assumes ok: "history_ok h" and ans: "answers h src" and m: "mirrors h rp"
    and run: "repair fuel de src limit rp = Some (r, rp')"
  shows "mirrors h rp' \<and> (\<forall>n. r = Inr n \<longrightarrow> trusted rp')"
proof (cases "\<not> baseline_verified rp \<and> holds_events rp")
  case True
  then have "rebuild_from_log fuel de src limit id rp = Some (r, rp')" using run by (simp add: repair_def)
  from mirror_rebuild [OF ok ans m _ this] True show ?thesis by (auto simp: trusted_def)
next
  case False
  then show ?thesis using run m by (auto simp: repair_def trusted_def)
qed

lemma repair_ends:
  assumes "answers h src"
  shows "\<exists>r rp'. repair (rp_server_seq rp) de src limit rp = Some (r, rp')"
proof -
  obtain out where "fold_server_log (rp_server_seq rp) de src limit (rp_server_seq rp) 0 [] empty_fold = Some out"
    using server_log_ends [OF assms, of "rp_server_seq rp" 0 "rp_server_seq rp" de limit "[]" empty_fold] by auto
  then show ?thesis by (auto simp: repair_def rebuild_from_log_def split: sum.split)
qed

text \<open>A sync after the repair: it keeps the mirror, it does not rebuild again, and when it succeeds the baseline is verified.\<close>

lemma mirror_sync:
  assumes hist: "server_history h" and ans: "answers h src" and m: "mirrors h rp"
    and fixed: "repair fuel de src limit rp = Some (r0, rp1)"
  shows "\<exists>r rp'. catch_up fuel de src limit rp = Some (r, rp') \<and> mirrors h rp' \<and> (\<forall>stats. r = Inr stats \<longrightarrow> baseline_verified rp')"
proof -
  have ok: "history_ok h" by (rule server_history_ok [OF hist])
  have quiet: "note_unprojected rp = rp" using m by (auto simp: note_unprojected_def mirrors_def)
  note one = mirror_repair [OF ok ans m fixed]
  show ?thesis
  proof (cases r0)
    case (Inl e)
    then show ?thesis using quiet fixed one by (simp add: catch_up_def)
  next
    case (Inr n)
    show ?thesis
    proof (cases "bootstrap src rp1")
      case (Inl e)
      then show ?thesis using quiet fixed one Inr by (simp add: catch_up_def)
    next
      case boot: (Inr rp2)
      have two: "mirrors h rp2 \<and> baseline_verified rp2" by (rule mirror_bootstrap [OF hist ans _ _ boot]) (use one Inr in auto)
      show ?thesis
      proof (cases "sc_events src (rp_server_seq rp2) limit")
        case (Inl e)
        then show ?thesis using quiet fixed Inr boot \<open>r0 = Inr n\<close> two by (simp add: catch_up_def)
      next
        case page: (Inr envs)
        have rows: "filter (\<lambda>e. rp_server_seq rp2 < en_seq e) (el_rows (sh_log h)) =
            envs @ drop limit (filter (\<lambda>e. rp_server_seq rp2 < en_seq e) (el_rows (sh_log h)))"
          using load_since_sorted ok answered_page [OF ans page] by (simp add: history_ok_def)
        obtain r rp3 where loop: "apply_remote_events de envs rp2 = (r, rp3)" by (rule prod.exhaust)
        then have "mirrors h rp3 \<and> baseline_verified rp3"
          using mirror_loop [OF ok _ _ rows] two by (simp add: apply_remote_events_def)
        then show ?thesis using quiet fixed Inr boot page loop by (cases r) (simp_all add: catch_up_def)
      qed
    qed
  qed
qed

lemma mirrors_grow:
  assumes m: "mirrors h rp" and ok: "history_ok h" "history_ok h'" and grow: "sh_all h' = sh_all h @ new"
  shows "mirrors h' rp"
proof -
  have last: "latest_seq (sh_log h) = (if sh_all h = [] then 0 else en_seq (last (sh_all h)))"
    using ok(1) by (simp add: history_ok_def ends_at_def)
  have sorted: "sorted_wrt (<) (map en_seq (sh_all h @ new))" "\<forall>e \<in> set (sh_all h @ new). 0 < en_seq e \<and> en_seq e \<le> latest_seq (sh_log h')"
    using ok(2) unfolding grow [symmetric] history_ok_def by blast+
  have later: "latest_seq (sh_log h) < en_seq e" if "e \<in> set new" for e
    using sorted that last by (cases "sh_all h = []") (auto simp: sorted_wrt_append)
  have le: "latest_seq (sh_log h) \<le> latest_seq (sh_log h')"
    using sorted(2) last by (cases "sh_all h = []") auto
  have "rp_server_seq rp \<le> latest_seq (sh_log h)" using m by (simp add: mirrors_def)
  then have "up_to (rp_server_seq rp) (sh_all h') = up_to (rp_server_seq rp) (sh_all h)"
    unfolding grow using up_to_new later by blast
  then have "trusted rp \<longrightarrow> rows_at h' (rp_server_seq rp) (rp_rows rp)" using m by (simp add: mirrors_def rows_at_def)
  then show ?thesis using m le grow unfolding mirrors_def by (auto intro: le_trans)
qed

lemma new_replica_mirrors:
  assumes "history_ok h"
  shows "mirrors h new_replica"
proof -
  have "up_to 0 (sh_all h) = []" using assms by (force simp: up_to_def filter_empty_conv history_ok_def)
  then show ?thesis using rows_at_weaken [OF same_fold_refl [OF empty_fold_ok]] fold_rows_ok [OF empty_fold_ok]
    by (simp add: mirrors_def new_replica_def rows_at_def empty_log_def latest_seq_def)
qed

lemma device_sync_mirrors: "device_sync h rp \<Longrightarrow> server_history h \<and> mirrors h rp"
proof (induction rule: device_sync.induct)
  case (start h)
  then show ?case using new_replica_mirrors [OF server_history_ok] by simp
next
  case (server h rp h' new)
  then show ?case using mirrors_grow [OF _ server_history_ok server_history_ok] by blast
next
  case (sync h rp src fuel de limit r rp')
  then obtain r0 rp1 where "repair fuel de src limit rp = Some (r0, rp1)"
    by (cases "repair fuel de src limit rp") (auto simp: catch_up_def note_unprojected_def mirrors_def)
  then show ?case using sync mirror_sync [of h src rp fuel de limit r0 rp1] by auto
next
  case (upgrade h rp present rows)
  then have "\<not> baseline_verified (ensure_schema present (rp\<lparr>rp_rows := rows\<rparr>))"
    by (auto simp: baseline_verified_def ensure_schema_def older_version_def)
  then show ?case using upgrade by (auto simp: mirrors_def trusted_def ensure_schema_def holds_events_def)
qed

definition shows_fold :: "event_envelope list \<Rightarrow> (nat \<Rightarrow> uuid) \<Rightarrow> projection_fold \<Rightarrow> bool" where
  "shows_fold es fresh p \<longleftrightarrow> (\<exists>q. fold_events fresh es empty_fold = Inr q \<and>
     seen_as False ` set (tasks_of (pf_tasks p)) = seen_as False ` set (tasks_of (pf_tasks q)) \<and>
     set (pj_rows (pf_projects p)) = set (pj_rows (pf_projects q)) \<and> set (pf_comments p) = set (pf_comments q))"

lemma rows_at_shows:
  assumes "rows_at h seq p"
  shows "shows_fold (filter (\<lambda>e. en_seq e \<le> seq) (sh_all h)) fresh p"
proof -
  obtain q where q: "fold_events fresh (up_to seq (sh_all h)) empty_fold = Inr q" "same_fold False q p"
    using assms by (auto simp: rows_at_def)
  have "seen_as False ` set (tasks_of s) \<subseteq> seen_as False ` set (tasks_of t)" if same: "same_tasks False (ts_rows s) (ts_rows t)"
    for s t :: task_store
  proof
    fix u
    assume "u \<in> seen_as False ` set (tasks_of s)"
    then obtain r where "r \<in> set (ts_rows s)" "u = seen_as False (tr_task r)" by (auto simp: tasks_of_def)
    then obtain q where "q \<in> set (ts_rows t)" "u = seen_as False (tr_task q)" using same_task_member [OF same] by metis
    then show "u \<in> seen_as False ` set (tasks_of t)" by (auto simp: tasks_of_def)
  qed
  then have "seen_as False ` set (tasks_of (pf_tasks p)) = seen_as False ` set (tasks_of (pf_tasks q))"
    using q(2) same_tasks_sym unfolding same_fold_def by blast
  moreover have "set (pj_rows (pf_projects p)) = set (pj_rows (pf_projects q))"
    using q(2) by (intro set_from_rows [of pr_id]) (simp_all add: same_fold_def same_projects_def project_get_def fun_eq_iff)
  moreover have "set (pf_comments p) = set (pf_comments q)"
    using q(2) by (intro set_from_rows [of cm_id]) (simp_all add: same_fold_def same_comments_def comment_get_def fun_eq_iff)
  ultimately show ?thesis using q(1) by (simp add: shows_fold_def up_to_def)
qed

text \<open>
  C8: a device without commands of its own mirrors its server. Whatever the server did, however many syncs ran, failed
  half-way, started from a snapshot or read pages of another size, and after an upgrade that found any rows: once the baseline
  is verified, the tasks, projects and comments are those of the fold of the server log up to the cursor, where a task may
  differ in the local number of its last event. A sync ends, with the cursor as fuel for the rebuild; when it succeeds, the
  baseline is verified and the rows are the fold again, and when it fails the device is still in such a state.
\<close>

theorem device_mirrors_server:
  assumes "device_sync h rp"
  shows "(baseline_verified rp \<longrightarrow> shows_fold (filter (\<lambda>e. en_seq e \<le> rp_server_seq rp) (sh_all h)) fresh (rp_rows rp)) \<and>
    rp_server_seq rp \<le> latest_seq (sh_log h) \<and>
    (\<forall>src. answers h src \<longrightarrow> (\<exists>r rp'. catch_up (rp_server_seq rp) de src limit rp = Some (r, rp') \<and> device_sync h rp' \<and>
      (\<forall>stats. r = Inr stats \<longrightarrow> baseline_verified rp' \<and>
        shows_fold (filter (\<lambda>e. en_seq e \<le> rp_server_seq rp') (sh_all h)) fresh (rp_rows rp'))))"
proof (intro conjI allI impI)
  have m: "mirrors h rp" "server_history h" using device_sync_mirrors [OF assms] by simp_all
  show "rp_server_seq rp \<le> latest_seq (sh_log h)" using m by (simp add: mirrors_def)
  show "shows_fold (filter (\<lambda>e. en_seq e \<le> rp_server_seq rp) (sh_all h)) fresh (rp_rows rp)" if "baseline_verified rp"
    by (rule rows_at_shows [OF verified_rows [OF m(1) that]])
  fix src
  assume ans: "answers h src"
  obtain r0 rp1 where "repair (rp_server_seq rp) de src limit rp = Some (r0, rp1)"
    using repair_ends [OF ans] by blast
  then obtain r rp' where sync: "catch_up (rp_server_seq rp) de src limit rp = Some (r, rp')" "mirrors h rp'"
      "\<forall>stats. r = Inr stats \<longrightarrow> baseline_verified rp'"
    using mirror_sync [OF m(2) ans m(1)] by blast
  then show "\<exists>r rp'. catch_up (rp_server_seq rp) de src limit rp = Some (r, rp') \<and> device_sync h rp' \<and>
      (\<forall>stats. r = Inr stats \<longrightarrow> baseline_verified rp' \<and>
        shows_fold (filter (\<lambda>e. en_seq e \<le> rp_server_seq rp') (sh_all h)) fresh (rp_rows rp'))"
    using device_sync.sync [OF assms ans] rows_at_shows verified_rows by blast
qed

subsection \<open>An example\<close>

definition demo_server :: history where
  "demo_server = \<lparr>sh_log = demo_log_1, sh_all = el_rows demo_log_1, sh_snapshots = demo_snapshots\<rparr>"

definition demo_answers :: replica_source where
  "demo_answers = \<lparr>sc_events = (\<lambda>since limit. Inr (load_since demo_log_1 since limit)), sc_snapshot = Inr None\<rparr>"

definition demo_device :: device_env where
  "demo_device = \<lparr>de_fresh = id, de_feed = demo_feed_env\<rparr>"

definition demo_synced :: replica where
  "demo_synced = (case catch_up 0 demo_device demo_answers 10 new_replica of Some (_, rp) \<Rightarrow> rp | None \<Rightarrow> new_replica)"

lemma demo_sync: "catch_up 0 demo_device demo_answers 10 new_replica = Some (Inr \<lparr>cu_fetched = 1, cu_applied = 1, cu_server_seq = 1\<rparr>, demo_synced)"
  by code_simp

text \<open>The device after an upgrade that found its rows empty, and after the sync that repairs them.\<close>

definition demo_upgraded :: replica where
  "demo_upgraded = ensure_schema [''baseline_verified'', ''order_verified''] (demo_synced\<lparr>rp_rows := empty_fold\<rparr>)"

theorem device_mirrors_server_witness:
  "map t_id (tasks_of (pf_tasks (rp_rows demo_synced))) = [3] \<and> shows_fold (el_rows demo_log_1) id (rp_rows demo_synced) \<and>
   tasks_of (pf_tasks (rp_rows demo_upgraded)) = [] \<and>
   (\<exists>stats rp'. catch_up 1 demo_device demo_answers 10 demo_upgraded = Some (Inr stats, rp') \<and>
      shows_fold (el_rows demo_log_1) id (rp_rows rp'))"
proof -
  have demo: "map t_id (tasks_of (pf_tasks (rp_rows demo_synced))) = [3]" "baseline_verified demo_synced"
    "filter (\<lambda>e. en_seq e \<le> rp_server_seq demo_synced) (el_rows demo_log_1) = el_rows demo_log_1" by code_simp+
  have all: "sh_all demo_server = el_rows demo_log_1" by (simp add: demo_server_def)
  have answers: "answers demo_server demo_answers" by (simp add: answers_def demo_answers_def demo_server_def)
  have "device_sync demo_server new_replica"
    unfolding demo_server_def by (rule device_sync.start [OF demo_history])
  then have synced: "device_sync demo_server demo_synced" using device_sync.sync answers demo_sync by blast
  have shown: "shows_fold (el_rows demo_log_1) id (rp_rows demo_synced)"
    using device_mirrors_server [OF synced, of id, THEN conjunct1] demo(2,3) unfolding all by simp
  have up: "holds_events demo_synced" "older_version [''baseline_verified'', ''order_verified'']" by code_simp+
  have upgraded: "device_sync demo_server demo_upgraded"
    unfolding demo_upgraded_def by (rule device_sync.upgrade [OF synced up fold_rows_ok [OF empty_fold_ok]])
  have seq: "rp_server_seq demo_upgraded = 1" "tasks_of (pf_tasks (rp_rows demo_upgraded)) = []" by code_simp+
  have fixed: "map_option (isl \<circ> fst) (catch_up 1 demo_device demo_answers 10 demo_upgraded) = Some False"
    "map_option (rp_server_seq \<circ> snd) (catch_up 1 demo_device demo_answers 10 demo_upgraded) = Some 1"
    "filter (\<lambda>e. en_seq e \<le> 1) (el_rows demo_log_1) = el_rows demo_log_1" by code_simp+
  then obtain stats rp' where run: "catch_up 1 demo_device demo_answers 10 demo_upgraded = Some (Inr stats, rp')" "rp_server_seq rp' = 1"
    by (auto simp: isl_def split: sum.splits) (metis sum.exhaust)
  have "shows_fold (el_rows demo_log_1) id (rp_rows rp')"
    using device_mirrors_server [OF upgraded, of id demo_device 10, THEN conjunct2, THEN conjunct2, rule_format, OF answers] run fixed(3)
    unfolding seq(1) all by auto
  then show ?thesis using demo(1) shown seq(2) run(1) by blast
qed

end
