(* ===== verification/Outbox_Queue.thy ===== *)
theory Outbox_Queue
  imports Outbox Replica_Mirror
begin

text \<open>
  The queue loses nothing: every event a local command commits has exactly one entry, in the order of the commits, and
  leaves the queue only when the server has taken it or refused it for good.
\<close>

subsection \<open>Origin numbers\<close>

lemma fold_max: "fold max ns (n :: nat) = Max (insert n (set ns))"
  by (metis Max.set_eq_fold list.simps(15))

definition numbered_rows :: "uuid \<Rightarrow> outbox_row list \<Rightarrow> bool" where
  "numbered_rows device rows \<longleftrightarrow> list_all (\<lambda>r. ob_device r = device) rows \<and> map ob_seq rows = [1 ..< Suc (length rows)] \<and>
     map ob_id rows = [1 ..< Suc (length rows)]"

lemma next_number:
  assumes "numbered_rows device (ox_rows ox)"
  shows "next_origin_seq device ox = Suc (length (ox_rows ox))"
proof -
  have all: "filter (\<lambda>r. ob_device r = device) (ox_rows ox) = ox_rows ox" using assms by (simp add: numbered_rows_def list_all_iff filter_id_conv)
  have seqs: "map ob_seq (ox_rows ox) = [1 ..< Suc (length (ox_rows ox))]" using assms by (simp add: numbered_rows_def)
  show ?thesis
  proof (cases "ox_rows ox")
    case (Cons r rs)
    obtain n ns where n: "map ob_seq (ox_rows ox) = n # ns" using Cons by simp
    then have "fold max ns n = Max (set [1 ..< Suc (length (ox_rows ox))])" unfolding fold_max by (metis list.set(2) seqs)
    also have "\<dots> = length (ox_rows ox)" using Cons by (intro Max_eqI) auto
    finally show ?thesis using n all by (simp add: next_origin_seq_def)
  qed (simp add: next_origin_seq_def)
qed

definition queued_row :: "uuid \<Rightarrow> nat \<Rightarrow> event_envelope \<Rightarrow> outbox_row" where
  "queued_row device n env = \<lparr>ob_id = n, ob_device = device, ob_seq = n,
     ob_envelope = env\<lparr>en_origin_device_id := Some device, en_origin_seq := n\<rparr>, ob_flushed_at = None\<rparr>"

definition queue_ok :: "outbox \<Rightarrow> bool" where
  "queue_ok ox \<longleftrightarrow> numbered_rows (ox_device_id ox) (ox_rows ox) \<and> ox_high ox = length (ox_rows ox)"

lemma enqueue_next_ok:
  assumes "queue_ok ox"
  shows "enqueue_next (ox_device_id ox) env ox = Inr (ox\<lparr>ox_high := Suc (ox_high ox),
      ox_rows := ox_rows ox @ [queued_row (ox_device_id ox) (Suc (length (ox_rows ox))) env]\<rparr>)"
    and "queue_ok (ox\<lparr>ox_high := Suc (ox_high ox),
      ox_rows := ox_rows ox @ [queued_row (ox_device_id ox) (Suc (length (ox_rows ox))) env]\<rparr>)"
proof -
  have num: "numbered_rows (ox_device_id ox) (ox_rows ox)" "ox_high ox = length (ox_rows ox)" using assms by (simp_all add: queue_ok_def)
  then have "Suc (length (ox_rows ox)) \<notin> set (map ob_seq (ox_rows ox))" by (simp add: numbered_rows_def)
  then have "\<not> list_ex (\<lambda>r. ob_device r = ox_device_id ox \<and> ob_seq r = Suc (length (ox_rows ox))) (ox_rows ox)"
    by (auto simp: list_ex_iff) (metis imageI)
  then show "enqueue_next (ox_device_id ox) env ox = Inr (ox\<lparr>ox_high := Suc (ox_high ox),
      ox_rows := ox_rows ox @ [queued_row (ox_device_id ox) (Suc (length (ox_rows ox))) env]\<rparr>)"
    using num by (simp add: enqueue_next_def next_number enqueue_on_def queued_row_def)
  show "queue_ok (ox\<lparr>ox_high := Suc (ox_high ox),
      ox_rows := ox_rows ox @ [queued_row (ox_device_id ox) (Suc (length (ox_rows ox))) env]\<rparr>)"
    using num by (simp add: queue_ok_def numbered_rows_def queued_row_def)
qed

abbreviation row_event :: "outbox_row \<Rightarrow> uuid" where
  "row_event r \<equiv> en_id (ob_envelope r)"

lemma enqueue_all_ok:
  assumes "queue_ok ox"
  shows "\<exists>ox'. enqueue_all (ox_device_id ox) es ox = Inr ox' \<and> queue_ok ox' \<and>
    (\<exists>new. ox_rows ox' = ox_rows ox @ new \<and> map row_event new = map en_id es \<and> list_all (\<lambda>r. ob_flushed_at r = None) new) \<and>
    ox_rejected ox' = ox_rejected ox \<and> ox_device_id ox' = ox_device_id ox \<and> ox_unconfirmed ox' = ox_unconfirmed ox"
  using assms
proof (induction es arbitrary: ox)
  case (Cons e es)
  let ?ox = "ox\<lparr>ox_high := Suc (ox_high ox), ox_rows := ox_rows ox @ [queued_row (ox_device_id ox) (Suc (length (ox_rows ox))) e]\<rparr>"
  note one = enqueue_next_ok [OF Cons.prems, of e]
  obtain ox' new where "enqueue_all (ox_device_id ?ox) es ?ox = Inr ox'" "queue_ok ox'"
    "ox_rows ox' = ox_rows ?ox @ new" "map row_event new = map en_id es" "list_all (\<lambda>r. ob_flushed_at r = None) new"
    "ox_rejected ox' = ox_rejected ?ox" "ox_device_id ox' = ox_device_id ?ox" "ox_unconfirmed ox' = ox_unconfirmed ?ox"
    using Cons.IH [OF one(2)] by blast
  then show ?case using one(1)
    by (intro exI [of _ ox'] conjI exI [of _ "queued_row (ox_device_id ox) (Suc (length (ox_rows ox))) e # new"])
      (simp_all add: queued_row_def)
qed simp

subsection \<open>Local commands\<close>

text \<open>The rows of \<open>ox'\<close> are those of \<open>ox\<close> and one unsent row for each of the events \<open>ids\<close>.\<close>

definition grown :: "outbox \<Rightarrow> uuid list \<Rightarrow> outbox \<Rightarrow> bool" where
  "grown ox ids ox' \<longleftrightarrow> queue_ok ox' \<and> ox_rejected ox' = ox_rejected ox \<and>
     (\<exists>new. ox_rows ox' = ox_rows ox @ new \<and> map row_event new = ids \<and> list_all (\<lambda>r. ob_flushed_at r = None) new)"

lemma grown_trans: "grown ox as ox1 \<Longrightarrow> grown ox1 bs ox2 \<Longrightarrow> grown ox (as @ bs) ox2"
  by (fastforce simp: grown_def)

lemma grown_refl: "queue_ok ox \<Longrightarrow> grown ox [] ox"
  by (simp add: grown_def)

lemma enqueue_next_grown:
  assumes "queue_ok ox" "enqueue_next (ox_device_id ox) env ox = Inr ox'"
  shows "grown ox [en_id env] ox'"
  using enqueue_next_ok [OF assms(1), of env] assms(2) by (auto simp: grown_def queued_row_def)

lemma enqueue_all_grown:
  assumes "queue_ok ox" "enqueue_all (ox_device_id ox) es ox = Inr ox'"
  shows "grown ox (map en_id es) ox'"
  using enqueue_all_ok [OF assms(1), of es] assms(2) by (auto simp: grown_def)

lemma outbound_append_grown:
  assumes "outbound_append envs d = Inr (events, d')" "queue_ok (dv_outbox d)"
  shows "grown (dv_outbox d) (map en_id events) (dv_outbox d')"
  using assms
proof (induction envs arbitrary: d events)
  case Nil
  then show ?case by (simp add: grown_refl)
next
  case (Cons env envs)
  obtain event l ox es d1 where one: "enqueue_next (ox_device_id (dv_outbox d)) event (dv_outbox d) = Inr ox"
    and rest: "outbound_append envs d1 = Inr (es, d')" "dv_outbox d1 = ox" and events: "events = event # es"
    using Cons.prems(1) by (fastforce simp: bind_result_Inr_iff split: if_splits)
  have g: "grown (dv_outbox d) [en_id event] ox" by (rule enqueue_next_grown [OF Cons.prems(2) one])
  then have "grown ox (map en_id es) (dv_outbox d')" using Cons.IH [OF rest(1)] rest(2) by (simp add: grown_def)
  from grown_trans [OF g this] show ?case by (simp add: events)
qed

subsection \<open>The flush\<close>

text \<open>The entries the server takes on the way through \<open>rs\<close>, up to the first failure of the transport.\<close>

fun taken :: "(event_envelope \<Rightarrow> push_outcome result) \<Rightarrow> outbox_row list \<Rightarrow> nat list" where
  "taken push [] = []"
| "taken push (r # rs) =
     (case push (ob_envelope r) of
        Inl e \<Rightarrow> []
      | Inr Accepted \<Rightarrow> ob_id r # taken push rs
      | Inr (Rejected status code) \<Rightarrow> taken push rs)"

definition unsent :: "outbox_row \<Rightarrow> outbox_row" where
  "unsent r = r\<lparr>ob_flushed_at := None\<rparr>"

definition same_queue :: "outbox \<Rightarrow> outbox \<Rightarrow> bool" where
  "same_queue ox ox' \<longleftrightarrow> map unsent (ox_rows ox') = map unsent (ox_rows ox) \<and> ox_high ox' = ox_high ox \<and> ox_device_id ox' = ox_device_id ox"

definition settled :: "outbox \<Rightarrow> nat list" where
  "settled ox = map ob_id (filter (\<lambda>r. ob_flushed_at r \<noteq> None) (ox_rows ox))"

lemma settled_iff: "i \<in> set (settled ox) \<longleftrightarrow> (\<exists>r\<in>set (ox_rows ox). ob_id r = i \<and> ob_flushed_at r \<noteq> None)"
  by (auto simp: settled_def)

lemma mark_flushed_ok:
  fixes ox ox' :: outbox
  assumes "mark_flushed now i ox = (new, ox')"
  shows "same_queue ox ox'" "set (settled ox') = set (settled ox) \<union> (if i \<in> set (map ob_id (ox_rows ox)) then {i} else {})"
proof -
  have ox': "ox' = ox\<lparr>ox_rows := map (\<lambda>r. if ob_id r = i \<and> ob_flushed_at r = None then r\<lparr>ob_flushed_at := Some now\<rparr> else r) (ox_rows ox)\<rparr>"
    using assms by (simp add: mark_flushed_def)
  show "same_queue ox ox'" by (simp add: ox' same_queue_def unsent_def)
  show "set (settled ox') = set (settled ox) \<union> (if i \<in> set (map ob_id (ox_rows ox)) then {i} else {})"
  proof -
    define f where "f = (\<lambda>r :: outbox_row. if ob_id r = i \<and> ob_flushed_at r = None then r\<lparr>ob_flushed_at := Some now\<rparr> else r)"
    have f: "ob_id (f r) = ob_id r" "(ob_flushed_at (f r) \<noteq> None) = (ob_flushed_at r \<noteq> None \<or> ob_id r = i)" for r by (auto simp: f_def)
    have "ox_rows ox' = map f (ox_rows ox)" by (simp add: ox' f_def)
    then have "(j \<in> set (settled ox')) = (\<exists>r\<in>set (ox_rows ox). ob_id r = j \<and> (ob_flushed_at r \<noteq> None \<or> ob_id r = i))" for j
      unfolding settled_iff by (simp only: set_map bex_simps f)
    then show ?thesis by (auto simp: set_eq_iff settled_iff)
  qed
qed

lemma same_queue_trans: "same_queue a b \<Longrightarrow> same_queue b c \<Longrightarrow> same_queue a c"
  by (simp add: same_queue_def)

lemma unsent_sel [simp]: "ob_id (unsent r) = ob_id r" "ob_seq (unsent r) = ob_seq r" "ob_device (unsent r) = ob_device r"
  "ob_envelope (unsent r) = ob_envelope r"
  by (simp_all add: unsent_def)

lemma unsent_map:
  assumes "map unsent rs = map unsent ss" "\<And>r. f (unsent r) = f r"
  shows "map f rs = map f ss"
  using arg_cong [OF assms(1), of "map f"] by (simp add: assms(2) comp_def)

lemma same_queue_views:
  assumes "same_queue ox ox'"
  shows "map ob_id (ox_rows ox') = map ob_id (ox_rows ox)" "map ob_seq (ox_rows ox') = map ob_seq (ox_rows ox)"
    "map ob_device (ox_rows ox') = map ob_device (ox_rows ox)" "map row_event (ox_rows ox') = map row_event (ox_rows ox)"
  using assms by (auto simp: same_queue_def intro!: unsent_map)

lemma flush_rows_ok:
  "flush_rows now push rs stats ox = (r, ox') \<Longrightarrow> set (map ob_id rs) \<subseteq> set (map ob_id (ox_rows ox)) \<Longrightarrow>
   same_queue ox ox' \<and> set (settled ox') = set (settled ox) \<union> set (taken push rs)"
proof (induction rs arbitrary: stats ox)
  case Nil
  then show ?case by (simp add: same_queue_def)
next
  case (Cons row rs)
  show ?case
  proof (cases "push (ob_envelope row)")
    case (Inl e)
    then show ?thesis using Cons.prems by (simp add: same_queue_def)
  next
    case (Inr out)
    show ?thesis
    proof (cases out)
      case Accepted
      obtain new ox1 where m: "mark_flushed now (ob_id row) ox = (new, ox1)" by fastforce
      have f: "flush_rows now push rs (stats\<lparr>fs_flushed := fs_flushed stats + (if new then 1 else 0)\<rparr>) ox1 = (r, ox')"
        using Cons.prems(1) Inr Accepted m by simp
      have "set (map ob_id rs) \<subseteq> set (map ob_id (ox_rows ox1))"
        using Cons.prems(2) by (simp only: same_queue_views(1) [OF mark_flushed_ok(1) [OF m]]) auto
      from Cons.IH [OF f this] show ?thesis
        using mark_flushed_ok [OF m] Cons.prems(2) Inr Accepted same_queue_trans by auto
    next
      case (Rejected status code)
      let ?ox = "mark_rejected (ob_id row) status code ox"
      have eq: "ox_rows ?ox = ox_rows ox" "ox_high ?ox = ox_high ox" "ox_device_id ?ox = ox_device_id ox"
        by (simp_all add: mark_rejected_def)
      have f: "flush_rows now push rs (stats\<lparr>fs_rejected := fs_rejected stats + 1\<rparr>) ?ox = (r, ox')"
        using Cons.prems(1) Inr Rejected by simp
      show ?thesis using Cons.IH [OF f] Cons.prems(2) Inr Rejected eq by (simp add: same_queue_def settled_def)
    qed
  qed
qed

lemma queue_ok_views: "queue_ok ox \<longleftrightarrow> list_all (\<lambda>d. d = ox_device_id ox) (map ob_device (ox_rows ox)) \<and>
    map ob_seq (ox_rows ox) = [1 ..< Suc (ox_high ox)] \<and> map ob_id (ox_rows ox) = [1 ..< Suc (ox_high ox)]"
proof -
  have "map ob_seq (ox_rows ox) = [1 ..< Suc (ox_high ox)] \<Longrightarrow> length (ox_rows ox) = ox_high ox"
    by (metis diff_Suc_1 length_map length_upt One_nat_def)
  then show ?thesis by (auto simp: queue_ok_def numbered_rows_def list.pred_map comp_def)
qed

lemma queue_ok_same: "same_queue ox ox' \<Longrightarrow> queue_ok ox \<Longrightarrow> queue_ok ox'"
  unfolding queue_ok_views using same_queue_views [of ox ox'] by (simp add: same_queue_def)

subsection \<open>Runs of the queue\<close>

text \<open>
  \<open>queue_run d events sent\<close>: the device \<open>d\<close> may stand after \<open>events\<close> were written locally (or found lost) and the
  server took the entries \<open>sent\<close>. Between the steps the replica may change in any way, as the sync does.
\<close>

definition empty_queue :: "outbox \<Rightarrow> bool" where
  "empty_queue ox \<longleftrightarrow> ox_rows ox = [] \<and> ox_high ox = 0 \<and> ox_rejected ox = [] \<and> ox_unconfirmed ox = []"

inductive queue_run :: "device_state \<Rightarrow> uuid list \<Rightarrow> nat list \<Rightarrow> bool" where
  opened: "empty_queue (dv_outbox d) \<Longrightarrow> queue_run d [] []"
| synced: "queue_run d ids sent \<Longrightarrow> queue_run (d\<lparr>dv_replica := rp\<rparr>) ids sent"
| command: "queue_run d ids sent \<Longrightarrow> outbound_append envs d = Inr (events, d') \<Longrightarrow>
    queue_run (mark_projected events d') (ids @ map en_id events) sent"
| flushed: "queue_run d ids sent \<Longrightarrow> flush_pending now push limit d = (r, d') \<Longrightarrow>
    queue_run d' ids (sent @ taken push (sendable limit d))"
| requeued: "queue_run d ids sent \<Longrightarrow> queue_run (d\<lparr>dv_outbox := snd (requeue_rejected (dv_outbox d))\<rparr>) ids sent"
| checked: "queue_run d ids sent \<Longrightarrow> find_lost fuel src limit (\<lambda>d. d) d = Some (r, d') \<Longrightarrow> queue_run d' ids sent"
| restored: "queue_run d ids sent \<Longrightarrow> restore_lost fuel src limit (\<lambda>d. d) d = Some (Inr 0, d') \<Longrightarrow> queue_run d' ids sent"
| requested: "queue_run d ids sent \<Longrightarrow> restore_lost fuel src limit (\<lambda>d. d) d = Some (Inr (Suc n), d') \<Longrightarrow>
    server_event_ids fuel src limit (rp_server_seq (dv_replica d)) = Some (Inr known) \<Longrightarrow>
    queue_run d' (ids @ map en_id (filter (\<lambda>e. en_id e \<notin> set known) (unconfirmed_events d))) sent"

definition queue_inv :: "outbox \<Rightarrow> uuid list \<Rightarrow> nat list \<Rightarrow> bool" where
  "queue_inv ox ids sent \<longleftrightarrow> queue_ok ox \<and> map row_event (ox_rows ox) = ids \<and> set (settled ox) = set sent"

lemma grown_settled: "grown ox new ox' \<Longrightarrow> settled ox' = settled ox"
  by (auto simp: grown_def settled_def list_all_iff)

lemma grown_inv: "grown ox new ox' \<Longrightarrow> queue_inv ox ids sent \<Longrightarrow> queue_inv ox' (ids @ new) sent"
  using grown_settled [of ox new ox'] by (auto simp: grown_def queue_inv_def)

lemma queue_inv_cong:
  "ox_rows ox' = ox_rows ox \<Longrightarrow> ox_high ox' = ox_high ox \<Longrightarrow> ox_device_id ox' = ox_device_id ox \<Longrightarrow>
   queue_inv ox ids sent \<Longrightarrow> queue_inv ox' ids sent"
  by (simp add: queue_inv_def queue_ok_def settled_def)

lemma pending_subset: "set (pending_rows ox) \<subseteq> set (ox_rows ox)"
  by (auto simp: pending_rows_def)

lemma sendable_subset: "set (sendable limit d) \<subseteq> set (ox_rows (dv_outbox d))"
  using pending_subset by (fastforce simp: sendable_def pending_def Let_def dest: in_set_takeD split: if_splits)

lemma flush_pending_inv:
  assumes "flush_pending now push limit d = (r, d')" "queue_inv (dv_outbox d) ids sent"
  shows "queue_inv (dv_outbox d') ids (sent @ taken push (sendable limit d))"
proof -
  have "set (map ob_id (sendable limit d)) \<subseteq> set (map ob_id (ox_rows (dv_outbox d)))"
    unfolding set_map by (rule image_mono) (rule sendable_subset)
  then have f: "same_queue (dv_outbox d) (dv_outbox d')"
    "set (settled (dv_outbox d')) = set (settled (dv_outbox d)) \<union> set (taken push (sendable limit d))"
    using assms(1) flush_rows_ok by (fastforce simp: flush_pending_def Let_def split: prod.splits)+
  then show ?thesis using assms(2) queue_ok_same [OF f(1)] same_queue_views(4) [OF f(1)] by (simp add: queue_inv_def)
qed

lemma restore_lost_inv:
  assumes "restore_lost fuel src limit (\<lambda>d. d) d = Some (Inr n, d')" "queue_inv (dv_outbox d) ids sent"
  shows "n = 0 \<Longrightarrow> queue_inv (dv_outbox d') ids sent"
    "n \<noteq> 0 \<Longrightarrow> server_event_ids fuel src limit (rp_server_seq (dv_replica d)) = Some (Inr known) \<Longrightarrow>
       queue_inv (dv_outbox d') (ids @ map en_id (filter (\<lambda>e. en_id e \<notin> set known) (unconfirmed_events d))) sent"
proof -
  have cases: "(n = 0 \<and> d' = d) \<or> (\<exists>known ox. server_event_ids fuel src limit (rp_server_seq (dv_replica d)) = Some (Inr known) \<and>
      enqueue_all (ox_device_id (dv_outbox d)) (filter (\<lambda>e. en_id e \<notin> set known) (unconfirmed_events d)) (dv_outbox d) = Inr ox \<and>
      n = length (filter (\<lambda>e. en_id e \<notin> set known) (unconfirmed_events d)) \<and> dv_outbox d' = ox\<lparr>ox_unconfirmed := []\<rparr>)"
    using assms(1) by (auto simp: restore_lost_def Let_def split: if_splits option.splits sum.splits)
  have ok: "queue_ok (dv_outbox d)" using assms(2) by (simp add: queue_inv_def)
  have new: "queue_inv (dv_outbox d') (ids @ map en_id es) sent"
    if "enqueue_all (ox_device_id (dv_outbox d)) es (dv_outbox d) = Inr ox" "dv_outbox d' = ox\<lparr>ox_unconfirmed := []\<rparr>" for es ox
    by (rule queue_inv_cong [OF _ _ _ grown_inv [OF enqueue_all_grown [OF ok that(1)] assms(2)]]) (simp_all add: that(2))
  show "queue_inv (dv_outbox d') ids sent" if "n = 0" using cases new [of "[]"] assms(2) that by auto
  show "queue_inv (dv_outbox d') (ids @ map en_id (filter (\<lambda>e. en_id e \<notin> set known) (unconfirmed_events d))) sent"
    if "n \<noteq> 0" "server_event_ids fuel src limit (rp_server_seq (dv_replica d)) = Some (Inr known)"
    using cases new that by auto
qed

lemma queue_run_inv: "queue_run d ids sent \<Longrightarrow> queue_inv (dv_outbox d) ids sent"
proof (induction rule: queue_run.induct)
  case (opened d)
  then show ?case by (simp add: empty_queue_def queue_inv_def queue_ok_def numbered_rows_def settled_def)
next
  case (command d ids sent envs events d')
  then have "grown (dv_outbox d) (map en_id events) (dv_outbox d')"
    using outbound_append_grown queue_inv_def by blast
  then show ?case using grown_inv command.IH by (simp add: mark_projected_def)
next
  case (flushed d ids sent now push limit r d')
  then show ?case by (intro flush_pending_inv)
next
  case (requeued d ids sent)
  show ?case by (rule queue_inv_cong [OF _ _ _ requeued.IH]) (simp_all add: requeue_rejected_def)
next
  case (checked d ids sent fuel src limit r d')
  show ?case
    by (rule queue_inv_cong [OF _ _ _ checked.IH])
      (use checked.hyps(2) in \<open>auto simp: find_lost_def Let_def split: if_splits option.splits sum.splits\<close>)
next
  case (restored d ids sent fuel src limit d')
  then show ?case by (metis restore_lost_inv(1))
next
  case (requested d ids sent fuel src limit n d' known)
  then show ?case using restore_lost_inv(2) [OF requested.hyps(2) requested.IH _ requested.hyps(3)] by simp
qed simp

lemma queue_numbers:
  assumes "queue_run d ids sent"
  shows "map (\<lambda>r. (ob_seq r, row_event r)) (ox_rows (dv_outbox d)) = zip [1 ..< Suc (length ids)] ids"
proof -
  have inv: "queue_inv (dv_outbox d) ids sent" by (rule queue_run_inv [OF assms])
  have "map (\<lambda>r. (ob_seq r, row_event r)) rs = zip (map ob_seq rs) (map row_event rs)" for rs by (induction rs) simp_all
  moreover have "length ids = length (ox_rows (dv_outbox d))" using inv by (auto simp: queue_inv_def)
  ultimately show ?thesis using inv by (simp add: queue_inv_def queue_ok_def numbered_rows_def)
qed

lemma queue_ids_are_numbers: "queue_ok ox \<Longrightarrow> r \<in> set (ox_rows ox) \<Longrightarrow> ob_id r = ob_seq r"
proof -
  assume "queue_ok ox" "r \<in> set (ox_rows ox)"
  then have "map ob_id (ox_rows ox) = map ob_seq (ox_rows ox)" by (simp add: queue_ok_def numbered_rows_def)
  then show ?thesis using \<open>r \<in> set (ox_rows ox)\<close> by simp
qed

lemma queue_settled:
  assumes "queue_run d ids sent" "r \<in> set (ox_rows (dv_outbox d))"
  shows "ob_flushed_at r \<noteq> None \<longleftrightarrow> ob_seq r \<in> set sent"
proof -
  have inv: "queue_ok (dv_outbox d)" "set (settled (dv_outbox d)) = set sent"
    using queue_run_inv [OF assms(1)] by (simp_all add: queue_inv_def)
  have "distinct (map ob_id (ox_rows (dv_outbox d)))" using inv(1) by (simp add: queue_ok_def numbered_rows_def)
  then have "ob_flushed_at r \<noteq> None \<longleftrightarrow> ob_id r \<in> set (settled (dv_outbox d))"
    using assms(2) by (auto simp: settled_iff distinct_map dest: inj_onD)
  then show ?thesis using inv(2) queue_ids_are_numbers [OF inv(1) assms(2)] by simp
qed

text \<open>
  C10: the outbox loses nothing and repeats nothing. Whatever local commands, flushes, requeues and checks ran, the queue
  holds one entry for each event the device wrote, numbered 1, 2, ... in the order of the writes; an entry is marked
  flushed exactly when the server took it; and every other entry is pending or in the dead letters.
\<close>
theorem queue_loses_nothing:
  assumes "queue_run d ids sent"
  shows "map (\<lambda>r. (ob_seq r, en_id (ob_envelope r))) (ox_rows (dv_outbox d)) = zip [1 ..< Suc (length ids)] ids \<and>
    (\<forall>r\<in>set (ox_rows (dv_outbox d)). (ob_flushed_at r \<noteq> None \<longleftrightarrow> ob_seq r \<in> set sent) \<and>
       (ob_seq r \<in> set sent \<or> r \<in> set (pending_rows (dv_outbox d)) \<or> ob_seq r \<in> set (rejected_ids (dv_outbox d))))"
proof (intro conjI ballI)
  fix r assume r: "r \<in> set (ox_rows (dv_outbox d))"
  show settled: "ob_flushed_at r \<noteq> None \<longleftrightarrow> ob_seq r \<in> set sent" by (rule queue_settled [OF assms r])
  have "ob_id r = ob_seq r" using queue_run_inv [OF assms] queue_ids_are_numbers r by (auto simp: queue_inv_def)
  then show "ob_seq r \<in> set sent \<or> r \<in> set (pending_rows (dv_outbox d)) \<or> ob_seq r \<in> set (rejected_ids (dv_outbox d))"
    using settled r by (auto simp: pending_rows_def)
qed (rule queue_numbers [OF assms])

text \<open>The search for lost events ends against a server that answers from its log: every page moves the position.\<close>

lemma server_ids_end:
  assumes "history_ok h" "answers h src"
  shows "latest_seq (sh_log h) - since < fuel \<Longrightarrow> server_ids_from fuel src limit since ids \<noteq> None"
proof (induction fuel arbitrary: since ids)
  case (Suc fuel)
  show ?case
  proof (cases "sc_events src since limit")
    case (Inr page)
    have "since < en_seq (last page) \<and> en_seq (last page) \<le> latest_seq (sh_log h)" if "page \<noteq> []"
      using answered_page [OF assms(2) Inr] set_load_since [of "last page"] last_in_set [OF that] assms(1)
      by (auto simp: history_ok_def log_ok_def latest_seq_def)
    then show ?thesis using Inr Suc.IH [of "en_seq (last page)"] Suc.prems by auto
  qed simp
qed simp

subsection \<open>Order\<close>

lemma map_of_least:
  "sorted (map snd kvs) \<Longrightarrow> (k, v) \<in> set kvs \<Longrightarrow> \<exists>w. map_of kvs k = Some w \<and> w \<le> (v :: nat)"
  by (induction kvs) auto

lemma sorted_map_filter:
  "sorted (map f xs) \<Longrightarrow> (\<And>x y. g x = Some y \<Longrightarrow> h y = f x) \<Longrightarrow> sorted (map h (List.map_filter g xs))"
  by (induction xs) (auto simp: List.map_filter_simps split: option.splits simp: List.map_filter_def)

lemma held_first:
  assumes "e \<in> set (unconfirmed_events d)" "event_target_task (en_payload e) = Some t"
  shows "\<exists>w. map_of (held_tasks d) t = Some w \<and> w \<le> en_seq e"
proof (rule map_of_least)
  have "sorted (map en_seq (unconfirmed_events d))" by (simp add: unconfirmed_events_def)
  then show "sorted (map snd (held_tasks d))" unfolding held_tasks_def by (rule sorted_map_filter) auto
  show "(t, en_seq e) \<in> set (held_tasks d)"
    using assms by (force simp: held_tasks_def List.map_filter_def)
qed

lemma pending_sorted: "sorted (map (\<lambda>r. en_seq (ob_envelope r)) (pending_rows ox))"
  by (simp add: pending_rows_def)

text \<open>Both branches of \<open>sendable\<close> at once: without a held event nothing waits.\<close>

lemma sendable_eq: "sendable limit d = take (max limit 1) (filter (\<lambda>r. \<not> waits_for_held (held_tasks d) r) (pending_rows (dv_outbox d)))"
  by (simp add: sendable_def pending_def waits_for_held_def Let_def)

lemma sorted_take_below:
  assumes "sorted (map f xs)" "x \<in> set (take n xs)" "y \<in> set xs" "f y < (f x :: nat)"
  shows "y \<in> set (take n xs)"
proof (rule ccontr)
  assume "y \<notin> set (take n xs)"
  moreover have "set xs = set (take n xs) \<union> set (drop n xs)" by (metis append_take_drop_id set_append)
  ultimately have "y \<in> set (drop n xs)" using assms(3) by blast
  moreover have "sorted (map f (take n xs @ drop n xs))" using assms(1) by simp
  then have "\<forall>a \<in> set (take n xs). \<forall>b \<in> set (drop n xs). f a \<le> f b" unfolding map_append sorted_append by simp
  ultimately show False using assms(2,4) by (meson not_le)
qed

text \<open>
  C11: the flush keeps the order of a task. What it sends is in log order. With an entry it sends every pending entry of
  the same task that comes before it, and it sends no entry of a task that comes after a held event of this task, which the
  server may not have.
\<close>

theorem sendable_keeps_task_order:
  "sorted (map (\<lambda>r. en_seq (ob_envelope r)) (sendable limit d)) \<and>
   (\<forall>r \<in> set (sendable limit d). \<forall>t. event_target_task (en_payload (ob_envelope r)) = Some t \<longrightarrow>
      (\<forall>q \<in> set (pending_rows (dv_outbox d)). event_target_task (en_payload (ob_envelope q)) = Some t \<and>
         en_seq (ob_envelope q) < en_seq (ob_envelope r) \<longrightarrow> q \<in> set (sendable limit d)) \<and>
      (\<forall>e \<in> set (unconfirmed_events d). event_target_task (en_payload e) = Some t \<longrightarrow>
         en_seq (ob_envelope r) \<le> en_seq e))"
proof (intro conjI ballI allI impI)
  let ?seq = "\<lambda>r. en_seq (ob_envelope r)" and ?free = "\<lambda>r. \<not> waits_for_held (held_tasks d) r"
  have sorted: "sorted (map ?seq (filter ?free (pending_rows (dv_outbox d))))"
    using pending_sorted by (simp add: sorted_filter)
  then show "sorted (map ?seq (sendable limit d))"
    by (simp add: sendable_eq take_map [symmetric] sorted_wrt_take)
  fix r t
  assume r: "r \<in> set (sendable limit d)" "event_target_task (en_payload (ob_envelope r)) = Some t"
  have free: "?free r" using r(1) by (auto simp: sendable_eq dest: in_set_takeD)
  show "q \<in> set (sendable limit d)"
    if "q \<in> set (pending_rows (dv_outbox d))" "event_target_task (en_payload (ob_envelope q)) = Some t \<and> ?seq q < ?seq r" for q
  proof -
    have "?free q" using free r(2) that(2) by (auto simp: waits_for_held_def split: option.splits)
    then show ?thesis using sorted_take_below [OF sorted, of r _ q] r(1) that by (simp add: sendable_eq)
  qed
  show "?seq r \<le> en_seq e" if "e \<in> set (unconfirmed_events d)" "event_target_task (en_payload e) = Some t" for e
    using held_first [OF that] free r(2) by (auto simp: waits_for_held_def)
qed

subsection \<open>An example\<close>

text \<open>
  A device creates a task (entry 1); an older binary, which knew no queue, deleted it (held back until checked); then
  the task is deleted again (entry 2).
\<close>

definition demo_deleted :: "uuid \<Rightarrow> event_envelope" where
  "demo_deleted i = envelope_new i 6 actor_user (TaskEv (TaskDeleted 3))"

definition demo_empty_device :: device_state where
  "demo_empty_device = \<lparr>dv_replica = new_replica,
     dv_outbox = \<lparr>ox_rows = [], ox_high = 0, ox_rejected = [], ox_device_id = 7, ox_log_checked = True, ox_unconfirmed = [], ox_no_owner = False\<rparr>\<rparr>"

definition demo_write_on :: "event_envelope \<Rightarrow> device_state \<Rightarrow> device_state" where
  "demo_write_on e d = (case outbound_append [e] d of Inr (events, d') \<Rightarrow> mark_projected events d' | Inl _ \<Rightarrow> d)"

definition demo_wrote :: device_state where
  "demo_wrote = demo_write_on demo_created demo_empty_device"

definition demo_push :: "event_envelope \<Rightarrow> push_outcome result" where
  "demo_push e = push_answer 200 ''''"

definition demo_flushed :: device_state where
  "demo_flushed = snd (flush_pending 9 demo_push 100 demo_wrote)"

definition demo_held :: device_state where
  "demo_held = demo_write_on (demo_deleted 92) (demo_wrote
     \<lparr>dv_replica := (dv_replica demo_wrote)\<lparr>rp_log := log_insert (demo_deleted 91) (rp_log (dv_replica demo_wrote))\<rparr>,
      dv_outbox := (dv_outbox demo_wrote)\<lparr>ox_unconfirmed := [91]\<rparr>\<rparr>)"

lemma demo_write_once: "outbound_append [demo_created] demo_empty_device = Inr ([demo_created\<lparr>en_seq := 1\<rparr>], d') \<Longrightarrow>
    demo_wrote = mark_projected [demo_created\<lparr>en_seq := 1\<rparr>] d'"
  by (simp add: demo_wrote_def demo_write_on_def)

theorem queue_loses_nothing_witness:
  "map (\<lambda>r. (ob_seq r, en_id (ob_envelope r))) (ox_rows (dv_outbox demo_flushed)) = [(1, 90)] \<and>
   list_all (\<lambda>r. ob_flushed_at r \<noteq> None) (ox_rows (dv_outbox demo_flushed))"
proof -
  obtain d' where app: "outbound_append [demo_created] demo_empty_device = Inr ([demo_created\<lparr>en_seq := 1\<rparr>], d')"
    by (simp add: demo_empty_device_def new_replica_def append_on_def log_accepts_def empty_log_def enqueue_next_def next_origin_seq_def
        enqueue_on_def)
  have "queue_run demo_empty_device [] []" by (rule queue_run.opened) (simp add: demo_empty_device_def empty_queue_def)
  from queue_run.command [OF this app] have "queue_run demo_wrote [90] []"
    by (simp add: demo_write_once [OF app]) (simp add: demo_created_def envelope_new_def)
  moreover have "taken demo_push (sendable 100 demo_wrote) = [1]" by code_simp
  ultimately have run: "queue_run demo_flushed [90] [1]"
    using queue_run.flushed [of demo_wrote "[90]" "[]" 9 demo_push 100] unfolding demo_flushed_def by (metis append_Nil prod.collapse)
  note facts = queue_loses_nothing [OF run]
  have "map (\<lambda>r. (ob_seq r, en_id (ob_envelope r))) (ox_rows (dv_outbox demo_flushed)) = [(1, 90)]"
    using conjunct1 [OF facts] by simp
  moreover from this have "list_all (\<lambda>r. ob_seq r = 1) (ox_rows (dv_outbox demo_flushed))" by (auto simp: map_eq_Cons_conv)
  ultimately show ?thesis using conjunct2 [OF facts] by (auto simp: list_all_iff)
qed

theorem sendable_keeps_task_order_witness:
  "\<exists>r e. sendable 100 demo_held = [r] \<and> unconfirmed_events demo_held = [e] \<and> en_seq (ob_envelope r) \<le> en_seq e \<and> held_back demo_held = 1"
proof -
  have demo: "map (\<lambda>r. event_target_task (en_payload (ob_envelope r))) (sendable 100 demo_held) = [Some 3]"
    "map (\<lambda>e. event_target_task (en_payload e)) (unconfirmed_events demo_held) = [Some 3]" "held_back demo_held = 1"
    by code_simp+
  then obtain r e where "sendable 100 demo_held = [r]" "unconfirmed_events demo_held = [e]"
    "event_target_task (en_payload (ob_envelope r)) = Some 3" "event_target_task (en_payload e) = Some 3"
    by (auto simp: map_eq_Cons_conv)
  moreover from this have "en_seq (ob_envelope r) \<le> en_seq e"
    using sendable_keeps_task_order [of 100 demo_held] by simp
  ultimately show ?thesis using demo(3) by blast
qed

end
