(* ===== verification/Auth.thy ===== *)
theory Auth
  imports Domain_Work
begin

unbundle bit_operations_syntax

text \<open>
  \<^verbatim>\<open>crates/auth/src\<close> (capability mask, token scope, token records, the bearer verifier, the request
  context) and the repositories behind it: \<^verbatim>\<open>crates/storage/src/token_repo.rs\<close> and
  \<^verbatim>\<open>crates/storage/src/device_repo.rs\<close>.

  Argon2 and the random source are outside the repository: \<open>verify_pw\<close> stands for \<^verbatim>\<open>verify_plaintext\<close> on
  a stored hash, \<open>hash_pw\<close> for \<^verbatim>\<open>hash_plaintext\<close>, and the random part of a token is an argument. A
  capability mask is a 32-bit word. One clock reading \<open>now\<close> serves a whole call; times are seconds. A read of the token
  table that fails (\<open>VerStorage\<close>) is not modelled: the table answers.
\<close>

subsection \<open>Capabilities\<close>

datatype capability =
    TaskRead | TaskWrite | CommentRead | CommentWrite | AgentDispatch | ProjectRead | ProjectWrite
  | SubscribeTasks | SubscribeComments | SubscribeAgentStatus | WebhookRead | WebhookWrite
  | TokenRead | TokenWrite | PlanRead | PlanWrite | RunRead | RunWrite | SubscribePlans | SubscribeRuns
  | TaskRelationRead | TaskRelationWrite | DocumentRead | DocumentWrite | Admin

fun capability_shift :: "capability \<Rightarrow> nat" where
  "capability_shift TaskRead = 0"
| "capability_shift TaskWrite = 1"
| "capability_shift CommentRead = 2"
| "capability_shift CommentWrite = 3"
| "capability_shift AgentDispatch = 4"
| "capability_shift ProjectRead = 5"
| "capability_shift ProjectWrite = 6"
| "capability_shift SubscribeTasks = 7"
| "capability_shift SubscribeComments = 8"
| "capability_shift SubscribeAgentStatus = 9"
| "capability_shift WebhookRead = 10"
| "capability_shift WebhookWrite = 11"
| "capability_shift TokenRead = 12"
| "capability_shift TokenWrite = 13"
| "capability_shift PlanRead = 14"
| "capability_shift PlanWrite = 15"
| "capability_shift RunRead = 16"
| "capability_shift RunWrite = 17"
| "capability_shift SubscribePlans = 18"
| "capability_shift SubscribeRuns = 19"
| "capability_shift TaskRelationRead = 20"
| "capability_shift TaskRelationWrite = 21"
| "capability_shift DocumentRead = 22"
| "capability_shift DocumentWrite = 23"
| "capability_shift Admin = 31"

fun capability_name :: "capability \<Rightarrow> string" where
  "capability_name TaskRead = ''task:read''"
| "capability_name TaskWrite = ''task:write''"
| "capability_name CommentRead = ''comment:read''"
| "capability_name CommentWrite = ''comment:write''"
| "capability_name AgentDispatch = ''agent:dispatch''"
| "capability_name ProjectRead = ''project:read''"
| "capability_name ProjectWrite = ''project:write''"
| "capability_name SubscribeTasks = ''subscribe:tasks''"
| "capability_name SubscribeComments = ''subscribe:comments''"
| "capability_name SubscribeAgentStatus = ''subscribe:agent_status''"
| "capability_name WebhookRead = ''webhook:read''"
| "capability_name WebhookWrite = ''webhook:write''"
| "capability_name TokenRead = ''token:read''"
| "capability_name TokenWrite = ''token:write''"
| "capability_name PlanRead = ''plan:read''"
| "capability_name PlanWrite = ''plan:write''"
| "capability_name RunRead = ''run:read''"
| "capability_name RunWrite = ''run:write''"
| "capability_name SubscribePlans = ''subscribe:plans''"
| "capability_name SubscribeRuns = ''subscribe:runs''"
| "capability_name TaskRelationRead = ''task_relation:read''"
| "capability_name TaskRelationWrite = ''task_relation:write''"
| "capability_name DocumentRead = ''document:read''"
| "capability_name DocumentWrite = ''document:write''"
| "capability_name Admin = ''admin''"

type_synonym capabilities = "32 word"

definition as_bit :: "capability \<Rightarrow> 32 word" where
  "as_bit c = push_bit (capability_shift c) 1"

definition capabilities_empty :: capabilities where
  "capabilities_empty = 0"

definition has_cap :: "capabilities \<Rightarrow> capability \<Rightarrow> bool" where
  "has_cap m cap \<longleftrightarrow> m AND as_bit Admin \<noteq> 0 \<or> m AND as_bit cap \<noteq> 0"

definition grant_cap :: "capability \<Rightarrow> capabilities \<Rightarrow> capabilities" where
  "grant_cap cap m = m OR as_bit cap"

definition revoke_cap :: "capability \<Rightarrow> capabilities \<Rightarrow> capabilities" where
  "revoke_cap cap m = m AND NOT (as_bit cap)"

definition capabilities_from :: "capability list \<Rightarrow> capabilities" where
  "capabilities_from caps = fold grant_cap caps capabilities_empty"

subsection \<open>Scope\<close>

datatype project_filter = FilterAll | FilterOnly "uuid list"

fun filter_allows :: "project_filter \<Rightarrow> uuid option \<Rightarrow> bool" where
  "filter_allows FilterAll _ = True"
| "filter_allows (FilterOnly projects) None = True"
| "filter_allows (FilterOnly projects) (Some p) = (p \<in> set projects)"

record token_scope =
  sc_projects :: project_filter
  sc_capabilities :: capabilities

definition scope_admin :: token_scope where
  "scope_admin = \<lparr>sc_projects = FilterAll, sc_capabilities = capabilities_from [Admin]\<rparr>"

definition scope_default_user :: token_scope where
  "scope_default_user = \<lparr>sc_projects = FilterAll,
     sc_capabilities = capabilities_from
       [TaskRead, TaskWrite, CommentRead, CommentWrite, ProjectRead, ProjectWrite, PlanRead, PlanWrite,
        RunRead, SubscribeTasks, SubscribeComments, SubscribePlans, SubscribeRuns, TaskRelationRead,
        DocumentRead]\<rparr>"

subsection \<open>Tokens\<close>

datatype token_kind = Pat | Bot | Svc | Usr | License

fun kind_slug :: "token_kind \<Rightarrow> string" where
  "kind_slug Pat = ''pat''"
| "kind_slug Bot = ''bot''"
| "kind_slug Svc = ''svc''"
| "kind_slug Usr = ''usr''"
| "kind_slug License = ''lic''"

definition parse_kind :: "string \<Rightarrow> token_kind result" where
  "parse_kind s =
     (if s = ''pat'' then Inr Pat
      else if s = ''bot'' then Inr Bot
      else if s = ''svc'' then Inr Svc
      else if s = ''usr'' then Inr Usr
      else if s = ''lic'' then Inr License
      else Inl (Serde ''unknown token kind: ''))"

record api_token =
  at_id :: uuid
  at_prefix :: string
  at_hash :: string
  at_kind :: token_kind
  at_agent_id :: uuid
  at_scope :: token_scope
  at_rate_limit_per_min :: "32 word"
  at_tenant_id :: "string option"
  at_created_at :: timestamp
  at_expired_at :: "timestamp option"
  at_last_used_at :: "timestamp option"
  at_revoked_at :: "timestamp option"
  at_device_id :: "uuid option"
  at_device_revoked_at :: "timestamp option"

definition token_is_active :: "timestamp \<Rightarrow> api_token \<Rightarrow> bool" where
  "token_is_active now t =
     (if at_revoked_at t \<noteq> None then False
      else \<not> (case at_expired_at t of Some exp \<Rightarrow> exp \<le> now | None \<Rightarrow> False))"

record new_token_spec =
  ns_kind :: token_kind
  ns_agent_id :: uuid
  ns_scope :: token_scope
  ns_rate_limit_per_min :: "32 word"
  ns_expired_at :: "timestamp option"

definition prefix_of :: "string \<Rightarrow> string" where
  "prefix_of token = take_chars 12 token"

definition render_plaintext :: "string \<Rightarrow> token_kind \<Rightarrow> string" where
  "render_plaintext secret kind = ''ta_'' @ kind_slug kind @ ''_'' @ secret"

definition generate ::
  "(string \<Rightarrow> string result) \<Rightarrow> string \<Rightarrow> uuid \<Rightarrow> timestamp \<Rightarrow> new_token_spec \<Rightarrow> (api_token \<times> string) result" where
  "generate hash_pw secret new_id now spec =
     (let plaintext = render_plaintext secret (ns_kind spec) in
      bind_result (hash_pw plaintext) (\<lambda>hash.
        Inr (\<lparr>at_id = new_id, at_prefix = take_chars 12 plaintext, at_hash = hash, at_kind = ns_kind spec,
              at_agent_id = ns_agent_id spec, at_scope = ns_scope spec,
              at_rate_limit_per_min = ns_rate_limit_per_min spec, at_tenant_id = None, at_created_at = now,
              at_expired_at = ns_expired_at spec, at_last_used_at = None, at_revoked_at = None,
              at_device_id = None, at_device_revoked_at = None\<rparr>, plaintext)))"

subsection \<open>Token and device repositories\<close>

record device =
  dv_id :: uuid
  dv_label :: string
  dv_created_at :: timestamp
  dv_last_seen_at :: "timestamp option"
  dv_revoked_at :: "timestamp option"
  dv_connected :: bool

record auth_store =
  as_tokens :: "api_token list"
  as_devices :: "device list"

text \<open>The row has no column for \<^verbatim>\<open>device_revoked_at\<close>: it is read through the join. \<^verbatim>\<open>tokens.device_id\<close>
  references \<^verbatim>\<open>devices(id)\<close>, so writing an unknown device fails.\<close>

definition device_known :: "auth_store \<Rightarrow> uuid option \<Rightarrow> bool" where
  "device_known s d = (case d of None \<Rightarrow> True | Some i \<Rightarrow> list_ex (\<lambda>x. dv_id x = i) (as_devices s))"

definition token_insert :: "api_token \<Rightarrow> auth_store \<Rightarrow> auth_store result" where
  "token_insert t s =
     (if list_ex (\<lambda>x. at_id x = at_id t) (as_tokens s) then Inl (Storage ''UNIQUE constraint failed'')
      else if \<not> device_known s (at_device_id t) then Inl (Storage ''FOREIGN KEY constraint failed'')
      else Inr (s\<lparr>as_tokens := as_tokens s @ [t\<lparr>at_device_revoked_at := None\<rparr>]\<rparr>))"

definition device_revocation :: "auth_store \<Rightarrow> api_token \<Rightarrow> timestamp option" where
  "device_revocation s t =
     Option.bind (at_device_id t) (\<lambda>d. Option.bind (row_get dv_id (as_devices s) d) dv_revoked_at)"

definition list_by_prefix :: "auth_store \<Rightarrow> string \<Rightarrow> api_token list" where
  "list_by_prefix s prefix =
     map (\<lambda>t. t\<lparr>at_device_revoked_at := device_revocation s t\<rparr>)
       (filter (\<lambda>t. at_prefix t = prefix) (as_tokens s))"

definition token_revoke :: "timestamp \<Rightarrow> uuid \<Rightarrow> auth_store \<Rightarrow> bool \<times> auth_store" where
  "token_revoke now i s =
     (list_ex (\<lambda>t. at_id t = i) (as_tokens s),
      s\<lparr>as_tokens := row_modify at_id i (\<lambda>t. t\<lparr>at_revoked_at := or_opt (at_revoked_at t) (Some now)\<rparr>) (as_tokens s)\<rparr>)"

definition touch_last_used :: "timestamp \<Rightarrow> uuid \<Rightarrow> auth_store \<Rightarrow> auth_store" where
  "touch_last_used now i s =
     s\<lparr>as_tokens := row_modify at_id i (\<lambda>t. t\<lparr>at_last_used_at := Some now\<rparr>) (as_tokens s)\<rparr>"

definition count_active :: "auth_store \<Rightarrow> nat" where
  "count_active s = length (filter (\<lambda>t. at_revoked_at t = None) (as_tokens s))"

definition device_insert :: "timestamp \<Rightarrow> uuid \<Rightarrow> string \<Rightarrow> auth_store \<Rightarrow> (device \<times> auth_store) result" where
  "device_insert now i label s =
     (if list_ex (\<lambda>d. dv_id d = i) (as_devices s) then Inl (Storage ''UNIQUE constraint failed'')
      else let d = \<lparr>dv_id = i, dv_label = label, dv_created_at = now, dv_last_seen_at = None,
                    dv_revoked_at = None, dv_connected = False\<rparr>
           in Inr (d, s\<lparr>as_devices := as_devices s @ [d]\<rparr>))"

definition bind_token :: "uuid \<Rightarrow> uuid \<Rightarrow> auth_store \<Rightarrow> auth_store result" where
  "bind_token token_id device_id s =
     (if list_ex (\<lambda>t. at_id t = token_id) (as_tokens s) \<and> \<not> device_known s (Some device_id)
      then Inl (Storage ''FOREIGN KEY constraint failed'')
      else Inr (s\<lparr>as_tokens := row_modify at_id token_id (\<lambda>t. t\<lparr>at_device_id := Some device_id\<rparr>) (as_tokens s)\<rparr>))"

definition device_is_revoked :: "auth_store \<Rightarrow> uuid \<Rightarrow> bool" where
  "device_is_revoked s i = (case row_get dv_id (as_devices s) i of None \<Rightarrow> True | Some d \<Rightarrow> dv_revoked_at d \<noteq> None)"

definition device_revoke :: "timestamp \<Rightarrow> uuid \<Rightarrow> auth_store \<Rightarrow> bool \<times> auth_store" where
  "device_revoke now i s =
     (list_ex (\<lambda>d. dv_id d = i) (as_devices s),
      s\<lparr>as_devices := row_modify dv_id i (\<lambda>d. d\<lparr>dv_revoked_at := or_opt (dv_revoked_at d) (Some now)\<rparr>) (as_devices s)\<rparr>)"

definition touch_last_seen_throttled :: "timestamp \<Rightarrow> uuid \<Rightarrow> auth_store \<Rightarrow> auth_store" where
  "touch_last_seen_throttled now i s =
     s\<lparr>as_devices := row_modify dv_id i
         (\<lambda>d. if dv_revoked_at d = None \<and> (case dv_last_seen_at d of None \<Rightarrow> True | Some l \<Rightarrow> l \<le> now - 60)
              then d\<lparr>dv_last_seen_at := Some now\<rparr> else d) (as_devices s)\<rparr>"

subsection \<open>Request context\<close>

record auth_context =
  ac_ctx_agent_id :: uuid
  ac_ctx_token_id :: uuid
  ac_ctx_device_id :: "uuid option"
  ac_ctx_tenant_id :: "string option"
  ac_ctx_rate_limit :: "32 word"
  ac_ctx_scope :: token_scope
  ac_ctx_token_kind :: token_kind
  ac_ctx_principal_id :: "uuid option"
  ac_ctx_client :: "string option"

definition CLIENT_MAX_CHARS :: nat where
  "CLIENT_MAX_CHARS = 64"

definition sanitize_client :: "string \<Rightarrow> string option" where
  "sanitize_client raw =
     (let name = take_chars CLIENT_MAX_CHARS (filter (\<lambda>c. \<not> is_control c) (trim raw))
      in if name \<noteq> [] then Some name else None)"

definition ctx_require :: "auth_context \<Rightarrow> capability \<Rightarrow> capability + unit" where
  "ctx_require ctx cap = (if has_cap (sc_capabilities (ac_ctx_scope ctx)) cap then Inr () else Inl cap)"

text \<open>\<open>bot_name\<close> renders \<^verbatim>\<open>bot.<agent_id>\<close>.\<close>

definition ctx_actor :: "(uuid \<Rightarrow> string) \<Rightarrow> auth_context \<Rightarrow> actor" where
  "ctx_actor bot_name ctx =
     or_client (case ac_ctx_token_kind ctx of
         Bot \<Rightarrow> Agent (ac_ctx_agent_id ctx) (bot_name (ac_ctx_agent_id ctx)) None
       | _ \<Rightarrow> user_with_id (unwrap_or (ac_ctx_agent_id ctx) (ac_ctx_principal_id ctx)))
     (ac_ctx_client ctx)"

subsection \<open>verify\_bearer\<close>

datatype verify_error =
    VerMissing | VerMalformed | VerUnknown | VerMismatch | VerRevoked | VerDeviceRevoked | VerExpired | VerStorage string

fun verify_error_code :: "verify_error \<Rightarrow> string" where
  "verify_error_code VerMissing = ''auth_missing''"
| "verify_error_code VerMalformed = ''auth_malformed''"
| "verify_error_code VerUnknown = ''auth_invalid''"
| "verify_error_code VerMismatch = ''auth_invalid''"
| "verify_error_code VerRevoked = ''auth_revoked''"
| "verify_error_code VerDeviceRevoked = ''unauthorized''"
| "verify_error_code VerExpired = ''auth_expired''"
| "verify_error_code (VerStorage _) = ''auth_storage''"

definition bare_token :: "string \<Rightarrow> string" where
  "bare_token txt_in =
     (case strip_prefix ''Bearer '' txt_in of
        Some x \<Rightarrow> x
      | None \<Rightarrow> unwrap_or txt_in (strip_prefix ''bearer '' txt_in))"

text \<open>The loop over the candidates; the error of the last candidate whose hash matched is kept.\<close>

fun verify_candidates ::
  "(string \<Rightarrow> string \<Rightarrow> bool) \<Rightarrow> timestamp \<Rightarrow> string \<Rightarrow> verify_error \<Rightarrow> api_token list \<Rightarrow> verify_error + api_token" where
  "verify_candidates verify_pw now bare err [] = Inl err"
| "verify_candidates verify_pw now bare err (c # cs) =
     (if \<not> verify_pw bare (at_hash c) then verify_candidates verify_pw now bare err cs
      else if at_revoked_at c \<noteq> None then verify_candidates verify_pw now bare VerRevoked cs
      else if at_device_revoked_at c \<noteq> None then verify_candidates verify_pw now bare VerDeviceRevoked cs
      else if (case at_expired_at c of Some exp \<Rightarrow> exp \<le> now | None \<Rightarrow> False)
      then verify_candidates verify_pw now bare VerExpired cs
      else Inr c)"

definition context_of :: "api_token \<Rightarrow> auth_context" where
  "context_of c = \<lparr>ac_ctx_agent_id = at_agent_id c, ac_ctx_token_id = at_id c, ac_ctx_device_id = at_device_id c,
     ac_ctx_tenant_id = at_tenant_id c, ac_ctx_rate_limit = at_rate_limit_per_min c, ac_ctx_scope = at_scope c,
     ac_ctx_token_kind = at_kind c, ac_ctx_principal_id = None, ac_ctx_client = None\<rparr>"

definition touch_used :: "timestamp \<Rightarrow> api_token \<Rightarrow> auth_store \<Rightarrow> auth_store" where
  "touch_used now c s =
     (case at_device_id c of
        Some d \<Rightarrow> touch_last_seen_throttled now d (touch_last_used now (at_id c) s)
      | None \<Rightarrow> touch_last_used now (at_id c) s)"

definition verify_bearer ::
  "(string \<Rightarrow> string \<Rightarrow> bool) \<Rightarrow> timestamp \<Rightarrow> string \<Rightarrow> auth_store \<Rightarrow> (verify_error + auth_context) \<times> auth_store" where
  "verify_bearer verify_pw now raw s =
     (let txt_in = trim raw in
      if txt_in = [] then (Inl VerMissing, s)
      else let bare = bare_token txt_in in
        if length bare < 14 \<or> \<not> starts_with ''ta_'' bare then (Inl VerMalformed, s)
        else let candidates = list_by_prefix s (prefix_of bare) in
          if candidates = [] then (Inl VerUnknown, s)
          else case verify_candidates verify_pw now bare VerMismatch candidates of
                 Inl e \<Rightarrow> (Inl e, s)
               | Inr c \<Rightarrow> (Inr (context_of c), touch_used now c s))"

subsection \<open>Capability masks\<close>

lemma capability_shift_inj: "capability_shift a = capability_shift b \<longleftrightarrow> a = b"
  by (cases a; cases b) simp_all

lemma capability_shift_less [simp]: "capability_shift c < 32"
  by (cases c) simp_all

lemma bit_as_bit: "bit (as_bit c) i \<longleftrightarrow> i = capability_shift c"
  by (simp add: as_bit_def bit_exp_iff) (metis capability_shift_less)

lemma and_as_bit: "m AND as_bit c \<noteq> 0 \<longleftrightarrow> bit m (capability_shift c)"
proof
  assume "m AND as_bit c \<noteq> 0"
  then obtain i where "bit (m AND as_bit c) i" by (metis bit_0_eq bit_eq_iff bot_apply bot_bool_def)
  then show "bit m (capability_shift c)" by (auto simp: bit_and_iff bit_as_bit)
next
  assume "bit m (capability_shift c)"
  then have "bit (m AND as_bit c) (capability_shift c)" by (simp add: bit_and_iff bit_as_bit)
  then show "m AND as_bit c \<noteq> 0" by auto
qed

lemma has_cap_bits: "has_cap m c \<longleftrightarrow> bit m (capability_shift Admin) \<or> bit m (capability_shift c)"
  by (simp add: has_cap_def and_as_bit)

lemma bit_grant_cap: "bit (grant_cap c m) i \<longleftrightarrow> bit m i \<or> i = capability_shift c"
  by (simp add: grant_cap_def bit_or_iff bit_as_bit)

lemma bit_revoke_cap: "bit (revoke_cap c m) i \<longleftrightarrow> bit m i \<and> i \<noteq> capability_shift c"
  by (auto simp: revoke_cap_def bit_and_iff bit_not_iff bit_as_bit dest: bit_imp_le_length)

lemma bit_fold_grant: "bit (fold grant_cap cs m) i \<longleftrightarrow> bit m i \<or> i \<in> capability_shift ` set cs"
  by (induction cs arbitrary: m) (auto simp: bit_grant_cap)

lemma bit_capabilities_from: "bit (capabilities_from cs) i \<longleftrightarrow> i \<in> capability_shift ` set cs"
  by (simp add: capabilities_from_def capabilities_empty_def bit_fold_grant)

lemma shift_image: "capability_shift c \<in> capability_shift ` set cs \<longleftrightarrow> c \<in> set cs"
  by (auto simp: capability_shift_inj)

lemma has_cap_revoke:
  "has_cap (revoke_cap c m) d \<longleftrightarrow>
     (bit m (capability_shift Admin) \<and> c \<noteq> Admin) \<or> (bit m (capability_shift d) \<and> c \<noteq> d)"
  using capability_shift_inj [of d c] capability_shift_inj [of Admin c]
  by (auto simp: has_cap_bits bit_revoke_cap simp del: capability_shift.simps)

subsection \<open>Properties of masks\<close>

text \<open>
  A capability mask is exactly the set it was built from. A mask built from a list of capabilities
  holds a capability if and only if it is listed or the list has \<^verbatim>\<open>Admin\<close>; no two capabilities share a
  bit.
\<close>

theorem capabilities_from_exact: "has_cap (capabilities_from cs) c \<longleftrightarrow> Admin \<in> set cs \<or> c \<in> set cs"
  by (simp add: has_cap_bits bit_capabilities_from shift_image del: capability_shift.simps)

text \<open>
  Granting and revoking change one capability only. Granting adds it and nothing else (unless it is
  \<^verbatim>\<open>Admin\<close>); revoking removes it from a mask without \<^verbatim>\<open>Admin\<close>, but a mask with \<^verbatim>\<open>Admin\<close> still holds it.
\<close>

theorem grant_revoke_exact:
  "(has_cap (grant_cap c m) d \<longleftrightarrow> has_cap m d \<or> c = d \<or> c = Admin) \<and>
   (has_cap (revoke_cap c m) d \<longleftrightarrow> (has_cap m Admin \<and> c \<noteq> Admin) \<or> (bit m (capability_shift d) \<and> c \<noteq> d))"
proof
  show "has_cap (grant_cap c m) d \<longleftrightarrow> has_cap m d \<or> c = d \<or> c = Admin"
    using capability_shift_inj [of d c] capability_shift_inj [of Admin c]
    by (auto simp: has_cap_bits bit_grant_cap simp del: capability_shift.simps)
  show "has_cap (revoke_cap c m) d \<longleftrightarrow> (has_cap m Admin \<and> c \<noteq> Admin) \<or> (bit m (capability_shift d) \<and> c \<noteq> d)"
    unfolding has_cap_revoke by (simp add: has_cap_bits)
qed

text \<open>
  The scope of a newly paired device cannot administer: it may not issue tokens, write webhooks,
  dispatch agents, write runs, relations or documents, and it is not an admin scope.
\<close>

theorem default_user_scope_limits:
  "filter (has_cap (sc_capabilities scope_default_user))
     [AgentDispatch, SubscribeAgentStatus, WebhookRead, WebhookWrite, TokenRead, TokenWrite, RunWrite,
      TaskRelationWrite, DocumentWrite, Admin] = []"
  by (simp add: scope_default_user_def has_cap_bits bit_capabilities_from)

subsection \<open>The verifier\<close>

definition unexpired :: "timestamp \<Rightarrow> api_token \<Rightarrow> bool" where
  "unexpired now t \<longleftrightarrow> (case at_expired_at t of Some exp \<Rightarrow> now < exp | None \<Rightarrow> True)"

text \<open>A stored row that lets the bearer string in.\<close>

definition admits :: "(string \<Rightarrow> string \<Rightarrow> bool) \<Rightarrow> timestamp \<Rightarrow> auth_store \<Rightarrow> string \<Rightarrow> api_token \<Rightarrow> bool" where
  "admits verify_pw now s bare t \<longleftrightarrow> t \<in> set (as_tokens s) \<and> at_prefix t = prefix_of bare \<and>
     verify_pw bare (at_hash t) \<and> at_revoked_at t = None \<and> device_revocation s t = None \<and> unexpired now t"

definition bare_ok :: "string \<Rightarrow> bool" where
  "bare_ok bare \<longleftrightarrow> 14 \<le> length bare \<and> starts_with ''ta_'' bare"

definition good_candidate :: "(string \<Rightarrow> string \<Rightarrow> bool) \<Rightarrow> timestamp \<Rightarrow> string \<Rightarrow> api_token \<Rightarrow> bool" where
  "good_candidate verify_pw now bare c \<longleftrightarrow> verify_pw bare (at_hash c) \<and> at_revoked_at c = None \<and>
     at_device_revoked_at c = None \<and> unexpired now c"

lemma verify_candidates_find:
  "verify_candidates vp now bare err cs = Inr c \<longleftrightarrow> find (good_candidate vp now bare) cs = Some c"
  by (induction cs arbitrary: err)
    (auto simp: good_candidate_def unexpired_def not_le split: option.splits)

lemma good_candidate_row:
  "good_candidate vp now bare (t\<lparr>at_device_revoked_at := device_revocation s t\<rparr>) \<longleftrightarrow>
     vp bare (at_hash t) \<and> at_revoked_at t = None \<and> device_revocation s t = None \<and> unexpired now t"
  by (simp add: good_candidate_def unexpired_def)

lemma good_in_prefix:
  "(\<exists>c \<in> set (list_by_prefix s (prefix_of bare)). good_candidate vp now bare c) \<longleftrightarrow>
   (\<exists>t. admits vp now s bare t)"
  by (auto simp: list_by_prefix_def good_candidate_row admits_def)

lemma verify_bearer_Inr:
  "fst (verify_bearer vp now raw s) = Inr ctx \<longleftrightarrow> bare_ok (bare_token (trim raw)) \<and>
     (\<exists>c. find (good_candidate vp now (bare_token (trim raw)))
            (list_by_prefix s (prefix_of (bare_token (trim raw)))) = Some c \<and> ctx = context_of c)"
proof (cases "trim raw = []")
  case True
  then show ?thesis by (simp add: verify_bearer_def bare_ok_def bare_token_def strip_prefix_def starts_with_def)
next
  case False
  show ?thesis
  proof (cases "verify_candidates vp now (bare_token (trim raw)) VerMismatch
      (list_by_prefix s (prefix_of (bare_token (trim raw))))")
    case (Inl e)
    then have "find (good_candidate vp now (bare_token (trim raw)))
        (list_by_prefix s (prefix_of (bare_token (trim raw)))) = None"
      by (metis not_Some_eq sum.distinct(1) verify_candidates_find)
    then show ?thesis using False Inl by (auto simp: verify_bearer_def Let_def)
  next
    case (Inr c)
    then have "find (good_candidate vp now (bare_token (trim raw)))
        (list_by_prefix s (prefix_of (bare_token (trim raw)))) = Some c"
      by (simp only: verify_candidates_find)
    then show ?thesis using False Inr by (auto simp: verify_bearer_def Let_def bare_ok_def)
  qed
qed

lemma verify_bearer_admits:
  assumes "fst (verify_bearer vp now raw s) = Inr ctx"
  shows "\<exists>t. admits vp now s (bare_token (trim raw)) t \<and> ctx = context_of t"
proof -
  let ?bare = "bare_token (trim raw)"
  obtain c where "find (good_candidate vp now ?bare) (list_by_prefix s (prefix_of ?bare)) = Some c" "ctx = context_of c"
    using assms by (auto simp: verify_bearer_Inr)
  then obtain t where "t \<in> set (as_tokens s)" "at_prefix t = prefix_of ?bare"
    "c = t\<lparr>at_device_revoked_at := device_revocation s t\<rparr>" "good_candidate vp now ?bare c"
    by (force simp: list_by_prefix_def dest!: find_Some_mem)
  then show ?thesis using \<open>ctx = context_of c\<close>
    by (auto simp: admits_def good_candidate_row context_of_def intro!: exI [of _ t])
qed

lemma verify_bearer_lets_in:
  assumes "bare_ok (bare_token (trim raw))" and "admits vp now s (bare_token (trim raw)) t"
  shows "\<exists>ctx. fst (verify_bearer vp now raw s) = Inr ctx"
proof -
  have "find (good_candidate vp now (bare_token (trim raw))) (list_by_prefix s (prefix_of (bare_token (trim raw)))) \<noteq> None"
    using assms(2) good_in_prefix [of s "bare_token (trim raw)" vp now] by (auto simp: find_None_iff)
  then show ?thesis using assms(1) by (auto simp: verify_bearer_Inr)
qed

subsection \<open>Properties of the verifier\<close>

text \<open>
  C27: a bearer string is accepted exactly when it is well formed and some stored token with its prefix
  verifies, is not revoked, is not bound to a revoked device and has not expired; the request then runs
  with the identity, tenant, scope and rate limit of such a token.
\<close>

theorem verify_bearer_exact:
  "((\<exists>ctx. fst (verify_bearer vp now raw s) = Inr ctx) \<longleftrightarrow>
     bare_ok (bare_token (trim raw)) \<and> (\<exists>t. admits vp now s (bare_token (trim raw)) t)) \<and>
   (case fst (verify_bearer vp now raw s) of
      Inl _ \<Rightarrow> snd (verify_bearer vp now raw s) = s
    | Inr ctx \<Rightarrow> (\<exists>t. admits vp now s (bare_token (trim raw)) t \<and> ctx = context_of t))"
proof
  show "(\<exists>ctx. fst (verify_bearer vp now raw s) = Inr ctx) \<longleftrightarrow>
     bare_ok (bare_token (trim raw)) \<and> (\<exists>t. admits vp now s (bare_token (trim raw)) t)"
    using verify_bearer_admits verify_bearer_lets_in verify_bearer_Inr by metis
  show "case fst (verify_bearer vp now raw s) of
      Inl _ \<Rightarrow> snd (verify_bearer vp now raw s) = s
    | Inr ctx \<Rightarrow> (\<exists>t. admits vp now s (bare_token (trim raw)) t \<and> ctx = context_of t)"
  proof (cases "fst (verify_bearer vp now raw s)")
    case (Inl e)
    then show ?thesis by (auto simp: verify_bearer_def Let_def split: sum.splits if_splits)
  next
    case (Inr ctx)
    then show ?thesis using verify_bearer_admits by simp
  qed
qed

subsection \<open>Operations of the store over time\<close>

datatype auth_op =
    AuthInsertToken api_token
  | AuthRevokeToken timestamp uuid
  | AuthInsertDevice timestamp uuid string
  | AuthBindToken uuid uuid
  | AuthRevokeDevice timestamp uuid
  | AuthVerify timestamp string

definition store_or_same :: "auth_store \<Rightarrow> auth_store result \<Rightarrow> auth_store" where
  "store_or_same s r = (case r of Inl _ \<Rightarrow> s | Inr s' \<Rightarrow> s')"

definition auth_step :: "(string \<Rightarrow> string \<Rightarrow> bool) \<Rightarrow> auth_op \<Rightarrow> auth_store \<Rightarrow> auth_store" where
  "auth_step vp operation s =
     (case operation of
        AuthInsertToken t \<Rightarrow> store_or_same s (token_insert t s)
      | AuthRevokeToken now i \<Rightarrow> snd (token_revoke now i s)
      | AuthInsertDevice now i label \<Rightarrow> store_or_same s (map_sum id snd (device_insert now i label s))
      | AuthBindToken t d \<Rightarrow> store_or_same s (bind_token t d s)
      | AuthRevokeDevice now i \<Rightarrow> snd (device_revoke now i s)
      | AuthVerify now raw \<Rightarrow> snd (verify_bearer vp now raw s))"

definition auth_run :: "(string \<Rightarrow> string \<Rightarrow> bool) \<Rightarrow> auth_op list \<Rightarrow> auth_store \<Rightarrow> auth_store" where
  "auth_run vp ops s = fold (auth_step vp) ops s"

definition token_revoked :: "auth_store \<Rightarrow> uuid \<Rightarrow> bool" where
  "token_revoked s i \<longleftrightarrow> i \<in> at_id ` set (as_tokens s) \<and>
     (\<forall>t \<in> set (as_tokens s). at_id t = i \<longrightarrow> at_revoked_at t \<noteq> None)"

lemma touch_used_tokens:
  "as_tokens (touch_used now c s) = row_modify at_id (at_id c) (\<lambda>t. t\<lparr>at_last_used_at := Some now\<rparr>) (as_tokens s)"
  by (simp add: touch_used_def touch_last_used_def touch_last_seen_throttled_def split: option.split)

lemma keys_row_modify:
  assumes "\<And>r. key (f r) = key r"
  shows "key ` set (row_modify key i f rows) = key ` set rows"
proof -
  have "map key (row_modify key i f rows) = map key rows" using assms by (simp add: row_modify_def)
  then show ?thesis by (metis set_map)
qed

lemma token_revoked_modify:
  assumes "token_revoked s i" and "as_tokens s' = row_modify at_id j f (as_tokens s)"
    and "\<And>t. at_id (f t) = at_id t" and "\<And>t. at_revoked_at t \<noteq> None \<Longrightarrow> at_revoked_at (f t) \<noteq> None"
  shows "token_revoked s' i"
proof -
  have "at_id ` set (as_tokens s') = at_id ` set (as_tokens s)"
    unfolding assms(2) by (rule keys_row_modify) (rule assms(3))
  moreover have "\<forall>t \<in> set (as_tokens s'). at_id t = i \<longrightarrow> at_revoked_at t \<noteq> None"
    unfolding assms(2) using assms(1,3,4) by (auto simp: token_revoked_def row_modify_def)
  ultimately show ?thesis using assms(1) by (simp add: token_revoked_def)
qed

lemma verify_bearer_store:
  "snd (verify_bearer vp now raw s) = s \<or> (\<exists>c. snd (verify_bearer vp now raw s) = touch_used now c s)"
  by (auto simp: verify_bearer_def Let_def split: sum.split)

lemma auth_step_revoked:
  assumes "token_revoked s i"
  shows "token_revoked (auth_step vp operation s) i"
proof (cases operation)
  case (AuthInsertToken t)
  have "i \<in> at_id ` set (as_tokens s)" using assms by (simp add: token_revoked_def)
  then show ?thesis using assms AuthInsertToken
    by (auto simp: auth_step_def store_or_same_def token_insert_def token_revoked_def list_ex_iff)
next
  case (AuthRevokeToken now j)
  then show ?thesis using assms
    by (auto simp: auth_step_def token_revoke_def intro!: token_revoked_modify [OF assms])
next
  case (AuthInsertDevice now j label)
  then show ?thesis using assms
    by (auto simp: auth_step_def store_or_same_def device_insert_def token_revoked_def Let_def)
next
  case (AuthBindToken t d)
  then show ?thesis using assms
    by (auto simp: auth_step_def store_or_same_def bind_token_def intro!: token_revoked_modify [OF assms])
next
  case (AuthRevokeDevice now j)
  then show ?thesis using assms by (simp add: auth_step_def device_revoke_def token_revoked_def)
next
  case (AuthVerify now raw)
  have "token_revoked (touch_used now c s) i" for c
    by (rule token_revoked_modify [OF assms touch_used_tokens]) simp_all
  then show ?thesis using assms AuthVerify verify_bearer_store [of vp now raw s]
    by (auto simp: auth_step_def)
qed

lemma auth_run_revoked: "token_revoked s i \<Longrightarrow> token_revoked (auth_run vp ops s) i"
  unfolding auth_run_def by (induction ops arbitrary: s) (simp_all add: auth_step_revoked)

lemma token_revoke_revoked:
  "i \<in> at_id ` set (as_tokens s) \<Longrightarrow> token_revoked (snd (token_revoke now i s)) i"
  by (auto simp: token_revoked_def token_revoke_def keys_row_modify)
    (auto simp: row_modify_def or_opt_def split: option.splits if_splits)

lemma revoked_not_admitted:
  "token_revoked s i \<Longrightarrow> admits vp now s bare t \<Longrightarrow> at_id t \<noteq> i"
  by (auto simp: token_revoked_def admits_def)

text \<open>
  Revoking a token is final. After a known token is revoked, no sequence of store operations
  (inserting tokens or devices, binding tokens to devices, revoking, verifying requests) ever lets a
  bearer string in under that token again.
\<close>

theorem revoked_token_stays_out:
  assumes "i \<in> at_id ` set (as_tokens s)"
    and "fst (verify_bearer vp later raw (auth_run vp ops (snd (token_revoke now i s)))) = Inr ctx"
  shows "ac_ctx_token_id ctx \<noteq> i"
proof -
  have "token_revoked (auth_run vp ops (snd (token_revoke now i s))) i"
    by (rule auth_run_revoked [OF token_revoke_revoked [OF assms(1)]])
  then show ?thesis using verify_bearer_admits [OF assms(2)] revoked_not_admitted
    by (fastforce simp: context_of_def)
qed

definition demo_token :: "uuid \<Rightarrow> string \<Rightarrow> api_token" where
  "demo_token i secret = \<lparr>at_id = i, at_prefix = take_chars 12 (render_plaintext secret Pat), at_hash = render_plaintext secret Pat,
     at_kind = Pat, at_agent_id = 70 + i, at_scope = scope_default_user, at_rate_limit_per_min = 60, at_tenant_id = None,
     at_created_at = 0, at_expired_at = None, at_last_used_at = None, at_revoked_at = None, at_device_id = None,
     at_device_revoked_at = None\<rparr>"

definition demo_auth_store :: auth_store where
  "demo_auth_store = \<lparr>as_tokens = [demo_token 1 ''aaaaaaaa'', demo_token 2 ''bbbbbbbb''], as_devices = []\<rparr>"

lemmas demo_auth_simps = demo_auth_store_def demo_token_def render_plaintext_def

lemma demo_verify_second:
  "fst (verify_bearer (=) 10 ''ta_pat_bbbbbbbb'' (auth_run (=) [] (snd (token_revoke 5 1 demo_auth_store)))) =
     Inr (context_of (demo_token 2 ''bbbbbbbb''))"
  by (simp add: verify_bearer_Inr auth_run_def token_revoke_def row_modify_def list_by_prefix_def prefix_of_def bare_ok_def
      bare_token_def trim_def is_space_def strip_prefix_def starts_with_def good_candidate_def device_revocation_def
      unexpired_def demo_auth_simps context_of_def)

theorem revoked_token_stays_out_witness:
  "fst (verify_bearer (=) 10 ''ta_pat_bbbbbbbb'' (auth_run (=) [] (snd (token_revoke 5 1 demo_auth_store)))) =
     Inr (context_of (demo_token 2 ''bbbbbbbb'')) \<and> ac_ctx_token_id (context_of (demo_token 2 ''bbbbbbbb'')) \<noteq> 1"
proof -
  have "1 \<in> at_id ` set (as_tokens demo_auth_store)" by (simp add: demo_auth_simps)
  from revoked_token_stays_out [OF this demo_verify_second] demo_verify_second show ?thesis by blast
qed

text \<open>
  Revoking a device locks out every token bound to it: right after the revocation no bearer string
  is accepted under a token bound to that device.
\<close>

theorem revoked_device_locks_out:
  assumes "device_known s (Some d)"
    and "fst (verify_bearer vp later raw (snd (device_revoke now d s))) = Inr ctx"
  shows "ac_ctx_device_id ctx \<noteq> Some d"
proof
  assume bound: "ac_ctx_device_id ctx = Some d"
  let ?s = "snd (device_revoke now d s)"
  obtain t where t: "admits vp later ?s (bare_token (trim raw)) t" "ctx = context_of t"
    using verify_bearer_admits [OF assms(2)] by blast
  have "row_get dv_id (as_devices s) d \<noteq> None"
    using assms(1) by (auto simp: device_known_def row_get_None_iff list_ex_iff)
  then obtain dev where "row_get dv_id (as_devices ?s) d = Some dev" "dv_revoked_at dev \<noteq> None"
    by (auto simp: device_revoke_def row_get_modify or_opt_def split: option.splits)
  then have "device_revocation ?s t \<noteq> None"
    using bound t(2) by (simp add: device_revocation_def context_of_def)
  then show False using t(1) by (simp add: admits_def)
qed

definition demo_device_store :: auth_store where
  "demo_device_store = \<lparr>as_tokens = [(demo_token 1 ''aaaaaaaa'')\<lparr>at_device_id := Some 8\<rparr>, demo_token 2 ''bbbbbbbb''],
     as_devices = [\<lparr>dv_id = 8, dv_label = ''phone'', dv_created_at = 0, dv_last_seen_at = None, dv_revoked_at = None,
                    dv_connected = False\<rparr>]\<rparr>"

theorem revoked_device_locks_out_witness:
  "fst (verify_bearer (=) 10 ''ta_pat_bbbbbbbb'' (snd (device_revoke 5 8 demo_device_store))) =
     Inr (context_of (demo_token 2 ''bbbbbbbb'')) \<and>
   ac_ctx_device_id (context_of (demo_token 2 ''bbbbbbbb'')) \<noteq> Some 8 \<and>
   fst (verify_bearer (=) 10 ''ta_pat_aaaaaaaa'' (snd (device_revoke 5 8 demo_device_store))) = Inl VerDeviceRevoked"
proof -
  note eval = device_revoke_def row_modify_def list_by_prefix_def prefix_of_def bare_ok_def or_opt_def
      bare_token_def trim_def is_space_def strip_prefix_def starts_with_def good_candidate_def device_revocation_def
      unexpired_def demo_device_store_def demo_auth_simps context_of_def
  have ok: "fst (verify_bearer (=) 10 ''ta_pat_bbbbbbbb'' (snd (device_revoke 5 8 demo_device_store))) =
     Inr (context_of (demo_token 2 ''bbbbbbbb''))"
    by (simp add: verify_bearer_Inr eval)
  have "fst (verify_bearer (=) 10 ''ta_pat_aaaaaaaa'' (snd (device_revoke 5 8 demo_device_store))) = Inl VerDeviceRevoked"
    by (simp add: verify_bearer_def Let_def eval)
  moreover have "device_known demo_device_store (Some 8)" by (simp add: device_known_def demo_device_store_def)
  from revoked_device_locks_out [OF this ok] have "ac_ctx_device_id (context_of (demo_token 2 ''bbbbbbbb'')) \<noteq> Some 8" .
  ultimately show ?thesis using ok by blast
qed

subsection \<open>Issuing a token\<close>

lemma trim_no_space: "list_all (\<lambda>c. \<not> is_space c) w \<Longrightarrow> trim w = w"
proof -
  assume ns: "list_all (\<lambda>c. \<not> is_space c) w"
  have id: "list_all (\<lambda>c. \<not> is_space c) v \<Longrightarrow> dropWhile is_space v = v" for v by (cases v) simp_all
  show "trim w = w" using id [OF ns] id [of "rev w"] ns by (simp add: trim_def list_all_rev)
qed

lemma render_shape:
  assumes "list_all (\<lambda>c. \<not> is_space c) secret" and "7 \<le> length secret"
  shows "bare_token (trim (render_plaintext secret k)) = render_plaintext secret k"
    "bare_ok (render_plaintext secret k)"
proof -
  have "list_all (\<lambda>c. \<not> is_space c) (render_plaintext secret k)"
    using assms(1) by (cases k) (simp_all add: render_plaintext_def is_space_def)
  then show "bare_token (trim (render_plaintext secret k)) = render_plaintext secret k"
    by (simp add: trim_no_space) (cases k; simp add: bare_token_def render_plaintext_def strip_prefix_def starts_with_def)
  show "bare_ok (render_plaintext secret k)"
    using assms(2) by (cases k) (simp_all add: bare_ok_def render_plaintext_def starts_with_def)
qed

text \<open>
  An issued token works. The plaintext returned at creation, sent back as a bearer string, is
  accepted until the token expires, and the request runs with the scope and agent the token was issued
  for. The secret is non-empty base64 text; the hash check accepts what was hashed and, for this string,
  rejects the other stored hashes.
\<close>

theorem generated_token_verifies:
  assumes hash_ok: "\<And>p h. hash_pw p = Inr h \<Longrightarrow> vp p h"
    and secret: "list_all (\<lambda>c. \<not> is_space c) secret" "7 \<le> length secret"
    and gen: "generate hash_pw secret i now spec = Inr (tok, plain)"
    and ins: "token_insert tok s = Inr s'"
    and others: "\<And>t. t \<in> set (as_tokens s) \<Longrightarrow> \<not> vp plain (at_hash t)"
    and fresh: "case ns_expired_at spec of Some exp \<Rightarrow> later < exp | None \<Rightarrow> True"
  shows "\<exists>ctx. fst (verify_bearer vp later plain s') = Inr ctx \<and> ac_ctx_token_id ctx = i \<and>
    ac_ctx_agent_id ctx = ns_agent_id spec \<and> ac_ctx_scope ctx = ns_scope spec"
proof -
  obtain h where h: "hash_pw plain = Inr h" "plain = render_plaintext secret (ns_kind spec)"
    and tok: "at_id tok = i" "at_prefix tok = take_chars 12 plain" "at_hash tok = h" "at_agent_id tok = ns_agent_id spec"
      "at_scope tok = ns_scope spec" "at_expired_at tok = ns_expired_at spec" "at_revoked_at tok = None"
      "at_device_id tok = None"
    using gen by (auto simp: generate_def Let_def bind_result_Inr_iff)
  have s': "s' = s\<lparr>as_tokens := as_tokens s @ [tok\<lparr>at_device_revoked_at := None\<rparr>]\<rparr>"
    using ins by (auto simp: token_insert_def split: if_splits)
  have bare: "bare_token (trim plain) = plain" "bare_ok plain" using render_shape [OF secret] h(2) by auto
  have "admits vp later s' plain (tok\<lparr>at_device_revoked_at := None\<rparr>)"
    using tok h(1) hash_ok fresh by (simp add: admits_def s' prefix_of_def device_revocation_def unexpired_def)
  then obtain ctx where ctx: "fst (verify_bearer vp later plain s') = Inr ctx"
    using verify_bearer_lets_in bare by metis
  then obtain t where "admits vp later s' plain t" "ctx = context_of t"
    using verify_bearer_admits bare by metis
  then have "t = tok\<lparr>at_device_revoked_at := None\<rparr>" using others by (auto simp: admits_def s')
  then show ?thesis using ctx tok \<open>ctx = context_of t\<close> by (simp add: context_of_def)
qed

definition demo_spec :: new_token_spec where
  "demo_spec = \<lparr>ns_kind = Bot, ns_agent_id = 9, ns_scope = scope_admin, ns_rate_limit_per_min = 60, ns_expired_at = Some 100\<rparr>"

theorem generated_token_verifies_witness:
  "\<exists>tok s'. generate Inr ''cccccccc'' 3 0 demo_spec = Inr (tok, ''ta_bot_cccccccc'') \<and>
     token_insert tok demo_auth_store = Inr s' \<and>
     (\<exists>ctx. fst (verify_bearer (=) 50 ''ta_bot_cccccccc'' s') = Inr ctx \<and> ac_ctx_token_id ctx = 3 \<and>
        ac_ctx_agent_id ctx = ns_agent_id demo_spec \<and> ac_ctx_scope ctx = ns_scope demo_spec)"
proof -
  obtain tok where gen: "generate Inr ''cccccccc'' 3 0 demo_spec = Inr (tok, ''ta_bot_cccccccc'')" "at_id tok = 3"
      "at_device_id tok = None"
    by (auto simp: generate_def render_plaintext_def demo_spec_def Let_def)
  then obtain s' where ins: "token_insert tok demo_auth_store = Inr s'"
    by (auto simp: token_insert_def demo_auth_simps device_known_def)
  have "\<not> ''ta_bot_cccccccc'' = at_hash t" if "t \<in> set (as_tokens demo_auth_store)" for t
    using that by (auto simp: demo_auth_simps)
  then show ?thesis
    using generated_token_verifies [OF _ _ _ gen(1) ins, of "(=)" 50] gen(1) ins
    by (simp add: demo_spec_def is_space_def)
qed

end
