(* ===== verification/Live_Filters.thy ===== *)
theory Live_Filters
  imports Event_Store Claims Plan_Store Auth Shared_Ids
begin

text \<open>
  What a web socket subscription shows: the filtering helpers of \<^verbatim>\<open>apps/server/src/ws.rs\<close>. A subscription is the
  capabilities of its token, the projects and channels it asked for and the narrowing filters; the rows the
  filters look up are a record of their own, read when an event is about to be sent.
\<close>

record stream_rows =
  sw_tasks :: task_store
  sw_plans :: plan_store
  sw_claims :: claim_table
  sw_log :: event_log
  sw_now :: timestamp

record subscription_filters =
  sf_assignee :: "uuid option"
  sf_verb :: "string option"
  sf_parent_plan :: "uuid option"
  sf_mine :: "uuid option"

record subscription =
  su_caps :: capabilities
  su_projects :: project_filter
  su_channels :: "channel list"
  su_filters :: subscription_filters

subsection \<open>Parsing the request\<close>

definition parse_filter_id :: "codec \<Rightarrow> string \<Rightarrow> string \<Rightarrow> string option \<Rightarrow> string + uuid option" where
  "parse_filter_id cd prefix what s =
     (case s of
        Some s' \<Rightarrow> if s' = [] then Inr None
                   else (case id_from_str cd prefix s' of Some i \<Rightarrow> Inr (Some i) | None \<Rightarrow> Inl (''invalid '' @ what @ '' id: ''))
      | None \<Rightarrow> Inr None)"

definition filters_parse :: "codec \<Rightarrow> string option \<Rightarrow> string option \<Rightarrow> string option \<Rightarrow> string + subscription_filters" where
  "filters_parse cd assignee verb parent_plan =
     (case parse_filter_id cd ''agt'' ''assignee'' assignee of
        Inl e \<Rightarrow> Inl e
      | Inr a \<Rightarrow>
          (case parse_filter_id cd ''pln'' ''parent_plan'' parent_plan of
             Inl e \<Rightarrow> Inl e
           | Inr p \<Rightarrow> Inr \<lparr>sf_assignee = a, sf_verb = (if verb = Some [] then None else verb), sf_parent_plan = p, sf_mine = None\<rparr>))"

definition filters_noop :: "subscription_filters \<Rightarrow> bool" where
  "filters_noop f \<longleftrightarrow> sf_assignee f = None \<and> sf_verb f = None \<and> sf_parent_plan f = None \<and> sf_mine f = None"

fun effective_project_filter :: "project_filter \<Rightarrow> uuid list option \<Rightarrow> project_filter" where
  "effective_project_filter FilterAll None = FilterAll"
| "effective_project_filter FilterAll (Some ps) = FilterOnly ps"
| "effective_project_filter (FilterOnly ps) None = FilterOnly ps"
| "effective_project_filter (FilterOnly ps) (Some qs) = FilterOnly (filter (\<lambda>p. p \<in> set qs) ps)"

definition channel_filter :: "channel list option \<Rightarrow> channel list" where
  "channel_filter channels = unwrap_or [ChTasks] channels"

definition may_subscribe :: "capabilities \<Rightarrow> bool" where
  "may_subscribe caps \<longleftrightarrow> has_cap caps SubscribeTasks \<or> has_cap caps SubscribeComments \<or> has_cap caps SubscribeAgentStatus \<or>
     has_cap caps TaskRead \<or> has_cap caps SubscribePlans \<or> has_cap caps SubscribeRuns"

subsection \<open>Channels and projects\<close>

fun channel_required_capability :: "channel \<Rightarrow> capability option" where
  "channel_required_capability ChTasks = Some SubscribeTasks"
| "channel_required_capability ChComments = Some SubscribeComments"
| "channel_required_capability ChAgentStatus = Some SubscribeAgentStatus"
| "channel_required_capability ChPlans = Some SubscribePlans"
| "channel_required_capability ChRuns = Some SubscribeRuns"
| "channel_required_capability _ = None"

definition resolve_event_project :: "stream_rows \<Rightarrow> event \<Rightarrow> uuid option" where
  "resolve_event_project w e =
     (case event_target_project e of
        Some p \<Rightarrow> Some p
      | None \<Rightarrow> Option.bind (event_target_task e) (\<lambda>t. Option.bind (task_repo_get (sw_tasks w) t) t_project_id))"

definition event_passes :: "stream_rows \<Rightarrow> subscription \<Rightarrow> event_envelope \<Rightarrow> bool" where
  "event_passes w sub env =
     (let ch = event_channel (en_payload env) in
      if (case channel_required_capability ch of Some cap \<Rightarrow> \<not> has_cap (su_caps sub) cap | None \<Rightarrow> False) then False
      else if ch \<notin> set (su_channels sub) then False
      else filter_allows (su_projects sub) (resolve_event_project w (en_payload env)))"

subsection \<open>The narrowing filters\<close>

definition inline_plan_id :: "event \<Rightarrow> uuid option" where
  "inline_plan_id e =
     (case e of
        PlanEv pe \<Rightarrow>
          (case pe of
             PlanCreated p \<Rightarrow> Some (pl_id p)
           | PlanUpdated p _ \<Rightarrow> Some p
           | PlanStatusChanged p _ _ \<Rightarrow> Some p
           | PlanGoalChanged p _ _ \<Rightarrow> Some p
           | PlanTaskAdded p _ _ _ \<Rightarrow> Some p
           | PlanTaskAmended p _ _ \<Rightarrow> Some p
           | PlanTaskRemoved p _ \<Rightarrow> Some p
           | PlanReordered p _ \<Rightarrow> Some p
           | PlanArchived p _ \<Rightarrow> Some p
           | PlanDeleted p _ \<Rightarrow> Some p
           | _ \<Rightarrow> None)
      | SignalEv se \<Rightarrow>
          (case se of
             PlanModifiedByHuman p _ \<Rightarrow> Some p
           | RunObsolescedByPlanEdit _ p _ \<Rightarrow> Some p
           | _ \<Rightarrow> None)
      | RunEv (RunStarted r) \<Rightarrow> Some (r_plan_id r)
      | _ \<Rightarrow> None)"

definition event_belongs_to_plan :: "stream_rows \<Rightarrow> event \<Rightarrow> uuid \<Rightarrow> bool" where
  "event_belongs_to_plan w e p =
     (case inline_plan_id e of
        Some q \<Rightarrow> q = p
      | None \<Rightarrow> (case event_target_task e of
                   Some t \<Rightarrow> list_ex (\<lambda>q. pl_id q = p) (list_plans_for_task (sw_plans w) t)
                 | None \<Rightarrow> False))"

definition event_actor_matches_agent :: "event \<Rightarrow> uuid \<Rightarrow> bool" where
  "event_actor_matches_agent e a =
     (case e of
        SessionEv (AgentClaimed b _ _ _) \<Rightarrow> b = a
      | SessionEv (AgentReleased b _ _) \<Rightarrow> b = a
      | _ \<Rightarrow> False)"

text \<open>\<^verbatim>\<open>TaskRepo::is_mine\<close>: the principal made or finished the task, or took a live claim on it.\<close>

definition is_mine :: "stream_rows \<Rightarrow> uuid \<Rightarrow> uuid \<Rightarrow> bool" where
  "is_mine w t me =
     (case task_repo_get (sw_tasks w) t of
        None \<Rightarrow> False
      | Some x \<Rightarrow>
          Option.bind (t_created_by x) principal_id = Some me \<or>
          Option.bind (t_completed_by x) principal_id = Some me \<or>
          list_ex (\<lambda>c. ac_task_id c = t \<and> sw_now w < ac_expires_at c \<and>
            list_ex (\<lambda>e. (case en_payload e of SessionEv (AgentClaimed _ _ (Some i) _) \<Rightarrow> i = ac_claim_id c | _ \<Rightarrow> False) \<and>
              principal_id (en_actor e) = Some me) (el_rows (sw_log w))) (sw_claims w))"

definition event_matches_filters :: "stream_rows \<Rightarrow> subscription_filters \<Rightarrow> event_envelope \<Rightarrow> bool" where
  "event_matches_filters w f env =
     (if filters_noop f then True
      else if (case sf_verb f of Some v \<Rightarrow> envelope_kind env \<noteq> v | None \<Rightarrow> False) then False
      else if (case sf_parent_plan f of Some p \<Rightarrow> \<not> event_belongs_to_plan w (en_payload env) p | None \<Rightarrow> False) then False
      else if (case sf_assignee f of
                 Some a \<Rightarrow> (case event_target_task (en_payload env) of
                              None \<Rightarrow> True
                            | Some t \<Rightarrow> \<not> event_actor_matches_agent (en_payload env) a \<and>
                                a \<notin> set (get_agents_claiming_task (sw_now w) t (sw_claims w)))
               | None \<Rightarrow> False) then False
      else (case sf_mine f of
              None \<Rightarrow> True
            | Some me \<Rightarrow> principal_id (en_actor env) = Some me \<or>
                (case event_target_task (en_payload env) of None \<Rightarrow> False | Some t \<Rightarrow> is_mine w t me)))"

definition is_shown :: "stream_rows \<Rightarrow> subscription \<Rightarrow> event_envelope \<Rightarrow> bool" where
  "is_shown w sub env \<longleftrightarrow> event_passes w sub env \<and> event_matches_filters w (su_filters sub) env"

subsection \<open>What the gate lets through\<close>

lemma gated_channel_needs_capability:
  "is_shown w sub env \<Longrightarrow> channel_required_capability (event_channel (en_payload env)) = Some cap \<Longrightarrow> has_cap (su_caps sub) cap"
  by (auto simp: is_shown_def event_passes_def Let_def split: if_splits)

text \<open>A subscription to the documents shows them to every token that may subscribe at all.\<close>

lemma ungated_channel_shown:
  assumes "event_channel (en_payload env) = ChDocuments" "su_channels sub = channel_filter (Some [ChDocuments])"
    "su_projects sub = FilterAll" "filters_noop (su_filters sub)"
  shows "is_shown w sub env"
  using assms by (simp add: is_shown_def event_passes_def channel_filter_def event_matches_filters_def)

end
