(* ===== verification/Live_Stream.thy ===== *)
theory Live_Stream
  imports Live_Filters "HOL-Library.Sublist"
begin

text \<open>
  Live delivery over a web socket: the hub (\<^verbatim>\<open>crates/sync/src/hub.rs\<close>) and the subscription of one connection
  (\<^verbatim>\<open>handle_subscribe\<close> and the write task in \<^verbatim>\<open>apps/server/src/ws.rs\<close>). Tasks that run beside each other are steps: the
  fanout of one event, one turn of the forwarder, one frame of the writer.
\<close>

subsection \<open>Frames and connections\<close>

datatype ws_frame =
    HelloFrame nat
  | SnapshotFrame nat "event_envelope list" bool "nat option"
  | EventFrame event_envelope
  | AckFrame uuid
  | ErrorFrame string
  | PingFrame
  | PongFrame
  | CloseSocket nat

definition WS_SUBSCRIBER_CHANNEL :: nat where
  "WS_SUBSCRIBER_CHANNEL = 64"

definition SNAPSHOT_PAGE :: nat where
  "SNAPSHOT_PAGE = 1000"

text \<open>
  Where the write task stands: it takes a frame from the channel, looks at the latches, reads the token row and sends.
  Other tasks run between any two of these.
\<close>

datatype write_phase = WriterIdle | Taken | LatchPassed | RowPassed

text \<open>
  \<open>cn_queue\<close> is the channel from the hub, \<open>cn_registered\<close> whether the hub holds its sender, \<open>cn_out\<close> the frames on their
  way to the socket: first the one the write task is busy with, if it is, then its channel. \<open>cn_sent\<close> is what the task put on
  the socket.
\<close>

record connection =
  cn_queue :: "event_envelope list"
  cn_registered :: bool
  cn_boundary :: nat
  cn_forwarding :: bool
  cn_out :: "ws_frame list"
  cn_writer :: write_phase
  cn_sent :: "ws_frame list"
  cn_open :: bool

definition new_connection :: connection where
  "new_connection = \<lparr>cn_queue = [], cn_registered = False, cn_boundary = 0, cn_forwarding = False, cn_out = [], cn_writer = WriterIdle,
     cn_sent = [], cn_open = True\<rparr>"

definition channel_length :: "connection \<Rightarrow> nat" where
  "channel_length c = (if cn_writer c = WriterIdle then length (cn_out c) else length (cn_out c) - 1)"

definition try_send_message :: "ws_frame \<Rightarrow> connection \<Rightarrow> bool \<times> connection" where
  "try_send_message m c =
     (if cn_open c \<and> channel_length c < WS_SUBSCRIBER_CHANNEL then (True, c\<lparr>cn_out := cn_out c @ [m]\<rparr>) else (False, c))"

definition send_json :: "ws_frame \<Rightarrow> connection \<Rightarrow> connection" where
  "send_json m c = snd (try_send_message m c)"

subsection \<open>The hub\<close>

record hub =
  hb_connected :: "(uuid \<times> nat) list"
  hb_revoked_devices :: "uuid set"
  hb_revoked_tokens :: "uuid set"

definition subscribe_ws :: "connection \<Rightarrow> connection" where
  "subscribe_ws c = c\<lparr>cn_queue := [], cn_registered := True\<rparr>"

text \<open>One turn of the fanout task on one subscriber: a full channel drops it.\<close>

definition fanout_one :: "event_envelope \<Rightarrow> connection \<Rightarrow> connection" where
  "fanout_one env c =
     (if \<not> cn_registered c then c
      else if length (cn_queue c) < WS_SUBSCRIBER_CHANNEL then c\<lparr>cn_queue := cn_queue c @ [env]\<rparr>
      else c\<lparr>cn_registered := False\<rparr>)"

definition fanout :: "event_envelope \<Rightarrow> connection list \<Rightarrow> connection list" where
  "fanout env cs = map (fanout_one env) cs"

text \<open>A fanout task that lags behind the broadcast drops every subscriber.\<close>

definition fanout_lagged_one :: "connection \<Rightarrow> connection" where
  "fanout_lagged_one c = c\<lparr>cn_registered := False\<rparr>"

definition fanout_lagged :: "connection list \<Rightarrow> connection list" where
  "fanout_lagged cs = map fanout_lagged_one cs"

definition device_connected :: "uuid \<Rightarrow> hub \<Rightarrow> hub" where
  "device_connected d h =
     h\<lparr>hb_connected := (case map_of (hb_connected h) d of
          None \<Rightarrow> hb_connected h @ [(d, 1)]
        | Some n \<Rightarrow> map (\<lambda>(e, k). (e, if e = d then k + 1 else k)) (hb_connected h))\<rparr>"

definition device_disconnected :: "uuid \<Rightarrow> hub \<Rightarrow> hub" where
  "device_disconnected d h =
     (case map_of (hb_connected h) d of
        Some n \<Rightarrow> if 1 < n then h\<lparr>hb_connected := map (\<lambda>(e, k). (e, if e = d then k - 1 else k)) (hb_connected h)\<rparr>
                  else h\<lparr>hb_connected := filter (\<lambda>(e, k). e \<noteq> d) (hb_connected h)\<rparr>
      | None \<Rightarrow> h)"

definition connected_devices :: "hub \<Rightarrow> uuid list" where
  "connected_devices h = map fst (hb_connected h)"

definition notify_device_revoked :: "uuid \<Rightarrow> hub \<Rightarrow> hub" where
  "notify_device_revoked d h = h\<lparr>hb_revoked_devices := insert d (hb_revoked_devices h)\<rparr>"

definition notify_token_revoked :: "uuid \<Rightarrow> hub \<Rightarrow> hub" where
  "notify_token_revoked t h = h\<lparr>hb_revoked_tokens := insert t (hb_revoked_tokens h)\<rparr>"

subsection \<open>Refusals\<close>

datatype refusal = RefusedDevice | RefusedToken | TokenUnverified

fun refusal_frames :: "refusal \<Rightarrow> ws_frame list" where
  "refusal_frames RefusedDevice = [ErrorFrame ''unauthorized'', CloseSocket 1008]"
| "refusal_frames RefusedToken = [ErrorFrame ''auth_revoked'', CloseSocket 1008]"
| "refusal_frames TokenUnverified = [ErrorFrame ''auth_storage'', CloseSocket 1011]"

definition latched_refusal :: "hub \<Rightarrow> uuid option \<Rightarrow> uuid \<Rightarrow> refusal option" where
  "latched_refusal h device_id token_id =
     (if (case device_id of Some d \<Rightarrow> d \<in> hb_revoked_devices h | None \<Rightarrow> False) then Some RefusedDevice
      else if token_id \<in> hb_revoked_tokens h then Some RefusedToken else None)"

text \<open>\<open>row\<close> is the read of the token row; it may fail.\<close>

definition row_refusal :: "unit + api_token option \<Rightarrow> uuid \<Rightarrow> hub \<Rightarrow> refusal option \<times> hub" where
  "row_refusal row token_id h =
     (case row of
        Inl _ \<Rightarrow> (Some TokenUnverified, h)
      | Inr (Some t) \<Rightarrow> if at_revoked_at t = None then (None, h) else (Some RefusedToken, notify_token_revoked token_id h)
      | Inr None \<Rightarrow> (Some RefusedToken, notify_token_revoked token_id h))"

definition current_refusal :: "unit + api_token option \<Rightarrow> uuid option \<Rightarrow> uuid \<Rightarrow> hub \<Rightarrow> refusal option \<times> hub" where
  "current_refusal row device_id token_id h =
     (case latched_refusal h device_id token_id of Some r \<Rightarrow> (Some r, h) | None \<Rightarrow> row_refusal row token_id h)"

definition device_still_admitted :: "hub \<Rightarrow> unit + bool \<Rightarrow> uuid \<Rightarrow> bool" where
  "device_still_admitted h row d \<longleftrightarrow> d \<notin> hb_revoked_devices h \<and> row = Inr False"

subsection \<open>Subscribing\<close>

definition filter_history :: "event_envelope list \<Rightarrow> nat \<Rightarrow> event_envelope list" where
  "filter_history history boundary = filter (\<lambda>e. en_seq e \<le> boundary) history"

text \<open>
  \<^verbatim>\<open>handle_subscribe\<close> in its three reads: the registration, the boundary, the history. Anything may happen between them.
  A read of the log that fails counts as an empty one (\<^verbatim>\<open>unwrap_or\<close>).
\<close>

definition read_boundary :: "nat result \<Rightarrow> connection \<Rightarrow> connection" where
  "read_boundary latest c = c\<lparr>cn_boundary := (case latest of Inr n \<Rightarrow> n | Inl _ \<Rightarrow> 0)\<rparr>"

definition open_stream ::
  "(event_envelope \<Rightarrow> bool) \<Rightarrow> nat option \<Rightarrow> event_envelope list result \<Rightarrow> connection \<Rightarrow> connection" where
  "open_stream passes since history c =
     (let c' = (case since of
          None \<Rightarrow> c
        | Some s \<Rightarrow>
            let filtered = filter_history (case history of Inr es \<Rightarrow> es | Inl _ \<Rightarrow> []) (cn_boundary c)
            in send_json (SnapshotFrame s (filter passes filtered) (SNAPSHOT_PAGE \<le> length filtered)
                 (if filtered = [] then None else Some (en_seq (last filtered)))) c)
      in c'\<lparr>cn_forwarding := True\<rparr>)"

definition handle_subscribe ::
  "stream_rows \<Rightarrow> subscription \<Rightarrow> nat option \<Rightarrow> nat result \<Rightarrow> event_envelope list result \<Rightarrow>
   (connection \<Rightarrow> connection) \<Rightarrow> (connection \<Rightarrow> connection) \<Rightarrow> connection \<Rightarrow> connection" where
  "handle_subscribe w sub since latest history others1 others2 c =
     (if \<not> may_subscribe (su_caps sub) then send_json (ErrorFrame ''forbidden'') c
      else open_stream (is_shown w sub) since history (others2 (read_boundary latest (others1 (subscribe_ws c)))))"

text \<open>The forwarder ends when the hub dropped its sender or the writer is behind; it then says so, if it can.\<close>

definition stop_forwarding :: "connection \<Rightarrow> connection" where
  "stop_forwarding c = (send_json (CloseSocket 1001) c)\<lparr>cn_forwarding := False, cn_registered := False, cn_queue := []\<rparr>"

definition forward_step :: "(event_envelope \<Rightarrow> bool) \<Rightarrow> connection \<Rightarrow> connection" where
  "forward_step passes c =
     (if \<not> cn_forwarding c then c
      else case cn_queue c of
             [] \<Rightarrow> if cn_registered c then c else stop_forwarding c
           | env # queue \<Rightarrow>
               let c1 = c\<lparr>cn_queue := queue\<rparr> in
               if en_seq env \<le> cn_boundary c \<or> \<not> passes env then c1
               else (case try_send_message (EventFrame env) c1 of
                       (True, c2) \<Rightarrow> c2
                     | (False, c2) \<Rightarrow> stop_forwarding c2))"

subsection \<open>The write task\<close>

text \<open>
  The reader ends: the forwarder is aborted and nothing more is queued, but the write task goes on with what is. When the
  write task itself ends, what is queued is lost, and the reader sees its channel closed.
\<close>

definition end_session :: "connection \<Rightarrow> connection" where
  "end_session c = c\<lparr>cn_open := False, cn_forwarding := False, cn_registered := False, cn_queue := []\<rparr>"

definition close_connection :: "connection \<Rightarrow> connection" where
  "close_connection c = (end_session c)\<lparr>cn_out := [], cn_writer := WriterIdle\<rparr>"

definition writer_take :: "connection \<Rightarrow> connection" where
  "writer_take c = (if cn_writer c = WriterIdle \<and> cn_out c \<noteq> [] then c\<lparr>cn_writer := Taken\<rparr> else c)"

definition writer_refuse :: "refusal \<Rightarrow> connection \<Rightarrow> connection" where
  "writer_refuse r c = close_connection (c\<lparr>cn_sent := cn_sent c @ refusal_frames r\<rparr>)"

definition writer_latch :: "hub \<Rightarrow> uuid option \<Rightarrow> uuid \<Rightarrow> connection \<Rightarrow> connection" where
  "writer_latch h device_id token_id c =
     (if cn_writer c = Taken
      then case latched_refusal h device_id token_id of Some r \<Rightarrow> writer_refuse r c | None \<Rightarrow> c\<lparr>cn_writer := LatchPassed\<rparr>
      else c)"

definition writer_row :: "unit + api_token option \<Rightarrow> uuid \<Rightarrow> hub \<times> connection \<Rightarrow> hub \<times> connection" where
  "writer_row row token_id hc =
     (let (h, c) = hc in
      if cn_writer c = LatchPassed
      then case row_refusal row token_id h of
             (Some r, h') \<Rightarrow> (h', writer_refuse r c)
           | (None, h') \<Rightarrow> (h', c\<lparr>cn_writer := RowPassed\<rparr>)
      else (h, c))"

definition writer_send :: "connection \<Rightarrow> connection" where
  "writer_send c =
     (case cn_out c of
        m # ms \<Rightarrow> if cn_writer c = RowPassed then c\<lparr>cn_out := ms, cn_writer := WriterIdle, cn_sent := cn_sent c @ [m]\<rparr> else c
      | [] \<Rightarrow> c)"

end
