(* ===== verification/Live_Delivery.thy ===== *)
theory Live_Delivery
  imports Live_Stream Activity_Store
begin

text \<open>
  The delivery to one subscriber under every interleaving of commands that append, publications, drops by the hub,
  the subscription itself, the forwarder and the writer.
\<close>

subsection \<open>The run\<close>

datatype subscribe_phase = Unsubscribed | Watching | Bounded | Streaming

text \<open>
  \<open>lv_start\<close> is the log when the client connected, \<open>lv_from\<close> how much had been published when the hub registered the
  subscriber.
\<close>

record live_state =
  lv_start :: event_log
  lv_log :: event_log
  lv_published :: "event_envelope list"
  lv_from :: nat
  lv_phase :: subscribe_phase
  lv_conn :: connection

fun frame_events :: "ws_frame \<Rightarrow> event_envelope list" where
  "frame_events (SnapshotFrame _ es _ _) = es"
| "frame_events (EventFrame e) = [e]"
| "frame_events _ = []"

fun plain_frame :: "ws_frame \<Rightarrow> bool" where
  "plain_frame (SnapshotFrame _ _ _ _) = False"
| "plain_frame (EventFrame _) = False"
| "plain_frame _ = True"

definition received :: "connection \<Rightarrow> event_envelope list" where
  "received c = concat (map frame_events (cn_sent c))"

inductive live_run :: "(event_envelope \<Rightarrow> bool) \<Rightarrow> nat \<Rightarrow> live_state \<Rightarrow> bool" for passes since where
  start: "log_ok l \<Longrightarrow> set published \<subseteq> set (el_rows l) \<Longrightarrow>
    live_run passes since \<lparr>lv_start = l, lv_log = l, lv_published = published, lv_from = 0, lv_phase = Unsubscribed, lv_conn = new_connection\<rparr>"
| append: "live_run passes since st \<Longrightarrow> store_append_batch envs (lv_log st) = Inr (out, l) \<Longrightarrow> live_run passes since (st\<lparr>lv_log := l\<rparr>)"
| publish: "live_run passes since st \<Longrightarrow> env \<in> set (el_rows (lv_log st)) \<Longrightarrow>
    live_run passes since (st\<lparr>lv_published := lv_published st @ [env], lv_conn := fanout_one env (lv_conn st)\<rparr>)"
| lagged: "live_run passes since st \<Longrightarrow> live_run passes since (st\<lparr>lv_conn := fanout_lagged_one (lv_conn st)\<rparr>)"
| register: "live_run passes since st \<Longrightarrow> lv_phase st = Unsubscribed \<Longrightarrow>
    live_run passes since (st\<lparr>lv_from := length (lv_published st), lv_phase := Watching, lv_conn := subscribe_ws (lv_conn st)\<rparr>)"
| bound: "live_run passes since st \<Longrightarrow> lv_phase st = Watching \<Longrightarrow>
    live_run passes since (st\<lparr>lv_phase := Bounded, lv_conn := read_boundary (Inr (latest_seq (lv_log st))) (lv_conn st)\<rparr>)"
| opened: "live_run passes since st \<Longrightarrow> lv_phase st = Bounded \<Longrightarrow>
    live_run passes since (st\<lparr>lv_phase := Streaming,
      lv_conn := open_stream passes (Some since) (Inr (load_since (lv_log st) since SNAPSHOT_PAGE)) (lv_conn st)\<rparr>)"
| forward: "live_run passes since st \<Longrightarrow> live_run passes since (st\<lparr>lv_conn := forward_step passes (lv_conn st)\<rparr>)"
| takes: "live_run passes since st \<Longrightarrow> live_run passes since (st\<lparr>lv_conn := writer_take (lv_conn st)\<rparr>)"
| latched: "live_run passes since st \<Longrightarrow> live_run passes since (st\<lparr>lv_conn := writer_latch h device_id token_id (lv_conn st)\<rparr>)"
| checked: "live_run passes since st \<Longrightarrow> writer_row row token_id (h, lv_conn st) = (h', c) \<Longrightarrow> live_run passes since (st\<lparr>lv_conn := c\<rparr>)"
| sends: "live_run passes since st \<Longrightarrow> live_run passes since (st\<lparr>lv_conn := writer_send (lv_conn st)\<rparr>)"
| answer: "live_run passes since st \<Longrightarrow> plain_frame m \<Longrightarrow> live_run passes since (st\<lparr>lv_conn := send_json m (lv_conn st)\<rparr>)"
| ended: "live_run passes since st \<Longrightarrow> live_run passes since (st\<lparr>lv_conn := end_session (lv_conn st)\<rparr>)"
| closed: "live_run passes since st \<Longrightarrow> live_run passes since (st\<lparr>lv_conn := close_connection (lv_conn st)\<rparr>)"

subsection \<open>Frames on their way\<close>

definition frames :: "connection \<Rightarrow> ws_frame list" where
  "frames c = cn_sent c @ cn_out c"

definition in_flight :: "connection \<Rightarrow> event_envelope list" where
  "in_flight c = concat (map frame_events (frames c))"

definition has_whole_snapshot :: "nat \<Rightarrow> connection \<Rightarrow> bool" where
  "has_whole_snapshot since c \<longleftrightarrow> (\<exists>es nxt. SnapshotFrame since es False nxt \<in> set (frames c))"

lemma plain_no_events: "plain_frame m \<Longrightarrow> frame_events m = []"
  by (cases m) auto

lemma refusal_plain: "m \<in> set (refusal_frames r) \<Longrightarrow> plain_frame m"
  by (cases r) auto

lemma refusal_no_events: "concat (map frame_events (refusal_frames r)) = []"
  by (cases r) auto

text \<open>The fields of a connection other than its frames, and the frames a plain frame adds.\<close>

lemma send_plain:
  assumes "plain_frame m"
  shows "in_flight (send_json m c) = in_flight c" "has_whole_snapshot since (send_json m c) \<longleftrightarrow> has_whole_snapshot since c"
    "received (send_json m c) = received c"
  using assms plain_no_events [OF assms]
  by (auto simp: send_json_def try_send_message_def in_flight_def frames_def has_whole_snapshot_def received_def)

lemma send_json_fields [simp]:
  "cn_queue (send_json m c) = cn_queue c" "cn_registered (send_json m c) = cn_registered c" "cn_boundary (send_json m c) = cn_boundary c"
  "cn_forwarding (send_json m c) = cn_forwarding c" "cn_sent (send_json m c) = cn_sent c" "cn_open (send_json m c) = cn_open c"
  by (simp_all add: send_json_def try_send_message_def)

lemma stop_forwarding_view:
  "in_flight (stop_forwarding c) = in_flight c" "has_whole_snapshot since (stop_forwarding c) \<longleftrightarrow> has_whole_snapshot since c"
  "cn_forwarding (stop_forwarding c) = False" "cn_registered (stop_forwarding c) = False" "cn_boundary (stop_forwarding c) = cn_boundary c"
  using send_plain [where m = "CloseSocket 1001" and c = c]
  by (simp_all add: stop_forwarding_def in_flight_def frames_def has_whole_snapshot_def)

lemma received_prefix: "prefix (received c) (in_flight c)"
  by (simp add: received_def in_flight_def frames_def)

subsection \<open>What is on its way\<close>

text \<open>The live part: published since the registration, above the boundary, and shown.\<close>

definition live_part :: "(event_envelope \<Rightarrow> bool) \<Rightarrow> live_state \<Rightarrow> event_envelope list" where
  "live_part passes st = filter (\<lambda>e. cn_boundary (lv_conn st) < en_seq e \<and> passes e) (drop (lv_from st) (lv_published st))"

definition queued_part :: "(event_envelope \<Rightarrow> bool) \<Rightarrow> connection \<Rightarrow> event_envelope list" where
  "queued_part passes c = (if cn_forwarding c then filter (\<lambda>e. cn_boundary c < en_seq e \<and> passes e) (cn_queue c) else [])"

definition history_part :: "(event_envelope \<Rightarrow> bool) \<Rightarrow> nat \<Rightarrow> live_state \<Rightarrow> event_envelope list" where
  "history_part passes since st = filter (\<lambda>e. since < en_seq e \<and> en_seq e \<le> cn_boundary (lv_conn st) \<and> passes e) (el_rows (lv_log st))"

text \<open>A list the subscriber follows: all of it while the hub holds its sender, else what it had got.\<close>

definition follows :: "bool \<Rightarrow> 'a list \<Rightarrow> 'a list \<Rightarrow> bool" where
  "follows whole xs ys \<longleftrightarrow> prefix xs ys \<and> (whole \<longrightarrow> xs = ys)"

lemma follows_drop: "follows whole xs ys \<Longrightarrow> (whole' \<Longrightarrow> whole) \<Longrightarrow> follows whole' xs ys"
  by (auto simp: follows_def)

lemma follows_shorter: "follows whole xs ys \<Longrightarrow> prefix zs xs \<Longrightarrow> follows False zs ys"
  by (auto simp: follows_def intro: prefix_order.trans)

lemma follows_longer: "follows False xs ys \<Longrightarrow> follows False xs (ys @ zs)"
  by (auto simp: follows_def)

definition log_inv :: "live_state \<Rightarrow> bool" where
  "log_inv st \<longleftrightarrow> log_ok (lv_log st) \<and> set (lv_published st) \<subseteq> set (el_rows (lv_log st)) \<and> lv_from st \<le> length (lv_published st)"

definition boundary_inv :: "live_state \<Rightarrow> bool" where
  "boundary_inv st \<longleftrightarrow> lv_phase st \<in> {Bounded, Streaming} \<longrightarrow> cn_boundary (lv_conn st) \<le> el_high (lv_log st) \<and>
     (\<forall>e\<in>set (take (lv_from st) (lv_published st)). en_seq e \<le> cn_boundary (lv_conn st))"

definition waiting_inv :: "nat \<Rightarrow> live_state \<Rightarrow> bool" where
  "waiting_inv since st \<longleftrightarrow> lv_phase st \<noteq> Streaming \<longrightarrow>
     \<not> cn_forwarding (lv_conn st) \<and> list_all plain_frame (frames (lv_conn st)) \<and>
     (lv_phase st = Unsubscribed \<longrightarrow> \<not> cn_registered (lv_conn st)) \<and>
     (lv_phase st \<noteq> Unsubscribed \<longrightarrow> follows (cn_registered (lv_conn st)) (cn_queue (lv_conn st)) (drop (lv_from st) (lv_published st)))"

definition stream_inv :: "(event_envelope \<Rightarrow> bool) \<Rightarrow> nat \<Rightarrow> live_state \<Rightarrow> bool" where
  "stream_inv passes since st \<longleftrightarrow> lv_phase st = Streaming \<longrightarrow>
     (cn_registered (lv_conn st) \<longrightarrow> cn_forwarding (lv_conn st)) \<and>
     (has_whole_snapshot since (lv_conn st) \<longrightarrow>
        follows (cn_registered (lv_conn st)) (in_flight (lv_conn st) @ queued_part passes (lv_conn st))
          (history_part passes since st @ live_part passes st))"

lemmas delivery_defs = log_inv_def boundary_inv_def waiting_inv_def stream_inv_def

text \<open>A step that leaves log, publications and phase alone keeps the invariants when the connection keeps its side.\<close>

definition conn_keeps :: "(event_envelope \<Rightarrow> bool) \<Rightarrow> nat \<Rightarrow> connection \<Rightarrow> connection \<Rightarrow> bool" where
  "conn_keeps passes since c c' \<longleftrightarrow> cn_boundary c' = cn_boundary c \<and> (cn_registered c' \<longrightarrow> cn_registered c) \<and>
     (cn_forwarding c' \<longrightarrow> cn_forwarding c) \<and> (has_whole_snapshot since c' \<longrightarrow> has_whole_snapshot since c) \<and>
     (\<not> cn_forwarding c \<longrightarrow> (list_all plain_frame (frames c) \<longrightarrow> list_all plain_frame (frames c')) \<and> prefix (cn_queue c') (cn_queue c) \<and>
        (cn_registered c' \<longrightarrow> cn_queue c' = cn_queue c)) \<and>
     follows (cn_registered c' \<and> cn_forwarding c') (in_flight c' @ queued_part passes c') (in_flight c @ queued_part passes c) \<and>
     (cn_registered c' \<and> cn_forwarding c \<longrightarrow> cn_forwarding c')"

lemma conn_keeps_inv:
  assumes "conn_keeps passes since (lv_conn st) c'" "log_inv st" "boundary_inv st" "waiting_inv since st" "stream_inv passes since st"
  shows "log_inv (st\<lparr>lv_conn := c'\<rparr>)" "boundary_inv (st\<lparr>lv_conn := c'\<rparr>)" "waiting_inv since (st\<lparr>lv_conn := c'\<rparr>)"
    "stream_inv passes since (st\<lparr>lv_conn := c'\<rparr>)"
proof -
  note k = assms(1) [unfolded conn_keeps_def]
  show "log_inv (st\<lparr>lv_conn := c'\<rparr>)" using assms(2) by (simp add: log_inv_def)
  show "boundary_inv (st\<lparr>lv_conn := c'\<rparr>)" using assms(3) k by (simp add: boundary_inv_def)
  show "waiting_inv since (st\<lparr>lv_conn := c'\<rparr>)"
    using assms(4) k by (auto simp: waiting_inv_def follows_def intro: prefix_order.trans)
  show "stream_inv passes since (st\<lparr>lv_conn := c'\<rparr>)"
    using assms(5) k by (auto simp: stream_inv_def follows_def history_part_def live_part_def intro: prefix_order.trans)
qed

lemma keeps_plain:
  assumes "plain_frame m"
  shows "conn_keeps passes since c (send_json m c)"
proof -
  have "list_all plain_frame (frames (send_json m c))" if "list_all plain_frame (frames c)"
    using that assms by (simp add: send_json_def try_send_message_def frames_def)
  then show ?thesis
    using send_plain [OF assms, where c = c] by (simp add: conn_keeps_def follows_def queued_part_def)
qed

lemma keeps_stop:
  assumes "cn_forwarding c"
  shows "conn_keeps passes since c (stop_forwarding c)"
  using stop_forwarding_view [where c = c] assms by (simp add: conn_keeps_def follows_def queued_part_def)

lemma keeps_trans_queue:
  assumes "cn_forwarding c" "cn_queue c = env # queue" "en_seq env \<le> cn_boundary c \<or> \<not> passes env"
  shows "conn_keeps passes since c (c\<lparr>cn_queue := queue\<rparr>)"
  using assms by (auto simp: conn_keeps_def follows_def queued_part_def in_flight_def frames_def has_whole_snapshot_def)

lemma keeps_sent_event:
  assumes "cn_forwarding c" "cn_queue c = env # queue" "cn_boundary c < en_seq env" "passes env"
  shows "conn_keeps passes since c (c\<lparr>cn_queue := queue, cn_out := cn_out c @ [EventFrame env]\<rparr>)"
  using assms by (auto simp: conn_keeps_def follows_def queued_part_def in_flight_def frames_def has_whole_snapshot_def)

lemma keeps_forward: "conn_keeps passes since c (forward_step passes c)"
proof (cases "cn_forwarding c")
  case True
  show ?thesis
  proof (cases "cn_queue c")
    case Nil
    then show ?thesis using True keeps_stop [OF True]
      by (auto simp: forward_step_def conn_keeps_def follows_def)
  next
    case (Cons env queue)
    show ?thesis
    proof (cases "en_seq env \<le> cn_boundary c \<or> \<not> passes env")
      case skip: True
      then show ?thesis using True Cons keeps_trans_queue [OF True Cons] by (auto simp: forward_step_def Let_def)
    next
      case False
      then have "conn_keeps passes since c (stop_forwarding (c\<lparr>cn_queue := queue\<rparr>))"
        using stop_forwarding_view [where c = "c\<lparr>cn_queue := queue\<rparr>"] True
        by (simp add: conn_keeps_def follows_def queued_part_def) (simp add: in_flight_def frames_def has_whole_snapshot_def)
      then show ?thesis using False True Cons keeps_sent_event [OF True Cons]
        by (auto simp: forward_step_def try_send_message_def Let_def)
    qed
  qed
qed (simp add: forward_step_def conn_keeps_def follows_def)

lemmas keeps_defs = conn_keeps_def follows_def queued_part_def in_flight_def frames_def has_whole_snapshot_def

lemma keeps_ended: "conn_keeps passes since c (end_session c)"
  by (auto simp: keeps_defs end_session_def)

lemma keeps_close: "conn_keeps passes since c (close_connection c)"
  by (auto simp: keeps_defs close_connection_def end_session_def)

lemma keeps_refuse: "conn_keeps passes since c (writer_refuse r c)"
proof -
  have "has_whole_snapshot since (writer_refuse r c) \<Longrightarrow> has_whole_snapshot since c"
    using refusal_plain [of _ r] by (fastforce simp: has_whole_snapshot_def frames_def writer_refuse_def close_connection_def end_session_def)
  moreover have "list_all plain_frame (refusal_frames r)" using refusal_plain by (auto simp: list_all_iff)
  ultimately show ?thesis
    by (cases r) (auto simp: writer_refuse_def conn_keeps_def follows_def queued_part_def in_flight_def frames_def close_connection_def end_session_def)
qed

lemma keeps_phase: "conn_keeps passes since c (c\<lparr>cn_writer := w\<rparr>)"
  by (simp add: keeps_defs)

lemma keeps_refl: "conn_keeps passes since c c"
  by (simp add: conn_keeps_def follows_def)

lemma keeps_take: "conn_keeps passes since c (writer_take c)"
  using keeps_phase keeps_refl by (simp add: writer_take_def)

lemma keeps_latch: "conn_keeps passes since c (writer_latch h device_id token_id c)"
  using keeps_phase keeps_refl keeps_refuse by (simp add: writer_latch_def split: option.split)

lemma keeps_row: "writer_row row token_id (h, c) = (h', c') \<Longrightarrow> conn_keeps passes since c c'"
  using keeps_phase keeps_refl keeps_refuse by (auto simp: writer_row_def split: if_splits prod.splits option.splits)

lemma keeps_send: "conn_keeps passes since c (writer_send c)"
  by (cases "cn_out c") (auto simp: writer_send_def keeps_defs)

lemma keeps_lagged: "conn_keeps passes since c (fanout_lagged_one c)"
  by (simp add: fanout_lagged_one_def conn_keeps_def follows_def queued_part_def in_flight_def frames_def has_whole_snapshot_def)

subsection \<open>The other steps\<close>

lemma history_page:
  assumes "log_ok l" "length (filter_history (load_since l since SNAPSHOT_PAGE) b) < SNAPSHOT_PAGE"
  shows "filter_history (load_since l since SNAPSHOT_PAGE) b = filter (\<lambda>e. since < en_seq e \<and> en_seq e \<le> b) (el_rows l)"
proof -
  define rows where "rows = filter (\<lambda>e. since < en_seq e) (el_rows l)"
  have page: "load_since l since SNAPSHOT_PAGE = take SNAPSHOT_PAGE rows"
    using log_ok_sorted(1) [OF assms(1), of "\<lambda>e. since < en_seq e"] by (simp add: load_since_def rows_def)
  have sorted: "sorted_wrt (\<lambda>a b. en_seq a < en_seq b) rows"
    using log_ok_sorted(2) [OF assms(1)] by (simp add: rows_def sorted_wrt_map)
  have "filter (\<lambda>e. en_seq e \<le> b) (drop SNAPSHOT_PAGE rows) = []"
  proof (cases "length rows \<le> SNAPSHOT_PAGE")
    case False
    then have "length (take SNAPSHOT_PAGE rows) = SNAPSHOT_PAGE" by simp
    then obtain e where e: "e \<in> set (take SNAPSHOT_PAGE rows)" "b < en_seq e"
      using assms(2) unfolding page filter_history_def by (metis filter_True less_irrefl not_le)
    have "sorted_wrt (\<lambda>a b. en_seq a < en_seq b) (take SNAPSHOT_PAGE rows @ drop SNAPSHOT_PAGE rows)" using sorted by simp
    then have "\<forall>x\<in>set (drop SNAPSHOT_PAGE rows). en_seq e < en_seq x" using e(1) unfolding sorted_wrt_append by blast
    then show ?thesis using e(2) by (auto simp: filter_empty_conv)
  qed simp
  then have "filter (\<lambda>e. en_seq e \<le> b) (take SNAPSHOT_PAGE rows) = filter (\<lambda>e. en_seq e \<le> b) (take SNAPSHOT_PAGE rows @ drop SNAPSHOT_PAGE rows)"
    unfolding filter_append by simp
  then show ?thesis unfolding page filter_history_def by (simp add: rows_def conj_commute)
qed

abbreviation live_inv :: "(event_envelope \<Rightarrow> bool) \<Rightarrow> nat \<Rightarrow> live_state \<Rightarrow> bool" where
  "live_inv passes since st \<equiv> log_inv st \<and> boundary_inv st \<and> waiting_inv since st \<and> stream_inv passes since st"

lemma store_append_batch_high: "store_append_batch envs l = Inr (out, l') \<Longrightarrow> el_high l \<le> el_high l'"
  using append_chunks_spec [of envs l out l'] by (auto simp: store_append_batch_def split: if_splits)

lemma append_inv:
  assumes "live_inv passes since st" "store_append_batch envs (lv_log st) = Inr (out, l)"
  shows "live_inv passes since (st\<lparr>lv_log := l\<rparr>)"
proof -
  have ok: "log_ok (lv_log st)" and inv: "boundary_inv st" using assms(1) by (simp_all add: log_inv_def)
  have l: "log_ok l" "el_rows l = el_rows (lv_log st) @ out" "out = numbered_from (Suc (el_high (lv_log st))) envs"
    using store_append_batch_spec [OF assms(2)] ok by simp_all
  have "en_seq ` set out = {Suc (el_high (lv_log st)) ..< Suc (el_high (lv_log st)) + length envs}"
    using numbered_from_seqs [of "Suc (el_high (lv_log st))" envs] unfolding l(3) by (metis list.set_map set_upt)
  then have new: "\<forall>e\<in>set out. el_high (lv_log st) < en_seq e" by (metis Suc_le_eq atLeastLessThan_iff imageI)
  have "el_high (lv_log st) \<le> el_high l" using store_append_batch_high [OF assms(2)] by simp
  moreover have "history_part passes since (st\<lparr>lv_log := l\<rparr>) = history_part passes since st" if "lv_phase st = Streaming"
    using new inv that by (auto simp: history_part_def l(2) boundary_inv_def filter_empty_conv)
  ultimately show ?thesis using assms(1) l(1,2)
    by (auto simp: log_inv_def boundary_inv_def waiting_inv_def stream_inv_def live_part_def)
qed

lemma follows_more:
  "follows whole xs ys \<Longrightarrow> (whole' \<Longrightarrow> whole) \<Longrightarrow> follows whole' (if whole' then xs @ zs else xs) (ys @ zs)"
  by (auto simp: follows_def)

lemma publish_inv:
  assumes "live_inv passes since st" "env \<in> set (el_rows (lv_log st))"
  shows "live_inv passes since (st\<lparr>lv_published := lv_published st @ [env], lv_conn := fanout_one env (lv_conn st)\<rparr>)"
proof -
  let ?c = "lv_conn st"
  have le: "lv_from st \<le> length (lv_published st)" using assms(1) by (simp add: log_inv_def)
  have c: "frames (fanout_one env ?c) = frames ?c" "cn_boundary (fanout_one env ?c) = cn_boundary ?c"
    "cn_forwarding (fanout_one env ?c) = cn_forwarding ?c" "has_whole_snapshot since (fanout_one env ?c) = has_whole_snapshot since ?c"
    "in_flight (fanout_one env ?c) = in_flight ?c"
    by (simp_all add: fanout_one_def frames_def has_whole_snapshot_def in_flight_def)
  let ?r = "cn_registered (fanout_one env ?c)"
  have reg: "?r \<Longrightarrow> cn_registered ?c" and queue: "cn_queue (fanout_one env ?c) = (if ?r then cn_queue ?c @ [env] else cn_queue ?c)"
    by (simp_all add: fanout_one_def split: if_splits)
  have drop: "drop (lv_from st) (lv_published st @ [env]) = drop (lv_from st) (lv_published st) @ [env]" using le by simp
  have "follows ?r (cn_queue (fanout_one env ?c)) (drop (lv_from st) (lv_published st) @ [env])"
    if "follows (cn_registered ?c) (cn_queue ?c) (drop (lv_from st) (lv_published st))"
    unfolding queue by (rule follows_more [OF that reg])
  moreover have "?r \<longrightarrow> lv_phase st \<noteq> Unsubscribed" using assms(1) reg by (auto simp: waiting_inv_def)
  ultimately have w: "waiting_inv since (st\<lparr>lv_published := lv_published st @ [env], lv_conn := fanout_one env ?c\<rparr>)"
    using assms(1) le unfolding waiting_inv_def by (auto simp: c)
  let ?new = "if cn_boundary ?c < en_seq env \<and> passes env then [env] else []"
  have live: "live_part passes (st\<lparr>lv_published := lv_published st @ [env], lv_conn := fanout_one env ?c\<rparr>) = live_part passes st @ ?new"
    using le by (simp add: live_part_def c)
  have q: "queued_part passes (fanout_one env ?c) = (if ?r then queued_part passes ?c @ ?new else queued_part passes ?c)"
    if "?r \<longrightarrow> cn_forwarding ?c"
    using that by (simp add: queued_part_def c queue)
  have h: "history_part passes since (st\<lparr>lv_published := lv_published st @ [env], lv_conn := fanout_one env ?c\<rparr>) = history_part passes since st"
    by (simp add: history_part_def c)
  have s: "stream_inv passes since (st\<lparr>lv_published := lv_published st @ [env], lv_conn := fanout_one env ?c\<rparr>)"
    unfolding stream_inv_def
  proof (intro impI conjI)
    assume "lv_phase (st\<lparr>lv_published := lv_published st @ [env], lv_conn := fanout_one env ?c\<rparr>) = Streaming"
    then have phase: "cn_registered ?c \<longrightarrow> cn_forwarding ?c"
      "has_whole_snapshot since ?c \<longrightarrow> follows (cn_registered ?c) (in_flight ?c @ queued_part passes ?c) (history_part passes since st @ live_part passes st)"
      using assms(1) by (simp_all add: stream_inv_def)
    show "cn_forwarding (lv_conn (st\<lparr>lv_published := lv_published st @ [env], lv_conn := fanout_one env ?c\<rparr>))"
      if "cn_registered (lv_conn (st\<lparr>lv_published := lv_published st @ [env], lv_conn := fanout_one env ?c\<rparr>))"
      using that phase(1) reg by (simp add: c)
    assume "has_whole_snapshot since (lv_conn (st\<lparr>lv_published := lv_published st @ [env], lv_conn := fanout_one env ?c\<rparr>))"
    then have f: "follows (cn_registered ?c) (in_flight ?c @ queued_part passes ?c) (history_part passes since st @ live_part passes st)"
      using phase(2) by (simp add: c)
    have "follows ?r (if ?r then (in_flight ?c @ queued_part passes ?c) @ ?new else in_flight ?c @ queued_part passes ?c)
        ((history_part passes since st @ live_part passes st) @ ?new)"
      by (rule follows_more [OF f reg])
    moreover have "in_flight ?c @ queued_part passes (fanout_one env ?c) =
        (if ?r then (in_flight ?c @ queued_part passes ?c) @ ?new else in_flight ?c @ queued_part passes ?c)"
      using q phase(1) reg by auto
    ultimately show "follows (cn_registered (lv_conn (st\<lparr>lv_published := lv_published st @ [env], lv_conn := fanout_one env ?c\<rparr>)))
        (in_flight (lv_conn (st\<lparr>lv_published := lv_published st @ [env], lv_conn := fanout_one env ?c\<rparr>)) @
         queued_part passes (lv_conn (st\<lparr>lv_published := lv_published st @ [env], lv_conn := fanout_one env ?c\<rparr>)))
        (history_part passes since (st\<lparr>lv_published := lv_published st @ [env], lv_conn := fanout_one env ?c\<rparr>) @
         live_part passes (st\<lparr>lv_published := lv_published st @ [env], lv_conn := fanout_one env ?c\<rparr>))"
      unfolding live h by (simp add: c)
  qed
  have "log_inv (st\<lparr>lv_published := lv_published st @ [env], lv_conn := fanout_one env ?c\<rparr>)"
    "boundary_inv (st\<lparr>lv_published := lv_published st @ [env], lv_conn := fanout_one env ?c\<rparr>)"
    using assms le by (auto simp: log_inv_def boundary_inv_def c)
  then show ?thesis using w s by blast
qed

lemma register_inv:
  assumes "live_inv passes since st" "lv_phase st = Unsubscribed"
  shows "live_inv passes since (st\<lparr>lv_from := length (lv_published st), lv_phase := Watching, lv_conn := subscribe_ws (lv_conn st)\<rparr>)"
  using assms by (simp add: log_inv_def boundary_inv_def waiting_inv_def stream_inv_def subscribe_ws_def frames_def follows_def)

lemma bound_inv:
  assumes "live_inv passes since st" "lv_phase st = Watching"
  shows "live_inv passes since (st\<lparr>lv_phase := Bounded, lv_conn := read_boundary (Inr (latest_seq (lv_log st))) (lv_conn st)\<rparr>)"
proof -
  have "en_seq e \<le> el_high (lv_log st)" if "e \<in> set (take (lv_from st) (lv_published st))" for e
    using assms(1) that in_set_takeD by (fastforce simp: log_inv_def log_ok_def)
  then show ?thesis using assms
    by (simp add: log_inv_def boundary_inv_def waiting_inv_def stream_inv_def read_boundary_def latest_seq_def frames_def follows_def)
qed

lemma opened_inv:
  assumes "live_inv passes since st" "lv_phase st = Bounded"
  shows "live_inv passes since (st\<lparr>lv_phase := Streaming,
      lv_conn := open_stream passes (Some since) (Inr (load_since (lv_log st) since SNAPSHOT_PAGE)) (lv_conn st)\<rparr>)"
proof -
  let ?c = "lv_conn st" and ?l = "lv_log st"
  define filtered where "filtered = filter_history (load_since ?l since SNAPSHOT_PAGE) (cn_boundary ?c)"
  define m where "m = SnapshotFrame since (filter passes filtered) (SNAPSHOT_PAGE \<le> length filtered)
      (if filtered = [] then None else Some (en_seq (last filtered)))"
  have c': "open_stream passes (Some since) (Inr (load_since ?l since SNAPSHOT_PAGE)) ?c = (send_json m ?c)\<lparr>cn_forwarding := True\<rparr>"
    by (simp add: open_stream_def Let_def filtered_def m_def)
  have plain: "list_all plain_frame (frames ?c)" "\<not> cn_forwarding ?c"
    and queue: "follows (cn_registered ?c) (cn_queue ?c) (drop (lv_from st) (lv_published st))"
    using assms by (simp_all add: waiting_inv_def)
  have silent: "in_flight ?c = []" "\<not> has_whole_snapshot since ?c"
    using plain(1) plain_no_events by (auto simp: in_flight_def has_whole_snapshot_def list_all_iff)
  have flight: "in_flight (send_json m ?c) = filter (\<lambda>e. since < en_seq e \<and> en_seq e \<le> cn_boundary ?c \<and> passes e) (el_rows ?l)"
    if "has_whole_snapshot since (send_json m ?c)"
  proof -
    have sent: "frames (send_json m ?c) = frames ?c @ [m]" and "length filtered < SNAPSHOT_PAGE"
      using that silent(2) by (auto simp: send_json_def try_send_message_def frames_def has_whole_snapshot_def m_def split: if_splits)
    then have "filtered = filter (\<lambda>e. since < en_seq e \<and> en_seq e \<le> cn_boundary ?c) (el_rows ?l)"
      using assms(1) history_page [of ?l since "cn_boundary ?c"] by (simp add: filtered_def log_inv_def)
    then have "frame_events m = filter (\<lambda>e. since < en_seq e \<and> en_seq e \<le> cn_boundary ?c \<and> passes e) (el_rows ?l)"
      by (simp add: m_def)
    then show ?thesis using silent(1) sent by (simp add: in_flight_def)
  qed
  have "stream_inv passes since (st\<lparr>lv_phase := Streaming, lv_conn := (send_json m ?c)\<lparr>cn_forwarding := True\<rparr>\<rparr>)"
  proof -
    have "follows (cn_registered ?c) (h @ filter P (cn_queue ?c)) (h @ filter P (drop (lv_from st) (lv_published st)))" for h P
      using queue by (auto simp: follows_def prefix_def)
    moreover have "has_whole_snapshot since ((send_json m ?c)\<lparr>cn_forwarding := True\<rparr>) = has_whole_snapshot since (send_json m ?c)"
      "in_flight ((send_json m ?c)\<lparr>cn_forwarding := True\<rparr>) = in_flight (send_json m ?c)"
      by (simp_all add: has_whole_snapshot_def in_flight_def frames_def)
    ultimately show ?thesis using flight by (simp add: stream_inv_def queued_part_def history_part_def live_part_def)
  qed
  then show ?thesis using assms unfolding c' by (simp add: log_inv_def boundary_inv_def waiting_inv_def)
qed

lemma live_run_inv: "live_run passes since st \<Longrightarrow> live_inv passes since st"
proof (induction rule: live_run.induct)
  case (start l published)
  then show ?case by (simp add: delivery_defs new_connection_def frames_def)
next
  case (append st envs out l)
  then show ?case by (intro append_inv)
next
  case (publish st env)
  then show ?case by (intro publish_inv)
next
  case (register st)
  then show ?case by (intro register_inv)
next
  case (bound st)
  then show ?case by (intro bound_inv)
next
  case (opened st)
  then show ?case by (intro opened_inv)
next
  case (lagged st)
  then show ?case using conn_keeps_inv [OF keeps_lagged] by blast
next
  case (forward st)
  then show ?case using conn_keeps_inv [OF keeps_forward] by blast
next
  case (takes st)
  then show ?case using conn_keeps_inv [OF keeps_take] by blast
next
  case (latched st h device_id token_id)
  then show ?case using conn_keeps_inv [OF keeps_latch [of passes since "lv_conn st" h device_id token_id]] by blast
next
  case (checked st row token_id h h' c)
  then show ?case using conn_keeps_inv [OF keeps_row [OF checked.hyps(2)]] by blast
next
  case (sends st)
  then show ?case using conn_keeps_inv [OF keeps_send] by blast
next
  case (ended st)
  then show ?case using conn_keeps_inv [OF keeps_ended] by blast
next
  case (answer st m)
  then show ?case using conn_keeps_inv [OF keeps_plain] by blast
next
  case (closed st)
  then show ?case using conn_keeps_inv [OF keeps_close] by blast
qed

subsection \<open>What the client has\<close>

lemma split_at_boundary:
  fixes rows :: "event_envelope list"
  assumes "sorted_wrt (\<lambda>a b. en_seq a < en_seq b) rows"
  shows "filter (\<lambda>e. since < en_seq e \<and> en_seq e \<le> b \<and> Q e) rows @ filter (\<lambda>e. b < en_seq e \<and> Q e) rows =
    filter (\<lambda>e. min since b < en_seq e \<and> Q e) rows"
  using assms
proof (induction rows)
  case (Cons x rows)
  show ?case
  proof (cases "en_seq x \<le> b")
    case False
    then have "\<forall>e\<in>set rows. b < en_seq e" using Cons.prems by auto
    then have "filter (\<lambda>e. since < en_seq e \<and> en_seq e \<le> b \<and> Q e) (x # rows) = []" using False by (auto simp: filter_empty_conv)
    moreover have "filter (\<lambda>e. b < en_seq e \<and> Q e) (x # rows) = filter (\<lambda>e. min since b < en_seq e \<and> Q e) (x # rows)"
      using False \<open>\<forall>e\<in>set rows. b < en_seq e\<close> by (intro filter_cong) auto
    ultimately show ?thesis by simp
  qed (use Cons in auto)
qed simp

lemma filter_prefix: "prefix xs ys \<Longrightarrow> prefix (filter P xs) (filter P ys)"
  by (auto simp: prefix_def)

text \<open>
  C14: live delivery has no gap, no repetition and no reordering. If events are published in log order and the snapshot was
  not cut at a page, then whatever interleaving of commands, drops, refusals and slow writers led here, what the client
  got is an initial part of the events it may see above its cursor, in log order; and all of it once the connection is
  drained.
\<close>

theorem live_stream_gap_free:
  assumes run: "live_run passes since st" and ordered: "prefix (lv_published st) (el_rows (lv_log st))"
    and snapshot: "SnapshotFrame since es False nxt \<in> set (cn_sent (lv_conn st))"
  shows "prefix (received (lv_conn st))
      (filter (\<lambda>e. min since (cn_boundary (lv_conn st)) < en_seq e \<and> passes e) (el_rows (lv_log st))) \<and>
    (cn_registered (lv_conn st) \<and> cn_queue (lv_conn st) = [] \<and> cn_out (lv_conn st) = [] \<and> lv_published st = el_rows (lv_log st) \<longrightarrow>
      received (lv_conn st) = filter (\<lambda>e. min since (cn_boundary (lv_conn st)) < en_seq e \<and> passes e) (el_rows (lv_log st)))"
proof -
  let ?c = "lv_conn st" and ?rows = "el_rows (lv_log st)"
  let ?P = "\<lambda>e. cn_boundary ?c < en_seq e \<and> passes e"
  have inv: "live_inv passes since st" by (rule live_run_inv [OF run])
  have "\<not> list_all plain_frame (frames ?c)" using snapshot by (auto simp: list_all_iff frames_def intro!: bexI [of _ "SnapshotFrame since es False nxt"])
  then have phase: "lv_phase st = Streaming" using inv unfolding waiting_inv_def by blast
  have "has_whole_snapshot since ?c" using snapshot by (auto simp: has_whole_snapshot_def frames_def)
  then have f: "follows (cn_registered ?c) (in_flight ?c @ queued_part passes ?c) (history_part passes since st @ live_part passes st)"
    using inv phase unfolding stream_inv_def by blast
  have "filter ?P (take (lv_from st) (lv_published st)) = []" using inv phase by (auto simp: boundary_inv_def filter_empty_conv)
  then have live: "live_part passes st = filter ?P (lv_published st)"
    unfolding live_part_def by (metis append_Nil append_take_drop_id filter_append)
  have "sorted_wrt (\<lambda>a b. en_seq a < en_seq b) ?rows" using inv by (simp add: log_inv_def log_ok_def sorted_wrt_map)
  note whole = split_at_boundary [OF this, of since "cn_boundary ?c" passes]
  have "prefix (history_part passes since st @ live_part passes st) (history_part passes since st @ filter ?P ?rows)"
    unfolding live using filter_prefix [OF ordered] by simp
  then have seen: "prefix (history_part passes since st @ live_part passes st)
      (filter (\<lambda>e. min since (cn_boundary ?c) < en_seq e \<and> passes e) ?rows)"
    unfolding history_part_def whole .
  have "prefix (received ?c) (history_part passes since st @ live_part passes st)"
    using f received_prefix [of ?c] unfolding follows_def by (metis append_prefixD prefix_order.trans)
  with seen have "prefix (received ?c) (filter (\<lambda>e. min since (cn_boundary ?c) < en_seq e \<and> passes e) ?rows)"
    by (rule prefix_order.trans [rotated])
  moreover have "received ?c = filter (\<lambda>e. min since (cn_boundary ?c) < en_seq e \<and> passes e) ?rows"
    if "cn_registered ?c" "cn_queue ?c = []" "cn_out ?c = []" "lv_published st = ?rows"
  proof -
    have "received ?c = in_flight ?c @ queued_part passes ?c"
      using that by (simp add: received_def in_flight_def frames_def queued_part_def)
    also have "\<dots> = history_part passes since st @ live_part passes st" using f that(1) by (simp add: follows_def)
    finally show ?thesis unfolding live that(4) history_part_def whole .
  qed
  ultimately show ?thesis by blast
qed

subsection \<open>An example\<close>

definition demo_task_event :: "uuid \<Rightarrow> event_envelope" where
  "demo_task_event i = envelope_new i 5 actor_user (TaskEv (TaskDeleted 3))"

definition demo_rows_of :: "uuid list \<Rightarrow> event_log" where
  "demo_rows_of ids = fold (\<lambda>i. log_insert (demo_task_event i)) ids empty_log"

definition demo_subscription :: subscription where
  "demo_subscription = \<lparr>su_caps = capabilities_from [SubscribeTasks], su_projects = effective_project_filter FilterAll None,
     su_channels = channel_filter None, su_filters = \<lparr>sf_assignee = None, sf_verb = None, sf_parent_plan = None, sf_mine = None\<rparr>\<rparr>"

definition demo_shown :: "event_envelope \<Rightarrow> bool" where
  "demo_shown = is_shown \<lparr>sw_tasks = \<lparr>ts_rows = [], ts_due_notifications = []\<rparr>,
     sw_plans = \<lparr>ps_plans = [], ps_plan_tasks = [], ps_sources = []\<rparr>, sw_claims = [], sw_log = empty_log, sw_now = 5\<rparr> demo_subscription"

text \<open>A client that subscribes to a log of one row, and the second row when it is published.\<close>

definition demo_subscribed :: "nat \<Rightarrow> event_log \<Rightarrow> event_envelope list \<Rightarrow> live_state" where
  "demo_subscribed since l published =
     \<lparr>lv_start = l, lv_log = l, lv_published = published, lv_from = length published, lv_phase = Streaming,
      lv_conn = open_stream demo_shown (Some since) (Inr (load_since l since SNAPSHOT_PAGE))
        (read_boundary (Inr (latest_seq l)) (subscribe_ws new_connection))\<rparr>"

lemma demo_subscribed_run:
  assumes "log_ok l" "set published \<subseteq> set (el_rows l)"
  shows "live_run demo_shown since (demo_subscribed since l published)"
  using live_run.opened [OF live_run.bound [OF live_run.register [OF live_run.start [OF assms, where passes = demo_shown and since = since]]]]
  by (simp add: demo_subscribed_def)

definition demo_grow :: "uuid \<Rightarrow> live_state \<Rightarrow> live_state" where
  "demo_grow i st = st\<lparr>lv_log := log_insert (demo_task_event i) (lv_log st)\<rparr>"

lemma demo_grow_run:
  assumes "live_run demo_shown since st" "log_accepts (lv_log st) (demo_task_event i)"
  shows "live_run demo_shown since (demo_grow i st)"
proof -
  have "store_append_batch [demo_task_event i] (lv_log st) =
      Inr ([(demo_task_event i)\<lparr>en_seq := Suc (el_high (lv_log st))\<rparr>], log_insert (demo_task_event i) (lv_log st))"
    using assms(2) by (simp add: store_append_batch_def append_chunks.simps CHUNK_def log_insert_def numbered_from_def enumerate_Suc_eq)
  from live_run.append [OF assms(1) this] show ?thesis by (simp add: demo_grow_def)
qed

definition demo_publish :: "nat \<Rightarrow> live_state \<Rightarrow> live_state" where
  "demo_publish k st = st\<lparr>lv_published := lv_published st @ [el_rows (lv_log st) ! k], lv_conn := fanout_one (el_rows (lv_log st) ! k) (lv_conn st)\<rparr>"

lemma demo_publish_run:
  "live_run demo_shown since st \<Longrightarrow> k < length (el_rows (lv_log st)) \<Longrightarrow> live_run demo_shown since (demo_publish k st)"
  unfolding demo_publish_def by (rule live_run.publish) simp_all

definition idle_hub :: hub where
  "idle_hub = \<lparr>hb_connected = [], hb_revoked_devices = {}, hb_revoked_tokens = {}\<rparr>"

text \<open>A turn of the write task that nothing refuses.\<close>

definition write_turn :: "api_token \<Rightarrow> connection \<Rightarrow> connection" where
  "write_turn t c = writer_send (snd (writer_row (Inr (Some t)) 4 (idle_hub, writer_latch idle_hub None 4 (writer_take c))))"

lemma write_turn_run:
  assumes "live_run passes since st"
  shows "live_run passes since (st\<lparr>lv_conn := write_turn t (lv_conn st)\<rparr>)"
proof -
  define c where "c = writer_latch idle_hub None 4 (writer_take (lv_conn st))"
  have "live_run passes since (st\<lparr>lv_conn := c\<rparr>)"
    using live_run.latched [OF live_run.takes [OF assms], of idle_hub None 4] by (simp add: c_def)
  from live_run.checked [OF this, of "Inr (Some t)" 4 idle_hub]
  have "live_run passes since (st\<lparr>lv_conn := snd (writer_row (Inr (Some t)) 4 (idle_hub, c))\<rparr>)"
    by (cases "writer_row (Inr (Some t)) 4 (idle_hub, c)") simp
  from live_run.sends [OF this] show ?thesis by (simp add: write_turn_def c_def)
qed

definition demo_drain :: "live_state \<Rightarrow> live_state" where
  "demo_drain st = st\<lparr>lv_conn := write_turn (demo_token 1 ''aaaaaaaa'') (write_turn (demo_token 1 ''aaaaaaaa'') (forward_step demo_shown (lv_conn st)))\<rparr>"

lemma demo_drain_run:
  assumes "live_run demo_shown since st"
  shows "live_run demo_shown since (demo_drain st)"
  using write_turn_run [OF write_turn_run [OF live_run.forward [OF assms]]] by (simp add: demo_drain_def)

definition demo_followed :: live_state where
  "demo_followed = demo_drain (demo_publish 1 (demo_grow 91 (demo_subscribed 0 (demo_rows_of [90]) (el_rows (demo_rows_of [90])))))"

lemma demo_rows_ok: "log_ok (demo_rows_of [90])" "log_ok (demo_rows_of [90, 91])" "log_ok (demo_rows_of [])"
  by (simp_all add: log_ok_def demo_rows_of_def demo_task_event_def log_insert_def envelope_new_def empty_log_def)

theorem live_stream_gap_free_witness:
  "map en_seq (received (lv_conn demo_followed)) = [1, 2] \<and>
   received (lv_conn demo_followed) = filter (\<lambda>e. 0 < en_seq e \<and> demo_shown e) (el_rows (lv_log demo_followed))"
proof -
  let ?sub = "demo_subscribed 0 (demo_rows_of [90]) (el_rows (demo_rows_of [90]))"
  have sub: "live_run demo_shown 0 ?sub" by (rule demo_subscribed_run [OF demo_rows_ok(1)]) simp
  have fresh: "log_accepts (lv_log ?sub) (demo_task_event 91)" by code_simp
  have "1 < length (el_rows (lv_log (demo_grow 91 ?sub)))" by code_simp
  then have run: "live_run demo_shown 0 demo_followed"
    unfolding demo_followed_def by (intro demo_drain_run demo_publish_run demo_grow_run [OF sub fresh])
  have demo: "lv_published demo_followed = el_rows (lv_log demo_followed)"
    "cn_sent (lv_conn demo_followed) = SnapshotFrame 0 (el_rows (demo_rows_of [90])) False (Some 1) # tl (cn_sent (lv_conn demo_followed))"
    "map en_seq (received (lv_conn demo_followed)) = [1, 2]" "cn_registered (lv_conn demo_followed)" "cn_queue (lv_conn demo_followed) = []"
    "cn_out (lv_conn demo_followed) = []" by code_simp+
  have snapshot: "SnapshotFrame 0 (el_rows (demo_rows_of [90])) False (Some 1) \<in> set (cn_sent (lv_conn demo_followed))"
    by (subst demo(2)) simp
  have "received (lv_conn demo_followed) =
      filter (\<lambda>e. min 0 (cn_boundary (lv_conn demo_followed)) < en_seq e \<and> demo_shown e) (el_rows (lv_log demo_followed))"
    using live_stream_gap_free [OF run _ snapshot] demo(1,4-6) by simp
  then show ?thesis using demo(3) by simp
qed

subsection \<open>Late publications\<close>

text \<open>
  Whatever reaches a client is above its cursor or above the boundary it read, and the boundary is not below the log it
  connected to.
\<close>

definition above_floor :: "nat \<Rightarrow> connection \<Rightarrow> bool" where
  "above_floor since c \<longleftrightarrow> (\<forall>e\<in>set (in_flight c). since < en_seq e \<or> cn_boundary c < en_seq e)"

lemma keeps_floor:
  assumes "conn_keeps passes since c c'" "above_floor since c"
  shows "above_floor since c'"
proof -
  have "prefix (in_flight c' @ queued_part passes c') (in_flight c @ queued_part passes c)" and same: "cn_boundary c' = cn_boundary c"
    using assms(1) by (simp_all add: conn_keeps_def follows_def)
  then have "set (in_flight c') \<subseteq> set (in_flight c) \<union> set (queued_part passes c)" using set_mono_prefix by force
  moreover have "\<forall>e\<in>set (queued_part passes c). cn_boundary c < en_seq e" by (simp add: queued_part_def)
  ultimately show ?thesis using assms(2) unfolding above_floor_def same by blast
qed

definition start_inv :: "live_state \<Rightarrow> bool" where
  "start_inv st \<longleftrightarrow> log_ok (lv_start st) \<and> el_high (lv_start st) \<le> el_high (lv_log st) \<and>
     (lv_phase st \<in> {Bounded, Streaming} \<longrightarrow> el_high (lv_start st) \<le> cn_boundary (lv_conn st))"

lemma opened_floor:
  assumes "above_floor since c"
  shows "above_floor since (open_stream passes (Some since) (Inr (load_since l since n)) c)"
proof -
  let ?es = "filter passes (filter_history (load_since l since n) (cn_boundary c))"
  have "\<forall>e\<in>set ?es. since < en_seq e" by (auto simp: filter_history_def load_since_def dest: in_set_takeD)
  then show ?thesis using assms
    by (auto simp: open_stream_def Let_def above_floor_def in_flight_def frames_def send_json_def try_send_message_def)
qed

lemma live_run_floor: "live_run passes since st \<Longrightarrow> above_floor since (lv_conn st) \<and> start_inv st"
proof (induction rule: live_run.induct)
  case (start l published)
  then show ?case by (simp add: above_floor_def in_flight_def frames_def new_connection_def start_inv_def)
next
  case (append st envs out l)
  then show ?case using store_append_batch_high [OF append.hyps(2)] by (simp add: start_inv_def)
next
  case (publish st env)
  then show ?case by (auto simp: above_floor_def start_inv_def in_flight_def frames_def fanout_one_def)
next
  case (register st)
  then show ?case by (auto simp: above_floor_def start_inv_def in_flight_def frames_def subscribe_ws_def)
next
  case (bound st)
  have "in_flight (lv_conn st) = []"
    using live_run_inv [OF bound.hyps(1)] bound.hyps(2) plain_no_events by (auto simp: waiting_inv_def in_flight_def list_all_iff)
  then show ?case using bound.IH by (simp add: above_floor_def start_inv_def read_boundary_def latest_seq_def in_flight_def frames_def)
next
  case (opened st)
  then show ?case using opened_floor [of since "lv_conn st"] by (simp add: start_inv_def open_stream_def Let_def)
next
  case (lagged st)
  then show ?case using keeps_floor [OF keeps_lagged] by (auto simp: start_inv_def fanout_lagged_one_def)
next
  case (forward st)
  then show ?case using keeps_floor [OF keeps_forward] keeps_forward [of passes since "lv_conn st"] by (auto simp: start_inv_def conn_keeps_def)
next
  case (takes st)
  then show ?case using keeps_floor [OF keeps_take] keeps_take [of passes since "lv_conn st"] by (auto simp: start_inv_def conn_keeps_def)
next
  case (latched st h device_id token_id)
  then show ?case using keeps_floor [OF keeps_latch] keeps_latch [of passes since "lv_conn st" h device_id token_id]
    by (auto simp: start_inv_def conn_keeps_def)
next
  case (checked st row token_id h h' c)
  then show ?case using keeps_floor [OF keeps_row [OF checked.hyps(2)]] keeps_row [OF checked.hyps(2), of passes since]
    by (auto simp: start_inv_def conn_keeps_def)
next
  case (sends st)
  then show ?case using keeps_floor [OF keeps_send] keeps_send [of passes since "lv_conn st"] by (auto simp: start_inv_def conn_keeps_def)
next
  case (answer st m)
  then show ?case using keeps_floor [OF keeps_plain] keeps_plain [of m passes since "lv_conn st"] by (auto simp: start_inv_def conn_keeps_def)
next
  case (ended st)
  then show ?case using keeps_floor [OF keeps_ended] keeps_ended [of passes since "lv_conn st"] by (auto simp: start_inv_def conn_keeps_def)
next
  case (closed st)
  then show ?case using keeps_floor [OF keeps_close] keeps_close [of passes since "lv_conn st"] by (auto simp: start_inv_def conn_keeps_def)
qed

lemma reconnect_above_cursor:
  assumes "live_run passes since st" "b \<in> set (el_rows (lv_start st))" "en_seq b = since" "e \<in> set (received (lv_conn st))"
  shows "since < en_seq e"
proof -
  have floor: "above_floor since (lv_conn st)" "start_inv st" using live_run_floor [OF assms(1)] by simp_all
  have flight: "e \<in> set (in_flight (lv_conn st))" using assms(4) received_prefix set_mono_prefix by blast
  have "lv_phase st \<in> {Bounded, Streaming}"
  proof (rule ccontr)
    assume "lv_phase st \<notin> {Bounded, Streaming}"
    then have "in_flight (lv_conn st) = []"
      using live_run_inv [OF assms(1)] plain_no_events by (cases "lv_phase st") (auto simp: waiting_inv_def in_flight_def list_all_iff)
    then show False using flight by simp
  qed
  then have "since \<le> cn_boundary (lv_conn st)" using floor(2) assms(2,3) by (auto simp: start_inv_def log_ok_def intro: order.trans)
  then show ?thesis using floor(1) flight by (fastforce simp: above_floor_def)
qed

text \<open>An idle connection sends what is published above its boundary, and nothing after it hung up.\<close>

definition idle_stream :: "connection \<Rightarrow> bool" where
  "idle_stream c \<longleftrightarrow> cn_registered c \<and> cn_forwarding c \<and> cn_open c \<and> cn_queue c = [] \<and> cn_out c = [] \<and> cn_writer c = WriterIdle"

lemma idle_delivers:
  assumes "idle_stream c" "cn_boundary c < en_seq b" "passes b" "at_revoked_at t = None"
  shows "write_turn t (forward_step passes (fanout_one b c)) = c\<lparr>cn_sent := cn_sent c @ [EventFrame b]\<rparr>"
  using assms
  by (simp add: idle_stream_def fanout_one_def WS_SUBSCRIBER_CHANNEL_def forward_step_def Let_def try_send_message_def
      channel_length_def write_turn_def writer_take_def writer_latch_def latched_refusal_def idle_hub_def writer_row_def
      row_refusal_def writer_send_def)

text \<open>
  C15: an event published after a later one is lost for a client that reconnects in between. Take any idle subscriber and
  two events \<open>a\<close>, \<open>b\<close> of the log, \<open>a\<close> before \<open>b\<close>. If \<open>b\<close> is published first, the client can get it and hang up before \<open>a\<close> is
  published; and then no connection it opens to this log with \<open>b\<close> as its cursor ever gives it \<open>a\<close>, whatever happens there.
\<close>

theorem late_publication_is_lost:
  assumes run: "live_run passes since st" and idle: "idle_stream (lv_conn st)"
    and rows: "a \<in> set (el_rows (lv_log st))" "b \<in> set (el_rows (lv_log st))" "en_seq a < en_seq b"
    and shown: "cn_boundary (lv_conn st) < en_seq b" "passes b" and missing: "a \<notin> set (received (lv_conn st))"
  shows "\<exists>st'. live_run passes since st' \<and> lv_log st' = lv_log st \<and> lv_published st' = lv_published st @ [b, a] \<and>
     received (lv_conn st') = received (lv_conn st) @ [b] \<and> a \<notin> set (received (lv_conn st')) \<and>
     (\<forall>shown' st''. live_run shown' (en_seq b) st'' \<and> set (el_rows (lv_log st')) \<subseteq> set (el_rows (lv_start st'')) \<longrightarrow>
        a \<notin> set (received (lv_conn st'')))"
proof (intro exI conjI)
  let ?t = "(demo_token 1 [])\<lparr>at_revoked_at := None\<rparr>"
  let ?c = "(lv_conn st)\<lparr>cn_sent := cn_sent (lv_conn st) @ [EventFrame b]\<rparr>"
  let ?st = "st\<lparr>lv_published := lv_published st @ [b, a], lv_conn := end_session ?c\<rparr>"
  have "live_run passes since (st\<lparr>lv_published := lv_published st @ [b], lv_conn := ?c\<rparr>)"
    using write_turn_run [OF live_run.forward [OF live_run.publish [OF run rows(2)]], of ?t] idle_delivers [where passes = passes and t = ?t, OF idle shown] by simp
  from live_run.publish [OF live_run.ended [OF this], of a] rows(1)
  show "live_run passes since ?st" by (simp add: fanout_one_def end_session_def)
  show sent: "received (lv_conn ?st) = received (lv_conn st) @ [b]" by (simp add: received_def end_session_def)
  show "a \<notin> set (received (lv_conn ?st))" using missing rows(3) unfolding sent by auto
  show "\<forall>shown' st''. live_run shown' (en_seq b) st'' \<and> set (el_rows (lv_log ?st)) \<subseteq> set (el_rows (lv_start st'')) \<longrightarrow>
      a \<notin> set (received (lv_conn st''))"
  proof (intro allI impI notI)
    fix shown' st''
    assume again: "live_run shown' (en_seq b) st'' \<and> set (el_rows (lv_log ?st)) \<subseteq> set (el_rows (lv_start st''))"
      and got: "a \<in> set (received (lv_conn st''))"
    have "b \<in> set (el_rows (lv_start st''))" using again rows(2) by auto
    then show False using reconnect_above_cursor [OF conjunct1 [OF again] _ refl got] rows(3) by simp
  qed
qed simp_all

definition demo_waiting :: live_state where
  "demo_waiting = demo_drain (demo_grow 91 (demo_grow 90 (demo_subscribed 0 (demo_rows_of []) [])))"

theorem late_publication_is_lost_witness:
  "\<exists>a b st'. set (el_rows (lv_log demo_waiting)) = {a, b} \<and> en_seq a = 1 \<and> en_seq b = 2 \<and> demo_shown a \<and> live_run demo_shown 0 st' \<and>
     lv_published st' = [b, a] \<and> received (lv_conn st') = [b] \<and>
     (\<forall>shown' st''. live_run shown' 2 st'' \<and> set (el_rows (lv_log demo_waiting)) \<subseteq> set (el_rows (lv_start st'')) \<longrightarrow>
        a \<notin> set (received (lv_conn st'')))"
proof -
  let ?s0 = "demo_subscribed 0 (demo_rows_of []) []"
  have s0: "live_run demo_shown 0 ?s0" by (rule demo_subscribed_run [OF demo_rows_ok(3)]) simp
  have "log_accepts (lv_log ?s0) (demo_task_event 90)" "log_accepts (lv_log (demo_grow 90 ?s0)) (demo_task_event 91)" by code_simp+
  then have run: "live_run demo_shown 0 demo_waiting"
    unfolding demo_waiting_def by (intro demo_drain_run demo_grow_run s0)
  let ?a = "(demo_task_event 90)\<lparr>en_seq := 1\<rparr>" and ?b = "(demo_task_event 91)\<lparr>en_seq := 2\<rparr>"
  have rows: "el_rows (lv_log demo_waiting) = [?a, ?b]" "lv_published demo_waiting = []" "received (lv_conn demo_waiting) = []" by code_simp+
  have idle: "idle_stream (lv_conn demo_waiting)" and low: "cn_boundary (lv_conn demo_waiting) = 0" by code_simp+
  have shown: "demo_shown ?a" "demo_shown ?b" by code_simp+
  have "\<exists>st'. live_run demo_shown 0 st' \<and> lv_log st' = lv_log demo_waiting \<and> lv_published st' = lv_published demo_waiting @ [?b, ?a] \<and>
      received (lv_conn st') = received (lv_conn demo_waiting) @ [?b] \<and> ?a \<notin> set (received (lv_conn st')) \<and>
      (\<forall>shown' st''. live_run shown' (en_seq ?b) st'' \<and> set (el_rows (lv_log st')) \<subseteq> set (el_rows (lv_start st'')) \<longrightarrow>
        ?a \<notin> set (received (lv_conn st'')))"
    by (rule late_publication_is_lost [OF run idle]) (simp_all add: rows low shown)
  then obtain st' where st': "live_run demo_shown 0 st'" "lv_log st' = lv_log demo_waiting" "lv_published st' = [?b, ?a]"
      "received (lv_conn st') = [?b]" "\<forall>shown' st''. live_run shown' (en_seq ?b) st'' \<and>
        set (el_rows (lv_log st')) \<subseteq> set (el_rows (lv_start st'')) \<longrightarrow> ?a \<notin> set (received (lv_conn st''))"
    by (auto simp only: rows append_Nil)
  show ?thesis
    by (rule exI [of _ ?a], rule exI [of _ ?b], rule exI [of _ st']) (use st' rows(1) shown(1) in simp)
qed

subsection \<open>Revocation\<close>

text \<open>
  What can happen to the hub and to a socket. The write task goes from a frame to the latches, to the token row and to the
  socket, and anything may come between: devices and revocations, and the other tasks of the connection, which append to its
  frames, end the session or lose the socket.
\<close>

inductive socket_run :: "uuid option \<Rightarrow> uuid \<Rightarrow> hub \<times> connection \<Rightarrow> hub \<times> connection \<Rightarrow> bool" for device_id token_id hc where
  here: "socket_run device_id token_id hc hc"
| connects: "socket_run device_id token_id hc (h, c) \<Longrightarrow> socket_run device_id token_id hc (device_connected d h, c)"
| disconnects: "socket_run device_id token_id hc (h, c) \<Longrightarrow> socket_run device_id token_id hc (device_disconnected d h, c)"
| revokes_device: "socket_run device_id token_id hc (h, c) \<Longrightarrow> socket_run device_id token_id hc (notify_device_revoked d h, c)"
| revokes_token: "socket_run device_id token_id hc (h, c) \<Longrightarrow> socket_run device_id token_id hc (notify_token_revoked t h, c)"
| works: "socket_run device_id token_id hc (h, c) \<Longrightarrow> cn_sent c' = cn_sent c \<Longrightarrow> cn_writer c' = cn_writer c \<Longrightarrow>
    cn_out c' = cn_out c @ fs \<Longrightarrow> socket_run device_id token_id hc (h, c')"
| loses: "socket_run device_id token_id hc (h, c) \<Longrightarrow> socket_run device_id token_id hc (h, close_connection c)"
| takes: "socket_run device_id token_id hc (h, c) \<Longrightarrow> socket_run device_id token_id hc (h, writer_take c)"
| latches: "socket_run device_id token_id hc (h, c) \<Longrightarrow> socket_run device_id token_id hc (h, writer_latch h device_id token_id c)"
| reads_row: "socket_run device_id token_id hc (h, c) \<Longrightarrow> socket_run device_id token_id hc (writer_row row token_id (h, c))"
| sends: "socket_run device_id token_id hc (h, c) \<Longrightarrow> socket_run device_id token_id hc (h, writer_send c)"

text \<open>The events of the frame whose latches were already looked at.\<close>

definition past_latch :: "connection \<Rightarrow> bool" where
  "past_latch c \<longleftrightarrow> cn_writer c = LatchPassed \<or> cn_writer c = RowPassed"

definition past_events :: "connection \<Rightarrow> event_envelope list" where
  "past_events c = (if past_latch c then frame_events (hd (cn_out c)) else [])"

text \<open>From \<open>c\<close> on nothing was sent and what is past the latches was it in \<open>c\<close>, or that frame was sent and none is past them.\<close>

definition quiet_since :: "connection \<Rightarrow> connection \<Rightarrow> bool" where
  "quiet_since c c' \<longleftrightarrow>
     (received c' = received c \<and> (past_latch c' \<longrightarrow> past_latch c \<and> cn_out c' \<noteq> [] \<and> hd (cn_out c') = hd (cn_out c))) \<or>
     (received c' = received c @ past_events c \<and> \<not> past_latch c')"

lemma refuse_received: "received (writer_refuse r c) = received c" "\<not> past_latch (writer_refuse r c)"
  using refusal_no_events [of r]
  by (simp_all add: writer_refuse_def close_connection_def end_session_def received_def past_latch_def)

lemma row_received:
  assumes "writer_row row token_id (h, c) = (h', c')"
  shows "received c' = received c" "past_latch c' \<Longrightarrow> past_latch c \<and> cn_out c' = cn_out c"
  using assms refuse_received [of _ c]
  by (auto simp: writer_row_def received_def past_latch_def split: if_splits prod.splits option.splits)

lemma row_hub: "writer_row row token_id (h, c) = (h', c') \<Longrightarrow> latched_refusal h device_id token_id \<noteq> None \<Longrightarrow>
    latched_refusal h' device_id token_id \<noteq> None"
  by (auto simp: writer_row_def row_refusal_def latched_refusal_def notify_token_revoked_def split: if_splits sum.splits option.splits)

text \<open>The write task is busy only with a frame it has.\<close>

lemma writer_has_frame:
  assumes "socket_run device_id token_id (h0, new_connection) hc"
  shows "cn_writer (snd hc) = WriterIdle \<or> cn_out (snd hc) \<noteq> []"
  using assms
proof (induction rule: socket_run.induct)
  case here
  then show ?case by (simp add: new_connection_def)
next
  case (loses h c)
  then show ?case by (simp add: close_connection_def)
next
  case (latches h c)
  then show ?case by (auto simp: writer_latch_def writer_refuse_def close_connection_def split: option.split)
next
  case (reads_row h c row)
  then show ?case by (auto simp: writer_row_def writer_refuse_def close_connection_def split: prod.split option.split)
next
  case (sends h c)
  then show ?case by (auto simp: writer_send_def split: list.split)
qed (auto simp: writer_take_def)

lemma socket_run_quiet:
  assumes "socket_run device_id token_id (h, c) hc'" "latched_refusal h device_id token_id \<noteq> None"
    and "cn_writer c = WriterIdle \<or> cn_out c \<noteq> []"
  shows "latched_refusal (fst hc') device_id token_id \<noteq> None \<and> quiet_since c (snd hc')"
  using assms(1)
proof (induction rule: socket_run.induct)
  case here
  then show ?case using assms(2,3) by (auto simp: quiet_since_def past_latch_def)
next
  case (works h1 c1 c2 fs)
  then show ?case by (auto simp: quiet_since_def past_latch_def received_def)
next
  case (loses h1 c1)
  then show ?case by (auto simp: quiet_since_def past_latch_def received_def close_connection_def end_session_def)
next
  case (takes h1 c1)
  then show ?case by (auto simp: quiet_since_def past_latch_def received_def writer_take_def)
next
  case (latches h1 c1)
  then obtain r where "latched_refusal h1 device_id token_id = Some r" by auto
  then show ?case using latches.IH refuse_received [of r c1] by (auto simp: writer_latch_def quiet_since_def)
next
  case (reads_row h1 c1 row)
  obtain h2 c2 where row: "writer_row row token_id (h1, c1) = (h2, c2)" by fastforce
  show ?case using row_received [OF row] row_hub [OF row] reads_row.IH unfolding row by (auto simp: quiet_since_def)
next
  case (sends h1 c1)
  show ?case
  proof (cases "cn_writer c1 = RowPassed \<and> cn_out c1 \<noteq> []")
    case True
    then obtain m ms where out: "cn_out c1 = m # ms" by (auto simp: neq_Nil_conv)
    have "received (writer_send c1) = received c1 @ frame_events m" "\<not> past_latch (writer_send c1)"
      using True by (simp_all add: writer_send_def out received_def past_latch_def)
    then show ?thesis using sends.IH True out by (auto simp: quiet_since_def past_events_def past_latch_def)
  next
    case False
    then have "writer_send c1 = c1" by (auto simp: writer_send_def split: list.split)
    then show ?thesis using sends.IH by simp
  qed
qed (auto simp: latched_refusal_def device_connected_def device_disconnected_def notify_device_revoked_def notify_token_revoked_def
      split: option.splits if_splits)

text \<open>
  C16: a revocation stops a socket after at most one frame. Once \<^verbatim>\<open>notify_token_revoked\<close> or \<^verbatim>\<open>notify_device_revoked\<close>
  returned, whatever was queued and whatever the hub, the other tasks and the token row do then, the write task puts at most
  one further frame with events on a socket of that token or device: the one for which it had looked at the latches before.
\<close>

theorem revoked_socket_stops:
  assumes "socket_run device_id token_id (h0, new_connection) (h, c)"
    and "h' = notify_token_revoked token_id h \<or> (device_id = Some d \<and> h' = notify_device_revoked d h)"
    and "socket_run device_id token_id (h', c) (h'', c'')"
  shows "received c'' = received c \<or>
    (cn_writer c \<in> {LatchPassed, RowPassed} \<and> received c'' = received c @ frame_events (hd (cn_out c)))"
proof -
  have "latched_refusal h' device_id token_id \<noteq> None"
    using assms(2) by (auto simp: latched_refusal_def notify_token_revoked_def notify_device_revoked_def)
  then have "quiet_since c c''" using socket_run_quiet [OF assms(3)] writer_has_frame [OF assms(1)] by simp
  then show ?thesis by (auto simp: quiet_since_def past_events_def past_latch_def split: if_splits)
qed

text \<open>Two frames in the queue, the first of them past its checks: it still goes out, the second does not.\<close>

definition demo_busy :: connection where
  "demo_busy = new_connection\<lparr>cn_out := [EventFrame (demo_task_event 90), EventFrame (demo_task_event 91)], cn_writer := RowPassed\<rparr>"

definition demo_stopped :: connection where
  "demo_stopped = writer_latch (notify_token_revoked 4 idle_hub) None 4 (writer_take (writer_send demo_busy))"

theorem revoked_socket_stops_witness:
  "received demo_stopped = [demo_task_event 90] \<and> \<not> cn_open demo_stopped \<and>
   received demo_stopped = received demo_busy @ frame_events (hd (cn_out demo_busy))"
proof -
  let ?two = "new_connection\<lparr>cn_out := [EventFrame (demo_task_event 90), EventFrame (demo_task_event 91)]\<rparr>"
  let ?t = "(demo_token 1 [])\<lparr>at_revoked_at := None\<rparr>" and ?h = "notify_token_revoked 4 idle_hub"
  have "socket_run None 4 (idle_hub, new_connection) (idle_hub, ?two)"
    by (rule socket_run.works [OF socket_run.here, where fs = "[EventFrame (demo_task_event 90), EventFrame (demo_task_event 91)]"])
      (simp_all add: new_connection_def)
  from socket_run.reads_row [OF socket_run.latches [OF socket_run.takes [OF this]], of "Inr (Some ?t)"]
  have before: "socket_run None 4 (idle_hub, new_connection) (idle_hub, demo_busy)"
    by (simp add: demo_busy_def writer_take_def writer_latch_def latched_refusal_def idle_hub_def writer_row_def row_refusal_def new_connection_def)
  have after: "socket_run None 4 (?h, demo_busy) (?h, demo_stopped)"
    unfolding demo_stopped_def by (intro socket_run.latches socket_run.takes socket_run.sends socket_run.here)
  have demo: "\<not> cn_open demo_stopped" "received demo_stopped \<noteq> received demo_busy" "received demo_busy = []"
    "frame_events (hd (cn_out demo_busy)) = [demo_task_event 90]" by code_simp+
  then show ?thesis using revoked_socket_stops [OF before _ after, of 0] by auto
qed

end
