(* ===== verification/Replica_Push.thy ===== *)
theory Replica_Push
  imports Dispatch_Effects Replica_Mirror
begin

text \<open>
  The endpoint a device pushes its events to: \<^verbatim>\<open>append_replica_events\<close>, \<^verbatim>\<open>guarded_replica_event\<close> and
  \<^verbatim>\<open>apply_persisted_event\<close> in \<^verbatim>\<open>apps/server/src/routes/mod.rs\<close>, over the system of the command handler. Events are
  appended one by one and projected outside the transaction of the append; the broadcast is left out.
\<close>

subsection \<open>The endpoint\<close>

definition guarded_replica_event :: "event \<Rightarrow> bool" where
  "guarded_replica_event e =
     (case e of
        RunEv _ \<Rightarrow> True
      | SessionEv (AgentClaimed _ _ _ _) \<Rightarrow> True
      | SessionEv (AgentReleased _ _ _) \<Rightarrow> True
      | PlanEv (PlanArchived _ _) \<Rightarrow> True
      | PlanEv (PlanDeleted _ _) \<Rightarrow> True
      | PlanEv (PlanStatusChanged _ _ st) \<Rightarrow> st = Completed \<or> st = Abandoned
      | _ \<Rightarrow> False)"

text \<open>
  The projections of the endpoint. Leases, settings, work units, handoffs, capability profiles, rules, evidence and
  artifacts are not among them.
\<close>

definition apply_persisted_event :: "dispatch_ctx \<Rightarrow> event_envelope \<Rightarrow> system \<Rightarrow> unit result \<times> system" where
  "apply_persisted_event d env s =
     (let w = sy_world s; now = hx_now (dx_handler d) in
      case task_apply_event (hx_fresh (dx_handler d)) env (w_tasks w) of
        Inl e \<Rightarrow> (Inl e, s)
      | Inr ts \<Rightarrow>
          let (ps, ts') = plan_apply_event now env (w_plans w, ts);
              rs = run_apply_event env (w_runs w);
              (outcome, rg) = registry_notes (\<lambda>r. run_get rs r \<noteq> None) env (w_registry w);
              w1 = (feed_world d env w)\<lparr>w_tasks := ts', w_plans := ps, w_runs := rs, w_registry := rg\<rparr>
          in (case outcome of
                Inl e \<Rightarrow> (Inl e, s\<lparr>sy_world := w1\<rparr>)
              | Inr _ \<Rightarrow>
                  (Inr (), s\<lparr>sy_world := w1\<lparr>w_registry := rg\<lparr>rg_sessions := session_apply_event (en_payload env) (rg_sessions rg)\<rparr>,
                       w_documents := document_apply_event (en_payload env) (w_documents w),
                       w_external_refs := external_apply_event env (w_external_refs w)\<rparr>,
                     sy_claims := claim_apply_event now (en_payload env) (sy_claims s)\<rparr>)))"

text \<open>The first failure answers the request; what was appended before it, and the event that failed, stay in the log.\<close>

fun push_events ::
  "dispatch_ctx \<Rightarrow> event_envelope list \<Rightarrow> event_envelope list \<Rightarrow> nat \<Rightarrow> system \<Rightarrow> (event_envelope list \<times> nat) result \<times> system" where
  "push_events d [] accepted duplicates s = (Inr (accepted, duplicates), s)"
| "push_events d (env # envs) accepted duplicates s =
     (case load_by_id (sy_log s) (en_id env) of
        Some existing \<Rightarrow> push_events d envs (accepted @ [existing]) (Suc duplicates) s
      | None \<Rightarrow>
          (case append_on (env\<lparr>en_seq := 0\<rparr>) (sy_log s) of
             Inl e \<Rightarrow> (Inl e, s)
           | Inr (persisted, l) \<Rightarrow>
               (case apply_persisted_event d persisted (s\<lparr>sy_log := l\<rparr>) of
                  (Inl e, s') \<Rightarrow> (Inl e, s')
                | (Inr _, s') \<Rightarrow> push_events d envs (accepted @ [persisted]) duplicates s')))"

definition append_replica_events ::
  "dispatch_ctx \<Rightarrow> bool \<Rightarrow> event_envelope list \<Rightarrow> system \<Rightarrow> (event_envelope list \<times> nat) result \<times> system" where
  "append_replica_events d may_write envs s =
     (if \<not> may_write then (Inl (Forbidden ''missing capability: ''), s)
      else if envs = [] then (Inl (Validation ''events must not be empty''), s)
      else if 1000 < length envs then (Inl (Validation ''events batch must contain at most 1000 events''), s)
      else if list_ex (guarded_replica_event \<circ> en_payload) envs
      then (Inl (Forbidden ''run, claim, and plan-terminal events require a guarded canonical endpoint''), s)
      else push_events d envs [] 0 s)"

subsection \<open>A push that succeeded can be repeated\<close>

lemma apply_persisted_log: "apply_persisted_event d env s = (r, s') \<Longrightarrow> sy_log s' = sy_log s"
  by (auto simp: apply_persisted_event_def Let_def split: sum.splits prod.splits)

lemma find_append: "find P (xs @ ys) = (case find P xs of None \<Rightarrow> find P ys | Some x \<Rightarrow> Some x)"
  by (induction xs) auto

lemma load_after_append:
  assumes "append_on env l = Inr (persisted, l')"
  shows "load_by_id l i = Some e \<Longrightarrow> load_by_id l' i = Some e"
    and "load_by_id l (en_id env) = None \<Longrightarrow> load_by_id l' (en_id env) = Some persisted" "en_id persisted = en_id env"
proof -
  have l': "el_rows l' = el_rows l @ [persisted]" "en_id persisted = en_id env"
    using assms by (auto simp: append_on_def log_insert_def split: if_splits)
  show "load_by_id l i = Some e \<Longrightarrow> load_by_id l' i = Some e"
    by (simp add: load_by_id_def l'(1) find_append)
  show "load_by_id l (en_id env) = None \<Longrightarrow> load_by_id l' (en_id env) = Some persisted"
    by (simp add: load_by_id_def l' find_append)
  show "en_id persisted = en_id env" by (rule l'(2))
qed

text \<open>What is accepted is what the log then holds under each id, in the order of the request; the log only grew.\<close>

lemma push_events_spec:
  "push_events d envs acc n s = (Inr (accepted, k), s') \<Longrightarrow>
   (\<exists>new. accepted = acc @ new \<and> map (load_by_id (sy_log s')) (map en_id envs) = map Some new) \<and>
   (\<forall>i e. load_by_id (sy_log s) i = Some e \<longrightarrow> load_by_id (sy_log s') i = Some e)"
proof (induction envs arbitrary: acc n s)
  case (Cons env envs)
  show ?case
  proof (cases "load_by_id (sy_log s) (en_id env)")
    case (Some existing)
    then show ?thesis using Cons.prems Cons.IH [of "acc @ [existing]" "Suc n" s] by auto
  next
    case None
    obtain persisted l s1 where step: "append_on (env\<lparr>en_seq := 0\<rparr>) (sy_log s) = Inr (persisted, l)"
      "apply_persisted_event d persisted (s\<lparr>sy_log := l\<rparr>) = (Inr (), s1)"
      "push_events d envs (acc @ [persisted]) n s1 = (Inr (accepted, k), s')"
      using Cons.prems None by (auto split: sum.splits prod.splits)
    have log: "sy_log s1 = l" using apply_persisted_log [OF step(2)] by simp
    have "load_by_id l (en_id env) = Some persisted" using load_after_append(2) [OF step(1)] None by simp
    moreover have "load_by_id (sy_log s) i = Some e \<Longrightarrow> load_by_id l i = Some e" for i e
      by (rule load_after_append(1) [OF step(1)])
    ultimately show ?thesis using Cons.IH [OF step(3)] unfolding log by fastforce
  qed
qed simp

lemma push_known:
  "map (load_by_id (sy_log s)) (map en_id envs) = map Some es \<Longrightarrow>
   push_events d envs acc n s = (Inr (acc @ es, n + length envs), s)"
proof (induction envs arbitrary: acc n es)
  case (Cons env envs)
  then obtain e es' where "es = e # es'" "load_by_id (sy_log s) (en_id env) = Some e"
    "map (load_by_id (sy_log s)) (map en_id envs) = map Some es'" by (auto simp: Cons_eq_map_conv)
  then show ?case using Cons.IH [of es' "acc @ [e]" "Suc n"] by simp
qed simp

text \<open>
  C17: a push can be repeated. After a push succeeded, the same push by any writer answers with the same stored events, counts all of them as duplicates and changes nothing: a device that lost the answer can send it again.
\<close>

theorem push_is_idempotent:
  assumes "append_replica_events d True envs s = (Inr (accepted, duplicates), s')"
  shows "append_replica_events d' True envs s' = (Inr (accepted, length envs), s') \<and>
    map (load_by_id (sy_log s') \<circ> en_id) envs = map Some accepted"
proof -
  have checks: "envs \<noteq> []" "\<not> 1000 < length envs" "\<not> list_ex (guarded_replica_event \<circ> en_payload) envs"
    and push: "push_events d envs [] 0 s = (Inr (accepted, duplicates), s')"
    using assms by (auto simp: append_replica_events_def split: if_splits)
  have "map (load_by_id (sy_log s')) (map en_id envs) = map Some accepted" using push_events_spec [OF push] by auto
  then show ?thesis using checks push_known [of s' envs accepted d' "[]" 0] by (simp add: append_replica_events_def)
qed

text \<open>Claims come and go through guarded endpoints only: a pushed event changes none, not even those on a task it closes.\<close>

lemma apply_persisted_claims:
  assumes "apply_persisted_event d env s = (r, s')" "\<not> guarded_replica_event (en_payload env)"
  shows "sy_claims s' = sy_claims s"
proof -
  have "claim_apply_event now (en_payload env) cs = cs" for now cs
    using assms(2) by (auto simp: claim_apply_event_def guarded_replica_event_def split: event.splits session_event.splits option.splits)
  then show ?thesis using assms(1) by (auto simp: apply_persisted_event_def Let_def split: sum.splits prod.splits)
qed

lemma push_keeps_claims: "append_replica_events d may_write envs s = (r, s') \<Longrightarrow> sy_claims s' = sy_claims s"
proof -
  have loop: "push_events d envs acc n s = (r, s') \<Longrightarrow> \<not> list_ex (guarded_replica_event \<circ> en_payload) envs \<Longrightarrow> sy_claims s' = sy_claims s"
    for acc n s
  proof (induction envs arbitrary: acc n s)
    case (Cons env envs)
    show ?case
    proof (cases "load_by_id (sy_log s) (en_id env)")
      case (Some existing)
      then show ?thesis using Cons by simp
    next
      case None
      show ?thesis
      proof (cases "append_on (env\<lparr>en_seq := 0\<rparr>) (sy_log s)")
        case (Inl e)
        then show ?thesis using Cons.prems None by simp
      next
        case (Inr pl)
        then obtain persisted l where pl: "append_on (env\<lparr>en_seq := 0\<rparr>) (sy_log s) = Inr (persisted, l)" by (cases pl) simp
        then have "en_payload persisted = en_payload env" by (auto simp: append_on_def split: if_splits)
        moreover obtain o1 s1 where one: "apply_persisted_event d persisted (s\<lparr>sy_log := l\<rparr>) = (o1, s1)" by fastforce
        ultimately have "sy_claims s1 = sy_claims s" using apply_persisted_claims [OF one] Cons.prems(2) by simp
        then show ?thesis using Cons.prems None pl one Cons.IH [of _ _ s1] by (auto split: sum.splits)
      qed
    qed
  qed simp
  assume "append_replica_events d may_write envs s = (r, s')"
  then show ?thesis using loop [of "[]" 0 s] by (auto simp: append_replica_events_def split: if_splits)
qed

subsection \<open>A push whose projection failed\<close>

text \<open>
  C18: an event whose projection fails is lost for the projections of the server. The first push of it answers with the error but
  leaves it in the log; the retry finds it there, answers with success, and projects nothing. The device then takes it
  for delivered.
\<close>

theorem failed_push_is_lost:
  assumes "load_by_id (sy_log s) (en_id env) = None" "append_on (env\<lparr>en_seq := 0\<rparr>) (sy_log s) = Inr (persisted, l)"
    "\<not> guarded_replica_event (en_payload env)"
    "task_apply_event (hx_fresh (dx_handler d)) persisted (w_tasks (sy_world s)) = Inl e"
  shows "append_replica_events d True [env] s = (Inl e, s\<lparr>sy_log := l\<rparr>) \<and>
    append_replica_events d' True [env] (s\<lparr>sy_log := l\<rparr>) = (Inr ([persisted], 1), s\<lparr>sy_log := l\<rparr>)"
proof -
  have "apply_persisted_event d persisted (s\<lparr>sy_log := l\<rparr>) = (Inl e, s\<lparr>sy_log := l\<rparr>)"
    using assms(4) by (simp add: apply_persisted_event_def Let_def)
  moreover have "load_by_id l (en_id env) = Some persisted" using load_after_append(2) [OF assms(2)] assms(1) by simp
  ultimately show ?thesis using assms(1-3) by (simp add: append_replica_events_def)
qed

text \<open>
  C19: a server event that does not fit the rows of a device ends every sync of it. The failure rolls the event back, the cursor stays
  before it, and the next sync starts from the same state: no later event of the server ever arrives.
\<close>

theorem unfoldable_event_stops_sync:
  assumes "baseline_verified rp" "rp_unprojected rp = []" "rp_server_seq rp \<noteq> 0"
    "sc_events src (rp_server_seq rp) limit = Inr (env # envs)"
    "append_on (env\<lparr>en_seq := 0\<rparr>) (rp_log rp) = Inr (persisted, l)" "load_by_id (rp_log rp) (en_id env) = None"
    "task_apply_event (de_fresh de) persisted (pf_tasks (rp_rows rp)) = Inl e"
  shows "catch_up fuel de src limit rp = Some (Inl e, rp)"
proof -
  have "apply_remote_event de env rp = Inl e"
    using assms(5-7) by (simp add: apply_remote_event_def log_and_project_def fold_apply_def)
  then have "apply_remote_events de (env # envs) rp = (Inl e, rp)" by (simp add: apply_remote_events_def)
  then show ?thesis using assms(1-4) by (simp add: catch_up_def note_unprojected_def repair_def bootstrap_def)
qed

subsection \<open>An example\<close>

text \<open>
  Two devices create a task with the same external key while they are offline. The second push hits the unique index.
\<close>

definition demo_keyed :: "uuid \<Rightarrow> uuid \<Rightarrow> event_envelope" where
  "demo_keyed i t = envelope_new i 5 actor_user
     (TaskEv (TaskCreated ((new_task ''t'')\<lparr>nt_id := Some t, nt_external_key := Some ''k''\<rparr>)))"

definition demo_pushed :: system where
  "demo_pushed = snd (append_replica_events (demo_dispatch None) True [demo_keyed 90 30] (demo_single\<lparr>sy_log := empty_log\<rparr>))"

definition demo_first_answer :: "event_envelope list \<times> nat" where
  "demo_first_answer =
     (case fst (append_replica_events (demo_dispatch None) True [demo_keyed 90 30] (demo_single\<lparr>sy_log := empty_log\<rparr>)) of
        Inr a \<Rightarrow> a | Inl _ \<Rightarrow> ([], 0))"

theorem push_is_idempotent_witness:
  "append_replica_events (demo_dispatch None) True [demo_keyed 90 30] demo_pushed = (Inr (fst demo_first_answer, 1), demo_pushed) \<and>
   map en_seq (fst demo_first_answer) = [1]"
proof -
  have ok: "\<not> isl (fst (append_replica_events (demo_dispatch None) True [demo_keyed 90 30] (demo_single\<lparr>sy_log := empty_log\<rparr>)))"
    and demo: "map en_seq (fst demo_first_answer) = [1]" by code_simp+
  from ok have "append_replica_events (demo_dispatch None) True [demo_keyed 90 30] (demo_single\<lparr>sy_log := empty_log\<rparr>) =
      (Inr (fst demo_first_answer, snd demo_first_answer), demo_pushed)"
    unfolding demo_first_answer_def demo_pushed_def by (auto simp: prod_eq_iff isl_def split: sum.splits)
  from push_is_idempotent [OF this, of "demo_dispatch None"] demo show ?thesis by simp
qed

definition demo_clash :: event_envelope where
  "demo_clash = (demo_keyed 91 31)\<lparr>en_seq := 2\<rparr>"

lemma demo_clash_fails:
  "load_by_id (sy_log demo_pushed) 91 = None" "append_on ((demo_keyed 91 31)\<lparr>en_seq := 0\<rparr>) (sy_log demo_pushed) = Inr (demo_clash, log_insert (demo_keyed 91 31) (sy_log demo_pushed))"
  "task_apply_event (hx_fresh (dx_handler (demo_dispatch None))) demo_clash (w_tasks (sy_world demo_pushed)) = Inl (Storage ''UNIQUE constraint failed'')"
  by code_simp+

theorem failed_push_is_lost_witness:
  "fst (append_replica_events (demo_dispatch None) True [demo_keyed 91 31] demo_pushed) = Inl (Storage ''UNIQUE constraint failed'') \<and>
   fst (append_replica_events (demo_dispatch None) True [demo_keyed 91 31]
     (snd (append_replica_events (demo_dispatch None) True [demo_keyed 91 31] demo_pushed))) = Inr ([demo_clash], 1)"
proof -
  have "en_id (demo_keyed 91 31) = 91" "\<not> guarded_replica_event (en_payload (demo_keyed 91 31))"
    by (simp_all add: demo_keyed_def envelope_new_def guarded_replica_event_def)
  then show ?thesis
    using failed_push_is_lost [of demo_pushed "demo_keyed 91 31", OF _ demo_clash_fails(2) _ demo_clash_fails(3), of "demo_dispatch None"]
      demo_clash_fails(1) by simp
qed

text \<open>A device that has the first of the two tasks, and a server whose log continues with the second.\<close>

definition demo_behind :: replica where
  "demo_behind = (case log_and_project demo_device (demo_keyed 90 30) (new_replica) of Inr rp \<Rightarrow> rp | Inl _ \<Rightarrow> new_replica)
     \<lparr>rp_server_seq := 1, rp_baseline_verified := True, rp_projections_verified := True, rp_order_verified := True\<rparr>"

definition demo_stuck_server :: replica_source where
  "demo_stuck_server = \<lparr>sc_events = (\<lambda>since limit. Inr (load_since (log_insert (demo_keyed 91 31) (rp_log demo_behind)) since limit)), sc_snapshot = Inr None\<rparr>"

theorem unfoldable_event_stops_sync_witness:
  "catch_up 0 demo_device demo_stuck_server 10 demo_behind = Some (Inl (Storage ''UNIQUE constraint failed''), demo_behind)"
proof (rule unfoldable_event_stops_sync)
  show "baseline_verified demo_behind" "rp_unprojected demo_behind = []" "rp_server_seq demo_behind \<noteq> 0" by code_simp+
  show "sc_events demo_stuck_server (rp_server_seq demo_behind) 10 = Inr (demo_clash # [])" by code_simp
  show "append_on (demo_clash\<lparr>en_seq := 0\<rparr>) (rp_log demo_behind) = Inr (demo_clash, log_insert (demo_keyed 91 31) (rp_log demo_behind))" by code_simp
  show "load_by_id (rp_log demo_behind) (en_id demo_clash) = None" by code_simp
  show "task_apply_event (de_fresh demo_device) demo_clash (pf_tasks (rp_rows demo_behind)) = Inl (Storage ''UNIQUE constraint failed'')" by code_simp
qed

end
