(* ===== verification/Pairing.thy ===== *)
theory Pairing
  imports Auth "HOL-Library.AList"
begin

unbundle bit_operations_syntax

text \<open>
  Pairing a device: the ticket store \<^verbatim>\<open>crates/discovery/src/pairing.rs\<close>, the endpoints \<^verbatim>\<open>apps/server/src/routes/pairing.rs\<close> and
  the URL as \<^verbatim>\<open>apps/desktop/src/onboarding.rs\<close> reads it. Random bytes, the nonce and the HMAC are arguments; nothing is assumed
  of them. The TLS connection, the QR image and the files of the device are left out.
\<close>

subsection \<open>Bytes as text\<close>

definition byte :: "char \<Rightarrow> nat" where
  "byte c = of_char c"

definition url_safe :: "char \<Rightarrow> bool" where
  "url_safe c \<longleftrightarrow> is_ascii_alpha c \<or> is_ascii_digit c \<or> c \<in> set ''-_.~:/@+=''"

definition hex_digit :: "nat \<Rightarrow> char" where
  "hex_digit n = ''0123456789ABCDEF'' ! n"

definition urlencode_byte :: "char \<Rightarrow> string" where
  "urlencode_byte c = (if url_safe c then [c] else [CHR ''%'', hex_digit (byte c div 16), hex_digit (byte c mod 16)])"

definition urlencoding_encode :: "string \<Rightarrow> string" where
  "urlencoding_encode s = concat (map urlencode_byte s)"

text \<open>\<^verbatim>\<open>u8::from_str_radix(_, 16)\<close> on two bytes; it takes a plus sign.\<close>

definition hex_value :: "char \<Rightarrow> nat option" where
  "hex_value c =
     (if is_ascii_digit c then Some (byte c - 48)
      else if 65 \<le> byte c \<and> byte c \<le> 70 then Some (byte c - 55)
      else if 97 \<le> byte c \<and> byte c \<le> 102 then Some (byte c - 87) else None)"

definition hex_byte :: "char \<Rightarrow> char \<Rightarrow> nat option" where
  "hex_byte a b =
     (case hex_value b of
        None \<Rightarrow> None
      | Some n \<Rightarrow> if a = CHR ''+'' then Some n else map_option (\<lambda>m. 16 * m + n) (hex_value a))"

text \<open>\<^verbatim>\<open>byte as char\<close>: a byte above 127 becomes the character with that number, two bytes of UTF-8.\<close>

definition push_byte :: "nat \<Rightarrow> string" where
  "push_byte n = (if n < 128 then [char_of n] else [char_of (192 + n div 64), char_of (128 + n mod 64)])"

fun url_percent_decode :: "string \<Rightarrow> string" where
  "url_percent_decode [] = []"
| "url_percent_decode (c # s) =
     (case (c = CHR ''%'', s) of
        (True, a # b # rest) \<Rightarrow>
          (case hex_byte a b of
             Some n \<Rightarrow> push_byte n @ url_percent_decode rest
           | None \<Rightarrow> c # url_percent_decode s)
      | _ \<Rightarrow> (if c = CHR ''+'' then [CHR '' ''] else push_byte (byte c)) @ url_percent_decode s)"

subsection \<open>Tickets\<close>

definition PAIRING_TTL_SECS :: int where
  "PAIRING_TTL_SECS = 300"

record pairing_ticket =
  pk_token :: string
  pk_expires_at :: timestamp
  pk_host :: string
  pk_fingerprint :: string

definition pairing_url :: "pairing_ticket \<Rightarrow> string" where
  "pairing_url t = ''daruma://pair?host='' @ urlencoding_encode (pk_host t) @ ''&token='' @ urlencoding_encode (pk_token t) @
     ''&fpr='' @ urlencoding_encode (pk_fingerprint t)"

definition ticket_expired :: "timestamp \<Rightarrow> pairing_ticket \<Rightarrow> bool" where
  "ticket_expired now t \<longleftrightarrow> pk_expires_at t \<le> now"

record pairing_entry =
  pe_ticket :: pairing_ticket
  pe_used :: bool

type_synonym pairing_store = "(string \<times> pairing_entry) list"

definition pairing_sweep :: "timestamp \<Rightarrow> pairing_store \<Rightarrow> pairing_store" where
  "pairing_sweep now st = filter (\<lambda>(k, e). \<not> ticket_expired now (pe_ticket e)) st"

definition pairing_issue :: "string \<Rightarrow> timestamp \<Rightarrow> string \<Rightarrow> string \<Rightarrow> pairing_store \<Rightarrow> pairing_ticket \<times> pairing_store" where
  "pairing_issue token now host fpr st =
     (let t = \<lparr>pk_token = token, pk_expires_at = now + PAIRING_TTL_SECS, pk_host = host, pk_fingerprint = fpr\<rparr>
      in (t, AList.update token \<lparr>pe_ticket = t, pe_used = False\<rparr> (pairing_sweep now st)))"

text \<open>Equal lengths, and no differing bit.\<close>

definition constant_eq :: "string \<Rightarrow> string \<Rightarrow> bool" where
  "constant_eq a b \<longleftrightarrow> length a = length b \<and>
     fold (\<lambda>(x, y) acc. acc OR (x XOR y)) (zip (map byte a) (map byte b)) 0 = (0 :: nat)"

definition pairing_consume ::
  "(string \<Rightarrow> string) \<Rightarrow> timestamp \<Rightarrow> string \<Rightarrow> pairing_store \<Rightarrow> pairing_ticket option \<times> pairing_store" where
  "pairing_consume tag now candidate st =
     (let live = pairing_sweep now st in
      case find (\<lambda>(k, e). \<not> pe_used e \<and> constant_eq (tag candidate) (tag k)) live of
        Some (k, e) \<Rightarrow> (Some (pe_ticket e), AList.update k (e\<lparr>pe_used := True\<rparr>) live)
      | None \<Rightarrow> (None, live))"

definition active_count :: "timestamp \<Rightarrow> pairing_store \<Rightarrow> nat" where
  "active_count now st = length (filter (\<lambda>(k, e). \<not> pe_used e \<and> \<not> ticket_expired now (pe_ticket e)) st)"

subsection \<open>The endpoints\<close>

definition normalize_fingerprint :: "string \<Rightarrow> string" where
  "normalize_fingerprint raw =
     (let r = trim raw in
      map char_lower (if 7 \<le> length r \<and> eq_ignore_ascii_case (take 7 r) ''sha256:'' then drop 7 r else r))"

record pair_request =
  pq_token :: string
  pq_fingerprint :: string
  pq_label :: "string option"

record pair_response =
  pp_access_token :: string
  pp_token_prefix :: string
  pp_device_id :: uuid
  pp_server_url :: string

text \<open>What the handler draws: the HMAC key of the comparison, the ids, the secret and its hash.\<close>

record pairing_env =
  pv_tag :: "string \<Rightarrow> string"
  pv_hash :: "string \<Rightarrow> string result"
  pv_secret :: string
  pv_token_id :: uuid
  pv_agent_id :: uuid
  pv_device_id :: uuid

definition paired_spec :: "uuid \<Rightarrow> timestamp \<Rightarrow> new_token_spec" where
  "paired_spec agent now = \<lparr>ns_kind = Pat, ns_agent_id = agent, ns_scope = scope_default_user, ns_rate_limit_per_min = 120,
     ns_expired_at = Some (now + 90 * 86400)\<rparr>"

definition pair_device ::
  "pairing_env \<Rightarrow> timestamp \<Rightarrow> pair_request \<Rightarrow> pairing_store \<times> auth_store \<Rightarrow> pair_response result \<times> (pairing_store \<times> auth_store)" where
  "pair_device pv now req s =
     (let candidate = trim (pq_token req); claimed = trim (pq_fingerprint req) in
      if candidate = [] then (Inl (Validation ''token must not be empty''), s)
      else if claimed = [] then (Inl (Validation ''tls_fingerprint must not be empty''), s)
      else case pairing_consume (pv_tag pv) now candidate (fst s) of
             (None, st) \<Rightarrow> (Inl (Unauthorized ''invalid, expired, or already-used pairing token''), (st, snd s))
           | (Some t, st) \<Rightarrow>
               if \<not> constant_eq (normalize_fingerprint (pk_fingerprint t)) (normalize_fingerprint claimed)
               then (Inl (Forbidden ''TLS fingerprint mismatch''), (st, snd s))
               else case generate (pv_hash pv) (pv_secret pv) (pv_token_id pv) now (paired_spec (pv_agent_id pv) now) of
                      Inl e \<Rightarrow> (Inl e, (st, snd s))
                    | Inr (tok, plaintext) \<Rightarrow>
                        (case device_insert now (pv_device_id pv) (take_chars 80 (unwrap_or ''paired-device'' (pq_label req))) (snd s) of
                           Inl e \<Rightarrow> (Inl e, (st, snd s))
                         | Inr (d, s1) \<Rightarrow>
                             (case token_insert (tok\<lparr>at_device_id := Some (dv_id d)\<rparr>) s1 of
                                Inl e \<Rightarrow> (Inl e, (st, s1))
                              | Inr s2 \<Rightarrow>
                                  (Inr \<lparr>pp_access_token = plaintext, pp_token_prefix = at_prefix tok, pp_device_id = dv_id d,
                                        pp_server_url = ''https://'' @ pk_host t\<rparr>, (st, s2)))))"

definition issue_pairing_ticket ::
  "auth_context \<Rightarrow> string \<Rightarrow> timestamp \<Rightarrow> string \<Rightarrow> string \<Rightarrow> pairing_store \<Rightarrow> pairing_ticket result \<times> pairing_store" where
  "issue_pairing_ticket ctx token now tls_host tls_fingerprint st =
     (case ctx_require ctx TokenWrite of
        Inl _ \<Rightarrow> (Inl (Forbidden ''missing capability: ''), st)
      | Inr _ \<Rightarrow>
          (case pairing_issue token now tls_host (''sha256:'' @ normalize_fingerprint tls_fingerprint) st of
             (t, st') \<Rightarrow> (Inr t, st')))"

subsection \<open>The URL on the device\<close>

record pairing_url_params =
  pu_host :: string
  pu_token :: string
  pu_fpr :: string

definition url_step :: "string \<Rightarrow> string option \<times> string option \<times> string option \<Rightarrow> string option \<times> string option \<times> string option" where
  "url_step kv r =
     (case (split_once ''='' kv, r) of
        (Some (k, v), (host, token, fpr)) \<Rightarrow>
          if k = ''host'' then (Some (url_percent_decode v), token, fpr)
          else if k = ''token'' then (host, Some (url_percent_decode v), fpr)
          else if k = ''fpr'' then (host, token, Some (url_percent_decode v)) else r
      | (None, _) \<Rightarrow> r)"

definition parse_pairing_url :: "string \<Rightarrow> string + pairing_url_params" where
  "parse_pairing_url url =
     (case or_opt (strip_prefix ''daruma://pair?'' url) (strip_prefix ''daruma://pair/?'' url) of
        None \<Rightarrow> Inl ''URL must start with daruma://pair?''
      | Some rest \<Rightarrow>
          (case fold url_step (split_on (CHR ''&'') rest) (None, None, None) of
             (None, _) \<Rightarrow> Inl ''missing host''
           | (Some h, None, _) \<Rightarrow> Inl ''missing token''
           | (Some h, Some t, None) \<Rightarrow> Inl ''missing fpr''
           | (Some h, Some t, Some f) \<Rightarrow> Inr \<lparr>pu_host = h, pu_token = t, pu_fpr = f\<rparr>))"

subsection \<open>The URL reads back\<close>

lemma hex_digit_facts:
  assumes "n < 16"
  shows "hex_value (hex_digit n) = Some n" "hex_digit n \<noteq> CHR ''+''" "hex_digit n \<noteq> CHR ''&''"
proof -
  have "list_all (\<lambda>n. hex_value (hex_digit n) = Some n \<and> hex_digit n \<noteq> CHR ''+'' \<and> hex_digit n \<noteq> CHR ''&'') [0 ..< 16]" by code_simp
  then have "hex_value (hex_digit n) = Some n \<and> hex_digit n \<noteq> CHR ''+'' \<and> hex_digit n \<noteq> CHR ''&''"
    using assms unfolding list_all_iff set_upt by (metis atLeastLessThan_iff zero_le)
  then show "hex_value (hex_digit n) = Some n" "hex_digit n \<noteq> CHR ''+''" "hex_digit n \<noteq> CHR ''&''" by auto
qed

lemma hex_round:
  assumes "n < 256"
  shows "hex_byte (hex_digit (n div 16)) (hex_digit (n mod 16)) = Some n"
proof -
  have "n div 16 < 16" "n mod 16 < 16" using assms by (simp_all add: div_less_iff_less_mult)
  then show ?thesis using hex_digit_facts by (simp add: hex_byte_def)
qed

lemma byte_less: "byte c < 256"
  by (simp add: byte_def)

lemma push_ascii: "byte c < 128 \<Longrightarrow> push_byte (byte c) = [c]"
  by (simp add: push_byte_def byte_def)

lemma not_safe: "\<not> url_safe (CHR ''%'')" "\<not> url_safe (CHR ''&'')"
  by code_simp+

lemma decode_byte:
  assumes "byte c < 128" "c \<noteq> CHR ''+''"
  shows "url_percent_decode (urlencode_byte c @ s) = c # url_percent_decode s"
proof (cases "url_safe c")
  case True
  then have "c \<noteq> CHR ''%''" using not_safe by auto
  then show ?thesis using True assms push_ascii by (simp add: urlencode_byte_def)
next
  case False
  then show ?thesis using hex_round [OF byte_less, of c] push_ascii [OF assms(1)] by (simp add: urlencode_byte_def)
qed

definition plain_text :: "string \<Rightarrow> bool" where
  "plain_text s \<longleftrightarrow> list_all (\<lambda>c. byte c < 128 \<and> c \<noteq> CHR ''+'') s"

lemma decode_encode: "plain_text s \<Longrightarrow> url_percent_decode (urlencoding_encode s) = s"
proof (induction s)
  case (Cons c s)
  then show ?case using decode_byte [of c "urlencoding_encode s"] by (simp add: plain_text_def urlencoding_encode_def)
qed (simp add: urlencoding_encode_def)

lemma encode_no_amp: "CHR ''&'' \<notin> set (urlencoding_encode s)"
proof -
  have "byte c div 16 < 16" for c using byte_less [of c] by (simp add: div_less_iff_less_mult)
  then have "CHR ''&'' \<notin> set (urlencode_byte c)" for c
    using not_safe(2) hex_digit_facts(3) [of "byte c div 16"] hex_digit_facts(3) [of "byte c mod 16"] byte_less [of c]
    by (auto simp: urlencode_byte_def)
  then show ?thesis by (simp add: urlencoding_encode_def)
qed

text \<open>
  C21: a pairing URL reads back. What the server puts into the URL of a ticket is what the device takes out of it: the host, the token
  and the fingerprint, for texts of ASCII characters without a plus sign, as tokens and fingerprints are.
\<close>

theorem pairing_url_roundtrip:
  assumes "plain_text (pk_host t)" "plain_text (pk_token t)" "plain_text (pk_fingerprint t)"
  shows "parse_pairing_url (pairing_url t) = Inr \<lparr>pu_host = pk_host t, pu_token = pk_token t, pu_fpr = pk_fingerprint t\<rparr>"
proof -
  have "split_on (CHR ''&'') ((''host='' @ urlencoding_encode h) @ CHR ''&'' # (''token='' @ urlencoding_encode k) @ CHR ''&'' #
      (''fpr='' @ urlencoding_encode f)) = [''host='' @ urlencoding_encode h, ''token='' @ urlencoding_encode k, ''fpr='' @ urlencoding_encode f]"
    for h k f
    using encode_no_amp by (subst split_on_append, simp, subst split_on_append, simp, subst split_on_no_sep, simp_all)
  moreover have "url_step (''host='' @ v) (a, b, c) = (Some (url_percent_decode v), b, c)" "url_step (''token='' @ v) (a, b, c) = (a, Some (url_percent_decode v), c)"
    "url_step (''fpr='' @ v) (a, b, c) = (a, b, Some (url_percent_decode v))" for v a b c
    by (simp_all add: url_step_def starts_with_def)
  moreover have "strip_prefix ''daruma://pair?'' (''daruma://pair?'' @ r) = Some r" for r by (simp add: strip_prefix_def starts_with_def)
  ultimately show ?thesis using assms decode_encode by (simp add: parse_pairing_url_def pairing_url_def)
qed

subsection \<open>One use\<close>

lemma fold_or_zero: "fold (\<lambda>(x, y) acc. acc OR (x XOR y)) zs (acc :: nat) = 0 \<longleftrightarrow> acc = 0 \<and> (\<forall>(x, y)\<in>set zs. x = y)"
proof (induction zs arbitrary: acc)
  case (Cons z zs)
  obtain x y where z: "z = (x, y)" by (cases z)
  have "x XOR y = 0 \<longleftrightarrow> x = y" by (metis xor.assoc xor.left_neutral xor.right_neutral xor_self_eq)
  then show ?case using Cons.IH by (auto simp: z or_eq_0_iff)
qed simp

lemma zip_all_equal: "length xs = length ys \<Longrightarrow> (\<forall>(x, y)\<in>set (zip xs ys). x = y) \<longleftrightarrow> xs = ys"
  by (induction xs ys rule: list_induct2) auto

lemma constant_eq_iff: "constant_eq a b \<longleftrightarrow> a = b"
proof -
  have "inj byte" by (simp add: inj_def byte_def)
  then have "constant_eq a b \<longleftrightarrow> length a = length b \<and> a = b"
    using zip_all_equal [of "map byte a" "map byte b"] by (auto simp: constant_eq_def fold_or_zero inj_map_eq_map)
  then show ?thesis by auto
qed

text \<open>\<open>pairing_run st issued consumed\<close>: the tickets issued so far, by token, and those handed out, with the time. Tokens are drawn fresh.\<close>

inductive pairing_run :: "pairing_store \<Rightarrow> string list \<Rightarrow> (timestamp \<times> pairing_ticket) list \<Rightarrow> bool" where
  empty: "pairing_run [] [] []"
| issues: "pairing_run st issued consumed \<Longrightarrow> token \<notin> set issued \<Longrightarrow> pairing_issue token now host fpr st = (t, st') \<Longrightarrow>
    pairing_run st' (token # issued) consumed"
| consumes: "pairing_run st issued consumed \<Longrightarrow> pairing_consume tag now candidate st = (Some t, st') \<Longrightarrow>
    pairing_run st' issued ((now, t) # consumed)"
| refuses: "pairing_run st issued consumed \<Longrightarrow> pairing_consume tag now candidate st = (None, st') \<Longrightarrow> pairing_run st' issued consumed"
| sweeps: "pairing_run st issued consumed \<Longrightarrow> pairing_run (pairing_sweep now st) issued consumed"

definition handed_out :: "(timestamp \<times> pairing_ticket) list \<Rightarrow> string \<Rightarrow> bool" where
  "handed_out consumed k \<longleftrightarrow> k \<in> set (map (pk_token \<circ> snd) consumed)"

lemma handed_out_Cons: "handed_out ((now, t) # consumed) k \<longleftrightarrow> k = pk_token t \<or> handed_out consumed k"
  by (simp add: handed_out_def)

definition pairing_inv :: "pairing_store \<Rightarrow> string list \<Rightarrow> (timestamp \<times> pairing_ticket) list \<Rightarrow> bool" where
  "pairing_inv st issued consumed \<longleftrightarrow> distinct (map fst st) \<and>
     (\<forall>k e. map_of st k = Some e \<longrightarrow> pk_token (pe_ticket e) = k \<and> k \<in> set issued \<and>
        (handed_out consumed k \<longrightarrow> pe_used e)) \<and> (\<forall>k. handed_out consumed k \<longrightarrow> k \<in> set issued) \<and>
     distinct (map (pk_token \<circ> snd) consumed) \<and> (\<forall>(now, t)\<in>set consumed. pk_token t \<in> set issued \<and> now < pk_expires_at t)"

lemma map_of_sweep:
  "distinct (map fst st) \<Longrightarrow> map_of (pairing_sweep now st) k = Some e \<longleftrightarrow> map_of st k = Some e \<and> \<not> ticket_expired now (pe_ticket e)"
  by (subst map_of_eq_Some_iff) (auto simp: pairing_sweep_def distinct_map_filter)

lemma sweep_keys: "distinct (map fst st) \<Longrightarrow> distinct (map fst (pairing_sweep now st))"
  by (simp add: pairing_sweep_def distinct_map_filter)

lemma sweep_inv: "pairing_inv st issued consumed \<Longrightarrow> pairing_inv (pairing_sweep now st) issued consumed"
  unfolding pairing_inv_def using map_of_sweep [of st now] sweep_keys [of st now] by blast

lemma issue_inv:
  assumes "pairing_inv st issued consumed" "token \<notin> set issued" "pairing_issue token now host fpr st = (t, st')"
  shows "pairing_inv st' (token # issued) consumed"
proof -
  have "pairing_inv (pairing_sweep now st) issued consumed" by (rule sweep_inv [OF assms(1)])
  moreover have "st' = AList.update token \<lparr>pe_ticket = t, pe_used = False\<rparr> (pairing_sweep now st)" "pk_token t = token"
    using assms(3) by (auto simp: pairing_issue_def Let_def)
  ultimately show ?thesis using assms(2)
    by (auto simp: pairing_inv_def update_conv distinct_update split: if_splits simp del: map_of_eq_Some_iff)
qed

lemma consume_inv:
  assumes "pairing_inv st issued consumed" "pairing_consume tag now candidate st = (Some t, st')"
  shows "pairing_inv st' issued ((now, t) # consumed)"
proof -
  define live where "live = pairing_sweep now st"
  have inv: "pairing_inv live issued consumed" unfolding live_def by (rule sweep_inv [OF assms(1)])
  obtain k e where "find (\<lambda>(k, e). \<not> pe_used e \<and> constant_eq (tag candidate) (tag k)) live = Some (k, e)"
    and st': "t = pe_ticket e" "st' = AList.update k (e\<lparr>pe_used := True\<rparr>) live"
    using assms(2) by (auto simp: pairing_consume_def Let_def live_def split: option.splits)
  then have "(k, e) \<in> set live" "\<not> pe_used e" using find_Some_mem by fastforce+
  then have k: "map_of live k = Some e" "\<not> pe_used e" using inv by (simp_all add: pairing_inv_def)
  have "\<not> ticket_expired now t" using \<open>(k, e) \<in> set live\<close> by (auto simp: live_def pairing_sweep_def st'(1))
  moreover have own: "pk_token t = k" "k \<in> set issued" "\<not> handed_out consumed k"
    using inv k unfolding pairing_inv_def st'(1) by blast+
  moreover have "distinct (map (pk_token \<circ> snd) ((now, t) # consumed))"
    using inv own by (simp add: pairing_inv_def handed_out_def)
  ultimately show ?thesis using inv k(1)
    unfolding pairing_inv_def st'(2) handed_out_Cons
    by (auto simp: update_conv distinct_update ticket_expired_def split: if_splits simp del: map_of_eq_Some_iff)
qed

lemma pairing_run_inv: "pairing_run st issued consumed \<Longrightarrow> pairing_inv st issued consumed"
proof (induction rule: pairing_run.induct)
  case empty
  then show ?case by (simp add: pairing_inv_def handed_out_def)
next
  case (refuses st issued consumed tag now candidate st')
  then have "st' = pairing_sweep now st" by (auto simp: pairing_consume_def Let_def split: option.splits)
  then show ?case using sweep_inv refuses.IH by simp
qed (rule issue_inv consume_inv sweep_inv; assumption)+

text \<open>
  C20: a pairing ticket works once and in time. Whatever tickets are issued, tried and swept, no ticket is handed out twice, only issued
  ones are, and never after their five minutes. This needs nothing of the HMAC.
\<close>

theorem pairing_ticket_single_use:
  assumes "pairing_run st issued consumed"
  shows "distinct (map (pk_token \<circ> snd) consumed) \<and> (\<forall>(now, t)\<in>set consumed. pk_token t \<in> set issued \<and> now < pk_expires_at t)"
  using pairing_run_inv [OF assms] by (simp add: pairing_inv_def)

subsection \<open>What pairing grants\<close>

text \<open>
  Pairing grants exactly one bounded token. A pairing that succeeds spent an unexpired ticket whose fingerprint the device saw, and adds
  one device and one token to what was stored: a personal token of the default user scope, bound to that device, for
  90 days. A ticket, fingerprint or hashing failure adds nothing.
\<close>

theorem pair_device_grants_one_token:
  assumes "pair_device pv now req (st, s) = (r, (st', s'))"
  shows "(\<forall>resp. r = Inr resp \<longrightarrow>
      (\<exists>t d tok. fst (pairing_consume (pv_tag pv) now (trim (pq_token req)) st) = Some t \<and>
         normalize_fingerprint (pk_fingerprint t) = normalize_fingerprint (trim (pq_fingerprint req)) \<and>
         as_devices s' = as_devices s @ [d] \<and> as_tokens s' = as_tokens s @ [tok] \<and>
         at_device_id tok = Some (dv_id d) \<and> at_scope tok = scope_default_user \<and> at_kind tok = Pat \<and>
         at_expired_at tok = Some (now + 90 * 86400) \<and> at_revoked_at tok = None \<and> pp_device_id resp = dv_id d)) \<and>
    (\<forall>e. r = Inl e \<longrightarrow> as_tokens s' = as_tokens s)"
proof (cases "trim (pq_token req) = [] \<or> trim (pq_fingerprint req) = []")
  case True
  then show ?thesis using assms by (auto simp: pair_device_def Let_def split: if_splits)
next
  case False
  obtain tk st1 where c: "pairing_consume (pv_tag pv) now (trim (pq_token req)) st = (tk, st1)" by fastforce
  show ?thesis
  proof (cases tk)
    case None
    then show ?thesis using assms False c by (auto simp: pair_device_def Let_def)
  next
    case (Some t)
    show ?thesis
    proof (cases "generate (pv_hash pv) (pv_secret pv) (pv_token_id pv) now (paired_spec (pv_agent_id pv) now)")
      case (Inl e)
      then show ?thesis using assms False c Some by (auto simp: pair_device_def Let_def split: if_splits)
    next
      case (Inr g)
      then obtain tok plain where g: "generate (pv_hash pv) (pv_secret pv) (pv_token_id pv) now (paired_spec (pv_agent_id pv) now) = Inr (tok, plain)"
        by (cases g) simp
      then have tok: "at_scope tok = scope_default_user" "at_kind tok = Pat" "at_expired_at tok = Some (now + 90 * 86400)" "at_revoked_at tok = None"
        by (auto simp: generate_def Let_def bind_result_Inr_iff paired_spec_def)
      show ?thesis using assms False c Some g tok
        by (auto simp: pair_device_def Let_def constant_eq_iff device_insert_def token_insert_def split: if_splits)
    qed
  qed
qed

subsection \<open>An example\<close>

definition demo_ticket :: pairing_ticket where
  "demo_ticket = fst (pairing_issue ''abc'' 1000 ''10.0.0.5:8443'' ''sha256:ab12'' [])"

definition demo_pairing :: pairing_env where
  "demo_pairing = \<lparr>pv_tag = (\<lambda>s. s @ ''!''), pv_hash = Inr, pv_secret = ''secretsecret'', pv_token_id = 4, pv_agent_id = 5, pv_device_id = 6\<rparr>"

definition demo_request :: pair_request where
  "demo_request = \<lparr>pq_token = ''abc'', pq_fingerprint = ''AB12'', pq_label = None\<rparr>"

definition demo_tickets :: pairing_store where
  "demo_tickets = snd (pairing_issue ''abc'' 1000 ''10.0.0.5:8443'' ''sha256:ab12'' [])"

definition demo_paired :: "pair_response result \<times> (pairing_store \<times> auth_store)" where
  "demo_paired = pair_device demo_pairing 1100 demo_request (demo_tickets, \<lparr>as_tokens = [], as_devices = []\<rparr>)"

theorem pairing_url_roundtrip_witness:
  "pairing_url demo_ticket = ''daruma://pair?host=10.0.0.5:8443&token=abc&fpr=sha256:ab12'' \<and>
   parse_pairing_url ''daruma://pair?host=10.0.0.5:8443&token=abc&fpr=sha256:ab12'' =
     Inr \<lparr>pu_host = ''10.0.0.5:8443'', pu_token = ''abc'', pu_fpr = ''sha256:ab12''\<rparr>"
proof -
  have url: "pairing_url demo_ticket = ''daruma://pair?host=10.0.0.5:8443&token=abc&fpr=sha256:ab12''"
    and plain: "plain_text (pk_host demo_ticket)" "plain_text (pk_token demo_ticket)" "plain_text (pk_fingerprint demo_ticket)" by code_simp+
  show ?thesis using pairing_url_roundtrip [OF plain] url by (simp add: demo_ticket_def pairing_issue_def Let_def)
qed

theorem pairing_ticket_single_use_witness:
  "fst (pairing_consume (\<lambda>s. s) 1100 ''abc'' demo_tickets) = Some demo_ticket \<and> 1100 < pk_expires_at demo_ticket"
proof -
  have issued: "pairing_run demo_tickets [''abc''] []"
    by (rule pairing_run.issues [OF pairing_run.empty, where t = demo_ticket]) (simp_all add: demo_ticket_def demo_tickets_def)
  have taken: "fst (pairing_consume (\<lambda>s. s) 1100 ''abc'' demo_tickets) = Some demo_ticket" by code_simp
  have "pairing_consume (\<lambda>s. s) 1100 ''abc'' demo_tickets =
      (Some demo_ticket, snd (pairing_consume (\<lambda>s. s) 1100 ''abc'' demo_tickets))" by (subst taken [symmetric]) (rule prod.collapse [symmetric])
  note run = pairing_run.consumes [OF issued this]
  have "1100 < pk_expires_at demo_ticket" using pairing_ticket_single_use [OF run] by auto
  then show ?thesis using taken by blast
qed

theorem pair_device_grants_one_token_witness:
  "\<exists>tok. as_tokens (snd (snd demo_paired)) = [tok] \<and> at_scope tok = scope_default_user \<and> at_device_id tok = Some 6"
proof -
  have "\<not> isl (fst demo_paired)" by code_simp
  then obtain resp where resp: "fst demo_paired = Inr resp" by (cases "fst demo_paired") simp_all
  have "demo_paired = (Inr resp, (fst (snd demo_paired), snd (snd demo_paired)))" using resp by (simp add: prod_eq_iff)
  then have "pair_device demo_pairing 1100 demo_request (demo_tickets, \<lparr>as_tokens = [], as_devices = []\<rparr>) =
      (Inr resp, (fst (snd demo_paired), snd (snd demo_paired)))" by (simp only: demo_paired_def [symmetric])
  note grants = pair_device_grants_one_token [OF this, THEN conjunct1, rule_format, OF refl]
  then obtain d tok where "as_devices (snd (snd demo_paired)) = [d]" "as_tokens (snd (snd demo_paired)) = [tok]"
    "at_device_id tok = Some (dv_id d)" "at_scope tok = scope_default_user"
    by auto
  moreover have "map dv_id (as_devices (snd (snd demo_paired))) = [6]" by code_simp
  ultimately show ?thesis by simp
qed

end
