(* ===== verification/Idempotency.thy ===== *)
theory Idempotency
  imports Rows
begin

text \<open>
  Idempotent commands: the table \<^verbatim>\<open>processed_command_ids\<close> (\<^verbatim>\<open>crates/storage/src/idempotency_repo.rs\<close>), the claim a
  request makes on its \<^verbatim>\<open>client_command_id\<close> and its settlement (\<^verbatim>\<open>apps/server/src/routes/mod.rs\<close>), and the same over a
  web socket (\<^verbatim>\<open>apps/server/src/ws.rs\<close>). Every SQL statement is a step of its own; what other requests do between two of
  them is an argument. The Bloom filter in front of the table comes from the crate \<^verbatim>\<open>fastbloom\<close>: its two operations are
  arguments, and \<open>bloom_ok\<close> is what its documentation promises.
\<close>

subsection \<open>The table\<close>

record 'f bloom =
  bl_empty :: 'f
  bl_insert :: "uuid \<Rightarrow> 'f \<Rightarrow> 'f"
  bl_contains :: "uuid \<Rightarrow> 'f \<Rightarrow> bool"

text \<open>No false negatives.\<close>

definition bloom_ok :: "'f bloom \<Rightarrow> bool" where
  "bloom_ok b \<longleftrightarrow> (\<forall>i f. bl_contains b i (bl_insert b i f)) \<and>
     (\<forall>i j f. bl_contains b i f \<longrightarrow> bl_contains b i (bl_insert b j f))"

record processed_row =
  pc_id :: uuid
  pc_event_id :: uuid
  pc_event_seq :: nat
  pc_created_at :: timestamp

record 'f idempotency =
  im_rows :: "processed_row list"
  im_filter :: 'f

definition reserved_event_id :: uuid where
  "reserved_event_id = 0"

definition idempotency_new :: "'f bloom \<Rightarrow> processed_row list \<Rightarrow> 'f idempotency" where
  "idempotency_new b rows = \<lparr>im_rows = rows, im_filter = bl_empty b\<rparr>"

definition warm :: "'f bloom \<Rightarrow> 'f idempotency \<Rightarrow> 'f idempotency" where
  "warm b s = s\<lparr>im_filter := fold (bl_insert b) (map pc_id (im_rows s)) (im_filter s)\<rparr>"

definition lookup_processed :: "'f bloom \<Rightarrow> 'f idempotency \<Rightarrow> uuid \<Rightarrow> (uuid \<times> nat) option" where
  "lookup_processed b s i =
     (if \<not> bl_contains b i (im_filter s) then None
      else case row_get pc_id (im_rows s) i of
             None \<Rightarrow> None
           | Some r \<Rightarrow> if pc_event_seq r = 0 \<or> pc_event_id r = reserved_event_id then None
                        else Some (pc_event_id r, pc_event_seq r))"

text \<open>\<^verbatim>\<open>INSERT OR IGNORE\<close>: whether the row was inserted, and the table with the filter marked in any case.\<close>

definition insert_or_ignore :: "'f bloom \<Rightarrow> processed_row \<Rightarrow> 'f idempotency \<Rightarrow> bool \<times> 'f idempotency" where
  "insert_or_ignore b r s =
     (let known = row_get pc_id (im_rows s) (pc_id r) \<noteq> None
      in (\<not> known, \<lparr>im_rows = (if known then im_rows s else im_rows s @ [r]), im_filter = bl_insert b (pc_id r) (im_filter s)\<rparr>))"

definition insert_processed :: "'f bloom \<Rightarrow> timestamp \<Rightarrow> uuid \<Rightarrow> uuid \<Rightarrow> nat \<Rightarrow> 'f idempotency \<Rightarrow> 'f idempotency" where
  "insert_processed b now i event_id event_seq s =
     snd (insert_or_ignore b \<lparr>pc_id = i, pc_event_id = event_id, pc_event_seq = event_seq, pc_created_at = now\<rparr> s)"

definition reserve_command :: "'f bloom \<Rightarrow> timestamp \<Rightarrow> uuid \<Rightarrow> 'f idempotency \<Rightarrow> bool \<times> 'f idempotency" where
  "reserve_command b now i s =
     insert_or_ignore b \<lparr>pc_id = i, pc_event_id = reserved_event_id, pc_event_seq = 0, pc_created_at = now\<rparr> s"

definition complete_command :: "uuid \<Rightarrow> uuid \<Rightarrow> nat \<Rightarrow> 'f idempotency \<Rightarrow> 'f idempotency" where
  "complete_command i event_id event_seq s =
     s\<lparr>im_rows := map (\<lambda>r. if pc_id r = i \<and> pc_event_seq r = 0
                              then r\<lparr>pc_event_id := event_id, pc_event_seq := event_seq\<rparr> else r) (im_rows s)\<rparr>"

definition release_command :: "uuid \<Rightarrow> 'f idempotency \<Rightarrow> 'f idempotency" where
  "release_command i s = s\<lparr>im_rows := filter (\<lambda>r. \<not> (pc_id r = i \<and> pc_event_seq r = 0)) (im_rows s)\<rparr>"

definition cleanup_older_than :: "timestamp \<Rightarrow> 'f idempotency \<Rightarrow> nat \<times> 'f idempotency" where
  "cleanup_older_than cutoff s =
     (length (filter (\<lambda>r. pc_created_at r < cutoff) (im_rows s)),
      s\<lparr>im_rows := filter (\<lambda>r. \<not> pc_created_at r < cutoff) (im_rows s)\<rparr>)"

subsection \<open>Claiming a command id\<close>

datatype command_id_claim =
    Untracked
  | Owned uuid
  | Replay uuid nat

definition CLIENT_COMMAND_ID_WAIT_POLLS :: nat where
  "CLIENT_COMMAND_ID_WAIT_POLLS = 100"

text \<open>
  The loop of \<^verbatim>\<open>claim_client_command_id\<close>. Each poll is a lookup followed by a reservation. An element of the list
  is what the rest of the server does to the table between the lookup and the reservation of a poll, and between the
  poll and the next one; the list is as long as the loop.
\<close>

type_synonym 'f other_requests = "('f idempotency \<Rightarrow> 'f idempotency) \<times> ('f idempotency \<Rightarrow> 'f idempotency)"

fun claim_polls ::
  "'f bloom \<Rightarrow> timestamp \<Rightarrow> uuid \<Rightarrow> 'f other_requests list \<Rightarrow> 'f idempotency \<Rightarrow> command_id_claim result \<times> 'f idempotency" where
  "claim_polls b now i [] s = (Inl (Conflict ''client_command_id_in_flight: ''), s)"
| "claim_polls b now i ((between, after) # polls) s =
     (case lookup_processed b s i of
        Some (event_id, event_seq) \<Rightarrow> (Inr (Replay event_id event_seq), s)
      | None \<Rightarrow>
          (case reserve_command b now i (between s) of
             (True, s') \<Rightarrow> (Inr (Owned i), s')
           | (False, s') \<Rightarrow> claim_polls b now i polls (after s')))"

definition claim_client_command_id ::
  "'f bloom \<Rightarrow> timestamp \<Rightarrow> uuid option \<Rightarrow> 'f other_requests list \<Rightarrow> 'f idempotency \<Rightarrow> command_id_claim result \<times> 'f idempotency" where
  "claim_client_command_id b now ccid others s =
     (case ccid of
        None \<Rightarrow> (Inr Untracked, s)
      | Some i \<Rightarrow> claim_polls b now i (take (Suc CLIENT_COMMAND_ID_WAIT_POLLS) others) s)"

text \<open>
  The result of the command is the last envelope it persisted, if it succeeded and persisted one. The settlement is
  only logged when its statement fails (\<open>settled\<close> false).
\<close>

definition settle_client_command_id ::
  "bool \<Rightarrow> command_id_claim \<Rightarrow> (uuid \<times> nat) option \<Rightarrow> 'f idempotency \<Rightarrow> 'f idempotency" where
  "settle_client_command_id settled claim final s =
     (case claim of
        Owned i \<Rightarrow>
          if \<not> settled then s
          else (case final of Some (event_id, event_seq) \<Rightarrow> complete_command i event_id event_seq s | None \<Rightarrow> release_command i s)
      | _ \<Rightarrow> s)"

subsection \<open>Over a web socket\<close>

datatype dispatch_reservation =
    Fresh
  | Replayed uuid
  | ReservationFailed

text \<open>A reservation, then up to 200 lookups while another frame holds the id.\<close>

fun ws_polls :: "'f bloom \<Rightarrow> uuid \<Rightarrow> ('f idempotency \<Rightarrow> 'f idempotency) list \<Rightarrow> 'f idempotency \<Rightarrow> dispatch_reservation \<times> 'f idempotency" where
  "ws_polls b i [] s = (ReservationFailed, s)"
| "ws_polls b i (other # others) s =
     (case lookup_processed b (other s) i of
        Some (event_id, _) \<Rightarrow> (Replayed event_id, other s)
      | None \<Rightarrow> ws_polls b i others (other s))"

definition reserve_or_ack_cached ::
  "'f bloom \<Rightarrow> timestamp \<Rightarrow> uuid \<Rightarrow> ('f idempotency \<Rightarrow> 'f idempotency) list \<Rightarrow> 'f idempotency \<Rightarrow>
   dispatch_reservation \<times> 'f idempotency" where
  "reserve_or_ack_cached b now i others s =
     (case lookup_processed b s i of
        Some (event_id, _) \<Rightarrow> (Replayed event_id, s)
      | None \<Rightarrow>
          (case reserve_command b now i s of
             (True, s') \<Rightarrow> (Fresh, s')
           | (False, s') \<Rightarrow> ws_polls b i (take 200 others) s'))"

text \<open>\<^verbatim>\<open>handle_dispatch\<close> settles only a command that persisted something.\<close>

definition ws_settle :: "dispatch_reservation \<Rightarrow> uuid \<Rightarrow> (uuid \<times> nat) option \<Rightarrow> 'f idempotency \<Rightarrow> 'f idempotency" where
  "ws_settle r i final s =
     (case (r, final) of
        (Fresh, Some (event_id, event_seq)) \<Rightarrow> complete_command i event_id event_seq s
      | _ \<Rightarrow> s)"

subsection \<open>What the table says of a command id\<close>

text \<open>Every stored id is in the filter: \<^verbatim>\<open>warm\<close> makes it so at start-up, and every operation keeps it.\<close>

definition idempotency_ok :: "'f bloom \<Rightarrow> 'f idempotency \<Rightarrow> bool" where
  "idempotency_ok b s \<longleftrightarrow> keys_distinct pc_id (im_rows s) \<and> (\<forall>r \<in> set (im_rows s). bl_contains b (pc_id r) (im_filter s))"

definition row_of :: "'f idempotency \<Rightarrow> uuid \<Rightarrow> (uuid \<times> nat) option" where
  "row_of s i = map_option (\<lambda>r. (pc_event_id r, pc_event_seq r)) (row_get pc_id (im_rows s) i)"

lemma fold_insert_contains:
  assumes "bloom_ok b" "i \<in> set is \<or> bl_contains b i f"
  shows "bl_contains b i (fold (bl_insert b) is f)"
  using assms(2)
proof (induction "is" arbitrary: f)
  case (Cons j js)
  then have "i \<in> set js \<or> bl_contains b i (bl_insert b j f)" using assms(1) by (auto simp: bloom_ok_def)
  then show ?case using Cons.IH by simp
qed simp

lemma warm_ok:
  assumes "bloom_ok b" "keys_distinct pc_id rows"
  shows "idempotency_ok b (warm b (idempotency_new b rows))"
proof -
  have "bl_contains b (pc_id r) (fold (bl_insert b) (map pc_id rows) f)" if "r \<in> set rows" for r f
    using that by (intro fold_insert_contains [OF assms(1)]) simp
  then show ?thesis using assms(2) by (simp add: idempotency_ok_def warm_def idempotency_new_def)
qed

lemma insert_or_ignore_ok:
  assumes "bloom_ok b" "idempotency_ok b s"
  shows "idempotency_ok b (snd (insert_or_ignore b r s))"
  using assms row_get_None_iff [of pc_id "im_rows s" "pc_id r"]
  by (auto simp: idempotency_ok_def insert_or_ignore_def Let_def bloom_ok_def keys_distinct_def)

lemma complete_ok:
  assumes "idempotency_ok b s"
  shows "idempotency_ok b (complete_command i e q s)"
proof -
  let ?f = "\<lambda>r. if pc_id r = i \<and> pc_event_seq r = 0 then r\<lparr>pc_event_id := e, pc_event_seq := q\<rparr> else r"
  have "map pc_id (map ?f (im_rows s)) = map pc_id (im_rows s)" by simp
  moreover have "pc_id (?f r) = pc_id r" for r by simp
  ultimately show ?thesis using assms
    unfolding idempotency_ok_def complete_command_def keys_distinct_def by (auto simp del: map_map)
qed

lemma release_ok: "idempotency_ok b s \<Longrightarrow> idempotency_ok b (release_command i s)"
  by (auto simp: idempotency_ok_def release_command_def intro: keys_distinct_filter)

lemma cleanup_ok: "idempotency_ok b s \<Longrightarrow> idempotency_ok b (snd (cleanup_older_than cutoff s))"
  by (auto simp: idempotency_ok_def cleanup_older_than_def intro: keys_distinct_filter)

lemma reserve_table_ok:
  assumes "bloom_ok b" "idempotency_ok b s" "reserve_command b now i s = (won, s')"
  shows "idempotency_ok b s'"
  using insert_or_ignore_ok [OF assms(1,2)] assms(3) by (auto simp: reserve_command_def) (metis snd_conv)

lemma row_of_complete:
  "row_of (complete_command i e q s) j =
     (if j = i then map_option (\<lambda>(e0, q0). if q0 = 0 then (e, q) else (e0, q0)) (row_of s j) else row_of s j)"
proof -
  let ?f = "\<lambda>r. if pc_id r = i \<and> pc_event_seq r = 0 then r\<lparr>pc_event_id := e, pc_event_seq := q\<rparr> else r"
  have "row_get pc_id (map ?f (im_rows s)) j = map_option ?f (row_get pc_id (im_rows s) j)" by (rule row_get_map) simp
  then show ?thesis
    by (cases "row_get pc_id (im_rows s) j") (auto simp: row_of_def complete_command_def dest: row_get_Some)
qed

lemma row_of_release:
  "idempotency_ok b s \<Longrightarrow> row_of (release_command i s) j =
     (case row_of s j of Some (e, q) \<Rightarrow> if j = i \<and> q = 0 then None else Some (e, q) | None \<Rightarrow> None)"
  by (auto simp: row_of_def release_command_def idempotency_ok_def row_get_filter dest: row_get_Some split: option.splits)

lemma row_of_reserve:
  assumes "reserve_command b now i s = (won, s')"
  shows "won \<longleftrightarrow> row_of s i = None" "row_of s' j = (if j = i \<and> won then Some (reserved_event_id, 0) else row_of s j)"
  using assms by (auto simp: reserve_command_def insert_or_ignore_def Let_def row_of_def found_row_append
      split: option.splits if_splits)

lemma row_of_cleanup:
  assumes "idempotency_ok b s" "\<forall>r \<in> set (im_rows s). pc_created_at r < cutoff \<longrightarrow> pc_id r \<noteq> j"
  shows "row_of (snd (cleanup_older_than cutoff s)) j = row_of s j"
  using assms by (auto simp: row_of_def cleanup_older_than_def idempotency_ok_def row_get_filter dest: row_get_Some
      split: option.splits)

lemma lookup_row:
  "idempotency_ok b s \<Longrightarrow> lookup_processed b s i =
     (case row_of s i of Some (e, q) \<Rightarrow> if q = 0 \<or> e = reserved_event_id then None else Some (e, q) | None \<Rightarrow> None)"
  by (auto simp: lookup_processed_def row_of_def idempotency_ok_def dest: row_get_Some split: option.splits)

subsection \<open>A service run\<close>

text \<open>
  The requests of a server and its restarts. \<open>sv_owners\<close> are the ids whose command runs now, one entry per request;
  \<open>sv_done\<close> the ids with the last event of their command; \<open>sv_stuck\<close> the ids whose request was never settled, as the
  server stopped, the statement failed or a web socket command failed. The id of an event is not nil and its number
  not zero; no command runs for longer than the age of the rows a cleanup removes.
\<close>

record 'f service =
  sv_table :: "'f idempotency"
  sv_owners :: "uuid list"
  sv_done :: "(uuid \<times> uuid \<times> nat) list"
  sv_stuck :: "uuid list"

inductive service_reach :: "'f bloom \<Rightarrow> 'f service \<Rightarrow> bool" for b where
  start: "service_reach b \<lparr>sv_table = idempotency_new b [], sv_owners = [], sv_done = [], sv_stuck = []\<rparr>"
| reserve: "service_reach b sv \<Longrightarrow> reserve_command b now i (sv_table sv) = (won, s') \<Longrightarrow>
    service_reach b (sv\<lparr>sv_table := s', sv_owners := (if won then [i] else []) @ sv_owners sv\<rparr>)"
| complete: "service_reach b sv \<Longrightarrow> i \<in> set (sv_owners sv) \<Longrightarrow> e \<noteq> reserved_event_id \<Longrightarrow> 0 < q \<Longrightarrow>
    service_reach b (sv\<lparr>sv_table := settle_client_command_id True (Owned i) (Some (e, q)) (sv_table sv),
      sv_owners := remove1 i (sv_owners sv), sv_done := (i, e, q) # sv_done sv\<rparr>)"
| release: "service_reach b sv \<Longrightarrow> i \<in> set (sv_owners sv) \<Longrightarrow>
    service_reach b (sv\<lparr>sv_table := settle_client_command_id True (Owned i) None (sv_table sv),
      sv_owners := remove1 i (sv_owners sv)\<rparr>)"
| unsettled: "service_reach b sv \<Longrightarrow> i \<in> set (sv_owners sv) \<Longrightarrow>
    service_reach b (sv\<lparr>sv_table := settle_client_command_id False (Owned i) final (sv_table sv),
      sv_owners := remove1 i (sv_owners sv), sv_stuck := i # sv_stuck sv\<rparr>)"
| ws_failed: "service_reach b sv \<Longrightarrow> i \<in> set (sv_owners sv) \<Longrightarrow>
    service_reach b (sv\<lparr>sv_table := ws_settle Fresh i None (sv_table sv),
      sv_owners := remove1 i (sv_owners sv), sv_stuck := i # sv_stuck sv\<rparr>)"
| cleanup: "service_reach b sv \<Longrightarrow>
    gone = pc_id ` {r \<in> set (im_rows (sv_table sv)). pc_created_at r < cutoff} \<Longrightarrow> gone \<inter> set (sv_owners sv) = {} \<Longrightarrow>
    service_reach b (sv\<lparr>sv_table := snd (cleanup_older_than cutoff (sv_table sv)),
      sv_done := filter (\<lambda>(i, _). i \<notin> gone) (sv_done sv), sv_stuck := filter (\<lambda>i. i \<notin> gone) (sv_stuck sv)\<rparr>)"
| restart: "service_reach b sv \<Longrightarrow>
    service_reach b (sv\<lparr>sv_table := warm b (idempotency_new b (im_rows (sv_table sv))),
      sv_owners := [], sv_stuck := sv_owners sv @ sv_stuck sv\<rparr>)"

text \<open>The rows say exactly which ids are reserved, and which are done with which event.\<close>

definition service_ok :: "'f bloom \<Rightarrow> 'f service \<Rightarrow> bool" where
  "service_ok b sv \<longleftrightarrow> idempotency_ok b (sv_table sv) \<and>
     distinct (sv_owners sv @ sv_stuck sv @ map fst (sv_done sv)) \<and>
     (\<forall>i. row_of (sv_table sv) i =
        (if i \<in> set (sv_owners sv) \<union> set (sv_stuck sv) then Some (reserved_event_id, 0) else map_of (sv_done sv) i)) \<and>
     (\<forall>(i, e, q) \<in> set (sv_done sv). e \<noteq> reserved_event_id \<and> 0 < q)"

lemma map_of_done: "i \<notin> fst ` set xs \<Longrightarrow> map_of xs i = None"
  by (simp add: map_of_eq_None_iff)

lemma map_of_filter_key: "map_of (filter (\<lambda>(i, _). i \<notin> gone) xs) i = (if i \<in> gone then None else map_of xs i)"
  by (induction xs) auto

lemma reserve_ok:
  assumes "bloom_ok b" "service_ok b sv" "reserve_command b now i (sv_table sv) = (won, s')"
  shows "service_ok b (sv\<lparr>sv_table := s', sv_owners := (if won then [i] else []) @ sv_owners sv\<rparr>)"
proof -
  have ok: "idempotency_ok b s'" using reserve_table_ok [OF assms(1) _ assms(3)] assms(2) by (simp add: service_ok_def)
  have "won \<longleftrightarrow> i \<notin> set (sv_owners sv) \<union> set (sv_stuck sv) \<and> map_of (sv_done sv) i = None"
    using row_of_reserve(1) [OF assms(3)] assms(2) by (auto simp: service_ok_def)
  then show ?thesis using ok assms(2) row_of_reserve(2) [OF assms(3)] by (auto simp: service_ok_def map_of_eq_None_iff)
qed

lemma settle_row:
  assumes "service_ok b sv" "i \<in> set (sv_owners sv)"
  shows "row_of (sv_table sv) i = Some (reserved_event_id, 0)" "i \<notin> set (remove1 i (sv_owners sv))" "i \<notin> set (sv_stuck sv)"
    "i \<notin> fst ` set (sv_done sv)"
  using assms by (auto simp: service_ok_def)

lemma complete_step_ok:
  assumes "service_ok b sv" "i \<in> set (sv_owners sv)" "e \<noteq> reserved_event_id" "0 < q"
  shows "service_ok b (sv\<lparr>sv_table := settle_client_command_id True (Owned i) (Some (e, q)) (sv_table sv),
      sv_owners := remove1 i (sv_owners sv), sv_done := (i, e, q) # sv_done sv\<rparr>)"
  using assms settle_row [OF assms(1,2)]
  by (auto simp: service_ok_def settle_client_command_id_def row_of_complete complete_ok set_remove1_eq)

lemma release_step_ok:
  assumes "service_ok b sv" "i \<in> set (sv_owners sv)"
  shows "service_ok b (sv\<lparr>sv_table := settle_client_command_id True (Owned i) None (sv_table sv),
      sv_owners := remove1 i (sv_owners sv)\<rparr>)"
proof -
  have ok: "idempotency_ok b (sv_table sv)" using assms(1) by (simp add: service_ok_def)
  show ?thesis using assms settle_row [OF assms] map_of_done [of i "sv_done sv"]
    by (auto simp: service_ok_def settle_client_command_id_def row_of_release [OF ok] release_ok set_remove1_eq split: option.splits)
qed

lemma cleanup_step_ok:
  assumes "service_ok b sv" "gone = pc_id ` {r \<in> set (im_rows (sv_table sv)). pc_created_at r < cutoff}"
    "gone \<inter> set (sv_owners sv) = {}"
  shows "service_ok b (sv\<lparr>sv_table := snd (cleanup_older_than cutoff (sv_table sv)),
      sv_done := filter (\<lambda>(i, _). i \<notin> gone) (sv_done sv), sv_stuck := filter (\<lambda>i. i \<notin> gone) (sv_stuck sv)\<rparr>)"
proof -
  have ok: "idempotency_ok b (sv_table sv)" using assms(1) by (simp add: service_ok_def)
  have "row_of (snd (cleanup_older_than cutoff (sv_table sv))) i = (if i \<in> gone then None else row_of (sv_table sv) i)" for i
  proof (cases "i \<in> gone")
    case True
    then obtain r where "r \<in> set (im_rows (sv_table sv))" "pc_created_at r < cutoff" "pc_id r = i" using assms(2) by auto
    then have "row_get pc_id (im_rows (sv_table sv)) i = Some r"
      using ok row_get_mem [of pc_id] by (auto simp: idempotency_ok_def)
    then show ?thesis using True ok \<open>pc_created_at r < cutoff\<close>
      by (simp add: row_of_def cleanup_older_than_def idempotency_ok_def row_get_filter)
  next
    case False
    then show ?thesis using row_of_cleanup [OF ok, of cutoff i] assms(2) by auto
  qed
  moreover have "distinct (map fst (filter (\<lambda>(i, _). i \<notin> gone) (sv_done sv)))"
    using assms(1) by (simp add: service_ok_def distinct_map_filter)
  ultimately show ?thesis using assms ok by (auto simp: service_ok_def cleanup_ok map_of_filter_key)
qed

lemma restart_step_ok:
  assumes "bloom_ok b" "service_ok b sv"
  shows "service_ok b (sv\<lparr>sv_table := warm b (idempotency_new b (im_rows (sv_table sv))),
      sv_owners := [], sv_stuck := sv_owners sv @ sv_stuck sv\<rparr>)"
proof -
  have "idempotency_ok b (warm b (idempotency_new b (im_rows (sv_table sv))))"
    using warm_ok [OF assms(1)] assms(2) by (simp add: service_ok_def idempotency_ok_def)
  moreover have "row_of (warm b (idempotency_new b (im_rows s))) i = row_of s i" for s :: "'a idempotency" and i
    by (simp add: row_of_def warm_def idempotency_new_def)
  ultimately show ?thesis using assms(2) by (simp add: service_ok_def)
qed

lemma service_reach_ok:
  assumes "service_reach b sv" "bloom_ok b"
  shows "service_ok b sv"
  using assms(1)
proof (induction rule: service_reach.induct)
  case start
  then show ?case by (simp add: service_ok_def idempotency_ok_def idempotency_new_def keys_distinct_def row_of_def)
next
  case (unsettled sv i final)
  then show ?case using settle_row [OF unsettled.IH unsettled.hyps(2)]
    by (auto simp: service_ok_def settle_client_command_id_def set_remove1_eq)
next
  case (ws_failed sv i)
  then show ?case using settle_row [OF ws_failed.IH ws_failed.hyps(2)]
    by (auto simp: service_ok_def ws_settle_def set_remove1_eq)
next
  case (reserve sv now i won s')
  then show ?case by (intro reserve_ok [OF assms(2)])
next
  case (complete sv i e q)
  then show ?case by (intro complete_step_ok)
next
  case (release sv i)
  then show ?case by (intro release_step_ok)
next
  case (cleanup sv gone cutoff)
  then show ?case by (intro cleanup_step_ok)
next
  case (restart sv)
  then show ?case by (intro restart_step_ok [OF assms(2)])
qed

text \<open>
  C12: a command runs once per id. However requests, failures, cleanups and restarts of the server interleave, no id is held
  by two requests, a finished id is held by none, and every later request with it is answered with the event its
  command ended with, until a cleanup forgets the id.
\<close>

theorem command_runs_once_per_id:
  assumes "bloom_ok b" "service_reach b sv"
  shows "distinct (sv_owners sv) \<and> (\<forall>(i, e, q) \<in> set (sv_done sv). i \<notin> set (sv_owners sv) \<and>
    claim_client_command_id b now (Some i) (other # others) (sv_table sv) = (Inr (Replay e q), sv_table sv))"
proof -
  have ok: "service_ok b sv" by (rule service_reach_ok [OF assms(2,1)])
  have "i \<notin> set (sv_owners sv) \<and> lookup_processed b (sv_table sv) i = Some (e, q)" if d: "(i, e, q) \<in> set (sv_done sv)" for i e q
  proof -
    have keys: "distinct (sv_owners sv @ sv_stuck sv @ map fst (sv_done sv))" "i \<in> set (map fst (sv_done sv))"
      using ok image_eqI [OF _ d, of i fst] by (simp_all add: service_ok_def)
    then have free: "i \<notin> set (sv_owners sv) \<union> set (sv_stuck sv)" by auto
    have "map_of (sv_done sv) i = Some (e, q)" using keys(1) d by simp
    then have "row_of (sv_table sv) i = Some (e, q)" using ok free by (simp add: service_ok_def)
    moreover have "e \<noteq> reserved_event_id" "0 < q" using ok d by (auto simp: service_ok_def)
    ultimately show ?thesis using ok free lookup_row [of b "sv_table sv" i] by (simp add: service_ok_def)
  qed
  then show ?thesis using ok by (cases other) (auto simp: service_ok_def claim_client_command_id_def)
qed

text \<open>Other requests that leave the row of an id alone.\<close>

definition keeps_row :: "'f bloom \<Rightarrow> uuid \<Rightarrow> ('f idempotency \<Rightarrow> 'f idempotency) \<Rightarrow> bool" where
  "keeps_row b i f \<longleftrightarrow> (\<forall>s. idempotency_ok b s \<longrightarrow> idempotency_ok b (f s) \<and> row_of (f s) i = row_of s i)"

lemma reserved_claim_fails:
  assumes "bloom_ok b" "idempotency_ok b s" "row_of s i = Some (reserved_event_id, 0)"
    "list_all (\<lambda>(f, g). keeps_row b i f \<and> keeps_row b i g) others"
  shows "fst (claim_polls b now i others s) = Inl (Conflict ''client_command_id_in_flight: '')"
  using assms(2-4)
proof (induction others arbitrary: s)
  case (Cons fg others)
  obtain f g where fg: "fg = (f, g)" by (rule prod.exhaust)
  obtain won s' where r: "reserve_command b now i (f s) = (won, s')" by (rule prod.exhaust)
  have f: "idempotency_ok b (f s)" "row_of (f s) i = Some (reserved_event_id, 0)"
    using Cons.prems fg by (simp_all add: keeps_row_def)
  have "lookup_processed b s i = None" using lookup_row [OF Cons.prems(1), of i] Cons.prems(2) by simp
  moreover have s': "\<not> won" "row_of s' i = Some (reserved_event_id, 0)" "idempotency_ok b s'"
    using row_of_reserve [OF r] f reserve_table_ok [OF assms(1) f(1) r] by auto
  moreover have "idempotency_ok b (g s')" "row_of (g s') i = Some (reserved_event_id, 0)"
    using Cons.prems(3) fg s' by (simp_all add: keeps_row_def)
  ultimately show ?case using Cons.IH r Cons.prems(3) fg by simp
qed simp

lemma reserved_frame_fails:
  assumes "idempotency_ok b s" "row_of s i = Some (reserved_event_id, 0)" "list_all (keeps_row b i) others"
  shows "fst (ws_polls b i others s) = ReservationFailed"
  using assms
proof (induction others arbitrary: s)
  case (Cons f others)
  then have f: "idempotency_ok b (f s)" "row_of (f s) i = Some (reserved_event_id, 0)" by (simp_all add: keeps_row_def)
  then show ?case using Cons lookup_row [OF f(1), of i] by simp
qed simp

lemma list_all_take: "list_all P xs \<Longrightarrow> list_all P (take n xs)"
  by (auto simp: list_all_iff dest: in_set_takeD)

text \<open>
  C13: a command that fails over a web socket cannot be retried. Its id stays reserved, so while no other request
  touches its row every later request with the id is refused as in flight, over the web socket and over HTTP.
  Over HTTP the settlement of a failed command frees the id.
\<close>

theorem ws_failure_blocks_retry:
  assumes "bloom_ok b" "idempotency_ok b s" "reserve_or_ack_cached b now i waited s = (Fresh, s1)" "ws_settle Fresh i None s1 = s2"
    and "list_all (\<lambda>(f, g). keeps_row b i f \<and> keeps_row b i g) http" "list_all (keeps_row b i) frames"
  shows "fst (claim_client_command_id b later (Some i) http s2) = Inl (Conflict ''client_command_id_in_flight: '') \<and>
    fst (reserve_or_ack_cached b later i frames s2) = ReservationFailed \<and>
    row_of (settle_client_command_id True (Owned i) None s1) i = None"
proof -
  have polls: "ws_polls b i others t \<noteq> (Fresh, s1)" for others t
    by (induction b i others t rule: ws_polls.induct) (auto split: option.splits)
  have r: "reserve_command b now i s = (True, s1)" and s2: "s2 = s1"
    using assms(3,4) polls by (auto simp: reserve_or_ack_cached_def ws_settle_def split: option.splits prod.splits bool.splits)
  have ok: "idempotency_ok b s1" using reserve_table_ok [OF assms(1,2) r] .
  have row: "row_of s1 i = Some (reserved_event_id, 0)" using row_of_reserve(2) [OF r, of i] by simp
  obtain won t where again: "reserve_command b later i s1 = (won, t)" by (rule prod.exhaust)
  have t: "\<not> won" "row_of t i = Some (reserved_event_id, 0)" "idempotency_ok b t"
    using row_of_reserve [OF again] row reserve_table_ok [OF assms(1) ok again] by auto
  have "lookup_processed b s1 i = None" using lookup_row [OF ok, of i] row by simp
  then have "fst (reserve_or_ack_cached b later i frames s1) = ReservationFailed"
    using again t reserved_frame_fails [OF t(3,2) list_all_take [OF assms(6)]] by (simp add: reserve_or_ack_cached_def)
  moreover have "fst (claim_client_command_id b later (Some i) http s1) = Inl (Conflict ''client_command_id_in_flight: '')"
    using reserved_claim_fails [OF assms(1) ok row list_all_take [OF assms(5)]] by (simp add: claim_client_command_id_def)
  moreover have "row_of (settle_client_command_id True (Owned i) None s1) i = None"
    using row_of_release [OF ok, of i i] row by (simp add: settle_client_command_id_def)
  ultimately show ?thesis using s2 by simp
qed

subsection \<open>Examples\<close>

text \<open>An exact filter keeps the ids themselves.\<close>

definition list_bloom :: "uuid list bloom" where
  "list_bloom = \<lparr>bl_empty = [], bl_insert = (#), bl_contains = (\<lambda>i f. i \<in> set f)\<rparr>"

lemma list_bloom_ok: "bloom_ok list_bloom"
  by (simp add: bloom_ok_def list_bloom_def)

definition demo_table :: "uuid list idempotency" where
  "demo_table = snd (reserve_command list_bloom 10 7 (idempotency_new list_bloom []))"

lemma demo_reserve: "reserve_command list_bloom 10 7 (idempotency_new list_bloom []) = (True, demo_table)"
  unfolding demo_table_def by (simp add: reserve_command_def insert_or_ignore_def idempotency_new_def)

lemma demo_service: "service_reach list_bloom
  \<lparr>sv_table = settle_client_command_id True (Owned 7) (Some (99, 4)) demo_table, sv_owners = [], sv_done = [(7, 99, 4)], sv_stuck = []\<rparr>"
  using service_reach.complete [OF service_reach.reserve [OF service_reach.start, of list_bloom 10 7 True demo_table], of 7 99 4]
    demo_reserve by (simp add: reserved_event_id_def)

theorem command_runs_once_per_id_witness:
  "claim_client_command_id list_bloom 12 (Some 7) [(id, id)]
     (settle_client_command_id True (Owned 7) (Some (99, 4)) demo_table) =
   (Inr (Replay 99 4), settle_client_command_id True (Owned 7) (Some (99, 4)) demo_table)"
  using command_runs_once_per_id [OF list_bloom_ok demo_service, of 12 "(id, id)" "[]"] by simp

theorem ws_failure_blocks_retry_witness:
  "fst (claim_client_command_id list_bloom 12 (Some 7) [(id, id), (id, id)] demo_table) =
     Inl (Conflict ''client_command_id_in_flight: '') \<and>
   fst (reserve_or_ack_cached list_bloom 12 7 [id, id] demo_table) = ReservationFailed"
proof -
  have "idempotency_ok list_bloom (idempotency_new list_bloom [])"
    by (simp add: idempotency_ok_def idempotency_new_def keys_distinct_def)
  moreover have "reserve_or_ack_cached list_bloom 10 7 [] (idempotency_new list_bloom []) = (Fresh, demo_table)"
    unfolding reserve_or_ack_cached_def demo_reserve by (simp add: lookup_processed_def idempotency_new_def list_bloom_def)
  moreover have "ws_settle Fresh 7 None demo_table = demo_table" by (simp add: ws_settle_def)
  ultimately show ?thesis
    using ws_failure_blocks_retry [OF list_bloom_ok, of _ 10 7 "[]" demo_table demo_table "[(id, id), (id, id)]" "[id, id]" 12]
    by (simp add: keeps_row_def)
qed

end
