(* ===== verification/Conflict.thy ===== *)
theory Conflict
  imports Events "HOL-Library.Product_Lexorder" "HOL-Library.Multiset"
begin

text \<open>
  \<^verbatim>\<open>crates/core/src/conflict.rs\<close>: the pure conflict resolution of the multi-device merge. A delete beats
  anything else, then a transition to done beats other operations, then the last write wins with the
  event id as a tie-break.

  The locale \<open>pairwise_merge\<close> is the contract a merge of two records has to meet so that merging a whole
  set of concurrent records gives the same winner on every device, whatever the order of arrival; the
  interpretation \<open>conflict\<close> discharges it for \<^verbatim>\<open>resolve_conflict\<close>.
\<close>

subsection \<open>Records and decisions\<close>

datatype conflict_op = OpCreate | OpUpdate | OpDelete | OpStatus status

record conflict_record =
  cr_event_id :: uuid
  cr_occurred_at :: timestamp
  cr_op :: conflict_op
  cr_diff :: json

datatype conflict_reason = DeleteWins | DoneMonotone | LastWriteWins

fun conflict_reason_as_str :: "conflict_reason \<Rightarrow> string" where
  "conflict_reason_as_str DeleteWins = ''delete_wins''"
| "conflict_reason_as_str DoneMonotone = ''done_monotone''"
| "conflict_reason_as_str LastWriteWins = ''last_write_wins''"

record conflict_decision =
  cd_winner_event_id :: uuid
  cd_loser_event_id :: uuid
  cd_reason :: conflict_reason
  cd_resolved_event :: event

definition is_delete :: "conflict_op \<Rightarrow> bool" where
  "is_delete operation \<longleftrightarrow> operation = OpDelete"

definition is_done_status :: "conflict_op \<Rightarrow> bool" where
  "is_done_status operation \<longleftrightarrow> operation = OpStatus Done"

datatype ordering = OrdLess | OrdEqual | OrdGreater

definition cmp_of :: "'a :: linorder \<Rightarrow> 'a \<Rightarrow> ordering" where
  "cmp_of x y = (if x < y then OrdLess else if x = y then OrdEqual else OrdGreater)"

definition compare_lww :: "conflict_record \<Rightarrow> conflict_record \<Rightarrow> ordering" where
  "compare_lww a b =
     (case cmp_of (cr_occurred_at a) (cr_occurred_at b) of
        OrdEqual \<Rightarrow> cmp_of (cr_event_id a) (cr_event_id b)
      | ord \<Rightarrow> ord)"

definition conflict_parts ::
  "conflict_record \<Rightarrow> conflict_record \<Rightarrow> conflict_record \<times> conflict_record \<times> conflict_reason" where
  "conflict_parts a b =
     (if is_delete (cr_op a) \<noteq> is_delete (cr_op b)
      then if is_delete (cr_op a) then (a, b, DeleteWins) else (b, a, DeleteWins)
      else if is_done_status (cr_op a) \<noteq> is_done_status (cr_op b)
      then if is_done_status (cr_op a) then (a, b, DoneMonotone) else (b, a, DoneMonotone)
      else if compare_lww a b \<noteq> OrdLess then (a, b, LastWriteWins)
      else (b, a, LastWriteWins))"

definition resolve_conflict :: "conflict_record \<Rightarrow> conflict_record \<Rightarrow> conflict_decision" where
  "resolve_conflict a b =
     (let (winner, loser, reason) = conflict_parts a b in
      \<lparr>cd_winner_event_id = cr_event_id winner, cd_loser_event_id = cr_event_id loser, cd_reason = reason,
       cd_resolved_event = TaskEv (ConflictResolved (cr_event_id winner) (cr_event_id loser)
         (conflict_reason_as_str reason) (cr_diff loser))\<rparr>)"

definition conflict_winner :: "conflict_record \<Rightarrow> conflict_record \<Rightarrow> conflict_record" where
  "conflict_winner a b = fst (conflict_parts a b)"

subsection \<open>Merging many records\<close>

locale pairwise_merge =
  fixes pick :: "'r \<Rightarrow> 'r \<Rightarrow> 'r" and rank :: "'r \<Rightarrow> 'k :: linorder"
  assumes pick_mem: "pick a b \<in> {a, b}"
    and pick_rank: "rank (pick a b) = max (rank a) (rank b)"
begin

lemma fold_pick_mem: "fold pick xs a \<in> insert a (set xs)"
proof (induction xs arbitrary: a)
  case (Cons x xs)
  show ?case using Cons [of "pick x a"] pick_mem [of x a] by auto
qed simp

lemma fold_pick_rank: "rank (fold pick xs a) = Max (rank ` insert a (set xs))"
proof (induction xs arbitrary: a)
  case (Cons x xs)
  show ?case
  proof (cases "xs = []")
    case False
    then have "rank (fold pick xs (pick x a)) = max (rank (pick x a)) (Max (rank ` set xs))"
      using Cons [of "pick x a"] by simp
    then show ?thesis using False by (simp add: pick_rank ac_simps)
  qed (simp add: pick_rank max.commute)
qed simp

lemma fold_pick_perm:
  assumes perm: "mset (a # xs) = mset (b # ys)" and inj: "inj_on rank (insert a (set xs))"
  shows "fold pick xs a = fold pick ys b"
proof -
  have same: "insert a (set xs) = insert b (set ys)" using perm by (metis list.simps(15) set_mset_mset)
  then have "rank (fold pick xs a) = rank (fold pick ys b)" by (simp only: fold_pick_rank)
  then show ?thesis using inj fold_pick_mem [of xs a] fold_pick_mem [of ys b] same by (metis inj_onD)
qed

end

definition conflict_rank :: "conflict_record \<Rightarrow> bool \<times> bool \<times> timestamp \<times> uuid" where
  "conflict_rank r = (is_delete (cr_op r), is_done_status (cr_op r), cr_occurred_at r, cr_event_id r)"

lemma conflict_winner_rank:
  "conflict_rank (conflict_winner a b) = max (conflict_rank a) (conflict_rank b)"
  by (auto simp: conflict_winner_def conflict_parts_def conflict_rank_def compare_lww_def cmp_of_def max_def
      less_eq_prod_def less_prod_def)

interpretation conflict: pairwise_merge conflict_winner conflict_rank
  by unfold_locales (auto simp: conflict_winner_rank, auto simp: conflict_winner_def conflict_parts_def)

lemma conflict_rank_inj:
  "distinct (map cr_event_id xs) \<Longrightarrow> inj_on conflict_rank (set xs)"
  by (auto simp: conflict_rank_def inj_on_def distinct_map)

subsection \<open>Properties\<close>

text \<open>
  Conflict resolution does not depend on which device sees which record first: for two records of
  distinct events the whole decision (winner, loser, reason and the recorded event) is the same in
  either order.
\<close>

theorem resolve_conflict_commutes:
  assumes "cr_event_id a \<noteq> cr_event_id b"
  shows "resolve_conflict a b = resolve_conflict b a"
proof -
  have "conflict_parts a b = conflict_parts b a"
    using assms by (auto simp: conflict_parts_def compare_lww_def cmp_of_def)
  then show ?thesis by (simp add: resolve_conflict_def)
qed

definition demo_record :: "uuid \<Rightarrow> timestamp \<Rightarrow> conflict_op \<Rightarrow> conflict_record" where
  "demo_record i at p = \<lparr>cr_event_id = i, cr_occurred_at = at, cr_op = p, cr_diff = JNull\<rparr>"

theorem resolve_conflict_commutes_witness:
  "resolve_conflict (demo_record 1 50 OpUpdate) (demo_record 2 10 OpDelete) =
   resolve_conflict (demo_record 2 10 OpDelete) (demo_record 1 50 OpUpdate) \<and>
   cd_winner_event_id (resolve_conflict (demo_record 1 50 OpUpdate) (demo_record 2 10 OpDelete)) = 2"
  using resolve_conflict_commutes [of "demo_record 1 50 OpUpdate" "demo_record 2 10 OpDelete"]
  by (simp add: demo_record_def resolve_conflict_def conflict_parts_def is_delete_def)

text \<open>
  C32: replicas converge. Resolving any number of records of distinct events pair by pair leaves the same
  winner for every order of arrival.
\<close>

theorem conflict_merge_converges:
  assumes "mset (a # xs) = mset (b # ys)" and "distinct (map cr_event_id (a # xs))"
  shows "fold conflict_winner xs a = fold conflict_winner ys b"
  using conflict.fold_pick_perm [OF assms(1)] conflict_rank_inj [OF assms(2)] by simp

theorem conflict_merge_converges_witness:
  "fold conflict_winner [demo_record 2 10 (OpStatus Done), demo_record 3 90 OpUpdate] (demo_record 1 50 OpUpdate) =
   fold conflict_winner [demo_record 1 50 OpUpdate, demo_record 2 10 (OpStatus Done)] (demo_record 3 90 OpUpdate) \<and>
   fold conflict_winner [demo_record 2 10 (OpStatus Done), demo_record 3 90 OpUpdate] (demo_record 1 50 OpUpdate) =
     demo_record 2 10 (OpStatus Done)"
proof -
  let ?a = "demo_record 1 50 OpUpdate" and ?b = "demo_record 2 10 (OpStatus Done)" and ?c = "demo_record 3 90 OpUpdate"
  have "mset (?a # [?b, ?c]) = mset (?c # [?a, ?b])" by simp
  moreover have "distinct (map cr_event_id (?a # [?b, ?c]))" by (simp add: demo_record_def)
  ultimately show ?thesis using conflict_merge_converges
    by (simp add: demo_record_def conflict_winner_def conflict_parts_def is_delete_def is_done_status_def)
qed

text \<open>
  The precedence of the three rules. The winner is never a plain write against a delete, nor an
  older write against a newer one of the same weight; a done transition loses only to a delete or to a
  later done transition.
\<close>

theorem conflict_precedence:
  assumes "w = conflict_winner a b"
  shows "(is_delete (cr_op a) \<or> is_delete (cr_op b) \<longrightarrow> is_delete (cr_op w)) \<and>
    (\<not> is_delete (cr_op a) \<and> \<not> is_delete (cr_op b) \<and> (is_done_status (cr_op a) \<or> is_done_status (cr_op b)) \<longrightarrow>
       is_done_status (cr_op w)) \<and>
    (is_delete (cr_op a) = is_delete (cr_op b) \<and> is_done_status (cr_op a) = is_done_status (cr_op b) \<longrightarrow>
       cr_occurred_at w = max (cr_occurred_at a) (cr_occurred_at b))"
  using assms by (auto simp: conflict_winner_def conflict_parts_def compare_lww_def cmp_of_def)

theorem conflict_precedence_witness:
  "is_done_status (cr_op (conflict_winner (demo_record 1 50 OpUpdate) (demo_record 2 10 (OpStatus Done))))"
  using conflict_precedence [OF refl, of "demo_record 1 50 OpUpdate" "demo_record 2 10 (OpStatus Done)"]
  by (simp add: demo_record_def is_delete_def is_done_status_def)

end
