(* ===== verification/Rule_Engine.thy ===== *)
theory Rule_Engine
  imports Lifecycle_Gate Rule_Store Evidence_Store Shared_Ids
begin

text \<open>
  The rule engine \<^verbatim>\<open>crates/core/src/rule_engine.rs\<close>: the lifecycle gate over the stored rules and the recorded
  evidence. For one check it builds the scope chains (one per plan the entity belongs to), takes the effective
  rules of each chain, matches their conditions, asks whether each requirement is met, and turns what is left
  into a decision: a required rule blocks unless it is overridden, a recommendation warns.

  An \<open>engine\<close> holds the tables the gate reads. JSON objects are lists of fields; \<^verbatim>\<open>serde_json\<close> gives no meaning to
  their order.
\<close>

record engine =
  eg_rules :: rule_table
  eg_evidence :: "(evidence_table \<times> version_table) option"
  eg_tasks :: task_store
  eg_plans :: plan_store
  eg_runs :: run_store
  eg_documents :: document_table
  eg_codec :: codec

subsection \<open>Requirements\<close>

definition some_fields :: "string list \<Rightarrow> string list option" where
  "some_fields fs = (if fs = [] then None else Some fs)"

fun requirement_evidence ::
  "requirement \<Rightarrow> evidence_kind \<times> string option \<times> string list option \<times> string option" where
  "requirement_evidence (ReadArtifact doc_ref min_version) = (DocumentReadAck, Some doc_ref, None, Some min_version)"
| "requirement_evidence (IndependentTestVerification _ source_revision) =
     (ArtifactCreatedEv, Some (''test-verification:'' @ source_revision), None, None)"
| "requirement_evidence (CreateArtifact kind) = (ArtifactCreatedEv, Some kind, None, None)"
| "requirement_evidence (ImpactCheck target fs) = (ImpactAssessment, Some target, some_fields fs, None)"
| "requirement_evidence (DecisionRecord fs) = (DecisionRecordEv, None, some_fields fs, None)"
| "requirement_evidence (CompletionNoteReq fs) = (CompletionNoteEv, None, some_fields fs, None)"
| "requirement_evidence OwnerRequired = (OwnerAssigned, None, None, None)"
| "requirement_evidence DocumentLinked = (ArtifactCreatedEv, None, None, None)"
| "requirement_evidence (WipLimit _) = (ArtifactCreatedEv, None, None, None)"
| "requirement_evidence AcceptanceCriteriaRequired = (AcceptanceCriteriaDefined, None, None, None)"
| "requirement_evidence (RiskCheck target fs) = (RiskCheckCompleted, Some target, some_fields fs, None)"

text \<open>\<^verbatim>\<open>chain.last()\<close>, when it is a task.\<close>

definition last_task :: "rule_scope list \<Rightarrow> uuid option" where
  "last_task chain = (if chain = [] then None else case last chain of ScopeTask i \<Rightarrow> Some i | _ \<Rightarrow> None)"

definition check_or :: "bool \<Rightarrow> string \<Rightarrow> evidence_check" where
  "check_or satisfied reason = \<lparr>ec_satisfied = satisfied, ec_reason = (if satisfied then None else Some reason)\<rparr>"

definition valid_revision :: "string \<Rightarrow> bool" where
  "valid_revision source_revision \<longleftrightarrow> (length source_revision = 40 \<or> length source_revision = 64) \<and> list_all is_ascii_hexdigit source_revision"

definition requirement_satisfied :: "engine \<Rightarrow> rule \<Rightarrow> rule_scope list \<Rightarrow> evidence_check" where
  "requirement_satisfied eng r chain =
     (case eg_evidence eng of
        None \<Rightarrow> evidence_check_default
      | Some (es, vs) \<Rightarrow>
          (case ru_requirement r of
             IndependentTestVerification executor source_revision \<Rightarrow>
               check_or
                 (valid_revision source_revision \<and>
                  (case last_task chain of Some i \<Rightarrow> has_independent_test_verification es i executor source_revision | None \<Rightarrow> False))
                 (''requires a live passing test attestation for this task and pinned revision from an '' @
                  ''authenticated actor other than executor_id'')
           | DocumentLinked \<Rightarrow>
               check_or (case last_task chain of Some i \<Rightarrow> task_has_live_document (eg_documents eng) i | None \<Rightarrow> False)
                 ''requires at least one non-archived document linked to this task''
           | req \<Rightarrow>
               (case requirement_evidence req of
                  (kind, target, fs, min_version) \<Rightarrow> has_live_evidence es vs chain kind target fs min_version)))"

subsection \<open>wip\_limit\<close>

definition leaves_batch :: "gate_check \<Rightarrow> uuid \<Rightarrow> bool" where
  "leaves_batch check i = list_ex (\<lambda>(t, st). t = i \<and> st \<noteq> InProgress) (gc_pending_statuses check)"

definition in_rule_scope :: "engine \<Rightarrow> rule_scope \<Rightarrow> uuid \<Rightarrow> bool" where
  "in_rule_scope eng sc t =
     (case sc of
        ScopeTenant \<Rightarrow> True
      | ScopeProject i \<Rightarrow> (case task_context (eg_tasks eng) t of Some (Some p, _) \<Rightarrow> p = i | _ \<Rightarrow> False)
      | ScopePlan i \<Rightarrow> i \<in> set (task_plan_ids (eg_plans eng) t)
      | ScopeTask _ \<Rightarrow> False)"

definition occupy :: "engine \<Rightarrow> rule_scope \<Rightarrow> gate_check \<Rightarrow> uuid \<times> status \<Rightarrow> uuid list \<Rightarrow> uuid list" where
  "occupy eng sc check p occupied =
     (case p of (t, st) \<Rightarrow>
        if st \<noteq> InProgress \<or> Some t = gc_task_id check \<or> t \<in> set occupied then occupied
        else if in_rule_scope eng sc t then occupied @ [t] else occupied)"

definition wip_occupied :: "engine \<Rightarrow> rule_scope \<Rightarrow> gate_check \<Rightarrow> uuid list" where
  "wip_occupied eng sc check =
     fold (occupy eng sc check) (gc_pending_statuses check)
       (filter (\<lambda>i. Some i \<noteq> gc_task_id check \<and> \<not> leaves_batch check i)
          (in_progress_task_ids (eg_tasks eng) (eg_plans eng) sc))"

subsection \<open>Scope chains\<close>

definition ancestry_parent :: "plan_store \<Rightarrow> (uuid \<times> uuid option) list \<Rightarrow> uuid \<Rightarrow> uuid option" where
  "ancestry_parent ps staged p =
     (case map_of staged p of
        Some parent \<Rightarrow> parent
      | None \<Rightarrow> (case plan_parent_id ps p of Some parent \<Rightarrow> parent | None \<Rightarrow> None))"

definition known_parents :: "plan_store \<Rightarrow> (uuid \<times> uuid option) list \<Rightarrow> uuid set" where
  "known_parents ps staged = {q. Some q \<in> snd ` set staged} \<union> {q. \<exists>p \<in> set (ps_plans ps). pl_parent_plan_id p = Some q}"

lemma finite_known_parents [simp]: "finite (known_parents ps staged)"
proof -
  have "known_parents ps staged \<subseteq> the ` (snd ` set staged \<union> pl_parent_plan_id ` set (ps_plans ps))"
    by (force simp: known_parents_def image_iff)
  then show ?thesis by (rule finite_subset) simp
qed

lemma ancestry_parent_known: "ancestry_parent ps staged p = Some q \<Longrightarrow> q \<in> known_parents ps staged"
  by (auto simp: ancestry_parent_def known_parents_def plan_parent_id_def plan_get_def
      dest!: row_get_Some map_of_SomeD split: option.splits) force

function ancestry_walk :: "plan_store \<Rightarrow> (uuid \<times> uuid option) list \<Rightarrow> uuid list \<Rightarrow> uuid \<Rightarrow> uuid list result" where
  "ancestry_walk ps staged path p =
     (case ancestry_parent ps staged p of
        None \<Rightarrow> Inr (rev path)
      | Some q \<Rightarrow>
          if q \<in> set path then Inl (Conflict ''cyclic plan scope ancestry at plan '')
          else ancestry_walk ps staged (path @ [q]) q)"
  by auto
termination
proof (relation "measure (\<lambda>(ps, staged, path, p). card (known_parents ps staged - set path))")
  fix ps staged path p q
  assume "ancestry_parent ps staged p = Some q" "q \<notin> set path"
  then have "known_parents ps staged - set (path @ [q]) \<subset> known_parents ps staged - set path"
    using ancestry_parent_known by auto
  then show "((ps, staged, path @ [q], q), ps, staged, path, p)
      \<in> measure (\<lambda>(ps, staged, path, p). card (known_parents ps staged - set path))"
    by (simp add: psubset_card_mono)
qed simp

declare ancestry_walk.simps [simp del]

definition plan_ancestry :: "plan_store \<Rightarrow> uuid \<Rightarrow> (uuid \<times> uuid option) list \<Rightarrow> uuid list result" where
  "plan_ancestry ps p staged = ancestry_walk ps staged [p] p"

definition scope_chain :: "gate_check \<Rightarrow> uuid list \<Rightarrow> rule_scope list" where
  "scope_chain check plans =
     ScopeTenant # (case gc_project_id check of Some i \<Rightarrow> [ScopeProject i] | None \<Rightarrow> []) @
     map ScopePlan plans @ (case gc_task_id check of Some i \<Rightarrow> [ScopeTask i] | None \<Rightarrow> [])"

definition check_plans :: "engine \<Rightarrow> gate_check \<Rightarrow> uuid list" where
  "check_plans eng check = remdups_adj (sort
     (case gc_plan_id check of
        Some i \<Rightarrow> [i]
      | None \<Rightarrow>
          (case gc_task_id check of
             Some i \<Rightarrow> gc_pending_plan_ids check @ task_plan_ids (eg_plans eng) i
           | None \<Rightarrow>
               (case gc_run_id check of
                  Some i \<Rightarrow> (case run_plan_id (eg_runs eng) i of Some p \<Rightarrow> [p] | None \<Rightarrow> [])
                | None \<Rightarrow> []))))"

fun plan_chains :: "engine \<Rightarrow> gate_check \<Rightarrow> uuid list \<Rightarrow> rule_scope list list result" where
  "plan_chains eng check [] = Inr []"
| "plan_chains eng check (p # plans) =
     bind_result (plan_ancestry (eg_plans eng) p (gc_pending_plans check)) (\<lambda>ancestry.
     bind_result (plan_chains eng check plans) (\<lambda>branches.
     Inr (scope_chain check ancestry # branches)))"

definition scope_chains :: "engine \<Rightarrow> gate_check \<Rightarrow> rule_scope list list result" where
  "scope_chains eng check =
     (let plans = check_plans eng check in
      if plans = [] then Inr [scope_chain check []] else plan_chains eng check plans)"

subsection \<open>Conditions\<close>

fun map_trigger :: "trigger_event \<Rightarrow> rule_trigger" where
  "map_trigger TrigProjectCreated = TrProjectCreated"
| "map_trigger TrigPlanCreated = TrPlanCreated"
| "map_trigger TrigPlanBeforeApprove = TrPlanBeforeApprove"
| "map_trigger TrigTaskCreated = TrTaskCreated"
| "map_trigger TrigTaskBeforeStart = TrTaskBeforeStart"
| "map_trigger TrigTaskBeforeComplete = TrTaskBeforeComplete"
| "map_trigger TrigRunBeforeExecute = TrRunBeforeExecute"
| "map_trigger TrigRunBeforeComplete = TrRunBeforeComplete"
| "map_trigger TrigDocumentCreated = TrDocumentCreated"
| "map_trigger TrigTaskHandoff = TrTaskHandoff"

definition status_allowed :: "status list option \<Rightarrow> status option \<Rightarrow> bool" where
  "status_allowed allowed st =
     (case allowed of None \<Rightarrow> True | Some sts \<Rightarrow> (case st of Some s \<Rightarrow> s \<in> set sts | None \<Rightarrow> False))"

definition condition_matches :: "condition option \<Rightarrow> gate_check \<Rightarrow> bool" where
  "condition_matches cond check =
     (case cond of
        None \<Rightarrow> True
      | Some c \<Rightarrow>
          if condition_is_empty c then True
          else if \<not> status_allowed (cond_status_from c) (gc_status_from check) then False
          else if \<not> status_allowed (cond_status_to c) (gc_status_to check) then False
          else (case cond_title_prefix c of
                  None \<Rightarrow> True
                | Some prefixes \<Rightarrow>
                    (case gc_task_title check of
                       Some title \<Rightarrow> list_ex (\<lambda>p. starts_with p title) prefixes
                     | None \<Rightarrow> False)))"

text \<open>The check with the project and title of the persisted task filled in.\<close>

definition resolve_check :: "engine \<Rightarrow> gate_check \<Rightarrow> gate_check" where
  "resolve_check eng check =
     (case gc_task_id check of
        Some t \<Rightarrow>
          if gc_project_id check = None \<or> gc_task_title check = None
          then (case task_context (eg_tasks eng) t of
                  Some (project, title) \<Rightarrow>
                    check\<lparr>gc_project_id := or_opt (gc_project_id check) project,
                          gc_task_title := Some (unwrap_or title (gc_task_title check))\<rparr>
                | None \<Rightarrow> check)
          else check
      | None \<Rightarrow> check)"

subsection \<open>Messages and details\<close>

definition warn_message :: "rule \<Rightarrow> string" where
  "warn_message r =
     (if trim (ru_message r) = []
      then ''rule `'' @ ru_rule_key r @ ''` requires `'' @ requirement_type_str (ru_requirement r) @ ''`''
      else ru_message r)"

fun join_comma :: "string list \<Rightarrow> string" where
  "join_comma [] = []"
| "join_comma [s] = s"
| "join_comma (s # ss) = s @ '', '' @ join_comma ss"

definition blocked_message :: "rule list \<Rightarrow> string" where
  "blocked_message blocked =
     (case blocked of
        [r] \<Rightarrow> warn_message r
      | _ \<Rightarrow> show_nat (length blocked) @ '' rules block this transition: '' @ join_comma (map ru_rule_key blocked))"

text \<open>The serde form of a requirement (tagged by \<^verbatim>\<open>type\<close>) and of a scope (tagged by \<^verbatim>\<open>kind\<close>).\<close>

definition requirement_json :: "codec \<Rightarrow> requirement \<Rightarrow> json" where
  "requirement_json cd req = JObject ((''type'', JString (requirement_type_str req)) #
     (case req of
        ReadArtifact doc_ref min_version \<Rightarrow> [(''doc_ref'', JString doc_ref), (''min_version'', JString min_version)]
      | CreateArtifact kind \<Rightarrow> [(''artifact_kind'', JString kind)]
      | ImpactCheck target fs \<Rightarrow> [(''target'', JString target), (''required_fields'', json_strings fs)]
      | DecisionRecord fs \<Rightarrow> [(''required_fields'', json_strings fs)]
      | CompletionNoteReq fs \<Rightarrow> [(''required_fields'', json_strings fs)]
      | IndependentTestVerification executor source_revision \<Rightarrow>
          [(''executor_id'', JString (cd_uuid_show cd executor)), (''source_revision'', JString source_revision)]
      | RiskCheck target fs \<Rightarrow> [(''target'', JString target), (''required_fields'', json_strings fs)]
      | WipLimit m \<Rightarrow> [(''max_in_progress'', JNum (uint m))]
      | _ \<Rightarrow> []))"

definition rule_scope_json :: "codec \<Rightarrow> rule_scope \<Rightarrow> json" where
  "rule_scope_json cd sc = JObject ((''kind'', JString (rule_scope_kind sc)) #
     (case sc of
        ScopeTenant \<Rightarrow> []
      | ScopeProject i \<Rightarrow> [(''id'', JString (cd_uuid_show cd i))]
      | ScopePlan i \<Rightarrow> [(''id'', JString (cd_uuid_show cd i))]
      | ScopeTask i \<Rightarrow> [(''id'', JString (cd_uuid_show cd i))]))"

definition ids_json :: "codec \<Rightarrow> uuid list \<Rightarrow> json" where
  "ids_json cd is = json_strings (map (cd_uuid_show cd) is)"

text \<open>\<^verbatim>\<open>value[key] = v\<close> on an object.\<close>

definition json_set :: "string \<Rightarrow> json \<Rightarrow> json \<Rightarrow> json" where
  "json_set k v j = (case j of JObject kvs \<Rightarrow> JObject (AList.update k v kvs) | _ \<Rightarrow> j)"

definition rule_warning :: "codec \<Rightarrow> rule \<Rightarrow> mutation_warning" where
  "rule_warning cd r =
     \<lparr>mw_code = ''rule_warning:'' @ ru_rule_key r, mw_message = warn_message r,
      mw_details = JObject
        [(''rule_id'', JString (id_display cd ''rule'' (ru_id r))), (''rule_key'', JString (ru_rule_key r)),
         (''requirement'', requirement_json cd (ru_requirement r))]\<rparr>"

definition rule_outcome :: "codec \<Rightarrow> rule \<Rightarrow> string \<Rightarrow> string option \<Rightarrow> json" where
  "rule_outcome cd r decision reason =
     (let outcome = JObject
        [(''rule_id'', JString (id_display cd ''rule'' (ru_id r))), (''rule_key'', JString (ru_rule_key r)),
         (''decision'', JString decision), (''message'', JString (warn_message r)),
         (''requirement'', requirement_json cd (ru_requirement r))]
      in case reason of Some t \<Rightarrow> json_set ''reason'' (JString t) outcome | None \<Rightarrow> outcome)"

fun reach_str :: "evidence_reach \<Rightarrow> string" where
  "reach_str SelfOnly = ''self_only''"
| "reach_str ReachPlan = ''plan''"
| "reach_str ReachProject = ''project''"
| "reach_str ReachTenant = ''tenant''"

subsection \<open>Unblock hints\<close>

definition creates_innermost :: "trigger_event \<Rightarrow> bool" where
  "creates_innermost trigger \<longleftrightarrow>
     trigger = TrigProjectCreated \<or> trigger = TrigPlanCreated \<or> trigger = TrigTaskCreated"

definition is_staged :: "(uuid \<times> uuid option) list \<Rightarrow> rule_scope \<Rightarrow> bool" where
  "is_staged staged sc = (case sc of ScopePlan i \<Rightarrow> list_ex (\<lambda>(p, _). p = i) staged | _ \<Rightarrow> False)"

text \<open>The scope the evidence should be recorded at: the innermost persisted one within reach.\<close>

definition advised_scope ::
  "evidence_reach \<Rightarrow> rule_scope list \<Rightarrow> trigger_event \<Rightarrow> (uuid \<times> uuid option) list \<Rightarrow> rule_scope option" where
  "advised_scope reach chain trigger staged =
     (let start = (if reach = SelfOnly then length chain - 1
                   else unwrap_or (length chain - 1) (position_of (\<lambda>s. reach_ceiling reach \<le> scope_rank s) chain));
          stop = min (if creates_innermost trigger then length chain - 1 else length chain)
                     (unwrap_or (length chain) (position_of (is_staged staged) chain));
          slice = take (stop - start) (drop start chain)
      in if start \<le> stop \<and> slice \<noteq> [] then Some (last slice) else None)"

definition unblock_hint ::
  "codec \<Rightarrow> rule \<Rightarrow> rule_scope list \<Rightarrow> trigger_event \<Rightarrow> (uuid \<times> uuid option) list \<Rightarrow> uuid list \<Rightarrow> json" where
  "unblock_hint cd r chain trigger staged occupied =
     (case requirement_evidence (ru_requirement r) of (kind, target, _, _) \<Rightarrow>
      case ru_requirement r of
        IndependentTestVerification executor source_revision \<Rightarrow> JObject
          [(''rule_key'', JString (ru_rule_key r)), (''requirement'', JString ''independent_test_verification''),
           (''executor_id'', JString (cd_uuid_show cd executor)), (''source_revision'', JString source_revision),
           (''reach'', JString ''self_only''),
           (''evidence'', JObject
             [(''kind'', JString (evidence_kind_as_str kind)),
              (''scope'', if chain = [] then JNull else rule_scope_json cd (last chain)), (''target'', json_opt target),
              (''payload'', JObject [(''passed'', JBool True)])]),
           (''note'', JString (''Verifier submits using its own authenticated identity; '' @
             ''payload actor fields do not establish independence.''))]
      | DocumentLinked \<Rightarrow> JObject
          [(''rule_key'', JString (ru_rule_key r)), (''requirement_type'', JString ''document_linked''),
           (''reach'', JString ''self_only''),
           (''note'', JString (''no evidence to submit: create a document and link it to this task '' @
             ''(LinkDocumentToTask / daruma_doc_link_task); archived documents do not count''))]
      | WipLimit m \<Rightarrow> JObject
          [(''rule_key'', JString (ru_rule_key r)), (''requirement_type'', JString ''wip_limit''),
           (''max_in_progress'', JNum (uint m)), (''scope'', rule_scope_json cd (ru_scope r)),
           (''in_progress_task_ids'', ids_json cd occupied),
           (''note'', JString (''no evidence to submit: complete one of in_progress_task_ids or return it to todo, '' @
             ''reopen a stuck one without a live claim (daruma_stuck / reconciliation), '' @
             (if ru_override_allowed r then ''or pass force + override_reason'' else ''this rule forbids override'')))]
      | req \<Rightarrow>
          (let reach = evidence_kind_reach kind;
               advised = advised_scope reach chain trigger staged;
               evidence = JObject ((''kind'', JString (evidence_kind_as_str kind)) #
                 (case target of Some t \<Rightarrow> [(''target'', JString t)] | None \<Rightarrow> []) @
                 (case advised of Some sc \<Rightarrow> [(''scope'', rule_scope_json cd sc)] | None \<Rightarrow> []))
           in JObject
             ([(''rule_key'', JString (ru_rule_key r)), (''requirement_type'', JString (requirement_type_str req)),
               (''reach'', JString (reach_str reach)), (''evidence'', evidence)] @
              (if advised = None
               then [(''note'', JString (if ru_override_allowed r then ''unsatisfiable before creation; requires override''
                        else ''unsatisfiable before creation and this rule forbids override; the rule must be relaxed or disabled''))]
               else []))))"

subsection \<open>check\_observed\<close>

record acting_rule =
  act_rule :: rule
  act_reason :: "string option"
  act_chain :: nat
  act_occupied :: "uuid list"

record gate_acc =
  ga_observations :: "rule_observation list"
  ga_warnings :: "mutation_warning list"
  ga_acting :: "acting_rule list"
  ga_forbidden :: bool

definition gate_acc_empty :: gate_acc where
  "gate_acc_empty = \<lparr>ga_observations = [], ga_warnings = [], ga_acting = [], ga_forbidden = False\<rparr>"

definition rule_check :: "engine \<Rightarrow> gate_check \<Rightarrow> rule_scope list \<Rightarrow> rule \<Rightarrow> evidence_check \<times> uuid list" where
  "rule_check eng check chain r =
     (case ru_requirement r of
        WipLimit m \<Rightarrow>
          let occupied = wip_occupied eng (ru_scope r) check in
          (check_or (length occupied < unat m)
             (show_nat (length occupied) @ '' of '' @ show_nat (unat m) @ '' in_progress slots in the '' @
              rule_scope_kind (ru_scope r) @ '' scope are taken''), occupied)
      | _ \<Rightarrow> (requirement_satisfied eng r chain, []))"

definition observe_rule :: "rule \<Rightarrow> rule_observation list \<Rightarrow> rule_observation list" where
  "observe_rule r obs =
     (if ru_mode r = Recommendation \<and> \<not> list_ex (\<lambda>b. ro_rule_id b = ru_id r) obs
      then obs @ [\<lparr>ro_rule_id = ru_id r, ro_rule_key = ru_rule_key r, ro_rule_revision = ru_updated_at r, ro_triggered = False\<rparr>]
      else obs)"

definition mark_triggered :: "uuid \<Rightarrow> rule_observation list \<Rightarrow> rule_observation list" where
  "mark_triggered i obs = map (\<lambda>b. if ro_rule_id b = i then b\<lparr>ro_triggered := True\<rparr> else b) obs"

definition wip_warning :: "codec \<Rightarrow> rule \<Rightarrow> string option \<Rightarrow> uuid list \<Rightarrow> mutation_warning" where
  "wip_warning cd r reason occupied =
     (let w = rule_warning cd r in
      case ru_requirement r of
        WipLimit _ \<Rightarrow> w\<lparr>mw_details := json_set ''reason'' (json_opt reason)
          (json_set ''in_progress_task_ids'' (ids_json cd occupied) (mw_details w))\<rparr>
      | _ \<Rightarrow> w)"

definition evaluate_rule :: "engine \<Rightarrow> gate_check \<Rightarrow> nat \<Rightarrow> rule_scope list \<Rightarrow> rule \<Rightarrow> gate_acc \<Rightarrow> gate_acc" where
  "evaluate_rule eng check k chain r acc0 =
     (let acc = acc0\<lparr>ga_observations := observe_rule r (ga_observations acc0)\<rparr> in
      if ru_mode r = ModeOff \<or> \<not> condition_matches (ru_condition r) check then acc
      else case rule_check eng check chain r of (ev, occupied) \<Rightarrow>
        if ec_satisfied ev then acc
        else case ru_mode r of
          ModeOff \<Rightarrow> acc
        | Recommendation \<Rightarrow>
            if list_ex (\<lambda>b. ro_rule_id b = ru_id r \<and> ro_triggered b) (ga_observations acc) then acc
            else acc\<lparr>ga_observations := mark_triggered (ru_id r) (ga_observations acc),
                     ga_warnings := ga_warnings acc @ [wip_warning (eg_codec eng) r (ec_reason ev) occupied]\<rparr>
        | Required \<Rightarrow>
            if list_ex (\<lambda>a. ru_id (act_rule a) = ru_id r) (ga_acting acc) then acc
            else acc\<lparr>ga_acting := ga_acting acc @ [\<lparr>act_rule = r, act_reason = ec_reason ev, act_chain = k, act_occupied = occupied\<rparr>],
                     ga_forbidden := ga_forbidden acc \<or> \<not> ru_override_allowed r\<rparr>)"

definition evaluate_chain :: "engine \<Rightarrow> gate_check \<Rightarrow> nat \<times> rule_scope list \<Rightarrow> gate_acc \<Rightarrow> gate_acc" where
  "evaluate_chain eng check p acc =
     (case p of (k, chain) \<Rightarrow>
        fold (evaluate_rule eng check k chain) (effective_rules (eg_rules eng) chain (map_trigger (gc_trigger check))) acc)"

definition evaluate_chains :: "engine \<Rightarrow> gate_check \<Rightarrow> rule_scope list list \<Rightarrow> gate_acc" where
  "evaluate_chains eng check branches = fold (evaluate_chain eng check) (enumerate 0 branches) gate_acc_empty"

text \<open>\<^verbatim>\<open>force\<close> with a reason that is not blank.\<close>

definition override_reason :: "gate_override \<Rightarrow> string option" where
  "override_reason ov =
     (case go_override_reason ov of
        Some t \<Rightarrow> if go_force ov \<and> trim t \<noteq> [] then Some (trim t) else None
      | None \<Rightarrow> None)"

definition warning_outcome :: "mutation_warning \<Rightarrow> json" where
  "warning_outcome w = JObject
     [(''rule_key'', JString (unwrap_or (mw_code w) (strip_prefix ''rule_warning:'' (mw_code w)))),
      (''decision'', JString ''warning''), (''message'', JString (mw_message w))]"

definition acting_hint :: "codec \<Rightarrow> gate_check \<Rightarrow> rule_scope list list \<Rightarrow> acting_rule \<Rightarrow> json" where
  "acting_hint cd check branches a =
     (let hint = unblock_hint cd (act_rule a) (branches ! act_chain a) (gc_trigger check) (gc_pending_plans check) (act_occupied a)
      in case act_reason a of Some t \<Rightarrow> json_set ''reason'' (JString t) hint | None \<Rightarrow> hint)"

definition blocked_details ::
  "codec \<Rightarrow> gate_check \<Rightarrow> rule_scope list list \<Rightarrow> acting_rule list \<Rightarrow> mutation_warning list \<Rightarrow> json" where
  "blocked_details cd check branches acting warnings =
     (let first = act_rule (hd acting) in JObject
       [(''rule_id'', JString (id_display cd ''rule'' (ru_id first))), (''rule_key'', JString (ru_rule_key first)),
        (''requirement'', requirement_json cd (ru_requirement first)), (''reason'', json_opt (act_reason (hd acting))),
        (''outcomes'', JArray (map (\<lambda>a. rule_outcome cd (act_rule a) ''blocked'' (act_reason a)) acting @ map warning_outcome warnings)),
        (''unblock'', JArray (map (acting_hint cd check branches) acting))])"

definition decide :: "codec \<Rightarrow> gate_check \<Rightarrow> rule_scope list list \<Rightarrow> gate_override \<Rightarrow> gate_acc \<Rightarrow> gate_decision" where
  "decide cd check branches ov acc =
     (let blocked = map act_rule (ga_acting acc); warnings = ga_warnings acc in
      if blocked = [] then (if warnings = [] then GateAllowed else GateWarning warnings)
      else case override_reason ov of
        Some reason \<Rightarrow>
          if \<not> ga_forbidden acc then GateOverridden (map (rule_warning cd) blocked) warnings reason
          else GateBlocked (blocked_message blocked) (blocked_details cd check branches (ga_acting acc) warnings)
      | None \<Rightarrow> GateBlocked (blocked_message blocked) (blocked_details cd check branches (ga_acting acc) warnings))"

definition check_observed ::
  "engine \<Rightarrow> actor \<Rightarrow> gate_check \<Rightarrow> gate_override \<Rightarrow> (gate_decision \<times> rule_observation list) result" where
  "check_observed eng actor check0 ov =
     (let check = resolve_check eng check0 in
      bind_result (scope_chains eng check) (\<lambda>branches.
      let acc = evaluate_chains eng check branches in
      Inr (decide (eg_codec eng) check branches ov acc, ga_observations acc)))"

definition engine_check :: "engine \<Rightarrow> gate" where
  "engine_check eng actor check ov = bind_result (check_observed eng actor check ov) (\<lambda>(decision, _). Inr decision)"

subsection \<open>What the loop over the rules collects\<close>

text \<open>A rule is unmet on a chain: it is effective there, its condition matches and its requirement is not satisfied.\<close>

definition unmet :: "engine \<Rightarrow> gate_check \<Rightarrow> rule_scope list \<Rightarrow> rule \<Rightarrow> bool" where
  "unmet eng check chain r \<longleftrightarrow> condition_matches (ru_condition r) check \<and> \<not> ec_satisfied (fst (rule_check eng check chain r))"

definition rule_visits :: "engine \<Rightarrow> gate_check \<Rightarrow> rule_scope list list \<Rightarrow> (nat \<times> rule_scope list \<times> rule) list" where
  "rule_visits eng check branches =
     concat (map (\<lambda>(k, chain). map (\<lambda>r. (k, chain, r)) (effective_rules (eg_rules eng) chain (map_trigger (gc_trigger check))))
       (enumerate 0 branches))"

abbreviation visit :: "engine \<Rightarrow> gate_check \<Rightarrow> nat \<times> rule_scope list \<times> rule \<Rightarrow> gate_acc \<Rightarrow> gate_acc" where
  "visit eng check v \<equiv> (case v of (k, chain, r) \<Rightarrow> evaluate_rule eng check k chain r)"

lemma evaluate_chains_visits:
  "evaluate_chains eng check branches = fold (visit eng check) (rule_visits eng check branches) gate_acc_empty"
proof -
  have "fold (evaluate_chain eng check) ps acc =
      fold (visit eng check) (concat (map (\<lambda>(k, chain). map (\<lambda>r. (k, chain, r))
        (effective_rules (eg_rules eng) chain (map_trigger (gc_trigger check)))) ps)) acc" for ps acc
    by (induction ps arbitrary: acc) (auto simp: evaluate_chain_def fold_map comp_def)
  then show ?thesis by (simp add: evaluate_chains_def rule_visits_def)
qed

lemma rule_visits_mem:
  "(\<exists>k. (k, chain, r) \<in> set (rule_visits eng check branches)) \<longleftrightarrow>
     chain \<in> set branches \<and> r \<in> set (effective_rules (eg_rules eng) chain (map_trigger (gc_trigger check)))"
proof -
  have "chain \<in> set branches \<longleftrightarrow> (\<exists>k. (k, chain) \<in> set (enumerate 0 branches))"
    using image_set [of snd "enumerate 0 branches"] by force
  moreover have "(k, chain, r) \<in> set (rule_visits eng check branches) \<longleftrightarrow> (k, chain) \<in> set (enumerate 0 branches) \<and>
      r \<in> set (effective_rules (eg_rules eng) chain (map_trigger (gc_trigger check)))" for k
    by (simp add: rule_visits_def) (auto intro!: bexI [of _ "(k, chain)"])
  ultimately show ?thesis by blast
qed

lemma evaluate_acting:
  "ga_acting (evaluate_rule eng check k chain r acc) =
     (if ru_mode r = Required \<and> unmet eng check chain r \<and> \<not> list_ex (\<lambda>a. ru_id (act_rule a) = ru_id r) (ga_acting acc)
      then ga_acting acc @ [\<lparr>act_rule = r, act_reason = ec_reason (fst (rule_check eng check chain r)), act_chain = k,
             act_occupied = snd (rule_check eng check chain r)\<rparr>]
      else ga_acting acc)"
  by (auto simp: evaluate_rule_def unmet_def Let_def split: prod.splits rule_mode.splits)

lemma evaluate_forbidden:
  "ga_forbidden (evaluate_rule eng check k chain r acc) =
     (ga_forbidden acc \<or>
      (ru_mode r = Required \<and> unmet eng check chain r \<and> \<not> list_ex (\<lambda>a. ru_id (act_rule a) = ru_id r) (ga_acting acc) \<and>
       \<not> ru_override_allowed r))"
  by (auto simp: evaluate_rule_def unmet_def Let_def split: prod.splits rule_mode.splits)

lemma forbidden_visits:
  assumes "ga_forbidden acc \<longleftrightarrow> (\<exists>a \<in> set (ga_acting acc). \<not> ru_override_allowed (act_rule a))"
  shows "ga_forbidden (fold (visit eng check) vs acc) \<longleftrightarrow>
    (\<exists>a \<in> set (ga_acting (fold (visit eng check) vs acc)). \<not> ru_override_allowed (act_rule a))"
  using assms
proof (induction vs arbitrary: acc)
  case (Cons v vs)
  obtain k chain r where v: "v = (k, chain, r)" by (rule prod_cases3)
  show ?case unfolding fold.simps comp_def
    using Cons.prems by (intro Cons.IH) (auto simp: v evaluate_acting evaluate_forbidden)
qed simp

lemma acting_visits:
  assumes "inj_on ru_id (act_rule ` set (ga_acting acc) \<union> (snd \<circ> snd) ` set vs)"
  shows "act_rule ` set (ga_acting (fold (visit eng check) vs acc)) =
    act_rule ` set (ga_acting acc) \<union> {r. \<exists>k chain. (k, chain, r) \<in> set vs \<and> ru_mode r = Required \<and> unmet eng check chain r}"
  using assms
proof (induction vs arbitrary: acc)
  case (Cons v vs)
  obtain k chain r where v: "v = (k, chain, r)" by (rule prod_cases3)
  let ?acc = "evaluate_rule eng check k chain r acc"
  have "r \<in> act_rule ` set (ga_acting acc)" if there: "list_ex (\<lambda>a. ru_id (act_rule a) = ru_id r) (ga_acting acc)"
  proof -
    obtain a where a: "a \<in> set (ga_acting acc)" "ru_id (act_rule a) = ru_id r" using there by (auto simp: list_ex_iff)
    have "act_rule a = r" using Cons.prems a(2) by (rule inj_onD) (use a(1) in \<open>auto simp: v\<close>)
    then show ?thesis using a(1) by blast
  qed
  then have here: "act_rule ` set (ga_acting ?acc) = act_rule ` set (ga_acting acc) \<union>
      (if ru_mode r = Required \<and> unmet eng check chain r then {r} else {})"
    by (auto simp: evaluate_acting)
  have "inj_on ru_id (act_rule ` set (ga_acting ?acc) \<union> (snd \<circ> snd) ` set vs)"
    using Cons.prems by (rule inj_on_subset) (auto simp: here v)
  then show ?case using Cons.IH [of ?acc] here by (auto simp: v)
qed simp

text \<open>Warnings and observations.\<close>

definition seen :: "rule_observation list \<Rightarrow> uuid set" where
  "seen obs = set (map ro_rule_id obs)"

definition triggered :: "rule_observation list \<Rightarrow> uuid set" where
  "triggered obs = set (map ro_rule_id (filter ro_triggered obs))"

lemma seen_Cons [simp]: "seen [] = {}" "seen (b # obs) = insert (ro_rule_id b) (seen obs)"
  by (simp_all add: seen_def)

lemma triggered_Cons [simp]:
  "triggered [] = {}"
  "triggered (b # obs) = (if ro_triggered b then insert (ro_rule_id b) (triggered obs) else triggered obs)"
  by (simp_all add: triggered_def)

lemma list_ex_observed:
  "list_ex (\<lambda>b. ro_rule_id b = i) obs \<longleftrightarrow> i \<in> seen obs"
  "list_ex (\<lambda>b. ro_rule_id b = i \<and> ro_triggered b) obs \<longleftrightarrow> i \<in> triggered obs"
  by (induction obs) auto

lemma observe_rule_sets:
  "seen (observe_rule r obs) = seen obs \<union> (if ru_mode r = Recommendation then {ru_id r} else {})"
  "triggered (observe_rule r obs) = triggered obs"
  by (auto simp: observe_rule_def list_ex_observed) (auto simp: seen_def triggered_def)

lemma mark_triggered_sets:
  "seen (mark_triggered i obs) = seen obs"
  "triggered (mark_triggered i obs) = triggered obs \<union> ({i} \<inter> seen obs)"
  by (induction obs) (auto simp: mark_triggered_def)

lemma evaluate_observations:
  "seen (ga_observations (evaluate_rule eng check k chain r acc)) =
     seen (ga_observations acc) \<union> (if ru_mode r = Recommendation then {ru_id r} else {})"
  "triggered (ga_observations (evaluate_rule eng check k chain r acc)) =
     triggered (ga_observations acc) \<union> (if ru_mode r = Recommendation \<and> unmet eng check chain r then {ru_id r} else {})"
  by (auto simp: evaluate_rule_def unmet_def Let_def observe_rule_sets mark_triggered_sets list_ex_observed
      split: prod.splits rule_mode.splits)

lemma observed_visits:
  "seen (ga_observations (fold (visit eng check) vs acc)) =
     seen (ga_observations acc) \<union> {i. \<exists>k chain r. (k, chain, r) \<in> set vs \<and> i = ru_id r \<and> ru_mode r = Recommendation}"
  "triggered (ga_observations (fold (visit eng check) vs acc)) =
     triggered (ga_observations acc) \<union>
     {i. \<exists>k chain r. (k, chain, r) \<in> set vs \<and> i = ru_id r \<and> ru_mode r = Recommendation \<and> unmet eng check chain r}"
proof (induction vs arbitrary: acc)
  case (Cons v vs)
  obtain k chain r where v: "v = (k, chain, r)" by (rule prod_cases3)
  {
    case 1
    show ?case unfolding v using Cons.IH(1) [of "evaluate_rule eng check k chain r acc"]
      by (simp add: evaluate_observations) blast
  next
    case 2
    show ?case unfolding v using Cons.IH(2) [of "evaluate_rule eng check k chain r acc"]
      by (simp add: evaluate_observations) blast
  }
qed auto

lemma evaluate_warnings:
  "ga_warnings (evaluate_rule eng check k chain r acc) =
     (if ru_mode r = Recommendation \<and> unmet eng check chain r \<and> ru_id r \<notin> triggered (ga_observations acc)
      then ga_warnings acc @ [wip_warning (eg_codec eng) r (ec_reason (fst (rule_check eng check chain r)))
             (snd (rule_check eng check chain r))]
      else ga_warnings acc)"
  by (auto simp: evaluate_rule_def unmet_def Let_def observe_rule_sets list_ex_observed
      split: prod.splits rule_mode.splits)

lemma warnings_visits:
  assumes "ga_warnings acc = [] \<longleftrightarrow> triggered (ga_observations acc) = {}"
  shows "ga_warnings (fold (visit eng check) vs acc) = [] \<longleftrightarrow> triggered (ga_observations (fold (visit eng check) vs acc)) = {}"
  using assms
proof (induction vs arbitrary: acc)
  case (Cons v vs)
  obtain k chain r where v: "v = (k, chain, r)" by (rule prod_cases3)
  show ?case unfolding fold.simps comp_def
    using Cons.prems by (intro Cons.IH) (auto simp: v evaluate_warnings evaluate_observations)
qed simp

definition effective_on :: "engine \<Rightarrow> gate_check \<Rightarrow> rule_scope list list \<Rightarrow> rule \<Rightarrow> bool" where
  "effective_on eng check branches r \<longleftrightarrow>
     (\<exists>chain \<in> set branches. r \<in> set (effective_rules (eg_rules eng) chain (map_trigger (gc_trigger check))))"

definition unmet_rules :: "engine \<Rightarrow> gate_check \<Rightarrow> rule_scope list list \<Rightarrow> rule_mode \<Rightarrow> rule set" where
  "unmet_rules eng check branches m =
     {r. ru_mode r = m \<and> (\<exists>chain \<in> set branches. unmet eng check chain r \<and>
        r \<in> set (effective_rules (eg_rules eng) chain (map_trigger (gc_trigger check))))}"

lemma effective_in_table:
  "rule_table_ok rs \<Longrightarrow> r \<in> set (effective_rules rs chain tr) \<Longrightarrow> r \<in> set rs"
  using effective_rules_mem [of rs r chain tr] inherit_mem [of None] set_key_rules by fastforce

lemma rule_ids_inj: "rule_table_ok rs \<Longrightarrow> inj_on ru_id (set rs)"
  by (simp add: rule_table_ok_def keys_distinct_def distinct_map)

lemma visits_ex:
  "(\<exists>k chain. (k, chain, r) \<in> set (rule_visits eng check branches) \<and> P chain) \<longleftrightarrow>
     (\<exists>chain \<in> set branches. P chain \<and> r \<in> set (effective_rules (eg_rules eng) chain (map_trigger (gc_trigger check))))"
  using rule_visits_mem [of _ r eng check branches] by blast

lemma unmet_visits:
  "{r. \<exists>k chain. (k, chain, r) \<in> set (rule_visits eng check branches) \<and> ru_mode r = m \<and> unmet eng check chain r} =
     unmet_rules eng check branches m"
proof (rule set_eqI)
  fix r
  show "r \<in> {r. \<exists>k chain. (k, chain, r) \<in> set (rule_visits eng check branches) \<and> ru_mode r = m \<and> unmet eng check chain r} \<longleftrightarrow>
      r \<in> unmet_rules eng check branches m"
    using visits_ex [of r eng check branches "\<lambda>chain. ru_mode r = m \<and> unmet eng check chain r"]
    by (auto simp: unmet_rules_def)
qed

lemma acting_exact:
  assumes "rule_table_ok (eg_rules eng)"
  shows "act_rule ` set (ga_acting (evaluate_chains eng check branches)) = unmet_rules eng check branches Required"
proof -
  let ?vs = "rule_visits eng check branches"
  have "(snd \<circ> snd) ` set ?vs \<subseteq> set (eg_rules eng)"
  proof
    fix r assume "r \<in> (snd \<circ> snd) ` set ?vs"
    then obtain k chain where "(k, chain, r) \<in> set ?vs" by force
    then show "r \<in> set (eg_rules eng)"
      using rule_visits_mem [of chain r eng check branches] effective_in_table [OF assms] by blast
  qed
  then have "inj_on ru_id (act_rule ` set (ga_acting gate_acc_empty) \<union> (snd \<circ> snd) ` set ?vs)"
    using rule_ids_inj [OF assms] by (auto simp: gate_acc_empty_def intro: inj_on_subset)
  from acting_visits [OF this, of eng check] show ?thesis
    by (simp only: evaluate_chains_visits unmet_visits) (simp add: gate_acc_empty_def)
qed

lemma forbidden_exact:
  assumes "rule_table_ok (eg_rules eng)"
  shows "ga_forbidden (evaluate_chains eng check branches) \<longleftrightarrow>
    (\<exists>r \<in> unmet_rules eng check branches Required. \<not> ru_override_allowed r)"
proof -
  have "ga_forbidden (evaluate_chains eng check branches) \<longleftrightarrow>
      (\<exists>a \<in> set (ga_acting (evaluate_chains eng check branches)). \<not> ru_override_allowed (act_rule a))"
    unfolding evaluate_chains_visits by (rule forbidden_visits) (simp add: gate_acc_empty_def)
  then show ?thesis by (simp add: acting_exact [OF assms, symmetric])
qed

lemma observations_exact:
  "seen (ga_observations (evaluate_chains eng check branches)) =
     ru_id ` {r. effective_on eng check branches r \<and> ru_mode r = Recommendation}"
  "triggered (ga_observations (evaluate_chains eng check branches)) =
     ru_id ` unmet_rules eng check branches Recommendation"
proof -
  let ?vs = "rule_visits eng check branches"
  have "r \<in> {r. \<exists>k chain. (k, chain, r) \<in> set ?vs} \<longleftrightarrow> effective_on eng check branches r" for r
    using visits_ex [of r eng check branches "\<lambda>_. True"] by (simp add: effective_on_def)
  then have "{i. \<exists>k chain r. (k, chain, r) \<in> set ?vs \<and> i = ru_id r \<and> ru_mode r = Recommendation} =
      ru_id ` {r. effective_on eng check branches r \<and> ru_mode r = Recommendation}"
    by blast
  then show "seen (ga_observations (evaluate_chains eng check branches)) =
     ru_id ` {r. effective_on eng check branches r \<and> ru_mode r = Recommendation}"
    using observed_visits(1) [of eng check ?vs gate_acc_empty] by (simp add: evaluate_chains_visits gate_acc_empty_def)
  have "{i. \<exists>k chain r. (k, chain, r) \<in> set ?vs \<and> i = ru_id r \<and> ru_mode r = Recommendation \<and> unmet eng check chain r} =
      ru_id ` unmet_rules eng check branches Recommendation"
    unfolding unmet_visits [symmetric] by blast
  then show "triggered (ga_observations (evaluate_chains eng check branches)) =
     ru_id ` unmet_rules eng check branches Recommendation"
    using observed_visits(2) [of eng check ?vs gate_acc_empty] by (simp add: evaluate_chains_visits gate_acc_empty_def)
qed

lemma warnings_exact:
  "ga_warnings (evaluate_chains eng check branches) = [] \<longleftrightarrow> unmet_rules eng check branches Recommendation = {}"
proof -
  have "ga_warnings (evaluate_chains eng check branches) = [] \<longleftrightarrow>
      triggered (ga_observations (evaluate_chains eng check branches)) = {}"
    unfolding evaluate_chains_visits by (rule warnings_visits) (simp add: gate_acc_empty_def)
  then show ?thesis by (simp add: observations_exact)
qed

subsection \<open>The decision\<close>

definition is_blocked :: "gate_decision \<Rightarrow> bool" where
  "is_blocked d = (case d of GateBlocked _ _ \<Rightarrow> True | _ \<Rightarrow> False)"

definition is_overridden :: "gate_decision \<Rightarrow> bool" where
  "is_overridden d = (case d of GateOverridden _ _ _ \<Rightarrow> True | _ \<Rightarrow> False)"

lemma decide_cases:
  fixes branches :: "rule_scope list list" and check :: gate_check and cd :: codec and ov :: gate_override
  assumes "rule_table_ok (eg_rules eng)"
  defines "B \<equiv> unmet_rules eng check branches Required"
  defines "d \<equiv> decide cd check branches ov (evaluate_chains eng check branches)"
  shows "is_blocked d \<longleftrightarrow> B \<noteq> {} \<and> (override_reason ov = None \<or> (\<exists>r \<in> B. \<not> ru_override_allowed r))"
    and "is_overridden d \<longleftrightarrow> B \<noteq> {} \<and> override_reason ov \<noteq> None \<and> (\<forall>r \<in> B. ru_override_allowed r)"
    and "d = GateAllowed \<longleftrightarrow> B = {} \<and> unmet_rules eng check branches Recommendation = {}"
proof -
  let ?acc = "evaluate_chains eng check branches"
  have empty: "ga_acting ?acc = [] \<longleftrightarrow> B = {}"
    using acting_exact [OF assms(1), of check branches] by (auto simp: B_def)
  note facts = d_def decide_def Let_def empty forbidden_exact [OF assms(1)] B_def [symmetric] warnings_exact
  show "is_blocked d \<longleftrightarrow> B \<noteq> {} \<and> (override_reason ov = None \<or> (\<exists>r \<in> B. \<not> ru_override_allowed r))"
    by (simp add: facts is_blocked_def split: option.splits)
  show "is_overridden d \<longleftrightarrow> B \<noteq> {} \<and> override_reason ov \<noteq> None \<and> (\<forall>r \<in> B. ru_override_allowed r)"
    by (auto simp: facts is_overridden_def split: option.splits)
  show "d = GateAllowed \<longleftrightarrow> B = {} \<and> unmet_rules eng check branches Recommendation = {}"
    by (auto simp: facts split: option.splits)
qed

lemma check_observed_Inr:
  "check_observed eng actor check ov = Inr (d, obs) \<longleftrightarrow>
     (\<exists>branches. scope_chains eng (resolve_check eng check) = Inr branches \<and>
        d = decide (eg_codec eng) (resolve_check eng check) branches ov (evaluate_chains eng (resolve_check eng check) branches) \<and>
        obs = ga_observations (evaluate_chains eng (resolve_check eng check) branches))"
  by (auto simp: check_observed_def Let_def bind_result_Inr_iff)

text \<open>
  C33: the gate blocks a transition exactly when a required rule in force on one of the scope chains matches and
  is not met there, and the caller has not forced it with a reason or one of these rules forbids that. It reports
  an override exactly when every such rule allows it, and passes silently exactly when no rule is left unmet.
\<close>

theorem gate_decision_exact:
  fixes branches :: "rule_scope list list" and check :: gate_check
  assumes "rule_table_ok (eg_rules eng)" "scope_chains eng (resolve_check eng check) = Inr branches"
    and "check_observed eng actor check ov = Inr (d, obs)"
  defines "B \<equiv> unmet_rules eng (resolve_check eng check) branches Required"
  shows "(is_blocked d \<longleftrightarrow> B \<noteq> {} \<and> (override_reason ov = None \<or> (\<exists>r \<in> B. \<not> ru_override_allowed r))) \<and>
    (is_overridden d \<longleftrightarrow> B \<noteq> {} \<and> override_reason ov \<noteq> None \<and> (\<forall>r \<in> B. ru_override_allowed r)) \<and>
    (d = GateAllowed \<longleftrightarrow> B = {} \<and> unmet_rules eng (resolve_check eng check) branches Recommendation = {})"
  using decide_cases [OF assms(1), where check = "resolve_check eng check" and branches = branches and ov = ov and cd = "eg_codec eng"] assms(2,3)
  by (simp add: check_observed_Inr B_def)

text \<open>
  The observations are one row for every recommendation in force on some chain, marked exactly when the
  recommendation was left unmet on some chain.
\<close>

theorem advisory_observations_exact:
  assumes "scope_chains eng (resolve_check eng check) = Inr branches"
    and "check_observed eng actor check ov = Inr (d, obs)"
  shows "seen obs = ru_id ` {r. effective_on eng (resolve_check eng check) branches r \<and> ru_mode r = Recommendation} \<and>
    triggered obs = ru_id ` unmet_rules eng (resolve_check eng check) branches Recommendation"
  using assms observations_exact by (simp add: check_observed_Inr)

subsection \<open>Ancestry\<close>

definition ancestry_edges :: "plan_store \<Rightarrow> (uuid \<times> uuid option) list \<Rightarrow> (uuid \<times> uuid) set" where
  "ancestry_edges ps staged = {(p, q). ancestry_parent ps staged p = Some q}"

lemma ancestry_edges_iff [simp]: "(p, q) \<in> ancestry_edges ps staged \<longleftrightarrow> ancestry_parent ps staged p = Some q"
  by (simp add: ancestry_edges_def)

abbreviation climbs :: "plan_store \<Rightarrow> (uuid \<times> uuid option) list \<Rightarrow> uuid list \<Rightarrow> bool" where
  "climbs ps staged path \<equiv> successively (\<lambda>a b. ancestry_parent ps staged a = Some b) path"

lemma climbs_reach:
  "climbs ps staged path \<Longrightarrow> q \<in> set path \<Longrightarrow> (q, last path) \<in> (ancestry_edges ps staged)\<^sup>*"
proof (induction path arbitrary: q)
  case (Cons a path)
  show ?case
  proof (cases path)
    case Nil
    then show ?thesis using Cons.prems by simp
  next
    case (Cons b rest)
    then have up: "ancestry_parent ps staged a = Some b" "climbs ps staged path" "last (a # path) = last path"
      using Cons.prems(1) by (auto simp: successively_Cons)
    have "(b, last path) \<in> (ancestry_edges ps staged)\<^sup>*" using Cons.IH [OF up(2), of b] Cons by simp
    then have "(a, last path) \<in> (ancestry_edges ps staged)\<^sup>*" using up(1) by (auto intro: converse_rtrancl_into_rtrancl)
    then show ?thesis using Cons.IH [OF up(2)] Cons.prems(2) up(3) by auto
  qed
qed simp

lemma ancestry_walk_Inr:
  assumes "climbs ps staged path" "distinct path" "path \<noteq> []" "last path = p" "ancestry_walk ps staged path p = Inr res"
  shows "res \<noteq> [] \<and> last res = hd path \<and> distinct res \<and> ancestry_parent ps staged (hd res) = None \<and> climbs ps staged (rev res)"
  using assms
proof (induction ps staged path p rule: ancestry_walk.induct)
  case (1 ps staged path p)
  show ?case
  proof (cases "ancestry_parent ps staged p")
    case None
    then show ?thesis using "1.prems" by (auto simp: ancestry_walk.simps [of ps staged path p] last_rev hd_rev)
  next
    case (Some q)
    then have q: "q \<notin> set path" "ancestry_walk ps staged (path @ [q]) q = Inr res"
      using "1.prems"(5) by (auto simp: ancestry_walk.simps [of ps staged path p] split: if_splits)
    then show ?thesis
      using "1.IH" [OF Some q(1)] "1.prems" Some by (simp add: successively_append_iff)
  qed
qed

lemma ancestry_walk_Inl:
  assumes "climbs ps staged path" "path \<noteq> []" "last path = p" "ancestry_walk ps staged path p = Inl e"
  shows "\<exists>q. (hd path, q) \<in> (ancestry_edges ps staged)\<^sup>* \<and> (q, q) \<in> (ancestry_edges ps staged)\<^sup>+"
  using assms
proof (induction ps staged path p rule: ancestry_walk.induct)
  case (1 ps staged path p)
  obtain q where q: "ancestry_parent ps staged p = Some q"
    using "1.prems"(4) by (cases "ancestry_parent ps staged p") (auto simp: ancestry_walk.simps [of ps staged path p])
  show ?case
  proof (cases "q \<in> set path")
    case True
    have "(q, p) \<in> (ancestry_edges ps staged)\<^sup>*" "(hd path, p) \<in> (ancestry_edges ps staged)\<^sup>*"
      using climbs_reach [OF "1.prems"(1)] True "1.prems"(2,3) by auto
    then show ?thesis using q
      by (intro exI [of _ q]) (auto intro: rtrancl_into_trancl1 rtrancl_into_rtrancl)
  next
    case False
    then show ?thesis
      using "1.IH" [OF q False] "1.prems" q
      by (simp add: successively_append_iff ancestry_walk.simps [of ps staged path p])
  qed
qed

lemma functional_cycle:
  assumes "(q, q) \<in> (ancestry_edges ps staged)\<^sup>+" "(q, x) \<in> (ancestry_edges ps staged)\<^sup>*"
  shows "(x, x) \<in> (ancestry_edges ps staged)\<^sup>+"
  using assms(2,1)
proof (induction rule: rtrancl_induct)
  case (step y z)
  then obtain w where w: "(y, w) \<in> ancestry_edges ps staged" "(w, y) \<in> (ancestry_edges ps staged)\<^sup>*"
    by (auto dest: tranclD)
  then have "w = z" using step(2) by simp
  then show ?case using w step(2) by (auto intro: rtrancl_into_trancl1)
qed

lemma functional_root:
  assumes "(p, r) \<in> (ancestry_edges ps staged)\<^sup>*" "ancestry_parent ps staged r = None"
    "(p, q) \<in> (ancestry_edges ps staged)\<^sup>*"
  shows "(q, r) \<in> (ancestry_edges ps staged)\<^sup>*"
  using assms(3,1,2)
proof (induction rule: rtrancl_induct)
  case (step y z)
  then have "(y, r) \<in> (ancestry_edges ps staged)\<^sup>*" "y \<noteq> r" by auto
  then obtain w where "(y, w) \<in> ancestry_edges ps staged" "(w, r) \<in> (ancestry_edges ps staged)\<^sup>*"
    by (auto elim: converse_rtranclE)
  then show ?case using step(2) by simp
qed

text \<open>
  The ancestry of a plan is its parent chain, root first and without repetition. The walk always ends, and it
  is refused exactly when the parents of the plan never reach a root.
\<close>

theorem plan_ancestry_exact:
  "case plan_ancestry ps p staged of
     Inr path \<Rightarrow> path \<noteq> [] \<and> last path = p \<and> distinct path \<and> ancestry_parent ps staged (hd path) = None \<and>
       climbs ps staged (rev path)
   | Inl _ \<Rightarrow> \<not> (\<exists>root. (p, root) \<in> (ancestry_edges ps staged)\<^sup>* \<and> ancestry_parent ps staged root = None)"
proof (cases "plan_ancestry ps p staged")
  case (Inl e)
  then obtain q where q: "(p, q) \<in> (ancestry_edges ps staged)\<^sup>*" "(q, q) \<in> (ancestry_edges ps staged)\<^sup>+"
    using ancestry_walk_Inl [of ps staged "[p]" p e] by (auto simp: plan_ancestry_def)
  have False if "(p, r) \<in> (ancestry_edges ps staged)\<^sup>*" "ancestry_parent ps staged r = None" for r
    using functional_cycle [OF q(2) functional_root [OF that q(1)]] that(2) by (auto dest: tranclD)
  then show ?thesis using Inl by auto
next
  case (Inr path)
  then show ?thesis using ancestry_walk_Inr [of ps staged "[p]" p path] by (simp add: plan_ancestry_def)
qed

subsection \<open>An instance\<close>

text \<open>A required note at the tenant and a recommended decision record at the project, nothing recorded yet.\<close>

definition demo_engine :: "evidence list \<Rightarrow> engine" where
  "demo_engine es =
     \<lparr>eg_rules = [demo_rule 1 ScopeTenant Required False,
        (demo_rule 2 (ScopeProject 7) Recommendation True)\<lparr>ru_rule_key := ''record'', ru_requirement := DecisionRecord []\<rparr>],
      eg_evidence = Some (es, []), eg_tasks = \<lparr>ts_rows = [], ts_due_notifications = []\<rparr>,
      eg_plans = \<lparr>ps_plans = [], ps_plan_tasks = [], ps_sources = []\<rparr>, eg_runs = \<lparr>rs_runs = [], rs_steps = []\<rparr>,
      eg_documents = [], eg_codec = demo_codec\<rparr>"

definition demo_check :: gate_check where
  "demo_check = (gate_check_new TrigTaskBeforeComplete)\<lparr>gc_project_id := Some 7, gc_task_id := Some 9, gc_task_title := Some ''t''\<rparr>"

lemma demo_engine_ok: "rule_table_ok (eg_rules (demo_engine es))"
  by (simp add: demo_engine_def demo_rule_def rule_table_ok_def keys_distinct_def)

lemma demo_resolved: "resolve_check (demo_engine es) demo_check = demo_check"
  by (simp add: resolve_check_def demo_check_def gate_check_new_def)

lemma demo_branches: "scope_chains (demo_engine es) (resolve_check (demo_engine es) demo_check) = Inr [demo_rule_chain]"
  by (simp add: demo_resolved) (simp add: scope_chains_def check_plans_def task_plan_ids_def list_plans_for_task_def demo_engine_def demo_check_def
      gate_check_new_def scope_chain_def demo_rule_chain_def)

theorem gate_decision_exact_witness:
  "is_blocked (fst (projr (check_observed (demo_engine []) actor_user demo_check gate_override_default)))"
proof -
  let ?d = "fst (projr (check_observed (demo_engine []) actor_user demo_check gate_override_default))"
  have run: "check_observed (demo_engine []) actor_user demo_check gate_override_default =
      Inr (?d, snd (projr (check_observed (demo_engine []) actor_user demo_check gate_override_default)))"
    using demo_branches [of "[]"] by (simp add: check_observed_def Let_def)
  have "demo_rule 1 ScopeTenant Required False \<in> unmet_rules (demo_engine []) demo_check [demo_rule_chain] Required"
  proof -
    have "unmet (demo_engine []) demo_check demo_rule_chain (demo_rule 1 ScopeTenant Required False)" by code_simp
    moreover have "demo_rule 1 ScopeTenant Required False
        \<in> set (effective_rules (eg_rules (demo_engine [])) demo_rule_chain (map_trigger (gc_trigger demo_check)))"
      by code_simp
    ultimately show ?thesis by (simp add: unmet_rules_def) (simp add: demo_rule_def)
  qed
  then show ?thesis
    using gate_decision_exact [OF demo_engine_ok demo_branches run]
    by (auto simp: demo_resolved override_reason_def gate_override_default_def)
qed

theorem advisory_observations_exact_witness:
  "2 \<in> triggered (snd (projr (check_observed (demo_engine []) actor_user demo_check gate_override_default)))"
proof -
  let ?r = "(demo_rule 2 (ScopeProject 7) Recommendation True)\<lparr>ru_rule_key := ''record'', ru_requirement := DecisionRecord []\<rparr>"
  have run: "check_observed (demo_engine []) actor_user demo_check gate_override_default =
      Inr (fst (projr (check_observed (demo_engine []) actor_user demo_check gate_override_default)),
           snd (projr (check_observed (demo_engine []) actor_user demo_check gate_override_default)))"
    using demo_branches [of "[]"] by (simp add: check_observed_def Let_def)
  have "?r \<in> unmet_rules (demo_engine []) demo_check [demo_rule_chain] Recommendation"
  proof -
    have "unmet (demo_engine []) demo_check demo_rule_chain ?r" by code_simp
    moreover have "?r \<in> set (effective_rules (eg_rules (demo_engine [])) demo_rule_chain (map_trigger (gc_trigger demo_check)))"
      by code_simp
    ultimately show ?thesis by (simp add: unmet_rules_def) (simp add: demo_rule_def)
  qed
  then have "ru_id ?r \<in> ru_id ` unmet_rules (demo_engine []) demo_check [demo_rule_chain] Recommendation"
    by (rule imageI)
  then show ?thesis
    using advisory_observations_exact [OF demo_branches run] by (simp only: demo_resolved) (simp add: demo_rule_def)
qed

end
