(* ===== verification/Spec2Isabelle.thy ===== *)
theory Spec2Isabelle
  imports Dispatch_Limits Outbox_Queue Live_Delivery Replica_Push Pairing Idempotency Conflict Auth Rule_Engine Work_Leases Work_Units Project_Store Comment_Store Session_Store Artifact_Store Handler_Intake
begin

text \<open>
  A verification development for daruma, a task and plan server for people and coding agents
  (\<^verbatim>\<open>src/crates\<close> and \<^verbatim>\<open>src/apps\<close>, Rust).

  \<^bold>\<open>The program.\<close> Clients send commands. \<^verbatim>\<open>CommandHandler\<close> (\<^verbatim>\<open>core/src/handler.rs\<close>) turns a command into events
  after reading the projections, lets the lifecycle gate check the batch, appends the events to the log
  and applies them to the projections (the repositories of \<^verbatim>\<open>storage/src\<close>). Agents reserve tasks, work units and files
  through claims and leases, and execute plans through runs. \<^verbatim>\<open>auth/src\<close> decides who may call. Events reach other
  programs in two ways: a web socket delivers them to subscribers (\<^verbatim>\<open>sync/src/hub.rs\<close>, \<^verbatim>\<open>apps/server/src/ws.rs\<close>), and a
  desktop device keeps a replica it fills from snapshots and the log, with an outbox of its own commands
  (\<^verbatim>\<open>apps/desktop/src\<close>).

  \<^bold>\<open>Shared parts and the domain.\<close>
  \<^item> \<open>Prelude\<close>, \<open>Json_Text\<close>, \<open>Rows\<close>: results, JSON, text helpers of the Rust library, keyed tables (the locale
    \<open>keyed_table\<close>), reading rows by id.
  \<^item> \<open>Shared_Paths\<close>, \<open>Shared_Ids\<close>: \<^verbatim>\<open>shared/src\<close> (path globs, scope paths, the text form of ids).
  \<^item> \<open>Domain_Task\<close>, \<open>Source_Ref\<close>, \<open>Domain_Plan\<close>, \<open>Domain_Work\<close>: \<^verbatim>\<open>domain/src\<close>, a record per struct and a datatype
    per enum, with their operations. \<open>Events\<close>: \<^verbatim>\<open>events/src\<close>, the event enum as one datatype per section of the source.

  \<^bold>\<open>The repositories\<close> (\<^verbatim>\<open>storage/src\<close>), each with what an event does to its tables.
  \<^item> \<open>Relations\<close> (with \<^verbatim>\<open>core/src/relation_enforcement.rs\<close> and the relation machine \<open>relation_reach\<close>), \<open>Claims\<close>,
    \<open>Task_Store\<close>, \<open>Plan_Store\<close> (plans and runs), \<open>Document_Store\<close>.
  \<^item> \<open>Rule_Store\<close>, \<open>Evidence_Store\<close>, \<open>Work_Leases\<close>, \<open>Work_Units\<close> (with handoffs and their commands), \<open>Project_Store\<close>
    (with settings), \<open>Comment_Store\<close>, \<open>Session_Store\<close> (with run notes), \<open>Artifact_Store\<close>, \<open>Tenant_Store\<close> (with external
    references), \<open>Activity_Store\<close>; \<open>Registry\<close> puts the tables beside tasks and plans together.
  \<^item> \<open>Event_Store\<close>: the log with its numbers and unique keys. \<open>Idempotency\<close>: the processed command ids, with their use
    over HTTP and over a web socket. \<open>Snapshot_Store\<close>: the fold of the log into snapshots.

  \<^bold>\<open>The core\<close> (\<^verbatim>\<open>core/src\<close>) \<^bold>\<open>and authentication.\<close>
  \<^item> \<open>Plan_Concurrency\<close>, \<open>Lifecycle_Gate\<close>, \<open>Plan_Readiness\<close>, \<open>Rule_Engine\<close>, \<open>Conflict\<close>: the files of these names.
    \<open>Source_Chain\<close>, \<open>Plan_Intake\<close>: \<^verbatim>\<open>plan_source.rs\<close>. \<open>Auth\<close>: \<^verbatim>\<open>auth/src\<close> with the token and device repositories.
  \<^item> \<open>Handler_Status\<close>, \<open>Handler_Tasks\<close>, \<open>Handler_Plans\<close>, \<open>Handler_Intake\<close>, \<open>Handler_Records\<close>: the arms of
    \<^verbatim>\<open>build_events\<close>, one definition \<open>build_...\<close> per command, with the status cascade and the reconciliation of plans.
    \<open>Persistence\<close>: the transactions that store a batch. \<open>Handler\<close>: the dispatch \<open>handle\<close> over a \<open>system\<close> (projections,
    claims, run owners, event log).
  \<^item> \<open>Dispatch\<close>, \<open>Dispatch_Effects\<close>, \<open>Dispatch_Safety\<close>, \<open>Dispatch_Limits\<close>: what the dispatch guarantees.

  \<^bold>\<open>Delivery and devices.\<close>
  \<^item> \<open>Live_Filters\<close>, \<open>Live_Stream\<close>, \<open>Live_Delivery\<close>: the web socket. The filters decide what a subscriber sees; the
    fanout of the hub, a turn of the forwarder and the four parts of a turn of the writer (take a frame, look at the latches,
    read the token row, send) are steps of one machine \<open>live_run\<close>.
  \<^item> \<open>Fold_View\<close>, \<open>Snapshot_Cut\<close>, \<open>Replica\<close>, \<open>Replica_Repair\<close>, \<open>Replica_Mirror\<close>: \<^verbatim>\<open>apps/desktop/src/replica.rs\<close>, the rows of a device
    against the fold of the server log. \<open>Outbox\<close>, \<open>Outbox_Queue\<close>: \<^verbatim>\<open>outbox.rs\<close> and \<^verbatim>\<open>flush.rs\<close>. \<open>Replica_Push\<close>: the
    endpoint devices push to, in \<^verbatim>\<open>apps/server/src/routes/mod.rs\<close>. \<open>Pairing\<close>: \<^verbatim>\<open>discovery/src/pairing.rs\<close>, its
    endpoints and the pairing URL.

  \<^bold>\<open>Correspondence.\<close> A table is the list of its rows in insertion order; a SQL statement is a function on
  that list, with its unique keys as errors. UUIDs are natural numbers and timestamps integers; a clock
  reading, a random id and a third-party function (hashing, randomness, text of UUIDs and times, regular expressions,
  the Bloom filter) is an argument. The dispatch takes the gate as an argument; \<open>Rule_Engine\<close> models the bundled one.
  Strings are lists of bytes, so the length of a text is its length in bytes. An
  error message is kept up to its first interpolated value. \<^verbatim>\<open>u32\<close> positions and capability masks are
  words and wrap. Writes that survive an error (the relation rows written while events are built, the events
  appended before a projection fails) are returned next to the error. Where two tasks of the server run beside each
  other, each SQL statement or channel operation is a step, and what others do between two steps is an argument or a
  rule of a step relation.

  \<^bold>\<open>Results.\<close> Relations and sources: the cycle check decides; every dispatch keeps the \<^verbatim>\<open>Blocks\<close> graph acyclic,
  linking keeps the graph of sources acyclic. Claims are exclusive over all interleavings; leases are too, except for those that a
  projected \<^verbatim>\<open>FilesReserved\<close> brings back, and as long as these had been granted a fencing token still has one holder. A closed
  task holds no claim, agents that claim drain the queue of work units.
  Status: a status command takes effect; a fan-in closes once. Plans: reconciliation is sound and
  complete; fan-out waves respect and exhaust the dependencies; an ended plan has no active run; an agent ends only its
  own runs. The log: a dispatch appends one batch with the next numbers and returns it. Projections:
  the rows of a replayed log follow the lives of the tasks as their own events tell them, and redelivery of an event that carries
  its task id is harmless. Rules: the decision of the gate
  is characterised exactly. Authentication: a bearer string is accepted exactly when it should be; a pairing ticket
  works once; a revoked socket gets at most the one frame that was past its check. Delivery: a subscriber gets its events without a gap when they are published
  in log order. Snapshots are consistent cuts of the log. A device without commands of its own mirrors the server through
  every sync, bootstrap, upgrade and repair; the outbox of any device loses no event and keeps the order of each task. Idempotent commands run once per id. Conflict resolution converges. Each theory that shows a divergence of the
  code from its own documentation says so at the theorem: events published out of order, a push whose projection fails,
  a failed command over a web socket, an event a device cannot fold, relation writes of a rejected command, a pipeline
  position set by an amendment, a late reservation that doubles an exclusive lease, the frame of a revoked socket.

  \<^bold>\<open>Termination and bounds.\<close> The loops of the server end on their own: the cycle search because its step counter is
  bounded by the constant of the source, the wave loop because every wave removes a task, the
  reconciliation because every closed plan leaves the set of active ones, the parent walk because its
  depth is bounded by the constant of the source, the search for a free slug because every step passes a project. The
  loops of a device that read the log of a server take fuel (\<open>fold_server_log\<close> and with it \<open>catch_up\<close> in \<open>Replica\<close>,
  \<open>server_event_ids\<close> in \<open>Outbox\<close>), because a server may answer anything, also the same page for ever. Against a server that
  answers from its log every page moves the position, so the cursor of the device is fuel enough for a rebuild
  (\<open>server_log_ends\<close>, \<open>device_mirrors_server\<close>) and the length of the log for a search for lost events (\<open>server_ids_end\<close>).

  \<^bold>\<open>Not modelled.\<close> The routing of HTTP requests, the tools of MCP and the CLI (adapters over the same commands); the AI
  client, embeddings, webhooks, TLS, mDNS and QR images (network and I/O); the search index; the reporting repositories
  (audits, complexity, the workspace graph, the inbox, progress summaries), which only read for display; the version rows
  beside the projections; the watchdog ticks and the automatically appended log documents of the handler; the learning of
  capability profiles, whose rows are inputs of the claim of a work unit. A statement that fails for a reason of the database (I/O, a
  lock, a full disk) is not modelled either; constraints of the tables are.
\<close>

end
